(* ===== verification/Arwill_Prelude.thy ===== *)
theory Arwill_Prelude
  imports Main "HOL-Library.Word"
begin

text \<open>
  The vocabulary every component theory shares: the fixed-width integer types
  of the C sources, byte strings, C strings with their terminating NUL, buffer
  updates, ring-buffer index arithmetic, and the lemma collections that carry
  the component proofs.

  Conventions of the model. \<open>uint8_t\<close> to \<open>uint64_t\<close> are words of that width,
  so \<open>+\<close> wraps as in C. A \<open>size_t\<close> that counts or indexes an array bounded by
  a constant is a \<open>nat\<close>. A byte array is a list of bytes; a C string is a list
  of bytes that ends at its first NUL or, when it holds none, at the end of the
  list. An \<open>int\<close> used as a truth value is a \<open>bool\<close>.
\<close>

unbundle bit_operations_syntax

named_theorems word_to_nat \<open>unat of word expressions that do not wrap\<close>
named_theorems ring_index \<open>positions of a bounded ring buffer\<close>
named_theorems splice_simps \<open>reading a spliced buffer\<close>

type_synonym u8 = "8 word"
type_synonym u16 = "16 word"
type_synonym u32 = "32 word"
type_synonym u64 = "64 word"
type_synonym bytes = "u8 list"

abbreviation (input) UINT64_MAX :: u64 where "UINT64_MAX \<equiv> - 1"
abbreviation (input) UINT32_MAX :: u32 where "UINT32_MAX \<equiv> - 1"
abbreviation (input) UINT16_MAX :: u16 where "UINT16_MAX \<equiv> - 1"

definition bytes_of :: "string \<Rightarrow> bytes" where
  "bytes_of s = map of_char s"

definition chr :: "char \<Rightarrow> u8" where
  "chr c = of_char c"

text \<open>Reading a C string: past the last stored byte stands the NUL.\<close>

definition cs_at :: "bytes \<Rightarrow> nat \<Rightarrow> u8" where
  "cs_at s i = (if i < length s then s ! i else 0)"

definition c_string :: "bytes \<Rightarrow> bytes" where
  "c_string s = takeWhile (\<lambda>b. b \<noteq> 0) s"

definition splice_at :: "'a list \<Rightarrow> nat \<Rightarrow> 'a list \<Rightarrow> 'a list" where
  "splice_at xs i ys = take i xs @ ys @ drop (i + length ys) xs"


section \<open>Words that do not wrap\<close>

lemma unat_max64 [word_to_nat]: "unat UINT64_MAX = 18446744073709551615"
  by (simp add: unsigned_minus_1_eq_mask mask_eq_exp_minus_1)

lemma unat_less_64: "unat (x :: u64) < 18446744073709551616"
  by (rule order_less_le_trans [OF unsigned_less]) simp

lemma unat_less_32: "unat (x :: u32) < 4294967296"
  by (rule order_less_le_trans [OF unsigned_less]) simp

lemma unat_less_16: "unat (x :: u16) < 65536"
  by (rule order_less_le_trans [OF unsigned_less]) simp

lemma unat_less_8: "unat (x :: u8) < 256"
  by (rule order_less_le_trans [OF unsigned_less]) simp

lemma unat_add_64 [word_to_nat]:
  "unat (a :: u64) + unat b < 18446744073709551616 \<Longrightarrow> unat (a + b) = unat a + unat b"
  using unat_add_lem [of a b] by simp

lemma unat_mult_64 [word_to_nat]:
  "unat (a :: u64) * unat b < 18446744073709551616 \<Longrightarrow> unat (a * b) = unat a * unat b"
  using unat_mult_lem [of a b] by simp

lemma unat_ucast_32_64 [word_to_nat]: "unat (ucast (x :: u32) :: u64) = unat x"
  by (simp add: unsigned_ucast_eq take_bit_nat_eq_self
      order_less_trans [OF unat_less_32])

lemma max_sub_le [word_to_nat]:
  "(a :: u64) \<le> UINT64_MAX - b \<longleftrightarrow> unat a + unat b < 18446744073709551616"
proof -
  have "unat (UINT64_MAX - b) = unat UINT64_MAX - unat b"
    by (rule unat_sub) simp
  then show ?thesis
    using unat_less_64 [of b] unfolding word_le_nat_alt unat_max64 by arith
qed

section \<open>Bytes, C strings and buffers\<close>

lemma length_bytes_of [simp]: "length (bytes_of s) = length s"
  by (simp add: bytes_of_def)

lemma cs_at_less [simp]: "i < length s \<Longrightarrow> cs_at s i = s ! i"
  by (simp add: cs_at_def)

lemma cs_at_end [simp]: "length s \<le> i \<Longrightarrow> cs_at s i = 0"
  by (simp add: cs_at_def)

lemma cs_at_nonzero_less: "cs_at s i \<noteq> 0 \<Longrightarrow> i < length s"
  by (simp add: cs_at_def split: if_splits)

lemma c_string_id: "0 \<notin> set s \<Longrightarrow> c_string s = s"
  by (auto simp: c_string_def takeWhile_eq_all_conv)

lemma zero_notin_c_string [simp]: "0 \<notin> set (c_string s)"
  by (auto simp: c_string_def dest: set_takeWhileD)

lemma length_c_string_le: "length (c_string s) \<le> length s"
  by (simp add: c_string_def length_takeWhile_le)

lemma c_string_nth: "i < length (c_string s) \<Longrightarrow> c_string s ! i = s ! i"
  by (simp add: c_string_def takeWhile_nth)

lemma length_splice_at [splice_simps]:
  "i + length ys \<le> length xs \<Longrightarrow> length (splice_at xs i ys) = length xs"
  by (simp add: splice_at_def)

lemma take_splice_at [splice_simps]:
  "i \<le> length xs \<Longrightarrow> take i (splice_at xs i ys) = take i xs"
  by (simp add: splice_at_def)

lemma take_splice_at_end [splice_simps]:
  "i \<le> length xs \<Longrightarrow> take (i + length ys) (splice_at xs i ys) = take i xs @ ys"
  by (simp add: splice_at_def)

lemma splice_at_append [splice_simps]:
  "i + length ys \<le> length xs \<Longrightarrow>
   splice_at (splice_at xs i ys) (i + length ys) zs = splice_at xs i (ys @ zs)"
  by (simp add: splice_at_def add.commute add.left_commute)

lemma splice_at_Nil [splice_simps]: "splice_at xs i [] = xs"
  by (simp add: splice_at_def)

lemma list_update_splice [splice_simps]:
  "i < length xs \<Longrightarrow> xs[i := y] = splice_at xs i [y]"
  by (simp add: splice_at_def upd_conv_take_nth_drop)

lemma nth_splice_at:
  "i + length ys \<le> length xs \<Longrightarrow> j < length xs \<Longrightarrow>
   splice_at xs i ys ! j = (if i \<le> j \<and> j < i + length ys then ys ! (j - i) else xs ! j)"
  by (auto simp: splice_at_def nth_append min_def)

lemma in_set_drop_nth: "x \<in> set (drop k xs) \<longleftrightarrow> (\<exists>j. k \<le> j \<and> j < length xs \<and> xs ! j = x)"
proof
  assume "x \<in> set (drop k xs)"
  then obtain i where "i < length xs - k" and "xs ! (k + i) = x"
    by (auto simp: in_set_conv_nth)
  then show "\<exists>j. k \<le> j \<and> j < length xs \<and> xs ! j = x"
    by (intro exI [of _ "k + i"]) simp
next
  assume "\<exists>j. k \<le> j \<and> j < length xs \<and> xs ! j = x"
  then obtain j where "k \<le> j" and "j < length xs" and "xs ! j = x" by auto
  then show "x \<in> set (drop k xs)"
    unfolding in_set_conv_nth by (intro exI [of _ "j - k"]) simp
qed

lemma find_upt_Some:
  assumes "find P (map f [a..<b]) = Some y"
  obtains i where "a \<le> i" and "i < b" and "y = f i" and "P y"
    and "\<And>j. a \<le> j \<Longrightarrow> j < i \<Longrightarrow> \<not> P (f j)"
proof -
  from assms obtain k where k: "k < b - a" "y = map f [a..<b] ! k" "P y"
      and before: "\<And>j. j < k \<Longrightarrow> \<not> P (map f [a..<b] ! j)"
    unfolding find_Some_iff by auto
  have at: "map f [a..<b] ! j = f (a + j)" if "j < b - a" for j
    using that by (simp add: nth_upt)
  show ?thesis
  proof (rule that [of "a + k"])
    show "y = f (a + k)" using k at by simp
    show "\<not> P (f j)" if "a \<le> j" "j < a + k" for j
      using before [of "j - a"] at [of "j - a"] that k(1) by simp
  qed (use k in auto)
qed

lemma find_upt_None: "find P (map f [a..<b]) = None \<longleftrightarrow> (\<forall>i. a \<le> i \<and> i < b \<longrightarrow> \<not> P (f i))"
  by (auto simp: find_None_iff)

end
