(* ===== verification/Text.thy ===== *)
theory Text
  imports Arwill_Prelude "HOL-Library.Sublist"
begin

text \<open>
  \<^verbatim>\<open>kernel/text.c\<close>: length, equality and prefix test of NUL-terminated
  strings. Each loop over an index is a recursive function on that index; the
  lemmas replace the loops by the list operations they compute.
\<close>

section \<open>Definitions\<close>

function text_length_from :: "bytes \<Rightarrow> nat \<Rightarrow> nat" where
  "text_length_from text len =
     (if cs_at text len \<noteq> 0 then text_length_from text (len + 1) else len)"
  by pat_completeness auto
termination
  by (relation "measure (\<lambda>(text, i). length text - i)") (auto dest: cs_at_nonzero_less)

definition arwill_text_length :: "bytes \<Rightarrow> nat" where
  "arwill_text_length text = text_length_from text 0"

function text_equals_from :: "bytes \<Rightarrow> bytes \<Rightarrow> nat \<Rightarrow> bool" where
  "text_equals_from left right index =
     (if cs_at left index \<noteq> 0 \<and> cs_at right index \<noteq> 0
      then if cs_at left index \<noteq> cs_at right index then False
           else text_equals_from left right (index + 1)
      else cs_at left index = cs_at right index)"
  by pat_completeness auto
termination
  by (relation "measure (\<lambda>(left, right, i). length right - i)")
     (auto dest: cs_at_nonzero_less)

definition arwill_text_equals :: "bytes \<Rightarrow> bytes \<Rightarrow> bool" where
  "arwill_text_equals left right = text_equals_from left right 0"

function starts_with_from :: "bytes \<Rightarrow> bytes \<Rightarrow> nat \<Rightarrow> nat \<Rightarrow> bool" where
  "starts_with_from text pre prefix_length index =
     (if index < prefix_length
      then if cs_at text index \<noteq> cs_at pre index then False
           else starts_with_from text pre prefix_length (index + 1)
      else True)"
  by pat_completeness auto
termination
  by (relation "measure (\<lambda>(text, pre, n, i). n - i)") auto

definition arwill_text_starts_with_sized :: "bytes \<Rightarrow> bytes \<Rightarrow> nat \<Rightarrow> bool" where
  "arwill_text_starts_with_sized text pre prefix_length =
     starts_with_from text pre prefix_length 0"

definition arwill_text_starts_with :: "bytes \<Rightarrow> bytes \<Rightarrow> bool" where
  "arwill_text_starts_with text pre =
     arwill_text_starts_with_sized text pre (arwill_text_length pre)"

declare text_length_from.simps [simp del] text_equals_from.simps [simp del]
  starts_with_from.simps [simp del]

section \<open>What the loops compute\<close>

lemma text_length_from_eq:
  "i \<le> length s \<Longrightarrow> text_length_from s i = i + length (c_string (drop i s))"
proof (induction s i rule: text_length_from.induct)
  case (1 s i)
  show ?case
  proof (cases "cs_at s i \<noteq> 0")
    case True
    then have i: "i < length s" by (rule cs_at_nonzero_less)
    with True have "drop i s = s ! i # drop (Suc i) s" and "s ! i \<noteq> 0"
      by (simp_all add: Cons_nth_drop_Suc)
    with "1.IH" True i show ?thesis
      by (simp add: text_length_from.simps [of s i] c_string_def)
  next
    case False
    then have "c_string (drop i s) = []"
      by (cases "i < length s")
         (simp_all add: c_string_def Cons_nth_drop_Suc [symmetric])
    with False show ?thesis by (simp add: text_length_from.simps [of s i])
  qed
qed

lemma arwill_text_length_eq: "arwill_text_length s = length (c_string s)"
  by (simp add: arwill_text_length_def text_length_from_eq)

lemma text_equals_from_eq:
  "text_equals_from left right i \<longleftrightarrow> c_string (drop i left) = c_string (drop i right)"
proof (induction left right i rule: text_equals_from.induct)
  case (1 left right i)
  have l: "c_string (drop i left) =
      (if cs_at left i = 0 then [] else cs_at left i # c_string (drop (Suc i) left))"
    by (cases "i < length left")
       (simp_all add: c_string_def Cons_nth_drop_Suc [symmetric])
  have r: "c_string (drop i right) =
      (if cs_at right i = 0 then [] else cs_at right i # c_string (drop (Suc i) right))"
    by (cases "i < length right")
       (simp_all add: c_string_def Cons_nth_drop_Suc [symmetric])
  show ?case
    using "1.IH" by (auto simp: text_equals_from.simps [of left right i] l r)
qed

lemma arwill_text_equals_eq:
  "arwill_text_equals left right \<longleftrightarrow> c_string left = c_string right"
  by (simp add: arwill_text_equals_def text_equals_from_eq)

lemma starts_with_from_eq:
  "starts_with_from s pre n i \<longleftrightarrow> (\<forall>j. i \<le> j \<and> j < n \<longrightarrow> cs_at s j = cs_at pre j)"
proof (induction s pre n i rule: starts_with_from.induct)
  case (1 s pre n i)
  show ?case
  proof (cases "i < n \<and> cs_at s i = cs_at pre i")
    case True
    have "(\<forall>j. i \<le> j \<and> j < n \<longrightarrow> cs_at s j = cs_at pre j) \<longleftrightarrow>
        (\<forall>j. i + 1 \<le> j \<and> j < n \<longrightarrow> cs_at s j = cs_at pre j)"
      using True by (auto simp: Suc_le_eq dest: le_neq_implies_less)
    with "1.IH" True show ?thesis
      by (simp add: starts_with_from.simps [of s pre n i])
  next
    case False
    then show ?thesis
      by (auto simp: starts_with_from.simps [of s pre n i])
  qed
qed

lemma take_eq_iff_nth:
  "take (length pre) s = pre \<longleftrightarrow> (\<forall>j < length pre. j < length s \<and> s ! j = pre ! j)"
proof
  assume "take (length pre) s = pre"
  then show "\<forall>j < length pre. j < length s \<and> s ! j = pre ! j"
    by (metis length_take min_less_iff_conj nth_take)
next
  assume *: "\<forall>j < length pre. j < length s \<and> s ! j = pre ! j"
  then have "length pre \<le> length s"
    by (cases "length pre") auto
  with * show "take (length pre) s = pre"
    by (intro nth_equalityI) auto
qed

lemma arwill_text_starts_with_eq:
  assumes "0 \<notin> set pre"
  shows "arwill_text_starts_with s pre \<longleftrightarrow> prefix pre s"
proof -
  have len: "arwill_text_length pre = length pre"
    by (simp add: arwill_text_length_eq c_string_id assms)
  have "arwill_text_starts_with s pre \<longleftrightarrow> (\<forall>j < length pre. cs_at s j = pre ! j)"
    by (simp add: arwill_text_starts_with_def arwill_text_starts_with_sized_def len
        starts_with_from_eq)
  also have "\<dots> \<longleftrightarrow> (\<forall>j < length pre. j < length s \<and> s ! j = pre ! j)"
    using assms by (metis cs_at_end cs_at_less not_le nth_mem)
  also have "\<dots> \<longleftrightarrow> take (length pre) s = pre"
    by (rule take_eq_iff_nth [symmetric])
  also have "\<dots> \<longleftrightarrow> prefix pre s"
    by (auto simp: prefix_def append_eq_conv_conj) (metis append_take_drop_id)
  finally show ?thesis .
qed

lemmas text_eqs = arwill_text_length_eq arwill_text_equals_eq arwill_text_starts_with_eq

end
