(* ===== verification/Block_Device.thy ===== *)
theory Block_Device
  imports Arwill_Prelude
begin

text \<open>
  \<^verbatim>\<open>kernel/block_device.c\<close>: the bounds-checked front of a block device and the
  block region, a device that is a window of another device. The struct's
  function pointers are optional functions; a driver's \<open>read\<close> returns its status
  and the caller's buffer as it leaves it, a driver's \<open>write\<close> its status and the
  context after the call (also after a failed one). The contract of a driver is
  the locale \<open>block_store\<close>: what the medium holds is a function from byte
  addresses to bytes.
\<close>

section \<open>Definitions\<close>

record 'c arwill_block_device =
  bd_context :: 'c
  bd_name :: string
  bd_sector_size :: u32
  bd_sector_count :: u64
  bd_read :: "('c \<Rightarrow> u64 \<Rightarrow> u32 \<Rightarrow> bytes \<Rightarrow> nat \<Rightarrow> bool \<times> bytes) option"
  bd_write :: "('c \<Rightarrow> u64 \<Rightarrow> u32 \<Rightarrow> bytes \<Rightarrow> nat \<Rightarrow> bool \<times> 'c) option"

definition range_fits :: "'c arwill_block_device \<Rightarrow> u64 \<Rightarrow> u32 \<Rightarrow> bool" where
  "range_fits device lba sector_count =
     (if sector_count = 0 then False
      else if lba > UINT64_MAX - ucast sector_count then False
      else lba + ucast sector_count \<le> bd_sector_count device)"

definition buffer_fits :: "'c arwill_block_device \<Rightarrow> u32 \<Rightarrow> nat \<Rightarrow> bool" where
  "buffer_fits device sector_count buffer_size =
     (let required_size = (ucast sector_count :: u64) * ucast (bd_sector_size device)
      in if bd_sector_size device = 0 \<or> required_size > UINT64_MAX then False
         else unat required_size \<le> buffer_size)"

definition arwill_block_read ::
    "'c arwill_block_device option \<Rightarrow> u64 \<Rightarrow> u32 \<Rightarrow> bytes \<Rightarrow> nat \<Rightarrow> bool \<times> bytes" where
  "arwill_block_read device lba sector_count buffer buffer_size =
     (case device of
        None \<Rightarrow> (False, buffer)
      | Some d \<Rightarrow>
         (case bd_read d of
            None \<Rightarrow> (False, buffer)
          | Some read \<Rightarrow>
              if \<not> range_fits d lba sector_count then (False, buffer)
              else if \<not> buffer_fits d sector_count buffer_size then (False, buffer)
              else read (bd_context d) lba sector_count buffer buffer_size))"

definition arwill_block_write ::
    "'c arwill_block_device option \<Rightarrow> u64 \<Rightarrow> u32 \<Rightarrow> bytes \<Rightarrow> nat \<Rightarrow>
     bool \<times> 'c arwill_block_device option" where
  "arwill_block_write device lba sector_count buffer buffer_size =
     (case device of
        None \<Rightarrow> (False, device)
      | Some d \<Rightarrow>
         (case bd_write d of
            None \<Rightarrow> (False, device)
          | Some write \<Rightarrow>
              if \<not> range_fits d lba sector_count then (False, device)
              else if \<not> buffer_fits d sector_count buffer_size then (False, device)
              else (case write (bd_context d) lba sector_count buffer buffer_size of
                      (ok, c) \<Rightarrow> (ok, Some (d\<lparr>bd_context := c\<rparr>)))))"

text \<open>
  A region embeds the device it presents, whose context points back to the
  region. The model keeps the fields of that embedded device and builds the
  device, with the region as its context, in \<open>arwill_block_region_device\<close>.
\<close>

record 'c arwill_block_region =
  rg_parent :: "'c arwill_block_device option"
  rg_first_lba :: u64
  rg_name :: string
  rg_sector_size :: u32
  rg_sector_count :: u64
  rg_writable :: bool

definition region_read ::
    "'c arwill_block_region \<Rightarrow> u64 \<Rightarrow> u32 \<Rightarrow> bytes \<Rightarrow> nat \<Rightarrow> bool \<times> bytes" where
  "region_read region lba sector_count buffer buffer_size =
     (if rg_parent region = None \<or> lba > UINT64_MAX - rg_first_lba region
      then (False, buffer)
      else arwill_block_read (rg_parent region) (rg_first_lba region + lba)
             sector_count buffer buffer_size)"

definition region_write ::
    "'c arwill_block_region \<Rightarrow> u64 \<Rightarrow> u32 \<Rightarrow> bytes \<Rightarrow> nat \<Rightarrow>
     bool \<times> 'c arwill_block_region" where
  "region_write region lba sector_count buffer buffer_size =
     (if rg_parent region = None \<or> lba > UINT64_MAX - rg_first_lba region
      then (False, region)
      else (case arwill_block_write (rg_parent region) (rg_first_lba region + lba)
                   sector_count buffer buffer_size of
              (ok, parent) \<Rightarrow> (ok, region\<lparr>rg_parent := parent\<rparr>)))"

definition arwill_block_region_init ::
    "'c arwill_block_region \<Rightarrow> 'c arwill_block_device option \<Rightarrow> string option \<Rightarrow>
     u64 \<Rightarrow> u64 \<Rightarrow> bool \<times> 'c arwill_block_region" where
  "arwill_block_region_init region parent name first_lba sector_count =
     (let region = region\<lparr>rg_parent := None\<rparr>
      in case (parent, name) of
           (Some p, Some nm) \<Rightarrow>
             if sector_count = 0 \<or> first_lba > bd_sector_count p \<or>
                sector_count > bd_sector_count p - first_lba
             then (False, region)
             else (True, region\<lparr>rg_parent := parent, rg_first_lba := first_lba,
                     rg_name := nm, rg_sector_size := bd_sector_size p,
                     rg_sector_count := sector_count,
                     rg_writable := bd_write p \<noteq> None\<rparr>)
         | _ \<Rightarrow> (False, region))"

definition arwill_block_region_device ::
    "'c arwill_block_region \<Rightarrow> 'c arwill_block_region arwill_block_device option" where
  "arwill_block_region_device region =
     (if rg_parent region = None then None
      else Some \<lparr>bd_context = region, bd_name = rg_name region,
                 bd_sector_size = rg_sector_size region,
                 bd_sector_count = rg_sector_count region,
                 bd_read = Some region_read,
                 bd_write = (if rg_writable region then Some region_write else None)\<rparr>)"

section \<open>The bounds checks\<close>

lemma range_fits_iff:
  "range_fits d lba n \<longleftrightarrow>
     0 < unat n \<and> unat lba + unat n \<le> unat (bd_sector_count d)"
proof (cases "unat lba + unat n < 18446744073709551616")
  case True
  then have "\<not> UINT64_MAX - (ucast n :: u64) < lba"
    by (simp add: not_less max_sub_le unat_ucast_32_64)
  moreover from True have "unat (lba + ucast n) = unat lba + unat n"
    by (simp add: unat_add_64 unat_ucast_32_64)
  ultimately show ?thesis
    by (auto simp: range_fits_def word_le_nat_alt unat_gt_0)
next
  case False
  then have "UINT64_MAX - (ucast n :: u64) < lba"
    by (simp add: not_le [symmetric] max_sub_le unat_ucast_32_64)
  with False show ?thesis
    using unat_less_64 [of "bd_sector_count d"] by (auto simp: range_fits_def)
qed

lemma buffer_fits_iff:
  "buffer_fits d n sz \<longleftrightarrow>
     bd_sector_size d \<noteq> 0 \<and> unat n * unat (bd_sector_size d) \<le> sz"
proof -
  have "unat n * unat (bd_sector_size d) \<le> 4294967295 * 4294967295"
    by (rule mult_le_mono) (use unat_less_32 [of n] unat_less_32 [of "bd_sector_size d"] in linarith)+
  then have "unat ((ucast n :: u64) * ucast (bd_sector_size d)) =
      unat n * unat (bd_sector_size d)"
    by (simp add: unat_mult_64 unat_ucast_32_64)
  then show ?thesis
    by (simp add: buffer_fits_def Let_def word_le_nat_alt not_less)
qed

lemmas block_bounds = range_fits_iff buffer_fits_iff

lemma arwill_block_read_cases:
  assumes "arwill_block_read dev lba n buf sz = (True, buf')"
  obtains d rd where "dev = Some d" and "bd_read d = Some rd"
    and "range_fits d lba n" and "buffer_fits d n sz"
    and "rd (bd_context d) lba n buf sz = (True, buf')"
  using assms by (auto simp: arwill_block_read_def split: option.splits if_splits)

lemma arwill_block_write_cases:
  assumes "arwill_block_write dev lba n buf sz = (True, dev')"
  obtains d wr c where "dev = Some d" and "bd_write d = Some wr"
    and "range_fits d lba n" and "buffer_fits d n sz"
    and "wr (bd_context d) lba n buf sz = (True, c)"
    and "dev' = Some (d\<lparr>bd_context := c\<rparr>)"
  using assms by (auto simp: arwill_block_write_def split: option.splits if_splits prod.splits)


section \<open>The contract of a driver\<close>

text \<open>
  \<open>inv\<close> is the driver's own invariant on its context, \<open>image\<close> what the medium
  holds. The laws speak of requests inside the device with a large enough
  buffer, the only ones the front passes on. A failed write may leave the
  addressed sectors in any state, and no others.
\<close>

definition addressed :: "nat \<Rightarrow> u64 \<Rightarrow> u32 \<Rightarrow> nat set" where
  "addressed ss lba n = {unat lba * ss ..< (unat lba + unat n) * ss}"

definition sectors :: "(nat \<Rightarrow> u8) \<Rightarrow> nat \<Rightarrow> u64 \<Rightarrow> u32 \<Rightarrow> bytes" where
  "sectors im ss lba n = map im [unat lba * ss ..< (unat lba + unat n) * ss]"

definition overwrite :: "(nat \<Rightarrow> u8) \<Rightarrow> nat \<Rightarrow> u64 \<Rightarrow> u32 \<Rightarrow> bytes \<Rightarrow> nat \<Rightarrow> u8" where
  "overwrite im ss lba n buf a =
     (if a \<in> addressed ss lba n then buf ! (a - unat lba * ss) else im a)"

locale block_store =
  fixes rd :: "'c \<Rightarrow> u64 \<Rightarrow> u32 \<Rightarrow> bytes \<Rightarrow> nat \<Rightarrow> bool \<times> bytes"
    and wr :: "'c \<Rightarrow> u64 \<Rightarrow> u32 \<Rightarrow> bytes \<Rightarrow> nat \<Rightarrow> bool \<times> 'c"
    and inv :: "'c \<Rightarrow> bool"
    and image :: "'c \<Rightarrow> nat \<Rightarrow> u8"
    and ss :: nat
    and sc :: nat
  assumes read_image: "inv c \<Longrightarrow> 0 < unat n \<Longrightarrow> unat lba + unat n \<le> sc \<Longrightarrow>
      unat n * ss \<le> sz \<Longrightarrow> sz \<le> length buf \<Longrightarrow> rd c lba n buf sz = (True, buf') \<Longrightarrow>
      buf' = sectors (image c) ss lba n @ drop (unat n * ss) buf"
    and read_length: "inv c \<Longrightarrow> 0 < unat n \<Longrightarrow> unat lba + unat n \<le> sc \<Longrightarrow>
      unat n * ss \<le> sz \<Longrightarrow> sz \<le> length buf \<Longrightarrow> length (snd (rd c lba n buf sz)) = length buf"
    and write_image: "inv c \<Longrightarrow> 0 < unat n \<Longrightarrow> unat lba + unat n \<le> sc \<Longrightarrow>
      unat n * ss \<le> sz \<Longrightarrow> sz \<le> length buf \<Longrightarrow> wr c lba n buf sz = (True, c') \<Longrightarrow>
      image c' = overwrite (image c) ss lba n buf"
    and write_frame: "inv c \<Longrightarrow> 0 < unat n \<Longrightarrow> unat lba + unat n \<le> sc \<Longrightarrow>
      unat n * ss \<le> sz \<Longrightarrow> sz \<le> length buf \<Longrightarrow> wr c lba n buf sz = (ok, c') \<Longrightarrow>
      a \<notin> addressed ss lba n \<Longrightarrow> image c' a = image c a"
    and write_inv: "inv c \<Longrightarrow> 0 < unat n \<Longrightarrow> unat lba + unat n \<le> sc \<Longrightarrow>
      unat n * ss \<le> sz \<Longrightarrow> sz \<le> length buf \<Longrightarrow> wr c lba n buf sz = (ok, c') \<Longrightarrow> inv c'"
begin

text \<open>What a client of the front sees of a device driven by \<open>rd\<close> and \<open>wr\<close>.\<close>

definition driven :: "'c arwill_block_device \<Rightarrow> bool" where
  "driven d \<longleftrightarrow> bd_read d = Some rd \<and> bd_write d = Some wr \<and>
     unat (bd_sector_size d) = ss \<and> unat (bd_sector_count d) = sc \<and> inv (bd_context d)"

lemma front_read:
  assumes "driven d" and "arwill_block_read (Some d) lba n buf sz = (True, buf')"
    and "sz \<le> length buf"
  shows "buf' = sectors (image (bd_context d)) ss lba n @ drop (unat n * ss) buf"
    and "unat lba + unat n \<le> sc" and "0 < unat n"
proof -
  from assms(1,2) have r: "rd (bd_context d) lba n buf sz = (True, buf')"
      and f: "range_fits d lba n" "buffer_fits d n sz"
    by (auto simp: driven_def elim!: arwill_block_read_cases)
  then show "unat lba + unat n \<le> sc" and "0 < unat n"
    using assms(1) by (auto simp: driven_def block_bounds)
  show "buf' = sectors (image (bd_context d)) ss lba n @ drop (unat n * ss) buf"
    using assms(1,3) f
    by (intro read_image [OF _ _ _ _ _ r]) (auto simp: driven_def block_bounds)
qed

lemma front_read_length:
  assumes "driven d" and "sz \<le> length buf"
  shows "length (snd (arwill_block_read (Some d) lba n buf sz)) = length buf"
  using assms read_length [of "bd_context d" n lba sz buf]
  by (auto simp: arwill_block_read_def driven_def block_bounds)

lemma front_write:
  assumes "driven d" and "arwill_block_write (Some d) lba n buf sz = (True, dev')"
    and "sz \<le> length buf"
  obtains d' where "dev' = Some d'" and "driven d'"
    and "image (bd_context d') = overwrite (image (bd_context d)) ss lba n buf"
    and "unat lba + unat n \<le> sc" and "0 < unat n" and "unat n * ss \<le> sz"
    and "d' = d\<lparr>bd_context := bd_context d'\<rparr>"
proof -
  from assms(2) obtain w c where w: "bd_write d = Some w" "range_fits d lba n"
      "buffer_fits d n sz" "w (bd_context d) lba n buf sz = (True, c)"
      "dev' = Some (d\<lparr>bd_context := c\<rparr>)"
    by (auto elim: arwill_block_write_cases)
  then have wc: "wr (bd_context d) lba n buf sz = (True, c)"
    using assms(1) by (simp add: driven_def)
  have "inv c"
    using w assms(1,3)
    by (intro write_inv [OF _ _ _ _ _ wc]) (auto simp: driven_def block_bounds)
  moreover have "image c = overwrite (image (bd_context d)) ss lba n buf"
    using w assms(1,3)
    by (intro write_image [OF _ _ _ _ _ wc]) (auto simp: driven_def block_bounds)
  ultimately show ?thesis
    using w assms(1)
    by (intro that [of "d\<lparr>bd_context := c\<rparr>"]) (auto simp: driven_def block_bounds)
qed

lemma front_write_frame:
  assumes "driven d" and "arwill_block_write (Some d) lba n buf sz = (ok, dev')"
    and "sz \<le> length buf"
  obtains d' where "dev' = Some d'" and "driven d'"
    and "d' = d\<lparr>bd_context := bd_context d'\<rparr>"
    and "\<And>a. a \<notin> addressed ss lba n \<Longrightarrow> image (bd_context d') a = image (bd_context d) a"
proof (cases "range_fits d lba n \<and> buffer_fits d n sz")
  case True
  then obtain c where c: "wr (bd_context d) lba n buf sz = (ok, c)"
      and dev': "dev' = Some (d\<lparr>bd_context := c\<rparr>)"
    using assms(1,2) by (auto simp: arwill_block_write_def driven_def split: prod.splits)
  show ?thesis
  proof (rule that [OF dev'])
    show "driven (d\<lparr>bd_context := c\<rparr>)"
      using True assms(1,3) write_inv [OF _ _ _ _ _ c] by (auto simp: driven_def block_bounds)
    show "image (bd_context (d\<lparr>bd_context := c\<rparr>)) a = image (bd_context d) a"
      if "a \<notin> addressed ss lba n" for a
      using True assms(1,3) write_frame [OF _ _ _ _ _ c that] by (auto simp: driven_def block_bounds)
  qed simp
next
  case False
  with assms(1,2) have "dev' = Some d"
    by (auto simp: arwill_block_write_def driven_def split: if_splits)
  with assms(1) show ?thesis by (intro that [of d]) auto
qed

end

text \<open>A driver that never fails on a request inside the device.\<close>

locale reliable_block_store = block_store +
  assumes read_ok: "inv c \<Longrightarrow> 0 < unat n \<Longrightarrow> unat lba + unat n \<le> sc \<Longrightarrow>
      unat n * ss \<le> sz \<Longrightarrow> fst (rd c lba n buf sz)"
    and write_ok: "inv c \<Longrightarrow> 0 < unat n \<Longrightarrow> unat lba + unat n \<le> sc \<Longrightarrow>
      unat n * ss \<le> sz \<Longrightarrow> fst (wr c lba n buf sz)"
    and ss_pos: "0 < ss"
begin

lemma front_read_ok:
  assumes "driven d" and "0 < unat n" and "unat lba + unat n \<le> sc"
    and "unat n * ss \<le> sz" and "sz \<le> length buf"
  shows "arwill_block_read (Some d) lba n buf sz =
      (True, sectors (image (bd_context d)) ss lba n @ drop (unat n * ss) buf)"
proof -
  have "bd_sector_size d \<noteq> 0"
    using assms(1) ss_pos by (auto simp: driven_def)
  moreover have "fst (rd (bd_context d) lba n buf sz)"
    using assms by (intro read_ok) (auto simp: driven_def)
  then obtain buf' where "rd (bd_context d) lba n buf sz = (True, buf')"
    by (cases "rd (bd_context d) lba n buf sz") auto
  ultimately have r: "arwill_block_read (Some d) lba n buf sz = (True, buf')"
    using assms by (simp add: arwill_block_read_def block_bounds driven_def)
  with front_read(1) [OF assms(1) r assms(5)] show ?thesis by simp
qed

lemma front_write_ok:
  assumes "driven d" and "0 < unat n" and "unat lba + unat n \<le> sc" and "unat n * ss \<le> sz"
  shows "fst (arwill_block_write (Some d) lba n buf sz)"
proof -
  have "bd_sector_size d \<noteq> 0"
    using assms(1) ss_pos by (auto simp: driven_def)
  moreover have "fst (wr (bd_context d) lba n buf sz)"
    using assms by (intro write_ok) (auto simp: driven_def)
  ultimately show ?thesis
    using assms by (auto simp: arwill_block_write_def block_bounds driven_def split: prod.splits)
qed

end

section \<open>A region of a lawful device is a lawful device\<close>

lemma sectors_shift:
  assumes "unat (first + lba) = unat first + unat lba"
  shows "sectors im ss (first + lba) n = sectors (\<lambda>a. im (unat first * ss + a)) ss lba n"
  by (rule nth_equalityI) (auto simp: sectors_def assms add_mult_distrib algebra_simps)

lemma addressed_shift:
  assumes "unat (first + lba) = unat first + unat lba"
  shows "unat first * ss + a \<in> addressed ss (first + lba) n \<longleftrightarrow> a \<in> addressed ss lba n"
  by (auto simp: addressed_def assms add_mult_distrib)

lemma overwrite_shift:
  assumes "unat (first + lba) = unat first + unat lba"
  shows "overwrite im ss (first + lba) n buf (unat first * ss + a) =
      overwrite (\<lambda>a. im (unat first * ss + a)) ss lba n buf a"
proof -
  have "unat first * ss + a - (unat first + unat lba) * ss = a - unat lba * ss"
    by (simp add: add_mult_distrib)
  then show ?thesis
    by (simp add: overwrite_def addressed_shift assms)
qed

lemma addressed_window:
  assumes "unat (first + lba) = unat first + unat lba" and "unat lba + unat n \<le> unat count"
    and "a \<in> addressed ss (first + lba) n"
  shows "unat first * ss \<le> a \<and> a < (unat first + unat count) * ss"
proof -
  have "(unat first + unat lba + unat n) * ss \<le> (unat first + unat count) * ss"
    using assms(2) by (intro mult_le_mono1) simp
  with assms(1,3) show ?thesis
    by (auto simp: addressed_def add_mult_distrib)
qed

locale region_window = block_store +
  fixes first :: u64 and count :: u64
  assumes window: "unat first + unat count \<le> sc"
    and ss_nonzero: "0 < ss"
begin

definition region_inv :: "'a arwill_block_region \<Rightarrow> bool" where
  "region_inv rg \<longleftrightarrow> (\<exists>p. rg_parent rg = Some p \<and> driven p) \<and> rg_first_lba rg = first"

definition region_image :: "'a arwill_block_region \<Rightarrow> nat \<Rightarrow> u8" where
  "region_image rg a = image (bd_context (the (rg_parent rg))) (unat first * ss + a)"

lemma first_plus_lba:
  assumes "driven p" and "0 < unat n" and "unat lba + unat n \<le> unat count"
  shows "unat (first + lba) = unat first + unat lba" and "lba \<le> UINT64_MAX - first"
proof -
  have "unat first + unat lba < 18446744073709551616"
    using assms window unat_less_64 [of "bd_sector_count p"] by (simp add: driven_def)
  then show "unat (first + lba) = unat first + unat lba" and "lba \<le> UINT64_MAX - first"
    by (simp_all add: unat_add_64 max_sub_le add.commute)
qed

lemma region_not_past:
  assumes "region_inv rg" and "0 < unat n" and "unat lba + unat n \<le> unat count"
  obtains p where "rg_parent rg = Some p" and "driven p" and "rg_first_lba rg = first"
    and "\<not> UINT64_MAX - first < lba" and "unat (first + lba) = unat first + unat lba"
proof -
  from assms(1) obtain p where p: "rg_parent rg = Some p" "driven p" "rg_first_lba rg = first"
    by (auto simp: region_inv_def)
  with first_plus_lba [OF p(2) assms(2,3)] show ?thesis
    by (intro that [of p]) (simp_all add: not_less)
qed

lemma region_write_parent:
  assumes "region_inv rg" and "0 < unat n" and "unat lba + unat n \<le> unat count"
    and "region_write rg lba n buf sz = (ok, rg')"
  obtains p dev' where "rg_parent rg = Some p" and "driven p"
    and "arwill_block_write (Some p) (first + lba) n buf sz = (ok, dev')"
    and "rg' = rg\<lparr>rg_parent := dev'\<rparr>" and "unat (first + lba) = unat first + unat lba"
proof -
  from assms(1-3) obtain p where "rg_parent rg = Some p" "driven p" "rg_first_lba rg = first"
      "\<not> UINT64_MAX - first < lba" "unat (first + lba) = unat first + unat lba"
    by (rule region_not_past)
  with assms(4) show ?thesis
    by (auto simp: region_write_def split: prod.splits intro: that)
qed

lemma region_read_law:
  assumes "region_inv c" and "0 < unat n" and "unat lba + unat n \<le> unat count"
    and "unat n * ss \<le> sz" and "sz \<le> length buf"
    and "region_read c lba n buf sz = (True, buf')"
  shows "buf' = sectors (region_image c) ss lba n @ drop (unat n * ss) buf"
proof -
  from assms(1-3) obtain p where p: "rg_parent c = Some p" "driven p" "rg_first_lba c = first"
      "\<not> UINT64_MAX - first < lba" "unat (first + lba) = unat first + unat lba"
    by (rule region_not_past)
  with assms(6) have "arwill_block_read (Some p) (first + lba) n buf sz = (True, buf')"
    by (simp add: region_read_def)
  from front_read(1) [OF p(2) this assms(5)] p(1) show ?thesis
    by (simp add: sectors_shift [OF p(5)] region_image_def [abs_def])
qed

lemma region_length_law:
  assumes "region_inv c" and "0 < unat n" and "unat lba + unat n \<le> unat count"
    and "unat n * ss \<le> sz" and "sz \<le> length buf"
  shows "length (snd (region_read c lba n buf sz)) = length buf"
proof -
  from assms(1-3) obtain p where p: "rg_parent c = Some p" "driven p" "rg_first_lba c = first"
      "\<not> UINT64_MAX - first < lba"
    by (rule region_not_past)
  with front_read_length [OF p(2) assms(5)] show ?thesis by (simp add: region_read_def)
qed

lemma region_write_law:
  assumes "region_inv c" and "0 < unat n" and "unat lba + unat n \<le> unat count"
    and "unat n * ss \<le> sz" and "sz \<le> length buf"
    and "region_write c lba n buf sz = (True, c')"
  shows "region_image c' = overwrite (region_image c) ss lba n buf"
proof -
  from assms(1-3,6) obtain p dev' where p: "rg_parent c = Some p" "driven p"
      "arwill_block_write (Some p) (first + lba) n buf sz = (True, dev')"
      "c' = c\<lparr>rg_parent := dev'\<rparr>" "unat (first + lba) = unat first + unat lba"
    by (rule region_write_parent)
  from front_write [OF p(2,3) assms(5)] obtain p' where "dev' = Some p'"
      "image (bd_context p') = overwrite (image (bd_context p)) ss (first + lba) n buf"
    by metis
  with p show ?thesis
    by (simp add: region_image_def [abs_def] overwrite_shift)
qed

lemma region_frame_law:
  assumes "region_inv c" and "0 < unat n" and "unat lba + unat n \<le> unat count"
    and "unat n * ss \<le> sz" and "sz \<le> length buf"
    and "region_write c lba n buf sz = (ok, c')"
  shows "region_inv c'" and "a \<notin> addressed ss lba n \<Longrightarrow> region_image c' a = region_image c a"
proof -
  from assms(1-3,6) obtain p dev' where p: "rg_parent c = Some p" "driven p"
      "arwill_block_write (Some p) (first + lba) n buf sz = (ok, dev')"
      "c' = c\<lparr>rg_parent := dev'\<rparr>" "unat (first + lba) = unat first + unat lba"
    by (rule region_write_parent)
  from front_write_frame [OF p(2,3) assms(5)] obtain p' where p': "dev' = Some p'" "driven p'"
      "\<And>a. a \<notin> addressed ss (first + lba) n \<Longrightarrow>
         image (bd_context p') a = image (bd_context p) a"
    by metis
  with p assms(1) show "region_inv c'"
    by (simp add: region_inv_def)
  show "a \<notin> addressed ss lba n \<Longrightarrow> region_image c' a = region_image c a"
    using p p' by (simp add: region_image_def addressed_shift)
qed

text \<open>Every byte of the parent outside the window keeps its value.\<close>

lemma region_confined:
  assumes "region_inv c" and "0 < unat n" and "unat lba + unat n \<le> unat count"
    and "sz \<le> length buf" and "region_write c lba n buf sz = (ok, c')"
    and "a < unat first * ss \<or> (unat first + unat count) * ss \<le> a"
  shows "image (bd_context (the (rg_parent c'))) a = image (bd_context (the (rg_parent c))) a"
proof -
  from assms(1-3,5) obtain p dev' where p: "rg_parent c = Some p" "driven p"
      "arwill_block_write (Some p) (first + lba) n buf sz = (ok, dev')"
      "c' = c\<lparr>rg_parent := dev'\<rparr>" "unat (first + lba) = unat first + unat lba"
    by (rule region_write_parent)
  have "a \<notin> addressed ss (first + lba) n"
    using addressed_window [OF p(5) assms(3)] assms(6) by force
  with front_write_frame [OF p(2,3) assms(4)] show ?thesis
    by (metis p(1,4) arwill_block_region.select_convs(1) arwill_block_region.surjective
        arwill_block_region.update_convs(1) option.sel)
qed

end

sublocale region_window \<subseteq> region: block_store region_read region_write region_inv region_image ss "unat count"
  by unfold_locales (fact region_read_law region_length_law region_write_law region_frame_law)+

section \<open>The memory device of the tests\<close>

text \<open>
  \<^verbatim>\<open>tests/block_device_test.c\<close>: a device whose medium is memory, with the
  sector size (4 there) as a parameter and the byte array as a function. It
  shows that the contract can be met.
\<close>

definition memory_read :: "nat \<Rightarrow> (nat \<Rightarrow> u8) \<Rightarrow> u64 \<Rightarrow> u32 \<Rightarrow> bytes \<Rightarrow> nat \<Rightarrow> bool \<times> bytes" where
  "memory_read ss memory lba sector_count buffer buffer_size =
     (let byte_count = unat sector_count * ss; offset = unat lba * ss
      in if buffer_size < byte_count then (False, buffer)
         else (True, map (\<lambda>index. memory (offset + index)) [0..<byte_count] @
                     drop byte_count buffer))"

definition memory_write ::
    "nat \<Rightarrow> (nat \<Rightarrow> u8) \<Rightarrow> u64 \<Rightarrow> u32 \<Rightarrow> bytes \<Rightarrow> nat \<Rightarrow> bool \<times> (nat \<Rightarrow> u8)" where
  "memory_write ss memory lba sector_count buffer buffer_size =
     (let byte_count = unat sector_count * ss; offset = unat lba * ss
      in if buffer_size < byte_count then (False, memory)
         else (True, \<lambda>a. if offset \<le> a \<and> a < offset + byte_count
                         then buffer ! (a - offset) else memory a))"

lemma memory_reliable:
  assumes "0 < ss"
  shows "reliable_block_store (memory_read ss) (memory_write ss) (\<lambda>_. True) (\<lambda>m. m) ss sc"
proof
  fix c :: "nat \<Rightarrow> u8" and n :: u32 and lba :: u64 and sz :: nat and buf buf' :: bytes
  assume "unat n * ss \<le> sz" and "memory_read ss c lba n buf sz = (True, buf')"
  then show "buf' = sectors c ss lba n @ drop (unat n * ss) buf"
    by (auto simp: memory_read_def Let_def sectors_def add_mult_distrib
        intro!: nth_equalityI split: if_splits)
qed (use assms in \<open>auto simp: memory_read_def memory_write_def Let_def overwrite_def
      addressed_def add_mult_distrib split: if_splits\<close>)

interpretation sector_memory: reliable_block_store
  "memory_read 512" "memory_write 512" "\<lambda>_. True" "\<lambda>m. m" 512 sc for sc
  by (rule memory_reliable) simp

section \<open>Properties\<close>

lemma region_init_cases:
  assumes "arwill_block_region_init rg0 (Some p) nm first count = (True, rg)"
  shows "rg_parent rg = Some p" and "rg_first_lba rg = first" and "rg_sector_count rg = count"
    and "rg_sector_size rg = bd_sector_size p" and "rg_writable rg \<longleftrightarrow> bd_write p \<noteq> None"
    and "0 < unat count" and "unat first + unat count \<le> unat (bd_sector_count p)"
proof -
  from assms have le: "first \<le> bd_sector_count p" and c: "count \<le> bd_sector_count p - first"
      and nz: "count \<noteq> 0"
    by (auto simp: arwill_block_region_init_def Let_def not_less split: option.splits if_splits)
  from le c show "unat first + unat count \<le> unat (bd_sector_count p)"
    by (simp add: word_le_nat_alt unat_sub)
  from nz show "0 < unat count" by (simp add: unat_gt_0)
  show "rg_parent rg = Some p" and "rg_first_lba rg = first" and "rg_sector_count rg = count"
    and "rg_sector_size rg = bd_sector_size p" and "rg_writable rg \<longleftrightarrow> bd_write p \<noteq> None"
    using assms
    by (auto simp: arwill_block_region_init_def Let_def split: option.splits if_splits)
qed

text \<open>
  C26. Region confinement: whatever a client writes through the device of an
  initialised region, in or out of bounds, successful or not, no byte of the
  parent device outside the region's window changes. (The ARFS region cannot
  reach the boot sectors of the system disk.)
\<close>

theorem region_write_confined:
  assumes store: "block_store rd wr ok_ctx im ss (unat (bd_sector_count p))"
    and p: "bd_read p = Some rd" "bd_write p = Some wr" "ok_ctx (bd_context p)"
      "unat (bd_sector_size p) = ss" "0 < ss"
    and init: "arwill_block_region_init rg0 (Some p) nm first count = (True, rg)"
    and wrt: "arwill_block_write (arwill_block_region_device rg) lba n buf (length buf) =
      (ok, Some d)"
    and outside: "a < unat first * ss \<or> (unat first + unat count) * ss \<le> a"
  shows "im (bd_context (the (rg_parent (bd_context d)))) a = im (bd_context p) a"
proof -
  note i = region_init_cases [OF init]
  have rw: "region_window rd wr ok_ctx im ss (unat (bd_sector_count p)) first count"
    using store i(7) p(5) by (intro region_window.intro region_window_axioms.intro)
  have dev: "arwill_block_region_device rg = Some \<lparr>bd_context = rg, bd_name = rg_name rg,
      bd_sector_size = bd_sector_size p, bd_sector_count = count,
      bd_read = Some region_read, bd_write = Some region_write\<rparr>" (is "_ = Some ?d")
    using i p(2) by (simp add: arwill_block_region_device_def)
  have inv: "region_window.region_inv rd wr ok_ctx ss (unat (bd_sector_count p)) first rg"
    using i p by (simp add: region_window.region_inv_def [OF rw] block_store.driven_def [OF store])
  show ?thesis
  proof (cases "range_fits ?d lba n \<and> buffer_fits ?d n (length buf)")
    case True
    then obtain c where w: "region_write rg lba n buf (length buf) = (ok, c)"
        and d: "d = ?d\<lparr>bd_context := c\<rparr>"
      using wrt by (auto simp: dev arwill_block_write_def split: prod.splits)
    from True have "0 < unat n" and "unat lba + unat n \<le> unat count"
      by (simp_all add: block_bounds)
    from region_window.region_confined [OF rw inv this le_refl w outside] show ?thesis
      by (simp add: d i(1))
  next
    case False
    with wrt have "d = ?d" by (auto simp: dev arwill_block_write_def split: if_splits)
    then show ?thesis by (simp add: i(1))
  qed
qed

definition demo_disk :: "(nat \<Rightarrow> u8) arwill_block_device" where
  "demo_disk = \<lparr>bd_context = (\<lambda>_. 0), bd_name = ''memory'', bd_sector_size = 512,
     bd_sector_count = 64, bd_read = Some (memory_read 512),
     bd_write = Some (memory_write 512)\<rparr>"

definition blank_region :: "(nat \<Rightarrow> u8) arwill_block_region" where
  "blank_region = \<lparr>rg_parent = None, rg_first_lba = 0, rg_name = [], rg_sector_size = 0,
     rg_sector_count = 0, rg_writable = False\<rparr>"

lemma demo_disk_store:
  "block_store (memory_read 512) (memory_write 512) (\<lambda>_. True) (\<lambda>m. m) 512
     (unat (bd_sector_count demo_disk))"
  by (rule sector_memory.block_store_axioms)

theorem region_write_confined_witness:
  "\<exists>rg d. arwill_block_region_init blank_region (Some demo_disk) (Some ''arfs'') 32 16 = (True, rg) \<and>
     arwill_block_write (arwill_block_region_device rg) 2 1 (replicate 512 7) 512 = (True, Some d) \<and>
     bd_context (the (rg_parent (bd_context d))) 5 = bd_context demo_disk 5"
proof -
  obtain rg where rg: "arwill_block_region_init blank_region (Some demo_disk) (Some ''arfs'') 32 16 =
      (True, rg)"
    by (simp add: arwill_block_region_init_def demo_disk_def Let_def)
  note i = region_init_cases [OF rg]
  obtain d where d: "arwill_block_write (arwill_block_region_device rg) 2 1 (replicate 512 7)
      (length (replicate 512 (7::u8))) = (True, Some d)"
    using i by (auto simp: arwill_block_write_def arwill_block_region_device_def block_bounds
        demo_disk_def region_write_def memory_write_def Let_def)
  have "bd_context (the (rg_parent (bd_context d))) 5 = bd_context demo_disk 5"
    by (rule region_write_confined [OF demo_disk_store _ _ _ _ _ rg d])
       (simp_all add: demo_disk_def)
  with rg d show ?thesis by auto
qed

end
