(* ===== verification/Filesystem.thy ===== *)
theory Filesystem
  imports Arwill_Prelude
begin

text \<open>
  \<^verbatim>\<open>include/arwill/kernel/filesystem.h\<close> and \<^verbatim>\<open>kernel/filesystem.c\<close>: the file
  system interface, a struct of function pointers over a context, and the
  front that checks its arguments and clears the caller's out-parameters
  before it dispatches. A null filesystem, function or path is \<open>None\<close>.
\<close>

section \<open>Definitions\<close>

datatype arwill_fs_entry_type = Entry_directory | Entry_file

datatype arwill_fs_file_type = File_text | File_binary

record arwill_fs_entry =
  fse_name :: bytes
  fse_type :: arwill_fs_entry_type
  fse_size_bytes :: u64

type_synonym arwill_fs_listing = "arwill_fs_entry list"

record arwill_fs_file =
  fsf_type :: arwill_fs_file_type
  fsf_contents :: "bytes option"
  fsf_size_bytes :: u64

record arwill_fs_storage_stats =
  st_entries_used :: nat
  st_entries_capacity :: nat
  st_manifest_sectors :: u64
  st_data_sectors :: u64
  st_used_data_sectors :: u64
  st_free_data_sectors :: u64
  st_largest_free_run_sectors :: u64
  st_max_path_bytes :: nat
  st_max_file_bytes :: nat

record 'f arwill_filesystem =
  fs_name :: string
  fs_context :: 'f
  fs_list :: "('f \<Rightarrow> bytes \<Rightarrow> arwill_fs_listing \<Rightarrow> bool \<times> arwill_fs_listing \<times> 'f) option"
  fs_read_file :: "('f \<Rightarrow> bytes \<Rightarrow> arwill_fs_file \<Rightarrow> bool \<times> arwill_fs_file \<times> 'f) option"
  fs_create_directory :: "('f \<Rightarrow> bytes \<Rightarrow> bool \<times> 'f) option"
  fs_write_bytes :: "('f \<Rightarrow> bytes \<Rightarrow> arwill_fs_file_type \<Rightarrow> bytes option \<Rightarrow> nat \<Rightarrow> bool \<times> 'f) option"
  fs_remove :: "('f \<Rightarrow> bytes \<Rightarrow> bool \<times> 'f) option"
  fs_storage_stats :: "('f \<Rightarrow> arwill_fs_storage_stats \<Rightarrow> bool \<times> arwill_fs_storage_stats) option"

definition arwill_filesystem_list ::
    "'f arwill_filesystem option \<Rightarrow> bytes option \<Rightarrow> arwill_fs_listing \<Rightarrow>
     bool \<times> arwill_fs_listing \<times> 'f arwill_filesystem option" where
  "arwill_filesystem_list filesystem path listing =
     (let listing = []
      in case filesystem of
           None \<Rightarrow> (False, listing, filesystem)
         | Some fs \<Rightarrow>
            (case (fs_list fs, path) of
               (Some f, Some p) \<Rightarrow>
                 (case f (fs_context fs) p listing of
                    (ok, l, c) \<Rightarrow> (ok, l, Some (fs\<lparr>fs_context := c\<rparr>)))
             | _ \<Rightarrow> (False, listing, filesystem)))"

definition arwill_filesystem_read_file ::
    "'f arwill_filesystem option \<Rightarrow> bytes option \<Rightarrow> arwill_fs_file \<Rightarrow>
     bool \<times> arwill_fs_file \<times> 'f arwill_filesystem option" where
  "arwill_filesystem_read_file filesystem path file =
     (let file = file\<lparr>fsf_type := File_text, fsf_contents := None, fsf_size_bytes := 0\<rparr>
      in case filesystem of
           None \<Rightarrow> (False, file, filesystem)
         | Some fs \<Rightarrow>
            (case (fs_read_file fs, path) of
               (Some f, Some p) \<Rightarrow>
                 (case f (fs_context fs) p file of
                    (ok, r, c) \<Rightarrow> (ok, r, Some (fs\<lparr>fs_context := c\<rparr>)))
             | _ \<Rightarrow> (False, file, filesystem)))"

definition arwill_filesystem_create_directory ::
    "'f arwill_filesystem option \<Rightarrow> bytes option \<Rightarrow> bool \<times> 'f arwill_filesystem option" where
  "arwill_filesystem_create_directory filesystem path =
     (case filesystem of
        None \<Rightarrow> (False, filesystem)
      | Some fs \<Rightarrow>
         (case (fs_create_directory fs, path) of
            (Some f, Some p) \<Rightarrow>
              (case f (fs_context fs) p of (ok, c) \<Rightarrow> (ok, Some (fs\<lparr>fs_context := c\<rparr>)))
          | _ \<Rightarrow> (False, filesystem)))"

definition arwill_filesystem_write_bytes ::
    "'f arwill_filesystem option \<Rightarrow> bytes option \<Rightarrow> arwill_fs_file_type \<Rightarrow> bytes option \<Rightarrow> nat \<Rightarrow>
     bool \<times> 'f arwill_filesystem option" where
  "arwill_filesystem_write_bytes filesystem path type contents len =
     (case filesystem of
        None \<Rightarrow> (False, filesystem)
      | Some fs \<Rightarrow>
         (case (fs_write_bytes fs, path) of
            (Some f, Some p) \<Rightarrow>
              if contents = None \<and> len \<noteq> 0 then (False, filesystem)
              else (case f (fs_context fs) p type contents len of
                      (ok, c) \<Rightarrow> (ok, Some (fs\<lparr>fs_context := c\<rparr>)))
          | _ \<Rightarrow> (False, filesystem)))"

definition arwill_filesystem_remove ::
    "'f arwill_filesystem option \<Rightarrow> bytes option \<Rightarrow> bool \<times> 'f arwill_filesystem option" where
  "arwill_filesystem_remove filesystem path =
     (case filesystem of
        None \<Rightarrow> (False, filesystem)
      | Some fs \<Rightarrow>
         (case (fs_remove fs, path) of
            (Some f, Some p) \<Rightarrow>
              (case f (fs_context fs) p of (ok, c) \<Rightarrow> (ok, Some (fs\<lparr>fs_context := c\<rparr>)))
          | _ \<Rightarrow> (False, filesystem)))"

definition arwill_filesystem_storage_stats ::
    "'f arwill_filesystem option \<Rightarrow> arwill_fs_storage_stats \<Rightarrow> bool \<times> arwill_fs_storage_stats" where
  "arwill_filesystem_storage_stats filesystem stats =
     (let stats = stats\<lparr>st_entries_used := 0, st_entries_capacity := 0,
            st_manifest_sectors := 0, st_data_sectors := 0, st_used_data_sectors := 0,
            st_free_data_sectors := 0, st_largest_free_run_sectors := 0,
            st_max_path_bytes := 0, st_max_file_bytes := 0\<rparr>
      in case filesystem of
           None \<Rightarrow> (False, stats)
         | Some fs \<Rightarrow>
            (case fs_storage_stats fs of
               None \<Rightarrow> (False, stats)
             | Some f \<Rightarrow> f (fs_context fs) stats))"

end
