(* ===== verification/Arfs_Manifest.thy ===== *)
theory Arfs_Manifest
  imports Text Block_Device Filesystem
begin

text \<open>
  The first half of \<^verbatim>\<open>kernel/arfs.c\<close>: the entry table with its bounded copies,
  and the manifest, the text form of the table on the disk, with its parser and
  its printer. Cursors into a line are the rest of the line; the loops over
  blanks, digits and line ends are \<open>dropWhile\<close> and \<open>takeWhile\<close>. A \<open>char\<close> array
  that holds a C string is that string's bytes without the NUL.
\<close>

section \<open>Definitions\<close>

abbreviation (input) arfs_sector_size :: nat where "arfs_sector_size \<equiv> 512"
abbreviation (input) arfs_max_manifest_sectors :: nat where "arfs_max_manifest_sectors \<equiv> 2"
abbreviation (input) arfs_max_entries :: nat where "arfs_max_entries \<equiv> 24"
abbreviation (input) arfs_max_listing_entries :: nat where "arfs_max_listing_entries \<equiv> 24"
abbreviation (input) arfs_max_path_length :: nat where "arfs_max_path_length \<equiv> 64"
abbreviation (input) arfs_max_name_length :: nat where "arfs_max_name_length \<equiv> 32"
abbreviation (input) arfs_file_buffer_capacity :: nat where "arfs_file_buffer_capacity \<equiv> 196609"
abbreviation (input) arfs_write_buffer_capacity :: nat where "arfs_write_buffer_capacity \<equiv> 8192"
abbreviation (input) arfs_manifest_capacity :: nat where
  "arfs_manifest_capacity \<equiv> arfs_max_manifest_sectors * arfs_sector_size"

abbreviation (input) slash :: u8 where "slash \<equiv> 0x2F"
abbreviation (input) space :: u8 where "space \<equiv> 0x20"
abbreviation (input) newline :: u8 where "newline \<equiv> 0x0A"
abbreviation (input) carriage_return :: u8 where "carriage_return \<equiv> 0x0D"

datatype arfs_entry_kind = Arfs_directory | Arfs_file

record arfs_entry =
  ent_kind :: arfs_entry_kind
  ent_file_type :: arwill_fs_file_type
  ent_path :: bytes
  ent_name :: bytes
  ent_data_lba :: u64
  ent_size_bytes :: u64

record 'c arfs_context =
  ar_block_device :: "'c arwill_block_device option"
  ar_entries :: "arfs_entry list"
  ar_entry_count :: nat
  ar_manifest :: bytes
  ar_file_buffer :: bytes
  ar_manifest_lba :: u64
  ar_manifest_sectors :: u64
  ar_data_lba :: u64

definition copy_token :: "bytes \<Rightarrow> nat \<Rightarrow> bytes \<Rightarrow> nat \<Rightarrow> bool \<times> bytes" where
  "copy_token destination capacity source len =
     (if capacity = 0 \<or> len \<ge> capacity then (False, destination)
      else (True, map (cs_at source) [0..<len]))"

fun parse_decimal_loop :: "u64 \<Rightarrow> bytes \<Rightarrow> u64 option" where
  "parse_decimal_loop result [] = Some result"
| "parse_decimal_loop result (b # bs) =
     (if b < 0x30 \<or> b > 0x39 then None
      else let digit = ucast (b - 0x30)
           in if result > (UINT64_MAX - digit) div 10 then None
              else parse_decimal_loop (result * 10 + digit) bs)"

definition parse_decimal_token :: "bytes \<Rightarrow> nat \<Rightarrow> u64 option" where
  "parse_decimal_token text len =
     (if len = 0 then None else parse_decimal_loop 0 (map (cs_at text) [0..<len]))"

definition next_token :: "bytes \<Rightarrow> bytes \<times> bytes" where
  "next_token cursor =
     (let token_start = dropWhile (\<lambda>b. b = space) cursor;
          token = takeWhile (\<lambda>b. b \<noteq> space) token_start
      in (token, drop (length token) token_start))"

definition last_slash_from :: "nat \<Rightarrow> bytes \<Rightarrow> nat \<Rightarrow> nat" where
  "last_slash_from start path len =
     foldl (\<lambda>last index. if cs_at path index = slash then index else last) 0 [start..<len]"

definition derive_name :: "bytes \<Rightarrow> bytes \<Rightarrow> nat \<Rightarrow> bytes" where
  "derive_name path name capacity =
     (let len = arwill_text_length path;
          last_slash = last_slash_from 0 path len
      in if last_slash + 1 \<ge> len then snd (copy_token name capacity (bytes_of ''/'') 1)
         else snd (copy_token name capacity (drop (last_slash + 1) path) (len - last_slash - 1)))"

definition add_directory_entry :: "'c arfs_context \<Rightarrow> bytes \<Rightarrow> nat \<Rightarrow> bool \<times> 'c arfs_context" where
  "add_directory_entry s path path_length =
     (if ar_entry_count s \<ge> arfs_max_entries then (False, s)
      else let n = ar_entry_count s;
               entry = (ar_entries s ! n)\<lparr>ent_kind := Arfs_directory,
                 ent_file_type := File_binary, ent_data_lba := 0, ent_size_bytes := 0\<rparr>
           in case copy_token (ent_path entry) arfs_max_path_length path path_length of
                (False, _) \<Rightarrow> (False, s\<lparr>ar_entries := (ar_entries s)[n := entry]\<rparr>)
              | (True, p) \<Rightarrow>
                  let entry = entry\<lparr>ent_path := p,
                        ent_name := derive_name p (ent_name entry) arfs_max_name_length\<rparr>
                  in (True, s\<lparr>ar_entries := (ar_entries s)[n := entry], ar_entry_count := n + 1\<rparr>))"

definition add_file_entry ::
    "'c arfs_context \<Rightarrow> bytes \<Rightarrow> nat \<Rightarrow> bytes \<Rightarrow> nat \<Rightarrow> u64 \<Rightarrow> u64 \<Rightarrow> bool \<times> 'c arfs_context" where
  "add_file_entry s path path_length type type_length data_lba size_bytes =
     (if ar_entry_count s \<ge> arfs_max_entries then (False, s)
      else let n = ar_entry_count s;
               entry = (ar_entries s ! n)\<lparr>ent_kind := Arfs_file,
                 ent_data_lba := data_lba, ent_size_bytes := size_bytes\<rparr>;
               typed = (if type_length = 4 \<and> arwill_text_starts_with type (bytes_of ''text'')
                        then Some (entry\<lparr>ent_file_type := File_text\<rparr>)
                        else if type_length = 6 \<and> arwill_text_starts_with type (bytes_of ''binary'')
                        then Some (entry\<lparr>ent_file_type := File_binary\<rparr>)
                        else None)
           in case typed of
                None \<Rightarrow> (False, s\<lparr>ar_entries := (ar_entries s)[n := entry]\<rparr>)
              | Some entry \<Rightarrow>
                 (case copy_token (ent_path entry) arfs_max_path_length path path_length of
                    (False, _) \<Rightarrow> (False, s\<lparr>ar_entries := (ar_entries s)[n := entry]\<rparr>)
                  | (True, p) \<Rightarrow>
                      let entry = entry\<lparr>ent_path := p,
                            ent_name := derive_name p (ent_name entry) arfs_max_name_length\<rparr>
                      in (True, s\<lparr>ar_entries := (ar_entries s)[n := entry],
                                 ar_entry_count := n + 1\<rparr>)))"

definition parse_directory_line :: "'c arfs_context \<Rightarrow> bytes \<Rightarrow> bool \<times> 'c arfs_context" where
  "parse_directory_line s cursor =
     (case next_token cursor of (path, _) \<Rightarrow> add_directory_entry s path (length path))"

definition parse_file_line :: "'c arfs_context \<Rightarrow> bytes \<Rightarrow> bool \<times> 'c arfs_context" where
  "parse_file_line s cursor =
     (let (path, cursor) = next_token cursor;
          (type, cursor) = next_token cursor;
          (lba, cursor) = next_token cursor;
          (sz, _) = next_token cursor
      in case (parse_decimal_token lba (length lba), parse_decimal_token sz (length sz)) of
           (Some data_lba, Some size_bytes) \<Rightarrow>
             add_file_entry s path (length path) type (length type) data_lba size_bytes
         | _ \<Rightarrow> (False, s))"

abbreviation (input) line_break :: "u8 \<Rightarrow> bool" where
  "line_break b \<equiv> b = newline \<or> b = carriage_return"

definition skip_breaks :: "bytes \<Rightarrow> bytes" where
  "skip_breaks cursor = dropWhile line_break cursor"

definition line_text :: "bytes \<Rightarrow> bytes" where
  "line_text cursor = takeWhile (\<lambda>b. \<not> line_break b \<and> b \<noteq> 0) cursor"

function parse_lines :: "'c arfs_context \<Rightarrow> bytes \<Rightarrow> bool \<times> 'c arfs_context" where
  "parse_lines s cursor =
     (if cursor = [] \<or> hd cursor = 0 then (ar_entry_count s > 0, s)
      else let cursor = skip_breaks cursor
           in if cursor = [] \<or> hd cursor = 0 then (ar_entry_count s > 0, s)
              else let line = line_text cursor;
                       rest = drop (length line) cursor
                   in if line = [] then parse_lines s rest
                      else if line ! 0 = 0x44 \<and> 1 < length line \<and> line ! 1 = space
                      then case parse_directory_line s (drop 2 line) of
                             (False, s) \<Rightarrow> (False, s)
                           | (True, s) \<Rightarrow> parse_lines s rest
                      else if line ! 0 = 0x46 \<and> 1 < length line \<and> line ! 1 = space
                      then case parse_file_line s (drop 2 line) of
                             (False, s) \<Rightarrow> (False, s)
                           | (True, s) \<Rightarrow> parse_lines s rest
                      else (False, s))"
  by pat_completeness auto

lemma line_text_nonempty:
  assumes "skip_breaks cur \<noteq> []" and "hd (skip_breaks cur) \<noteq> 0"
  shows "line_text (skip_breaks cur) \<noteq> []"
proof -
  have "\<not> line_break (hd (skip_breaks cur))"
    using assms(1) hd_dropWhile [of line_break cur] by (auto simp: skip_breaks_def)
  with assms show ?thesis
    by (cases "skip_breaks cur") (auto simp: line_text_def)
qed

lemma line_shorter:
  assumes "skip_breaks cur \<noteq> []" and "hd (skip_breaks cur) \<noteq> 0"
  shows "length (skip_breaks cur) - length (line_text (skip_breaks cur)) < length cur"
proof -
  have "0 < length (line_text (skip_breaks cur))"
    using line_text_nonempty [OF assms] by simp
  moreover have "length (skip_breaks cur) \<le> length cur"
    unfolding skip_breaks_def by (rule length_dropWhile_le)
  moreover have "0 < length (skip_breaks cur)" using assms(1) by simp
  ultimately show ?thesis by linarith
qed

termination parse_lines
  by (relation "measure (\<lambda>(s, cursor). length cursor)") (simp_all add: line_shorter,
     metis line_text_nonempty)

declare parse_lines.simps [simp del]

definition parse_manifest :: "'c arfs_context \<Rightarrow> nat \<Rightarrow> bool \<times> 'c arfs_context" where
  "parse_manifest s manifest_size =
     parse_lines (s\<lparr>ar_entry_count := 0\<rparr>) (take manifest_size (ar_manifest s))"

function parse_key_from :: "bytes \<Rightarrow> bytes \<Rightarrow> nat \<Rightarrow> u64 option" where
  "parse_key_from sector key index =
     (let key_length = arwill_text_length key
      in if index + key_length < arfs_sector_size
         then if \<not> arwill_text_starts_with (drop index sector) key
              then parse_key_from sector key (index + 1)
              else let value_start = index + key_length;
                       digits = takeWhile (\<lambda>b. 0x30 \<le> b \<and> b \<le> 0x39)
                         (drop value_start (take arfs_sector_size sector))
                   in parse_decimal_token (drop value_start sector) (length digits)
         else None)"
  by pat_completeness auto
termination
  by (relation "measure (\<lambda>(sector, key, index). arfs_sector_size - index)") auto

declare parse_key_from.simps [simp del]

definition parse_key_decimal :: "bytes \<Rightarrow> bytes \<Rightarrow> u64 option" where
  "parse_key_decimal sector key = parse_key_from sector key 0"

fun decimal_reversed :: "nat \<Rightarrow> u64 \<Rightarrow> bytes" where
  "decimal_reversed 0 v = []"
| "decimal_reversed (Suc room) v =
     (0x30 + ucast (v mod 10)) #
     (if v div 10 \<noteq> 0 \<and> room > 0 then decimal_reversed room (v div 10) else [])"

fun put_bytes :: "bytes \<Rightarrow> nat \<Rightarrow> bytes \<Rightarrow> bytes" where
  "put_bytes buffer offset [] = buffer"
| "put_bytes buffer offset (b # bs) = put_bytes (buffer[offset := b]) (offset + 1) bs"

definition write_decimal :: "bytes \<Rightarrow> nat \<Rightarrow> nat \<Rightarrow> u64 \<Rightarrow> bool \<times> bytes \<times> nat" where
  "write_decimal buffer capacity offset v =
     (let reversed = decimal_reversed 20 v
      in if offset + length reversed \<ge> capacity then (False, buffer, offset)
         else (True, put_bytes buffer offset (rev reversed), offset + length reversed))"

fun write_text :: "bytes \<Rightarrow> nat \<Rightarrow> nat \<Rightarrow> bytes \<Rightarrow> bool \<times> bytes \<times> nat" where
  "write_text buffer capacity offset [] = (True, buffer, offset)"
| "write_text buffer capacity offset (b # bs) =
     (if offset + 1 \<ge> capacity then (False, buffer, offset)
      else write_text (buffer[offset := b]) capacity (offset + 1) bs)"

text \<open>\<open>a && b\<close> on writers that share the buffer and the offset.\<close>

definition and_write ::
    "bool \<times> bytes \<times> nat \<Rightarrow> (bytes \<Rightarrow> nat \<Rightarrow> bool \<times> bytes \<times> nat) \<Rightarrow> bool \<times> bytes \<times> nat" where
  "and_write r f = (case r of (ok, buffer, offset) \<Rightarrow> if ok then f buffer offset else (False, buffer, offset))"

definition write_entry :: "nat \<Rightarrow> arfs_entry \<Rightarrow> bytes \<Rightarrow> nat \<Rightarrow> bool \<times> bytes \<times> nat" where
  "write_entry capacity entry buffer offset =
     (let r = write_text buffer capacity offset
                (bytes_of (if ent_kind entry = Arfs_directory then ''D '' else ''F ''));
          r = and_write r (\<lambda>b off. write_text b capacity off (ent_path entry));
          r = (if ent_kind entry = Arfs_file
               then let r = and_write r (\<lambda>b off. write_text b capacity off
                          (bytes_of (if ent_file_type entry = File_text then '' text '' else '' binary '')));
                        r = and_write r (\<lambda>b off. write_decimal b capacity off (ent_data_lba entry));
                        r = and_write r (\<lambda>b off. write_text b capacity off (bytes_of '' ''))
                    in and_write r (\<lambda>b off. write_decimal b capacity off (ent_size_bytes entry))
               else r)
      in and_write r (\<lambda>b off. write_text b capacity off [newline]))"

fun write_entries :: "nat \<Rightarrow> arfs_entry list \<Rightarrow> bytes \<Rightarrow> nat \<Rightarrow> bool \<times> bytes \<times> nat" where
  "write_entries capacity [] buffer offset = (True, buffer, offset)"
| "write_entries capacity (e # es) buffer offset =
     and_write (write_entry capacity e buffer offset) (write_entries capacity es)"

definition persist_manifest :: "'c arfs_context \<Rightarrow> bool \<times> 'c arfs_context" where
  "persist_manifest s =
     (case write_entries arfs_manifest_capacity (take (ar_entry_count s) (ar_entries s))
             (replicate (length (ar_manifest s)) 0) 0 of
        (False, m, _) \<Rightarrow> (False, s\<lparr>ar_manifest := m\<rparr>)
      | (True, m, _) \<Rightarrow>
         (case arwill_block_write (ar_block_device s) (ar_manifest_lba s)
                 (ucast (ar_manifest_sectors s)) m arfs_manifest_capacity of
            (ok, dev) \<Rightarrow> (ok, s\<lparr>ar_manifest := m, ar_block_device := dev\<rparr>)))"

section \<open>Decimal numbers\<close>

abbreviation (input) is_digit :: "u8 \<Rightarrow> bool" where
  "is_digit b \<equiv> 0x30 \<le> b \<and> b \<le> 0x39"

definition dec_step :: "nat \<Rightarrow> u8 \<Rightarrow> nat" where
  "dec_step v b = v * 10 + unat (b - 0x30)"

lemma dec_fold_ge: "v \<le> foldl dec_step v bs"
proof (induction bs arbitrary: v)
  case (Cons b bs)
  have "v \<le> dec_step v b" by (simp add: dec_step_def)
  also have "\<dots> \<le> foldl dec_step (dec_step v b) bs" by (rule Cons.IH)
  finally show ?case by simp
qed simp

lemma digit_le_9: "is_digit b \<Longrightarrow> unat (b - 0x30) \<le> 9"
  by (auto simp: word_le_nat_alt unat_sub)

lemma decimal_guard:
  fixes r :: u64
  assumes "d \<le> 9"
  shows "r > (UINT64_MAX - of_nat d) div 10 \<longleftrightarrow> 18446744073709551616 \<le> unat r * 10 + d"
proof -
  have d: "unat (of_nat d :: u64) = d"
    using assms by (simp add: unat_of_nat)
  have "unat (UINT64_MAX - of_nat d :: u64) = 18446744073709551615 - d"
    using d by (subst unat_sub) (simp_all add: unat_max64)
  then show ?thesis
    using assms by (simp add: word_less_nat_alt unat_div) arith
qed

lemma decimal_step_exact:
  fixes r :: u64
  assumes "d \<le> 9" and "unat r * 10 + d < 18446744073709551616"
  shows "unat (r * 10 + of_nat d) = unat r * 10 + d"
proof -
  have "unat (r * 10) = unat r * 10"
    using assms(2) by (simp add: unat_mult_64)
  then show ?thesis
    using assms by (subst unat_add_64) (simp_all add: unat_of_nat)
qed

lemma parse_decimal_loop_eq:
  "parse_decimal_loop r bs =
     (if (\<forall>b \<in> set bs. is_digit b) \<and> foldl dec_step (unat r) bs < 18446744073709551616
      then Some (of_nat (foldl dec_step (unat r) bs)) else None)"
proof (induction bs arbitrary: r)
  case Nil
  show ?case using unat_less_64 [of r] by simp
next
  case (Cons b bs)
  show ?case
  proof (cases "is_digit b")
    case True
    define d where "d = unat (b - 0x30)"
    have d9: "d \<le> 9" using digit_le_9 [OF True] by (simp add: d_def)
    have cast: "(ucast (b - 0x30) :: u64) = of_nat d"
      by (simp add: d_def)
    have step: "dec_step (unat r) b = unat r * 10 + d"
      by (simp add: dec_step_def d_def)
    show ?thesis
    proof (cases "unat r * 10 + d < 18446744073709551616")
      case fits: True
      with d9 have "\<not> r > (UINT64_MAX - of_nat d) div 10"
        by (simp add: decimal_guard)
      with True have "parse_decimal_loop r (b # bs) = parse_decimal_loop (r * 10 + of_nat d) bs"
        unfolding parse_decimal_loop.simps Let_def cast by auto
      also have "\<dots> = (if (\<forall>b \<in> set bs. is_digit b) \<and>
            foldl dec_step (unat r * 10 + d) bs < 18446744073709551616
          then Some (of_nat (foldl dec_step (unat r * 10 + d) bs)) else None)"
        using Cons.IH [of "r * 10 + of_nat d"] decimal_step_exact [OF d9 fits] by simp
      finally show ?thesis using True by (simp add: step)
    next
      case False
      with d9 have "r > (UINT64_MAX - of_nat d) div 10"
        by (simp add: decimal_guard)
      then have "parse_decimal_loop r (b # bs) = None"
        unfolding parse_decimal_loop.simps Let_def cast by auto
      moreover have "\<not> foldl dec_step (unat r) (b # bs) < 18446744073709551616"
        using False dec_fold_ge [of "unat r * 10 + d" bs] by (simp add: step)
      ultimately show ?thesis by simp
    qed
  next
    case False
    then show ?thesis by (auto simp: not_le)
  qed
qed

definition dec_value :: "bytes \<Rightarrow> nat" where
  "dec_value bs = foldl dec_step 0 bs"

lemma map_cs_at: "map (cs_at t) [0..<length t] = t"
  by (rule nth_equalityI) simp_all

lemma parse_decimal_token_eq:
  "parse_decimal_token t (length t) =
     (if t \<noteq> [] \<and> (\<forall>b \<in> set t. is_digit b) \<and> dec_value t < 18446744073709551616
      then Some (of_nat (dec_value t)) else None)"
  by (simp add: parse_decimal_token_def map_cs_at parse_decimal_loop_eq dec_value_def)

lemma decimal_digit:
  fixes v :: u64
  shows "is_digit (0x30 + ucast (v mod 10) :: u8)"
    and "unat ((0x30 + ucast (v mod 10) :: u8) - 0x30) = unat v mod 10"
proof -
  have lt: "unat v mod 10 < 10" by simp
  have u: "unat (ucast (v mod 10) :: u8) = unat v mod 10"
    using lt by (simp add: unsigned_ucast_eq unat_mod take_bit_nat_eq_self)
  then show "unat ((0x30 + ucast (v mod 10) :: u8) - 0x30) = unat v mod 10" by simp
  have "unat (0x30 + ucast (v mod 10) :: u8) = 0x30 + unat v mod 10"
    using u lt by (subst unat_add_lem [THEN iffD1]) simp_all
  with lt show "is_digit (0x30 + ucast (v mod 10) :: u8)"
    by (simp add: word_le_nat_alt)
qed

lemma decimal_reversed_digits: "b \<in> set (decimal_reversed k v) \<Longrightarrow> is_digit b"
  by (induction k v rule: decimal_reversed.induct) (auto simp: decimal_digit split: if_splits)

lemma decimal_reversed_value:
  "unat v < 10 ^ k \<Longrightarrow> 0 < k \<Longrightarrow> foldr (\<lambda>b v. dec_step v b) (decimal_reversed k v) 0 = unat v"
proof (induction k v rule: decimal_reversed.induct)
  case (2 k v)
  have parts: "unat v div 10 * 10 + unat v mod 10 = unat v" by simp
  show ?case
  proof (cases "v div 10 \<noteq> 0 \<and> k > 0")
    case True
    have "unat (v div 10) < 10 ^ k"
      using "2.prems"(1) by (simp add: unat_div less_mult_imp_div_less mult.commute)
    with "2.IH" True have
        "foldr (\<lambda>b v. dec_step v b) (decimal_reversed k (v div 10)) 0 = unat v div 10"
      by (simp add: unat_div)
    with True show ?thesis
      using parts by (simp add: dec_step_def decimal_digit(2) [simplified])
  next
    case False
    have "unat v div 10 = 0"
    proof (cases "k = 0")
      case True
      with "2.prems"(1) show ?thesis by simp
    next
      case k: False
      with False have "unat (v div 10) = 0" by simp
      then show ?thesis by (simp add: unat_div)
    qed
    with False show ?thesis
      using parts by (auto simp: dec_step_def decimal_digit(2) [simplified])
  qed
qed simp

definition decimal_text :: "u64 \<Rightarrow> bytes" where
  "decimal_text v = rev (decimal_reversed 20 v)"

lemma decimal_text_nonempty: "decimal_text v \<noteq> []"
  by (simp add: decimal_text_def numeral_eq_Suc)

lemma decimal_text_digits: "b \<in> set (decimal_text v) \<Longrightarrow> is_digit b"
  by (auto simp: decimal_text_def dest: decimal_reversed_digits)

lemma parse_decimal_text:
  "parse_decimal_token (decimal_text v) (length (decimal_text v)) = Some v"
proof -
  have "unat v < 10 ^ 20" using unat_less_64 [of v] by simp
  then have "dec_value (decimal_text v) = unat v"
    by (simp add: dec_value_def decimal_text_def foldl_conv_foldr decimal_reversed_value)
  then show ?thesis
    using decimal_text_nonempty [of v] unat_less_64 [of v]
    by (auto simp: parse_decimal_token_eq decimal_text_digits)
qed

section \<open>The printer\<close>

lemma put_bytes_splice:
  "offset + length bs \<le> length buffer \<Longrightarrow> put_bytes buffer offset bs = splice_at buffer offset bs"
proof (induction bs arbitrary: buffer offset)
  case (Cons b bs)
  then have "put_bytes buffer offset (b # bs) =
      splice_at (splice_at buffer offset [b]) (offset + length [b]) bs"
    by (simp add: list_update_splice length_splice_at)
  also have "\<dots> = splice_at buffer offset ([b] @ bs)"
    using Cons.prems by (intro splice_at_append) simp
  finally show ?case by simp
qed (simp add: splice_at_Nil)

text \<open>
  \<open>writes capacity f t\<close>: the writer \<open>f\<close> appends \<open>t\<close> when it leaves room for one
  more byte, and reports failure when it does not.
\<close>

definition writes :: "nat \<Rightarrow> (bytes \<Rightarrow> nat \<Rightarrow> bool \<times> bytes \<times> nat) \<Rightarrow> bytes \<Rightarrow> bool" where
  "writes capacity f t \<longleftrightarrow> (\<forall>buf off. capacity \<le> length buf \<longrightarrow>
     (off + length t < capacity \<longrightarrow> f buf off = (True, splice_at buf off t, off + length t)) \<and>
     (capacity \<le> off + length t \<and> t \<noteq> [] \<longrightarrow> \<not> fst (f buf off)) \<and>
     (t = [] \<longrightarrow> f buf off = (True, buf, off)))"

lemma writesI:
  assumes "\<And>buf off. capacity \<le> length buf \<Longrightarrow> off + length t < capacity \<Longrightarrow>
      f buf off = (True, splice_at buf off t, off + length t)"
    and "\<And>buf off. capacity \<le> length buf \<Longrightarrow> capacity \<le> off + length t \<Longrightarrow> t \<noteq> [] \<Longrightarrow>
      \<not> fst (f buf off)"
    and "\<And>buf off. t = [] \<Longrightarrow> f buf off = (True, buf, off)"
  shows "writes capacity f t"
  using assms by (auto simp: writes_def)

lemma writes_text: "writes capacity (\<lambda>b off. write_text b capacity off t) t"
proof (induction t)
  case Nil
  show ?case by (simp add: writes_def splice_at_Nil)
next
  case (Cons c t)
  show ?case
  proof (rule writesI)
    fix buf off assume a: "capacity \<le> length (buf :: bytes)" "off + length (c # t) < capacity"
    then have "write_text buf capacity off (c # t) =
        (True, splice_at (splice_at buf off [c]) (off + length [c]) t, off + 1 + length t)"
      using Cons.IH by (simp add: writes_def list_update_splice length_splice_at)
    also have "splice_at (splice_at buf off [c]) (off + length [c]) t = splice_at buf off ([c] @ t)"
      using a by (intro splice_at_append) simp
    finally show "write_text buf capacity off (c # t) =
        (True, splice_at buf off (c # t), off + length (c # t))" by simp
  next
    fix buf off
    assume a: "capacity \<le> length (buf :: bytes)" "capacity \<le> off + length (c # t)" "c # t \<noteq> []"
    show "\<not> fst (write_text buf capacity off (c # t))"
    proof (cases "t = []")
      case True
      with a show ?thesis by simp
    next
      case False
      with a Cons.IH show ?thesis
        by (simp add: writes_def)
    qed
  qed simp
qed

lemma writes_decimal: "writes capacity (\<lambda>b off. write_decimal b capacity off v) (decimal_text v)"
  by (rule writesI)
     (auto simp: write_decimal_def Let_def put_bytes_splice decimal_text_def
       decimal_text_nonempty [unfolded decimal_text_def, simplified])

lemma writes_and:
  assumes f: "writes capacity f t" and g: "writes capacity g u" and "u \<noteq> []"
  shows "writes capacity (\<lambda>b off. and_write (f b off) g) (t @ u)"
proof (rule writesI)
  fix buf off assume a: "capacity \<le> length (buf :: bytes)" "off + length (t @ u) < capacity"
  then have "f buf off = (True, splice_at buf off t, off + length t)"
    using f by (simp add: writes_def)
  moreover have "g (splice_at buf off t) (off + length t) =
      (True, splice_at buf off (t @ u), off + length t + length u)"
    using a g by (simp add: writes_def length_splice_at splice_at_append)
  ultimately show "and_write (f buf off) g = (True, splice_at buf off (t @ u), off + length (t @ u))"
    by (simp add: and_write_def)
next
  fix buf off assume a: "capacity \<le> length (buf :: bytes)" "capacity \<le> off + length (t @ u)"
  show "\<not> fst (and_write (f buf off) g)"
  proof (cases "off + length t < capacity \<or> t = []")
    case True
    then have "f buf off = (True, splice_at buf off t, off + length t)"
      using f a by (auto simp: writes_def splice_at_Nil)
    moreover have "\<not> fst (g (splice_at buf off t) (off + length t))"
      using True a g \<open>u \<noteq> []\<close>
      by (auto simp: writes_def length_splice_at splice_at_Nil)
    ultimately show ?thesis by (simp add: and_write_def)
  next
    case False
    with f a have "\<not> fst (f buf off)" by (auto simp: writes_def)
    then show ?thesis by (cases "f buf off") (auto simp: and_write_def)
  qed
qed (use assms(3) in simp)

definition entry_text :: "arfs_entry \<Rightarrow> bytes" where
  "entry_text e =
     bytes_of (if ent_kind e = Arfs_directory then ''D '' else ''F '') @ ent_path e @
     (if ent_kind e = Arfs_file
      then bytes_of (if ent_file_type e = File_text then '' text '' else '' binary '') @
           decimal_text (ent_data_lba e) @ bytes_of '' '' @ decimal_text (ent_size_bytes e)
      else []) @ [newline]"

definition manifest_text :: "arfs_entry list \<Rightarrow> bytes" where
  "manifest_text es = concat (map entry_text es)"

lemma entry_text_nonempty [simp]: "entry_text e \<noteq> []"
  by (simp add: entry_text_def)

lemma writes_path:
  "writes c f t \<Longrightarrow> t \<noteq> [] \<Longrightarrow> writes c (\<lambda>b off. and_write (f b off) (\<lambda>b off. write_text b c off u)) (t @ u)"
proof (cases "u = []")
  case True
  assume "writes c f t"
  then have "(\<lambda>b off. and_write (f b off) (\<lambda>b off. write_text b c off u)) = f"
    by (intro ext) (auto simp: True and_write_def split: prod.splits)
  then show ?thesis using \<open>writes c f t\<close> True by simp
next
  case False
  assume "writes c f t"
  then show ?thesis using writes_and [OF _ writes_text False] by blast
qed

lemma writes_entry: "writes c (write_entry c e) (entry_text e)"
proof -
  define tag where "tag = bytes_of (if ent_kind e = Arfs_directory then ''D '' else ''F '')"
  define ty where "ty = bytes_of (if ent_file_type e = File_text then '' text '' else '' binary '')"
  have ne: "tag \<noteq> []" "ty \<noteq> []" "bytes_of '' '' \<noteq> []"
    by (simp_all add: tag_def ty_def bytes_of_def)
  have head: "writes c (\<lambda>b off. and_write (write_text b c off tag)
      (\<lambda>b off. write_text b c off (ent_path e))) (tag @ ent_path e)"
    by (rule writes_path [OF writes_text ne(1)])
  show ?thesis
  proof (cases "ent_kind e")
    case Arfs_directory
    have "write_entry c e = (\<lambda>b off. and_write (and_write (write_text b c off tag)
        (\<lambda>b off. write_text b c off (ent_path e))) (\<lambda>b off. write_text b c off [newline]))"
      by (intro ext) (simp add: write_entry_def Let_def tag_def Arfs_directory)
    moreover have "entry_text e = (tag @ ent_path e) @ [newline]"
      by (simp add: entry_text_def tag_def Arfs_directory)
    ultimately show ?thesis
      using writes_and [OF head writes_text [of c "[newline]"]] by simp
  next
    case Arfs_file
    have "write_entry c e = (\<lambda>b off. and_write (and_write (and_write (and_write (and_write (and_write
        (write_text b c off tag) (\<lambda>b off. write_text b c off (ent_path e)))
        (\<lambda>b off. write_text b c off ty)) (\<lambda>b off. write_decimal b c off (ent_data_lba e)))
        (\<lambda>b off. write_text b c off (bytes_of '' '')))
        (\<lambda>b off. write_decimal b c off (ent_size_bytes e))) (\<lambda>b off. write_text b c off [newline]))"
      by (intro ext) (simp add: write_entry_def Let_def tag_def ty_def Arfs_file)
    moreover have "entry_text e = (((((tag @ ent_path e) @ ty) @ decimal_text (ent_data_lba e)) @
        bytes_of '' '') @ decimal_text (ent_size_bytes e)) @ [newline]"
      by (simp add: entry_text_def tag_def ty_def Arfs_file)
    moreover note writes_and [OF writes_and [OF writes_and [OF writes_and [OF writes_and [OF head
      writes_text ne(2)] writes_decimal decimal_text_nonempty] writes_text ne(3)]
      writes_decimal decimal_text_nonempty] writes_text [of c "[newline]"],
      of "ent_data_lba e" "ent_size_bytes e"]
    ultimately show ?thesis by simp
  qed
qed

lemma writes_entries: "writes c (write_entries c es) (manifest_text es)"
proof (induction es)
  case Nil
  show ?case by (simp add: writes_def manifest_text_def splice_at_Nil)
next
  case (Cons e es)
  have eq: "write_entries c (e # es) = (\<lambda>b off. and_write (write_entry c e b off) (write_entries c es))"
    by (intro ext) simp
  show ?case
  proof (cases "es = []")
    case True
    have "write_entries c (e # es) = write_entry c e"
      by (intro ext) (auto simp: True and_write_def split: prod.splits)
    with writes_entry [of c e] True show ?thesis by (simp add: manifest_text_def)
  next
    case False
    then have "manifest_text es \<noteq> []"
      by (cases es) (simp_all add: manifest_text_def)
    with writes_and [OF writes_entry Cons.IH] show ?thesis
      unfolding eq by (simp add: manifest_text_def)
  qed
qed

lemma write_entries_result:
  "fst (write_entries 1024 es (replicate 1024 0) 0) \<longleftrightarrow> length (manifest_text es) < 1024"
  "length (manifest_text es) < 1024 \<Longrightarrow> write_entries 1024 es (replicate 1024 0) 0 =
     (True, manifest_text es @ replicate (1024 - length (manifest_text es)) 0, length (manifest_text es))"
proof -
  show "length (manifest_text es) < 1024 \<Longrightarrow> write_entries 1024 es (replicate 1024 0) 0 =
     (True, manifest_text es @ replicate (1024 - length (manifest_text es)) 0, length (manifest_text es))"
    using writes_entries [of 1024 es] by (simp add: writes_def splice_at_def)
  moreover have "\<not> fst (write_entries 1024 es (replicate 1024 0) 0)"
    if "\<not> length (manifest_text es) < 1024"
  proof -
    from that have "manifest_text es \<noteq> []" by auto
    with that writes_entries [of 1024 es] show ?thesis
      by (simp add: writes_def)
  qed
  ultimately show "fst (write_entries 1024 es (replicate 1024 0) 0) \<longleftrightarrow> length (manifest_text es) < 1024"
    by (cases "length (manifest_text es) < 1024") auto
qed

section \<open>The parser reads back what the printer wrote\<close>

definition token_ok :: "bytes \<Rightarrow> bool" where
  "token_ok p \<longleftrightarrow> p \<noteq> [] \<and> (\<forall>b \<in> set p. b \<notin> {0, space, newline, carriage_return})"

definition name_fits :: "bytes \<Rightarrow> bool" where
  "name_fits p \<longleftrightarrow> (let last = last_slash_from 0 p (length p)
     in last + 1 \<ge> length p \<or> length p - last - 1 < arfs_max_name_length)"

definition ent_wf :: "arfs_entry \<Rightarrow> bool" where
  "ent_wf e \<longleftrightarrow> token_ok (ent_path e) \<and> length (ent_path e) < arfs_max_path_length \<and>
     name_fits (ent_path e) \<and> ent_name e = derive_name (ent_path e) [] arfs_max_name_length \<and>
     (ent_kind e = Arfs_directory \<longrightarrow>
        ent_file_type e = File_binary \<and> ent_data_lba e = 0 \<and> ent_size_bytes e = 0)"

lemma token_ok_no_nul: "token_ok p \<Longrightarrow> 0 \<notin> set p"
  by (auto simp: token_ok_def)

lemma derive_name_stale:
  assumes "name_fits p" and "0 \<notin> set p"
  shows "derive_name p stale arfs_max_name_length = derive_name p [] arfs_max_name_length"
  using assms
  by (auto simp: derive_name_def name_fits_def Let_def copy_token_def arwill_text_length_eq
      c_string_id)

lemma next_token_word:
  assumes "\<forall>b \<in> set t. b \<noteq> space" and "t \<noteq> []" and "rest = [] \<or> hd rest = space"
  shows "next_token (t @ rest) = (t, rest)" and "next_token (space # t @ rest) = (t, rest)"
proof -
  have "dropWhile (\<lambda>b. b = space) (t @ rest) = t @ rest"
    using assms(1,2) by (cases t) auto
  moreover have "takeWhile (\<lambda>b. b \<noteq> space) (t @ rest) = t"
    using assms(1,3) by (cases rest) (auto simp: takeWhile_append2)
  ultimately show "next_token (t @ rest) = (t, rest)" and "next_token (space # t @ rest) = (t, rest)"
    by (simp_all add: next_token_def Let_def)
qed

lemma copy_token_whole:
  "length p < c \<Longrightarrow> copy_token d c p (length p) = (True, p)"
  by (simp add: copy_token_def map_cs_at)

lemma digits_no_space: "\<forall>b \<in> set (decimal_text v). b \<noteq> space"
  by (auto dest!: decimal_text_digits)

lemma digit_not_break: "is_digit b \<Longrightarrow> b \<noteq> newline \<and> b \<noteq> carriage_return \<and> b \<noteq> 0"
  by auto

definition append_entry :: "'c arfs_context \<Rightarrow> arfs_entry \<Rightarrow> 'c arfs_context" where
  "append_entry s e = s\<lparr>ar_entries := (ar_entries s)[ar_entry_count s := e],
     ar_entry_count := ar_entry_count s + 1\<rparr>"

lemma parse_directory_line_text:
  assumes "ent_wf e" and "ent_kind e = Arfs_directory" and "ar_entry_count s < arfs_max_entries"
  shows "parse_directory_line s (ent_path e) = (True, append_entry s e)"
proof -
  have p: "token_ok (ent_path e)" "length (ent_path e) < arfs_max_path_length"
      "name_fits (ent_path e)"
    using assms(1) by (simp_all add: ent_wf_def)
  have "next_token (ent_path e @ []) = (ent_path e, [])"
    using p(1) by (intro next_token_word) (auto simp: token_ok_def)
  then have nt: "next_token (ent_path e) = (ent_path e, [])" by simp
  have nm: "derive_name (ent_path e) x arfs_max_name_length = ent_name e" for x
    using derive_name_stale [OF p(3) token_ok_no_nul [OF p(1)]] assms(1) by (simp add: ent_wf_def)
  have upd: "x\<lparr>ent_kind := Arfs_directory, ent_file_type := File_binary, ent_data_lba := 0,
      ent_size_bytes := 0, ent_path := ent_path e, ent_name := ent_name e\<rparr> = e" for x
    using assms(1,2) by (intro arfs_entry.equality) (simp_all add: ent_wf_def)
  show ?thesis
    using assms p(2)
    by (simp add: upd parse_directory_line_def nt add_directory_entry_def Let_def copy_token_whole nm
        append_entry_def ent_wf_def)
qed

definition file_fields :: "arfs_entry \<Rightarrow> bytes" where
  "file_fields e = ent_path e @
     bytes_of (if ent_file_type e = File_text then '' text '' else '' binary '') @
     decimal_text (ent_data_lba e) @ bytes_of '' '' @ decimal_text (ent_size_bytes e)"

lemma parse_file_line_text:
  assumes "ent_wf e" and "ent_kind e = Arfs_file" and "ar_entry_count s < arfs_max_entries"
  shows "parse_file_line s (file_fields e) = (True, append_entry s e)"
proof -
  define ty where "ty = bytes_of (if ent_file_type e = File_text then ''text'' else ''binary'')"
  define lba where "lba = decimal_text (ent_data_lba e)"
  define sz where "sz = decimal_text (ent_size_bytes e)"
  have p: "token_ok (ent_path e)" "length (ent_path e) < arfs_max_path_length"
      "name_fits (ent_path e)"
    using assms(1) by (simp_all add: ent_wf_def)
  have line: "file_fields e = ent_path e @ space # ty @ space # lba @ space # sz @ []"
    by (simp add: file_fields_def ty_def lba_def sz_def bytes_of_def)
  have t1: "next_token (ent_path e @ space # r) = (ent_path e, space # r)" for r
    using p(1) by (intro next_token_word) (auto simp: token_ok_def)
  have t2: "next_token (space # ty @ space # r) = (ty, space # r)" for r
    by (intro next_token_word(2)) (auto simp: ty_def bytes_of_def)
  have t3: "next_token (space # lba @ space # r) = (lba, space # r)" for r
    using digits_no_space decimal_text_nonempty
    by (intro next_token_word(2)) (auto simp: lba_def)
  have t4: "next_token (space # sz @ []) = (sz, [])"
    using digits_no_space decimal_text_nonempty
    by (intro next_token_word(2)) (auto simp: sz_def)
  have nm: "derive_name (ent_path e) x arfs_max_name_length = ent_name e" for x
    using derive_name_stale [OF p(3) token_ok_no_nul [OF p(1)]] assms(1) by (simp add: ent_wf_def)
  have ok: "parse_decimal_token lba (length lba) = Some (ent_data_lba e)"
      "parse_decimal_token sz (length sz) = Some (ent_size_bytes e)"
    by (simp_all add: lba_def sz_def parse_decimal_text)
  have tyeq: "arwill_text_starts_with ty (bytes_of ''text'') \<longleftrightarrow> ent_file_type e = File_text"
      "arwill_text_starts_with ty (bytes_of ''binary'') \<longleftrightarrow> ent_file_type e = File_binary"
    by (cases "ent_file_type e";
        simp add: ty_def bytes_of_def arwill_text_starts_with_eq)+
  have upd: "ent_file_type e = t \<Longrightarrow> x\<lparr>ent_kind := Arfs_file, ent_data_lba := ent_data_lba e,
      ent_size_bytes := ent_size_bytes e, ent_file_type := t, ent_path := ent_path e,
      ent_name := ent_name e\<rparr> = e" for x t
    using assms(2) by (intro arfs_entry.equality) simp_all
  have tlen: "length ty = (if ent_file_type e = File_text then 4 else 6)"
    by (simp add: ty_def)
  have "parse_file_line s (file_fields e) =
      add_file_entry s (ent_path e) (length (ent_path e)) ty (length ty) (ent_data_lba e) (ent_size_bytes e)"
    unfolding line parse_file_line_def Let_def t1 t2 t3 t4 prod.case ok option.case ..
  also have "\<dots> = (True, append_entry s e)"
    using assms(3) p(2) tlen tyeq
    by (cases "ent_file_type e")
       (simp_all add: upd add_file_entry_def Let_def copy_token_whole nm append_entry_def)
  finally show ?thesis .
qed

lemma parse_lines_end: "cur = [] \<or> hd cur = 0 \<Longrightarrow> parse_lines s cur = (ar_entry_count s > 0, s)"
  by (subst parse_lines.simps) simp

lemma parse_lines_break: "parse_lines s (newline # cur) = parse_lines s cur"
proof (cases "cur = [] \<or> hd cur = 0")
  case True
  then show ?thesis
    by (subst parse_lines.simps) (cases cur, auto simp: skip_breaks_def parse_lines_end)
next
  case False
  have "skip_breaks (newline # cur) = skip_breaks cur"
    by (simp add: skip_breaks_def)
  with False show ?thesis
    by (simp add: parse_lines.simps [of s "newline # cur"] parse_lines.simps [of s cur])
qed

definition entry_line :: "arfs_entry \<Rightarrow> bytes" where
  "entry_line e = (if ent_kind e = Arfs_directory then 0x44 # space # ent_path e
                   else 0x46 # space # file_fields e)"

lemma entry_text_line: "entry_text e = entry_line e @ [newline]"
  by (cases "ent_kind e") (simp_all add: entry_text_def entry_line_def file_fields_def bytes_of_def)

lemma entry_line_chars:
  assumes "ent_wf e" and "b \<in> set (entry_line e)"
  shows "\<not> line_break b \<and> b \<noteq> 0"
proof -
  have "b \<in> set (decimal_text v) \<Longrightarrow> \<not> line_break b \<and> b \<noteq> 0" for v
    by (drule decimal_text_digits) auto
  then show ?thesis
    using assms
    by (auto simp: entry_line_def file_fields_def ent_wf_def token_ok_def bytes_of_def
        split: if_splits)
qed

lemma parse_lines_entry:
  assumes "ent_wf e" and "ar_entry_count s < arfs_max_entries"
  shows "parse_lines s (entry_text e @ cur) = parse_lines (append_entry s e) cur"
proof -
  have ne: "entry_line e \<noteq> []" "hd (entry_line e) \<noteq> 0"
    by (simp_all add: entry_line_def)
  have skip: "skip_breaks (entry_line e @ newline # cur) = entry_line e @ newline # cur"
    by (simp add: entry_line_def skip_breaks_def)
  have line: "line_text (entry_line e @ newline # cur) = entry_line e"
    using entry_line_chars [OF assms(1)] by (simp add: line_text_def takeWhile_append2)
  have "parse_lines s (entry_text e @ cur) = parse_lines (append_entry s e) (newline # cur)"
  proof (cases "ent_kind e")
    case Arfs_directory
    with ne skip line parse_directory_line_text [OF assms(1) Arfs_directory assms(2)] show ?thesis
      by (subst parse_lines.simps)
         (simp add: entry_text_line entry_line_def Let_def)
  next
    case Arfs_file
    with ne skip line parse_file_line_text [OF assms(1) Arfs_file assms(2)] show ?thesis
      by (subst parse_lines.simps)
         (simp add: entry_text_line entry_line_def Let_def)
  qed
  then show ?thesis by (simp add: parse_lines_break)
qed

lemma append_entry_count [simp]: "ar_entry_count (append_entry s e) = ar_entry_count s + 1"
  by (simp add: append_entry_def)

lemma parse_lines_manifest:
  "\<forall>e \<in> set es. ent_wf e \<Longrightarrow> ar_entry_count s + length es \<le> arfs_max_entries \<Longrightarrow>
   parse_lines s (manifest_text es @ cur) = parse_lines (foldl append_entry s es) cur"
proof (induction es arbitrary: s)
  case (Cons e es)
  have "parse_lines s (manifest_text (e # es) @ cur) =
      parse_lines (append_entry s e) (manifest_text es @ cur)"
    using Cons.prems by (simp add: manifest_text_def parse_lines_entry)
  also have "\<dots> = parse_lines (foldl append_entry (append_entry s e) es) cur"
    using Cons.prems by (intro Cons.IH) simp_all
  finally show ?case by simp
qed (simp add: manifest_text_def)

lemma foldl_append_entry:
  "ar_entry_count s + length es \<le> length (ar_entries s) \<Longrightarrow>
   foldl append_entry s es = s\<lparr>ar_entries := splice_at (ar_entries s) (ar_entry_count s) es,
     ar_entry_count := ar_entry_count s + length es\<rparr>"
proof (induction es arbitrary: s)
  case (Cons e es)
  let ?s = "append_entry s e"
  have fields: "ar_entries ?s = splice_at (ar_entries s) (ar_entry_count s) [e]"
      "length (ar_entries ?s) = length (ar_entries s)"
    using Cons.prems by (simp_all add: append_entry_def list_update_splice length_splice_at)
  have "foldl append_entry s (e # es) = ?s\<lparr>ar_entries :=
      splice_at (ar_entries ?s) (ar_entry_count ?s) es, ar_entry_count := ar_entry_count ?s + length es\<rparr>"
    using Cons.prems Cons.IH [of ?s] fields(2) by simp
  also have "splice_at (ar_entries ?s) (ar_entry_count ?s) es =
      splice_at (ar_entries s) (ar_entry_count s) (e # es)"
    using Cons.prems splice_at_append [of "ar_entry_count s" "[e]" "ar_entries s" es]
    by (simp add: fields)
  finally show ?case by (simp add: append_entry_def)
qed (simp add: splice_at_Nil)

lemma parse_manifest_text:
  assumes "\<forall>e \<in> set es. ent_wf e" and "length es \<le> arfs_max_entries"
    and "length (ar_entries s) = arfs_max_entries"
    and "take n (ar_manifest s) = manifest_text es @ replicate k 0"
  shows "parse_manifest s n = (es \<noteq> [], s\<lparr>ar_entries := es @ drop (length es) (ar_entries s),
      ar_entry_count := length es\<rparr>)"
proof -
  have "parse_manifest s n =
      parse_lines (foldl append_entry (s\<lparr>ar_entry_count := 0\<rparr>) es) (replicate k 0)"
    unfolding parse_manifest_def assms(4) using assms(1,2) by (intro parse_lines_manifest) simp_all
  also have "\<dots> = (length es > 0, foldl append_entry (s\<lparr>ar_entry_count := 0\<rparr>) es)"
    using assms(2,3)
    by (subst parse_lines_end) (cases k, simp_all add: foldl_append_entry)
  also have "foldl append_entry (s\<lparr>ar_entry_count := 0\<rparr>) es =
      s\<lparr>ar_entries := es @ drop (length es) (ar_entries s), ar_entry_count := length es\<rparr>"
    using assms(2,3) by (simp add: foldl_append_entry splice_at_def)
  finally show ?thesis by simp
qed

end
