(* ===== verification/Arfs.thy ===== *)
theory Arfs
  imports Arfs_Manifest
begin

text \<open>
  The second half of \<^verbatim>\<open>kernel/arfs.c\<close>: path checks, lookup, sector allocation,
  the six operations of the file system and the mount. The static \<open>arfs\<close> context is
  passed and returned. \<open>write_buffer\<close> is cleared before every use, so its
  content is built where it is used; \<open>listing_entries\<close> is returned by value.
  A pointer to an entry is its index.
\<close>

section \<open>Definitions\<close>

abbreviation (input) arfs_superblock_lba :: u64 where "arfs_superblock_lba \<equiv> 3"

text \<open>The loop both branches of \<open>entry_is_child_of\<close> end with.\<close>

definition tail_is_leaf :: "bytes \<Rightarrow> bool" where
  "tail_is_leaf tail =
     (if cs_at tail 0 = 0 then False else list_all (\<lambda>b. b \<noteq> slash) (c_string tail))"

definition entry_is_child_of :: "arfs_entry \<Rightarrow> bytes \<Rightarrow> bool" where
  "entry_is_child_of entry path =
     (if arwill_text_equals path (bytes_of ''/'') then tail_is_leaf (drop 1 (ent_path entry))
      else let path_length = arwill_text_length path
           in if \<not> arwill_text_starts_with (ent_path entry) path \<or>
                 cs_at (ent_path entry) path_length \<noteq> slash then False
              else tail_is_leaf (drop (path_length + 1) (ent_path entry)))"

definition find_entry :: "'c arfs_context \<Rightarrow> bytes \<Rightarrow> nat option" where
  "find_entry s path =
     find (\<lambda>index. arwill_text_equals (ent_path (ar_entries s ! index)) path)
       [0..<ar_entry_count s]"

function path_scan :: "bytes \<Rightarrow> nat \<Rightarrow> nat \<Rightarrow> nat \<Rightarrow> nat option" where
  "path_scan path len index segment_length =
     (if index < len
      then if cs_at path index = space \<or>
              (cs_at path index = slash \<and> cs_at path (index - 1) = slash) then None
           else if cs_at path index = slash
           then if segment_length = 0 \<or> segment_length \<ge> arfs_max_name_length then None
                else path_scan path len (index + 1) 0
           else path_scan path len (index + 1) (segment_length + 1)
      else Some segment_length)"
  by pat_completeness auto
termination
  by (relation "measure (\<lambda>(path, len, index, _). len - index)") auto

declare path_scan.simps [simp del]

definition path_is_valid :: "bytes \<Rightarrow> bool" where
  "path_is_valid path =
     (let len = arwill_text_length path
      in if len < 2 \<or> len \<ge> arfs_max_path_length \<or> cs_at path 0 \<noteq> slash \<or>
            cs_at path (len - 1) = slash then False
         else case path_scan path len 1 0 of
                None \<Rightarrow> False
              | Some segment_length \<Rightarrow>
                  segment_length > 0 \<and> segment_length < arfs_max_name_length)"

definition parent_directory_exists :: "'c arfs_context \<Rightarrow> bytes \<Rightarrow> bool" where
  "parent_directory_exists s path =
     (let last = last_slash_from 1 path (arwill_text_length path)
      in if last = 0 then True
         else case copy_token [] arfs_max_path_length path last of
                (False, _) \<Rightarrow> False
              | (True, parent) \<Rightarrow>
                 (case find_entry s parent of
                    None \<Rightarrow> False
                  | Some index \<Rightarrow> ent_kind (ar_entries s ! index) = Arfs_directory))"

fun list_children ::
    "arfs_entry list \<Rightarrow> bytes \<Rightarrow> arwill_fs_entry list \<Rightarrow> arwill_fs_entry list option" where
  "list_children [] path listing = Some listing"
| "list_children (entry # rest) path listing =
     (if \<not> entry_is_child_of entry path then list_children rest path listing
      else if length listing \<ge> arfs_max_listing_entries then None
      else list_children rest path (listing @
             [\<lparr>fse_name = ent_name entry,
               fse_type = (if ent_kind entry = Arfs_directory then Entry_directory else Entry_file),
               fse_size_bytes = ent_size_bytes entry\<rparr>]))"

definition arfs_list ::
    "'c arfs_context \<Rightarrow> bytes \<Rightarrow> arwill_fs_listing \<Rightarrow> bool \<times> arwill_fs_listing \<times> 'c arfs_context" where
  "arfs_list s path listing =
     (if \<not> arwill_text_equals path (bytes_of ''/'') \<and>
         (case find_entry s path of
            None \<Rightarrow> True
          | Some index \<Rightarrow> ent_kind (ar_entries s ! index) \<noteq> Arfs_directory)
      then (False, listing, s)
      else case list_children (take (ar_entry_count s) (ar_entries s)) path [] of
             None \<Rightarrow> (False, listing, s)
           | Some children \<Rightarrow> (True, children, s))"

definition arfs_read_file ::
    "'c arfs_context \<Rightarrow> bytes \<Rightarrow> arwill_fs_file \<Rightarrow> bool \<times> arwill_fs_file \<times> 'c arfs_context" where
  "arfs_read_file s path file =
     (case find_entry s path of
        None \<Rightarrow> (False, file, s)
      | Some index \<Rightarrow>
         let entry = ar_entries s ! index
         in if ent_kind entry \<noteq> Arfs_file then (False, file, s)
            else let file = file\<lparr>fsf_type := ent_file_type entry,
                       fsf_size_bytes := ent_size_bytes entry, fsf_contents := None\<rparr>
                 in if ent_size_bytes entry = 0
                    then let buffer = (ar_file_buffer s)[0 := 0]
                         in (True, file\<lparr>fsf_contents := Some buffer\<rparr>, s\<lparr>ar_file_buffer := buffer\<rparr>)
                    else if ent_size_bytes entry \<ge> of_nat arfs_file_buffer_capacity
                    then (False, file, s)
                    else let sector_count = (ent_size_bytes entry + of_nat arfs_sector_size - 1) div
                               of_nat arfs_sector_size
                         in if sector_count = 0 \<or> sector_count > ucast UINT32_MAX
                            then (False, file, s)
                            else case arwill_block_read (ar_block_device s) (ent_data_lba entry)
                                   (ucast sector_count) (ar_file_buffer s) arfs_file_buffer_capacity of
                                   (False, buffer) \<Rightarrow> (False, file, s\<lparr>ar_file_buffer := buffer\<rparr>)
                                 | (True, buffer) \<Rightarrow>
                                     let buffer = buffer[unat (ent_size_bytes entry) := 0]
                                     in (True, file\<lparr>fsf_contents := Some buffer\<rparr>,
                                         s\<lparr>ar_file_buffer := buffer\<rparr>))"

definition entry_sector_count :: "arfs_entry \<Rightarrow> u64" where
  "entry_sector_count entry =
     (if ent_kind entry \<noteq> Arfs_file \<or> ent_size_bytes entry = 0 then 0
      else (ent_size_bytes entry + of_nat arfs_sector_size - 1) div of_nat arfs_sector_size)"

definition sector_range_is_free :: "'c arfs_context \<Rightarrow> u64 \<Rightarrow> u64 \<Rightarrow> bool" where
  "sector_range_is_free s first count =
     list_all (\<lambda>entry. let used = entry_sector_count entry
                       in \<not> (used \<noteq> 0 \<and> first < ent_data_lba entry + used \<and>
                             ent_data_lba entry < first + count))
       (take (ar_entry_count s) (ar_entries s))"

text \<open>
  \<open>allocate_sectors\<close> tries the candidates in order. \<open>count\<close> is not 0 in the loop,
  so its bound is below \<open>UINT64_MAX\<close> and the candidate does not wrap.
\<close>

definition allocate_sectors :: "'c arfs_context \<Rightarrow> u64 \<Rightarrow> u64 option" where
  "allocate_sectors s count =
     (case ar_block_device s of
        None \<Rightarrow> None
      | Some device \<Rightarrow>
          if count = 0 \<or> count > bd_sector_count device \<or>
             ar_data_lba s > bd_sector_count device - count then None
          else find (\<lambda>candidate. sector_range_is_free s candidate count)
                 (map of_nat [unat (ar_data_lba s)..<unat (bd_sector_count device - count) + 1]))"

definition stats_step :: "'c arfs_context \<Rightarrow> u64 \<times> u64 \<times> u64 \<Rightarrow> u64 \<Rightarrow> u64 \<times> u64 \<times> u64" where
  "stats_step s acc sector =
     (case acc of (used, current_free_run, largest_free_run) \<Rightarrow>
        if sector_range_is_free s sector 1
        then let run = current_free_run + 1
             in (used, run, if run > largest_free_run then run else largest_free_run)
        else (used + 1, 0, largest_free_run))"

definition arfs_storage_stats ::
    "'c arfs_context \<Rightarrow> arwill_fs_storage_stats \<Rightarrow> bool \<times> arwill_fs_storage_stats" where
  "arfs_storage_stats s stats =
     (case ar_block_device s of
        None \<Rightarrow> (False, stats)
      | Some device \<Rightarrow>
          if ar_data_lba s > bd_sector_count device then (False, stats)
          else case foldl (stats_step s) (0, 0, 0)
                 (map of_nat [unat (ar_data_lba s)..<unat (bd_sector_count device)]) of
                 (used, _, largest_free_run) \<Rightarrow>
                   let data_sectors = bd_sector_count device - ar_data_lba s
                   in (True, stats\<lparr>st_entries_used := ar_entry_count s,
                         st_entries_capacity := arfs_max_entries,
                         st_manifest_sectors := ar_manifest_sectors s,
                         st_data_sectors := data_sectors,
                         st_used_data_sectors := used,
                         st_free_data_sectors := data_sectors - used,
                         st_largest_free_run_sectors := largest_free_run,
                         st_max_path_bytes := arfs_max_path_length - 1,
                         st_max_file_bytes := arfs_write_buffer_capacity\<rparr>))"

text \<open>
  The part of \<open>arfs_write_bytes\<close> under \<open>if (sectors != 0U)\<close>: choose the sectors and
  write the contents. \<open>None\<close> is the early return.
\<close>

definition store_contents ::
    "'c arfs_context \<Rightarrow> arfs_entry \<Rightarrow> bool \<Rightarrow> u64 \<Rightarrow> bytes \<Rightarrow> nat \<Rightarrow> u64 option \<times> 'c arfs_context" where
  "store_contents s entry is_new sectors_needed contents len =
     (if sectors_needed = 0 then (Some 0, s)
      else let current_sectors = (if is_new then 0 else entry_sector_count entry)
           in case (if current_sectors \<ge> sectors_needed then Some (ent_data_lba entry)
                    else allocate_sectors s sectors_needed) of
                None \<Rightarrow> (None, s)
              | Some data_lba \<Rightarrow>
                 (case arwill_block_write (ar_block_device s) data_lba (ucast sectors_needed)
                         (take len contents @ replicate (arfs_write_buffer_capacity - len) 0)
                         arfs_write_buffer_capacity of
                    (ok, dev) \<Rightarrow>
                      (if ok then Some data_lba else None, s\<lparr>ar_block_device := dev\<rparr>)))"

text \<open>The rest of \<open>arfs_write_bytes\<close>: fill the entry, persist, undo on failure.\<close>

definition commit_file ::
    "'c arfs_context \<Rightarrow> nat \<Rightarrow> bool \<Rightarrow> bytes \<Rightarrow> arwill_fs_file_type \<Rightarrow> u64 \<Rightarrow> nat \<Rightarrow> bool \<times> 'c arfs_context" where
  "commit_file s index is_new path type data_lba len =
     (let previous = ar_entries s ! index;
          entry = previous\<lparr>ent_kind := Arfs_file, ent_file_type := type,
            ent_data_lba := data_lba, ent_size_bytes := of_nat len\<rparr>
      in case (if is_new then copy_token (ent_path entry) arfs_max_path_length path
                               (arwill_text_length path)
               else (True, ent_path entry)) of
           (False, _) \<Rightarrow> (False, s\<lparr>ar_entries := (ar_entries s)[index := entry]\<rparr>)
         | (True, p) \<Rightarrow>
             let entry = entry\<lparr>ent_path := p,
                   ent_name := derive_name p (ent_name entry) arfs_max_name_length\<rparr>;
                 s = s\<lparr>ar_entries := (ar_entries s)[index := entry],
                   ar_entry_count := ar_entry_count s + (if is_new then 1 else 0)\<rparr>
             in case persist_manifest s of
                  (True, s) \<Rightarrow> (True, s)
                | (False, s) \<Rightarrow>
                    (False, if is_new then s\<lparr>ar_entry_count := ar_entry_count s - 1\<rparr>
                            else s\<lparr>ar_entries := (ar_entries s)[index := previous]\<rparr>))"

definition arfs_write_bytes ::
    "'c arfs_context \<Rightarrow> bytes \<Rightarrow> arwill_fs_file_type \<Rightarrow> bytes option \<Rightarrow> nat \<Rightarrow> bool \<times> 'c arfs_context" where
  "arfs_write_bytes s path type contents len =
     (if \<not> path_is_valid path \<or> \<not> parent_directory_exists s path \<or>
         len \<ge> arfs_file_buffer_capacity \<or> len > arfs_write_buffer_capacity \<or>
         (contents = None \<and> len \<noteq> 0) then (False, s)
      else let found = find_entry s path;
               is_new = (found = None);
               sectors_needed = (if len = 0 then 0
                          else (of_nat len + of_nat arfs_sector_size - 1) div of_nat arfs_sector_size)
           in if \<not> is_new \<and> ent_kind (ar_entries s ! the found) \<noteq> Arfs_file then (False, s)
              else if is_new \<and> ar_entry_count s \<ge> arfs_max_entries then (False, s)
              else let index = (case found of None \<Rightarrow> ar_entry_count s | Some i \<Rightarrow> i)
                   in case store_contents s (ar_entries s ! index) is_new sectors_needed
                             (case contents of None \<Rightarrow> [] | Some c \<Rightarrow> c) len of
                        (None, s) \<Rightarrow> (False, s)
                      | (Some data_lba, s) \<Rightarrow> commit_file s index is_new path type data_lba len)"

definition arfs_create_directory :: "'c arfs_context \<Rightarrow> bytes \<Rightarrow> bool \<times> 'c arfs_context" where
  "arfs_create_directory s path =
     (if \<not> path_is_valid path \<or> find_entry s path \<noteq> None \<or> \<not> parent_directory_exists s path
      then (False, s)
      else case add_directory_entry s path (arwill_text_length path) of
             (False, s) \<Rightarrow> (False, s)
           | (True, s) \<Rightarrow>
              (case persist_manifest s of
                 (True, s) \<Rightarrow> (True, s)
               | (False, s) \<Rightarrow> (False, s\<lparr>ar_entry_count := ar_entry_count s - 1\<rparr>)))"

definition shift_down :: "arfs_entry list \<Rightarrow> nat \<Rightarrow> nat \<Rightarrow> arfs_entry list" where
  "shift_down entries remove_index count =
     foldl (\<lambda>es index. es[index := es ! (index + 1)]) entries [remove_index..<count - 1]"

definition shift_up :: "arfs_entry list \<Rightarrow> nat \<Rightarrow> nat \<Rightarrow> arfs_entry list" where
  "shift_up entries remove_index count =
     foldl (\<lambda>es index. es[index := es ! (index - 1)]) entries (rev [remove_index + 1..<count + 1])"

definition arfs_remove :: "'c arfs_context \<Rightarrow> bytes \<Rightarrow> bool \<times> 'c arfs_context" where
  "arfs_remove s path =
     (case find_entry s path of
        None \<Rightarrow> (False, s)
      | Some remove_index \<Rightarrow>
          if ent_kind (ar_entries s ! remove_index) = Arfs_directory \<and>
             list_ex (\<lambda>entry. entry_is_child_of entry path)
               (take (ar_entry_count s) (ar_entries s)) then (False, s)
          else let removed = ar_entries s ! remove_index;
                   s = s\<lparr>ar_entries := shift_down (ar_entries s) remove_index (ar_entry_count s),
                         ar_entry_count := ar_entry_count s - 1\<rparr>
               in case persist_manifest s of
                    (True, s) \<Rightarrow> (True, s)
                  | (False, s) \<Rightarrow>
                      (False, s\<lparr>ar_entries :=
                          (shift_up (ar_entries s) remove_index (ar_entry_count s))
                            [remove_index := removed],
                        ar_entry_count := ar_entry_count s + 1\<rparr>))"

definition arfs_filesystem :: "'c arfs_context \<Rightarrow> 'c arfs_context arwill_filesystem" where
  "arfs_filesystem s =
     \<lparr>fs_name = ''arfs mutable'', fs_context = s, fs_list = Some arfs_list,
      fs_read_file = Some arfs_read_file, fs_create_directory = Some arfs_create_directory,
      fs_write_bytes = Some arfs_write_bytes, fs_remove = Some arfs_remove,
      fs_storage_stats = Some arfs_storage_stats\<rparr>"

definition arwill_arfs_mount ::
    "'c arfs_context \<Rightarrow> 'c arwill_block_device option \<Rightarrow>
     'c arfs_context arwill_filesystem option \<times> 'c arfs_context" where
  "arwill_arfs_mount s block_device =
     (let s = s\<lparr>ar_block_device := block_device, ar_entry_count := 0, ar_manifest_lba := 0,
                ar_manifest_sectors := 0, ar_data_lba := 0\<rparr>
      in case block_device of
           None \<Rightarrow> (None, s)
         | Some device \<Rightarrow>
            if bd_sector_size device \<noteq> of_nat arfs_sector_size then (None, s)
            else case arwill_block_read block_device arfs_superblock_lba 1
                        (replicate arfs_sector_size 0) arfs_sector_size of
              (False, _) \<Rightarrow> (None, s)
            | (True, superblock) \<Rightarrow>
              if \<not> arwill_text_starts_with superblock (bytes_of ''ARFS2'' @ [newline]) then (None, s)
              else case (parse_key_decimal superblock (bytes_of ''manifest_lba=''),
                         parse_key_decimal superblock (bytes_of ''manifest_sectors='')) of
                (Some manifest_lba, Some manifest_sectors) \<Rightarrow>
                 (case parse_key_decimal superblock (bytes_of ''data_lba='') of
                    None \<Rightarrow> (None, s)
                  | Some data_lba \<Rightarrow>
                     let s = s\<lparr>ar_data_lba := data_lba\<rparr>
                     in if data_lba \<ge> bd_sector_count device then (None, s)
                        else let s = s\<lparr>ar_manifest_lba := manifest_lba,
                                      ar_manifest_sectors := manifest_sectors\<rparr>
                             in if manifest_sectors = 0 \<or>
                                   manifest_sectors > of_nat arfs_max_manifest_sectors then (None, s)
                                else case arwill_block_read block_device manifest_lba
                                       (ucast manifest_sectors) (ar_manifest s) arfs_manifest_capacity of
                                  (False, m) \<Rightarrow> (None, s\<lparr>ar_manifest := m\<rparr>)
                                | (True, m) \<Rightarrow>
                                   (case parse_manifest (s\<lparr>ar_manifest := m\<rparr>)
                                           (unat manifest_sectors * arfs_sector_size) of
                                      (False, s) \<Rightarrow> (None, s\<lparr>ar_entry_count := 0\<rparr>)
                                    | (True, s) \<Rightarrow> (Some (arfs_filesystem s), s)))
              | _ \<Rightarrow> (None, s))"

section \<open>Paths\<close>

lemma last_slash_Suc:
  "start \<le> n \<Longrightarrow> last_slash_from start p (Suc n) =
     (if cs_at p n = slash then n else last_slash_from start p n)"
  by (simp add: last_slash_from_def)

lemma last_slash_props:
  "last_slash_from start p n \<noteq> 0 \<Longrightarrow>
     start \<le> last_slash_from start p n \<and> last_slash_from start p n < n \<and>
     cs_at p (last_slash_from start p n) = slash"
proof (induction n)
  case (Suc n)
  show ?case
  proof (cases "start \<le> n")
    case True
    with Suc show ?thesis by (auto simp: last_slash_Suc split: if_splits)
  next
    case False
    with Suc.prems show ?thesis by (simp add: last_slash_from_def)
  qed
qed (simp add: last_slash_from_def)

lemma last_slash_after:
  "start \<le> j \<Longrightarrow> j < n \<Longrightarrow> last_slash_from start p n < j \<Longrightarrow> cs_at p j \<noteq> slash"
proof (induction n)
  case (Suc n)
  then have "start \<le> n" by simp
  with Suc show ?case
    by (cases "j = n") (auto simp: last_slash_Suc split: if_splits)
qed simp

lemma last_slash_start:
  assumes "cs_at p 0 = slash" and "0 < n"
  shows "last_slash_from 0 p n = last_slash_from 1 p n"
  using assms(2)
proof (induction n)
  case (Suc n)
  then show ?case
    using assms(1) by (cases n) (auto simp: last_slash_Suc last_slash_from_def)
qed simp

lemma path_scan_result:
  assumes "path_scan p len i seg = Some r" and "1 \<le> i" and "i \<le> len" and "len \<le> length p"
    and "seg = i - 1 - last_slash_from 1 p i" and "last_slash_from 1 p i < i"
  shows "r = len - 1 - last_slash_from 1 p len"
    and "\<And>j. i \<le> j \<Longrightarrow> j < len \<Longrightarrow> p ! j \<noteq> space"
  using assms
proof (atomize (full), induction p len i seg rule: path_scan.induct)
  case (1 p len i seg)
  show ?case
  proof (cases "i < len")
    case False
    from "1.prems"(1) False have "seg = r" by (subst (asm) path_scan.simps) simp
    with "1.prems" False show ?thesis by simp
  next
    case True
    let ?seg = "if cs_at p i = slash then 0 else seg + 1"
    have step: "path_scan p len (i + 1) ?seg = Some r" and nosp: "cs_at p i \<noteq> space"
      using "1.prems"(1) True
      by (auto simp: path_scan.simps [of p len i seg] split: if_splits)
    have last: "last_slash_from 1 p (i + 1) = (if cs_at p i = slash then i else last_slash_from 1 p i)"
      using "1.prems"(2) by (simp add: last_slash_Suc)
    have "r = len - 1 - last_slash_from 1 p len \<and> (\<forall>j. i + 1 \<le> j \<longrightarrow> j < len \<longrightarrow> p ! j \<noteq> space)"
    proof (cases "cs_at p i = slash")
      case sl: True
      have noslash: "\<not> (cs_at p i = space \<or> cs_at p i = slash \<and> cs_at p (i - 1) = slash)"
          "\<not> (seg = 0 \<or> seg \<ge> arfs_max_name_length)"
        using "1.prems"(1) True sl
        by (auto simp: path_scan.simps [of p len i seg] split: if_splits)
      show ?thesis
        using "1.IH"(1) [OF True noslash(1) sl noslash(2)] step last sl "1.prems" True by auto
    next
      case nsl: False
      have ok: "\<not> (cs_at p i = space \<or> cs_at p i = slash \<and> cs_at p (i - 1) = slash)"
        using nosp nsl by simp
      have l: "last_slash_from 1 p (i + 1) = last_slash_from 1 p i"
        using last nsl by simp
      show ?thesis
      proof (rule "1.IH"(2) [OF True ok nsl])
        show "path_scan p len (i + 1) (seg + 1) = Some r" using step nsl by simp
        show "seg + 1 = i + 1 - 1 - last_slash_from 1 p (i + 1)"
          unfolding l using "1.prems"(5,6) by linarith
        show "last_slash_from 1 p (i + 1) < i + 1" unfolding l using "1.prems"(6) by simp
      qed (use True "1.prems"(4) in simp_all)
    qed
    with nosp True "1.prems"(4) show ?thesis
      by (metis Suc_eq_plus1 cs_at_less le_neq_implies_less less_eq_Suc_le order_less_le_trans)
  qed
qed

text \<open>What a path accepted by \<open>path_is_valid\<close> looks like.\<close>

lemma path_is_valid_shape:
  assumes "path_is_valid p" and "0 \<notin> set p"
  shows "2 \<le> length p" and "length p < arfs_max_path_length" and "p ! 0 = slash"
    and "p ! (length p - 1) \<noteq> slash" and "space \<notin> set p" and "name_fits p"
proof -
  have len: "arwill_text_length p = length p"
    by (simp add: arwill_text_length_eq c_string_id assms(2))
  obtain r where b: "2 \<le> length p" "length p < arfs_max_path_length" "cs_at p 0 = slash"
      "cs_at p (length p - 1) \<noteq> slash" and scan: "path_scan p (length p) 1 0 = Some r"
      and r: "r < arfs_max_name_length"
    using assms(1)
    by (auto simp: path_is_valid_def Let_def len split: if_splits option.splits)
  show "2 \<le> length p" and "length p < arfs_max_path_length" by (fact b(1) b(2))+
  show "p ! 0 = slash" and "p ! (length p - 1) \<noteq> slash"
    using b by (simp_all add: cs_at_def split: if_splits)
  have one: "last_slash_from 1 p 1 = 0" by (simp add: last_slash_from_def)
  have res: "r = length p - 1 - last_slash_from 1 p (length p)"
    using b(1) one by (intro path_scan_result(1) [OF scan]) simp_all
  have "p ! j \<noteq> space" if "j < length p" for j
  proof (cases "j = 0")
    case True
    with \<open>p ! 0 = slash\<close> show ?thesis by simp
  next
    case False
    then show ?thesis
      using that b(1) one by (intro path_scan_result(2) [OF scan]) simp_all
  qed
  then show "space \<notin> set p" by (auto simp: in_set_conv_nth)
  have "last_slash_from 0 p (length p) = last_slash_from 1 p (length p)"
    using b by (intro last_slash_start) auto
  then show "name_fits p"
    using res r by (simp add: name_fits_def Let_def)
qed

text \<open>The directory a path lies in.\<close>

definition parent_path :: "bytes \<Rightarrow> bytes" where
  "parent_path p = (let l = last_slash_from 1 p (length p)
     in if l = 0 then bytes_of ''/'' else take l p)"

lemma tail_is_leaf_eq:
  "0 \<notin> set t \<Longrightarrow> tail_is_leaf t \<longleftrightarrow> t \<noteq> [] \<and> slash \<notin> set t"
  by (cases t) (auto simp: tail_is_leaf_def c_string_id list_all_iff)

lemma last_slash_unique:
  assumes "1 \<le> k" and "k < length p" and "p ! k = slash" and "slash \<notin> set (drop (k + 1) p)"
  shows "last_slash_from 1 p (length p) = k"
proof -
  let ?l = "last_slash_from 1 p (length p)"
  have ge: "k \<le> ?l"
    using last_slash_after [of 1 k "length p" p] assms by (cases "?l < k") auto
  then have "?l < length p" and "p ! ?l = slash"
    using last_slash_props [of 1 p "length p"] assms(1) by auto
  then have "\<not> k < ?l"
    using assms(4) by (auto simp: in_set_drop_nth dest!: spec [of _ ?l])
  with ge show ?thesis by simp
qed

lemma slash_free_tail:
  assumes "0 < length p"
  shows "slash \<notin> set (drop (last_slash_from 1 p (length p) + 1) p)"
  using last_slash_after [of 1 _ "length p" p] by (auto simp: in_set_drop_nth)

text \<open>\<open>entry_is_child_of\<close> decides whether a directory is the parent of an entry.\<close>

lemma entry_is_child_of_parent:
  assumes e: "path_is_valid (ent_path e)" "0 \<notin> set (ent_path e)"
    and p: "p = bytes_of ''/'' \<or> path_is_valid p" "0 \<notin> set p"
  shows "entry_is_child_of e p \<longleftrightarrow> parent_path (ent_path e) = p"
proof -
  let ?q = "ent_path e"
  let ?l = "last_slash_from 1 ?q (length ?q)"
  note sh = path_is_valid_shape [OF e]
  have root: "arwill_text_equals p (bytes_of ''/'') \<longleftrightarrow> p = bytes_of ''/''"
    using p(2) by (simp add: arwill_text_equals_eq c_string_id bytes_of_def)
  have lprop: "?l \<noteq> 0 \<Longrightarrow> 1 \<le> ?l \<and> ?l < length ?q \<and> ?q ! ?l = slash"
    using last_slash_props [of 1 ?q "length ?q"] by auto
  have nul: "0 \<notin> set (drop k ?q)" for k
    using e(2) by (auto dest: in_set_dropD)
  show ?thesis
  proof (cases "p = bytes_of ''/''")
    case True
    have "entry_is_child_of e p \<longleftrightarrow> slash \<notin> set (drop 1 ?q)"
      using True root sh(1) nul [of 1]
      by (auto simp: entry_is_child_of_def tail_is_leaf_eq)
    also have "\<dots> \<longleftrightarrow> ?l = 0"
    proof
      assume "slash \<notin> set (drop 1 ?q)"
      with lprop show "?l = 0"
        by (metis in_set_drop_nth)
    next
      assume "?l = 0"
      with slash_free_tail [of ?q] sh(1) show "slash \<notin> set (drop 1 ?q)"
        by (cases ?q) auto
    qed
    also have "\<dots> \<longleftrightarrow> parent_path ?q = p"
    proof -
      have "take ?l ?q = bytes_of ''/'' \<Longrightarrow> ?l \<noteq> 0 \<Longrightarrow> False"
      proof -
        assume t: "take ?l ?q = bytes_of ''/''" and "?l \<noteq> 0"
        with lprop have "?l < length ?q" and "?q ! ?l = slash" by auto
        moreover have "?l = 1"
          using arg_cong [OF t, of length] \<open>?l < length ?q\<close> by simp
        ultimately have "path_scan ?q (length ?q) 1 0 = None"
          using sh(3) by (subst path_scan.simps) simp
        then show False
          using e by (auto simp: path_is_valid_def Let_def arwill_text_length_eq c_string_id
              split: if_splits)
      qed
      then show ?thesis
        using True by (auto simp: parent_path_def Let_def)
    qed
    finally show ?thesis .
  next
    case False
    with p have pv: "path_is_valid p" by simp
    note psh = path_is_valid_shape [OF pv p(2)]
    have plen: "arwill_text_length p = length p"
      using p(2) by (simp add: arwill_text_length_eq c_string_id)
    have "entry_is_child_of e p \<longleftrightarrow> prefix p ?q \<and> cs_at ?q (length p) = slash \<and>
        drop (length p + 1) ?q \<noteq> [] \<and> slash \<notin> set (drop (length p + 1) ?q)"
      using False root nul [of "length p + 1"] p(2)
      by (auto simp: entry_is_child_of_def Let_def plen arwill_text_starts_with_eq tail_is_leaf_eq)
    also have "\<dots> \<longleftrightarrow> ?l = length p \<and> take ?l ?q = p"
    proof
      assume c: "prefix p ?q \<and> cs_at ?q (length p) = slash \<and>
        drop (length p + 1) ?q \<noteq> [] \<and> slash \<notin> set (drop (length p + 1) ?q)"
      then have "?l = length p"
        using psh(1) by (intro last_slash_unique) auto
      with c show "?l = length p \<and> take ?l ?q = p"
        by (auto simp: prefix_def)
    next
      assume c: "?l = length p \<and> take ?l ?q = p"
      with psh(1) have nz: "?l \<noteq> 0" by auto
      then have sl: "?q ! ?l = slash" "?l < length ?q" using lprop by auto
      have "?l \<noteq> length ?q - 1" using sl sh(4) by auto
      with sl(2) have "drop (?l + 1) ?q \<noteq> []" by simp
      moreover have "prefix p ?q"
        using c by (metis take_is_prefix)
      moreover have "slash \<notin> set (drop (?l + 1) ?q)"
        using slash_free_tail [of ?q] sh(1) by (cases ?q) auto
      ultimately show "prefix p ?q \<and> cs_at ?q (length p) = slash \<and>
          drop (length p + 1) ?q \<noteq> [] \<and> slash \<notin> set (drop (length p + 1) ?q)"
        using c sl by auto
    qed
    also have "\<dots> \<longleftrightarrow> parent_path ?q = p"
      using False psh(1) lprop by (auto simp: parent_path_def Let_def min_def)
    finally show ?thesis .
  qed
qed

section \<open>The entry table\<close>

definition live :: "'c arfs_context \<Rightarrow> arfs_entry list" where
  "live s = take (ar_entry_count s) (ar_entries s)"

lemma live_nth [simp]:
  "ar_entry_count s \<le> length (ar_entries s) \<Longrightarrow> i < ar_entry_count s \<Longrightarrow>
   live s ! i = ar_entries s ! i"
  by (simp add: live_def)

lemma live_length [simp]:
  "ar_entry_count s \<le> length (ar_entries s) \<Longrightarrow> length (live s) = ar_entry_count s"
  by (simp add: live_def)

lemma live_frame [simp]:
  "live (s\<lparr>ar_block_device := d\<rparr>) = live s" "live (s\<lparr>ar_manifest := m\<rparr>) = live s"
  "live (s\<lparr>ar_file_buffer := f\<rparr>) = live s"
  by (simp_all add: live_def)

definition entry_ok :: "arfs_entry \<Rightarrow> bool" where
  "entry_ok e \<longleftrightarrow> 0 \<notin> set (ent_path e) \<and> path_is_valid (ent_path e) \<and>
     ent_name e = derive_name (ent_path e) [] arfs_max_name_length \<and>
     (ent_kind e = Arfs_directory \<longrightarrow>
        ent_file_type e = File_binary \<and> ent_data_lba e = 0 \<and> ent_size_bytes e = 0)"

text \<open>A valid path without line ends is a token of the manifest.\<close>

lemma entry_ok_wf:
  assumes "entry_ok e" and "newline \<notin> set (ent_path e)" and "carriage_return \<notin> set (ent_path e)"
  shows "ent_wf e"
proof -
  have p: "path_is_valid (ent_path e)" "0 \<notin> set (ent_path e)"
    using assms(1) by (simp_all add: entry_ok_def)
  note sh = path_is_valid_shape [OF p]
  have "token_ok (ent_path e)"
    using sh(1,5) p(2) assms(2,3) by (cases "ent_path e") (auto simp: token_ok_def)
  with assms(1) sh(2,6) show ?thesis
    by (simp add: ent_wf_def entry_ok_def)
qed

lemma find_entry_Some:
  assumes "find_entry s p = Some i" and "ar_entry_count s \<le> length (ar_entries s)"
    and "\<forall>e \<in> set (live s). entry_ok e" and "0 \<notin> set p"
  shows "i < ar_entry_count s" and "ent_path (ar_entries s ! i) = p"
    and "ar_entries s ! i \<in> set (live s)"
proof -
  from assms(1) have i: "i < ar_entry_count s"
      and eq: "arwill_text_equals (ent_path (ar_entries s ! i)) p"
    by (auto simp: find_entry_def find_Some_iff)
  show "i < ar_entry_count s" by (fact i)
  show mem: "ar_entries s ! i \<in> set (live s)"
    using i assms(2) by (metis live_length live_nth nth_mem)
  with assms(3) have "0 \<notin> set (ent_path (ar_entries s ! i))"
    by (auto simp: entry_ok_def)
  with eq assms(4) show "ent_path (ar_entries s ! i) = p"
    by (simp add: arwill_text_equals_eq c_string_id)
qed

lemma find_entry_None:
  assumes "find_entry s p = None" and "ar_entry_count s \<le> length (ar_entries s)"
  shows "p \<notin> ent_path ` set (live s)"
proof
  assume "p \<in> ent_path ` set (live s)"
  then obtain i where "i < ar_entry_count s" and "ent_path (ar_entries s ! i) = p"
    using assms(2) by (auto simp: in_set_conv_nth)
  with assms(1) show False
    by (auto simp: find_entry_def find_None_iff arwill_text_equals_eq)
qed

lemma parent_directory_exists_eq:
  assumes "ar_entry_count s \<le> length (ar_entries s)" and "\<forall>e \<in> set (live s). entry_ok e"
    and "0 \<notin> set p" and "length p < arfs_max_path_length"
    and "distinct (map ent_path (live s))"
  shows "parent_directory_exists s p \<longleftrightarrow> parent_path p = bytes_of ''/'' \<and>
           last_slash_from 1 p (length p) = 0 \<or>
         (\<exists>e \<in> set (live s). ent_path e = parent_path p \<and> ent_kind e = Arfs_directory)"
    (is "_ \<longleftrightarrow> ?root \<or> ?dir")
proof -
  let ?l = "last_slash_from 1 p (length p)"
  have len: "arwill_text_length p = length p"
    by (simp add: arwill_text_length_eq c_string_id assms(3))
  show ?thesis
  proof (cases "?l = 0")
    case True
    then show ?thesis by (simp add: parent_directory_exists_def len parent_path_def)
  next
    case False
    then have l: "?l < length p" using last_slash_props [of 1 p "length p"] by auto
    have copied: "map (cs_at p) [0..<k] = take k p" if "k \<le> length p" for k
      using that by (intro nth_equalityI) auto
    have nul: "0 \<notin> set (take ?l p)"
      using assms(3) by (auto dest: in_set_takeD)
    have par: "parent_path p = take ?l p" using False by (simp add: parent_path_def Let_def)
    have "parent_directory_exists s p \<longleftrightarrow>
        (\<exists>i. find_entry s (take ?l p) = Some i \<and> ent_kind (ar_entries s ! i) = Arfs_directory)"
      using False l assms(4)
      by (auto simp: parent_directory_exists_def len copy_token_def copied split: option.splits)
    also have "\<dots> \<longleftrightarrow> ?dir"
    proof
      assume "\<exists>i. find_entry s (take ?l p) = Some i \<and> ent_kind (ar_entries s ! i) = Arfs_directory"
      with find_entry_Some [OF _ assms(1,2) nul] show ?dir
        by (metis par)
    next
      assume ?dir
      then obtain e where e: "e \<in> set (live s)" "ent_path e = take ?l p" "ent_kind e = Arfs_directory"
        by (auto simp: par)
      then have "find_entry s (take ?l p) \<noteq> None"
        using find_entry_None [OF _ assms(1)] by (metis image_eqI)
      then obtain i where i: "find_entry s (take ?l p) = Some i" by auto
      note f = find_entry_Some [OF i assms(1,2) nul]
      have "ar_entries s ! i = e"
        using assms(5) e f by (metis distinct_map inj_onD)
      with e i show "\<exists>i. find_entry s (take ?l p) = Some i \<and>
          ent_kind (ar_entries s ! i) = Arfs_directory" by auto
    qed
    finally show ?thesis using False by simp
  qed
qed

lemma shift_down_nth:
  assumes "r < n" and "n \<le> length es"
  shows "length (shift_down es r n) = length es"
    and "i < length es \<Longrightarrow>
      shift_down es r n ! i = (if r \<le> i \<and> i < n - 1 then es ! (i + 1) else es ! i)"
proof -
  define f where "f k = foldl (\<lambda>es i. es[i := es ! (i + 1)]) es [r..<r + k]" for k
  have f_Suc: "f (Suc k) = (f k)[r + k := f k ! (r + k + 1)]" for k
    by (simp add: f_def)
  have f_len: "length (f k) = length es" for k
    by (induction k) (simp_all add: f_Suc, simp add: f_def)
  have f_nth: "i < length es \<Longrightarrow> r + k < length es \<Longrightarrow>
      f k ! i = (if r \<le> i \<and> i < r + k then es ! (i + 1) else es ! i)" for k i
  proof (induction k arbitrary: i)
    case (Suc k)
    then show ?case by (auto simp: f_Suc nth_list_update f_len less_Suc_eq)
  qed (auto simp: f_def)
  have sd: "shift_down es r n = f (n - 1 - r)"
    using assms by (simp add: shift_down_def f_def)
  show "length (shift_down es r n) = length es" by (simp add: sd f_len)
  show "i < length es \<Longrightarrow>
      shift_down es r n ! i = (if r \<le> i \<and> i < n - 1 then es ! (i + 1) else es ! i)"
    unfolding sd using assms by (subst f_nth) auto
qed

lemma shift_up_nth:
  assumes "r < n" and "n \<le> length es"
  shows "length (shift_up es r (n - 1)) = length es"
    and "i < length es \<Longrightarrow>
      shift_up es r (n - 1) ! i = (if r < i \<and> i < n then es ! (i - 1) else es ! i)"
proof -
  define f where "f k = foldl (\<lambda>es i. es[i := es ! (i - 1)]) es (rev [n - k..<n])" for k
  have f_Suc: "f (Suc k) = (f k)[n - Suc k := f k ! (n - Suc k - 1)]" if "k < n" for k
  proof -
    have "[n - Suc k..<n] = (n - Suc k) # [n - k..<n]"
      using that by (simp add: upt_rec [of "n - Suc k"] Suc_diff_Suc)
    then show ?thesis by (simp add: f_def)
  qed
  have f_len: "k \<le> n \<Longrightarrow> length (f k) = length es" for k
    by (induction k) (simp_all add: f_Suc, simp add: f_def)
  have f_nth: "i < length es \<Longrightarrow> k < n \<Longrightarrow>
      f k ! i = (if n - k \<le> i \<and> i < n then es ! (i - 1) else es ! i)" for k i
  proof (induction k arbitrary: i)
    case (Suc k)
    have "f k ! (n - Suc k - 1) = es ! (n - Suc k - 1)"
      using Suc.IH [of "n - Suc k - 1"] Suc.prems assms(2) by auto
    with Suc show ?case by (auto simp: f_Suc nth_list_update f_len)
  qed (auto simp: f_def)
  have su: "shift_up es r (n - 1) = f (n - 1 - r)"
    using assms by (simp add: shift_up_def f_def Suc_diff_Suc)
  show "length (shift_up es r (n - 1)) = length es" unfolding su by (rule f_len) simp
  show "i < length es \<Longrightarrow>
      shift_up es r (n - 1) ! i = (if r < i \<and> i < n then es ! (i - 1) else es ! i)"
    unfolding su using assms by (subst f_nth) auto
qed

lemma shift_up_restores:
  assumes "r < n" and "n \<le> length es"
  shows "(shift_up (shift_down es r n) r (n - 1))[r := es ! r] = es"
  using assms
  by (intro nth_equalityI)
     (auto simp: shift_up_nth [simplified] shift_down_nth [simplified] nth_list_update)

lemma shift_down_live:
  assumes "r < n" and "n \<le> length es"
  shows "take (n - 1) (shift_down es r n) = take r es @ drop (r + 1) (take n es)"
  using assms
  by (intro nth_equalityI) (auto simp: shift_down_nth [simplified] nth_append min_def split: if_splits)

end
