(* ===== verification/Arfs_Volume.thy ===== *)
theory Arfs_Volume
  imports Arfs
begin

text \<open>
  What ARFS promises: the invariant of a mounted volume, its abstract view (a
  map from paths to directories and files with their bytes), and the lemmas
  that every operation refines an update of that map. The device is any driver
  that meets the \<open>block_store\<close> contract with 512-byte sectors.
\<close>

section \<open>The invariant and the view\<close>

definition extent :: "arfs_entry \<Rightarrow> nat set" where
  "extent e = {unat (ent_data_lba e) ..< unat (ent_data_lba e) + unat (entry_sector_count e)}"

definition parents_ok :: "arfs_entry list \<Rightarrow> bool" where
  "parents_ok es \<longleftrightarrow> (\<forall>e \<in> set es. parent_path (ent_path e) = bytes_of ''/'' \<or>
     (\<exists>d \<in> set es. ent_path d = parent_path (ent_path e) \<and> ent_kind d = Arfs_directory))"

definition extents_disjoint :: "arfs_entry list \<Rightarrow> bool" where
  "extents_disjoint es \<longleftrightarrow>
     (\<forall>i < length es. \<forall>j < length es. i \<noteq> j \<longrightarrow> extent (es ! i) \<inter> extent (es ! j) = {})"

definition entry_fits :: "nat \<Rightarrow> nat \<Rightarrow> arfs_entry \<Rightarrow> bool" where
  "entry_fits data_start sc e \<longleftrightarrow> unat (ent_size_bytes e) < arfs_file_buffer_capacity \<and>
     extent e \<subseteq> {data_start ..< sc}"

definition table_ok :: "nat \<Rightarrow> nat \<Rightarrow> arfs_entry list \<Rightarrow> bool" where
  "table_ok data_start sc es \<longleftrightarrow> distinct (map ent_path es) \<and> extents_disjoint es \<and> parents_ok es \<and>
     (\<forall>e \<in> set es. entry_ok e \<and> entry_fits data_start sc e)"

text \<open>
  Beside the table: the sizes of the context's arrays, and the manifest between
  the superblock and the data area.
\<close>

definition arfs_wf :: "nat \<Rightarrow> 'c arfs_context \<Rightarrow> bool" where
  "arfs_wf sc s \<longleftrightarrow> length (ar_entries s) = arfs_max_entries \<and>
     ar_entry_count s \<le> arfs_max_entries \<and>
     length (ar_manifest s) = arfs_manifest_capacity \<and>
     length (ar_file_buffer s) = arfs_file_buffer_capacity \<and>
     1 \<le> unat (ar_manifest_sectors s) \<and> unat (ar_manifest_sectors s) \<le> arfs_max_manifest_sectors \<and>
     3 < unat (ar_manifest_lba s) \<and>
     unat (ar_manifest_lba s) + unat (ar_manifest_sectors s) \<le> unat (ar_data_lba s) \<and>
     unat (ar_data_lba s) \<le> sc \<and>
     table_ok (unat (ar_data_lba s)) sc (live s)"

datatype node = Dir | File arwill_fs_file_type bytes

definition file_bytes :: "(nat \<Rightarrow> u8) \<Rightarrow> arfs_entry \<Rightarrow> bytes" where
  "file_bytes im e =
     map (\<lambda>k. im (unat (ent_data_lba e) * 512 + k)) [0..<unat (ent_size_bytes e)]"

definition node_of :: "(nat \<Rightarrow> u8) \<Rightarrow> arfs_entry \<Rightarrow> node" where
  "node_of im e = (if ent_kind e = Arfs_directory then Dir
     else File (ent_file_type e) (file_bytes im e))"

definition table_view :: "(nat \<Rightarrow> u8) \<Rightarrow> arfs_entry list \<Rightarrow> bytes \<Rightarrow> node option" where
  "table_view im es = map_of (map (\<lambda>e. (ent_path e, node_of im e)) es)"

definition arfs_view :: "('c \<Rightarrow> nat \<Rightarrow> u8) \<Rightarrow> 'c arfs_context \<Rightarrow> bytes \<Rightarrow> node option" where
  "arfs_view img s = table_view (img (bd_context (the (ar_block_device s)))) (live s)"

section \<open>Sectors of a file\<close>

lemma sectors_of_size:
  fixes sz :: u64
  assumes "unat sz < arfs_file_buffer_capacity"
  shows "unat ((sz + of_nat arfs_sector_size - 1) div of_nat arfs_sector_size) = (unat sz + 511) div 512"
proof -
  have "sz + of_nat arfs_sector_size - 1 = sz + 511" by simp
  moreover have "unat (sz + 511) = unat sz + 511"
    using assms by (subst unat_add_64) simp_all
  ultimately show ?thesis by (simp only: unat_div) simp
qed

lemma entry_sector_count_eq:
  assumes "unat (ent_size_bytes e) < arfs_file_buffer_capacity" and "ent_kind e = Arfs_file"
  shows "unat (entry_sector_count e) = (unat (ent_size_bytes e) + 511) div 512"
proof (cases "ent_size_bytes e = 0")
  case True
  then show ?thesis by (simp add: entry_sector_count_def)
next
  case False
  then show ?thesis
    using assms(2) sectors_of_size [OF assms(1)] by (simp add: entry_sector_count_def)
qed

lemma extent_directory [simp]: "ent_kind e = Arfs_directory \<Longrightarrow> extent e = {}"
  by (simp add: extent_def entry_sector_count_def)

text \<open>The bytes of a file lie in the sectors of its extent.\<close>

lemma byte_in_extent:
  assumes "unat (ent_size_bytes e) < arfs_file_buffer_capacity" and "ent_kind e = Arfs_file"
    and "k < unat (ent_size_bytes e)"
  shows "(unat (ent_data_lba e) * 512 + k) div 512 \<in> extent e"
proof -
  have "k div 512 < (unat (ent_size_bytes e) + 511) div 512"
    using assms(3) by simp
  then show ?thesis
    by (simp add: extent_def entry_sector_count_eq [OF assms(1,2)])
qed

lemma addressed_sector: "a \<in> addressed 512 lba n \<longleftrightarrow> a div 512 \<in> {unat lba ..< unat lba + unat n}"
  by (auto simp: addressed_def div_less_iff_less_mult less_eq_div_iff_mult_less_eq)

lemma node_of_frame:
  assumes "unat (ent_size_bytes e) < arfs_file_buffer_capacity"
    and "\<And>a. a div 512 \<in> extent e \<Longrightarrow> im' a = im a"
  shows "node_of im' e = node_of im e"
proof (cases "ent_kind e")
  case Arfs_file
  then show ?thesis
    using assms(2) byte_in_extent [OF assms(1) Arfs_file]
    by (auto simp: node_of_def file_bytes_def)
qed (simp add: node_of_def)

lemma table_view_frame:
  assumes "table_ok ds sc es" and "\<And>e a. e \<in> set es \<Longrightarrow> a div 512 \<in> extent e \<Longrightarrow> im' a = im a"
  shows "table_view im' es = table_view im es"
proof -
  have "node_of im' e = node_of im e" if "e \<in> set es" for e
    using that assms by (intro node_of_frame) (auto simp: table_ok_def entry_fits_def)
  then show ?thesis
    unfolding table_view_def by (intro arg_cong [where f = map_of]) simp
qed

lemma extent_end:
  assumes "extent e \<subseteq> {ds ..< sc}" and "0 < unat (entry_sector_count e)"
  shows "unat (ent_data_lba e) + unat (entry_sector_count e) \<le> sc"
proof -
  have "unat (ent_data_lba e) + unat (entry_sector_count e) - 1 \<in> extent e"
    using assms(2) by (auto simp: extent_def)
  with assms(1) have "unat (ent_data_lba e) + unat (entry_sector_count e) - 1 < sc"
    by (meson atLeastLessThan_iff subsetD)
  with assms(2) show ?thesis by linarith
qed

lemma sector_range_is_free_disjoint:
  assumes "sector_range_is_free s first count" and "e \<in> set (live s)"
    and "unat first + unat count \<le> sc" and "extent e \<subseteq> {ds ..< sc}" and "sc < 18446744073709551616"
  shows "extent e \<inter> {unat first ..< unat first + unat count} = {}"
proof (cases "entry_sector_count e = 0")
  case True
  then show ?thesis by (simp add: extent_def)
next
  case False
  then have "0 < unat (entry_sector_count e)" by (simp add: unat_gt_0)
  with assms(4) have le: "unat (ent_data_lba e) + unat (entry_sector_count e) \<le> sc"
    by (rule extent_end)
  have sums: "unat (ent_data_lba e + entry_sector_count e) =
      unat (ent_data_lba e) + unat (entry_sector_count e)" "unat (first + count) = unat first + unat count"
    using le assms(3,5) by (simp_all add: unat_add_64)
  from assms(1,2) False have
      "\<not> (first < ent_data_lba e + entry_sector_count e \<and> ent_data_lba e < first + count)"
    by (auto simp: sector_range_is_free_def live_def list_all_iff Let_def)
  then show ?thesis
    by (auto simp: extent_def word_less_nat_alt sums)
qed

lemma sector_range_free_iff:
  assumes "\<forall>e \<in> set (live s). extent e \<subseteq> {ds ..< sc}" and "unat first + unat count \<le> sc"
    and "sc < 18446744073709551616" and "0 < unat count"
  shows "sector_range_is_free s first count \<longleftrightarrow>
     (\<forall>e \<in> set (live s). extent e \<inter> {unat first ..< unat first + unat count} = {})"
proof
  assume "sector_range_is_free s first count"
  with assms show "\<forall>e \<in> set (live s). extent e \<inter> {unat first ..< unat first + unat count} = {}"
    using sector_range_is_free_disjoint by metis
next
  assume d: "\<forall>e \<in> set (live s). extent e \<inter> {unat first ..< unat first + unat count} = {}"
  have "\<not> (entry_sector_count e \<noteq> 0 \<and> first < ent_data_lba e + entry_sector_count e \<and>
      ent_data_lba e < first + count)" if e: "e \<in> set (live s)" for e
  proof
    assume c: "entry_sector_count e \<noteq> 0 \<and> first < ent_data_lba e + entry_sector_count e \<and>
      ent_data_lba e < first + count"
    then have pos: "0 < unat (entry_sector_count e)" by (simp add: unat_gt_0)
    then have "unat (ent_data_lba e) + unat (entry_sector_count e) \<le> sc"
      using assms(1) e by (intro extent_end) auto
    then have "unat first < unat (ent_data_lba e) + unat (entry_sector_count e)"
        "unat (ent_data_lba e) < unat first + unat count"
      using c assms(2,3) by (simp_all add: word_less_nat_alt unat_add_64)
    with pos assms(4) have "max (unat first) (unat (ent_data_lba e)) \<in>
        extent e \<inter> {unat first ..< unat first + unat count}"
      by (auto simp: extent_def)
    with d e show False by auto
  qed
  then show "sector_range_is_free s first count"
    by (auto simp: sector_range_is_free_def live_def list_all_iff Let_def)
qed

section \<open>Tables under insertion, replacement and removal\<close>

lemma map_eqI_Some: "(\<And>p n. f p = Some n \<longleftrightarrow> g p = Some n) \<Longrightarrow> f = g"
  by (rule ext) (metis not_None_eq)

lemma table_view_Some:
  assumes "distinct (map ent_path es)"
  shows "table_view im es p = Some n \<longleftrightarrow> (\<exists>e \<in> set es. ent_path e = p \<and> node_of im e = n)"
proof -
  have "distinct (map fst (map (\<lambda>e. (ent_path e, node_of im e)) es))"
    using assms by (simp add: comp_def)
  then show ?thesis
    unfolding table_view_def by (auto simp: map_of_eq_Some_iff)
qed

lemma table_view_None: "table_view im es p = None \<longleftrightarrow> p \<notin> ent_path ` set es"
  by (auto simp: table_view_def map_of_eq_None_iff image_image)

lemma table_view_append:
  assumes "distinct (map ent_path (es @ [e]))"
  shows "table_view im (es @ [e]) = (table_view im es)(ent_path e \<mapsto> node_of im e)"
proof (rule map_eqI_Some)
  fix p n
  have "distinct (map ent_path es)" and "\<forall>x \<in> set es. ent_path x \<noteq> ent_path e"
    using assms by (auto simp: image_iff)
  with assms show "table_view im (es @ [e]) p = Some n \<longleftrightarrow>
      ((table_view im es)(ent_path e \<mapsto> node_of im e)) p = Some n"
    by (auto simp: table_view_Some simp del: map_append)
qed

lemma distinct_path_nth:
  assumes "distinct (map ent_path es)" and "i < length es" and "x \<in> set es"
    and "ent_path x = ent_path (es ! i)"
  shows "x = es ! i"
  using assms by (metis distinct_map inj_onD nth_mem)

lemma table_view_update:
  assumes "distinct (map ent_path es)" and "i < length es" and "ent_path e = ent_path (es ! i)"
  shows "table_view im (es[i := e]) = (table_view im es)(ent_path e \<mapsto> node_of im e)"
proof (rule map_eqI_Some)
  fix p n
  have paths: "map ent_path (es[i := e]) = map ent_path es"
    using assms(2,3) by (metis list_update_id map_update nth_map)
  then have d: "distinct (map ent_path (es[i := e]))" using assms(1) by simp
  show "table_view im (es[i := e]) p = Some n \<longleftrightarrow>
      ((table_view im es)(ent_path e \<mapsto> node_of im e)) p = Some n"
  proof (cases "p = ent_path e")
    case True
    then show ?thesis
      using table_view_Some [OF d, of im "ent_path e" "node_of im e"]
      by (auto simp: set_update_memI [OF assms(2)])
  next
    case False
    have "(\<exists>x \<in> set (es[i := e]). ent_path x = p \<and> node_of im x = n) \<longleftrightarrow>
        (\<exists>x \<in> set es. ent_path x = p \<and> node_of im x = n)"
    proof
      assume "\<exists>x \<in> set (es[i := e]). ent_path x = p \<and> node_of im x = n"
      with False show "\<exists>x \<in> set es. ent_path x = p \<and> node_of im x = n"
        using set_update_subset_insert [of es i e] by auto
    next
      assume "\<exists>x \<in> set es. ent_path x = p \<and> node_of im x = n"
      then obtain j where "j < length es" "ent_path (es ! j) = p" "node_of im (es ! j) = n"
        by (auto simp: in_set_conv_nth)
      moreover from this False have "j \<noteq> i" using assms(3) by auto
      ultimately show "\<exists>x \<in> set (es[i := e]). ent_path x = p \<and> node_of im x = n"
        by (metis length_list_update nth_list_update_neq nth_mem)
    qed
    with False show ?thesis by (simp add: table_view_Some [OF d] table_view_Some [OF assms(1)])
  qed
qed

definition remove_at :: "nat \<Rightarrow> 'a list \<Rightarrow> 'a list" where
  "remove_at r es = take r es @ drop (r + 1) es"

lemma remove_at_nth:
  "r < length es \<Longrightarrow> i < length es - 1 \<Longrightarrow>
   remove_at r es ! i = es ! (if i < r then i else i + 1)"
  by (auto simp: remove_at_def nth_append min_def)

lemma length_remove_at: "r < length es \<Longrightarrow> length (remove_at r es) = length es - 1"
  by (simp add: remove_at_def)

lemma set_remove_at:
  assumes "distinct (map ent_path es)" and "r < length es"
  shows "set (remove_at r es) = {e \<in> set es. ent_path e \<noteq> ent_path (es ! r)}"
    and "distinct (map ent_path (remove_at r es))"
proof -
  have split: "es = take r es @ es ! r # drop (r + 1) es"
    using assms(2) by (simp add: id_take_nth_drop)
  have d: "distinct (map ent_path (take r es @ es ! r # drop (r + 1) es))"
    using assms(1) split by metis
  have "set es = set (take r es) \<union> {es ! r} \<union> set (drop (r + 1) es)"
    by (subst split) auto
  with d show "set (remove_at r es) = {e \<in> set es. ent_path e \<noteq> ent_path (es ! r)}"
    by (auto simp: remove_at_def image_iff)
  from d show "distinct (map ent_path (remove_at r es))"
    by (auto simp: remove_at_def)
qed

lemma table_view_remove:
  assumes "distinct (map ent_path es)" and "r < length es"
  shows "table_view im (remove_at r es) = (table_view im es)(ent_path (es ! r) := None)"
  by (rule map_eqI_Some)
     (auto simp: table_view_Some [OF assms(1)] table_view_Some [OF set_remove_at(2) [OF assms]]
       set_remove_at(1) [OF assms])

lemma table_ok_append:
  assumes "table_ok ds sc es" and "entry_ok e" and "entry_fits ds sc e"
    and "ent_path e \<notin> ent_path ` set es"
    and "\<And>x. x \<in> set es \<Longrightarrow> extent x \<inter> extent e = {}"
    and "parent_path (ent_path e) = bytes_of ''/'' \<or>
      (\<exists>d \<in> set es. ent_path d = parent_path (ent_path e) \<and> ent_kind d = Arfs_directory)"
  shows "table_ok ds sc (es @ [e])"
proof -
  have "extents_disjoint (es @ [e])"
    unfolding extents_disjoint_def
  proof (intro allI impI)
    fix i j
    assume "i < length (es @ [e])" and "j < length (es @ [e])" and "i \<noteq> j"
    moreover have "k < length es \<Longrightarrow> extent (es ! k) \<inter> extent e = {}"
        "k < length es \<Longrightarrow> extent e \<inter> extent (es ! k) = {}" for k
      using assms(5) [OF nth_mem, of k] by (simp_all add: Int_commute)
    ultimately show "extent ((es @ [e]) ! i) \<inter> extent ((es @ [e]) ! j) = {}"
      using assms(1)
      by (cases "i < length es"; cases "j < length es")
         (simp_all add: nth_append table_ok_def extents_disjoint_def less_Suc_eq)
  qed
  moreover have "parents_ok (es @ [e])"
    using assms(1,6) by (auto simp: table_ok_def parents_ok_def)
  ultimately show ?thesis
    using assms(1-4) by (auto simp: table_ok_def)
qed

lemma table_ok_update:
  assumes "table_ok ds sc es" and "i < length es" and "entry_ok e" and "entry_fits ds sc e"
    and "ent_path e = ent_path (es ! i)" and "ent_kind e = ent_kind (es ! i)"
    and "\<And>j. j < length es \<Longrightarrow> j \<noteq> i \<Longrightarrow> extent (es ! j) \<inter> extent e = {}"
  shows "table_ok ds sc (es[i := e])"
proof -
  have paths: "map ent_path (es[i := e]) = map ent_path es"
    using assms(2,5) by (metis list_update_id map_update nth_map)
  have "extents_disjoint (es[i := e])"
    using assms(1,2,7)
    by (auto simp: extents_disjoint_def table_ok_def nth_list_update Int_commute)
  moreover have "parents_ok (es[i := e])"
  proof -
    have dirs: "\<exists>d \<in> set (es[i := e]). ent_path d = p \<and> ent_kind d = k"
      if "x \<in> set es" "ent_path x = p" "ent_kind x = k" for x p k
    proof -
      from that(1) obtain j where j: "j < length es" "x = es ! j" by (auto simp: in_set_conv_nth)
      then have "es[i := e] ! j \<in> set (es[i := e])" by simp
      moreover have "ent_path (es[i := e] ! j) = p" "ent_kind (es[i := e] ! j) = k"
        using that(2,3) j assms(2,5,6) by (auto simp: nth_list_update)
      ultimately show ?thesis by auto
    qed
    show ?thesis
      unfolding parents_ok_def
    proof
      fix x assume "x \<in> set (es[i := e])"
      then obtain y where "y \<in> set es" and "ent_path y = ent_path x"
        using set_update_subset_insert [of es i e] assms(2,5) nth_mem [OF assms(2)] by fastforce
      moreover from this assms(1) have "parent_path (ent_path y) = bytes_of ''/'' \<or>
          (\<exists>d \<in> set es. ent_path d = parent_path (ent_path y) \<and> ent_kind d = Arfs_directory)"
        unfolding table_ok_def parents_ok_def by blast
      ultimately show "parent_path (ent_path x) = bytes_of ''/'' \<or>
          (\<exists>d \<in> set (es[i := e]). ent_path d = parent_path (ent_path x) \<and>
             ent_kind d = Arfs_directory)"
        using dirs by auto
    qed
  qed
  moreover have "\<forall>x \<in> set (es[i := e]). entry_ok x \<and> entry_fits ds sc x"
    using assms(1,3,4) set_update_subset_insert [of es i e] by (auto simp: table_ok_def)
  ultimately show ?thesis
    using assms(1) by (simp add: table_ok_def paths)
qed

lemma table_ok_remove:
  assumes "table_ok ds sc es" and "r < length es"
    and "\<And>x. x \<in> set es \<Longrightarrow> ent_kind (es ! r) = Arfs_directory \<Longrightarrow>
      parent_path (ent_path x) \<noteq> ent_path (es ! r)"
  shows "table_ok ds sc (remove_at r es)"
proof -
  have d: "distinct (map ent_path es)" using assms(1) by (simp add: table_ok_def)
  have "extents_disjoint (remove_at r es)"
    using assms(1,2)
    by (auto simp: extents_disjoint_def table_ok_def remove_at_nth length_remove_at)
  moreover have "parents_ok (remove_at r es)"
    unfolding parents_ok_def set_remove_at(1) [OF d assms(2)]
  proof
    fix x assume x: "x \<in> {e \<in> set es. ent_path e \<noteq> ent_path (es ! r)}"
    show "parent_path (ent_path x) = bytes_of ''/'' \<or>
        (\<exists>d \<in> {e \<in> set es. ent_path e \<noteq> ent_path (es ! r)}.
           ent_path d = parent_path (ent_path x) \<and> ent_kind d = Arfs_directory)"
    proof (cases "parent_path (ent_path x) = bytes_of ''/''")
      case False
      with x assms(1) obtain y where y: "y \<in> set es" "ent_path y = parent_path (ent_path x)"
          "ent_kind y = Arfs_directory"
        by (auto simp: table_ok_def parents_ok_def)
      moreover have "ent_path y \<noteq> ent_path (es ! r)"
      proof
        assume "ent_path y = ent_path (es ! r)"
        with y x assms(3) distinct_path_nth [OF d assms(2) y(1)] show False by auto
      qed
      ultimately show ?thesis by auto
    qed simp
  qed
  ultimately show ?thesis
    using assms(1) set_remove_at [OF d assms(2)] by (auto simp: table_ok_def)
qed

end
