(* ===== verification/Arfs_Refinement.thy ===== *)
theory Arfs_Refinement
  imports Arfs_Volume
begin

text \<open>
  Every operation of ARFS as an update of the abstract view, for any driver
  that meets the \<open>block_store\<close> contract, and what a volume keeps across a
  remount. The locale \<open>arfs_volume\<close> holds the lemmas; the properties restate
  them over the definitions.
\<close>

section \<open>Writers keep the buffer's length\<close>

lemma length_put_bytes [simp]: "length (put_bytes buffer offset bs) = length buffer"
  by (induction buffer offset bs rule: put_bytes.induct) simp_all

lemma length_write_text: "length (fst (snd (write_text buffer capacity offset bs))) = length buffer"
  by (induction buffer capacity offset bs rule: write_text.induct) simp_all

lemma length_write_decimal: "length (fst (snd (write_decimal buffer capacity offset v))) = length buffer"
  by (simp add: write_decimal_def Let_def)

lemma length_and_write:
  assumes "length (fst (snd r)) = n" and "\<And>b off. length b = n \<Longrightarrow> length (fst (snd (f b off))) = n"
  shows "length (fst (snd (and_write r f))) = n"
  using assms by (cases r) (simp add: and_write_def)

lemma length_write_entry: "length (fst (snd (write_entry capacity e buffer offset))) = length buffer"
  by (auto simp: write_entry_def Let_def length_write_text length_write_decimal
      intro!: length_and_write)

lemma length_write_entries:
  "length (fst (snd (write_entries capacity es buffer offset))) = length buffer"
proof (induction es arbitrary: buffer offset)
  case (Cons e es)
  then show ?case
    by (auto simp: length_write_entry intro!: length_and_write)
qed simp

lemma take_Suc_update: "n < length xs \<Longrightarrow> take (Suc n) (xs[n := x]) = take n xs @ [x]"
  by (simp add: take_Suc_conv_app_nth)

lemma live_mem:
  "i < ar_entry_count s \<Longrightarrow> ar_entry_count s \<le> length (ar_entries s) \<Longrightarrow>
   ar_entries s ! i \<in> set (live s)"
  by (metis live_length live_nth nth_mem)

lemma table_view_frame_at:
  "(\<And>e. e \<in> set es \<Longrightarrow> ent_path e = q \<Longrightarrow> node_of im' e = node_of im e) \<Longrightarrow>
   table_view im' es q = table_view im es q"
  by (induction es) (auto simp: table_view_def)

section \<open>Sector counts of a request\<close>

lemma sectors_cover: "(len :: nat) \<le> (len + 511) div 512 * 512"
proof -
  have "(len + 511) div 512 * 512 + (len + 511) mod 512 = len + 511" and "(len + 511) mod 512 < 512"
    by simp_all
  then show ?thesis by linarith
qed

lemma sectors_for_length:
  assumes "len \<le> arfs_write_buffer_capacity"
  shows "unat (if len = 0 then 0 :: u64
           else (of_nat len + of_nat arfs_sector_size - 1) div of_nat arfs_sector_size) =
         (len + 511) div 512"
proof (cases "len = 0")
  case False
  have l: "unat (of_nat len :: u64) = len"
    using assms by (simp add: unat_of_nat)
  with False assms sectors_of_size [of "of_nat len"] show ?thesis by simp
qed simp

lemma small_sector_cast:
  assumes "len \<le> arfs_write_buffer_capacity" and "unat (n :: u64) = (len + 511) div 512"
  shows "unat (ucast n :: u32) = (len + 511) div 512"
proof -
  have "(len + 511) div 512 \<le> 16" using assms(1) by simp
  then show ?thesis
    unfolding unsigned_ucast_eq assms(2) by (simp add: take_bit_nat_eq_self)
qed

section \<open>The volume\<close>

locale arfs_volume = block_store rd wr ok image 512 sc
  for rd :: "'c \<Rightarrow> u64 \<Rightarrow> u32 \<Rightarrow> bytes \<Rightarrow> nat \<Rightarrow> bool \<times> bytes"
    and wr :: "'c \<Rightarrow> u64 \<Rightarrow> u32 \<Rightarrow> bytes \<Rightarrow> nat \<Rightarrow> bool \<times> 'c"
    and ok :: "'c \<Rightarrow> bool" and image :: "'c \<Rightarrow> nat \<Rightarrow> u8" and sc :: nat
begin

definition volume :: "'c arfs_context \<Rightarrow> bool" where
  "volume s \<longleftrightarrow> arfs_wf sc s \<and> (\<exists>d. ar_block_device s = Some d \<and> driven d)"

definition medium :: "'c arfs_context \<Rightarrow> nat \<Rightarrow> u8" where
  "medium s = image (bd_context (the (ar_block_device s)))"

lemma volumeE:
  assumes "volume s"
  obtains d where "ar_block_device s = Some d" and "driven d" and "arfs_wf sc s"
    and "length (ar_entries s) = 24" and "ar_entry_count s \<le> 24"
    and "table_ok (unat (ar_data_lba s)) sc (live s)" and "sc < 18446744073709551616"
    and "\<forall>e \<in> set (live s). entry_ok e" and "distinct (map ent_path (live s))"
proof -
  from assms obtain d where d: "ar_block_device s = Some d" "driven d" "arfs_wf sc s"
    by (auto simp: volume_def)
  then have "sc < 18446744073709551616"
    using unat_less_64 [of "bd_sector_count d"] by (simp add: driven_def)
  with d that show ?thesis by (auto simp: arfs_wf_def table_ok_def)
qed

text \<open>The manifest's sectors hold no file data.\<close>

definition in_manifest :: "'c arfs_context \<Rightarrow> nat \<Rightarrow> bool" where
  "in_manifest s a \<longleftrightarrow> a div 512 \<in>
     {unat (ar_manifest_lba s) ..< unat (ar_manifest_lba s) + unat (ar_manifest_sectors s)}"

lemma extent_not_manifest:
  assumes "volume s" and "e \<in> set (live s)" and "a div 512 \<in> extent e"
  shows "\<not> in_manifest s a"
proof -
  from assms have "extent e \<subseteq> {unat (ar_data_lba s) ..< sc}"
    by (auto simp: volume_def arfs_wf_def table_ok_def entry_fits_def)
  with assms(3) have "unat (ar_data_lba s) \<le> a div 512" by auto
  with assms(1) show ?thesis
    by (auto simp: in_manifest_def volume_def arfs_wf_def)
qed

lemma manifest_sectors_cast:
  assumes "volume s"
  shows "unat (ucast (ar_manifest_sectors s) :: u32) = unat (ar_manifest_sectors s)"
proof -
  have "unat (ar_manifest_sectors s) \<le> 2"
    using assms by (simp add: volume_def arfs_wf_def)
  then show ?thesis
    by (simp add: unsigned_ucast_eq take_bit_nat_eq_self)
qed

lemma persist_manifest_result:
  assumes "volume s" and "persist_manifest s = (r, s')"
  obtains d' m where "s' = s\<lparr>ar_manifest := m, ar_block_device := Some d'\<rparr>" and "driven d'"
    and "length m = 1024" and "\<And>a. \<not> in_manifest s a \<Longrightarrow> image (bd_context d') a = medium s a"
    and "r \<Longrightarrow> length (manifest_text (live s)) < 1024"
    and "r \<Longrightarrow> m = manifest_text (live s) @ replicate (1024 - length (manifest_text (live s))) 0"
    and "r \<Longrightarrow> sectors (image (bd_context d')) 512 (ar_manifest_lba s) (ucast (ar_manifest_sectors s)) =
      take (unat (ar_manifest_sectors s) * 512) m"
    and "d' = (the (ar_block_device s))\<lparr>bd_context := bd_context d'\<rparr>"
proof -
  from assms(1) obtain d where d: "ar_block_device s = Some d" "driven d" "arfs_wf sc s"
    by (rule volumeE)
  have lm: "length (ar_manifest s) = 1024" using d(3) by (simp add: arfs_wf_def)
  obtain w m off where w: "write_entries 1024 (live s) (replicate 1024 0) 0 = (w, m, off)"
    by (metis prod_cases3)
  have m: "length m = 1024"
    using length_write_entries [of 1024 "live s" "replicate 1024 0" 0] w by simp
  show ?thesis
  proof (cases w)
    case False
    with assms(2) w lm have "s' = s\<lparr>ar_manifest := m\<rparr>" and "\<not> r"
      by (simp_all add: persist_manifest_def live_def)
    moreover have "s\<lparr>ar_manifest := m\<rparr> = s\<lparr>ar_manifest := m, ar_block_device := Some d\<rparr>"
      using d(1) by (intro arfs_context.equality) simp_all
    ultimately show ?thesis
      using d m by (intro that [of d m]) (simp_all add: medium_def)
  next
    case True
    let ?n = "ucast (ar_manifest_sectors s) :: u32"
    have n: "unat ?n = unat (ar_manifest_sectors s)"
      using assms(1) by (rule manifest_sectors_cast)
    obtain dev' where bw: "arwill_block_write (Some d) (ar_manifest_lba s) ?n m 1024 = (r, dev')"
        and s': "s' = s\<lparr>ar_manifest := m, ar_block_device := dev'\<rparr>"
      using assms(2) w lm True d(1)
      by (auto simp: persist_manifest_def live_def split: prod.splits)
    obtain d' where d': "dev' = Some d'" "driven d'" "d' = d\<lparr>bd_context := bd_context d'\<rparr>"
        "\<And>a. a \<notin> addressed 512 (ar_manifest_lba s) ?n \<Longrightarrow>
          image (bd_context d') a = image (bd_context d) a"
      using front_write_frame [OF d(2) bw] m by auto
    have fits: "length (manifest_text (live s)) < 1024"
      using w True write_entries_result(1) [of "live s"] by simp
    have txt_m: "m = manifest_text (live s) @ replicate (1024 - length (manifest_text (live s))) 0"
      using w write_entries_result(2) [OF fits] by auto
    have stored: "sectors (image (bd_context d')) 512 (ar_manifest_lba s) ?n =
        take (unat (ar_manifest_sectors s) * 512) m" if r
    proof -
      from that bw have "arwill_block_write (Some d) (ar_manifest_lba s) ?n m 1024 = (True, dev')"
        by simp
      then have im: "image (bd_context d') = overwrite (image (bd_context d)) 512 (ar_manifest_lba s) ?n m"
        and sz: "unat ?n * 512 \<le> 1024"
        using front_write [OF d(2), of _ ?n m 1024 dev'] m d'(1) by auto
      show ?thesis
        unfolding im
        by (rule nth_equalityI)
           (use m n sz in \<open>auto simp: sectors_def overwrite_def addressed_def add_mult_distrib\<close>)
    qed
    show ?thesis
      by (rule that [of d' m])
         (use s' d' m fits txt_m stored d(1) n in
           \<open>auto simp: medium_def in_manifest_def addressed_sector\<close>)
  qed
qed

lemma volume_persisted:
  assumes "volume s" and "driven d'" and "length m = 1024"
    and "\<And>a. \<not> in_manifest s a \<Longrightarrow> image (bd_context d') a = medium s a"
  shows "volume (s\<lparr>ar_manifest := m, ar_block_device := Some d'\<rparr>)"
    and "arfs_view image (s\<lparr>ar_manifest := m, ar_block_device := Some d'\<rparr>) = arfs_view image s"
proof -
  show "volume (s\<lparr>ar_manifest := m, ar_block_device := Some d'\<rparr>)"
    using assms(1-3) by (simp add: volume_def arfs_wf_def)
  have "table_view (image (bd_context d')) (live s) = table_view (medium s) (live s)"
    using assms(1,4) extent_not_manifest
    by (intro table_view_frame [of "unat (ar_data_lba s)" sc]) (auto simp: volume_def arfs_wf_def)
  then show "arfs_view image (s\<lparr>ar_manifest := m, ar_block_device := Some d'\<rparr>) = arfs_view image s"
    by (simp add: arfs_view_def medium_def)
qed

text \<open>
  Storing the contents: a set \<open>E\<close> of sectors in the data area, which no other
  entry owns, is all that changes.
\<close>

lemma allocate_sectors_result:
  assumes "volume s" and "allocate_sectors s n = Some lba"
  shows "{unat lba ..< unat lba + unat n} \<subseteq> {unat (ar_data_lba s) ..< sc}"
    and "e \<in> set (live s) \<Longrightarrow> extent e \<inter> {unat lba ..< unat lba + unat n} = {}"
    and "unat lba + unat n \<le> sc" and "sector_range_is_free s lba n"
    and "unat (ar_data_lba s) \<le> unat lba"
    and "\<And>c. ar_data_lba s \<le> c \<Longrightarrow> c < lba \<Longrightarrow> \<not> sector_range_is_free s c n"
proof -
  from assms(1) obtain d where d: "ar_block_device s = Some d" "driven d"
      "table_ok (unat (ar_data_lba s)) sc (live s)" "sc < 18446744073709551616"
    by (rule volumeE)
  let ?start = "unat (ar_data_lba s)" and ?stop = "unat (bd_sector_count d - n) + 1"
  have sc: "unat (bd_sector_count d) = sc" using d(2) by (simp add: driven_def)
  have guard: "n \<le> bd_sector_count d"
      and find: "find (\<lambda>c. sector_range_is_free s c n) (map of_nat [?start..<?stop]) = Some lba"
    using assms(2) d(1) by (auto simp: allocate_sectors_def split: if_splits)
  have stop: "?stop = sc - unat n + 1" and n: "unat n \<le> sc"
    using guard sc by (simp_all add: word_le_nat_alt unat_sub)
  from find obtain i where i: "?start \<le> i" "i < ?stop" and lba: "lba = of_nat i"
      and free: "sector_range_is_free s lba n"
      and before: "\<And>j. ?start \<le> j \<Longrightarrow> j < i \<Longrightarrow> \<not> sector_range_is_free s (of_nat j) n"
    by (rule find_upt_Some) blast
  have "0 < unat n"
    using assms(2) d(1) by (auto simp: allocate_sectors_def unat_gt_0 split: if_splits)
  then have ulba: "unat lba = i"
    unfolding lba using i stop n d(4) by (simp add: unat_of_nat)
  then show le: "unat lba + unat n \<le> sc" using i stop n by linarith
  show ge: "?start \<le> unat lba" using ulba i by simp
  show "{unat lba ..< unat lba + unat n} \<subseteq> {?start ..< sc}" using le ge by auto
  show "sector_range_is_free s lba n" by (fact free)
  show "e \<in> set (live s) \<Longrightarrow> extent e \<inter> {unat lba ..< unat lba + unat n} = {}"
    using free le d(3,4)
    by (intro sector_range_is_free_disjoint [of s lba n e sc ?start])
       (auto simp: table_ok_def entry_fits_def)
  show "\<not> sector_range_is_free s c n" if "ar_data_lba s \<le> c" "c < lba" for c
  proof -
    have "?start \<le> unat c" and "unat c < i"
      using that ulba by (simp_all add: word_le_nat_alt word_less_nat_alt)
    from before [OF this] show ?thesis by simp
  qed
qed

lemma store_contents_cases:
  assumes "store_contents s e is_new n c len = (r, s1)"
  obtains (empty) "s1 = s" and "r = None \<or> (r = Some 0 \<and> n = 0)"
    | (stored) lba w dev where "n \<noteq> 0"
        and "(if (if is_new then 0 else entry_sector_count e) \<ge> n then Some (ent_data_lba e)
              else allocate_sectors s n) = Some lba"
        and "arwill_block_write (ar_block_device s) lba (ucast n)
              (take len c @ replicate (8192 - len) 0) 8192 = (w, dev)"
        and "s1 = s\<lparr>ar_block_device := dev\<rparr>" and "r = (if w then Some lba else None)"
  using assms
  by (cases "n = 0")
     (auto simp: store_contents_def Let_def split: option.splits prod.splits if_splits)

lemma chosen_sectors:
  assumes vol: "volume s"
    and ch: "(if (if is_new then 0 else entry_sector_count e) \<ge> n then Some (ent_data_lba e)
              else allocate_sectors s n) = Some lba" and n0: "n \<noteq> 0"
    and old: "\<not> is_new \<Longrightarrow> i < ar_entry_count s \<and> e = ar_entries s ! i"
  shows "{unat lba ..< unat lba + unat n} \<subseteq> {unat (ar_data_lba s) ..< sc}"
    and "unat lba + unat n \<le> sc"
    and "j < ar_entry_count s \<Longrightarrow> is_new \<or> j \<noteq> i \<Longrightarrow>
      extent (live s ! j) \<inter> {unat lba ..< unat lba + unat n} = {}"
proof -
  from vol obtain d where d: "length (ar_entries s) = 24" "ar_entry_count s \<le> 24"
      "table_ok (unat (ar_data_lba s)) sc (live s)"
    by (rule volumeE)
  have pos: "0 < unat n" using n0 by (simp add: unat_gt_0)
  have "{unat lba ..< unat lba + unat n} \<subseteq> {unat (ar_data_lba s) ..< sc} \<and> unat lba + unat n \<le> sc \<and>
      (j < ar_entry_count s \<longrightarrow> is_new \<or> j \<noteq> i \<longrightarrow>
        extent (live s ! j) \<inter> {unat lba ..< unat lba + unat n} = {})" for j
  proof (cases "(if is_new then 0 else entry_sector_count e) \<ge> n")
    case True
    then have notnew: "\<not> is_new" using n0 by auto
    with old have i: "i < ar_entry_count s" "e = live s ! i"
      using d by auto
    have lba: "lba = ent_data_lba e" using ch True by simp
    have le: "unat n \<le> unat (entry_sector_count e)"
      using True notnew by (simp add: word_le_nat_alt)
    then have sub: "{unat lba ..< unat lba + unat n} \<subseteq> extent e" by (auto simp: extent_def lba)
    have "e \<in> set (live s)" using i d live_mem [of i s] by simp
    then have fit: "extent e \<subseteq> {unat (ar_data_lba s) ..< sc}"
      using d(3) by (auto simp: table_ok_def entry_fits_def)
    have "unat lba + unat n \<le> sc"
      using extent_end [OF fit] pos le lba by simp
    moreover have "extent (live s ! j) \<inter> extent e = {}" if "j < ar_entry_count s" "j \<noteq> i" for j
      using that i d by (simp add: table_ok_def extents_disjoint_def)
    ultimately show ?thesis using sub fit notnew by blast
  next
    case False
    then have al: "allocate_sectors s n = Some lba" using ch by simp
    note a = allocate_sectors_result [OF vol al]
    have "live s ! j \<in> set (live s)" if "j < ar_entry_count s" for j
      using that d live_mem [of j s] by simp
    with a(1-3) show ?thesis by blast
  qed
  then show "{unat lba ..< unat lba + unat n} \<subseteq> {unat (ar_data_lba s) ..< sc}"
    and "unat lba + unat n \<le> sc"
    and "j < ar_entry_count s \<Longrightarrow> is_new \<or> j \<noteq> i \<Longrightarrow>
      extent (live s ! j) \<inter> {unat lba ..< unat lba + unat n} = {}"
    by blast+
qed

lemma store_contents_result:
  assumes vol: "volume s"
    and st: "store_contents s e is_new n c len = (r, s1)"
    and n: "unat n = (len + 511) div 512"
    and len: "len \<le> arfs_write_buffer_capacity" "len \<le> length c"
    and old: "\<not> is_new \<Longrightarrow> i < ar_entry_count s \<and> e = ar_entries s ! i"
  obtains E d1 where "s1 = s\<lparr>ar_block_device := Some d1\<rparr>" and "driven d1"
    and "E \<subseteq> {unat (ar_data_lba s) ..< sc}"
    and "\<And>j. j < ar_entry_count s \<Longrightarrow> is_new \<or> j \<noteq> i \<Longrightarrow> extent (live s ! j) \<inter> E = {}"
    and "\<And>a. a div 512 \<notin> E \<Longrightarrow> image (bd_context d1) a = medium s a"
    and "\<And>lba. r = Some lba \<Longrightarrow> E = {unat lba ..< unat lba + unat n}"
    and "\<And>lba k. r = Some lba \<Longrightarrow> k < len \<Longrightarrow> image (bd_context d1) (unat lba * 512 + k) = c ! k"
    and "d1 = (the (ar_block_device s))\<lparr>bd_context := bd_context d1\<rparr>"
proof -
  from vol obtain d where d: "ar_block_device s = Some d" "driven d"
    by (rule volumeE)
  have n0: "n = 0 \<longleftrightarrow> len = 0"
    using n by (auto simp: unat_eq_0 [symmetric] div_eq_0_iff)
  from st show ?thesis
  proof (cases rule: store_contents_cases)
    case empty
    have "s = s\<lparr>ar_block_device := Some d\<rparr>"
      using d(1) by (intro arfs_context.equality) simp_all
    with empty d n0 show ?thesis by (intro that [of d "{}"]) (auto simp: medium_def)
  next
    case (stored lba w dev)
    let ?buf = "take len c @ replicate (8192 - len) 0"
    have un: "unat (ucast n :: u32) = unat n"
      using small_sector_cast [OF len(1) n] n by simp
    note ch = chosen_sectors [OF vol stored(2,1) old]
    from stored(3) d(1) have bw: "arwill_block_write (Some d) lba (ucast n) ?buf 8192 = (w, dev)"
      by simp
    have bl: "8192 \<le> length ?buf" using len by simp
    obtain d1 where d1: "dev = Some d1" "driven d1" "d1 = d\<lparr>bd_context := bd_context d1\<rparr>"
        "\<And>a. a \<notin> addressed 512 lba (ucast n) \<Longrightarrow> image (bd_context d1) a = image (bd_context d) a"
      using front_write_frame [OF d(2) bw bl] by auto
    have data: "image (bd_context d1) (unat lba * 512 + k) = c ! k" if "w" "k < len" for k
    proof -
      from that bw have "arwill_block_write (Some d) lba (ucast n) ?buf 8192 = (True, dev)" by simp
      then have im: "image (bd_context d1) = overwrite (image (bd_context d)) 512 lba (ucast n) ?buf"
        using front_write [OF d(2) _ bl] d1(1) by (metis option.inject)
      have "k < unat n * 512" unfolding n using that(2) sectors_cover [of len] by linarith
      then show ?thesis
        using that(2) len by (simp add: im overwrite_def addressed_def un add_mult_distrib nth_append)
    qed
    show ?thesis
    proof (rule that [of d1 "{unat lba ..< unat lba + unat n}"])
      show "s1 = s\<lparr>ar_block_device := Some d1\<rparr>" using stored(4) d1(1) by simp
      show "{unat lba ..< unat lba + unat n} \<subseteq> {unat (ar_data_lba s) ..< sc}" using ch(1) by blast
      show "extent (live s ! j) \<inter> {unat lba ..< unat lba + unat n} = {}"
        if "j < ar_entry_count s" "is_new \<or> j \<noteq> i" for j
        using ch(3) that by blast
      show "image (bd_context d1) a = medium s a" if "a div 512 \<notin> {unat lba ..< unat lba + unat n}" for a
        using d1(4) that d(1) by (simp add: medium_def addressed_sector un)
      show "d1 = (the (ar_block_device s))\<lparr>bd_context := bd_context d1\<rparr>" using d1(3) d(1) by simp
    qed (use d1 stored(5) data in \<open>auto split: if_splits\<close>)
  qed
qed

text \<open>
  What no operation changes: the geometry and everything below the manifest,
  the superblock included. And what a successful one leaves on the disk.
\<close>

definition same_volume :: "'c arfs_context \<Rightarrow> 'c arfs_context \<Rightarrow> bool" where
  "same_volume s s' \<longleftrightarrow> ar_manifest_lba s' = ar_manifest_lba s \<and>
     ar_manifest_sectors s' = ar_manifest_sectors s \<and> ar_data_lba s' = ar_data_lba s \<and>
     (\<forall>a. a div 512 < unat (ar_manifest_lba s) \<longrightarrow> medium s' a = medium s a)"

definition persisted :: "'c arfs_context \<Rightarrow> bool" where
  "persisted s \<longleftrightarrow> length (manifest_text (live s)) < 1024 \<and>
     sectors (medium s) 512 (ar_manifest_lba s) (ucast (ar_manifest_sectors s)) =
       take (unat (ar_manifest_sectors s) * 512)
         (manifest_text (live s) @ replicate (1024 - length (manifest_text (live s))) 0)"

lemma same_volume_refl [simp]: "same_volume s s"
  by (simp add: same_volume_def)

lemma same_volume_trans: "same_volume s s' \<Longrightarrow> same_volume s' s'' \<Longrightarrow> same_volume s s''"
  by (simp add: same_volume_def)

lemma volume_table:
  assumes "volume s" and "ar_entry_count s' \<le> 24" and "length (ar_entries s') = 24"
    and "table_ok (unat (ar_data_lba s)) sc (live s')"
    and "s' = s\<lparr>ar_entries := ar_entries s', ar_entry_count := ar_entry_count s',
      ar_block_device := Some d\<rparr>" and "driven d"
  shows "volume s'"
proof -
  have "ar_manifest s' = ar_manifest s" "ar_file_buffer s' = ar_file_buffer s"
      "ar_manifest_lba s' = ar_manifest_lba s" "ar_manifest_sectors s' = ar_manifest_sectors s"
      "ar_data_lba s' = ar_data_lba s" "ar_block_device s' = Some d"
    by (subst assms(5), simp)+
  with assms(1-4,6) show ?thesis by (simp add: volume_def arfs_wf_def)
qed

text \<open>Persisting a changed table, with the old one restored on failure.\<close>

lemma persist_or_undo:
  assumes vol: "volume s"
    and s2: "s2 = s\<lparr>ar_entries := es, ar_entry_count := n\<rparr>" and len: "length es = 24" "n \<le> 24"
    and t2: "table_ok (unat (ar_data_lba s)) sc (live s2)"
    and pm: "persist_manifest s2 = (r, s3)"
    and ok: "r \<Longrightarrow> s' = s3"
    and undo: "\<not> r \<Longrightarrow> s' = s3\<lparr>ar_entries := es', ar_entry_count := ar_entry_count s\<rparr>"
      "length es' = 24" "take (ar_entry_count s) es' = live s"
  shows "volume s'" and "r \<Longrightarrow> arfs_view image s' = table_view (medium s) (live s2)"
    and "\<not> r \<Longrightarrow> live s' = live s \<and> arfs_view image s' = arfs_view image s"
    and "same_volume s s'" and "r \<Longrightarrow> persisted s' \<and> live s' = live s2"
proof -
  from vol obtain d where d: "ar_block_device s = Some d" "driven d"
      "length (ar_entries s) = 24" "ar_entry_count s \<le> 24"
      "table_ok (unat (ar_data_lba s)) sc (live s)"
    by (rule volumeE)
  have v2: "volume s2"
    by (rule volume_table [OF vol _ _ t2])
       (use d len in \<open>auto simp: s2 intro!: arfs_context.equality\<close>)
  obtain d3 m where p3: "s3 = s2\<lparr>ar_manifest := m, ar_block_device := Some d3\<rparr>" "driven d3"
      "length m = 1024" "\<And>a. \<not> in_manifest s2 a \<Longrightarrow> image (bd_context d3) a = medium s2 a"
      "r \<Longrightarrow> persisted s3"
  proof (rule persist_manifest_result [OF v2 pm], goal_cases)
    case (1 d' m)
    then show ?case by (intro that [of d' m]) (auto simp: persisted_def medium_def)
  qed
  note v3 = volume_persisted [OF v2 p3(2-4)]
  have mem: "medium s2 = medium s" "in_manifest s2 = in_manifest s"
    by (auto simp: s2 medium_def in_manifest_def)
  have keep: "volume (s\<lparr>ar_manifest := m, ar_block_device := Some d3\<rparr>)"
      "arfs_view image (s\<lparr>ar_manifest := m, ar_block_device := Some d3\<rparr>) = arfs_view image s"
    using volume_persisted [OF vol p3(2,3)] p3(4) mem by auto
  have undone: "live s' = live s" "s' = s\<lparr>ar_entries := es', ar_manifest := m, ar_block_device := Some d3\<rparr>"
    if "\<not> r"
    using undo that by (auto simp: p3(1) s2 live_def)
  show "r \<Longrightarrow> arfs_view image s' = table_view (medium s) (live s2)"
    using ok v3(2) p3(1) mem by (simp add: arfs_view_def medium_def)
  show "\<not> r \<Longrightarrow> live s' = live s \<and> arfs_view image s' = arfs_view image s"
    using undone keep(2) by (simp add: arfs_view_def)
  show "r \<Longrightarrow> persisted s' \<and> live s' = live s2"
    using ok p3(1,5) by simp
  have low: "image (bd_context d3) a = medium s a" if "a div 512 < unat (ar_manifest_lba s)" for a
    using p3(4) mem that by (simp add: in_manifest_def)
  show "same_volume s s'"
    using ok undone(2) low by (cases r) (auto simp: same_volume_def p3(1) s2 medium_def)
  show "volume s'"
  proof (cases r)
    case True
    with ok v3(1) p3(1) show ?thesis by simp
  next
    case False
    note u = undone [OF False]
    show ?thesis
      by (rule volume_table [OF keep(1), where d = d3])
         (use u undo(2) d p3(2) in \<open>auto intro!: arfs_context.equality\<close>)
  qed
qed

text \<open>Both ways to commit a file entry give a well-formed table.\<close>

definition file_entry :: "arfs_entry \<Rightarrow> bytes \<Rightarrow> arwill_fs_file_type \<Rightarrow> u64 \<Rightarrow> nat \<Rightarrow> arfs_entry" where
  "file_entry prev p t lba len = prev\<lparr>ent_kind := Arfs_file, ent_file_type := t, ent_data_lba := lba,
     ent_size_bytes := of_nat len, ent_path := p,
     ent_name := derive_name p (ent_name prev) arfs_max_name_length\<rparr>"

lemma file_entry_ok:
  assumes "path_is_valid p" and "0 \<notin> set p" and "len \<le> arfs_write_buffer_capacity"
    and "E = {unat lba ..< unat lba + (len + 511) div 512}" and "E \<subseteq> {ds ..< sc}"
  shows "entry_ok (file_entry prev p t lba len)" and "extent (file_entry prev p t lba len) = E"
    and "entry_fits ds sc (file_entry prev p t lba len)"
    and "ent_path (file_entry prev p t lba len) = p"
    and "ent_kind (file_entry prev p t lba len) = Arfs_file"
    and "unat (ent_size_bytes (file_entry prev p t lba len)) = len"
proof -
  let ?e = "file_entry prev p t lba len"
  show sz: "unat (ent_size_bytes ?e) = len"
    using assms(3) by (simp add: file_entry_def unat_of_nat)
  show k: "ent_kind ?e = Arfs_file" and "ent_path ?e = p" by (simp_all add: file_entry_def)
  show "entry_ok ?e"
    using assms(1,2) derive_name_stale [OF path_is_valid_shape(6) [OF assms(1,2)] assms(2)]
    by (simp add: entry_ok_def file_entry_def)
  show ext: "extent ?e = E"
    using entry_sector_count_eq [OF _ k] sz assms(3,4) by (simp add: extent_def file_entry_def)
  show "entry_fits ds sc ?e"
    using sz assms(3,5) ext by (simp add: entry_fits_def)
qed

lemma commit_file_steps:
  assumes "path_is_valid p" and "0 \<notin> set p"
    and "commit_file s idx is_new p t lba len = (r, s')"
    and "\<not> is_new \<Longrightarrow> ent_path (ar_entries s ! idx) = p"
  obtains s2 s3 where "s2 = s\<lparr>ar_entries := (ar_entries s)[idx := file_entry (ar_entries s ! idx) p t lba len],
      ar_entry_count := ar_entry_count s + (if is_new then 1 else 0)\<rparr>"
    and "persist_manifest s2 = (r, s3)" and "r \<Longrightarrow> s' = s3"
    and "\<not> r \<Longrightarrow> s' = (if is_new then s3\<lparr>ar_entry_count := ar_entry_count s3 - 1\<rparr>
           else s3\<lparr>ar_entries := (ar_entries s3)[idx := ar_entries s ! idx]\<rparr>)"
proof -
  have len: "arwill_text_length p = length p"
    by (simp add: arwill_text_length_eq c_string_id assms(2))
  have "copy_token x arfs_max_path_length p (length p) = (True, p)" for x
    using path_is_valid_shape(2) [OF assms(1,2)] by (intro copy_token_whole)
  moreover have upd: "ent_path x = p \<Longrightarrow> x\<lparr>ent_path := p\<rparr> = x" for x :: arfs_entry
    by (intro arfs_entry.equality) simp_all
  ultimately show ?thesis
    using assms(3,4)
    by (cases is_new)
       (auto simp: commit_file_def Let_def len file_entry_def split: prod.splits bool.splits
         intro: that)
qed

lemma commit_file_result:
  assumes vol: "volume s" and p: "path_is_valid p" "0 \<notin> set p"
    and cm: "commit_file s idx is_new p t lba len = (r, s')"
    and len: "len \<le> arfs_write_buffer_capacity"
    and E: "E = {unat lba ..< unat lba + (len + 511) div 512}" "E \<subseteq> {unat (ar_data_lba s) ..< sc}"
    and new: "is_new \<Longrightarrow> idx = ar_entry_count s \<and> ar_entry_count s < 24 \<and>
      p \<notin> ent_path ` set (live s) \<and> (parent_path p = bytes_of ''/'' \<or>
      (\<exists>d \<in> set (live s). ent_path d = parent_path p \<and> ent_kind d = Arfs_directory))"
    and old: "\<not> is_new \<Longrightarrow> idx < ar_entry_count s \<and> ent_path (ar_entries s ! idx) = p \<and>
      ent_kind (ar_entries s ! idx) = Arfs_file"
    and dis: "\<And>j. j < ar_entry_count s \<Longrightarrow> is_new \<or> j \<noteq> idx \<Longrightarrow> extent (live s ! j) \<inter> E = {}"
  shows "volume s'" and "r \<Longrightarrow> arfs_view image s' =
      (arfs_view image s)(p \<mapsto> File t (map (\<lambda>k. medium s (unat lba * 512 + k)) [0..<len]))"
    and "\<not> r \<Longrightarrow> live s' = live s \<and> arfs_view image s' = arfs_view image s"
    and "same_volume s s'" and "r \<Longrightarrow> persisted s'"
proof -
  from vol obtain d where d: "ar_block_device s = Some d" "driven d"
      "length (ar_entries s) = 24" "ar_entry_count s \<le> 24"
      "table_ok (unat (ar_data_lba s)) sc (live s)" "distinct (map ent_path (live s))"
    by (rule volumeE)
  let ?e = "file_entry (ar_entries s ! idx) p t lba len"
  obtain s2 s3 where s2: "s2 = s\<lparr>ar_entries := (ar_entries s)[idx := ?e],
      ar_entry_count := ar_entry_count s + (if is_new then 1 else 0)\<rparr>"
    and s3: "persist_manifest s2 = (r, s3)" and ok: "r \<Longrightarrow> s' = s3"
    and undo: "\<not> r \<Longrightarrow> s' = (if is_new then s3\<lparr>ar_entry_count := ar_entry_count s3 - 1\<rparr>
           else s3\<lparr>ar_entries := (ar_entries s3)[idx := ar_entries s ! idx]\<rparr>)"
    using commit_file_steps [OF p cm] old by metis
  note e = file_entry_ok [OF p len E, of "ar_entries s ! idx" t]
  have live2: "live s2 = (if is_new then live s @ [?e] else (live s)[idx := ?e])"
    using new d(3)
    by (cases is_new) (auto simp: s2 live_def take_Suc_update, simp add: take_update_swap)
  have t2: "table_ok (unat (ar_data_lba s)) sc (live s2)"
  proof (cases is_new)
    case True
    have "extent x \<inter> extent ?e = {}" if "x \<in> set (live s)" for x
    proof -
      from that obtain j where "j < ar_entry_count s" and "x = live s ! j"
        using d(3,4) by (auto simp: in_set_conv_nth)
      with dis True e(2) show ?thesis by simp
    qed
    with True new e d(5) show ?thesis by (simp add: live2 table_ok_append)
  next
    case False
    with old e d(3-5) dis have "table_ok (unat (ar_data_lba s)) sc ((live s)[idx := ?e])"
      by (intro table_ok_update) simp_all
    with False show ?thesis by (simp add: live2)
  qed
  have "node_of (medium s) ?e = File t (map (\<lambda>k. medium s (unat lba * 512 + k)) [0..<len])"
    using e(5,6) by (simp add: node_of_def file_bytes_def) (simp add: file_entry_def)
  moreover have "table_view (medium s) (live s2) = (table_view (medium s) (live s))(p \<mapsto> node_of (medium s) ?e)"
    using new old e(4) d(3,4,6) t2
    by (cases is_new) (auto simp: live2 table_ok_def table_view_append table_view_update)
  ultimately have view2: "table_view (medium s) (live s2) =
      (arfs_view image s)(p \<mapsto> File t (map (\<lambda>k. medium s (unat lba * 512 + k)) [0..<len]))"
    by (simp add: arfs_view_def medium_def)
  let ?es = "if is_new then ar_entries s3 else (ar_entries s3)[idx := ar_entries s ! idx]"
  have s3_fields: "ar_entries s3 = (ar_entries s)[idx := ?e]"
      "ar_entry_count s3 = ar_entry_count s + (if is_new then 1 else 0)"
    using s3 by (auto simp: persist_manifest_def s2 split: prod.splits bool.splits)
  have undone: "s' = s3\<lparr>ar_entries := ?es, ar_entry_count := ar_entry_count s\<rparr>" if "\<not> r"
    using undo [OF that] s3_fields by auto
  have restored: "length ?es = 24" "take (ar_entry_count s) ?es = live s"
    using new d(3) by (auto simp: s3_fields live_def)
  have room: "length ((ar_entries s)[idx := ?e]) = 24"
      "ar_entry_count s + (if is_new then 1 else 0) \<le> 24"
    using new d(3,4) by auto
  note pu = persist_or_undo [OF vol s2 room t2 s3 ok undone restored]
  show "volume s'" and "r \<Longrightarrow> arfs_view image s' =
      (arfs_view image s)(p \<mapsto> File t (map (\<lambda>k. medium s (unat lba * 512 + k)) [0..<len]))"
    and "\<not> r \<Longrightarrow> live s' = live s \<and> arfs_view image s' = arfs_view image s"
    and "same_volume s s'" and "r \<Longrightarrow> persisted s'"
    using pu view2 by simp_all
qed

lemma write_bytes_steps:
  assumes "arfs_write_bytes s p t c len = (r, s')"
  obtains (refused) "\<not> r" and "s' = s"
    | (stored) idx is_new n res s1 where "path_is_valid p" and "parent_directory_exists s p"
        and "len \<le> arfs_write_buffer_capacity" and "c = None \<Longrightarrow> len = 0"
        and "is_new \<longleftrightarrow> find_entry s p = None"
        and "is_new \<Longrightarrow> idx = ar_entry_count s \<and> ar_entry_count s < 24"
        and "\<not> is_new \<Longrightarrow> find_entry s p = Some idx \<and> ent_kind (ar_entries s ! idx) = Arfs_file"
        and "unat (n :: u64) = (len + 511) div 512"
        and "store_contents s (ar_entries s ! idx) is_new n (case c of None \<Rightarrow> [] | Some c \<Rightarrow> c) len = (res, s1)"
        and "res = None \<Longrightarrow> \<not> r \<and> s' = s1"
        and "\<And>lba. res = Some lba \<Longrightarrow> commit_file s1 idx is_new p t lba len = (r, s')"
proof -
  define n :: u64 where "n = (if len = 0 then 0
    else (of_nat len + of_nat arfs_sector_size - 1) div of_nat arfs_sector_size)"
  define idx where "idx = (case find_entry s p of None \<Rightarrow> ar_entry_count s | Some i \<Rightarrow> i)"
  define is_new where "is_new = (find_entry s p = None)"
  obtain res s1 where st: "store_contents s (ar_entries s ! idx) is_new n
      (case c of None \<Rightarrow> [] | Some c \<Rightarrow> c) len = (res, s1)"
    by (cases "store_contents s (ar_entries s ! idx) is_new n (case c of None \<Rightarrow> [] | Some c \<Rightarrow> c) len")
  let ?guard = "\<not> path_is_valid p \<or> \<not> parent_directory_exists s p \<or>
         len \<ge> arfs_file_buffer_capacity \<or> len > arfs_write_buffer_capacity \<or>
         (c = None \<and> len \<noteq> 0) \<or> (\<not> is_new \<and> ent_kind (ar_entries s ! idx) \<noteq> Arfs_file) \<or>
         (is_new \<and> ar_entry_count s \<ge> arfs_max_entries)"
  have eq: "arfs_write_bytes s p t c len = (if ?guard then (False, s) else
      case res of None \<Rightarrow> (False, s1) | Some lba \<Rightarrow> commit_file s1 idx is_new p t lba len)"
    unfolding arfs_write_bytes_def Let_def n_def [symmetric] is_new_def [symmetric] idx_def [symmetric]
    using st by (auto simp: idx_def is_new_def split: option.splits)
  show ?thesis
  proof (cases ?guard)
    case True
    with eq assms refused show ?thesis by simp
  next
    case False
    show ?thesis
    proof (rule stored [of is_new idx n res s1])
      show "unat n = (len + 511) div 512"
        unfolding n_def using False by (intro sectors_for_length) simp
    qed (use False eq assms st in \<open>auto simp: is_new_def idx_def split: option.splits\<close>)
  qed
qed

lemma write_bytes_result:
  assumes vol: "volume s" and nul: "0 \<notin> set p"
    and wb: "arfs_write_bytes s p t c len = (r, s')"
    and len: "\<And>x. c = Some x \<Longrightarrow> len \<le> length x"
  shows "volume s'"
    and "r \<Longrightarrow> arfs_view image s' =
      (arfs_view image s)(p \<mapsto> File t (case c of None \<Rightarrow> [] | Some c \<Rightarrow> take len c))"
    and "\<not> r \<Longrightarrow> live s' = live s" and "\<not> r \<Longrightarrow> q \<noteq> p \<Longrightarrow> arfs_view image s' q = arfs_view image s q"
    and "same_volume s s'" and "r \<Longrightarrow> persisted s'"
proof -
  from vol obtain d where d: "ar_block_device s = Some d" "driven d"
      "length (ar_entries s) = 24" "ar_entry_count s \<le> 24"
      "table_ok (unat (ar_data_lba s)) sc (live s)" "\<forall>e \<in> set (live s). entry_ok e"
      "distinct (map ent_path (live s))"
    by (rule volumeE)
  have cnt: "ar_entry_count s \<le> length (ar_entries s)" using d by simp
  have "volume s' \<and> (r \<longrightarrow> arfs_view image s' =
      (arfs_view image s)(p \<mapsto> File t (case c of None \<Rightarrow> [] | Some c \<Rightarrow> take len c))) \<and>
      (\<not> r \<longrightarrow> live s' = live s \<and> (\<forall>q. q \<noteq> p \<longrightarrow> arfs_view image s' q = arfs_view image s q)) \<and>
      same_volume s s' \<and> (r \<longrightarrow> persisted s')"
    using wb
  proof (cases rule: write_bytes_steps)
    case refused
    with vol show ?thesis by simp
  next
    case (stored idx is_new n res s1)
    let ?c = "case c of None \<Rightarrow> [] | Some c \<Rightarrow> c"
    have old: "idx < ar_entry_count s \<and> ent_path (ar_entries s ! idx) = p \<and>
        ent_kind (ar_entries s ! idx) = Arfs_file" if "\<not> is_new"
      using stored(7) [OF that] find_entry_Some [OF _ cnt d(6) nul] by auto
    obtain E d1 where E: "s1 = s\<lparr>ar_block_device := Some d1\<rparr>" "driven d1"
        "E \<subseteq> {unat (ar_data_lba s) ..< sc}"
        "\<And>j. j < ar_entry_count s \<Longrightarrow> is_new \<or> j \<noteq> idx \<Longrightarrow> extent (live s ! j) \<inter> E = {}"
        "\<And>a. a div 512 \<notin> E \<Longrightarrow> image (bd_context d1) a = medium s a"
        "\<And>lba. res = Some lba \<Longrightarrow> E = {unat lba ..< unat lba + unat n}"
        "\<And>lba k. res = Some lba \<Longrightarrow> k < len \<Longrightarrow> image (bd_context d1) (unat lba * 512 + k) = ?c ! k"
      by (rule store_contents_result [OF vol stored(9) stored(8) stored(3), of idx])
         (use len stored(4) old in \<open>auto split: option.splits\<close>)
    have v1: "volume s1"
      by (rule volume_table [OF vol, where d = d1])
         (use E(1,2) d in \<open>auto simp: live_def intro!: arfs_context.equality\<close>)
    have med: "medium s1 = image (bd_context d1)" by (simp add: medium_def E(1))
    have l1: "live s1 = live s" by (simp add: E(1))
    have "table_view (medium s1) (live s) q = table_view (medium s) (live s) q" if "q \<noteq> p" for q
    proof (rule table_view_frame_at)
      fix e assume "e \<in> set (live s)" and "ent_path e = q"
      then obtain j where j: "j < ar_entry_count s" "e = live s ! j"
        using cnt by (auto simp: in_set_conv_nth)
      with \<open>ent_path e = q\<close> that old cnt have "is_new \<or> j \<noteq> idx" by auto
      with E(4) j have "extent e \<inter> E = {}" by simp
      with E(5) med have "\<And>a. a div 512 \<in> extent e \<Longrightarrow> medium s1 a = medium s a" by auto
      moreover have "unat (ent_size_bytes e) < arfs_file_buffer_capacity"
        using \<open>e \<in> set (live s)\<close> d(5) by (auto simp: table_ok_def entry_fits_def)
      ultimately show "node_of (medium s1) e = node_of (medium s) e" by (intro node_of_frame)
    qed
    then have other: "arfs_view image s1 q = arfs_view image s q" if "q \<noteq> p" for q
      using that l1 by (simp add: arfs_view_def medium_def)
    have "unat (ar_manifest_lba s) \<le> unat (ar_data_lba s)"
      using vol by (simp add: volume_def arfs_wf_def)
    then have sv: "same_volume s s1"
      using E(3,5) med by (fastforce simp: same_volume_def E(1))
    show ?thesis
    proof (cases res)
      case None
      with stored(10) v1 l1 other sv show ?thesis by auto
    next
      case (Some lba)
      have new: "p \<notin> ent_path ` set (live s) \<and> (parent_path p = bytes_of ''/'' \<or>
          (\<exists>d \<in> set (live s). ent_path d = parent_path p \<and> ent_kind d = Arfs_directory))" if is_new
        using that stored(2,5) find_entry_None [OF _ cnt] path_is_valid_shape(2) [OF stored(1) nul]
          parent_directory_exists_eq [OF cnt d(6) nul _ d(7)] by auto
      note cm = commit_file_result [OF v1 stored(1) nul stored(11) [OF Some] stored(3), of E]
      have "volume s' \<and> (r \<longrightarrow> arfs_view image s' =
          (arfs_view image s1)(p \<mapsto> File t (map (\<lambda>k. medium s1 (unat lba * 512 + k)) [0..<len]))) \<and>
          (\<not> r \<longrightarrow> live s' = live s1 \<and> arfs_view image s' = arfs_view image s1) \<and>
          same_volume s1 s' \<and> (r \<longrightarrow> persisted s')"
        using cm E Some stored(6,8) new old l1 by auto
      moreover have "map (\<lambda>k. medium s1 (unat lba * 512 + k)) [0..<len] =
          (case c of None \<Rightarrow> [] | Some c \<Rightarrow> take len c)"
        using E(7) [OF Some] med len stored(4)
        by (intro nth_equalityI) (auto split: option.splits)
      moreover have "(arfs_view image s1)(p \<mapsto> x) = (arfs_view image s)(p \<mapsto> x)" for x
        using other by (auto simp: fun_eq_iff)
      ultimately show ?thesis
        using other l1 same_volume_trans [OF sv] by (cases r) simp_all
    qed
  qed
  then show "volume s'"
    and "r \<Longrightarrow> arfs_view image s' =
      (arfs_view image s)(p \<mapsto> File t (case c of None \<Rightarrow> [] | Some c \<Rightarrow> take len c))"
    and "\<not> r \<Longrightarrow> live s' = live s" and "\<not> r \<Longrightarrow> q \<noteq> p \<Longrightarrow> arfs_view image s' q = arfs_view image s q"
    and "same_volume s s'" and "r \<Longrightarrow> persisted s'"
    by auto
qed

lemma create_directory_result:
  assumes vol: "volume s" and nul: "0 \<notin> set p"
    and mk: "arfs_create_directory s p = (r, s')"
  shows "volume s'" and "r \<Longrightarrow> arfs_view image s' = (arfs_view image s)(p \<mapsto> Dir)"
    and "r \<Longrightarrow> arfs_view image s p = None"
    and "\<not> r \<Longrightarrow> live s' = live s \<and> arfs_view image s' = arfs_view image s"
    and "same_volume s s'" and "r \<Longrightarrow> persisted s'"
proof -
  from vol obtain d where d: "ar_block_device s = Some d" "driven d"
      "length (ar_entries s) = 24" "ar_entry_count s \<le> 24"
      "table_ok (unat (ar_data_lba s)) sc (live s)" "\<forall>e \<in> set (live s). entry_ok e"
      "distinct (map ent_path (live s))"
    by (rule volumeE)
  have cnt: "ar_entry_count s \<le> length (ar_entries s)" using d by simp
  let ?n = "ar_entry_count s"
  have "volume s' \<and> (r \<longrightarrow> arfs_view image s' = (arfs_view image s)(p \<mapsto> Dir) \<and>
      arfs_view image s p = None) \<and>
      (\<not> r \<longrightarrow> live s' = live s \<and> arfs_view image s' = arfs_view image s) \<and>
      same_volume s s' \<and> (r \<longrightarrow> persisted s')"
  proof (cases "path_is_valid p \<and> find_entry s p = None \<and> parent_directory_exists s p \<and> ?n < 24")
    case False
    then have "\<not> r \<and> s' = s"
      using mk
      by (auto simp: arfs_create_directory_def add_directory_entry_def not_less split: if_splits)
    with vol show ?thesis by simp
  next
    case True
    note shape = path_is_valid_shape [OF conjunct1 [OF True] nul]
    let ?e = "(ar_entries s ! ?n)\<lparr>ent_kind := Arfs_directory, ent_file_type := File_binary,
      ent_data_lba := 0, ent_size_bytes := 0, ent_path := p,
      ent_name := derive_name p (ent_name (ar_entries s ! ?n)) arfs_max_name_length\<rparr>"
    define s2 where "s2 = s\<lparr>ar_entries := (ar_entries s)[?n := ?e], ar_entry_count := ?n + 1\<rparr>"
    obtain s3 where s3: "persist_manifest s2 = (r, s3)" and ok: "r \<Longrightarrow> s' = s3"
        and undo: "\<not> r \<Longrightarrow> s' = s3\<lparr>ar_entry_count := ar_entry_count s3 - 1\<rparr>"
      using mk True shape(2)
      by (auto simp: arfs_create_directory_def add_directory_entry_def Let_def copy_token_whole s2_def
          arwill_text_length_eq c_string_id [OF nul] split: prod.splits bool.splits)
    have fresh: "p \<notin> ent_path ` set (live s)" using True find_entry_None [OF _ cnt] by simp
    have par: "parent_path p = bytes_of ''/'' \<or>
        (\<exists>d \<in> set (live s). ent_path d = parent_path p \<and> ent_kind d = Arfs_directory)"
      using True parent_directory_exists_eq [OF cnt d(6) nul shape(2) d(7)] by auto
    have live2: "live s2 = live s @ [?e]"
      using True d(3) by (simp add: s2_def live_def take_Suc_update)
    have eok: "entry_ok ?e"
      using True nul derive_name_stale [OF shape(6) nul] by (simp add: entry_ok_def)
    have t2: "table_ok (unat (ar_data_lba s)) sc (live s2)"
      unfolding live2 using eok fresh par
      by (intro table_ok_append d(5)) (simp_all add: entry_fits_def)
    have restored: "s3\<lparr>ar_entry_count := ar_entry_count s3 - 1\<rparr> =
        s3\<lparr>ar_entries := ar_entries s3, ar_entry_count := ?n\<rparr>"
        "length (ar_entries s3) = 24" "take ?n (ar_entries s3) = live s"
      using s3 d(3)
      by (auto simp: persist_manifest_def s2_def live_def split: prod.splits bool.splits)
    note pu = persist_or_undo [OF vol s2_def _ _ t2 s3 ok, of "ar_entries s3"]
    have "volume s' \<and> (r \<longrightarrow> arfs_view image s' = table_view (medium s) (live s2)) \<and>
        (\<not> r \<longrightarrow> live s' = live s \<and> arfs_view image s' = arfs_view image s) \<and>
        same_volume s s' \<and> (r \<longrightarrow> persisted s')"
      using pu undo restored d(3) True by auto
    moreover have "table_view (medium s) (live s2) = (arfs_view image s)(p \<mapsto> Dir)"
      using t2 table_view_append [of "live s" ?e "medium s"]
      by (simp add: live2 table_ok_def arfs_view_def medium_def node_of_def)
    ultimately show ?thesis
      using fresh by (auto simp: arfs_view_def table_view_None)
  qed
  then show "volume s'" and "r \<Longrightarrow> arfs_view image s' = (arfs_view image s)(p \<mapsto> Dir)"
    and "r \<Longrightarrow> arfs_view image s p = None"
    and "\<not> r \<Longrightarrow> live s' = live s \<and> arfs_view image s' = arfs_view image s"
    and "same_volume s s'" and "r \<Longrightarrow> persisted s'"
    by auto
qed

lemma remove_result:
  assumes vol: "volume s" and nul: "0 \<notin> set p"
    and rm: "arfs_remove s p = (r, s')"
  shows "volume s'" and "r \<Longrightarrow> arfs_view image s' = (arfs_view image s)(p := None)"
    and "r \<Longrightarrow> arfs_view image s p \<noteq> None"
    and "r \<Longrightarrow> arfs_view image s p = Some Dir \<Longrightarrow> arfs_view image s q \<noteq> None \<Longrightarrow> parent_path q \<noteq> p"
    and "\<not> r \<Longrightarrow> live s' = live s \<and> arfs_view image s' = arfs_view image s"
    and "same_volume s s'" and "r \<Longrightarrow> persisted s'"
proof -
  from vol obtain d where d: "ar_block_device s = Some d" "driven d"
      "length (ar_entries s) = 24" "ar_entry_count s \<le> 24"
      "table_ok (unat (ar_data_lba s)) sc (live s)" "\<forall>e \<in> set (live s). entry_ok e"
      "distinct (map ent_path (live s))"
    by (rule volumeE)
  have cnt: "ar_entry_count s \<le> length (ar_entries s)" using d by simp
  let ?n = "ar_entry_count s"
  let ?concl = "volume s' \<and> (r \<longrightarrow> arfs_view image s' = (arfs_view image s)(p := None) \<and>
      arfs_view image s p \<noteq> None \<and> (arfs_view image s p = Some Dir \<longrightarrow>
        (\<forall>q. arfs_view image s q \<noteq> None \<longrightarrow> parent_path q \<noteq> p))) \<and>
      (\<not> r \<longrightarrow> live s' = live s \<and> arfs_view image s' = arfs_view image s) \<and>
      same_volume s s' \<and> (r \<longrightarrow> persisted s')"
  have ?concl
  proof (cases "find_entry s p = None \<or> (ent_kind (ar_entries s ! the (find_entry s p)) = Arfs_directory \<and>
      list_ex (\<lambda>e. entry_is_child_of e p) (live s))")
    case True
    then have "\<not> r \<and> s' = s"
      using rm by (auto simp: arfs_remove_def live_def split: option.splits)
    with vol show ?thesis by simp
  next
    case False
    then obtain i where fi: "find_entry s p = Some i" by auto
    note f = find_entry_Some [OF fi cnt d(6) nul]
    have li: "live s ! i = ar_entries s ! i" "i < length (live s)" using f(1) cnt by simp_all
    have pv: "path_is_valid p" using f(2,3) d(6) by (auto simp: entry_ok_def)
    have nochild: "parent_path (ent_path x) \<noteq> p"
      if "x \<in> set (live s)" "ent_kind (ar_entries s ! i) = Arfs_directory" for x
    proof -
      have "\<not> entry_is_child_of x p" using False fi that by (auto simp: list_ex_iff)
      moreover have "path_is_valid (ent_path x)" "0 \<notin> set (ent_path x)"
        using that(1) d(6) by (auto simp: entry_ok_def)
      ultimately show ?thesis using entry_is_child_of_parent [of x p] pv nul by auto
    qed
    define s2 where "s2 = s\<lparr>ar_entries := shift_down (ar_entries s) i ?n, ar_entry_count := ?n - 1\<rparr>"
    obtain s3 where s3: "persist_manifest s2 = (r, s3)" and ok: "r \<Longrightarrow> s' = s3"
        and undo: "\<not> r \<Longrightarrow> s' = s3\<lparr>ar_entries := (shift_up (ar_entries s3) i (ar_entry_count s3))
            [i := ar_entries s ! i], ar_entry_count := ar_entry_count s3 + 1\<rparr>"
      using rm False fi
      by (auto simp: arfs_remove_def Let_def s2_def live_def split: prod.splits bool.splits)
    have s3_fields: "ar_entries s3 = shift_down (ar_entries s) i ?n" "ar_entry_count s3 = ?n - 1"
      using s3 by (auto simp: persist_manifest_def s2_def split: prod.splits bool.splits)
    have live2: "live s2 = remove_at i (live s)"
      using shift_down_live [OF f(1) cnt] by (simp add: s2_def live_def remove_at_def min_def f(1) less_imp_le)
    have t2: "table_ok (unat (ar_data_lba s)) sc (live s2)"
      unfolding live2 using nochild f li by (intro table_ok_remove d(5)) auto
    have restored: "(shift_up (ar_entries s3) i (ar_entry_count s3))[i := ar_entries s ! i] = ar_entries s"
      using shift_up_restores [OF f(1) cnt] by (simp add: s3_fields)
    note pu = persist_or_undo [OF vol s2_def _ _ t2 s3 ok, of "ar_entries s"]
    have "volume s' \<and> (r \<longrightarrow> arfs_view image s' = table_view (medium s) (live s2)) \<and>
        (\<not> r \<longrightarrow> live s' = live s \<and> arfs_view image s' = arfs_view image s) \<and>
        same_volume s s' \<and> (r \<longrightarrow> persisted s')"
      using pu undo restored s3_fields d(3,4) f(1) shift_down_nth(1) [OF f(1) cnt]
      by (auto simp: live_def)
    moreover have "table_view (medium s) (live s2) = (arfs_view image s)(p := None)"
      using table_view_remove [OF d(7) li(2)] f(2) li(1)
      by (simp add: live2 arfs_view_def medium_def)
    moreover have "arfs_view image s p = Some (node_of (medium s) (ar_entries s ! i))"
      using f d(7) by (auto simp: arfs_view_def medium_def table_view_Some)
    moreover have "parent_path q \<noteq> p"
      if "arfs_view image s q \<noteq> None" "node_of (medium s) (ar_entries s ! i) = Dir" for q
    proof -
      have "ent_kind (ar_entries s ! i) = Arfs_directory"
        using that(2) by (auto simp: node_of_def split: if_splits)
      with nochild that(1) show ?thesis
        by (auto simp: arfs_view_def table_view_None)
    qed
    ultimately show ?thesis by auto
  qed
  then show "volume s'" and "r \<Longrightarrow> arfs_view image s' = (arfs_view image s)(p := None)"
    and "r \<Longrightarrow> arfs_view image s p \<noteq> None"
    and "r \<Longrightarrow> arfs_view image s p = Some Dir \<Longrightarrow> arfs_view image s q \<noteq> None \<Longrightarrow> parent_path q \<noteq> p"
    and "\<not> r \<Longrightarrow> live s' = live s \<and> arfs_view image s' = arfs_view image s"
    and "same_volume s s'" and "r \<Longrightarrow> persisted s'"
    by auto
qed

end

end
