(* ===== verification/Arfs_Remount.thy ===== *)
theory Arfs_Remount
  imports Arfs_Refinement
begin

text \<open>
  Reading, listing and remounting a volume.
\<close>

section \<open>Reading and listing\<close>

definition listing_entry :: "arfs_entry \<Rightarrow> arwill_fs_entry" where
  "listing_entry e = \<lparr>fse_name = ent_name e,
     fse_type = (if ent_kind e = Arfs_directory then Entry_directory else Entry_file),
     fse_size_bytes = ent_size_bytes e\<rparr>"

lemma list_children_eq:
  "length acc + length es \<le> arfs_max_listing_entries \<Longrightarrow>
   list_children es p acc = Some (acc @ map listing_entry (filter (\<lambda>e. entry_is_child_of e p) es))"
  by (induction es p acc rule: list_children.induct) (simp_all add: listing_entry_def)

section \<open>What parsing a manifest leaves alone\<close>

definition same_header :: "'c arfs_context \<Rightarrow> 'c arfs_context \<Rightarrow> bool" where
  "same_header s s' \<longleftrightarrow> ar_block_device s' = ar_block_device s \<and> ar_manifest s' = ar_manifest s \<and>
     ar_file_buffer s' = ar_file_buffer s \<and> ar_manifest_lba s' = ar_manifest_lba s \<and>
     ar_manifest_sectors s' = ar_manifest_sectors s \<and> ar_data_lba s' = ar_data_lba s"

lemma same_header_refl [simp]: "same_header s s"
  by (simp add: same_header_def)

lemma same_header_trans: "same_header s s' \<Longrightarrow> same_header s' s'' \<Longrightarrow> same_header s s''"
  by (simp add: same_header_def)

lemma parse_line_header:
  "same_header s (snd (parse_directory_line s line))" "same_header s (snd (parse_file_line s line))"
  by (auto simp: parse_directory_line_def parse_file_line_def add_directory_entry_def
      add_file_entry_def same_header_def Let_def split: prod.splits bool.splits option.splits)

lemma parse_lines_step:
  obtains (stop) "parse_lines s cur = (ar_entry_count s > 0, s)"
    | (bad) s1 where "parse_lines s cur = (False, s1)" and "same_header s s1"
    | (more) s1 rest where "parse_lines s cur = parse_lines s1 rest" and "same_header s s1"
        and "length rest < length cur"
proof (cases "cur = [] \<or> hd cur = 0 \<or> skip_breaks cur = [] \<or> hd (skip_breaks cur) = 0")
  case True
  then have "parse_lines s cur = (ar_entry_count s > 0, s)"
    by (subst parse_lines.simps) (auto simp: Let_def)
  then show ?thesis by (rule stop)
next
  case False
  let ?c = "skip_breaks cur" and ?l = "line_text (skip_breaks cur)"
  let ?rest = "drop (length ?l) ?c"
  have short: "length ?rest < length cur" using False line_shorter [of cur] by simp
  have eq: "parse_lines s cur =
     (if ?l ! 0 = 0x44 \<and> 1 < length ?l \<and> ?l ! 1 = space
      then case parse_directory_line s (drop 2 ?l) of
             (False, s) \<Rightarrow> (False, s) | (True, s) \<Rightarrow> parse_lines s ?rest
      else if ?l ! 0 = 0x46 \<and> 1 < length ?l \<and> ?l ! 1 = space
      then case parse_file_line s (drop 2 ?l) of
             (False, s) \<Rightarrow> (False, s) | (True, s) \<Rightarrow> parse_lines s ?rest
      else (False, s))"
    using False line_text_nonempty [of cur]
    by (subst parse_lines.simps) (simp only: Let_def if_False, simp)
  obtain b1 s1 where p1: "parse_directory_line s (drop 2 ?l) = (b1, s1)"
    by (cases "parse_directory_line s (drop 2 ?l)")
  obtain b2 s2 where p2: "parse_file_line s (drop 2 ?l) = (b2, s2)"
    by (cases "parse_file_line s (drop 2 ?l)")
  have h: "same_header s s1" "same_header s s2"
    using parse_line_header [of s "drop 2 ?l"] p1 p2 by simp_all
  show ?thesis
  proof (cases "?l ! 0 = 0x44 \<and> 1 < length ?l \<and> ?l ! 1 = space")
    case True
    then have "parse_lines s cur = (if b1 then parse_lines s1 ?rest else (False, s1))"
      unfolding eq p1 by simp
    with h short bad more show ?thesis by (cases b1) simp_all
  next
    case no_dir: False
    then have "parse_lines s cur = (if ?l ! 0 = 0x46 \<and> 1 < length ?l \<and> ?l ! 1 = space
        then if b2 then parse_lines s2 ?rest else (False, s2) else (False, s))"
      unfolding eq p2 by (simp only: if_False prod.case) (cases b2, simp_all)
    with h short bad more show ?thesis
      by (cases "?l ! 0 = 0x46 \<and> 1 < length ?l \<and> ?l ! 1 = space"; cases b2) auto
  qed
qed

lemma parse_lines_result:
  "same_header s (snd (parse_lines s cur)) \<and>
   (fst (parse_lines s cur) \<longrightarrow> 0 < ar_entry_count (snd (parse_lines s cur)))"
proof (induction cur arbitrary: s rule: length_induct)
  case (1 cur)
  show ?case
  proof (cases rule: parse_lines_step [of s cur])
    case (more s1 rest)
    with "1.IH" show ?thesis by (metis same_header_trans)
  qed simp_all
qed

lemma parse_manifest_header: "same_header s (snd (parse_manifest s n))"
  using parse_lines_result [of "s\<lparr>ar_entry_count := 0\<rparr>"]
  by (simp add: parse_manifest_def same_header_def)

section \<open>The volume, continued\<close>

context arfs_volume
begin

lemma find_view:
  assumes vol: "volume s" and nul: "0 \<notin> set p"
  shows "find_entry s p = None \<Longrightarrow> arfs_view image s p = None"
    and "find_entry s p = Some i \<Longrightarrow> arfs_view image s p = Some (node_of (medium s) (ar_entries s ! i))"
    and "find_entry s p = Some i \<Longrightarrow> ar_entries s ! i \<in> set (live s)"
    and "find_entry s p = Some i \<Longrightarrow> ent_path (ar_entries s ! i) = p"
proof -
  from vol obtain d where d: "length (ar_entries s) = 24" "ar_entry_count s \<le> 24"
      "\<forall>e \<in> set (live s). entry_ok e" "distinct (map ent_path (live s))"
    by (rule volumeE)
  have cnt: "ar_entry_count s \<le> length (ar_entries s)" using d by simp
  show "find_entry s p = None \<Longrightarrow> arfs_view image s p = None"
    using find_entry_None [OF _ cnt] by (simp add: arfs_view_def table_view_None)
  assume f: "find_entry s p = Some i"
  note fe = find_entry_Some [OF f cnt d(3) nul]
  then show "ar_entries s ! i \<in> set (live s)" and "ent_path (ar_entries s ! i) = p" by simp_all
  show "arfs_view image s p = Some (node_of (medium s) (ar_entries s ! i))"
    using fe d(4) by (auto simp: arfs_view_def medium_def table_view_Some)
qed

lemma list_result:
  assumes vol: "volume s" and nul: "0 \<notin> set p"
  shows "arfs_list s p l =
    (if p = bytes_of ''/'' \<or> arfs_view image s p = Some Dir
     then (True, map listing_entry (filter (\<lambda>e. parent_path (ent_path e) = p) (live s)), s)
     else (False, l, s))"
proof -
  from vol obtain d where d: "length (ar_entries s) = 24" "ar_entry_count s \<le> 24"
      "\<forall>e \<in> set (live s). entry_ok e"
    by (rule volumeE)
  have root: "arwill_text_equals p (bytes_of ''/'') \<longleftrightarrow> p = bytes_of ''/''"
    using nul by (simp add: arwill_text_equals_eq c_string_id bytes_of_def)
  have dir: "(case find_entry s p of None \<Rightarrow> True
      | Some i \<Rightarrow> ent_kind (ar_entries s ! i) \<noteq> Arfs_directory) \<longleftrightarrow> arfs_view image s p \<noteq> Some Dir"
    using find_view [OF vol nul] by (auto simp: node_of_def split: option.splits if_splits)
  have lc: "list_children (live s) p [] =
      Some (map listing_entry (filter (\<lambda>e. entry_is_child_of e p) (live s)))"
    using d by (simp add: list_children_eq)
  have fl: "filter (\<lambda>e. entry_is_child_of e p) (live s) =
      filter (\<lambda>e. parent_path (ent_path e) = p) (live s)"
    if "p = bytes_of ''/'' \<or> arfs_view image s p = Some Dir"
  proof (rule filter_cong [OF refl])
    fix e assume e: "e \<in> set (live s)"
    have "p = bytes_of ''/'' \<or> path_is_valid p"
    proof (cases "p = bytes_of ''/''")
      case False
      with that find_view [OF vol nul] obtain i where "find_entry s p = Some i"
        by (cases "find_entry s p") auto
      with find_view(3,4) [OF vol nul] d(3) show ?thesis by (auto simp: entry_ok_def)
    qed simp
    with e d(3) nul show "entry_is_child_of e p \<longleftrightarrow> parent_path (ent_path e) = p"
      by (intro entry_is_child_of_parent) (auto simp: entry_ok_def)
  qed
  have "arfs_list s p l = (if p = bytes_of ''/'' \<or> arfs_view image s p = Some Dir
      then (case list_children (live s) p [] of None \<Rightarrow> (False, l, s) | Some c \<Rightarrow> (True, c, s))
      else (False, l, s))"
    unfolding arfs_list_def live_def [symmetric] root dir by auto
  then show ?thesis by (simp only: lc fl option.case cong: if_cong)
qed

lemma read_file_cases:
  assumes "arfs_read_file s p f = (r, f', s')"
  obtains (refused) "\<not> r" and "s' = s"
    | (empty) i where "r" and "find_entry s p = Some i" and "ent_kind (ar_entries s ! i) = Arfs_file"
        and "ent_size_bytes (ar_entries s ! i) = 0"
        and "f' = f\<lparr>fsf_type := ent_file_type (ar_entries s ! i), fsf_size_bytes := 0,
          fsf_contents := Some ((ar_file_buffer s)[0 := 0])\<rparr>"
        and "s' = s\<lparr>ar_file_buffer := (ar_file_buffer s)[0 := 0]\<rparr>"
    | (read) i sz n b where "find_entry s p = Some i" and "ent_kind (ar_entries s ! i) = Arfs_file"
        and "sz = ent_size_bytes (ar_entries s ! i)" and "unat sz < 196609"
        and "n = (sz + of_nat arfs_sector_size - 1) div of_nat arfs_sector_size"
        and "arwill_block_read (ar_block_device s) (ent_data_lba (ar_entries s ! i)) (ucast n)
          (ar_file_buffer s) 196609 = (r, b)"
        and "\<not> r \<Longrightarrow> s' = s\<lparr>ar_file_buffer := b\<rparr>"
        and "r \<Longrightarrow> s' = s\<lparr>ar_file_buffer := b[unat sz := 0]\<rparr> \<and>
          f' = f\<lparr>fsf_type := ent_file_type (ar_entries s ! i), fsf_size_bytes := sz,
            fsf_contents := Some (b[unat sz := 0])\<rparr>"
proof (cases "find_entry s p")
  case None
  with assms show ?thesis by (intro refused) (simp_all add: arfs_read_file_def)
next
  case (Some i)
  let ?e = "ar_entries s ! i"
  let ?n = "(ent_size_bytes ?e + of_nat arfs_sector_size - 1) div of_nat arfs_sector_size"
  consider "ent_kind ?e \<noteq> Arfs_file \<or> ent_size_bytes ?e \<noteq> 0 \<and>
      (ent_size_bytes ?e \<ge> of_nat arfs_file_buffer_capacity \<or> ?n = 0 \<or> ?n > ucast UINT32_MAX)"
    | "ent_kind ?e = Arfs_file" "ent_size_bytes ?e = 0"
    | "ent_kind ?e = Arfs_file" "ent_size_bytes ?e \<noteq> 0"
      "\<not> ent_size_bytes ?e \<ge> of_nat arfs_file_buffer_capacity" "\<not> (?n = 0 \<or> ?n > ucast UINT32_MAX)"
    by blast
  then show ?thesis
  proof cases
    case 1
    with assms Some show ?thesis
      by (intro refused) (auto simp: arfs_read_file_def Let_def split: if_splits)
  next
    case 2
    with assms Some show ?thesis by (intro empty) (auto simp: arfs_read_file_def Let_def)
  next
    case 3
    obtain w b where rd: "arwill_block_read (ar_block_device s) (ent_data_lba ?e) (ucast ?n)
        (ar_file_buffer s) 196609 = (w, b)"
      by (metis prod.exhaust)
    have "unat (ent_size_bytes ?e) < 196609"
      using 3(3) by (simp add: word_le_nat_alt not_le)
    with 3 assms Some rd show ?thesis
      by (intro read [of i "ent_size_bytes ?e" ?n b])
         (cases w; simp add: arfs_read_file_def Let_def; auto)+
  qed
qed

lemma read_result:
  assumes vol: "volume s" and nul: "0 \<notin> set p" and rf: "arfs_read_file s p f = (r, f', s')"
  shows "volume s' \<and> live s' = live s \<and> arfs_view image s' = arfs_view image s"
    and "r \<Longrightarrow> \<exists>t c buf. arfs_view image s p = Some (File t c) \<and> fsf_type f' = t \<and>
      unat (fsf_size_bytes f') = length c \<and> fsf_contents f' = Some (c @ 0 # buf)"
proof -
  from vol obtain d where d: "ar_block_device s = Some d" "driven d"
      "table_ok (unat (ar_data_lba s)) sc (live s)"
    by (rule volumeE)
  have fb: "length (ar_file_buffer s) = 196609" using vol by (simp add: volume_def arfs_wf_def)
  have keep: "volume (s\<lparr>ar_file_buffer := b\<rparr>) \<and> live (s\<lparr>ar_file_buffer := b\<rparr>) = live s \<and>
      arfs_view image (s\<lparr>ar_file_buffer := b\<rparr>) = arfs_view image s" if "length b = 196609" for b
    using vol that by (simp add: volume_def arfs_wf_def arfs_view_def)
  have "(volume s' \<and> live s' = live s \<and> arfs_view image s' = arfs_view image s) \<and>
    (r \<longrightarrow> (\<exists>t c buf. arfs_view image s p = Some (File t c) \<and> fsf_type f' = t \<and>
      unat (fsf_size_bytes f') = length c \<and> fsf_contents f' = Some (c @ 0 # buf)))"
    using rf
  proof (cases rule: read_file_cases)
    case refused
    with vol show ?thesis by simp
  next
    case (empty i)
    have "(ar_file_buffer s)[0 := 0] = 0 # drop 1 (ar_file_buffer s)"
      using fb by (cases "ar_file_buffer s") simp_all
    moreover have "arfs_view image s p = Some (File (ent_file_type (ar_entries s ! i)) [])"
      using find_view(2) [OF vol nul empty(2)] empty(3,4) by (simp add: node_of_def file_bytes_def)
    ultimately show ?thesis
      using empty keep [of "(ar_file_buffer s)[0 := 0]"] fb by simp
  next
    case (read i sz n b)
    let ?e = "ar_entries s ! i" and ?im = "medium s"
    have un: "unat n = (unat sz + 511) div 512"
      using sectors_of_size [of sz] read(4,5) by simp
    have un32: "unat (ucast n :: u32) = unat n"
    proof -
      have "unat n \<le> 384" using un read(4) by simp
      then show ?thesis by (simp add: unsigned_ucast_eq take_bit_nat_eq_self)
    qed
    have len: "length b = 196609"
      using front_read_length [OF d(2), of 196609 "ar_file_buffer s"] read(6) d(1) fb
      by (metis order_refl snd_conv)
    have view: "arfs_view image s p = Some (File (ent_file_type ?e) (file_bytes ?im ?e))"
      using find_view(2) [OF vol nul read(1)] read(2) by (simp add: node_of_def)
    have "fsf_contents f' = Some (file_bytes ?im ?e @ 0 # drop (unat sz + 1) b)" if r
    proof -
      have "b = sectors ?im 512 (ent_data_lba ?e) (ucast n) @ drop (unat (ucast n :: u32) * 512) (ar_file_buffer s)"
        using front_read(1) [OF d(2), of "ent_data_lba ?e" "ucast n" "ar_file_buffer s" 196609 b]
          read(6) that d(1) fb by (simp add: medium_def)
      then have "take (unat sz) b = file_bytes ?im ?e"
        using un un32 sectors_cover [of "unat sz"] read(3)
        by (intro nth_equalityI)
           (auto simp: file_bytes_def sectors_def nth_append add_mult_distrib len)
      moreover have "b[unat sz := 0] = take (unat sz) b @ 0 # drop (unat sz + 1) b"
        using len read(4) by (simp add: upd_conv_take_nth_drop)
      ultimately show ?thesis using read(8) that by simp
    qed
    moreover have "volume s' \<and> live s' = live s \<and> arfs_view image s' = arfs_view image s"
      using keep [of b] keep [of "b[unat sz := 0]"] len read(7,8) by (cases r) simp_all
    moreover have "fsf_type f' = ent_file_type ?e \<and>
        unat (fsf_size_bytes f') = length (file_bytes ?im ?e)" if r
      using read(3,8) that by (simp add: file_bytes_def)
    ultimately show ?thesis using view by blast
  qed
  then show "volume s' \<and> live s' = live s \<and> arfs_view image s' = arfs_view image s"
    and "r \<Longrightarrow> \<exists>t c buf. arfs_view image s p = Some (File t c) \<and> fsf_type f' = t \<and>
      unat (fsf_size_bytes f') = length c \<and> fsf_contents f' = Some (c @ 0 # buf)"
    by blast+
qed

text \<open>The superblock that \<open>arwill_arfs_mount\<close> reads, and the geometry it declares.\<close>

definition formatted :: "'c arfs_context \<Rightarrow> bool" where
  "formatted s \<longleftrightarrow> (let sb = sectors (medium s) 512 arfs_superblock_lba 1
     in arwill_text_starts_with sb (bytes_of ''ARFS2'' @ [newline]) \<and>
        parse_key_decimal sb (bytes_of ''manifest_lba='') = Some (ar_manifest_lba s) \<and>
        parse_key_decimal sb (bytes_of ''manifest_sectors='') = Some (ar_manifest_sectors s) \<and>
        parse_key_decimal sb (bytes_of ''data_lba='') = Some (ar_data_lba s) \<and>
        unat (ar_data_lba s) < sc)"

lemma formatted_same_volume:
  assumes "volume s" and "formatted s" and "same_volume s s'"
  shows "formatted s'"
proof -
  have "3 < unat (ar_manifest_lba s)" using assms(1) by (simp add: volume_def arfs_wf_def)
  then have "medium s' a = medium s a" if "a < 2048" for a
    using assms(3) that less_mult_imp_div_less [of a 4 512] by (auto simp: same_volume_def)
  then have "sectors (medium s') 512 arfs_superblock_lba 1 = sectors (medium s) 512 arfs_superblock_lba 1"
    by (auto simp: sectors_def)
  with assms(2,3) show ?thesis by (simp add: formatted_def same_volume_def)
qed

lemma mount_result:
  assumes "arwill_arfs_mount s0 (Some d) = (Some fs, s)" and "driven d"
  shows "ar_block_device s = Some d" and "formatted s" and "fs = arfs_filesystem s"
    and "0 < ar_entry_count s"
proof -
  let ?s0 = "s0\<lparr>ar_block_device := Some d, ar_entry_count := 0, ar_manifest_lba := 0,
                ar_manifest_sectors := 0, ar_data_lba := 0\<rparr>"
  obtain sb ml ms dl m s1 where sb: "arwill_block_read (Some d) arfs_superblock_lba 1
        (replicate arfs_sector_size 0) arfs_sector_size = (True, sb)"
      and st: "arwill_text_starts_with sb (bytes_of ''ARFS2'' @ [newline])"
      and k: "parse_key_decimal sb (bytes_of ''manifest_lba='') = Some ml"
        "parse_key_decimal sb (bytes_of ''manifest_sectors='') = Some ms"
        "parse_key_decimal sb (bytes_of ''data_lba='') = Some dl"
      and dl: "dl < bd_sector_count d"
      and pm: "parse_manifest (?s0\<lparr>ar_data_lba := dl, ar_manifest_lba := ml,
          ar_manifest_sectors := ms, ar_manifest := m\<rparr>) (unat ms * arfs_sector_size) = (True, s1)"
      and s: "s = s1" "fs = arfs_filesystem s1"
    using assms(1)
    by (auto simp: arwill_arfs_mount_def Let_def not_le
        split: if_splits prod.splits bool.splits option.splits)
  have hd: "same_header (?s0\<lparr>ar_data_lba := dl, ar_manifest_lba := ml,
      ar_manifest_sectors := ms, ar_manifest := m\<rparr>) s"
    using parse_manifest_header [of "?s0\<lparr>ar_data_lba := dl, ar_manifest_lba := ml,
      ar_manifest_sectors := ms, ar_manifest := m\<rparr>" "unat ms * arfs_sector_size"] pm s by simp
  then show dev: "ar_block_device s = Some d" by (simp add: same_header_def)
  show "fs = arfs_filesystem s" using s by simp
  show "0 < ar_entry_count s"
    using parse_lines_result pm s unfolding parse_manifest_def by (metis fst_conv snd_conv)
  have "sb = sectors (medium s) 512 arfs_superblock_lba 1"
    using front_read(1) [OF assms(2) sb] dev by (simp add: medium_def)
  moreover have "unat dl < sc"
    using dl assms(2) by (simp add: driven_def word_less_nat_alt)
  ultimately show "formatted s"
    using st k hd by (simp add: formatted_def same_header_def)
qed

end

locale reliable_arfs = arfs_volume rd wr ok image sc + reliable_block_store rd wr ok image 512 sc
  for rd :: "'c \<Rightarrow> u64 \<Rightarrow> u32 \<Rightarrow> bytes \<Rightarrow> nat \<Rightarrow> bool \<times> bytes"
    and wr :: "'c \<Rightarrow> u64 \<Rightarrow> u32 \<Rightarrow> bytes \<Rightarrow> nat \<Rightarrow> bool \<times> 'c"
    and ok :: "'c \<Rightarrow> bool" and image :: "'c \<Rightarrow> nat \<Rightarrow> u8" and sc :: nat
begin

lemma remount:
  assumes vol: "volume s" and fmt: "formatted s" and per: "persisted s"
    and paths: "\<forall>e \<in> set (live s). newline \<notin> set (ent_path e) \<and> carriage_return \<notin> set (ent_path e)"
    and fits: "length (manifest_text (live s)) \<le> unat (ar_manifest_sectors s) * 512"
    and some: "live s \<noteq> []"
    and z: "length (ar_entries z) = 24" "length (ar_manifest z) = 1024"
      "length (ar_file_buffer z) = 196609"
  obtains s2 where "arwill_arfs_mount z (ar_block_device s) = (Some (arfs_filesystem s2), s2)"
    and "volume s2" and "live s2 = live s" and "arfs_view image s2 = arfs_view image s"
proof -
  from vol obtain d where d: "ar_block_device s = Some d" "driven d" "arfs_wf sc s"
      "length (ar_entries s) = 24" "ar_entry_count s \<le> 24" "\<forall>e \<in> set (live s). entry_ok e"
    by (rule volumeE)
  let ?ms = "ar_manifest_sectors s" and ?ml = "ar_manifest_lba s"
  let ?es = "live s"
  have geo: "1 \<le> unat ?ms" "unat ?ms \<le> 2" "unat ?ml + unat ?ms \<le> sc" "unat (ar_data_lba s) < sc"
      "3 < unat ?ml"
    using d(3) fmt by (auto simp: arfs_wf_def formatted_def Let_def)
  have ms: "unat (ucast ?ms :: u32) = unat ?ms"
    using vol by (rule manifest_sectors_cast)
  define sb where "sb = sectors (medium s) 512 arfs_superblock_lba 1"
  have rd_sb: "arwill_block_read (Some d) arfs_superblock_lba 1 (replicate 512 0) 512 = (True, sb)"
    using front_read_ok [OF d(2), of 1 arfs_superblock_lba 512 "replicate 512 0"] geo d(1)
    by (simp add: sb_def medium_def)
  define m where "m = sectors (medium s) 512 ?ml (ucast ?ms) @ drop (unat ?ms * 512) (ar_manifest z)"
  have rd_m: "arwill_block_read (Some d) ?ml (ucast ?ms) (ar_manifest z) 1024 = (True, m)"
    using front_read_ok [OF d(2), of "ucast ?ms" ?ml 1024 "ar_manifest z"] geo ms d(1) z(2)
    by (simp add: m_def medium_def)
  have lsec: "length (sectors (medium s) 512 ?ml (ucast ?ms)) = unat ?ms * 512"
    by (simp add: sectors_def ms add_mult_distrib)
  have "take (unat ?ms * 512) m = take (unat ?ms * 512)
      (manifest_text ?es @ replicate (1024 - length (manifest_text ?es)) 0)"
    using per lsec by (simp add: m_def persisted_def)
  also have "\<dots> = manifest_text ?es @
      replicate (min (unat ?ms * 512 - length (manifest_text ?es)) (1024 - length (manifest_text ?es))) 0"
    using fits by simp
  finally have m_take: "take (unat ?ms * 512) m = manifest_text ?es @
      replicate (min (unat ?ms * 512 - length (manifest_text ?es)) (1024 - length (manifest_text ?es))) 0" .
  let ?s = "z\<lparr>ar_block_device := Some d, ar_entry_count := 0, ar_data_lba := ar_data_lba s,
      ar_manifest_lba := ?ml, ar_manifest_sectors := ?ms, ar_manifest := m\<rparr>"
  define s2 where "s2 = ?s\<lparr>ar_entries := ?es @ drop (length ?es) (ar_entries z),
      ar_entry_count := length ?es\<rparr>"
  have "\<forall>e \<in> set ?es. ent_wf e" using d(6) paths entry_ok_wf by blast
  then have pm: "parse_manifest ?s (unat ?ms * 512) = (True, s2)"
    using parse_manifest_text [of ?es ?s "unat ?ms * 512"] m_take d z some by (simp add: s2_def)
  have mount: "arwill_arfs_mount z (ar_block_device s) = (Some (arfs_filesystem s2), s2)"
  proof -
    have "bd_sector_size d = 512"
      using d(2) by (simp add: driven_def word_unat_eq_iff)
    moreover have "\<not> bd_sector_count d \<le> ar_data_lba s" "?ms \<noteq> 0" "\<not> 2 < ?ms"
      using geo d(2) by (auto simp: driven_def word_le_nat_alt word_less_nat_alt)
    ultimately show ?thesis
      using rd_sb rd_m pm fmt sb_def
      by (simp add: arwill_arfs_mount_def d(1) formatted_def Let_def)
  qed
  have live2: "live s2 = live s" using d(4,5) by (simp add: s2_def live_def)
  have "length m = 1024" using lsec geo z(2) by (simp add: m_def)
  then have "arfs_wf sc s2"
    using d(3-5) z live2 by (simp add: arfs_wf_def) (simp add: s2_def)
  then have "volume s2" using d(2) by (simp add: volume_def s2_def)
  moreover have "arfs_view image s2 = arfs_view image s"
    using live2 d(1) by (simp add: arfs_view_def) (simp add: s2_def)
  ultimately show ?thesis
    using that mount live2 by simp
qed

end

end
