(* ===== verification/Arfs_Space.thy ===== *)
theory Arfs_Space
  imports Arfs_Remount
begin

text \<open>
  The space of a volume: the allocator is first fit and finds room exactly when
  some run of free sectors is long enough, and the statistics report those runs.
\<close>

section \<open>Runs of free sectors\<close>

lemma stats_fold:
  assumes free: "\<And>i. a \<le> i \<Longrightarrow> i < b \<Longrightarrow> sector_range_is_free s (of_nat i) 1 \<longleftrightarrow> i \<notin> B"
    and b: "b < 18446744073709551616"
  shows "a \<le> k \<Longrightarrow> k \<le> b \<Longrightarrow> foldl (stats_step s) (0, 0, 0) (map of_nat [a..<k]) = (u, c, l) \<Longrightarrow>
    unat u = card ({a..<k} \<inter> B) \<and>
    unat c \<le> k - a \<and> {k - unat c..<k} \<inter> B = {} \<and> (unat c = k - a \<or> k - unat c - 1 \<in> B) \<and>
    unat l \<le> k - a \<and> (\<exists>j. a \<le> j \<and> j + unat l \<le> k \<and> {j..<j + unat l} \<inter> B = {}) \<and>
    (\<forall>j n. a \<le> j \<longrightarrow> j + n \<le> k \<longrightarrow> {j..<j + n} \<inter> B = {} \<longrightarrow> n \<le> unat l)"
proof (induction k arbitrary: u c l rule: nat_induct_at_least)
  case base
  then show ?case by (auto intro: exI [of _ a])
next
  case (Suc k)
  obtain u0 c0 l0 where f: "foldl (stats_step s) (0, 0, 0) (map of_nat [a..<k]) = (u0, c0, l0)"
    by (metis prod_cases3)
  from Suc.prems(1) have "k \<le> b" by simp
  note ih = Suc.IH [OF this f]
  have step: "stats_step s (u0, c0, l0) (of_nat k) = (u, c, l)"
    using Suc.prems(2) f Suc.hyps by simp
  have bound: "k - a < 18446744073709551615" using Suc.prems(1) b by linarith
  show ?case
  proof (cases "k \<in> B")
    case False
    then have free_k: "sector_range_is_free s (of_nat k) 1"
      using free [of k] Suc.hyps Suc.prems(1) by simp
    have c: "unat c = unat c0 + 1"
    proof -
      have "c = c0 + 1" using step free_k by (simp add: stats_step_def Let_def)
      then show ?thesis using ih bound by (simp add: unat_add_64)
    qed
    have l: "unat l = max (unat c) (unat l0)"
      using step free_k c by (auto simp: stats_step_def Let_def word_less_nat_alt split: if_splits)
    have u: "u = u0" using step free_k by (simp add: stats_step_def Let_def)
    have "{a..<Suc k} \<inter> B = {a..<k} \<inter> B" using False by (auto simp: less_Suc_eq)
    moreover have run: "{Suc k - unat c..<Suc k} \<inter> B = {}"
      using ih False c by (auto simp: less_Suc_eq)
    moreover have edge: "unat c = Suc k - a \<or> Suc k - unat c - 1 \<in> B"
      using ih c Suc.hyps by auto
    moreover have "\<exists>j. a \<le> j \<and> j + unat l \<le> Suc k \<and> {j..<j + unat l} \<inter> B = {}"
    proof (cases "unat l0 \<le> unat c")
      case True
      then show ?thesis
        using run c ih l Suc.hyps by (intro exI [of _ "Suc k - unat c"]) (auto simp: max_def)
    next
      case False
      with ih l show ?thesis by (auto simp: max_def intro: le_SucI)
    qed
    moreover have "n \<le> unat l" if j: "a \<le> j" "j + n \<le> Suc k" "{j..<j + n} \<inter> B = {}" for j n
    proof (cases "j + n \<le> k")
      case True
      with ih j have "n \<le> unat l0" by blast
      with l show ?thesis by simp
    next
      case end_run: False
      then have jn: "j + n = Suc k" using j(2) by simp
      have "n \<le> unat c"
      proof (rule ccontr)
        assume "\<not> n \<le> unat c"
        then have lt: "unat c < n" by simp
        with jn j(1) edge have "Suc k - unat c - 1 \<in> B" by auto
        moreover have "Suc k - unat c - 1 \<in> {j..<j + n}" using lt jn by auto
        ultimately show False using j(3) by auto
      qed
      with l show ?thesis by simp
    qed
    ultimately show ?thesis
      using ih u l c Suc.hyps by (auto simp: max_def)
  next
    case True
    then have busy_k: "\<not> sector_range_is_free s (of_nat k) 1"
      using free [of k] Suc.hyps Suc.prems(1) by simp
    then have s: "u = u0 + 1" "c = 0" "l = l0"
      using step by (auto simp: stats_step_def)
    have card: "card ({a..<k} \<inter> B) \<le> k - a"
      using card_mono [of "{a..<k}" "{a..<k} \<inter> B"] by simp
    then have "unat u = unat u0 + 1"
      unfolding s(1) using ih bound by (subst unat_add_64) simp_all
    moreover have "{a..<Suc k} \<inter> B = insert k ({a..<k} \<inter> B)"
      using True Suc.hyps by (auto simp: less_Suc_eq)
    ultimately have "unat u = card ({a..<Suc k} \<inter> B)"
      using ih by simp
    moreover have "n \<le> unat l" if j: "a \<le> j" "j + n \<le> Suc k" "{j..<j + n} \<inter> B = {}" for j n
    proof (cases "n = 0")
      case False
      have "j + n \<noteq> Suc k"
      proof
        assume "j + n = Suc k"
        with False have "k \<in> {j..<j + n}" by auto
        with j(3) True show False by auto
      qed
      with j ih s(3) show ?thesis by auto
    qed simp
    moreover have "\<exists>j. a \<le> j \<and> j + unat l \<le> Suc k \<and> {j..<j + unat l} \<inter> B = {}"
      using ih s(3) by (auto intro: le_SucI)
    ultimately show ?thesis
      using True s ih by (auto simp: unsigned_0)
  qed
qed

section \<open>Allocation and statistics of a volume\<close>

definition busy :: "'c arfs_context \<Rightarrow> nat set" where
  "busy s = \<Union> (extent ` set (live s))"

lemma card_busy:
  assumes "extents_disjoint (live s)"
  shows "card (busy s) = sum_list (map (\<lambda>e. unat (entry_sector_count e)) (live s))"
proof -
  let ?es = "live s"
  have "busy s = (\<Union>i \<in> {..<length ?es}. extent (?es ! i))"
    unfolding busy_def set_conv_nth by auto
  also have "card \<dots> = (\<Sum>i \<in> {..<length ?es}. card (extent (?es ! i)))"
    using assms by (intro card_UN_disjoint) (auto simp: extents_disjoint_def extent_def)
  also have "\<dots> = sum_list (map (\<lambda>e. unat (entry_sector_count e)) ?es)"
    by (simp add: sum_list_sum_nth extent_def atLeast0LessThan)
  finally show ?thesis .
qed

context arfs_volume
begin

lemma free_busy:
  assumes "volume s" and "unat first + unat n \<le> sc" and "0 < unat n"
  shows "sector_range_is_free s first n \<longleftrightarrow> {unat first ..< unat first + unat n} \<inter> busy s = {}"
proof -
  from assms(1) obtain d where d: "table_ok (unat (ar_data_lba s)) sc (live s)"
      "sc < 18446744073709551616"
    by (rule volumeE)
  have "\<forall>e \<in> set (live s). extent e \<subseteq> {unat (ar_data_lba s) ..< sc}"
    using d(1) by (auto simp: table_ok_def entry_fits_def)
  from sector_range_free_iff [OF this assms(2) d(2) assms(3)] show ?thesis
    by (auto simp: busy_def)
qed

lemma allocate_iff_run:
  assumes vol: "volume s"
  shows "allocate_sectors s n \<noteq> None \<longleftrightarrow> 0 < unat n \<and>
    (\<exists>j. unat (ar_data_lba s) \<le> j \<and> j + unat n \<le> sc \<and> {j ..< j + unat n} \<inter> busy s = {})"
proof -
  from vol obtain d where d: "ar_block_device s = Some d" "driven d" "sc < 18446744073709551616"
    by (rule volumeE)
  have sc: "unat (bd_sector_count d) = sc" using d(2) by (simp add: driven_def)
  show ?thesis
  proof
    assume "allocate_sectors s n \<noteq> None"
    then obtain lba where al: "allocate_sectors s n = Some lba" by auto
    then have n: "0 < unat n"
      using d(1) by (auto simp: allocate_sectors_def unat_gt_0 split: if_splits)
    note a = allocate_sectors_result [OF vol al]
    show "0 < unat n \<and> (\<exists>j. unat (ar_data_lba s) \<le> j \<and> j + unat n \<le> sc \<and> {j ..< j + unat n} \<inter> busy s = {})"
      using n a(3,4,5) free_busy [OF vol a(3) n] by blast
  next
    assume "0 < unat n \<and> (\<exists>j. unat (ar_data_lba s) \<le> j \<and> j + unat n \<le> sc \<and> {j ..< j + unat n} \<inter> busy s = {})"
    then obtain j where n: "0 < unat n" and j: "unat (ar_data_lba s) \<le> j" "j + unat n \<le> sc"
        "{j ..< j + unat n} \<inter> busy s = {}" by auto
    have uj: "unat (of_nat j :: u64) = j" using j(2) d(3) by (simp add: unat_of_nat)
    have stop: "unat (bd_sector_count d - n) = sc - unat n"
      using j(2) sc by (simp add: unat_sub word_le_nat_alt)
    have guard: "n \<noteq> 0" "\<not> n > bd_sector_count d" "\<not> ar_data_lba s > bd_sector_count d - n"
      using n j stop sc by (auto simp: word_less_nat_alt)
    have "sector_range_is_free s (of_nat j) n"
      using free_busy [OF vol, of "of_nat j" n] uj j n by simp
    moreover have "j < unat (bd_sector_count d - n) + 1" using stop j(2) by simp
    ultimately have "find (\<lambda>c. sector_range_is_free s c n)
        (map of_nat [unat (ar_data_lba s)..<unat (bd_sector_count d - n) + 1]) \<noteq> None"
      unfolding find_upt_None using j(1) by blast
    with guard d(1) show "allocate_sectors s n \<noteq> None"
      unfolding allocate_sectors_def by (simp del: upt_Suc)
  qed
qed

lemma stats_result:
  assumes vol: "volume s"
  obtains st' where "arfs_storage_stats s st = (True, st')"
    and "st_entries_used st' = length (live s)"
    and "unat (st_data_sectors st') = sc - unat (ar_data_lba s)"
    and "unat (st_used_data_sectors st') = sum_list (map (\<lambda>e. unat (entry_sector_count e)) (live s))"
    and "unat (st_used_data_sectors st') + unat (st_free_data_sectors st') = sc - unat (ar_data_lba s)"
    and "\<And>n. allocate_sectors s n \<noteq> None \<longleftrightarrow> 0 < unat n \<and> n \<le> st_largest_free_run_sectors st'"
proof -
  from vol obtain d where d: "ar_block_device s = Some d" "driven d" "sc < 18446744073709551616"
      "table_ok (unat (ar_data_lba s)) sc (live s)" "length (ar_entries s) = 24" "ar_entry_count s \<le> 24"
    by (rule volumeE)
  let ?a = "unat (ar_data_lba s)"
  have sc: "unat (bd_sector_count d) = sc" using d(2) by (simp add: driven_def)
  have le: "?a \<le> sc" using vol by (simp add: volume_def arfs_wf_def)
  have free: "sector_range_is_free s (of_nat i) 1 \<longleftrightarrow> i \<notin> busy s" if "?a \<le> i" "i < sc" for i
  proof -
    have "unat (of_nat i :: u64) = i" using that d(3) by (simp add: unat_of_nat)
    then show ?thesis using free_busy [OF vol, of "of_nat i" 1] that by simp
  qed
  obtain u c l where f: "foldl (stats_step s) (0, 0, 0) (map of_nat [?a..<sc]) = (u, c, l)"
    by (metis prod_cases3)
  note r = stats_fold [OF free d(3) le order_refl f]
  have sub: "busy s \<subseteq> {?a ..< sc}"
    using d(4) by (auto simp: busy_def table_ok_def entry_fits_def)
  then have "{?a ..< sc} \<inter> busy s = busy s" by auto
  then have used: "unat u = card (busy s)" using r by simp
  have "card (busy s) \<le> sc - ?a" using card_mono [OF _ sub] by simp
  then have "u \<le> bd_sector_count d - ar_data_lba s"
    using used sc le by (simp add: word_le_nat_alt unat_sub)
  then have freeS: "unat (bd_sector_count d - ar_data_lba s - u) = sc - ?a - unat u"
    using sc le by (simp add: unat_sub word_le_nat_alt)
  let ?st = "st\<lparr>st_entries_used := ar_entry_count s, st_entries_capacity := 24,
      st_manifest_sectors := ar_manifest_sectors s, st_data_sectors := bd_sector_count d - ar_data_lba s,
      st_used_data_sectors := u, st_free_data_sectors := bd_sector_count d - ar_data_lba s - u,
      st_largest_free_run_sectors := l, st_max_path_bytes := 63, st_max_file_bytes := 8192\<rparr>"
  have "arfs_storage_stats s st = (True, ?st)"
    using d(1) sc le f by (simp add: arfs_storage_stats_def word_less_nat_alt not_less Let_def)
  moreover have "allocate_sectors s n \<noteq> None \<longleftrightarrow> 0 < unat n \<and> n \<le> l" for n
  proof -
    obtain j where j: "?a \<le> j" "j + unat l \<le> sc" "{j ..< j + unat l} \<inter> busy s = {}" using r by blast
    have "\<exists>j. ?a \<le> j \<and> j + unat n \<le> sc \<and> {j ..< j + unat n} \<inter> busy s = {}" if "unat n \<le> unat l"
    proof (intro exI conjI)
      have "{j ..< j + unat n} \<subseteq> {j ..< j + unat l}" using that by auto
      with j(3) show "{j ..< j + unat n} \<inter> busy s = {}" by blast
    qed (use j that in auto)
    with r show ?thesis unfolding allocate_iff_run [OF vol] word_le_nat_alt by blast
  qed
  moreover have "unat (bd_sector_count d - ar_data_lba s) = sc - ?a"
    using sc le by (simp add: unat_sub word_le_nat_alt)
  ultimately show ?thesis
    using d(4-6) used freeS \<open>card (busy s) \<le> sc - ?a\<close> card_busy [of s]
    by (intro that [of ?st]) (auto simp: table_ok_def)
qed

end

section \<open>Room in the manifest\<close>

lemma length_decimal_text: "length (decimal_text v) \<le> 20"
proof -
  have "length (decimal_reversed k v) \<le> k" for k
    by (induction k v rule: decimal_reversed.induct) simp_all
  then show ?thesis by (simp add: decimal_text_def)
qed

lemma length_entry_text:
  assumes "length (ent_path e) < arfs_max_path_length"
  shows "length (entry_text e) \<le> 115"
proof -
  have k: "length (bytes_of (if ent_kind e = Arfs_directory then ''D '' else ''F '')) = 2"
      "length (bytes_of (if ent_file_type e = File_text then '' text '' else '' binary '')) \<le> 8"
    by simp_all
  show ?thesis
    using assms k length_decimal_text [of "ent_data_lba e"] length_decimal_text [of "ent_size_bytes e"]
    by (cases "ent_kind e") (simp_all add: entry_text_def)
qed

lemma length_manifest_append:
  "length (manifest_text (es @ [e])) = length (manifest_text es) + length (entry_text e)"
  by (simp add: manifest_text_def)

lemma length_manifest_update:
  "length (manifest_text (es[i := e])) \<le> length (manifest_text es) + length (entry_text e)"
proof (induction es arbitrary: i)
  case (Cons x es)
  then show ?case
    by (cases i) (auto simp: manifest_text_def intro: le_trans [OF _ add_left_mono])
qed (simp add: manifest_text_def)

context reliable_arfs
begin

lemma persist_succeeds:
  assumes vol: "volume s"
    and s2: "ar_block_device s2 = Some d" "driven d" "ar_manifest_lba s2 = ar_manifest_lba s"
      "ar_manifest_sectors s2 = ar_manifest_sectors s" "length (ar_manifest s2) = 1024"
    and short: "length (manifest_text (live s2)) < 1024"
  shows "fst (persist_manifest s2)"
proof -
  have geo: "1 \<le> unat (ar_manifest_sectors s)" "unat (ar_manifest_sectors s) \<le> 2"
      "unat (ar_manifest_lba s) + unat (ar_manifest_sectors s) \<le> sc"
    using vol by (auto simp: volume_def arfs_wf_def)
  let ?m = "manifest_text (live s2) @ replicate (1024 - length (manifest_text (live s2))) 0"
  have "fst (arwill_block_write (Some d) (ar_manifest_lba s) (ucast (ar_manifest_sectors s)) ?m 1024)"
    using geo manifest_sectors_cast [OF vol] by (intro front_write_ok [OF s2(2)]) simp_all
  moreover have "write_entries 1024 (take (ar_entry_count s2) (ar_entries s2)) (replicate 1024 0) 0 =
      (True, ?m, length (manifest_text (live s2)))"
    using write_entries_result(2) [OF short] by (simp add: live_def)
  ultimately show ?thesis
    using s2 by (auto simp: persist_manifest_def split: prod.splits)
qed

lemma store_succeeds:
  assumes vol: "volume s" and n: "unat n = (len + 511) div 512" "len \<le> 8192"
    and room: "n \<noteq> 0 \<Longrightarrow> (\<not> is_new \<and> n \<le> entry_sector_count e) \<or> allocate_sectors s n \<noteq> None"
    and old: "\<not> is_new \<Longrightarrow> i < ar_entry_count s \<and> e = ar_entries s ! i"
  shows "fst (store_contents s e is_new n c len) \<noteq> None"
proof (cases "n = 0")
  case False
  from vol obtain d where d: "ar_block_device s = Some d" "driven d" by (rule volumeE)
  have "(if (if is_new then 0 else entry_sector_count e) \<ge> n then Some (ent_data_lba e)
      else allocate_sectors s n) \<noteq> None"
    using room [OF False] False by auto
  then obtain lba where lba: "(if (if is_new then 0 else entry_sector_count e) \<ge> n
      then Some (ent_data_lba e) else allocate_sectors s n) = Some lba" by blast
  note ch = chosen_sectors [OF vol lba False old]
  have un: "unat (ucast n :: u32) = unat n" using small_sector_cast [OF n(2,1)] n(1) by simp
  have "unat n \<le> 16" using n by simp
  then have "fst (arwill_block_write (Some d) lba (ucast n)
      (take len c @ replicate (arfs_write_buffer_capacity - len) 0) 8192)"
    using ch(2) un False by (intro front_write_ok [OF d(2)]) (simp_all add: unat_gt_0)
  with lba False d(1) show ?thesis
    by (auto simp: store_contents_def Let_def split: prod.splits)
qed (simp add: store_contents_def)

lemma write_succeeds:
  assumes vol: "volume s" and nul: "0 \<notin> set p"
    and p: "path_is_valid p" "parent_directory_exists s p"
    and len: "len \<le> arfs_write_buffer_capacity" "len \<le> length x"
    and slot: "arfs_view image s p = None \<and> length (live s) < arfs_max_entries \<or>
      (\<exists>t c. arfs_view image s p = Some (File t c))"
    and room: "len = 0 \<or> allocate_sectors s (of_nat ((len + 511) div 512)) \<noteq> None"
    and manifest: "length (manifest_text (live s)) + 115 < 1024"
  shows "fst (arfs_write_bytes s p t (Some x) len)"
proof -
  from vol obtain d where d: "length (ar_entries s) = 24" "ar_entry_count s \<le> 24"
      "\<forall>e \<in> set (live s). entry_ok e"
    by (rule volumeE)
  have cnt: "ar_entry_count s \<le> length (ar_entries s)" using d by simp
  define n :: u64 where "n = (if len = 0 then 0
    else (of_nat len + of_nat arfs_sector_size - 1) div of_nat arfs_sector_size)"
  define idx where "idx = (case find_entry s p of None \<Rightarrow> ar_entry_count s | Some i \<Rightarrow> i)"
  define is_new where "is_new = (find_entry s p = None)"
  have n: "unat n = (len + 511) div 512"
    unfolding n_def using len(1) by (intro sectors_for_length) simp
  have n_eq: "n = of_nat ((len + 511) div 512)"
    unfolding n [symmetric] by simp
  have old: "idx < ar_entry_count s \<and> ent_path (ar_entries s ! idx) = p \<and>
      ent_kind (ar_entries s ! idx) = Arfs_file" if "\<not> is_new"
  proof -
    from that obtain i where i: "find_entry s p = Some i" by (auto simp: is_new_def)
    then have "ent_kind (ar_entries s ! i) = Arfs_file"
      using slot find_view(2) [OF vol nul i]
      by (cases "ent_kind (ar_entries s ! i)") (auto simp: node_of_def)
    with i find_entry_Some [OF i cnt d(3) nul] show ?thesis by (simp add: idx_def)
  qed
  have new: "idx = ar_entry_count s \<and> ar_entry_count s < 24" if is_new
    using that slot d find_view(1) [OF vol nul] by (auto simp: is_new_def idx_def)
  have "fst (store_contents s (ar_entries s ! idx) is_new n x len) \<noteq> None"
    using room n n_eq old len(1) by (intro store_succeeds [OF vol n]) auto
  then obtain lba s1 where st: "store_contents s (ar_entries s ! idx) is_new n x len = (Some lba, s1)"
    by (metis not_None_eq prod.collapse)
  have eq: "arfs_write_bytes s p t (Some x) len = commit_file s1 idx is_new p t lba len"
    using p len(1) old new st
    unfolding arfs_write_bytes_def Let_def n_def [symmetric] is_new_def [symmetric] idx_def [symmetric]
    by (auto simp: is_new_def idx_def split: option.splits)
  obtain r s' where cm: "commit_file s1 idx is_new p t lba len = (r, s')" by fastforce
  obtain E d1 where s1: "s1 = s\<lparr>ar_block_device := Some d1\<rparr>" "driven d1"
    using store_contents_result [OF vol st n len, of idx] old by auto
  let ?e = "file_entry (ar_entries s1 ! idx) p t lba len"
  obtain s2 s3 where s2: "s2 = s1\<lparr>ar_entries := (ar_entries s1)[idx := ?e],
      ar_entry_count := ar_entry_count s1 + (if is_new then 1 else 0)\<rparr>"
    and s3: "persist_manifest s2 = (r, s3)"
    using commit_file_steps [OF p(1) nul cm] old s1(1) by (metis arfs_context.ext_inject
      arfs_context.surjective arfs_context.update_convs(1))
  have live2: "live s2 = (if is_new then live s @ [?e] else (live s)[idx := ?e])"
    using new d(1) s1(1)
    by (cases is_new) (auto simp: s2 live_def take_Suc_update, simp add: take_update_swap)
  have "length (entry_text ?e) \<le> 115"
    using path_is_valid_shape(2) [OF p(1) nul] by (intro length_entry_text) (simp add: file_entry_def)
  then have "length (manifest_text (live s2)) < 1024"
    using manifest length_manifest_append [of "live s" ?e] length_manifest_update [of "live s" idx ?e]
    by (simp add: live2)
  then have "fst (persist_manifest s2)"
    using s1 vol by (intro persist_succeeds [OF vol]) (simp_all add: s2 volume_def arfs_wf_def)
  with s3 eq cm show ?thesis by simp
qed

lemma read_succeeds:
  assumes vol: "volume s" and nul: "0 \<notin> set p" and v: "arfs_view image s p = Some (File t c)"
  shows "fst (arfs_read_file s p f)"
proof -
  from vol obtain d where d: "ar_block_device s = Some d" "driven d"
      "table_ok (unat (ar_data_lba s)) sc (live s)"
    by (rule volumeE)
  obtain i where i: "find_entry s p = Some i"
    using v find_view(1) [OF vol nul] by (cases "find_entry s p") auto
  let ?e = "ar_entries s ! i"
  let ?n = "(ent_size_bytes ?e + of_nat arfs_sector_size - 1) div of_nat arfs_sector_size"
  have k: "ent_kind ?e = Arfs_file"
    using v find_view(2) [OF vol nul i] by (cases "ent_kind ?e") (auto simp: node_of_def)
  have fits: "entry_fits (unat (ar_data_lba s)) sc ?e"
    using find_view(3) [OF vol nul i] d(3) by (simp add: table_ok_def)
  have sz: "unat (ent_size_bytes ?e) < 196609" using fits by (simp add: entry_fits_def)
  show ?thesis
  proof (cases "ent_size_bytes ?e = 0")
    case True
    with i k show ?thesis by (simp add: arfs_read_file_def Let_def)
  next
    case False
    then have pos: "0 < unat (ent_size_bytes ?e)" by (simp add: unat_gt_0)
    have un: "unat ?n = (unat (ent_size_bytes ?e) + 511) div 512"
      using sz by (rule sectors_of_size)
    have b: "0 < unat ?n" "unat ?n \<le> 384" using un pos sz by (simp_all add: div_greater_zero_iff)
    have u32: "unat (ucast ?n :: u32) = unat ?n"
      using b(2) by (simp only: unsigned_ucast_eq) (simp add: take_bit_nat_eq_self)
    have "unat (entry_sector_count ?e) = unat ?n"
      using entry_sector_count_eq [OF sz k] un by simp
    then have "unat (ent_data_lba ?e) + unat ?n \<le> sc"
      using fits b(1) extent_end [of ?e "unat (ar_data_lba s)" sc] by (simp add: entry_fits_def)
    then have "fst (arwill_block_read (Some d) (ent_data_lba ?e) (ucast ?n) (ar_file_buffer s) 196609)"
      using front_read_ok [OF d(2), of "ucast ?n" "ent_data_lba ?e" 196609 "ar_file_buffer s"]
        u32 b vol by (simp add: volume_def arfs_wf_def)
    moreover have "\<not> ent_size_bytes ?e \<ge> of_nat arfs_file_buffer_capacity"
      using sz by (simp add: word_le_nat_alt)
    moreover have "\<not> (?n = 0 \<or> ?n > ucast UINT32_MAX)"
    proof -
      have "unat (ucast UINT32_MAX :: u64) = 4294967295"
        by (simp add: unat_ucast_32_64 unsigned_minus_1_eq_mask mask_eq_exp_minus_1)
      with b show ?thesis by (auto simp: word_less_nat_alt simp del: of_nat_numeral)
    qed
    ultimately show ?thesis
      using False i k d(1)
      by (auto simp: arfs_read_file_def Let_def split: prod.splits bool.splits)
  qed
qed

end

end
