(* ===== verification/Arfs_Properties.thy ===== *)
theory Arfs_Properties
  imports Arfs_Space
begin

text \<open>
  The properties of ARFS, stated over the definitions of \<^verbatim>\<open>kernel/arfs.c\<close> for
  every device driver that meets the \<open>block_store\<close> contract, with an example
  volume on the memory device that meets all hypotheses.
\<close>

section \<open>A mounted volume\<close>

definition mounted_on ::
    "('c \<Rightarrow> u64 \<Rightarrow> u32 \<Rightarrow> bytes \<Rightarrow> nat \<Rightarrow> bool \<times> bytes) \<Rightarrow>
     ('c \<Rightarrow> u64 \<Rightarrow> u32 \<Rightarrow> bytes \<Rightarrow> nat \<Rightarrow> bool \<times> 'c) \<Rightarrow> ('c \<Rightarrow> bool) \<Rightarrow> nat \<Rightarrow>
     'c arfs_context \<Rightarrow> bool" where
  "mounted_on rd wr ok sc s \<longleftrightarrow> arfs_wf sc s \<and>
     (\<exists>d. ar_block_device s = Some d \<and> bd_read d = Some rd \<and> bd_write d = Some wr \<and>
          bd_sector_size d = 512 \<and> unat (bd_sector_count d) = sc \<and> ok (bd_context d))"

lemma arfs_volumeI: "block_store rd wr ok im 512 sc \<Longrightarrow> arfs_volume rd wr ok im sc"
  by (simp add: arfs_volume_def)

lemma reliable_arfsI: "reliable_block_store rd wr ok im 512 sc \<Longrightarrow> reliable_arfs rd wr ok im sc"
  by (simp add: reliable_arfs_def arfs_volume_def reliable_block_store_def)

lemma volume_mounted:
  assumes "block_store rd wr ok im 512 sc"
  shows "arfs_volume.volume rd wr ok sc s \<longleftrightarrow> mounted_on rd wr ok sc s"
proof -
  have ss: "unat w = 512 \<longleftrightarrow> w = 512" for w :: u32
    by (simp add: word_unat_eq_iff)
  show ?thesis
    by (auto simp: arfs_volume.volume_def [OF arfs_volumeI [OF assms]] mounted_on_def
        block_store.driven_def [OF assms] ss)
qed

section \<open>An example volume\<close>

definition demo_superblock :: bytes where
  "demo_superblock = bytes_of ''ARFS2'' @ [newline] @ bytes_of ''manifest_lba=4'' @ [newline] @
     bytes_of ''manifest_sectors=2'' @ [newline] @ bytes_of ''data_lba=8'' @ [newline]"

definition demo_owner :: arfs_entry where
  "demo_owner = \<lparr>ent_kind = Arfs_directory, ent_file_type = File_binary, ent_path = bytes_of ''/owner'',
     ent_name = bytes_of ''owner'', ent_data_lba = 0, ent_size_bytes = 0\<rparr>"

definition place_bytes :: "nat \<Rightarrow> bytes \<Rightarrow> (nat \<Rightarrow> u8) \<Rightarrow> nat \<Rightarrow> u8" where
  "place_bytes start bs im a = (if start \<le> a \<and> a < start + length bs then bs ! (a - start) else im a)"

definition demo_image :: "nat \<Rightarrow> u8" where
  "demo_image = place_bytes 1536 demo_superblock (place_bytes 2048 (entry_text demo_owner) (\<lambda>_. 0))"

definition demo_volume :: "(nat \<Rightarrow> u8) arfs_context" where
  "demo_volume = \<lparr>ar_block_device = Some (demo_disk\<lparr>bd_context := demo_image\<rparr>),
     ar_entries = demo_owner # replicate 23 demo_owner, ar_entry_count = 1,
     ar_manifest = replicate 1024 0, ar_file_buffer = replicate 196609 0,
     ar_manifest_lba = 4, ar_manifest_sectors = 2, ar_data_lba = 8\<rparr>"

interpretation memory_volume: reliable_arfs
  "memory_read 512" "memory_write 512" "\<lambda>_. True" "\<lambda>m. m" sc for sc
  by (intro reliable_arfsI memory_reliable) simp

lemma demo_owner_ok: "entry_ok demo_owner" "live demo_volume = [demo_owner]"
proof -
  have "path_is_valid (bytes_of ''/owner'')" by code_simp
  moreover have "derive_name (bytes_of ''/owner'') [] 32 = bytes_of ''owner''" by code_simp
  ultimately show "entry_ok demo_owner"
    by (simp add: entry_ok_def demo_owner_def) (simp add: bytes_of_def)
  show "live demo_volume = [demo_owner]" by (simp add: live_def demo_volume_def)
qed

lemma demo_mounted: "mounted_on (memory_read 512) (memory_write 512) (\<lambda>_. True) 64 demo_volume"
proof -
  have "parent_path (bytes_of ''/owner'') = bytes_of ''/''" by code_simp
  then have "table_ok 8 64 [demo_owner]"
    using demo_owner_ok(1)
    by (simp add: table_ok_def extents_disjoint_def parents_ok_def entry_fits_def)
       (simp add: demo_owner_def)
  then have "arfs_wf 64 demo_volume"
    by (simp add: arfs_wf_def demo_owner_ok(2)) (simp add: demo_volume_def)
  then show ?thesis
    by (simp add: mounted_on_def) (simp add: demo_volume_def demo_disk_def)
qed

abbreviation (input) motd :: bytes where "motd \<equiv> bytes_of ''/owner/motd''"

lemma motd_path: "0 \<notin> set motd" "path_is_valid motd" "parent_path motd = bytes_of ''/owner''"
  "0 \<notin> set (bytes_of ''/owner'')"
proof -
  show "0 \<notin> set motd" and "0 \<notin> set (bytes_of ''/owner'')" by (simp_all add: bytes_of_def)
  show "path_is_valid motd" by code_simp
  show "parent_path motd = bytes_of ''/owner''" by code_simp
qed

lemma demo_volume_volume: "memory_volume.volume 64 demo_volume"
  using demo_mounted volume_mounted [OF sector_memory.block_store_axioms] by simp

lemma demo_view: "arfs_view (\<lambda>m. m) demo_volume = [bytes_of ''/owner'' \<mapsto> Dir]"
  by (simp add: arfs_view_def table_view_def demo_owner_ok(2) node_of_def) (simp add: demo_owner_def)

lemma owner_write:
  assumes "memory_volume.volume 64 s" and live: "live s = [demo_owner]" and "ar_data_lba s = 8"
    and p: "0 \<notin> set p" "path_is_valid p" "parent_path p = bytes_of ''/owner''" "p \<noteq> bytes_of ''/owner''"
    and len: "0 < len" "len \<le> 512" "len \<le> length c"
  obtains s' where "arfs_write_bytes s p t (Some c) len = (True, s')"
proof -
  have d: "ar_entry_count s \<le> length (ar_entries s)" "distinct (map ent_path (live s))"
    using assms(1) by (auto elim!: memory_volume.volumeE)
  have "parent_directory_exists s p"
    using demo_owner_ok(1) p live path_is_valid_shape(2) [OF p(2,1)]
    by (subst parent_directory_exists_eq [OF d(1)]) (auto simp: demo_owner_def)
  moreover have "busy s = {}"
    by (simp add: busy_def live) (simp add: demo_owner_def)
  then have "allocate_sectors s 1 \<noteq> None"
    unfolding memory_volume.allocate_iff_run [OF assms(1)]
    using assms(3) by (auto intro!: exI [of _ 8])
  moreover have "(len + 511) div 512 = 1" using len by simp
  moreover have "arfs_view (\<lambda>m. m) s p = None"
    using p(4) by (simp add: arfs_view_def table_view_None live) (simp add: demo_owner_def)
  moreover have "length (manifest_text (live s)) + 115 < 1024"
    using length_entry_text [of demo_owner] by (simp add: live manifest_text_def) (simp add: demo_owner_def)
  ultimately have "fst (arfs_write_bytes s p t (Some c) len)"
    using p len
    by (intro memory_volume.write_succeeds [OF assms(1)]) (simp_all add: live)
  then show ?thesis
    using that by (metis prod.collapse)
qed

lemma motd_not_owner: "motd \<noteq> bytes_of ''/owner''" "0 < (2 :: nat)" "2 \<le> (512 :: nat)"
  "2 \<le> length (bytes_of ''hi'')"
  by (simp_all add: bytes_of_def)

lemma demo_write:
  obtains s' where "arfs_write_bytes demo_volume motd File_text (Some (bytes_of ''hi'')) 2 = (True, s')"
  by (rule owner_write [OF demo_volume_volume demo_owner_ok(2) _ motd_path(1-3) motd_not_owner])
     (simp add: demo_volume_def)

lemma place_sectors:
  assumes "start = unat lba * 512" and "length bs \<le> unat n * 512"
    and "\<And>a. start + length bs \<le> a \<Longrightarrow> a < start + unat n * 512 \<Longrightarrow> im a = 0"
  shows "sectors (place_bytes start bs im) 512 lba n = bs @ replicate (unat n * 512 - length bs) 0"
  using assms
  by (intro nth_equalityI) (auto simp: sectors_def place_bytes_def nth_append add_mult_distrib)

lemma sectors_other:
  assumes "start + length bs \<le> unat lba * 512"
  shows "sectors (place_bytes start bs im) 512 lba n = sectors im 512 lba n"
  using assms by (auto simp: sectors_def place_bytes_def)

lemma demo_superblock_sector:
  "sectors demo_image 512 arfs_superblock_lba 1 = demo_superblock @ replicate 461 0"
  unfolding demo_image_def
  by (subst place_sectors) (auto simp: place_bytes_def demo_superblock_def)

lemma demo_keys:
  "parse_key_decimal (demo_superblock @ replicate 461 0) (bytes_of ''manifest_lba='') = Some 4"
  "parse_key_decimal (demo_superblock @ replicate 461 0) (bytes_of ''manifest_sectors='') = Some 2"
  "parse_key_decimal (demo_superblock @ replicate 461 0) (bytes_of ''data_lba='') = Some 8"
  "arwill_text_starts_with (demo_superblock @ replicate 461 0) (bytes_of ''ARFS2'' @ [newline])"
  by code_simp+

lemma demo_formatted: "memory_volume.formatted 64 demo_volume"
proof -
  have "memory_volume.medium demo_volume = demo_image"
    by (simp add: memory_volume.medium_def demo_volume_def)
  then show ?thesis
    by (simp add: memory_volume.formatted_def demo_superblock_sector demo_keys)
       (simp add: demo_volume_def)
qed

lemma demo_persisted: "memory_volume.persisted demo_volume"
proof -
  have m: "memory_volume.medium demo_volume = demo_image" "ar_manifest_lba demo_volume = 4"
      "ar_manifest_sectors demo_volume = 2"
    by (simp_all add: memory_volume.medium_def demo_volume_def)
  have t: "manifest_text (live demo_volume) = entry_text demo_owner"
    by (simp add: manifest_text_def demo_owner_ok(2))
  have len: "length (entry_text demo_owner) = 9" by (simp add: entry_text_def demo_owner_def)
  have "sectors demo_image 512 4 2 = sectors (place_bytes 2048 (entry_text demo_owner) (\<lambda>_. 0)) 512 4 2"
    unfolding demo_image_def by (rule sectors_other) (simp add: demo_superblock_def)
  also have "\<dots> = entry_text demo_owner @ replicate 1015 0"
    by (subst place_sectors) (simp_all add: len)
  finally show ?thesis
    using len m t by (simp add: memory_volume.persisted_def)
qed

section \<open>Properties\<close>










definition blank_file :: arwill_fs_file where
  "blank_file = \<lparr>fsf_type = File_text, fsf_contents = None, fsf_size_bytes = 0\<rparr>"


text \<open>
  \<open>arfs_list\<close> succeeds exactly on the root and on directories, and lists
  exactly the entries whose parent is that path, in the order of the table.
\<close>

lemma arfs_list_correct:
  assumes "block_store rd wr ok im 512 sc" and "mounted_on rd wr ok sc s" and "0 \<notin> set p"
  shows "arfs_list s p l =
    (if p = bytes_of ''/'' \<or> arfs_view im s p = Some Dir
     then (True, map (\<lambda>e. \<lparr>fse_name = ent_name e,
             fse_type = (if ent_kind e = Arfs_directory then Entry_directory else Entry_file),
             fse_size_bytes = ent_size_bytes e\<rparr>) (filter (\<lambda>e. parent_path (ent_path e) = p) (live s)), s)
     else (False, l, s))"
  using arfs_volume.list_result [OF arfs_volumeI [OF assms(1)], of s p l] assms(2,3)
  by (simp add: volume_mounted [OF assms(1)] listing_entry_def [abs_def])

lemma arfs_list_correct_witness:
  "fst (arfs_list demo_volume (bytes_of ''/'') []) \<and> \<not> fst (arfs_list demo_volume motd [])"
proof
  have nul: "0 \<notin> set (bytes_of ''/'')" by (simp add: bytes_of_def)
  show "fst (arfs_list demo_volume (bytes_of ''/'') [])"
    using arfs_list_correct [OF sector_memory.block_store_axioms demo_mounted nul] by simp
  show "\<not> fst (arfs_list demo_volume motd [])"
    using arfs_list_correct [OF sector_memory.block_store_axioms demo_mounted motd_path(1)]
    by (simp add: demo_view) (simp add: bytes_of_def)
qed

text \<open>
  The statistics: they count the sectors of all files and the remaining ones,
  and the reported largest free run is exact: \<open>allocate_sectors\<close> finds room for
  \<open>n > 0\<close> sectors if and only if \<open>n\<close> is at most that run.
\<close>

lemma arfs_storage_stats_exact:
  assumes "block_store rd wr ok im 512 sc" and "mounted_on rd wr ok sc s"
  shows "\<exists>st'. arfs_storage_stats s st = (True, st') \<and>
    unat (st_used_data_sectors st') = sum_list (map (\<lambda>e. unat (entry_sector_count e)) (live s)) \<and>
    unat (st_used_data_sectors st') + unat (st_free_data_sectors st') = sc - unat (ar_data_lba s) \<and>
    (\<forall>n. allocate_sectors s n \<noteq> None \<longleftrightarrow> 0 < unat n \<and> n \<le> st_largest_free_run_sectors st')"
proof -
  have "arfs_volume.volume rd wr ok sc s" using assms volume_mounted by blast
  then show ?thesis
    by (rule arfs_volume.stats_result [OF arfs_volumeI [OF assms(1)], of s st]) blast
qed

definition blank_stats :: arwill_fs_storage_stats where
  "blank_stats = \<lparr>st_entries_used = 0, st_entries_capacity = 0, st_manifest_sectors = 0,
     st_data_sectors = 0, st_used_data_sectors = 0, st_free_data_sectors = 0,
     st_largest_free_run_sectors = 0, st_max_path_bytes = 0, st_max_file_bytes = 0\<rparr>"

lemma arfs_storage_stats_exact_witness:
  "\<exists>st'. arfs_storage_stats demo_volume blank_stats = (True, st') \<and>
     unat (st_used_data_sectors st') = 0 \<and> unat (st_free_data_sectors st') = 56"
proof -
  have "entry_sector_count demo_owner = 0"
    by (simp add: entry_sector_count_def demo_owner_def)
  moreover have "ar_data_lba demo_volume = 8" by (simp add: demo_volume_def)
  ultimately show ?thesis
    using arfs_storage_stats_exact [OF sector_memory.block_store_axioms demo_mounted, of blank_stats]
    by (auto simp: demo_owner_ok(2))
qed

text \<open>
  Allocation is first fit and safe: the sectors \<open>allocate_sectors\<close> returns lie
  in the data area, belong to no live entry, and no earlier position of the data
  area has a free run of that length.
\<close>

lemma allocate_sectors_first_fit:
  assumes "block_store rd wr ok im 512 sc" and "mounted_on rd wr ok sc s"
    and "allocate_sectors s n = Some lba"
  shows "{unat lba ..< unat lba + unat n} \<subseteq> {unat (ar_data_lba s) ..< sc} \<and>
    (\<forall>e \<in> set (live s). extent e \<inter> {unat lba ..< unat lba + unat n} = {}) \<and>
    (\<forall>c. ar_data_lba s \<le> c \<and> c < lba \<longrightarrow> \<not> sector_range_is_free s c n)"
proof -
  have v: "arfs_volume.volume rd wr ok sc s" using assms volume_mounted by blast
  note a = arfs_volume.allocate_sectors_result [OF arfs_volumeI [OF assms(1)] v assms(3)]
  show ?thesis using a(1,2,6) by blast
qed

lemma allocate_sectors_first_fit_witness:
  "\<exists>lba. allocate_sectors demo_volume 1 = Some lba \<and> 8 \<le> unat lba \<and> unat lba < 64"
proof -
  have "busy demo_volume = {}" and dl: "ar_data_lba demo_volume = 8"
    by (simp_all add: busy_def demo_owner_ok(2)) (simp_all add: demo_owner_def demo_volume_def)
  then have "allocate_sectors demo_volume 1 \<noteq> None"
    unfolding memory_volume.allocate_iff_run [OF demo_volume_volume]
    by (auto intro!: exI [of _ 8])
  then obtain lba where al: "allocate_sectors demo_volume 1 = Some lba" by auto
  have "{unat lba ..< unat lba + 1} \<subseteq> {8 ..< 64}"
    using allocate_sectors_first_fit [OF sector_memory.block_store_axioms demo_mounted al] dl by simp
  then have "unat lba \<in> {8 ..< 64}" by (rule subsetD) simp
  with al show ?thesis by auto
qed





end
