(* ===== verification/Boot_Catalog.thy ===== *)
theory Boot_Catalog
  imports Text Filesystem
begin

text \<open>
  \<^verbatim>\<open>kernel/boot_catalog.c\<close>: the read-only file system the kernel falls back to
  when no ARFS volume can be mounted. Its context is the null pointer, a unit
  value here; the identity texts come from \<^verbatim>\<open>include/arwill/identity.h\<close>.
\<close>

section \<open>Definitions\<close>

abbreviation (input) eol :: bytes where "eol \<equiv> [0x0A]"

definition limine_conf_contents :: bytes where
  "limine_conf_contents =
     bytes_of ''timeout: 0'' @ eol @ bytes_of ''quiet: yes'' @ eol @ bytes_of ''serial: yes'' @ eol @
     eol @ bytes_of ''/Arwill'' @ eol @ bytes_of ''protocol: limine'' @ eol @
     bytes_of ''path: boot():/boot/kernel.elf'' @ eol"

definition system_identity_contents :: bytes where
  "system_identity_contents =
     bytes_of ''name: Arwill'' @ eol @ bytes_of ''version: 0.15.1'' @ eol @
     bytes_of ''architecture: x86_64'' @ eol @ bytes_of ''platform: qemu'' @ eol"

definition fs_entry :: "string \<Rightarrow> arwill_fs_entry_type \<Rightarrow> nat \<Rightarrow> arwill_fs_entry" where
  "fs_entry name type bytes =
     \<lparr>fse_name = bytes_of name, fse_type = type, fse_size_bytes = of_nat bytes\<rparr>"

definition root_entries :: arwill_fs_listing where
  "root_entries = [fs_entry ''boot'' Entry_directory 0, fs_entry ''system'' Entry_directory 0]"

definition boot_entries :: arwill_fs_listing where
  "boot_entries = [fs_entry ''kernel.elf'' Entry_file 0, fs_entry ''limine'' Entry_directory 0]"

definition limine_entries :: arwill_fs_listing where
  "limine_entries = [fs_entry ''limine.conf'' Entry_file (length limine_conf_contents),
     fs_entry ''limine-bios.sys'' Entry_file 0]"

definition system_entries :: arwill_fs_listing where
  "system_entries = [fs_entry ''identity'' Entry_file (length system_identity_contents)]"

definition boot_catalog_list ::
    "unit \<Rightarrow> bytes \<Rightarrow> arwill_fs_listing \<Rightarrow> bool \<times> arwill_fs_listing \<times> unit" where
  "boot_catalog_list context path listing =
     (if arwill_text_equals path (bytes_of ''/'') \<or> arwill_text_equals path []
      then (True, root_entries, ())
      else if arwill_text_equals path (bytes_of ''/boot'') \<or> arwill_text_equals path (bytes_of ''/boot/'')
      then (True, boot_entries, ())
      else if arwill_text_equals path (bytes_of ''/boot/limine'') \<or>
              arwill_text_equals path (bytes_of ''/boot/limine/'')
      then (True, limine_entries, ())
      else if arwill_text_equals path (bytes_of ''/system'') \<or> arwill_text_equals path (bytes_of ''/system/'')
      then (True, system_entries, ())
      else (False, listing, ()))"

definition file_for ::
    "arwill_fs_file_type \<Rightarrow> bytes option \<Rightarrow> nat \<Rightarrow> arwill_fs_file \<Rightarrow> arwill_fs_file" where
  "file_for type contents bytes file =
     file\<lparr>fsf_type := type, fsf_contents := contents, fsf_size_bytes := of_nat bytes\<rparr>"

definition boot_catalog_read_file ::
    "unit \<Rightarrow> bytes \<Rightarrow> arwill_fs_file \<Rightarrow> bool \<times> arwill_fs_file \<times> unit" where
  "boot_catalog_read_file context path file =
     (if arwill_text_equals path (bytes_of ''/boot/kernel.elf'')
      then (True, file_for File_binary None 0 file, ())
      else if arwill_text_equals path (bytes_of ''/boot/limine/limine.conf'')
      then (True, file_for File_text (Some limine_conf_contents) (length limine_conf_contents) file, ())
      else if arwill_text_equals path (bytes_of ''/boot/limine/limine-bios.sys'')
      then (True, file_for File_binary None 0 file, ())
      else if arwill_text_equals path (bytes_of ''/system/identity'')
      then (True, file_for File_text (Some system_identity_contents)
                    (length system_identity_contents) file, ())
      else (False, file, ()))"

definition boot_catalog :: "unit arwill_filesystem" where
  "boot_catalog =
     \<lparr>fs_name = ''static boot catalog'', fs_context = (), fs_list = Some boot_catalog_list,
      fs_read_file = Some boot_catalog_read_file, fs_create_directory = None,
      fs_write_bytes = None, fs_remove = None, fs_storage_stats = None\<rparr>"

section \<open>Listings and files agree\<close>

text \<open>The directories and the prefix under which their entries are files.\<close>

definition catalog_directories :: "(bytes \<times> bytes) list" where
  "catalog_directories =
     [(bytes_of ''/'', bytes_of ''/''), (bytes_of ''/boot'', bytes_of ''/boot/''),
      (bytes_of ''/boot/limine'', bytes_of ''/boot/limine/''),
      (bytes_of ''/system'', bytes_of ''/system/'')]"

definition catalog_entry_ok :: "bytes \<Rightarrow> arwill_fs_entry \<Rightarrow> bool" where
  "catalog_entry_ok pre e =
     (let path = pre @ fse_name e; blank = \<lparr>fsf_type = File_text, fsf_contents = None, fsf_size_bytes = 0\<rparr>
      in case fse_type e of
           Entry_file \<Rightarrow>
             fst (boot_catalog_read_file () path blank) \<and>
             fsf_size_bytes (fst (snd (boot_catalog_read_file () path blank))) = fse_size_bytes e
         | Entry_directory \<Rightarrow> fst (boot_catalog_list () path []))"

text \<open>
  The boot catalog is consistent: every listed directory can be listed and
  every listed file can be read, with the size its entry announces.
\<close>

lemma boot_catalog_consistent:
  "list_all (\<lambda>(dir, pre). case boot_catalog_list () dir [] of
     (ok, entries, _) \<Rightarrow> ok \<and> list_all (catalog_entry_ok pre) entries) catalog_directories"
  by code_simp

end
