(* ===== verification/Config.thy ===== *)
theory Config
  imports Text Filesystem Arfs_Manifest
begin

text \<open>
  \<^verbatim>\<open>kernel/config.c\<close>: the settings file \<^verbatim>\<open>/owner/arwill.conf\<close>, its parser, its
  printer and the guarded updates. A token or line given by pointer and length is
  the list of those bytes; the output buffer with its offset is the list written
  so far. The file system behind \<open>config->filesystem\<close> is part of the record, so
  that every call returns it updated.
\<close>

section \<open>Definitions\<close>

datatype arwill_config_log_level = Config_log_info

record 'f arwill_config =
  cfg_filesystem :: "'f arwill_filesystem option"
  cfg_version :: u32
  cfg_remote_enabled :: bool
  cfg_remote_port :: u16
  cfg_remote_key :: bytes
  cfg_log_level :: arwill_config_log_level
  cfg_loaded_from_file :: bool
  cfg_valid :: bool

abbreviation (input) arwill_config_remote_key_capacity :: nat where
  "arwill_config_remote_key_capacity \<equiv> 65"
abbreviation (input) config_file_capacity :: u64 where "config_file_capacity \<equiv> 1024"
abbreviation (input) seen_version :: u32 where "seen_version \<equiv> 1"
abbreviation (input) seen_remote_enabled :: u32 where "seen_remote_enabled \<equiv> 2"
abbreviation (input) seen_remote_port :: u32 where "seen_remote_port \<equiv> 4"
abbreviation (input) seen_remote_key :: u32 where "seen_remote_key \<equiv> 8"
abbreviation (input) seen_log_level :: u32 where "seen_log_level \<equiv> 16"
abbreviation (input) seen_all :: u32 where "seen_all \<equiv> 31"
abbreviation (input) equals_sign :: u8 where "equals_sign \<equiv> 0x3D"

definition config_path :: bytes where
  "config_path = bytes_of ''/owner/arwill.conf''"

fun token_equals :: "bytes \<Rightarrow> bytes \<Rightarrow> bool" where
  "token_equals (t # token) (e # expected) = (if t \<noteq> e then False else token_equals token expected)"
| "token_equals token expected = (token = [] \<and> expected = [])"

definition set_defaults :: "'f arwill_config \<Rightarrow> 'f arwill_config" where
  "set_defaults config = config\<lparr>cfg_version := 1, cfg_remote_enabled := True,
     cfg_remote_port := 23232, cfg_remote_key := [], cfg_log_level := Config_log_info,
     cfg_loaded_from_file := False, cfg_valid := True\<rparr>"

definition arwill_config_init ::
    "'f arwill_config \<Rightarrow> 'f arwill_filesystem option \<Rightarrow> 'f arwill_config" where
  "arwill_config_init config filesystem = set_defaults (config\<lparr>cfg_filesystem := filesystem\<rparr>)"

fun config_decimal_loop :: "u32 \<Rightarrow> bytes \<Rightarrow> u32 option" where
  "config_decimal_loop result [] = Some result"
| "config_decimal_loop result (b # bs) =
     (if b < 0x30 \<or> b > 0x39 then None
      else let digit = ucast (b - 0x30)
           in if result > (UINT32_MAX - digit) div 10 then None
              else config_decimal_loop (result * 10 + digit) bs)"

definition parse_decimal :: "bytes \<Rightarrow> u32 option" where
  "parse_decimal token = (if token = [] then None else config_decimal_loop 0 token)"

abbreviation (input) key_char :: "u8 \<Rightarrow> bool" where
  "key_char b \<equiv> \<not> (b < 0x21 \<or> b > 0x7e \<or> b = equals_sign)"

definition copy_remote_key :: "bytes \<Rightarrow> bytes \<Rightarrow> bool \<times> bytes" where
  "copy_remote_key destination source =
     (if length source \<ge> arwill_config_remote_key_capacity then (False, destination)
      else if list_all key_char source then (True, source)
      else (False, takeWhile key_char source))"

definition find_separator :: "bytes \<Rightarrow> nat option" where
  "find_separator line =
     foldl (\<lambda>acc index. case acc of
              None \<Rightarrow> None
            | Some separator \<Rightarrow>
                if line ! index = equals_sign
                then if separator \<noteq> length line then None else Some index
                else Some separator)
       (Some (length line)) [0..<length line]"

text \<open>The chain of \<open>if (token_equals(line, separator, ...))\<close>: the new candidate and the field.\<close>

definition parse_setting ::
    "'f arwill_config \<Rightarrow> bytes \<Rightarrow> bytes \<Rightarrow> ('f arwill_config \<times> u32) option" where
  "parse_setting candidate key val =
     (if token_equals key (bytes_of ''config.version'')
      then case parse_decimal val of
             Some version \<Rightarrow>
               if version \<noteq> 1 then None else Some (candidate\<lparr>cfg_version := version\<rparr>, seen_version)
           | None \<Rightarrow> None
      else if token_equals key (bytes_of ''remote.enabled'')
      then if token_equals val (bytes_of ''true'')
           then Some (candidate\<lparr>cfg_remote_enabled := True\<rparr>, seen_remote_enabled)
           else if token_equals val (bytes_of ''false'')
           then Some (candidate\<lparr>cfg_remote_enabled := False\<rparr>, seen_remote_enabled)
           else None
      else if token_equals key (bytes_of ''remote.port'')
      then case parse_decimal val of
             Some port \<Rightarrow>
               if port = 0 \<or> port > 65535 then None
               else Some (candidate\<lparr>cfg_remote_port := ucast port\<rparr>, seen_remote_port)
           | None \<Rightarrow> None
      else if token_equals key (bytes_of ''remote.key'')
      then case copy_remote_key (cfg_remote_key candidate) val of
             (True, key) \<Rightarrow> Some (candidate\<lparr>cfg_remote_key := key\<rparr>, seen_remote_key)
           | (False, _) \<Rightarrow> None
      else if token_equals key (bytes_of ''log.level'')
      then if \<not> token_equals val (bytes_of ''info'') then None
           else Some (candidate\<lparr>cfg_log_level := Config_log_info\<rparr>, seen_log_level)
      else None)"

definition parse_line ::
    "'f arwill_config \<Rightarrow> bytes \<Rightarrow> u32 \<Rightarrow> ('f arwill_config \<times> u32) option" where
  "parse_line candidate line seen =
     (case find_separator line of
        None \<Rightarrow> None
      | Some separator \<Rightarrow>
          if separator = 0 \<or> separator = length line then None
          else case parse_setting candidate (take separator line) (drop (separator + 1) line) of
                 None \<Rightarrow> None
               | Some (candidate, field) \<Rightarrow>
                   if seen AND field \<noteq> 0 then None else Some (candidate, seen OR field))"

definition drop_head :: "u8 \<Rightarrow> bytes \<Rightarrow> bytes" where
  "drop_head b rest = (if rest \<noteq> [] \<and> hd rest = b then tl rest else rest)"

function config_lines ::
    "'f arwill_config \<Rightarrow> u32 \<Rightarrow> bytes \<Rightarrow> ('f arwill_config \<times> u32) option" where
  "config_lines candidate seen rest =
     (if rest = [] then Some (candidate, seen)
      else let line = takeWhile (\<lambda>b. b \<noteq> newline \<and> b \<noteq> carriage_return) rest
           in if line = [] then None
              else case parse_line candidate line seen of
                     None \<Rightarrow> None
                   | Some (candidate, seen) \<Rightarrow>
                       config_lines candidate seen
                         (drop_head newline (drop_head carriage_return (drop (length line) rest))))"
  by pat_completeness auto

lemma length_drop_head: "length (drop_head b rest) \<le> length rest"
  by (simp add: drop_head_def)

termination config_lines
proof (relation "measure (\<lambda>(candidate, seen, rest). length rest)", simp, clarify)
  fix rest candidate seen and c :: "'f arwill_config" and s :: u32
  assume "rest \<noteq> []" and "takeWhile (\<lambda>b. b \<noteq> newline \<and> b \<noteq> carriage_return) rest \<noteq> []"
  then show "((c, s, drop_head newline (drop_head carriage_return (drop
      (length (takeWhile (\<lambda>b. b \<noteq> newline \<and> b \<noteq> carriage_return) rest)) rest))), candidate, seen, rest)
      \<in> measure (\<lambda>(candidate, seen, rest). length rest)"
    using length_drop_head [of newline "drop_head carriage_return (drop
      (length (takeWhile (\<lambda>b. b \<noteq> newline \<and> b \<noteq> carriage_return) rest)) rest)"]
      length_drop_head [of carriage_return "drop
      (length (takeWhile (\<lambda>b. b \<noteq> newline \<and> b \<noteq> carriage_return) rest)) rest"]
    by (simp add: le_less_trans)
qed

declare config_lines.simps [simp del]

definition reject_config :: "'f arwill_config \<Rightarrow> 'f arwill_config" where
  "reject_config config = (set_defaults config)\<lparr>cfg_remote_enabled := False,
     cfg_loaded_from_file := True, cfg_valid := False\<rparr>"

definition blank_fs_file :: arwill_fs_file where
  "blank_fs_file = \<lparr>fsf_type = File_text, fsf_contents = None, fsf_size_bytes = 0\<rparr>"

definition arwill_config_load :: "'f arwill_config \<Rightarrow> bool \<times> 'f arwill_config" where
  "arwill_config_load config =
     (case arwill_filesystem_read_file (cfg_filesystem config) (Some config_path) blank_fs_file of
        (ok, file, fs) \<Rightarrow>
          let config = config\<lparr>cfg_filesystem := fs\<rparr>
          in if \<not> ok then (True, set_defaults config)
             else if fsf_type file \<noteq> File_text \<or> fsf_contents file = None \<or>
                     fsf_size_bytes file = 0 \<or> fsf_size_bytes file > config_file_capacity
             then (False, reject_config config)
             else case config_lines (set_defaults config) 0
                         (take (unat (fsf_size_bytes file)) (the (fsf_contents file))) of
                    None \<Rightarrow> (False, reject_config config)
                  | Some (candidate, seen) \<Rightarrow>
                      if seen \<noteq> seen_all then (False, reject_config config)
                      else (True, candidate\<lparr>cfg_loaded_from_file := True, cfg_valid := True\<rparr>))"

fun append_text :: "nat \<Rightarrow> bytes \<Rightarrow> bytes \<Rightarrow> bool \<times> bytes" where
  "append_text capacity output [] = (True, output)"
| "append_text capacity output (b # text) =
     (if length output \<ge> capacity then (False, output)
      else append_text capacity (output @ [b]) text)"

fun config_decimal_reversed :: "nat \<Rightarrow> u32 \<Rightarrow> bytes" where
  "config_decimal_reversed 0 v = []"
| "config_decimal_reversed (Suc room) v =
     (0x30 + ucast (v mod 10)) # (if v div 10 \<noteq> 0 then config_decimal_reversed room (v div 10) else [])"

text \<open>The digits go to \<open>reversed[10]\<close>: ten are enough for every \<open>uint32_t\<close>.\<close>

definition append_decimal :: "nat \<Rightarrow> bytes \<Rightarrow> u32 \<Rightarrow> bool \<times> bytes" where
  "append_decimal capacity output v =
     append_text capacity output (rev (config_decimal_reversed 10 v))"

definition and_append :: "bool \<times> bytes \<Rightarrow> (bytes \<Rightarrow> bool \<times> bytes) \<Rightarrow> bool \<times> bytes" where
  "and_append r f = (case r of (ok, output) \<Rightarrow> if ok then f output else (False, output))"

definition print_config :: "'f arwill_config \<Rightarrow> bool \<times> bytes" where
  "print_config config =
     (let r = append_text 256 [] (bytes_of ''config.version=1'' @ [newline]);
          r = and_append r (\<lambda>out. append_text 256 out (bytes_of ''remote.enabled=''));
          r = and_append r (\<lambda>out. append_text 256 out
                (if cfg_remote_enabled config then bytes_of ''true'' @ [newline]
                 else bytes_of ''false'' @ [newline]));
          r = and_append r (\<lambda>out. append_text 256 out (bytes_of ''remote.port=''));
          r = and_append r (\<lambda>out. append_decimal 256 out (ucast (cfg_remote_port config)));
          r = and_append r (\<lambda>out. append_text 256 out ([newline] @ bytes_of ''remote.key=''));
          r = and_append r (\<lambda>out. append_text 256 out (cfg_remote_key config))
      in and_append r (\<lambda>out. append_text 256 out ([newline] @ bytes_of ''log.level=info'' @ [newline])))"

definition persist_config :: "'f arwill_config \<Rightarrow> bool \<times> 'f arwill_config" where
  "persist_config config =
     (case print_config config of
        (False, _) \<Rightarrow> (False, config)
      | (True, output) \<Rightarrow>
         (case arwill_filesystem_write_bytes (cfg_filesystem config) (Some config_path) File_text
                 (Some output) (length output) of
            (ok, fs) \<Rightarrow> (ok, config\<lparr>cfg_filesystem := fs\<rparr>)))"

text \<open>The chain of keys in \<open>arwill_config_set\<close>; a null key or value is \<open>None\<close>.\<close>

definition changed_setting :: "'f arwill_config \<Rightarrow> bytes \<Rightarrow> bytes \<Rightarrow> 'f arwill_config option" where
  "changed_setting candidate key val =
     (if arwill_text_equals key (bytes_of ''remote.enabled'')
      then if arwill_text_equals val (bytes_of ''true'')
           then Some (candidate\<lparr>cfg_remote_enabled := True\<rparr>)
           else if arwill_text_equals val (bytes_of ''false'')
           then Some (candidate\<lparr>cfg_remote_enabled := False\<rparr>)
           else None
      else if arwill_text_equals key (bytes_of ''remote.port'')
      then case parse_decimal (c_string val) of
             Some port \<Rightarrow>
               if port = 0 \<or> port > 65535 then None
               else Some (candidate\<lparr>cfg_remote_port := ucast port\<rparr>)
           | None \<Rightarrow> None
      else if arwill_text_equals key (bytes_of ''log.level'')
      then if \<not> arwill_text_equals val (bytes_of ''info'') then None
           else Some (candidate\<lparr>cfg_log_level := Config_log_info\<rparr>)
      else None)"

definition commit_config :: "'f arwill_config \<Rightarrow> 'f arwill_config \<Rightarrow> bool \<times> 'f arwill_config" where
  "commit_config config candidate =
     (case persist_config candidate of
        (False, candidate) \<Rightarrow> (False, config\<lparr>cfg_filesystem := cfg_filesystem candidate\<rparr>)
      | (True, candidate) \<Rightarrow> (True, candidate\<lparr>cfg_loaded_from_file := True\<rparr>))"

definition arwill_config_set ::
    "'f arwill_config \<Rightarrow> bytes option \<Rightarrow> bytes option \<Rightarrow> bool \<times> 'f arwill_config" where
  "arwill_config_set config key val =
     (case (key, val) of
        (Some k, Some v) \<Rightarrow>
          if \<not> cfg_valid config then (False, config)
          else (case changed_setting config k v of
                  None \<Rightarrow> (False, config)
                | Some candidate \<Rightarrow> commit_config config candidate)
      | _ \<Rightarrow> (False, config))"

definition arwill_config_set_remote_key ::
    "'f arwill_config \<Rightarrow> bytes option \<Rightarrow> bool \<times> 'f arwill_config" where
  "arwill_config_set_remote_key config val =
     (case val of
        None \<Rightarrow> (False, config)
      | Some v \<Rightarrow>
          if \<not> cfg_valid config then (False, config)
          else (case copy_remote_key (cfg_remote_key config) (c_string v) of
                  (False, _) \<Rightarrow> (False, config)
                | (True, key) \<Rightarrow> commit_config config (config\<lparr>cfg_remote_key := key\<rparr>)))"

definition arwill_config_log_level_name :: "arwill_config_log_level \<Rightarrow> bytes" where
  "arwill_config_log_level_name level =
     (if level = Config_log_info then bytes_of ''info'' else bytes_of ''unknown'')"

section \<open>Tokens and decimals\<close>

lemma token_equals_iff [simp]: "token_equals t e \<longleftrightarrow> t = e"
  by (induction t e rule: token_equals.induct) auto

lemma config_decimal_loop_eq:
  "config_decimal_loop r bs =
     (if (\<forall>b \<in> set bs. is_digit b) \<and> foldl dec_step (unat r) bs < 4294967296
      then Some (of_nat (foldl dec_step (unat r) bs)) else None)"
proof (induction bs arbitrary: r)
  case Nil
  show ?case using unat_less_32 [of r] by simp
next
  case (Cons b bs)
  show ?case
  proof (cases "is_digit b")
    case True
    define d where "d = unat (b - 0x30)"
    have d9: "d \<le> 9" using digit_le_9 [OF True] by (simp add: d_def)
    have cast: "(ucast (b - 0x30) :: u32) = of_nat d" by (simp add: d_def)
    have ud: "unat (of_nat d :: u32) = d" using d9 by (simp add: unat_of_nat)
    have step: "dec_step (unat r) b = unat r * 10 + d" by (simp add: dec_step_def d_def)
    have "unat (UINT32_MAX - of_nat d :: u32) = 4294967295 - d"
      using ud by (subst unat_sub) (simp_all add: unsigned_minus_1_eq_mask mask_eq_exp_minus_1)
    then have guard: "r > (UINT32_MAX - of_nat d) div 10 \<longleftrightarrow> 4294967296 \<le> unat r * 10 + d"
      using d9 by (simp add: word_less_nat_alt unat_div) arith
    show ?thesis
    proof (cases "unat r * 10 + d < 4294967296")
      case fits: True
      have "unat (r * 10 + of_nat d) = unat r * 10 + d"
        using fits ud unat_mult_lem [of r 10] unat_add_lem [of "r * 10" "of_nat d"] by simp
      with fits guard True Cons.IH [of "r * 10 + of_nat d"] show ?thesis
        unfolding config_decimal_loop.simps Let_def cast by (auto simp: step)
    next
      case False
      with guard True dec_fold_ge [of "unat r * 10 + d" bs] show ?thesis
        unfolding config_decimal_loop.simps Let_def cast by (auto simp: step)
    qed
  next
    case False
    then show ?thesis by (auto simp: not_le)
  qed
qed

lemma parse_decimal_eq:
  "parse_decimal t = (if t \<noteq> [] \<and> (\<forall>b \<in> set t. is_digit b) \<and> dec_value t < 4294967296
     then Some (of_nat (dec_value t)) else None)"
  by (simp add: parse_decimal_def config_decimal_loop_eq dec_value_def)

lemma config_decimal_reversed_eq:
  "unat v < 10 ^ k \<Longrightarrow> k \<le> j \<Longrightarrow> 0 < k \<Longrightarrow>
   config_decimal_reversed k v = decimal_reversed j (ucast v)"
proof (induction k v arbitrary: j rule: config_decimal_reversed.induct)
  case (2 k v)
  then obtain j' where j: "j = Suc j'" by (cases j) auto
  have cast: "unat (ucast v :: u64) = unat v" by (rule unat_ucast_32_64)
  have md: "(ucast (v mod 10) :: u8) = ucast ((ucast v :: u64) mod 10)"
    using unat_less_32 [of v]
    by (simp add: word_unat_eq_iff unsigned_ucast_eq unat_mod take_bit_nat_eq_self)
  have dv: "(ucast v :: u64) div 10 = ucast (v div 10)"
    by (simp add: word_unat_eq_iff unat_div unat_ucast_32_64)
  have zero: "(ucast (v div 10) :: u64) = 0 \<longleftrightarrow> v div 10 = 0"
    by (simp add: word_unat_eq_iff unat_ucast_32_64)
  show ?case
  proof (cases "v div 10 = 0")
    case True
    then show ?thesis by (simp add: j md dv zero)
  next
    case False
    have lt: "unat (v div 10) < 10 ^ k"
      using "2.prems"(1) by (simp add: unat_div less_mult_imp_div_less mult.commute)
    moreover have "0 < unat (v div 10)" using False by (simp add: unat_gt_0)
    ultimately have k: "0 < k" by (cases k) auto
    then have "0 < j'" using "2.prems"(2) j by simp
    with False k lt "2.IH" [of j'] "2.prems"(2) show ?thesis by (simp add: j md dv zero)
  qed
qed simp

lemma parse_printed_port:
  "parse_decimal (rev (config_decimal_reversed 10 v)) = Some v"
    "\<forall>b \<in> set (rev (config_decimal_reversed 10 v)). is_digit b"
    "length (config_decimal_reversed 10 v) \<le> 10"
proof -
  have eq: "rev (config_decimal_reversed 10 v) = decimal_text (ucast v)"
    using config_decimal_reversed_eq [of v 10 20] unat_less_32 [of v] by (simp add: decimal_text_def)
  have "length (config_decimal_reversed k v) \<le> k" for k and v :: u32
    by (induction k v rule: config_decimal_reversed.induct) simp_all
  then show "length (config_decimal_reversed 10 v) \<le> 10" .
  have digits: "\<forall>b \<in> set (decimal_text (ucast v)). is_digit b"
    using decimal_text_digits by blast
  then show "\<forall>b \<in> set (rev (config_decimal_reversed 10 v)). is_digit b" unfolding eq .
  have ne: "decimal_text (ucast v) \<noteq> []" by (rule decimal_text_nonempty)
  have "parse_decimal_token (decimal_text (ucast v)) (length (decimal_text (ucast v))) = Some (ucast v)"
    by (rule parse_decimal_text)
  then have lt: "dec_value (decimal_text (ucast v)) < 18446744073709551616"
      and val: "of_nat (dec_value (decimal_text (ucast v))) = (ucast v :: u64)"
    by (auto simp: parse_decimal_token_eq split: if_splits)
  have "unat (of_nat (dec_value (decimal_text (ucast v))) :: u64) = dec_value (decimal_text (ucast v))"
    using lt by (simp add: unat_of_nat)
  then have "dec_value (decimal_text (ucast v)) = unat (ucast v :: u64)"
    using val by simp
  then have "dec_value (decimal_text (ucast v)) = unat v" by (simp add: unat_ucast_32_64)
  then show "parse_decimal (rev (config_decimal_reversed 10 v)) = Some v"
    unfolding eq parse_decimal_eq using digits ne unat_less_32 [of v] by simp
qed

section \<open>Printing and parsing the file\<close>

lemma append_text_eq:
  "append_text c out t = (if t = [] \<or> length out + length t \<le> c then (True, out @ t)
     else (False, out @ take (c - length out) t))"
proof (induction c out t rule: append_text.induct)
  case (2 c out b t)
  show ?case
  proof (cases "length out \<ge> c")
    case False
    then have "c - length out = Suc (c - Suc (length out))" by simp
    with False "2.IH" show ?thesis by auto
  qed simp
qed simp

definition config_text :: "'f arwill_config \<Rightarrow> bytes" where
  "config_text c =
     (bytes_of ''config.version'' @ equals_sign # bytes_of ''1'') @ newline #
     (bytes_of ''remote.enabled'' @ equals_sign #
        (if cfg_remote_enabled c then bytes_of ''true'' else bytes_of ''false'')) @ newline #
     (bytes_of ''remote.port'' @ equals_sign # rev (config_decimal_reversed 10 (ucast (cfg_remote_port c)))) @
     newline # (bytes_of ''remote.key'' @ equals_sign # cfg_remote_key c) @ newline #
     (bytes_of ''log.level'' @ equals_sign # bytes_of ''info'') @ newline # []"

text \<open>The settings the kernel accepts.\<close>

definition config_ok :: "'f arwill_config \<Rightarrow> bool" where
  "config_ok c \<longleftrightarrow> cfg_version c = 1 \<and> cfg_remote_port c \<noteq> 0 \<and>
     length (cfg_remote_key c) < arwill_config_remote_key_capacity \<and> list_all key_char (cfg_remote_key c)"

lemma print_config_text:
  assumes "config_ok c"
  shows "print_config c = (True, config_text c)" and "length (config_text c) \<le> 256"
    and "config_text c \<noteq> []"
proof -
  have p: "length (config_decimal_reversed 10 (ucast (cfg_remote_port c))) \<le> 10"
    by (rule parse_printed_port(3))
  have k: "length (cfg_remote_key c) \<le> 64" using assms by (simp add: config_ok_def)
  show "length (config_text c) \<le> 256" using p k by (simp add: config_text_def)
  show "config_text c \<noteq> []" by (simp add: config_text_def)
  have "append_text 256 out t = (True, out @ t)" if "length out + length t \<le> 256" for out t
    using that by (simp add: append_text_eq)
  with p k show "print_config c = (True, config_text c)"
    by (simp add: print_config_def Let_def and_append_def append_decimal_def config_text_def
        bytes_of_def)
qed

lemma find_separator_at:
  assumes "equals_sign \<notin> set k" and "equals_sign \<notin> set v"
  shows "find_separator (k @ equals_sign # v) = Some (length k)"
proof -
  let ?l = "k @ equals_sign # v"
  let ?f = "\<lambda>acc index. case acc of None \<Rightarrow> None | Some sep \<Rightarrow>
    if ?l ! index = equals_sign then if sep \<noteq> length ?l then None else Some index else Some sep"
  have skip: "foldl ?f (Some x) [a..<b] = Some x" if "\<forall>i \<in> {a..<b}. ?l ! i \<noteq> equals_sign" for x a b
    using that by (induction b) auto
  have before: "\<forall>i \<in> {0..<length k}. ?l ! i \<noteq> equals_sign"
    using assms(1) by (auto simp: nth_append) (metis nth_mem)
  have after: "\<forall>i \<in> {Suc (length k)..<length ?l}. ?l ! i \<noteq> equals_sign"
  proof
    fix i assume "i \<in> {Suc (length k)..<length ?l}"
    then have "?l ! i = v ! (i - Suc (length k))" and "i - Suc (length k) < length v"
      by (auto simp: nth_append nth_Cons')
    with assms(2) show "?l ! i \<noteq> equals_sign" by (metis nth_mem)
  qed
  have split: "[0..<length ?l] = [0..<length k] @ length k # [Suc (length k)..<length ?l]"
    using upt_add_eq_append [of 0 "length k" "Suc (length v)"] upt_conv_Cons [of "length k" "length ?l"]
    by simp
  have mid: "?f (Some (length ?l)) (length k) = Some (length k)" by simp
  show ?thesis
    unfolding find_separator_def split
    by (simp only: foldl_append foldl_Cons skip [OF before] mid skip [OF after])
qed

lemma parse_line_at:
  assumes "equals_sign \<notin> set k" and "equals_sign \<notin> set v" and "k \<noteq> []"
  shows "parse_line c (k @ equals_sign # v) seen =
    (case parse_setting c k v of None \<Rightarrow> None
     | Some (c, field) \<Rightarrow> if seen AND field \<noteq> 0 then None else Some (c, seen OR field))"
  using assms by (simp add: parse_line_def find_separator_at)

lemma config_lines_step:
  assumes "\<forall>b \<in> set l. b \<noteq> newline \<and> b \<noteq> carriage_return" and "l \<noteq> []"
  shows "config_lines c seen (l @ newline # rest) =
    (case parse_line c l seen of None \<Rightarrow> None | Some (c, seen) \<Rightarrow> config_lines c seen rest)"
proof -
  have "takeWhile (\<lambda>b. b \<noteq> newline \<and> b \<noteq> carriage_return) (l @ newline # rest) = l"
    using assms(1) by (simp add: takeWhile_append2)
  with assms(2) show ?thesis
    by (subst config_lines.simps) (simp add: drop_head_def split: option.split)
qed

definition same_settings :: "'f arwill_config \<Rightarrow> 'g arwill_config \<Rightarrow> bool" where
  "same_settings c c' \<longleftrightarrow> cfg_version c' = cfg_version c \<and>
     cfg_remote_enabled c' = cfg_remote_enabled c \<and> cfg_remote_port c' = cfg_remote_port c \<and>
     cfg_remote_key c' = cfg_remote_key c \<and> cfg_log_level c' = cfg_log_level c"

lemma config_round_trip:
  assumes ok: "config_ok c"
  obtains c' where "config_lines c0 0 (config_text c) = Some (c', seen_all)"
    and "same_settings c c'" and "cfg_filesystem c' = cfg_filesystem c0"
proof -
  let ?port = "rev (config_decimal_reversed 10 (ucast (cfg_remote_port c)))"
  have key: "\<forall>b \<in> set (cfg_remote_key c). b \<noteq> newline \<and> b \<noteq> carriage_return \<and> b \<noteq> equals_sign"
    using ok by (auto simp: config_ok_def list_all_iff)
  have digit: "is_digit b \<Longrightarrow> b \<noteq> newline \<and> b \<noteq> carriage_return \<and> b \<noteq> equals_sign" for b by auto
  have port: "\<forall>b \<in> set ?port. b \<noteq> newline \<and> b \<noteq> carriage_return \<and> b \<noteq> equals_sign"
    using parse_printed_port(2) digit by blast
  let ?p32 = "ucast (cfg_remote_port c) :: u32"
  have up: "unat ?p32 = unat (cfg_remote_port c)"
    using unat_less_16 [of "cfg_remote_port c"] by (simp add: unsigned_ucast_eq take_bit_nat_eq_self)
  have port_ok: "\<not> (?p32 = 0 \<or> ?p32 > 65535)" and back_port: "(ucast ?p32 :: u16) = cfg_remote_port c"
  proof -
    show "\<not> (?p32 = 0 \<or> ?p32 > 65535)"
      using ok up unat_less_16 [of "cfg_remote_port c"]
      by (auto simp: config_ok_def word_less_nat_alt word_unat_eq_iff)
    show "(ucast ?p32 :: u16) = cfg_remote_port c"
      unfolding word_unat_eq_iff unsigned_ucast_eq [of ?p32] up
      using unat_less_16 [of "cfg_remote_port c"] by (simp add: take_bit_nat_eq_self)
  qed
  have ckey: "copy_remote_key d (cfg_remote_key c) = (True, cfg_remote_key c)" for d
    using ok by (simp add: copy_remote_key_def config_ok_def)
  have one: "parse_decimal [0x31] = Some 1" by code_simp
  define c1 where "c1 = c0\<lparr>cfg_version := 1\<rparr>"
  define c2 where "c2 = c1\<lparr>cfg_remote_enabled := cfg_remote_enabled c\<rparr>"
  define c3 where "c3 = c2\<lparr>cfg_remote_port := cfg_remote_port c\<rparr>"
  define c4 where "c4 = c3\<lparr>cfg_remote_key := cfg_remote_key c\<rparr>"
  define c5 where "c5 = c4\<lparr>cfg_log_level := Config_log_info\<rparr>"
  have l1: "parse_line c0 (bytes_of ''config.version'' @ equals_sign # bytes_of ''1'') 0 = Some (c1, 1)"
    by (subst parse_line_at) (simp_all add: parse_setting_def one c1_def bytes_of_def [of "_ # _"])
  have l2: "parse_line c1 (bytes_of ''remote.enabled'' @ equals_sign #
      (if cfg_remote_enabled c then bytes_of ''true'' else bytes_of ''false'')) 1 = Some (c2, 3)"
    by (subst parse_line_at) (simp_all add: parse_setting_def c2_def bytes_of_def [of "_ # _"])
  have l3: "parse_line c2 (bytes_of ''remote.port'' @ equals_sign # ?port) 3 = Some (c3, 7)"
    using port port_ok back_port
    by (subst parse_line_at)
       (auto simp: parse_setting_def c3_def bytes_of_def [of "_ # _"] parse_printed_port(1))
  have l4: "parse_line c3 (bytes_of ''remote.key'' @ equals_sign # cfg_remote_key c) 7 = Some (c4, 15)"
    using key by (subst parse_line_at)
      (auto simp: parse_setting_def c4_def bytes_of_def [of "_ # _"] ckey)
  have l5: "parse_line c4 (bytes_of ''log.level'' @ equals_sign # bytes_of ''info'') 15 = Some (c5, 31)"
    by (subst parse_line_at) (simp_all add: parse_setting_def c5_def bytes_of_def [of "_ # _"])
  have "config_lines c0 0 (config_text c) = config_lines c5 31 []"
    unfolding config_text_def using key port
    by (subst config_lines_step, (auto simp: bytes_of_def [of "_ # _"]) [2], simp only: l1 option.case prod.case,
        subst config_lines_step, (auto simp: bytes_of_def [of "_ # _"]) [2], simp only: l2 option.case prod.case,
        subst config_lines_step, (auto simp: bytes_of_def [of "_ # _"]) [2], simp only: l3 option.case prod.case,
        subst config_lines_step, (auto simp: bytes_of_def [of "_ # _"]) [2], simp only: l4 option.case prod.case,
        subst config_lines_step, (auto simp: bytes_of_def [of "_ # _"]) [2], simp only: l5 option.case prod.case)
  then have "config_lines c0 0 (config_text c) = Some (c5, seen_all)"
    by (simp add: config_lines.simps)
  moreover have "same_settings c c5" and "cfg_filesystem c5 = cfg_filesystem c0"
    using ok by (simp_all add: same_settings_def config_ok_def c1_def c2_def c3_def c4_def c5_def)
      (metis arwill_config_log_level.exhaust)
  ultimately show ?thesis by (rule that)
qed

section \<open>The accepted settings are an invariant\<close>

lemma set_defaults_ok [simp]: "config_ok (set_defaults c)" "config_ok (c\<lparr>cfg_filesystem := fs\<rparr>) = config_ok c"
  "config_ok (c\<lparr>cfg_loaded_from_file := b\<rparr>) = config_ok c" "config_ok (c\<lparr>cfg_valid := v\<rparr>) = config_ok c"
  by (simp_all add: config_ok_def set_defaults_def)

lemma reject_config_ok: "config_ok (reject_config c)"
  by (simp add: config_ok_def reject_config_def set_defaults_def)

lemma port_cast: "port \<noteq> 0 \<Longrightarrow> \<not> port > 65535 \<Longrightarrow> (ucast (port :: u32) :: u16) \<noteq> 0"
proof
  assume "port \<noteq> 0" and "\<not> port > 65535" and "(ucast port :: u16) = 0"
  then have "unat port < 65536" and "unat (ucast port :: u16) = 0" and "unat port \<noteq> 0"
    by (simp_all add: word_less_nat_alt unat_eq_0)
  then show False by (simp add: unsigned_ucast_eq take_bit_nat_eq_self)
qed

lemma copy_remote_key_True:
  "copy_remote_key d s = (True, k) \<Longrightarrow> k = s \<and> length s < arwill_config_remote_key_capacity \<and> list_all key_char s"
  by (auto simp: copy_remote_key_def split: if_splits)

lemma parse_setting_ok:
  assumes "config_ok c" and "parse_setting c k v = Some (c', f)"
  shows "config_ok c'" and "cfg_filesystem c' = cfg_filesystem c" and "cfg_valid c' = cfg_valid c"
  using assms
  by (auto simp: parse_setting_def config_ok_def port_cast
      split: if_splits option.splits prod.splits bool.splits dest!: copy_remote_key_True)

lemma config_lines_ok:
  "config_ok c \<Longrightarrow> config_lines c seen rest = Some (c', seen') \<Longrightarrow>
   config_ok c' \<and> cfg_filesystem c' = cfg_filesystem c"
proof (induction c seen rest rule: config_lines.induct)
  case (1 c seen rest)
  show ?case
  proof (cases "rest = []")
    case True
    with "1.prems" show ?thesis by (simp add: config_lines.simps)
  next
    case False
    let ?l = "takeWhile (\<lambda>b. b \<noteq> newline \<and> b \<noteq> carriage_return) rest"
    let ?r = "drop_head newline (drop_head carriage_return (drop (length ?l) rest))"
    obtain c1 s1 where p: "parse_line c ?l seen = Some (c1, s1)" and ne: "?l \<noteq> []"
        and more: "config_lines c1 s1 ?r = Some (c', seen')"
      using "1.prems"(2) False
      by (subst (asm) config_lines.simps) (auto simp: Let_def split: if_splits option.splits)
    have "config_ok c1 \<and> cfg_filesystem c1 = cfg_filesystem c"
      using p "1.prems"(1)
      by (auto simp: parse_line_def split: option.splits if_splits dest: parse_setting_ok)
    with "1.IH" [OF False refl ne p refl] more show ?thesis by simp
  qed
qed

lemma config_load_ok: "config_ok (snd (arwill_config_load c))"
  by (auto simp: arwill_config_load_def Let_def reject_config_ok
      split: prod.splits option.splits dest: config_lines_ok [rotated])

lemma config_commit_ok:
  "config_ok c \<Longrightarrow> config_ok d \<Longrightarrow> config_ok (snd (commit_config c d))"
  by (auto simp: commit_config_def persist_config_def split: prod.splits bool.splits)

lemma changed_setting_ok: "config_ok c \<Longrightarrow> changed_setting c k v = Some d \<Longrightarrow> config_ok d"
  by (auto simp: changed_setting_def config_ok_def port_cast split: if_splits option.splits)

section \<open>A store that reads back what was written\<close>

locale text_store =
  fixes fs_ok :: "'f arwill_filesystem \<Rightarrow> bool"
  assumes write_then_read:
    "fs_ok fs \<Longrightarrow> 0 \<notin> set p \<Longrightarrow> len \<le> length c \<Longrightarrow>
     arwill_filesystem_write_bytes (Some fs) (Some p) t (Some c) len = (True, fs1) \<Longrightarrow>
     \<exists>fs' file fs2 buf. fs1 = Some fs' \<and> fs_ok fs' \<and>
       arwill_filesystem_read_file fs1 (Some p) f = (True, file, Some fs2) \<and> fs_ok fs2 \<and>
       fsf_type file = t \<and> unat (fsf_size_bytes file) = len \<and>
       fsf_contents file = Some (take len c @ 0 # buf)"
begin

lemma commit_then_load:
  assumes fs: "cfg_filesystem d = Some fs" "fs_ok fs" and ok: "config_ok d"
    and cm: "commit_config c d = (True, c1)"
  shows "\<exists>c2. arwill_config_load c1 = (True, c2) \<and> same_settings d c2 \<and> cfg_valid c2 \<and>
    same_settings d c1"
proof -
  note pt = print_config_text [OF ok]
  obtain fs1 where w: "arwill_filesystem_write_bytes (Some fs) (Some config_path) File_text
        (Some (config_text d)) (length (config_text d)) = (True, fs1)"
      and c1: "c1 = d\<lparr>cfg_filesystem := fs1, cfg_loaded_from_file := True\<rparr>"
    using cm fs(1) pt(1)
    by (auto simp: commit_config_def persist_config_def split: prod.splits bool.splits)
  have nul: "0 \<notin> set config_path" by (simp add: config_path_def bytes_of_def)
  obtain fl fs2 buf where r: "arwill_filesystem_read_file fs1 (Some config_path) blank_fs_file =
        (True, fl, Some fs2)"
      and f: "fsf_type fl = File_text" "unat (fsf_size_bytes fl) = length (config_text d)"
        "fsf_contents fl = Some (config_text d @ 0 # buf)"
    using write_then_read [OF fs(2) nul order_refl w, of blank_fs_file] by auto
  have sz: "fsf_size_bytes fl \<noteq> 0" "\<not> fsf_size_bytes fl > 1024"
    using f(2) pt(2,3) by (auto simp: unat_eq_0 [symmetric] word_less_nat_alt)
  let ?base = "set_defaults (c1\<lparr>cfg_filesystem := Some fs2\<rparr>)"
  obtain c' where "config_lines ?base 0 (config_text d) = Some (c', seen_all)" "same_settings d c'"
    by (rule config_round_trip [OF ok])
  then have "arwill_config_load c1 = (True, c'\<lparr>cfg_loaded_from_file := True, cfg_valid := True\<rparr>)"
    using r f sz by (simp add: arwill_config_load_def c1 Let_def)
  then show ?thesis
    using \<open>same_settings d c'\<close> by (simp add: same_settings_def c1)
qed

end

end
