(* ===== verification/Config_Store.thy ===== *)
theory Config_Store
  imports Config Arfs_Properties
begin

text \<open>
  The settings on an ARFS volume: ARFS meets the contract the configuration
  relies on, so a setting that was accepted is there after the next boot.
\<close>

section \<open>ARFS reads back what was written\<close>

lemma fs_context_same: "fs\<lparr>fs_context := s\<rparr> = arfs_filesystem s" if "fs = arfs_filesystem z"
  using that by (simp add: arfs_filesystem_def)

context reliable_arfs
begin

definition arfs_fs :: "'c arfs_context arwill_filesystem \<Rightarrow> bool" where
  "arfs_fs fs \<longleftrightarrow> (\<exists>s. fs = arfs_filesystem s \<and> volume s)"

lemma arfs_write_then_read:
  assumes fs: "arfs_fs fs" and nul: "0 \<notin> set p" and len: "len \<le> length c"
    and w: "arwill_filesystem_write_bytes (Some fs) (Some p) t (Some c) len = (True, fs1)"
  shows "\<exists>fs' fl fs2 buf. fs1 = Some fs' \<and> arfs_fs fs' \<and>
    arwill_filesystem_read_file fs1 (Some p) f = (True, fl, Some fs2) \<and> arfs_fs fs2 \<and>
    fsf_type fl = t \<and> unat (fsf_size_bytes fl) = len \<and>
    fsf_contents fl = Some (take len c @ 0 # buf)"
proof -
  obtain s where s: "fs = arfs_filesystem s" "volume s" using fs by (auto simp: arfs_fs_def)
  obtain s1 where w1: "arfs_write_bytes s p t (Some c) len = (True, s1)"
      and fs1: "fs1 = Some (arfs_filesystem s1)"
    using w by (auto simp: s arwill_filesystem_write_bytes_def arfs_filesystem_def split: prod.splits)
  note wr = write_bytes_result [OF s(2) nul w1]
  have v1: "volume s1" and view: "arfs_view image s1 p = Some (File t (take len c))"
    using wr(1,2) len by simp_all
  let ?f = "f\<lparr>fsf_type := File_text, fsf_contents := None, fsf_size_bytes := 0\<rparr>"
  obtain fl s2 where r: "arfs_read_file s1 p ?f = (True, fl, s2)"
    using read_succeeds [OF v1 nul view, of ?f] by (metis prod.collapse)
  note rd = read_result [OF v1 nul r]
  obtain buf where fl: "fsf_type fl = t" "unat (fsf_size_bytes fl) = len"
      "fsf_contents fl = Some (take len c @ 0 # buf)"
    using rd(2) view len by auto
  have "arwill_filesystem_read_file fs1 (Some p) f = (True, fl, Some (arfs_filesystem s2))"
    using r by (simp add: fs1 arwill_filesystem_read_file_def arfs_filesystem_def Let_def)
  with fl fs1 v1 rd(1) show ?thesis by (auto simp: arfs_fs_def)
qed

end

sublocale reliable_arfs \<subseteq> settings: text_store arfs_fs
  by unfold_locales (rule arfs_write_then_read)

context reliable_arfs
begin

lemmas settings_load = settings.commit_then_load

end

section \<open>Properties\<close>


definition demo_config :: "(nat \<Rightarrow> u8) arfs_context arwill_config" where
  "demo_config = set_defaults \<lparr>cfg_filesystem = Some (arfs_filesystem demo_volume), cfg_version = 0,
     cfg_remote_enabled = False, cfg_remote_port = 0, cfg_remote_key = [],
     cfg_log_level = Config_log_info, cfg_loaded_from_file = False, cfg_valid = False\<rparr>"

lemma demo_config_set:
  obtains c1 where "arwill_config_set demo_config (Some (bytes_of ''remote.port''))
    (Some (bytes_of ''8080'')) = (True, c1)" and "cfg_remote_port c1 = 8080"
proof -
  let ?d = "demo_config\<lparr>cfg_remote_port := 8080\<rparr>"
  have d: "config_ok ?d" "cfg_filesystem ?d = Some (arfs_filesystem demo_volume)" "cfg_valid demo_config"
    by (simp_all add: config_ok_def demo_config_def set_defaults_def)
  note pt = print_config_text [OF d(1)]
  have path: "0 \<notin> set config_path" "path_is_valid config_path"
      "parent_path config_path = bytes_of ''/owner''" "config_path \<noteq> bytes_of ''/owner''"
    by (simp add: config_path_def bytes_of_def) (code_simp)+
  obtain s' where s': "arfs_write_bytes demo_volume config_path File_text (Some (config_text ?d))
      (length (config_text ?d)) = (True, s')"
    by (rule owner_write [OF demo_volume_volume demo_owner_ok(2) _ path _ _ order_refl, of "config_text ?d"])
       (use pt(2,3) in \<open>simp_all add: demo_volume_def\<close>)
  have "commit_config demo_config ?d = (True, ?d\<lparr>cfg_filesystem := Some (arfs_filesystem s'),
      cfg_loaded_from_file := True\<rparr>)"
    using pt(1) s' d(2)
    by (simp add: commit_config_def persist_config_def arwill_filesystem_write_bytes_def arfs_filesystem_def)
  moreover have "changed_setting demo_config (bytes_of ''remote.port'') (bytes_of ''8080'') = Some ?d"
  proof -
    have "parse_decimal (c_string (bytes_of ''8080'')) = Some 8080" by code_simp
    moreover have "arwill_text_equals (bytes_of ''remote.port'') (bytes_of ''remote.port'')"
        "\<not> arwill_text_equals (bytes_of ''remote.port'') (bytes_of ''remote.enabled'')"
      by code_simp+
    ultimately show ?thesis by (simp add: changed_setting_def)
  qed
  ultimately show ?thesis
    using that d(3) by (simp add: arwill_config_set_def)
qed


text \<open>
  Only acceptable settings ever take effect: version 1, a nonzero port, a key
  of fewer than 65 printable characters without \<^verbatim>\<open>=\<close>. Loading any file at all,
  setting any key and setting the remote key keep this; and a file that is
  rejected leaves remote access off and the configuration marked invalid, so that
  no later change is written over it.
\<close>

lemma config_settings_invariant:
  "config_ok (snd (arwill_config_load c)) \<and>
   (\<not> fst (arwill_config_load c) \<longrightarrow>
      \<not> cfg_remote_enabled (snd (arwill_config_load c)) \<and> \<not> cfg_valid (snd (arwill_config_load c)) \<and>
      (\<forall>k v. \<not> fst (arwill_config_set (snd (arwill_config_load c)) k v))) \<and>
   (config_ok c \<longrightarrow> config_ok (snd (arwill_config_set c k v)) \<and>
      config_ok (snd (arwill_config_set_remote_key c w)))"
proof (intro conjI impI)
  show "config_ok (snd (arwill_config_load c))" by (rule config_load_ok)
  assume "\<not> fst (arwill_config_load c)"
  then have r: "\<exists>d. snd (arwill_config_load c) = reject_config d"
    by (auto simp: arwill_config_load_def Let_def split: prod.splits option.splits if_splits)
  then show "\<not> cfg_remote_enabled (snd (arwill_config_load c))"
      and inv: "\<not> cfg_valid (snd (arwill_config_load c))"
    by (auto simp: reject_config_def)
  show "\<forall>k v. \<not> fst (arwill_config_set (snd (arwill_config_load c)) k v)"
    using inv by (auto simp: arwill_config_set_def split: option.splits)
next
  assume c: "config_ok c"
  then show "config_ok (snd (arwill_config_set c k v))"
    using config_commit_ok [OF c] changed_setting_ok [OF c]
    by (auto simp: arwill_config_set_def split: option.splits)
  have "config_ok (c\<lparr>cfg_remote_key := key\<rparr>)" if "copy_remote_key d s = (True, key)" for key d s
    using that c by (auto simp: config_ok_def dest!: copy_remote_key_True)
  then show "config_ok (snd (arwill_config_set_remote_key c w))"
    using config_commit_ok [OF c] c
    by (auto simp: arwill_config_set_remote_key_def split: option.splits prod.splits bool.splits)
qed

lemma config_settings_invariant_witness:
  "config_ok (snd (arwill_config_set demo_config (Some (bytes_of ''remote.port'')) (Some (bytes_of ''0''))))"
proof -
  have "config_ok demo_config" by (simp add: demo_config_def)
  then show ?thesis
    using config_settings_invariant [of demo_config] by blast
qed

end
