(* ===== verification/Hal.thy ===== *)
theory Hal
  imports Arwill_Prelude
begin

text \<open>
  The fronts of the hardware interfaces: \<^verbatim>\<open>kernel/clock.c\<close>, \<^verbatim>\<open>console.c\<close>,
  \<^verbatim>\<open>entropy.c\<close>, \<^verbatim>\<open>input.c\<close>, \<^verbatim>\<open>network.c\<close>, \<^verbatim>\<open>pci.c\<close>, \<^verbatim>\<open>interrupts.c\<close> and
  \<^verbatim>\<open>realtime.c\<close>. Each struct holds a context and function pointers; a null pointer
  is \<open>None\<close>. A driver function takes the context and returns it, so that a clock
  advances and a network card receives between two calls. The drivers themselves
  are parameters.
\<close>

section \<open>Definitions\<close>

record 'k arwill_clock =
  ck_context :: 'k
  ck_monotonic_milliseconds :: "('k \<Rightarrow> u64 \<times> 'k) option"

definition arwill_clock_monotonic_milliseconds ::
    "'k arwill_clock option \<Rightarrow> u64 \<times> 'k arwill_clock option" where
  "arwill_clock_monotonic_milliseconds clock =
     (case clock of
        None \<Rightarrow> (0, clock)
      | Some c \<Rightarrow>
         (case ck_monotonic_milliseconds c of
            None \<Rightarrow> (0, clock)
          | Some f \<Rightarrow> (case f (ck_context c) of (t, k) \<Rightarrow> (t, Some (c\<lparr>ck_context := k\<rparr>)))))"

record 'k arwill_console =
  co_context :: 'k
  co_write :: "('k \<Rightarrow> bytes \<Rightarrow> 'k) option"

definition arwill_console_write ::
    "'k arwill_console option \<Rightarrow> bytes option \<Rightarrow> 'k arwill_console option" where
  "arwill_console_write console text =
     (case (console, text) of
        (Some c, Some t) \<Rightarrow>
         (case co_write c of
            None \<Rightarrow> console
          | Some f \<Rightarrow> Some (c\<lparr>co_context := f (co_context c) t\<rparr>))
      | _ \<Rightarrow> console)"

definition arwill_console_write_line ::
    "'k arwill_console option \<Rightarrow> bytes option \<Rightarrow> 'k arwill_console option" where
  "arwill_console_write_line console text =
     arwill_console_write (arwill_console_write console text) (Some [0x0A])"

record 'k arwill_entropy =
  en_context :: 'k
  en_fill :: "('k \<Rightarrow> bytes \<Rightarrow> nat \<Rightarrow> bool \<times> bytes \<times> 'k) option"

definition arwill_entropy_fill ::
    "'k arwill_entropy option \<Rightarrow> bytes option \<Rightarrow> nat \<Rightarrow> bool \<times> bytes option \<times> 'k arwill_entropy option" where
  "arwill_entropy_fill entropy output len =
     (case entropy of
        None \<Rightarrow> (False, output, entropy)
      | Some e \<Rightarrow>
         (case en_fill e of
            None \<Rightarrow> (False, output, entropy)
          | Some f \<Rightarrow>
              if output = None \<and> len \<noteq> 0 then (False, output, entropy)
              else (case f (en_context e) (case output of None \<Rightarrow> [] | Some b \<Rightarrow> b) len of
                      (ok, b, k) \<Rightarrow> (ok, map_option (\<lambda>_. b) output, Some (e\<lparr>en_context := k\<rparr>)))))"

record 'k arwill_input =
  in_context :: 'k
  in_try_read_byte :: "('k \<Rightarrow> u8 option \<times> 'k) option"

definition arwill_input_try_read_byte :: "'k arwill_input option \<Rightarrow> u8 option \<times> 'k arwill_input option" where
  "arwill_input_try_read_byte inp =
     (case inp of
        None \<Rightarrow> (None, inp)
      | Some i \<Rightarrow>
         (case in_try_read_byte i of
            None \<Rightarrow> (None, inp)
          | Some f \<Rightarrow> (case f (in_context i) of (b, k) \<Rightarrow> (b, Some (i\<lparr>in_context := k\<rparr>)))))"

abbreviation (input) arwill_network_mac_length :: nat where "arwill_network_mac_length \<equiv> 6"
abbreviation (input) arwill_network_frame_capacity :: nat where "arwill_network_frame_capacity \<equiv> 1536"

record 'k arwill_network_device =
  nd_name :: string
  nd_context :: 'k
  nd_send_frame :: "('k \<Rightarrow> bytes \<Rightarrow> nat \<Rightarrow> bool \<times> 'k) option"
  nd_poll_frame :: "('k \<Rightarrow> bytes \<Rightarrow> nat \<Rightarrow> nat \<Rightarrow> bool \<times> bytes \<times> nat \<times> 'k) option"
  nd_read_mac :: "('k \<Rightarrow> bytes \<Rightarrow> bool \<times> bytes \<times> 'k) option"

definition arwill_network_send_frame ::
    "'k arwill_network_device option \<Rightarrow> bytes option \<Rightarrow> nat \<Rightarrow> bool \<times> 'k arwill_network_device option" where
  "arwill_network_send_frame network frame len =
     (case (network, frame) of
        (Some n, Some fr) \<Rightarrow>
         (case nd_send_frame n of
            None \<Rightarrow> (False, network)
          | Some f \<Rightarrow>
              if len = 0 \<or> len > arwill_network_frame_capacity then (False, network)
              else (case f (nd_context n) fr len of (ok, k) \<Rightarrow> (ok, Some (n\<lparr>nd_context := k\<rparr>))))
      | _ \<Rightarrow> (False, network))"

text \<open>The frame buffer and the length are the caller's; the result is the pair of them.\<close>

definition arwill_network_poll_frame ::
    "'k arwill_network_device option \<Rightarrow> bytes option \<Rightarrow> nat \<Rightarrow>
     bool \<times> bytes option \<times> nat \<times> 'k arwill_network_device option" where
  "arwill_network_poll_frame network frame capacity =
     (case (network, frame) of
        (Some n, Some fr) \<Rightarrow>
         (case nd_poll_frame n of
            None \<Rightarrow> (False, frame, 0, network)
          | Some f \<Rightarrow>
              if capacity = 0 then (False, frame, 0, network)
              else (case f (nd_context n) fr capacity 0 of
                      (ok, fr, len, k) \<Rightarrow> (ok, Some fr, len, Some (n\<lparr>nd_context := k\<rparr>))))
      | _ \<Rightarrow> (False, frame, 0, network))"

definition arwill_network_read_mac ::
    "'k arwill_network_device option \<Rightarrow> bytes option \<Rightarrow> bool \<times> bytes option \<times> 'k arwill_network_device option" where
  "arwill_network_read_mac network mac =
     (case (network, mac) of
        (Some n, Some m) \<Rightarrow>
         (case nd_read_mac n of
            None \<Rightarrow> (False, mac, network)
          | Some f \<Rightarrow> (case f (nd_context n) m of (ok, m, k) \<Rightarrow> (ok, Some m, Some (n\<lparr>nd_context := k\<rparr>))))
      | _ \<Rightarrow> (False, mac, network))"

record arwill_interrupt_stats =
  is_idt_loaded :: bool
  is_pic_remapped :: bool
  is_timer_configured :: bool
  is_enabled :: bool
  is_timer_ticks :: u64
  is_exception_count :: u64
  is_last_exception_vector :: u8

record 'k arwill_interrupts =
  ir_context :: 'k
  ir_name :: string
  ir_enable :: "('k \<Rightarrow> 'k) option"
  ir_stats :: "('k \<Rightarrow> arwill_interrupt_stats \<Rightarrow> arwill_interrupt_stats \<times> 'k) option"
  ir_trigger_breakpoint :: "('k \<Rightarrow> 'k) option"

definition arwill_interrupts_enable :: "'k arwill_interrupts option \<Rightarrow> 'k arwill_interrupts option" where
  "arwill_interrupts_enable interrupts =
     (case interrupts of
        None \<Rightarrow> None
      | Some i \<Rightarrow>
         (case ir_enable i of
            None \<Rightarrow> interrupts
          | Some f \<Rightarrow> Some (i\<lparr>ir_context := f (ir_context i)\<rparr>)))"

definition arwill_interrupts_stats ::
    "'k arwill_interrupts option \<Rightarrow> arwill_interrupt_stats \<Rightarrow>
     arwill_interrupt_stats \<times> 'k arwill_interrupts option" where
  "arwill_interrupts_stats interrupts stats =
     (let stats = stats\<lparr>is_idt_loaded := False, is_pic_remapped := False, is_timer_configured := False,
            is_enabled := False, is_timer_ticks := 0, is_exception_count := 0,
            is_last_exception_vector := 0\<rparr>
      in case interrupts of
           None \<Rightarrow> (stats, interrupts)
         | Some i \<Rightarrow>
            (case ir_stats i of
               None \<Rightarrow> (stats, interrupts)
             | Some f \<Rightarrow>
                (case f (ir_context i) stats of (stats, k) \<Rightarrow> (stats, Some (i\<lparr>ir_context := k\<rparr>)))))"

definition arwill_interrupts_trigger_breakpoint ::
    "'k arwill_interrupts option \<Rightarrow> 'k arwill_interrupts option" where
  "arwill_interrupts_trigger_breakpoint interrupts =
     (case interrupts of
        None \<Rightarrow> None
      | Some i \<Rightarrow>
         (case ir_trigger_breakpoint i of
            None \<Rightarrow> interrupts
          | Some f \<Rightarrow> Some (i\<lparr>ir_context := f (ir_context i)\<rparr>)))"

fun wait_for_tick ::
    "nat \<Rightarrow> u64 \<Rightarrow> 'k arwill_interrupts option \<Rightarrow> arwill_interrupt_stats \<Rightarrow> bool \<times> 'k arwill_interrupts option" where
  "wait_for_tick 0 before interrupts after = (False, interrupts)"
| "wait_for_tick (Suc n) before interrupts after =
     (case arwill_interrupts_stats interrupts after of
        (after, interrupts) \<Rightarrow>
          if is_timer_ticks after > before then (True, interrupts)
          else wait_for_tick n before interrupts after)"

definition arwill_interrupts_wait_for_timer_tick ::
    "arwill_interrupt_stats \<Rightarrow> 'k arwill_interrupts option \<Rightarrow> bool \<times> 'k arwill_interrupts option" where
  "arwill_interrupts_wait_for_timer_tick uninit interrupts =
     (case arwill_interrupts_stats interrupts uninit of
        (before, interrupts) \<Rightarrow> wait_for_tick 10000000 (is_timer_ticks before) interrupts uninit)"

record arwill_pci_device =
  pc_bus :: u8
  pc_slot :: u8
  pc_function :: u8
  pc_vendor_id :: u16
  pc_device_id :: u16
  pc_class_code :: u8
  pc_subclass :: u8
  pc_programming_interface :: u8
  pc_bars :: "u32 list"

record arwill_pci_bus =
  pb_devices :: "arwill_pci_device list"
  pb_count :: nat
  pb_truncated :: bool

definition arwill_pci_bus_init :: "arwill_pci_bus \<Rightarrow> arwill_pci_bus" where
  "arwill_pci_bus_init bus = bus\<lparr>pb_count := 0, pb_truncated := False\<rparr>"

section \<open>What the fronts pass on\<close>

text \<open>Only frames of 1 to 1536 bytes reach a network driver.\<close>

lemma network_send_bounds:
  assumes "arwill_network_send_frame net frame len = (True, net')"
  obtains n fr f k where "net = Some n" and "frame = Some fr" and "nd_send_frame n = Some f"
    and "0 < len" and "len \<le> arwill_network_frame_capacity"
    and "f (nd_context n) fr len = (True, k)" and "net' = Some (n\<lparr>nd_context := k\<rparr>)"
  using assms
  by (auto simp: arwill_network_send_frame_def split: option.splits if_splits prod.splits)

end
