(* ===== verification/Ring_Buffer.thy ===== *)
theory Ring_Buffer
  imports Arwill_Prelude
begin

text \<open>
  The ring buffers of the kernel (event log, TCP receive and transmit buffers,
  unacknowledged segments) share one representation: an array, the index of the
  oldest element and the number of elements. \<open>ring_list\<close> is the queue they stand
  for; the locale \<open>bounded_fifo\<close> is what a client may rely on.
\<close>

section \<open>The queue of a ring\<close>

definition ring_list :: "'a list \<Rightarrow> nat \<Rightarrow> nat \<Rightarrow> 'a list" where
  "ring_list buf hd_ix n = map (\<lambda>i. buf ! ((hd_ix + i) mod length buf)) [0..<n]"

definition ring_ok :: "nat \<Rightarrow> 'a list \<Rightarrow> nat \<Rightarrow> nat \<Rightarrow> bool" where
  "ring_ok cap buf hd_ix n \<longleftrightarrow> length buf = cap \<and> 0 < cap \<and> hd_ix < cap \<and> n \<le> cap"

lemma length_ring_list [simp]: "length (ring_list buf h n) = n"
  by (simp add: ring_list_def)

lemma ring_list_nth: "i < n \<Longrightarrow> ring_list buf h n ! i = buf ! ((h + i) mod length buf)"
  by (simp add: ring_list_def)

lemma ring_list_0 [simp]: "ring_list buf h 0 = []"
  by (simp add: ring_list_def)

lemma mod_add_cases:
  "a < c \<Longrightarrow> b \<le> c \<Longrightarrow> (a + b) mod c = (if a + b < c then a + b else a + b - c)" for a b c :: nat
  by (simp add: le_mod_geq)

lemma ring_distinct:
  "h < c \<Longrightarrow> i < c \<Longrightarrow> j < c \<Longrightarrow> (h + i) mod c = (h + j) mod c \<Longrightarrow> i = j" for h c i j :: nat
  by (auto simp: mod_add_cases split: if_splits)

lemma ring_push [ring_index]:
  assumes "ring_ok cap buf h n" and "n < cap"
  shows "ring_list (buf[(h + n) mod cap := x]) h (Suc n) = ring_list buf h n @ [x]"
    and "ring_ok cap (buf[(h + n) mod cap := x]) h (Suc n)"
proof -
  have l: "length buf = cap" "h < cap" "0 < cap" using assms(1) by (auto simp: ring_ok_def)
  show "ring_ok cap (buf[(h + n) mod cap := x]) h (Suc n)"
    using assms by (simp add: ring_ok_def)
  show "ring_list (buf[(h + n) mod cap := x]) h (Suc n) = ring_list buf h n @ [x]"
  proof (rule nth_equalityI)
    fix i assume i: "i < length (ring_list (buf[(h + n) mod cap := x]) h (Suc n))"
    show "ring_list (buf[(h + n) mod cap := x]) h (Suc n) ! i = (ring_list buf h n @ [x]) ! i"
    proof (cases "i = n")
      case False
      with i assms(2) l ring_distinct [of h cap i n] have "(h + i) mod cap \<noteq> (h + n) mod cap"
        by auto
      with False i l show ?thesis by (simp add: ring_list_nth nth_append)
    qed (use l in \<open>simp add: ring_list_nth nth_append\<close>)
  qed simp
qed

lemma ring_pop [ring_index]:
  assumes "ring_ok cap buf h (Suc n)"
  shows "ring_list buf h (Suc n) = buf ! h # ring_list buf ((h + 1) mod cap) n"
    and "ring_ok cap buf ((h + 1) mod cap) n"
proof -
  have l: "length buf = cap" "h < cap" "0 < cap" using assms by (auto simp: ring_ok_def)
  show "ring_ok cap buf ((h + 1) mod cap) n" using assms by (simp add: ring_ok_def)
  show "ring_list buf h (Suc n) = buf ! h # ring_list buf ((h + 1) mod cap) n"
  proof (rule nth_equalityI)
    fix i assume "i < length (ring_list buf h (Suc n))"
    then show "ring_list buf h (Suc n) ! i = (buf ! h # ring_list buf ((h + 1) mod cap) n) ! i"
      using l by (cases i) (simp_all add: ring_list_nth mod_add_left_eq)
  qed simp
qed

text \<open>Leaving out the \<open>n\<close> oldest elements at once.\<close>

lemma ring_skip [ring_index]:
  assumes "ring_ok cap buf h c" and "n \<le> c"
  shows "ring_list buf ((h + n) mod cap) (c - n) = drop n (ring_list buf h c)"
    and "ring_ok cap buf ((h + n) mod cap) (c - n)"
    and "map (\<lambda>i. buf ! ((h + i) mod cap)) [0..<n] = take n (ring_list buf h c)"
proof -
  have l: "length buf = cap" "h < cap" "0 < cap" using assms by (auto simp: ring_ok_def)
  show "ring_ok cap buf ((h + n) mod cap) (c - n)" using assms by (auto simp: ring_ok_def)
  show "ring_list buf ((h + n) mod cap) (c - n) = drop n (ring_list buf h c)"
    using assms(2) l by (intro nth_equalityI) (simp_all add: ring_list_nth mod_add_left_eq add.assoc)
  show "map (\<lambda>i. buf ! ((h + i) mod cap)) [0..<n] = take n (ring_list buf h c)"
    using assms(2) l by (intro nth_equalityI) (simp_all add: ring_list_nth)
qed

text \<open>Writing over the oldest element of a full ring.\<close>

lemma ring_overwrite [ring_index]:
  assumes "ring_ok cap buf h cap"
  shows "ring_list (buf[h := x]) ((h + 1) mod cap) cap = tl (ring_list buf h cap) @ [x]"
    and "ring_ok cap (buf[h := x]) ((h + 1) mod cap) cap"
proof -
  obtain n where n: "cap = Suc n" using assms by (cases cap) (auto simp: ring_ok_def)
  have l: "length buf = cap" "h < cap" using assms by (auto simp: ring_ok_def)
  have ok: "ring_ok cap buf h (Suc n)" using assms n by simp
  note pop = ring_pop [OF ok]
  have "h + 1 + n = h + cap" using n by simp
  then have "((h + 1) mod cap + n) mod cap = h"
    using l(2) by (metis mod_add_left_eq mod_add_self2 mod_less)
  then show "ring_list (buf[h := x]) ((h + 1) mod cap) cap = tl (ring_list buf h cap) @ [x]"
    using ring_push(1) [OF pop(2), of x] n pop(1) by simp
  show "ring_ok cap (buf[h := x]) ((h + 1) mod cap) cap"
    using assms by (simp add: ring_ok_def)
qed

section \<open>The contract of a bounded queue\<close>

locale bounded_queue =
  fixes ok :: "'q \<Rightarrow> bool" and items :: "'q \<Rightarrow> 'a list" and cap :: nat
    and put :: "'q \<Rightarrow> 'a \<Rightarrow> 'q"
  assumes put_items: "ok q \<Longrightarrow> length (items q) < cap \<Longrightarrow> items (put q x) = items q @ [x]"
    and put_ok: "ok q \<Longrightarrow> length (items q) < cap \<Longrightarrow> ok (put q x)"
begin

lemma put_all:
  "ok q \<Longrightarrow> length (items q) + length xs \<le> cap \<Longrightarrow>
   items (foldl put q xs) = items q @ xs \<and> ok (foldl put q xs)"
proof (induction xs arbitrary: q)
  case (Cons x xs)
  then have "items (put q x) = items q @ [x]" and "ok (put q x)"
    using put_items [of q x] put_ok [of q x] by simp_all
  with Cons.IH [of "put q x"] Cons.prems show ?case by simp
qed simp

end

locale bounded_fifo = bounded_queue ok items cap put
  for ok :: "'q \<Rightarrow> bool" and items :: "'q \<Rightarrow> 'a list" and cap :: nat
    and put :: "'q \<Rightarrow> 'a \<Rightarrow> 'q" +
  fixes get :: "'q \<Rightarrow> 'a \<times> 'q"
  assumes get_items: "ok q \<Longrightarrow> items q \<noteq> [] \<Longrightarrow> get q = (a, q') \<Longrightarrow> items q = a # items q' \<and> ok q'"
begin

primrec take_up_to :: "nat \<Rightarrow> 'q \<Rightarrow> 'a list \<times> 'q" where
  "take_up_to 0 q = ([], q)"
| "take_up_to (Suc n) q =
     (if items q = [] then ([], q)
      else case get q of (a, q) \<Rightarrow> case take_up_to n q of (as, q) \<Rightarrow> (a # as, q))"

lemma take_up_to_prefix:
  "ok q \<Longrightarrow> take_up_to n q = (as, q') \<Longrightarrow> as = take n (items q) \<and> items q' = drop n (items q) \<and> ok q'"
proof (induction n arbitrary: q as q')
  case (Suc n)
  show ?case
  proof (cases "items q = []")
    case False
    obtain a q1 where g: "get q = (a, q1)" by (cases "get q")
    obtain as1 q2 where t: "take_up_to n q1 = (as1, q2)" by (cases "take_up_to n q1")
    have "items q = a # items q1" and "ok q1" using get_items [OF Suc.prems(1) False g] by simp_all
    with Suc.IH [OF _ t] Suc.prems(2) False g t show ?thesis by simp
  qed (use Suc.prems in simp)
qed simp

end

end
