(* ===== verification/Log.thy ===== *)
theory Log
  imports Hal Ring_Buffer
begin

text \<open>
  \<^verbatim>\<open>kernel/log.c\<close>: the event log, a ring of the last 64 events with a count of
  those that were overwritten.
\<close>

section \<open>Definitions\<close>

abbreviation (input) arwill_event_log_capacity :: nat where "arwill_event_log_capacity \<equiv> 64"

datatype arwill_log_severity = Log_info | Log_warning | Log_error

datatype arwill_log_subsystem =
  Log_system | Log_config | Log_service | Log_network | Log_auth | Log_awp | Log_filesystem

datatype arwill_log_code =
  Log_boot | Log_config_loaded | Log_config_changed | Log_config_error | Log_service_started |
  Log_service_stopped | Log_service_restarted | Log_tcp_connected | Log_tcp_disconnected |
  Log_tcp_timeout | Log_auth_accepted | Log_auth_rejected | Log_awp_started | Log_awp_exited |
  Log_awp_faulted | Log_file_written

record arwill_log_entry =
  le_milliseconds :: u64
  le_severity :: arwill_log_severity
  le_subsystem :: arwill_log_subsystem
  le_code :: arwill_log_code
  le_argument0 :: u64
  le_argument1 :: u64

record 'k arwill_event_log =
  lg_clock :: "'k arwill_clock option"
  lg_entries :: "arwill_log_entry list"
  lg_head :: nat
  lg_count :: nat
  lg_overwritten :: u64

definition arwill_event_log_init :: "'k arwill_event_log \<Rightarrow> 'k arwill_clock option \<Rightarrow> 'k arwill_event_log" where
  "arwill_event_log_init log clock =
     log\<lparr>lg_clock := clock, lg_head := 0, lg_count := 0, lg_overwritten := 0\<rparr>"

definition arwill_event_log_record ::
    "'k arwill_event_log option \<Rightarrow> arwill_log_severity \<Rightarrow> arwill_log_subsystem \<Rightarrow> arwill_log_code \<Rightarrow>
     u64 \<Rightarrow> u64 \<Rightarrow> 'k arwill_event_log option" where
  "arwill_event_log_record log severity subsystem code argument0 argument1 =
     (case log of
        None \<Rightarrow> None
      | Some l \<Rightarrow>
         let (index, l) =
               (if lg_count l = arwill_event_log_capacity
                then (lg_head l, l\<lparr>lg_head := (lg_head l + 1) mod arwill_event_log_capacity,
                                   lg_overwritten := lg_overwritten l + 1\<rparr>)
                else ((lg_head l + lg_count l) mod arwill_event_log_capacity,
                      l\<lparr>lg_count := lg_count l + 1\<rparr>));
             (now, clock) = arwill_clock_monotonic_milliseconds (lg_clock l)
         in Some (l\<lparr>lg_clock := clock,
              lg_entries := (lg_entries l)[index :=
                \<lparr>le_milliseconds = now, le_severity = severity, le_subsystem = subsystem,
                 le_code = code, le_argument0 = argument0, le_argument1 = argument1\<rparr>]\<rparr>))"

definition arwill_event_log_entry :: "'k arwill_event_log \<Rightarrow> nat \<Rightarrow> arwill_log_entry option" where
  "arwill_event_log_entry log index =
     (if index \<ge> lg_count log then None
      else Some (lg_entries log ! ((lg_head log + index) mod arwill_event_log_capacity)))"

fun arwill_log_severity_name :: "arwill_log_severity \<Rightarrow> bytes" where
  "arwill_log_severity_name Log_info = bytes_of ''info''"
| "arwill_log_severity_name Log_warning = bytes_of ''warning''"
| "arwill_log_severity_name Log_error = bytes_of ''error''"

fun arwill_log_subsystem_name :: "arwill_log_subsystem \<Rightarrow> bytes" where
  "arwill_log_subsystem_name Log_system = bytes_of ''system''"
| "arwill_log_subsystem_name Log_config = bytes_of ''config''"
| "arwill_log_subsystem_name Log_service = bytes_of ''service''"
| "arwill_log_subsystem_name Log_network = bytes_of ''network''"
| "arwill_log_subsystem_name Log_auth = bytes_of ''auth''"
| "arwill_log_subsystem_name Log_awp = bytes_of ''awp''"
| "arwill_log_subsystem_name Log_filesystem = bytes_of ''filesystem''"

fun arwill_log_code_name :: "arwill_log_code \<Rightarrow> bytes" where
  "arwill_log_code_name Log_boot = bytes_of ''boot''"
| "arwill_log_code_name Log_config_loaded = bytes_of ''loaded''"
| "arwill_log_code_name Log_config_changed = bytes_of ''changed''"
| "arwill_log_code_name Log_config_error = bytes_of ''parse-error''"
| "arwill_log_code_name Log_service_started = bytes_of ''started''"
| "arwill_log_code_name Log_service_stopped = bytes_of ''stopped''"
| "arwill_log_code_name Log_service_restarted = bytes_of ''restarted''"
| "arwill_log_code_name Log_tcp_connected = bytes_of ''connected''"
| "arwill_log_code_name Log_tcp_disconnected = bytes_of ''disconnected''"
| "arwill_log_code_name Log_tcp_timeout = bytes_of ''timeout''"
| "arwill_log_code_name Log_auth_accepted = bytes_of ''accepted''"
| "arwill_log_code_name Log_auth_rejected = bytes_of ''rejected''"
| "arwill_log_code_name Log_awp_started = bytes_of ''started''"
| "arwill_log_code_name Log_awp_exited = bytes_of ''exited''"
| "arwill_log_code_name Log_awp_faulted = bytes_of ''faulted''"
| "arwill_log_code_name Log_file_written = bytes_of ''written''"

section \<open>The log keeps the last events\<close>

definition log_ok :: "'k arwill_event_log \<Rightarrow> bool" where
  "log_ok l \<longleftrightarrow> ring_ok arwill_event_log_capacity (lg_entries l) (lg_head l) (lg_count l)"

definition log_events :: "'k arwill_event_log \<Rightarrow> arwill_log_entry list" where
  "log_events l = ring_list (lg_entries l) (lg_head l) (lg_count l)"

text \<open>The last \<open>n\<close> elements of a list.\<close>

definition last_n :: "nat \<Rightarrow> 'a list \<Rightarrow> 'a list" where
  "last_n n xs = drop (length xs - n) xs"

lemma last_n_snoc:
  "length ys = min n (length xs) \<Longrightarrow> ys = last_n n xs \<Longrightarrow> 0 < n \<Longrightarrow>
   last_n n (xs @ [x]) = (if length ys = n then tl ys @ [x] else ys @ [x])"
  by (auto simp: last_n_def min_def tl_drop drop_Suc Suc_diff_le split: if_splits)

lemma record_step:
  assumes "log_ok l" and "arwill_event_log_record (Some l) sv sb cd a0 a1 = Some l'"
  shows "log_ok l'"
    and "log_events l' = (if lg_count l = 64 then tl (log_events l) else log_events l) @
      [\<lparr>le_milliseconds = fst (arwill_clock_monotonic_milliseconds (lg_clock l)), le_severity = sv,
        le_subsystem = sb, le_code = cd, le_argument0 = a0, le_argument1 = a1\<rparr>]"
    and "lg_overwritten l' = lg_overwritten l + (if lg_count l = 64 then 1 else 0)"
proof -
  obtain now clock where c: "arwill_clock_monotonic_milliseconds (lg_clock l) = (now, clock)"
    by (cases "arwill_clock_monotonic_milliseconds (lg_clock l)")
  let ?e = "\<lparr>le_milliseconds = now, le_severity = sv, le_subsystem = sb, le_code = cd,
    le_argument0 = a0, le_argument1 = a1\<rparr>"
  have "log_ok l' \<and> log_events l' = (if lg_count l = 64 then tl (log_events l) else log_events l) @ [?e] \<and>
      lg_overwritten l' = lg_overwritten l + (if lg_count l = 64 then 1 else 0)"
  proof (cases "lg_count l = 64")
    case True
    have ok: "ring_ok 64 (lg_entries l) (lg_head l) 64" using assms(1) True by (simp add: log_ok_def)
    show ?thesis
      using assms(2) True c ring_overwrite [OF ok, of ?e]
      by (auto simp: arwill_event_log_record_def log_ok_def log_events_def)
  next
    case False
    have ok: "ring_ok 64 (lg_entries l) (lg_head l) (lg_count l)" and "lg_count l < 64"
      using assms(1) False by (auto simp: log_ok_def ring_ok_def)
    then show ?thesis
      using assms(2) False c ring_push [OF ok, of ?e]
      by (auto simp: arwill_event_log_record_def log_ok_def log_events_def)
  qed
  then show "log_ok l'"
    and "log_events l' = (if lg_count l = 64 then tl (log_events l) else log_events l) @
      [\<lparr>le_milliseconds = fst (arwill_clock_monotonic_milliseconds (lg_clock l)), le_severity = sv,
        le_subsystem = sb, le_code = cd, le_argument0 = a0, le_argument1 = a1\<rparr>]"
    and "lg_overwritten l' = lg_overwritten l + (if lg_count l = 64 then 1 else 0)"
    by (simp_all add: c)
qed

type_synonym log_event =
  "arwill_log_severity \<times> arwill_log_subsystem \<times> arwill_log_code \<times> u64 \<times> u64"

definition event_of :: "arwill_log_entry \<Rightarrow> log_event" where
  "event_of e = (le_severity e, le_subsystem e, le_code e, le_argument0 e, le_argument1 e)"

definition record_event :: "'k arwill_event_log option \<Rightarrow> log_event \<Rightarrow> 'k arwill_event_log option" where
  "record_event log ev = (case ev of (sv, sb, cd, a0, a1) \<Rightarrow> arwill_event_log_record log sv sb cd a0 a1)"

lemma record_events:
  assumes "length (lg_entries l0) = 64"
  obtains l where "foldl record_event (Some (arwill_event_log_init l0 clock)) evs = Some l"
    and "log_ok l" and "map event_of (log_events l) = last_n 64 evs"
    and "lg_overwritten l = of_nat (length evs - 64)"
proof -
  have "\<exists>l. foldl record_event (Some (arwill_event_log_init l0 clock)) evs = Some l \<and> log_ok l \<and>
      map event_of (log_events l) = last_n 64 evs \<and> lg_overwritten l = of_nat (length evs - 64)"
  proof (induction evs rule: rev_induct)
    case Nil
    show ?case
      using assms by (auto simp: arwill_event_log_init_def log_ok_def ring_ok_def log_events_def last_n_def)
  next
    case (snoc ev evs)
    then obtain l where l: "foldl record_event (Some (arwill_event_log_init l0 clock)) evs = Some l"
        "log_ok l" "map event_of (log_events l) = last_n 64 evs" "lg_overwritten l = of_nat (length evs - 64)"
      by auto
    obtain sv sb cd a0 a1 where ev: "ev = (sv, sb, cd, a0, a1)" by (cases ev)
    have "arwill_event_log_record (Some l) sv sb cd a0 a1 \<noteq> None"
      by (auto simp: arwill_event_log_record_def split: prod.splits)
    then obtain l' where l': "arwill_event_log_record (Some l) sv sb cd a0 a1 = Some l'" by auto
    note r = record_step [OF l(2) l']
    have len: "lg_count l = min 64 (length evs)"
      using arg_cong [OF l(3), of length] by (simp add: log_events_def last_n_def min_def)
    have ll: "length (log_events l) = lg_count l" by (simp add: log_events_def)
    have "last_n 64 (evs @ [ev]) =
        (if lg_count l = 64 then tl (map event_of (log_events l)) else map event_of (log_events l)) @ [ev]"
      by (subst last_n_snoc [OF _ l(3)]) (use ll len in simp_all)
    then have "map event_of (log_events l') = last_n 64 (evs @ [ev])"
      using r(2) by (simp add: ev event_of_def map_tl)
    moreover have "lg_overwritten l' = of_nat (length (evs @ [ev]) - 64)"
      using r(3) l(4) len by (auto simp: min_def Suc_diff_le)
    moreover have "foldl record_event (Some (arwill_event_log_init l0 clock)) (evs @ [ev]) = Some l'"
      using l(1) l' by (simp add: record_event_def [of "Some l"] ev)
    ultimately show ?case using r(1) by blast
  qed
  then show ?thesis using that by blast
qed

text \<open>
  C36. The event log after any number of events: \<open>arwill_event_log_entry\<close> returns the
  last 64 of them, oldest first, nothing past them, and the counter of overwritten
  events is exactly the number of those no longer there (modulo 2^64).
\<close>

theorem event_log_keeps_last:
  assumes "length (lg_entries l0) = 64"
  shows "\<exists>l. foldl record_event (Some (arwill_event_log_init l0 clock)) evs = Some l \<and>
    lg_overwritten l = of_nat (length evs - 64) \<and>
    (\<forall>i. map_option event_of (arwill_event_log_entry l i) =
       (if i < min 64 (length evs) then Some (evs ! (length evs - min 64 (length evs) + i)) else None))"
proof -
  obtain l where l: "foldl record_event (Some (arwill_event_log_init l0 clock)) evs = Some l"
      "log_ok l" "map event_of (log_events l) = last_n 64 evs" "lg_overwritten l = of_nat (length evs - 64)"
    by (rule record_events [OF assms])
  have len: "lg_count l = min 64 (length evs)"
    using arg_cong [OF l(3), of length] by (simp add: log_events_def last_n_def min_def)
  have "map_option event_of (arwill_event_log_entry l i) =
       (if i < min 64 (length evs) then Some (evs ! (length evs - min 64 (length evs) + i)) else None)" for i
  proof (cases "i < min 64 (length evs)")
    case True
    have "event_of (log_events l ! i) = last_n 64 evs ! i"
      using arg_cong [OF l(3), of "\<lambda>xs. xs ! i"] True len by (simp add: log_events_def)
    moreover have "last_n 64 evs ! i = evs ! (length evs - min 64 (length evs) + i)"
      using True by (auto simp: last_n_def min_def)
    moreover have "length (lg_entries l) = 64" using l(2) by (simp add: log_ok_def ring_ok_def)
    ultimately show ?thesis
      using True len by (auto simp: arwill_event_log_entry_def log_events_def ring_list_nth)
  qed (auto simp: arwill_event_log_entry_def len)
  with l(1,4) show ?thesis by blast
qed

definition blank_log :: "unit arwill_event_log" where
  "blank_log = \<lparr>lg_clock = None,
     lg_entries = replicate 64 \<lparr>le_milliseconds = 0, le_severity = Log_info, le_subsystem = Log_system,
       le_code = Log_boot, le_argument0 = 0, le_argument1 = 0\<rparr>,
     lg_head = 0, lg_count = 0, lg_overwritten = 0\<rparr>"

theorem event_log_keeps_last_witness:
  "\<exists>l. foldl record_event (Some (arwill_event_log_init blank_log None))
      [(Log_info, Log_system, Log_boot, 1, 2), (Log_error, Log_auth, Log_auth_rejected, 3, 4)] = Some l \<and>
     map_option event_of (arwill_event_log_entry l 1) = Some (Log_error, Log_auth, Log_auth_rejected, 3, 4)"
proof -
  have "length (lg_entries blank_log) = 64" by (simp add: blank_log_def)
  from event_log_keeps_last [OF this, of None
      "[(Log_info, Log_system, Log_boot, 1, 2), (Log_error, Log_auth, Log_auth_rejected, 3, 4)]"]
  obtain l where "foldl record_event (Some (arwill_event_log_init blank_log None))
      [(Log_info, Log_system, Log_boot, 1, 2), (Log_error, Log_auth, Log_auth_rejected, 3, 4)] = Some l"
      "map_option event_of (arwill_event_log_entry l 1) = Some (Log_error, Log_auth, Log_auth_rejected, 3, 4)"
    by (auto dest!: spec [of _ 1])
  then show ?thesis by blast
qed

end
