(* ===== verification/Tcp.thy ===== *)
theory Tcp
  imports Arwill_Prelude
begin

text \<open>
  \<open>kernel/tcp.c\<close>: the state machine of one TCP connection. A segment and a
  listener are the structs of \<open>tcp.h\<close>; every function of the file is one
  definition below. The \<open>reply\<close> a function fills in is an argument and part of
  the result, with the truth value the C function returns first.
\<close>

section \<open>Data\<close>

datatype arwill_tcp_state =
    Tcp_listen | Tcp_syn_sent | Tcp_syn_received | Tcp_established | Tcp_close_wait
  | Tcp_last_ack | Tcp_fin_wait_1 | Tcp_fin_wait_2 | Tcp_closing | Tcp_time_wait

instantiation arwill_tcp_state :: enum
begin

definition
  "Enum.enum = [Tcp_listen, Tcp_syn_sent, Tcp_syn_received, Tcp_established, Tcp_close_wait,
     Tcp_last_ack, Tcp_fin_wait_1, Tcp_fin_wait_2, Tcp_closing, Tcp_time_wait]"

definition
  "Enum.enum_all P \<longleftrightarrow> P Tcp_listen \<and> P Tcp_syn_sent \<and> P Tcp_syn_received \<and> P Tcp_established \<and>
     P Tcp_close_wait \<and> P Tcp_last_ack \<and> P Tcp_fin_wait_1 \<and> P Tcp_fin_wait_2 \<and> P Tcp_closing \<and>
     P Tcp_time_wait"

definition
  "Enum.enum_ex P \<longleftrightarrow> P Tcp_listen \<or> P Tcp_syn_sent \<or> P Tcp_syn_received \<or> P Tcp_established \<or>
     P Tcp_close_wait \<or> P Tcp_last_ack \<or> P Tcp_fin_wait_1 \<or> P Tcp_fin_wait_2 \<or> P Tcp_closing \<or>
     P Tcp_time_wait"

instance
proof
  show univ: "UNIV = set (Enum.enum :: arwill_tcp_state list)"
    by (auto simp: enum_arwill_tcp_state_def intro: arwill_tcp_state.exhaust)
  show "distinct (Enum.enum :: arwill_tcp_state list)"
    by (simp add: enum_arwill_tcp_state_def)
  show "Enum.enum_all P \<longleftrightarrow> Ball UNIV P" for P :: "arwill_tcp_state \<Rightarrow> bool"
    unfolding univ by (simp add: enum_all_arwill_tcp_state_def enum_arwill_tcp_state_def)
  show "Enum.enum_ex P \<longleftrightarrow> Bex UNIV P" for P :: "arwill_tcp_state \<Rightarrow> bool"
    unfolding univ by (simp add: enum_ex_arwill_tcp_state_def enum_arwill_tcp_state_def)
qed

end

abbreviation (input) arwill_tcp_flag_fin :: u8 where "arwill_tcp_flag_fin \<equiv> 1"
abbreviation (input) arwill_tcp_flag_syn :: u8 where "arwill_tcp_flag_syn \<equiv> 2"
abbreviation (input) arwill_tcp_flag_rst :: u8 where "arwill_tcp_flag_rst \<equiv> 4"
abbreviation (input) arwill_tcp_flag_psh :: u8 where "arwill_tcp_flag_psh \<equiv> 8"
abbreviation (input) arwill_tcp_flag_ack :: u8 where "arwill_tcp_flag_ack \<equiv> 16"

record arwill_tcp_segment =
  sg_source_address :: bytes
  sg_destination_address :: bytes
  sg_source_port :: u16
  sg_destination_port :: u16
  sg_sequence :: u32
  sg_acknowledgement :: u32
  sg_flags :: u8
  sg_window :: u16
  sg_maximum_segment_size :: u16
  sg_payload_length :: nat

record arwill_tcp_listener =
  ln_port :: u16
  ln_peer_port :: u16
  ln_local_address :: bytes
  ln_peer_address :: bytes
  ln_sequence :: u32
  ln_acknowledgement :: u32
  ln_peer_window :: u16
  ln_peer_maximum_segment_size :: u16
  ln_state :: arwill_tcp_state

section \<open>Operations\<close>

definition copy_address :: "bytes \<Rightarrow> bytes" where
  "copy_address source = take 4 source"

definition same_address :: "bytes \<Rightarrow> bytes \<Rightarrow> bool" where
  "same_address left right = list_all (\<lambda>index. left ! index = right ! index) [0..<4]"

definition arwill_tcp_sequence_before :: "u32 \<Rightarrow> u32 \<Rightarrow> bool" where
  "arwill_tcp_sequence_before left right \<longleftrightarrow> left \<noteq> right \<and> left - right > 0x80000000"

definition arwill_tcp_sequence_after :: "u32 \<Rightarrow> u32 \<Rightarrow> bool" where
  "arwill_tcp_sequence_after left right = arwill_tcp_sequence_before right left"

definition prepare_reply :: "arwill_tcp_segment \<Rightarrow> arwill_tcp_segment \<Rightarrow> arwill_tcp_segment" where
  "prepare_reply incoming reply =
     reply\<lparr>sg_source_address := copy_address (sg_destination_address incoming),
       sg_destination_address := copy_address (sg_source_address incoming),
       sg_source_port := sg_destination_port incoming,
       sg_destination_port := sg_source_port incoming,
       sg_sequence := 0, sg_acknowledgement := 0, sg_flags := 0, sg_window := 0,
       sg_maximum_segment_size := 0, sg_payload_length := 0\<rparr>"

definition arwill_tcp_listener_init :: "arwill_tcp_listener \<Rightarrow> u16 \<Rightarrow> u32 \<Rightarrow> arwill_tcp_listener" where
  "arwill_tcp_listener_init listener port initial_sequence =
     listener\<lparr>ln_port := port, ln_peer_port := 0,
       ln_local_address := [0, 0, 0, 0], ln_peer_address := [0, 0, 0, 0],
       ln_sequence := initial_sequence, ln_acknowledgement := 0, ln_peer_window := 0,
       ln_peer_maximum_segment_size := 536, ln_state := Tcp_listen\<rparr>"

definition arwill_tcp_listener_connected :: "arwill_tcp_listener \<Rightarrow> bool" where
  "arwill_tcp_listener_connected listener \<longleftrightarrow>
     ln_state listener = Tcp_established \<or> ln_state listener = Tcp_close_wait"

definition arwill_tcp_listener_matches :: "arwill_tcp_listener \<Rightarrow> arwill_tcp_segment \<Rightarrow> bool" where
  "arwill_tcp_listener_matches listener segment =
     (if sg_destination_port segment \<noteq> ln_port listener then False
      else if ln_state listener = Tcp_listen then True
      else sg_source_port segment = ln_peer_port listener \<and>
           same_address (sg_destination_address segment) (ln_local_address listener) \<and>
           same_address (sg_source_address segment) (ln_peer_address listener))"

definition acknowledgement_covers :: "arwill_tcp_listener \<Rightarrow> u32 \<Rightarrow> bool" where
  "acknowledgement_covers listener acknowledgement \<longleftrightarrow>
     acknowledgement = ln_sequence listener \<or>
     arwill_tcp_sequence_after acknowledgement (ln_sequence listener)"

definition arwill_tcp_listener_reset :: "arwill_tcp_listener \<Rightarrow> u32 \<Rightarrow> arwill_tcp_listener" where
  "arwill_tcp_listener_reset listener initial_sequence =
     arwill_tcp_listener_init listener (ln_port listener) initial_sequence"

definition arwill_tcp_listener_connect ::
    "arwill_tcp_listener \<Rightarrow> bytes \<Rightarrow> u16 \<Rightarrow> bytes \<Rightarrow> u16 \<Rightarrow> u32 \<Rightarrow> arwill_tcp_segment \<Rightarrow>
     bool \<times> arwill_tcp_listener \<times> arwill_tcp_segment" where
  "arwill_tcp_listener_connect listener local_address local_port peer_address peer_port
       initial_sequence syn =
     (if local_port = 0 \<or> peer_port = 0 then (False, listener, syn)
      else
        (True,
         (arwill_tcp_listener_init listener local_port initial_sequence)
           \<lparr>ln_local_address := copy_address local_address,
            ln_peer_address := copy_address peer_address,
            ln_peer_port := peer_port, ln_state := Tcp_syn_sent\<rparr>,
         syn\<lparr>sg_source_address := copy_address local_address,
           sg_destination_address := copy_address peer_address,
           sg_source_port := local_port, sg_destination_port := peer_port,
           sg_sequence := initial_sequence, sg_acknowledgement := 0,
           sg_flags := arwill_tcp_flag_syn, sg_window := 0, sg_maximum_segment_size := 0,
           sg_payload_length := 0\<rparr>))"

text \<open>The reply that carries the listener's own numbers, as each branch fills it in.\<close>

definition reply_with :: "arwill_tcp_listener \<Rightarrow> u8 \<Rightarrow> arwill_tcp_segment \<Rightarrow> arwill_tcp_segment" where
  "reply_with listener flags reply =
     reply\<lparr>sg_sequence := ln_sequence listener, sg_acknowledgement := ln_acknowledgement listener,
       sg_flags := flags\<rparr>"

definition take_segment_size :: "arwill_tcp_segment \<Rightarrow> arwill_tcp_listener \<Rightarrow> arwill_tcp_listener" where
  "take_segment_size incoming listener =
     (if sg_maximum_segment_size incoming \<noteq> 0
      then listener\<lparr>ln_peer_maximum_segment_size := sg_maximum_segment_size incoming\<rparr>
      else listener)"

text \<open>
  The body of \<open>arwill_tcp_listener_receive\<close> after the guard: the branches in the
  order of the source, each with its own condition on the state.
\<close>

definition receive_handshake ::
    "arwill_tcp_listener \<Rightarrow> arwill_tcp_segment \<Rightarrow> arwill_tcp_segment \<Rightarrow>
     (bool \<times> arwill_tcp_listener \<times> arwill_tcp_segment) option" where
  "receive_handshake listener incoming reply =
     (if ln_state listener = Tcp_syn_sent \<and>
         sg_flags incoming AND (arwill_tcp_flag_syn OR arwill_tcp_flag_ack) =
           (arwill_tcp_flag_syn OR arwill_tcp_flag_ack) \<and>
         sg_acknowledgement incoming = ln_sequence listener + 1 then
        (let listener = take_segment_size incoming
               (listener\<lparr>ln_sequence := ln_sequence listener + 1,
                  ln_acknowledgement := sg_sequence incoming + 1,
                  ln_peer_window := sg_window incoming\<rparr>)
         in Some (True, listener\<lparr>ln_state := Tcp_established\<rparr>,
                  reply_with listener arwill_tcp_flag_ack reply))
      else if ln_state listener = Tcp_listen \<and> sg_flags incoming AND arwill_tcp_flag_syn \<noteq> 0 then
        (let listener = (take_segment_size incoming
               (listener\<lparr>ln_local_address := copy_address (sg_destination_address incoming),
                  ln_peer_address := copy_address (sg_source_address incoming),
                  ln_peer_port := sg_source_port incoming\<rparr>))
               \<lparr>ln_acknowledgement := sg_sequence incoming + 1\<rparr>
         in Some (True, listener\<lparr>ln_state := Tcp_syn_received\<rparr>,
                  reply_with listener (arwill_tcp_flag_syn OR arwill_tcp_flag_ack) reply))
      else if ln_state listener = Tcp_syn_received \<and>
         sg_source_port incoming = ln_peer_port listener \<and>
         sg_flags incoming AND arwill_tcp_flag_syn \<noteq> 0 \<and>
         sg_sequence incoming + 1 = ln_acknowledgement listener then
        Some (True, listener, reply_with listener (arwill_tcp_flag_syn OR arwill_tcp_flag_ack) reply)
      else if ln_state listener = Tcp_syn_received \<and>
         sg_source_port incoming = ln_peer_port listener \<and>
         sg_flags incoming AND arwill_tcp_flag_ack \<noteq> 0 \<and>
         sg_acknowledgement incoming = ln_sequence listener + 1 then
        Some (True, listener\<lparr>ln_sequence := ln_sequence listener + 1,
                             ln_state := Tcp_established\<rparr>, reply)
      else None)"

definition receive_data ::
    "arwill_tcp_listener \<Rightarrow> arwill_tcp_segment \<Rightarrow> arwill_tcp_segment \<Rightarrow>
     (bool \<times> arwill_tcp_listener \<times> arwill_tcp_segment) option" where
  "receive_data listener incoming reply =
     (if ln_state listener = Tcp_established \<and>
         sg_source_port incoming = ln_peer_port listener \<and>
         sg_flags incoming AND arwill_tcp_flag_ack \<noteq> 0 \<and>
         \<not> arwill_tcp_sequence_after (sg_acknowledgement incoming) (ln_sequence listener) \<and>
         sg_sequence incoming = ln_acknowledgement listener then
        (let fin = (sg_flags incoming AND arwill_tcp_flag_fin \<noteq> 0);
             consumed = sg_payload_length incoming + (if fin then 1 else 0)
         in if consumed > 4294967295 then Some (False, listener, reply)
            else
              (let l = (if consumed \<noteq> 0
                        then listener\<lparr>ln_acknowledgement :=
                               ln_acknowledgement listener + of_nat consumed\<rparr>
                        else listener);
                   r = (if consumed \<noteq> 0 then reply_with l arwill_tcp_flag_ack reply else reply)
               in Some (True, (if fin then l\<lparr>ln_state := Tcp_close_wait\<rparr> else l), r)))
      else if ln_state listener = Tcp_established \<and>
         sg_source_port incoming = ln_peer_port listener \<and>
         sg_flags incoming AND arwill_tcp_flag_ack \<noteq> 0 \<and>
         \<not> arwill_tcp_sequence_after (sg_acknowledgement incoming) (ln_sequence listener) \<and>
         sg_sequence incoming \<noteq> ln_acknowledgement listener then
        Some (True, listener, reply_with listener arwill_tcp_flag_ack reply)
      else None)"

definition receive_closing ::
    "arwill_tcp_listener \<Rightarrow> arwill_tcp_segment \<Rightarrow> arwill_tcp_segment \<Rightarrow>
     bool \<times> arwill_tcp_listener \<times> arwill_tcp_segment" where
  "receive_closing listener incoming reply =
     (let ack = (sg_flags incoming AND arwill_tcp_flag_ack \<noteq> 0);
          fin = (sg_flags incoming AND arwill_tcp_flag_fin \<noteq> 0);
          covered = (ack \<and> acknowledgement_covers listener (sg_acknowledgement incoming));
          finished = (fin \<and> sg_sequence incoming = ln_acknowledgement listener);
          past_fin = listener\<lparr>ln_acknowledgement := ln_acknowledgement listener + 1\<rparr>
      in if ln_state listener = Tcp_close_wait \<and> ack \<and>
            \<not> arwill_tcp_sequence_after (sg_acknowledgement incoming) (ln_sequence listener) then
           (True, listener, reply)
         else if ln_state listener = Tcp_last_ack \<and> covered then
           (True, arwill_tcp_listener_reset listener (ln_sequence listener), reply)
         else if ln_state listener = Tcp_fin_wait_1 \<and> finished then
           (True, past_fin\<lparr>ln_state := (if covered then Tcp_time_wait else Tcp_closing)\<rparr>,
            reply_with past_fin arwill_tcp_flag_ack reply)
         else if ln_state listener = Tcp_fin_wait_1 \<and> covered then
           (True, listener\<lparr>ln_state := Tcp_fin_wait_2\<rparr>, reply)
         else if ln_state listener = Tcp_fin_wait_2 \<and> finished then
           (True, past_fin\<lparr>ln_state := Tcp_time_wait\<rparr>, reply_with past_fin arwill_tcp_flag_ack reply)
         else if ln_state listener = Tcp_closing \<and> covered then
           (True, listener\<lparr>ln_state := Tcp_time_wait\<rparr>, reply)
         else if ln_state listener = Tcp_time_wait \<and> fin then
           (True, listener, reply_with listener arwill_tcp_flag_ack reply)
         else (False, listener, reply))"

definition arwill_tcp_listener_receive ::
    "arwill_tcp_listener \<Rightarrow> arwill_tcp_segment \<Rightarrow> arwill_tcp_segment \<Rightarrow>
     bool \<times> arwill_tcp_listener \<times> arwill_tcp_segment" where
  "arwill_tcp_listener_receive listener incoming reply =
     (if \<not> arwill_tcp_listener_matches listener incoming then (False, listener, reply)
      else
        (let reply = prepare_reply incoming reply;
             listener = listener\<lparr>ln_peer_window := sg_window incoming\<rparr>
         in if sg_flags incoming AND arwill_tcp_flag_rst \<noteq> 0 then
              (if ln_state listener \<noteq> Tcp_listen
               then (True, arwill_tcp_listener_reset listener (ln_sequence listener), reply)
               else (False, listener, reply))
            else
              (case receive_handshake listener incoming reply of
                 Some result \<Rightarrow> result
               | None \<Rightarrow>
                   (case receive_data listener incoming reply of
                      Some result \<Rightarrow> result
                    | None \<Rightarrow> receive_closing listener incoming reply))))"

definition arwill_tcp_listener_begin_close ::
    "arwill_tcp_listener \<Rightarrow> arwill_tcp_segment \<Rightarrow> bool \<times> arwill_tcp_listener \<times> arwill_tcp_segment" where
  "arwill_tcp_listener_begin_close listener segment =
     (if ln_state listener \<noteq> Tcp_established \<and> ln_state listener \<noteq> Tcp_close_wait
      then (False, listener, segment)
      else
        (True,
         listener\<lparr>ln_sequence := ln_sequence listener + 1,
           ln_state := (if ln_state listener = Tcp_close_wait then Tcp_last_ack else Tcp_fin_wait_1)\<rparr>,
         segment\<lparr>sg_source_address := copy_address (ln_local_address listener),
           sg_destination_address := copy_address (ln_peer_address listener),
           sg_source_port := ln_port listener, sg_destination_port := ln_peer_port listener,
           sg_sequence := ln_sequence listener, sg_acknowledgement := ln_acknowledgement listener,
           sg_flags := arwill_tcp_flag_fin OR arwill_tcp_flag_ack, sg_window := 0,
           sg_maximum_segment_size := 0, sg_payload_length := 0\<rparr>))"

fun arwill_tcp_state_name :: "arwill_tcp_state \<Rightarrow> bytes" where
  "arwill_tcp_state_name Tcp_listen = bytes_of ''listen''"
| "arwill_tcp_state_name Tcp_syn_sent = bytes_of ''syn-sent''"
| "arwill_tcp_state_name Tcp_syn_received = bytes_of ''syn-received''"
| "arwill_tcp_state_name Tcp_established = bytes_of ''established''"
| "arwill_tcp_state_name Tcp_close_wait = bytes_of ''close-wait''"
| "arwill_tcp_state_name Tcp_last_ack = bytes_of ''last-ack''"
| "arwill_tcp_state_name Tcp_fin_wait_1 = bytes_of ''fin-wait-1''"
| "arwill_tcp_state_name Tcp_fin_wait_2 = bytes_of ''fin-wait-2''"
| "arwill_tcp_state_name Tcp_closing = bytes_of ''closing''"
| "arwill_tcp_state_name Tcp_time_wait = bytes_of ''time-wait''"

end
