(* ===== verification/Tcp_Machine.thy ===== *)
theory Tcp_Machine
  imports Tcp
begin

text \<open>
  The connection state machine of \<open>kernel/tcp.c\<close> as a step relation, its state
  diagram, and two listeners talking to each other. The order of sequence
  numbers is shown to be the circular one of half the number space.
\<close>

section \<open>Sequence numbers\<close>

lemma uint_range_32: "d \<noteq> 0 \<Longrightarrow> 0 < uint (d :: u32) \<and> uint d < 4294967296"
  using uint_lt2p [of d] word_less_def [of 0 d] by (simp add: word_neq_0_conv)

lemma uint_minus_32: "d \<noteq> 0 \<Longrightarrow> uint (- d :: u32) = 4294967296 - uint d"
  using uint_range_32 [of d] by (simp add: uint_word_ariths(4) zmod_zminus1_eq_if)

lemma sequence_before_offset:
  "arwill_tcp_sequence_before a (a + d) \<longleftrightarrow> 0 < d \<and> d < 0x80000000"
proof (cases "d = 0")
  case False
  then show ?thesis
    by (auto simp: arwill_tcp_sequence_before_def word_less_def uint_minus_32 word_neq_0_conv)
qed (simp add: arwill_tcp_sequence_before_def)

lemma sequence_before_diff:
  "arwill_tcp_sequence_before a b \<longleftrightarrow> 0 < b - a \<and> b - a < 0x80000000"
  using sequence_before_offset [of a "b - a"] by simp

lemma sequence_before_asym: "arwill_tcp_sequence_before a b \<Longrightarrow> \<not> arwill_tcp_sequence_before b a"
proof -
  assume "arwill_tcp_sequence_before a b"
  then have d: "0 < b - a" "b - a < 0x80000000" by (simp_all add: sequence_before_diff)
  then have "uint (- (b - a)) = 4294967296 - uint (b - a)" by (intro uint_minus_32) auto
  then show ?thesis using d(2) unfolding sequence_before_diff by (simp add: word_less_def)
qed

lemma sequence_trichotomy:
  "a = b \<or> arwill_tcp_sequence_before a b \<or> arwill_tcp_sequence_before b a \<or> b - a = 0x80000000"
proof (cases "b - a = 0")
  case False
  then have "uint (- (b - a)) = 4294967296 - uint (b - a)" and "0 < uint (b - a)"
    and "uint (b - a) < 4294967296"
    using uint_minus_32 [of "b - a"] uint_range_32 [of "b - a"] by simp_all
  then show ?thesis
    unfolding sequence_before_diff by (auto simp: word_less_def word_uint_eq_iff [of "b - a"])
qed simp

section \<open>The state diagram\<close>

text \<open>The edges a received segment may take, then those of the local operations.\<close>

fun receive_edge :: "arwill_tcp_state \<Rightarrow> arwill_tcp_state \<Rightarrow> bool" where
  "receive_edge Tcp_listen s' \<longleftrightarrow> s' \<in> {Tcp_listen, Tcp_syn_received}"
| "receive_edge Tcp_syn_sent s' \<longleftrightarrow> s' \<in> {Tcp_syn_sent, Tcp_established, Tcp_listen}"
| "receive_edge Tcp_syn_received s' \<longleftrightarrow> s' \<in> {Tcp_syn_received, Tcp_established, Tcp_listen}"
| "receive_edge Tcp_established s' \<longleftrightarrow> s' \<in> {Tcp_established, Tcp_close_wait, Tcp_listen}"
| "receive_edge Tcp_close_wait s' \<longleftrightarrow> s' \<in> {Tcp_close_wait, Tcp_listen}"
| "receive_edge Tcp_last_ack s' \<longleftrightarrow> s' \<in> {Tcp_last_ack, Tcp_listen}"
| "receive_edge Tcp_fin_wait_1 s' \<longleftrightarrow>
     s' \<in> {Tcp_fin_wait_1, Tcp_fin_wait_2, Tcp_closing, Tcp_time_wait, Tcp_listen}"
| "receive_edge Tcp_fin_wait_2 s' \<longleftrightarrow> s' \<in> {Tcp_fin_wait_2, Tcp_time_wait, Tcp_listen}"
| "receive_edge Tcp_closing s' \<longleftrightarrow> s' \<in> {Tcp_closing, Tcp_time_wait, Tcp_listen}"
| "receive_edge Tcp_time_wait s' \<longleftrightarrow> s' \<in> {Tcp_time_wait, Tcp_listen}"

fun close_edge :: "arwill_tcp_state \<Rightarrow> arwill_tcp_state \<Rightarrow> bool" where
  "close_edge Tcp_established s' \<longleftrightarrow> s' = Tcp_fin_wait_1"
| "close_edge Tcp_close_wait s' \<longleftrightarrow> s' = Tcp_last_ack"
| "close_edge s s' \<longleftrightarrow> s' = s"

definition same_tuple :: "arwill_tcp_listener \<Rightarrow> arwill_tcp_listener \<Rightarrow> bool" where
  "same_tuple l l' \<longleftrightarrow>
     ln_port l' = ln_port l \<and> ln_peer_port l' = ln_peer_port l \<and>
     ln_local_address l' = ln_local_address l \<and> ln_peer_address l' = ln_peer_address l"

lemma same_tuple_refl [simp]: "same_tuple l l"
  by (simp add: same_tuple_def)

text \<open>The bytes of the sequence space a segment with data and \<open>FIN\<close> uses.\<close>

definition segment_space :: "arwill_tcp_segment \<Rightarrow> nat" where
  "segment_space seg =
     sg_payload_length seg + (if sg_flags seg AND arwill_tcp_flag_fin \<noteq> 0 then 1 else 0)"

lemmas receive_defs =
  arwill_tcp_listener_receive_def receive_handshake_def receive_data_def receive_closing_def
  arwill_tcp_listener_reset_def arwill_tcp_listener_init_def take_segment_size_def Let_def

lemma receive_state_edge:
  assumes "arwill_tcp_listener_receive l seg r = (b, l', r')"
  shows "receive_edge (ln_state l) (ln_state l')"
  using assms by (cases "ln_state l") (auto simp: receive_defs split: if_splits)

lemma receive_port:
  assumes "arwill_tcp_listener_receive l seg r = (b, l', r')"
  shows "ln_port l' = ln_port l"
  using assms by (cases "ln_state l") (auto simp: receive_defs split: if_splits)

lemma receive_same_tuple:
  assumes "arwill_tcp_listener_receive l seg r = (b, l', r')"
    and "ln_state l \<noteq> Tcp_listen" and "ln_state l' \<noteq> Tcp_listen"
  shows "same_tuple l l'"
  using assms by (cases "ln_state l") (auto simp: receive_defs same_tuple_def split: if_splits)

lemma receive_reply_numbers:
  assumes "arwill_tcp_listener_receive l seg r = (True, l', r')" and "sg_flags r' \<noteq> 0"
  shows "sg_sequence r' = ln_sequence l' \<and> sg_acknowledgement r' = ln_acknowledgement l' \<and>
         sg_payload_length r' = 0"
  using assms
  by (cases "ln_state l") (auto simp: receive_defs prepare_reply_def reply_with_def split: if_splits)

lemma receive_acknowledgement:
  assumes "arwill_tcp_listener_receive l seg r = (b, l', r')"
    and "ln_state l \<notin> {Tcp_listen, Tcp_syn_sent}" and "ln_state l' \<noteq> Tcp_listen"
  shows "ln_acknowledgement l' = ln_acknowledgement l \<or>
         (sg_sequence seg = ln_acknowledgement l \<and>
          (if ln_state l = Tcp_established
           then ln_acknowledgement l' = ln_acknowledgement l + of_nat (segment_space seg)
           else ln_acknowledgement l' = ln_acknowledgement l + 1))"
  using assms
  by (cases "ln_state l") (auto simp: receive_defs segment_space_def split: if_splits)

lemma receive_rejected:
  assumes "arwill_tcp_listener_receive l seg r = (False, l', r')"
  shows "l' = l \<or> l' = l\<lparr>ln_peer_window := sg_window seg\<rparr>"
  using assms by (cases "ln_state l") (auto simp: receive_defs split: if_splits)

lemma receive_sequence:
  assumes "arwill_tcp_listener_receive l seg r = (b, l', r')"
  shows "ln_sequence l' = ln_sequence l \<or>
    (ln_sequence l' = ln_sequence l + 1 \<and> sg_acknowledgement seg = ln_sequence l + 1 \<and>
     ln_state l \<in> {Tcp_syn_sent, Tcp_syn_received} \<and> ln_state l' = Tcp_established)"
  using assms by (cases "ln_state l") (auto simp: receive_defs split: if_splits)

lemma begin_close_edge:
  assumes "arwill_tcp_listener_begin_close l seg = (b, l', seg')"
  shows "close_edge (ln_state l) (ln_state l') \<and> same_tuple l l' \<and> b = arwill_tcp_listener_connected l"
  using assms
  by (cases "ln_state l")
    (auto simp: arwill_tcp_listener_begin_close_def same_tuple_def arwill_tcp_listener_connected_def)

section \<open>The step relation and its invariant\<close>

text \<open>
  A listener changes by the functions of \<open>tcp.c\<close> and by the transmission of data
  in \<open>flush_stream_transmit\<close>, which advances the sequence number.
\<close>

inductive tcp_step :: "arwill_tcp_listener \<Rightarrow> arwill_tcp_listener \<Rightarrow> bool" where
  init: "tcp_step l (arwill_tcp_listener_init l port iss)"
| reset: "tcp_step l (arwill_tcp_listener_reset l iss)"
| connect: "arwill_tcp_listener_connect l la lp pa pp iss syn = (True, l', syn') \<Longrightarrow> tcp_step l l'"
| receive: "arwill_tcp_listener_receive l seg r = (b, l', r') \<Longrightarrow> tcp_step l l'"
| begin_close: "arwill_tcp_listener_begin_close l seg = (True, l', seg') \<Longrightarrow> tcp_step l l'"
| transmit: "arwill_tcp_listener_connected l \<Longrightarrow>
    tcp_step l (l\<lparr>ln_sequence := ln_sequence l + of_nat n, ln_peer_window := ln_peer_window l - of_nat n\<rparr>)"

inductive tcp_reachable :: "arwill_tcp_listener \<Rightarrow> bool" where
  start: "tcp_reachable (arwill_tcp_listener_init l port iss)"
| step: "tcp_reachable l \<Longrightarrow> tcp_step l l' \<Longrightarrow> tcp_reachable l'"

inductive_cases tcp_stepE: "tcp_step l l'"

text \<open>
  A listener waiting for a connection keeps nothing of an earlier one, and the
  segment size a peer announced is never zero.
\<close>

definition listener_ok :: "arwill_tcp_listener \<Rightarrow> bool" where
  "listener_ok l \<longleftrightarrow>
     ln_peer_maximum_segment_size l \<noteq> 0 \<and>
     (ln_state l = Tcp_listen \<longrightarrow>
        ln_peer_port l = 0 \<and> ln_peer_address l = [0, 0, 0, 0] \<and> ln_local_address l = [0, 0, 0, 0] \<and>
        ln_acknowledgement l = 0 \<and> ln_peer_maximum_segment_size l = 536) \<and>
     length (ln_local_address l) \<le> 4 \<and> length (ln_peer_address l) \<le> 4"

lemma init_listener_ok: "listener_ok (arwill_tcp_listener_init l port iss)"
  by (simp add: listener_ok_def arwill_tcp_listener_init_def)

lemma receive_listener_ok:
  assumes "arwill_tcp_listener_receive l seg r = (b, l', r')" and "listener_ok l"
  shows "listener_ok l'"
  using assms
  by (cases "ln_state l") (auto simp: receive_defs listener_ok_def copy_address_def split: if_splits)

lemma step_listener_ok: "tcp_step l l' \<Longrightarrow> listener_ok l \<Longrightarrow> listener_ok l'"
proof (induction rule: tcp_step.induct)
  case (receive l seg r b l' r')
  then show ?case by (rule receive_listener_ok)
next
  case (connect l la lp pa pp iss syn l' syn')
  then show ?case
    by (auto simp: arwill_tcp_listener_connect_def arwill_tcp_listener_init_def listener_ok_def
        copy_address_def split: if_splits)
next
  case (begin_close l seg l' seg')
  then show ?case
    by (auto simp: arwill_tcp_listener_begin_close_def listener_ok_def split: if_splits)
qed (auto simp: arwill_tcp_listener_reset_def arwill_tcp_listener_init_def listener_ok_def
      arwill_tcp_listener_connected_def)

lemma reachable_listener_ok: "tcp_reachable l \<Longrightarrow> listener_ok l"
  by (induction rule: tcp_reachable.induct) (auto intro: step_listener_ok simp: init_listener_ok)

section \<open>Two listeners\<close>

text \<open>
  Two listeners that hold the two ends of one connection: mirrored tuples, and
  each expects exactly the number the other sends next.
\<close>

definition peers :: "arwill_tcp_listener \<Rightarrow> arwill_tcp_listener \<Rightarrow> bool" where
  "peers c s \<longleftrightarrow>
     ln_port c = ln_peer_port s \<and> ln_port s = ln_peer_port c \<and>
     ln_local_address c = ln_peer_address s \<and> ln_local_address s = ln_peer_address c \<and>
     length (ln_local_address c) \<le> 4 \<and> length (ln_local_address s) \<le> 4 \<and>
     ln_sequence c = ln_acknowledgement s \<and> ln_sequence s = ln_acknowledgement c"

text \<open>
  On the way from one stack to the other \<open>send_tcp_segment\<close> fills in the window and
  the announced segment size; the rest of the segment arrives as it was sent.
\<close>

definition on_wire :: "u16 \<Rightarrow> u16 \<Rightarrow> arwill_tcp_segment \<Rightarrow> arwill_tcp_segment" where
  "on_wire w m seg = seg\<lparr>sg_window := w, sg_maximum_segment_size := m\<rparr>"

lemma on_wire_fields [simp]:
  "sg_source_address (on_wire w m seg) = sg_source_address seg"
  "sg_destination_address (on_wire w m seg) = sg_destination_address seg"
  "sg_source_port (on_wire w m seg) = sg_source_port seg"
  "sg_destination_port (on_wire w m seg) = sg_destination_port seg"
  "sg_sequence (on_wire w m seg) = sg_sequence seg"
  "sg_acknowledgement (on_wire w m seg) = sg_acknowledgement seg"
  "sg_flags (on_wire w m seg) = sg_flags seg"
  "sg_payload_length (on_wire w m seg) = sg_payload_length seg"
  by (simp_all add: on_wire_def)

lemma same_address_refl [simp]: "same_address a a"
  by (simp add: same_address_def list_all_iff)

lemma copy_address_idem [simp]: "copy_address (copy_address a) = copy_address a"
  by (simp add: copy_address_def)

lemma copy_address_short: "length a \<le> 4 \<Longrightarrow> copy_address a = a"
  by (simp add: copy_address_def)

lemma length_copy_address [simp]: "length (copy_address a) \<le> 4"
  by (simp add: copy_address_def)

lemma not_after_self [simp]: "\<not> arwill_tcp_sequence_after a a"
  by (simp add: arwill_tcp_sequence_after_def arwill_tcp_sequence_before_def)

definition reply_route :: "arwill_tcp_segment \<Rightarrow> arwill_tcp_segment \<Rightarrow> bool" where
  "reply_route seg r \<longleftrightarrow>
     sg_source_address r = copy_address (sg_destination_address seg) \<and>
     sg_destination_address r = copy_address (sg_source_address seg) \<and>
     sg_source_port r = sg_destination_port seg \<and> sg_destination_port r = sg_source_port seg \<and>
     sg_payload_length r = 0"

lemma receive_reply_route:
  assumes "arwill_tcp_listener_receive l seg r = (True, l', r')"
  shows "reply_route seg r'"
  using assms
  by (cases "ln_state l")
    (auto simp: receive_defs prepare_reply_def reply_with_def reply_route_def split: if_splits)

lemma receive_syn:
  assumes "arwill_tcp_listener_receive l seg r = (b, l', r')"
    and "ln_state l = Tcp_listen" "sg_destination_port seg = ln_port l" "sg_flags seg = 2"
  shows "b" "ln_state l' = Tcp_syn_received" "ln_port l' = ln_port l"
    "ln_peer_port l' = sg_source_port seg"
    "ln_local_address l' = copy_address (sg_destination_address seg)"
    "ln_peer_address l' = copy_address (sg_source_address seg)"
    "ln_sequence l' = ln_sequence l" "ln_acknowledgement l' = sg_sequence seg + 1"
    "sg_flags r' = 18"
  using assms
  by (auto simp: receive_defs prepare_reply_def reply_with_def arwill_tcp_listener_matches_def
      split: if_splits)

lemma receive_syn_ack:
  assumes "arwill_tcp_listener_receive l seg r = (b, l', r')"
    and "arwill_tcp_listener_matches l seg"
    and "ln_state l = Tcp_syn_sent" "sg_flags seg = 18" "sg_acknowledgement seg = ln_sequence l + 1"
  shows "b" "ln_state l' = Tcp_established" "ln_sequence l' = ln_sequence l + 1"
    "ln_acknowledgement l' = sg_sequence seg + 1" "sg_flags r' = 16"
  using assms
  by (auto simp: receive_defs prepare_reply_def reply_with_def split: if_splits)

lemma receive_handshake_ack:
  assumes "arwill_tcp_listener_receive l seg r = (b, l', r')"
    and "arwill_tcp_listener_matches l seg"
    and "ln_state l = Tcp_syn_received" "sg_flags seg = 16" "sg_acknowledgement seg = ln_sequence l + 1"
  shows "b" "ln_state l' = Tcp_established" "ln_sequence l' = ln_sequence l + 1"
    "ln_acknowledgement l' = ln_acknowledgement l"
  using assms by (auto simp: receive_defs arwill_tcp_listener_matches_def split: if_splits)

text \<open>The three segments of an opening, to a listener that waits on the peer's port.\<close>

lemma open_exchange:
  assumes connect: "arwill_tcp_listener_connect c0 la lp pa pp iss r0 = (True, c1, syn)"
    and s0: "ln_state s0 = Tcp_listen" "ln_port s0 = pp"
    and s1: "arwill_tcp_listener_receive s0 (on_wire w1 m1 syn) r1 = (b1, s1, synack)"
    and c2: "arwill_tcp_listener_receive c1 (on_wire w2 m2 synack) r2 = (b2, c2, ack)"
    and s2: "arwill_tcp_listener_receive s1 (on_wire w3 m3 ack) r3 = (b3, s2, rest)"
  shows "b1 \<and> b2 \<and> b3 \<and> ln_state c2 = Tcp_established \<and> ln_state s2 = Tcp_established \<and>
     peers c2 s2 \<and> ln_sequence c2 = iss + 1 \<and> ln_sequence s2 = ln_sequence s0 + 1"
proof -
  have syn: "sg_flags syn = 2" "sg_sequence syn = iss" "sg_destination_port syn = pp"
      "sg_source_port syn = lp" "sg_source_address syn = copy_address la"
      "sg_destination_address syn = copy_address pa"
    and c1: "ln_state c1 = Tcp_syn_sent" "ln_sequence c1 = iss" "ln_port c1 = lp" "ln_peer_port c1 = pp"
      "ln_local_address c1 = copy_address la" "ln_peer_address c1 = copy_address pa"
    using connect
    by (auto simp: arwill_tcp_listener_connect_def arwill_tcp_listener_init_def split: if_splits)
  note f1 = receive_syn [OF s1 s0(1), simplified syn s0 on_wire_fields, OF refl refl]
  have r1: "reply_route syn synack" "sg_sequence synack = ln_sequence s0"
      "sg_acknowledgement synack = iss + 1"
    using s1 f1 receive_reply_route [of s0 _ r1 s1 synack] receive_reply_numbers [of s0 _ r1 s1 synack]
    by (auto simp: reply_route_def)
  have m1: "arwill_tcp_listener_matches c1 (on_wire w2 m2 synack)"
    using r1 syn c1 by (simp add: arwill_tcp_listener_matches_def reply_route_def)
  note f2 = receive_syn_ack [OF c2 m1 c1(1), simplified r1 c1 f1 on_wire_fields, OF refl refl]
  have r2: "reply_route synack ack" "sg_sequence ack = iss + 1"
      "sg_acknowledgement ack = ln_sequence s0 + 1"
    using c2 f2 receive_reply_route [of c1 _ r2 c2 ack] receive_reply_numbers [of c1 _ r2 c2 ack]
    by (auto simp: reply_route_def)
  have m2: "arwill_tcp_listener_matches s1 (on_wire w3 m3 ack)"
    using r1 r2 f1 syn s0 by (simp add: arwill_tcp_listener_matches_def reply_route_def)
  note f3 = receive_handshake_ack [OF s2 m2 f1(2), simplified r2 f1 f2 on_wire_fields, OF refl refl]
  have "same_tuple c1 c2" and "same_tuple s1 s2"
    using receive_same_tuple [OF c2] receive_same_tuple [OF s2] c1 f1 f2 f3 by simp_all
  then show ?thesis
    using f1 f2 f3 syn c1 s0 by (simp add: peers_def same_tuple_def)
qed

lemma receive_in_order:
  assumes "arwill_tcp_listener_receive l seg r = (b, l', r')"
    and "arwill_tcp_listener_matches l seg" "ln_state l = Tcp_established"
    and "sg_flags seg AND 4 = 0" "sg_flags seg AND 16 \<noteq> 0"
    and "\<not> arwill_tcp_sequence_after (sg_acknowledgement seg) (ln_sequence l)"
    and "sg_sequence seg = ln_acknowledgement l" "segment_space seg \<le> 4294967295"
  shows "b" "ln_acknowledgement l' = ln_acknowledgement l + of_nat (segment_space seg)"
    "ln_sequence l' = ln_sequence l"
    "ln_state l' = (if sg_flags seg AND 1 \<noteq> 0 then Tcp_close_wait else Tcp_established)"
    "segment_space seg \<noteq> 0 \<Longrightarrow> sg_flags r' = 16"
  using assms
  by (auto simp: receive_defs segment_space_def arwill_tcp_listener_matches_def reply_with_def
      split: if_splits)

lemma receive_ack_fin_wait_1:
  assumes "arwill_tcp_listener_receive l seg r = (b, l', r')"
    and "arwill_tcp_listener_matches l seg" "ln_state l = Tcp_fin_wait_1" "sg_flags seg = 16"
    and "sg_acknowledgement seg = ln_sequence l"
  shows "b" "ln_state l' = Tcp_fin_wait_2" "ln_sequence l' = ln_sequence l"
    "ln_acknowledgement l' = ln_acknowledgement l"
  using assms by (auto simp: receive_defs acknowledgement_covers_def)

lemma receive_fin_fin_wait_2:
  assumes "arwill_tcp_listener_receive l seg r = (b, l', r')"
    and "arwill_tcp_listener_matches l seg" "ln_state l = Tcp_fin_wait_2" "sg_flags seg = 17"
    and "sg_sequence seg = ln_acknowledgement l"
  shows "b" "ln_state l' = Tcp_time_wait" "ln_sequence l' = ln_sequence l"
    "ln_acknowledgement l' = ln_acknowledgement l + 1" "sg_flags r' = 16"
  using assms by (auto simp: receive_defs reply_with_def)

lemma receive_ack_last_ack:
  assumes "arwill_tcp_listener_receive l seg r = (b, l', r')"
    and "arwill_tcp_listener_matches l seg" "ln_state l = Tcp_last_ack" "sg_flags seg = 16"
    and "sg_acknowledgement seg = ln_sequence l"
  shows "b" "l' = arwill_tcp_listener_reset (l\<lparr>ln_peer_window := sg_window seg\<rparr>) (ln_sequence l)"
  using assms
  by (auto simp: arwill_tcp_listener_receive_def receive_handshake_def receive_data_def
      receive_closing_def Let_def acknowledgement_covers_def)

lemma begin_close_segment:
  assumes "arwill_tcp_listener_begin_close l seg = (True, l', fin)"
  shows "sg_flags fin = 17" "sg_sequence fin = ln_sequence l" "sg_payload_length fin = 0"
    "sg_acknowledgement fin = ln_acknowledgement l" "ln_sequence l' = ln_sequence l + 1"
    "ln_acknowledgement l' = ln_acknowledgement l" "sg_source_port fin = ln_port l"
    "sg_destination_port fin = ln_peer_port l"
    "sg_source_address fin = copy_address (ln_local_address l)"
    "sg_destination_address fin = copy_address (ln_peer_address l)"
  using assms by (auto simp: arwill_tcp_listener_begin_close_def split: if_splits)

lemma peers_match:
  assumes "ln_port l = sg_destination_port seg" "ln_peer_port l = sg_source_port seg"
    and "ln_local_address l = sg_destination_address seg" "ln_peer_address l = sg_source_address seg"
  shows "arwill_tcp_listener_matches l seg"
  using assms by (simp add: arwill_tcp_listener_matches_def)

text \<open>
  The four segments of an orderly close between two synchronised listeners: the
  side that closes first ends in the time-wait state, the other one listens again.
\<close>

lemma close_exchange:
  assumes pe: "peers c s" and st: "ln_state c = Tcp_established" "ln_state s = Tcp_established"
    and c1: "arwill_tcp_listener_begin_close c r0 = (b0, c1, fin)"
    and s1: "arwill_tcp_listener_receive s (on_wire w1 m1 fin) r1 = (b1, s1, ack)"
    and c2: "arwill_tcp_listener_receive c1 (on_wire w2 m2 ack) r2 = (b2, c2, rest)"
    and s2: "arwill_tcp_listener_begin_close s1 r3 = (b3, s2, fin')"
    and c3: "arwill_tcp_listener_receive c2 (on_wire w4 m4 fin') r4 = (b4, c3, ack')"
    and s3: "arwill_tcp_listener_receive s2 (on_wire w5 m5 ack') r5 = (b5, s3, rest')"
  shows "b0 \<and> b1 \<and> b2 \<and> b3 \<and> b4 \<and> b5 \<and> ln_state c3 = Tcp_time_wait \<and>
     ln_state s3 = Tcp_listen \<and> ln_port s3 = ln_port s \<and> ln_sequence c3 = ln_sequence c + 1 \<and>
     ln_acknowledgement c3 = ln_acknowledgement c + 1"
proof -
  have b0: "b0" and e1: "ln_state c1 = Tcp_fin_wait_1" and t1: "same_tuple c c1"
    using begin_close_edge [OF c1] st by (simp_all add: arwill_tcp_listener_connected_def)
  note f1 = begin_close_segment [OF c1 [unfolded eqTrueI [OF b0]]]
  have "arwill_tcp_listener_matches s (on_wire w1 m1 fin)"
    using f1 pe by (intro peers_match) (auto simp: peers_def copy_address_short)
  moreover have sp: "segment_space (on_wire w1 m1 fin) = 1"
    using f1 by (simp add: segment_space_def)
  ultimately have f2: "b1" "ln_acknowledgement s1 = ln_acknowledgement s + 1"
      "ln_sequence s1 = ln_sequence s" "ln_state s1 = Tcp_close_wait" "sg_flags ack = 16"
    using receive_in_order [OF s1 _ st(2)] f1 pe by (simp_all add: peers_def)
  have n1: "sg_sequence ack = ln_sequence s" "sg_acknowledgement ack = ln_acknowledgement s + 1"
      "reply_route fin ack"
    using s1 f2 receive_reply_route [of s _ r1 s1 ack] receive_reply_numbers [of s _ r1 s1 ack]
    by (auto simp: reply_route_def)
  have t2: "same_tuple s s1" using receive_same_tuple [OF s1] st f2 by simp
  have "arwill_tcp_listener_matches c1 (on_wire w2 m2 ack)"
    using n1 t1 f1 pe by (intro peers_match) (auto simp: same_tuple_def reply_route_def peers_def copy_address_short)
  then have f3: "b2" "ln_state c2 = Tcp_fin_wait_2" "ln_sequence c2 = ln_sequence c1"
      "ln_acknowledgement c2 = ln_acknowledgement c1"
    using receive_ack_fin_wait_1 [OF c2 _ e1] n1 f1 f2 pe by (simp_all add: peers_def)
  have b3: "b3" and e2: "ln_state s2 = Tcp_last_ack" and t3: "same_tuple s1 s2"
    using begin_close_edge [OF s2] f2 by (simp_all add: arwill_tcp_listener_connected_def)
  note f4 = begin_close_segment [OF s2 [unfolded eqTrueI [OF b3]]]
  have t4: "same_tuple c1 c2" using receive_same_tuple [OF c2] e1 f3 by simp
  have "arwill_tcp_listener_matches c2 (on_wire w4 m4 fin')"
    using f4 t1 t2 t4 pe by (intro peers_match) (auto simp: same_tuple_def peers_def copy_address_short)
  then have f5: "b4" "ln_state c3 = Tcp_time_wait" "ln_sequence c3 = ln_sequence c2"
      "ln_acknowledgement c3 = ln_acknowledgement c2 + 1" "sg_flags ack' = 16"
    using receive_fin_fin_wait_2 [OF c3 _ f3(2)] f4 f3 f2 f1 pe by (simp_all add: peers_def)
  have n2: "sg_acknowledgement ack' = ln_acknowledgement c + 1" "reply_route fin' ack'"
    using c3 f5 f3 f1 receive_reply_route [of c2 _ r4 c3 ack'] receive_reply_numbers [of c2 _ r4 c3 ack']
    by (auto simp: reply_route_def)
  have "arwill_tcp_listener_matches s2 (on_wire w5 m5 ack')"
    using n2 f4 t2 t3 pe by (intro peers_match) (auto simp: same_tuple_def reply_route_def peers_def copy_address_short)
  then have f6: "b5" "s3 = arwill_tcp_listener_reset (s2\<lparr>ln_peer_window := sg_window (on_wire w5 m5 ack')\<rparr>)
      (ln_sequence s2)"
    using receive_ack_last_ack [OF s3 _ e2] n2 f4 f2 f5 pe by (simp_all add: peers_def)
  show ?thesis
    using b0 b3 f1 f2 f3 f5 f6 t2 t3
    by (simp add: arwill_tcp_listener_reset_def arwill_tcp_listener_init_def same_tuple_def)
qed

section \<open>Properties\<close>

definition blank_listener :: arwill_tcp_listener where
  "blank_listener = \<lparr>ln_port = 0, ln_peer_port = 0, ln_local_address = [0, 0, 0, 0],
     ln_peer_address = [0, 0, 0, 0], ln_sequence = 0, ln_acknowledgement = 0, ln_peer_window = 0,
     ln_peer_maximum_segment_size = 536, ln_state = Tcp_listen\<rparr>"

definition blank_segment :: arwill_tcp_segment where
  "blank_segment = \<lparr>sg_source_address = [], sg_destination_address = [], sg_source_port = 0,
     sg_destination_port = 0, sg_sequence = 0, sg_acknowledgement = 0, sg_flags = 0,
     sg_window = 0, sg_maximum_segment_size = 0, sg_payload_length = 0\<rparr>"

text \<open>
  \<open>arwill_tcp_sequence_before\<close> is the circular order of sequence numbers: a number
  is before those at a distance of less than half the space, two numbers are never
  before each other, and only numbers exactly half the space apart are unordered.
\<close>

lemma tcp_sequence_order:
  "(arwill_tcp_sequence_before a (a + d) \<longleftrightarrow> 0 < d \<and> d < 0x80000000) \<and>
   (arwill_tcp_sequence_after b a \<longleftrightarrow> arwill_tcp_sequence_before a b) \<and>
   \<not> (arwill_tcp_sequence_before a b \<and> arwill_tcp_sequence_before b a) \<and>
   (a = b \<or> arwill_tcp_sequence_before a b \<or> arwill_tcp_sequence_before b a \<or> b - a = 0x80000000)"
  using sequence_before_offset sequence_before_asym sequence_trichotomy
  by (auto simp: arwill_tcp_sequence_after_def)

text \<open>
  C15. Whatever segment a reachable listener receives, its state moves along an edge of
  the TCP diagram; the connection tuple stays fixed until the connection is gone; the
  acknowledgement number only moves over a segment that starts exactly at it, and in the
  established state by the sequence space of that segment; a reply carries the
  listener's own numbers; a listener back in the listen state keeps nothing of the old
  connection; a refused segment changes at most the recorded peer window.
\<close>

theorem tcp_receive_sound:
  assumes "tcp_reachable l" and "arwill_tcp_listener_receive l seg r = (b, l', r')"
  shows "receive_edge (ln_state l) (ln_state l') \<and> listener_ok l' \<and>
    (ln_state l \<noteq> Tcp_listen \<and> ln_state l' \<noteq> Tcp_listen \<longrightarrow> same_tuple l l') \<and>
    (ln_state l \<notin> {Tcp_listen, Tcp_syn_sent} \<and> ln_state l' \<noteq> Tcp_listen \<and>
       ln_acknowledgement l' \<noteq> ln_acknowledgement l \<longrightarrow>
       sg_sequence seg = ln_acknowledgement l \<and>
       (ln_state l = Tcp_established \<longrightarrow>
          ln_acknowledgement l' = ln_acknowledgement l + of_nat (segment_space seg))) \<and>
    (b \<and> sg_flags r' \<noteq> 0 \<longrightarrow>
       sg_sequence r' = ln_sequence l' \<and> sg_acknowledgement r' = ln_acknowledgement l') \<and>
    (\<not> b \<longrightarrow> l' = l \<or> l' = l\<lparr>ln_peer_window := sg_window seg\<rparr>)"
proof -
  note e = assms(2)
  have "b \<and> sg_flags r' \<noteq> 0 \<longrightarrow>
      sg_sequence r' = ln_sequence l' \<and> sg_acknowledgement r' = ln_acknowledgement l'"
    and "\<not> b \<longrightarrow> l' = l \<or> l' = l\<lparr>ln_peer_window := sg_window seg\<rparr>"
    using e receive_reply_numbers [of l seg r l' r'] receive_rejected [of l seg r l' r']
    by (cases b; simp)+
  then show ?thesis
    using receive_state_edge [OF e] receive_same_tuple [OF e] receive_acknowledgement [OF e]
      receive_listener_ok [OF e reachable_listener_ok [OF assms(1)]]
    by (auto split: if_splits)
qed

theorem tcp_receive_sound_witness:
  "let l = arwill_tcp_listener_init blank_listener 80 9;
       seg = blank_segment\<lparr>sg_destination_port := 80, sg_source_port := 4000, sg_flags := 2,
               sg_source_address := [10, 0, 2, 2], sg_destination_address := [10, 0, 2, 15]\<rparr>
   in case arwill_tcp_listener_receive l seg blank_segment of
        (b, l', r') \<Rightarrow> b \<and> ln_state l' = Tcp_syn_received \<and> listener_ok l' \<and>
          sg_acknowledgement r' = ln_acknowledgement l'"
proof -
  define l where "l = arwill_tcp_listener_init blank_listener 80 9"
  define seg where "seg = blank_segment\<lparr>sg_destination_port := 80, sg_source_port := 4000,
      sg_flags := 2, sg_source_address := [10, 0, 2, 2], sg_destination_address := [10, 0, 2, 15]\<rparr>"
  obtain b l' r' where e: "arwill_tcp_listener_receive l seg blank_segment = (b, l', r')"
    by (rule prod_cases3)
  have "ln_state l = Tcp_listen" "sg_destination_port seg = ln_port l" "sg_flags seg = 2"
    by (simp_all add: l_def seg_def arwill_tcp_listener_init_def)
  note f = receive_syn [OF e this]
  have "tcp_reachable l" unfolding l_def by (rule tcp_reachable.start)
  from tcp_receive_sound [OF this e] f e show ?thesis
    unfolding l_def [symmetric] seg_def [symmetric] Let_def by simp
qed

text \<open>
  The opening exchange: a client that connects to a listener waiting on that port
  exchanges three segments with it, whatever windows and segment sizes the two
  announce, and both end established as the two ends of one connection, each expecting
  the other's next sequence number.
\<close>

lemma tcp_handshake_synchronises:
  assumes "arwill_tcp_listener_connect c0 la lp pa pp iss r0 = (True, c1, syn)"
    and "ln_state s0 = Tcp_listen" and "ln_port s0 = pp"
    and "arwill_tcp_listener_receive s0 (on_wire w1 m1 syn) r1 = (b1, s1, synack)"
    and "arwill_tcp_listener_receive c1 (on_wire w2 m2 synack) r2 = (b2, c2, ack)"
    and "arwill_tcp_listener_receive s1 (on_wire w3 m3 ack) r3 = (b3, s2, rest)"
  shows "b1 \<and> b2 \<and> b3 \<and> arwill_tcp_listener_connected c2 \<and> arwill_tcp_listener_connected s2 \<and>
     peers c2 s2 \<and> ln_sequence c2 = iss + 1 \<and> ln_sequence s2 = ln_sequence s0 + 1"
  using open_exchange [OF assms] by (simp add: arwill_tcp_listener_connected_def)

lemma tcp_handshake_synchronises_witness:
  "case arwill_tcp_listener_connect blank_listener [10, 0, 2, 15] 40000 [10, 0, 2, 2] 80 7 blank_segment of
     (b0, c1, syn) \<Rightarrow>
   case arwill_tcp_listener_receive (arwill_tcp_listener_init blank_listener 80 9)
          (on_wire 512 1024 syn) blank_segment of (b1, s1, synack) \<Rightarrow>
   case arwill_tcp_listener_receive c1 (on_wire 512 1024 synack) blank_segment of (b2, c2, ack) \<Rightarrow>
   case arwill_tcp_listener_receive s1 (on_wire 512 0 ack) blank_segment of (b3, s2, rest) \<Rightarrow>
     b0 \<and> b1 \<and> b2 \<and> b3 \<and> peers c2 s2 \<and> ln_sequence c2 = 8 \<and> ln_sequence s2 = 10"
proof -
  obtain b0 c1 syn where 0: "arwill_tcp_listener_connect blank_listener [10, 0, 2, 15] 40000
      [10, 0, 2, 2] 80 7 blank_segment = (b0, c1, syn)" by (rule prod_cases3)
  then have b0: "b0 = True" by (simp add: arwill_tcp_listener_connect_def)
  obtain b1 s1 synack where 1: "arwill_tcp_listener_receive (arwill_tcp_listener_init blank_listener 80 9)
      (on_wire 512 1024 syn) blank_segment = (b1, s1, synack)" by (rule prod_cases3)
  obtain b2 c2 ack where 2: "arwill_tcp_listener_receive c1 (on_wire 512 1024 synack) blank_segment =
      (b2, c2, ack)" by (rule prod_cases3)
  obtain b3 s2 rest where 3: "arwill_tcp_listener_receive s1 (on_wire 512 0 ack) blank_segment =
      (b3, s2, rest)" by (rule prod_cases3)
  show ?thesis
    using tcp_handshake_synchronises [OF 0 [unfolded b0] _ _ 1 2 3] 0 1 2 3 b0
    by (simp add: arwill_tcp_listener_init_def)
qed

text \<open>
  The orderly close: when one end of an established connection closes and the other
  closes after it, four segments bring the first to the time-wait state and the other
  back to listening on its port, with every segment accepted.
\<close>

lemma tcp_orderly_close:
  assumes "peers c s" and "ln_state c = Tcp_established" "ln_state s = Tcp_established"
    and "arwill_tcp_listener_begin_close c r0 = (b0, c1, fin)"
    and "arwill_tcp_listener_receive s (on_wire w1 m1 fin) r1 = (b1, s1, ack)"
    and "arwill_tcp_listener_receive c1 (on_wire w2 m2 ack) r2 = (b2, c2, rest)"
    and "arwill_tcp_listener_begin_close s1 r3 = (b3, s2, fin')"
    and "arwill_tcp_listener_receive c2 (on_wire w4 m4 fin') r4 = (b4, c3, ack')"
    and "arwill_tcp_listener_receive s2 (on_wire w5 m5 ack') r5 = (b5, s3, rest')"
  shows "b0 \<and> b1 \<and> b2 \<and> b3 \<and> b4 \<and> b5 \<and> ln_state c3 = Tcp_time_wait \<and>
     ln_state s3 = Tcp_listen \<and> ln_port s3 = ln_port s \<and> ln_sequence c3 = ln_sequence c + 1 \<and>
     ln_acknowledgement c3 = ln_acknowledgement c + 1"
  by (rule close_exchange [OF assms])

definition near_end :: arwill_tcp_listener where
  "near_end = blank_listener\<lparr>ln_port := 40000, ln_peer_port := 80, ln_local_address := [10, 0, 2, 15],
     ln_peer_address := [10, 0, 2, 2], ln_sequence := 8, ln_acknowledgement := 10,
     ln_state := Tcp_established\<rparr>"

definition far_end :: arwill_tcp_listener where
  "far_end = blank_listener\<lparr>ln_port := 80, ln_peer_port := 40000, ln_local_address := [10, 0, 2, 2],
     ln_peer_address := [10, 0, 2, 15], ln_sequence := 10, ln_acknowledgement := 8,
     ln_state := Tcp_established\<rparr>"

lemma tcp_orderly_close_witness:
  "case arwill_tcp_listener_begin_close near_end blank_segment of (b0, c1, fin) \<Rightarrow>
   case arwill_tcp_listener_receive far_end (on_wire 512 0 fin) blank_segment of (b1, s1, ack) \<Rightarrow>
   case arwill_tcp_listener_receive c1 (on_wire 512 0 ack) blank_segment of (b2, c2, rest) \<Rightarrow>
   case arwill_tcp_listener_begin_close s1 blank_segment of (b3, s2, fin') \<Rightarrow>
   case arwill_tcp_listener_receive c2 (on_wire 512 0 fin') blank_segment of (b4, c3, ack') \<Rightarrow>
   case arwill_tcp_listener_receive s2 (on_wire 512 0 ack') blank_segment of (b5, s3, rest') \<Rightarrow>
     b5 \<and> ln_state c3 = Tcp_time_wait \<and> ln_state s3 = Tcp_listen \<and> ln_port s3 = 80"
proof -
  obtain b0 c1 fin where 0: "arwill_tcp_listener_begin_close near_end blank_segment = (b0, c1, fin)"
    by (rule prod_cases3)
  obtain b1 s1 ack where 1: "arwill_tcp_listener_receive far_end (on_wire 512 0 fin) blank_segment =
      (b1, s1, ack)" by (rule prod_cases3)
  obtain b2 c2 rest where 2: "arwill_tcp_listener_receive c1 (on_wire 512 0 ack) blank_segment =
      (b2, c2, rest)" by (rule prod_cases3)
  obtain b3 s2 fin' where 3: "arwill_tcp_listener_begin_close s1 blank_segment = (b3, s2, fin')"
    by (rule prod_cases3)
  obtain b4 c3 ack' where 4: "arwill_tcp_listener_receive c2 (on_wire 512 0 fin') blank_segment =
      (b4, c3, ack')" by (rule prod_cases3)
  obtain b5 s3 rest' where 5: "arwill_tcp_listener_receive s2 (on_wire 512 0 ack') blank_segment =
      (b5, s3, rest')" by (rule prod_cases3)
  have "peers near_end far_end" and "ln_state near_end = Tcp_established"
    and "ln_state far_end = Tcp_established" and "ln_port far_end = 80"
    by (simp_all add: peers_def near_end_def far_end_def)
  then show ?thesis
    using tcp_orderly_close [OF _ _ _ 0 1 2 3 4 5] 0 1 2 3 4 5 by simp
qed

end
