(* ===== verification/Tcp_Stream.thy ===== *)
theory Tcp_Stream
  imports Tcp_Machine Ring_Buffer
begin

text \<open>
  \<open>kernel/tcp_stream.c\<close>: the byte stream a program reads and writes, a listener
  with a receive ring and a transmit ring. The rings are shown to be bounded
  queues; reading takes a prefix, writing is all or nothing.
\<close>

section \<open>Data\<close>

abbreviation (input) arwill_tcp_stream_receive_capacity :: nat where
  "arwill_tcp_stream_receive_capacity \<equiv> 512"
abbreviation (input) arwill_tcp_stream_transmit_capacity :: nat where
  "arwill_tcp_stream_transmit_capacity \<equiv> 8192"

record arwill_tcp_stream =
  st_listener :: arwill_tcp_listener
  st_receive :: bytes
  st_receive_head :: nat
  st_receive_count :: nat
  st_transmit :: bytes
  st_transmit_head :: nat
  st_transmit_count :: nat
  st_listening :: bool
  st_peer_closed :: bool
  st_close_requested :: bool
  st_receive_window_changed :: bool
  st_connections :: u32
  st_disconnects :: u32
  st_bytes_received :: u32
  st_bytes_sent :: u32
  st_bytes_dropped :: u32
  st_send_failures :: u32

section \<open>Operations\<close>

definition arwill_tcp_stream_init :: "arwill_tcp_stream \<Rightarrow> arwill_tcp_stream" where
  "arwill_tcp_stream_init stream =
     stream\<lparr>st_listener := arwill_tcp_listener_init (st_listener stream) 0 0,
       st_receive_head := 0, st_receive_count := 0, st_transmit_head := 0, st_transmit_count := 0,
       st_listening := False, st_peer_closed := False, st_close_requested := False,
       st_receive_window_changed := False, st_connections := 0, st_disconnects := 0,
       st_bytes_received := 0, st_bytes_sent := 0, st_bytes_dropped := 0, st_send_failures := 0\<rparr>"

definition arwill_tcp_stream_listen ::
    "arwill_tcp_stream \<Rightarrow> u16 \<Rightarrow> u32 \<Rightarrow> bool \<times> arwill_tcp_stream" where
  "arwill_tcp_stream_listen stream port initial_sequence =
     (if port = 0 then (False, stream)
      else
        (True,
         stream\<lparr>st_listener := arwill_tcp_listener_init (st_listener stream) port initial_sequence,
           st_receive_head := 0, st_receive_count := 0, st_transmit_head := 0,
           st_transmit_count := 0, st_peer_closed := False, st_close_requested := False,
           st_receive_window_changed := False, st_listening := True\<rparr>))"

definition arwill_tcp_stream_stop :: "arwill_tcp_stream \<Rightarrow> arwill_tcp_stream" where
  "arwill_tcp_stream_stop stream =
     stream\<lparr>st_bytes_dropped := st_bytes_dropped stream + of_nat (st_transmit_count stream),
       st_receive_head := 0, st_receive_count := 0, st_transmit_head := 0, st_transmit_count := 0,
       st_peer_closed := False, st_close_requested := False, st_receive_window_changed := False,
       st_listening := False, st_listener := arwill_tcp_listener_reset (st_listener stream) 0\<rparr>"

definition arwill_tcp_stream_connected :: "arwill_tcp_stream \<Rightarrow> bool" where
  "arwill_tcp_stream_connected stream \<longleftrightarrow>
     st_listening stream \<and> arwill_tcp_listener_connected (st_listener stream)"

definition arwill_tcp_stream_connection_seen :: "arwill_tcp_stream \<Rightarrow> bool" where
  "arwill_tcp_stream_connection_seen stream \<longleftrightarrow> st_connections stream \<noteq> 0"

definition arwill_tcp_stream_peer_closed :: "arwill_tcp_stream \<Rightarrow> bool" where
  "arwill_tcp_stream_peer_closed stream = st_peer_closed stream"

definition arwill_tcp_stream_close_requested :: "arwill_tcp_stream \<Rightarrow> bool" where
  "arwill_tcp_stream_close_requested stream = st_close_requested stream"

definition arwill_tcp_stream_close_complete :: "arwill_tcp_stream \<Rightarrow> bool" where
  "arwill_tcp_stream_close_complete stream \<longleftrightarrow>
     st_listening stream \<and> ln_state (st_listener stream) = Tcp_listen \<and> \<not> st_close_requested stream"

text \<open>One iteration of the loop of \<open>arwill_tcp_stream_read\<close> takes the oldest byte.\<close>

definition receive_get :: "arwill_tcp_stream \<Rightarrow> u8 \<times> arwill_tcp_stream" where
  "receive_get stream =
     (st_receive stream ! st_receive_head stream,
      stream\<lparr>st_receive_head := (st_receive_head stream + 1) mod arwill_tcp_stream_receive_capacity,
        st_receive_count := st_receive_count stream - 1\<rparr>)"

function stream_read_loop ::
    "nat \<Rightarrow> nat \<Rightarrow> bytes \<Rightarrow> arwill_tcp_stream \<Rightarrow> nat \<times> bytes \<times> arwill_tcp_stream" where
  "stream_read_loop capacity count data stream =
     (if count < capacity \<and> st_receive_count stream \<noteq> 0 then
        (case receive_get stream of
           (b, stream') \<Rightarrow> stream_read_loop capacity (count + 1) (data[count := b]) stream')
      else (count, data, stream))"
  by pat_completeness auto
termination by (relation "measure (\<lambda>(capacity, count, _). capacity - count)") auto

declare stream_read_loop.simps [simp del]

definition arwill_tcp_stream_read ::
    "arwill_tcp_stream \<Rightarrow> bytes option \<Rightarrow> nat \<Rightarrow> nat \<times> bytes option \<times> arwill_tcp_stream" where
  "arwill_tcp_stream_read stream data capacity =
     (case data of
        None \<Rightarrow> (0, None, stream)
      | Some buffer \<Rightarrow>
          (case stream_read_loop capacity 0 buffer stream of
             (count, buffer, stream) \<Rightarrow>
               (count, Some buffer,
                if count \<noteq> 0 then stream\<lparr>st_receive_window_changed := True\<rparr> else stream)))"

definition transmit_put :: "arwill_tcp_stream \<Rightarrow> u8 \<Rightarrow> arwill_tcp_stream" where
  "transmit_put stream b =
     stream\<lparr>st_transmit := (st_transmit stream)
         [(st_transmit_head stream + st_transmit_count stream) mod arwill_tcp_stream_transmit_capacity := b],
       st_transmit_count := st_transmit_count stream + 1\<rparr>"

definition arwill_tcp_stream_write ::
    "arwill_tcp_stream \<Rightarrow> bytes option \<Rightarrow> nat \<Rightarrow> nat \<times> arwill_tcp_stream" where
  "arwill_tcp_stream_write stream data len =
     (if \<not> arwill_tcp_stream_connected stream \<or> (data = None \<and> len \<noteq> 0) \<or>
         len > arwill_tcp_stream_transmit_capacity - st_transmit_count stream then
        (0, if len \<le> 4294967295
            then stream\<lparr>st_bytes_dropped := st_bytes_dropped stream + of_nat len\<rparr> else stream)
      else
        (len, foldl (\<lambda>stream index. transmit_put stream (the data ! index)) stream [0..<len]))"

definition arwill_tcp_stream_close :: "arwill_tcp_stream \<Rightarrow> arwill_tcp_stream" where
  "arwill_tcp_stream_close stream =
     (if arwill_tcp_stream_connected stream then stream\<lparr>st_close_requested := True\<rparr> else stream)"

definition arwill_tcp_stream_peer_address :: "arwill_tcp_stream \<Rightarrow> bytes" where
  "arwill_tcp_stream_peer_address stream = ln_peer_address (st_listener stream)"

definition arwill_tcp_stream_peer_port :: "arwill_tcp_stream \<Rightarrow> u16" where
  "arwill_tcp_stream_peer_port stream = ln_peer_port (st_listener stream)"

text \<open>
  The body of the loop of \<open>enqueue_stream_receive\<close> (\<open>kernel/ipv4.c\<close>) when the ring
  has room.
\<close>

definition receive_put :: "arwill_tcp_stream \<Rightarrow> u8 \<Rightarrow> arwill_tcp_stream" where
  "receive_put stream b =
     stream\<lparr>st_receive := (st_receive stream)
         [(st_receive_head stream + st_receive_count stream) mod arwill_tcp_stream_receive_capacity := b],
       st_receive_count := st_receive_count stream + 1,
       st_bytes_received := st_bytes_received stream + 1\<rparr>"

section \<open>The rings as queues\<close>

definition stream_ok :: "arwill_tcp_stream \<Rightarrow> bool" where
  "stream_ok s \<longleftrightarrow>
     ring_ok arwill_tcp_stream_receive_capacity (st_receive s) (st_receive_head s) (st_receive_count s) \<and>
     ring_ok arwill_tcp_stream_transmit_capacity (st_transmit s) (st_transmit_head s) (st_transmit_count s) \<and>
     listener_ok (st_listener s)"

definition received :: "arwill_tcp_stream \<Rightarrow> bytes" where
  "received s = ring_list (st_receive s) (st_receive_head s) (st_receive_count s)"

definition unsent :: "arwill_tcp_stream \<Rightarrow> bytes" where
  "unsent s = ring_list (st_transmit s) (st_transmit_head s) (st_transmit_count s)"

lemma length_received [simp]: "length (received s) = st_receive_count s"
  by (simp add: received_def)

lemma length_unsent [simp]: "length (unsent s) = st_transmit_count s"
  by (simp add: unsent_def)

lemma stream_ok_counts:
  "stream_ok s \<Longrightarrow> st_receive_count s \<le> 512 \<and> st_transmit_count s \<le> 8192"
  by (simp add: stream_ok_def ring_ok_def)

interpretation rx: bounded_fifo stream_ok received arwill_tcp_stream_receive_capacity receive_put receive_get
proof
  fix s b assume "stream_ok s" and "length (received s) < arwill_tcp_stream_receive_capacity"
  then show "received (receive_put s b) = received s @ [b]" and "stream_ok (receive_put s b)"
    using ring_push [of 512 "st_receive s" "st_receive_head s" "st_receive_count s" b]
    by (simp_all add: received_def receive_put_def stream_ok_def)
next
  fix s b s' assume ok: "stream_ok s" and "received s \<noteq> []" and "receive_get s = (b, s')"
  then obtain n where n: "st_receive_count s = Suc n" by (cases "st_receive_count s") (auto simp: received_def)
  with ok ring_pop [of 512 "st_receive s" "st_receive_head s" n] \<open>receive_get s = (b, s')\<close>
  show "received s = b # received s' \<and> stream_ok s'"
    by (auto simp: received_def receive_get_def stream_ok_def)
qed

interpretation tx: bounded_queue stream_ok unsent arwill_tcp_stream_transmit_capacity transmit_put
proof
  fix s b assume "stream_ok s" and "length (unsent s) < arwill_tcp_stream_transmit_capacity"
  then show "unsent (transmit_put s b) = unsent s @ [b]" and "stream_ok (transmit_put s b)"
    using ring_push [of 8192 "st_transmit s" "st_transmit_head s" "st_transmit_count s" b]
    by (simp_all add: unsent_def transmit_put_def stream_ok_def)
qed

section \<open>Reading and writing\<close>

lemma received_empty: "received s = [] \<longleftrightarrow> st_receive_count s = 0"
  by (metis length_0_conv length_received)

lemma read_loop_takes:
  assumes "stream_ok s" and "capacity \<le> length data" and "count \<le> capacity"
    and "rx.take_up_to (capacity - count) s = (bs, s')"
  shows "stream_read_loop capacity count data s = (count + length bs, splice_at data count bs, s')"
  using assms
proof (induction capacity count data s arbitrary: bs s' rule: stream_read_loop.induct)
  case (1 capacity count data s)
  show ?case
  proof (cases "count < capacity \<and> st_receive_count s \<noteq> 0")
    case True
    then obtain m where m: "capacity - count = Suc m" "capacity - (count + 1) = m"
      by (metis Suc_diff_Suc Suc_eq_plus1)
    obtain b s1 where g: "receive_get s = (b, s1)" by (cases "receive_get s")
    obtain bs1 where t: "rx.take_up_to m s1 = (bs1, s')" "bs = b # bs1"
      using 1(5) m True g by (auto simp: received_empty split: prod.splits)
    have ok: "stream_ok s1" using rx.get_items [OF 1(2) _ g] True by (simp add: received_empty)
    have "stream_read_loop capacity (count + 1) (data[count := b]) s1 =
        (count + 1 + length bs1, splice_at (data[count := b]) (count + 1) bs1, s')"
      using 1(1) [OF True] g ok 1(3) True t m by simp
    moreover have "splice_at (data[count := b]) (count + 1) bs1 = splice_at data count bs"
      using True 1(3) splice_at_append [of count "[b]" data bs1] by (simp add: t list_update_splice)
    ultimately show ?thesis
      using True g t by (simp add: stream_read_loop.simps [of capacity count data s])
  next
    case False
    then have "bs = []" and "s' = s"
      using 1(5) by (cases "capacity - count"; simp add: received_empty)+
    then show ?thesis
      using False by (auto simp: stream_read_loop.simps [of capacity count data s] splice_at_Nil)
  qed
qed

text \<open>The part of a stream that reading leaves alone.\<close>

definition same_transmit :: "arwill_tcp_stream \<Rightarrow> arwill_tcp_stream \<Rightarrow> bool" where
  "same_transmit s s' \<longleftrightarrow> st_listener s' = st_listener s \<and> unsent s' = unsent s \<and>
     st_listening s' = st_listening s \<and> st_close_requested s' = st_close_requested s"

definition same_receive :: "arwill_tcp_stream \<Rightarrow> arwill_tcp_stream \<Rightarrow> bool" where
  "same_receive s s' \<longleftrightarrow> st_listener s' = st_listener s \<and> received s' = received s \<and>
     st_listening s' = st_listening s \<and> st_close_requested s' = st_close_requested s"

lemma same_transmit_trans: "same_transmit s s1 \<Longrightarrow> same_transmit s1 s' \<Longrightarrow> same_transmit s s'"
  by (simp add: same_transmit_def)

lemma receive_get_same: "receive_get s = (b, s') \<Longrightarrow> same_transmit s s'"
  by (auto simp: receive_get_def same_transmit_def unsent_def)

lemma take_up_to_same_transmit: "rx.take_up_to n s = (bs, s') \<Longrightarrow> same_transmit s s'"
proof (induction n arbitrary: s bs)
  case (Suc n)
  then show ?case
    by (auto split: if_splits prod.splits dest!: receive_get_same
        intro: same_transmit_trans simp: same_transmit_def)
qed (simp add: same_transmit_def)

lemma stream_read:
  assumes "stream_ok s" and "capacity \<le> length buf"
  obtains s' where
    "arwill_tcp_stream_read s (Some buf) capacity =
       (min capacity (length (received s)),
        Some (splice_at buf 0 (take capacity (received s))), s')"
    "received s' = drop capacity (received s)" "stream_ok s'" "same_transmit s s'"
    "0 < capacity \<and> received s \<noteq> [] \<longrightarrow> st_receive_window_changed s'"
proof -
  obtain bs s1 where t: "rx.take_up_to capacity s = (bs, s1)" by (cases "rx.take_up_to capacity s")
  then have f: "bs = take capacity (received s)" "received s1 = drop capacity (received s)" "stream_ok s1"
    using rx.take_up_to_prefix [OF assms(1)] by blast+
  define s' where "s' = (if bs \<noteq> [] then s1\<lparr>st_receive_window_changed := True\<rparr> else s1)"
  show thesis
  proof (rule that [of s'])
    show "arwill_tcp_stream_read s (Some buf) capacity =
       (min capacity (length (received s)),
        Some (splice_at buf 0 (take capacity (received s))), s')"
      using read_loop_takes [OF assms(1,2), of 0 bs s1] t f(1)
      by (auto simp: arwill_tcp_stream_read_def s'_def min.commute received_empty)
    show "same_transmit s s'"
      using take_up_to_same_transmit [OF t] by (simp add: same_transmit_def s'_def unsent_def)
  qed (use f in \<open>auto simp: s'_def received_def stream_ok_def\<close>)
qed

lemma foldl_map_nth: "n \<le> length xs \<Longrightarrow> foldl (\<lambda>q i. f q (xs ! i)) q [0..<n] = foldl f q (take n xs)"
  by (induction n) (simp_all add: take_Suc_conv_app_nth)

lemma transmit_put_same: "same_receive s (transmit_put s b)"
  by (simp add: same_receive_def transmit_put_def received_def)

lemma foldl_transmit_put_same: "same_receive s (foldl transmit_put s bs)"
proof (induction bs arbitrary: s)
  case (Cons b bs)
  then show ?case using transmit_put_same [of s b] by (simp add: same_receive_def)
qed (simp add: same_receive_def)

lemma stream_write_accepted:
  assumes "stream_ok s" and "arwill_tcp_stream_connected s"
    and "length data + length (unsent s) \<le> 8192"
  obtains s' where "arwill_tcp_stream_write s (Some data) (length data) = (length data, s')"
    "unsent s' = unsent s @ data" "stream_ok s'" "same_receive s s'"
proof -
  have "unsent (foldl transmit_put s data) = unsent s @ data \<and> stream_ok (foldl transmit_put s data)"
    using tx.put_all [OF assms(1), of data] assms(3) by simp
  with assms foldl_map_nth [of "length data" data transmit_put s] foldl_transmit_put_same [of s data]
  show thesis
    by (intro that [of "foldl transmit_put s data"]) (auto simp: arwill_tcp_stream_write_def)
qed

lemma stream_write_refused:
  assumes "stream_ok s"
    and "\<not> arwill_tcp_stream_connected s \<or> 8192 < length data + length (unsent s)"
  obtains s' where "arwill_tcp_stream_write s (Some data) (length data) = (0, s')"
    "unsent s' = unsent s" "stream_ok s'" "same_receive s s'"
  using assms stream_ok_counts [OF assms(1)]
  by (intro that [of "snd (arwill_tcp_stream_write s (Some data) (length data))"])
    (auto simp: arwill_tcp_stream_write_def unsent_def same_receive_def received_def stream_ok_def)

lemma stream_init_ok:
  assumes "length (st_receive s) = 512" "length (st_transmit s) = 8192"
  shows "stream_ok (arwill_tcp_stream_init s)"
  using assms by (simp add: stream_ok_def arwill_tcp_stream_init_def ring_ok_def init_listener_ok)

lemma stream_listen_ok: "stream_ok s \<Longrightarrow> stream_ok (snd (arwill_tcp_stream_listen s port iss))"
  by (simp add: stream_ok_def arwill_tcp_stream_listen_def ring_ok_def init_listener_ok)

lemma stream_stop_ok: "stream_ok s \<Longrightarrow> stream_ok (arwill_tcp_stream_stop s)"
  by (simp add: stream_ok_def arwill_tcp_stream_stop_def ring_ok_def init_listener_ok
      arwill_tcp_listener_reset_def)

lemma stream_close_ok: "stream_ok s \<Longrightarrow> stream_ok (arwill_tcp_stream_close s)"
  by (simp add: stream_ok_def arwill_tcp_stream_close_def)

section \<open>Properties\<close>

definition blank_stream :: arwill_tcp_stream where
  "blank_stream = \<lparr>st_listener = blank_listener, st_receive = replicate 512 0, st_receive_head = 0,
     st_receive_count = 0, st_transmit = replicate 8192 0, st_transmit_head = 0,
     st_transmit_count = 0, st_listening = False, st_peer_closed = False,
     st_close_requested = False, st_receive_window_changed = False, st_connections = 0,
     st_disconnects = 0, st_bytes_received = 0, st_bytes_sent = 0, st_bytes_dropped = 0,
     st_send_failures = 0\<rparr>"

definition demo_stream :: arwill_tcp_stream where
  "demo_stream = blank_stream\<lparr>st_listener := near_end, st_listening := True,
     st_receive := (replicate 512 0)[511 := 65, 0 := 66], st_receive_head := 511,
     st_receive_count := 2\<rparr>"

lemma demo_stream_ok: "stream_ok demo_stream"
  by (simp add: stream_ok_def demo_stream_def blank_stream_def ring_ok_def listener_ok_def near_end_def
      blank_listener_def)

lemma demo_stream_received: "received demo_stream = [65, 66]"
  by (simp add: received_def demo_stream_def ring_list_def upt_rec)

text \<open>
  Reading a stream returns the oldest received bytes, as many as the buffer takes,
  in order; they leave the receive ring, the rest of it stays, the transmit side is
  untouched, and the change of the receive window is noted.
\<close>

lemma tcp_stream_read_prefix:
  assumes "stream_ok s" and "capacity \<le> length buf"
  shows "case arwill_tcp_stream_read s (Some buf) capacity of
     (n, data, s') \<Rightarrow>
       n = min capacity (length (received s)) \<and> data = Some (take n (received s) @ drop n buf) \<and>
       received s' = drop n (received s) \<and> stream_ok s' \<and> same_transmit s s' \<and>
       (n \<noteq> 0 \<longrightarrow> st_receive_window_changed s')"
proof -
  obtain s' where "arwill_tcp_stream_read s (Some buf) capacity =
       (min capacity (length (received s)), Some (splice_at buf 0 (take capacity (received s))), s')"
    and "received s' = drop capacity (received s)" "stream_ok s'" "same_transmit s s'"
    "0 < capacity \<and> received s \<noteq> [] \<longrightarrow> st_receive_window_changed s'"
    by (rule stream_read [OF assms])
  then show ?thesis by (auto simp: splice_at_def min_def received_empty)
qed

text \<open>
  Writing to a stream is all or nothing: on an open connection with room for every
  byte they are queued behind those not sent yet; otherwise nothing is queued, the
  bytes are counted as dropped, and the receive side is untouched either way.
\<close>

lemma tcp_stream_write_atomic:
  assumes "stream_ok s"
  shows "case arwill_tcp_stream_write s (Some data) (length data) of
     (n, s') \<Rightarrow>
       stream_ok s' \<and> same_receive s s' \<and>
       (if arwill_tcp_stream_connected s \<and> length data + length (unsent s) \<le> 8192
        then n = length data \<and> unsent s' = unsent s @ data
        else n = 0 \<and> unsent s' = unsent s)"
proof (cases "arwill_tcp_stream_connected s \<and> length data + length (unsent s) \<le> 8192")
  case True
  then obtain s' where "arwill_tcp_stream_write s (Some data) (length data) = (length data, s')"
    "unsent s' = unsent s @ data" "stream_ok s'" "same_receive s s'"
    by (elim conjE) (rule stream_write_accepted [OF assms])
  with True show ?thesis by simp
next
  case False
  then have "\<not> arwill_tcp_stream_connected s \<or> 8192 < length data + length (unsent s)" by auto
  then obtain s' where "arwill_tcp_stream_write s (Some data) (length data) = (0, s')"
    "unsent s' = unsent s" "stream_ok s'" "same_receive s s'"
    by (rule stream_write_refused [OF assms])
  with False show ?thesis by auto
qed

end
