(* ===== verification/Packet.thy ===== *)
theory Packet
  imports Arwill_Prelude
begin

text \<open>
  The byte-level helpers of \<open>kernel/ipv4.c\<close>: big-endian fields, copying loops and
  the Internet checksums. A pointer into a frame is the frame with an offset, or
  the frame without its first bytes where the code passes the pointer on.
\<close>

section \<open>Fields\<close>

definition put16 :: "bytes \<Rightarrow> nat \<Rightarrow> u16 \<Rightarrow> bytes" where
  "put16 buffer offset value =
     buffer[offset := ucast (drop_bit 8 value), offset + 1 := ucast value]"

definition get16 :: "bytes \<Rightarrow> nat \<Rightarrow> u16" where
  "get16 buffer offset =
     push_bit 8 (ucast (buffer ! offset)) OR ucast (buffer ! (offset + 1))"

definition same_bytes :: "bytes \<Rightarrow> bytes \<Rightarrow> nat \<Rightarrow> bool" where
  "same_bytes left right len = list_all (\<lambda>index. left ! index = right ! index) [0..<len]"

definition put32 :: "bytes \<Rightarrow> nat \<Rightarrow> u32 \<Rightarrow> bytes" where
  "put32 buffer offset value =
     buffer[offset := ucast (drop_bit 24 value), offset + 1 := ucast (drop_bit 16 value),
       offset + 2 := ucast (drop_bit 8 value), offset + 3 := ucast value]"

definition get32 :: "bytes \<Rightarrow> nat \<Rightarrow> u32" where
  "get32 buffer offset =
     push_bit 24 (ucast (buffer ! offset)) OR push_bit 16 (ucast (buffer ! (offset + 1))) OR
     push_bit 8 (ucast (buffer ! (offset + 2))) OR ucast (buffer ! (offset + 3))"

text \<open>The loops that copy \<open>n\<close> bytes to an offset of a frame.\<close>

definition copy_into :: "bytes \<Rightarrow> nat \<Rightarrow> bytes \<Rightarrow> nat \<Rightarrow> bytes" where
  "copy_into buffer offset source n =
     foldl (\<lambda>buffer index. buffer[offset + index := source ! index]) buffer [0..<n]"

section \<open>Checksums\<close>

function sum_words :: "bytes \<Rightarrow> nat \<Rightarrow> nat \<Rightarrow> u32 \<Rightarrow> u32" where
  "sum_words buffer len index acc =
     (if index + 1 < len then sum_words buffer len (index + 2) (acc + ucast (get16 buffer index))
      else acc)"
  by pat_completeness auto
termination by (relation "measure (\<lambda>(_, len, index, _). len - index)") auto

declare sum_words.simps [simp del]

definition sum_bytes :: "bytes \<Rightarrow> nat \<Rightarrow> u32 \<Rightarrow> u32" where
  "sum_bytes buffer len acc =
     (let acc = sum_words buffer len 0 acc
      in if odd len then acc + push_bit 8 (ucast (buffer ! (len - 1))) else acc)"

lemma unat_low_half: "unat ((s :: u32) AND 0xffff) = unat s mod 65536"
proof -
  have "s AND 0xffff = take_bit 16 s" by (simp add: take_bit_eq_mask mask_eq_exp_minus_1)
  then show ?thesis by (simp add: take_bit_eq_mod unat_mod_distrib)
qed

lemma unat_high_half: "unat (drop_bit 16 (s :: u32)) = unat s div 65536"
  unfolding unat_drop_bit_eq by (simp add: drop_bit_eq_div)

lemma unat_fold_step:
  "unat ((s AND 0xffff) + drop_bit 16 (s :: u32)) = unat s mod 65536 + unat s div 65536"
proof -
  have "unat s mod 65536 < 65536" and "unat s div 65536 < 65536"
    using unat_less_32 [of s] by (simp_all add: less_mult_imp_div_less)
  then show ?thesis by (simp add: unat_word_ariths unat_low_half unat_high_half)
qed

function fold_sum :: "u32 \<Rightarrow> u32" where
  "fold_sum s = (if drop_bit 16 s \<noteq> 0 then fold_sum ((s AND 0xffff) + drop_bit 16 s) else s)"
  by pat_completeness auto
termination
proof (relation "measure unat")
  fix s :: u32 assume "drop_bit 16 s \<noteq> 0"
  then have "unat s div 65536 \<noteq> 0"
    using unat_high_half [of s] by (metis unat_eq_zero)
  moreover have "unat s = 65536 * (unat s div 65536) + unat s mod 65536" by simp
  ultimately show "((s AND 0xffff) + drop_bit 16 s, s) \<in> measure unat"
    by (simp only: in_measure unat_fold_step)
qed simp

declare fold_sum.simps [simp del]

definition finish_sum :: "u32 \<Rightarrow> u16" where
  "finish_sum acc = ucast (NOT (fold_sum acc))"

definition checksum :: "bytes \<Rightarrow> nat \<Rightarrow> u16" where
  "checksum buffer len = finish_sum (sum_bytes buffer len 0)"

definition pseudo_header :: "u32 \<Rightarrow> bytes \<Rightarrow> nat \<Rightarrow> u32" where
  "pseudo_header protocol ip len =
     protocol + of_nat len + ucast (get16 ip 12) + ucast (get16 ip 14) + ucast (get16 ip 16) +
     ucast (get16 ip 18)"

definition tcp_checksum :: "bytes \<Rightarrow> bytes \<Rightarrow> nat \<Rightarrow> u16" where
  "tcp_checksum ip tcp len = finish_sum (sum_bytes tcp len (pseudo_header 6 ip len))"

definition udp_checksum :: "bytes \<Rightarrow> bytes \<Rightarrow> nat \<Rightarrow> u16" where
  "udp_checksum ip udp len = finish_sum (sum_bytes udp len (pseudo_header 17 ip len))"

section \<open>Reading and writing fields\<close>

named_theorems frame_simps \<open>reading a frame after the writes that built it\<close>

lemma length_put16 [simp]: "length (put16 b i v) = length b"
  by (simp add: put16_def)

lemma length_put32 [simp]: "length (put32 b i v) = length b"
  by (simp add: put32_def)

lemma nth_put16 [frame_simps]:
  "i + 1 < length b \<Longrightarrow>
   put16 b i v ! j = (if j = i + 1 then ucast v else if j = i then ucast (drop_bit 8 v) else b ! j)"
  by (auto simp: put16_def nth_list_update)

lemma nth_put32 [frame_simps]:
  "i + 3 < length b \<Longrightarrow>
   put32 b i v ! j =
     (if j = i + 3 then ucast v else if j = i + 2 then ucast (drop_bit 8 v)
      else if j = i + 1 then ucast (drop_bit 16 v) else if j = i then ucast (drop_bit 24 v)
      else b ! j)"
  by (auto simp: put32_def nth_list_update)

lemma copy_into_Suc:
  "copy_into b i src (Suc n) = (copy_into b i src n)[i + n := src ! n]"
  by (simp add: copy_into_def)

lemma copy_into_0 [simp]: "copy_into b i src 0 = b"
  by (simp add: copy_into_def)

lemma length_copy_into [simp]: "length (copy_into b i src n) = length b"
  by (induction n) (simp_all add: copy_into_Suc)

lemma nth_copy_into [frame_simps]:
  "i + n \<le> length b \<Longrightarrow>
   copy_into b i src n ! j = (if i \<le> j \<and> j < i + n then src ! (j - i) else b ! j)"
  by (induction n) (auto simp: copy_into_Suc nth_list_update)

lemma join16: "push_bit 8 (ucast (ucast (drop_bit 8 v) :: u8)) OR ucast (ucast v :: u8) = (v :: u16)"
  by (rule bit_word_eqI) (auto simp: bit_simps)

lemma join32:
  "push_bit 24 (ucast (ucast (drop_bit 24 v) :: u8)) OR push_bit 16 (ucast (ucast (drop_bit 16 v) :: u8)) OR
   push_bit 8 (ucast (ucast (drop_bit 8 v) :: u8)) OR ucast (ucast v :: u8) = (v :: u32)"
    (is "?l = v")
proof (rule bit_word_eqI)
  fix n assume "n < LENGTH(32)"
  then consider "n < 8" | "8 \<le> n \<and> n < 16" | "16 \<le> n \<and> n < 24" | "24 \<le> n \<and> n < 32" by force
  then show "bit ?l n = bit v n" by cases (auto simp: bit_simps)
qed

lemma get16_put16 [simp]: "i + 1 < length b \<Longrightarrow> get16 (put16 b i v) i = v"
  by (simp add: get16_def nth_put16 join16)

lemma get32_put32 [simp]: "i + 3 < length b \<Longrightarrow> get32 (put32 b i v) i = v"
  by (simp add: get32_def nth_put32 join32)

lemma drop_put16: "k \<le> i \<Longrightarrow> drop k (put16 b i v) = put16 (drop k b) (i - k) v"
  by (simp add: put16_def drop_update_swap Suc_diff_le)

lemma same_bytes_iff: "same_bytes l r n \<longleftrightarrow> (\<forall>i<n. l ! i = r ! i)"
  by (auto simp: same_bytes_def list_all_iff)

lemma unat_get16: "unat (get16 b i) = 256 * unat (b ! i) + unat (b ! (i + 1))"
proof -
  let ?x = "b ! i" and ?y = "b ! (i + 1)"
  have "(push_bit 8 (ucast ?x) OR ucast ?y :: u16) = push_bit 8 (ucast ?x) + ucast ?y"
    by (rule disjunctive_add [symmetric]) (auto simp: bit_simps dest: bit_imp_le_length)
  moreover have "unat (push_bit 8 (ucast ?x) :: u16) = 256 * unat ?x"
    using unat_less_8 [of ?x]
    by (simp add: unsigned_ucast_eq take_bit_nat_eq_self push_bit_eq_mult unat_word_ariths)
  moreover have "unat (ucast ?y :: u16) = unat ?y"
    using unat_less_8 [of ?y] by (simp add: unsigned_ucast_eq take_bit_nat_eq_self)
  ultimately show ?thesis
    using unat_less_8 [of ?x] unat_less_8 [of ?y] by (simp add: get16_def unat_word_ariths)
qed

section \<open>The sum of a buffer\<close>

text \<open>A byte at an even position is the high byte of its 16-bit word.\<close>

definition weight :: "nat \<Rightarrow> nat" where
  "weight i = (if even i then 256 else 1)"

definition byte_sum :: "bytes \<Rightarrow> nat \<Rightarrow> nat" where
  "byte_sum b n = (\<Sum>i<n. weight i * unat (b ! i))"

lemma byte_sum_bound: "byte_sum b n \<le> n * 65280"
proof -
  have "weight i * unat (b ! i) \<le> 65280" for i
    using unat_less_8 [of "b ! i"] by (simp add: weight_def)
  then show ?thesis
    unfolding byte_sum_def
    using sum_bounded_above [of "{..<n}" "\<lambda>i. weight i * unat (b ! i)" 65280] by simp
qed

lemma byte_sum_Suc: "byte_sum b (Suc n) = byte_sum b n + weight n * unat (b ! n)"
  by (simp add: byte_sum_def)

lemma sum_words_nat:
  assumes "even i" and "unat acc + byte_sum b n < 4294967296 + byte_sum b i" and "i \<le> n"
  shows "unat (sum_words b n i acc) + byte_sum b i = unat acc + byte_sum b (2 * (n div 2))"
  using assms
proof (induction b n i acc rule: sum_words.induct)
  case (1 b n i acc)
  show ?case
  proof (cases "i + 1 < n")
    case True
    have two: "byte_sum b (i + 2) = byte_sum b i + unat (get16 b i)"
      unfolding add_2_eq_Suc' using 1(2) by (simp add: byte_sum_Suc unat_get16 weight_def)
    have mono: "byte_sum b (i + 2) \<le> byte_sum b n"
      unfolding byte_sum_def using True by (intro sum_mono2) auto
    have "unat (ucast (get16 b i) :: u32) = unat (get16 b i)"
      using unat_less_16 [of "get16 b i"] by (simp add: unsigned_ucast_eq take_bit_nat_eq_self)
    then have add: "unat (acc + ucast (get16 b i)) = unat acc + unat (get16 b i)"
      using 1(3) two mono by (simp add: unat_word_ariths)
    show ?thesis
      using 1(1) [OF True] 1(2,3) True add two by (simp add: sum_words.simps [of b n i])
  next
    case False
    then have "i = 2 * (n div 2)" using 1(2,4) by presburger
    moreover have "sum_words b n i acc = acc" using False by (subst sum_words.simps) simp
    ultimately show ?thesis by simp
  qed
qed

lemma sum_bytes_nat:
  assumes "unat acc + byte_sum b n < 4294967296"
  shows "unat (sum_bytes b n acc) = unat acc + byte_sum b n"
proof -
  have w: "unat (sum_words b n 0 acc) = unat acc + byte_sum b (2 * (n div 2))"
    using sum_words_nat [of 0 acc b n] assms by (simp add: byte_sum_def)
  show ?thesis
  proof (cases "odd n")
    case True
    then have n: "n = Suc (2 * (n div 2))" by presburger
    let ?x = "b ! (2 * (n div 2))"
    have "unat (push_bit 8 (ucast ?x) :: u32) = 256 * unat ?x"
      using unat_less_8 [of ?x]
      by (simp add: unsigned_ucast_eq take_bit_nat_eq_self push_bit_eq_mult unat_word_ariths)
    moreover have "byte_sum b n = byte_sum b (2 * (n div 2)) + 256 * unat ?x"
      by (subst n) (simp add: byte_sum_Suc weight_def)
    moreover have "n - 1 = 2 * (n div 2)" using n by simp
    ultimately show ?thesis
      using True w assms by (simp add: sum_bytes_def unat_word_ariths)
  next
    case False
    then show ?thesis using w by (simp add: sum_bytes_def)
  qed
qed

lemma fold_sum_spec:
  "unat (fold_sum s) \<le> 65535 \<and> unat (fold_sum s) mod 65535 = unat s mod 65535 \<and>
   (unat (fold_sum s) = 0 \<longleftrightarrow> unat s = 0)"
proof (induction s rule: fold_sum.induct)
  case (1 s)
  show ?case
  proof (cases "drop_bit 16 s = 0")
    case True
    then have "unat s div 65536 = 0" using unat_high_half [of s] by simp
    then show ?thesis using True by (simp add: fold_sum.simps [of s] div_eq_0_iff)
  next
    case False
    have d: "unat s = 65535 * (unat s div 65536) + (unat s mod 65536 + unat s div 65536)" by simp
    have "(unat s mod 65536 + unat s div 65536) mod 65535 = unat s mod 65535"
      by (subst (3) d) (simp only: mod_mult_self4)
    moreover have "unat s mod 65536 + unat s div 65536 = 0 \<longleftrightarrow> unat s = 0" using d by linarith
    ultimately show ?thesis
      using 1 [OF False] False by (simp add: fold_sum.simps [of s] unat_fold_step)
  qed
qed

lemma unat_finish_sum: "unat (finish_sum s) = 65535 - unat (fold_sum s)"
proof -
  let ?f = "fold_sum s"
  have le: "unat ?f \<le> 65535" using fold_sum_spec by simp
  have "NOT ?f = (- 1) - ?f" by (simp add: not_eq_complement)
  moreover have "unat ((- 1) - ?f) = unat (- 1 :: u32) - unat ?f" by (rule unat_sub) simp
  ultimately have n: "unat (NOT ?f) = 4294967295 - unat ?f"
    by (simp add: unsigned_minus_1_eq_mask mask_eq_exp_minus_1)
  have "unat (finish_sum s) = (4294967295 - unat ?f) mod 65536"
    by (simp add: finish_sum_def unsigned_ucast_eq take_bit_eq_mod n)
  also have "4294967295 - unat ?f = (65535 - unat ?f) + 65536 * 65535" using le by simp
  also have "\<dots> mod 65536 = (65535 - unat ?f) mod 65536" by (rule mod_mult_self2)
  finally show ?thesis by simp
qed

text \<open>A sum is right when it is a multiple of 65535 other than zero.\<close>

lemma finish_sum_zero: "finish_sum s = 0 \<longleftrightarrow> unat s mod 65535 = 0 \<and> unat s \<noteq> 0"
proof -
  have "finish_sum s = 0 \<longleftrightarrow> unat (fold_sum s) = 65535"
    using fold_sum_spec [of s] unat_finish_sum [of s] unat_eq_zero [of "finish_sum s"] by linarith
  also have "\<dots> \<longleftrightarrow> unat (fold_sum s) mod 65535 = 0 \<and> unat (fold_sum s) \<noteq> 0"
  proof
    assume "unat (fold_sum s) mod 65535 = 0 \<and> unat (fold_sum s) \<noteq> 0"
    then have "65535 \<le> unat (fold_sum s)" by (intro dvd_imp_le) (auto simp: mod_eq_0_iff_dvd)
    with fold_sum_spec [of s] show "unat (fold_sum s) = 65535" by simp
  qed simp
  finally show ?thesis using fold_sum_spec [of s] by simp
qed

lemma finish_sum_completes:
  "(unat s + unat (finish_sum s)) mod 65535 = 0 \<and> unat s + unat (finish_sum s) \<noteq> 0"
proof -
  have f: "unat (fold_sum s) \<le> 65535" "unat (fold_sum s) mod 65535 = unat s mod 65535"
    "unat (fold_sum s) = 0 \<longleftrightarrow> unat s = 0"
    using fold_sum_spec [of s] by auto
  have "(unat s + (65535 - unat (fold_sum s))) mod 65535 =
      (unat (fold_sum s) + (65535 - unat (fold_sum s))) mod 65535"
    using f(2) by (metis mod_add_left_eq)
  also have "\<dots> = 0" using f(1) by simp
  finally show ?thesis using f(1,3) by (auto simp: unat_finish_sum)
qed

section \<open>Filling in and checking a checksum\<close>

lemma byte_sum_cong: "(\<And>i. i < n \<Longrightarrow> a ! i = b ! i) \<Longrightarrow> byte_sum a n = byte_sum b n"
  unfolding byte_sum_def by (intro sum.cong) auto

lemma byte_sum_update:
  assumes "i < n" and "n \<le> length b"
  shows "byte_sum (b[i := x]) n + weight i * unat (b ! i) = byte_sum b n + weight i * unat x"
proof -
  have "byte_sum (b[i := x]) n =
      weight i * unat x + (\<Sum>j\<in>{..<n} - {i}. weight j * unat (b ! j))"
    unfolding byte_sum_def using assms
    by (subst sum.remove [of _ i]) (auto intro!: sum.cong simp: nth_list_update)
  moreover have "byte_sum b n =
      weight i * unat (b ! i) + (\<Sum>j\<in>{..<n} - {i}. weight j * unat (b ! j))"
    unfolding byte_sum_def using assms by (subst sum.remove [of _ i]) auto
  ultimately show ?thesis by simp
qed

lemma byte_sum_put16:
  assumes "even i" and "i + 1 < n" and "n \<le> length b" and "b ! i = 0" and "b ! (i + 1) = 0"
  shows "byte_sum (put16 b i v) n = byte_sum b n + unat v"
proof -
  have "256 * unat (ucast (drop_bit 8 v) :: u8) + unat (ucast v :: u8) = unat v"
    using unat_get16 [of "put16 b i v" i] assms by (simp add: nth_put16)
  then show ?thesis
    using byte_sum_update [of i n b "ucast (drop_bit 8 v)"]
      byte_sum_update [of "i + 1" n "b[i := ucast (drop_bit 8 v)]" "ucast v"] assms
    by (simp add: put16_def weight_def)
qed

lemma filled_sum_checks:
  assumes "even i" and "i + 1 < n" and "n \<le> length b" and "b ! i = 0" and "b ! (i + 1) = 0"
    and "unat acc + byte_sum b n + 65535 < 4294967296"
    and "v = finish_sum (sum_bytes b n acc) \<or> finish_sum (sum_bytes b n acc) = 0 \<and> v = 0xffff"
  shows "finish_sum (sum_bytes (put16 b i v) n acc) = 0"
proof -
  let ?s = "sum_bytes b n acc"
  have v: "unat v \<le> 65535" using unat_less_16 [of v] by simp
  have s: "unat ?s = unat acc + byte_sum b n" using assms(6) by (intro sum_bytes_nat) simp
  have "unat (sum_bytes (put16 b i v) n acc) = unat ?s + unat v"
    using byte_sum_put16 [OF assms(1-5), of v] assms(6) s v by (subst sum_bytes_nat) simp_all
  moreover have "(unat ?s + unat v) mod 65535 = 0 \<and> unat ?s + unat v \<noteq> 0"
    using assms(7)
  proof
    assume "finish_sum ?s = 0 \<and> v = 0xffff"
    then show ?thesis using finish_sum_zero [of ?s] by simp
  qed (use finish_sum_completes [of ?s] in simp)
  ultimately show ?thesis by (simp add: finish_sum_zero)
qed

lemma checksum_fill:
  assumes "even i" and "i + 1 < n" and "n \<le> length b" and "n \<le> 65535"
    and "b ! i = 0" and "b ! (i + 1) = 0"
  shows "checksum (put16 b i (checksum b n)) n = 0"
  unfolding checksum_def
  using byte_sum_bound [of b n] assms by (intro filled_sum_checks) auto

lemma pseudo_header_bound: "unat (pseudo_header p ip n) \<le> unat p + n + 4 * 65535"
proof -
  have add: "unat (x + y) \<le> unat x + unat y" for x y :: u32
    by (simp add: unat_word_ariths)
  have u: "unat (ucast w :: u32) \<le> 65535" for w :: u16
    using unat_less_16 [of w] by (simp add: unsigned_ucast_eq take_bit_nat_eq_self)
  have n: "unat (of_nat n :: u32) \<le> n"
    by (simp add: unat_of_nat)
  show ?thesis
    unfolding pseudo_header_def
    using add [of "p + of_nat n + ucast (get16 ip 12) + ucast (get16 ip 14) + ucast (get16 ip 16)" "ucast (get16 ip 18)"]
      add [of "p + of_nat n + ucast (get16 ip 12) + ucast (get16 ip 14)" "ucast (get16 ip 16)"]
      add [of "p + of_nat n + ucast (get16 ip 12)" "ucast (get16 ip 14)"]
      add [of "p + of_nat n" "ucast (get16 ip 12)"] add [of p "of_nat n"] n
      u [of "get16 ip 12"] u [of "get16 ip 14"] u [of "get16 ip 16"] u [of "get16 ip 18"]
    by linarith
qed

lemma transport_fill:
  assumes "even i" and "i + 1 < n" and "n \<le> length b" and "n \<le> 65535"
    and "b ! i = 0" and "b ! (i + 1) = 0" and "unat p \<le> 255"
    and "v = finish_sum (sum_bytes b n (pseudo_header p ip n)) \<or>
         finish_sum (sum_bytes b n (pseudo_header p ip n)) = 0 \<and> v = 0xffff"
  shows "finish_sum (sum_bytes (put16 b i v) n (pseudo_header p ip n)) = 0"
  using byte_sum_bound [of b n] pseudo_header_bound [of p ip n] assms
  by (intro filled_sum_checks [OF assms(1-3,5,6) _ assms(8)]) linarith

section \<open>Properties\<close>



text \<open>
  The checksum detects every corruption of a single byte: a buffer that passes the
  check does not pass it with any one byte changed.
\<close>

lemma checksum_detects_byte:
  assumes "checksum b n = 0" and "i < n" and "n \<le> length b" and "n \<le> 65535" and "x \<noteq> b ! i"
  shows "checksum (b[i := x]) n \<noteq> 0"
proof
  have sum: "checksum c n = 0 \<Longrightarrow> byte_sum c n mod 65535 = 0" for c
    using byte_sum_bound [of c n] assms(4)
    by (simp add: checksum_def finish_sum_zero sum_bytes_nat)
  assume "checksum (b[i := x]) n = 0"
  then have "(byte_sum (b[i := x]) n + weight i * unat (b ! i)) mod 65535 = weight i * unat (b ! i) mod 65535"
    and "(byte_sum b n + weight i * unat x) mod 65535 = weight i * unat x mod 65535"
    using sum assms(1) by (metis add_0 mod_add_left_eq)+
  then have "weight i * unat (b ! i) mod 65535 = weight i * unat x mod 65535"
    using byte_sum_update [OF assms(2,3), of x] by simp
  moreover have "weight i * unat y < 65535" for y :: u8
    using unat_less_8 [of y] by (simp add: weight_def)
  ultimately have "weight i * unat (b ! i) = weight i * unat x" by simp
  with assms(5) show False by (simp add: weight_def word_unat_eq_iff split: if_splits)
qed

end
