(* ===== verification/Ipv4.thy ===== *)
theory Ipv4
  imports Hal Tcp_Stream Packet
begin

text \<open>
  \<open>kernel/ipv4.c\<close>, first part: the state of the stack, its initialisation and the
  two tables of endpoints. A pointer to a stream or a UDP endpoint is the index of
  the endpoint in its table; a pointer to nothing of the table is any index beyond
  it. Functions that take the stack and one of its endpoints take the stack and the
  index, so that the aliasing of the two pointers is explicit.
\<close>

section \<open>Data\<close>

abbreviation (input) arwill_tcp_pending_payload_capacity :: nat where
  "arwill_tcp_pending_payload_capacity \<equiv> 1024"
abbreviation (input) arwill_tcp_pending_segment_capacity :: nat where
  "arwill_tcp_pending_segment_capacity \<equiv> 4"
abbreviation (input) arwill_tcp_local_maximum_segment_size :: u16 where
  "arwill_tcp_local_maximum_segment_size \<equiv> 1024"
abbreviation (input) arwill_tcp_retransmission_interval_ms :: u64 where
  "arwill_tcp_retransmission_interval_ms \<equiv> 250"
abbreviation (input) arwill_tcp_retransmission_minimum_ms :: u64 where
  "arwill_tcp_retransmission_minimum_ms \<equiv> 100"
abbreviation (input) arwill_tcp_retransmission_maximum_ms :: u64 where
  "arwill_tcp_retransmission_maximum_ms \<equiv> 2000"
abbreviation (input) arwill_tcp_max_retransmissions :: u32 where
  "arwill_tcp_max_retransmissions \<equiv> 3"
abbreviation (input) arwill_tcp_time_wait_ms :: u64 where "arwill_tcp_time_wait_ms \<equiv> 500"
abbreviation (input) arwill_tcp_close_timeout_ms :: u64 where "arwill_tcp_close_timeout_ms \<equiv> 2500"
abbreviation (input) arwill_tcp_endpoint_capacity :: nat where "arwill_tcp_endpoint_capacity \<equiv> 4"
abbreviation (input) arwill_tcp_arp_retry_ms :: u64 where "arwill_tcp_arp_retry_ms \<equiv> 250"
abbreviation (input) arwill_tcp_arp_max_attempts :: u32 where "arwill_tcp_arp_max_attempts \<equiv> 3"
abbreviation (input) arwill_udp_endpoint_capacity :: nat where "arwill_udp_endpoint_capacity \<equiv> 4"
abbreviation (input) arwill_udp_payload_capacity :: nat where "arwill_udp_payload_capacity \<equiv> 512"
abbreviation (input) arwill_udp_arp_retry_ms :: u64 where "arwill_udp_arp_retry_ms \<equiv> 250"
abbreviation (input) arwill_udp_arp_max_attempts :: u32 where "arwill_udp_arp_max_attempts \<equiv> 3"

record arwill_tcp_pending_segment =
  ps_segment :: arwill_tcp_segment
  ps_payload :: bytes
  ps_payload_length :: nat
  ps_expected_acknowledgement :: u32
  ps_sent_at_milliseconds :: u64
  ps_retransmission_timeout_ms :: u64
  ps_retransmissions :: u32
  ps_active :: bool

record arwill_tcp_endpoint =
  ep_stream :: arwill_tcp_stream
  ep_tcp_peer_mac :: bytes
  ep_tcp_pending :: "arwill_tcp_pending_segment list"
  ep_tcp_pending_head :: nat
  ep_tcp_pending_count :: nat
  ep_tcp_close_started_milliseconds :: u64
  ep_tcp_time_wait_started_milliseconds :: u64
  ep_tcp_smoothed_round_trip_ms :: u64
  ep_tcp_round_trip_variance_ms :: u64
  ep_tcp_retransmission_timeout_ms :: u64
  ep_tcp_last_advertised_window :: u16
  ep_tcp_window_update_pending :: bool
  ep_connect_peer_address :: bytes
  ep_connect_next_hop :: bytes
  ep_connect_peer_port :: u16
  ep_connect_local_port :: u16
  ep_bound_port :: u16
  ep_connect_arp_sent_milliseconds :: u64
  ep_connect_arp_attempts :: u32
  ep_connect_pending :: bool
  ep_connect_failed :: bool
  ep_active_open :: bool
  ep_allocated :: bool

record arwill_tcp_endpoint_snapshot =
  sn_allocated :: bool
  sn_listening :: bool
  sn_connected :: bool
  sn_owner :: bytes
  sn_state :: bytes
  sn_local_port :: u16
  sn_peer_address :: bytes
  sn_peer_port :: u16
  sn_receive_available :: nat
  sn_peer_window :: u16
  sn_peer_maximum_segment_size :: u16
  sn_pending_segments :: nat
  sn_smoothed_round_trip_ms :: u64
  sn_retransmission_timeout_ms :: u64
  sn_connections :: u32
  sn_disconnects :: u32
  sn_bytes_received :: u32
  sn_bytes_sent :: u32
  sn_bytes_dropped :: u32
  sn_send_failures :: u32

record arwill_udp_endpoint =
  ue_receive :: bytes
  ue_receive_length :: nat
  ue_peer_address :: bytes
  ue_next_hop :: bytes
  ue_peer_mac :: bytes
  ue_local_port :: u16
  ue_peer_port :: u16
  ue_arp_sent_milliseconds :: u64
  ue_arp_attempts :: u32
  ue_allocated :: bool
  ue_bound :: bool
  ue_connected :: bool
  ue_resolving :: bool
  ue_failed :: bool

record ('n, 'k) arwill_ipv4_stack =
  ip_network :: "'n arwill_network_device option"
  ip_clock :: "'k arwill_clock option"
  ip_mac :: bytes
  ip_address :: bytes
  ip_gateway :: bytes
  ip_gateway_mac :: bytes
  ip_gateway_resolved :: bool
  ip_echo_identifier :: u16
  ip_echo_sequence :: u16
  ip_icmp_echo_requests_received :: u32
  ip_icmp_echo_replies_sent :: u32
  ip_icmp_checksum_drops :: u32
  ip_endpoints :: "arwill_tcp_endpoint list"
  ip_tcp_frames_received :: u32
  ip_tcp_frames_sent :: u32
  ip_tcp_bytes_received :: u32
  ip_tcp_bytes_sent :: u32
  ip_tcp_syn_received :: u32
  ip_tcp_syn_ack_sent :: u32
  ip_tcp_fin_received :: u32
  ip_tcp_rst_received :: u32
  ip_tcp_rst_sent :: u32
  ip_tcp_unknown_port_frames :: u32
  ip_tcp_tuple_mismatches :: u32
  ip_tcp_checksum_drops :: u32
  ip_tcp_duplicate_acks :: u32
  ip_tcp_retransmissions :: u32
  ip_tcp_retransmission_backoffs :: u32
  ip_tcp_timeouts :: u32
  ip_tcp_receive_window_drops :: u32
  ip_tcp_window_updates :: u32
  ip_udp_endpoints :: "arwill_udp_endpoint list"
  ip_udp_frames_received :: u32
  ip_udp_frames_sent :: u32
  ip_udp_bytes_received :: u32
  ip_udp_bytes_sent :: u32
  ip_udp_checksum_drops :: u32
  ip_udp_port_drops :: u32
  ip_udp_queue_drops :: u32

text \<open>The endpoint at an index and the update of the endpoint at an index.\<close>

definition endpoint_at :: "('n, 'k) arwill_ipv4_stack \<Rightarrow> nat \<Rightarrow> arwill_tcp_endpoint" where
  "endpoint_at stack i = ip_endpoints stack ! i"

definition with_endpoint ::
    "nat \<Rightarrow> (arwill_tcp_endpoint \<Rightarrow> arwill_tcp_endpoint) \<Rightarrow> ('n, 'k) arwill_ipv4_stack \<Rightarrow>
     ('n, 'k) arwill_ipv4_stack" where
  "with_endpoint i f stack =
     stack\<lparr>ip_endpoints := (ip_endpoints stack)[i := f (ip_endpoints stack ! i)]\<rparr>"

definition udp_at :: "('n, 'k) arwill_ipv4_stack \<Rightarrow> nat \<Rightarrow> arwill_udp_endpoint" where
  "udp_at stack i = ip_udp_endpoints stack ! i"

definition with_udp ::
    "nat \<Rightarrow> (arwill_udp_endpoint \<Rightarrow> arwill_udp_endpoint) \<Rightarrow> ('n, 'k) arwill_ipv4_stack \<Rightarrow>
     ('n, 'k) arwill_ipv4_stack" where
  "with_udp i f stack =
     stack\<lparr>ip_udp_endpoints := (ip_udp_endpoints stack)[i := f (ip_udp_endpoints stack ! i)]\<rparr>"

section \<open>Initialisation\<close>

definition initialize_tcp_endpoint :: "arwill_tcp_endpoint \<Rightarrow> arwill_tcp_endpoint" where
  "initialize_tcp_endpoint endpoint =
     endpoint\<lparr>ep_stream := arwill_tcp_stream_init (ep_stream endpoint),
       ep_tcp_pending := map (\<lambda>pending.
         pending\<lparr>ps_active := False, ps_payload_length := 0, ps_expected_acknowledgement := 0,
           ps_sent_at_milliseconds := 0,
           ps_retransmission_timeout_ms := arwill_tcp_retransmission_interval_ms,
           ps_retransmissions := 0\<rparr>) (ep_tcp_pending endpoint),
       ep_tcp_pending_head := 0, ep_tcp_pending_count := 0,
       ep_tcp_close_started_milliseconds := 0, ep_tcp_time_wait_started_milliseconds := 0,
       ep_tcp_smoothed_round_trip_ms := 0, ep_tcp_round_trip_variance_ms := 0,
       ep_tcp_retransmission_timeout_ms := arwill_tcp_retransmission_interval_ms,
       ep_tcp_last_advertised_window := of_nat arwill_tcp_stream_receive_capacity,
       ep_tcp_window_update_pending := False,
       ep_connect_peer_address := [0, 0, 0, 0], ep_connect_next_hop := [0, 0, 0, 0],
       ep_connect_peer_port := 0, ep_connect_local_port := 0, ep_bound_port := 0,
       ep_connect_arp_sent_milliseconds := 0, ep_connect_arp_attempts := 0,
       ep_connect_pending := False, ep_connect_failed := False, ep_active_open := False,
       ep_allocated := False\<rparr>"

definition initialize_udp_endpoint :: "arwill_udp_endpoint \<Rightarrow> arwill_udp_endpoint" where
  "initialize_udp_endpoint endpoint =
     endpoint\<lparr>ue_receive_length := 0, ue_peer_address := [0, 0, 0, 0], ue_next_hop := [0, 0, 0, 0],
       ue_peer_mac := [0, 0, 0, 0, 0, 0], ue_local_port := 0, ue_peer_port := 0,
       ue_arp_sent_milliseconds := 0, ue_arp_attempts := 0, ue_allocated := False,
       ue_bound := False, ue_connected := False, ue_resolving := False, ue_failed := False\<rparr>"

text \<open>The stack is returned unchanged but for the MAC when the guard fails, as in the source.\<close>

definition arwill_ipv4_init ::
    "('n, 'k) arwill_ipv4_stack \<Rightarrow> 'n arwill_network_device option \<Rightarrow> 'k arwill_clock option \<Rightarrow> u16 \<Rightarrow>
     bool \<times> ('n, 'k) arwill_ipv4_stack" where
  "arwill_ipv4_init stack network clock remote_console_port =
     (if network = None \<or> clock = None \<or> remote_console_port = 0 then (False, stack)
      else
        (case arwill_network_read_mac network (Some (ip_mac stack)) of
           (ok, mac, network) \<Rightarrow>
             let stack = stack\<lparr>ip_mac := the mac\<rparr>
             in if \<not> ok then (False, stack)
                else
                  (True,
                   stack\<lparr>ip_network := network, ip_clock := clock,
                     ip_address := [10, 0, 2, 15], ip_gateway := [10, 0, 2, 2],
                     ip_gateway_resolved := False, ip_echo_identifier := 0x4152,
                     ip_echo_sequence := 0, ip_icmp_echo_requests_received := 0,
                     ip_icmp_echo_replies_sent := 0, ip_icmp_checksum_drops := 0,
                     ip_endpoints :=
                       (let endpoints = map initialize_tcp_endpoint (ip_endpoints stack);
                            first = endpoints ! 0
                        in endpoints[0 := first\<lparr>ep_allocated := True,
                             ep_bound_port := remote_console_port,
                             ep_stream := snd (arwill_tcp_stream_listen (ep_stream first)
                               remote_console_port 0x41520000)\<rparr>]),
                     ip_tcp_frames_received := 0, ip_tcp_frames_sent := 0,
                     ip_tcp_bytes_received := 0, ip_tcp_bytes_sent := 0, ip_tcp_syn_received := 0,
                     ip_tcp_syn_ack_sent := 0, ip_tcp_fin_received := 0, ip_tcp_rst_received := 0,
                     ip_tcp_rst_sent := 0, ip_tcp_unknown_port_frames := 0,
                     ip_tcp_tuple_mismatches := 0, ip_tcp_checksum_drops := 0,
                     ip_tcp_duplicate_acks := 0, ip_tcp_retransmissions := 0,
                     ip_tcp_retransmission_backoffs := 0, ip_tcp_timeouts := 0,
                     ip_tcp_receive_window_drops := 0, ip_tcp_window_updates := 0,
                     ip_udp_endpoints := map initialize_udp_endpoint (ip_udp_endpoints stack),
                     ip_udp_frames_received := 0, ip_udp_frames_sent := 0,
                     ip_udp_bytes_received := 0, ip_udp_bytes_sent := 0,
                     ip_udp_checksum_drops := 0, ip_udp_port_drops := 0,
                     ip_udp_queue_drops := 0\<rparr>)))"

section \<open>The table of TCP endpoints\<close>

definition reset_tcp_stream :: "arwill_tcp_endpoint \<Rightarrow> arwill_tcp_endpoint" where
  "reset_tcp_stream endpoint =
     (let stream = ep_stream endpoint
      in endpoint\<lparr>ep_stream := stream\<lparr>
             st_bytes_dropped := st_bytes_dropped stream + of_nat (st_transmit_count stream),
             st_listener := arwill_tcp_listener_reset (st_listener stream)
               (0x41520000 + st_connections stream),
             st_receive_head := 0, st_receive_count := 0, st_transmit_head := 0,
             st_transmit_count := 0, st_peer_closed := False, st_close_requested := False,
             st_receive_window_changed := False\<rparr>,
           ep_tcp_pending := map (\<lambda>pending.
             pending\<lparr>ps_active := False, ps_payload_length := 0, ps_retransmissions := 0\<rparr>)
             (ep_tcp_pending endpoint),
           ep_tcp_pending_head := 0, ep_tcp_pending_count := 0,
           ep_tcp_close_started_milliseconds := 0, ep_tcp_time_wait_started_milliseconds := 0,
           ep_tcp_window_update_pending := False, ep_connect_pending := False,
           ep_connect_arp_sent_milliseconds := 0, ep_connect_arp_attempts := 0,
           ep_active_open := False\<rparr>)"

definition arwill_ipv4_remote_stream :: "('n, 'k) arwill_ipv4_stack \<Rightarrow> nat" where
  "arwill_ipv4_remote_stream stack = 0"

definition arwill_ipv4_tcp_endpoint_snapshot ::
    "('n, 'k) arwill_ipv4_stack \<Rightarrow> nat \<Rightarrow> arwill_tcp_endpoint_snapshot option" where
  "arwill_ipv4_tcp_endpoint_snapshot stack index =
     (if index \<ge> arwill_tcp_endpoint_capacity then None
      else
        (let endpoint = endpoint_at stack index; stream = ep_stream endpoint;
             listener = st_listener stream
         in Some \<lparr>
              sn_allocated = ep_allocated endpoint,
              sn_listening = (ep_allocated endpoint \<and> st_listening stream),
              sn_connected = (ep_allocated endpoint \<and> arwill_tcp_stream_connected stream),
              sn_owner = (if index = 0 then bytes_of ''remote-console'' else bytes_of ''application''),
              sn_state =
                (if \<not> ep_allocated endpoint then bytes_of ''free''
                 else if ep_connect_failed endpoint then bytes_of ''connect-failed''
                 else if ep_connect_pending endpoint then bytes_of ''resolving-peer''
                 else if \<not> st_listening stream then bytes_of ''idle''
                 else arwill_tcp_state_name (ln_state listener)),
              sn_local_port = ep_bound_port endpoint,
              sn_peer_address = take 4 (if ep_connect_pending endpoint
                then ep_connect_peer_address endpoint else ln_peer_address listener),
              sn_peer_port = (if ep_connect_pending endpoint
                then ep_connect_peer_port endpoint else ln_peer_port listener),
              sn_receive_available = arwill_tcp_stream_receive_capacity - st_receive_count stream,
              sn_peer_window = ln_peer_window listener,
              sn_peer_maximum_segment_size = ln_peer_maximum_segment_size listener,
              sn_pending_segments = ep_tcp_pending_count endpoint,
              sn_smoothed_round_trip_ms = ep_tcp_smoothed_round_trip_ms endpoint,
              sn_retransmission_timeout_ms = ep_tcp_retransmission_timeout_ms endpoint,
              sn_connections = st_connections stream, sn_disconnects = st_disconnects stream,
              sn_bytes_received = st_bytes_received stream, sn_bytes_sent = st_bytes_sent stream,
              sn_bytes_dropped = st_bytes_dropped stream,
              sn_send_failures = st_send_failures stream\<rparr>))"

definition arwill_ipv4_tcp_open ::
    "('n, 'k) arwill_ipv4_stack \<Rightarrow> nat option \<times> ('n, 'k) arwill_ipv4_stack" where
  "arwill_ipv4_tcp_open stack =
     (case find (\<lambda>index. \<not> ep_allocated (endpoint_at stack index)) [1..<arwill_tcp_endpoint_capacity] of
        None \<Rightarrow> (None, stack)
      | Some index \<Rightarrow>
          (Some index,
           with_endpoint index
             (\<lambda>endpoint. (initialize_tcp_endpoint endpoint)\<lparr>ep_allocated := True\<rparr>) stack))"

definition endpoint_for_stream :: "('n, 'k) arwill_ipv4_stack \<Rightarrow> nat \<Rightarrow> nat option" where
  "endpoint_for_stream stack stream =
     find (\<lambda>index. index = stream \<and> ep_allocated (endpoint_at stack index))
       [0..<arwill_tcp_endpoint_capacity]"

definition local_port_available :: "('n, 'k) arwill_ipv4_stack \<Rightarrow> nat \<Rightarrow> u16 \<Rightarrow> bool" where
  "local_port_available stack endpoint port =
     list_all (\<lambda>index. \<not> (index \<noteq> endpoint \<and> ep_allocated (endpoint_at stack index) \<and>
         ep_bound_port (endpoint_at stack index) = port))
       [0..<arwill_tcp_endpoint_capacity]"

definition arwill_ipv4_tcp_bind ::
    "('n, 'k) arwill_ipv4_stack \<Rightarrow> nat \<Rightarrow> u16 \<Rightarrow> bool \<times> ('n, 'k) arwill_ipv4_stack" where
  "arwill_ipv4_tcp_bind stack stream port =
     (case endpoint_for_stream stack stream of
        None \<Rightarrow> (False, stack)
      | Some i \<Rightarrow>
          if port = 0 \<or> ep_bound_port (endpoint_at stack i) \<noteq> 0 \<or>
             \<not> local_port_available stack i port
          then (False, stack)
          else (True, with_endpoint i (\<lambda>endpoint. endpoint\<lparr>ep_bound_port := port\<rparr>) stack))"

definition listen_endpoint :: "u16 \<Rightarrow> arwill_tcp_endpoint \<Rightarrow> arwill_tcp_endpoint" where
  "listen_endpoint port endpoint =
     (let endpoint = (reset_tcp_stream endpoint)
            \<lparr>ep_bound_port := port, ep_connect_failed := False, ep_active_open := False\<rparr>;
          stream = ep_stream endpoint
      in endpoint\<lparr>ep_stream := snd (arwill_tcp_stream_listen stream port
           (0x41520000 + st_connections stream))\<rparr>)"

definition arwill_ipv4_tcp_listen ::
    "('n, 'k) arwill_ipv4_stack \<Rightarrow> nat \<Rightarrow> u16 \<Rightarrow> bool \<times> ('n, 'k) arwill_ipv4_stack" where
  "arwill_ipv4_tcp_listen stack stream port =
     (case endpoint_for_stream stack stream of
        None \<Rightarrow> (False, stack)
      | Some i \<Rightarrow>
          if port = 0 \<or> (ep_bound_port (endpoint_at stack i) \<noteq> 0 \<and>
             ep_bound_port (endpoint_at stack i) \<noteq> port)
          then (False, stack)
          else
            (case (if ep_bound_port (endpoint_at stack i) = 0
                   then arwill_ipv4_tcp_bind stack stream port else (True, stack)) of
               (bound, stack) \<Rightarrow>
                 if \<not> bound then (False, stack)
                 else (True, with_endpoint i (listen_endpoint port) stack)))"

text \<open>The next hop of a peer: itself on the local network of the first three bytes, else the gateway.\<close>

definition next_hop_for :: "('n, 'k) arwill_ipv4_stack \<Rightarrow> bytes \<Rightarrow> bytes" where
  "next_hop_for stack peer_address =
     (if peer_address ! 0 = ip_address stack ! 0 \<and> peer_address ! 1 = ip_address stack ! 1 \<and>
         peer_address ! 2 = ip_address stack ! 2
      then take 4 peer_address else take 4 (ip_gateway stack))"

definition connect_endpoint ::
    "bytes \<Rightarrow> bytes \<Rightarrow> u16 \<Rightarrow> u16 \<Rightarrow> arwill_tcp_endpoint \<Rightarrow> arwill_tcp_endpoint" where
  "connect_endpoint peer_address next_hop local_port peer_port endpoint =
     (let endpoint = reset_tcp_stream endpoint; stream = ep_stream endpoint
      in endpoint\<lparr>ep_bound_port := local_port,
           ep_stream := stream\<lparr>st_listening := True,
             st_listener := (st_listener stream)\<lparr>ln_port := local_port\<rparr>\<rparr>,
           ep_connect_local_port := local_port, ep_connect_peer_port := peer_port,
           ep_connect_peer_address := take 4 peer_address, ep_connect_next_hop := next_hop,
           ep_connect_pending := True, ep_active_open := True, ep_connect_failed := False,
           ep_connect_arp_attempts := 0, ep_connect_arp_sent_milliseconds := 0\<rparr>)"

definition arwill_ipv4_tcp_connect ::
    "('n, 'k) arwill_ipv4_stack \<Rightarrow> nat \<Rightarrow> bytes \<Rightarrow> u16 \<Rightarrow> u16 \<Rightarrow> int \<times> ('n, 'k) arwill_ipv4_stack" where
  "arwill_ipv4_tcp_connect stack stream peer_address local_port peer_port =
     (case endpoint_for_stream stack stream of
        None \<Rightarrow> (-1, stack)
      | Some i \<Rightarrow>
         (let endpoint = endpoint_at stack i
          in if local_port = 0 \<or> peer_port = 0 \<or> ep_bound_port endpoint \<noteq> local_port then (-1, stack)
             else if arwill_tcp_stream_connected (ep_stream endpoint) then (1, stack)
             else if ep_connect_failed endpoint then (-1, stack)
             else if ep_connect_pending endpoint \<or>
               ln_state (st_listener (ep_stream endpoint)) = Tcp_syn_sent then (0, stack)
             else (0, with_endpoint i
               (connect_endpoint peer_address (next_hop_for stack peer_address) local_port peer_port)
               stack)))"

definition arwill_ipv4_tcp_connect_status :: "('n, 'k) arwill_ipv4_stack \<Rightarrow> nat \<Rightarrow> int" where
  "arwill_ipv4_tcp_connect_status stack stream =
     (case endpoint_for_stream stack stream of
        None \<Rightarrow> -1
      | Some i \<Rightarrow>
          if ep_connect_failed (endpoint_at stack i) then -1
          else if arwill_tcp_stream_connected (ep_stream (endpoint_at stack i)) then 1 else 0)"

definition arwill_ipv4_tcp_release ::
    "('n, 'k) arwill_ipv4_stack \<Rightarrow> nat \<Rightarrow> ('n, 'k) arwill_ipv4_stack" where
  "arwill_ipv4_tcp_release stack stream =
     (case endpoint_for_stream stack stream of
        None \<Rightarrow> stack
      | Some i \<Rightarrow>
          if i = 0 then stack
          else with_endpoint i (\<lambda>endpoint. initialize_tcp_endpoint
            (endpoint\<lparr>ep_stream := arwill_tcp_stream_stop (ep_stream endpoint)\<rparr>)) stack)"

section \<open>The table of UDP endpoints\<close>

definition udp_endpoint_for_pointer :: "('n, 'k) arwill_ipv4_stack \<Rightarrow> nat \<Rightarrow> nat option" where
  "udp_endpoint_for_pointer stack endpoint =
     find (\<lambda>index. index = endpoint \<and> ue_allocated (udp_at stack index))
       [0..<arwill_udp_endpoint_capacity]"

definition arwill_ipv4_udp_open ::
    "('n, 'k) arwill_ipv4_stack \<Rightarrow> nat option \<times> ('n, 'k) arwill_ipv4_stack" where
  "arwill_ipv4_udp_open stack =
     (case find (\<lambda>index. \<not> ue_allocated (udp_at stack index)) [0..<arwill_udp_endpoint_capacity] of
        None \<Rightarrow> (None, stack)
      | Some index \<Rightarrow>
          (Some index,
           with_udp index (\<lambda>endpoint. (initialize_udp_endpoint endpoint)\<lparr>ue_allocated := True\<rparr>) stack))"

definition arwill_ipv4_udp_bind ::
    "('n, 'k) arwill_ipv4_stack \<Rightarrow> nat \<Rightarrow> u16 \<Rightarrow> bool \<times> ('n, 'k) arwill_ipv4_stack" where
  "arwill_ipv4_udp_bind stack endpoint port =
     (if udp_endpoint_for_pointer stack endpoint = None \<or> port = 0 \<or> ue_bound (udp_at stack endpoint)
      then (False, stack)
      else if list_ex (\<lambda>index. index \<noteq> endpoint \<and> ue_allocated (udp_at stack index) \<and>
            ue_bound (udp_at stack index) \<and> ue_local_port (udp_at stack index) = port)
          [0..<arwill_udp_endpoint_capacity]
      then (False, stack)
      else (True, with_udp endpoint (\<lambda>e. e\<lparr>ue_local_port := port, ue_bound := True\<rparr>) stack))"

definition arwill_ipv4_udp_connect ::
    "('n, 'k) arwill_ipv4_stack \<Rightarrow> nat \<Rightarrow> bytes \<Rightarrow> u16 \<Rightarrow> int \<times> ('n, 'k) arwill_ipv4_stack" where
  "arwill_ipv4_udp_connect stack endpoint peer_address peer_port =
     (let e = udp_at stack endpoint
      in if udp_endpoint_for_pointer stack endpoint = None \<or> peer_port = 0 \<or> \<not> ue_bound e \<or>
           ue_connected e \<or> ue_resolving e \<or> ue_failed e
         then (-1, stack)
         else (0, with_udp endpoint
           (\<lambda>e. e\<lparr>ue_peer_address := take 4 peer_address,
                  ue_next_hop := next_hop_for stack peer_address, ue_peer_port := peer_port,
                  ue_arp_sent_milliseconds := 0, ue_arp_attempts := 0, ue_resolving := True\<rparr>) stack))"

definition arwill_ipv4_udp_connect_status :: "('n, 'k) arwill_ipv4_stack \<Rightarrow> nat \<Rightarrow> int" where
  "arwill_ipv4_udp_connect_status stack endpoint =
     (if udp_endpoint_for_pointer stack endpoint = None \<or> ue_failed (udp_at stack endpoint) then -1
      else if ue_connected (udp_at stack endpoint) then 1 else 0)"

definition arwill_ipv4_udp_release ::
    "('n, 'k) arwill_ipv4_stack \<Rightarrow> nat \<Rightarrow> ('n, 'k) arwill_ipv4_stack" where
  "arwill_ipv4_udp_release stack endpoint =
     (if udp_endpoint_for_pointer stack endpoint \<noteq> None
      then with_udp endpoint initialize_udp_endpoint stack else stack)"

text \<open>The bytes received and the result; a result of \<open>-1\<close> or \<open>0\<close> leaves the caller's buffer alone.\<close>

definition arwill_ipv4_udp_receive ::
    "('n, 'k) arwill_ipv4_stack \<Rightarrow> nat \<Rightarrow> bytes option \<Rightarrow> nat \<Rightarrow>
     int \<times> bytes option \<times> ('n, 'k) arwill_ipv4_stack" where
  "arwill_ipv4_udp_receive stack endpoint data capacity =
     (let e = udp_at stack endpoint
      in if udp_endpoint_for_pointer stack endpoint = None \<or> data = None \<or> capacity = 0
         then (-1, data, stack)
         else if ue_receive_length e = 0 then (0, data, stack)
         else if capacity < ue_receive_length e then (-1, data, stack)
         else (int (ue_receive_length e),
               Some (copy_into (the data) 0 (ue_receive e) (ue_receive_length e)),
               with_udp endpoint (\<lambda>e. e\<lparr>ue_receive_length := 0\<rparr>) stack))"

end
