(* ===== verification/Ipv4_Send.thy ===== *)
theory Ipv4_Send
  imports Ipv4
begin

text \<open>
  \<open>kernel/ipv4.c\<close>, second part: the frames the stack sends. Every builder fills a
  zeroed frame as the source does; the function that sends it hands the frame to
  the network device of the stack and counts it.
\<close>

section \<open>Sending\<close>

definition send_frame ::
    "('n, 'k) arwill_ipv4_stack \<Rightarrow> bytes \<Rightarrow> nat \<Rightarrow> bool \<times> ('n, 'k) arwill_ipv4_stack" where
  "send_frame stack frame len =
     (case arwill_network_send_frame (ip_network stack) (Some frame) len of
        (ok, network) \<Rightarrow> (ok, stack\<lparr>ip_network := network\<rparr>))"

definition read_clock :: "('n, 'k) arwill_ipv4_stack \<Rightarrow> u64 \<times> ('n, 'k) arwill_ipv4_stack" where
  "read_clock stack =
     (case arwill_clock_monotonic_milliseconds (ip_clock stack) of
        (now, clock) \<Rightarrow> (now, stack\<lparr>ip_clock := clock\<rparr>))"

definition broadcast_mac :: bytes where
  "broadcast_mac = [0xff, 0xff, 0xff, 0xff, 0xff, 0xff]"

section \<open>ARP\<close>

definition arp_request_frame :: "bytes \<Rightarrow> bytes \<Rightarrow> bytes \<Rightarrow> bytes" where
  "arp_request_frame mac address target =
     (let frame = replicate 60 0;
          frame = copy_into frame 0 broadcast_mac arwill_network_mac_length;
          frame = copy_into frame 6 mac arwill_network_mac_length;
          frame = put16 frame 12 0x0806;
          frame = put16 frame 14 1;
          frame = put16 frame 16 0x0800;
          frame = frame[18 := 6, 19 := 4];
          frame = put16 frame 20 1;
          frame = copy_into frame 22 mac arwill_network_mac_length;
          frame = copy_into frame 28 address 4
      in copy_into frame 38 target 4)"

definition arwill_ipv4_send_arp_request ::
    "('n, 'k) arwill_ipv4_stack \<Rightarrow> bytes \<Rightarrow> bool \<times> ('n, 'k) arwill_ipv4_stack" where
  "arwill_ipv4_send_arp_request stack target =
     (if ip_network stack = None then (False, stack)
      else send_frame stack (arp_request_frame (ip_mac stack) (ip_address stack) target) 60)"

definition arp_reply_frame :: "bytes \<Rightarrow> bytes \<Rightarrow> bytes \<Rightarrow> bytes" where
  "arp_reply_frame mac address request =
     (let frame = replicate 60 0;
          frame = copy_into frame 0 (drop 22 request) arwill_network_mac_length;
          frame = copy_into frame 6 mac arwill_network_mac_length;
          frame = copy_into frame 22 mac arwill_network_mac_length;
          frame = copy_into frame 32 (drop 22 request) arwill_network_mac_length;
          frame = put16 frame 12 0x0806;
          frame = put16 frame 14 1;
          frame = put16 frame 16 0x0800;
          frame = frame[18 := 6, 19 := 4];
          frame = put16 frame 20 2;
          frame = copy_into frame 28 address 4
      in copy_into frame 38 (drop 28 request) 4)"

definition send_arp_reply ::
    "('n, 'k) arwill_ipv4_stack \<Rightarrow> bytes \<Rightarrow> bool \<times> ('n, 'k) arwill_ipv4_stack" where
  "send_arp_reply stack request =
     send_frame stack (arp_reply_frame (ip_mac stack) (ip_address stack) request) 60"

section \<open>ICMP echo\<close>

text \<open>The reply to an echo request: the request with the two ends swapped and both checksums renewed.\<close>

definition echo_reply_frame :: "bytes \<Rightarrow> bytes \<Rightarrow> bytes \<Rightarrow> nat \<Rightarrow> nat \<Rightarrow> bytes" where
  "echo_reply_frame mac address request ip_header_length ip_length =
     (let frame_length = 14 + ip_length; icmp = 14 + ip_header_length;
          frame = replicate arwill_network_frame_capacity 0;
          frame = copy_into frame 0 request frame_length;
          frame = copy_into frame 0 (drop 6 request) arwill_network_mac_length;
          frame = copy_into frame 6 mac arwill_network_mac_length;
          frame = copy_into frame 26 address 4;
          frame = copy_into frame 30 (drop 26 request) 4;
          frame = frame[22 := 64];
          frame = put16 frame 24 0;
          frame = put16 frame 24 (checksum (drop 14 frame) ip_header_length);
          frame = frame[icmp := 0];
          frame = put16 frame (icmp + 2) 0
      in put16 frame (icmp + 2) (checksum (drop icmp frame) (ip_length - ip_header_length)))"

definition send_echo_reply ::
    "('n, 'k) arwill_ipv4_stack \<Rightarrow> bytes \<Rightarrow> nat \<Rightarrow> bool \<times> ('n, 'k) arwill_ipv4_stack" where
  "send_echo_reply stack request request_length =
     (let request_ip = drop 14 request;
          ip_header_length = unat (request_ip ! 0 AND 0x0f) * 4;
          ip_length = unat (get16 request_ip 2);
          frame_length = 14 + ip_length
      in if drop_bit 4 (request_ip ! 0) \<noteq> 4 \<or> ip_header_length < 20 \<or>
            ip_length < ip_header_length + 8 \<or> frame_length > request_length \<or>
            get16 request_ip 6 AND 0x3fff \<noteq> 0 \<or> request_ip ! 9 \<noteq> 1 \<or>
            \<not> same_bytes (drop 16 request_ip) (ip_address stack) 4
         then (False, stack)
         else if checksum request_ip ip_header_length \<noteq> 0 then
           (False, stack\<lparr>ip_icmp_checksum_drops := ip_icmp_checksum_drops stack + 1\<rparr>)
         else
           (let icmp_length = ip_length - ip_header_length;
                request_icmp = drop ip_header_length request_ip
            in if request_icmp ! 0 \<noteq> 8 \<or> request_icmp ! 1 \<noteq> 0 then (False, stack)
               else if checksum request_icmp icmp_length \<noteq> 0 then
                 (False, stack\<lparr>ip_icmp_checksum_drops := ip_icmp_checksum_drops stack + 1\<rparr>)
               else
                 (let stack = stack\<lparr>ip_icmp_echo_requests_received :=
                          ip_icmp_echo_requests_received stack + 1\<rparr>
                  in case send_frame stack
                         (echo_reply_frame (ip_mac stack) (ip_address stack) request
                           ip_header_length ip_length)
                         (if frame_length < 60 then 60 else frame_length) of
                       (ok, stack) \<Rightarrow>
                         if \<not> ok then (False, stack)
                         else (True, stack\<lparr>ip_icmp_echo_replies_sent :=
                           ip_icmp_echo_replies_sent stack + 1\<rparr>))))"

definition echo_request_frame :: "('n, 'k) arwill_ipv4_stack \<Rightarrow> bytes" where
  "echo_request_frame stack =
     (let frame = replicate 60 0;
          frame = copy_into frame 0 (ip_gateway_mac stack) arwill_network_mac_length;
          frame = copy_into frame 6 (ip_mac stack) arwill_network_mac_length;
          frame = put16 frame 12 0x0800;
          frame = frame[14 := 0x45];
          frame = put16 frame 16 28;
          frame = put16 frame 18 (ip_echo_sequence stack);
          frame = frame[20 := 0x40, 22 := 64, 23 := 1];
          frame = copy_into frame 26 (ip_address stack) 4;
          frame = copy_into frame 30 (ip_gateway stack) 4;
          frame = put16 frame 24 (checksum (drop 14 frame) 20);
          frame = frame[34 := 8];
          frame = put16 frame 38 (ip_echo_identifier stack);
          frame = put16 frame 40 (ip_echo_sequence stack)
      in put16 frame 36 (checksum (drop 34 frame) 8))"

definition send_echo :: "('n, 'k) arwill_ipv4_stack \<Rightarrow> bool \<times> ('n, 'k) arwill_ipv4_stack" where
  "send_echo stack =
     send_frame (stack\<lparr>ip_echo_sequence := ip_echo_sequence stack + 1\<rparr>) (echo_request_frame stack) 60"

section \<open>Resolving the gateway and the ping\<close>

text \<open>
  \<open>idle\<close> stands for \<open>arwill_cpu_wait_for_interrupt\<close>: time passes for the devices of
  the stack. The frame buffer of the caller is zeroed before the first poll; the
  source leaves it unspecified and reads it only below the length a poll returned.
\<close>

definition poll_frame ::
    "('n, 'k) arwill_ipv4_stack \<Rightarrow> bytes \<Rightarrow> bool \<times> bytes \<times> nat \<times> ('n, 'k) arwill_ipv4_stack" where
  "poll_frame stack frame =
     (case arwill_network_poll_frame (ip_network stack) (Some frame) arwill_network_frame_capacity of
        (ok, frame, len, network) \<Rightarrow> (ok, the frame, len, stack\<lparr>ip_network := network\<rparr>))"

fun wait_for_frame ::
    "(('n, 'k) arwill_ipv4_stack \<Rightarrow> ('n, 'k) arwill_ipv4_stack) \<Rightarrow>
     (('n, 'k) arwill_ipv4_stack \<Rightarrow> bytes \<Rightarrow> nat \<Rightarrow> bool) \<Rightarrow> nat list \<Rightarrow> bytes \<Rightarrow>
     ('n, 'k) arwill_ipv4_stack \<Rightarrow> (bytes option) \<times> ('n, 'k) arwill_ipv4_stack" where
  "wait_for_frame idle wanted [] frame stack = (None, stack)"
| "wait_for_frame idle wanted (attempt # attempts) frame stack =
     (case poll_frame stack frame of
        (ok, frame, len, stack) \<Rightarrow>
          if \<not> ok then
            wait_for_frame idle wanted attempts frame (if attempt mod 64 = 63 then idle stack else stack)
          else if wanted stack frame len then (Some frame, stack)
          else wait_for_frame idle wanted attempts frame stack)"

definition is_gateway_reply :: "('n, 'k) arwill_ipv4_stack \<Rightarrow> bytes \<Rightarrow> nat \<Rightarrow> bool" where
  "is_gateway_reply stack frame len \<longleftrightarrow>
     \<not> (len < 42 \<or> get16 frame 12 \<noteq> 0x0806 \<or> get16 frame 14 \<noteq> 1 \<or> get16 frame 16 \<noteq> 0x0800 \<or>
        frame ! 18 \<noteq> 6 \<or> frame ! 19 \<noteq> 4 \<or> get16 frame 20 \<noteq> 2 \<or>
        \<not> same_bytes (drop 28 frame) (ip_gateway stack) 4 \<or>
        \<not> same_bytes (drop 38 frame) (ip_address stack) 4)"

definition resolve_gateway ::
    "(('n, 'k) arwill_ipv4_stack \<Rightarrow> ('n, 'k) arwill_ipv4_stack) \<Rightarrow> ('n, 'k) arwill_ipv4_stack \<Rightarrow>
     bool \<times> ('n, 'k) arwill_ipv4_stack" where
  "resolve_gateway idle stack =
     (if ip_gateway_resolved stack then (True, stack)
      else
        (case arwill_ipv4_send_arp_request stack (ip_gateway stack) of
           (ok, stack) \<Rightarrow>
             if \<not> ok then (False, stack)
             else
               (case wait_for_frame idle is_gateway_reply [0..<4096]
                       (replicate arwill_network_frame_capacity 0) stack of
                  (None, stack) \<Rightarrow> (False, stack)
                | (Some frame, stack) \<Rightarrow>
                    (True, stack\<lparr>ip_gateway_mac := take arwill_network_mac_length (drop 22 frame),
                             ip_gateway_resolved := True\<rparr>))))"

definition is_echo_reply :: "('n, 'k) arwill_ipv4_stack \<Rightarrow> bytes \<Rightarrow> nat \<Rightarrow> bool" where
  "is_echo_reply stack frame len \<longleftrightarrow>
     \<not> (len < 42 \<or> get16 frame 12 \<noteq> 0x0800 \<or> frame ! 14 \<noteq> 0x45 \<or> frame ! 23 \<noteq> 1 \<or>
        frame ! 34 \<noteq> 0 \<or> frame ! 35 \<noteq> 0 \<or> get16 frame 38 \<noteq> ip_echo_identifier stack \<or>
        get16 frame 40 \<noteq> ip_echo_sequence stack - 1)"

definition arwill_ipv4_ping_gateway ::
    "(('n, 'k) arwill_ipv4_stack \<Rightarrow> ('n, 'k) arwill_ipv4_stack) \<Rightarrow> ('n, 'k) arwill_ipv4_stack \<Rightarrow>
     bool \<times> ('n, 'k) arwill_ipv4_stack" where
  "arwill_ipv4_ping_gateway idle stack =
     (case resolve_gateway idle stack of
        (resolved, stack) \<Rightarrow>
          if \<not> resolved then (False, stack)
          else
            (case send_echo stack of
               (sent, stack) \<Rightarrow>
                 if \<not> sent then (False, stack)
                 else
                   (case wait_for_frame idle is_echo_reply [0..<4096]
                           (replicate arwill_network_frame_capacity 0) stack of
                      (found, stack) \<Rightarrow> (found \<noteq> None, stack))))"

section \<open>UDP datagrams\<close>

definition udp_frame ::
    "('n, 'k) arwill_ipv4_stack \<Rightarrow> arwill_udp_endpoint \<Rightarrow> bytes \<Rightarrow> nat \<Rightarrow> bytes" where
  "udp_frame stack endpoint data len =
     (let udp_length = 8 + len;
          frame = replicate arwill_network_frame_capacity 0;
          frame = copy_into frame 0 (ue_peer_mac endpoint) arwill_network_mac_length;
          frame = copy_into frame 6 (ip_mac stack) arwill_network_mac_length;
          frame = put16 frame 12 0x0800;
          frame = frame[14 := 0x45];
          frame = put16 frame 16 (of_nat (20 + udp_length));
          frame = frame[20 := 0x40, 22 := 64, 23 := 17];
          frame = copy_into frame 26 (ip_address stack) 4;
          frame = copy_into frame 30 (ue_peer_address endpoint) 4;
          frame = put16 frame 24 (checksum (drop 14 frame) 20);
          frame = put16 frame 34 (ue_local_port endpoint);
          frame = put16 frame 36 (ue_peer_port endpoint);
          frame = put16 frame 38 (of_nat udp_length);
          frame = copy_into frame 42 data len;
          datagram_checksum = udp_checksum (drop 14 frame) (drop 34 frame) udp_length
      in put16 frame 40 (if datagram_checksum = 0 then UINT16_MAX else datagram_checksum))"

definition arwill_ipv4_udp_send ::
    "('n, 'k) arwill_ipv4_stack \<Rightarrow> nat \<Rightarrow> bytes option \<Rightarrow> nat \<Rightarrow> int \<times> ('n, 'k) arwill_ipv4_stack" where
  "arwill_ipv4_udp_send stack endpoint data len =
     (if udp_endpoint_for_pointer stack endpoint = None \<or> data = None \<or> len = 0 \<or>
         len > arwill_udp_payload_capacity then (-1, stack)
      else if \<not> ue_connected (udp_at stack endpoint) then
        (if ue_failed (udp_at stack endpoint) then -1 else 0, stack)
      else
        (let frame_length = 14 + 20 + (8 + len)
         in case send_frame stack (udp_frame stack (udp_at stack endpoint) (the data) len)
                (if frame_length < 60 then 60 else frame_length) of
              (ok, stack) \<Rightarrow>
                if \<not> ok then (-1, stack)
                else (1, stack\<lparr>ip_udp_frames_sent := ip_udp_frames_sent stack + 1,
                           ip_udp_bytes_sent := ip_udp_bytes_sent stack + of_nat len\<rparr>)))"

section \<open>TCP segments\<close>

definition advertised_receive_window :: "arwill_tcp_endpoint \<Rightarrow> u16" where
  "advertised_receive_window endpoint =
     (let available = arwill_tcp_stream_receive_capacity - st_receive_count (ep_stream endpoint)
      in if available > 65535 then UINT16_MAX else of_nat available)"

definition tcp_header_length_for :: "arwill_tcp_segment \<Rightarrow> nat" where
  "tcp_header_length_for segment = (if sg_flags segment AND arwill_tcp_flag_syn \<noteq> 0 then 24 else 20)"

definition tcp_frame ::
    "bytes \<Rightarrow> u16 \<Rightarrow> arwill_tcp_segment \<Rightarrow> bytes \<Rightarrow> nat \<Rightarrow> bytes \<Rightarrow> bytes" where
  "tcp_frame mac window segment payload payload_length destination_mac =
     (let tcp_header_length = tcp_header_length_for segment;
          frame = replicate arwill_network_frame_capacity 0;
          frame = copy_into frame 0 destination_mac arwill_network_mac_length;
          frame = copy_into frame 6 mac arwill_network_mac_length;
          frame = put16 frame 12 0x0800;
          frame = frame[14 := 0x45];
          frame = put16 frame 16 (of_nat (20 + tcp_header_length + payload_length));
          frame = frame[20 := 0x40, 22 := 64, 23 := 6];
          frame = copy_into frame 26 (sg_source_address segment) 4;
          frame = copy_into frame 30 (sg_destination_address segment) 4;
          frame = put16 frame 24 (checksum (drop 14 frame) 20);
          frame = put16 frame 34 (sg_source_port segment);
          frame = put16 frame 36 (sg_destination_port segment);
          frame = put32 frame 38 (sg_sequence segment);
          frame = put32 frame 42 (sg_acknowledgement segment);
          frame = frame[46 := push_bit 4 (of_nat (tcp_header_length div 4)), 47 := sg_flags segment];
          frame = put16 frame 48 window;
          frame = (if tcp_header_length = 24
                   then put16 (frame[54 := 2, 55 := 4]) 56 arwill_tcp_local_maximum_segment_size
                   else frame);
          frame = copy_into frame (34 + tcp_header_length) payload payload_length
      in put16 frame 50
           (tcp_checksum (drop 14 frame) (drop 34 frame) (tcp_header_length + payload_length)))"

text \<open>\<open>None\<close> is the null endpoint of a segment that belongs to no connection.\<close>

definition send_tcp_segment_to ::
    "('n, 'k) arwill_ipv4_stack \<Rightarrow> nat option \<Rightarrow> arwill_tcp_segment \<Rightarrow> bytes \<Rightarrow> nat \<Rightarrow> bytes \<Rightarrow>
     bool \<times> ('n, 'k) arwill_ipv4_stack" where
  "send_tcp_segment_to stack endpoint segment payload payload_length destination_mac =
     (let tcp_header_length = tcp_header_length_for segment
      in if sg_flags segment = 0 \<or>
            payload_length > arwill_network_frame_capacity - 14 - 20 - tcp_header_length
         then (True, stack)
         else
           (let window = (case endpoint of None \<Rightarrow> 0
                  | Some i \<Rightarrow> advertised_receive_window (endpoint_at stack i));
                frame_length = 14 + 20 + tcp_header_length + payload_length
            in case send_frame stack
                   (tcp_frame (ip_mac stack) window segment payload payload_length destination_mac)
                   (if frame_length < 60 then 60 else frame_length) of
                 (ok, stack) \<Rightarrow>
                   if \<not> ok then (False, stack)
                   else
                     (let stack = stack\<lparr>ip_tcp_frames_sent := ip_tcp_frames_sent stack + 1,
                            ip_tcp_bytes_sent := ip_tcp_bytes_sent stack + of_nat payload_length\<rparr>
                      in (True,
                          case endpoint of
                            None \<Rightarrow> stack
                          | Some i \<Rightarrow>
                             (let listener = st_listener (ep_stream (endpoint_at stack i))
                              in if sg_source_port segment = ln_port listener \<and>
                                    sg_destination_port segment = ln_peer_port listener
                                 then with_endpoint i
                                   (\<lambda>e. e\<lparr>ep_tcp_last_advertised_window := window\<rparr>) stack
                                 else stack)))))"

definition send_tcp_segment ::
    "('n, 'k) arwill_ipv4_stack \<Rightarrow> nat \<Rightarrow> arwill_tcp_segment \<Rightarrow> bytes \<Rightarrow> nat \<Rightarrow>
     bool \<times> ('n, 'k) arwill_ipv4_stack" where
  "send_tcp_segment stack endpoint segment payload payload_length =
     send_tcp_segment_to stack (Some endpoint) segment payload payload_length
       (ep_tcp_peer_mac (endpoint_at stack endpoint))"

end
