(* ===== verification/Ipv4_Poll.thy ===== *)
theory Ipv4_Poll
  imports Ipv4_Send
begin

text \<open>
  \<open>kernel/ipv4.c\<close>, third part: unacknowledged segments and their timers, the
  maintenance of every endpoint, the transmission of queued data, and
  \<open>arwill_ipv4_poll_tcp\<close>, which does the maintenance and handles one frame.
\<close>

section \<open>Unacknowledged segments\<close>

definition remember_pending_segment ::
    "('n, 'k) arwill_ipv4_stack \<Rightarrow> nat \<Rightarrow> arwill_tcp_segment \<Rightarrow> bytes \<Rightarrow> nat \<Rightarrow>
     bool \<times> ('n, 'k) arwill_ipv4_stack" where
  "remember_pending_segment stack i segment payload payload_length =
     (let endpoint = endpoint_at stack i
      in if payload_length > arwill_tcp_pending_payload_capacity \<or>
            ep_tcp_pending_count endpoint \<ge> arwill_tcp_pending_segment_capacity
         then (False, stack)
         else
           (let index = (ep_tcp_pending_head endpoint + ep_tcp_pending_count endpoint) mod
                  arwill_tcp_pending_segment_capacity
            in case read_clock stack of
                 (now, stack) \<Rightarrow>
                   (True, with_endpoint i (\<lambda>e.
                      e\<lparr>ep_tcp_pending := (ep_tcp_pending e)[index := (ep_tcp_pending e ! index)\<lparr>
                            ps_segment := segment,
                            ps_payload := copy_into (ps_payload (ep_tcp_pending e ! index)) 0
                              payload payload_length,
                            ps_payload_length := payload_length,
                            ps_expected_acknowledgement := sg_sequence segment +
                              of_nat payload_length +
                              (if sg_flags segment AND arwill_tcp_flag_syn \<noteq> 0 \<or>
                                  sg_flags segment AND arwill_tcp_flag_fin \<noteq> 0 then 1 else 0),
                            ps_sent_at_milliseconds := now,
                            ps_retransmission_timeout_ms := ep_tcp_retransmission_timeout_ms e,
                            ps_retransmissions := 0, ps_active := True\<rparr>],
                        ep_tcp_pending_count := ep_tcp_pending_count e + 1\<rparr>) stack)))"

definition blank_tcp_segment :: arwill_tcp_segment where
  "blank_tcp_segment = \<lparr>sg_source_address = [], sg_destination_address = [], sg_source_port = 0,
     sg_destination_port = 0, sg_sequence = 0, sg_acknowledgement = 0, sg_flags = 0,
     sg_window = 0, sg_maximum_segment_size = 0, sg_payload_length = 0\<rparr>"

definition update_listener ::
    "(arwill_tcp_listener \<Rightarrow> arwill_tcp_listener) \<Rightarrow> arwill_tcp_endpoint \<Rightarrow> arwill_tcp_endpoint" where
  "update_listener f endpoint =
     endpoint\<lparr>ep_stream := (ep_stream endpoint)\<lparr>st_listener := f (st_listener (ep_stream endpoint))\<rparr>\<rparr>"

definition update_stream ::
    "(arwill_tcp_stream \<Rightarrow> arwill_tcp_stream) \<Rightarrow> arwill_tcp_endpoint \<Rightarrow> arwill_tcp_endpoint" where
  "update_stream f endpoint = endpoint\<lparr>ep_stream := f (ep_stream endpoint)\<rparr>"

text \<open>
  Sending a segment and remembering it until it is acknowledged, in the order and
  with the short cut of the C conditions.
\<close>

definition send_and_remember ::
    "('n, 'k) arwill_ipv4_stack \<Rightarrow> nat \<Rightarrow> arwill_tcp_segment \<Rightarrow> bytes \<Rightarrow> nat \<Rightarrow>
     bool \<times> ('n, 'k) arwill_ipv4_stack" where
  "send_and_remember stack i segment payload payload_length =
     (case send_tcp_segment stack i segment payload payload_length of
        (sent, stack) \<Rightarrow>
          if \<not> sent then (False, stack)
          else remember_pending_segment stack i segment payload payload_length)"

definition start_active_syn ::
    "('n, 'k) arwill_ipv4_stack \<Rightarrow> nat \<Rightarrow> bool \<times> ('n, 'k) arwill_ipv4_stack" where
  "start_active_syn stack i =
     (let endpoint = endpoint_at stack i; stream = ep_stream endpoint
      in case arwill_tcp_listener_connect (st_listener stream) (ip_address stack)
             (ep_connect_local_port endpoint) (ep_connect_peer_address endpoint)
             (ep_connect_peer_port endpoint) (0x41524000 + st_connections stream)
             blank_tcp_segment of
           (connected, listener, syn) \<Rightarrow>
             (let stack = with_endpoint i (update_listener (\<lambda>_. listener)) stack
              in case (if \<not> connected then (False, stack)
                       else send_and_remember stack i syn [] 0) of
                   (True, stack) \<Rightarrow>
                     (True, with_endpoint i (\<lambda>e. e\<lparr>ep_connect_pending := False\<rparr>) stack)
                 | (False, stack) \<Rightarrow>
                     (False, with_endpoint i
                       (\<lambda>e. e\<lparr>ep_connect_failed := True, ep_connect_pending := False\<rparr>) stack)))"

definition maintain_active_connect ::
    "('n, 'k) arwill_ipv4_stack \<Rightarrow> nat \<Rightarrow> ('n, 'k) arwill_ipv4_stack" where
  "maintain_active_connect stack i =
     (if \<not> ep_connect_pending (endpoint_at stack i) then stack
      else
        (case read_clock stack of
           (now, stack) \<Rightarrow>
             (let endpoint = endpoint_at stack i
              in if ep_connect_arp_attempts endpoint \<noteq> 0 \<and>
                    now - ep_connect_arp_sent_milliseconds endpoint < arwill_tcp_arp_retry_ms
                 then stack
                 else if ep_connect_arp_attempts endpoint \<ge> arwill_tcp_arp_max_attempts then
                   with_endpoint i (\<lambda>e. (reset_tcp_stream e)\<lparr>ep_connect_failed := True\<rparr>) stack
                 else
                   (case arwill_ipv4_send_arp_request stack (ep_connect_next_hop endpoint) of
                      (sent, stack) \<Rightarrow>
                        if sent
                        then with_endpoint i (\<lambda>e. e\<lparr>ep_connect_arp_sent_milliseconds := now,
                          ep_connect_arp_attempts := ep_connect_arp_attempts e + 1\<rparr>) stack
                        else stack))))"

definition maintain_udp_connect ::
    "('n, 'k) arwill_ipv4_stack \<Rightarrow> nat \<Rightarrow> ('n, 'k) arwill_ipv4_stack" where
  "maintain_udp_connect stack i =
     (if \<not> ue_allocated (udp_at stack i) \<or> \<not> ue_resolving (udp_at stack i) then stack
      else
        (case read_clock stack of
           (now, stack) \<Rightarrow>
             (let endpoint = udp_at stack i
              in if ue_arp_attempts endpoint \<noteq> 0 \<and>
                    now - ue_arp_sent_milliseconds endpoint < arwill_udp_arp_retry_ms
                 then stack
                 else if ue_arp_attempts endpoint \<ge> arwill_udp_arp_max_attempts then
                   with_udp i (\<lambda>e. e\<lparr>ue_resolving := False, ue_failed := True\<rparr>) stack
                 else
                   (case arwill_ipv4_send_arp_request stack (ue_next_hop endpoint) of
                      (sent, stack) \<Rightarrow>
                        if sent
                        then with_udp i (\<lambda>e. e\<lparr>ue_arp_sent_milliseconds := now,
                          ue_arp_attempts := ue_arp_attempts e + 1\<rparr>) stack
                        else stack))))"

section \<open>ARP replies\<close>

definition arp_reply_tcp ::
    "bytes \<Rightarrow> bool \<times> ('n, 'k) arwill_ipv4_stack \<Rightarrow> nat \<Rightarrow> bool \<times> ('n, 'k) arwill_ipv4_stack" where
  "arp_reply_tcp frame result i =
     (case result of (matched, stack) \<Rightarrow>
        (let endpoint = endpoint_at stack i
         in if \<not> ep_allocated endpoint \<or> \<not> ep_connect_pending endpoint \<or>
               \<not> same_bytes (drop 28 frame) (ep_connect_next_hop endpoint) 4
            then (matched, stack)
            else (True, snd (start_active_syn
              (with_endpoint i (\<lambda>e. e\<lparr>ep_tcp_peer_mac :=
                 take arwill_network_mac_length (drop 22 frame)\<rparr>) stack) i))))"

definition arp_reply_udp ::
    "bytes \<Rightarrow> bool \<times> ('n, 'k) arwill_ipv4_stack \<Rightarrow> nat \<Rightarrow> bool \<times> ('n, 'k) arwill_ipv4_stack" where
  "arp_reply_udp frame result i =
     (case result of (matched, stack) \<Rightarrow>
        (let endpoint = udp_at stack i
         in if \<not> ue_allocated endpoint \<or> \<not> ue_resolving endpoint \<or>
               \<not> same_bytes (drop 28 frame) (ue_next_hop endpoint) 4
            then (matched, stack)
            else (True, with_udp i (\<lambda>e. e\<lparr>ue_peer_mac :=
                 take arwill_network_mac_length (drop 22 frame),
                 ue_resolving := False, ue_connected := True\<rparr>) stack)))"

definition handle_arp_reply ::
    "('n, 'k) arwill_ipv4_stack \<Rightarrow> bytes \<Rightarrow> nat \<Rightarrow> bool \<times> ('n, 'k) arwill_ipv4_stack" where
  "handle_arp_reply stack frame len =
     (if len < 42 \<or> get16 frame 20 \<noteq> 2 \<or> \<not> same_bytes (drop 38 frame) (ip_address stack) 4
      then (False, stack)
      else
        (let stack = (if same_bytes (drop 28 frame) (ip_gateway stack) 4
               then stack\<lparr>ip_gateway_mac := take arwill_network_mac_length (drop 22 frame),
                      ip_gateway_resolved := True\<rparr>
               else stack)
         in foldl (arp_reply_udp frame)
              (foldl (arp_reply_tcp frame) (False, stack) [0..<arwill_tcp_endpoint_capacity])
              [0..<arwill_udp_endpoint_capacity]))"

section \<open>Timers\<close>

definition update_retransmission_timeout :: "arwill_tcp_endpoint \<Rightarrow> u64 \<Rightarrow> arwill_tcp_endpoint" where
  "update_retransmission_timeout endpoint sample_ms =
     (let sample_ms = (if sample_ms = 0 then 1 else sample_ms);
          smoothed = ep_tcp_smoothed_round_trip_ms endpoint;
          deviation = ep_tcp_round_trip_variance_ms endpoint;
          difference = (if smoothed > sample_ms then smoothed - sample_ms else sample_ms - smoothed);
          (smoothed, deviation) =
            (if smoothed = 0 then (sample_ms, sample_ms div 2)
             else ((7 * smoothed + sample_ms) div 8, (3 * deviation + difference) div 4));
          variance = 4 * deviation;
          variance = (if variance < 10 then 10 else variance);
          timeout = smoothed + variance;
          timeout = (if timeout < arwill_tcp_retransmission_minimum_ms
                     then arwill_tcp_retransmission_minimum_ms else timeout);
          timeout = (if timeout > arwill_tcp_retransmission_maximum_ms
                     then arwill_tcp_retransmission_maximum_ms else timeout)
      in endpoint\<lparr>ep_tcp_smoothed_round_trip_ms := smoothed,
           ep_tcp_round_trip_variance_ms := deviation,
           ep_tcp_retransmission_timeout_ms := timeout\<rparr>)"

function acknowledge_loop :: "u64 \<Rightarrow> u32 \<Rightarrow> arwill_tcp_endpoint \<Rightarrow> arwill_tcp_endpoint" where
  "acknowledge_loop now acknowledgement endpoint =
     (if ep_tcp_pending_count endpoint = 0 then endpoint
      else
        (let h = ep_tcp_pending_head endpoint; pending = ep_tcp_pending endpoint ! h
         in if acknowledgement \<noteq> ps_expected_acknowledgement pending \<and>
               \<not> arwill_tcp_sequence_after acknowledgement (ps_expected_acknowledgement pending)
            then endpoint
            else
              (let measured =
                     (if ps_retransmissions pending = 0 \<and> now \<ge> ps_sent_at_milliseconds pending
                      then update_retransmission_timeout endpoint (now - ps_sent_at_milliseconds pending)
                      else endpoint)
               in acknowledge_loop now acknowledgement
                    (measured\<lparr>ep_tcp_pending := (ep_tcp_pending endpoint)[h := pending\<lparr>
                         ps_active := False, ps_payload_length := 0, ps_retransmissions := 0\<rparr>],
                       ep_tcp_pending_head := (h + 1) mod arwill_tcp_pending_segment_capacity,
                       ep_tcp_pending_count := ep_tcp_pending_count endpoint - 1\<rparr>))))"
  by pat_completeness auto
termination by (relation "measure (\<lambda>(_, _, endpoint). ep_tcp_pending_count endpoint)") auto

declare acknowledge_loop.simps [simp del]

definition acknowledge_pending_segment ::
    "('n, 'k) arwill_ipv4_stack \<Rightarrow> nat \<Rightarrow> arwill_tcp_segment \<Rightarrow> ('n, 'k) arwill_ipv4_stack" where
  "acknowledge_pending_segment stack i incoming =
     (if sg_flags incoming AND arwill_tcp_flag_ack = 0 then stack
      else
        (case read_clock stack of
           (now, stack) \<Rightarrow>
             with_endpoint i (acknowledge_loop now (sg_acknowledgement incoming)) stack))"

text \<open>
  One iteration of \<open>maintain_pending_segment\<close>; the flag says that the loop has
  returned, after which the remaining iterations do nothing.
\<close>

definition backoff :: "u64 \<Rightarrow> u64" where
  "backoff timeout =
     (if timeout < arwill_tcp_retransmission_maximum_ms div 2 then timeout * 2
      else arwill_tcp_retransmission_maximum_ms)"

definition expire_endpoint :: "arwill_tcp_endpoint \<Rightarrow> arwill_tcp_endpoint" where
  "expire_endpoint endpoint =
     (let counted = (if arwill_tcp_stream_connected (ep_stream endpoint)
            then update_stream (\<lambda>s. s\<lparr>st_disconnects := st_disconnects s + 1\<rparr>) endpoint else endpoint);
          cleared = reset_tcp_stream counted
      in if ep_active_open endpoint then cleared\<lparr>ep_connect_failed := True\<rparr> else cleared)"

definition maintain_pending_step ::
    "u64 \<Rightarrow> nat \<Rightarrow> bool \<times> ('n, 'k) arwill_ipv4_stack \<Rightarrow> nat \<Rightarrow> bool \<times> ('n, 'k) arwill_ipv4_stack" where
  "maintain_pending_step now i result offset =
     (case result of (returned, stack) \<Rightarrow>
        (let endpoint = endpoint_at stack i;
             index = (ep_tcp_pending_head endpoint + offset) mod arwill_tcp_pending_segment_capacity;
             pending = ep_tcp_pending endpoint ! index
         in if returned \<or> now - ps_sent_at_milliseconds pending < ps_retransmission_timeout_ms pending
            then (returned, stack)
            else if ps_retransmissions pending \<ge> arwill_tcp_max_retransmissions then
              (True, with_endpoint i expire_endpoint
                 (stack\<lparr>ip_tcp_timeouts := ip_tcp_timeouts stack + 1\<rparr>))
            else
              (case send_tcp_segment stack i (ps_segment pending) (ps_payload pending)
                      (ps_payload_length pending) of
                 (sent, stack) \<Rightarrow>
                   (False,
                    (with_endpoint i (\<lambda>e.
                       (if sent then e
                        else update_stream (\<lambda>s. s\<lparr>st_send_failures := st_send_failures s + 1\<rparr>) e)
                       \<lparr>ep_tcp_pending := (ep_tcp_pending e)[index := pending\<lparr>
                          ps_sent_at_milliseconds := now,
                          ps_retransmissions := ps_retransmissions pending + 1,
                          ps_retransmission_timeout_ms :=
                            backoff (ps_retransmission_timeout_ms pending)\<rparr>]\<rparr>) stack)
                    \<lparr>ip_tcp_retransmissions := ip_tcp_retransmissions stack + 1,
                     ip_tcp_retransmission_backoffs := ip_tcp_retransmission_backoffs stack + 1\<rparr>))))"

definition maintain_pending_segment ::
    "('n, 'k) arwill_ipv4_stack \<Rightarrow> nat \<Rightarrow> ('n, 'k) arwill_ipv4_stack" where
  "maintain_pending_segment stack i =
     (if ep_tcp_pending_count (endpoint_at stack i) = 0 then stack
      else
        (case read_clock stack of
           (now, stack) \<Rightarrow>
             snd (foldl (maintain_pending_step now i) (False, stack)
               [0..<ep_tcp_pending_count (endpoint_at stack i)])))"

definition closing_state :: "arwill_tcp_state \<Rightarrow> bool" where
  "closing_state s \<longleftrightarrow> s \<noteq> Tcp_listen \<and> s \<noteq> Tcp_syn_sent \<and> s \<noteq> Tcp_syn_received \<and>
     s \<noteq> Tcp_established \<and> s \<noteq> Tcp_close_wait \<and> s \<noteq> Tcp_time_wait"

definition close_timer :: "u64 \<Rightarrow> arwill_tcp_endpoint \<Rightarrow> arwill_tcp_endpoint" where
  "close_timer now endpoint =
     (let s = ln_state (st_listener (ep_stream endpoint))
      in if closing_state s then
           (let started = (if ep_tcp_close_started_milliseconds endpoint = 0 then now
                  else ep_tcp_close_started_milliseconds endpoint);
                endpoint = endpoint\<lparr>ep_tcp_close_started_milliseconds := started\<rparr>
            in if now - started \<ge> arwill_tcp_close_timeout_ms then reset_tcp_stream endpoint
               else endpoint)
         else if s \<noteq> Tcp_time_wait then endpoint
         else
           (let started = (if ep_tcp_time_wait_started_milliseconds endpoint = 0 then now
                  else ep_tcp_time_wait_started_milliseconds endpoint);
                endpoint = endpoint\<lparr>ep_tcp_time_wait_started_milliseconds := started\<rparr>
            in if now - started \<ge> arwill_tcp_time_wait_ms then reset_tcp_stream endpoint
               else endpoint))"

definition maintain_tcp_close ::
    "('n, 'k) arwill_ipv4_stack \<Rightarrow> nat \<Rightarrow> ('n, 'k) arwill_ipv4_stack" where
  "maintain_tcp_close stack i =
     (case read_clock stack of (now, stack) \<Rightarrow> with_endpoint i (close_timer now) stack)"

section \<open>Received data, windows and transmission\<close>

definition remember_tcp_peer :: "bytes \<Rightarrow> arwill_tcp_endpoint \<Rightarrow> arwill_tcp_endpoint" where
  "remember_tcp_peer frame endpoint =
     endpoint\<lparr>ep_tcp_peer_mac := take arwill_network_mac_length (drop 6 frame)\<rparr>"

definition enqueue_byte :: "arwill_tcp_stream \<Rightarrow> u8 \<Rightarrow> arwill_tcp_stream" where
  "enqueue_byte stream b =
     (if st_receive_count stream \<ge> arwill_tcp_stream_receive_capacity
      then stream\<lparr>st_bytes_dropped := st_bytes_dropped stream + 1\<rparr>
      else receive_put stream b)"

definition enqueue_stream_receive :: "bytes \<Rightarrow> nat \<Rightarrow> arwill_tcp_endpoint \<Rightarrow> arwill_tcp_endpoint" where
  "enqueue_stream_receive payload payload_length =
     update_stream (\<lambda>stream.
       foldl (\<lambda>stream index. enqueue_byte stream (payload ! index)) stream [0..<payload_length])"

text \<open>The segment with the connection's own tuple and numbers.\<close>

definition connection_segment :: "arwill_tcp_endpoint \<Rightarrow> u8 \<Rightarrow> nat \<Rightarrow> arwill_tcp_segment" where
  "connection_segment endpoint flags payload_length =
     (let listener = st_listener (ep_stream endpoint)
      in \<lparr>sg_source_address = take 4 (ln_local_address listener),
          sg_destination_address = take 4 (ln_peer_address listener),
          sg_source_port = ln_port listener, sg_destination_port = ln_peer_port listener,
          sg_sequence = ln_sequence listener, sg_acknowledgement = ln_acknowledgement listener,
          sg_flags = flags, sg_window = advertised_receive_window endpoint,
          sg_maximum_segment_size = 0, sg_payload_length = payload_length\<rparr>)"

definition send_current_ack ::
    "('n, 'k) arwill_ipv4_stack \<Rightarrow> nat \<Rightarrow> bool \<times> ('n, 'k) arwill_ipv4_stack" where
  "send_current_ack stack i =
     send_tcp_segment stack i (connection_segment (endpoint_at stack i) arwill_tcp_flag_ack 0) [] 0"

definition note_window :: "arwill_tcp_endpoint \<Rightarrow> arwill_tcp_endpoint" where
  "note_window endpoint =
     (if st_receive_window_changed (ep_stream endpoint)
      then update_stream (\<lambda>s. s\<lparr>st_receive_window_changed := False\<rparr>)
        (if ep_tcp_last_advertised_window endpoint = 0 \<and> advertised_receive_window endpoint \<noteq> 0
         then endpoint\<lparr>ep_tcp_window_update_pending := True\<rparr> else endpoint)
      else endpoint)"

definition maintain_window_update ::
    "('n, 'k) arwill_ipv4_stack \<Rightarrow> nat \<Rightarrow> ('n, 'k) arwill_ipv4_stack" where
  "maintain_window_update stack i =
     (let stack = with_endpoint i note_window stack; endpoint = endpoint_at stack i
      in if \<not> ep_tcp_window_update_pending endpoint \<or>
            \<not> arwill_tcp_stream_connected (ep_stream endpoint)
         then stack
         else
           (case send_current_ack stack i of
              (sent, stack) \<Rightarrow>
                if sent
                then (with_endpoint i (\<lambda>e. e\<lparr>ep_tcp_window_update_pending := False\<rparr>) stack)
                       \<lparr>ip_tcp_window_updates := ip_tcp_window_updates stack + 1\<rparr>
                else stack))"

text \<open>
  The tail of \<open>maintain_stream_close\<close>: the \<open>FIN\<close> of a stream whose data is sent and
  acknowledged.
\<close>

definition finish_stream :: "('n, 'k) arwill_ipv4_stack \<Rightarrow> nat \<Rightarrow> ('n, 'k) arwill_ipv4_stack" where
  "finish_stream stack i =
     (let endpoint = endpoint_at stack i; stream = ep_stream endpoint
      in if \<not> st_close_requested stream \<or> \<not> arwill_tcp_stream_connected stream \<or>
            st_transmit_count stream \<noteq> 0 \<or> ep_tcp_pending_count endpoint \<noteq> 0
         then stack
         else
           (case arwill_tcp_listener_begin_close (st_listener stream) blank_tcp_segment of
              (closing, listener, segment) \<Rightarrow>
                (let stack = with_endpoint i (update_listener (\<lambda>_. listener)) stack
                 in case (if \<not> closing then (False, stack)
                          else send_and_remember stack i segment [] 0) of
                      (False, stack) \<Rightarrow>
                        with_endpoint i (\<lambda>e. reset_tcp_stream
                          (update_stream (\<lambda>s. s\<lparr>st_send_failures := st_send_failures s + 1\<rparr>) e)) stack
                    | (True, stack) \<Rightarrow>
                        (let stack = with_endpoint i (update_stream (\<lambda>s.
                               s\<lparr>st_close_requested := False,
                                 st_disconnects := st_disconnects s + 1\<rparr>)) stack
                         in if ep_tcp_close_started_milliseconds (endpoint_at stack i) = 0
                            then (case read_clock stack of
                                    (now, stack) \<Rightarrow> with_endpoint i
                                      (\<lambda>e. e\<lparr>ep_tcp_close_started_milliseconds := now\<rparr>) stack)
                            else stack))))"

definition maintain_stream_close ::
    "('n, 'k) arwill_ipv4_stack \<Rightarrow> nat \<Rightarrow> ('n, 'k) arwill_ipv4_stack" where
  "maintain_stream_close stack i =
     (let endpoint = endpoint_at stack i; stream = ep_stream endpoint
      in if \<not> st_listening stream then
           (if ep_tcp_pending_count endpoint \<noteq> 0 \<or> ln_state (st_listener stream) \<noteq> Tcp_listen
            then with_endpoint i reset_tcp_stream stack else stack)
         else if st_close_requested stream then
           (case read_clock stack of
              (now, stack) \<Rightarrow>
                (let started = ep_tcp_close_started_milliseconds (endpoint_at stack i)
                 in if started = 0 then
                      finish_stream (with_endpoint i
                        (\<lambda>e. e\<lparr>ep_tcp_close_started_milliseconds := now\<rparr>) stack) i
                    else if now - started \<ge> arwill_tcp_close_timeout_ms
                    then with_endpoint i reset_tcp_stream stack
                    else finish_stream stack i))
         else finish_stream stack i)"

definition chunk_length :: "arwill_tcp_stream \<Rightarrow> nat" where
  "chunk_length stream =
     (let len = st_transmit_count stream;
          len = (if len > arwill_tcp_pending_payload_capacity
                 then arwill_tcp_pending_payload_capacity else len);
          mss = unat (ln_peer_maximum_segment_size (st_listener stream));
          len = (if len > mss then mss else len);
          window = unat (ln_peer_window (st_listener stream))
      in if len > window then window else len)"

definition chunk_bytes :: "arwill_tcp_stream \<Rightarrow> nat \<Rightarrow> bytes" where
  "chunk_bytes stream len =
     map (\<lambda>index. st_transmit stream !
       ((st_transmit_head stream + index) mod arwill_tcp_stream_transmit_capacity)) [0..<len]"

definition consume_chunk :: "nat \<Rightarrow> arwill_tcp_stream \<Rightarrow> arwill_tcp_stream" where
  "consume_chunk len stream =
     stream\<lparr>st_listener := (st_listener stream)
           \<lparr>ln_sequence := ln_sequence (st_listener stream) + of_nat len,
            ln_peer_window := ln_peer_window (st_listener stream) - of_nat len\<rparr>,
       st_bytes_sent := st_bytes_sent stream + of_nat len,
       st_transmit_head := (st_transmit_head stream + len) mod arwill_tcp_stream_transmit_capacity,
       st_transmit_count := st_transmit_count stream - len\<rparr>"

text \<open>
  The loop of \<open>flush_stream_transmit\<close>. Every completed iteration adds an
  unacknowledged segment and the loop needs room for one, so the capacity of their
  ring is fuel enough.
\<close>

fun flush_loop :: "nat \<Rightarrow> nat \<Rightarrow> ('n, 'k) arwill_ipv4_stack \<Rightarrow> bool \<times> ('n, 'k) arwill_ipv4_stack" where
  "flush_loop 0 i stack = (True, stack)"
| "flush_loop (Suc fuel) i stack =
     (let endpoint = endpoint_at stack i; stream = ep_stream endpoint; len = chunk_length stream
      in if \<not> (ep_tcp_pending_count endpoint < arwill_tcp_pending_segment_capacity \<and>
               st_transmit_count stream \<noteq> 0 \<and> ln_peer_window (st_listener stream) \<noteq> 0) \<or> len = 0
         then (True, stack)
         else
           (case send_and_remember stack i
                   (connection_segment endpoint (arwill_tcp_flag_ack OR arwill_tcp_flag_psh) len)
                   (chunk_bytes stream len) len of
              (False, stack) \<Rightarrow>
                (False, with_endpoint i (update_stream (\<lambda>s.
                   s\<lparr>st_send_failures := st_send_failures s + 1\<rparr>)) stack)
            | (True, stack) \<Rightarrow>
                flush_loop fuel i (with_endpoint i (update_stream (consume_chunk len)) stack)))"

definition flush_stream_transmit ::
    "('n, 'k) arwill_ipv4_stack \<Rightarrow> nat \<Rightarrow> bool \<times> ('n, 'k) arwill_ipv4_stack" where
  "flush_stream_transmit stack i =
     (if \<not> arwill_tcp_stream_connected (ep_stream (endpoint_at stack i)) then (True, stack)
      else flush_loop arwill_tcp_pending_segment_capacity i stack)"

section \<open>Received frames\<close>

definition reset_segment_for :: "arwill_tcp_segment \<Rightarrow> arwill_tcp_segment" where
  "reset_segment_for incoming =
     (let reset = blank_tcp_segment\<lparr>
            sg_source_address := take 4 (sg_destination_address incoming),
            sg_destination_address := take 4 (sg_source_address incoming),
            sg_source_port := sg_destination_port incoming,
            sg_destination_port := sg_source_port incoming\<rparr>
      in if sg_flags incoming AND arwill_tcp_flag_ack \<noteq> 0
         then reset\<lparr>sg_sequence := sg_acknowledgement incoming, sg_flags := arwill_tcp_flag_rst\<rparr>
         else reset\<lparr>sg_acknowledgement := sg_sequence incoming + (of_nat (sg_payload_length incoming) +
                (if sg_flags incoming AND arwill_tcp_flag_syn \<noteq> 0 then 1 else 0) +
                (if sg_flags incoming AND arwill_tcp_flag_fin \<noteq> 0 then 1 else 0)),
              sg_flags := arwill_tcp_flag_rst OR arwill_tcp_flag_ack\<rparr>)"

definition send_reset_for_segment ::
    "('n, 'k) arwill_ipv4_stack \<Rightarrow> arwill_tcp_segment \<Rightarrow> bytes \<Rightarrow> bool \<times> ('n, 'k) arwill_ipv4_stack" where
  "send_reset_for_segment stack incoming destination_mac =
     (if sg_flags incoming AND arwill_tcp_flag_rst \<noteq> 0 then (False, stack)
      else
        (case send_tcp_segment_to stack None (reset_segment_for incoming) [] 0 destination_mac of
           (sent, stack) \<Rightarrow>
             if \<not> sent then (False, stack)
             else (True, stack\<lparr>ip_tcp_rst_sent := ip_tcp_rst_sent stack + 1\<rparr>)))"

function parse_options :: "bytes \<Rightarrow> nat \<Rightarrow> nat \<Rightarrow> u16" where
  "parse_options tcp tcp_header_length offset =
     (if offset < tcp_header_length then
        (let kind = tcp ! offset
         in if kind = 0 then 0
            else if kind = 1 then parse_options tcp tcp_header_length (offset + 1)
            else if offset + 1 \<ge> tcp_header_length then 0
            else
              (let option_length = unat (tcp ! (offset + 1))
               in if option_length < 2 \<or> offset + option_length > tcp_header_length then 0
                  else if kind = 2 \<and> option_length = 4 then get16 tcp (offset + 2)
                  else parse_options tcp tcp_header_length (offset + option_length)))
      else 0)"
  by pat_completeness auto
termination by (relation "measure (\<lambda>(_, n, offset). n - offset)") auto

declare parse_options.simps [simp del]

definition parse_tcp_maximum_segment_size :: "bytes \<Rightarrow> nat \<Rightarrow> u16" where
  "parse_tcp_maximum_segment_size tcp tcp_header_length = parse_options tcp tcp_header_length 20"

definition udp_endpoint_for ::
    "('n, 'k) arwill_ipv4_stack \<Rightarrow> bytes \<Rightarrow> u16 \<Rightarrow> u16 \<Rightarrow> nat option" where
  "udp_endpoint_for stack source source_port destination_port =
     find (\<lambda>index. let candidate = udp_at stack index
         in ue_allocated candidate \<and> ue_bound candidate \<and> ue_connected candidate \<and>
            ue_local_port candidate = destination_port \<and> ue_peer_port candidate = source_port \<and>
            same_bytes (ue_peer_address candidate) source 4)
       [0..<arwill_udp_endpoint_capacity]"

definition handle_udp_frame ::
    "('n, 'k) arwill_ipv4_stack \<Rightarrow> bytes \<Rightarrow> nat \<Rightarrow> bool \<times> ('n, 'k) arwill_ipv4_stack" where
  "handle_udp_frame stack frame len =
     (if len < 42 \<or> frame ! 14 \<noteq> 0x45 \<or> \<not> same_bytes (drop 30 frame) (ip_address stack) 4
      then (False, stack)
      else if checksum (drop 14 frame) 20 \<noteq> 0 then
        (False, stack\<lparr>ip_udp_checksum_drops := ip_udp_checksum_drops stack + 1\<rparr>)
      else
        (let ip_length = unat (get16 frame 16)
         in if ip_length < 28 \<or> 14 + ip_length > len then (False, stack)
            else
              (let udp = drop 34 frame; udp_length = unat (get16 udp 4)
               in if udp_length < 8 \<or> udp_length > ip_length - 20 then (False, stack)
                  else if get16 udp 6 \<noteq> 0 \<and> udp_checksum (drop 14 frame) udp udp_length \<noteq> 0 then
                    (False, stack\<lparr>ip_udp_checksum_drops := ip_udp_checksum_drops stack + 1\<rparr>)
                  else
                    (case udp_endpoint_for stack (drop 26 frame) (get16 udp 0) (get16 udp 2) of
                       None \<Rightarrow> (False, stack\<lparr>ip_udp_port_drops := ip_udp_port_drops stack + 1\<rparr>)
                     | Some i \<Rightarrow>
                        (let payload_length = udp_length - 8
                         in if payload_length > arwill_udp_payload_capacity \<or>
                               ue_receive_length (udp_at stack i) \<noteq> 0
                            then (False, stack\<lparr>ip_udp_queue_drops := ip_udp_queue_drops stack + 1\<rparr>)
                            else
                              (True, (with_udp i (\<lambda>e. e\<lparr>
                                   ue_receive := copy_into (ue_receive e) 0 (drop 8 udp) payload_length,
                                   ue_receive_length := payload_length\<rparr>) stack)
                                 \<lparr>ip_udp_frames_received := ip_udp_frames_received stack + 1,
                                  ip_udp_bytes_received := ip_udp_bytes_received stack +
                                    of_nat payload_length\<rparr>))))))"

text \<open>The segment a TCP frame carries, once its lengths and checksums are right.\<close>

definition tcp_frame_segment :: "bytes \<Rightarrow> nat \<Rightarrow> nat \<Rightarrow> arwill_tcp_segment" where
  "tcp_frame_segment frame tcp_header_length payload_length =
     (let flags = frame ! 47
      in \<lparr>sg_source_address = take 4 (drop 26 frame),
          sg_destination_address = take 4 (drop 30 frame),
          sg_source_port = get16 frame 34, sg_destination_port = get16 frame 36,
          sg_sequence = get32 frame 38, sg_acknowledgement = get32 frame 42,
          sg_flags = flags, sg_window = get16 frame 48,
          sg_maximum_segment_size = (if flags AND arwill_tcp_flag_syn \<noteq> 0
            then parse_tcp_maximum_segment_size (drop 34 frame) tcp_header_length else 0),
          sg_payload_length = payload_length\<rparr>)"

definition count_segment ::
    "arwill_tcp_segment \<Rightarrow> ('n, 'k) arwill_ipv4_stack \<Rightarrow> ('n, 'k) arwill_ipv4_stack" where
  "count_segment incoming stack =
     stack\<lparr>ip_tcp_frames_received := ip_tcp_frames_received stack + 1,
       ip_tcp_bytes_received := ip_tcp_bytes_received stack + of_nat (sg_payload_length incoming),
       ip_tcp_syn_received := ip_tcp_syn_received stack +
         (if sg_flags incoming AND arwill_tcp_flag_syn \<noteq> 0 then 1 else 0),
       ip_tcp_fin_received := ip_tcp_fin_received stack +
         (if sg_flags incoming AND arwill_tcp_flag_fin \<noteq> 0 then 1 else 0),
       ip_tcp_rst_received := ip_tcp_rst_received stack +
         (if sg_flags incoming AND arwill_tcp_flag_rst \<noteq> 0 then 1 else 0)\<rparr>"

definition tcp_endpoint_for :: "('n, 'k) arwill_ipv4_stack \<Rightarrow> u16 \<Rightarrow> nat option" where
  "tcp_endpoint_for stack port =
     find (\<lambda>index. let candidate = endpoint_at stack index
         in ep_allocated candidate \<and> st_listening (ep_stream candidate) \<and>
            port = ln_port (st_listener (ep_stream candidate)))
       [0..<arwill_tcp_endpoint_capacity]"

text \<open>
  What an accepted segment does to the endpoint after the listener took it and the
  acknowledged segments are gone: new connection, delivered bytes, end of the
  peer's data. \<open>before\<close> is the listener before the segment.
\<close>

definition deliver_segment ::
    "arwill_tcp_listener \<Rightarrow> arwill_tcp_segment \<Rightarrow> bytes \<Rightarrow> arwill_tcp_endpoint \<Rightarrow> arwill_tcp_endpoint" where
  "deliver_segment before incoming payload endpoint =
     (let listener = st_listener (ep_stream endpoint);
          advanced = (ln_acknowledgement listener \<noteq> ln_acknowledgement before);
          endpoint = (if (ln_state before = Tcp_syn_received \<or> ln_state before = Tcp_syn_sent) \<and>
                 ln_state listener = Tcp_established
               then update_stream (\<lambda>s. s\<lparr>st_connections := st_connections s + 1\<rparr>) endpoint
               else endpoint);
          endpoint = (if (ln_state listener = Tcp_established \<or> ln_state listener = Tcp_close_wait) \<and>
                 sg_payload_length incoming \<noteq> 0 \<and> advanced
               then enqueue_stream_receive payload (sg_payload_length incoming) endpoint
               else endpoint)
      in if sg_flags incoming AND arwill_tcp_flag_fin \<noteq> 0 \<and> advanced
         then update_stream (\<lambda>s. s\<lparr>st_peer_closed := True\<rparr>) endpoint else endpoint)"

text \<open>The reply to an accepted segment and the data it may free.\<close>

definition answer_segment ::
    "('n, 'k) arwill_ipv4_stack \<Rightarrow> nat \<Rightarrow> arwill_tcp_segment \<Rightarrow> bool \<times> ('n, 'k) arwill_ipv4_stack" where
  "answer_segment stack i reply =
     (case send_tcp_segment stack i reply [] 0 of
        (sent, stack) \<Rightarrow>
          if \<not> sent then (False, stack)
          else
            (case (if sg_flags reply = (arwill_tcp_flag_syn OR arwill_tcp_flag_ack) \<and>
                      ep_tcp_pending_count (endpoint_at stack i) = 0
                   then remember_pending_segment stack i reply [] 0 else (True, stack)) of
               (remembered, stack) \<Rightarrow>
                 if \<not> remembered then (False, with_endpoint i reset_tcp_stream stack)
                 else (True, snd (flush_stream_transmit stack i))))"

definition accept_segment ::
    "('n, 'k) arwill_ipv4_stack \<Rightarrow> nat \<Rightarrow> arwill_tcp_segment \<Rightarrow> bytes \<Rightarrow> bytes \<Rightarrow>
     bool \<times> ('n, 'k) arwill_ipv4_stack" where
  "accept_segment stack i incoming payload frame =
     (let before = st_listener (ep_stream (endpoint_at stack i))
      in case arwill_tcp_listener_receive before incoming blank_tcp_segment of
           (taken, listener, reply) \<Rightarrow>
             (let stack = with_endpoint i (update_listener (\<lambda>_. listener)) stack
              in if \<not> taken then (False, stack)
                 else
                   (let stack = acknowledge_pending_segment stack i incoming
                    in if ln_state before \<noteq> Tcp_listen \<and> ln_state listener = Tcp_listen then
                         (True, with_endpoint i (\<lambda>e.
                            (let failed = ep_active_open e;
                                 e = reset_tcp_stream
                                   (if sg_flags incoming AND arwill_tcp_flag_rst \<noteq> 0
                                    then update_stream (\<lambda>s. s\<lparr>st_disconnects := st_disconnects s + 1\<rparr>) e
                                    else e)
                             in if failed then e\<lparr>ep_connect_failed := True\<rparr> else e)) stack)
                       else
                         (let synack = (sg_flags reply = (arwill_tcp_flag_syn OR arwill_tcp_flag_ack));
                              stack = (if synack
                                then (with_endpoint i (remember_tcp_peer frame) stack)
                                       \<lparr>ip_tcp_syn_ack_sent := ip_tcp_syn_ack_sent stack + 1\<rparr>
                                else stack);
                              stack = (if ln_state before = Tcp_established \<and>
                                  sg_sequence incoming \<noteq> ln_acknowledgement before \<and>
                                  sg_flags reply = arwill_tcp_flag_ack
                                then stack\<lparr>ip_tcp_duplicate_acks := ip_tcp_duplicate_acks stack + 1\<rparr>
                                else stack);
                              stack = with_endpoint i (deliver_segment before incoming payload) stack;
                              stack = (if ln_state listener = Tcp_time_wait \<and>
                                  ln_state before \<noteq> Tcp_time_wait
                                then (case read_clock stack of
                                        (now, stack) \<Rightarrow> with_endpoint i
                                          (\<lambda>e. e\<lparr>ep_tcp_time_wait_started_milliseconds := now\<rparr>) stack)
                                else stack)
                          in answer_segment stack i reply))))"

definition handle_tcp_segment ::
    "('n, 'k) arwill_ipv4_stack \<Rightarrow> nat \<Rightarrow> arwill_tcp_segment \<Rightarrow> bytes \<Rightarrow> bytes \<Rightarrow>
     bool \<times> ('n, 'k) arwill_ipv4_stack" where
  "handle_tcp_segment stack i incoming payload frame =
     (let stream = ep_stream (endpoint_at stack i);
          dispatch = ln_state (st_listener stream);
          closing = (dispatch = Tcp_last_ack \<or> dispatch = Tcp_fin_wait_1 \<or>
            dispatch = Tcp_fin_wait_2 \<or> dispatch = Tcp_closing \<or> dispatch = Tcp_time_wait);
          stack = (if (closing \<or> st_close_requested stream) \<and>
              sg_flags incoming AND arwill_tcp_flag_syn \<noteq> 0 \<and>
              \<not> arwill_tcp_listener_matches (st_listener stream) incoming
            then with_endpoint i reset_tcp_stream stack else stack);
          stream = ep_stream (endpoint_at stack i)
      in if \<not> arwill_tcp_listener_matches (st_listener stream) incoming then
           (False, stack\<lparr>ip_tcp_tuple_mismatches := ip_tcp_tuple_mismatches stack + 1\<rparr>)
         else if sg_payload_length incoming > arwill_tcp_stream_receive_capacity - st_receive_count stream \<and>
              sg_sequence incoming = ln_acknowledgement (st_listener stream)
         then send_current_ack
           (stack\<lparr>ip_tcp_receive_window_drops := ip_tcp_receive_window_drops stack + 1\<rparr>) i
         else accept_segment stack i incoming payload frame)"

definition handle_tcp_frame ::
    "('n, 'k) arwill_ipv4_stack \<Rightarrow> bytes \<Rightarrow> nat \<Rightarrow> bool \<times> ('n, 'k) arwill_ipv4_stack" where
  "handle_tcp_frame stack frame len =
     (if len < 54 \<or> get16 frame 12 \<noteq> 0x0800 \<or> frame ! 14 \<noteq> 0x45 \<or> frame ! 23 \<noteq> 6 \<or>
         \<not> same_bytes (drop 30 frame) (ip_address stack) 4
      then (False, stack)
      else if checksum (drop 14 frame) 20 \<noteq> 0 then
        (False, stack\<lparr>ip_tcp_checksum_drops := ip_tcp_checksum_drops stack + 1\<rparr>)
      else
        (let tcp_header_length = unat (drop_bit 4 (frame ! 46)) * 4;
             ip_length = unat (get16 frame 16)
         in if tcp_header_length < 20 \<or> ip_length < 20 + tcp_header_length \<or> 14 + ip_length > len
            then (False, stack)
            else if tcp_checksum (drop 14 frame) (drop 34 frame) (ip_length - 20) \<noteq> 0 then
              (False, stack\<lparr>ip_tcp_checksum_drops := ip_tcp_checksum_drops stack + 1\<rparr>)
            else
              (let payload_length = ip_length - 20 - tcp_header_length;
                   payload = drop (14 + 20 + tcp_header_length) frame;
                   incoming = tcp_frame_segment frame tcp_header_length payload_length;
                   stack = count_segment incoming stack
               in case tcp_endpoint_for stack (sg_destination_port incoming) of
                    None \<Rightarrow> send_reset_for_segment
                      (stack\<lparr>ip_tcp_unknown_port_frames := ip_tcp_unknown_port_frames stack + 1\<rparr>)
                      incoming (drop 6 frame)
                  | Some i \<Rightarrow> handle_tcp_segment stack i incoming payload frame)))"

definition maintain_endpoint ::
    "('n, 'k) arwill_ipv4_stack \<Rightarrow> nat \<Rightarrow> ('n, 'k) arwill_ipv4_stack" where
  "maintain_endpoint stack i =
     (if \<not> ep_allocated (endpoint_at stack i) then stack
      else
        (let stack = maintain_active_connect stack i;
             stack = (if st_listening (ep_stream (endpoint_at stack i))
               then snd (flush_stream_transmit (maintain_window_update
                 (maintain_tcp_close (maintain_pending_segment stack i) i) i) i)
               else stack)
         in maintain_stream_close stack i))"

definition handle_frame ::
    "('n, 'k) arwill_ipv4_stack \<Rightarrow> bytes \<Rightarrow> nat \<Rightarrow> bool \<times> ('n, 'k) arwill_ipv4_stack" where
  "handle_frame stack frame len =
     (if len \<ge> 42 \<and> get16 frame 12 = 0x0806 then
        (if get16 frame 20 = 1 \<and> same_bytes (drop 38 frame) (ip_address stack) 4
         then send_arp_reply stack frame else handle_arp_reply stack frame len)
      else if len \<ge> 42 \<and> get16 frame 12 = 0x0800 \<and> drop_bit 4 (frame ! 14) = 4 \<and> frame ! 23 = 1 then
        send_echo_reply stack frame len
      else if len \<ge> 42 \<and> get16 frame 12 = 0x0800 \<and> drop_bit 4 (frame ! 14) = 4 \<and> frame ! 23 = 17 then
        handle_udp_frame stack frame len
      else handle_tcp_frame stack frame len)"

definition arwill_ipv4_poll_tcp ::
    "('n, 'k) arwill_ipv4_stack \<Rightarrow> bool \<times> ('n, 'k) arwill_ipv4_stack" where
  "arwill_ipv4_poll_tcp stack =
     (if ip_network stack = None then (False, stack)
      else
        (let stack = foldl maintain_endpoint stack [0..<arwill_tcp_endpoint_capacity];
             stack = foldl maintain_udp_connect stack [0..<arwill_udp_endpoint_capacity]
         in case poll_frame stack (replicate arwill_network_frame_capacity 0) of
              (ok, frame, len, stack) \<Rightarrow>
                if \<not> ok then (False, stack) else handle_frame stack frame len))"

definition service_step ::
    "(('n, 'k) arwill_ipv4_stack \<Rightarrow> ('n, 'k) arwill_ipv4_stack) \<Rightarrow>
     nat \<times> ('n, 'k) arwill_ipv4_stack \<Rightarrow> nat \<Rightarrow> nat \<times> ('n, 'k) arwill_ipv4_stack" where
  "service_step idle result attempt =
     (case result of (processed, stack) \<Rightarrow>
        (case arwill_ipv4_poll_tcp stack of
           (handled, stack) \<Rightarrow>
             (processed + (if handled then 1 else 0),
              if attempt mod 64 = 63 then idle stack else stack)))"

definition arwill_ipv4_service_tcp ::
    "(('n, 'k) arwill_ipv4_stack \<Rightarrow> ('n, 'k) arwill_ipv4_stack) \<Rightarrow> ('n, 'k) arwill_ipv4_stack \<Rightarrow>
     bool \<times> nat \<times> ('n, 'k) arwill_ipv4_stack" where
  "arwill_ipv4_service_tcp idle stack =
     (if ip_network stack = None then (False, 0, stack)
      else (case foldl (service_step idle) (0, stack) [0..<4096] of
              (processed, stack) \<Rightarrow> (True, processed, stack)))"

end
