(* ===== verification/Ipv4_Invariant.thy ===== *)
theory Ipv4_Invariant
  imports Ipv4_Poll
begin

text \<open>
  The invariant of the network stack: every ring and buffer of every endpoint has
  its shape, timers stay in their range, a listening stream listens on the port its
  endpoint is bound to, and no two endpoints share a port. Every operation of
  \<open>kernel/ipv4.c\<close> preserves it.
\<close>

section \<open>The invariant\<close>

definition pending_ok :: "arwill_tcp_pending_segment \<Rightarrow> bool" where
  "pending_ok p \<longleftrightarrow> length (ps_payload p) = 1024 \<and> ps_payload_length p \<le> 1024"

definition raw_endpoint :: "arwill_tcp_endpoint \<Rightarrow> bool" where
  "raw_endpoint e \<longleftrightarrow>
     length (st_receive (ep_stream e)) = 512 \<and> length (st_transmit (ep_stream e)) = 8192 \<and>
     length (ep_tcp_pending e) = 4 \<and> (\<forall>p\<in>set (ep_tcp_pending e). length (ps_payload p) = 1024)"

definition endpoint_ok :: "arwill_tcp_endpoint \<Rightarrow> bool" where
  "endpoint_ok e \<longleftrightarrow>
     stream_ok (ep_stream e) \<and>
     ring_ok 4 (ep_tcp_pending e) (ep_tcp_pending_head e) (ep_tcp_pending_count e) \<and>
     (\<forall>p\<in>set (ep_tcp_pending e). pending_ok p) \<and>
     100 \<le> ep_tcp_retransmission_timeout_ms e \<and> ep_tcp_retransmission_timeout_ms e \<le> 2000 \<and>
     (st_listening (ep_stream e) \<longrightarrow>
        ep_bound_port e \<noteq> 0 \<and> ln_port (st_listener (ep_stream e)) = ep_bound_port e) \<and>
     (ep_connect_pending e \<longrightarrow> ep_bound_port e \<noteq> 0 \<and> ep_connect_local_port e = ep_bound_port e)"

definition udp_ok :: "arwill_udp_endpoint \<Rightarrow> bool" where
  "udp_ok u \<longleftrightarrow> length (ue_receive u) = 512 \<and> ue_receive_length u \<le> 512 \<and> ue_arp_attempts u \<le> 3 \<and>
     (ue_connected u \<or> ue_resolving u \<longrightarrow> ue_bound u)"

definition ports_distinct :: "arwill_tcp_endpoint list \<Rightarrow> bool" where
  "ports_distinct es \<longleftrightarrow>
     (\<forall>i<length es. \<forall>j<length es. i \<noteq> j \<and> ep_allocated (es ! i) \<and> ep_allocated (es ! j) \<and>
        ep_bound_port (es ! i) \<noteq> 0 \<longrightarrow> ep_bound_port (es ! i) \<noteq> ep_bound_port (es ! j))"

definition udp_ports_distinct :: "arwill_udp_endpoint list \<Rightarrow> bool" where
  "udp_ports_distinct us \<longleftrightarrow>
     (\<forall>i<length us. \<forall>j<length us. i \<noteq> j \<and> ue_allocated (us ! i) \<and> ue_allocated (us ! j) \<and>
        ue_bound (us ! i) \<and> ue_bound (us ! j) \<longrightarrow> ue_local_port (us ! i) \<noteq> ue_local_port (us ! j))"

definition stack_ok :: "('n, 'k) arwill_ipv4_stack \<Rightarrow> bool" where
  "stack_ok s \<longleftrightarrow>
     length (ip_endpoints s) = 4 \<and> (\<forall>e\<in>set (ip_endpoints s). endpoint_ok e) \<and>
     ports_distinct (ip_endpoints s) \<and>
     length (ip_udp_endpoints s) = 4 \<and> (\<forall>u\<in>set (ip_udp_endpoints s). udp_ok u) \<and>
     udp_ports_distinct (ip_udp_endpoints s)"

text \<open>A change of an endpoint that keeps its part of the invariant, its port and its owner.\<close>

definition keeps :: "arwill_tcp_endpoint \<Rightarrow> arwill_tcp_endpoint \<Rightarrow> bool" where
  "keeps e e' \<longleftrightarrow> (endpoint_ok e \<longrightarrow> endpoint_ok e') \<and>
     ep_allocated e' = ep_allocated e \<and> ep_bound_port e' = ep_bound_port e"

lemma keeps_refl [simp]: "keeps e e"
  by (simp add: keeps_def)

lemma keeps_trans: "keeps e e1 \<Longrightarrow> keeps e1 e' \<Longrightarrow> keeps e e'"
  by (simp add: keeps_def)

lemma keeps_if: "keeps e a \<Longrightarrow> keeps e b \<Longrightarrow> keeps e (if c then a else b)"
  by simp

lemma endpoint_ok_raw: "endpoint_ok e \<Longrightarrow> raw_endpoint e"
  by (simp add: endpoint_ok_def raw_endpoint_def stream_ok_def ring_ok_def pending_ok_def)

lemma stack_ok_endpoint: "stack_ok s \<Longrightarrow> i < 4 \<Longrightarrow> endpoint_ok (endpoint_at s i)"
  by (simp add: stack_ok_def endpoint_at_def)

lemma stack_ok_udp: "stack_ok s \<Longrightarrow> i < 4 \<Longrightarrow> udp_ok (udp_at s i)"
  by (simp add: stack_ok_def udp_at_def)

lemma stack_ok_cong:
  "ip_endpoints s' = ip_endpoints s \<Longrightarrow> ip_udp_endpoints s' = ip_udp_endpoints s \<Longrightarrow>
   stack_ok s' = stack_ok s"
  by (simp add: stack_ok_def)

lemma ports_distinct_update:
  assumes "ports_distinct es" and "ep_allocated e' = ep_allocated (es ! i)"
    and "ep_bound_port e' = ep_bound_port (es ! i)"
  shows "ports_distinct (es[i := e'])"
proof -
  have "ep_allocated (es[i := e'] ! j) = ep_allocated (es ! j) \<and>
      ep_bound_port (es[i := e'] ! j) = ep_bound_port (es ! j)" for j
    using assms(2,3) by (cases "i < length es") (auto simp: nth_list_update list_update_beyond)
  then show ?thesis using assms(1) by (simp add: ports_distinct_def)
qed

lemma stack_ok_with_endpoint:
  assumes "stack_ok s" and "i < 4" and "keeps (endpoint_at s i) (f (endpoint_at s i))"
  shows "stack_ok (with_endpoint i f s)"
proof -
  have "endpoint_ok (f (ip_endpoints s ! i))"
    using assms stack_ok_endpoint [OF assms(1,2)] by (simp add: keeps_def endpoint_at_def)
  moreover have "ports_distinct ((ip_endpoints s)[i := f (ip_endpoints s ! i)])"
    using assms by (intro ports_distinct_update) (simp_all add: stack_ok_def keeps_def endpoint_at_def)
  ultimately show ?thesis
    using assms(1) by (auto simp: stack_ok_def with_endpoint_def dest!: set_update_subset_insert [THEN subsetD])
qed

lemma stack_ok_with_udp:
  assumes "stack_ok s" and "i < 4" and "udp_ok (f (udp_at s i))"
    and "ue_allocated (f (udp_at s i)) = ue_allocated (udp_at s i)"
    and "ue_bound (f (udp_at s i)) = ue_bound (udp_at s i)"
    and "ue_local_port (f (udp_at s i)) = ue_local_port (udp_at s i)"
  shows "stack_ok (with_udp i f s)"
proof -
  have "udp_ports_distinct ((ip_udp_endpoints s)[i := f (ip_udp_endpoints s ! i)])"
    using assms by (simp add: stack_ok_def udp_ports_distinct_def nth_list_update udp_at_def)
  then show ?thesis
    using assms by (auto simp: stack_ok_def with_udp_def udp_at_def
        dest!: set_update_subset_insert [THEN subsetD])
qed

section \<open>What leaves the tables alone\<close>

lemma endpoint_at_with_endpoint:
  "i < length (ip_endpoints s) \<Longrightarrow> endpoint_at (with_endpoint i f s) j =
     (if j = i then f (endpoint_at s i) else endpoint_at s j)"
  by (simp add: endpoint_at_def with_endpoint_def)

lemma with_endpoint_fields [simp]:
  "ip_network (with_endpoint i f s) = ip_network s" "ip_clock (with_endpoint i f s) = ip_clock s"
  "ip_mac (with_endpoint i f s) = ip_mac s" "ip_address (with_endpoint i f s) = ip_address s"
  "ip_gateway (with_endpoint i f s) = ip_gateway s"
  "ip_udp_endpoints (with_endpoint i f s) = ip_udp_endpoints s"
  "length (ip_endpoints (with_endpoint i f s)) = length (ip_endpoints s)"
  by (simp_all add: with_endpoint_def)

lemma with_udp_fields [simp]:
  "ip_network (with_udp i f s) = ip_network s" "ip_clock (with_udp i f s) = ip_clock s"
  "ip_mac (with_udp i f s) = ip_mac s" "ip_address (with_udp i f s) = ip_address s"
  "ip_gateway (with_udp i f s) = ip_gateway s" "ip_endpoints (with_udp i f s) = ip_endpoints s"
  by (simp_all add: with_udp_def)

text \<open>The parts of a stack that the devices below do not see.\<close>

definition same_tables :: "('n, 'k) arwill_ipv4_stack \<Rightarrow> ('n, 'k) arwill_ipv4_stack \<Rightarrow> bool" where
  "same_tables s s' \<longleftrightarrow> ip_endpoints s' = ip_endpoints s \<and> ip_udp_endpoints s' = ip_udp_endpoints s \<and>
     ip_mac s' = ip_mac s \<and> ip_address s' = ip_address s \<and> ip_gateway s' = ip_gateway s"

lemma same_tables_at: "same_tables s s' \<Longrightarrow> endpoint_at s' i = endpoint_at s i"
  by (simp add: same_tables_def endpoint_at_def)

lemma same_tables_udp: "same_tables s s' \<Longrightarrow> udp_at s' i = udp_at s i"
  by (simp add: same_tables_def udp_at_def)

lemma same_tables_ok: "same_tables s s' \<Longrightarrow> stack_ok s' = stack_ok s"
  by (rule stack_ok_cong) (simp_all add: same_tables_def)

lemma send_frame_same: "send_frame s fr n = (ok, s') \<Longrightarrow> same_tables s s'"
  by (auto simp: send_frame_def same_tables_def split: prod.splits)

lemma read_clock_same: "read_clock s = (now, s') \<Longrightarrow> same_tables s s'"
  by (auto simp: read_clock_def same_tables_def split: prod.splits)

lemma poll_frame_same: "poll_frame s b = (ok, fr, n, s') \<Longrightarrow> same_tables s s'"
  by (auto simp: poll_frame_def same_tables_def split: prod.splits)

lemma send_arp_request_same: "arwill_ipv4_send_arp_request s t = (ok, s') \<Longrightarrow> same_tables s s'"
  by (auto simp: arwill_ipv4_send_arp_request_def same_tables_def dest!: send_frame_same split: if_splits)

lemma send_arp_reply_same: "send_arp_reply s r = (ok, s') \<Longrightarrow> same_tables s s'"
  by (auto simp: send_arp_reply_def dest: send_frame_same)

lemma send_echo_reply_same: "send_echo_reply s r n = (ok, s') \<Longrightarrow> same_tables s s'"
  by (auto simp: send_echo_reply_def Let_def same_tables_def dest!: send_frame_same
      split: if_splits prod.splits)

lemma udp_send_same: "arwill_ipv4_udp_send s e d n = (r, s') \<Longrightarrow> same_tables s s'"
  by (auto simp: arwill_ipv4_udp_send_def Let_def same_tables_def dest!: send_frame_same
      split: if_splits prod.splits)

section \<open>Endpoint operations\<close>

lemma initialize_endpoint_ok: "raw_endpoint e \<Longrightarrow> endpoint_ok (initialize_tcp_endpoint e)"
  by (auto simp: raw_endpoint_def endpoint_ok_def initialize_tcp_endpoint_def ring_ok_def pending_ok_def
      arwill_tcp_stream_init_def stream_ok_def init_listener_ok)

lemma listener_reset_ok: "listener_ok (arwill_tcp_listener_reset l iss)"
  by (simp add: arwill_tcp_listener_reset_def init_listener_ok)

lemma listener_reset_port [simp]: "ln_port (arwill_tcp_listener_reset l iss) = ln_port l"
  by (simp add: arwill_tcp_listener_reset_def arwill_tcp_listener_init_def)

lemma reset_keeps: "keeps e (reset_tcp_stream e)"
  by (auto simp: keeps_def endpoint_ok_def reset_tcp_stream_def Let_def stream_ok_def ring_ok_def
      pending_ok_def listener_reset_ok)

lemma update_stream_keeps:
  assumes "stream_ok (ep_stream e) \<Longrightarrow> stream_ok (f (ep_stream e))"
    and "st_listening (f (ep_stream e)) \<Longrightarrow> st_listening (ep_stream e)"
    and "ln_port (st_listener (f (ep_stream e))) = ln_port (st_listener (ep_stream e))"
  shows "keeps e (update_stream f e)"
  using assms by (auto simp: keeps_def endpoint_ok_def update_stream_def)

lemma update_listener_keeps:
  assumes "listener_ok (st_listener (ep_stream e)) \<Longrightarrow> listener_ok (f (st_listener (ep_stream e)))"
    and "ln_port (f (st_listener (ep_stream e))) = ln_port (st_listener (ep_stream e))"
  shows "keeps e (update_listener f e)"
  using assms by (auto simp: keeps_def endpoint_ok_def update_listener_def stream_ok_def)

lemma stop_keeps_ok: "endpoint_ok e \<Longrightarrow> raw_endpoint (e\<lparr>ep_stream := arwill_tcp_stream_stop (ep_stream e)\<rparr>)"
  using endpoint_ok_raw [of e] by (simp add: raw_endpoint_def arwill_tcp_stream_stop_def)

text \<open>Updates of the remaining fields.\<close>

lemma field_keeps [simp]:
  "keeps e (e\<lparr>ep_tcp_peer_mac := m\<rparr>)"
  "keeps e (e\<lparr>ep_tcp_last_advertised_window := w\<rparr>)"
  "keeps e (e\<lparr>ep_connect_pending := False\<rparr>)"
  "keeps e (e\<lparr>ep_connect_failed := b, ep_connect_pending := False\<rparr>)"
  "keeps e (e\<lparr>ep_connect_failed := b\<rparr>)"
  "keeps e (e\<lparr>ep_connect_arp_sent_milliseconds := t, ep_connect_arp_attempts := n\<rparr>)"
  "keeps e (e\<lparr>ep_tcp_window_update_pending := b\<rparr>)"
  "keeps e (e\<lparr>ep_tcp_close_started_milliseconds := t\<rparr>)"
  "keeps e (e\<lparr>ep_tcp_time_wait_started_milliseconds := t\<rparr>)"
  by (simp_all add: keeps_def endpoint_ok_def)

lemma timeout_clamp:
  "(if (if t < 100 then 100 else t) > 2000 then 2000 else if t < 100 then 100 else t) \<ge> (100 :: u64) \<and>
   (if (if t < 100 then 100 else t) > 2000 then 2000 else if t < 100 then 100 else t) \<le> (2000 :: u64)"
  by (auto simp: not_less)

lemma update_retransmission_timeout_bounds:
  "100 \<le> ep_tcp_retransmission_timeout_ms (update_retransmission_timeout e t) \<and>
   ep_tcp_retransmission_timeout_ms (update_retransmission_timeout e t) \<le> 2000"
  by (simp add: update_retransmission_timeout_def Let_def not_less split: prod.splits)

lemma update_retransmission_timeout_keeps: "keeps e (update_retransmission_timeout e t)"
  using update_retransmission_timeout_bounds [of e t]
  by (auto simp: keeps_def endpoint_ok_def update_retransmission_timeout_def Let_def split: prod.splits)

lemma pending_update_ok:
  assumes "\<forall>p\<in>set ps. pending_ok p" and "h < length ps \<Longrightarrow> pending_ok q"
  shows "\<forall>p\<in>set (ps[h := q]). pending_ok p"
proof (cases "h < length ps")
  case True
  then show ?thesis using assms set_update_subset_insert [of ps h q] by blast
qed (use assms in \<open>simp add: list_update_beyond\<close>)

lemma pending_cleared_ok:
  "pending_ok p \<Longrightarrow> pending_ok (p\<lparr>ps_active := a, ps_payload_length := 0, ps_retransmissions := r\<rparr>)"
  by (simp add: pending_ok_def)

lemma acknowledge_step_keeps:
  assumes "ep_tcp_pending_count e \<noteq> 0" and "keeps e m"
    and "ep_tcp_pending m = ep_tcp_pending e" "ep_stream m = ep_stream e"
    "ep_tcp_pending_head m = ep_tcp_pending_head e" "ep_tcp_pending_count m = ep_tcp_pending_count e"
  shows "keeps e (m\<lparr>ep_tcp_pending := (ep_tcp_pending e)[h := (ep_tcp_pending e ! h)\<lparr>
       ps_active := False, ps_payload_length := 0, ps_retransmissions := 0\<rparr>],
     ep_tcp_pending_head := (ep_tcp_pending_head e + 1) mod 4,
     ep_tcp_pending_count := ep_tcp_pending_count e - 1\<rparr>)" (is "keeps e ?e'")
proof -
  have "endpoint_ok ?e'" if ok: "endpoint_ok e"
  proof -
    have "\<forall>p\<in>set ((ep_tcp_pending e)[h := (ep_tcp_pending e ! h)\<lparr>
        ps_active := False, ps_payload_length := 0, ps_retransmissions := 0\<rparr>]). pending_ok p"
      using ok by (intro pending_update_ok) (simp_all add: endpoint_ok_def pending_cleared_ok)
    moreover have "endpoint_ok m" using ok assms(2) by (simp add: keeps_def)
    moreover have "ring_ok 4 (ep_tcp_pending e) ((ep_tcp_pending_head e + 1) mod 4)
        (ep_tcp_pending_count e - 1)"
      using ok assms(1) by (intro ring_skip(2)) (simp_all add: endpoint_ok_def)
    ultimately show ?thesis using assms(3,4) by (simp add: endpoint_ok_def ring_ok_def)
  qed
  then show ?thesis using assms(2) by (simp add: keeps_def)
qed

lemma update_timeout_fields [simp]:
  "ep_tcp_pending (update_retransmission_timeout e t) = ep_tcp_pending e"
  "ep_stream (update_retransmission_timeout e t) = ep_stream e"
  "ep_tcp_pending_head (update_retransmission_timeout e t) = ep_tcp_pending_head e"
  "ep_tcp_pending_count (update_retransmission_timeout e t) = ep_tcp_pending_count e"
  by (simp_all add: update_retransmission_timeout_def Let_def split: prod.splits)

text \<open>One turn of the loop, and the loop as turns.\<close>

definition acknowledge_first :: "u64 \<Rightarrow> arwill_tcp_endpoint \<Rightarrow> arwill_tcp_endpoint" where
  "acknowledge_first now e =
     (let h = ep_tcp_pending_head e; p = ep_tcp_pending e ! h;
          m = (if ps_retransmissions p = 0 \<and> now \<ge> ps_sent_at_milliseconds p
               then update_retransmission_timeout e (now - ps_sent_at_milliseconds p) else e)
      in m\<lparr>ep_tcp_pending := (ep_tcp_pending e)[h := p\<lparr>
             ps_active := False, ps_payload_length := 0, ps_retransmissions := 0\<rparr>],
           ep_tcp_pending_head := (h + 1) mod arwill_tcp_pending_segment_capacity,
           ep_tcp_pending_count := ep_tcp_pending_count e - 1\<rparr>)"

definition first_acknowledged :: "u32 \<Rightarrow> arwill_tcp_endpoint \<Rightarrow> bool" where
  "first_acknowledged ack e \<longleftrightarrow>
     (let p = ep_tcp_pending e ! ep_tcp_pending_head e
      in ack = ps_expected_acknowledgement p \<or>
         arwill_tcp_sequence_after ack (ps_expected_acknowledgement p))"

lemma acknowledge_loop_unfold:
  "acknowledge_loop now ack e =
     (if ep_tcp_pending_count e \<noteq> 0 \<and> first_acknowledged ack e
      then acknowledge_loop now ack (acknowledge_first now e) else e)"
  by (subst acknowledge_loop.simps) (simp add: first_acknowledged_def acknowledge_first_def Let_def)

lemma acknowledge_first_count [simp]:
  "ep_tcp_pending_count (acknowledge_first now e) = ep_tcp_pending_count e - 1"
  by (simp add: acknowledge_first_def Let_def)

lemma acknowledge_loop_induct [case_names stop turn]:
  assumes "\<And>e. \<not> (ep_tcp_pending_count e \<noteq> 0 \<and> first_acknowledged ack e) \<Longrightarrow> P e"
    and "\<And>e. ep_tcp_pending_count e \<noteq> 0 \<Longrightarrow> first_acknowledged ack e \<Longrightarrow>
      P (acknowledge_first now e) \<Longrightarrow> P e"
  shows "P e"
proof (induction "ep_tcp_pending_count e" arbitrary: e rule: less_induct)
  case less
  then show ?case
    using assms by (cases "ep_tcp_pending_count e \<noteq> 0 \<and> first_acknowledged ack e") simp_all
qed

lemma acknowledge_first_keeps:
  "ep_tcp_pending_count e \<noteq> 0 \<Longrightarrow> keeps e (acknowledge_first now e)"
  unfolding acknowledge_first_def Let_def
  by (intro acknowledge_step_keeps) (auto intro: update_retransmission_timeout_keeps)

lemma acknowledge_loop_keeps: "keeps e (acknowledge_loop now ack e)"
proof (induction e rule: acknowledge_loop_induct [where ack = ack and now = now])
  case (stop e)
  then show ?case by (subst acknowledge_loop_unfold) auto
next
  case (turn e)
  then show ?case
    by (subst acknowledge_loop_unfold) (simp add: keeps_trans [OF acknowledge_first_keeps])
qed

lemma counter_keeps [simp]:
  "keeps e (update_stream (\<lambda>s. s\<lparr>st_disconnects := f s\<rparr>) e)"
  "keeps e (update_stream (\<lambda>s. s\<lparr>st_send_failures := f s\<rparr>) e)"
  "keeps e (update_stream (\<lambda>s. s\<lparr>st_connections := f s\<rparr>) e)"
  "keeps e (update_stream (\<lambda>s. s\<lparr>st_peer_closed := b\<rparr>) e)"
  "keeps e (update_stream (\<lambda>s. s\<lparr>st_receive_window_changed := b\<rparr>) e)"
  "keeps e (update_stream (\<lambda>s. s\<lparr>st_close_requested := b, st_disconnects := f s\<rparr>) e)"
  by (rule update_stream_keeps; simp add: stream_ok_def)+

lemma expire_keeps: "keeps e (expire_endpoint e)"
  unfolding expire_endpoint_def Let_def
  by (auto intro!: keeps_trans [OF _ field_keeps(5)] intro: keeps_trans [OF _ reset_keeps])

lemma close_timer_keeps: "keeps e (close_timer now e)"
  unfolding close_timer_def Let_def
  by (auto intro: keeps_trans [OF _ reset_keeps])

lemma note_window_keeps: "keeps e (note_window e)"
  unfolding note_window_def by (auto intro: keeps_trans [OF _ counter_keeps(5)])

lemma enqueue_byte_ok:
  "stream_ok s \<Longrightarrow> stream_ok (enqueue_byte s b) \<and> st_listener (enqueue_byte s b) = st_listener s \<and>
   st_listening (enqueue_byte s b) = st_listening s"
  using rx.put_ok [of s b] by (auto simp: enqueue_byte_def stream_ok_def receive_put_def)

lemma enqueue_ok:
  "stream_ok s \<Longrightarrow> stream_ok (foldl (\<lambda>s i. enqueue_byte s (p ! i)) s is) \<and>
   st_listener (foldl (\<lambda>s i. enqueue_byte s (p ! i)) s is) = st_listener s \<and>
   st_listening (foldl (\<lambda>s i. enqueue_byte s (p ! i)) s is) = st_listening s"
proof (induction "is" arbitrary: s)
  case (Cons i "is")
  then show ?case using enqueue_byte_ok [of s "p ! i"] by simp
qed simp

lemma enqueue_fields:
  "st_listener (foldl (\<lambda>s i. enqueue_byte s (p ! i)) s is) = st_listener s \<and>
   st_listening (foldl (\<lambda>s i. enqueue_byte s (p ! i)) s is) = st_listening s"
  by (induction "is" arbitrary: s) (simp_all add: enqueue_byte_def receive_put_def)

lemma enqueue_keeps: "keeps e (enqueue_stream_receive p n e)"
  unfolding enqueue_stream_receive_def
  by (rule update_stream_keeps) (use enqueue_ok enqueue_fields in auto)

lemma deliver_keeps: "keeps e (deliver_segment before incoming payload e)"
  unfolding deliver_segment_def Let_def
  by (intro keeps_if keeps_trans [OF _ counter_keeps(4)] keeps_trans [OF _ enqueue_keeps]
      keeps_refl counter_keeps)

lemma consume_keeps:
  assumes "n \<le> st_transmit_count (ep_stream e)"
  shows "keeps e (update_stream (consume_chunk n) e)"
proof (rule update_stream_keeps)
  assume "stream_ok (ep_stream e)"
  then show "stream_ok (consume_chunk n (ep_stream e))"
    using ring_skip(2) [of 8192 "st_transmit (ep_stream e)" _ _ n] assms
    by (simp add: stream_ok_def consume_chunk_def listener_ok_def)
qed (simp_all add: consume_chunk_def)

section \<open>Stack operations\<close>

text \<open>Transmission changes the devices, the counters and the endpoint at hand.\<close>

definition stack_keeps ::
    "nat \<Rightarrow> ('n, 'k) arwill_ipv4_stack \<Rightarrow> ('n, 'k) arwill_ipv4_stack \<Rightarrow> bool" where
  "stack_keeps i s s' \<longleftrightarrow>
     length (ip_endpoints s') = length (ip_endpoints s) \<and>
     (\<forall>j. j \<noteq> i \<longrightarrow> endpoint_at s' j = endpoint_at s j) \<and>
     keeps (endpoint_at s i) (endpoint_at s' i) \<and>
     ip_udp_endpoints s' = ip_udp_endpoints s \<and> ip_mac s' = ip_mac s \<and>
     ip_address s' = ip_address s \<and> ip_gateway s' = ip_gateway s"

lemma stack_keeps_ok: "stack_keeps i s s' \<Longrightarrow> stack_ok s \<Longrightarrow> i < 4 \<Longrightarrow> stack_ok s'"
proof -
  assume k: "stack_keeps i s s'" and ok: "stack_ok s" and i: "i < 4"
  have "ip_endpoints s' = (ip_endpoints s)[i := endpoint_at s' i]"
  proof (rule nth_equalityI)
    fix j assume "j < length (ip_endpoints s')"
    then show "ip_endpoints s' ! j = (ip_endpoints s)[i := endpoint_at s' i] ! j"
      using k by (cases "j = i") (simp_all add: stack_keeps_def endpoint_at_def)
  qed (use k in \<open>simp add: stack_keeps_def\<close>)
  then have "ip_endpoints s' = ip_endpoints (with_endpoint i (\<lambda>_. endpoint_at s' i) s)"
    by (simp add: with_endpoint_def)
  moreover have "stack_ok (with_endpoint i (\<lambda>_. endpoint_at s' i) s)"
    using k by (intro stack_ok_with_endpoint [OF ok i]) (simp add: stack_keeps_def)
  ultimately show ?thesis
    using k by (subst stack_ok_cong [of _ "with_endpoint i (\<lambda>_. endpoint_at s' i) s"])
      (simp_all add: stack_keeps_def)
qed

lemma stack_keeps_refl [simp]: "stack_keeps i s s"
  by (simp add: stack_keeps_def)

lemma stack_keeps_trans: "stack_keeps i s s1 \<Longrightarrow> stack_keeps i s1 s' \<Longrightarrow> stack_keeps i s s'"
  unfolding stack_keeps_def using keeps_trans by metis

lemma same_tables_keeps: "same_tables s s' \<Longrightarrow> stack_keeps i s s'"
  by (simp add: same_tables_def stack_keeps_def endpoint_at_def)

lemma with_endpoint_keeps:
  "keeps (endpoint_at s i) (f (endpoint_at s i)) \<Longrightarrow> stack_keeps i s (with_endpoint i f s)"
  by (cases "i < length (ip_endpoints s)")
    (simp_all add: stack_keeps_def endpoint_at_def with_endpoint_def list_update_beyond)

lemma keeps_then:
  "stack_keeps i s s1 \<Longrightarrow> keeps (endpoint_at s1 i) (f (endpoint_at s1 i)) \<Longrightarrow>
   stack_keeps i s (with_endpoint i f s1)"
  by (rule stack_keeps_trans [OF _ with_endpoint_keeps])

lemma stack_keeps_counters:
  "ip_endpoints s' = ip_endpoints s1 \<Longrightarrow> ip_udp_endpoints s' = ip_udp_endpoints s1 \<Longrightarrow>
   ip_mac s' = ip_mac s1 \<Longrightarrow> ip_address s' = ip_address s1 \<Longrightarrow> ip_gateway s' = ip_gateway s1 \<Longrightarrow>
   stack_keeps i s s1 \<Longrightarrow> stack_keeps i s s'"
  by (simp add: stack_keeps_def endpoint_at_def)

text \<open>A transmission may note the window it announced, and nothing else of the endpoint.\<close>

lemma send_tcp_segment_effect:
  assumes "send_tcp_segment s i seg p n = (ok, s')"
  obtains s1 w where "same_tables s s1"
    "s' = s1 \<or> s' = with_endpoint i (\<lambda>e. e\<lparr>ep_tcp_last_advertised_window := w\<rparr>) s1"
proof (cases "sg_flags seg = 0 \<or> n > 1536 - 14 - 20 - tcp_header_length_for seg")
  case True
  then have "s' = s"
    using assms unfolding send_tcp_segment_def send_tcp_segment_to_def Let_def by auto
  then show ?thesis using that [of s] by (simp add: same_tables_def)
next
  case False
  let ?w = "advertised_receive_window (endpoint_at s i)"
  let ?l = "14 + 20 + tcp_header_length_for seg + n"
  obtain sent s1 where s1: "send_frame s (tcp_frame (ip_mac s) ?w seg p n (ep_tcp_peer_mac (endpoint_at s i)))
      (if ?l < 60 then 60 else ?l) = (sent, s1)"
    by (cases "send_frame s (tcp_frame (ip_mac s) ?w seg p n (ep_tcp_peer_mac (endpoint_at s i)))
      (if ?l < 60 then 60 else ?l)")
  define s2 where "s2 = s1\<lparr>ip_tcp_frames_sent := ip_tcp_frames_sent s1 + 1,
      ip_tcp_bytes_sent := ip_tcp_bytes_sent s1 + of_nat n\<rparr>"
  have k1: "same_tables s s1" by (rule send_frame_same [OF s1])
  have k2: "same_tables s s2" using k1 by (simp add: same_tables_def s2_def)
  have "s' = s1 \<or> s' = s2 \<or> s' = with_endpoint i (\<lambda>e. e\<lparr>ep_tcp_last_advertised_window := ?w\<rparr>) s2"
    using assms False s1
    by (auto simp: send_tcp_segment_def send_tcp_segment_to_def Let_def s2_def split: if_splits)
  then show ?thesis using that k1 k2 by blast
qed

lemma send_tcp_segment_keeps:
  assumes "send_tcp_segment s i seg p n = (ok, s')"
  shows "stack_keeps i s s'"
  using assms
proof (rule send_tcp_segment_effect)
  fix s1 w assume "same_tables s s1"
    and "s' = s1 \<or> s' = with_endpoint i (\<lambda>e. e\<lparr>ep_tcp_last_advertised_window := w\<rparr>) s1"
  then show ?thesis
    using same_tables_keeps [of s s1 i] by (auto intro!: keeps_then)
qed

lemma send_tcp_segment_at:
  assumes "send_tcp_segment s i seg p n = (ok, s')"
  obtains w where "endpoint_at s' i = (endpoint_at s i)\<lparr>ep_tcp_last_advertised_window := w\<rparr>"
  using assms
proof (rule send_tcp_segment_effect)
  fix s1 w assume a: "same_tables s s1"
    and "s' = s1 \<or> s' = with_endpoint i (\<lambda>e. e\<lparr>ep_tcp_last_advertised_window := w\<rparr>) s1"
  then consider "s' = s1 \<or> \<not> i < length (ip_endpoints s1) \<and> endpoint_at s' i = endpoint_at s1 i"
    | "endpoint_at s' i = (endpoint_at s1 i)\<lparr>ep_tcp_last_advertised_window := w\<rparr>"
    by (cases "i < length (ip_endpoints s1)")
      (auto simp: endpoint_at_def with_endpoint_def list_update_beyond)
  then show ?thesis
  proof cases
    case 1
    then show ?thesis
      using that [of "ep_tcp_last_advertised_window (endpoint_at s i)"] same_tables_at [OF a, of i]
      by auto
  next
    case 2
    then show ?thesis using that same_tables_at [OF a, of i] by simp
  qed
qed

end
