(* ===== verification/Ipv4_Preserve.thy ===== *)
theory Ipv4_Preserve
  imports Ipv4_Invariant
begin

text \<open>
  Every operation of the network stack preserves its invariant: first those that
  work on one endpoint, then the frame handlers, then the poll as a whole.
\<close>

section \<open>Operations on one endpoint\<close>

lemma read_clock_keeps: "read_clock s = (now, s') \<Longrightarrow> stack_keeps i s s'"
  by (rule same_tables_keeps [OF read_clock_same])

lemma remember_entry_keeps:
  assumes "ep_tcp_pending_count e < 4" and "n \<le> 1024"
  shows "keeps e (e\<lparr>ep_tcp_pending := (ep_tcp_pending e)[h := (ep_tcp_pending e ! h)\<lparr>
      ps_segment := seg, ps_payload := copy_into (ps_payload (ep_tcp_pending e ! h)) 0 p n,
      ps_payload_length := n, ps_expected_acknowledgement := x, ps_sent_at_milliseconds := t,
      ps_retransmission_timeout_ms := r, ps_retransmissions := 0, ps_active := True\<rparr>],
    ep_tcp_pending_count := Suc (ep_tcp_pending_count e)\<rparr>)"
proof -
  have "endpoint_ok e \<Longrightarrow> \<forall>q\<in>set ((ep_tcp_pending e)[h := (ep_tcp_pending e ! h)\<lparr>
      ps_segment := seg, ps_payload := copy_into (ps_payload (ep_tcp_pending e ! h)) 0 p n,
      ps_payload_length := n, ps_expected_acknowledgement := x, ps_sent_at_milliseconds := t,
      ps_retransmission_timeout_ms := r, ps_retransmissions := 0, ps_active := True\<rparr>]). pending_ok q"
    using assms(2) by (intro pending_update_ok) (simp_all add: endpoint_ok_def pending_ok_def)
  then show ?thesis
    using assms(1) by (simp add: keeps_def endpoint_ok_def ring_ok_def)
qed

lemma remember_keeps:
  assumes "remember_pending_segment s i seg p n = (ok, s')"
  shows "stack_keeps i s s'"
proof (cases "n > 1024 \<or> ep_tcp_pending_count (endpoint_at s i) \<ge> 4")
  case True
  then show ?thesis using assms by (auto simp: remember_pending_segment_def Let_def)
next
  case False
  obtain now s1 where c: "read_clock s = (now, s1)" by (cases "read_clock s")
  note k = read_clock_keeps [OF c, of i] and at = same_tables_at [OF read_clock_same [OF c], of i]
  show ?thesis
    using assms False c at
    by (auto simp: remember_pending_segment_def Let_def
        intro!: keeps_then [OF k] remember_entry_keeps)
qed

lemma send_and_remember_keeps:
  assumes "send_and_remember s i seg p n = (ok, s')"
  shows "stack_keeps i s s'"
proof -
  obtain sent s1 where s1: "send_tcp_segment s i seg p n = (sent, s1)"
    by (cases "send_tcp_segment s i seg p n")
  note k = send_tcp_segment_keeps [OF s1]
  show ?thesis
    using assms s1 k stack_keeps_trans [OF k remember_keeps]
    by (auto simp: send_and_remember_def split: if_splits)
qed

lemma send_current_ack_keeps: "send_current_ack s i = (ok, s') \<Longrightarrow> stack_keeps i s s'"
  unfolding send_current_ack_def by (rule send_tcp_segment_keeps)

lemma connect_listener:
  "arwill_tcp_listener_connect l la lp pa pp iss syn = (ok, l', syn') \<Longrightarrow> listener_ok l \<Longrightarrow>
   listener_ok l' \<and> (ok \<longrightarrow> ln_port l' = lp) \<and> (\<not> ok \<longrightarrow> l' = l)"
  by (auto simp: arwill_tcp_listener_connect_def arwill_tcp_listener_init_def listener_ok_def
      copy_address_def split: if_splits)

lemma start_active_syn_keeps:
  assumes "start_active_syn s i = (ok, s')" and "ep_connect_pending (endpoint_at s i)"
  shows "stack_keeps i s s'"
proof -
  let ?e = "endpoint_at s i"
  obtain c l syn where c: "arwill_tcp_listener_connect (st_listener (ep_stream ?e)) (ip_address s)
      (ep_connect_local_port ?e) (ep_connect_peer_address ?e) (ep_connect_peer_port ?e)
      (0x41524000 + st_connections (ep_stream ?e)) blank_tcp_segment = (c, l, syn)"
    by (rule prod_cases3)
  define s1 where "s1 = with_endpoint i (update_listener (\<lambda>_. l)) s"
  have "keeps ?e (update_listener (\<lambda>_. l) ?e)"
    using connect_listener [OF c] assms(2)
    by (cases c) (auto simp: keeps_def endpoint_ok_def update_listener_def stream_ok_def)
  then have k1: "stack_keeps i s s1" unfolding s1_def by (rule with_endpoint_keeps)
  obtain r s2 where r: "(if \<not> c then (False, s1) else send_and_remember s1 i syn [] 0) = (r, s2)"
    by (cases "if \<not> c then (False, s1) else send_and_remember s1 i syn [] 0")
  have k2: "stack_keeps i s1 s2"
    using r send_and_remember_keeps by (auto split: if_splits)
  note k = stack_keeps_trans [OF stack_keeps_trans [OF k1 k2] with_endpoint_keeps]
  show ?thesis
    using assms(1) c r [unfolded s1_def] unfolding start_active_syn_def Let_def
    by (cases r) (auto intro!: k)
qed

lemma maintain_active_connect_keeps: "stack_keeps i s (maintain_active_connect s i)"
proof -
  obtain now s1 where c: "read_clock s = (now, s1)" by (cases "read_clock s")
  note k1 = read_clock_keeps [OF c, of i]
  obtain ok s2 where a: "arwill_ipv4_send_arp_request s1 (ep_connect_next_hop (endpoint_at s1 i)) = (ok, s2)"
    by (cases "arwill_ipv4_send_arp_request s1 (ep_connect_next_hop (endpoint_at s1 i))")
  note k2 = stack_keeps_trans [OF k1 same_tables_keeps [OF send_arp_request_same [OF a]]]
  show ?thesis
    using k1 k2 stack_keeps_trans [OF k1 with_endpoint_keeps] stack_keeps_trans [OF k2 with_endpoint_keeps]
      keeps_trans [OF reset_keeps field_keeps(5)]
    by (auto simp: maintain_active_connect_def Let_def c a)
qed

lemma acknowledge_pending_keeps: "stack_keeps i s (acknowledge_pending_segment s i seg)"
proof -
  obtain now s1 where c: "read_clock s = (now, s1)" by (cases "read_clock s")
  show ?thesis
    using stack_keeps_trans [OF read_clock_keeps [OF c, of i] with_endpoint_keeps] acknowledge_loop_keeps
    by (auto simp: acknowledge_pending_segment_def c)
qed

lemma retransmit_entry_keeps:
  assumes "e' = e \<or> e' = update_stream (\<lambda>s. s\<lparr>st_send_failures := st_send_failures s + 1\<rparr>) e"
  shows "keeps e (e'\<lparr>ep_tcp_pending := (ep_tcp_pending e)[h := (ep_tcp_pending e ! h)\<lparr>
      ps_sent_at_milliseconds := t, ps_retransmissions := n, ps_retransmission_timeout_ms := r\<rparr>]\<rparr>)"
proof -
  have "endpoint_ok e \<Longrightarrow> \<forall>q\<in>set ((ep_tcp_pending e)[h := (ep_tcp_pending e ! h)\<lparr>
      ps_sent_at_milliseconds := t, ps_retransmissions := n, ps_retransmission_timeout_ms := r\<rparr>]). pending_ok q"
    by (intro pending_update_ok) (simp_all add: endpoint_ok_def pending_ok_def)
  then show ?thesis
    using assms by (auto simp: keeps_def endpoint_ok_def ring_ok_def update_stream_def stream_ok_def)
qed

lemma maintain_pending_step_keeps:
  assumes "maintain_pending_step now i (b, s) offset = (b', s')"
  shows "stack_keeps i s s'"
proof -
  let ?e = "endpoint_at s i"
  let ?x = "(ep_tcp_pending_head ?e + offset) mod 4"
  let ?p = "ep_tcp_pending ?e ! ?x"
  let ?q = "?p\<lparr>ps_sent_at_milliseconds := now, ps_retransmissions := ps_retransmissions ?p + 1,
      ps_retransmission_timeout_ms := backoff (ps_retransmission_timeout_ms ?p)\<rparr>"
  let ?send = "send_tcp_segment s i (ps_segment ?p) (ps_payload ?p) (ps_payload_length ?p)"
  obtain sent s1 where t: "?send = (sent, s1)" by (cases ?send)
  have "s' = s \<or> s' = with_endpoint i expire_endpoint (s\<lparr>ip_tcp_timeouts := ip_tcp_timeouts s + 1\<rparr>) \<or>
      s' = (with_endpoint i (\<lambda>e. (if sent then e
          else update_stream (\<lambda>s. s\<lparr>st_send_failures := st_send_failures s + 1\<rparr>) e)
          \<lparr>ep_tcp_pending := (ep_tcp_pending e)[?x := ?q]\<rparr>) s1)
        \<lparr>ip_tcp_retransmissions := ip_tcp_retransmissions s1 + 1,
         ip_tcp_retransmission_backoffs := ip_tcp_retransmission_backoffs s1 + 1\<rparr>"
    using assms unfolding maintain_pending_step_def Let_def prod.case t
    by (simp only: prod.inject split: if_splits) blast+
  then consider "s' = s" | "s' = with_endpoint i expire_endpoint (s\<lparr>ip_tcp_timeouts := ip_tcp_timeouts s + 1\<rparr>)"
    | "s' = (with_endpoint i (\<lambda>e. (if sent then e
          else update_stream (\<lambda>s. s\<lparr>st_send_failures := st_send_failures s + 1\<rparr>) e)
          \<lparr>ep_tcp_pending := (ep_tcp_pending e)[?x := ?q]\<rparr>) s1)
        \<lparr>ip_tcp_retransmissions := ip_tcp_retransmissions s1 + 1,
         ip_tcp_retransmission_backoffs := ip_tcp_retransmission_backoffs s1 + 1\<rparr>" by blast
  then show ?thesis
  proof cases
    case 2
    have "stack_keeps i s (s\<lparr>ip_tcp_timeouts := ip_tcp_timeouts s + 1\<rparr>)"
      by (rule same_tables_keeps) (simp add: same_tables_def)
    then show ?thesis unfolding 2 by (rule stack_keeps_trans) (rule with_endpoint_keeps, rule expire_keeps)
  next
    case 3
    obtain w where w: "endpoint_at s1 i = ?e\<lparr>ep_tcp_last_advertised_window := w\<rparr>"
      by (rule send_tcp_segment_at [OF t])
    then have same: "ep_tcp_pending (endpoint_at s1 i) = ep_tcp_pending ?e" by simp
    have "keeps (endpoint_at s1 i) ((if sent then endpoint_at s1 i
          else update_stream (\<lambda>s. s\<lparr>st_send_failures := st_send_failures s + 1\<rparr>) (endpoint_at s1 i))
          \<lparr>ep_tcp_pending := (ep_tcp_pending (endpoint_at s1 i))[?x := ?q]\<rparr>)"
      unfolding same [symmetric] by (rule retransmit_entry_keeps) simp
    then have "stack_keeps i s (with_endpoint i (\<lambda>e. (if sent then e
          else update_stream (\<lambda>s. s\<lparr>st_send_failures := st_send_failures s + 1\<rparr>) e)
          \<lparr>ep_tcp_pending := (ep_tcp_pending e)[?x := ?q]\<rparr>) s1)"
      by (rule keeps_then [OF send_tcp_segment_keeps [OF t]])
    then show ?thesis unfolding 3 by (rule stack_keeps_counters [rotated -1]) simp_all
  qed simp
qed

lemma maintain_pending_fold_keeps:
  "stack_keeps i s (snd (foldl (maintain_pending_step now i) (b, s) offsets))"
proof (induction offsets arbitrary: b s)
  case (Cons offset offsets)
  obtain b1 s1 where "maintain_pending_step now i (b, s) offset = (b1, s1)"
    by (cases "maintain_pending_step now i (b, s) offset")
  then show ?case
    using stack_keeps_trans [OF maintain_pending_step_keeps Cons.IH] by simp
qed simp

lemma maintain_pending_segment_keeps: "stack_keeps i s (maintain_pending_segment s i)"
proof -
  obtain now s1 where c: "read_clock s = (now, s1)" by (cases "read_clock s")
  show ?thesis
    using stack_keeps_trans [OF read_clock_keeps [OF c, of i] maintain_pending_fold_keeps]
    by (simp add: maintain_pending_segment_def c)
qed

lemma maintain_tcp_close_keeps: "stack_keeps i s (maintain_tcp_close s i)"
proof -
  obtain now s1 where c: "read_clock s = (now, s1)" by (cases "read_clock s")
  show ?thesis
    using stack_keeps_trans [OF read_clock_keeps [OF c, of i] with_endpoint_keeps] close_timer_keeps
    by (simp add: maintain_tcp_close_def c)
qed

lemma maintain_window_update_keeps: "stack_keeps i s (maintain_window_update s i)"
proof -
  define s1 where "s1 = with_endpoint i note_window s"
  have k1: "stack_keeps i s s1" unfolding s1_def by (rule with_endpoint_keeps, rule note_window_keeps)
  obtain ok s2 where a: "send_current_ack s1 i = (ok, s2)" by (cases "send_current_ack s1 i")
  note k2 = stack_keeps_trans [OF k1 send_current_ack_keeps [OF a]]
  have k3: "stack_keeps i s (with_endpoint i (\<lambda>e. e\<lparr>ep_tcp_window_update_pending := False\<rparr>) s2)"
    by (rule stack_keeps_trans [OF k2 with_endpoint_keeps]) simp
  have "stack_keeps i s ((with_endpoint i (\<lambda>e. e\<lparr>ep_tcp_window_update_pending := False\<rparr>) s2)
      \<lparr>ip_tcp_window_updates := ip_tcp_window_updates s2 + 1\<rparr>)"
    by (rule stack_keeps_counters [OF _ _ _ _ _ k3]) simp_all
  then show ?thesis
    using k1 k2 unfolding maintain_window_update_def Let_def s1_def [symmetric] by (simp add: a)
qed

lemma finish_stream_keeps: "stack_keeps i s (finish_stream s i)"
proof -
  let ?e = "endpoint_at s i"
  obtain c l seg where c: "arwill_tcp_listener_begin_close (st_listener (ep_stream ?e)) blank_tcp_segment =
      (c, l, seg)" by (rule prod_cases3)
  define s1 where "s1 = with_endpoint i (update_listener (\<lambda>_. l)) s"
  have "keeps ?e (update_listener (\<lambda>_. l) ?e)"
    using c by (intro update_listener_keeps)
      (auto simp: arwill_tcp_listener_begin_close_def listener_ok_def split: if_splits)
  then have k1: "stack_keeps i s s1" unfolding s1_def by (rule with_endpoint_keeps)
  let ?r = "if \<not> c then (False, s1) else send_and_remember s1 i seg [] 0"
  obtain r s2 where r: "?r = (r, s2)" by (cases ?r)
  have k2: "stack_keeps i s s2"
    using r k1 stack_keeps_trans [OF k1 send_and_remember_keeps] by (auto split: if_splits)
  define s3 where "s3 = with_endpoint i (update_stream (\<lambda>s.
      s\<lparr>st_close_requested := False, st_disconnects := st_disconnects s + 1\<rparr>)) s2"
  have k3: "stack_keeps i s s3" unfolding s3_def by (rule keeps_then [OF k2]) simp
  obtain now s4 where n: "read_clock s3 = (now, s4)" by (cases "read_clock s3")
  have k4: "stack_keeps i s (with_endpoint i (\<lambda>e. e\<lparr>ep_tcp_close_started_milliseconds := now\<rparr>) s4)"
    by (rule keeps_then [OF stack_keeps_trans [OF k3 read_clock_keeps [OF n]]]) simp
  have k5: "stack_keeps i s (with_endpoint i (\<lambda>e. reset_tcp_stream
      (update_stream (\<lambda>s. s\<lparr>st_send_failures := st_send_failures s + 1\<rparr>) e)) s2)"
    by (rule keeps_then [OF k2]) (rule keeps_trans [OF counter_keeps(2) reset_keeps])
  show ?thesis
    unfolding finish_stream_def Let_def c prod.case s1_def [symmetric] r
    using k3 k4 k5 by (cases r) (simp_all add: s3_def [symmetric] n)
qed

lemma maintain_stream_close_keeps: "stack_keeps i s (maintain_stream_close s i)"
proof -
  obtain now s1 where c: "read_clock s = (now, s1)" by (cases "read_clock s")
  note k1 = read_clock_keeps [OF c, of i]
  have "stack_keeps i s (with_endpoint i reset_tcp_stream s)"
    and "stack_keeps i s (with_endpoint i reset_tcp_stream s1)"
    and "stack_keeps i s (finish_stream (with_endpoint i
        (\<lambda>e. e\<lparr>ep_tcp_close_started_milliseconds := now\<rparr>) s1) i)"
    and "stack_keeps i s (finish_stream s1 i)"
    by (rule with_endpoint_keeps, rule reset_keeps)
      (rule keeps_then [OF k1], rule reset_keeps,
       rule stack_keeps_trans [OF keeps_then [OF k1] finish_stream_keeps], simp,
       rule stack_keeps_trans [OF k1 finish_stream_keeps])
  then show ?thesis
    using finish_stream_keeps [of i s]
    unfolding maintain_stream_close_def Let_def by (simp add: c)
qed

lemma chunk_length_le: "chunk_length s \<le> st_transmit_count s"
  by (simp add: chunk_length_def Let_def)

lemma with_endpoint_at: "endpoint_at (with_endpoint i f s) i = (if i < length (ip_endpoints s) then f (endpoint_at s i) else endpoint_at s i)"
  by (simp add: endpoint_at_def with_endpoint_def list_update_beyond)

text \<open>Sending and remembering a segment touches nothing of the stream.\<close>

lemma remember_stream:
  assumes "remember_pending_segment s i seg p n = (ok, s')"
  shows "ep_stream (endpoint_at s' i) = ep_stream (endpoint_at s i)"
proof -
  obtain now s1 where c: "read_clock s = (now, s1)" by (cases "read_clock s")
  show ?thesis
    using assms same_tables_at [OF read_clock_same [OF c], of i]
    by (auto simp: remember_pending_segment_def Let_def c with_endpoint_at split: if_splits)
qed

lemma send_and_remember_stream:
  assumes "send_and_remember s i seg p n = (ok, s')"
  shows "ep_stream (endpoint_at s' i) = ep_stream (endpoint_at s i)"
proof -
  obtain sent s1 where s1: "send_tcp_segment s i seg p n = (sent, s1)"
    by (cases "send_tcp_segment s i seg p n")
  obtain w where "endpoint_at s1 i = (endpoint_at s i)\<lparr>ep_tcp_last_advertised_window := w\<rparr>"
    by (rule send_tcp_segment_at [OF s1])
  then show ?thesis
    using assms s1 by (auto simp: send_and_remember_def dest!: remember_stream split: if_splits)
qed

lemma flush_loop_keeps: "flush_loop fuel i s = (ok, s') \<Longrightarrow> stack_keeps i s s'"
proof (induction fuel arbitrary: s)
  case (Suc fuel)
  let ?e = "endpoint_at s i"
  let ?n = "chunk_length (ep_stream ?e)"
  let ?send = "send_and_remember s i (connection_segment ?e (16 OR 8) ?n)
      (chunk_bytes (ep_stream ?e) ?n) ?n"
  obtain b s1 where t: "?send = (b, s1)" by (cases ?send)
  note k1 = send_and_remember_keeps [OF t]
  show ?case
  proof (cases b)
    case True
    have "stack_keeps i s (with_endpoint i (update_stream (consume_chunk ?n)) s1)"
      using send_and_remember_stream [OF t] chunk_length_le [of "ep_stream ?e"]
      by (intro keeps_then [OF k1] consume_keeps) simp
    then show ?thesis
      using Suc.prems t True Suc.IH stack_keeps_trans by (fastforce simp: Let_def split: if_splits)
  next
    case False
    have "stack_keeps i s (with_endpoint i (update_stream
        (\<lambda>s. s\<lparr>st_send_failures := st_send_failures s + 1\<rparr>)) s1)"
      by (rule keeps_then [OF k1]) simp
    then show ?thesis
      using Suc.prems t False by (auto simp: Let_def split: if_splits)
  qed
qed simp

lemma flush_keeps: "flush_stream_transmit s i = (ok, s') \<Longrightarrow> stack_keeps i s s'"
  by (auto simp: flush_stream_transmit_def intro: flush_loop_keeps split: if_splits)

lemma maintain_endpoint_keeps: "stack_keeps i s (maintain_endpoint s i)"
proof -
  define s1 where "s1 = maintain_active_connect s i"
  define s2 where "s2 = maintain_window_update (maintain_tcp_close (maintain_pending_segment s1 i) i) i"
  have k1: "stack_keeps i s s1" unfolding s1_def by (rule maintain_active_connect_keeps)
  have k2: "stack_keeps i s s2"
    unfolding s2_def
    by (intro stack_keeps_trans [OF _ maintain_window_update_keeps]
        stack_keeps_trans [OF _ maintain_tcp_close_keeps]
        stack_keeps_trans [OF _ maintain_pending_segment_keeps] k1)
  have k3: "stack_keeps i s (snd (flush_stream_transmit s2 i))"
    using stack_keeps_trans [OF k2 flush_keeps] by (cases "flush_stream_transmit s2 i") auto
  show ?thesis
    unfolding maintain_endpoint_def Let_def s1_def [symmetric] s2_def [symmetric]
    using stack_keeps_trans [OF k1 maintain_stream_close_keeps]
      stack_keeps_trans [OF k3 maintain_stream_close_keeps] by simp
qed

section \<open>Received segments\<close>

lemma answer_segment_keeps:
  assumes "answer_segment s i reply = (ok, s')"
  shows "stack_keeps i s s'"
proof -
  obtain sent s1 where a: "send_tcp_segment s i reply [] 0 = (sent, s1)"
    by (cases "send_tcp_segment s i reply [] 0")
  note k1 = send_tcp_segment_keeps [OF a]
  let ?m = "if sg_flags reply = (2 OR 16) \<and> ep_tcp_pending_count (endpoint_at s1 i) = 0
      then remember_pending_segment s1 i reply [] 0 else (True, s1)"
  obtain r s2 where m: "?m = (r, s2)" by (cases ?m)
  have k2: "stack_keeps i s s2"
    using m k1 stack_keeps_trans [OF k1 remember_keeps] by (auto split: if_splits)
  have k3: "stack_keeps i s (with_endpoint i reset_tcp_stream s2)"
    by (rule keeps_then [OF k2], rule reset_keeps)
  have k4: "stack_keeps i s (snd (flush_stream_transmit s2 i))"
    using stack_keeps_trans [OF k2 flush_keeps] by (cases "flush_stream_transmit s2 i") auto
  show ?thesis
    using assms k1 k3 k4 unfolding answer_segment_def a prod.case m by (auto split: if_splits)
qed

lemma receive_update_keeps:
  assumes "arwill_tcp_listener_receive (st_listener (ep_stream e)) seg r = (b, l, r')"
  shows "keeps e (update_listener (\<lambda>_. l) e)"
  using receive_listener_ok [OF assms] receive_port [OF assms] by (intro update_listener_keeps) auto

lemma closed_endpoint_keeps:
  "keeps e (let failed = ep_active_open e;
        e1 = reset_tcp_stream (if c then update_stream (\<lambda>s. s\<lparr>st_disconnects := st_disconnects s + 1\<rparr>) e else e)
      in if failed then e1\<lparr>ep_connect_failed := True\<rparr> else e1)"
  unfolding Let_def
  by (intro keeps_if keeps_trans [OF _ field_keeps(5)] keeps_trans [OF _ reset_keeps] counter_keeps keeps_refl)

lemma accept_segment_keeps:
  assumes "accept_segment s i incoming payload frame = (ok, s')"
  shows "stack_keeps i s s'"
proof -
  let ?before = "st_listener (ep_stream (endpoint_at s i))"
  obtain taken l reply where r: "arwill_tcp_listener_receive ?before incoming blank_tcp_segment =
      (taken, l, reply)" by (rule prod_cases3)
  define s1 where "s1 = with_endpoint i (update_listener (\<lambda>_. l)) s"
  have k1: "stack_keeps i s s1"
    unfolding s1_def by (rule with_endpoint_keeps, rule receive_update_keeps [OF r])
  define s2 where "s2 = acknowledge_pending_segment s1 i incoming"
  have k2: "stack_keeps i s s2"
    unfolding s2_def by (rule stack_keeps_trans [OF k1 acknowledge_pending_keeps])
  define s3 where "s3 = (if sg_flags reply = (2 OR 16)
      then (with_endpoint i (remember_tcp_peer frame) s2)\<lparr>ip_tcp_syn_ack_sent := ip_tcp_syn_ack_sent s2 + 1\<rparr>
      else s2)"
  have "stack_keeps i s (with_endpoint i (remember_tcp_peer frame) s2)"
    by (rule keeps_then [OF k2]) (simp add: remember_tcp_peer_def)
  then have "stack_keeps i s ((with_endpoint i (remember_tcp_peer frame) s2)
      \<lparr>ip_tcp_syn_ack_sent := ip_tcp_syn_ack_sent s2 + 1\<rparr>)"
    by (rule stack_keeps_counters [rotated -1]) simp_all
  then have k3: "stack_keeps i s s3" using k2 unfolding s3_def by simp
  define s4 where "s4 = (if ln_state ?before = Tcp_established \<and>
        sg_sequence incoming \<noteq> ln_acknowledgement ?before \<and> sg_flags reply = 16
      then s3\<lparr>ip_tcp_duplicate_acks := ip_tcp_duplicate_acks s3 + 1\<rparr> else s3)"
  have k4: "stack_keeps i s s4"
    by (rule stack_keeps_counters [OF _ _ _ _ _ k3]) (simp_all add: s4_def)
  define s5 where "s5 = with_endpoint i (deliver_segment ?before incoming payload) s4"
  have k5: "stack_keeps i s s5"
    unfolding s5_def by (rule keeps_then [OF k4], rule deliver_keeps)
  obtain now sc where c: "read_clock s5 = (now, sc)" by (cases "read_clock s5")
  define s6 where "s6 = (if ln_state l = Tcp_time_wait \<and> ln_state ?before \<noteq> Tcp_time_wait
      then with_endpoint i (\<lambda>e. e\<lparr>ep_tcp_time_wait_started_milliseconds := now\<rparr>) sc else s5)"
  have "stack_keeps i s (with_endpoint i (\<lambda>e. e\<lparr>ep_tcp_time_wait_started_milliseconds := now\<rparr>) sc)"
    by (rule keeps_then [OF stack_keeps_trans [OF k5 read_clock_keeps [OF c]]]) simp
  then have k6: "stack_keeps i s s6" using k5 unfolding s6_def by simp
  have k7: "stack_keeps i s (with_endpoint i (\<lambda>e.
      let failed = ep_active_open e;
          e1 = reset_tcp_stream (if sg_flags incoming AND 4 \<noteq> 0
            then update_stream (\<lambda>s. s\<lparr>st_disconnects := st_disconnects s + 1\<rparr>) e else e)
      in if failed then e1\<lparr>ep_connect_failed := True\<rparr> else e1) s2)"
    by (rule keeps_then [OF k2], rule closed_endpoint_keeps)
  consider "s' = s1"
    | "s' = with_endpoint i (\<lambda>e.
        let failed = ep_active_open e;
            e1 = reset_tcp_stream (if sg_flags incoming AND 4 \<noteq> 0
              then update_stream (\<lambda>s. s\<lparr>st_disconnects := st_disconnects s + 1\<rparr>) e else e)
        in if failed then e1\<lparr>ep_connect_failed := True\<rparr> else e1) s2"
    | "answer_segment s6 i reply = (ok, s')"
    using assms unfolding accept_segment_def Let_def r prod.case s1_def [symmetric] s2_def [symmetric]
      s3_def [symmetric] s4_def [symmetric] s5_def [symmetric] c s6_def [symmetric]
    by (auto split: if_splits)
  then show ?thesis
    using k1 k7 stack_keeps_trans [OF k6 answer_segment_keeps] by cases simp_all
qed

lemma handle_tcp_segment_keeps:
  assumes "handle_tcp_segment s i incoming payload frame = (ok, s')"
  shows "stack_keeps i s s'"
proof -
  let ?t = "ep_stream (endpoint_at s i)"
  let ?d = "ln_state (st_listener ?t)"
  define s1 where "s1 = (if ((?d = Tcp_last_ack \<or> ?d = Tcp_fin_wait_1 \<or> ?d = Tcp_fin_wait_2 \<or>
        ?d = Tcp_closing \<or> ?d = Tcp_time_wait) \<or> st_close_requested ?t) \<and>
      sg_flags incoming AND 2 \<noteq> 0 \<and> \<not> arwill_tcp_listener_matches (st_listener ?t) incoming
    then with_endpoint i reset_tcp_stream s else s)"
  have "stack_keeps i s (with_endpoint i reset_tcp_stream s)"
    by (rule with_endpoint_keeps, rule reset_keeps)
  then have k1: "stack_keeps i s s1" unfolding s1_def by simp
  have k2: "stack_keeps i s (s1\<lparr>ip_tcp_tuple_mismatches := ip_tcp_tuple_mismatches s1 + 1\<rparr>)"
    and k3: "stack_keeps i s (s1\<lparr>ip_tcp_receive_window_drops := ip_tcp_receive_window_drops s1 + 1\<rparr>)"
    by (rule stack_keeps_counters [OF _ _ _ _ _ k1]; simp)+
  consider "s' = s1\<lparr>ip_tcp_tuple_mismatches := ip_tcp_tuple_mismatches s1 + 1\<rparr>"
    | "send_current_ack (s1\<lparr>ip_tcp_receive_window_drops := ip_tcp_receive_window_drops s1 + 1\<rparr>) i = (ok, s')"
    | "accept_segment s1 i incoming payload frame = (ok, s')"
    using assms unfolding handle_tcp_segment_def Let_def s1_def [symmetric] by (auto split: if_splits)
  then show ?thesis
    using k2 stack_keeps_trans [OF k3 send_current_ack_keeps] stack_keeps_trans [OF k1 accept_segment_keeps]
    by cases simp_all
qed

end
