(* ===== verification/Ipv4_Safety.thy ===== *)
theory Ipv4_Safety
  imports Ipv4_Preserve
begin

text \<open>
  The invariant of the network stack holds after initialisation and is preserved by
  the interface the kernel calls and by the poll that handles every kind of frame.
\<close>

section \<open>Frames\<close>

text \<open>
  The poll keeps the invariant, and which endpoints are allocated and what they are bound to.
\<close>

definition same_owners :: "('n, 'k) arwill_ipv4_stack \<Rightarrow> ('n, 'k) arwill_ipv4_stack \<Rightarrow> bool" where
  "same_owners s s' \<longleftrightarrow>
     (\<forall>i. ep_allocated (endpoint_at s' i) = ep_allocated (endpoint_at s i) \<and>
        ep_bound_port (endpoint_at s' i) = ep_bound_port (endpoint_at s i)) \<and>
     (\<forall>i. ue_allocated (udp_at s' i) = ue_allocated (udp_at s i) \<and> ue_bound (udp_at s' i) = ue_bound (udp_at s i) \<and>
        ue_local_port (udp_at s' i) = ue_local_port (udp_at s i))"

definition evolves :: "('n, 'k) arwill_ipv4_stack \<Rightarrow> ('n, 'k) arwill_ipv4_stack \<Rightarrow> bool" where
  "evolves s s' \<longleftrightarrow> stack_ok s' \<and> same_owners s s'"

lemma same_owners_refl [simp]: "same_owners s s"
  by (simp add: same_owners_def)

lemma same_owners_trans: "same_owners s s1 \<Longrightarrow> same_owners s1 s' \<Longrightarrow> same_owners s s'"
  by (simp add: same_owners_def)

lemma same_owners_cong:
  "ip_endpoints s' = ip_endpoints s1 \<Longrightarrow> ip_udp_endpoints s' = ip_udp_endpoints s1 \<Longrightarrow>
   same_owners s s1 \<Longrightarrow> same_owners s s'"
  by (simp add: same_owners_def endpoint_at_def udp_at_def)

lemma evolves_ok: "evolves s s' \<Longrightarrow> stack_ok s'"
  by (simp add: evolves_def)

lemma evolves_refl: "stack_ok s \<Longrightarrow> evolves s s"
  by (simp add: evolves_def)

lemma evolves_trans: "evolves s s1 \<Longrightarrow> evolves s1 s' \<Longrightarrow> evolves s s'"
  by (auto simp: evolves_def intro: same_owners_trans)

lemma evolves_cong:
  "ip_endpoints s' = ip_endpoints s1 \<Longrightarrow> ip_udp_endpoints s' = ip_udp_endpoints s1 \<Longrightarrow>
   evolves s s1 \<Longrightarrow> evolves s s'"
  using stack_ok_cong [of s' s1] by (auto simp: evolves_def intro: same_owners_cong)

lemma same_tables_evolves: "same_tables s s' \<Longrightarrow> stack_ok s \<Longrightarrow> evolves s s'"
  by (rule evolves_cong [OF _ _ evolves_refl]) (simp_all add: same_tables_def)

lemma stack_keeps_evolves:
  assumes "stack_keeps i s s'" "stack_ok s" "i < 4"
  shows "evolves s s'"
proof -
  have "ep_allocated (endpoint_at s' j) = ep_allocated (endpoint_at s j) \<and>
      ep_bound_port (endpoint_at s' j) = ep_bound_port (endpoint_at s j)" for j
    using assms(1) by (cases "j = i") (simp_all add: stack_keeps_def keeps_def)
  moreover have "udp_at s' j = udp_at s j" for j using assms(1) by (simp add: stack_keeps_def udp_at_def)
  ultimately show ?thesis using stack_keeps_ok [OF assms] by (simp add: evolves_def same_owners_def)
qed

lemma with_udp_evolves:
  assumes "stack_ok s" "i < 4" "udp_ok (f (udp_at s i))"
    "ue_allocated (f (udp_at s i)) = ue_allocated (udp_at s i)"
    "ue_bound (f (udp_at s i)) = ue_bound (udp_at s i)"
    "ue_local_port (f (udp_at s i)) = ue_local_port (udp_at s i)"
  shows "evolves s (with_udp i f s)"
proof -
  have "udp_at (with_udp i f s) j = (if j = i then f (udp_at s i) else udp_at s j)" for j
    using assms(1,2) by (simp add: udp_at_def with_udp_def stack_ok_def)
  moreover have "stack_ok (with_udp i f s)" using assms by (intro stack_ok_with_udp)
  ultimately show ?thesis
    using assms(4-6) by (simp add: evolves_def same_owners_def endpoint_at_def with_udp_def)
qed

lemma send_tcp_segment_to_none:
  "send_tcp_segment_to s None seg p n mac = (ok, s') \<Longrightarrow> same_tables s s'"
  by (auto simp: send_tcp_segment_to_def Let_def same_tables_def dest!: send_frame_same
      split: if_splits prod.splits)

lemma send_reset_same: "send_reset_for_segment s seg mac = (ok, s') \<Longrightarrow> same_tables s s'"
  by (auto simp: send_reset_for_segment_def same_tables_def dest!: send_tcp_segment_to_none
      split: if_splits prod.splits)

lemma find_upt_less: "find P [a..<b] = Some i \<Longrightarrow> a \<le> i \<and> i < b \<and> P i"
  by (auto simp: find_Some_iff)

lemma tcp_endpoint_for_less:
  "tcp_endpoint_for s port = Some i \<Longrightarrow> i < 4 \<and> ep_allocated (endpoint_at s i) \<and>
   st_listening (ep_stream (endpoint_at s i)) \<and> ln_port (st_listener (ep_stream (endpoint_at s i))) = port"
  unfolding tcp_endpoint_for_def by (drule find_upt_less) (simp add: Let_def)

lemma handle_tcp_frame_evolves:
  assumes "stack_ok s" and "handle_tcp_frame s frame len = (ok, s')"
  shows "evolves s s'"
proof -
  define h where "h = unat (drop_bit 4 (frame ! 46)) * 4"
  define n where "n = unat (get16 frame 16)"
  define seg where "seg = tcp_frame_segment frame h (n - 20 - h)"
  define s1 where "s1 = count_segment seg s"
  have s1: "evolves s s1"
    by (rule evolves_cong [OF _ _ evolves_refl [OF assms(1)]]) (simp_all add: s1_def count_segment_def)
  define next_step where "next_step = (case tcp_endpoint_for s1 (sg_destination_port seg) of
      None \<Rightarrow> send_reset_for_segment (s1\<lparr>ip_tcp_unknown_port_frames := ip_tcp_unknown_port_frames s1 + 1\<rparr>)
         seg (drop 6 frame)
    | Some i \<Rightarrow> handle_tcp_segment s1 i seg (drop (14 + 20 + h) frame) frame)"
  have "evolves s1 (snd next_step)"
  proof (cases "tcp_endpoint_for s1 (sg_destination_port seg)")
    case None
    then obtain b s2 where e: "next_step = (b, s2)" and
      r: "send_reset_for_segment (s1\<lparr>ip_tcp_unknown_port_frames := ip_tcp_unknown_port_frames s1 + 1\<rparr>)
         seg (drop 6 frame) = (b, s2)"
      by (cases next_step) (simp add: next_step_def)
    show ?thesis
      by (rule evolves_cong [OF _ _ evolves_refl [OF evolves_ok [OF s1]]])
        (use send_reset_same [OF r] e in \<open>simp_all add: same_tables_def\<close>)
  next
    case (Some i)
    then obtain b s2 where e: "next_step = (b, s2)" and
      r: "handle_tcp_segment s1 i seg (drop (14 + 20 + h) frame) frame = (b, s2)"
      by (cases next_step) (simp add: next_step_def)
    then show ?thesis
      using stack_keeps_evolves [OF handle_tcp_segment_keeps [OF r] evolves_ok [OF s1]]
        tcp_endpoint_for_less [OF Some] by simp
  qed
  moreover have "evolves s (s\<lparr>ip_tcp_checksum_drops := x\<rparr>)" for x
    by (rule evolves_cong [OF _ _ evolves_refl [OF assms(1)]]) simp_all
  moreover have "s' = s \<or> s' = s\<lparr>ip_tcp_checksum_drops := ip_tcp_checksum_drops s + 1\<rparr> \<or> next_step = (ok, s')"
    using assms(2) unfolding handle_tcp_frame_def Let_def h_def [symmetric] n_def [symmetric]
      seg_def [symmetric] s1_def [symmetric] next_step_def [symmetric]
    by (simp only: prod.inject split: if_splits) blast+
  ultimately show ?thesis using evolves_refl [OF assms(1)] evolves_trans [OF s1] by (elim disjE) simp_all
qed

lemma udp_endpoint_for_less: "udp_endpoint_for s src sp dp = Some i \<Longrightarrow> i < 4"
  unfolding udp_endpoint_for_def by (drule find_upt_less) simp

lemma handle_udp_frame_evolves:
  assumes "stack_ok s" and "handle_udp_frame s frame len = (ok, s')"
  shows "evolves s s'"
proof -
  define n where "n = unat (get16 (drop 34 frame) 4)"
  define ep where "ep = udp_endpoint_for s (drop 26 frame) (get16 (drop 34 frame) 0) (get16 (drop 34 frame) 2)"
  let ?f = "\<lambda>e. e\<lparr>ue_receive := copy_into (ue_receive e) 0 (drop 8 (drop 34 frame)) (n - 8),
      ue_receive_length := n - 8\<rparr>"
  have "same_tables s s' \<or>
      (\<exists>i. ep = Some i \<and> n - 8 \<le> 512 \<and> ip_endpoints s' = ip_endpoints s \<and>
        ip_udp_endpoints s' = ip_udp_endpoints (with_udp i ?f s))"
    using assms(2) unfolding handle_udp_frame_def Let_def n_def [symmetric] ep_def [symmetric]
    by (cases ep) (auto split: if_splits simp: same_tables_def with_udp_def)
  then show ?thesis
  proof (elim disjE exE conjE)
    fix i assume i: "ep = Some i" "n - 8 \<le> 512" and e: "ip_endpoints s' = ip_endpoints s"
      "ip_udp_endpoints s' = ip_udp_endpoints (with_udp i ?f s)"
    have i4: "i < 4" using udp_endpoint_for_less i(1) by (simp add: ep_def)
    have "evolves s (with_udp i ?f s)"
      using stack_ok_udp [OF assms(1) i4] i(2)
      by (intro with_udp_evolves [OF assms(1) i4]) (simp_all add: udp_ok_def)
    then show ?thesis by (rule evolves_cong [rotated 2]) (use e in \<open>simp_all add: with_udp_def\<close>)
  qed (use assms(1) same_tables_evolves in blast)
qed

lemma arp_reply_tcp_evolves:
  assumes "stack_ok s" and "i < 4" and "arp_reply_tcp frame (b, s) i = (b', s')"
  shows "evolves s s'"
proof (cases "\<not> ep_allocated (endpoint_at s i) \<or> \<not> ep_connect_pending (endpoint_at s i) \<or>
    \<not> same_bytes (drop 28 frame) (ep_connect_next_hop (endpoint_at s i)) 4")
  case True
  then show ?thesis using assms by (auto simp: arp_reply_tcp_def intro: evolves_refl)
next
  case False
  define s1 where "s1 = with_endpoint i (\<lambda>e. e\<lparr>ep_tcp_peer_mac := take 6 (drop 22 frame)\<rparr>) s"
  have k: "stack_keeps i s s1" unfolding s1_def by (rule with_endpoint_keeps) simp
  have "ep_connect_pending (endpoint_at s1 i)"
    using False by (simp add: s1_def with_endpoint_at)
  moreover obtain r s2 where r: "start_active_syn s1 i = (r, s2)" by (cases "start_active_syn s1 i")
  ultimately have "stack_keeps i s s2" using stack_keeps_trans [OF k start_active_syn_keeps] by simp
  moreover have "s' = s2"
    using assms(3) False r by (simp add: arp_reply_tcp_def Let_def s1_def)
  ultimately show ?thesis using stack_keeps_evolves assms by blast
qed

lemma arp_reply_udp_evolves:
  assumes "stack_ok s" and "i < 4" and "arp_reply_udp frame (b, s) i = (b', s')"
  shows "evolves s s'"
proof (cases "\<not> ue_allocated (udp_at s i) \<or> \<not> ue_resolving (udp_at s i) \<or>
    \<not> same_bytes (drop 28 frame) (ue_next_hop (udp_at s i)) 4")
  case False
  then have "s' = with_udp i (\<lambda>e. e\<lparr>ue_peer_mac := take 6 (drop 22 frame),
      ue_resolving := False, ue_connected := True\<rparr>) s"
    using assms(3) by (auto simp: arp_reply_udp_def Let_def)
  then show ?thesis
    using stack_ok_udp [OF assms(1,2)] False
    by (simp add: with_udp_evolves [OF assms(1,2)] udp_ok_def)
qed (use assms in \<open>auto simp: arp_reply_udp_def intro: evolves_refl\<close>)

lemma foldl_evolves:
  assumes "\<And>x i. stack_ok (g x) \<Longrightarrow> i \<in> set is \<Longrightarrow> evolves (g x) (g (f x i))" "evolves s (g x)"
  shows "evolves s (g (foldl f x is))"
  using assms
proof (induction "is" arbitrary: x)
  case (Cons i "is")
  have "evolves s (g (f x i))"
    by (rule evolves_trans [OF Cons.prems(2) Cons.prems(1) [OF evolves_ok [OF Cons.prems(2)]]]) simp
  then show ?case using Cons.IH [of "f x i"] Cons.prems(1) by simp
qed simp

lemma handle_arp_reply_evolves:
  assumes "stack_ok s" and "handle_arp_reply s frame len = (ok, s')"
  shows "evolves s s'"
proof -
  define s1 where "s1 = (if same_bytes (drop 28 frame) (ip_gateway s) 4
      then s\<lparr>ip_gateway_mac := take 6 (drop 22 frame), ip_gateway_resolved := True\<rparr> else s)"
  have s1: "evolves s s1"
    by (rule evolves_cong [OF _ _ evolves_refl [OF assms(1)]]) (simp_all add: s1_def)
  define q where "q = foldl (arp_reply_tcp frame) (False, s1) [0..<4]"
  have "evolves (snd p) (snd (arp_reply_tcp frame p i))" if "stack_ok (snd p)" "i < 4" for p i
    using that arp_reply_tcp_evolves [of "snd p" i frame "fst p"]
    by (cases "arp_reply_tcp frame p i") simp
  then have "evolves s (snd q)" unfolding q_def by (intro foldl_evolves [where g = snd]) (use s1 in auto)
  moreover have "evolves (snd p) (snd (arp_reply_udp frame p i))" if "stack_ok (snd p)" "i < 4" for p i
    using that arp_reply_udp_evolves [of "snd p" i frame "fst p"]
    by (cases "arp_reply_udp frame p i") simp
  ultimately have "evolves s (snd (foldl (arp_reply_udp frame) q [0..<4]))"
    by (intro foldl_evolves [where g = snd]) auto
  moreover have "s' = s \<or> foldl (arp_reply_udp frame) q [0..<4] = (ok, s')"
    using assms(2) unfolding handle_arp_reply_def Let_def s1_def [symmetric] q_def [symmetric]
    by (simp only: prod.inject split: if_splits) blast+
  ultimately show ?thesis using evolves_refl [OF assms(1)] by (elim disjE) simp_all
qed

lemma handle_frame_evolves:
  assumes "stack_ok s" and "handle_frame s frame len = (ok, s')"
  shows "evolves s s'"
proof -
  have "send_arp_reply s frame = (ok, s') \<or> handle_arp_reply s frame len = (ok, s') \<or>
      send_echo_reply s frame len = (ok, s') \<or> handle_udp_frame s frame len = (ok, s') \<or>
      handle_tcp_frame s frame len = (ok, s')"
    using assms(2) unfolding handle_frame_def by (simp only: split: if_splits) blast+
  then show ?thesis
    by (elim disjE)
      (use assms(1) in \<open>auto intro: handle_arp_reply_evolves handle_udp_frame_evolves handle_tcp_frame_evolves
        same_tables_evolves [OF send_arp_reply_same] same_tables_evolves [OF send_echo_reply_same]\<close>)
qed

lemma maintain_udp_evolves:
  assumes "stack_ok s" and "i < 4"
  shows "evolves s (maintain_udp_connect s i)"
proof -
  obtain now s1 where c: "read_clock s = (now, s1)" by (cases "read_clock s")
  have e1: "evolves s s1" by (rule same_tables_evolves [OF read_clock_same [OF c] assms(1)])
  note ok1 = evolves_ok [OF e1]
  obtain b s2 where a: "arwill_ipv4_send_arp_request s1 (ue_next_hop (udp_at s1 i)) = (b, s2)"
    by (cases "arwill_ipv4_send_arp_request s1 (ue_next_hop (udp_at s1 i))")
  note t2 = send_arp_request_same [OF a]
  have e2: "evolves s1 s2" by (rule same_tables_evolves [OF t2 ok1])
  have u: "udp_ok (udp_at s1 i)" by (rule stack_ok_udp [OF ok1 assms(2)])
  have "evolves s1 (with_udp i (\<lambda>e. e\<lparr>ue_resolving := False, ue_failed := True\<rparr>) s1)"
    using u by (intro with_udp_evolves [OF ok1 assms(2)]) (simp_all add: udp_ok_def)
  moreover have "evolves s2 (with_udp i (\<lambda>e. e\<lparr>ue_arp_sent_milliseconds := now,
      ue_arp_attempts := ue_arp_attempts e + 1\<rparr>) s2)" if "\<not> 3 \<le> ue_arp_attempts (udp_at s1 i)"
  proof (rule with_udp_evolves [OF evolves_ok [OF e2] assms(2)])
    have "ue_arp_attempts (udp_at s1 i) + 1 \<le> 3"
      using that by (simp add: not_le word_less_nat_alt word_le_nat_alt unat_word_ariths)
    then show "udp_ok ((udp_at s2 i)\<lparr>ue_arp_sent_milliseconds := now,
        ue_arp_attempts := ue_arp_attempts (udp_at s2 i) + 1\<rparr>)"
      using u same_tables_udp [OF t2, of i] by (simp add: udp_ok_def)
  qed simp_all
  ultimately show ?thesis
    using evolves_refl [OF assms(1)] e1 evolves_trans [OF e1] evolves_trans [OF evolves_trans [OF e1 e2]]
      evolves_trans [OF e1 e2]
    unfolding maintain_udp_connect_def Let_def by (simp add: c a)
qed

lemma poll_evolves:
  assumes "stack_ok s"
  shows "evolves s (snd (arwill_ipv4_poll_tcp s))"
proof -
  have "evolves s (foldl maintain_endpoint s [0..<4])"
    by (rule foldl_evolves [where g = "\<lambda>s. s"], rule stack_keeps_evolves [OF maintain_endpoint_keeps])
      (use assms in \<open>auto intro: evolves_refl\<close>)
  then have e1: "evolves s (foldl maintain_udp_connect (foldl maintain_endpoint s [0..<4]) [0..<4])"
    by (rule foldl_evolves [where g = "\<lambda>s. s", rotated]) (auto intro: maintain_udp_evolves)
  define s1 where "s1 = foldl maintain_udp_connect (foldl maintain_endpoint s [0..<4]) [0..<4]"
  obtain b fr n s2 where p: "poll_frame s1 (replicate 1536 0) = (b, fr, n, s2)"
    by (rule prod_cases4)
  have e2: "evolves s s2"
    using evolves_trans [OF e1 same_tables_evolves [OF poll_frame_same [OF p, unfolded s1_def] evolves_ok [OF e1]]] .
  obtain r s3 where h: "handle_frame s2 fr n = (r, s3)" by (cases "handle_frame s2 fr n")
  have "evolves s s3" by (rule evolves_trans [OF e2 handle_frame_evolves [OF evolves_ok [OF e2] h]])
  then show ?thesis
    using evolves_refl [OF assms] e2 unfolding arwill_ipv4_poll_tcp_def Let_def s1_def [symmetric] p prod.case h by simp
qed

section \<open>The interface of the kernel\<close>

lemma stack_ok_set_endpoint:
  assumes ok: "stack_ok s" and i: "i < 4" and e: "endpoint_ok (f (endpoint_at s i))"
    and port: "ep_allocated (f (endpoint_at s i)) \<Longrightarrow> ep_bound_port (f (endpoint_at s i)) \<noteq> 0 \<Longrightarrow>
      \<forall>j<4. j \<noteq> i \<and> ep_allocated (endpoint_at s j) \<longrightarrow>
        ep_bound_port (endpoint_at s j) \<noteq> ep_bound_port (f (endpoint_at s i))"
  shows "stack_ok (with_endpoint i f s)"
proof -
  have "ports_distinct ((ip_endpoints s)[i := f (ip_endpoints s ! i)])"
    unfolding ports_distinct_def
  proof (intro allI impI)
    fix a b assume ab: "a < length ((ip_endpoints s)[i := f (ip_endpoints s ! i)])"
      "b < length ((ip_endpoints s)[i := f (ip_endpoints s ! i)])"
      and h: "a \<noteq> b \<and> ep_allocated ((ip_endpoints s)[i := f (ip_endpoints s ! i)] ! a) \<and>
        ep_allocated ((ip_endpoints s)[i := f (ip_endpoints s ! i)] ! b) \<and>
        ep_bound_port ((ip_endpoints s)[i := f (ip_endpoints s ! i)] ! a) \<noteq> 0"
    consider "a = i" "b \<noteq> i" | "b = i" "a \<noteq> i" | "a \<noteq> i" "b \<noteq> i" using h by blast
    then show "ep_bound_port ((ip_endpoints s)[i := f (ip_endpoints s ! i)] ! a) \<noteq>
        ep_bound_port ((ip_endpoints s)[i := f (ip_endpoints s ! i)] ! b)"
      using ab h port ok i
      by cases (auto simp: stack_ok_def endpoint_at_def ports_distinct_def)
  qed
  then show ?thesis
    using ok e by (auto simp: stack_ok_def with_endpoint_def endpoint_at_def
        dest!: set_update_subset_insert [THEN subsetD])
qed

lemma raw_initialize: "endpoint_ok e \<Longrightarrow> endpoint_ok (initialize_tcp_endpoint e)"
  by (rule initialize_endpoint_ok [OF endpoint_ok_raw])

lemma tcp_open_ok: "stack_ok s \<Longrightarrow> stack_ok (snd (arwill_ipv4_tcp_open s))"
proof (cases "find (\<lambda>i. \<not> ep_allocated (endpoint_at s i)) [1..<4]")
  case (Some i)
  assume ok: "stack_ok s"
  have i: "i < 4" using find_upt_less [OF Some] by simp
  have e: "endpoint_ok ((initialize_tcp_endpoint (endpoint_at s i))\<lparr>ep_allocated := True\<rparr>)"
    using raw_initialize [OF stack_ok_endpoint [OF ok i]] by (simp add: endpoint_ok_def)
  have "stack_ok (with_endpoint i
      (\<lambda>endpoint. (initialize_tcp_endpoint endpoint)\<lparr>ep_allocated := True\<rparr>) s)"
    by (rule stack_ok_set_endpoint [OF ok i]) (use e in \<open>simp_all add: initialize_tcp_endpoint_def\<close>)
  then show ?thesis using Some by (simp add: arwill_ipv4_tcp_open_def)
qed (simp add: arwill_ipv4_tcp_open_def)

lemma endpoint_for_stream_Some:
  "endpoint_for_stream s t = Some i \<Longrightarrow> i = t \<and> i < 4 \<and> ep_allocated (endpoint_at s i)"
  unfolding endpoint_for_stream_def by (drule find_upt_less) auto

lemma local_port_available_iff:
  "local_port_available s i port \<longleftrightarrow>
     (\<forall>j<4. j \<noteq> i \<and> ep_allocated (endpoint_at s j) \<longrightarrow> ep_bound_port (endpoint_at s j) \<noteq> port)"
  by (auto simp: local_port_available_def list_all_iff)

lemma bind_endpoint_ok:
  "endpoint_ok e \<Longrightarrow> ep_bound_port e = 0 \<Longrightarrow> endpoint_ok (e\<lparr>ep_bound_port := port\<rparr>)"
  by (auto simp: endpoint_ok_def)

lemma tcp_bind_ok: "stack_ok s \<Longrightarrow> stack_ok (snd (arwill_ipv4_tcp_bind s t port))"
proof (cases "endpoint_for_stream s t")
  case (Some i)
  assume ok: "stack_ok s"
  have i: "i < 4" using endpoint_for_stream_Some [OF Some] by simp
  have "stack_ok (with_endpoint i (\<lambda>e. e\<lparr>ep_bound_port := port\<rparr>) s)"
    if "ep_bound_port (endpoint_at s i) = 0" "local_port_available s i port"
    by (rule stack_ok_set_endpoint [OF ok i])
      (use that stack_ok_endpoint [OF ok i] in \<open>simp_all add: bind_endpoint_ok local_port_available_iff\<close>)
  then show ?thesis using Some ok by (simp add: arwill_ipv4_tcp_bind_def)
qed (simp add: arwill_ipv4_tcp_bind_def)

lemma stream_listen_fields:
  assumes "port \<noteq> 0"
  shows "st_listening (snd (arwill_tcp_stream_listen s port iss))"
    "ln_port (st_listener (snd (arwill_tcp_stream_listen s port iss))) = port"
  using assms by (simp_all add: arwill_tcp_stream_listen_def arwill_tcp_listener_init_def)

lemma listen_endpoint_ok:
  assumes "endpoint_ok e" and "port \<noteq> 0"
  shows "endpoint_ok (listen_endpoint port e)"
proof -
  have r: "endpoint_ok (reset_tcp_stream e)" using reset_keeps [of e] assms(1) by (simp add: keeps_def)
  have "\<not> ep_connect_pending (reset_tcp_stream e)" by (simp add: reset_tcp_stream_def Let_def)
  then show ?thesis
    using r assms(2) stream_listen_ok [of "ep_stream (reset_tcp_stream e)"]
    by (simp add: listen_endpoint_def Let_def endpoint_ok_def stream_listen_fields)
qed

lemma listen_endpoint_port [simp]:
  "ep_bound_port (listen_endpoint port e) = port"
  "ep_allocated (listen_endpoint port e) = ep_allocated e"
  by (simp_all add: listen_endpoint_def Let_def reset_tcp_stream_def)

lemma tcp_bind_result:
  assumes "endpoint_for_stream s t = Some i" and "stack_ok s"
    and "arwill_ipv4_tcp_bind s t port = (True, s')"
  shows "ep_bound_port (endpoint_at s' i) = port"
  using assms endpoint_for_stream_Some [OF assms(1)]
  by (auto simp: arwill_ipv4_tcp_bind_def with_endpoint_at stack_ok_def split: if_splits)

lemma tcp_listen_ok: "stack_ok s \<Longrightarrow> stack_ok (snd (arwill_ipv4_tcp_listen s t port))"
proof (cases "endpoint_for_stream s t")
  case (Some i)
  assume ok: "stack_ok s"
  have i: "i < 4" using endpoint_for_stream_Some [OF Some] by simp
  let ?b = "if ep_bound_port (endpoint_at s i) = 0 then arwill_ipv4_tcp_bind s t port else (True, s)"
  obtain b s1 where b: "?b = (b, s1)" by (cases ?b)
  have s1: "stack_ok s1"
    using b ok tcp_bind_ok [OF ok, of t port] by (auto split: if_splits)
  have port: "ep_bound_port (endpoint_at s1 i) = port"
    if "b" "ep_bound_port (endpoint_at s i) = 0 \<or> ep_bound_port (endpoint_at s i) = port"
    using b that tcp_bind_result [OF Some ok, of port] by (auto split: if_splits)
  have "stack_ok (with_endpoint i (listen_endpoint port) s1)"
    if "port \<noteq> 0" "b" "ep_bound_port (endpoint_at s i) = 0 \<or> ep_bound_port (endpoint_at s i) = port"
  proof (rule stack_ok_with_endpoint [OF s1 i])
    show "keeps (endpoint_at s1 i) (listen_endpoint port (endpoint_at s1 i))"
      using listen_endpoint_ok that port by (simp add: keeps_def)
  qed
  then show ?thesis using Some ok s1 unfolding arwill_ipv4_tcp_listen_def by (auto simp: b)
qed (simp add: arwill_ipv4_tcp_listen_def)

lemma connect_endpoint_ok:
  assumes "endpoint_ok e" and "local_port \<noteq> 0"
  shows "endpoint_ok (connect_endpoint peer hop local_port peer_port e)"
proof -
  have r: "endpoint_ok (reset_tcp_stream e)" using reset_keeps [of e] assms(1) by (simp add: keeps_def)
  have l: "listener_ok ((arwill_tcp_listener_reset l iss)\<lparr>ln_port := p\<rparr>)" for l iss p
    using listener_reset_ok [of l iss] by (simp add: listener_ok_def)
  show ?thesis
    using r assms(2) l
    by (simp add: connect_endpoint_def Let_def endpoint_ok_def stream_ok_def reset_tcp_stream_def)
qed

lemma tcp_connect_ok:
  "stack_ok s \<Longrightarrow> stack_ok (snd (arwill_ipv4_tcp_connect s t peer local_port peer_port))"
proof (cases "endpoint_for_stream s t")
  case (Some i)
  assume ok: "stack_ok s"
  have i: "i < 4" using endpoint_for_stream_Some [OF Some] by simp
  have "stack_ok (with_endpoint i (connect_endpoint peer (next_hop_for s peer) local_port peer_port) s)"
    if "local_port \<noteq> 0" "ep_bound_port (endpoint_at s i) = local_port"
  proof (rule stack_ok_with_endpoint [OF ok i])
    show "keeps (endpoint_at s i)
        (connect_endpoint peer (next_hop_for s peer) local_port peer_port (endpoint_at s i))"
      using connect_endpoint_ok that
      by (simp add: keeps_def) (simp add: connect_endpoint_def Let_def reset_tcp_stream_def)
  qed
  then show ?thesis using Some ok by (simp add: arwill_ipv4_tcp_connect_def Let_def)
qed (simp add: arwill_ipv4_tcp_connect_def)

lemma tcp_release_ok: "stack_ok s \<Longrightarrow> stack_ok (arwill_ipv4_tcp_release s t)"
proof (cases "endpoint_for_stream s t")
  case (Some i)
  assume ok: "stack_ok s"
  have i: "i < 4" using endpoint_for_stream_Some [OF Some] by simp
  have e: "endpoint_ok (initialize_tcp_endpoint
      ((endpoint_at s i)\<lparr>ep_stream := arwill_tcp_stream_stop (ep_stream (endpoint_at s i))\<rparr>))"
    by (rule initialize_endpoint_ok [OF stop_keeps_ok [OF stack_ok_endpoint [OF ok i]]])
  have "stack_ok (with_endpoint i (\<lambda>endpoint. initialize_tcp_endpoint
      (endpoint\<lparr>ep_stream := arwill_tcp_stream_stop (ep_stream endpoint)\<rparr>)) s)"
    by (rule stack_ok_set_endpoint [OF ok i]) (use e in \<open>simp_all add: initialize_tcp_endpoint_def\<close>)
  then show ?thesis using Some ok by (simp add: arwill_ipv4_tcp_release_def)
qed (simp add: arwill_ipv4_tcp_release_def)

lemma stack_ok_set_udp:
  assumes ok: "stack_ok s" and i: "i < 4" and u: "udp_ok (f (udp_at s i))"
    and port: "ue_allocated (f (udp_at s i)) \<Longrightarrow> ue_bound (f (udp_at s i)) \<Longrightarrow>
      \<forall>j<4. j \<noteq> i \<and> ue_allocated (udp_at s j) \<and> ue_bound (udp_at s j) \<longrightarrow>
        ue_local_port (udp_at s j) \<noteq> ue_local_port (f (udp_at s i))"
  shows "stack_ok (with_udp i f s)"
proof -
  have "udp_ports_distinct ((ip_udp_endpoints s)[i := f (ip_udp_endpoints s ! i)])"
    unfolding udp_ports_distinct_def
  proof (intro allI impI)
    fix a b assume ab: "a < length ((ip_udp_endpoints s)[i := f (ip_udp_endpoints s ! i)])"
      "b < length ((ip_udp_endpoints s)[i := f (ip_udp_endpoints s ! i)])"
      and h: "a \<noteq> b \<and> ue_allocated ((ip_udp_endpoints s)[i := f (ip_udp_endpoints s ! i)] ! a) \<and>
        ue_allocated ((ip_udp_endpoints s)[i := f (ip_udp_endpoints s ! i)] ! b) \<and>
        ue_bound ((ip_udp_endpoints s)[i := f (ip_udp_endpoints s ! i)] ! a) \<and>
        ue_bound ((ip_udp_endpoints s)[i := f (ip_udp_endpoints s ! i)] ! b)"
    consider "a = i" "b \<noteq> i" | "b = i" "a \<noteq> i" | "a \<noteq> i" "b \<noteq> i" using h by blast
    then show "ue_local_port ((ip_udp_endpoints s)[i := f (ip_udp_endpoints s ! i)] ! a) \<noteq>
        ue_local_port ((ip_udp_endpoints s)[i := f (ip_udp_endpoints s ! i)] ! b)"
      using ab h port ok i
      by cases (auto simp: stack_ok_def udp_at_def udp_ports_distinct_def)
  qed
  then show ?thesis
    using ok u by (auto simp: stack_ok_def with_udp_def udp_at_def
        dest!: set_update_subset_insert [THEN subsetD])
qed

lemma initialize_udp_ok: "length (ue_receive u) = 512 \<Longrightarrow> udp_ok (initialize_udp_endpoint u)"
  by (simp add: initialize_udp_endpoint_def udp_ok_def)

lemma udp_pointer_Some: "udp_endpoint_for_pointer s u \<noteq> None \<Longrightarrow> u < 4 \<and> ue_allocated (udp_at s u)"
  unfolding udp_endpoint_for_pointer_def by (auto dest!: find_upt_less)

lemma udp_open_ok: "stack_ok s \<Longrightarrow> stack_ok (snd (arwill_ipv4_udp_open s))"
proof (cases "find (\<lambda>i. \<not> ue_allocated (udp_at s i)) [0..<4]")
  case (Some i)
  assume ok: "stack_ok s"
  have i: "i < 4" using find_upt_less [OF Some] by simp
  have "stack_ok (with_udp i (\<lambda>u. (initialize_udp_endpoint u)\<lparr>ue_allocated := True\<rparr>) s)"
    using stack_ok_udp [OF ok i]
    by (intro stack_ok_set_udp [OF ok i]) (simp_all add: initialize_udp_endpoint_def udp_ok_def)
  then show ?thesis using Some by (simp add: arwill_ipv4_udp_open_def)
qed (simp add: arwill_ipv4_udp_open_def)

lemma udp_bind_ok: "stack_ok s \<Longrightarrow> stack_ok (snd (arwill_ipv4_udp_bind s u port))"
proof (cases "udp_endpoint_for_pointer s u = None \<or> port = 0 \<or> ue_bound (udp_at s u) \<or>
    list_ex (\<lambda>i. i \<noteq> u \<and> ue_allocated (udp_at s i) \<and> ue_bound (udp_at s i) \<and>
      ue_local_port (udp_at s i) = port) [0..<4]")
  case False
  assume ok: "stack_ok s"
  have u: "u < 4" using False udp_pointer_Some by blast
  have "stack_ok (with_udp u (\<lambda>e. e\<lparr>ue_local_port := port, ue_bound := True\<rparr>) s)"
    using stack_ok_udp [OF ok u] False
    by (intro stack_ok_set_udp [OF ok u]) (auto simp: udp_ok_def list_ex_iff)
  then show ?thesis using False by (auto simp: arwill_ipv4_udp_bind_def)
qed (auto simp: arwill_ipv4_udp_bind_def)

lemma udp_connect_ok: "stack_ok s \<Longrightarrow> stack_ok (snd (arwill_ipv4_udp_connect s u peer port))"
proof (cases "udp_endpoint_for_pointer s u = None \<or> port = 0 \<or> \<not> ue_bound (udp_at s u) \<or>
    ue_connected (udp_at s u) \<or> ue_resolving (udp_at s u) \<or> ue_failed (udp_at s u)")
  case False
  assume ok: "stack_ok s"
  have u: "u < 4" using False udp_pointer_Some by blast
  have "stack_ok (with_udp u (\<lambda>e. e\<lparr>ue_peer_address := take 4 peer, ue_next_hop := next_hop_for s peer,
      ue_peer_port := port, ue_arp_sent_milliseconds := 0, ue_arp_attempts := 0, ue_resolving := True\<rparr>) s)"
    using stack_ok_udp [OF ok u] False
    by (intro stack_ok_with_udp [OF ok u]) (simp_all add: udp_ok_def)
  then show ?thesis using False by (auto simp: arwill_ipv4_udp_connect_def Let_def)
qed (auto simp: arwill_ipv4_udp_connect_def Let_def)

lemma udp_release_ok: "stack_ok s \<Longrightarrow> stack_ok (arwill_ipv4_udp_release s u)"
proof (cases "udp_endpoint_for_pointer s u = None")
  case False
  assume ok: "stack_ok s"
  have u: "u < 4" using False udp_pointer_Some by blast
  have "stack_ok (with_udp u initialize_udp_endpoint s)"
    using stack_ok_udp [OF ok u]
    by (intro stack_ok_set_udp [OF ok u]) (simp_all add: initialize_udp_endpoint_def udp_ok_def)
  then show ?thesis using False by (simp add: arwill_ipv4_udp_release_def)
qed (simp add: arwill_ipv4_udp_release_def)

lemma udp_receive_ok:
  assumes "stack_ok s" and "arwill_ipv4_udp_receive s u d n = (r, d', s')"
  shows "stack_ok s'"
proof -
  have "stack_ok (with_udp u (\<lambda>e. e\<lparr>ue_receive_length := 0\<rparr>) s)" if "udp_endpoint_for_pointer s u \<noteq> None"
  proof -
    have u: "u < 4" using that udp_pointer_Some by blast
    show ?thesis
      using stack_ok_udp [OF assms(1) u]
      by (intro stack_ok_with_udp [OF assms(1) u]) (simp_all add: udp_ok_def)
  qed
  moreover have "s' = s \<or> udp_endpoint_for_pointer s u \<noteq> None \<and>
      s' = with_udp u (\<lambda>e. e\<lparr>ue_receive_length := 0\<rparr>) s"
    using assms(2) unfolding arwill_ipv4_udp_receive_def Let_def by (auto split: if_splits)
  ultimately show ?thesis using assms(1) by auto
qed

section \<open>Initialisation and reachable stacks\<close>

text \<open>The memory of a stack: arrays of their sizes with any contents.\<close>

definition raw_stack :: "('n, 'k) arwill_ipv4_stack \<Rightarrow> bool" where
  "raw_stack s \<longleftrightarrow> length (ip_endpoints s) = 4 \<and> (\<forall>e\<in>set (ip_endpoints s). raw_endpoint e) \<and>
     length (ip_udp_endpoints s) = 4 \<and> (\<forall>u\<in>set (ip_udp_endpoints s). length (ue_receive u) = 512)"

lemma first_endpoint_ok:
  assumes "raw_endpoint e" and "port \<noteq> 0"
  shows "endpoint_ok ((initialize_tcp_endpoint e)\<lparr>ep_allocated := True, ep_bound_port := port,
      ep_stream := snd (arwill_tcp_stream_listen (ep_stream (initialize_tcp_endpoint e)) port iss)\<rparr>)"
proof -
  have i: "endpoint_ok (initialize_tcp_endpoint e)" by (rule initialize_endpoint_ok [OF assms(1)])
  have "\<not> ep_connect_pending (initialize_tcp_endpoint e)" by (simp add: initialize_tcp_endpoint_def)
  then show ?thesis
    using i assms(2) stream_listen_ok [of "ep_stream (initialize_tcp_endpoint e)"]
    by (simp add: endpoint_ok_def stream_listen_fields)
qed

lemma initialized_fields [simp]:
  "ep_bound_port (initialize_tcp_endpoint e) = 0" "\<not> ep_allocated (initialize_tcp_endpoint e)"
  by (simp_all add: initialize_tcp_endpoint_def)

lemma init_tables_ok:
  fixes es :: "arwill_tcp_endpoint list" and port :: u16 and iss :: u32
  assumes "length es = 4" and "\<forall>e\<in>set es. raw_endpoint e" and "port \<noteq> 0"
  defines "es' \<equiv> map initialize_tcp_endpoint es"
  defines "es'' \<equiv> es'[0 := (es' ! 0)\<lparr>ep_allocated := True, ep_bound_port := port,
      ep_stream := snd (arwill_tcp_stream_listen (ep_stream (es' ! 0)) port iss)\<rparr>]"
  shows "length es'' = 4 \<and> (\<forall>e\<in>set es''. endpoint_ok e) \<and> ports_distinct es''"
proof -
  have "es' ! 0 = initialize_tcp_endpoint (es ! 0)" and "es ! 0 \<in> set es"
    using assms(1) by (simp_all add: es'_def)
  then have "endpoint_ok ((es' ! 0)\<lparr>ep_allocated := True, ep_bound_port := port,
      ep_stream := snd (arwill_tcp_stream_listen (ep_stream (es' ! 0)) port iss)\<rparr>)"
    using first_endpoint_ok [of "es ! 0" port iss] assms(2,3) by simp
  moreover have "\<forall>e\<in>set es'. endpoint_ok e"
    using assms(2) by (auto simp: es'_def intro: initialize_endpoint_ok)
  moreover have l: "length es'' = 4" using assms(1) by (simp add: es''_def es'_def)
  moreover have free: "\<not> ep_allocated (es'' ! j)" if "j \<noteq> 0" "j < 4" for j
    using that assms(1) by (simp add: es''_def es'_def)
  have "ports_distinct es''"
    unfolding ports_distinct_def l using free by (metis neq0_conv)
  ultimately show ?thesis
    using set_update_subset_insert [of es' 0] \<open>ports_distinct es''\<close> unfolding es''_def by blast
qed

lemma init_ok:
  assumes "raw_stack s" and "arwill_ipv4_init s network clock port = (True, s')"
  shows "stack_ok s'"
proof -
  have port: "port \<noteq> 0"
    using assms(2) by (auto simp: arwill_ipv4_init_def)
  have e: "length (ip_endpoints s') = 4 \<and> (\<forall>e\<in>set (ip_endpoints s'). endpoint_ok e) \<and>
      ports_distinct (ip_endpoints s')"
    using assms init_tables_ok [of "ip_endpoints s" port "0x41520000"] port
    by (auto simp: arwill_ipv4_init_def Let_def raw_stack_def split: if_splits prod.splits)
  have "ip_udp_endpoints s' = map initialize_udp_endpoint (ip_udp_endpoints s)"
    using assms(2) by (auto simp: arwill_ipv4_init_def Let_def split: if_splits prod.splits)
  then have "length (ip_udp_endpoints s') = 4 \<and> (\<forall>u\<in>set (ip_udp_endpoints s'). udp_ok u) \<and>
      udp_ports_distinct (ip_udp_endpoints s')"
    using assms(1)
    by (auto simp: raw_stack_def initialize_udp_ok udp_ports_distinct_def)
      (simp add: initialize_udp_endpoint_def)
  with e show ?thesis by (simp add: stack_ok_def)
qed

text \<open>
  A stack changes by the calls of the kernel, by the stream calls of the programs
  that own an endpoint, and by the poll; the devices and the clock may be in any
  state before each.
\<close>

inductive ipv4_step :: "('n, 'k) arwill_ipv4_stack \<Rightarrow> ('n, 'k) arwill_ipv4_stack \<Rightarrow> bool" where
  poll: "ipv4_step s (snd (arwill_ipv4_poll_tcp s))"
| environment: "same_tables s s' \<Longrightarrow> ipv4_step s s'"
| tcp_open: "ipv4_step s (snd (arwill_ipv4_tcp_open s))"
| tcp_bind: "ipv4_step s (snd (arwill_ipv4_tcp_bind s t port))"
| tcp_listen: "ipv4_step s (snd (arwill_ipv4_tcp_listen s t port))"
| tcp_connect: "ipv4_step s (snd (arwill_ipv4_tcp_connect s t peer lport pport))"
| tcp_release: "ipv4_step s (arwill_ipv4_tcp_release s t)"
| stream_read: "i < 4 \<Longrightarrow> capacity \<le> length buf \<Longrightarrow>
    ipv4_step s (with_endpoint i (update_stream (\<lambda>st. snd (snd (arwill_tcp_stream_read st (Some buf) capacity)))) s)"
| stream_write: "i < 4 \<Longrightarrow>
    ipv4_step s (with_endpoint i (update_stream (\<lambda>st. snd (arwill_tcp_stream_write st (Some d) (length d)))) s)"
| stream_close: "i < 4 \<Longrightarrow> ipv4_step s (with_endpoint i (update_stream arwill_tcp_stream_close) s)"
| stream_stop: "i < 4 \<Longrightarrow> ipv4_step s (with_endpoint i (update_stream arwill_tcp_stream_stop) s)"
| udp_open: "ipv4_step s (snd (arwill_ipv4_udp_open s))"
| udp_bind: "ipv4_step s (snd (arwill_ipv4_udp_bind s u port))"
| udp_connect: "ipv4_step s (snd (arwill_ipv4_udp_connect s u peer pport))"
| udp_send: "ipv4_step s (snd (arwill_ipv4_udp_send s u d' n))"
| udp_receive: "ipv4_step s (snd (snd (arwill_ipv4_udp_receive s u d' n)))"
| udp_release: "ipv4_step s (arwill_ipv4_udp_release s u)"

inductive ipv4_reachable :: "('n, 'k) arwill_ipv4_stack \<Rightarrow> bool" where
  init: "raw_stack s \<Longrightarrow> arwill_ipv4_init s network clock port = (True, s') \<Longrightarrow> ipv4_reachable s'"
| step: "ipv4_reachable s \<Longrightarrow> ipv4_step s s' \<Longrightarrow> ipv4_reachable s'"

lemma stream_read_keeps:
  assumes "capacity \<le> length buf"
  shows "keeps e (update_stream (\<lambda>st. snd (snd (arwill_tcp_stream_read st (Some buf) capacity))) e)"
proof -
  have f: "stream_ok (snd (snd (arwill_tcp_stream_read st (Some buf) capacity))) \<and>
      same_transmit st (snd (snd (arwill_tcp_stream_read st (Some buf) capacity)))" if "stream_ok st" for st
    by (rule Tcp_Stream.stream_read [OF that assms]) simp
  show ?thesis
    using f [of "ep_stream e"] by (auto simp: keeps_def update_stream_def endpoint_ok_def same_transmit_def)
qed

lemma stream_write_keeps:
  "keeps e (update_stream (\<lambda>st. snd (arwill_tcp_stream_write st (Some d) (length d))) e)"
proof -
  have f: "stream_ok (snd (arwill_tcp_stream_write st (Some d) (length d))) \<and>
      same_receive st (snd (arwill_tcp_stream_write st (Some d) (length d)))" if ok: "stream_ok st" for st
  proof (cases "arwill_tcp_stream_connected st \<and> length d + length (unsent st) \<le> 8192")
    case True
    then show ?thesis by (elim conjE) (rule stream_write_accepted [OF ok], auto)
  next
    case False
    then have "\<not> arwill_tcp_stream_connected st \<or> 8192 < length d + length (unsent st)" by auto
    then show ?thesis by (rule stream_write_refused [OF ok]) simp
  qed
  show ?thesis
    using f [of "ep_stream e"] by (auto simp: keeps_def update_stream_def endpoint_ok_def same_receive_def)
qed

lemma stream_close_keeps: "keeps e (update_stream arwill_tcp_stream_close e)"
  by (intro update_stream_keeps) (auto intro: stream_close_ok simp: arwill_tcp_stream_close_def stream_ok_def split: if_splits)

lemma stream_stop_keeps: "keeps e (update_stream arwill_tcp_stream_stop e)"
proof -
  have "\<not> st_listening (arwill_tcp_stream_stop st)" for st by (simp add: arwill_tcp_stream_stop_def)
  then show ?thesis by (auto simp: keeps_def update_stream_def endpoint_ok_def intro: stream_stop_ok)
qed

lemma step_ok: "ipv4_step s s' \<Longrightarrow> stack_ok s \<Longrightarrow> stack_ok s'"
proof (induction rule: ipv4_step.induct)
  case (environment s s')
  then show ?case using same_tables_ok by blast
next
  case (udp_send s u d n)
  then show ?case
    by (cases "arwill_ipv4_udp_send s u d n") (simp add: same_tables_ok [OF udp_send_same])
next
  case (udp_receive s u d n)
  then show ?case
    using udp_receive_ok by (cases "arwill_ipv4_udp_receive s u d n") auto
qed (auto intro: evolves_ok [OF poll_evolves] tcp_open_ok tcp_bind_ok tcp_listen_ok tcp_connect_ok tcp_release_ok
      udp_open_ok udp_bind_ok udp_connect_ok udp_release_ok stack_ok_with_endpoint
      stream_read_keeps stream_write_keeps stream_close_keeps stream_stop_keeps)

lemma reachable_ok: "ipv4_reachable s \<Longrightarrow> stack_ok s"
  by (induction rule: ipv4_reachable.induct) (auto intro: init_ok step_ok)

lemma listening_unique:
  assumes ok: "stack_ok s" and ij: "i < 4" "j < 4"
    and i: "ep_allocated (endpoint_at s i)" "st_listening (ep_stream (endpoint_at s i))"
    and j: "ep_allocated (endpoint_at s j)" "st_listening (ep_stream (endpoint_at s j))"
    and port: "ln_port (st_listener (ep_stream (endpoint_at s i))) = ln_port (st_listener (ep_stream (endpoint_at s j)))"
  shows "i = j"
proof (rule ccontr)
  assume "i \<noteq> j"
  moreover have "ep_bound_port (endpoint_at s i) \<noteq> 0"
    "ep_bound_port (endpoint_at s i) = ep_bound_port (endpoint_at s j)"
    using stack_ok_endpoint [OF ok ij(1)] stack_ok_endpoint [OF ok ij(2)] i(2) j(2) port
    by (simp_all add: endpoint_ok_def)
  ultimately show False
    using ok ij i(1) j(1) unfolding stack_ok_def ports_distinct_def endpoint_at_def by metis
qed

end
