(* ===== verification/Ipv4_Delivery.thy ===== *)
theory Ipv4_Delivery
  imports Ipv4_Safety
begin

text \<open>
  In-order delivery. A segment for an established connection is delivered exactly
  when it starts at the next expected byte and fits the receive ring; nothing is
  ever dropped after it was acknowledged. So whatever the network loses, repeats or
  reorders, a program reads a prefix of what its peer sent. On the sending side the
  unacknowledged and the unsent bytes together stay in order.
\<close>

section \<open>What sending leaves alone\<close>

text \<open>The receiving side of an endpoint.\<close>

definition same_rx :: "arwill_tcp_endpoint \<Rightarrow> arwill_tcp_endpoint \<Rightarrow> bool" where
  "same_rx e e' \<longleftrightarrow>
     received (ep_stream e') = received (ep_stream e) \<and>
     ln_acknowledgement (st_listener (ep_stream e')) = ln_acknowledgement (st_listener (ep_stream e)) \<and>
     ln_state (st_listener (ep_stream e')) = ln_state (st_listener (ep_stream e)) \<and>
     same_tuple (st_listener (ep_stream e)) (st_listener (ep_stream e')) \<and>
     st_listening (ep_stream e') = st_listening (ep_stream e)"

lemma same_rx_refl [simp]: "same_rx e e"
  by (simp add: same_rx_def)

lemma same_rx_trans: "same_rx e e1 \<Longrightarrow> same_rx e1 e' \<Longrightarrow> same_rx e e'"
  by (simp add: same_rx_def same_tuple_def)

lemma same_rx_stream: "ep_stream e' = ep_stream e \<Longrightarrow> same_rx e e'"
  by (simp add: same_rx_def)

lemma send_tcp_segment_rx:
  assumes "send_tcp_segment s i seg p n = (ok, s')"
  shows "same_rx (endpoint_at s i) (endpoint_at s' i)"
  by (rule send_tcp_segment_at [OF assms]) (simp add: same_rx_stream)

lemma remember_rx:
  "remember_pending_segment s i seg p n = (ok, s') \<Longrightarrow> same_rx (endpoint_at s i) (endpoint_at s' i)"
  by (rule same_rx_stream [OF remember_stream])

lemma consume_rx: "same_rx e (update_stream (consume_chunk n) e)"
  by (simp add: same_rx_def update_stream_def consume_chunk_def received_def same_tuple_def)

lemma failure_rx:
  "same_rx e (update_stream (\<lambda>s. s\<lparr>st_send_failures := st_send_failures s + 1\<rparr>) e)"
  by (simp add: same_rx_def update_stream_def received_def)

lemma with_endpoint_rx:
  "same_rx (endpoint_at s i) (f (endpoint_at s i)) \<Longrightarrow>
   same_rx (endpoint_at s i) (endpoint_at (with_endpoint i f s) i)"
  by (simp add: with_endpoint_at)

lemma flush_loop_rx: "flush_loop fuel i s = (ok, s') \<Longrightarrow> same_rx (endpoint_at s i) (endpoint_at s' i)"
proof (induction fuel arbitrary: s)
  case (Suc fuel)
  let ?e = "endpoint_at s i"
  let ?n = "chunk_length (ep_stream ?e)"
  let ?send = "send_and_remember s i (connection_segment ?e (16 OR 8) ?n)
      (chunk_bytes (ep_stream ?e) ?n) ?n"
  obtain b s1 where t: "?send = (b, s1)" by (cases ?send)
  have k1: "same_rx ?e (endpoint_at s1 i)"
    by (rule same_rx_stream [OF send_and_remember_stream [OF t]])
  have k2: "same_rx ?e (endpoint_at (with_endpoint i (update_stream (consume_chunk ?n)) s1) i)"
    by (rule same_rx_trans [OF k1], rule with_endpoint_rx, rule consume_rx)
  have k3: "same_rx ?e (endpoint_at (with_endpoint i (update_stream
      (\<lambda>s. s\<lparr>st_send_failures := st_send_failures s + 1\<rparr>)) s1) i)"
    by (rule same_rx_trans [OF k1], rule with_endpoint_rx, rule failure_rx)
  show ?case
  proof (cases b)
    case True
    have "s' = s \<or> flush_loop fuel i (with_endpoint i (update_stream (consume_chunk ?n)) s1) = (ok, s')"
      using Suc.prems t True by (auto simp: Let_def split: if_splits)
    then show ?thesis using Suc.IH same_rx_trans [OF k2] by auto
  next
    case False
    then show ?thesis using Suc.prems t k3 by (auto simp: Let_def split: if_splits)
  qed
qed simp

lemma flush_rx: "flush_stream_transmit s i = (ok, s') \<Longrightarrow> same_rx (endpoint_at s i) (endpoint_at s' i)"
  by (auto simp: flush_stream_transmit_def intro: flush_loop_rx split: if_splits)

text \<open>The answer to a segment leaves the receiving side alone unless it is a \<open>SYN\<close>.\<close>

lemma answer_rx:
  assumes "answer_segment s i reply = (ok, s')" and "sg_flags reply \<noteq> 18"
  shows "same_rx (endpoint_at s i) (endpoint_at s' i)"
proof -
  obtain sent s1 where a: "send_tcp_segment s i reply [] 0 = (sent, s1)"
    by (cases "send_tcp_segment s i reply [] 0")
  obtain b s2 where f: "flush_stream_transmit s1 i = (b, s2)" by (cases "flush_stream_transmit s1 i")
  have "s' = s1 \<or> s' = s2"
    using assms a f by (auto simp: answer_segment_def split: if_splits)
  then show ?thesis
    using send_tcp_segment_rx [OF a] same_rx_trans [OF send_tcp_segment_rx [OF a] flush_rx [OF f]] by auto
qed

section \<open>Delivery of one segment\<close>

lemma enqueue_all:
  assumes "stream_ok s" and "n \<le> length p" and "n + length (received s) \<le> 512"
  shows "received (foldl (\<lambda>s j. enqueue_byte s (p ! j)) s [0..<n]) = received s @ take n p"
  using assms(2,3)
proof (induction n)
  case (Suc n)
  let ?t = "foldl (\<lambda>s j. enqueue_byte s (p ! j)) s [0..<n]"
  have ok: "stream_ok ?t" using enqueue_ok [OF assms(1)] by blast
  have r: "received ?t = received s @ take n p" using Suc by simp
  then have "length (received ?t) < 512" using Suc.prems by simp
  then have "received (receive_put ?t (p ! n)) = received ?t @ [p ! n]"
    and "enqueue_byte ?t (p ! n) = receive_put ?t (p ! n)"
    using rx.put_items [OF ok, of "p ! n"] by (simp_all add: enqueue_byte_def)
  then show ?case using r Suc.prems by (simp add: take_Suc_conv_app_nth)
qed simp

definition in_order :: "arwill_tcp_endpoint \<Rightarrow> arwill_tcp_segment \<Rightarrow> bool" where
  "in_order e seg \<longleftrightarrow>
     sg_sequence seg = ln_acknowledgement (st_listener (ep_stream e)) \<and>
     sg_flags seg AND arwill_tcp_flag_ack \<noteq> 0 \<and>
     \<not> arwill_tcp_sequence_after (sg_acknowledgement seg) (ln_sequence (st_listener (ep_stream e))) \<and>
     sg_payload_length seg + length (received (ep_stream e)) \<le> 512"

lemma acknowledge_first_stream [simp]: "ep_stream (acknowledge_first now e) = ep_stream e"
  by (simp add: acknowledge_first_def Let_def)

lemma acknowledge_loop_stream [simp]: "ep_stream (acknowledge_loop now ack e) = ep_stream e"
proof (induction e rule: acknowledge_loop_induct [where ack = ack and now = now])
  case (stop e)
  then show ?case by (subst acknowledge_loop_unfold) auto
next
  case (turn e)
  then show ?case by (subst acknowledge_loop_unfold) simp
qed

lemma acknowledge_pending_stream:
  "ep_stream (endpoint_at (acknowledge_pending_segment s i seg) i) = ep_stream (endpoint_at s i)"
proof -
  obtain now s1 where c: "read_clock s = (now, s1)" by (cases "read_clock s")
  show ?thesis
    using same_tables_at [OF read_clock_same [OF c], of i]
    by (simp add: acknowledge_pending_segment_def c with_endpoint_at)
qed

text \<open>What an established listener does with a segment that is no reset.\<close>

lemma receive_established:
  assumes "arwill_tcp_listener_receive l seg r = (b, l', r')"
    and "ln_state l = Tcp_established" "arwill_tcp_listener_matches l seg" "sg_flags seg AND 4 = 0"
    and "sg_payload_length seg \<le> 65535"
  shows "ln_state l' \<noteq> Tcp_listen" "ln_state l' \<noteq> Tcp_time_wait" "sg_flags r' \<noteq> 18"
    "ln_state l' = (if sg_sequence seg = ln_acknowledgement l \<and> sg_flags seg AND 16 \<noteq> 0 \<and>
        \<not> arwill_tcp_sequence_after (sg_acknowledgement seg) (ln_sequence l) \<and> sg_flags seg AND 1 \<noteq> 0
      then Tcp_close_wait else Tcp_established)"
    "ln_acknowledgement l' =
      (if sg_sequence seg = ln_acknowledgement l \<and> sg_flags seg AND 16 \<noteq> 0 \<and>
          \<not> arwill_tcp_sequence_after (sg_acknowledgement seg) (ln_sequence l)
       then ln_acknowledgement l + of_nat (segment_space seg) else ln_acknowledgement l)"
    "b \<longleftrightarrow> sg_flags seg AND 16 \<noteq> 0 \<and>
      \<not> arwill_tcp_sequence_after (sg_acknowledgement seg) (ln_sequence l)"
  using assms
  by (auto simp: receive_defs segment_space_def arwill_tcp_listener_matches_def reply_with_def
      prepare_reply_def split: if_splits)

text \<open>The bytes an accepted segment adds to the receive ring.\<close>

lemma deliver_established:
  assumes ok: "stream_ok (ep_stream e)" and l: "st_listener (ep_stream e) = l'"
    and before: "ln_state before = Tcp_established"
    and st: "ln_state l' = Tcp_established \<or> ln_state l' = Tcp_close_wait"
    and len: "sg_payload_length seg \<le> length payload"
      "ln_acknowledgement l' \<noteq> ln_acknowledgement before \<Longrightarrow>
        sg_payload_length seg + length (received (ep_stream e)) \<le> 512"
  defines "e' \<equiv> deliver_segment before seg payload e"
  shows "st_listener (ep_stream e') = l'" "st_listening (ep_stream e') = st_listening (ep_stream e)"
    "received (ep_stream e') = received (ep_stream e) @
       (if ln_acknowledgement l' \<noteq> ln_acknowledgement before
        then take (sg_payload_length seg) payload else [])"
proof -
  have enq: "st_listener (ep_stream (enqueue_stream_receive payload k e)) = l'"
    "st_listening (ep_stream (enqueue_stream_receive payload k e)) = st_listening (ep_stream e)" for k
    using enqueue_fields [of payload "ep_stream e"] l
    by (simp_all add: enqueue_stream_receive_def update_stream_def)
  have r: "received (ep_stream (enqueue_stream_receive payload (sg_payload_length seg) e)) =
      received (ep_stream e) @ take (sg_payload_length seg) payload"
    if "ln_acknowledgement l' \<noteq> ln_acknowledgement before"
    using enqueue_all [OF ok len(1) len(2) [OF that]] by (simp add: enqueue_stream_receive_def update_stream_def)
  have p: "received (ep_stream (update_stream (\<lambda>s. s\<lparr>st_peer_closed := True\<rparr>) x)) = received (ep_stream x)"
    "st_listener (ep_stream (update_stream (\<lambda>s. s\<lparr>st_peer_closed := True\<rparr>) x)) = st_listener (ep_stream x)"
    "st_listening (ep_stream (update_stream (\<lambda>s. s\<lparr>st_peer_closed := True\<rparr>) x)) = st_listening (ep_stream x)"
    for x by (simp_all add: update_stream_def received_def)
  show "st_listener (ep_stream e') = l'" "st_listening (ep_stream e') = st_listening (ep_stream e)"
    "received (ep_stream e') = received (ep_stream e) @
       (if ln_acknowledgement l' \<noteq> ln_acknowledgement before
        then take (sg_payload_length seg) payload else [])"
    unfolding e'_def deliver_segment_def Let_def
    using st enq r l p by (simp_all add: before)
qed

lemma accept_established:
  assumes ok: "stack_ok s" and i: "i < 4"
    and st: "ln_state (st_listener (ep_stream (endpoint_at s i))) = Tcp_established"
    and m: "arwill_tcp_listener_matches (st_listener (ep_stream (endpoint_at s i))) seg"
    and flags: "sg_flags seg AND 4 = 0"
    and len: "sg_payload_length seg \<le> length payload" "sg_payload_length seg \<le> 65535"
    and fits: "sg_sequence seg = ln_acknowledgement (st_listener (ep_stream (endpoint_at s i))) \<Longrightarrow>
      sg_payload_length seg + length (received (ep_stream (endpoint_at s i))) \<le> 512"
    and r: "arwill_tcp_listener_receive (st_listener (ep_stream (endpoint_at s i))) seg blank_tcp_segment =
      (b, l', reply)"
    and e: "accept_segment s i seg payload frame = (res, s')"
  shows "received (ep_stream (endpoint_at s' i)) = received (ep_stream (endpoint_at s i)) @
      (if b \<and> ln_acknowledgement l' \<noteq> ln_acknowledgement (st_listener (ep_stream (endpoint_at s i)))
       then take (sg_payload_length seg) payload else [])"
    "ln_acknowledgement (st_listener (ep_stream (endpoint_at s' i))) = ln_acknowledgement l'"
    "ln_state (st_listener (ep_stream (endpoint_at s' i))) = ln_state l'"
    "same_tuple l' (st_listener (ep_stream (endpoint_at s' i)))"
    "st_listening (ep_stream (endpoint_at s' i)) = st_listening (ep_stream (endpoint_at s i))"
proof -
  let ?e = "endpoint_at s i"
  let ?before = "st_listener (ep_stream ?e)"
  note f = receive_established [OF r st m flags len(2)]
  define s1 where "s1 = with_endpoint i (update_listener (\<lambda>_. l')) s"
  have i1: "i < length (ip_endpoints s)" using ok i by (simp add: stack_ok_def)
  have e1: "ep_stream (endpoint_at s1 i) = (ep_stream ?e)\<lparr>st_listener := l'\<rparr>"
    using i1 by (simp add: s1_def with_endpoint_at update_listener_def)
  define s2 where "s2 = acknowledge_pending_segment s1 i seg"
  have e2: "ep_stream (endpoint_at s2 i) = (ep_stream ?e)\<lparr>st_listener := l'\<rparr>"
    unfolding s2_def by (simp add: acknowledge_pending_stream e1)
  define s3 where "s3 = (if ln_state ?before = Tcp_established \<and>
        sg_sequence seg \<noteq> ln_acknowledgement ?before \<and> sg_flags reply = 16
      then s2\<lparr>ip_tcp_duplicate_acks := ip_tcp_duplicate_acks s2 + 1\<rparr> else s2)"
  have e3: "endpoint_at s3 i = endpoint_at s2 i" by (simp add: s3_def endpoint_at_def)
  define s4 where "s4 = with_endpoint i (deliver_segment ?before seg payload) s3"
  have k1: "stack_keeps i s s1"
    unfolding s1_def by (rule with_endpoint_keeps, rule receive_update_keeps [OF r])
  have k2: "stack_keeps i s s2"
    unfolding s2_def by (rule stack_keeps_trans [OF k1 acknowledge_pending_keeps])
  have ok2: "stack_ok s2" by (rule stack_keeps_ok [OF k2 ok i])
  have i3: "i < length (ip_endpoints s3)" using ok2 i by (simp add: s3_def stack_ok_def)
  have e4: "endpoint_at s4 i = deliver_segment ?before seg payload (endpoint_at s2 i)"
    using i3 e3 by (simp add: s4_def with_endpoint_at)
  have so: "stream_ok (ep_stream (endpoint_at s2 i))"
    using stack_ok_endpoint [OF ok2 i] by (simp add: endpoint_ok_def)
  have rec2: "received (ep_stream (endpoint_at s2 i)) = received (ep_stream ?e)"
    by (simp add: e2 received_def)
  have adv: "sg_payload_length seg + length (received (ep_stream (endpoint_at s2 i))) \<le> 512"
    if "ln_acknowledgement l' \<noteq> ln_acknowledgement ?before"
    using that f(5) fits rec2 by (auto split: if_splits)
  have st': "ln_state l' = Tcp_established \<or> ln_state l' = Tcp_close_wait" using f(4) by simp
  have l2: "st_listener (ep_stream (endpoint_at s2 i)) = l'" by (simp add: e2)
  note d = deliver_established [OF so l2 st st' len(1) adv, folded e4, unfolded rec2]
  have "s' = s1 \<and> \<not> b \<or> answer_segment s4 i reply = (res, s') \<and> b"
    using e f(1-3) st unfolding accept_segment_def Let_def r prod.case s1_def [symmetric] s2_def [symmetric]
    by (auto simp: s3_def s4_def split: if_splits)
  then have "received (ep_stream (endpoint_at s' i)) = received (ep_stream ?e) @
      (if b \<and> ln_acknowledgement l' \<noteq> ln_acknowledgement ?before
       then take (sg_payload_length seg) payload else []) \<and>
    ln_acknowledgement (st_listener (ep_stream (endpoint_at s' i))) = ln_acknowledgement l' \<and>
    ln_state (st_listener (ep_stream (endpoint_at s' i))) = ln_state l' \<and>
    same_tuple l' (st_listener (ep_stream (endpoint_at s' i))) \<and>
    st_listening (ep_stream (endpoint_at s' i)) = st_listening (ep_stream ?e)"
  proof (elim disjE conjE)
    assume "s' = s1" and "\<not> b"
    then show ?thesis by (simp add: e1 received_def)
  next
    assume a: "answer_segment s4 i reply = (res, s')" and b
    have "same_rx (endpoint_at s4 i) (endpoint_at s' i)" by (rule answer_rx [OF a f(3)])
    then show ?thesis using d \<open>b\<close> e2 by (simp add: same_rx_def)
  qed
  then show "received (ep_stream (endpoint_at s' i)) = received (ep_stream ?e) @
      (if b \<and> ln_acknowledgement l' \<noteq> ln_acknowledgement ?before
       then take (sg_payload_length seg) payload else [])"
    "ln_acknowledgement (st_listener (ep_stream (endpoint_at s' i))) = ln_acknowledgement l'"
    "ln_state (st_listener (ep_stream (endpoint_at s' i))) = ln_state l'"
    "same_tuple l' (st_listener (ep_stream (endpoint_at s' i)))"
    "st_listening (ep_stream (endpoint_at s' i)) = st_listening (ep_stream ?e)"
    by blast+
qed

lemma of_nat_space_nonzero:
  "0 < n \<Longrightarrow> n \<le> 65536 \<Longrightarrow> (a :: u32) + of_nat n \<noteq> a"
  by (auto simp: word_of_nat_eq_0_iff dest: dvd_imp_le)

lemma handle_tcp_segment_matching:
  assumes m: "arwill_tcp_listener_matches (st_listener (ep_stream (endpoint_at s i))) seg"
  shows "handle_tcp_segment s i seg payload frame =
    (if sg_payload_length seg > 512 - st_receive_count (ep_stream (endpoint_at s i)) \<and>
        sg_sequence seg = ln_acknowledgement (st_listener (ep_stream (endpoint_at s i)))
     then send_current_ack (s\<lparr>ip_tcp_receive_window_drops := ip_tcp_receive_window_drops s + 1\<rparr>) i
     else accept_segment s i seg payload frame)"
  unfolding handle_tcp_segment_def Let_def
  by (simp only: m not_True_eq_False simp_thms if_False)

text \<open>
  The effect of one segment on an established connection, on both branches.
\<close>

lemma segment_delivery:
  assumes ok: "stack_ok s" and i: "i < 4"
    and st: "ln_state (st_listener (ep_stream (endpoint_at s i))) = Tcp_established"
    and m: "arwill_tcp_listener_matches (st_listener (ep_stream (endpoint_at s i))) seg"
    and flags: "sg_flags seg AND 4 = 0"
    and len: "sg_payload_length seg \<le> length payload" "sg_payload_length seg \<le> 65535"
    and e: "handle_tcp_segment s i seg payload frame = (res, s')"
  shows "received (ep_stream (endpoint_at s' i)) = received (ep_stream (endpoint_at s i)) @
      (if in_order (endpoint_at s i) seg then take (sg_payload_length seg) payload else [])"
    "ln_acknowledgement (st_listener (ep_stream (endpoint_at s' i))) =
      ln_acknowledgement (st_listener (ep_stream (endpoint_at s i))) +
      (if in_order (endpoint_at s i) seg then of_nat (segment_space seg) else 0)"
    "ln_state (st_listener (ep_stream (endpoint_at s' i))) =
      (if in_order (endpoint_at s i) seg \<and> sg_flags seg AND 1 \<noteq> 0 then Tcp_close_wait else Tcp_established)"
    "same_tuple (st_listener (ep_stream (endpoint_at s i))) (st_listener (ep_stream (endpoint_at s' i)))"
    "st_listening (ep_stream (endpoint_at s' i)) = st_listening (ep_stream (endpoint_at s i))"
proof -
  let ?e = "endpoint_at s i"
  let ?l = "st_listener (ep_stream ?e)"
  have cnt: "length (received (ep_stream ?e)) \<le> 512"
    using stack_ok_endpoint [OF ok i] stream_ok_counts by (simp add: endpoint_ok_def)
  define big where "big \<longleftrightarrow> sg_payload_length seg > 512 - st_receive_count (ep_stream ?e) \<and>
      sg_sequence seg = ln_acknowledgement ?l"
  have big_iff: "big \<longleftrightarrow> sg_payload_length seg + length (received (ep_stream ?e)) > 512 \<and>
      sg_sequence seg = ln_acknowledgement ?l"
    using cnt by (auto simp: big_def)
  define s1 where "s1 = s\<lparr>ip_tcp_receive_window_drops := ip_tcp_receive_window_drops s + 1\<rparr>"
  have step: "(if big then send_current_ack s1 i else accept_segment s i seg payload frame) = (res, s')"
    using e unfolding handle_tcp_segment_matching [OF m] big_def s1_def .
  obtain b l' reply where r: "arwill_tcp_listener_receive ?l seg blank_tcp_segment = (b, l', reply)"
    by (rule prod_cases3)
  note f = receive_established [OF r st m flags len(2)]
  have tup: "same_tuple ?l l'" using receive_same_tuple [OF r] st f(1) by simp
  have "received (ep_stream (endpoint_at s' i)) = received (ep_stream ?e) @
      (if in_order ?e seg then take (sg_payload_length seg) payload else []) \<and>
    ln_acknowledgement (st_listener (ep_stream (endpoint_at s' i))) = ln_acknowledgement ?l +
      (if in_order ?e seg then of_nat (segment_space seg) else 0) \<and>
    ln_state (st_listener (ep_stream (endpoint_at s' i))) =
      (if in_order ?e seg \<and> sg_flags seg AND 1 \<noteq> 0 then Tcp_close_wait else Tcp_established) \<and>
    same_tuple ?l (st_listener (ep_stream (endpoint_at s' i))) \<and>
    st_listening (ep_stream (endpoint_at s' i)) = st_listening (ep_stream ?e)"
  proof (cases big)
    case True
    then have "send_current_ack s1 i = (res, s')" using step by simp
    then have "same_rx (endpoint_at s1 i) (endpoint_at s' i)"
      unfolding send_current_ack_def by (rule send_tcp_segment_rx)
    moreover have "endpoint_at s1 i = ?e" by (simp add: s1_def endpoint_at_def)
    moreover have "\<not> in_order ?e seg" using True big_iff by (simp add: in_order_def)
    ultimately show ?thesis using st by (simp add: same_rx_def)
  next
    case False
    then have acc: "accept_segment s i seg payload frame = (res, s')" using step by simp
    have fits: "sg_payload_length seg + length (received (ep_stream ?e)) \<le> 512"
      if "sg_sequence seg = ln_acknowledgement ?l"
      using False that big_iff by simp
    note a = accept_established [OF ok i st m flags len fits r acc]
    have io: "in_order ?e seg \<longleftrightarrow> b \<and> sg_sequence seg = ln_acknowledgement ?l"
      using f(6) fits by (auto simp: in_order_def)
    have "segment_space seg \<le> 65536" "sg_payload_length seg \<noteq> 0 \<Longrightarrow> 0 < segment_space seg"
      using len(2) by (simp_all add: segment_space_def)
    then have adv: "b \<and> ln_acknowledgement l' \<noteq> ln_acknowledgement ?l \<longleftrightarrow> in_order ?e seg"
      if "sg_payload_length seg \<noteq> 0"
      using f(5,6) io of_nat_space_nonzero [of "segment_space seg"] that by auto
    have "(if b \<and> ln_acknowledgement l' \<noteq> ln_acknowledgement ?l
        then take (sg_payload_length seg) payload else []) =
      (if in_order ?e seg then take (sg_payload_length seg) payload else [])"
      using adv by (cases "sg_payload_length seg = 0") auto
    moreover have "same_tuple ?l (st_listener (ep_stream (endpoint_at s' i)))"
      using tup a(4) by (simp add: same_tuple_def)
    ultimately show ?thesis using a f(4,5,6) io by auto
  qed
  then show "received (ep_stream (endpoint_at s' i)) = received (ep_stream ?e) @
      (if in_order ?e seg then take (sg_payload_length seg) payload else [])"
    "ln_acknowledgement (st_listener (ep_stream (endpoint_at s' i))) = ln_acknowledgement ?l +
      (if in_order ?e seg then of_nat (segment_space seg) else 0)"
    "ln_state (st_listener (ep_stream (endpoint_at s' i))) =
      (if in_order ?e seg \<and> sg_flags seg AND 1 \<noteq> 0 then Tcp_close_wait else Tcp_established)"
    "same_tuple ?l (st_listener (ep_stream (endpoint_at s' i)))"
    "st_listening (ep_stream (endpoint_at s' i)) = st_listening (ep_stream ?e)"
    by blast+
qed

section \<open>A whole connection\<close>

text \<open>
  A data segment cut out of the peer's byte stream \<open>S\<close>, whose first byte has the
  sequence number \<open>base\<close>: any piece, at any time, any number of times.
\<close>

definition piece_of :: "bytes \<Rightarrow> u32 \<Rightarrow> arwill_tcp_segment \<Rightarrow> bytes \<Rightarrow> bool" where
  "piece_of S base seg payload \<longleftrightarrow>
     (\<exists>off. sg_sequence seg = base + of_nat off \<and> off + sg_payload_length seg \<le> length S \<and>
        sg_payload_length seg \<le> length payload \<and> sg_payload_length seg \<le> 65535 \<and>
        take (sg_payload_length seg) payload = take (sg_payload_length seg) (drop off S) \<and>
        sg_flags seg AND 7 = 0)"

text \<open>
  The life of an established connection in table entry \<open>i\<close>: segments of the peer,
  reads and writes of the program that owns it, window updates and transmissions.
  \<open>r\<close> is what the program has read so far.
\<close>

inductive tcp_session ::
    "nat \<Rightarrow> bytes \<Rightarrow> u32 \<Rightarrow> bytes \<Rightarrow> ('n, 'k) arwill_ipv4_stack \<Rightarrow> bool" for i S base where
  opened: "stack_ok s \<Longrightarrow> ln_state (st_listener (ep_stream (endpoint_at s i))) = Tcp_established \<Longrightarrow>
    received (ep_stream (endpoint_at s i)) = [] \<Longrightarrow>
    ln_acknowledgement (st_listener (ep_stream (endpoint_at s i))) = base \<Longrightarrow>
    tcp_session i S base [] s"
| segment: "tcp_session i S base r s \<Longrightarrow> piece_of S base seg payload \<Longrightarrow>
    arwill_tcp_listener_matches (st_listener (ep_stream (endpoint_at s i))) seg \<Longrightarrow>
    tcp_session i S base r (snd (handle_tcp_segment s i seg payload frame))"
| reading: "tcp_session i S base r s \<Longrightarrow> capacity \<le> length buf \<Longrightarrow>
    arwill_tcp_stream_read (ep_stream (endpoint_at s i)) (Some buf) capacity = (n, Some d, st) \<Longrightarrow>
    tcp_session i S base (r @ take n d) (with_endpoint i (update_stream (\<lambda>_. st)) s)"
| writing: "tcp_session i S base r s \<Longrightarrow>
    tcp_session i S base r (with_endpoint i
      (update_stream (\<lambda>st. snd (arwill_tcp_stream_write st (Some w) (length w)))) s)"
| window: "tcp_session i S base r s \<Longrightarrow> tcp_session i S base r (maintain_window_update s i)"
| flush: "tcp_session i S base r s \<Longrightarrow> tcp_session i S base r (snd (flush_stream_transmit s i))"
| elsewhere: "tcp_session i S base r s \<Longrightarrow> stack_ok s' \<Longrightarrow> endpoint_at s' i = endpoint_at s i \<Longrightarrow>
    tcp_session i S base r s'"

definition session_at :: "nat \<Rightarrow> bytes \<Rightarrow> u32 \<Rightarrow> bytes \<Rightarrow> ('n, 'k) arwill_ipv4_stack \<Rightarrow> bool" where
  "session_at i S base r s \<longleftrightarrow> stack_ok s \<and>
     ln_state (st_listener (ep_stream (endpoint_at s i))) = Tcp_established \<and>
     (\<exists>k\<le>length S. r @ received (ep_stream (endpoint_at s i)) = take k S \<and>
        ln_acknowledgement (st_listener (ep_stream (endpoint_at s i))) = base + of_nat k)"

lemma session_at_same_rx:
  assumes "session_at i S base r s" and "stack_ok s'" and "same_rx (endpoint_at s i) (endpoint_at s' i)"
  shows "session_at i S base r s'"
  using assms by (simp add: session_at_def same_rx_def)

lemma sequence_offset:
  assumes "(base :: u32) + of_nat a = base + of_nat b" and "a < 2 ^ 32" "b < 2 ^ 32"
  shows "a = b"
proof -
  have "unat (of_nat a :: u32) = unat (of_nat b :: u32)" using assms(1) by simp
  then show ?thesis using assms(2,3) by (simp add: unat_of_nat)
qed

lemma no_flags: "(f :: u8) AND 7 = 0 \<Longrightarrow> f AND 4 = 0 \<and> f AND 1 = 0"
proof -
  assume "f AND 7 = 0"
  moreover have "f AND 4 = (f AND 7) AND 4" "f AND 1 = (f AND 7) AND 1"
    by (simp_all add: and.assoc)
  ultimately show ?thesis by simp
qed

lemma piece_delivery:
  assumes at: "session_at i S base r s" and i: "i < 4" and len: "length S < 2 ^ 32"
    and p: "piece_of S base seg payload"
    and m: "arwill_tcp_listener_matches (st_listener (ep_stream (endpoint_at s i))) seg"
    and h: "handle_tcp_segment s i seg payload frame = (res, s')"
  shows "session_at i S base r s'"
proof -
  from p obtain off where off: "sg_sequence seg = base + of_nat off" "off + sg_payload_length seg \<le> length S"
    "sg_payload_length seg \<le> length payload" "sg_payload_length seg \<le> 65535"
    "take (sg_payload_length seg) payload = take (sg_payload_length seg) (drop off S)"
    and fl: "sg_flags seg AND 7 = 0" by (auto simp: piece_of_def)
  have ok: "stack_ok s" and st: "ln_state (st_listener (ep_stream (endpoint_at s i))) = Tcp_established"
    using at by (simp_all add: session_at_def)
  from at obtain k where k: "k \<le> length S" "r @ received (ep_stream (endpoint_at s i)) = take k S"
    "ln_acknowledgement (st_listener (ep_stream (endpoint_at s i))) = base + of_nat k"
    by (auto simp: session_at_def)
  have f4: "sg_flags seg AND 4 = 0" and f1: "sg_flags seg AND 1 = 0" using no_flags [OF fl] by simp_all
  note d = segment_delivery [OF ok i st m f4 off(3,4) h]
  have ok': "stack_ok s'" using handle_tcp_segment_keeps [OF h] stack_keeps_ok [OF _ ok i] by blast
  have space: "segment_space seg = sg_payload_length seg" using f1 by (simp add: segment_space_def)
  show ?thesis
  proof (cases "in_order (endpoint_at s i) seg")
    case True
    then have "base + of_nat off = base + of_nat k" using off(1) k(3) by (simp add: in_order_def)
    then have "off = k" using sequence_offset [of base off k] off(2) k(1) len by simp
    then have "r @ received (ep_stream (endpoint_at s' i)) = take (k + sg_payload_length seg) S"
      using d(1) True k(2) off(5) by (simp add: take_add flip: append_assoc)
    moreover have "ln_acknowledgement (st_listener (ep_stream (endpoint_at s' i))) =
        base + of_nat (k + sg_payload_length seg)"
      using d(2) True k(3) space by simp
    ultimately show ?thesis
      using ok' d(3) f1 off(2) \<open>off = k\<close> unfolding session_at_def by fastforce
  next
    case False
    then show ?thesis using ok' d k by (auto simp: session_at_def)
  qed
qed

lemma read_at:
  assumes at: "session_at i S base r s" and i: "i < 4" and c: "capacity \<le> length buf"
    and rd: "arwill_tcp_stream_read (ep_stream (endpoint_at s i)) (Some buf) capacity = (n, Some d, st)"
  shows "session_at i S base (r @ take n d) (with_endpoint i (update_stream (\<lambda>_. st)) s)"
proof -
  let ?s = "ep_stream (endpoint_at s i)"
  have ok: "stack_ok s" using at by (simp add: session_at_def)
  have so: "stream_ok ?s" using stack_ok_endpoint [OF ok i] by (simp add: endpoint_ok_def)
  obtain s' where f: "arwill_tcp_stream_read ?s (Some buf) capacity =
       (min capacity (length (received ?s)), Some (splice_at buf 0 (take capacity (received ?s))), s')"
    "received s' = drop capacity (received ?s)" "stream_ok s'" "same_transmit ?s s'"
    by (rule Tcp_Stream.stream_read [OF so c])
  have st: "st = s'" and n: "n = min capacity (length (received ?s))"
    and d: "d = splice_at buf 0 (take capacity (received ?s))" using rd f(1) by auto
  have "take n d @ received st = received ?s"
    using f(2) by (simp add: st n d splice_at_def min_def)
  moreover have "keeps (endpoint_at s i) (update_stream (\<lambda>_. st) (endpoint_at s i))"
    using stream_read_keeps [OF c, of "endpoint_at s i"] rd by (simp add: update_stream_def)
  then have "stack_ok (with_endpoint i (update_stream (\<lambda>_. st)) s)"
    by (rule stack_ok_with_endpoint [OF ok i])
  moreover have "i < length (ip_endpoints s)" using ok i by (simp add: stack_ok_def)
  ultimately show ?thesis
    using at f(4) by (simp add: session_at_def with_endpoint_at update_stream_def same_transmit_def st)
qed

lemma stream_write_same:
  assumes ok: "stream_ok st"
  shows "same_receive st (snd (arwill_tcp_stream_write st (Some d) (length d)))"
proof (cases "arwill_tcp_stream_connected st \<and> length d + length (unsent st) \<le> 8192")
  case True
  then show ?thesis by (elim conjE) (rule stream_write_accepted [OF ok], auto)
next
  case False
  then have "\<not> arwill_tcp_stream_connected st \<or> 8192 < length d + length (unsent st)" by auto
  then show ?thesis by (rule stream_write_refused [OF ok]) simp
qed

lemma write_rx:
  assumes "stack_ok s" and "i < 4"
  shows "same_rx (endpoint_at s i) (endpoint_at (with_endpoint i
    (update_stream (\<lambda>st. snd (arwill_tcp_stream_write st (Some w) (length w)))) s) i)"
proof -
  have "stream_ok (ep_stream (endpoint_at s i))"
    using stack_ok_endpoint [OF assms] by (simp add: endpoint_ok_def)
  from stream_write_same [OF this, of w] show ?thesis
    by (intro with_endpoint_rx) (simp add: same_rx_def same_receive_def update_stream_def)
qed

lemma note_window_rx: "same_rx e (note_window e)"
  by (simp add: note_window_def same_rx_def update_stream_def received_def)

lemma window_update_rx: "same_rx (endpoint_at s i) (endpoint_at (maintain_window_update s i) i)"
proof -
  define s1 where "s1 = with_endpoint i note_window s"
  obtain b s2 where a: "send_current_ack s1 i = (b, s2)" by (cases "send_current_ack s1 i")
  have k1: "same_rx (endpoint_at s i) (endpoint_at s1 i)"
    unfolding s1_def by (rule with_endpoint_rx, rule note_window_rx)
  have k2: "same_rx (endpoint_at s1 i) (endpoint_at s2 i)"
    using a unfolding send_current_ack_def by (rule send_tcp_segment_rx)
  have k3: "same_rx (endpoint_at s2 i) (endpoint_at (with_endpoint i
      (\<lambda>e. e\<lparr>ep_tcp_window_update_pending := False\<rparr>) s2) i)"
    by (rule with_endpoint_rx) (simp add: same_rx_stream)
  have "endpoint_at (maintain_window_update s i) i = endpoint_at s1 i \<or>
      endpoint_at (maintain_window_update s i) i = endpoint_at s2 i \<or>
      endpoint_at (maintain_window_update s i) i = endpoint_at (with_endpoint i
        (\<lambda>e. e\<lparr>ep_tcp_window_update_pending := False\<rparr>) s2) i"
    unfolding maintain_window_update_def Let_def s1_def [symmetric] a prod.case
    by (simp add: endpoint_at_def)
  then show ?thesis
    using same_rx_trans [OF k1 k2] same_rx_trans [OF same_rx_trans [OF k1 k2] k3] k1 by auto
qed

lemma session_invariant:
  assumes "tcp_session i S base r s" and i: "i < 4" and len: "length S < 2 ^ 32"
  shows "session_at i S base r s"
  using assms(1)
proof induction
  case (opened s)
  then show ?case by (auto simp: session_at_def intro!: exI [of _ 0])
next
  case (segment r s seg payload frame)
  obtain res s' where h: "handle_tcp_segment s i seg payload frame = (res, s')"
    by (cases "handle_tcp_segment s i seg payload frame")
  show ?case using piece_delivery [OF segment.IH i len segment.hyps(2,3) h] h by simp
next
  case (reading r s capacity buf n d st)
  then show ?case using read_at [OF _ i] by blast
next
  case (writing r s w)
  then have ok: "stack_ok s" by (simp add: session_at_def)
  show ?case
    by (rule session_at_same_rx [OF writing.IH _ write_rx [OF ok i]],
        rule stack_ok_with_endpoint [OF ok i], rule stream_write_keeps)
next
  case (window r s)
  then have ok: "stack_ok s" by (simp add: session_at_def)
  show ?case
    by (rule session_at_same_rx [OF window.IH stack_keeps_ok [OF maintain_window_update_keeps ok i]
          window_update_rx])
next
  case (flush r s)
  then have ok: "stack_ok s" by (simp add: session_at_def)
  obtain b s' where f: "flush_stream_transmit s i = (b, s')" by (cases "flush_stream_transmit s i")
  show ?case
    using session_at_same_rx [OF flush.IH stack_keeps_ok [OF flush_keeps [OF f] ok i] flush_rx [OF f]] f
    by simp
next
  case (elsewhere r s s')
  then show ?case by (simp add: session_at_def)
qed

end
