(* ===== verification/Ipv4_Transmit.thy ===== *)
theory Ipv4_Transmit
  imports Ipv4_Delivery
begin

text \<open>
  The sending side of a connection. The bytes a program wrote are either waiting in
  the transmit ring or kept in an unacknowledged segment; transmission moves them
  from the first place to the second without losing, repeating or reordering any,
  and an acknowledgement removes them from the front.
\<close>

section \<open>Unacknowledged bytes\<close>

definition in_flight :: "arwill_tcp_endpoint \<Rightarrow> arwill_tcp_pending_segment list" where
  "in_flight e = ring_list (ep_tcp_pending e) (ep_tcp_pending_head e) (ep_tcp_pending_count e)"

definition carried :: "arwill_tcp_pending_segment \<Rightarrow> bytes" where
  "carried p = take (ps_payload_length p) (ps_payload p)"

definition unacknowledged :: "arwill_tcp_endpoint \<Rightarrow> bytes" where
  "unacknowledged e = concat (map carried (in_flight e))"

text \<open>Every byte of the program that its peer has not acknowledged yet.\<close>

definition outstanding :: "arwill_tcp_endpoint \<Rightarrow> bytes" where
  "outstanding e = unacknowledged e @ unsent (ep_stream e)"

lemma copy_into_prefix:
  assumes "n \<le> length p" and "n \<le> length b"
  shows "take n (copy_into b 0 p n) = take n p"
  using assms by (intro nth_equalityI) (simp_all add: nth_copy_into)

lemma remember_pushes:
  assumes ok: "stack_ok s" and i: "i < 4" and n: "n \<le> length p"
    and r: "remember_pending_segment s i seg p n = (True, s')"
  shows "unacknowledged (endpoint_at s' i) = unacknowledged (endpoint_at s i) @ take n p"
    and "ep_tcp_pending_count (endpoint_at s' i) = Suc (ep_tcp_pending_count (endpoint_at s i))"
proof -
  let ?e = "endpoint_at s i"
  let ?ix = "(ep_tcp_pending_head ?e + ep_tcp_pending_count ?e) mod 4"
  obtain now s1 where c: "read_clock s = (now, s1)" by (cases "read_clock s")
  have at: "endpoint_at s1 i = ?e" by (rule same_tables_at [OF read_clock_same [OF c]])
  have i1: "i < length (ip_endpoints s1)"
    using ok i read_clock_same [OF c] by (simp add: same_tables_def stack_ok_def)
  have room: "n \<le> 1024" "ep_tcp_pending_count ?e < 4"
    using r by (auto simp: remember_pending_segment_def Let_def split: if_splits)
  have rok: "ring_ok 4 (ep_tcp_pending ?e) (ep_tcp_pending_head ?e) (ep_tcp_pending_count ?e)"
    and pend: "\<forall>q\<in>set (ep_tcp_pending ?e). pending_ok q"
    using stack_ok_endpoint [OF ok i] by (simp_all add: endpoint_ok_def)
  have ix: "?ix < length (ep_tcp_pending ?e)" using rok by (simp add: ring_ok_def)
  then have len: "length (ps_payload (ep_tcp_pending ?e ! ?ix)) = 1024"
    using pend by (simp add: pending_ok_def)
  define q where "q = (ep_tcp_pending ?e ! ?ix)\<lparr>ps_segment := seg,
      ps_payload := copy_into (ps_payload (ep_tcp_pending ?e ! ?ix)) 0 p n, ps_payload_length := n,
      ps_expected_acknowledgement := sg_sequence seg + of_nat n +
        (if sg_flags seg AND 2 \<noteq> 0 \<or> sg_flags seg AND 1 \<noteq> 0 then 1 else 0),
      ps_sent_at_milliseconds := now,
      ps_retransmission_timeout_ms := ep_tcp_retransmission_timeout_ms ?e,
      ps_retransmissions := 0, ps_active := True\<rparr>"
  have q: "carried q = take n p" using n room(1) len by (simp add: q_def carried_def copy_into_prefix)
  have e': "endpoint_at s' i = ?e\<lparr>ep_tcp_pending := (ep_tcp_pending ?e)[?ix := q],
      ep_tcp_pending_count := ep_tcp_pending_count ?e + 1\<rparr>"
    using r room i1 at
    by (auto simp: remember_pending_segment_def Let_def c with_endpoint_at q_def)
  show "unacknowledged (endpoint_at s' i) = unacknowledged ?e @ take n p"
    using ring_push(1) [OF rok room(2), of q] q
    by (simp add: e' unacknowledged_def in_flight_def)
  show "ep_tcp_pending_count (endpoint_at s' i) = Suc (ep_tcp_pending_count ?e)" by (simp add: e')
qed

lemma remember_refused:
  "remember_pending_segment s i seg p n = (False, s') \<Longrightarrow> s' = s"
  by (auto simp: remember_pending_segment_def Let_def split: if_splits prod.splits)

lemma send_and_remember_turn:
  assumes ok: "stack_ok s" and i: "i < 4" and n: "n \<le> length p"
    and r: "send_and_remember s i seg p n = (b, s')"
  shows "unacknowledged (endpoint_at s' i) = unacknowledged (endpoint_at s i) @ (if b then take n p else [])"
    and "ep_tcp_pending_count (endpoint_at s' i) = ep_tcp_pending_count (endpoint_at s i) + (if b then 1 else 0)"
proof -
  obtain sent s1 where s1: "send_tcp_segment s i seg p n = (sent, s1)"
    by (cases "send_tcp_segment s i seg p n")
  obtain w where w: "endpoint_at s1 i = (endpoint_at s i)\<lparr>ep_tcp_last_advertised_window := w\<rparr>"
    by (rule send_tcp_segment_at [OF s1])
  have ok1: "stack_ok s1" by (rule stack_keeps_ok [OF send_tcp_segment_keeps [OF s1] ok i])
  have same: "unacknowledged (endpoint_at s1 i) = unacknowledged (endpoint_at s i)"
    "ep_tcp_pending_count (endpoint_at s1 i) = ep_tcp_pending_count (endpoint_at s i)"
    by (simp_all add: w unacknowledged_def in_flight_def)
  have "s' = s1 \<and> \<not> b \<or> remember_pending_segment s1 i seg p n = (True, s') \<and> b"
    using r s1 by (cases b) (auto simp: send_and_remember_def dest: remember_refused split: if_splits)
  then show "unacknowledged (endpoint_at s' i) = unacknowledged (endpoint_at s i) @ (if b then take n p else [])"
    and "ep_tcp_pending_count (endpoint_at s' i) = ep_tcp_pending_count (endpoint_at s i) + (if b then 1 else 0)"
    using remember_pushes [OF ok1 i n] same by auto
qed

section \<open>Transmission\<close>

lemma chunk_bytes_take:
  assumes "stream_ok st" and "n \<le> st_transmit_count st"
  shows "chunk_bytes st n = take n (unsent st)" and "unsent (consume_chunk n st) = drop n (unsent st)"
  using assms ring_skip [of 8192 "st_transmit st" "st_transmit_head st" "st_transmit_count st" n]
  by (simp_all add: chunk_bytes_def unsent_def consume_chunk_def stream_ok_def)

text \<open>The loop stops for a reason of the source, not for lack of fuel.\<close>

definition flush_done :: "arwill_tcp_endpoint \<Rightarrow> bool" where
  "flush_done e \<longleftrightarrow>
     \<not> (ep_tcp_pending_count e < arwill_tcp_pending_segment_capacity \<and>
        st_transmit_count (ep_stream e) \<noteq> 0 \<and> ln_peer_window (st_listener (ep_stream e)) \<noteq> 0) \<or>
     chunk_length (ep_stream e) = 0"

text \<open>One turn of the loop on a stack that satisfies the invariant.\<close>

lemma flush_turn:
  assumes ok: "stack_ok s" and i: "i < 4" and busy: "\<not> flush_done (endpoint_at s i)"
  obtains b s1 where
    "\<forall>fuel. flush_loop (Suc fuel) i s = (if b then flush_loop fuel i s1 else (False, s1))"
    "stack_ok s1" "outstanding (endpoint_at s1 i) = outstanding (endpoint_at s i)"
    "b \<longrightarrow> ep_tcp_pending_count (endpoint_at s1 i) = Suc (ep_tcp_pending_count (endpoint_at s i))"
proof -
  let ?e = "endpoint_at s i"
  let ?n = "chunk_length (ep_stream ?e)"
  let ?send = "send_and_remember s i (connection_segment ?e (16 OR 8) ?n)
      (chunk_bytes (ep_stream ?e) ?n) ?n"
  obtain b s1 where t: "?send = (b, s1)" by (cases ?send)
  define s2 where "s2 = (if b then with_endpoint i (update_stream (consume_chunk ?n)) s1
    else with_endpoint i (update_stream (\<lambda>s. s\<lparr>st_send_failures := st_send_failures s + 1\<rparr>)) s1)"
  have so: "stream_ok (ep_stream ?e)" using stack_ok_endpoint [OF ok i] by (simp add: endpoint_ok_def)
  note ch = chunk_bytes_take [OF so chunk_length_le]
  have st1: "ep_stream (endpoint_at s1 i) = ep_stream ?e" by (rule send_and_remember_stream [OF t])
  have "?n \<le> length (chunk_bytes (ep_stream ?e) ?n)" by (simp add: chunk_bytes_def)
  note r = send_and_remember_turn [OF ok i this t]
  have ok1: "stack_ok s1" by (rule stack_keeps_ok [OF send_and_remember_keeps [OF t] ok i])
  have i1: "i < length (ip_endpoints s1)" using ok1 i by (simp add: stack_ok_def)
  have "keeps (endpoint_at s1 i) (update_stream (consume_chunk ?n) (endpoint_at s1 i))"
    using consume_keeps chunk_length_le [of "ep_stream ?e"] st1 by simp
  then have ok2: "stack_ok s2"
    unfolding s2_def by (auto intro!: stack_ok_with_endpoint [OF ok1 i])
  have loop: "flush_loop (Suc fuel) i s = (if b then flush_loop fuel i s2 else (False, s2))" for fuel
    using busy t by (auto simp: flush_done_def Let_def s2_def)
  have u: "unacknowledged (endpoint_at s2 i) = unacknowledged (endpoint_at s1 i)"
    "ep_tcp_pending_count (endpoint_at s2 i) = ep_tcp_pending_count (endpoint_at s1 i)"
    by (simp_all add: s2_def with_endpoint_at unacknowledged_def in_flight_def update_stream_def)
  have v: "unsent (ep_stream (endpoint_at s2 i)) =
      (if b then drop ?n (unsent (ep_stream ?e)) else unsent (ep_stream ?e))"
    using i1 st1 ch(2) by (auto simp: s2_def with_endpoint_at update_stream_def unsent_def)
  have "outstanding (endpoint_at s2 i) = outstanding ?e"
    using r(1) u(1) v ch(1) by (auto simp: outstanding_def)
  then show thesis using that [OF allI [OF loop] ok2] r(2) u(2) by simp
qed

lemma flush_loop_done: "flush_done (endpoint_at s i) \<Longrightarrow> flush_loop fuel i s = (True, s)"
  by (cases fuel) (auto simp: flush_done_def Let_def)

declare flush_loop.simps(2) [simp del]

lemma flush_loop_conserves:
  assumes "stack_ok s" and "i < 4" and "4 \<le> ep_tcp_pending_count (endpoint_at s i) + fuel"
    and "flush_loop fuel i s = (ok, s')"
  shows "outstanding (endpoint_at s' i) = outstanding (endpoint_at s i) \<and>
    (ok \<longrightarrow> flush_done (endpoint_at s' i)) \<and> flush_loop (fuel + extra) i s = (ok, s')"
  using assms
proof (induction fuel arbitrary: s)
  case 0
  then have "flush_done (endpoint_at s i)" by (simp add: flush_done_def)
  then show ?case using 0 flush_loop_done by auto
next
  case (Suc fuel)
  show ?case
  proof (cases "flush_done (endpoint_at s i)")
    case True
    then show ?thesis using Suc.prems(4) flush_loop_done [of s i] by auto
  next
    case False
    obtain b s1 where t:
      "\<forall>fuel. flush_loop (Suc fuel) i s = (if b then flush_loop fuel i s1 else (False, s1))"
      "stack_ok s1" "outstanding (endpoint_at s1 i) = outstanding (endpoint_at s i)"
      "b \<longrightarrow> ep_tcp_pending_count (endpoint_at s1 i) = Suc (ep_tcp_pending_count (endpoint_at s i))"
      by (rule flush_turn [OF Suc.prems(1,2) False])
    show ?thesis
    proof (cases b)
      case True
      then have l: "flush_loop fuel i s1 = (ok, s')" using Suc.prems(4) t(1) by simp
      have c: "4 \<le> ep_tcp_pending_count (endpoint_at s1 i) + fuel" using t(4) True Suc.prems(3) by simp
      show ?thesis
        using Suc.IH [OF t(2) Suc.prems(2) c l] spec [OF t(1), of "fuel + extra"] t(3) True by simp
    next
      case False
      then show ?thesis using Suc.prems(4) spec [OF t(1), of fuel] spec [OF t(1), of "fuel + extra"] t(3) by simp
    qed
  qed
qed

section \<open>Acknowledgement\<close>

lemma acknowledge_first_pops:
  assumes "endpoint_ok e" and "ep_tcp_pending_count e \<noteq> 0"
  shows "in_flight (acknowledge_first now e) = tl (in_flight e)"
proof -
  let ?h = "ep_tcp_pending_head e"
  obtain n where n: "ep_tcp_pending_count e = Suc n" using assms(2) by (cases "ep_tcp_pending_count e") auto
  have rok: "ring_ok 4 (ep_tcp_pending e) ?h (Suc n)" using assms(1) n by (simp add: endpoint_ok_def)
  have ix: "(Suc ?h + j) mod 4 \<noteq> ?h" if "j < n" for j
    using rok that ring_distinct [of ?h 4 0 "Suc j"] by (auto simp: ring_ok_def)
  have "ring_list ((ep_tcp_pending e)[?h := x]) ((?h + 1) mod 4) n =
      ring_list (ep_tcp_pending e) ((?h + 1) mod 4) n" for x
    using rok ix [symmetric] by (intro nth_equalityI) (simp_all add: ring_list_nth ring_ok_def mod_add_left_eq nth_list_update)
  then show ?thesis
    using ring_pop(1) [OF rok] by (simp add: in_flight_def acknowledge_first_def Let_def n)
qed

text \<open>An acknowledgement number removes the segments it covers from the front.\<close>

definition covers :: "u32 \<Rightarrow> arwill_tcp_pending_segment \<Rightarrow> bool" where
  "covers ack p \<longleftrightarrow> ack = ps_expected_acknowledgement p \<or>
     arwill_tcp_sequence_after ack (ps_expected_acknowledgement p)"

lemma in_flight_first:
  assumes "endpoint_ok e" and "ep_tcp_pending_count e \<noteq> 0"
  shows "in_flight e = ep_tcp_pending e ! ep_tcp_pending_head e # tl (in_flight e)"
proof -
  obtain n where n: "ep_tcp_pending_count e = Suc n" using assms(2) by (cases "ep_tcp_pending_count e") auto
  have "ring_ok 4 (ep_tcp_pending e) (ep_tcp_pending_head e) (Suc n)"
    using assms(1) n by (simp add: endpoint_ok_def)
  from ring_pop(1) [OF this] show ?thesis by (simp add: in_flight_def n)
qed

lemma acknowledge_loop_drops:
  "endpoint_ok e \<Longrightarrow> in_flight (acknowledge_loop now ack e) = dropWhile (covers ack) (in_flight e)"
proof (induction e rule: acknowledge_loop_induct [where ack = ack and now = now])
  case (stop e)
  have "dropWhile (covers ack) (in_flight e) = in_flight e"
  proof (cases "ep_tcp_pending_count e = 0")
    case True
    then show ?thesis by (simp add: in_flight_def)
  next
    case False
    then have "\<not> covers ack (ep_tcp_pending e ! ep_tcp_pending_head e)"
      using stop.hyps by (simp add: first_acknowledged_def covers_def Let_def)
    then show ?thesis by (subst (1 2) in_flight_first [OF stop.prems False]) simp
  qed
  then show ?case using stop by (subst acknowledge_loop_unfold) auto
next
  case (turn e)
  have ok: "endpoint_ok (acknowledge_first now e)"
    using acknowledge_first_keeps [OF turn.hyps(1), of now] turn.prems by (simp add: keeps_def)
  have "covers ack (ep_tcp_pending e ! ep_tcp_pending_head e)"
    using turn.hyps(2) by (simp add: first_acknowledged_def covers_def Let_def)
  then have "dropWhile (covers ack) (in_flight e) = dropWhile (covers ack) (tl (in_flight e))"
    by (subst in_flight_first [OF turn.prems turn.hyps(1)]) simp
  then show ?case
    using turn acknowledge_first_pops [OF turn.prems turn.hyps(1)] ok
    by (subst acknowledge_loop_unfold) simp
qed

end
