(* ===== verification/Ipv4_Frames.thy ===== *)
theory Ipv4_Frames
  imports Ipv4_Transmit
begin

text \<open>
  What the stack sends is what a stack receives: the frames built by
  \<open>send_tcp_segment_to\<close>, \<open>arwill_ipv4_udp_send\<close> and \<open>send_echo_reply\<close> pass every
  check of the receiving side and are read back field by field.
\<close>

section \<open>Checksums inside a frame\<close>

lemma sum_bytes_cong:
  assumes "n \<le> 65535" and "unat acc \<le> 1000000" and "\<And>i. i < n \<Longrightarrow> a ! i = b ! i"
  shows "sum_bytes a n acc = sum_bytes b n acc"
proof -
  have "byte_sum a n = byte_sum b n" using assms(3) by (rule byte_sum_cong)
  then have "unat (sum_bytes a n acc) = unat (sum_bytes b n acc)"
    using byte_sum_bound [of a n] byte_sum_bound [of b n] assms(1,2) by (simp add: sum_bytes_nat)
  then show ?thesis by (simp add: word_unat_eq_iff)
qed

lemma checksum_cong:
  "n \<le> 65535 \<Longrightarrow> (\<And>i. i < n \<Longrightarrow> a ! i = b ! i) \<Longrightarrow> checksum a n = checksum b n"
  unfolding checksum_def by (subst sum_bytes_cong [of n 0 a b]) simp_all

lemma ip_header_checks:
  assumes "34 \<le> length F" and "34 \<le> length G" and "F ! 24 = 0" and "F ! 25 = 0"
    and "\<And>j. 14 \<le> j \<Longrightarrow> j < 34 \<Longrightarrow> G ! j = put16 F 24 (checksum (drop 14 F) 20) ! j"
  shows "checksum (drop 14 G) 20 = 0"
proof -
  have "checksum (drop 14 G) 20 = checksum (drop 14 (put16 F 24 (checksum (drop 14 F) 20))) 20"
    using assms(1,2,5) by (intro checksum_cong) simp_all
  also have "\<dots> = 0" using assms(1,3,4) by (simp add: drop_put16 checksum_fill)
  finally show ?thesis .
qed

lemma pseudo_header_put16:
  "20 \<le> i \<Longrightarrow> i + 1 < length ip \<Longrightarrow> pseudo_header p (put16 ip i v) n = pseudo_header p ip n"
  by (simp add: pseudo_header_def get16_def nth_put16)

lemma tcp_checks:
  assumes "34 + n \<le> length F" and "18 \<le> n" and "n \<le> 65535" and "F ! 50 = 0" and "F ! 51 = 0"
    and "G = put16 F 50 (tcp_checksum (drop 14 F) (drop 34 F) n)"
  shows "tcp_checksum (drop 14 G) (drop 34 G) n = 0"
  using assms(1-5)
  by (simp add: assms(6) drop_put16 tcp_checksum_def pseudo_header_put16 transport_fill)

lemma udp_checks:
  assumes "34 + n \<le> length F" and "8 \<le> n" and "n \<le> 65535" and "F ! 40 = 0" and "F ! 41 = 0"
    and "c = udp_checksum (drop 14 F) (drop 34 F) n"
    and "G = put16 F 40 (if c = 0 then UINT16_MAX else c)"
  shows "udp_checksum (drop 14 G) (drop 34 G) n = 0"
  using assms(1-5) transport_fill [of 6 n "drop 34 F" 17 "if c = 0 then UINT16_MAX else c" "drop 14 F"]
  by (simp add: assms(7) drop_put16 udp_checksum_def pseudo_header_put16 assms(6))

section \<open>TCP\<close>

definition sent_segment :: "u16 \<Rightarrow> arwill_tcp_segment \<Rightarrow> nat \<Rightarrow> arwill_tcp_segment" where
  "sent_segment window seg n =
     seg\<lparr>sg_window := window, sg_payload_length := n,
         sg_maximum_segment_size := (if sg_flags seg AND arwill_tcp_flag_syn \<noteq> 0
           then arwill_tcp_local_maximum_segment_size else 0)\<rparr>"

text \<open>The frame in three stages: the IP header without and with its checksum, and the segment without its own.\<close>

definition ip_stage :: "bytes \<Rightarrow> bytes \<Rightarrow> u16 \<Rightarrow> u8 \<Rightarrow> bytes \<Rightarrow> bytes \<Rightarrow> bytes" where
  "ip_stage destination_mac mac len protocol source destination =
     (let frame = copy_into (copy_into (replicate 1536 0) 0 destination_mac 6) 6 mac 6;
          frame = put16 ((put16 frame 12 0x0800)[14 := 0x45]) 16 len;
          frame = frame[20 := 0x40, 22 := 64, 23 := protocol]
      in copy_into (copy_into frame 26 source 4) 30 destination 4)"

definition ip_checked :: "bytes \<Rightarrow> bytes" where
  "ip_checked frame = put16 frame 24 (checksum (drop 14 frame) 20)"

definition tcp_stage :: "u16 \<Rightarrow> arwill_tcp_segment \<Rightarrow> bytes \<Rightarrow> nat \<Rightarrow> bytes \<Rightarrow> bytes" where
  "tcp_stage window segment payload n frame =
     (let h = tcp_header_length_for segment;
          frame = put16 (put16 frame 34 (sg_source_port segment)) 36 (sg_destination_port segment);
          frame = put32 (put32 frame 38 (sg_sequence segment)) 42 (sg_acknowledgement segment);
          frame = put16 (frame[46 := push_bit 4 (of_nat (h div 4)), 47 := sg_flags segment]) 48 window;
          frame = (if h = 24 then put16 (frame[54 := 2, 55 := 4]) 56 1024 else frame)
      in copy_into frame (34 + h) payload n)"

lemma length_ip_stage [simp]: "length (ip_stage d m l p s t) = 1536"
  by (simp add: ip_stage_def Let_def)

lemma nth_ip_stage:
  "ip_stage d m l p s t ! 12 = 8" "ip_stage d m l p s t ! 13 = 0"
  "ip_stage d m l p s t ! 14 = 0x45" "ip_stage d m l p s t ! 23 = p"
  "get16 (ip_stage d m l p s t) 16 = l"
  "ip_stage d m l p s t ! 20 = 0x40" "ip_stage d m l p s t ! 21 = 0"
  "ip_stage d m l p s t ! 24 = 0" "ip_stage d m l p s t ! 25 = 0"
  "j < 4 \<Longrightarrow> ip_stage d m l p s t ! (26 + j) = s ! j"
  "j < 4 \<Longrightarrow> ip_stage d m l p s t ! (30 + j) = t ! j"
  "j < 6 \<Longrightarrow> ip_stage d m l p s t ! j = d ! j"
  "j < 6 \<Longrightarrow> ip_stage d m l p s t ! (6 + j) = m ! j"
  "34 \<le> j \<Longrightarrow> j < 1536 \<Longrightarrow> ip_stage d m l p s t ! j = 0"
  by (simp_all add: ip_stage_def Let_def frame_simps get16_def join16)

lemma length_ip_checked [simp]: "length (ip_checked f) = length f"
  by (simp add: ip_checked_def)

lemma nth_ip_checked: "34 \<le> length f \<Longrightarrow> j \<noteq> 24 \<Longrightarrow> j \<noteq> 25 \<Longrightarrow> ip_checked f ! j = f ! j"
  by (simp add: ip_checked_def nth_put16)

lemma tcp_header_cases: "tcp_header_length_for seg = 20 \<or> tcp_header_length_for seg = 24"
  by (simp add: tcp_header_length_for_def)

lemma tcp_frame_stages:
  "tcp_frame mac window seg payload n dmac =
     (let f = tcp_stage window seg payload n (ip_checked (ip_stage dmac mac
            (of_nat (20 + tcp_header_length_for seg + n)) 6
            (sg_source_address seg) (sg_destination_address seg)))
      in put16 f 50 (tcp_checksum (drop 14 f) (drop 34 f) (tcp_header_length_for seg + n)))"
  by (simp add: tcp_frame_def tcp_stage_def ip_stage_def ip_checked_def Let_def)

lemma length_tcp_stage [simp]: "length (tcp_stage w seg p n f) = length f"
  by (simp add: tcp_stage_def Let_def)

lemma nth_tcp_stage:
  assumes "length f = 1536" and "34 + tcp_header_length_for seg + n \<le> 1536"
    and "\<forall>j. 34 \<le> j \<and> j < 1536 \<longrightarrow> f ! j = 0"
  shows "j < 34 \<Longrightarrow> tcp_stage w seg p n f ! j = f ! j"
    and "tcp_stage w seg p n f ! 50 = 0" "tcp_stage w seg p n f ! 51 = 0"
    and "get16 (tcp_stage w seg p n f) 34 = sg_source_port seg"
    "get16 (tcp_stage w seg p n f) 36 = sg_destination_port seg"
    "get32 (tcp_stage w seg p n f) 38 = sg_sequence seg"
    "get32 (tcp_stage w seg p n f) 42 = sg_acknowledgement seg"
    "tcp_stage w seg p n f ! 46 = push_bit 4 (of_nat (tcp_header_length_for seg div 4))"
    "tcp_stage w seg p n f ! 47 = sg_flags seg" "get16 (tcp_stage w seg p n f) 48 = w"
    and "j < n \<Longrightarrow> tcp_stage w seg p n f ! (34 + tcp_header_length_for seg + j) = p ! j"
    and "tcp_header_length_for seg = 24 \<Longrightarrow> tcp_stage w seg p n f ! 54 = 2"
    "tcp_header_length_for seg = 24 \<Longrightarrow> tcp_stage w seg p n f ! 55 = 4"
    "tcp_header_length_for seg = 24 \<Longrightarrow> get16 (tcp_stage w seg p n f) 56 = 1024"
  using tcp_header_cases [of seg] assms
  by (auto simp: tcp_stage_def Let_def frame_simps get16_def get32_def join16 join32)

lemma take_drop_field:
  assumes "length xs = k" and "i + k \<le> length f" and "\<And>j. j < k \<Longrightarrow> f ! (i + j) = xs ! j"
  shows "take k (drop i f) = xs"
  using assms by (intro nth_equalityI) simp_all

lemma u16_of_nat: "k < 65536 \<Longrightarrow> unat (of_nat k :: u16) = k"
  by (simp add: unat_of_nat)

lemma data_offset:
  "unat (drop_bit 4 (push_bit 4 (of_nat (tcp_header_length_for seg div 4)) :: u8)) * 4 =
   tcp_header_length_for seg"
  using tcp_header_cases [of seg] by auto

lemma parse_sent_size:
  assumes "length f = 1536" and "f ! 54 = 2" and "f ! 55 = 4"
  shows "parse_tcp_maximum_segment_size (drop 34 f) 24 = get16 f 56"
  unfolding parse_tcp_maximum_segment_size_def
  using assms by (subst parse_options.simps) (simp add: get16_def)

lemma tcp_frame_parsed:
  fixes mac dmac payload :: bytes and seg :: arwill_tcp_segment
  defines "h \<equiv> tcp_header_length_for seg"
  assumes src: "length (sg_source_address seg) = 4" and dst: "length (sg_destination_address seg) = 4"
    and n: "n \<le> length payload" "34 + h + n \<le> 1536"
    and f: "f = tcp_frame mac window seg payload n dmac"
  shows "length f = 1536" "get16 f 12 = 0x0800" "f ! 14 = 0x45" "f ! 23 = 6"
    "unat (get16 f 16) = 20 + h + n" "unat (drop_bit 4 (f ! 46)) * 4 = h"
    "take 4 (drop 30 f) = sg_destination_address seg"
    "checksum (drop 14 f) 20 = 0" "tcp_checksum (drop 14 f) (drop 34 f) (h + n) = 0"
    "tcp_frame_segment f h n = sent_segment window seg n"
    "take n (drop (34 + h) f) = take n payload"
    "take 6 (drop 6 f) = take 6 (map (\<lambda>j. mac ! j) [0..<6])"
proof -
  define F0 where "F0 = ip_stage dmac mac (of_nat (20 + h + n)) 6
    (sg_source_address seg) (sg_destination_address seg)"
  define F where "F = tcp_stage window seg payload n (ip_checked F0)"
  have l: "length F0 = 1536" "length (ip_checked F0) = 1536" "length F = 1536"
    by (simp_all add: F0_def F_def)
  have fF: "f = put16 F 50 (tcp_checksum (drop 14 F) (drop 34 F) (h + n))"
    by (simp add: f tcp_frame_stages F_def F0_def h_def Let_def)
  have h: "h = 20 \<or> h = 24" using tcp_header_cases by (simp add: h_def)
  have z: "\<forall>j. 34 \<le> j \<and> j < 1536 \<longrightarrow> ip_checked F0 ! j = 0"
    by (simp add: nth_ip_checked F0_def nth_ip_stage)
  note T = nth_tcp_stage [where f = "ip_checked F0" and seg = seg and n = n and w = window and p = payload,
      OF l(2) n(2) [unfolded h_def] z, folded F_def h_def]
  have nf: "j \<noteq> 50 \<Longrightarrow> j \<noteq> 51 \<Longrightarrow> f ! j = F ! j" for j
    using l(3) by (simp add: fF nth_put16)
  have ip: "j < 34 \<Longrightarrow> f ! j = ip_checked F0 ! j" for j using nf T(1) by simp
  have ip0: "j < 34 \<Longrightarrow> j \<noteq> 24 \<Longrightarrow> j \<noteq> 25 \<Longrightarrow> f ! j = F0 ! j" for j
    using ip nth_ip_checked l(1) by simp
  have g: "i + 1 < 50 \<or> 51 < i \<Longrightarrow> get16 f i = get16 F i"
    "i + 3 < 50 \<Longrightarrow> get32 f i = get32 F i" for i
    using nf by (auto simp: get16_def get32_def)
  show lf: "length f = 1536" using l(3) by (simp add: fF)
  show "get16 f 12 = 0x0800" "f ! 14 = 0x45" "f ! 23 = 6"
    by (simp_all add: get16_def ip0 F0_def nth_ip_stage)
  have "get16 f 16 = get16 F0 16" by (simp add: get16_def ip0)
  then have "get16 f 16 = of_nat (20 + h + n)" unfolding F0_def nth_ip_stage(5) .
  then show "unat (get16 f 16) = 20 + h + n"
    using n(2) u16_of_nat [of "20 + h + n"] by (simp only:)
  show "unat (drop_bit 4 (f ! 46)) * 4 = h" using data_offset [of seg] by (simp add: nf T(8) h_def)
  show d30: "take 4 (drop 30 f) = sg_destination_address seg"
    using dst lf by (intro take_drop_field) (simp_all add: ip0 F0_def nth_ip_stage)
  have d26: "take 4 (drop 26 f) = sg_source_address seg"
    using src lf by (intro take_drop_field) (simp_all add: ip0 F0_def nth_ip_stage)
  show "checksum (drop 14 f) 20 = 0"
    using l(1) lf ip by (intro ip_header_checks [of F0]) (simp_all add: F0_def nth_ip_stage ip_checked_def)
  show "tcp_checksum (drop 14 f) (drop 34 f) (h + n) = 0"
    using h n(2) l(3) T(2,3) by (intro tcp_checks [OF _ _ _ _ _ fF]) auto
  have mss: "parse_tcp_maximum_segment_size (drop 34 f) h = 1024" if "h = 24"
    using parse_sent_size [OF lf] T(12-14) [OF that] that by (simp add: nf g)
  have syn: "h = 24 \<longleftrightarrow> sg_flags seg AND 2 \<noteq> 0" by (simp add: h_def tcp_header_length_for_def)
  show "tcp_frame_segment f h n = sent_segment window seg n"
    using d26 d30 mss syn
    by (auto simp: tcp_frame_segment_def sent_segment_def Let_def g T nf)
  show "take n (drop (34 + h) f) = take n payload"
  proof (rule nth_equalityI)
    fix j assume "j < length (take n (drop (34 + h) f))"
    then have j: "j < n" by simp
    have "34 + h + j \<noteq> 50" "34 + h + j \<noteq> 51" using h by auto
    then have "f ! (34 + h + j) = payload ! j" using nf T(11) [OF j] by metis
    then show "take n (drop (34 + h) f) ! j = take n payload ! j" using j n lf by simp
  qed (use n lf in simp)
  show "take 6 (drop 6 f) = take 6 (map (\<lambda>j. mac ! j) [0..<6])"
    using lf by (intro nth_equalityI) (simp_all add: ip0 F0_def nth_ip_stage)
qed

lemma same_bytes_take: "take n a = b \<Longrightarrow> n \<le> length a \<Longrightarrow> same_bytes a b n"
  by (auto simp: same_bytes_iff)

text \<open>A frame that carries a segment for the address of a stack reaches its TCP as that segment.\<close>

lemma tcp_frame_handled:
  fixes mac dmac payload :: bytes and seg :: arwill_tcp_segment and s :: "('n, 'k) arwill_ipv4_stack"
  assumes src: "length (sg_source_address seg) = 4" and dst: "length (sg_destination_address seg) = 4"
    and me: "ip_address s = sg_destination_address seg"
    and n: "n \<le> length payload" "34 + tcp_header_length_for seg + n \<le> 1536"
    and f: "f = tcp_frame mac window seg payload n dmac"
    and len: "34 + tcp_header_length_for seg + n \<le> len" "54 \<le> len"
  shows "handle_frame s f len =
    (let s1 = count_segment (sent_segment window seg n) s
     in case tcp_endpoint_for s1 (sg_destination_port seg) of
          None \<Rightarrow> send_reset_for_segment
            (s1\<lparr>ip_tcp_unknown_port_frames := ip_tcp_unknown_port_frames s1 + 1\<rparr>)
            (sent_segment window seg n) (drop 6 f)
        | Some i \<Rightarrow> handle_tcp_segment s1 i (sent_segment window seg n)
            (drop (34 + tcp_header_length_for seg) f) f)"
proof -
  let ?h = "tcp_header_length_for seg"
  note P = tcp_frame_parsed [OF src dst n f]
  have same: "same_bytes (drop 30 f) (ip_address s) 4"
    using P(1,7) me by (intro same_bytes_take) simp_all
  have h: "20 \<le> ?h" using tcp_header_cases [of seg] by auto
  have "handle_frame s f len = handle_tcp_frame s f len"
    unfolding handle_frame_def by (simp add: P(2,3,4))
  also have "\<dots> = (let s1 = count_segment (sent_segment window seg n) s
     in case tcp_endpoint_for s1 (sg_destination_port seg) of
          None \<Rightarrow> send_reset_for_segment
            (s1\<lparr>ip_tcp_unknown_port_frames := ip_tcp_unknown_port_frames s1 + 1\<rparr>)
            (sent_segment window seg n) (drop 6 f)
        | Some i \<Rightarrow> handle_tcp_segment s1 i (sent_segment window seg n) (drop (34 + ?h) f) f)"
    unfolding handle_tcp_frame_def Let_def P(5,6)
    using len h same P(2,3,4,8,9,10) by (simp add: sent_segment_def cong: option.case_cong)
  finally show ?thesis .
qed

section \<open>UDP\<close>

definition udp_stage :: "arwill_udp_endpoint \<Rightarrow> bytes \<Rightarrow> nat \<Rightarrow> bytes \<Rightarrow> bytes" where
  "udp_stage e data n frame =
     copy_into (put16 (put16 (put16 frame 34 (ue_local_port e)) 36 (ue_peer_port e)) 38 (of_nat (8 + n)))
       42 data n"

lemma udp_frame_stages:
  "udp_frame s e data n =
     (let f = udp_stage e data n (ip_checked (ip_stage (ue_peer_mac e) (ip_mac s)
            (of_nat (20 + (8 + n))) 17 (ip_address s) (ue_peer_address e)));
          c = udp_checksum (drop 14 f) (drop 34 f) (8 + n)
      in put16 f 40 (if c = 0 then UINT16_MAX else c))"
  by (simp add: udp_frame_def udp_stage_def ip_stage_def ip_checked_def Let_def)

lemma length_udp_stage [simp]: "length (udp_stage e d n f) = length f"
  by (simp add: udp_stage_def)

lemma nth_udp_stage:
  assumes "length f = 1536" and "42 + n \<le> 1536" and "\<forall>j. 34 \<le> j \<and> j < 1536 \<longrightarrow> f ! j = 0"
  shows "j < 34 \<Longrightarrow> udp_stage e d n f ! j = f ! j"
    and "udp_stage e d n f ! 40 = 0" "udp_stage e d n f ! 41 = 0"
    and "get16 (udp_stage e d n f) 34 = ue_local_port e"
    "get16 (udp_stage e d n f) 36 = ue_peer_port e"
    "get16 (udp_stage e d n f) 38 = of_nat (8 + n)"
    and "j < n \<Longrightarrow> udp_stage e d n f ! (42 + j) = d ! j"
  using assms by (auto simp: udp_stage_def frame_simps get16_def join16)

lemma udp_frame_parsed:
  assumes addr: "length (ip_address s) = 4" "length (ue_peer_address e) = 4"
    and n: "n \<le> length d" "n \<le> 512" and f: "f = udp_frame s e d n"
  shows "length f = 1536" "get16 f 12 = 0x0800" "f ! 14 = 0x45" "f ! 23 = 17"
    "unat (get16 f 16) = 28 + n" "take 4 (drop 30 f) = ue_peer_address e"
    "take 4 (drop 26 f) = ip_address s" "checksum (drop 14 f) 20 = 0"
    "udp_checksum (drop 14 f) (drop 34 f) (8 + n) = 0"
    "get16 f 34 = ue_local_port e" "get16 f 36 = ue_peer_port e" "unat (get16 f 38) = 8 + n"
    "take n (drop 42 f) = take n d"
proof -
  define F0 where "F0 = ip_stage (ue_peer_mac e) (ip_mac s) (of_nat (20 + (8 + n))) 17
    (ip_address s) (ue_peer_address e)"
  define F where "F = udp_stage e d n (ip_checked F0)"
  define c where "c = udp_checksum (drop 14 F) (drop 34 F) (8 + n)"
  have l: "length F0 = 1536" "length (ip_checked F0) = 1536" "length F = 1536"
    by (simp_all add: F0_def F_def)
  have fF: "f = put16 F 40 (if c = 0 then UINT16_MAX else c)"
    by (simp add: f udp_frame_stages F_def F0_def c_def Let_def)
  have z: "\<forall>j. 34 \<le> j \<and> j < 1536 \<longrightarrow> ip_checked F0 ! j = 0"
    by (simp add: nth_ip_checked F0_def nth_ip_stage)
  have n': "42 + n \<le> 1536" using n(2) by simp
  note T = nth_udp_stage [where f = "ip_checked F0" and n = n and e = e and d = d, OF l(2) n' z, folded F_def]
  have nf: "j \<noteq> 40 \<Longrightarrow> j \<noteq> 41 \<Longrightarrow> f ! j = F ! j" for j
    using l(3) by (simp add: fF nth_put16)
  have ip: "j < 34 \<Longrightarrow> f ! j = ip_checked F0 ! j" for j using nf T(1) by simp
  have ip0: "j < 34 \<Longrightarrow> j \<noteq> 24 \<Longrightarrow> j \<noteq> 25 \<Longrightarrow> f ! j = F0 ! j" for j
    using ip nth_ip_checked l(1) by simp
  have g: "i + 1 < 40 \<Longrightarrow> get16 f i = get16 F i" for i using nf by (auto simp: get16_def)
  show lf: "length f = 1536" using l(3) by (simp add: fF)
  show "get16 f 12 = 0x0800" "f ! 14 = 0x45" "f ! 23 = 17"
    by (simp_all add: get16_def ip0 F0_def nth_ip_stage)
  have "get16 f 16 = get16 F0 16" by (simp add: get16_def ip0)
  then have "get16 f 16 = of_nat (20 + (8 + n))" unfolding F0_def nth_ip_stage(5) .
  then show "unat (get16 f 16) = 28 + n" using n(2) u16_of_nat [of "20 + (8 + n)"] by simp
  show "take 4 (drop 30 f) = ue_peer_address e"
    using addr lf by (intro take_drop_field) (simp_all add: ip0 F0_def nth_ip_stage)
  show "take 4 (drop 26 f) = ip_address s"
    using addr lf by (intro take_drop_field) (simp_all add: ip0 F0_def nth_ip_stage)
  show "checksum (drop 14 f) 20 = 0"
    using l(1) lf ip by (intro ip_header_checks [of F0]) (simp_all add: F0_def nth_ip_stage ip_checked_def)
  show "udp_checksum (drop 14 f) (drop 34 f) (8 + n) = 0"
    using n(2) l(3) T(2,3) by (intro udp_checks [OF _ _ _ _ _ c_def fF]) auto
  show "get16 f 34 = ue_local_port e" "get16 f 36 = ue_peer_port e" by (simp_all add: g T)
  have "get16 f 38 = of_nat (8 + n)" using g [of 38] T(6) by simp
  then show "unat (get16 f 38) = 8 + n" using n(2) u16_of_nat [of "8 + n"] by simp
  show "take n (drop 42 f) = take n d"
    using n lf by (intro nth_equalityI) (auto simp: nf T(7))
qed

lemma udp_endpoint_found:
  assumes ok: "stack_ok s" and j: "j < 4"
    and e: "ue_allocated (udp_at s j)" "ue_bound (udp_at s j)" "ue_connected (udp_at s j)"
      "ue_local_port (udp_at s j) = dport" "ue_peer_port (udp_at s j) = sport"
      "same_bytes (ue_peer_address (udp_at s j)) src 4"
  shows "udp_endpoint_for s src sport dport = Some j"
proof -
  let ?P = "\<lambda>k. ue_allocated (udp_at s k) \<and> ue_bound (udp_at s k) \<and> ue_connected (udp_at s k) \<and>
      ue_local_port (udp_at s k) = dport \<and> ue_peer_port (udp_at s k) = sport \<and>
      same_bytes (ue_peer_address (udp_at s k)) src 4"
  have uniq: "k = j" if "?P k" "k < 4" for k
    using ok j e that unfolding stack_ok_def udp_ports_distinct_def udp_at_def by metis
  have "find ?P [0..<4] \<noteq> None" using j e by (auto simp: find_None_iff)
  then obtain k where k: "find ?P [0..<4] = Some k" by auto
  then have "?P k" "k < 4" by (auto simp: find_Some_iff)
  then show ?thesis using uniq k by (simp add: udp_endpoint_for_def Let_def)
qed

text \<open>A datagram sent to a connected endpoint with an empty slot is queued there.\<close>

lemma udp_frame_queued:
  assumes addr: "length (ip_address a) = 4" "length (ue_peer_address ea) = 4"
    and n: "n \<le> length d" "n \<le> 512" and f: "f = udp_frame a ea d n"
    and ok: "stack_ok b" and j: "j < 4" and me: "ip_address b = ue_peer_address ea"
    and e: "ue_allocated (udp_at b j)" "ue_bound (udp_at b j)" "ue_connected (udp_at b j)"
      "ue_local_port (udp_at b j) = ue_peer_port ea" "ue_peer_port (udp_at b j) = ue_local_port ea"
      "ue_peer_address (udp_at b j) = ip_address a" "ue_receive_length (udp_at b j) = 0"
    and len: "42 + n \<le> len"
  shows "handle_frame b f len =
    (True, (with_udp j (\<lambda>e. e\<lparr>ue_receive := copy_into (ue_receive e) 0 (drop 42 f) n,
        ue_receive_length := n\<rparr>) b)
      \<lparr>ip_udp_frames_received := ip_udp_frames_received b + 1,
       ip_udp_bytes_received := ip_udp_bytes_received b + of_nat n\<rparr>)"
proof -
  note P = udp_frame_parsed [OF addr n f]
  have same: "same_bytes (drop 30 f) (ip_address b) 4"
    using P(1,6) me by (intro same_bytes_take) simp_all
  have "same_bytes (ue_peer_address (udp_at b j)) (drop 26 f) 4"
    using P(1) e(6) by (auto simp: same_bytes_iff P(7) [symmetric])
  then have found: "udp_endpoint_for b (drop 26 f) (get16 f 34) (get16 f 36) = Some j"
    using udp_endpoint_found [OF ok j e(1-3)] e(4,5) P(10,11) by simp
  have g: "get16 (drop 34 f) 0 = get16 f 34" "get16 (drop 34 f) 2 = get16 f 36"
    "get16 (drop 34 f) 4 = get16 f 38"
    using P(1) by (simp_all add: get16_def)
  have "handle_frame b f len = handle_udp_frame b f len"
    unfolding handle_frame_def using len by (simp add: P(2,3,4))
  also have "\<dots> = (True, (with_udp j (\<lambda>e. e\<lparr>ue_receive := copy_into (ue_receive e) 0 (drop 42 f) n,
        ue_receive_length := n\<rparr>) b)
      \<lparr>ip_udp_frames_received := ip_udp_frames_received b + 1,
       ip_udp_bytes_received := ip_udp_bytes_received b + of_nat n\<rparr>)"
    unfolding handle_udp_frame_def Let_def g P(5,12) found
    using len same P(3,8,9) n(2) e(7) by simp
  finally show ?thesis .
qed

end
