(* ===== verification/Ipv4_Properties.thy ===== *)
theory Ipv4_Properties
  imports Ipv4_Frames
begin

text \<open>
  The properties of the network stack, with the small concrete stacks their
  witnesses run on.
\<close>

section \<open>Concrete stacks\<close>

definition demo_network :: "unit arwill_network_device" where
  "demo_network = \<lparr>nd_name = ''demo'', nd_context = (), nd_send_frame = Some (\<lambda>k f n. (True, k)),
     nd_poll_frame = None, nd_read_mac = Some (\<lambda>k m. (True, [2, 0, 0, 0, 0, 1], k))\<rparr>"

definition demo_clock :: "unit arwill_clock" where
  "demo_clock = \<lparr>ck_context = (), ck_monotonic_milliseconds = Some (\<lambda>k. (1000, k))\<rparr>"

definition blank_pending :: arwill_tcp_pending_segment where
  "blank_pending = \<lparr>ps_segment = blank_tcp_segment, ps_payload = replicate 1024 0,
     ps_payload_length = 0, ps_expected_acknowledgement = 0, ps_sent_at_milliseconds = 0,
     ps_retransmission_timeout_ms = 0, ps_retransmissions = 0, ps_active = False\<rparr>"

definition blank_endpoint :: arwill_tcp_endpoint where
  "blank_endpoint = \<lparr>ep_stream = blank_stream, ep_tcp_peer_mac = [0, 0, 0, 0, 0, 0],
     ep_tcp_pending = replicate 4 blank_pending, ep_tcp_pending_head = 0, ep_tcp_pending_count = 0,
     ep_tcp_close_started_milliseconds = 0, ep_tcp_time_wait_started_milliseconds = 0,
     ep_tcp_smoothed_round_trip_ms = 0, ep_tcp_round_trip_variance_ms = 0,
     ep_tcp_retransmission_timeout_ms = 250, ep_tcp_last_advertised_window = 512,
     ep_tcp_window_update_pending = False, ep_connect_peer_address = [0, 0, 0, 0],
     ep_connect_next_hop = [0, 0, 0, 0], ep_connect_peer_port = 0, ep_connect_local_port = 0,
     ep_bound_port = 0, ep_connect_arp_sent_milliseconds = 0, ep_connect_arp_attempts = 0,
     ep_connect_pending = False, ep_connect_failed = False, ep_active_open = False,
     ep_allocated = False\<rparr>"

definition blank_udp :: arwill_udp_endpoint where
  "blank_udp = \<lparr>ue_receive = replicate 512 0, ue_receive_length = 0, ue_peer_address = [0, 0, 0, 0],
     ue_next_hop = [0, 0, 0, 0], ue_peer_mac = [0, 0, 0, 0, 0, 0], ue_local_port = 0,
     ue_peer_port = 0, ue_arp_sent_milliseconds = 0, ue_arp_attempts = 0, ue_allocated = False,
     ue_bound = False, ue_connected = False, ue_resolving = False, ue_failed = False\<rparr>"

definition blank_stack :: "(unit, unit) arwill_ipv4_stack" where
  "blank_stack = \<lparr>ip_network = Some demo_network, ip_clock = Some demo_clock,
     ip_mac = [0, 0, 0, 0, 0, 0], ip_address = [10, 0, 2, 15], ip_gateway = [10, 0, 2, 2],
     ip_gateway_mac = [0, 0, 0, 0, 0, 0], ip_gateway_resolved = False, ip_echo_identifier = 0,
     ip_echo_sequence = 0, ip_icmp_echo_requests_received = 0, ip_icmp_echo_replies_sent = 0,
     ip_icmp_checksum_drops = 0, ip_endpoints = replicate 4 blank_endpoint,
     ip_tcp_frames_received = 0, ip_tcp_frames_sent = 0, ip_tcp_bytes_received = 0,
     ip_tcp_bytes_sent = 0, ip_tcp_syn_received = 0, ip_tcp_syn_ack_sent = 0,
     ip_tcp_fin_received = 0, ip_tcp_rst_received = 0, ip_tcp_rst_sent = 0,
     ip_tcp_unknown_port_frames = 0, ip_tcp_tuple_mismatches = 0, ip_tcp_checksum_drops = 0,
     ip_tcp_duplicate_acks = 0, ip_tcp_retransmissions = 0, ip_tcp_retransmission_backoffs = 0,
     ip_tcp_timeouts = 0, ip_tcp_receive_window_drops = 0, ip_tcp_window_updates = 0,
     ip_udp_endpoints = replicate 4 blank_udp, ip_udp_frames_received = 0, ip_udp_frames_sent = 0,
     ip_udp_bytes_received = 0, ip_udp_bytes_sent = 0, ip_udp_checksum_drops = 0,
     ip_udp_port_drops = 0, ip_udp_queue_drops = 0\<rparr>"

text \<open>A connection from port 40000 to port 80 in entry 1, with two bytes to send.\<close>

definition busy_endpoint :: arwill_tcp_endpoint where
  "busy_endpoint = blank_endpoint\<lparr>ep_allocated := True, ep_bound_port := 40000,
     ep_stream := blank_stream\<lparr>st_listener := near_end, st_listening := True,
       st_transmit := (replicate 8192 0)[0 := 71, 1 := 69], st_transmit_count := 2\<rparr>\<rparr>"

definition connected_stack :: "(unit, unit) arwill_ipv4_stack" where
  "connected_stack = blank_stack\<lparr>
     ip_endpoints := (replicate 4 blank_endpoint)[1 := busy_endpoint],
     ip_udp_endpoints := (replicate 4 blank_udp)[0 := blank_udp\<lparr>ue_allocated := True,
       ue_bound := True, ue_connected := True, ue_local_port := 53, ue_peer_port := 5353,
       ue_peer_address := [10, 0, 2, 3]\<rparr>]\<rparr>"

lemma blank_endpoint_ok: "endpoint_ok blank_endpoint"
  by (simp add: endpoint_ok_def blank_endpoint_def stream_ok_def blank_stream_def ring_ok_def
      listener_ok_def blank_listener_def pending_ok_def blank_pending_def)

lemma busy_endpoint_ok: "endpoint_ok busy_endpoint"
  by (simp add: endpoint_ok_def busy_endpoint_def blank_endpoint_def stream_ok_def blank_stream_def
      ring_ok_def listener_ok_def near_end_def blank_listener_def pending_ok_def blank_pending_def)

lemma single_distinct:
  "ports_distinct ((replicate 4 blank_endpoint)[1 := e])"
  "udp_ports_distinct ((replicate 4 blank_udp)[0 := u])"
  by (auto simp: ports_distinct_def udp_ports_distinct_def nth_list_update blank_endpoint_def blank_udp_def
      split: if_splits)

lemma connected_stack_ok: "stack_ok connected_stack"
  using blank_endpoint_ok busy_endpoint_ok single_distinct
  by (auto simp: stack_ok_def connected_stack_def blank_stack_def udp_ok_def blank_udp_def
      dest!: set_update_subset_insert [THEN subsetD])

lemma connected_endpoint: "endpoint_at connected_stack 1 = busy_endpoint"
  by (simp add: endpoint_at_def connected_stack_def)

lemma busy_state:
  "ln_state (st_listener (ep_stream busy_endpoint)) = Tcp_established"
  "received (ep_stream busy_endpoint) = []" "st_listener (ep_stream busy_endpoint) = near_end"
  by (simp_all add: busy_endpoint_def near_end_def received_def blank_stream_def)

section \<open>Properties\<close>

text \<open>
  C3. Every stack that initialisation, polls, and the calls of the kernel and of programs
  can reach keeps its invariant: each ring stays inside its array, each
  retransmission timeout between 100 and 2000 milliseconds, each pending payload
  within its buffer; and no two allocated endpoints listen on the same port, so the
  first endpoint a segment's port finds is the only one.
\<close>

theorem ipv4_invariant:
  assumes "ipv4_reachable s"
  shows "stack_ok s \<and>
    (\<forall>i<4. \<forall>j<4. ep_allocated (endpoint_at s i) \<and> st_listening (ep_stream (endpoint_at s i)) \<and>
       ep_allocated (endpoint_at s j) \<and> st_listening (ep_stream (endpoint_at s j)) \<and>
       ln_port (st_listener (ep_stream (endpoint_at s i))) =
         ln_port (st_listener (ep_stream (endpoint_at s j))) \<longrightarrow> i = j)"
  using reachable_ok [OF assms] listening_unique by blast

lemma blank_stack_raw: "raw_stack blank_stack"
  by (simp add: raw_stack_def blank_stack_def raw_endpoint_def blank_endpoint_def blank_stream_def
      blank_pending_def blank_udp_def)

theorem ipv4_invariant_witness:
  "case arwill_ipv4_init blank_stack (Some demo_network) (Some demo_clock) 2323 of
     (ok, s) \<Rightarrow> ok \<and> stack_ok (snd (arwill_ipv4_poll_tcp (snd (arwill_ipv4_tcp_open s))))"
proof -
  obtain ok s where i: "arwill_ipv4_init blank_stack (Some demo_network) (Some demo_clock) 2323 = (ok, s)"
    by (cases "arwill_ipv4_init blank_stack (Some demo_network) (Some demo_clock) 2323")
  then have ok by (auto simp: arwill_ipv4_init_def arwill_network_read_mac_def demo_network_def Let_def)
  with i have "ipv4_reachable s" using ipv4_reachable.init [OF blank_stack_raw] by auto
  then have "ipv4_reachable (snd (arwill_ipv4_poll_tcp (snd (arwill_ipv4_tcp_open s))))"
    by (intro ipv4_reachable.step [OF _ ipv4_step.poll] ipv4_reachable.step [OF _ ipv4_step.tcp_open])
  from ipv4_invariant [OF this] show ?thesis using i \<open>ok\<close> by simp
qed


definition demo_data_segment :: arwill_tcp_segment where
  "demo_data_segment = \<lparr>sg_source_address = [10, 0, 2, 2], sg_destination_address = [10, 0, 2, 15],
     sg_source_port = 80, sg_destination_port = 40000, sg_sequence = 10, sg_acknowledgement = 8,
     sg_flags = 24, sg_window = 512, sg_maximum_segment_size = 0, sg_payload_length = 2\<rparr>"

lemma demo_session:
  "tcp_session 1 [72, 73, 74] 10 [] (snd (handle_tcp_segment connected_stack 1 demo_data_segment [72, 73] []))"
proof (rule tcp_session.segment)
  show "tcp_session 1 [72, 73, 74] 10 [] connected_stack"
    using connected_stack_ok
    by (intro tcp_session.opened) (simp_all add: connected_endpoint [simplified] busy_state near_end_def)
  show "piece_of [72, 73, 74] 10 demo_data_segment [72, 73]"
    unfolding piece_of_def by (rule exI [of _ 0]) (simp add: demo_data_segment_def)
  show "arwill_tcp_listener_matches (st_listener (ep_stream (endpoint_at connected_stack 1))) demo_data_segment"
    by (simp add: connected_endpoint [simplified] busy_state arwill_tcp_listener_matches_def
        demo_data_segment_def near_end_def same_address_def upt_rec)
qed


text \<open>
  C22. Transmission ends: the loop that cuts the written bytes into segments stops by
  its own conditions within as many turns as there are places for unacknowledged
  segments, so that more turns would change nothing, and it stops early only when a
  segment could not be sent.
\<close>

theorem tcp_flush_terminates:
  assumes "stack_ok s" and "i < 4"
  shows "flush_loop (4 + extra) i s = flush_loop 4 i s \<and>
    (fst (flush_loop 4 i s) \<longrightarrow> flush_done (endpoint_at (snd (flush_loop 4 i s)) i))"
proof -
  obtain ok s' where f: "flush_loop 4 i s = (ok, s')" by (cases "flush_loop 4 i s")
  from flush_loop_conserves [OF assms _ f, of extra] f show ?thesis by simp
qed

theorem tcp_flush_terminates_witness:
  "flush_loop (4 + 96) 1 connected_stack = flush_loop 4 1 connected_stack"
  using tcp_flush_terminates [OF connected_stack_ok, of 1 96] by simp

text \<open>
  C19. Transmission loses nothing: the unacknowledged bytes followed by those not sent yet
  are the same bytes in the same order before and after it, whether it succeeds or
  fails, and an endpoint without a connection is left as it is.
\<close>

theorem tcp_transmit_conserves:
  assumes "stack_ok s" and "i < 4" and "flush_stream_transmit s i = (ok, s')"
  shows "outstanding (endpoint_at s' i) = outstanding (endpoint_at s i) \<and> stack_ok s' \<and>
    (\<not> arwill_tcp_stream_connected (ep_stream (endpoint_at s i)) \<longrightarrow> ok \<and> s' = s)"
proof -
  have "stack_ok s'" by (rule stack_keeps_ok [OF flush_keeps [OF assms(3)] assms(1,2)])
  moreover have "outstanding (endpoint_at s' i) = outstanding (endpoint_at s i)"
    if "flush_loop 4 i s = (ok, s')"
    using flush_loop_conserves [OF assms(1,2) _ that] by simp
  ultimately show ?thesis using assms(3) by (auto simp: flush_stream_transmit_def split: if_splits)
qed

theorem tcp_transmit_conserves_witness:
  "outstanding (endpoint_at (snd (flush_stream_transmit connected_stack 1)) 1) = [71, 69]"
proof -
  obtain ok s' where f: "flush_stream_transmit connected_stack 1 = (ok, s')"
    by (cases "flush_stream_transmit connected_stack 1")
  have "outstanding busy_endpoint = [71, 69]"
    by (simp add: outstanding_def unacknowledged_def in_flight_def busy_endpoint_def blank_endpoint_def
        blank_stream_def unsent_def ring_list_def upt_rec)
  then show ?thesis
    using tcp_transmit_conserves [OF connected_stack_ok _ f] f connected_endpoint by simp
qed

text \<open>
  An acknowledgement number takes exactly the unacknowledged segments it covers off
  the front of their ring, in the circular order of sequence numbers, and leaves the
  stream as it is.
\<close>

lemma tcp_acknowledge_prefix:
  assumes "endpoint_ok e"
  shows "in_flight (acknowledge_loop now ack e) = dropWhile (covers ack) (in_flight e) \<and>
    ep_stream (acknowledge_loop now ack e) = ep_stream e \<and> endpoint_ok (acknowledge_loop now ack e)"
  using acknowledge_loop_drops [OF assms] acknowledge_loop_keeps [of e] assms by (simp add: keeps_def)

lemma tcp_acknowledge_prefix_witness:
  "in_flight (acknowledge_loop 5 7 busy_endpoint) = []"
  using tcp_acknowledge_prefix [OF busy_endpoint_ok, of 5 7]
  by (simp add: in_flight_def busy_endpoint_def blank_endpoint_def)

text \<open>
  The retransmission timeout stays between 100 and 2000 milliseconds whatever round
  trip is measured, and a retransmission never shortens it nor takes it above 2000.
\<close>

lemma tcp_timeout_bounds:
  "100 \<le> ep_tcp_retransmission_timeout_ms (update_retransmission_timeout e t) \<and>
   ep_tcp_retransmission_timeout_ms (update_retransmission_timeout e t) \<le> 2000 \<and>
   backoff x \<le> 2000 \<and> (x \<le> 2000 \<longrightarrow> x \<le> backoff x)"
proof -
  have "backoff x \<le> 2000 \<and> (x \<le> 2000 \<longrightarrow> x \<le> backoff x)"
  proof (cases "x < 1000")
    case True
    then have "unat x < 1000" using unat_mono by fastforce
    then have "unat (x * 2) = 2 * unat x" by (simp add: unat_word_ariths)
    then show ?thesis using True \<open>unat x < 1000\<close> by (simp add: backoff_def word_le_nat_alt)
  qed (simp add: backoff_def)
  then show ?thesis using update_retransmission_timeout_bounds [of e t] by simp
qed

text \<open>
  C25. What is sent is what is received: the frame built for a segment, taken by a stack with
  the segment's destination address, passes the length and checksum tests and reaches
  its TCP as the same segment, with the announced window and, when it opens a
  connection, the local maximum segment size, and with the same payload.
\<close>

theorem tcp_frame_roundtrip:
  assumes "length (sg_source_address seg) = 4" and "length (sg_destination_address seg) = 4"
    and "ip_address s = sg_destination_address seg"
    and "n \<le> length payload" and "34 + tcp_header_length_for seg + n \<le> 1536"
    and "34 + tcp_header_length_for seg + n \<le> len" and "54 \<le> len"
  shows "let f = tcp_frame mac window seg payload n dmac; seg' = sent_segment window seg n;
      s1 = count_segment seg' s; data = drop (34 + tcp_header_length_for seg) f
    in take n data = take n payload \<and>
       handle_frame s f len =
         (case tcp_endpoint_for s1 (sg_destination_port seg) of
            None \<Rightarrow> send_reset_for_segment
              (s1\<lparr>ip_tcp_unknown_port_frames := ip_tcp_unknown_port_frames s1 + 1\<rparr>) seg' (drop 6 f)
          | Some i \<Rightarrow> handle_tcp_segment s1 i seg' data f)"
  using tcp_frame_handled [OF assms(1-5) refl assms(6,7), of mac window dmac]
    tcp_frame_parsed(11) [OF assms(1,2,4,5) refl, of mac window dmac]
  by (simp add: Let_def)

theorem tcp_frame_roundtrip_witness:
  "let f = tcp_frame [2, 0, 0, 0, 0, 2] 512 demo_data_segment [72, 73] 2 [2, 0, 0, 0, 0, 1];
     s1 = count_segment demo_data_segment connected_stack
   in take 2 (drop 54 f) = [72, 73] \<and>
      handle_frame connected_stack f 60 = handle_tcp_segment s1 1 demo_data_segment (drop 54 f) f"
proof -
  have h: "tcp_header_length_for demo_data_segment = 20"
    "sent_segment 512 demo_data_segment 2 = demo_data_segment"
    by (simp_all add: tcp_header_length_for_def sent_segment_def demo_data_segment_def)
  have e: "tcp_endpoint_for (count_segment demo_data_segment connected_stack)
      (sg_destination_port demo_data_segment) = Some 1"
    by (simp add: tcp_endpoint_for_def count_segment_def endpoint_at_def connected_stack_def blank_stack_def
        blank_endpoint_def busy_endpoint_def near_end_def demo_data_segment_def upt_rec)
  show ?thesis
    using tcp_frame_roundtrip [of demo_data_segment connected_stack 2 "[72, 73]" 60 "[2, 0, 0, 0, 0, 2]" 512
        "[2, 0, 0, 0, 0, 1]"]
    unfolding h Let_def e option.case
    by (simp add: demo_data_segment_def connected_stack_def blank_stack_def)
qed

text \<open>
  C27. A datagram one stack sends is received by the endpoint connected to its sender: the
  frame is accepted and its data queued; reading the endpoint with a buffer that is
  large enough returns exactly the bytes sent and empties the queue.
\<close>

theorem udp_datagram_delivered:
  assumes "length (ip_address a) = 4" and "length (ue_peer_address ea) = 4"
    and "n \<le> length d" and "n \<le> 512" and "0 < n"
    and "stack_ok b" and "j < 4" and "ip_address b = ue_peer_address ea"
    and "ue_allocated (udp_at b j)" and "ue_bound (udp_at b j)" and "ue_connected (udp_at b j)"
    and "ue_local_port (udp_at b j) = ue_peer_port ea" and "ue_peer_port (udp_at b j) = ue_local_port ea"
    and "ue_peer_address (udp_at b j) = ip_address a" and "ue_receive_length (udp_at b j) = 0"
    and "42 + n \<le> len" and "n \<le> capacity" and "capacity \<le> length buf"
  shows "case handle_frame b (udp_frame a ea d n) len of
     (ok, b1) \<Rightarrow>
       case arwill_ipv4_udp_receive b1 j (Some buf) capacity of
         (r, out, b2) \<Rightarrow> ok \<and> r = int n \<and> out = Some (take n d @ drop n buf) \<and>
           ue_receive_length (udp_at b2 j) = 0"
proof -
  define f where "f = udp_frame a ea d n"
  note q = udp_frame_queued [OF assms(1-4) f_def assms(6-16)]
  note P = udp_frame_parsed [OF assms(1-4) f_def]
  let ?e = "udp_at b j"
  let ?rx = "copy_into (ue_receive ?e) 0 (drop 42 f) n"
  have j: "j < length (ip_udp_endpoints b)" using assms(6,7) by (simp add: stack_ok_def)
  have l: "length (ue_receive ?e) = 512" using stack_ok_udp [OF assms(6,7)] by (simp add: udp_ok_def)
  have "copy_into buf 0 ?rx n = take n d @ drop n buf"
  proof (rule nth_equalityI)
    fix k assume "k < length (copy_into buf 0 ?rx n)"
    then show "copy_into buf 0 ?rx n ! k = (take n d @ drop n buf) ! k"
      using assms(3,4,17,18) l P(1) arg_cong [OF P(13), of "\<lambda>xs. xs ! k"]
      by (auto simp: nth_copy_into nth_append split: if_splits)
  qed (use assms(3,17,18) in simp)
  then show ?thesis
    using assms(5,7,9,17) j
    by (auto simp: f_def [symmetric] q arwill_ipv4_udp_receive_def udp_endpoint_for_pointer_def Let_def
        find_None_iff udp_at_def with_udp_def)
qed

theorem udp_datagram_delivered_witness:
  "case handle_frame connected_stack
       (udp_frame (connected_stack\<lparr>ip_address := [10, 0, 2, 3]\<rparr>)
         (blank_udp\<lparr>ue_local_port := 5353, ue_peer_port := 53, ue_peer_address := [10, 0, 2, 15]\<rparr>)
         [7, 8, 9] 3) 60 of
     (ok, b1) \<Rightarrow>
       case arwill_ipv4_udp_receive b1 0 (Some [0, 0, 0, 0]) 4 of
         (r, out, b2) \<Rightarrow> ok \<and> r = 3 \<and> out = Some [7, 8, 9, 0]"
  using udp_datagram_delivered [of "connected_stack\<lparr>ip_address := [10, 0, 2, 3]\<rparr>"
      "blank_udp\<lparr>ue_local_port := 5353, ue_peer_port := 53, ue_peer_address := [10, 0, 2, 15]\<rparr>" 3
      "[7, 8, 9]" connected_stack 0 60 4 "[0, 0, 0, 0]"] connected_stack_ok
  by (simp add: udp_at_def connected_stack_def blank_stack_def blank_udp_def split: prod.splits)

end
