(* ===== verification/Ipv4_Print.thy ===== *)
theory Ipv4_Print
  imports Ipv4 Hal
begin

text \<open>
  \<open>arwill_ipv4_print_config\<close> of \<open>kernel/ipv4.c\<close>: the address and the gateway of a
  stack, written to a console one character at a time. The two addresses are
  printed by two different loops; they agree on every byte.
\<close>

definition write_char :: "'c arwill_console option \<Rightarrow> u8 \<Rightarrow> 'c arwill_console option" where
  "write_char console value = arwill_console_write console (Some [value])"

text \<open>The digits of a byte in the order the first loop stores them, the last digit first.\<close>

function address_digits :: "u8 \<Rightarrow> bytes" where
  "address_digits number =
     (48 + number mod 10) # (if number div 10 \<noteq> 0 then address_digits (number div 10) else [])"
  by pat_completeness auto
termination
proof (relation "measure unat")
  fix n :: u8 assume "n div 10 \<noteq> 0"
  then show "(n div 10, n) \<in> measure unat"
    by (cases "n = 0") (auto simp: unat_div unat_gt_0)
qed simp

declare address_digits.simps [simp del]

definition gateway_digits :: "u8 \<Rightarrow> bytes" where
  "gateway_digits value =
     (if value \<ge> 100 then [48 + value div 100] else []) @
     (let number = (if value \<ge> 100 then value mod 100 else value)
      in if number \<ge> 10 \<or> value \<ge> 100 then [48 + number div 10, 48 + number mod 10] else [48 + number])"

definition write_dotted ::
    "(u8 \<Rightarrow> bytes) \<Rightarrow> bytes \<Rightarrow> 'c arwill_console option \<Rightarrow> 'c arwill_console option" where
  "write_dotted digits address console =
     foldl (\<lambda>console index.
         foldl write_char
           (if index \<noteq> 0 then arwill_console_write console (Some (bytes_of ''.'')) else console)
           (digits (address ! index)))
       console [0..<4]"

definition arwill_ipv4_print_config ::
    "('n, 'k) arwill_ipv4_stack \<Rightarrow> 'c arwill_console option \<Rightarrow> 'c arwill_console option" where
  "arwill_ipv4_print_config stack console =
     (if console = None then console
      else
        (let console = arwill_console_write console (Some (bytes_of ''ipv4: ''));
             console = write_dotted (\<lambda>b. rev (address_digits b)) (ip_address stack) console;
             console = arwill_console_write_line console (Some (bytes_of ''/24''));
             console = arwill_console_write console (Some (bytes_of ''gateway: ''));
             console = write_dotted gateway_digits (ip_gateway stack) console
         in arwill_console_write_line console (Some (bytes_of ''''))))"

text \<open>The two printing loops write the same digits.\<close>

lemma gateway_digits_small: "list_all (\<lambda>k. gateway_digits (of_nat k) = rev (address_digits (of_nat k))) [0..<256]"
  by code_simp

lemma gateway_digits_eq: "gateway_digits b = rev (address_digits b)"
proof -
  have "unat b \<in> set [0..<256]" using unat_less_8 [of b] by simp
  with gateway_digits_small have "gateway_digits (of_nat (unat b)) = rev (address_digits (of_nat (unat b)))"
    unfolding list_all_iff by (rule bspec)
  then show ?thesis by simp
qed

lemma dotted_same: "write_dotted gateway_digits a c = write_dotted (\<lambda>b. rev (address_digits b)) a c"
  unfolding gateway_digits_eq [abs_def] ..

end
