(* ===== verification/Memory.thy ===== *)
theory Memory
  imports Arwill_Prelude
begin

text \<open>
  \<open>kernel/memory.c\<close>: the physical page allocator over the usable regions of the
  memory map, and the kernel heap, a first-fit free list whose block headers live
  in the heap itself. A \<open>size_t\<close> is a 64-bit word here because sizes are compared
  and added close to its bounds. The machine's memory is an explicit store that
  gives the block header at every address; the null pointer is the address 0.
\<close>

section \<open>Data\<close>

abbreviation (input) ARWILL_MEMORY_PAGE_SIZE :: u64 where "ARWILL_MEMORY_PAGE_SIZE \<equiv> 4096"
abbreviation (input) ARWILL_PHYSICAL_ALLOCATOR_RANGE_CAPACITY :: nat where
  "ARWILL_PHYSICAL_ALLOCATOR_RANGE_CAPACITY \<equiv> 64"
abbreviation (input) heap_alignment :: u64 where "heap_alignment \<equiv> 16"

datatype arwill_memory_region_type =
    Region_usable | Region_reserved | Region_acpi_reclaimable | Region_acpi_nvs | Region_bad_memory
  | Region_bootloader_reclaimable | Region_executable_and_modules | Region_framebuffer
  | Region_reserved_mapped | Region_unknown

record arwill_memory_region =
  mr_base :: u64
  mr_length :: u64
  mr_type :: arwill_memory_region_type

record arwill_memory_map =
  mm_regions :: "arwill_memory_region list option"
  mm_count :: nat
  mm_truncated :: bool

record arwill_physical_allocator_range =
  pr_next :: u64
  pr_end :: u64

record arwill_physical_allocator =
  pa_ranges :: "arwill_physical_allocator_range list"
  pa_range_count :: nat
  pa_total_pages :: u64
  pa_free_pages :: u64
  pa_allocated_pages :: u64
  pa_allocation_count :: u64

record arwill_physical_allocator_stats =
  ps_page_size :: u64
  ps_total_pages :: u64
  ps_free_pages :: u64
  ps_allocated_pages :: u64
  ps_allocation_count :: u64
  ps_range_count :: nat

record arwill_kernel_heap =
  kh_base :: u64
  kh_size_bytes :: u64
  kh_used_bytes :: u64
  kh_allocation_count :: u64
  kh_free_count :: u64
  kh_failed_allocation_count :: u64
  kh_initialized :: bool

record arwill_kernel_heap_stats =
  hs_size_bytes :: u64
  hs_used_bytes :: u64
  hs_free_bytes :: u64
  hs_allocation_count :: u64
  hs_free_count :: u64
  hs_failed_allocation_count :: u64
  hs_initialized :: bool

record arwill_memory =
  me_map :: arwill_memory_map
  me_physical_allocator :: arwill_physical_allocator
  me_kernel_heap :: arwill_kernel_heap

record heap_block =
  hb_size :: u64
  hb_free :: bool
  hb_next :: u64

type_synonym heap_store = "u64 \<Rightarrow> heap_block"

section \<open>Rounding\<close>

definition align_down :: "u64 \<Rightarrow> u64 \<Rightarrow> u64" where
  "align_down value alignment = value - value mod alignment"

definition align_up :: "u64 \<Rightarrow> u64 \<Rightarrow> u64" where
  "align_up value alignment =
     (let remainder = value mod alignment
      in if remainder = 0 then value
         else if value > UINT64_MAX - (alignment - remainder) then UINT64_MAX
         else value + (alignment - remainder))"

definition saturating_add :: "u64 \<Rightarrow> u64 \<Rightarrow> u64" where
  "saturating_add left right = (if left > UINT64_MAX - right then UINT64_MAX else left + right)"

definition align_size_up :: "u64 \<Rightarrow> u64 \<Rightarrow> u64" where
  "align_size_up value alignment =
     (let remainder = value mod alignment
      in if remainder = 0 then value
         else if value > UINT64_MAX - (alignment - remainder) then UINT64_MAX
         else value + (alignment - remainder))"

section \<open>Physical pages\<close>

definition add_region :: "arwill_physical_allocator \<Rightarrow> arwill_memory_region \<Rightarrow> arwill_physical_allocator" where
  "add_region allocator region =
     (if mr_type region \<noteq> Region_usable then allocator
      else
        (let start = align_up (mr_base region) ARWILL_MEMORY_PAGE_SIZE;
             finish = align_down (saturating_add (mr_base region) (mr_length region)) ARWILL_MEMORY_PAGE_SIZE
         in if finish \<le> start then allocator
            else if pa_range_count allocator \<ge> ARWILL_PHYSICAL_ALLOCATOR_RANGE_CAPACITY then allocator
            else
              (let pages = (finish - start) div ARWILL_MEMORY_PAGE_SIZE
               in allocator\<lparr>pa_ranges := (pa_ranges allocator)[pa_range_count allocator :=
                      \<lparr>pr_next = start, pr_end = finish\<rparr>],
                    pa_range_count := pa_range_count allocator + 1,
                    pa_total_pages := pa_total_pages allocator + pages,
                    pa_free_pages := pa_free_pages allocator + pages\<rparr>)))"

definition physical_allocator_init ::
    "arwill_physical_allocator \<Rightarrow> arwill_memory_region list \<Rightarrow> nat \<Rightarrow> arwill_physical_allocator" where
  "physical_allocator_init allocator regions region_count =
     foldl (\<lambda>allocator index. add_region allocator (regions ! index))
       (allocator\<lparr>pa_range_count := 0, pa_total_pages := 0, pa_free_pages := 0,
          pa_allocated_pages := 0, pa_allocation_count := 0\<rparr>)
       [0..<region_count]"

definition arwill_memory_init ::
    "arwill_memory \<Rightarrow> arwill_memory_region list option \<Rightarrow> nat \<Rightarrow> bool \<Rightarrow> arwill_memory" where
  "arwill_memory_init memory regions region_count truncated =
     (let region_count = (if regions = None then 0 else region_count)
      in memory\<lparr>
           me_map := \<lparr>mm_regions = regions, mm_count = region_count, mm_truncated = truncated\<rparr>,
           me_physical_allocator := physical_allocator_init (me_physical_allocator memory)
             (case regions of None \<Rightarrow> [] | Some rs \<Rightarrow> rs) region_count,
           me_kernel_heap := \<lparr>kh_base = 0, kh_size_bytes = 0, kh_used_bytes = 0,
             kh_allocation_count = 0, kh_free_count = 0, kh_failed_allocation_count = 0,
             kh_initialized = False\<rparr>\<rparr>)"

definition arwill_memory_region_type_name :: "arwill_memory_region_type \<Rightarrow> bytes" where
  "arwill_memory_region_type_name type =
     bytes_of (case type of
       Region_usable \<Rightarrow> ''usable''
     | Region_reserved \<Rightarrow> ''reserved''
     | Region_acpi_reclaimable \<Rightarrow> ''acpi reclaimable''
     | Region_acpi_nvs \<Rightarrow> ''acpi nvs''
     | Region_bad_memory \<Rightarrow> ''bad memory''
     | Region_bootloader_reclaimable \<Rightarrow> ''bootloader reclaimable''
     | Region_executable_and_modules \<Rightarrow> ''kernel/modules''
     | Region_framebuffer \<Rightarrow> ''framebuffer''
     | Region_reserved_mapped \<Rightarrow> ''reserved mapped''
     | Region_unknown \<Rightarrow> ''unknown'')"

definition arwill_physical_allocator_stats :: "arwill_memory option \<Rightarrow> arwill_physical_allocator_stats" where
  "arwill_physical_allocator_stats memory =
     (case memory of
        None \<Rightarrow> \<lparr>ps_page_size = ARWILL_MEMORY_PAGE_SIZE, ps_total_pages = 0, ps_free_pages = 0,
                  ps_allocated_pages = 0, ps_allocation_count = 0, ps_range_count = 0\<rparr>
      | Some m \<Rightarrow>
          (let allocator = me_physical_allocator m
           in \<lparr>ps_page_size = ARWILL_MEMORY_PAGE_SIZE, ps_total_pages = pa_total_pages allocator,
               ps_free_pages = pa_free_pages allocator,
               ps_allocated_pages = pa_allocated_pages allocator,
               ps_allocation_count = pa_allocation_count allocator,
               ps_range_count = pa_range_count allocator\<rparr>))"

text \<open>The page taken from the first range that has one; no page leaves everything as it is.\<close>

definition take_page :: "nat \<Rightarrow> arwill_physical_allocator \<Rightarrow> arwill_physical_allocator" where
  "take_page index allocator =
     allocator\<lparr>pa_ranges := (pa_ranges allocator)[index := (pa_ranges allocator ! index)
          \<lparr>pr_next := pr_next (pa_ranges allocator ! index) + ARWILL_MEMORY_PAGE_SIZE\<rparr>],
       pa_free_pages := pa_free_pages allocator - 1,
       pa_allocated_pages := pa_allocated_pages allocator + 1,
       pa_allocation_count := pa_allocation_count allocator + 1\<rparr>"

definition arwill_physical_allocate_page :: "arwill_memory \<Rightarrow> u64 option \<times> arwill_memory" where
  "arwill_physical_allocate_page memory =
     (let allocator = me_physical_allocator memory
      in case find (\<lambda>index. \<not> pr_next (pa_ranges allocator ! index) \<ge> pr_end (pa_ranges allocator ! index))
             [0..<pa_range_count allocator] of
           None \<Rightarrow> (None, memory)
         | Some index \<Rightarrow>
             (Some (pr_next (pa_ranges allocator ! index)),
              memory\<lparr>me_physical_allocator := take_page index allocator\<rparr>))"

section \<open>The kernel heap\<close>

definition heap_first_block :: "arwill_memory \<Rightarrow> u64" where
  "heap_first_block memory = kh_base (me_kernel_heap memory)"

text \<open>The size of \<open>struct heap_block\<close> with the padding of a 64-bit target is 24 bytes.\<close>

abbreviation (input) sizeof_heap_block :: u64 where "sizeof_heap_block \<equiv> 24"

definition heap_payload_offset :: u64 where
  "heap_payload_offset = align_size_up sizeof_heap_block heap_alignment"

text \<open>
  The loops follow the chain of headers and end only if the chain does: a loop that
  runs forever is \<open>None\<close>.
\<close>

partial_function (option) coalesce_loop :: "heap_store \<Rightarrow> u64 \<Rightarrow> heap_store option" where
  "coalesce_loop store block =
     (if block = 0 \<or> hb_next (store block) = 0 then Some store
      else
        (let next = hb_next (store block)
         in if hb_free (store block) \<and> hb_free (store next) then
              coalesce_loop (store(block := (store block)
                \<lparr>hb_size := hb_size (store block) + (heap_payload_offset + hb_size (store next)),
                 hb_next := hb_next (store next)\<rparr>)) block
            else coalesce_loop store next))"

definition heap_coalesce :: "heap_store \<Rightarrow> arwill_memory \<Rightarrow> heap_store option" where
  "heap_coalesce store memory = coalesce_loop store (heap_first_block memory)"

primrec claim_pages :: "nat \<Rightarrow> u64 option \<Rightarrow> u64 \<Rightarrow> arwill_memory \<Rightarrow> u64 option \<times> arwill_memory" where
  "claim_pages 0 first previous memory = (first, memory)"
| "claim_pages (Suc n) first previous memory =
     (case arwill_physical_allocate_page memory of
        (None, memory) \<Rightarrow> (None, memory)
      | (Some physical, memory) \<Rightarrow>
         (case first of
            None \<Rightarrow> claim_pages n (Some physical) physical memory
          | Some f \<Rightarrow>
              if physical \<noteq> previous + ARWILL_MEMORY_PAGE_SIZE then (None, memory)
              else claim_pages n first physical memory))"

definition arwill_kernel_heap_init ::
    "heap_store \<Rightarrow> arwill_memory \<Rightarrow> u64 \<Rightarrow> u64 \<Rightarrow> bool \<times> heap_store \<times> arwill_memory" where
  "arwill_kernel_heap_init store memory hhdm_offset page_count =
     (if hhdm_offset = 0 \<or> page_count = 0 then (False, store, memory)
      else if kh_initialized (me_kernel_heap memory) then (True, store, memory)
      else if page_count > UINT64_MAX div ARWILL_MEMORY_PAGE_SIZE then (False, store, memory)
      else
        (case claim_pages (unat page_count) None 0 memory of
           (None, memory) \<Rightarrow> (False, store, memory)
         | (Some first_physical, memory) \<Rightarrow>
            (let heap_size = page_count * ARWILL_MEMORY_PAGE_SIZE;
                 first = hhdm_offset + first_physical
             in (True,
                 store(first := \<lparr>hb_size = heap_size - heap_payload_offset, hb_free = True, hb_next = 0\<rparr>),
                 memory\<lparr>me_kernel_heap := \<lparr>kh_base = first, kh_size_bytes = heap_size,
                   kh_used_bytes = 0, kh_allocation_count = 0, kh_free_count = 0,
                   kh_failed_allocation_count = 0, kh_initialized = True\<rparr>\<rparr>))))"

text \<open>The search for the first free block that is large enough: its address, or 0.\<close>

partial_function (option) first_fit :: "heap_store \<Rightarrow> u64 \<Rightarrow> u64 \<Rightarrow> u64 option" where
  "first_fit store aligned_size block =
     (if block = 0 then Some 0
      else if \<not> hb_free (store block) \<or> hb_size (store block) < aligned_size
      then first_fit store aligned_size (hb_next (store block))
      else Some block)"

definition take_block :: "heap_store \<Rightarrow> u64 \<Rightarrow> u64 \<Rightarrow> heap_store" where
  "take_block store block aligned_size =
     (let header_size = heap_payload_offset;
          store = (if hb_size (store block) \<ge> aligned_size + header_size + heap_alignment
            then
              (let next = block + header_size + aligned_size;
                   store = store(next := \<lparr>hb_size = hb_size (store block) - aligned_size - header_size,
                     hb_free = True, hb_next = hb_next (store block)\<rparr>)
               in store(block := (store block)\<lparr>hb_size := aligned_size, hb_next := next\<rparr>))
            else store)
      in store(block := (store block)\<lparr>hb_free := False\<rparr>))"

definition count_failure :: "arwill_memory \<Rightarrow> arwill_memory" where
  "count_failure memory = memory\<lparr>me_kernel_heap := (me_kernel_heap memory)
     \<lparr>kh_failed_allocation_count := kh_failed_allocation_count (me_kernel_heap memory) + 1\<rparr>\<rparr>"

definition arwill_kmalloc ::
    "heap_store \<Rightarrow> arwill_memory \<Rightarrow> u64 \<Rightarrow> (u64 \<times> heap_store \<times> arwill_memory) option" where
  "arwill_kmalloc store memory size_bytes =
     (if \<not> kh_initialized (me_kernel_heap memory) \<or> size_bytes = 0 then Some (0, store, memory)
      else
        (let aligned_size = align_size_up size_bytes heap_alignment
         in if aligned_size = UINT64_MAX then Some (0, store, count_failure memory)
            else
              (case first_fit store aligned_size (heap_first_block memory) of
                 None \<Rightarrow> None
               | Some block \<Rightarrow>
                   if block = 0 then Some (0, store, count_failure memory)
                   else
                     (let store = take_block store block aligned_size; heap = me_kernel_heap memory
                      in Some (block + heap_payload_offset, store,
                           memory\<lparr>me_kernel_heap := heap
                             \<lparr>kh_used_bytes := kh_used_bytes heap + hb_size (store block),
                              kh_allocation_count := kh_allocation_count heap + 1\<rparr>\<rparr>)))))"

definition arwill_kfree ::
    "heap_store \<Rightarrow> arwill_memory \<Rightarrow> u64 \<Rightarrow> (heap_store \<times> arwill_memory) option" where
  "arwill_kfree store memory pointer =
     (if \<not> kh_initialized (me_kernel_heap memory) \<or> pointer = 0 then Some (store, memory)
      else
        (let block = pointer - heap_payload_offset
         in if hb_free (store block) then Some (store, memory)
            else
              (let heap = me_kernel_heap memory;
                   store = store(block := (store block)\<lparr>hb_free := True\<rparr>);
                   used = (if kh_used_bytes heap \<ge> hb_size (store block)
                     then kh_used_bytes heap - hb_size (store block) else 0);
                   memory = memory\<lparr>me_kernel_heap := heap
                     \<lparr>kh_used_bytes := used, kh_free_count := kh_free_count heap + 1\<rparr>\<rparr>
               in case heap_coalesce store memory of
                    None \<Rightarrow> None
                  | Some store \<Rightarrow> Some (store, memory))))"

definition arwill_kernel_heap_stats :: "arwill_memory option \<Rightarrow> arwill_kernel_heap_stats" where
  "arwill_kernel_heap_stats memory =
     (case memory of
        Some m \<Rightarrow>
          (let heap = me_kernel_heap m
           in if \<not> kh_initialized heap
              then \<lparr>hs_size_bytes = 0, hs_used_bytes = 0, hs_free_bytes = 0, hs_allocation_count = 0,
                    hs_free_count = 0, hs_failed_allocation_count = 0, hs_initialized = False\<rparr>
              else \<lparr>hs_size_bytes = kh_size_bytes heap, hs_used_bytes = kh_used_bytes heap,
                    hs_free_bytes = kh_size_bytes heap - kh_used_bytes heap,
                    hs_allocation_count = kh_allocation_count heap, hs_free_count = kh_free_count heap,
                    hs_failed_allocation_count = kh_failed_allocation_count heap,
                    hs_initialized = kh_initialized heap\<rparr>)
      | None \<Rightarrow> \<lparr>hs_size_bytes = 0, hs_used_bytes = 0, hs_free_bytes = 0, hs_allocation_count = 0,
                 hs_free_count = 0, hs_failed_allocation_count = 0, hs_initialized = False\<rparr>)"

end
