(* ===== verification/Memory_Heap.thy ===== *)
theory Memory_Heap
  imports Memory
begin

text \<open>
  The kernel heap refines a list of adjacent blocks. \<open>chain\<close> relates the headers in
  the store to the list, as a linked structure that tiles the heap without gaps; the
  allocator on lists (\<open>place\<close>, \<open>release\<close>, \<open>merge\<close>) is what the pointer code computes.
\<close>

section \<open>The allocator on lists of blocks\<close>

text \<open>A block is its payload size and whether it is free; its header takes 32 bytes.\<close>

type_synonym block = "nat \<times> bool"

primrec span :: "block list \<Rightarrow> nat" where
  "span [] = 0"
| "span (b # bs) = 32 + fst b + span bs"

primrec place :: "nat \<Rightarrow> block list \<Rightarrow> (nat \<times> block list) option" where
  "place sz [] = None"
| "place sz (b # bs) =
     (if \<not> snd b \<or> fst b < sz
      then (case place sz bs of None \<Rightarrow> None | Some (off, bs') \<Rightarrow> Some (32 + fst b + off, b # bs'))
      else Some (0, if fst b \<ge> sz + 48 then (sz, False) # (fst b - sz - 32, True) # bs
                    else (fst b, False) # bs))"

primrec release :: "nat \<Rightarrow> block list \<Rightarrow> block list" where
  "release off [] = []"
| "release off (b # bs) =
     (if off = 0 then (fst b, True) # bs else b # release (off - (32 + fst b)) bs)"

fun merge :: "block list \<Rightarrow> block list" where
  "merge (b # c # bs) =
     (if snd b \<and> snd c then merge ((fst b + (32 + fst c), True) # bs) else b # merge (c # bs))"
| "merge bs = bs"

text \<open>The allocated blocks with their addresses, and the absence of adjacent free ones.\<close>

primrec allocated :: "nat \<Rightarrow> block list \<Rightarrow> (nat \<times> nat) list" where
  "allocated a [] = []"
| "allocated a (b # bs) = (if snd b then [] else [(a, fst b)]) @ allocated (a + 32 + fst b) bs"

fun separated :: "block list \<Rightarrow> bool" where
  "separated (b # c # bs) \<longleftrightarrow> \<not> (snd b \<and> snd c) \<and> separated (c # bs)"
| "separated bs \<longleftrightarrow> True"

definition sized :: "block list \<Rightarrow> bool" where
  "sized bs \<longleftrightarrow> list_all (\<lambda>b. 16 dvd fst b \<and> 16 \<le> fst b) bs"

lemma place_Some:
  assumes "place sz bs = Some (off, bs')"
  shows "span bs' = span bs" "bs \<noteq> []" "bs' \<noteq> []" "off + 32 + sz \<le> span bs"
  using assms by (induction bs arbitrary: off bs') (auto split: if_splits option.splits)

lemma span_merge [simp]: "span (merge bs) = span bs"
  by (induction bs rule: merge.induct) auto

lemma merge_Nil [simp]: "merge bs = [] \<longleftrightarrow> bs = []"
  by (induction bs rule: merge.induct) auto

lemma span_release [simp]: "span (release off bs) = span bs"
  by (induction bs arbitrary: off) auto

lemma allocated_merge [simp]: "allocated a (merge bs) = allocated a bs"
  by (induction bs arbitrary: a rule: merge.induct) (auto simp: add.assoc)

lemma merge_head: "\<exists>d ds. merge (c # bs) = d # ds \<and> snd d = snd c"
proof (induction bs arbitrary: c)
  case (Cons d ds)
  show ?case
  proof (cases "snd c \<and> snd d")
    case True
    then show ?thesis using Cons.IH [of "(fst c + (32 + fst d), True)"] by simp
  next
    case False
    then show ?thesis by (intro exI [of _ c]) auto
  qed
qed simp

lemma separated_merge: "separated (merge bs)"
proof (induction bs rule: merge.induct)
  case (1 b c bs)
  obtain d ds where "merge (c # bs) = d # ds" "snd d = snd c" using merge_head [of c bs] by auto
  then show ?case using 1 by (cases "snd b \<and> snd c") auto
qed auto

lemma merge_separated: "separated bs \<Longrightarrow> merge bs = bs"
  by (induction bs rule: merge.induct) auto

lemma allocated_bounds: "(x, n) \<in> set (allocated a bs) \<Longrightarrow> a \<le> x \<and> x + 32 + n \<le> a + span bs"
  by (induction bs arbitrary: a) (fastforce split: if_splits)+

lemma allocated_disjoint:
  "(x, n) \<in> set (allocated a bs) \<Longrightarrow> (y, m) \<in> set (allocated a bs) \<Longrightarrow>
   (x, n) = (y, m) \<or> x + 32 + n \<le> y \<or> y + 32 + m \<le> x"
  by (induction bs arbitrary: a) (auto split: if_splits dest: allocated_bounds)

text \<open>Placing a block adds one that overlaps none; its size is at least the one asked for.\<close>

lemma place_allocated:
  assumes "place sz bs = Some (off, bs')"
  obtains n where "sz \<le> n" "set (allocated a bs') = insert (a + off, n) (set (allocated a bs))"
    "(a + off, n) \<notin> set (allocated a bs)" "sum_list (map snd (allocated a bs')) = n + sum_list (map snd (allocated a bs))"
  using assms
proof (induction bs arbitrary: a off bs' thesis)
  case (Cons b bs)
  show ?case
  proof (cases "\<not> snd b \<or> fst b < sz")
    case True
    then obtain o1 bs1 where p: "place sz bs = Some (o1, bs1)" "off = 32 + fst b + o1" "bs' = b # bs1"
      using Cons.prems(2) by (auto split: option.splits)
    show ?thesis
      by (rule Cons.IH [OF _ p(1), of "a + 32 + fst b"], rule Cons.prems(1))
        (use p in \<open>auto simp: ac_simps dest: allocated_bounds\<close>)
  next
    case False
    have fresh: "(a, n) \<notin> set (allocated (a + 32 + fst b) bs)" for n
      using allocated_bounds [of a n "a + 32 + fst b" bs] by auto
    show ?thesis
    proof (cases "fst b \<ge> sz + 48")
      case True
      have "a + 32 + sz + 32 + (fst b - sz - 32) = a + 32 + fst b" using True by simp
      then have "allocated a bs' = (a, sz) # allocated (a + 32 + fst b) bs"
        using Cons.prems(2) False True by (auto simp: ac_simps)
      then show ?thesis
        using Cons.prems(2) False fresh by (intro Cons.prems(1) [of sz]) (auto split: if_splits)
    next
      case small: False
      then show ?thesis
        using Cons.prems False fresh by (intro Cons.prems(1) [of "fst b"]) auto
    qed
  qed
qed simp

lemma place_keeps:
  assumes "place sz bs = Some (off, bs')" and "16 dvd sz" and "16 \<le> sz"
  shows "sized bs \<Longrightarrow> sized bs'" and "separated bs \<Longrightarrow> separated bs'"
proof -
  show "sized bs'" if "sized bs"
    using assms that by (induction bs arbitrary: off bs')
      (auto simp: sized_def split: if_splits option.splits intro!: dvd_diff_nat)
  show "separated bs'" if "separated bs"
    using assms(1) that
  proof (induction bs arbitrary: off bs')
    case (Cons b bs)
    have tail: "separated bs" using Cons.prems(2) by (cases bs) auto
    show ?case
    proof (cases "\<not> snd b \<or> fst b < sz")
      case True
      then obtain o1 bs1 where p: "place sz bs = Some (o1, bs1)" "bs' = b # bs1"
        using Cons.prems(1) by (auto split: option.splits)
      have "separated bs1" by (rule Cons.IH [OF p(1) tail])
      moreover have "bs1 \<noteq> [] \<and> bs \<noteq> [] \<and> (snd (hd bs1) \<longrightarrow> snd (hd bs))"
        using p(1) by (cases bs) (auto split: if_splits option.splits)
      ultimately show ?thesis using p(2) Cons.prems(2) by (cases bs; cases bs1) auto
    next
      case False
      then show ?thesis using Cons.prems tail by (cases bs) (auto split: if_splits)
    qed
  qed simp
qed

lemma merge_sized: "sized bs \<Longrightarrow> sized (merge bs)"
  by (induction bs rule: merge.induct) (auto simp: sized_def)

lemma release_sized: "sized bs \<Longrightarrow> sized (release off bs)"
  by (induction bs arbitrary: off) (auto simp: sized_def)

lemma release_allocated:
  "(a + off, n) \<in> set (allocated a bs) \<Longrightarrow>
   set (allocated a (release off bs)) = set (allocated a bs) - {(a + off, n)} \<and>
   n + sum_list (map snd (allocated a (release off bs))) = sum_list (map snd (allocated a bs))"
proof (induction bs arbitrary: a off)
  case (Cons b bs)
  show ?case
  proof (cases "off = 0")
    case True
    have "(a, k) \<notin> set (allocated (a + 32 + fst b) bs)" for k
      using allocated_bounds [of a k "a + 32 + fst b" bs] by auto
    then show ?thesis using Cons.prems True by (auto split: if_splits)
  next
    case False
    then have in_tail: "(a + off, n) \<in> set (allocated (a + 32 + fst b) bs)"
      using Cons.prems by (auto split: if_splits)
    then have "a + 32 + fst b \<le> a + off" using allocated_bounds by blast
    then have o: "a + 32 + fst b + (off - (32 + fst b)) = a + off" by simp
    define r where "r = release (off - (32 + fst b)) bs"
    have ih: "set (allocated (a + 32 + fst b) r) = set (allocated (a + 32 + fst b) bs) - {(a + off, n)}"
      "n + sum_list (map snd (allocated (a + 32 + fst b) r)) =
       sum_list (map snd (allocated (a + 32 + fst b) bs))"
      using Cons.IH [of "a + 32 + fst b" "off - (32 + fst b)", unfolded o, OF in_tail]
      unfolding r_def by blast+
    have rel: "release off (b # bs) = b # r" using False by (simp add: r_def)
    have nh: "(a, fst b) \<noteq> (a + off, n)" using False by simp
    show ?thesis
    proof (cases "snd b")
      case True
      then show ?thesis unfolding rel using ih by simp
    next
      case nonfree: False
      have "insert (a, fst b) (S - {(a + off, n)}) = insert (a, fst b) S - {(a + off, n)}" for S
        using nh by (auto simp: insert_Diff_if)
      then show ?thesis unfolding rel using ih nonfree by simp
    qed
  qed
qed simp

text \<open>Releasing the block just placed gives the list back.\<close>

lemma release_place:
  assumes "place sz bs = Some (off, bs')" and "separated bs"
  shows "merge (release off bs') = bs"
  using assms
proof (induction bs arbitrary: off bs')
  case (Cons b bs)
  have tail: "separated bs" using Cons.prems(2) by (cases bs) auto
  show ?case
  proof (cases "\<not> snd b \<or> fst b < sz")
    case True
    then obtain o1 bs1 where p: "place sz bs = Some (o1, bs1)" "bs' = b # bs1" "off = 32 + fst b + o1"
      using Cons.prems(1) by (auto split: option.splits)
    have m: "merge (release o1 bs1) = bs" by (rule Cons.IH [OF p(1) tail])
    have "release o1 bs1 \<noteq> []" using place_Some [OF p(1)] by (cases bs1) auto
    then obtain c cs where c: "release o1 bs1 = c # cs" by (auto simp: neq_Nil_conv)
    obtain d ds where "merge (c # cs) = d # ds" and d: "snd d = snd c" using merge_head [of c cs] by auto
    then have "bs = d # ds" using m c by simp
    then have "\<not> (snd b \<and> snd c)" using Cons.prems(2) d by simp
    then show ?thesis using p m c by auto
  next
    case False
    then show ?thesis
      using Cons.prems merge_separated [of "b # bs"] by (cases b) (auto split: if_splits)
  qed
qed simp

section \<open>Chains of headers in the store\<close>

text \<open>Addresses and sizes as words.\<close>

definition adr :: "nat \<Rightarrow> u64" where
  "adr n = of_nat n"

primrec chain :: "heap_store \<Rightarrow> nat \<Rightarrow> block list \<Rightarrow> bool" where
  "chain st a [] \<longleftrightarrow> True"
| "chain st a (b # bs) \<longleftrightarrow>
     st (adr a) = \<lparr>hb_size = adr (fst b), hb_free = snd b,
       hb_next = (if bs = [] then 0 else adr (a + 32 + fst b))\<rparr> \<and>
     chain st (a + 32 + fst b) bs"

definition outside :: "heap_store \<Rightarrow> heap_store \<Rightarrow> nat \<Rightarrow> nat \<Rightarrow> bool" where
  "outside st st' a e \<longleftrightarrow> (\<forall>x. \<not> (a \<le> unat x \<and> unat x < e) \<longrightarrow> st' x = st x)"

lemma payload_offset [simp]: "heap_payload_offset = 32"
  by (simp add: heap_payload_offset_def align_size_up_def Let_def)

lemma unat_adr: "n < 18446744073709551616 \<Longrightarrow> unat (adr n) = n"
  by (simp add: adr_def unat_of_nat)

lemma adr_eq:
  "n < 18446744073709551616 \<Longrightarrow> m < 18446744073709551616 \<Longrightarrow> adr n = adr m \<longleftrightarrow> n = m"
  by (metis unat_adr)

lemma adr_less:
  "n < 18446744073709551616 \<Longrightarrow> m < 18446744073709551616 \<Longrightarrow> adr n < adr m \<longleftrightarrow> n < m"
  by (simp add: word_less_nat_alt unat_adr)

lemma adr_zero: "n < 18446744073709551616 \<Longrightarrow> adr n = 0 \<longleftrightarrow> n = 0"
  using adr_eq [of n 0] by (simp add: adr_def)

lemma adr_join: "adr x + (32 + adr y) = adr (x + (32 + y))"
  by (simp add: adr_def)

lemma chain_frame:
  assumes "chain st a bs" and "a + span bs < 18446744073709551616"
    and "\<And>x. a \<le> x \<Longrightarrow> x < a + span bs \<Longrightarrow> st' (adr x) = st (adr x)"
  shows "chain st' a bs"
  using assms
proof (induction bs arbitrary: a)
  case (Cons b bs)
  have "chain st' (a + 32 + fst b) bs"
    using Cons.prems by (intro Cons.IH) (auto simp: add.assoc)
  then show ?case using Cons.prems(1) Cons.prems(3) [of a] by simp
qed simp

lemma chain_outside:
  assumes "chain st a bs" and "a + span bs < 18446744073709551616"
    and "outside st st' lo hi" and "a + span bs \<le> lo \<or> hi \<le> a"
  shows "chain st' a bs"
proof (rule chain_frame [OF assms(1,2)])
  fix x assume "a \<le> x" "x < a + span bs"
  then show "st' (adr x) = st (adr x)"
    using assms(2-4) unat_adr [of x] by (auto simp: outside_def)
qed

lemma outside_at:
  "outside st st' lo hi \<Longrightarrow> x < lo \<or> hi \<le> x \<Longrightarrow> x < 18446744073709551616 \<Longrightarrow>
   st' (adr x) = st (adr x)"
  using unat_adr [of x] by (auto simp: outside_def)

lemma outside_weaken: "outside st st' lo hi \<Longrightarrow> lo' \<le> lo \<Longrightarrow> hi \<le> hi' \<Longrightarrow> outside st st' lo' hi'"
  by (auto simp: outside_def)

lemma outside_trans: "outside st st1 lo hi \<Longrightarrow> outside st1 st' lo hi \<Longrightarrow> outside st st' lo hi"
  by (simp add: outside_def)

lemma outside_upd:
  "lo \<le> x \<Longrightarrow> x < hi \<Longrightarrow> x < 18446744073709551616 \<Longrightarrow> outside st (st(adr x := v)) lo hi"
  using unat_adr [of x] by (auto simp: outside_def)

text \<open>The search ends, at the block the list allocator chooses.\<close>

lemma first_fit_place:
  assumes "chain st a bs" and "0 < a" and "a + span bs < 18446744073709551616"
    and "sz < 18446744073709551616"
  shows "first_fit st (adr sz) (if bs = [] then 0 else adr a) =
    Some (case place sz bs of None \<Rightarrow> 0 | Some (off, bs') \<Rightarrow> adr (a + off))"
  using assms(1-3)
proof (induction bs arbitrary: a)
  case Nil
  then show ?case by (subst first_fit.simps) simp
next
  case (Cons b bs)
  have nz: "adr a \<noteq> 0" using Cons.prems adr_zero [of a] by simp
  have h: "st (adr a) = \<lparr>hb_size = adr (fst b), hb_free = snd b,
      hb_next = (if bs = [] then 0 else adr (a + 32 + fst b))\<rparr>"
    using Cons.prems(1) by simp
  have lt: "adr (fst b) < adr sz \<longleftrightarrow> fst b < sz"
    using Cons.prems(3) assms(4) by (intro adr_less) simp_all
  have ih: "first_fit st (adr sz) (if bs = [] then 0 else adr (a + 32 + fst b)) =
      Some (case place sz bs of None \<Rightarrow> 0 | Some (off, bs') \<Rightarrow> adr (a + 32 + fst b + off))"
    using Cons.prems by (intro Cons.IH) simp_all
  show ?case
  proof (cases "\<not> snd b \<or> fst b < sz")
    case True
    then have "first_fit st (adr sz) (adr a) =
        first_fit st (adr sz) (if bs = [] then 0 else adr (a + 32 + fst b))"
      by (subst first_fit.simps) (simp add: nz h lt)
    then show ?thesis using True ih by (auto split: option.splits simp: ac_simps)
  next
    case False
    then show ?thesis by (subst first_fit.simps) (auto simp: nz h lt)
  qed
qed

text \<open>Taking the chosen block changes the chain as the list allocator does.\<close>

lemma take_block_head:
  assumes ch: "chain st a (b # bs)" and a: "16 \<le> a" and fit: "a + span (b # bs) < 18446744073709551616"
    and b: "snd b" "sz \<le> fst b"
  shows "chain (take_block st (adr a) (adr sz)) a
      (if fst b \<ge> sz + 48 then (sz, False) # (fst b - sz - 32, True) # bs else (fst b, False) # bs)"
    and "outside st (take_block st (adr a) (adr sz)) a (a + span (b # bs))"
proof -
  let ?st = "take_block st (adr a) (adr sz)"
  let ?nx = "if bs = [] then 0 else adr (a + 32 + fst b) :: u64"
  have h: "st (adr a) = \<lparr>hb_size = adr (fst b), hb_free = snd b, hb_next = ?nx\<rparr>"
    and tl: "chain st (a + 32 + fst b) bs"
    using ch by simp_all
  have tfit: "a + 32 + fst b + span bs < 18446744073709551616" using fit by simp
  have w: "adr sz + 32 + 16 = adr (sz + 48)" by (simp add: adr_def)
  have le: "adr (sz + 48) \<le> adr (fst b) \<longleftrightarrow> sz + 48 \<le> fst b"
    using adr_less [of "fst b" "sz + 48"] fit a b(2) by (simp add: not_less [symmetric])
  have nxt: "adr a + 32 + adr sz = adr (a + 32 + sz)" by (simp add: adr_def)
  have ne: "adr (a + 32 + sz) \<noteq> adr a"
    using adr_eq [of "a + 32 + sz" a] fit b(2) by simp
  have split: "?st = st(adr (a + 32 + sz) := \<lparr>hb_size = adr (fst b - sz - 32), hb_free = True, hb_next = ?nx\<rparr>,
      adr a := \<lparr>hb_size = adr sz, hb_free = False, hb_next = adr (a + 32 + sz)\<rparr>)"
    if "sz + 48 \<le> fst b"
  proof -
    have "adr (fst b) - adr sz - 32 = adr (fst b - sz - 32)"
      using that by (simp add: adr_def of_nat_diff)
    then show ?thesis
      using that le ne unfolding take_block_def Let_def payload_offset w nxt by (simp add: fun_eq_iff h)
  qed
  have whole: "?st = st(adr a := \<lparr>hb_size = adr (fst b), hb_free = False, hb_next = ?nx\<rparr>)"
    if "\<not> sz + 48 \<le> fst b"
    using that le unfolding take_block_def Let_def payload_offset w by (simp add: fun_eq_iff h)
  have out: "outside st ?st a (a + (if sz + 48 \<le> fst b then 33 + sz else 1))"
    using split whole fit b(2)
    by (auto intro!: outside_trans [OF outside_upd outside_upd] outside_upd)
  show "outside st ?st a (a + span (b # bs))"
    by (rule outside_weaken [OF out]) (use b(2) in simp_all)
  have tail: "chain ?st (a + 32 + fst b) bs"
    by (rule chain_outside [OF tl tfit out]) (use b(2) in simp)
  have ad: "a + 32 + sz + 32 + (fst b - sz - 32) = a + 32 + fst b" if "sz + 48 \<le> fst b"
    using that by simp
  show "chain ?st a
      (if fst b \<ge> sz + 48 then (sz, False) # (fst b - sz - 32, True) # bs else (fst b, False) # bs)"
  proof (cases "sz + 48 \<le> fst b")
    case True
    have "?st (adr a) = \<lparr>hb_size = adr sz, hb_free = False, hb_next = adr (a + 32 + sz)\<rparr>"
      "?st (adr (a + 32 + sz)) = \<lparr>hb_size = adr (fst b - sz - 32), hb_free = True, hb_next = ?nx\<rparr>"
      using ne by (simp_all add: split [OF True])
    then have "chain ?st a ((sz, False) # (fst b - sz - 32, True) # bs)"
      using tail unfolding chain.simps fst_conv snd_conv ad [OF True] by simp
    then show ?thesis using True by simp
  next
    case False
    have "?st (adr a) = \<lparr>hb_size = adr (fst b), hb_free = False, hb_next = ?nx\<rparr>"
      by (simp add: whole [OF False])
    then show ?thesis using False tail by simp
  qed
qed

lemma take_block_place:
  assumes "chain st a bs" and "16 \<le> a" and "a + span bs < 18446744073709551616"
    and "place sz bs = Some (off, bs')"
  shows "chain (take_block st (adr (a + off)) (adr sz)) a bs' \<and>
    outside st (take_block st (adr (a + off)) (adr sz)) a (a + span bs)"
  using assms
proof (induction bs arbitrary: a off bs')
  case (Cons b bs)
  show ?case
  proof (cases "\<not> snd b \<or> fst b < sz")
    case True
    then obtain o1 bs1 where p: "place sz bs = Some (o1, bs1)" "off = 32 + fst b + o1" "bs' = b # bs1"
      using Cons.prems(4) by (auto split: option.splits)
    let ?a = "a + 32 + fst b"
    define st' where "st' = take_block st (adr (?a + o1)) (adr sz)"
    have off: "take_block st (adr (a + off)) (adr sz) = st'" by (simp add: st'_def p(2) add.assoc)
    have ih: "chain st' ?a bs1 \<and> outside st st' ?a (?a + span bs)"
      unfolding st'_def using Cons.prems p(1) by (intro Cons.IH) simp_all
    have "st' (adr a) = st (adr a)"
      by (rule outside_at [OF conjunct2 [OF ih]]) (use Cons.prems(3) in simp_all)
    moreover have "outside st st' a (a + span (b # bs))"
      by (rule outside_weaken [OF conjunct2 [OF ih]]) simp_all
    moreover have "bs \<noteq> []" "bs1 \<noteq> []" using place_Some [OF p(1)] by simp_all
    ultimately show ?thesis unfolding off using ih Cons.prems(1) p(3) by simp
  next
    case False
    then show ?thesis
      using Cons.prems take_block_head [OF Cons.prems(1-3), of sz] by auto
  qed
qed simp

text \<open>Marking a block free, and joining adjacent free blocks.\<close>

lemma release_chain:
  assumes "chain st a bs" and "a + span bs < 18446744073709551616"
    and "(a + off, n) \<in> set (allocated a bs)"
  shows "chain (st(adr (a + off) := (st (adr (a + off)))\<lparr>hb_free := True\<rparr>)) a (release off bs) \<and>
    hb_size (st (adr (a + off))) = adr n \<and> \<not> hb_free (st (adr (a + off)))"
  using assms
proof (induction bs arbitrary: a off)
  case (Cons b bs)
  let ?a = "a + 32 + fst b"
  have tl: "chain st ?a bs" and tfit: "?a + span bs < 18446744073709551616"
    using Cons.prems(1,2) by simp_all
  show ?case
  proof (cases "off = 0")
    case True
    have "(a, n) \<notin> set (allocated ?a bs)" using allocated_bounds [of a n ?a bs] by auto
    then have "\<not> snd b" "n = fst b" using Cons.prems(3) True by (auto split: if_splits)
    moreover define st1 where "st1 = st(adr a := (st (adr a))\<lparr>hb_free := True\<rparr>)"
    have "outside st st1 a (a + 1)"
      unfolding st1_def using Cons.prems(2) by (intro outside_upd) simp_all
    from chain_outside [OF tl tfit this] have "chain st1 ?a bs" by simp
    moreover have "st1 (adr a) = (st (adr a))\<lparr>hb_free := True\<rparr>" by (simp add: st1_def)
    moreover have "st(adr (a + off) := (st (adr (a + off)))\<lparr>hb_free := True\<rparr>) = st1"
      using True by (simp add: st1_def)
    ultimately show ?thesis using Cons.prems(1) True by simp
  next
    case False
    then have in_tail: "(a + off, n) \<in> set (allocated ?a bs)"
      using Cons.prems(3) by (auto split: if_splits)
    then have ge: "?a \<le> a + off" and lt: "a + off < ?a + span bs" using allocated_bounds by fastforce+
    then have o: "?a + (off - (32 + fst b)) = a + off" by simp
    define st1 where "st1 = st(adr (a + off) := (st (adr (a + off)))\<lparr>hb_free := True\<rparr>)"
    have ih: "chain st1 ?a (release (off - (32 + fst b)) bs) \<and>
      hb_size (st (adr (a + off))) = adr n \<and> \<not> hb_free (st (adr (a + off)))"
      unfolding st1_def
      using Cons.IH [OF tl tfit, of "off - (32 + fst b)", unfolded o, OF in_tail] .
    have ne: "adr (a + off) \<noteq> adr a"
      using adr_eq [of "a + off" a] lt tfit False by simp
    have "st1 (adr a) = st (adr a)" using ne by (simp add: st1_def)
    moreover have "release (off - (32 + fst b)) bs = [] \<longleftrightarrow> bs = []" by (cases bs) simp_all
    ultimately show ?thesis unfolding st1_def [symmetric] using ih Cons.prems(1) False by simp
  qed
qed simp

lemma coalesce_chain:
  assumes "chain st a bs" and "0 < a" and "a + span bs < 18446744073709551616"
  shows "\<exists>st'. coalesce_loop st (if bs = [] then 0 else adr a) = Some st' \<and> chain st' a (merge bs) \<and>
    outside st st' a (a + span bs)"
  using assms
proof (induction bs arbitrary: st a rule: merge.induct)
  case (1 b c bs)
  let ?a = "a + 32 + fst b"
  have nz: "adr a \<noteq> 0" and nz': "adr ?a \<noteq> 0"
    using "1.prems" adr_zero [of a] adr_zero [of ?a] by simp_all
  have h: "st (adr a) = \<lparr>hb_size = adr (fst b), hb_free = snd b, hb_next = adr ?a\<rparr>"
    and h': "st (adr ?a) = \<lparr>hb_size = adr (fst c), hb_free = snd c,
      hb_next = (if bs = [] then 0 else adr (?a + 32 + fst c))\<rparr>"
    and tl: "chain st (?a + 32 + fst c) bs"
    using "1.prems"(1) by simp_all
  have nx: "hb_next (st (adr a)) = adr ?a" by (simp add: h)
  show ?case
  proof (cases "snd b \<and> snd c")
    case True
    define st1 where "st1 = st(adr a := \<lparr>hb_size = adr (fst b + (32 + fst c)), hb_free = True,
        hb_next = (if bs = [] then 0 else adr (a + 32 + (fst b + (32 + fst c))))\<rparr>)"
    have up: "st(adr a := (st (adr a))\<lparr>hb_size := hb_size (st (adr a)) +
        (heap_payload_offset + hb_size (st (adr ?a))), hb_next := hb_next (st (adr ?a))\<rparr>) = st1"
      unfolding h h' st1_def using True adr_join [of "fst b" "fst c"] by (simp add: add.assoc)
    have step: "coalesce_loop st (adr a) = coalesce_loop st1 (adr a)"
      unfolding coalesce_loop.simps [of st "adr a"] Let_def nx up using True nz nz' h h' by simp
    have out1: "outside st st1 a (a + 1)"
      unfolding st1_def using "1.prems"(3) by (intro outside_upd) simp_all
    have "chain st1 (?a + 32 + fst c) bs"
      by (rule chain_outside [OF tl _ out1]) (use "1.prems"(3) in simp_all)
    then have ch1: "chain st1 a ((fst b + (32 + fst c), True) # bs)"
      by (simp add: st1_def ac_simps)
    obtain st' where s: "coalesce_loop st1 (adr a) = Some st'"
      "chain st' a (merge ((fst b + (32 + fst c), True) # bs))"
      "outside st1 st' a (a + span ((fst b + (32 + fst c), True) # bs))"
      using "1.IH"(1) [OF True ch1 "1.prems"(2)] "1.prems"(3) by auto
    have "outside st st' a (a + span (b # c # bs))"
      by (rule outside_trans [OF outside_weaken [OF out1] outside_weaken [OF s(3)]]) simp_all
    then show ?thesis using s step True by simp
  next
    case False
    have step: "coalesce_loop st (adr a) = coalesce_loop st (adr ?a)"
      using False by (subst coalesce_loop.simps) (auto simp: Let_def nz nz' h h')
    obtain st' where s: "coalesce_loop st (adr ?a) = Some st'" "chain st' ?a (merge (c # bs))"
      "outside st st' ?a (?a + span (c # bs))"
      using "1.IH"(2) [OF False, of st ?a] "1.prems" by auto
    have "st' (adr a) = st (adr a)"
      by (rule outside_at [OF s(3)]) (use "1.prems"(3) in simp_all)
    moreover have "outside st st' a (a + span (b # c # bs))"
      by (rule outside_weaken [OF s(3)]) simp_all
    ultimately show ?thesis using s step False h by auto
  qed
next
  case "2_1"
  show ?case by (subst coalesce_loop.simps) (simp add: outside_def)
next
  case "2_2"
  then show ?case by (subst coalesce_loop.simps) (simp add: outside_def)
qed

end
