(* ===== verification/Memory_Properties.thy ===== *)
theory Memory_Properties
  imports Memory_Heap
begin

text \<open>
  Correctness of the page allocator and of the kernel heap: the pages handed out
  are distinct whole pages of usable memory, and the heap hands out disjoint,
  aligned, sufficiently large pieces of itself, gives them back, and keeps its count.
\<close>

section \<open>Physical pages\<close>

text \<open>The pages an allocator can still hand out, and its invariant.\<close>

definition page_set :: "arwill_physical_allocator \<Rightarrow> nat set" where
  "page_set al = {p. \<exists>i<pa_range_count al. unat (pr_next (pa_ranges al ! i)) \<le> p \<and>
     p < unat (pr_end (pa_ranges al ! i)) \<and> 4096 dvd p}"

definition range_ok :: "arwill_physical_allocator_range \<Rightarrow> bool" where
  "range_ok r \<longleftrightarrow> unat (pr_next r) \<le> unat (pr_end r) \<and> 4096 dvd unat (pr_next r) \<and> 4096 dvd unat (pr_end r)"

definition apart :: "arwill_physical_allocator_range \<Rightarrow> arwill_physical_allocator_range \<Rightarrow> bool" where
  "apart r r' \<longleftrightarrow> unat (pr_end r) \<le> unat (pr_next r') \<or> unat (pr_end r') \<le> unat (pr_next r)"

definition allocator_ok :: "arwill_physical_allocator \<Rightarrow> bool" where
  "allocator_ok al \<longleftrightarrow> length (pa_ranges al) = 64 \<and> pa_range_count al \<le> 64 \<and>
     (\<forall>i<pa_range_count al. range_ok (pa_ranges al ! i)) \<and>
     (\<forall>i<pa_range_count al. \<forall>j<pa_range_count al. i \<noteq> j \<longrightarrow> apart (pa_ranges al ! i) (pa_ranges al ! j)) \<and>
     pa_free_pages al + pa_allocated_pages al = pa_total_pages al"

lemma page_step:
  assumes "range_ok r" and "unat (pr_next r) < unat (pr_end r)"
  shows "unat (pr_next r + 4096) = unat (pr_next r) + 4096" "range_ok (r\<lparr>pr_next := pr_next r + 4096\<rparr>)"
proof -
  have "4096 dvd unat (pr_end r) - unat (pr_next r)" using assms(1) by (simp add: range_ok_def dvd_diff_nat)
  then have "4096 \<le> unat (pr_end r) - unat (pr_next r)" using assms(2) by (intro dvd_imp_le) simp_all
  then have le: "unat (pr_next r) + 4096 \<le> unat (pr_end r)" by simp
  then have "unat (pr_next r) + unat (4096 :: u64) < 18446744073709551616"
    using unat_less_64 [of "pr_end r"] by simp
  then show s: "unat (pr_next r + 4096) = unat (pr_next r) + 4096" by (simp add: unat_add_64)
  show "range_ok (r\<lparr>pr_next := pr_next r + 4096\<rparr>)"
    using assms(1) le s by (simp add: range_ok_def)
qed

lemma take_page_set:
  assumes ok: "allocator_ok al" and i: "i < pa_range_count al"
    and room: "unat (pr_next (pa_ranges al ! i)) < unat (pr_end (pa_ranges al ! i))"
  shows "page_set (take_page i al) = page_set al - {unat (pr_next (pa_ranges al ! i))}"
    and "unat (pr_next (pa_ranges al ! i)) \<in> page_set al" and "allocator_ok (take_page i al)"
proof -
  let ?r = "pa_ranges al ! i"
  let ?r' = "?r\<lparr>pr_next := pr_next ?r + 4096\<rparr>"
  have rok: "range_ok ?r" and l: "i < length (pa_ranges al)" using ok i by (auto simp: allocator_ok_def)
  note s = page_step [OF rok room]
  have at: "pa_ranges (take_page i al) ! j = (if j = i then ?r' else pa_ranges al ! j)" for j
    using l by (simp add: take_page_def nth_list_update)
  have cnt [simp]: "pa_range_count (take_page i al) = pa_range_count al" by (simp add: take_page_def)
  have p: "4096 dvd unat (pr_next ?r)" using rok by (simp add: range_ok_def)
  show mem: "unat (pr_next ?r) \<in> page_set al" using i room p by (auto simp: page_set_def)
  have step: "unat (pr_next ?r) + 4096 \<le> q \<longleftrightarrow> unat (pr_next ?r) \<le> q \<and> q \<noteq> unat (pr_next ?r)"
    if "4096 dvd q" for q
  proof
    assume *: "unat (pr_next ?r) \<le> q \<and> q \<noteq> unat (pr_next ?r)"
    have "4096 dvd q - unat (pr_next ?r)" using that p by (simp add: dvd_diff_nat)
    then have "4096 \<le> q - unat (pr_next ?r)" using * by (intro dvd_imp_le) auto
    then show "unat (pr_next ?r) + 4096 \<le> q" using * by linarith
  qed auto
  have other: "\<not> (unat (pr_next (pa_ranges al ! j)) \<le> unat (pr_next ?r) \<and>
      unat (pr_next ?r) < unat (pr_end (pa_ranges al ! j)))"
    if "j < pa_range_count al" "j \<noteq> i" for j
    using ok i that room unfolding allocator_ok_def apart_def by (meson leD le_less_trans less_le_trans)
  show "page_set (take_page i al) = page_set al - {unat (pr_next ?r)}"
  proof (intro set_eqI iffI)
    fix q assume "q \<in> page_set (take_page i al)"
    then obtain j where j: "j < pa_range_count al" "4096 dvd q"
      "unat (pr_next (pa_ranges (take_page i al) ! j)) \<le> q" "q < unat (pr_end (pa_ranges (take_page i al) ! j))"
      by (auto simp: page_set_def)
    show "q \<in> page_set al - {unat (pr_next ?r)}"
    proof (cases "j = i")
      case True
      then show ?thesis using j step [OF j(2)] s(1) by (auto simp: page_set_def at)
    next
      case False
      then show ?thesis using j other [OF j(1) False] by (auto simp: page_set_def at)
    qed
  next
    fix q assume q: "q \<in> page_set al - {unat (pr_next ?r)}"
    then obtain j where j: "j < pa_range_count al" "4096 dvd q"
      "unat (pr_next (pa_ranges al ! j)) \<le> q" "q < unat (pr_end (pa_ranges al ! j))"
      by (auto simp: page_set_def)
    then have "unat (pr_next (pa_ranges (take_page i al) ! j)) \<le> q \<and>
        q < unat (pr_end (pa_ranges (take_page i al) ! j))"
      using step [OF j(2)] s(1) q by (auto simp: at)
    then show "q \<in> page_set (take_page i al)" using j by (auto simp: page_set_def)
  qed
  have grow: "unat (pr_next (pa_ranges al ! j)) \<le> unat (pr_next (pa_ranges (take_page i al) ! j))"
    "pr_end (pa_ranges (take_page i al) ! j) = pr_end (pa_ranges al ! j)" for j
    using s(1) by (simp_all add: at)
  have ap: "apart (pa_ranges (take_page i al) ! j) (pa_ranges (take_page i al) ! k)"
    if "j < pa_range_count al" "k < pa_range_count al" "j \<noteq> k" for j k
  proof -
    have "apart (pa_ranges al ! j) (pa_ranges al ! k)" using ok that by (simp add: allocator_ok_def)
    then show ?thesis using grow [of j] grow [of k] by (auto simp: apart_def)
  qed
  have "\<forall>j<pa_range_count al. range_ok (pa_ranges (take_page i al) ! j)"
    using ok s(2) by (simp add: allocator_ok_def at)
  moreover have "length (pa_ranges (take_page i al)) = 64"
    "pa_free_pages (take_page i al) + pa_allocated_pages (take_page i al) = pa_total_pages (take_page i al)"
    using ok by (simp_all add: allocator_ok_def take_page_def)
  ultimately show "allocator_ok (take_page i al)"
    using ok ap by (simp add: allocator_ok_def)
qed

lemma allocate_page_cases:
  assumes ok: "allocator_ok (me_physical_allocator m)"
    and a: "arwill_physical_allocate_page m = (r, m')"
  shows "case r of
      None \<Rightarrow> page_set (me_physical_allocator m) = {} \<and> m' = m
    | Some p \<Rightarrow> unat p \<in> page_set (me_physical_allocator m) \<and>
        page_set (me_physical_allocator m') = page_set (me_physical_allocator m) - {unat p} \<and>
        allocator_ok (me_physical_allocator m') \<and> me_kernel_heap m' = me_kernel_heap m \<and>
        pa_allocated_pages (me_physical_allocator m') = pa_allocated_pages (me_physical_allocator m) + 1"
proof -
  let ?al = "me_physical_allocator m"
  let ?P = "\<lambda>i. \<not> pr_end (pa_ranges ?al ! i) \<le> pr_next (pa_ranges ?al ! i)"
  show ?thesis
  proof (cases "find ?P [0..<pa_range_count ?al]")
    case None
    then have "unat (pr_end (pa_ranges ?al ! i)) \<le> unat (pr_next (pa_ranges ?al ! i))"
      if "i < pa_range_count ?al" for i
      using that by (auto simp: find_None_iff word_le_nat_alt)
    then have "page_set ?al = {}" by (fastforce simp: page_set_def)
    then show ?thesis using a None by (auto simp: arwill_physical_allocate_page_def Let_def)
  next
    case (Some i)
    then have i: "i < pa_range_count ?al" "?P i" by (auto simp: find_Some_iff)
    then have room: "unat (pr_next (pa_ranges ?al ! i)) < unat (pr_end (pa_ranges ?al ! i))"
      by (simp add: word_le_nat_alt)
    have "r = Some (pr_next (pa_ranges ?al ! i))" "m' = m\<lparr>me_physical_allocator := take_page i ?al\<rparr>"
      using a Some by (auto simp: arwill_physical_allocate_page_def Let_def)
    then show ?thesis
      using take_page_set [OF ok i(1) room] by (simp add: take_page_def)
  qed
qed

section \<open>The allocator of a memory map\<close>

lemma align_down_page:
  "4096 dvd unat (align_down v 4096)" "unat (align_down v 4096) \<le> unat v"
proof -
  have "v mod 4096 \<le> v" by (simp add: word_le_nat_alt unat_mod_distrib)
  then have "unat (align_down v 4096) = unat v - unat v mod 4096"
    unfolding align_down_def by (simp add: unat_sub unat_mod_distrib)
  then show "4096 dvd unat (align_down v 4096)" "unat (align_down v 4096) \<le> unat v"
    by (simp_all add: minus_mod_eq_mult_div)
qed

lemma align_up_word:
  assumes "2 \<le> unat a"
  shows "unat (align_up v a) = unat v + (unat a - unat v mod unat a) mod unat a \<and>
      unat a dvd unat (align_up v a) \<or>
    align_up v a = UINT64_MAX \<and> unat v + (unat a - unat v mod unat a) \<ge> 18446744073709551616"
proof -
  let ?r = "unat v mod unat a"
  have r: "unat (v mod a) = ?r" by (simp add: unat_mod_distrib)
  have lt: "?r < unat a" using assms by simp
  have d: "unat (a - v mod a) = unat a - ?r"
    using lt by (simp add: unat_sub word_le_nat_alt r)
  show ?thesis
  proof (cases "v mod a = 0")
    case True
    then have "?r = 0" using r by simp
    then show ?thesis using True assms by (auto simp: align_up_def Let_def)
  next
    case False
    then have pos: "0 < ?r" using r unat_eq_zero [of "v mod a"] by simp
    show ?thesis
    proof (cases "v \<le> UINT64_MAX - (a - v mod a)")
      case fits: True
      then have no: "unat v + (unat a - ?r) < 18446744073709551616" by (simp add: max_sub_le d)
      have eq: "align_up v a = v + (a - v mod a)" using False fits by (auto simp: align_up_def Let_def dest: leD)
      have u: "unat (align_up v a) = unat v + (unat a - ?r)"
        unfolding eq using no d by (subst unat_add_64) simp_all
      have "unat v + (unat a - ?r) = unat v div unat a * unat a + unat a"
        using lt div_mult_mod_eq [of "unat v" "unat a"] by linarith
      moreover have "(unat a - ?r) mod unat a = unat a - ?r" using pos lt by simp
      ultimately show ?thesis using u by simp
    next
      case over: False
      then have "unat v + (unat a - ?r) \<ge> 18446744073709551616" by (simp add: max_sub_le d not_less)
      then show ?thesis using False over by (simp add: align_up_def Let_def not_le)
    qed
  qed
qed

lemma align_up_ge: "2 \<le> unat a \<Longrightarrow> unat v \<le> unat (align_up v a)"
  using align_up_word [of a v] unat_less_64 [of v] by (auto simp: unat_max64)

lemma saturating_add_le: "unat (saturating_add a b) \<le> unat a + unat b"
proof (cases "a \<le> UINT64_MAX - b")
  case True
  then show ?thesis using max_sub_le [of a b] by (auto simp: saturating_add_def unat_add_64 dest: leD)
next
  case False
  then show ?thesis using max_sub_le [of a b] by (simp add: saturating_add_def unat_max64 not_le)
qed

text \<open>The ranges come from usable regions that do not overlap.\<close>

definition usable_disjoint :: "arwill_memory_region list \<Rightarrow> nat \<Rightarrow> bool" where
  "usable_disjoint rs n \<longleftrightarrow>
     (\<forall>i<n. \<forall>j<n. i \<noteq> j \<and> mr_type (rs ! i) = Region_usable \<and> mr_type (rs ! j) = Region_usable \<longrightarrow>
        unat (mr_base (rs ! i)) + unat (mr_length (rs ! i)) \<le> unat (mr_base (rs ! j)) \<or>
        unat (mr_base (rs ! j)) + unat (mr_length (rs ! j)) \<le> unat (mr_base (rs ! i)))"

definition within :: "arwill_physical_allocator_range \<Rightarrow> arwill_memory_region \<Rightarrow> bool" where
  "within r g \<longleftrightarrow> mr_type g = Region_usable \<and> unat (mr_base g) \<le> unat (pr_next r) \<and>
     unat (pr_end r) \<le> unat (mr_base g) + unat (mr_length g)"

definition ranges_from :: "arwill_physical_allocator \<Rightarrow> arwill_memory_region list \<Rightarrow> nat \<Rightarrow> bool" where
  "ranges_from al rs k \<longleftrightarrow> (\<forall>i<pa_range_count al. \<exists>j<k. within (pa_ranges al ! i) (rs ! j))"

lemma add_region_ok:
  assumes ok: "allocator_ok al" and from_k: "ranges_from al rs k" and dis: "usable_disjoint rs n" and k: "k < n"
    and fresh: "pa_allocated_pages al = 0"
  shows "allocator_ok (add_region al (rs ! k))" "ranges_from (add_region al (rs ! k)) rs (Suc k)"
    "pa_allocated_pages (add_region al (rs ! k)) = 0"
proof -
  let ?g = "rs ! k"
  let ?s = "align_up (mr_base ?g) 4096"
  let ?e = "align_down (saturating_add (mr_base ?g) (mr_length ?g)) 4096"
  let ?c = "pa_range_count al"
  let ?new = "\<lparr>pr_next = ?s, pr_end = ?e\<rparr>"
  have keep: "ranges_from al rs (Suc k)" using from_k unfolding ranges_from_def by (meson less_SucI)
  show "pa_allocated_pages (add_region al ?g) = 0" using fresh by (simp add: add_region_def Let_def)
  have both: "allocator_ok (add_region al ?g) \<and> ranges_from (add_region al ?g) rs (Suc k)"
  proof (cases "mr_type ?g \<noteq> Region_usable \<or> ?e \<le> ?s \<or> ?c \<ge> 64")
    case True
    then have "add_region al ?g = al" by (auto simp: add_region_def Let_def)
    then show ?thesis using ok keep by simp
  next
    case False
    then have us: "mr_type ?g = Region_usable" and lt: "unat ?s < unat ?e" and c: "?c < 64"
      by (auto simp: word_le_nat_alt not_le)
    have al': "add_region al ?g = al\<lparr>pa_ranges := (pa_ranges al)[?c := ?new], pa_range_count := ?c + 1,
        pa_total_pages := pa_total_pages al + (?e - ?s) div 4096,
        pa_free_pages := pa_free_pages al + (?e - ?s) div 4096\<rparr>"
      using False by (auto simp: add_region_def Let_def)
    have l: "length (pa_ranges al) = 64" using ok by (simp add: allocator_ok_def)
    have at: "pa_ranges (add_region al ?g) ! i = (if i = ?c then ?new else pa_ranges al ! i)" for i
      using c l by (simp add: al' nth_list_update)
    have w: "within ?new ?g"
      using us align_up_ge [of 4096 "mr_base ?g"]
        align_down_page(2) [of "saturating_add (mr_base ?g) (mr_length ?g)"]
        saturating_add_le [of "mr_base ?g" "mr_length ?g"] by (simp add: within_def)
    have "?s \<noteq> UINT64_MAX" using lt unat_less_64 [of ?e] by (auto simp: unat_max64)
    then have "4096 dvd unat ?s" using align_up_word [of 4096 "mr_base ?g"] by auto
    then have rnew: "range_ok ?new" using lt align_down_page(1) by (simp add: range_ok_def)
    have apart_new: "apart (pa_ranges al ! i) ?new \<and> apart ?new (pa_ranges al ! i)" if i: "i < ?c" for i
    proof -
      obtain j where j: "j < k" "within (pa_ranges al ! i) (rs ! j)"
        using from_k i by (auto simp: ranges_from_def)
      have "unat (mr_base (rs ! j)) + unat (mr_length (rs ! j)) \<le> unat (mr_base ?g) \<or>
          unat (mr_base ?g) + unat (mr_length ?g) \<le> unat (mr_base (rs ! j))"
      proof -
        have "mr_type (rs ! j) = Region_usable" "j < n" "j \<noteq> k" using j k by (simp_all add: within_def)
        then show ?thesis using dis k us by (simp add: usable_disjoint_def)
      qed
      then show ?thesis using j(2) w by (auto simp: apart_def within_def)
    qed
    have cnt: "pa_range_count (add_region al ?g) = Suc ?c" by (simp add: al')
    have rok: "\<forall>i<Suc ?c. range_ok (pa_ranges (add_region al ?g) ! i)"
      using ok rnew by (simp add: allocator_ok_def at less_Suc_eq)
    have ap: "apart (pa_ranges (add_region al ?g) ! i) (pa_ranges (add_region al ?g) ! j)"
      if "i < Suc ?c" "j < Suc ?c" "i \<noteq> j" for i j
    proof -
      have old: "apart (pa_ranges al ! i) (pa_ranges al ! j)" if "i < ?c" "j < ?c" "i \<noteq> j" for i j
        using ok that by (simp add: allocator_ok_def)
      show ?thesis
        using that old [of i j] apart_new [of i] apart_new [of j]
        by (cases "i = ?c"; cases "j = ?c") (simp_all add: at)
    qed
    have len: "length (pa_ranges (add_region al ?g)) = 64" using l by (simp add: al')
    have sum: "pa_free_pages (add_region al ?g) + pa_allocated_pages (add_region al ?g) =
        pa_total_pages (add_region al ?g)"
      using ok by (simp add: al' allocator_ok_def)
    have "allocator_ok (add_region al ?g)"
      unfolding allocator_ok_def cnt using c rok ap len sum by simp
    moreover have "ranges_from (add_region al ?g) rs (Suc k)"
      unfolding ranges_from_def cnt using keep w by (auto simp: at ranges_from_def less_Suc_eq)
    ultimately show ?thesis by simp
  qed
  then show "allocator_ok (add_region al ?g)" "ranges_from (add_region al ?g) rs (Suc k)" by simp_all
qed

lemma physical_init_ok:
  assumes "length (pa_ranges al) = 64" and "usable_disjoint rs n"
  shows "allocator_ok (physical_allocator_init al rs n) \<and> ranges_from (physical_allocator_init al rs n) rs n"
proof -
  let ?al = "al\<lparr>pa_range_count := 0, pa_total_pages := 0, pa_free_pages := 0,
      pa_allocated_pages := 0, pa_allocation_count := 0\<rparr>"
  have "allocator_ok (foldl (\<lambda>al i. add_region al (rs ! i)) ?al [0..<k]) \<and>
      ranges_from (foldl (\<lambda>al i. add_region al (rs ! i)) ?al [0..<k]) rs k \<and>
      pa_allocated_pages (foldl (\<lambda>al i. add_region al (rs ! i)) ?al [0..<k]) = 0" if "k \<le> n" for k
    using that
  proof (induction k)
    case 0
    then show ?case using assms(1) by (simp add: allocator_ok_def ranges_from_def)
  next
    case (Suc k)
    then show ?case using add_region_ok [OF _ _ assms(2), of _ k] by simp
  qed
  then show ?thesis unfolding physical_allocator_init_def by blast
qed

section \<open>The kernel heap\<close>

definition heap_ok :: "heap_store \<Rightarrow> arwill_memory \<Rightarrow> block list \<Rightarrow> bool" where
  "heap_ok st m bs \<longleftrightarrow>
     (let h = me_kernel_heap m; a = unat (kh_base h)
      in kh_initialized h \<and> 16 \<le> a \<and> 16 dvd a \<and> bs \<noteq> [] \<and> span bs = unat (kh_size_bytes h) \<and>
         a + span bs < 18446744073709551616 \<and> chain st a bs \<and> sized bs \<and> separated bs \<and>
         unat (kh_used_bytes h) = sum_list (map snd (allocated a bs)))"

definition round16 :: "nat \<Rightarrow> nat" where
  "round16 n = n + (16 - n mod 16) mod 16"

lemma round16_props: "16 dvd round16 n" "n \<le> round16 n" "0 < n \<Longrightarrow> 16 \<le> round16 n"
proof -
  show d: "16 dvd round16 n"
  proof (cases "n mod 16 = 0")
    case False
    moreover define q r where "q = n div 16" and "r = n mod 16"
    ultimately have r: "r < 16" "r \<noteq> 0" "n = q * 16 + r" by simp_all
    then have "(16 - r) mod 16 = 16 - r" by simp
    then have "round16 n = n + (16 - r)" by (simp add: round16_def r_def)
    also have "\<dots> = (q + 1) * 16" using r by simp
    finally have "round16 n = (q + 1) * 16" .
    then show ?thesis by (simp only: dvd_triv_right)
  qed (simp add: round16_def dvd_eq_mod_eq_0)
  show "n \<le> round16 n" by (simp add: round16_def)
  then show "16 \<le> round16 n" if "0 < n" using d that by (intro dvd_imp_le) simp_all
qed

lemma aligned_size:
  shows "round16 (unat s) < 18446744073709551616 \<Longrightarrow> align_size_up s 16 = adr (round16 (unat s))"
    and "align_size_up s 16 = UINT64_MAX \<longleftrightarrow> \<not> round16 (unat s) < 18446744073709551616"
proof -
  let ?v = "align_up s 16"
  have eq: "align_size_up s 16 = ?v" by (simp add: align_size_up_def align_up_def)
  have c: "unat ?v = round16 (unat s) \<and> 16 dvd unat ?v \<or>
      ?v = UINT64_MAX \<and> unat s + (16 - unat s mod 16) \<ge> 18446744073709551616"
    using align_up_word [of 16 s] by (simp add: round16_def)
  have zero: "unat s mod 16 \<noteq> 0" if "?v = UINT64_MAX"
  proof
    assume z: "unat s mod 16 = 0"
    then have "s mod 16 = 0" by (simp add: word_unat_eq_iff unat_mod_distrib)
    then have "?v = s" by (simp add: align_up_def)
    then have "unat s = 18446744073709551615" using that unat_max64 by metis
    then show False using z by simp
  qed
  have big: "\<not> round16 (unat s) < 18446744073709551616" if "?v = UINT64_MAX"
    using c that zero [OF that] unat_max64 by (auto simp: round16_def)
  show "align_size_up s 16 = UINT64_MAX \<longleftrightarrow> \<not> round16 (unat s) < 18446744073709551616"
    using c big unat_less_64 [of ?v] unfolding eq by auto
  show "align_size_up s 16 = adr (round16 (unat s))" if "round16 (unat s) < 18446744073709551616"
    using c big that unat_adr [OF that] unfolding eq by (auto simp: word_unat_eq_iff)
qed

lemma count_failure_ok: "heap_ok st m bs \<Longrightarrow> heap_ok st (count_failure m) bs"
  by (simp add: heap_ok_def count_failure_def Let_def)

lemma used_le_span: "sum_list (map snd (allocated a bs)) \<le> span bs"
  by (induction bs arbitrary: a) (auto simp: add_increasing)

lemma block_size:
  "chain st a bs \<Longrightarrow> a + span bs < 18446744073709551616 \<Longrightarrow> (x, n) \<in> set (allocated a bs) \<Longrightarrow>
   st (adr x) = \<lparr>hb_size = adr n, hb_free = False, hb_next = hb_next (st (adr x))\<rparr>"
  by (induction bs arbitrary: a) (auto split: if_splits)

text \<open>\<open>arwill_kmalloc\<close> returns, and does to the chain what \<open>place\<close> does to the list.\<close>

lemma kmalloc_refines:
  assumes ok: "heap_ok st m bs" and sz: "s \<noteq> 0"
  defines "a \<equiv> unat (kh_base (me_kernel_heap m))"
  shows "case (if round16 (unat s) < 18446744073709551616 then place (round16 (unat s)) bs else None) of
      None \<Rightarrow> arwill_kmalloc st m s = Some (0, st, count_failure m)
    | Some (off, bs') \<Rightarrow> \<exists>st' m'. arwill_kmalloc st m s = Some (adr (a + off + 32), st', m') \<and>
        heap_ok st' m' bs' \<and> kh_base (me_kernel_heap m') = kh_base (me_kernel_heap m) \<and>
        outside st st' a (a + span bs)"
proof -
  let ?h = "me_kernel_heap m"
  have f: "kh_initialized ?h" "16 \<le> a" "16 dvd a" "bs \<noteq> []" "span bs = unat (kh_size_bytes ?h)"
    "a + span bs < 18446744073709551616" "chain st a bs" "sized bs" "separated bs"
    "unat (kh_used_bytes ?h) = sum_list (map snd (allocated a bs))"
    using ok by (simp_all add: heap_ok_def Let_def a_def)
  have base: "kh_base ?h = adr a" by (simp add: a_def adr_def)
  show ?thesis
  proof (cases "round16 (unat s) < 18446744073709551616")
    case False
    then show ?thesis using aligned_size(2) [of s] f(1) sz by (simp add: arwill_kmalloc_def)
  next
    case fits: True
    define z where "z = round16 (unat s)"
    have al: "align_size_up s 16 = adr z" "adr z \<noteq> UINT64_MAX"
      using aligned_size [of s] fits by (simp_all add: z_def)
    have ff: "first_fit st (adr z) (adr a) =
        Some (case place z bs of None \<Rightarrow> 0 | Some (off, bs') \<Rightarrow> adr (a + off))"
      using first_fit_place [OF f(7) _ f(6), of z] f(2,4) fits by (simp add: z_def)
    show ?thesis
    proof (cases "place z bs")
      case None
      then show ?thesis
        using ff al f(1) sz fits base by (simp add: arwill_kmalloc_def heap_first_block_def z_def)
    next
      case (Some r)
      obtain off bs' where p: "place z bs = Some (off, bs')" using Some by (cases r) auto
      note ps = place_Some [OF p]
      have lt: "a + off + 32 < 18446744073709551616" using ps(4) f(6) by simp
      have nz: "adr (a + off) \<noteq> 0" using adr_zero [of "a + off"] lt f(2) by simp
      define st' where "st' = take_block st (adr (a + off)) (adr z)"
      have ch: "chain st' a bs'" and out: "outside st st' a (a + span bs)"
        using take_block_place [OF f(7,2,6) p] by (simp_all add: st'_def)
      obtain n where n: "z \<le> n" "set (allocated a bs') = insert (a + off, n) (set (allocated a bs))"
        "sum_list (map snd (allocated a bs')) = n + sum_list (map snd (allocated a bs))"
        by (rule place_allocated [OF p, of a])
      have mem: "(a + off, n) \<in> set (allocated a bs')" using n(2) by simp
      have fit': "a + span bs' < 18446744073709551616" using ps(1) f(6) by simp
      have hs: "hb_size (st' (adr (a + off))) = adr n" using block_size [OF ch fit' mem] by (metis heap_block.select_convs(1))
      have nlt: "n + sum_list (map snd (allocated a bs)) < 18446744073709551616"
        using n(3) used_le_span [of a bs'] fit' by simp
      define m' where "m' = m\<lparr>me_kernel_heap := ?h\<lparr>kh_used_bytes := kh_used_bytes ?h + adr n,
          kh_allocation_count := kh_allocation_count ?h + 1\<rparr>\<rparr>"
      have k: "arwill_kmalloc st m s = Some (adr (a + off) + 32, st', m')"
        unfolding arwill_kmalloc_def Let_def al heap_first_block_def base ff p
        using f(1) sz al nz by (simp add: st'_def [symmetric] hs m'_def)
      have "unat (kh_used_bytes ?h + adr n) = sum_list (map snd (allocated a bs'))"
        using n(3) nlt f(10) unat_adr [of n] by (simp add: unat_add_64)
      moreover have "16 \<le> z" "16 dvd z" using round16_props [of "unat s"] sz
        by (simp_all add: z_def unat_gt_0)
      ultimately have "heap_ok st' m' bs'"
        using f ch ps place_keeps [OF p] by (simp add: heap_ok_def m'_def Let_def base [symmetric] a_def [symmetric])
      moreover have "adr (a + off) + 32 = adr (a + off + 32)" by (simp add: adr_def)
      moreover have "kh_base (me_kernel_heap m') = kh_base ?h" by (simp add: m'_def)
      ultimately show ?thesis using k fits p out by (auto simp: z_def)
    qed
  qed
qed

text \<open>\<open>arwill_kfree\<close> returns, and gives the block back.\<close>

lemma kfree_refines:
  assumes ok: "heap_ok st m bs"
  defines "a \<equiv> unat (kh_base (me_kernel_heap m))"
  assumes mem: "(a + off, n) \<in> set (allocated a bs)"
  shows "\<exists>st' m'. arwill_kfree st m (adr (a + off + 32)) = Some (st', m') \<and>
    heap_ok st' m' (merge (release off bs)) \<and> kh_base (me_kernel_heap m') = kh_base (me_kernel_heap m)"
proof -
  let ?h = "me_kernel_heap m"
  have f: "kh_initialized ?h" "16 \<le> a" "16 dvd a" "bs \<noteq> []" "span bs = unat (kh_size_bytes ?h)"
    "a + span bs < 18446744073709551616" "chain st a bs" "sized bs" "separated bs"
    "unat (kh_used_bytes ?h) = sum_list (map snd (allocated a bs))"
    using ok by (simp_all add: heap_ok_def Let_def a_def)
  have base: "kh_base ?h = adr a" by (simp add: a_def adr_def)
  have lt: "a + off + 32 + n < 18446744073709551616" using allocated_bounds [OF mem] f(6) by simp
  define st1 where "st1 = st(adr (a + off) := (st (adr (a + off)))\<lparr>hb_free := True\<rparr>)"
  have rel: "chain st1 a (release off bs)" "hb_size (st (adr (a + off))) = adr n"
    "\<not> hb_free (st (adr (a + off)))"
    using release_chain [OF f(7,6) mem] by (simp_all add: st1_def)
  have blk: "adr (a + off + 32) - heap_payload_offset = adr (a + off)" by (simp add: adr_def)
  have nz: "adr (a + off + 32) \<noteq> 0" using adr_zero [of "a + off + 32"] lt by simp
  have ne: "release off bs \<noteq> []" using f(4) by (cases bs) auto
  obtain st2 where co: "coalesce_loop st1 (adr a) = Some st2" "chain st2 a (merge (release off bs))"
    using coalesce_chain [OF rel(1)] f(2,6) ne by auto
  note al = release_allocated [OF mem]
  have nu: "unat (adr n) = n" using lt by (intro unat_adr) simp
  have le: "adr n \<le> kh_used_bytes ?h" using al f(10) nu by (simp add: word_le_nat_alt)
  define m' where "m' = m\<lparr>me_kernel_heap := ?h\<lparr>kh_used_bytes := kh_used_bytes ?h - adr n,
      kh_free_count := kh_free_count ?h + 1\<rparr>\<rparr>"
  have st1b: "hb_size (st1 (adr (a + off))) = adr n" using rel(2) by (simp add: st1_def)
  have "heap_coalesce st1 m' = Some st2"
    using co(1) by (simp add: heap_coalesce_def heap_first_block_def m'_def base)
  then have k: "arwill_kfree st m (adr (a + off + 32)) = Some (st2, m')"
    unfolding arwill_kfree_def Let_def blk st1_def [symmetric] st1b
    using f(1) nz rel(3) le by (simp add: m'_def)
  have "unat (kh_used_bytes ?h - adr n) = unat (kh_used_bytes ?h) - n" using le nu by (simp add: unat_sub)
  then have "unat (kh_used_bytes ?h - adr n) = sum_list (map snd (allocated a (merge (release off bs))))"
    unfolding allocated_merge using conjunct2 [OF al] f(10) by linarith
  then have "heap_ok st2 m' (merge (release off bs))"
    using f co(2) ne release_sized [OF f(8)] merge_sized separated_merge
    by (simp add: heap_ok_def m'_def Let_def base [symmetric] a_def [symmetric])
  then show ?thesis using k by (auto simp: m'_def)
qed

text \<open>A successful initialisation makes the whole heap one free block.\<close>

lemma heap_init_ok:
  assumes "arwill_kernel_heap_init st m hhdm n = (True, st', m')" and "\<not> kh_initialized (me_kernel_heap m)"
    and "16 \<le> unat (kh_base (me_kernel_heap m'))" and "16 dvd unat (kh_base (me_kernel_heap m'))"
    and "unat (kh_base (me_kernel_heap m')) + unat n * 4096 < 18446744073709551616"
  shows "heap_ok st' m' [(unat n * 4096 - 32, True)]"
proof -
  have nz: "n \<noteq> 0" using assms(1,2) by (auto simp: arwill_kernel_heap_init_def)
  obtain first m1 where c: "claim_pages (unat n) None 0 m = (Some first, m1)"
    using assms(1,2) by (auto simp: arwill_kernel_heap_init_def Let_def split: if_splits prod.splits option.splits)
  have m': "me_kernel_heap m' = \<lparr>kh_base = hhdm + first, kh_size_bytes = n * 4096, kh_used_bytes = 0,
      kh_allocation_count = 0, kh_free_count = 0, kh_failed_allocation_count = 0, kh_initialized = True\<rparr>"
    and st': "st' = st(hhdm + first := \<lparr>hb_size = n * 4096 - 32, hb_free = True, hb_next = 0\<rparr>)"
    using assms(1,2) c by (auto simp: arwill_kernel_heap_init_def Let_def split: if_splits)
  have u: "unat (n * 4096) = unat n * 4096" using assms(5) by (subst unat_mult_64) simp_all
  have "1 \<le> unat n" using nz by (simp add: unat_gt_0 Suc_le_eq)
  then have "n * 4096 - 32 = adr (unat n * 4096 - 32)"
    using u by (simp add: word_unat_eq_iff adr_def unat_sub word_le_nat_alt of_nat_diff)
  moreover have "adr (unat (hhdm + first)) = hhdm + first" by (simp add: adr_def)
  moreover have "16 dvd unat n * 4096 - 32" using \<open>1 \<le> unat n\<close> by (simp add: dvd_diff_nat)
  ultimately show ?thesis
    using assms(3-5) \<open>1 \<le> unat n\<close> u by (simp add: heap_ok_def Let_def m' st' sized_def)
qed

section \<open>Properties\<close>

text \<open>The payloads in use: their addresses and sizes.\<close>

definition regions :: "arwill_memory \<Rightarrow> block list \<Rightarrow> (nat \<times> nat) set" where
  "regions m bs = (\<lambda>(x, n). (x + 32, n)) ` set (allocated (unat (kh_base (me_kernel_heap m))) bs)"

lemma place_None: "place sz bs = None \<longleftrightarrow> (\<forall>b\<in>set bs. snd b \<longrightarrow> fst b < sz)"
  by (induction bs) (auto split: option.splits)

lemma block_le_span: "b \<in> set bs \<Longrightarrow> fst b \<le> span bs"
  by (induction bs) auto

text \<open>A heap of one page at address 4096, nothing allocated.\<close>

definition demo_memory :: arwill_memory where
  "demo_memory = \<lparr>me_map = \<lparr>mm_regions = None, mm_count = 0, mm_truncated = False\<rparr>,
     me_physical_allocator = \<lparr>pa_ranges = replicate 64 \<lparr>pr_next = 0, pr_end = 0\<rparr>, pa_range_count = 0,
       pa_total_pages = 0, pa_free_pages = 0, pa_allocated_pages = 0, pa_allocation_count = 0\<rparr>,
     me_kernel_heap = \<lparr>kh_base = 4096, kh_size_bytes = 4096, kh_used_bytes = 0, kh_allocation_count = 0,
       kh_free_count = 0, kh_failed_allocation_count = 0, kh_initialized = True\<rparr>\<rparr>"

definition demo_store :: heap_store where
  "demo_store = (\<lambda>_. \<lparr>hb_size = 0, hb_free = False, hb_next = 0\<rparr>)
     (4096 := \<lparr>hb_size = 4064, hb_free = True, hb_next = 0\<rparr>)"

lemma demo_heap_ok: "heap_ok demo_store demo_memory [(4064, True)]"
  by (simp add: heap_ok_def Let_def demo_memory_def demo_store_def adr_def sized_def)

lemma place_offset:
  assumes "place z bs = Some (off, bs')" "sized bs"
  shows "16 dvd off"
  using assms
  by (induction bs arbitrary: off bs')
    (auto simp: sized_def split: if_splits option.splits intro!: dvd_add)

text \<open>The piece of a successful allocation: large enough, in the heap, clear of those in use.\<close>

lemma placed_region:
  assumes p: "place z bs = Some (off, bs')" and base: "kh_base (me_kernel_heap m') = kh_base (me_kernel_heap m)"
    and a: "a = unat (kh_base (me_kernel_heap m))"
  obtains n where "z \<le> n" "regions m' bs' = insert (a + off + 32, n) (regions m bs)"
    "a + off + 32 + n \<le> a + span bs"
    "\<forall>(q, k)\<in>regions m bs. a + off + 32 + n \<le> q \<or> q + k \<le> a + off + 32"
proof -
  obtain n where n: "z \<le> n" "set (allocated a bs') = insert (a + off, n) (set (allocated a bs))"
    "(a + off, n) \<notin> set (allocated a bs)"
    by (rule place_allocated [OF p, of a])
  have mem: "(a + off, n) \<in> set (allocated a bs')" using n(2) by simp
  have dis: "a + off + 32 + n \<le> q \<or> q + l \<le> a + off + 32" if "(q, l) \<in> regions m bs" for q l
  proof -
    from that obtain y where y: "q = y + 32" "(y, l) \<in> set (allocated a bs)" by (auto simp: regions_def a)
    then have "(y, l) \<in> set (allocated a bs')" "(y, l) \<noteq> (a + off, n)" using n(2,3) by auto
    from allocated_disjoint [OF mem this(1)] this(2) y(1) show ?thesis by auto
  qed
  show ?thesis
  proof (rule that [OF n(1)])
    show "regions m' bs' = insert (a + off + 32, n) (regions m bs)"
      using n(2) by (simp add: regions_def base a)
    show "a + off + 32 + n \<le> a + span bs" using allocated_bounds [OF mem] place_Some(1) [OF p] by simp
  qed (use dis in blast)
qed

text \<open>
  C9. \<open>arwill_kmalloc\<close> always returns. Either no free block is large enough and nothing
  changes but a counter, or it returns a 16-byte aligned piece of the heap at least as
  large as asked for that overlaps no piece in use, and every piece in use stays as it
  was; the heap keeps its invariant.
\<close>

theorem kmalloc_sound:
  assumes "heap_ok st m bs" and "s \<noteq> 0"
  shows "\<exists>p st' m' bs'. arwill_kmalloc st m s = Some (p, st', m') \<and> heap_ok st' m' bs' \<and>
    (if p = 0 then st' = st \<and> bs' = bs \<and> (\<forall>b\<in>set bs. snd b \<longrightarrow> fst b < round16 (unat s))
     else 16 dvd unat p \<and>
       (\<exists>n\<ge>unat s. regions m' bs' = insert (unat p, n) (regions m bs) \<and>
          unat p + n \<le> unat (kh_base (me_kernel_heap m)) + unat (kh_size_bytes (me_kernel_heap m)) \<and>
          (\<forall>(q, k)\<in>regions m bs. unat p + n \<le> q \<or> q + k \<le> unat p)))"
proof -
  let ?a = "unat (kh_base (me_kernel_heap m))"
  let ?z = "round16 (unat s)"
  note r = kmalloc_refines [OF assms]
  have fit: "?a + span bs < 18446744073709551616" "span bs = unat (kh_size_bytes (me_kernel_heap m))"
    "16 dvd ?a"
    using assms(1) by (simp_all add: heap_ok_def Let_def)
  show ?thesis
  proof (cases "if ?z < 18446744073709551616 then place ?z bs else None")
    case None
    have "fst b < ?z" if "b \<in> set bs" "snd b" for b
      using None that block_le_span [OF that(1)] fit(1) by (auto simp: place_None split: if_splits)
    then show ?thesis using r None count_failure_ok [OF assms(1)] by fastforce
  next
    case (Some x)
    obtain off bs' where x: "x = (off, bs')" by (cases x)
    have p: "place ?z bs = Some (off, bs')" using Some x by (auto split: if_splits)
    obtain st' m' where k: "arwill_kmalloc st m s = Some (adr (?a + off + 32), st', m')" "heap_ok st' m' bs'"
      "kh_base (me_kernel_heap m') = kh_base (me_kernel_heap m)"
      using r Some x by auto
    obtain n where n: "?z \<le> n" and reg: "regions m' bs' = insert (?a + off + 32, n) (regions m bs)"
      and b: "?a + off + 32 + n \<le> ?a + span bs"
      and dis: "\<forall>(q, k)\<in>regions m bs. ?a + off + 32 + n \<le> q \<or> q + k \<le> ?a + off + 32"
      by (rule placed_region [OF p k(3) refl])
    have u: "unat (adr (?a + off + 32)) = ?a + off + 32" using b fit(1) by (intro unat_adr) simp
    have nz: "adr (?a + off + 32) \<noteq> 0" using u by auto
    have "16 dvd off" using assms(1) by (intro place_offset [OF p]) (simp add: heap_ok_def Let_def)
    then have "16 dvd ?a + off + 32" using fit(3) by (simp add: dvd_add)
    moreover have "unat s \<le> n" using n round16_props(2) [of "unat s"] by simp
    ultimately show ?thesis
      using k nz reg dis b fit(2) u by (intro exI [of _ "adr (?a + off + 32)"]) (auto intro!: exI [of _ n])
  qed
qed

theorem kmalloc_sound_witness:
  "\<exists>p st' m' bs'. arwill_kmalloc demo_store demo_memory 100 = Some (p, st', m') \<and> heap_ok st' m' bs' \<and> p \<noteq> 0"
proof -
  obtain p st' m' bs' where "arwill_kmalloc demo_store demo_memory 100 = Some (p, st', m') \<and>
      heap_ok st' m' bs' \<and> (p = 0 \<longrightarrow> (\<forall>b\<in>set [(4064, True)]. snd b \<longrightarrow> fst b < round16 (unat (100 :: u64))))"
    using kmalloc_sound [OF demo_heap_ok, of 100] by (auto split: if_splits)
  then show ?thesis by (auto simp: round16_def)
qed

text \<open>
  C29. Giving back a piece in use always returns, takes exactly that piece out of use,
  leaves all others as they are, and never leaves two free blocks side by side.
\<close>

theorem kfree_sound:
  assumes "heap_ok st m bs" and "(unat p, n) \<in> regions m bs"
  shows "\<exists>st' m' bs'. arwill_kfree st m p = Some (st', m') \<and> heap_ok st' m' bs' \<and> separated bs' \<and>
    regions m' bs' = regions m bs - {(unat p, n)} \<and>
    unat (kh_used_bytes (me_kernel_heap m')) + n = unat (kh_used_bytes (me_kernel_heap m))"
proof -
  let ?a = "unat (kh_base (me_kernel_heap m))"
  obtain x where x: "unat p = x + 32" "(x, n) \<in> set (allocated ?a bs)"
    using assms(2) by (auto simp: regions_def)
  obtain off where off: "x = ?a + off" using allocated_bounds [OF x(2)] by (auto simp: le_iff_add)
  have mem: "(?a + off, n) \<in> set (allocated ?a bs)" using x(2) off by simp
  have "p = adr (unat p)" by (simp add: adr_def)
  then have p: "p = adr (?a + off + 32)" using x(1) off by simp
  obtain st' m' where k: "arwill_kfree st m p = Some (st', m')" "heap_ok st' m' (merge (release off bs))"
    "kh_base (me_kernel_heap m') = kh_base (me_kernel_heap m)"
    using kfree_refines [OF assms(1) mem] p by auto
  have reg: "regions m' (merge (release off bs)) = regions m bs - {(unat p, n)}"
  proof -
    have "inj (\<lambda>(x, n). (x + 32, n) :: nat \<times> nat)" by (auto intro: injI)
    from image_set_diff [OF this, of "set (allocated ?a bs)" "{(?a + off, n)}"] show ?thesis
      using conjunct1 [OF release_allocated [OF mem]] x(1) off by (simp add: regions_def k(3))
  qed
  have "unat (kh_used_bytes (me_kernel_heap m')) + n = unat (kh_used_bytes (me_kernel_heap m))"
    using k(2,3) assms(1) release_allocated [OF mem] by (simp add: heap_ok_def Let_def)
  then show ?thesis using k reg separated_merge by blast
qed

text \<open>
  Allocating and then giving back what was allocated leaves the heap with exactly the
  blocks it had before.
\<close>

lemma kmalloc_kfree_roundtrip:
  assumes "heap_ok st m bs" and "s \<noteq> 0" and "arwill_kmalloc st m s = Some (p, st1, m1)" and "p \<noteq> 0"
  shows "\<exists>st2 m2. arwill_kfree st1 m1 p = Some (st2, m2) \<and> heap_ok st2 m2 bs"
proof -
  let ?a = "unat (kh_base (me_kernel_heap m))"
  let ?z = "round16 (unat s)"
  note r = kmalloc_refines [OF assms(1,2)]
  have sep: "separated bs" using assms(1) by (simp add: heap_ok_def Let_def)
  obtain off bs' where pl: "place ?z bs = Some (off, bs')" and k: "p = adr (?a + off + 32)" "heap_ok st1 m1 bs'"
    "kh_base (me_kernel_heap m1) = kh_base (me_kernel_heap m)"
    using r assms(3,4) by (auto split: option.splits if_splits)
  obtain n where "set (allocated ?a bs') = insert (?a + off, n) (set (allocated ?a bs))"
    by (rule place_allocated [OF pl, of ?a])
  then have mem: "(?a + off, n) \<in> set (allocated ?a bs')" by simp
  show ?thesis
    using kfree_refines [OF k(2), unfolded k(3), OF mem] release_place [OF pl sep] k(1) by auto
qed

lemma demo_malloc:
  obtains p st m bs where "arwill_kmalloc demo_store demo_memory 100 = Some (p, st, m)" "p \<noteq> 0"
    "heap_ok st m bs" "(unat p, 112) \<in> regions m bs"
proof -
  have r: "round16 100 = 112" by (simp add: round16_def)
  obtain st m where k: "arwill_kmalloc demo_store demo_memory 100 = Some (adr 4128, st, m)"
    "heap_ok st m [(112, False), (3920, True)]" "kh_base (me_kernel_heap m) = 4096"
    using kmalloc_refines [OF demo_heap_ok, of 100] by (auto simp: r demo_memory_def)
  moreover have "adr 4128 \<noteq> 0" "unat (adr 4128) = 4128" by (simp_all add: adr_def)
  moreover have "(4128, 112) \<in> regions m [(112, False), (3920, True)]"
    using k(3) by (auto simp: regions_def intro!: image_eqI [of _ _ "(4096, 112)"])
  ultimately show thesis by (intro that [of "adr 4128" st m "[(112, False), (3920, True)]"]) simp_all
qed

theorem kfree_sound_witness:
  "\<exists>p st m st' m' bs'. arwill_kmalloc demo_store demo_memory 100 = Some (p, st, m) \<and>
     arwill_kfree st m p = Some (st', m') \<and> heap_ok st' m' bs' \<and> (unat p, 112) \<notin> regions m' bs'"
proof -
  obtain p st m bs where k: "arwill_kmalloc demo_store demo_memory 100 = Some (p, st, m)" "p \<noteq> 0"
    and d: "heap_ok st m bs" "(unat p, 112) \<in> regions m bs" by (rule demo_malloc)
  obtain st' m' bs' where f: "arwill_kfree st m p = Some (st', m')" "heap_ok st' m' bs'"
    "regions m' bs' = regions m bs - {(unat p, 112)}"
    using kfree_sound [OF d] by (elim exE conjE)
  then have "(unat p, 112) \<notin> regions m' bs'" by simp
  with k(1) f(1,2) show ?thesis by (intro exI conjI)
qed

lemma kmalloc_kfree_roundtrip_witness:
  "\<exists>p st m. arwill_kmalloc demo_store demo_memory 100 = Some (p, st, m) \<and>
     (\<exists>st2 m2. arwill_kfree st m p = Some (st2, m2) \<and> heap_ok st2 m2 [(4064, True)])"
proof -
  obtain p st m bs where d: "arwill_kmalloc demo_store demo_memory 100 = Some (p, st, m)" "p \<noteq> 0"
    and "heap_ok st m bs" "(unat p, 112) \<in> regions m bs" by (rule demo_malloc)
  from kmalloc_kfree_roundtrip [OF demo_heap_ok _ d] d(1) show ?thesis by auto
qed

text \<open>Allocating one page after the other until there is none.\<close>

primrec allocate_pages :: "nat \<Rightarrow> arwill_memory \<Rightarrow> u64 list \<times> arwill_memory" where
  "allocate_pages 0 m = ([], m)"
| "allocate_pages (Suc k) m =
     (case arwill_physical_allocate_page m of
        (None, m) \<Rightarrow> ([], m)
      | (Some p, m) \<Rightarrow> (case allocate_pages k m of (ps, m) \<Rightarrow> (p # ps, m)))"

lemma allocate_pages_distinct:
  "allocator_ok (me_physical_allocator m) \<Longrightarrow> allocate_pages k m = (ps, m') \<Longrightarrow>
   distinct ps \<and> unat ` set ps \<subseteq> page_set (me_physical_allocator m)"
proof (induction k arbitrary: m ps m')
  case (Suc k)
  obtain r m1 where a: "arwill_physical_allocate_page m = (r, m1)" by (cases "arwill_physical_allocate_page m")
  show ?case
  proof (cases r)
    case None
    then show ?thesis using Suc.prems(2) a by simp
  next
    case (Some p)
    obtain ps1 m2 where t: "allocate_pages k m1 = (ps1, m2)" by (cases "allocate_pages k m1")
    have f: "unat p \<in> page_set (me_physical_allocator m)"
      "page_set (me_physical_allocator m1) = page_set (me_physical_allocator m) - {unat p}"
      "allocator_ok (me_physical_allocator m1)"
      using allocate_page_cases [OF Suc.prems(1) a] Some by simp_all
    have ih: "distinct ps1" "unat ` set ps1 \<subseteq> page_set (me_physical_allocator m) - {unat p}"
      using Suc.IH [OF f(3) t] f(2) by simp_all
    then have "p \<notin> set ps1" by auto
    moreover have "ps = p # ps1" using Suc.prems(2) a t Some by simp
    ultimately show ?thesis using ih f(1) by auto
  qed
qed simp

lemma page_in_region:
  assumes ok: "allocator_ok al" and fr: "ranges_from al rs n" and p: "p \<in> page_set al"
  shows "4096 dvd p \<and> (\<exists>j<n. mr_type (rs ! j) = Region_usable \<and> unat (mr_base (rs ! j)) \<le> p \<and>
    p + 4096 \<le> unat (mr_base (rs ! j)) + unat (mr_length (rs ! j)))"
proof -
  obtain i where i: "i < pa_range_count al" "unat (pr_next (pa_ranges al ! i)) \<le> p"
    "p < unat (pr_end (pa_ranges al ! i))" "4096 dvd p"
    using p by (auto simp: page_set_def)
  have "4096 dvd unat (pr_end (pa_ranges al ! i))" using ok i(1) by (simp add: allocator_ok_def range_ok_def)
  then have "4096 dvd unat (pr_end (pa_ranges al ! i)) - p" using i(4) by (simp add: dvd_diff_nat)
  then have "4096 \<le> unat (pr_end (pa_ranges al ! i)) - p" using i(3) by (intro dvd_imp_le) simp_all
  then have e: "p + 4096 \<le> unat (pr_end (pa_ranges al ! i))" by simp
  obtain j where "j < n" "within (pa_ranges al ! i) (rs ! j)" using fr i(1) by (auto simp: ranges_from_def)
  then show ?thesis using e i(2,4) by (intro conjI exI [of _ j]) (auto simp: within_def)
qed

text \<open>
  C30. From a memory map whose usable regions do not overlap, the page allocator hands out
  whole aligned pages that lie inside usable regions, and never the same page twice,
  however many pages are asked for.
\<close>

theorem physical_pages_distinct:
  assumes "length (pa_ranges (me_physical_allocator m)) = 64" and "usable_disjoint rs (length rs)"
  shows "case allocate_pages k (arwill_memory_init m (Some rs) (length rs) truncated) of
    (ps, m') \<Rightarrow> distinct ps \<and>
      (\<forall>p\<in>set ps. 4096 dvd unat p \<and>
         (\<exists>g\<in>set rs. mr_type g = Region_usable \<and> unat (mr_base g) \<le> unat p \<and>
            unat p + 4096 \<le> unat (mr_base g) + unat (mr_length g)))"
proof -
  let ?m = "arwill_memory_init m (Some rs) (length rs) truncated"
  have al: "me_physical_allocator ?m = physical_allocator_init (me_physical_allocator m) rs (length rs)"
    by (simp add: arwill_memory_init_def Let_def)
  note i = physical_init_ok [OF assms, folded al]
  obtain ps m' where a: "allocate_pages k ?m = (ps, m')" by (cases "allocate_pages k ?m")
  note d = allocate_pages_distinct [OF conjunct1 [OF i] a]
  have "4096 dvd unat p \<and> (\<exists>g\<in>set rs. mr_type g = Region_usable \<and> unat (mr_base g) \<le> unat p \<and>
      unat p + 4096 \<le> unat (mr_base g) + unat (mr_length g))" if "p \<in> set ps" for p
    using page_in_region [OF conjunct1 [OF i] conjunct2 [OF i], of "unat p"] d that nth_mem by blast
  then show ?thesis using a d by simp
qed

definition demo_regions :: "arwill_memory_region list" where
  "demo_regions = [\<lparr>mr_base = 0, mr_length = 640, mr_type = Region_usable\<rparr>,
     \<lparr>mr_base = 5000, mr_length = 20000, mr_type = Region_usable\<rparr>]"

theorem physical_pages_distinct_witness:
  "case allocate_pages 9 (arwill_memory_init demo_memory (Some demo_regions) (length demo_regions) False) of
    (ps, m') \<Rightarrow> distinct ps"
proof -
  have "length (pa_ranges (me_physical_allocator demo_memory)) = 64" by (simp add: demo_memory_def)
  moreover have "usable_disjoint demo_regions (length demo_regions)"
    by (auto simp: usable_disjoint_def demo_regions_def less_Suc_eq)
  ultimately show ?thesis
    using physical_pages_distinct [of demo_memory demo_regions 9 False] by (auto split: prod.splits)
qed

end
