(* ===== verification/Realtime.thy ===== *)
theory Realtime
  imports Arwill_Prelude
begin

text \<open>
  \<open>kernel/realtime.c\<close>: the front of the real-time clock and the conversion of a
  calendar date to seconds since 1970. The conversion is compared with the number of
  calendar days that precede the date.
\<close>

section \<open>The model\<close>

record 'k arwill_realtime =
  rt_context :: 'k
  rt_unix_seconds :: "('k \<Rightarrow> u64 \<Rightarrow> bool \<times> u64 \<times> 'k) option"

definition leap_year :: "u32 \<Rightarrow> bool" where
  "leap_year year \<longleftrightarrow> year mod 4 = 0 \<and> (year mod 100 \<noteq> 0 \<or> year mod 400 = 0)"

definition month_days :: "u32 list" where
  "month_days = [31, 28, 31, 30, 31, 30, 31, 31, 30, 31, 30, 31]"

definition days_in_month :: "u32 \<Rightarrow> u32 \<Rightarrow> u32" where
  "days_in_month year month =
     (if month = 0 \<or> month > 12 then 0
      else if month = 2 \<and> leap_year year then 29 else month_days ! unat (month - 1))"

definition arwill_realtime_unix_seconds ::
    "'k arwill_realtime option \<Rightarrow> u64 option \<Rightarrow> bool \<times> u64 option \<times> 'k arwill_realtime option" where
  "arwill_realtime_unix_seconds realtime seconds =
     (case (realtime, seconds) of
        (Some r, Some s) \<Rightarrow>
          (case rt_unix_seconds r of
             None \<Rightarrow> (False, seconds, realtime)
           | Some f \<Rightarrow>
              (case f (rt_context r) s of
                 (ok, s, k) \<Rightarrow> (ok, Some s, Some (r\<lparr>rt_context := k\<rparr>))))
      | _ \<Rightarrow> (False, seconds, realtime))"

definition arwill_realtime_calendar_to_unix ::
    "u32 \<Rightarrow> u32 \<Rightarrow> u32 \<Rightarrow> u32 \<Rightarrow> u32 \<Rightarrow> u32 \<Rightarrow> u64 option" where
  "arwill_realtime_calendar_to_unix year month day hour minute second =
     (if year < 1970 \<or> year > 2399 \<or> day = 0 \<or> day > days_in_month year month \<or>
         hour > 23 \<or> minute > 59 \<or> second > 60
      then None
      else
        (let days = foldl (\<lambda>days current. days + (if leap_year (of_nat current) then 366 else 365))
               0 [1970..<unat year];
             days = foldl (\<lambda>days current. days + ucast (days_in_month year (of_nat current)))
               days [1..<unat month];
             days = days + ucast (day - 1)
         in Some (days * 86400 + ucast hour * 3600 + ucast minute * 60 + ucast second)))"

section \<open>The calendar\<close>

text \<open>The Gregorian calendar on natural numbers.\<close>

definition leap :: "nat \<Rightarrow> bool" where
  "leap y \<longleftrightarrow> y mod 4 = 0 \<and> (y mod 100 \<noteq> 0 \<or> y mod 400 = 0)"

definition month_length :: "nat \<Rightarrow> nat \<Rightarrow> nat" where
  "month_length y m =
     (if m \<in> {4, 6, 9, 11} then 30 else if m = 2 then (if leap y then 29 else 28)
      else if 1 \<le> m \<and> m \<le> 12 then 31 else 0)"

definition calendar_day :: "nat \<times> nat \<times> nat \<Rightarrow> bool" where
  "calendar_day = (\<lambda>(y, m, d). 1970 \<le> y \<and> 1 \<le> m \<and> m \<le> 12 \<and> 1 \<le> d \<and> d \<le> month_length y m)"

definition days_before :: "nat \<Rightarrow> nat \<Rightarrow> nat \<Rightarrow> (nat \<times> nat \<times> nat) set" where
  "days_before y m d = {(y', m', d'). calendar_day (y', m', d') \<and>
     (y' < y \<or> y' = y \<and> (m' < m \<or> m' = m \<and> d' < d))}"

lemma unat_mod_small: "unat ((of_nat k :: u32) mod of_nat c) = k mod c" if "k < 4294967296" "c < 4294967296"
  using that by (simp add: unat_mod_distrib unat_of_nat)

lemma leap_year_nat:
  assumes "k < 4294967296"
  shows "leap_year (of_nat k) \<longleftrightarrow> leap k"
proof -
  have "(of_nat k :: u32) mod of_nat c = 0 \<longleftrightarrow> k mod c = 0" if "c < 4294967296" for c
    using unat_mod_small [OF assms that] unat_eq_zero by metis
  from this [of 4] this [of 100] this [of 400] show ?thesis by (simp add: leap_year_def leap_def)
qed

lemma days_in_month_nat:
  assumes "y < 4294967296" and "m < 4294967296"
  shows "unat (days_in_month (of_nat y) (of_nat m)) = month_length y m"
proof (cases "1 \<le> m \<and> m \<le> 12")
  case True
  then have "m = 1 \<or> m = 2 \<or> m = 3 \<or> m = 4 \<or> m = 5 \<or> m = 6 \<or> m = 7 \<or> m = 8 \<or> m = 9 \<or> m = 10 \<or>
      m = 11 \<or> m = 12" by arith
  then show ?thesis
    using leap_year_nat [OF assms(1)]
    by (elim disjE) (simp_all add: days_in_month_def month_length_def month_days_def)
next
  case False
  have "unat (of_nat m :: u32) = m" using assms(2) by (simp add: unat_of_nat)
  then have "(of_nat m :: u32) = 0 \<or> (of_nat m :: u32) > 12"
    using False unat_eq_zero [of "of_nat m :: u32"] by (auto simp: word_less_nat_alt)
  then show ?thesis using False by (auto simp: days_in_month_def month_length_def)
qed

lemma year_length: "(\<Sum>m = 1..12. month_length y m) = (if leap y then 366 else 365)"
  by (simp add: month_length_def numeral_eq_Suc)

lemma card_days_before:
  assumes "1970 \<le> y" and "1 \<le> m" "m \<le> 12" and "1 \<le> d" "d \<le> month_length y m"
  shows "card (days_before y m d) =
    (\<Sum>k = 1970..<y. if leap k then 366 else 365) + (\<Sum>k = 1..<m. month_length y k) + (d - 1)"
proof -
  let ?A = "SIGMA k:{1970..<y}. SIGMA m:{1..12}. {1..month_length k m}"
  let ?B = "(\<lambda>(m, d). (y, m, d)) ` (SIGMA k:{1..<m}. {1..month_length y k})"
  let ?C = "(\<lambda>d. (y, m, d)) ` {1..<d}"
  have "days_before y m d = ?A \<union> ?B \<union> ?C"
    using assms by (auto simp: days_before_def calendar_day_def)
  moreover have "?A \<inter> ?B = {}" "(?A \<union> ?B) \<inter> ?C = {}" by auto
  moreover have "finite ?A" "finite ?B" "finite ?C" by auto
  ultimately have "card (days_before y m d) = card ?A + card ?B + card ?C"
    by (simp add: card_Un_disjoint)
  moreover have "card ?A = (\<Sum>k = 1970..<y. if leap k then 366 else 365)"
    by (simp add: card_SigmaI year_length [unfolded One_nat_def])
  moreover have "card ?B = (\<Sum>k = 1..<m. month_length y k)"
    by (subst card_image) (auto intro: inj_onI)
  moreover have "card ?C = d - 1"
    by (subst card_image) (auto intro: inj_onI)
  ultimately show ?thesis by simp
qed

section \<open>Properties\<close>

lemma foldl_sum:
  assumes "\<And>k. i \<le> k \<Longrightarrow> k < j \<Longrightarrow> f k = of_nat (g k)"
  shows "foldl (\<lambda>days k. days + f k) (a :: u64) [i..<j] = a + of_nat (\<Sum>k = i..<j. g k)"
  using assms
proof (induction j)
  case (Suc j)
  then show ?case by (cases "i \<le> j") simp_all
qed simp

lemma ucast_nat: "(ucast (x :: u32) :: u64) = of_nat (unat x)"
  by (simp add: word_unat_eq_iff unat_of_nat unat_ucast_32_64 order_less_trans [OF unat_less_32])

lemma date_sum_bound:
  "y \<le> 2399 \<Longrightarrow> m \<le> 12 \<Longrightarrow> d \<le> 31 \<Longrightarrow>
   (\<Sum>k = 1970..<y. if leap k then 366 else 365) + (\<Sum>k = 1..<m. month_length y k) + (d - 1) \<le> 200000"
proof -
  assume b: "y \<le> 2399" "m \<le> 12" "d \<le> (31 :: nat)"
  have "(\<Sum>k = 1970..<y. if leap k then 366 else 365) \<le> (\<Sum>k = 1970..<y. 366 :: nat)" by (rule sum_mono) simp
  moreover have "(\<Sum>k = 1..<m. month_length y k) \<le> (\<Sum>k = 1..<m. 31)"
    by (rule sum_mono) (simp add: month_length_def)
  ultimately show ?thesis using b by simp
qed

lemma calendar_guard:
  "\<not> (year < 1970 \<or> year > 2399 \<or> day = 0 \<or> day > days_in_month year month \<or>
        hour > 23 \<or> minute > 59 \<or> second > 60) \<longleftrightarrow>
     calendar_day (unat year, unat month, unat day) \<and> unat year \<le> 2399 \<and>
     unat (hour :: u32) \<le> 23 \<and> unat (minute :: u32) \<le> 59 \<and> unat (second :: u32) \<le> 60"
proof -
  have dm: "unat (days_in_month year month) = month_length (unat year) (unat month)"
    using days_in_month_nat [OF unat_less_32 unat_less_32] by simp
  have "1 \<le> unat month \<and> unat month \<le> 12" if "1 \<le> unat day" "unat day \<le> month_length (unat year) (unat month)"
    using that by (auto simp: month_length_def split: if_splits)
  moreover have "day = 0 \<longleftrightarrow> \<not> 1 \<le> unat day" using unat_eq_zero [of day] by auto
  ultimately show ?thesis
    unfolding word_less_nat_alt dm by (auto simp: calendar_day_def)
qed

text \<open>The three sums of the source are the number of days before the date.\<close>

lemma calendar_days:
  assumes "calendar_day (unat (year :: u32), unat (month :: u32), unat (day :: u32))"
  shows "foldl (\<lambda>days k. days + ucast (days_in_month year (of_nat k)))
      (foldl (\<lambda>days k. days + (if leap_year (of_nat k) then 366 else 365)) (0 :: u64) [1970..<unat year])
      [1..<unat month] + ucast (day - 1) =
    of_nat (card (days_before (unat year) (unat month) (unat day)))"
proof -
  let ?y = "unat year" and ?m = "unat month" and ?d = "unat day"
  have c: "1970 \<le> ?y" "1 \<le> ?m" "?m \<le> 12" "1 \<le> ?d" "?d \<le> month_length ?y ?m"
    using assms by (simp_all add: calendar_day_def)
  have dim: "unat (days_in_month year (of_nat k)) = month_length ?y k" if "k < 4294967296" for k
    using days_in_month_nat [OF unat_less_32 that] by simp
  have years: "foldl (\<lambda>days k. days + (if leap_year (of_nat k) then 366 else 365)) (0 :: u64) [1970..<?y] =
      of_nat (\<Sum>k = 1970..<?y. if leap k then 366 else 365)"
    using unat_less_32 [of year]
    by (subst foldl_sum [where g = "\<lambda>k. if leap k then 366 else 365"]) (simp_all add: leap_year_nat)
  have months: "foldl (\<lambda>days k. days + ucast (days_in_month year (of_nat k))) a [1..<?m] =
      a + of_nat (\<Sum>k = 1..<?m. month_length ?y k)" for a :: u64
    using unat_less_32 [of month] by (intro foldl_sum) (simp add: ucast_nat dim)
  have "unat (day - 1) = ?d - 1" using c(4) by (simp add: unat_sub word_le_nat_alt)
  then have last: "ucast (day - 1) = (of_nat (?d - 1) :: u64)" by (simp add: ucast_nat)
  show ?thesis unfolding years months last card_days_before [OF c] by (simp only: of_nat_add)
qed

text \<open>
  C35. The conversion of a date is exact: it fails exactly when the date or the time of day
  does not exist or the year is outside 1970 to 2399, and otherwise its result is the
  number of calendar days before the date, times 86400, plus the seconds of the day.
\<close>

theorem calendar_to_unix_exact:
  "map_option unat (arwill_realtime_calendar_to_unix year month day hour minute second) =
     (if calendar_day (unat year, unat month, unat day) \<and> unat year \<le> 2399 \<and>
         unat hour \<le> 23 \<and> unat minute \<le> 59 \<and> unat second \<le> 60
      then Some (card (days_before (unat year) (unat month) (unat day)) * 86400 +
             unat hour * 3600 + unat minute * 60 + unat second)
      else None)"
proof (cases "calendar_day (unat year, unat month, unat day) \<and> unat year \<le> 2399 \<and>
    unat hour \<le> 23 \<and> unat minute \<le> 59 \<and> unat second \<le> 60")
  case True
  let ?n = "card (days_before (unat year) (unat month) (unat day))"
  have c: "1970 \<le> unat year" "1 \<le> unat month" "unat month \<le> 12" "1 \<le> unat day"
      "unat day \<le> month_length (unat year) (unat month)"
    using True by (simp_all add: calendar_day_def)
  have "arwill_realtime_calendar_to_unix year month day hour minute second =
      Some (of_nat ?n * 86400 + of_nat (unat hour) * 3600 + of_nat (unat minute) * 60 + of_nat (unat second))"
    unfolding arwill_realtime_calendar_to_unix_def Let_def calendar_days [OF conjunct1 [OF True]]
    unfolding ucast_nat using iffD2 [OF calendar_guard True] by (rule if_not_P)
  also have "\<dots> = Some (of_nat (?n * 86400 + unat hour * 3600 + unat minute * 60 + unat second))" by simp
  finally have r: "arwill_realtime_calendar_to_unix year month day hour minute second =
      Some (of_nat (?n * 86400 + unat hour * 3600 + unat minute * 60 + unat second))" .
  have "unat day \<le> 31" using c(5) by (auto simp: month_length_def split: if_splits)
  then have "?n \<le> 200000"
    using True c(3) card_days_before [OF c] date_sum_bound [of "unat year" "unat month" "unat day"] by simp
  then have "?n * 86400 + unat hour * 3600 + unat minute * 60 + unat second < 18446744073709551616"
    using True by simp
  then have "unat (of_nat (?n * 86400 + unat hour * 3600 + unat minute * 60 + unat second) :: u64) =
      ?n * 86400 + unat hour * 3600 + unat minute * 60 + unat second"
    by (subst unat_of_nat) simp
  then show ?thesis unfolding r option.map if_P [OF True] by (rule arg_cong)
next
  case False
  then show ?thesis using calendar_guard by (simp add: arwill_realtime_calendar_to_unix_def)
qed

theorem calendar_to_unix_exact_witness:
  "map_option unat (arwill_realtime_calendar_to_unix 1970 1 1 0 0 7) =
     Some (card (days_before 1970 1 1) * 86400 + 7)"
  using calendar_to_unix_exact [of 1970 1 1 0 0 7] by (simp add: calendar_day_def month_length_def)

end
