(* ===== verification/Process.thy ===== *)
theory Process
  imports Arwill_Prelude
begin

text \<open>
  \<open>kernel/process.c\<close>: the table of cooperative processes. The code of a process is a
  parameter \<open>resume\<close>: from a point of its execution it runs until it calls
  \<open>arwill_process_yield\<close> or returns, and may call the process manager meanwhile. The
  saved context of a process is the point where it will go on. A pointer to a process
  is its table index; the context switch itself is \<open>arch/x86_64/cpu\<close> code.
\<close>

section \<open>Data\<close>

abbreviation (input) arwill_process_table_capacity :: nat where "arwill_process_table_capacity \<equiv> 8"

datatype arwill_process_state = Process_empty | Process_ready | Process_running | Process_finished

datatype arwill_process_kind = Process_kernel | Process_system

record 'c arwill_process_runtime =
  rn_pid :: u32
  rn_name :: bytes
  rn_run_count :: u64
  rn_context :: "'c option"

text \<open>
  A saved context: none, one prepared to start the trampoline, or one left in a yield
  of the process with the runtime on its stack.
\<close>

datatype ('p, 'c) arwill_process_context =
    No_context | Start_context | Yielded "'c arwill_process_runtime" 'p

record ('p, 'c) arwill_process =
  pc_pid :: u32
  pc_name :: bytes
  pc_kind :: arwill_process_kind
  pc_state :: arwill_process_state
  pc_exit_code :: u32
  pc_run_count :: u64
  pc_entry :: "'p option"
  pc_context :: "'c option"
  pc_saved_context :: "('p, 'c) arwill_process_context"

record arwill_process_context_backend =
  bk_initialize :: "(nat \<Rightarrow> bool) option"
  bk_switch_context :: bool

record ('p, 'c) arwill_process_manager =
  pm_table :: "('p, 'c) arwill_process list"
  pm_scheduler_context :: bool
  pm_context_backend :: "arwill_process_context_backend option"
  pm_current :: "nat option"
  pm_next_pid :: u32

definition clear_process :: "('p, 'c) arwill_process" where
  "clear_process = \<lparr>pc_pid = 0, pc_name = [], pc_kind = Process_kernel, pc_state = Process_empty,
     pc_exit_code = 0, pc_run_count = 0, pc_entry = None, pc_context = None,
     pc_saved_context = No_context\<rparr>"

definition arwill_process_manager_init ::
    "('p, 'c) arwill_process_manager \<Rightarrow> arwill_process_context_backend option \<Rightarrow>
     ('p, 'c) arwill_process_manager" where
  "arwill_process_manager_init manager context_backend =
     manager\<lparr>pm_table := map (\<lambda>_. clear_process) (pm_table manager), pm_scheduler_context := False,
       pm_context_backend := context_backend, pm_current := None, pm_next_pid := 1\<rparr>"

definition process_at :: "('p, 'c) arwill_process_manager \<Rightarrow> nat \<Rightarrow> ('p, 'c) arwill_process" where
  "process_at manager i = pm_table manager ! i"

definition with_process ::
    "nat \<Rightarrow> (('p, 'c) arwill_process \<Rightarrow> ('p, 'c) arwill_process) \<Rightarrow>
     ('p, 'c) arwill_process_manager \<Rightarrow> ('p, 'c) arwill_process_manager" where
  "with_process i f manager = manager\<lparr>pm_table := (pm_table manager)[i := f (pm_table manager ! i)]\<rparr>"

section \<open>Spawning\<close>

definition find_spawn_slot :: "('p, 'c) arwill_process_manager \<Rightarrow> nat option" where
  "find_spawn_slot manager =
     (case find (\<lambda>i. pc_state (process_at manager i) = Process_empty) [0..<arwill_process_table_capacity] of
        Some i \<Rightarrow> Some i
      | None \<Rightarrow> find (\<lambda>i. pc_state (process_at manager i) = Process_finished) [0..<arwill_process_table_capacity])"

definition spawn_process ::
    "('p, 'c) arwill_process_manager \<Rightarrow> bytes option \<Rightarrow> arwill_process_kind \<Rightarrow> 'p option \<Rightarrow> 'c option \<Rightarrow>
     u32 option \<times> ('p, 'c) arwill_process_manager" where
  "spawn_process manager name kind entry context =
     (case (pm_context_backend manager, name, entry) of
        (Some backend, Some name, Some code) \<Rightarrow>
         (case bk_initialize backend of
            None \<Rightarrow> (None, manager)
          | Some initialize \<Rightarrow>
             if \<not> bk_switch_context backend then (None, manager)
             else
               (case find_spawn_slot manager of
                  None \<Rightarrow> (None, manager)
                | Some slot \<Rightarrow>
                   (let new_pid = pm_next_pid manager;
                        next_pid = (if new_pid + 1 = 0 then 1 else new_pid + 1);
                        manager = with_process slot (\<lambda>p. p\<lparr>pc_pid := new_pid, pc_name := name,
                            pc_kind := kind, pc_state := Process_ready, pc_exit_code := 0,
                            pc_run_count := 0, pc_entry := entry, pc_context := context\<rparr>)
                          (manager\<lparr>pm_next_pid := next_pid\<rparr>)
                    in if \<not> initialize slot then (None, with_process slot (\<lambda>_. clear_process) manager)
                       else (Some new_pid,
                         with_process slot (\<lambda>p. p\<lparr>pc_saved_context := Start_context\<rparr>) manager))))
      | _ \<Rightarrow> (None, manager))"

definition arwill_process_spawn ::
    "('p, 'c) arwill_process_manager \<Rightarrow> bytes option \<Rightarrow> 'p option \<Rightarrow> 'c option \<Rightarrow>
     u32 option \<times> ('p, 'c) arwill_process_manager" where
  "arwill_process_spawn manager name entry context = spawn_process manager name Process_kernel entry context"

definition arwill_process_spawn_system ::
    "('p, 'c) arwill_process_manager \<Rightarrow> bytes option \<Rightarrow> 'p option \<Rightarrow> 'c option \<Rightarrow>
     u32 option \<times> ('p, 'c) arwill_process_manager" where
  "arwill_process_spawn_system manager name entry context =
     spawn_process manager name Process_system entry context"

section \<open>Running\<close>

text \<open>
  What a call of \<open>arwill_process_yield\<close> needs to leave the process, the part of it before
  the switch, and the part after.
\<close>

definition yields :: "'c arwill_process_runtime \<Rightarrow> ('p, 'c) arwill_process_manager \<Rightarrow> bool" where
  "yields runtime manager =
     (case pm_current manager of
        None \<Rightarrow> False
      | Some i \<Rightarrow> pc_pid (process_at manager i) = rn_pid runtime \<and> pm_scheduler_context manager \<and>
          (case pm_context_backend manager of None \<Rightarrow> False | Some b \<Rightarrow> bk_switch_context b))"

definition yield_out ::
    "'c arwill_process_runtime \<Rightarrow> 'p \<Rightarrow> ('p, 'c) arwill_process_manager \<Rightarrow> ('p, 'c) arwill_process_manager" where
  "yield_out runtime point manager =
     (with_process (the (pm_current manager))
        (\<lambda>p. p\<lparr>pc_state := Process_ready, pc_saved_context := Yielded runtime point\<rparr>) manager)
     \<lparr>pm_current := None\<rparr>"

definition yield_in :: "nat \<Rightarrow> ('p, 'c) arwill_process_manager \<Rightarrow> ('p, 'c) arwill_process_manager" where
  "yield_in i manager =
     with_process i (\<lambda>p. p\<lparr>pc_state := Process_running\<rparr>) (manager\<lparr>pm_current := Some i\<rparr>)"

text \<open>The end of \<open>process_trampoline\<close>: without a scheduler to return to it never returns.\<close>

definition finish_process ::
    "nat \<Rightarrow> u32 \<Rightarrow> ('p, 'c) arwill_process_manager \<Rightarrow> ('p, 'c) arwill_process_manager option" where
  "finish_process i exit_code manager =
     (if \<not> pm_scheduler_context manager then None
      else Some ((with_process i (\<lambda>p. p\<lparr>pc_exit_code := exit_code, pc_state := Process_finished,
                    pc_saved_context := No_context\<rparr>) manager)\<lparr>pm_current := None\<rparr>))"

partial_function (option) run_process ::
    "('p \<Rightarrow> 'c arwill_process_runtime \<Rightarrow> ('p, 'c) arwill_process_manager \<Rightarrow>
        (u32 + 'p) \<times> ('p, 'c) arwill_process_manager) \<Rightarrow>
     nat \<Rightarrow> 'c arwill_process_runtime \<Rightarrow> 'p \<Rightarrow> ('p, 'c) arwill_process_manager \<Rightarrow>
     ('p, 'c) arwill_process_manager option" where
  "run_process resume i runtime point manager =
     (case resume point runtime manager of
        (Inl exit_code, manager) \<Rightarrow> finish_process i exit_code manager
      | (Inr point, manager) \<Rightarrow>
          if yields runtime manager then Some (yield_out runtime point manager)
          else run_process resume i runtime point manager)"

text \<open>The context switch into a process and everything until the switch back.\<close>

definition enter_process ::
    "('p \<Rightarrow> 'c arwill_process_runtime \<Rightarrow> ('p, 'c) arwill_process_manager \<Rightarrow>
        (u32 + 'p) \<times> ('p, 'c) arwill_process_manager) \<Rightarrow>
     nat \<Rightarrow> ('p, 'c) arwill_process_manager \<Rightarrow> ('p, 'c) arwill_process_manager option" where
  "enter_process resume i manager =
     (let p = process_at manager i
      in case pc_saved_context p of
           No_context \<Rightarrow> None
         | Yielded runtime point \<Rightarrow> run_process resume i runtime point (yield_in i manager)
         | Start_context \<Rightarrow>
            (case pc_entry p of
               None \<Rightarrow> None
             | Some code \<Rightarrow>
                 run_process resume i
                   \<lparr>rn_pid = pc_pid p, rn_name = pc_name p, rn_run_count = pc_run_count p - 1,
                    rn_context = pc_context p\<rparr> code manager))"

fun run_from ::
    "('p \<Rightarrow> 'c arwill_process_runtime \<Rightarrow> ('p, 'c) arwill_process_manager \<Rightarrow>
        (u32 + 'p) \<times> ('p, 'c) arwill_process_manager) \<Rightarrow>
     arwill_process_kind \<Rightarrow> nat option \<Rightarrow> bool \<Rightarrow> nat list \<Rightarrow> nat \<Rightarrow> ('p, 'c) arwill_process_manager \<Rightarrow>
     (nat \<times> ('p, 'c) arwill_process_manager) option" where
  "run_from resume kind previous scheduler [] run_count manager = Some (run_count, manager)"
| "run_from resume kind previous scheduler (i # is) run_count manager =
     (if pc_state (process_at manager i) \<noteq> Process_ready \<or> pc_kind (process_at manager i) \<noteq> kind
      then run_from resume kind previous scheduler is run_count manager
      else
        (let manager = (with_process i (\<lambda>p. p\<lparr>pc_state := Process_running,
                 pc_run_count := pc_run_count p + 1\<rparr>) manager)
               \<lparr>pm_current := Some i, pm_scheduler_context := True\<rparr>
         in case enter_process resume i manager of
              None \<Rightarrow> None
            | Some manager \<Rightarrow>
                run_from resume kind previous scheduler is (run_count + 1)
                  (manager\<lparr>pm_current := previous, pm_scheduler_context := scheduler\<rparr>)))"

definition run_ready_kind ::
    "('p \<Rightarrow> 'c arwill_process_runtime \<Rightarrow> ('p, 'c) arwill_process_manager \<Rightarrow>
        (u32 + 'p) \<times> ('p, 'c) arwill_process_manager) \<Rightarrow>
     ('p, 'c) arwill_process_manager \<Rightarrow> arwill_process_kind \<Rightarrow>
     (nat \<times> ('p, 'c) arwill_process_manager) option" where
  "run_ready_kind resume manager kind =
     (case pm_context_backend manager of
        None \<Rightarrow> Some (0, manager)
      | Some backend \<Rightarrow>
          if \<not> bk_switch_context backend then Some (0, manager)
          else run_from resume kind (pm_current manager) (pm_scheduler_context manager)
            [0..<arwill_process_table_capacity] 0 manager)"

definition arwill_process_run_ready ::
    "('p \<Rightarrow> 'c arwill_process_runtime \<Rightarrow> ('p, 'c) arwill_process_manager \<Rightarrow>
        (u32 + 'p) \<times> ('p, 'c) arwill_process_manager) \<Rightarrow>
     ('p, 'c) arwill_process_manager \<Rightarrow> (nat \<times> ('p, 'c) arwill_process_manager) option" where
  "arwill_process_run_ready resume manager = run_ready_kind resume manager Process_kernel"

definition arwill_process_run_system ::
    "('p \<Rightarrow> 'c arwill_process_runtime \<Rightarrow> ('p, 'c) arwill_process_manager \<Rightarrow>
        (u32 + 'p) \<times> ('p, 'c) arwill_process_manager) \<Rightarrow>
     ('p, 'c) arwill_process_manager \<Rightarrow> (nat \<times> ('p, 'c) arwill_process_manager) option" where
  "arwill_process_run_system resume manager = run_ready_kind resume manager Process_system"

definition arwill_process_state_name :: "arwill_process_state \<Rightarrow> bytes" where
  "arwill_process_state_name s = bytes_of (case s of
       Process_empty \<Rightarrow> ''empty'' | Process_ready \<Rightarrow> ''ready'' | Process_running \<Rightarrow> ''running''
     | Process_finished \<Rightarrow> ''finished'')"

definition arwill_process_kind_name :: "arwill_process_kind \<Rightarrow> bytes" where
  "arwill_process_kind_name k = bytes_of (case k of Process_kernel \<Rightarrow> ''kernel'' | Process_system \<Rightarrow> ''system'')"

section \<open>Well-formed tables\<close>

text \<open>
  A ready process has somewhere to go on: the trampoline with its entry, or its own
  yield with a runtime that carries its number.
\<close>

definition process_ok :: "('p, 'c) arwill_process \<Rightarrow> bool" where
  "process_ok p \<longleftrightarrow> pc_state p = Process_ready \<longrightarrow>
     (case pc_saved_context p of
        No_context \<Rightarrow> False
      | Start_context \<Rightarrow> pc_entry p \<noteq> None
      | Yielded runtime point \<Rightarrow> rn_pid runtime = pc_pid p)"

definition manager_ok :: "('p, 'c) arwill_process_manager \<Rightarrow> bool" where
  "manager_ok m \<longleftrightarrow> length (pm_table m) = 8 \<and> (\<forall>i<8. process_ok (process_at m i)) \<and>
     (case pm_context_backend m of None \<Rightarrow> False | Some b \<Rightarrow> bk_switch_context b)"

definition idle_slot :: "('p, 'c) arwill_process \<Rightarrow> bool" where
  "idle_slot p \<longleftrightarrow> pc_state p = Process_empty \<or> pc_state p = Process_finished"

text \<open>A slot given to a new process that has not run yet, or cleared because that failed.\<close>

definition taken_over :: "('p, 'c) arwill_process \<Rightarrow> bool" where
  "taken_over p \<longleftrightarrow> pc_state p = Process_empty \<or>
     pc_state p = Process_ready \<and> pc_saved_context p = Start_context \<and> pc_run_count p = 0"

text \<open>What spawning may change: idle slots only.\<close>

definition grown :: "('p, 'c) arwill_process_manager \<Rightarrow> ('p, 'c) arwill_process_manager \<Rightarrow> bool" where
  "grown m m' \<longleftrightarrow> pm_current m' = pm_current m \<and> pm_scheduler_context m' = pm_scheduler_context m \<and>
     pm_context_backend m' = pm_context_backend m \<and> (manager_ok m \<longrightarrow> manager_ok m') \<and>
     (\<forall>i<8. process_at m' i = process_at m i \<or>
        idle_slot (process_at m i) \<and> taken_over (process_at m' i))"

inductive spawns :: "('p, 'c) arwill_process_manager \<Rightarrow> ('p, 'c) arwill_process_manager \<Rightarrow> bool" where
  none: "spawns m m"
| one: "spawns m m1 \<Longrightarrow> spawn_process m1 name kind entry context = (r, m') \<Longrightarrow> spawns m m'"

lemma grown_refl [simp]: "grown m m"
  by (simp add: grown_def)

lemma grown_trans: "grown m m1 \<Longrightarrow> grown m1 m' \<Longrightarrow> grown m m'"
  unfolding grown_def idle_slot_def taken_over_def by (metis arwill_process_state.distinct)

lemma process_at_with: "process_at (with_process i f m) j =
    (if i = j \<and> i < length (pm_table m) then f (process_at m i) else process_at m j)"
  by (cases "i < length (pm_table m)"; cases "i = j")
    (simp_all add: process_at_def with_process_def list_update_beyond)

lemma with_process_fields [simp]:
  "length (pm_table (with_process i f m)) = length (pm_table m)"
  "pm_current (with_process i f m) = pm_current m"
  "pm_scheduler_context (with_process i f m) = pm_scheduler_context m"
  "pm_context_backend (with_process i f m) = pm_context_backend m"
  "length (pm_table (m\<lparr>pm_next_pid := k\<rparr>)) = length (pm_table m)"
  by (simp_all add: with_process_def)

lemma process_at_fields [simp]:
  "process_at (m\<lparr>pm_current := c\<rparr>) j = process_at m j"
  "process_at (m\<lparr>pm_scheduler_context := s\<rparr>) j = process_at m j"
  "process_at (m\<lparr>pm_next_pid := n\<rparr>) j = process_at m j"
  by (simp_all add: process_at_def)

lemma spawn_slot:
  assumes "find_spawn_slot m = Some i"
  shows "i < 8 \<and> idle_slot (process_at m i)"
  using assms by (auto simp: find_spawn_slot_def idle_slot_def find_Some_iff split: option.splits)

lemma fresh_slot:
  assumes m: "pm_current m' = pm_current m" "pm_scheduler_context m' = pm_scheduler_context m"
      "pm_context_backend m' = pm_context_backend m" "length (pm_table m') = length (pm_table m)"
    and i: "i < 8" "idle_slot (process_at m i)"
    and other: "\<And>j. j \<noteq> i \<Longrightarrow> process_at m' j = process_at m j"
    and new: "length (pm_table m) = 8 \<Longrightarrow> taken_over (process_at m' i) \<and> process_ok (process_at m' i)"
    and len: "length (pm_table m) \<noteq> 8 \<Longrightarrow> process_at m' i = process_at m i \<or> taken_over (process_at m' i)"
  shows "grown m m'"
proof -
  have "process_at m' j = process_at m j \<or> idle_slot (process_at m j) \<and> taken_over (process_at m' j)" for j
    using other i(2) new len by (cases "j = i") auto
  moreover have "manager_ok m'" if ok: "manager_ok m"
  proof -
    have "process_ok (process_at m' j)" if "j < 8" for j
      using other [of j] ok new that by (cases "j = i") (auto simp: manager_ok_def)
    then show ?thesis using ok m by (simp add: manager_ok_def)
  qed
  ultimately show ?thesis using m by (simp add: grown_def)
qed

lemma spawn_cases:
  assumes "spawn_process m name kind entry context = (r, m')"
  obtains "m' = m" "r = None"
  | slot m1 n code where "find_spawn_slot m = Some slot" "entry = Some code"
    "m1 = with_process slot (\<lambda>p. p\<lparr>pc_pid := pm_next_pid m, pc_name := n, pc_kind := kind,
          pc_state := Process_ready, pc_exit_code := 0, pc_run_count := 0, pc_entry := entry,
          pc_context := context\<rparr>)
        (m\<lparr>pm_next_pid := (if pm_next_pid m + 1 = 0 then 1 else pm_next_pid m + 1)\<rparr>)"
    "m' = with_process slot (\<lambda>_. clear_process) m1 \<and> r = None \<or>
     m' = with_process slot (\<lambda>p. p\<lparr>pc_saved_context := Start_context\<rparr>) m1 \<and> r = Some (pm_next_pid m)"
proof (cases "\<exists>b n code initialize slot. pm_context_backend m = Some b \<and> name = Some n \<and>
    entry = Some code \<and> bk_initialize b = Some initialize \<and> bk_switch_context b \<and>
    find_spawn_slot m = Some slot")
  case True
  then obtain b n code initialize slot where c: "pm_context_backend m = Some b" "name = Some n"
      "entry = Some code" "bk_initialize b = Some initialize" "bk_switch_context b"
      "find_spawn_slot m = Some slot"
    by blast
  show ?thesis
    by (rule that(2) [where n = n, OF c(6,3) refl])
      (use assms c in \<open>auto simp: spawn_process_def Let_def split: if_splits\<close>)
next
  case False
  then show ?thesis
    using assms by (intro that(1)) (auto simp: spawn_process_def Let_def split: option.splits if_splits)
qed

lemma spawn_grown:
  assumes "spawn_process m name kind entry context = (r, m')"
  shows "grown m m'"
  using assms
proof (cases rule: spawn_cases)
  case (2 slot m1 n code)
  note s = spawn_slot [OF 2(1)]
  show ?thesis
  proof (rule fresh_slot)
    show "slot < 8" "idle_slot (process_at m slot)" using s by simp_all
    show "taken_over (process_at m' slot) \<and> process_ok (process_at m' slot)" if "length (pm_table m) = 8"
      using that s 2(2-4) by (auto simp: process_at_with taken_over_def process_ok_def clear_process_def)
    show "process_at m' slot = process_at m slot \<or> taken_over (process_at m' slot)"
      using 2(2-4) by (auto simp: process_at_with taken_over_def clear_process_def)
  qed (use 2(3,4) in \<open>auto simp: process_at_with\<close>)
qed simp

lemma spawns_grown: "spawns m m' \<Longrightarrow> grown m m'"
  by (induction rule: spawns.induct) (auto intro: grown_trans spawn_grown)

section \<open>A round of the scheduler\<close>

text \<open>
  Processes that leave the table to the process manager: all they do with it is spawn.
\<close>

definition polite ::
    "('p \<Rightarrow> 'c arwill_process_runtime \<Rightarrow> ('p, 'c) arwill_process_manager \<Rightarrow>
        (u32 + 'p) \<times> ('p, 'c) arwill_process_manager) \<Rightarrow> bool" where
  "polite resume \<longleftrightarrow> (\<forall>point runtime m r m'. resume point runtime m = (r, m') \<longrightarrow> spawns m m')"

text \<open>One run of a process: its slot afterwards.\<close>

definition ran :: "('p, 'c) arwill_process \<Rightarrow> ('p, 'c) arwill_process \<Rightarrow> bool" where
  "ran p q \<longleftrightarrow> pc_pid q = pc_pid p \<and> pc_name q = pc_name p \<and> pc_kind q = pc_kind p \<and>
     pc_run_count q = pc_run_count p + 1 \<and> (pc_state q = Process_ready \<or> pc_state q = Process_finished)"

definition due :: "arwill_process_kind \<Rightarrow> ('p, 'c) arwill_process \<Rightarrow> bool" where
  "due kind p \<longleftrightarrow> pc_state p = Process_ready \<and> pc_kind p = kind"

text \<open>
  What a round makes of a slot: a process whose turn it is runs once (and only then may a
  new one take its slot), an idle slot may get a new process, which may run once as well,
  and everything else stays.
\<close>

definition slot_round :: "arwill_process_kind \<Rightarrow> ('p, 'c) arwill_process \<Rightarrow> ('p, 'c) arwill_process \<Rightarrow> bool" where
  "slot_round kind p q \<longleftrightarrow>
     (if due kind p then ran p q \<or> taken_over q
      else if idle_slot p then q = p \<or> taken_over q \<or> pc_kind q = kind \<and> pc_run_count q = 1
      else q = p)"

definition slot_skip :: "('p, 'c) arwill_process \<Rightarrow> ('p, 'c) arwill_process \<Rightarrow> bool" where
  "slot_skip p q \<longleftrightarrow> q = p \<or> idle_slot p \<and> taken_over q"

lemmas slot_defs = slot_round_def slot_skip_def due_def ran_def idle_slot_def taken_over_def

lemma skip_trans: "slot_skip p q \<Longrightarrow> slot_skip q r \<Longrightarrow> slot_skip p r"
  unfolding slot_skip_def idle_slot_def taken_over_def by auto

lemma skip_round: "slot_skip p q \<Longrightarrow> slot_round kind q r \<Longrightarrow> slot_round kind p r"
  unfolding slot_defs by (auto split: if_splits)

lemma round_skip: "due kind p \<Longrightarrow> ran p q \<Longrightarrow> slot_skip q r \<Longrightarrow> slot_round kind p r"
  unfolding slot_defs by auto

lemma not_due_skip: "\<not> due kind p \<Longrightarrow> slot_skip p q \<Longrightarrow> slot_round kind p q"
  unfolding slot_defs by auto

lemma run_process_ok:
  assumes polite: "polite resume" and ok: "manager_ok m" and i: "i < 8"
    and cur: "pm_current m = Some i" "pm_scheduler_context m"
    and p: "pc_state (process_at m i) = Process_running" "rn_pid runtime = pc_pid (process_at m i)"
  obtains m' q where "run_process resume i runtime point m = Some m'" "manager_ok m'"
    "\<forall>j<8. j \<noteq> i \<longrightarrow> slot_skip (process_at m j) (process_at m' j)"
    "process_at m' i = q" "pc_pid q = pc_pid (process_at m i)" "pc_name q = pc_name (process_at m i)"
    "pc_kind q = pc_kind (process_at m i)" "pc_run_count q = pc_run_count (process_at m i)"
    "pc_state q = Process_ready \<or> pc_state q = Process_finished"
    "pm_context_backend m' = pm_context_backend m"
proof -
  obtain r m1 where r: "resume point runtime m = (r, m1)" by (cases "resume point runtime m")
  have g: "grown m m1" using polite r by (auto simp: polite_def intro: spawns_grown)
  then have ok1: "manager_ok m1" and sk: "\<forall>j<8. slot_skip (process_at m j) (process_at m1 j)"
    and cur1: "pm_current m1 = Some i" "pm_scheduler_context m1"
    and be: "pm_context_backend m1 = pm_context_backend m"
    using ok cur by (auto simp: grown_def slot_skip_def)
  have pi: "process_at m1 i = process_at m i"
    using sk i p(1) by (auto simp: slot_skip_def idle_slot_def)
  define m' where "m' = (case r of Inl code \<Rightarrow> (with_process i (\<lambda>p. p\<lparr>pc_exit_code := code,
        pc_state := Process_finished, pc_saved_context := No_context\<rparr>) m1)\<lparr>pm_current := None\<rparr>
    | Inr point \<Rightarrow> yield_out runtime point m1)"
  have "yields runtime m1"
    using cur1 p(2) pi ok1 by (auto simp: yields_def manager_ok_def split: option.splits)
  then have run: "run_process resume i runtime point m = Some m'"
    using cur1 by (simp add: run_process.simps [of resume i runtime point m] r m'_def finish_process_def
        split: sum.splits)
  have len: "length (pm_table m1) = 8" using ok1 by (simp add: manager_ok_def)
  have at: "process_at m' j = process_at m1 j" if "j \<noteq> i" for j
    using that cur1 by (auto simp: m'_def yield_out_def process_at_with split: sum.splits)
  have "process_ok (process_at m' i)"
    using i len p(2) pi cur1
    by (auto simp: m'_def yield_out_def process_at_with process_ok_def split: sum.splits)
  then have "process_ok (process_at m' j)" if "j < 8" for j
    using that at ok1 by (cases "j = i") (simp_all add: manager_ok_def)
  moreover have same: "length (pm_table m') = 8" "pm_context_backend m' = pm_context_backend m1"
    using len by (auto simp: m'_def yield_out_def split: sum.splits)
  ultimately have ok': "manager_ok m'" using ok1 by (simp add: manager_ok_def)
  show ?thesis
    by (rule that [OF run ok' _ refl])
      (use sk at i len cur1 pi be in \<open>auto simp: m'_def yield_out_def process_at_with split: sum.splits\<close>)
qed

definition turn :: "nat \<Rightarrow> ('p, 'c) arwill_process_manager \<Rightarrow> ('p, 'c) arwill_process_manager" where
  "turn i m = (with_process i (\<lambda>p. p\<lparr>pc_state := Process_running, pc_run_count := pc_run_count p + 1\<rparr>) m)
     \<lparr>pm_current := Some i, pm_scheduler_context := True\<rparr>"

lemma turn_at: "process_at (turn i m) j =
    (if i = j \<and> i < length (pm_table m)
     then (process_at m i)\<lparr>pc_state := Process_running, pc_run_count := pc_run_count (process_at m i) + 1\<rparr>
     else process_at m j)"
  by (simp add: turn_def process_at_with)

lemma turn_backend: "pm_context_backend (turn i m) = pm_context_backend m"
  by (simp add: turn_def)

lemma turn_ok:
  assumes "manager_ok m" shows "manager_ok (turn i m)"
proof -
  have "process_ok (process_at (turn i m) j)" if "j < 8" for j
    using assms that by (auto simp: manager_ok_def turn_at process_ok_def)
  then show ?thesis using assms by (simp add: manager_ok_def turn_def)
qed

lemma yield_in_turn:
  assumes "manager_ok m" "i < 8"
  shows "yield_in i (turn i m) = turn i m"
proof -
  obtain table s b c k where m: "m = \<lparr>pm_table = table, pm_scheduler_context = s, pm_context_backend = b,
      pm_current = c, pm_next_pid = k\<rparr>"
    by (cases m)
  show ?thesis
    using assms by (cases "table ! i") (simp add: m yield_in_def turn_def with_process_def manager_ok_def)
qed

lemma enter_ok:
  assumes polite: "polite resume" and ok: "manager_ok m" and i: "i < 8" "due kind (process_at m i)"
  obtains m' where "enter_process resume i (turn i m) = Some m'" "manager_ok m'"
    "\<forall>j<8. j \<noteq> i \<longrightarrow> slot_skip (process_at m j) (process_at m' j)"
    "ran (process_at m i) (process_at m' i)" "pm_context_backend m' = pm_context_backend m"
proof -
  let ?p = "process_at m i" and ?m = "turn i m"
  have len: "length (pm_table m) = 8" and p: "process_ok ?p" using ok i(1) by (simp_all add: manager_ok_def)
  have fields: "pm_current ?m = Some i" "pm_scheduler_context ?m" by (simp_all add: turn_def)
  obtain runtime point where e: "enter_process resume i ?m = run_process resume i runtime point ?m"
      and pid: "rn_pid runtime = pc_pid ?p"
  proof (cases "pc_saved_context ?p")
    case (Yielded runtime point)
    then show ?thesis
      using p i len that [of runtime point]
      by (simp add: enter_process_def turn_at yield_in_turn [OF ok] process_ok_def due_def)
  qed (use p i len that in \<open>auto simp: enter_process_def turn_at process_ok_def due_def\<close>)
  have run: "pc_state (process_at ?m i) = Process_running" "rn_pid runtime = pc_pid (process_at ?m i)"
    using i len pid by (simp_all add: turn_at)
  obtain m' q where r: "run_process resume i runtime point ?m = Some m'" "manager_ok m'"
    "\<forall>j<8. j \<noteq> i \<longrightarrow> slot_skip (process_at ?m j) (process_at m' j)"
    "process_at m' i = q" "pc_pid q = pc_pid (process_at ?m i)" "pc_name q = pc_name (process_at ?m i)"
    "pc_kind q = pc_kind (process_at ?m i)" "pc_run_count q = pc_run_count (process_at ?m i)"
    "pc_state q = Process_ready \<or> pc_state q = Process_finished"
    "pm_context_backend m' = pm_context_backend ?m"
    by (rule run_process_ok [OF polite turn_ok [OF ok] i(1) fields run])
  show ?thesis
    by (rule that [of m']) (use e r i(1) len in \<open>simp_all add: turn_at ran_def turn_backend\<close>)
qed

lemma run_from_round:
  assumes "polite resume" "manager_ok m" "distinct is" "\<forall>j\<in>set is. j < 8"
    "pm_current m = previous" "pm_scheduler_context m = scheduler"
  shows "\<exists>n m'. run_from resume kind previous scheduler is c m = Some (c + n, m') \<and> manager_ok m' \<and>
    pm_current m' = previous \<and> pm_scheduler_context m' = scheduler \<and>
    length (filter (\<lambda>j. due kind (process_at m j)) is) \<le> n \<and> n \<le> length is \<and>
    (\<forall>j<8. if j \<in> set is then slot_round kind (process_at m j) (process_at m' j)
       else slot_skip (process_at m j) (process_at m' j))"
  using assms
proof (induction "is" arbitrary: m c)
  case Nil
  then show ?case by (simp add: slot_skip_def)
next
  case (Cons i "is")
  show ?case
  proof (cases "due kind (process_at m i)")
    case False
    then show ?thesis
      using Cons.IH [of m c] Cons.prems by (fastforce simp: due_def intro: not_due_skip)
  next
    case True
    obtain m1 where m1: "enter_process resume i (turn i m) = Some m1" "manager_ok m1"
        "\<forall>j<8. j \<noteq> i \<longrightarrow> slot_skip (process_at m j) (process_at m1 j)"
        "ran (process_at m i) (process_at m1 i)" "pm_context_backend m1 = pm_context_backend m"
      by (rule enter_ok [OF Cons.prems(1,2) _ True]) (use Cons.prems in auto)
    define m2 where "m2 = m1\<lparr>pm_current := previous, pm_scheduler_context := scheduler\<rparr>"
    have at2: "process_at m2 j = process_at m1 j" for j by (simp add: m2_def)
    have ok2: "manager_ok m2" using m1(2) by (simp add: manager_ok_def at2 m2_def process_at_def)
    have run: "run_from resume kind previous scheduler (i # is) c m =
        run_from resume kind previous scheduler is (c + 1) m2"
      using True m1(1) by (simp add: due_def turn_def m2_def)
    obtain n m' where r: "run_from resume kind previous scheduler is (c + 1) m2 = Some (c + 1 + n, m')"
        "manager_ok m'" "pm_current m' = previous" "pm_scheduler_context m' = scheduler"
        "length (filter (\<lambda>j. due kind (process_at m2 j)) is) \<le> n" "n \<le> length is"
        "\<forall>j<8. if j \<in> set is then slot_round kind (process_at m2 j) (process_at m' j)
           else slot_skip (process_at m2 j) (process_at m' j)"
      using Cons.IH [OF Cons.prems(1) ok2, of "c + 1"] Cons.prems by (auto simp: m2_def)
    have keep: "due kind (process_at m2 j)" if "due kind (process_at m j)" "j \<in> set is" for j
      using m1(3) that Cons.prems by (fastforce simp: at2 slot_skip_def idle_slot_def due_def)
    have "length (filter (\<lambda>j. due kind (process_at m j)) is) \<le> length (filter (\<lambda>j. due kind (process_at m2 j)) is)"
      using keep by (auto simp: length_filter_conv_card intro!: card_mono)
    moreover have "if j \<in> set (i # is) then slot_round kind (process_at m j) (process_at m' j)
        else slot_skip (process_at m j) (process_at m' j)" if j: "j < 8" for j
      using r(7) [rule_format, OF j] m1(3,4) True Cons.prems(3) j
      by (cases "j = i") (auto simp: at2 intro: round_skip skip_round skip_trans split: if_splits)
    ultimately show ?thesis
      using r(1-6) run by (intro exI [of _ "n + 1"] exI [of _ m']) auto
  qed
qed

section \<open>Managers in use\<close>

inductive operated ::
    "('p \<Rightarrow> 'c arwill_process_runtime \<Rightarrow> ('p, 'c) arwill_process_manager \<Rightarrow>
        (u32 + 'p) \<times> ('p, 'c) arwill_process_manager) \<Rightarrow> ('p, 'c) arwill_process_manager \<Rightarrow> bool"
  for resume where
  init: "length (pm_table m) = arwill_process_table_capacity \<Longrightarrow> bk_switch_context b \<Longrightarrow>
    operated resume (arwill_process_manager_init m (Some b))"
| spawn: "operated resume m \<Longrightarrow> spawn_process m name kind entry context = (r, m') \<Longrightarrow> operated resume m'"
| run: "operated resume m \<Longrightarrow> run_ready_kind resume m kind = Some (n, m') \<Longrightarrow> operated resume m'"

lemma manager_init_ok:
  assumes "length (pm_table m) = 8" "bk_switch_context b"
  shows "manager_ok (arwill_process_manager_init m (Some b))"
  using assms by (simp add: manager_ok_def arwill_process_manager_init_def process_at_def
      clear_process_def process_ok_def)

lemma run_ready_kind_round:
  assumes "polite resume" "manager_ok m"
  shows "\<exists>n m'. run_ready_kind resume m kind = Some (n, m') \<and> manager_ok m' \<and>
    pm_current m' = pm_current m \<and> pm_scheduler_context m' = pm_scheduler_context m \<and>
    length (filter (\<lambda>j. due kind (process_at m j)) [0..<8]) \<le> n \<and> n \<le> 8 \<and>
    (\<forall>j<8. slot_round kind (process_at m j) (process_at m' j))"
proof -
  have "run_ready_kind resume m kind = run_from resume kind (pm_current m) (pm_scheduler_context m) [0..<8] 0 m"
    using assms(2) by (simp add: run_ready_kind_def manager_ok_def split: option.splits)
  then show ?thesis
    using run_from_round [OF assms, of "[0..<8]" "pm_current m" "pm_scheduler_context m" kind 0] by auto
qed

lemma operated_ok:
  assumes "operated resume m" "polite resume"
  shows "manager_ok m"
  using assms
proof (induction rule: operated.induct)
  case (spawn m name kind entry arg r m')
  then show ?case using spawn_grown [OF spawn.hyps(2)] by (simp add: grown_def)
next
  case (run m kind n m')
  then show ?case using run_ready_kind_round [of resume m kind] by auto
qed (simp add: manager_init_ok)


definition countdown ::
    "nat \<Rightarrow> unit arwill_process_runtime \<Rightarrow> (nat, unit) arwill_process_manager \<Rightarrow>
     (u32 + nat) \<times> (nat, unit) arwill_process_manager" where
  "countdown point runtime m = (case point of 0 \<Rightarrow> (Inl 7, m) | Suc n \<Rightarrow> (Inr n, m))"

definition two_counters :: "(nat, unit) arwill_process_manager" where
  "two_counters =
     (let m = arwill_process_manager_init \<lparr>pm_table = replicate 8 clear_process, pm_scheduler_context = False,
            pm_context_backend = None, pm_current = None, pm_next_pid = 0\<rparr>
          (Some \<lparr>bk_initialize = Some (\<lambda>_. True), bk_switch_context = True\<rparr>);
          m = snd (arwill_process_spawn m (Some []) (Some 0) None)
      in snd (arwill_process_spawn_system m (Some []) (Some 2) None))"

lemma countdown_polite: "polite countdown"
  by (auto simp: polite_def countdown_def intro: spawns.none split: nat.splits)

lemma two_counters_operated: "operated countdown two_counters"
proof -
  let ?m = "arwill_process_manager_init \<lparr>pm_table = replicate 8 clear_process, pm_scheduler_context = False,
            pm_context_backend = None, pm_current = None, pm_next_pid = 0\<rparr>
          (Some \<lparr>bk_initialize = Some (\<lambda>_. True), bk_switch_context = True\<rparr>)"
  obtain r1 and m1 :: "(nat, unit) arwill_process_manager"
    where 1: "arwill_process_spawn ?m (Some []) (Some 0) None = (r1, m1)" by fastforce
  obtain r2 m2 where 2: "arwill_process_spawn_system m1 (Some []) (Some 2) None = (r2, m2)" by fastforce
  have "operated countdown m2"
    by (rule operated.spawn [OF operated.spawn [OF operated.init]])
      (use 1 2 in \<open>simp_all add: arwill_process_spawn_def arwill_process_spawn_system_def\<close>)
  then show ?thesis using 1 2 by (simp add: two_counters_def Let_def)
qed


end
