(* ===== verification/Awp_Network.thy ===== *)
theory Awp_Network
  imports Ipv4_Safety
begin

text \<open>
  \<open>kernel/awp_network.c\<close>: the network calls of user programs. A program owns two stream
  handles and one UDP endpoint; a handle names an endpoint of the stack by its index. The
  stack is absent on a machine without a network. A stream lives in the stack, so the calls
  that take only an owner in the source take the stack that holds its streams as well.
\<close>

section \<open>Data\<close>

abbreviation (input) arwill_awp_network_handle_capacity :: nat where "arwill_awp_network_handle_capacity \<equiv> 2"
abbreviation (input) arwill_awp_network_io_capacity :: nat where "arwill_awp_network_io_capacity \<equiv> 256"

abbreviation (input) arwill_awp_network_retry :: int where "arwill_awp_network_retry \<equiv> -1"
abbreviation (input) arwill_awp_network_invalid :: int where "arwill_awp_network_invalid \<equiv> -2"
abbreviation (input) arwill_awp_network_unavailable :: int where "arwill_awp_network_unavailable \<equiv> -3"
abbreviation (input) arwill_awp_network_closed :: int where "arwill_awp_network_closed \<equiv> -4"
abbreviation (input) arwill_awp_network_address_in_use :: int where "arwill_awp_network_address_in_use \<equiv> -5"

datatype arwill_awp_network_handle_state =
    Handle_free | Handle_open | Handle_bound | Handle_listening | Handle_connecting | Handle_closing

record arwill_awp_network_handle =
  hd_stream :: "nat option"
  hd_local_port :: u16
  hd_state :: arwill_awp_network_handle_state

record arwill_awp_network_owner =
  ow_handles :: "arwill_awp_network_handle list"
  ow_udp :: "nat option"
  ow_udp_local_port :: u16
  ow_udp_bound :: bool
  ow_udp_connecting :: bool

definition network_handle :: "arwill_awp_network_owner \<Rightarrow> u64 \<Rightarrow> nat option" where
  "network_handle owner handle =
     (if handle \<ge> of_nat arwill_awp_network_handle_capacity then None else Some (unat handle))"

definition handle_at :: "arwill_awp_network_owner \<Rightarrow> nat \<Rightarrow> arwill_awp_network_handle" where
  "handle_at owner h = ow_handles owner ! h"

definition with_handle ::
    "nat \<Rightarrow> (arwill_awp_network_handle \<Rightarrow> arwill_awp_network_handle) \<Rightarrow> arwill_awp_network_owner \<Rightarrow>
     arwill_awp_network_owner" where
  "with_handle h f owner = owner\<lparr>ow_handles := (ow_handles owner)[h := f (ow_handles owner ! h)]\<rparr>"

definition clear_handle :: "arwill_awp_network_handle \<Rightarrow> arwill_awp_network_handle" where
  "clear_handle handle = handle\<lparr>hd_stream := None, hd_local_port := 0, hd_state := Handle_free\<rparr>"

text \<open>The handle a call names, when it has a stream: the index and the stream.\<close>

definition handle_stream :: "arwill_awp_network_owner \<Rightarrow> u64 \<Rightarrow> (nat \<times> nat) option" where
  "handle_stream owner handle =
     (case network_handle owner handle of
        None \<Rightarrow> None
      | Some h \<Rightarrow> map_option (Pair h) (hd_stream (handle_at owner h)))"

definition stream_at :: "('n, 'k) arwill_ipv4_stack \<Rightarrow> nat \<Rightarrow> arwill_tcp_stream" where
  "stream_at stack i = ep_stream (endpoint_at stack i)"

definition address_bytes :: "u32 \<Rightarrow> bytes" where
  "address_bytes peer = [ucast (drop_bit 24 peer), ucast (drop_bit 16 peer), ucast (drop_bit 8 peer), ucast peer]"

section \<open>Life of an owner\<close>

definition arwill_awp_network_owner_init :: "arwill_awp_network_owner \<Rightarrow> arwill_awp_network_owner" where
  "arwill_awp_network_owner_init owner =
     owner\<lparr>ow_handles := map clear_handle (ow_handles owner), ow_udp := None, ow_udp_local_port := 0,
       ow_udp_bound := False, ow_udp_connecting := False\<rparr>"

definition release_handle ::
    "('n, 'k) arwill_ipv4_stack option \<times> arwill_awp_network_owner \<Rightarrow> nat \<Rightarrow>
     ('n, 'k) arwill_ipv4_stack option \<times> arwill_awp_network_owner" where
  "release_handle so index =
     (case so of (stack, owner) \<Rightarrow>
        (case (hd_stream (handle_at owner index), stack) of
           (Some stream, Some s) \<Rightarrow> Some (arwill_ipv4_tcp_release s stream)
         | _ \<Rightarrow> stack,
         with_handle index clear_handle owner))"

definition arwill_awp_network_cleanup ::
    "('n, 'k) arwill_ipv4_stack option \<Rightarrow> arwill_awp_network_owner \<Rightarrow>
     ('n, 'k) arwill_ipv4_stack option \<times> arwill_awp_network_owner" where
  "arwill_awp_network_cleanup stack owner =
     (case foldl release_handle (stack, owner) [0..<arwill_awp_network_handle_capacity] of
        (stack, owner) \<Rightarrow>
          (case (ow_udp owner, stack) of
             (Some udp, Some s) \<Rightarrow> Some (arwill_ipv4_udp_release s udp)
           | _ \<Rightarrow> stack,
           owner\<lparr>ow_udp := None, ow_udp_local_port := 0, ow_udp_bound := False, ow_udp_connecting := False\<rparr>))"

section \<open>Streams\<close>

definition arwill_awp_network_open ::
    "('n, 'k) arwill_ipv4_stack option \<Rightarrow> arwill_awp_network_owner \<Rightarrow>
     int \<times> ('n, 'k) arwill_ipv4_stack option \<times> arwill_awp_network_owner" where
  "arwill_awp_network_open stack owner =
     (case stack of
        None \<Rightarrow> (arwill_awp_network_unavailable, stack, owner)
      | Some s \<Rightarrow>
         (case find (\<lambda>index. hd_state (handle_at owner index) = Handle_free)
                 [0..<arwill_awp_network_handle_capacity] of
            None \<Rightarrow> (arwill_awp_network_unavailable, stack, owner)
          | Some index \<Rightarrow>
             (case arwill_ipv4_tcp_open s of
                (stream, s) \<Rightarrow>
                  let owner = with_handle index (\<lambda>handle. handle\<lparr>hd_stream := stream\<rparr>) owner
                  in if stream = None then (arwill_awp_network_unavailable, Some s, owner)
                     else (int index, Some s,
                       with_handle index (\<lambda>handle. handle\<lparr>hd_state := Handle_open\<rparr>) owner))))"

definition arwill_awp_network_bind ::
    "('n, 'k) arwill_ipv4_stack option \<Rightarrow> arwill_awp_network_owner \<Rightarrow> u64 \<Rightarrow> u64 \<Rightarrow>
     int \<times> ('n, 'k) arwill_ipv4_stack option \<times> arwill_awp_network_owner" where
  "arwill_awp_network_bind stack owner handle_value port =
     (case (stack, handle_stream owner handle_value) of
        (Some s, Some (h, stream)) \<Rightarrow>
          if port = 0 \<or> port > ucast UINT16_MAX \<or> hd_state (handle_at owner h) \<noteq> Handle_open
          then (arwill_awp_network_invalid, stack, owner)
          else
            (case arwill_ipv4_tcp_bind s stream (ucast port) of
               (ok, s) \<Rightarrow>
                 if \<not> ok then (arwill_awp_network_address_in_use, Some s, owner)
                 else (0, Some s, with_handle h (\<lambda>handle.
                   handle\<lparr>hd_local_port := ucast port, hd_state := Handle_bound\<rparr>) owner))
      | _ \<Rightarrow> (arwill_awp_network_invalid, stack, owner))"

definition arwill_awp_network_listen ::
    "('n, 'k) arwill_ipv4_stack option \<Rightarrow> arwill_awp_network_owner \<Rightarrow> u64 \<Rightarrow>
     int \<times> ('n, 'k) arwill_ipv4_stack option \<times> arwill_awp_network_owner" where
  "arwill_awp_network_listen stack owner handle_value =
     (case (stack, handle_stream owner handle_value) of
        (Some s, Some (h, stream)) \<Rightarrow>
          if hd_state (handle_at owner h) \<noteq> Handle_bound then (arwill_awp_network_invalid, stack, owner)
          else
            (case arwill_ipv4_tcp_listen s stream (hd_local_port (handle_at owner h)) of
               (ok, s) \<Rightarrow>
                 if \<not> ok then (arwill_awp_network_unavailable, Some s, owner)
                 else (0, Some s, with_handle h (\<lambda>handle. handle\<lparr>hd_state := Handle_listening\<rparr>) owner))
      | _ \<Rightarrow> (arwill_awp_network_invalid, stack, owner))"

definition arwill_awp_network_connect ::
    "('n, 'k) arwill_ipv4_stack option \<Rightarrow> arwill_awp_network_owner \<Rightarrow> u64 \<Rightarrow> u32 \<Rightarrow> u64 \<Rightarrow>
     int \<times> ('n, 'k) arwill_ipv4_stack option \<times> arwill_awp_network_owner" where
  "arwill_awp_network_connect stack owner handle_value peer_address peer_port =
     (case (stack, handle_stream owner handle_value) of
        (Some s, Some (h, stream)) \<Rightarrow>
          if peer_address = 0 \<or> peer_port = 0 \<or> peer_port > ucast UINT16_MAX \<or>
             (hd_state (handle_at owner h) \<noteq> Handle_bound \<and> hd_state (handle_at owner h) \<noteq> Handle_connecting)
          then (arwill_awp_network_invalid, stack, owner)
          else if hd_state (handle_at owner h) = Handle_connecting then
            (let status = arwill_ipv4_tcp_connect_status s stream
             in (if status > 0 then 0
                 else if status < 0 then arwill_awp_network_unavailable else arwill_awp_network_retry,
                 stack, owner))
          else
            (case arwill_ipv4_tcp_connect s stream (address_bytes peer_address)
                    (hd_local_port (handle_at owner h)) (ucast peer_port) of
               (status, s) \<Rightarrow>
                 if status < 0 then (arwill_awp_network_unavailable, Some s, owner)
                 else (if status > 0 then 0 else arwill_awp_network_retry, Some s,
                       with_handle h (\<lambda>handle. handle\<lparr>hd_state := Handle_connecting\<rparr>) owner))
      | _ \<Rightarrow> (arwill_awp_network_invalid, stack, owner))"

definition arwill_awp_network_accept ::
    "('n, 'k) arwill_ipv4_stack \<Rightarrow> arwill_awp_network_owner \<Rightarrow> u64 \<Rightarrow> int" where
  "arwill_awp_network_accept stack owner handle_value =
     (case handle_stream owner handle_value of
        None \<Rightarrow> arwill_awp_network_invalid
      | Some (h, stream) \<Rightarrow>
          if hd_state (handle_at owner h) \<noteq> Handle_listening then arwill_awp_network_invalid
          else if arwill_tcp_stream_connected (stream_at stack stream) then int (unat handle_value)
          else arwill_awp_network_retry)"

definition arwill_awp_network_read ::
    "('n, 'k) arwill_ipv4_stack \<Rightarrow> arwill_awp_network_owner \<Rightarrow> u64 \<Rightarrow> bytes option \<Rightarrow> nat \<Rightarrow>
     int \<times> bytes option \<times> ('n, 'k) arwill_ipv4_stack" where
  "arwill_awp_network_read stack owner handle_value buffer capacity =
     (case handle_stream owner handle_value of
        None \<Rightarrow> (arwill_awp_network_invalid, buffer, stack)
      | Some (h, stream) \<Rightarrow>
          if buffer = None \<or> capacity = 0 \<or> capacity > arwill_awp_network_io_capacity \<or>
             (hd_state (handle_at owner h) \<noteq> Handle_listening \<and>
              hd_state (handle_at owner h) \<noteq> Handle_connecting \<and>
              hd_state (handle_at owner h) \<noteq> Handle_closing)
          then (arwill_awp_network_invalid, buffer, stack)
          else
            (case arwill_tcp_stream_read (stream_at stack stream) buffer capacity of
               (count, buffer, st) \<Rightarrow>
                 (if count \<noteq> 0 then int count
                  else if \<not> arwill_tcp_stream_connected st \<and> arwill_tcp_stream_connection_seen st
                  then arwill_awp_network_closed else arwill_awp_network_retry,
                  buffer, with_endpoint stream (update_stream (\<lambda>_. st)) stack)))"

definition arwill_awp_network_write ::
    "('n, 'k) arwill_ipv4_stack \<Rightarrow> arwill_awp_network_owner \<Rightarrow> u64 \<Rightarrow> bytes option \<Rightarrow> nat \<Rightarrow>
     int \<times> ('n, 'k) arwill_ipv4_stack" where
  "arwill_awp_network_write stack owner handle_value buffer len =
     (case handle_stream owner handle_value of
        None \<Rightarrow> (arwill_awp_network_invalid, stack)
      | Some (h, stream) \<Rightarrow>
          if buffer = None \<or> len = 0 \<or> len > arwill_awp_network_io_capacity \<or>
             (hd_state (handle_at owner h) \<noteq> Handle_listening \<and>
              hd_state (handle_at owner h) \<noteq> Handle_connecting)
          then (arwill_awp_network_invalid, stack)
          else if \<not> arwill_tcp_stream_connected (stream_at stack stream) then
            (if arwill_tcp_stream_connection_seen (stream_at stack stream)
             then arwill_awp_network_closed else arwill_awp_network_retry, stack)
          else
            (case arwill_tcp_stream_write (stream_at stack stream) buffer len of
               (written, st) \<Rightarrow>
                 (if written = 0 then arwill_awp_network_retry else int written,
                  with_endpoint stream (update_stream (\<lambda>_. st)) stack)))"

definition arwill_awp_network_close ::
    "('n, 'k) arwill_ipv4_stack option \<Rightarrow> arwill_awp_network_owner \<Rightarrow> u64 \<Rightarrow>
     int \<times> ('n, 'k) arwill_ipv4_stack option \<times> arwill_awp_network_owner" where
  "arwill_awp_network_close stack owner handle_value =
     (case (stack, handle_stream owner handle_value) of
        (Some s, Some (h, stream)) \<Rightarrow>
          if hd_state (handle_at owner h) = Handle_free then (arwill_awp_network_invalid, stack, owner)
          else if hd_state (handle_at owner h) = Handle_closing then
            (if \<not> arwill_tcp_stream_close_complete (stream_at s stream)
             then (arwill_awp_network_retry, stack, owner)
             else (0, Some (arwill_ipv4_tcp_release s stream), with_handle h clear_handle owner))
          else if arwill_tcp_stream_connected (stream_at s stream) then
            (arwill_awp_network_retry, Some (with_endpoint stream (update_stream arwill_tcp_stream_close) s),
             with_handle h (\<lambda>handle. handle\<lparr>hd_state := Handle_closing\<rparr>) owner)
          else (0, Some (arwill_ipv4_tcp_release s stream), with_handle h clear_handle owner)
      | _ \<Rightarrow> (arwill_awp_network_invalid, stack, owner))"

section \<open>Datagrams\<close>

definition arwill_awp_udp_open ::
    "('n, 'k) arwill_ipv4_stack option \<Rightarrow> arwill_awp_network_owner \<Rightarrow>
     int \<times> ('n, 'k) arwill_ipv4_stack option \<times> arwill_awp_network_owner" where
  "arwill_awp_udp_open stack owner =
     (case stack of
        None \<Rightarrow> (arwill_awp_network_unavailable, stack, owner)
      | Some s \<Rightarrow>
          if ow_udp owner \<noteq> None then (arwill_awp_network_unavailable, stack, owner)
          else
            (case arwill_ipv4_udp_open s of
               (udp, s) \<Rightarrow>
                 (if udp = None then arwill_awp_network_unavailable else 0, Some s, owner\<lparr>ow_udp := udp\<rparr>)))"

definition arwill_awp_udp_bind ::
    "('n, 'k) arwill_ipv4_stack option \<Rightarrow> arwill_awp_network_owner \<Rightarrow> u64 \<Rightarrow>
     int \<times> ('n, 'k) arwill_ipv4_stack option \<times> arwill_awp_network_owner" where
  "arwill_awp_udp_bind stack owner port =
     (case (stack, ow_udp owner) of
        (Some s, Some udp) \<Rightarrow>
          if ow_udp_bound owner \<or> port = 0 \<or> port > ucast UINT16_MAX
          then (arwill_awp_network_invalid, stack, owner)
          else
            (case arwill_ipv4_udp_bind s udp (ucast port) of
               (ok, s) \<Rightarrow>
                 if \<not> ok then (arwill_awp_network_address_in_use, Some s, owner)
                 else (0, Some s, owner\<lparr>ow_udp_local_port := ucast port, ow_udp_bound := True\<rparr>))
      | _ \<Rightarrow> (arwill_awp_network_invalid, stack, owner))"

definition arwill_awp_udp_connect ::
    "('n, 'k) arwill_ipv4_stack option \<Rightarrow> arwill_awp_network_owner \<Rightarrow> u32 \<Rightarrow> u64 \<Rightarrow>
     int \<times> ('n, 'k) arwill_ipv4_stack option \<times> arwill_awp_network_owner" where
  "arwill_awp_udp_connect stack owner peer_address peer_port =
     (case (stack, ow_udp owner) of
        (Some s, Some udp) \<Rightarrow>
          if \<not> ow_udp_bound owner \<or> peer_address = 0 \<or> peer_port = 0 \<or> peer_port > ucast UINT16_MAX
          then (arwill_awp_network_invalid, stack, owner)
          else if ow_udp_connecting owner then
            (let status = arwill_ipv4_udp_connect_status s udp
             in (if status > 0 then 0
                 else if status < 0 then arwill_awp_network_unavailable else arwill_awp_network_retry,
                 stack, owner))
          else
            (case arwill_ipv4_udp_connect s udp (address_bytes peer_address) (ucast peer_port) of
               (status, s) \<Rightarrow>
                 if status < 0 then (arwill_awp_network_unavailable, Some s, owner)
                 else (if status > 0 then 0 else arwill_awp_network_retry, Some s,
                       owner\<lparr>ow_udp_connecting := True\<rparr>))
      | _ \<Rightarrow> (arwill_awp_network_invalid, stack, owner))"

definition arwill_awp_udp_send ::
    "('n, 'k) arwill_ipv4_stack option \<Rightarrow> arwill_awp_network_owner \<Rightarrow> bytes option \<Rightarrow> nat \<Rightarrow>
     int \<times> ('n, 'k) arwill_ipv4_stack option" where
  "arwill_awp_udp_send stack owner buffer len =
     (case (stack, ow_udp owner) of
        (Some s, Some udp) \<Rightarrow>
          if buffer = None \<or> len = 0 \<or> len > arwill_awp_network_io_capacity
          then (arwill_awp_network_invalid, stack)
          else
            (case arwill_ipv4_udp_send s udp buffer len of
               (sent, s) \<Rightarrow>
                 (if sent < 0 then arwill_awp_network_unavailable
                  else if sent = 0 then arwill_awp_network_retry else int len, Some s))
      | _ \<Rightarrow> (arwill_awp_network_invalid, stack))"

definition arwill_awp_udp_receive ::
    "('n, 'k) arwill_ipv4_stack option \<Rightarrow> arwill_awp_network_owner \<Rightarrow> bytes option \<Rightarrow> nat \<Rightarrow>
     int \<times> bytes option \<times> ('n, 'k) arwill_ipv4_stack option" where
  "arwill_awp_udp_receive stack owner buffer capacity =
     (case (stack, ow_udp owner) of
        (Some s, Some udp) \<Rightarrow>
          if buffer = None \<or> capacity = 0 \<or> capacity > arwill_awp_network_io_capacity
          then (arwill_awp_network_invalid, buffer, stack)
          else
            (case arwill_ipv4_udp_receive s udp buffer capacity of
               (count, buffer, s) \<Rightarrow>
                 (if count < 0 then arwill_awp_network_invalid
                  else if count = 0 then arwill_awp_network_retry else count, buffer, Some s))
      | _ \<Rightarrow> (arwill_awp_network_invalid, buffer, stack))"

definition arwill_awp_udp_close ::
    "('n, 'k) arwill_ipv4_stack option \<Rightarrow> arwill_awp_network_owner \<Rightarrow>
     int \<times> ('n, 'k) arwill_ipv4_stack option \<times> arwill_awp_network_owner" where
  "arwill_awp_udp_close stack owner =
     (case (stack, ow_udp owner) of
        (Some s, Some udp) \<Rightarrow>
          (0, Some (arwill_ipv4_udp_release s udp),
           owner\<lparr>ow_udp := None, ow_udp_local_port := 0, ow_udp_bound := False, ow_udp_connecting := False\<rparr>)
      | _ \<Rightarrow> (arwill_awp_network_invalid, stack, owner))"

end
