(* ===== verification/Awp_Ownership.thy ===== *)
theory Awp_Ownership
  imports Awp_Network
begin

text \<open>
  Who owns the endpoints of the network stack. The endpoints behind the one of the remote
  console belong to the handles of user programs: every allocated endpoint is claimed by
  exactly one handle of one owner, whatever the programs call and the network delivers.
\<close>

section \<open>Exclusive claims\<close>

text \<open>
  Slots \<open>S\<close> with handles \<open>H\<close> on the resources of a state: every handle fits the state, no two
  claim the same resource, and every resource held is claimed.
\<close>

definition exclusive ::
    "('s \<Rightarrow> nat \<Rightarrow> bool) \<Rightarrow> ('h \<Rightarrow> nat option) \<Rightarrow> ('s \<Rightarrow> 'h \<Rightarrow> bool) \<Rightarrow> 's \<Rightarrow> 'p set \<Rightarrow> ('p \<Rightarrow> 'h) \<Rightarrow> bool" where
  "exclusive held claim fit s S H \<longleftrightarrow>
     (\<forall>p\<in>S. fit s (H p)) \<and>
     (\<forall>p\<in>S. \<forall>q\<in>S. \<forall>i. claim (H p) = Some i \<and> claim (H q) = Some i \<longrightarrow> p = q) \<and>
     (\<forall>i. held s i \<longrightarrow> (\<exists>p\<in>S. claim (H p) = Some i))"

locale resource_owners =
  fixes held :: "'s \<Rightarrow> nat \<Rightarrow> bool"
    and claim :: "'h \<Rightarrow> nat option"
    and fit :: "'s \<Rightarrow> 'h \<Rightarrow> bool"
  assumes fit_held: "fit s x \<Longrightarrow> claim x = Some i \<Longrightarrow> held s i"
begin

lemma exclusive_cong:
  assumes "exclusive held claim fit s S H" "\<forall>p\<in>S. H' p = H p"
  shows "exclusive held claim fit s S H'"
  using assms unfolding exclusive_def by (metis (no_types, lifting))

lemma exclusive_same:
  assumes "exclusive held claim fit s S H" "\<forall>x. fit s x \<longrightarrow> fit s' x" "\<forall>i. held s' i \<longrightarrow> held s i"
  shows "exclusive held claim fit s' S H"
  using assms unfolding exclusive_def by blast

lemma claimed_elsewhere:
  assumes "exclusive held claim fit s S H" "p \<in> S" "q \<in> S" "q \<noteq> p"
    "claim (H p) = Some i \<or> claim (H p) = None \<and> \<not> held s i"
  shows "claim (H q) \<noteq> Some i"
  using assms fit_held unfolding exclusive_def by blast

text \<open>One slot changes its claim on one resource.\<close>

lemma exclusive_update:
  assumes ex: "exclusive held claim fit s S H" and p: "p \<in> S" and fit: "fit s' x"
    and frame: "\<forall>y j. claim y = None \<or> claim y = Some j \<and> j \<noteq> i \<longrightarrow> fit s y \<longrightarrow> fit s' y"
      "\<forall>j. j \<noteq> i \<longrightarrow> held s' j = held s j"
    and before: "claim (H p) = Some i \<or> claim (H p) = None \<and> \<not> held s i"
    and after: "claim x = Some i \<or> claim x = None \<and> \<not> held s' i"
  shows "exclusive held claim fit s' S (H(p := x))"
proof -
  note other = claimed_elsewhere [OF ex p _ _ before]
  have fits: "fit s' ((H(p := x)) q)" if "q \<in> S" for q
  proof (cases "q = p")
    case False
    then have "claim (H q) \<noteq> Some i" using other that by blast
    moreover have "fit s (H q)" using ex that by (simp add: exclusive_def)
    ultimately show ?thesis using frame(1) False by (cases "claim (H q)") auto
  qed (use fit in simp)
  have unique: "q = r" if "q \<in> S" "r \<in> S" "claim ((H(p := x)) q) = Some j" "claim ((H(p := x)) r) = Some j" for q r j
    using that ex other after unfolding exclusive_def by (cases "q = p"; cases "r = p") auto
  have covered: "\<exists>q\<in>S. claim ((H(p := x)) q) = Some j" if "held s' j" for j
  proof (cases "j = i")
    case True
    then show ?thesis using after that p by (intro bexI [of _ p]) auto
  next
    case False
    then have "held s j" using frame(2) that by blast
    then obtain q where q: "q \<in> S" "claim (H q) = Some j" using ex unfolding exclusive_def by blast
    moreover have "q \<noteq> p" using q before False by auto
    ultimately show ?thesis by (intro bexI [of _ q]) auto
  qed
  show ?thesis using fits unique covered unfolding exclusive_def by blast
qed

lemma exclusive_extend:
  assumes "exclusive held claim fit s S H" "\<forall>q\<in>T. fit s (H q) \<and> claim (H q) = None"
  shows "exclusive held claim fit s (S \<union> T) H"
  using assms unfolding exclusive_def by (metis Un_iff option.distinct(1))

end

section \<open>Handles and endpoints\<close>

definition app_stream :: "('n, 'k) arwill_ipv4_stack \<Rightarrow> nat \<Rightarrow> bool" where
  "app_stream s i \<longleftrightarrow> 1 \<le> i \<and> i < 4 \<and> ep_allocated (endpoint_at s i)"

definition app_udp :: "('n, 'k) arwill_ipv4_stack \<Rightarrow> nat \<Rightarrow> bool" where
  "app_udp s u \<longleftrightarrow> u < 4 \<and> ue_allocated (udp_at s u)"

text \<open>A handle is free, or has an endpoint, unbound while just open and else bound to its port.\<close>

definition handle_ok :: "('n, 'k) arwill_ipv4_stack \<Rightarrow> arwill_awp_network_handle \<Rightarrow> bool" where
  "handle_ok s x \<longleftrightarrow> (case hd_stream x of
       None \<Rightarrow> hd_state x = Handle_free
     | Some i \<Rightarrow> app_stream s i \<and> hd_state x \<noteq> Handle_free \<and>
         (if hd_state x = Handle_open then ep_bound_port (endpoint_at s i) = 0
          else hd_local_port x \<noteq> 0 \<and> ep_bound_port (endpoint_at s i) = hd_local_port x))"

definition udp_owner_ok :: "('n, 'k) arwill_ipv4_stack \<Rightarrow> arwill_awp_network_owner \<Rightarrow> bool" where
  "udp_owner_ok s ow \<longleftrightarrow> (case ow_udp ow of
       None \<Rightarrow> \<not> ow_udp_bound ow \<and> \<not> ow_udp_connecting ow
     | Some u \<Rightarrow> app_udp s u \<and> ue_bound (udp_at s u) = ow_udp_bound ow \<and>
         (ow_udp_bound ow \<longrightarrow> ue_local_port (udp_at s u) = ow_udp_local_port ow))"

interpretation streams: resource_owners app_stream hd_stream handle_ok
  by unfold_locales (simp add: handle_ok_def)

interpretation datagrams: resource_owners app_udp ow_udp udp_owner_ok
  by unfold_locales (simp add: udp_owner_ok_def)

definition slots :: "arwill_awp_network_owner list \<Rightarrow> (nat \<times> nat) set" where
  "slots os = {..<length os} \<times> {..<2}"

definition handle_of :: "arwill_awp_network_owner list \<Rightarrow> nat \<times> nat \<Rightarrow> arwill_awp_network_handle" where
  "handle_of os p = handle_at (os ! fst p) (snd p)"

text \<open>The invariant of a stack shared by the programs \<open>os\<close>.\<close>

definition owned :: "('n, 'k) arwill_ipv4_stack \<Rightarrow> arwill_awp_network_owner list \<Rightarrow> bool" where
  "owned s os \<longleftrightarrow> stack_ok s \<and> (\<forall>ow\<in>set os. length (ow_handles ow) = 2) \<and>
     exclusive app_stream hd_stream handle_ok s (slots os) (handle_of os) \<and>
     exclusive app_udp ow_udp udp_owner_ok s {..<length os} ((!) os)"

definition owner_ok :: "('n, 'k) arwill_ipv4_stack \<Rightarrow> arwill_awp_network_owner \<Rightarrow> bool" where
  "owner_ok s ow \<longleftrightarrow> stack_ok s \<and> length (ow_handles ow) = 2 \<and> (\<forall>h<2. handle_ok s (handle_at ow h)) \<and> udp_owner_ok s ow"

lemma owned_owner: "owned s os \<Longrightarrow> k < length os \<Longrightarrow> owner_ok s (os ! k)"
  by (auto simp: owned_def owner_ok_def exclusive_def slots_def handle_of_def)

section \<open>What a call changes\<close>

text \<open>A call on a stream changes one handle and the endpoint it had or gets.\<close>

definition tcp_effect ::
    "('n, 'k) arwill_ipv4_stack \<Rightarrow> arwill_awp_network_owner \<Rightarrow> ('n, 'k) arwill_ipv4_stack \<Rightarrow>
     arwill_awp_network_owner \<Rightarrow> bool" where
  "tcp_effect s ow s' ow' \<longleftrightarrow> same_tables s s' \<and> ow' = ow \<or>
     (\<exists>h x i. h < 2 \<and> ow' = with_handle h (\<lambda>_. x) ow \<and> 1 \<le> i \<and>
        (\<forall>j. j \<noteq> i \<longrightarrow> endpoint_at s' j = endpoint_at s j) \<and> ip_udp_endpoints s' = ip_udp_endpoints s \<and>
        stack_ok s' \<and> handle_ok s' x \<and>
        (hd_stream (handle_at ow h) = Some i \<or> hd_stream (handle_at ow h) = None \<and> \<not> app_stream s i) \<and>
        (hd_stream x = Some i \<or> hd_stream x = None \<and> \<not> app_stream s' i))"

definition udp_effect ::
    "('n, 'k) arwill_ipv4_stack \<Rightarrow> arwill_awp_network_owner \<Rightarrow> ('n, 'k) arwill_ipv4_stack \<Rightarrow>
     arwill_awp_network_owner \<Rightarrow> bool" where
  "udp_effect s ow s' ow' \<longleftrightarrow> same_tables s s' \<and> ow' = ow \<or>
     (\<exists>u. ow_handles ow' = ow_handles ow \<and>
        (\<forall>j. j \<noteq> u \<longrightarrow> udp_at s' j = udp_at s j) \<and> ip_endpoints s' = ip_endpoints s \<and>
        stack_ok s' \<and> udp_owner_ok s' ow' \<and>
        (ow_udp ow = Some u \<or> ow_udp ow = None \<and> \<not> app_udp s u) \<and>
        (ow_udp ow' = Some u \<or> ow_udp ow' = None \<and> \<not> app_udp s' u))"

lemma owned_same_owners:
  assumes "owned s os" "stack_ok s'" "same_owners s s'"
  shows "owned s' os"
proof -
  have "app_stream s' i = app_stream s i" "app_udp s' i = app_udp s i" for i
    using assms(3) by (simp_all add: same_owners_def app_stream_def app_udp_def)
  moreover have "handle_ok s' x = handle_ok s x" "udp_owner_ok s' ow = udp_owner_ok s ow" for x ow
    using assms(3) calculation by (simp_all add: handle_ok_def udp_owner_ok_def same_owners_def split: option.splits)
  ultimately show ?thesis using assms(1,2) by (simp add: owned_def exclusive_def)
qed

lemma owned_tcp:
  assumes o: "owned s os" and k: "k < length os" and e: "tcp_effect s (os ! k) s' ow'"
  shows "owned s' (os[k := ow'])"
proof (cases "same_tables s s' \<and> ow' = os ! k")
  case True
  then have "evolves s s'" using o by (intro same_tables_evolves) (simp_all add: owned_def)
  then show ?thesis using True owned_same_owners [OF o] by (simp add: evolves_def)
next
  case False
  then obtain h x i where h: "h < 2" "ow' = with_handle h (\<lambda>_. x) (os ! k)" and i: "1 \<le> i"
    and frame: "\<forall>j. j \<noteq> i \<longrightarrow> endpoint_at s' j = endpoint_at s j" "ip_udp_endpoints s' = ip_udp_endpoints s"
    and ok: "stack_ok s'" "handle_ok s' x"
    and before: "hd_stream (handle_at (os ! k) h) = Some i \<or> hd_stream (handle_at (os ! k) h) = None \<and> \<not> app_stream s i"
    and after: "hd_stream x = Some i \<or> hd_stream x = None \<and> \<not> app_stream s' i"
    using e unfolding tcp_effect_def by auto
  have len: "length (ow_handles (os ! k)) = 2" using o k by (simp add: owned_def)
  have "exclusive app_stream hd_stream handle_ok s' (slots os) ((handle_of os)((k, h) := x))"
    using o k h(1) ok(2) frame(1) before after
    by (intro streams.exclusive_update [where i = i]) (auto simp: owned_def slots_def handle_of_def handle_ok_def app_stream_def)
  then have "exclusive app_stream hd_stream handle_ok s' (slots (os[k := ow'])) (handle_of (os[k := ow']))"
    unfolding slots_def length_list_update
    by (rule streams.exclusive_cong)
      (use k h len in \<open>auto simp: handle_of_def handle_at_def with_handle_def nth_list_update\<close>)
  moreover have "exclusive app_udp ow_udp udp_owner_ok s' {..<length os} ((!) (os[k := ow']))"
  proof -
    have "udp_owner_ok s' (os[k := ow'] ! j) = udp_owner_ok s (os ! j) \<and> ow_udp (os[k := ow'] ! j) = ow_udp (os ! j)" for j
      using frame(2) h(2) k
      by (cases "j = k") (simp_all add: udp_owner_ok_def app_udp_def udp_at_def with_handle_def split: option.splits)
    moreover have "app_udp s' u = app_udp s u" for u using frame(2) by (simp add: app_udp_def udp_at_def)
    ultimately show ?thesis using o by (simp add: owned_def exclusive_def)
  qed
  moreover have "\<forall>ow\<in>set (os[k := ow']). length (ow_handles ow) = 2"
    using o h(2) len by (auto simp: owned_def with_handle_def dest!: set_update_subset_insert [THEN subsetD])
  ultimately show ?thesis using ok(1) by (simp add: owned_def)
qed

lemma owned_udp:
  assumes o: "owned s os" and k: "k < length os" and e: "udp_effect s (os ! k) s' ow'"
  shows "owned s' (os[k := ow'])"
proof (cases "same_tables s s' \<and> ow' = os ! k")
  case True
  then have "evolves s s'" using o by (intro same_tables_evolves) (simp_all add: owned_def)
  then show ?thesis using True owned_same_owners [OF o] by (simp add: evolves_def)
next
  case False
  then obtain u where hs: "ow_handles ow' = ow_handles (os ! k)"
    and frame: "\<forall>j. j \<noteq> u \<longrightarrow> udp_at s' j = udp_at s j" "ip_endpoints s' = ip_endpoints s"
    and ok: "stack_ok s'" "udp_owner_ok s' ow'"
    and before: "ow_udp (os ! k) = Some u \<or> ow_udp (os ! k) = None \<and> \<not> app_udp s u"
    and after: "ow_udp ow' = Some u \<or> ow_udp ow' = None \<and> \<not> app_udp s' u"
    using e unfolding udp_effect_def by auto
  have "exclusive app_udp ow_udp udp_owner_ok s' {..<length os} (((!) os)(k := ow'))"
    using o k ok(2) frame(1) before after
    by (intro datagrams.exclusive_update [where i = u]) (auto simp: owned_def udp_owner_ok_def app_udp_def)
  then have "exclusive app_udp ow_udp udp_owner_ok s' {..<length os} ((!) (os[k := ow']))"
    by (rule datagrams.exclusive_cong) (use k in \<open>auto simp: nth_list_update\<close>)
  moreover have "exclusive app_stream hd_stream handle_ok s' (slots os) (handle_of (os[k := ow']))"
  proof -
    have "handle_of (os[k := ow']) p = handle_of os p" for p
      using hs k by (cases "fst p = k") (simp_all add: handle_of_def handle_at_def)
    moreover have "handle_ok s' x = handle_ok s x" "app_stream s' i = app_stream s i" for x i
      using frame(2) by (simp_all add: handle_ok_def app_stream_def endpoint_at_def split: option.splits)
    ultimately show ?thesis using o by (simp add: owned_def exclusive_def)
  qed
  moreover have "\<forall>ow\<in>set (os[k := ow']). length (ow_handles ow) = 2"
    using o k hs by (auto simp: owned_def dest!: set_update_subset_insert [THEN subsetD])
  ultimately show ?thesis using ok(1) by (simp add: owned_def slots_def)
qed

section \<open>Calls on streams\<close>

lemma handle_stream_some:
  assumes "handle_stream ow v = Some (h, i)"
  shows "h < 2 \<and> hd_stream (handle_at ow h) = Some i"
  using assms by (auto simp: handle_stream_def network_handle_def word_le_nat_alt split: option.splits if_splits)

lemma with_handle_at: "with_handle h f ow = with_handle h (\<lambda>_. f (handle_at ow h)) ow"
  by (simp add: with_handle_def handle_at_def)

lemma stream_found:
  assumes "app_stream s i"
  shows "endpoint_for_stream s i = Some i"
  using assms unfolding endpoint_for_stream_def find_Some_iff
  by (intro exI [of _ i]) (auto simp: app_stream_def)

lemma tcp_effect_refl: "tcp_effect s ow s ow"
  by (simp add: tcp_effect_def same_tables_def)

text \<open>A call that changes the endpoint of its handle and then the handle.\<close>

lemma tcp_effect_touch:
  assumes h: "h < 2" "hd_stream (handle_at ow h) = Some i" and ok: "owner_ok s ow"
    and s': "s' = with_endpoint i f s" "stack_ok s'" and x: "handle_ok s' (g (handle_at ow h))"
    and after: "hd_stream (g (handle_at ow h)) = Some i \<or>
      hd_stream (g (handle_at ow h)) = None \<and> \<not> ep_allocated (f (endpoint_at s i))"
  shows "tcp_effect s ow s' (with_handle h g ow)"
proof -
  have i: "1 \<le> i" "i < 4" using ok h by (auto simp: owner_ok_def handle_ok_def app_stream_def)
  have len: "length (ow_handles ow) = 2" "length (ip_endpoints s) = 4"
    using ok by (simp_all add: owner_ok_def stack_ok_def)
  have at: "endpoint_at s' j = (if j = i then f (endpoint_at s i) else endpoint_at s j)" for j
    using len(2) i by (simp add: s'(1) endpoint_at_def with_endpoint_def)
  show ?thesis
    unfolding tcp_effect_def with_handle_at [of h g ow]
    by (rule disjI2, rule exI [of _ h], rule exI [of _ "g (handle_at ow h)"], rule exI [of _ i])
      (use h i s'(2) x after at in \<open>auto simp: s'(1) with_endpoint_def app_stream_def\<close>)
qed

lemma keeps_touch:
  assumes h: "h < 2" "hd_stream (handle_at ow h) = Some i" and ok: "owner_ok s ow"
    and f: "keeps (endpoint_at s i) (f (endpoint_at s i))"
  shows "stack_ok (with_endpoint i f s)"
    "\<And>x. hd_stream x = Some i \<Longrightarrow> handle_ok (with_endpoint i f s) x = handle_ok s x"
proof -
  have i: "1 \<le> i" "i < 4" using ok h by (auto simp: owner_ok_def handle_ok_def app_stream_def)
  show "stack_ok (with_endpoint i f s)"
    using ok i(2) f by (intro stack_ok_with_endpoint) (simp_all add: owner_ok_def)
  have "endpoint_at (with_endpoint i f s) i = f (endpoint_at s i)"
    using ok i by (simp add: endpoint_at_def with_endpoint_def owner_ok_def stack_ok_def)
  then show "\<And>x. hd_stream x = Some i \<Longrightarrow> handle_ok (with_endpoint i f s) x = handle_ok s x"
    using f by (simp add: handle_ok_def app_stream_def keeps_def)
qed

lemma open_effect:
  assumes ok: "owner_ok s ow" and r: "arwill_awp_network_open (Some s) ow = (r, Some s', ow')"
  shows "tcp_effect s ow s' ow'"
proof (cases "find (\<lambda>h. hd_state (handle_at ow h) = Handle_free) [0..<2]")
  case None
  then show ?thesis using r tcp_effect_refl by (auto simp: arwill_awp_network_open_def)
next
  case (Some h)
  have h: "h < 2" "hd_state (handle_at ow h) = Handle_free" using find_upt_less [OF Some] by simp_all
  then have free: "hd_stream (handle_at ow h) = None"
    using ok by (auto simp: owner_ok_def handle_ok_def split: option.splits)
  have len: "length (ow_handles ow) = 2" "length (ip_endpoints s) = 4"
    using ok by (simp_all add: owner_ok_def stack_ok_def)
  show ?thesis
  proof (cases "find (\<lambda>i. \<not> ep_allocated (endpoint_at s i)) [1..<4]")
    case None
    have "with_handle h (\<lambda>x. x\<lparr>hd_stream := None\<rparr>) ow = ow"
      using free h(1) len(1) by (simp add: with_handle_def handle_at_def list_update_same_conv)
    then show ?thesis
      using r Some None tcp_effect_refl by (auto simp: arwill_awp_network_open_def arwill_ipv4_tcp_open_def Let_def)
  next
    case i: (Some i)
    note i' = find_upt_less [OF i]
    define x where "x = (handle_at ow h)\<lparr>hd_stream := Some i, hd_state := Handle_open\<rparr>"
    have s': "s' = with_endpoint i (\<lambda>e. (initialize_tcp_endpoint e)\<lparr>ep_allocated := True\<rparr>) s"
        and ow': "ow' = with_handle h (\<lambda>_. x) ow"
      using r Some i h(1) len(1)
      by (auto simp: arwill_awp_network_open_def arwill_ipv4_tcp_open_def Let_def with_handle_def handle_at_def x_def)
    have "stack_ok s'" using tcp_open_ok [of s] ok i s' by (simp add: arwill_ipv4_tcp_open_def owner_ok_def)
    moreover have "endpoint_at s' j = (if j = i then (initialize_tcp_endpoint (endpoint_at s i))\<lparr>ep_allocated := True\<rparr>
        else endpoint_at s j)" for j
      using len(2) i' by (simp add: s' endpoint_at_def with_endpoint_def)
    moreover from this have "handle_ok s' x"
      using i' by (simp add: handle_ok_def x_def app_stream_def initialize_tcp_endpoint_def)
    ultimately show ?thesis
      unfolding tcp_effect_def
      by (intro disjI2 exI [of _ h] exI [of _ x] exI [of _ i])
        (use h(1) i' free ow' in \<open>auto simp: s' with_endpoint_def app_stream_def x_def\<close>)
  qed
qed

lemma release_effect:
  assumes ok: "owner_ok s ow" and h: "h < 2" "hd_stream (handle_at ow h) = Some i"
  shows "tcp_effect s ow (arwill_ipv4_tcp_release s i) (with_handle h clear_handle ow)"
proof -
  have i: "app_stream s i" using ok h by (auto simp: owner_ok_def handle_ok_def)
  have r: "arwill_ipv4_tcp_release s i = with_endpoint i (\<lambda>endpoint. initialize_tcp_endpoint
      (endpoint\<lparr>ep_stream := arwill_tcp_stream_stop (ep_stream endpoint)\<rparr>)) s"
    using stream_found [OF i] i by (auto simp: arwill_ipv4_tcp_release_def app_stream_def)
  show ?thesis
    by (rule tcp_effect_touch [OF h ok r])
      (use ok tcp_release_ok [of s i] in \<open>simp_all add: owner_ok_def clear_handle_def handle_ok_def initialize_tcp_endpoint_def\<close>)
qed

lemma bind_effect:
  assumes ok: "owner_ok s ow" and r: "arwill_awp_network_bind (Some s) ow v port = (r, Some s', ow')"
  shows "tcp_effect s ow s' ow'"
proof (cases "s' = s \<and> ow' = ow")
  case False
  then obtain h i where hs: "handle_stream ow v = Some (h, i)"
    using r by (auto simp: arwill_awp_network_bind_def split: option.splits)
  then have h: "h < 2" "hd_stream (handle_at ow h) = Some i" using handle_stream_some by blast+
  then have i: "app_stream s i" using ok by (auto simp: owner_ok_def handle_ok_def)
  have b: "arwill_ipv4_tcp_bind s i (ucast port) = (True, s')"
      "ow' = with_handle h (\<lambda>x. x\<lparr>hd_local_port := ucast port, hd_state := Handle_bound\<rparr>) ow"
    using r False hs
    by (auto simp: arwill_awp_network_bind_def arwill_ipv4_tcp_bind_def split: if_splits prod.splits option.splits)
  then have s': "s' = with_endpoint i (\<lambda>e. e\<lparr>ep_bound_port := ucast port\<rparr>) s" "(ucast port :: u16) \<noteq> 0"
    using stream_found [OF i] by (auto simp: arwill_ipv4_tcp_bind_def split: if_splits)
  have at: "endpoint_at s' i = (endpoint_at s i)\<lparr>ep_bound_port := ucast port\<rparr>"
    using ok i by (simp add: s' endpoint_at_def with_endpoint_def owner_ok_def stack_ok_def app_stream_def)
  show ?thesis
    unfolding b(2)
    by (rule tcp_effect_touch [OF h ok s'(1)])
      (use tcp_bind_ok [of s i "ucast port"] b(1) ok i h at s'(2) in
        \<open>auto simp: owner_ok_def handle_ok_def app_stream_def\<close>)
qed (simp add: tcp_effect_refl)

lemma bound_handle:
  assumes "owner_ok s ow" "h < 2" "hd_stream (handle_at ow h) = Some i" "hd_state (handle_at ow h) \<noteq> Handle_open"
  shows "ep_bound_port (endpoint_at s i) = hd_local_port (handle_at ow h)" "hd_local_port (handle_at ow h) \<noteq> 0"
    "app_stream s i"
  using assms by (auto simp: owner_ok_def handle_ok_def)

lemma listen_effect:
  assumes ok: "owner_ok s ow" and r: "arwill_awp_network_listen (Some s) ow v = (r, Some s', ow')"
  shows "tcp_effect s ow s' ow'"
proof (cases "\<exists>h i. handle_stream ow v = Some (h, i) \<and> hd_state (handle_at ow h) = Handle_bound")
  case True
  then obtain h i where hs: "handle_stream ow v = Some (h, i)" "hd_state (handle_at ow h) = Handle_bound" by blast
  then have h: "h < 2" "hd_stream (handle_at ow h) = Some i" using handle_stream_some by blast+
  let ?p = "hd_local_port (handle_at ow h)"
  have i: "ep_bound_port (endpoint_at s i) = ?p" "?p \<noteq> 0" "app_stream s i"
    using bound_handle [OF ok h] hs(2) by simp_all
  have b: "arwill_ipv4_tcp_listen s i ?p = (True, with_endpoint i (listen_endpoint ?p) s)"
    using stream_found [OF i(3)] i(1,2) by (simp add: arwill_ipv4_tcp_listen_def)
  then have s': "s' = with_endpoint i (listen_endpoint ?p) s"
      and ow': "ow' = with_handle h (\<lambda>x. x\<lparr>hd_state := Handle_listening\<rparr>) ow"
    using r hs by (auto simp: arwill_awp_network_listen_def)
  have "stack_ok s'" using tcp_listen_ok [of s i ?p] b ok s' by (simp add: owner_ok_def)
  moreover have "endpoint_at s' i = listen_endpoint ?p (endpoint_at s i)"
    using ok i by (simp add: s' endpoint_at_def with_endpoint_def owner_ok_def stack_ok_def app_stream_def)
  ultimately show ?thesis
    unfolding ow'
    by (intro tcp_effect_touch [OF h ok s'])
      (use i h in \<open>auto simp: handle_ok_def app_stream_def listen_endpoint_port\<close>)
next
  case False
  then show ?thesis
    using r tcp_effect_refl by (auto simp: arwill_awp_network_listen_def split: option.splits if_splits)
qed

lemma connect_effect:
  assumes ok: "owner_ok s ow" and r: "arwill_awp_network_connect (Some s) ow v peer port = (r, Some s', ow')"
  shows "tcp_effect s ow s' ow'"
proof (cases "s' = s \<and> ow' = ow")
  case False
  then obtain h i where hs: "handle_stream ow v = Some (h, i)" "hd_state (handle_at ow h) = Handle_bound"
    using r by (auto simp: arwill_awp_network_connect_def Let_def split: option.splits if_splits)
  then have h: "h < 2" "hd_stream (handle_at ow h) = Some i" using handle_stream_some by blast+
  let ?p = "hd_local_port (handle_at ow h)"
  have i: "ep_bound_port (endpoint_at s i) = ?p" "?p \<noteq> 0" "app_stream s i"
    using bound_handle [OF ok h] hs(2) by simp_all
  obtain st where c: "arwill_ipv4_tcp_connect s i (address_bytes peer) ?p (ucast port) = (st, s')"
      and ow': "ow' = with_handle h (\<lambda>x. x\<lparr>hd_state := Handle_connecting\<rparr>) ow"
  proof -
    obtain st s1 where c: "arwill_ipv4_tcp_connect s i (address_bytes peer) ?p (ucast port) = (st, s1)"
      by fastforce
    moreover have "s1 = s" if "st < 0"
      using c that by (auto simp: arwill_ipv4_tcp_connect_def Let_def split: option.splits if_splits)
    ultimately show ?thesis
      using r False hs that by (auto simp: arwill_awp_network_connect_def split: if_splits)
  qed
  obtain f where s': "s' = with_endpoint i f s" and f: "ep_allocated (f (endpoint_at s i)) = ep_allocated (endpoint_at s i)"
      "ep_bound_port (f (endpoint_at s i)) = ep_bound_port (endpoint_at s i)"
  proof (cases "s' = s")
    case True
    then show ?thesis
      using that [of "\<lambda>e. e"] by (simp add: with_endpoint_def)
  next
    case False
    then show ?thesis
      using c stream_found [OF i(3)] i(1)
      by (intro that [of "connect_endpoint (address_bytes peer) (next_hop_for s (address_bytes peer)) ?p (ucast port)"])
        (auto simp: arwill_ipv4_tcp_connect_def Let_def connect_endpoint_def reset_tcp_stream_def split: if_splits)
  qed
  have "stack_ok s'" using tcp_connect_ok [of s i "address_bytes peer" ?p "ucast port"] c ok by (simp add: owner_ok_def)
  moreover have "endpoint_at s' i = f (endpoint_at s i)"
    using ok i by (simp add: s' endpoint_at_def with_endpoint_def owner_ok_def stack_ok_def app_stream_def)
  ultimately show ?thesis
    unfolding ow'
    by (intro tcp_effect_touch [OF h ok s']) (use i h f in \<open>auto simp: handle_ok_def app_stream_def\<close>)
qed (simp add: tcp_effect_refl)

lemma close_effect:
  assumes ok: "owner_ok s ow" and r: "arwill_awp_network_close (Some s) ow v = (r, Some s', ow')"
  shows "tcp_effect s ow s' ow'"
proof (cases "s' = s \<and> ow' = ow")
  case False
  then obtain h i where hs: "handle_stream ow v = Some (h, i)" "hd_state (handle_at ow h) \<noteq> Handle_free"
    using r by (auto simp: arwill_awp_network_close_def split: option.splits if_splits)
  then have h: "h < 2" "hd_stream (handle_at ow h) = Some i" using handle_stream_some by blast+
  then have i: "app_stream s i" using ok by (auto simp: owner_ok_def handle_ok_def)
  show ?thesis
  proof (cases "hd_state (handle_at ow h) \<noteq> Handle_closing \<and> arwill_tcp_stream_connected (stream_at s i)")
    case True
    then have s': "s' = with_endpoint i (update_stream arwill_tcp_stream_close) s"
        and ow': "ow' = with_handle h (\<lambda>x. x\<lparr>hd_state := Handle_closing\<rparr>) ow"
      using r hs by (auto simp: arwill_awp_network_close_def)
    have "ep_bound_port (endpoint_at s i) \<noteq> 0"
      using stack_ok_endpoint [of s i] ok i True
      by (auto simp: endpoint_ok_def owner_ok_def app_stream_def stream_at_def arwill_tcp_stream_connected_def)
    then have "hd_state (handle_at ow h) \<noteq> Handle_open" using ok h by (auto simp: owner_ok_def handle_ok_def)
    note b = bound_handle [OF ok h this] and k = keeps_touch [where f = "update_stream arwill_tcp_stream_close", OF h ok stream_close_keeps]
    have "handle_ok s ((handle_at ow h)\<lparr>hd_state := Handle_closing\<rparr>)" using b h by (simp add: handle_ok_def)
    then show ?thesis
      unfolding ow' by (intro tcp_effect_touch [OF h ok s']) (use k h in \<open>simp_all add: s'\<close>)
  next
    case released: False
    then have "s' = arwill_ipv4_tcp_release s i \<and> ow' = with_handle h clear_handle ow"
      using r hs False by (auto simp: arwill_awp_network_close_def split: if_splits)
    then show ?thesis using release_effect [OF ok h] by simp
  qed
qed (simp add: tcp_effect_refl)

lemma stream_call_effect:
  assumes ok: "owner_ok s ow" and h: "h < 2" "hd_stream (handle_at ow h) = Some i"
    and f: "keeps (endpoint_at s i) (f (endpoint_at s i))"
  shows "tcp_effect s ow (with_endpoint i f s) ow"
proof -
  have id: "with_handle h (\<lambda>x. x) ow = ow" by (simp add: with_handle_def)
  have "handle_ok s (handle_at ow h)" using ok h by (simp add: owner_ok_def)
  then have "tcp_effect s ow (with_endpoint i f s) (with_handle h (\<lambda>x. x) ow)"
    using keeps_touch [where f = f, OF h ok f] h by (intro tcp_effect_touch [OF h ok refl]) auto
  then show ?thesis by (simp add: id)
qed

lemma read_effect:
  assumes ok: "owner_ok s ow" and buf: "capacity \<le> length buf"
    and r: "arwill_awp_network_read s ow v (Some buf) capacity = (r, b, s')"
  shows "tcp_effect s ow s' ow"
proof (cases "s' = s")
  case False
  then obtain h i where hs: "handle_stream ow v = Some (h, i)"
    using r by (auto simp: arwill_awp_network_read_def split: option.splits)
  then have h: "h < 2" "hd_stream (handle_at ow h) = Some i" using handle_stream_some by blast+
  let ?f = "update_stream (\<lambda>_. snd (snd (arwill_tcp_stream_read (ep_stream (endpoint_at s i)) (Some buf) capacity)))"
  have "s' = with_endpoint i ?f s"
    using r hs False by (auto simp: arwill_awp_network_read_def stream_at_def split: if_splits prod.splits)
  moreover have "keeps (endpoint_at s i) (?f (endpoint_at s i))"
    using stream_read_keeps [OF buf, of "endpoint_at s i"] by (simp add: update_stream_def)
  ultimately show ?thesis using stream_call_effect [OF ok h, of ?f] by simp
qed (simp add: tcp_effect_refl)

lemma write_effect:
  assumes ok: "owner_ok s ow"
    and r: "arwill_awp_network_write s ow v (Some d) (length d) = (r, s')"
  shows "tcp_effect s ow s' ow"
proof (cases "s' = s")
  case False
  then obtain h i where hs: "handle_stream ow v = Some (h, i)"
    using r by (auto simp: arwill_awp_network_write_def split: option.splits)
  then have h: "h < 2" "hd_stream (handle_at ow h) = Some i" using handle_stream_some by blast+
  let ?f = "update_stream (\<lambda>_. snd (arwill_tcp_stream_write (ep_stream (endpoint_at s i)) (Some d) (length d)))"
  have "s' = with_endpoint i ?f s"
    using r hs False by (auto simp: arwill_awp_network_write_def stream_at_def split: if_splits prod.splits)
  moreover have "keeps (endpoint_at s i) (?f (endpoint_at s i))"
    using stream_write_keeps [of "endpoint_at s i" d] by (simp add: update_stream_def)
  ultimately show ?thesis using stream_call_effect [OF ok h, of ?f] by simp
qed (simp add: tcp_effect_refl)

section \<open>Calls on datagrams\<close>

lemma udp_found: "app_udp s u \<Longrightarrow> udp_endpoint_for_pointer s u = Some u"
  unfolding udp_endpoint_for_pointer_def find_Some_iff
  by (intro exI [of _ u]) (auto simp: app_udp_def)

lemma udp_effect_refl: "same_tables s s' \<Longrightarrow> udp_effect s ow s' ow"
  by (simp add: udp_effect_def)

lemma udp_effect_touch:
  assumes ok: "owner_ok s ow" and u: "u < 4" "ow_udp ow = Some u \<or> ow_udp ow = None \<and> \<not> app_udp s u"
    and s': "s' = with_udp u f s" "stack_ok s'"
    and ow': "ow_handles ow' = ow_handles ow" "udp_owner_ok s' ow'"
      "ow_udp ow' = Some u \<or> ow_udp ow' = None \<and> \<not> ue_allocated (f (udp_at s u))"
  shows "udp_effect s ow s' ow'"
proof -
  have "udp_at s' j = (if j = u then f (udp_at s u) else udp_at s j)" for j
    using ok u(1) by (simp add: s'(1) udp_at_def with_udp_def owner_ok_def stack_ok_def)
  then show ?thesis
    unfolding udp_effect_def
    by (intro disjI2 exI [of _ u]) (use u s'(2) ow' in \<open>auto simp: s'(1) with_udp_def app_udp_def\<close>)
qed

lemma udp_at_with: "stack_ok s \<Longrightarrow> u < 4 \<Longrightarrow> udp_at (with_udp u f s) u = f (udp_at s u)"
  by (simp add: udp_at_def with_udp_def stack_ok_def)

lemma udp_open_effect:
  assumes ok: "owner_ok s ow" and r: "arwill_awp_udp_open (Some s) ow = (r, Some s', ow')"
  shows "udp_effect s ow s' ow'"
proof (cases "ow_udp ow = None \<and> find (\<lambda>i. \<not> ue_allocated (udp_at s i)) [0..<4] \<noteq> None")
  case True
  then obtain u where u: "find (\<lambda>i. \<not> ue_allocated (udp_at s i)) [0..<4] = Some u" by auto
  note u' = find_upt_less [OF u]
  have so: "stack_ok s" using ok by (simp add: owner_ok_def)
  have s': "s' = with_udp u (\<lambda>e. (initialize_udp_endpoint e)\<lparr>ue_allocated := True\<rparr>) s" and ow': "ow' = ow\<lparr>ow_udp := Some u\<rparr>"
    using r True u by (auto simp: arwill_awp_udp_open_def arwill_ipv4_udp_open_def)
  show ?thesis
    by (rule udp_effect_touch [OF ok _ _ s'])
      (use u' True ow' so udp_open_ok [OF so] u udp_at_with [OF so] ok in
        \<open>auto simp: s' arwill_ipv4_udp_open_def udp_owner_ok_def app_udp_def initialize_udp_endpoint_def owner_ok_def\<close>)
next
  case False
  then have "s' = s" "ow' = ow"
    using r by (auto simp: arwill_awp_udp_open_def arwill_ipv4_udp_open_def split: if_splits option.splits)
  then show ?thesis by (simp add: udp_effect_refl same_tables_def)
qed

lemma udp_bind_effect:
  assumes ok: "owner_ok s ow" and r: "arwill_awp_udp_bind (Some s) ow port = (r, Some s', ow')"
  shows "udp_effect s ow s' ow'"
proof (cases "s' = s \<and> ow' = ow")
  case False
  then obtain u where u: "ow_udp ow = Some u" "\<not> ow_udp_bound ow"
    using r by (auto simp: arwill_awp_udp_bind_def split: option.splits if_splits)
  have so: "stack_ok s" and au: "app_udp s u" using ok u by (auto simp: owner_ok_def udp_owner_ok_def)
  have b: "arwill_ipv4_udp_bind s u (ucast port) = (True, s')"
      and ow': "ow' = ow\<lparr>ow_udp_local_port := ucast port, ow_udp_bound := True\<rparr>"
    using r False u
    by (auto simp: arwill_awp_udp_bind_def arwill_ipv4_udp_bind_def split: if_splits prod.splits)
  then have s': "s' = with_udp u (\<lambda>e. e\<lparr>ue_local_port := ucast port, ue_bound := True\<rparr>) s"
    by (auto simp: arwill_ipv4_udp_bind_def split: if_splits)
  show ?thesis
    by (rule udp_effect_touch [OF ok _ _ s'])
      (use u au ow' udp_bind_ok [OF so, of u "ucast port"] b udp_at_with [OF so] s' in
        \<open>auto simp: udp_owner_ok_def app_udp_def\<close>)
qed (simp add: udp_effect_refl same_tables_def)

lemma udp_connect_effect:
  assumes ok: "owner_ok s ow" and r: "arwill_awp_udp_connect (Some s) ow peer port = (r, Some s', ow')"
  shows "udp_effect s ow s' ow'"
proof (cases "s' = s \<and> ow' = ow")
  case False
  then obtain u where u: "ow_udp ow = Some u"
    using r by (auto simp: arwill_awp_udp_connect_def split: option.splits if_splits)
  have so: "stack_ok s" and au: "app_udp s u" using ok u by (auto simp: owner_ok_def udp_owner_ok_def)
  obtain st where c: "arwill_ipv4_udp_connect s u (address_bytes peer) (ucast port) = (st, s')" "\<not> st < 0"
      and ow': "ow' = ow\<lparr>ow_udp_connecting := True\<rparr>"
    using r False u
    by (auto simp: arwill_awp_udp_connect_def Let_def arwill_ipv4_udp_connect_def split: if_splits prod.splits)
  then obtain f where s': "s' = with_udp u f s" and f: "ue_allocated (f (udp_at s u)) = ue_allocated (udp_at s u)"
      "ue_bound (f (udp_at s u)) = ue_bound (udp_at s u)" "ue_local_port (f (udp_at s u)) = ue_local_port (udp_at s u)"
    by (auto simp: arwill_ipv4_udp_connect_def Let_def split: if_splits)
  show ?thesis
    by (rule udp_effect_touch [OF ok _ _ s'])
      (use u au ow' udp_connect_ok [OF so, of u "address_bytes peer" "ucast port"] c udp_at_with [OF so] s' f ok in
        \<open>auto simp: udp_owner_ok_def app_udp_def owner_ok_def\<close>)
qed (simp add: udp_effect_refl same_tables_def)

lemma udp_send_effect:
  assumes "owner_ok s ow" "arwill_awp_udp_send (Some s) ow data n = (r, Some s')"
  shows "udp_effect s ow s' ow"
proof -
  have "same_tables s s'"
    using assms(2) udp_send_same [of s _ data n]
    by (auto simp: arwill_awp_udp_send_def same_tables_def split: option.splits if_splits prod.splits)
  then show ?thesis by (rule udp_effect_refl)
qed

lemma udp_receive_effect:
  assumes ok: "owner_ok s ow" and r: "arwill_awp_udp_receive (Some s) ow data n = (r, b, Some s')"
  shows "udp_effect s ow s' ow"
proof (cases "s' = s")
  case False
  then obtain u where u: "ow_udp ow = Some u"
    using r by (auto simp: arwill_awp_udp_receive_def split: option.splits if_splits)
  have so: "stack_ok s" and au: "app_udp s u" using ok u by (auto simp: owner_ok_def udp_owner_ok_def)
  have s': "s' = with_udp u (\<lambda>e. e\<lparr>ue_receive_length := 0\<rparr>) s"
    using r False u
    by (auto simp: arwill_awp_udp_receive_def arwill_ipv4_udp_receive_def Let_def split: if_splits)
  have "stack_ok s'"
    unfolding s' using stack_ok_udp [OF so, of u] au
    by (intro stack_ok_with_udp [OF so]) (auto simp: app_udp_def udp_ok_def)
  then show ?thesis
    by (intro udp_effect_touch [OF ok _ _ s'])
      (use u au udp_at_with [OF so] s' ok in \<open>auto simp: udp_owner_ok_def app_udp_def owner_ok_def\<close>)
qed (simp add: udp_effect_refl same_tables_def)

lemma udp_release_effect:
  assumes ok: "owner_ok s ow" and u: "ow_udp ow = Some u"
  shows "udp_effect s ow (arwill_ipv4_udp_release s u)
    (ow\<lparr>ow_udp := None, ow_udp_local_port := 0, ow_udp_bound := False, ow_udp_connecting := False\<rparr>)"
proof -
  have so: "stack_ok s" and au: "app_udp s u" using ok u by (auto simp: owner_ok_def udp_owner_ok_def)
  have "arwill_ipv4_udp_release s u = with_udp u initialize_udp_endpoint s"
    using udp_found [OF au] by (simp add: arwill_ipv4_udp_release_def)
  then show ?thesis
    by (intro udp_effect_touch [OF ok]) 
      (use u au udp_release_ok [OF so, of u] in \<open>auto simp: udp_owner_ok_def app_udp_def initialize_udp_endpoint_def\<close>)
qed

lemma udp_close_effect:
  assumes "owner_ok s ow" "arwill_awp_udp_close (Some s) ow = (r, Some s', ow')"
  shows "udp_effect s ow s' ow'"
  using assms udp_release_effect [OF assms(1)]
  by (auto simp: arwill_awp_udp_close_def same_tables_def intro: udp_effect_refl split: option.splits)

section \<open>Exit\<close>

text \<open>An owner without endpoints; the effect of the cleanup of one handle.\<close>

definition empty_owner :: "arwill_awp_network_owner \<Rightarrow> bool" where
  "empty_owner ow \<longleftrightarrow> (\<forall>h<2. hd_stream (handle_at ow h) = None) \<and> ow_udp ow = None"

lemma release_handle_effect:
  assumes ok: "owner_ok s ow" and h: "h < 2"
  obtains s' where "release_handle (Some s, ow) h = (Some s', with_handle h clear_handle ow)"
    "tcp_effect s ow s' (with_handle h clear_handle ow)"
proof (cases "hd_stream (handle_at ow h)")
  case None
  have "tcp_effect s ow s (with_handle h clear_handle ow)"
    unfolding tcp_effect_def with_handle_at [of h clear_handle ow]
    by (intro disjI2 exI [of _ h] exI [of _ "clear_handle (handle_at ow h)"] exI [of _ 4])
      (use ok h None in \<open>auto simp: owner_ok_def handle_ok_def clear_handle_def app_stream_def\<close>)
  with None that [of s] show ?thesis by (simp add: release_handle_def)
next
  case (Some i)
  then show ?thesis
    using that [of "arwill_ipv4_tcp_release s i"] release_effect [OF ok h Some] by (simp add: release_handle_def)
qed

lemma cleanup_effects:
  assumes o: "owned s os" and k: "k < length os"
  obtains s1 s2 s3 ow1 ow2 ow3 where "tcp_effect s (os ! k) s1 ow1" "tcp_effect s1 ow1 s2 ow2" "udp_effect s2 ow2 s3 ow3"
    "arwill_awp_network_cleanup (Some s) (os ! k) = (Some s3, ow3)" "empty_owner ow3"
    "owned s1 (os[k := ow1])" "owned s2 (os[k := ow2])" "owned s3 (os[k := ow3])"
proof -
  define ow1 where "ow1 = with_handle 0 clear_handle (os ! k)"
  define ow2 where "ow2 = with_handle 1 clear_handle ow1"
  define ow3 where "ow3 = ow2\<lparr>ow_udp := None, ow_udp_local_port := 0, ow_udp_bound := False, ow_udp_connecting := False\<rparr>"
  have ok: "owner_ok s (os ! k)" by (rule owned_owner [OF o k])
  obtain s1 where s1: "release_handle (Some s, os ! k) 0 = (Some s1, ow1)" "tcp_effect s (os ! k) s1 ow1"
    using release_handle_effect [OF ok, of 0] by (auto simp: ow1_def)
  have o1: "owned s1 (os[k := ow1])" by (rule owned_tcp [OF o k s1(2)])
  have ok1: "owner_ok s1 ow1" using owned_owner [OF o1, of k] k by simp
  obtain s2 where s2: "release_handle (Some s1, ow1) 1 = (Some s2, ow2)" "tcp_effect s1 ow1 s2 ow2"
    using release_handle_effect [OF ok1, of 1] by (auto simp: ow2_def)
  have o2: "owned s2 (os[k := ow2])" using owned_tcp [OF o1, of k s2 ow2] s2(2) k by simp
  have ok2: "owner_ok s2 ow2" using owned_owner [OF o2, of k] k by simp
  define s3 where "s3 = (case ow_udp ow2 of None \<Rightarrow> s2 | Some u \<Rightarrow> arwill_ipv4_udp_release s2 u)"
  have "udp_effect s2 ow2 s3 ow3"
  proof (cases "ow_udp ow2")
    case None
    then show ?thesis
      unfolding udp_effect_def
      by (intro disjI2 exI [of _ 4]) (use None ok2 in \<open>auto simp: ow3_def s3_def owner_ok_def udp_owner_ok_def app_udp_def\<close>)
  next
    case (Some u)
    then show ?thesis using udp_release_effect [OF ok2 Some] by (simp add: ow3_def s3_def)
  qed
  moreover from this have "owned s3 (os[k := ow3])" using owned_udp [OF o2, of k s3 ow3] k by simp
  moreover have "arwill_awp_network_cleanup (Some s) (os ! k) = (Some s3, ow3)"
    using s1(1) s2(1)
    by (simp add: arwill_awp_network_cleanup_def upt_conv_Cons ow3_def s3_def numeral_2_eq_2 split: option.splits)
  moreover have "length (ow_handles (os ! k)) = 2" using ok by (simp add: owner_ok_def)
  then have "empty_owner ow3"
    by (auto simp: empty_owner_def ow3_def ow2_def ow1_def with_handle_def handle_at_def clear_handle_def
        nth_list_update less_2_cases_iff)
  ultimately show ?thesis using that s1(2) s2(2) o1 o2 by blast
qed

end
