(* ===== verification/Awp_Properties.thy ===== *)
theory Awp_Properties
  imports Awp_Ownership Ipv4_Properties
begin

text \<open>
  The programs on a machine share its network stack: the steps of the machine, the ownership
  of endpoints in every reachable state, the isolation of programs from each other, and what
  remains of a program after its exit.
\<close>

section \<open>Steps\<close>

inductive awp_call ::
    "('n, 'k) arwill_ipv4_stack \<Rightarrow> arwill_awp_network_owner \<Rightarrow> ('n, 'k) arwill_ipv4_stack \<Rightarrow>
     arwill_awp_network_owner \<Rightarrow> bool" where
  tcp_open: "arwill_awp_network_open (Some s) ow = (r, Some s', ow') \<Longrightarrow> awp_call s ow s' ow'"
| tcp_bind: "arwill_awp_network_bind (Some s) ow v port = (r, Some s', ow') \<Longrightarrow> awp_call s ow s' ow'"
| tcp_listen: "arwill_awp_network_listen (Some s) ow v = (r, Some s', ow') \<Longrightarrow> awp_call s ow s' ow'"
| tcp_connect: "arwill_awp_network_connect (Some s) ow v peer port = (r, Some s', ow') \<Longrightarrow> awp_call s ow s' ow'"
| tcp_read: "arwill_awp_network_read s ow v (Some buf) capacity = (r, b, s') \<Longrightarrow> capacity \<le> length buf \<Longrightarrow>
    awp_call s ow s' ow"
| tcp_write: "arwill_awp_network_write s ow v (Some d) (length d) = (r, s') \<Longrightarrow> awp_call s ow s' ow"
| tcp_close: "arwill_awp_network_close (Some s) ow v = (r, Some s', ow') \<Longrightarrow> awp_call s ow s' ow'"
| udp_open: "arwill_awp_udp_open (Some s) ow = (r, Some s', ow') \<Longrightarrow> awp_call s ow s' ow'"
| udp_bind: "arwill_awp_udp_bind (Some s) ow port = (r, Some s', ow') \<Longrightarrow> awp_call s ow s' ow'"
| udp_connect: "arwill_awp_udp_connect (Some s) ow peer port = (r, Some s', ow') \<Longrightarrow> awp_call s ow s' ow'"
| udp_send: "arwill_awp_udp_send (Some s) ow data n = (r, Some s') \<Longrightarrow> awp_call s ow s' ow"
| udp_receive: "arwill_awp_udp_receive (Some s) ow data n = (r, b, Some s') \<Longrightarrow> awp_call s ow s' ow"
| udp_close: "arwill_awp_udp_close (Some s) ow = (r, Some s', ow') \<Longrightarrow> awp_call s ow s' ow'"

text \<open>
  The kernel polls the stack, works the remote console on endpoint 0, starts programs, runs
  their calls and cleans up after them.
\<close>

inductive awp_step ::
    "('n, 'k) arwill_ipv4_stack \<times> arwill_awp_network_owner list \<Rightarrow>
     ('n, 'k) arwill_ipv4_stack \<times> arwill_awp_network_owner list \<Rightarrow> bool" where
  poll: "awp_step (s, os) (snd (arwill_ipv4_poll_tcp s), os)"
| devices: "same_tables s s' \<Longrightarrow> awp_step (s, os) (s', os)"
| console_listen: "awp_step (s, os) (snd (arwill_ipv4_tcp_listen s 0 port), os)"
| console_read: "capacity \<le> length buf \<Longrightarrow>
    awp_step (s, os) (with_endpoint 0 (update_stream (\<lambda>st. snd (snd (arwill_tcp_stream_read st (Some buf) capacity)))) s, os)"
| console_write:
    "awp_step (s, os) (with_endpoint 0 (update_stream (\<lambda>st. snd (arwill_tcp_stream_write st (Some d) (length d)))) s, os)"
| console_close: "awp_step (s, os) (with_endpoint 0 (update_stream arwill_tcp_stream_close) s, os)"
| console_stop: "awp_step (s, os) (with_endpoint 0 (update_stream arwill_tcp_stream_stop) s, os)"
| start: "length (ow_handles ow) = 2 \<Longrightarrow> awp_step (s, os) (s, os @ [arwill_awp_network_owner_init ow])"
| call: "k < length os \<Longrightarrow> awp_call s (os ! k) s' ow' \<Longrightarrow> awp_step (s, os) (s', os[k := ow'])"
| exit: "k < length os \<Longrightarrow> arwill_awp_network_cleanup (Some s) (os ! k) = (Some s', ow') \<Longrightarrow>
    awp_step (s, os) (s', os[k := ow'])"

inductive awp_reachable :: "('n, 'k) arwill_ipv4_stack \<times> arwill_awp_network_owner list \<Rightarrow> bool" where
  boot: "raw_stack s \<Longrightarrow> arwill_ipv4_init s network clock port = (True, s') \<Longrightarrow> awp_reachable (s', [])"
| step: "awp_reachable c \<Longrightarrow> awp_step c c' \<Longrightarrow> awp_reachable c'"

section \<open>The invariant\<close>

lemma call_effect:
  assumes "awp_call s ow s' ow'" "owner_ok s ow"
  shows "tcp_effect s ow s' ow' \<or> udp_effect s ow s' ow'"
  using assms
  by (cases rule: awp_call.cases)
    (auto dest: open_effect bind_effect listen_effect connect_effect read_effect write_effect close_effect
      udp_open_effect udp_bind_effect udp_connect_effect udp_send_effect udp_receive_effect udp_close_effect)

lemma owned_call:
  assumes "owned s os" "k < length os" "awp_call s (os ! k) s' ow'"
  shows "owned s' (os[k := ow'])"
  using call_effect [OF assms(3) owned_owner [OF assms(1,2)]] owned_tcp [OF assms(1,2)] owned_udp [OF assms(1,2)] by blast

lemma owned_exit:
  assumes "owned s os" "k < length os" "arwill_awp_network_cleanup (Some s) (os ! k) = (Some s', ow')"
  shows "owned s' (os[k := ow']) \<and> empty_owner ow'"
  by (rule cleanup_effects [OF assms(1,2)]) (use assms(3) in auto)

text \<open>Work on endpoint 0 is nobody else's business.\<close>

lemma owned_console:
  assumes "owned s os" "stack_ok s'" "\<forall>i. 1 \<le> i \<longrightarrow> endpoint_at s' i = endpoint_at s i"
    "ip_udp_endpoints s' = ip_udp_endpoints s"
  shows "owned s' os"
proof -
  have "app_stream s' i = app_stream s i" "app_udp s' i = app_udp s i" for i
    using assms(3,4) by (auto simp: app_stream_def app_udp_def udp_at_def)
  moreover have "handle_ok s' x = handle_ok s x" "udp_owner_ok s' ow = udp_owner_ok s ow" for x ow
    using assms(3,4) by (auto simp: handle_ok_def udp_owner_ok_def app_stream_def app_udp_def udp_at_def split: option.splits)
  ultimately show ?thesis using assms(1,2) by (simp add: owned_def exclusive_def)
qed

lemma owned_console_keeps:
  assumes o: "owned s os" and f: "\<And>e. keeps e (f e)"
  shows "owned (with_endpoint 0 f s) os"
proof (rule owned_console [OF o])
  show "stack_ok (with_endpoint 0 f s)" using o f by (intro stack_ok_with_endpoint) (simp_all add: owned_def)
qed (simp_all add: endpoint_at_def with_endpoint_def)

lemma owned_console_listen:
  assumes o: "owned s os"
  shows "owned (snd (arwill_ipv4_tcp_listen s 0 port)) os"
proof (rule owned_console [OF o])
  show "stack_ok (snd (arwill_ipv4_tcp_listen s 0 port))" using o tcp_listen_ok [of s 0 port] by (simp add: owned_def)
  show "\<forall>i. 1 \<le> i \<longrightarrow> endpoint_at (snd (arwill_ipv4_tcp_listen s 0 port)) i = endpoint_at s i"
    by (auto simp: arwill_ipv4_tcp_listen_def arwill_ipv4_tcp_bind_def endpoint_at_def with_endpoint_def
        dest!: endpoint_for_stream_Some split: option.splits prod.splits if_splits)
  show "ip_udp_endpoints (snd (arwill_ipv4_tcp_listen s 0 port)) = ip_udp_endpoints s"
    by (auto simp: arwill_ipv4_tcp_listen_def arwill_ipv4_tcp_bind_def with_endpoint_def
        split: option.splits prod.splits if_splits)
qed

lemma owned_start:
  assumes o: "owned s os" and len: "length (ow_handles ow) = 2"
  shows "owned s (os @ [arwill_awp_network_owner_init ow])"
proof -
  let ?ow = "arwill_awp_network_owner_init ow" and ?n = "length os"
  let ?os = "os @ [?ow]"
  have h: "handle_at ?ow h = clear_handle (ow_handles ow ! h)" if "h < 2" for h
    using len that by (simp add: handle_at_def arwill_awp_network_owner_init_def)
  have S: "slots ?os = slots os \<union> {?n} \<times> {..<2}" by (auto simp: slots_def less_Suc_eq)
  have "exclusive app_stream hd_stream handle_ok s (slots os) (handle_of ?os)"
    by (rule streams.exclusive_cong [of s "slots os" "handle_of os"])
      (use o in \<open>auto simp: owned_def slots_def handle_of_def nth_append\<close>)
  then have "exclusive app_stream hd_stream handle_ok s (slots ?os) (handle_of ?os)"
    unfolding S by (rule streams.exclusive_extend) (auto simp: handle_of_def h clear_handle_def handle_ok_def)
  moreover have "exclusive app_udp ow_udp udp_owner_ok s {..<?n} ((!) ?os)"
    by (rule datagrams.exclusive_cong [of s "{..<?n}" "(!) os"]) (use o in \<open>auto simp: owned_def nth_append\<close>)
  then have "exclusive app_udp ow_udp udp_owner_ok s ({..<?n} \<union> {?n}) ((!) ?os)"
    by (rule datagrams.exclusive_extend) (simp add: arwill_awp_network_owner_init_def udp_owner_ok_def)
  moreover have "{..<?n} \<union> {?n} = {..<length ?os}" by auto
  ultimately show ?thesis using o len by (auto simp: owned_def arwill_awp_network_owner_init_def)
qed

lemma owned_boot:
  assumes "raw_stack s" "arwill_ipv4_init s network clock port = (True, s')"
  shows "owned s' []"
proof -
  have e: "\<not> ep_allocated (endpoint_at s' i)" if "1 \<le> i" "i < 4" for i
    using assms that
    by (auto simp: arwill_ipv4_init_def Let_def raw_stack_def endpoint_at_def nth_list_update
        initialize_tcp_endpoint_def split: if_splits prod.splits)
  have u: "\<not> ue_allocated (udp_at s' i)" if "i < 4" for i
    using assms that
    by (auto simp: arwill_ipv4_init_def Let_def raw_stack_def udp_at_def initialize_udp_endpoint_def
        split: if_splits prod.splits)
  show ?thesis
    using init_ok [OF assms] e u by (auto simp: owned_def exclusive_def slots_def app_stream_def app_udp_def)
qed

lemma step_owned:
  assumes "awp_step c c'" "owned (fst c) (snd c)"
  shows "owned (fst c') (snd c')"
  using assms
proof (induction rule: awp_step.induct)
  case (poll s os)
  then show ?case
    using poll_evolves [of s] owned_same_owners [of s os] by (auto simp: evolves_def owned_def)
next
  case (devices s s' os)
  then show ?case
    using same_tables_evolves [of s s'] owned_same_owners [of s os s'] by (auto simp: evolves_def owned_def)
next
  case (exit k os s s' ow')
  then show ?case using owned_exit [of s os k s' ow'] by simp
qed (auto intro: owned_console_listen owned_console_keeps stream_read_keeps stream_write_keeps stream_close_keeps
      stream_stop_keeps owned_start owned_call)

lemma reachable_owned: "awp_reachable c \<Longrightarrow> owned (fst c) (snd c)"
  by (induction rule: awp_reachable.induct) (auto intro: owned_boot step_owned)

text \<open>
  C13. Whatever programs call, in whatever order, and whatever the network delivers in between:
  every endpoint in use besides that of the remote console belongs to exactly one handle of one
  program, a handle with an endpoint names one that is in use and bound to the port the handle
  says, and the same holds of the datagram endpoints. No endpoint leaks and none is shared.
\<close>

theorem awp_ownership:
  assumes "awp_reachable (s, os)"
  shows "(\<forall>i. app_stream s i \<longrightarrow> (\<exists>!p. p \<in> slots os \<and> hd_stream (handle_of os p) = Some i)) \<and>
    (\<forall>p\<in>slots os. handle_ok s (handle_of os p)) \<and>
    (\<forall>u. app_udp s u \<longrightarrow> (\<exists>!k. k < length os \<and> ow_udp (os ! k) = Some u)) \<and>
    (\<forall>k<length os. udp_owner_ok s (os ! k))"
proof -
  have o: "owned s os" using reachable_owned [OF assms] by simp
  then have t: "exclusive app_stream hd_stream handle_ok s (slots os) (handle_of os)"
    and u: "exclusive app_udp ow_udp udp_owner_ok s {..<length os} ((!) os)"
    by (simp_all add: owned_def)
  have "\<exists>!p. p \<in> slots os \<and> hd_stream (handle_of os p) = Some i" if "app_stream s i" for i
    using t that unfolding exclusive_def by blast
  moreover have "\<exists>!k. k < length os \<and> ow_udp (os ! k) = Some j" if "app_udp s j" for j
    using u that unfolding exclusive_def lessThan_iff [symmetric] by blast
  moreover have "\<forall>p\<in>slots os. handle_ok s (handle_of os p)" "\<forall>k<length os. udp_owner_ok s (os ! k)"
    using t u by (simp_all add: exclusive_def)
  ultimately show ?thesis by blast
qed

definition fresh_owner :: arwill_awp_network_owner where
  "fresh_owner = arwill_awp_network_owner_init
     \<lparr>ow_handles = replicate 2 \<lparr>hd_stream = None, hd_local_port = 7, hd_state = Handle_closing\<rparr>, ow_udp = None,
      ow_udp_local_port = 0, ow_udp_bound = True, ow_udp_connecting = False\<rparr>"

lemma demo_program:
  obtains s' where "awp_reachable (s', [with_handle 0 (\<lambda>x. x\<lparr>hd_stream := Some 1, hd_state := Handle_open\<rparr>) fresh_owner])"
    "app_stream (s' :: (unit, unit) arwill_ipv4_stack) 1"
proof -
  let ?ow = "with_handle 0 (\<lambda>x. x\<lparr>hd_stream := Some 1, hd_state := Handle_open\<rparr>) fresh_owner"
  obtain ok s where i: "arwill_ipv4_init blank_stack (Some demo_network) (Some demo_clock) 2323 = (ok, s)"
    by (cases "arwill_ipv4_init blank_stack (Some demo_network) (Some demo_clock) 2323")
  then have ok by (auto simp: arwill_ipv4_init_def arwill_network_read_mac_def demo_network_def Let_def)
  with i have boot: "arwill_ipv4_init blank_stack (Some demo_network) (Some demo_clock) 2323 = (True, s)" by simp
  have o: "owned s []" by (rule owned_boot [OF blank_stack_raw boot])
  then have free: "\<not> ep_allocated (endpoint_at s 1)" and len: "length (ip_endpoints s) = 4"
    by (auto simp: owned_def exclusive_def slots_def app_stream_def stack_ok_def)
  define s' where "s' = with_endpoint 1 (\<lambda>e. (initialize_tcp_endpoint e)\<lparr>ep_allocated := True\<rparr>) s"
  have call: "arwill_awp_network_open (Some s) fresh_owner = (0, Some s', ?ow)"
    using free
    by (simp add: arwill_awp_network_open_def arwill_ipv4_tcp_open_def upt_conv_Cons fresh_owner_def s'_def
        arwill_awp_network_owner_init_def handle_at_def clear_handle_def with_handle_def numeral_2_eq_2)
  have "awp_reachable (s, [] @ [fresh_owner])"
    unfolding fresh_owner_def
    by (rule awp_reachable.step [OF awp_reachable.boot [OF blank_stack_raw boot] awp_step.start]) simp
  moreover have "awp_step (s, [] @ [fresh_owner]) (s', ([] @ [fresh_owner])[0 := ?ow])"
    by (rule awp_step.call [OF _ awp_call.tcp_open]) (use call in simp_all)
  ultimately have "awp_reachable (s', [?ow])" using awp_reachable.step by fastforce
  moreover have "app_stream s' 1"
    using len by (simp add: s'_def app_stream_def endpoint_at_def with_endpoint_def)
  ultimately show ?thesis using that by blast
qed

theorem awp_ownership_witness:
  "\<exists>(s :: (unit, unit) arwill_ipv4_stack) os. awp_reachable (s, os) \<and> app_stream s 1 \<and>
     (\<exists>!p. p \<in> slots os \<and> hd_stream (handle_of os p) = Some 1)"
proof -
  let ?ow = "with_handle 0 (\<lambda>x. x\<lparr>hd_stream := Some 1, hd_state := Handle_open\<rparr>) fresh_owner"
  obtain s' where r: "awp_reachable (s', [?ow])"
      "app_stream (s' :: (unit, unit) arwill_ipv4_stack) 1"
    by (rule demo_program)
  have "app_stream s' 1 \<longrightarrow> (\<exists>!p. p \<in> slots [?ow] \<and> hd_stream (handle_of [?ow] p) = Some 1)"
    using awp_ownership [OF r(1)] by (elim conjE) (erule spec)
  with r show ?thesis by (intro exI [of _ s'] exI [of _ "[?ow]"] conjI) (simp_all only: simp_thms)
qed

section \<open>Isolation\<close>

text \<open>What a step of program \<open>k\<close> leaves alone: the console and the endpoints of all others.\<close>

definition isolated ::
    "nat \<Rightarrow> arwill_awp_network_owner list \<Rightarrow> ('n, 'k) arwill_ipv4_stack \<Rightarrow> ('n, 'k) arwill_ipv4_stack \<Rightarrow> bool" where
  "isolated k os s s' \<longleftrightarrow> endpoint_at s' 0 = endpoint_at s 0 \<and>
     (\<forall>p\<in>slots os. fst p \<noteq> k \<longrightarrow> (\<forall>i. hd_stream (handle_of os p) = Some i \<longrightarrow> endpoint_at s' i = endpoint_at s i)) \<and>
     (\<forall>m<length os. m \<noteq> k \<longrightarrow> (\<forall>u. ow_udp (os ! m) = Some u \<longrightarrow> udp_at s' u = udp_at s u))"

lemma isolated_update: "isolated k (os[k := ow]) s s' = isolated k os s s'"
  by (auto simp: isolated_def slots_def handle_of_def)

lemma isolated_trans: "isolated k os s s1 \<Longrightarrow> isolated k os s1 s' \<Longrightarrow> isolated k os s s'"
  by (auto simp: isolated_def)

lemma same_tables_isolated: "same_tables s s' \<Longrightarrow> isolated k os s s'"
  by (simp add: isolated_def same_tables_at same_tables_udp)

lemma tcp_isolated:
  assumes o: "owned s os" and k: "k < length os" and e: "tcp_effect s (os ! k) s' ow'"
  shows "isolated k os s s'"
proof (cases "same_tables s s'")
  case False
  then obtain h i where h: "h < 2" "1 \<le> i" and frame: "\<forall>j. j \<noteq> i \<longrightarrow> endpoint_at s' j = endpoint_at s j"
      "ip_udp_endpoints s' = ip_udp_endpoints s"
    and before: "hd_stream (handle_at (os ! k) h) = Some i \<or> hd_stream (handle_at (os ! k) h) = None \<and> \<not> app_stream s i"
    using e unfolding tcp_effect_def by auto
  have kh: "(k, h) \<in> slots os" using k h by (simp add: slots_def)
  have "j \<noteq> i" if "p \<in> slots os" "fst p \<noteq> k" "hd_stream (handle_of os p) = Some j" for p j
    using streams.claimed_elsewhere [of s "slots os" "handle_of os" "(k, h)" p i] o kh that before
    by (cases p) (auto simp: owned_def handle_of_def)
  then show ?thesis using frame h(2) by (auto simp: isolated_def udp_at_def)
qed (rule same_tables_isolated)

lemma udp_isolated:
  assumes o: "owned s os" and k: "k < length os" and e: "udp_effect s (os ! k) s' ow'"
  shows "isolated k os s s'"
proof (cases "same_tables s s'")
  case False
  then obtain u where frame: "\<forall>j. j \<noteq> u \<longrightarrow> udp_at s' j = udp_at s j" "ip_endpoints s' = ip_endpoints s"
    and before: "ow_udp (os ! k) = Some u \<or> ow_udp (os ! k) = None \<and> \<not> app_udp s u"
    using e unfolding udp_effect_def by auto
  have "v \<noteq> u" if "m < length os" "m \<noteq> k" "ow_udp (os ! m) = Some v" for m v
    using datagrams.claimed_elsewhere [of s "{..<length os}" "(!) os" k m u] o k that before by (auto simp: owned_def)
  then show ?thesis using frame by (auto simp: isolated_def endpoint_at_def)
qed (rule same_tables_isolated)

lemma freed_streams:
  assumes o: "owned s os" and o': "owned s' (os[k := ow'])" and k: "k < length os" and ow': "empty_owner ow'"
  shows "app_stream s' i \<longleftrightarrow> app_stream s i \<and> (\<forall>h<2. hd_stream (handle_at (os ! k) h) \<noteq> Some i)"
proof -
  have keep: "handle_of (os[k := ow']) p = handle_of os p" if "fst p \<noteq> k" for p
    using that by (simp add: handle_of_def)
  have gone: "hd_stream (handle_of (os[k := ow']) p) = None" if "p \<in> slots os" "fst p = k" for p
    using that k ow' by (auto simp: handle_of_def slots_def empty_owner_def)
  have S: "slots (os[k := ow']) = slots os" by (simp add: slots_def)
  note ex = o [unfolded owned_def exclusive_def] o' [unfolded owned_def exclusive_def S]
  have "app_stream s' i \<longleftrightarrow> (\<exists>p\<in>slots os. fst p \<noteq> k \<and> hd_stream (handle_of os p) = Some i)"
    using ex(2) keep gone streams.fit_held [of s'] by (metis option.distinct(1))
  moreover have "(\<exists>p\<in>slots os. fst p \<noteq> k \<and> hd_stream (handle_of os p) = Some i) \<longleftrightarrow>
      app_stream s i \<and> (\<forall>p\<in>slots os. fst p = k \<longrightarrow> hd_stream (handle_of os p) \<noteq> Some i)"
    using ex(1) streams.fit_held [of s] by metis
  moreover have "(\<forall>p\<in>slots os. fst p = k \<longrightarrow> hd_stream (handle_of os p) \<noteq> Some i) \<longleftrightarrow>
      (\<forall>h<2. hd_stream (handle_at (os ! k) h) \<noteq> Some i)"
    using k by (auto simp: slots_def handle_of_def)
  ultimately show ?thesis by simp
qed

lemma freed_datagrams:
  assumes o: "owned s os" and o': "owned s' (os[k := ow'])" and k: "k < length os" and ow': "empty_owner ow'"
  shows "app_udp s' u \<longleftrightarrow> app_udp s u \<and> ow_udp (os ! k) \<noteq> Some u"
proof -
  note ex = o [unfolded owned_def exclusive_def] o' [unfolded owned_def exclusive_def length_list_update]
  have at: "os[k := ow'] ! m = (if m = k then ow' else os ! m)" if "m < length os" for m
    using that by (simp add: nth_list_update)
  have "app_udp s' u \<longleftrightarrow> (\<exists>m\<in>{..<length os}. m \<noteq> k \<and> ow_udp (os ! m) = Some u)"
    using ex(2) at ow' datagrams.fit_held [of s'] unfolding empty_owner_def
    by (metis lessThan_iff option.distinct(1))
  moreover have "(\<exists>m\<in>{..<length os}. m \<noteq> k \<and> ow_udp (os ! m) = Some u) \<longleftrightarrow> app_udp s u \<and> ow_udp (os ! k) \<noteq> Some u"
    using ex(1) k datagrams.fit_held [of s] by (metis lessThan_iff)
  ultimately show ?thesis by simp
qed

text \<open>
  C16. A call of a program leaves the remote console and every endpoint of the other programs
  exactly as they were, and so does cleaning up after it; the cleanup gives back all the
  endpoints the program had and no other.
\<close>

theorem awp_isolation:
  assumes "awp_reachable (s, os)" "k < length os"
  shows "(\<forall>s' ow'. awp_call s (os ! k) s' ow' \<longrightarrow> isolated k os s s') \<and>
    (\<exists>s' ow'. arwill_awp_network_cleanup (Some s) (os ! k) = (Some s', ow') \<and> isolated k os s s' \<and> empty_owner ow' \<and>
      (\<forall>i. app_stream s' i \<longleftrightarrow> app_stream s i \<and> (\<forall>h<2. hd_stream (handle_at (os ! k) h) \<noteq> Some i)) \<and>
      (\<forall>u. app_udp s' u \<longleftrightarrow> app_udp s u \<and> ow_udp (os ! k) \<noteq> Some u))"
proof -
  have o: "owned s os" using reachable_owned [OF assms(1)] by simp
  note k = assms(2)
  have calls: "\<forall>s' ow'. awp_call s (os ! k) s' ow' \<longrightarrow> isolated k os s s'"
    using call_effect [OF _ owned_owner [OF o k]] tcp_isolated [OF o k] udp_isolated [OF o k] by blast
  obtain s1 s2 s3 ow1 ow2 ow3 where e: "tcp_effect s (os ! k) s1 ow1" "tcp_effect s1 ow1 s2 ow2" "udp_effect s2 ow2 s3 ow3"
    and c: "arwill_awp_network_cleanup (Some s) (os ! k) = (Some s3, ow3)" "empty_owner ow3"
    and os: "owned s1 (os[k := ow1])" "owned s2 (os[k := ow2])" "owned s3 (os[k := ow3])"
    by (rule cleanup_effects [OF o k])
  have "isolated k os s s1" "isolated k os s1 s2" "isolated k os s2 s3"
    using tcp_isolated [OF o k e(1)] tcp_isolated [OF os(1), of k s2 ow2] udp_isolated [OF os(2), of k s3 ow3] e k
    by (simp_all add: isolated_update)
  then have iso: "isolated k os s s3" using isolated_trans by blast
  have "app_stream s3 i \<longleftrightarrow> app_stream s i \<and> (\<forall>h<2. hd_stream (handle_at (os ! k) h) \<noteq> Some i)" for i
    by (rule freed_streams [OF o os(3) k c(2)])
  moreover have "app_udp s3 u \<longleftrightarrow> app_udp s u \<and> ow_udp (os ! k) \<noteq> Some u" for u
    by (rule freed_datagrams [OF o os(3) k c(2)])
  ultimately show ?thesis using calls c iso by blast
qed

theorem awp_isolation_witness:
  "\<exists>(s :: (unit, unit) arwill_ipv4_stack) os s' ow'. awp_reachable (s, os) \<and> app_stream s 1 \<and>
     arwill_awp_network_cleanup (Some s) (os ! 0) = (Some s', ow') \<and> \<not> app_stream s' 1 \<and> isolated 0 os s s'"
proof -
  let ?ow = "with_handle 0 (\<lambda>x. x\<lparr>hd_stream := Some 1, hd_state := Handle_open\<rparr>) fresh_owner"
  obtain s' where r: "awp_reachable (s', [?ow])" "app_stream (s' :: (unit, unit) arwill_ipv4_stack) 1"
    by (rule demo_program)
  have "hd_stream (handle_at ?ow 0) = Some 1"
    by (simp add: handle_at_def with_handle_def fresh_owner_def arwill_awp_network_owner_init_def numeral_2_eq_2)
  moreover obtain s2 ow2 where "arwill_awp_network_cleanup (Some s') ?ow = (Some s2, ow2)" "isolated 0 [?ow] s' s2"
      "\<forall>i. app_stream s2 i \<longleftrightarrow> app_stream s' i \<and> (\<forall>h<2. hd_stream (handle_at ?ow h) \<noteq> Some i)"
    using awp_isolation [OF r(1), of 0] by auto
  ultimately have "\<not> app_stream s2 1" "arwill_awp_network_cleanup (Some s') ([?ow] ! 0) = (Some s2, ow2)"
      "isolated 0 [?ow] s' s2"
    by (metis zero_less_numeral, simp_all)
  with r show ?thesis by blast
qed

section \<open>A datagram no program can take\<close>

text \<open>
  An endpoint queues a datagram of up to 512 bytes, but a program may offer at most 256 bytes of
  buffer: a longer one is refused to every call of the program, stays queued, and with it in
  the queue every later datagram is dropped.
\<close>

lemma udp_oversize_stuck:
  assumes "owner_ok s ow" "ow_udp ow = Some u" "256 < ue_receive_length (udp_at s u)"
  shows "arwill_awp_udp_receive (Some s) ow buffer capacity = (-2, buffer, Some s)"
proof -
  have "udp_endpoint_for_pointer s u = Some u"
    using assms(1,2) udp_found by (auto simp: owner_ok_def udp_owner_ok_def)
  then show ?thesis
    using assms(2,3) by (auto simp: arwill_awp_udp_receive_def arwill_ipv4_udp_receive_def Let_def)
qed

lemma udp_busy_drops:
  assumes "ue_receive_length (udp_at s u) \<noteq> 0"
    "udp_endpoint_for s (drop 26 frame) (get16 (drop 34 frame) 0) (get16 (drop 34 frame) 2) = Some u"
    "handle_udp_frame s frame len = (r, s')"
  shows "ip_udp_endpoints s' = ip_udp_endpoints s"
  using assms by (auto simp: handle_udp_frame_def Let_def split: if_splits)

end
