(* ===== verification/Dns.thy ===== *)
theory Dns
  imports Packet
begin

text \<open>
  \<open>libs/libnet/dns.c\<close>: building the query for the address of a host and reading the response.
  A result is the code the source returns, with the buffer it wrote. The lemmas
  relate the query to the labels of the name and show that an answer to it is read back.
\<close>

section \<open>Definitions\<close>

abbreviation (input) arwill_dns_ok :: int where "arwill_dns_ok \<equiv> 0"
abbreviation (input) arwill_dns_invalid :: int where "arwill_dns_invalid \<equiv> -1"
abbreviation (input) arwill_dns_too_large :: int where "arwill_dns_too_large \<equiv> -2"
abbreviation (input) arwill_dns_not_found :: int where "arwill_dns_not_found \<equiv> -3"
abbreviation (input) arwill_dns_server_failure :: int where "arwill_dns_server_failure \<equiv> -4"

definition read_u16 :: "bytes \<Rightarrow> nat \<Rightarrow> u16" where
  "read_u16 data i = push_bit 8 (ucast (data ! i)) OR ucast (data ! (i + 1))"

definition write_u16 :: "bytes \<Rightarrow> nat \<Rightarrow> u16 \<Rightarrow> bytes" where
  "write_u16 data i val = data[i := ucast (drop_bit 8 val), i + 1 := ucast val]"

text \<open>The position behind a name, or none when the name is malformed.\<close>

function skip_name_from :: "bytes \<Rightarrow> nat \<Rightarrow> nat \<Rightarrow> nat \<Rightarrow> nat option" where
  "skip_name_from message len position labels =
     (if position < len then
        (let part = message ! position; position = position + 1
         in if part = 0 then Some position
            else if part AND 0xc0 = 0xc0 then (if position \<ge> len then None else Some (position + 1))
            else if part AND 0xc0 \<noteq> 0 \<or> part > 63 \<or> position + unat part > len \<or> labels + 1 > 127 then None
            else skip_name_from message len (position + unat part) (labels + 1))
      else None)"
  by pat_completeness auto
termination by (relation "measure (\<lambda>(message, len, position, labels). len - position)") auto

declare skip_name_from.simps [simp del]

definition skip_name :: "bytes \<Rightarrow> nat \<Rightarrow> nat \<Rightarrow> nat option" where
  "skip_name message len offset = skip_name_from message len offset 0"

definition host_character :: "u8 \<Rightarrow> bool" where
  "host_character b \<longleftrightarrow> chr CHR ''a'' \<le> b \<and> b \<le> chr CHR ''z'' \<or> chr CHR ''A'' \<le> b \<and> b \<le> chr CHR ''Z'' \<or>
     chr CHR ''0'' \<le> b \<and> b \<le> chr CHR ''9'' \<or> b = chr CHR ''-''"

text \<open>The loop over the labels of the name: an error code, or the number of bytes used.\<close>

function query_labels ::
    "bytes \<Rightarrow> nat \<Rightarrow> nat \<Rightarrow> nat \<Rightarrow> nat \<Rightarrow> bytes \<Rightarrow> (int + nat) \<times> bytes" where
  "query_labels host capacity used start index output =
     (if cs_at host index \<noteq> chr CHR ''.'' \<and> cs_at host index \<noteq> 0 then
        (if \<not> host_character (cs_at host index) then (Inl arwill_dns_invalid, output)
         else query_labels host capacity used start (index + 1) output)
      else
        (let label_length = index - start
         in if label_length = 0 \<or> label_length > 63 \<or> used + 1 + label_length + 5 > capacity
            then (Inl (if label_length > 63 then arwill_dns_invalid else arwill_dns_too_large), output)
            else
              (let output = copy_into (output[used := of_nat label_length]) (used + 1) (drop start host) label_length;
                   used = used + 1 + label_length
               in if cs_at host index = 0 then (Inr used, output)
                  else query_labels host capacity used (index + 1) (index + 1) output)))"
  by pat_completeness auto
termination
  by (relation "measure (\<lambda>(host, capacity, used, start, index, output). length host - index)")
    (auto simp: cs_at_def split: if_splits)

declare query_labels.simps [simp del]

definition arwill_dns_build_a_query ::
    "bytes option \<Rightarrow> u16 \<Rightarrow> bytes option \<Rightarrow> nat \<Rightarrow> int \<times> bytes option \<times> nat option" where
  "arwill_dns_build_a_query host identifier output capacity =
     (case (host, output) of
        (Some host, Some output) \<Rightarrow>
          if cs_at host 0 = 0 \<or> capacity < 17 then (arwill_dns_invalid, Some output, None)
          else
            (let output = foldl (\<lambda>output index. output[index := 0]) output [0..<12];
                 output = write_u16 output 0 identifier;
                 output = write_u16 output 2 0x0100;
                 output = write_u16 output 4 1
             in case query_labels host capacity 12 0 0 output of
                  (Inl code, output) \<Rightarrow> (code, Some output, None)
                | (Inr used, output) \<Rightarrow>
                   (let output = output[used := 0]; used = used + 1;
                        output = write_u16 output used 1;
                        output = write_u16 output (used + 2) 1
                    in (arwill_dns_ok, Some output, Some (used + 4))))
      | _ \<Rightarrow> (arwill_dns_invalid, output, None))"

fun skip_questions :: "bytes \<Rightarrow> nat \<Rightarrow> nat \<Rightarrow> nat \<Rightarrow> nat option" where
  "skip_questions message len 0 offset = Some offset"
| "skip_questions message len (Suc n) offset =
     (case skip_name message len offset of
        None \<Rightarrow> None
      | Some offset \<Rightarrow> if offset + 4 > len then None else skip_questions message len n (offset + 4))"

fun scan_answers :: "bytes \<Rightarrow> nat \<Rightarrow> nat \<Rightarrow> nat \<Rightarrow> int \<times> u32 option" where
  "scan_answers message len 0 offset = (arwill_dns_not_found, None)"
| "scan_answers message len (Suc n) offset =
     (case skip_name message len offset of
        None \<Rightarrow> (arwill_dns_invalid, None)
      | Some offset \<Rightarrow>
          if offset + 10 > len then (arwill_dns_invalid, None)
          else
            (let type = read_u16 message offset; record_class = read_u16 message (offset + 2);
                 data_length = read_u16 message (offset + 8); offset = offset + 10
             in if offset + unat data_length > len then (arwill_dns_invalid, None)
                else if type = 1 \<and> record_class = 1 \<and> data_length = 4 then
                  (arwill_dns_ok,
                   Some (push_bit 24 (ucast (message ! offset)) OR push_bit 16 (ucast (message ! (offset + 1))) OR
                     push_bit 8 (ucast (message ! (offset + 2))) OR ucast (message ! (offset + 3))))
                else scan_answers message len n (offset + unat data_length)))"

definition arwill_dns_parse_a_response :: "bytes option \<Rightarrow> nat \<Rightarrow> u16 \<Rightarrow> int \<times> u32 option" where
  "arwill_dns_parse_a_response message len identifier =
     (case message of
        None \<Rightarrow> (arwill_dns_invalid, None)
      | Some message \<Rightarrow>
          if len < 12 \<or> read_u16 message 0 \<noteq> identifier \<or> read_u16 message 2 AND 0x8000 = 0
          then (arwill_dns_invalid, None)
          else
            (let flags = read_u16 message 2
             in if flags AND 0x000f \<noteq> 0
                then (if flags AND 0x000f = 3 then arwill_dns_not_found else arwill_dns_server_failure, None)
                else
                  (case skip_questions message len (unat (read_u16 message 4)) 12 of
                     None \<Rightarrow> (arwill_dns_invalid, None)
                   | Some offset \<Rightarrow> scan_answers message len (unat (read_u16 message 6)) offset)))"

section \<open>Names\<close>

definition label_ok :: "bytes \<Rightarrow> bool" where
  "label_ok l \<longleftrightarrow> l \<noteq> [] \<and> length l \<le> 63 \<and> (\<forall>b\<in>set l. host_character b)"

fun dotted :: "bytes list \<Rightarrow> bytes" where
  "dotted [] = []"
| "dotted [l] = l"
| "dotted (l # ls) = l @ chr CHR ''.'' # dotted ls"

definition encode_labels :: "bytes list \<Rightarrow> bytes" where
  "encode_labels ls = concat (map (\<lambda>l. of_nat (length l) # l) ls)"

definition query_header :: "u16 \<Rightarrow> bytes" where
  "query_header identifier = [ucast (drop_bit 8 identifier), ucast identifier, 1, 0, 0, 1, 0, 0, 0, 0, 0, 0]"

definition query_bytes :: "u16 \<Rightarrow> bytes list \<Rightarrow> bytes" where
  "query_bytes identifier ls = query_header identifier @ encode_labels ls @ [0, 0, 1, 0, 1]"

lemma encode_labels_simps [simp]:
  "encode_labels [] = []"
  "encode_labels (l # ls) = of_nat (length l) # l @ encode_labels ls"
  by (simp_all add: encode_labels_def)

lemma host_character_plain: "host_character b \<Longrightarrow> b \<noteq> 0 \<and> b \<noteq> chr CHR ''.''"
  by (auto simp: host_character_def chr_def)

lemma drop_Cons_at:
  assumes "drop i xs = y # ys"
  shows "i < length xs" "xs ! i = y" "drop (Suc i) xs = ys"
  using assms by (metis drop_eq_Nil list.distinct(1) not_le, metis hd_drop_conv_nth drop_eq_Nil list.distinct(1) list.sel(1) not_le,
      metis drop_Suc list.sel(3) tl_drop)

lemma drop_append_at:
  assumes "drop i xs = ys @ zs"
  shows "drop (i + length ys) xs = zs"
  using assms by (metis add.commute append_eq_conv_conj drop_drop)

lemma copy_into_splice:
  assumes "n \<le> length src" "off + n \<le> length buf"
  shows "copy_into buf off src n = splice_at buf off (take n src)"
  using assms by (intro nth_equalityI) (auto simp: nth_copy_into nth_splice_at length_splice_at)

section \<open>The query\<close>

lemma query_labels_scan:
  assumes "\<forall>b\<in>set l. host_character b" "drop index host = l @ rest"
  shows "query_labels host capacity used start index out =
    query_labels host capacity used start (index + length l) out"
  using assms
proof (induction l arbitrary: index)
  case (Cons b l)
  have b: "cs_at host index = b" "drop (Suc index) host = l @ rest"
    using drop_Cons_at [of index host b "l @ rest"] Cons.prems(2) by simp_all
  show ?case
    using Cons.IH [of "Suc index"] Cons.prems(1) b host_character_plain [of b]
    by (subst query_labels.simps) simp
qed simp

lemma query_labels_label:
  assumes l: "label_ok l" and at: "drop start host = l @ rest" and rest: "rest = [] \<or> (\<exists>r. rest = chr CHR ''.'' # r)"
    and fits: "used + 1 + length l + 5 \<le> capacity" "capacity \<le> length out"
  shows "query_labels host capacity used start start out =
    (let out = splice_at out used (of_nat (length l) # l); used = used + 1 + length l; index = start + length l
     in if rest = [] then (Inr used, out) else query_labels host capacity used (index + 1) (index + 1) out)"
proof -
  have len: "length l \<le> length (drop start host)" using at by simp
  have rest_at: "cs_at host (start + length l) = (if rest = [] then 0 else chr CHR ''.'')"
    using drop_append_at [OF at] drop_Cons_at [of "start + length l" host] rest by (auto simp: cs_at_def)
  have "copy_into (out[used := of_nat (length l)]) (used + 1) (drop start host) (length l) =
      splice_at (splice_at out used [of_nat (length l)]) (used + 1) l"
    using len fits at by (subst copy_into_splice) (simp_all add: list_update_splice length_splice_at)
  also have "\<dots> = splice_at out used (of_nat (length l) # l)"
    using fits splice_at_append [of used "[of_nat (length l)]" out l] by simp
  finally have w: "copy_into (out[used := of_nat (length l)]) (used + 1) (drop start host) (length l) =
      splice_at out used (of_nat (length l) # l)" .
  have "query_labels host capacity used start start out =
      query_labels host capacity used start (start + length l) out"
    using l at by (intro query_labels_scan) (auto simp: label_ok_def)
  also have "\<dots> = (let out = splice_at out used (of_nat (length l) # l); used = used + 1 + length l; index = start + length l
     in if rest = [] then (Inr used, out) else query_labels host capacity used (index + 1) (index + 1) out)"
    using l fits rest_at w
    by (subst query_labels.simps) (auto simp: Let_def label_ok_def chr_def simp del: One_nat_def)
  finally show ?thesis .
qed

lemma query_labels_encode:
  assumes "ls \<noteq> []" "\<forall>l\<in>set ls. label_ok l" "drop start host = dotted ls"
    "used + length (encode_labels ls) + 5 \<le> capacity" "capacity \<le> length out"
  shows "query_labels host capacity used start start out =
    (Inr (used + length (encode_labels ls)), splice_at out used (encode_labels ls))"
  using assms
proof (induction ls arbitrary: start used out rule: dotted.induct)
  case (2 l)
  then show ?case
    using query_labels_label [of l start host "[]" used capacity out] by (simp add: Let_def)
next
  case (3 l k ks)
  let ?ls = "k # ks" and ?out = "splice_at out used (of_nat (length l) # l)"
  have at: "drop start host = l @ chr CHR ''.'' # dotted ?ls" using 3(4) by simp
  have fits: "used + 1 + length l + 5 \<le> capacity" using 3(5) by simp
  have "drop (start + length l + 1) host = dotted ?ls"
    using drop_append_at [OF at] drop_Cons_at(3) by fastforce
  moreover have len: "length ?out = length out" using 3(5,6) by (simp add: length_splice_at)
  moreover have "splice_at ?out (used + 1 + length l) (encode_labels ?ls) = splice_at out used (encode_labels (l # ?ls))"
    using 3(5,6) splice_at_append [of used "of_nat (length l) # l" out "encode_labels ?ls"] by simp
  ultimately show ?case
    using 3(1) [of "start + length l + 1" "used + 1 + length l" ?out] 3(3,5,6)
      query_labels_label [OF _ at _ fits 3(6)] by (simp add: Let_def)
qed simp

lemma query_header_written:
  assumes "17 \<le> length output"
  shows "write_u16 (write_u16 (write_u16 (foldl (\<lambda>output index. output[index := 0]) output [0..<12]) 0 identifier)
      2 0x0100) 4 1 = splice_at output 0 (query_header identifier)"
proof -
  obtain a0 a1 a2 a3 a4 a5 a6 a7 a8 a9 a10 a11 r
    where o: "output = a0 # a1 # a2 # a3 # a4 # a5 # a6 # a7 # a8 # a9 # a10 # a11 # r"
    using assms by (auto simp: eval_nat_numeral Suc_le_length_iff)
  define hi lo where "hi = (ucast (drop_bit 8 identifier) :: u8)" and "lo = (ucast identifier :: u8)"
  have wrap: "(256 :: u8) = 0" by code_simp
  have w: "write_u16 b 0 identifier = b[0 := hi, 1 := lo]" "write_u16 b 2 0x0100 = b[2 := 1, 3 := 0]"
      "write_u16 b 4 1 = b[4 := 0, 5 := 1]" for b
    by (simp_all add: write_u16_def hi_def lo_def wrap)
  show ?thesis
    unfolding w o query_header_def hi_def [symmetric] lo_def [symmetric]
    by (simp add: splice_at_def upt_conv_Cons eval_nat_numeral)
qed

lemma build_query_ok:
  assumes ls: "ls \<noteq> []" "\<forall>l\<in>set ls. label_ok l"
    and fits: "length (query_bytes identifier ls) \<le> capacity" "capacity \<le> length output"
  shows "arwill_dns_build_a_query (Some (dotted ls)) identifier (Some output) capacity =
    (0, Some (splice_at output 0 (query_bytes identifier ls)), Some (length (query_bytes identifier ls)))"
proof -
  let ?out = "splice_at output 0 (query_header identifier)" and ?e = "encode_labels ls"
  obtain l k where l: "ls = l # k" using ls(1) by (cases ls) auto
  then have "l \<noteq> []" and hc: "host_character (hd l)" using ls(2) by (auto simp: label_ok_def)
  then have first: "cs_at (dotted ls) 0 \<noteq> 0" using host_character_plain
    by (cases k; cases l) (auto simp: l cs_at_def)
  have f: "12 + length ?e + 5 \<le> capacity" using fits(1) by (simp add: query_bytes_def query_header_def)
  have cap: "17 \<le> capacity" using f by simp
  have h: "length (query_header identifier) = 12" by (simp add: query_header_def)
  have lo: "length ?out = length output" using fits cap h by (simp add: length_splice_at)
  have q: "query_labels (dotted ls) capacity 12 0 0 ?out = (Inr (12 + length ?e), splice_at ?out 12 ?e)"
    using fits(2) lo by (intro query_labels_encode ls f) simp_all
  have s1: "splice_at ?out 12 ?e = splice_at output 0 (query_header identifier @ ?e)"
    using splice_at_append [of 0 "query_header identifier" "output" ?e] h fits(2) cap by simp
  define w where "w = splice_at output 0 (query_header identifier @ ?e)"
  have tail: "write_u16 (write_u16 (w[12 + length ?e := 0]) (12 + length ?e + 1) 1) (12 + length ?e + 1 + 2) 1 =
      splice_at w (12 + length ?e) [0, 0, 1, 0, 1]"
    using f fits(2) h
    by (intro nth_equalityI)
      (auto simp: write_u16_def w_def nth_list_update nth_splice_at length_splice_at nth_Cons' less_Suc_eq)
  have "splice_at w (12 + length ?e) [0, 0, 1, 0, 1] = splice_at output 0 (query_bytes identifier ls)"
    using splice_at_append [of 0 "query_header identifier @ ?e" "output" "[0, 0, 1, 0, 1]"] f fits(2) h
    by (simp add: w_def query_bytes_def)
  then have out: "write_u16 (write_u16 (w[12 + length ?e := 0]) (12 + length ?e + 1) 1) (12 + length ?e + 1 + 2) 1 =
      splice_at output 0 (query_bytes identifier ls)"
    using tail by simp
  have len: "12 + length ?e + 1 + 4 = length (query_bytes identifier ls)" by (simp add: query_bytes_def h)
  have "17 \<le> length output" using cap fits(2) by simp
  note hw = query_header_written [OF this, of "identifier"]
  show ?thesis
    using first cap
    unfolding arwill_dns_build_a_query_def option.case prod.case Let_def hw q s1 w_def [symmetric] sum.case out len
    by simp
qed

section \<open>The response\<close>

lemma nth_at_drop: "drop off xs = ys \<Longrightarrow> k < length ys \<Longrightarrow> xs ! (off + k) = ys ! k"
  by (auto simp: add.commute)

lemma drop_further: "drop i xs = ys \<Longrightarrow> drop (i + k) xs = drop k ys"
  by (auto simp: add.commute)

lemma read_u16_at:
  assumes "drop off m = ys" "k + 1 < length ys"
  shows "read_u16 m (off + k) = read_u16 ys k"
  using nth_at_drop [OF assms(1), of k] nth_at_drop [OF assms(1), of "k + 1"] assms(2)
  by (simp add: read_u16_def add.assoc)

lemma label_byte:
  assumes "label_ok l"
  shows "(of_nat (length l) :: u8) \<noteq> 0" "of_nat (length l) AND (0xc0 :: u8) = 0"
    "\<not> (of_nat (length l) :: u8) > 63" "unat (of_nat (length l) :: u8) = length l"
proof -
  have n: "length l < 64" "0 < length l" using assms by (auto simp: label_ok_def)
  have all: "\<forall>k<64. (of_nat k :: u8) AND 0xc0 = 0" by code_simp
  show "of_nat (length l) AND (0xc0 :: u8) = 0" using all n by blast
  show u: "unat (of_nat (length l) :: u8) = length l" using n by (subst unat_of_nat) simp
  show "(of_nat (length l) :: u8) \<noteq> 0" using u n by (metis less_irrefl unsigned_0)
  show "\<not> (of_nat (length l) :: u8) > 63" using u n by (simp add: word_less_nat_alt)
qed

lemma skip_labels:
  assumes "\<forall>l\<in>set ls. label_ok l" "drop off m = encode_labels ls @ 0 # rest" "n + length ls \<le> 127"
  shows "skip_name_from m (length m) off n = Some (off + length (encode_labels ls) + 1)"
  using assms
proof (induction ls arbitrary: off n)
  case Nil
  then show ?case using drop_Cons_at [of off m] by (subst skip_name_from.simps) simp
next
  case (Cons l ls)
  note b = label_byte [of l]
  have l: "label_ok l" using Cons.prems(1) by simp
  have at: "drop off m = of_nat (length l) # l @ encode_labels ls @ 0 # rest" using Cons.prems(2) by simp
  note h = drop_Cons_at [OF at]
  have next_at: "drop (Suc off + length l) m = encode_labels ls @ 0 # rest" by (rule drop_append_at [OF h(3)])
  have "Suc off + length l \<le> length m"
    using next_at by (metis append_is_Nil_conv drop_eq_Nil list.distinct(1) nle_le)
  moreover have "Suc n + length ls \<le> 127" using Cons.prems(3) by simp
  ultimately show ?case
    using Cons.IH [of "Suc off + length l" "Suc n"] Cons.prems(1) next_at h b [OF l]
    by (subst skip_name_from.simps) (simp add: Let_def)
qed

record dns_record =
  dr_type :: u16
  dr_class :: u16
  dr_ttl :: bytes
  dr_data :: bytes

definition be16 :: "u16 \<Rightarrow> bytes" where
  "be16 v = [ucast (drop_bit 8 v), ucast v]"

text \<open>A resource record whose name is a pointer to the name asked for.\<close>

definition record_bytes :: "dns_record \<Rightarrow> bytes" where
  "record_bytes r = [0xc0, 12] @ be16 (dr_type r) @ be16 (dr_class r) @ dr_ttl r @
     be16 (of_nat (length (dr_data r))) @ dr_data r"

definition record_ok :: "dns_record \<Rightarrow> bool" where
  "record_ok r \<longleftrightarrow> length (dr_ttl r) = 4 \<and> length (dr_data r) < 65536"

definition address_record :: "dns_record \<Rightarrow> bool" where
  "address_record r \<longleftrightarrow> dr_type r = 1 \<and> dr_class r = 1 \<and> length (dr_data r) = 4"

definition address_of :: "bytes \<Rightarrow> u32" where
  "address_of d = push_bit 24 (ucast (d ! 0)) OR push_bit 16 (ucast (d ! 1)) OR
     push_bit 8 (ucast (d ! 2)) OR ucast (d ! 3)"

definition first_address :: "dns_record list \<Rightarrow> int \<times> u32 option" where
  "first_address rs = (case find address_record rs of
     None \<Rightarrow> (-3, None) | Some r \<Rightarrow> (0, Some (address_of (dr_data r))))"

lemma read_be16: "read_u16 (be16 v @ r) 0 = v"
  using join16 [of v] by (simp add: read_u16_def be16_def)

lemma scan_step:
  assumes "skip_name m len off = Some p" "p + 10 + unat (read_u16 m (p + 8)) \<le> len" "len \<le> length m"
  shows "scan_answers m len (Suc n) off =
    (if read_u16 m p = 1 \<and> read_u16 m (p + 2) = 1 \<and> read_u16 m (p + 8) = 4
     then (0, Some (address_of (drop (p + 10) m)))
     else scan_answers m len n (p + 10 + unat (read_u16 m (p + 8))))"
proof -
  have "drop (p + 10) m ! k = m ! (p + 10 + k)" for k using assms(2,3) by (intro nth_drop) simp
  then show ?thesis using assms(1,2) by (simp add: Let_def address_of_def add.commute)
qed

lemma scan_records:
  assumes "\<forall>r\<in>set rs. record_ok r" "drop off m = concat (map record_bytes rs)"
  shows "scan_answers m (length m) (length rs) off = first_address rs"
  using assms
proof (induction rs arbitrary: off)
  case Nil
  then show ?case by (simp add: first_address_def)
next
  case (Cons r rs)
  let ?d = "dr_data r" and ?rest = "concat (map record_bytes rs)"
  define body where "body = be16 (dr_type r) @ be16 (dr_class r) @ dr_ttl r @ be16 (of_nat (length ?d)) @ ?d @ ?rest"
  define p where "p = off + 2"
  have ok: "length (dr_ttl r) = 4" "length ?d < 65536" using Cons.prems(1) by (simp_all add: record_ok_def)
  have at: "drop off m = 0xc0 # 12 # body" using Cons.prems(2) by (simp add: record_bytes_def [of r] body_def)
  note h = drop_Cons_at [OF at] drop_Cons_at [OF drop_Cons_at(3) [OF at]]
  have body: "drop p m = body" using h(6) by (simp add: p_def)
  have lb: "length body = 10 + length ?d + length ?rest" by (simp add: body_def be16_def ok)
  have lm: "length m = p + length body" using arg_cong [OF body, of length] h(4) by (simp add: p_def)
  have name: "skip_name m (length m) off = Some p"
    unfolding skip_name_def p_def using h by (subst skip_name_from.simps) simp
  have ty: "read_u16 m p = dr_type r"
    using read_u16_at [OF body, of 0] lb read_be16 [of "dr_type r"] by (simp add: body_def)
  have cl: "read_u16 m (p + 2) = dr_class r"
    using read_u16_at [OF body, of 2] lb join16 [of "dr_class r"]
    by (simp add: body_def be16_def read_u16_def eval_nat_numeral)
  have "drop 8 body = be16 (of_nat (length ?d)) @ ?d @ ?rest" by (simp add: body_def be16_def ok)
  then have "drop (p + 8) m = be16 (of_nat (length ?d)) @ ?d @ ?rest" using drop_further [OF body, of 8] by simp
  then have "read_u16 m (p + 8) = of_nat (length ?d)"
    using read_u16_at [of "p + 8" m _ 0] read_be16 by (simp add: be16_def)
  then have dl: "unat (read_u16 m (p + 8)) = length ?d" using ok by (simp add: unat_of_nat)
  have "drop 10 body = ?d @ ?rest" by (simp add: body_def be16_def ok)
  then have data: "drop (p + 10) m = ?d @ ?rest" using drop_further [OF body, of 10] by simp
  have addr: "address_record r \<longleftrightarrow> read_u16 m p = 1 \<and> read_u16 m (p + 2) = 1 \<and> read_u16 m (p + 8) = 4"
    using dl ty cl by (simp add: address_record_def word_unat_eq_iff)
  have found: "address_of (drop (p + 10) m) = address_of ?d" if "address_record r"
    using that by (simp add: data address_of_def nth_append address_record_def)
  have rest: "scan_answers m (length m) (length rs) (p + 10 + length ?d) = first_address rs"
    using Cons.IH [OF _ drop_append_at [OF data]] Cons.prems(1) by simp
  have "scan_answers m (length m) (length (r # rs)) off =
      (if address_record r then (0, Some (address_of ?d)) else first_address rs)"
    using scan_step [OF name, of "length rs"] lm lb addr found rest dl by simp
  then show ?case by (simp add: first_address_def)
qed

text \<open>
  What a server sends back: the query with the flags of a response and the number of records
  put in, and the records behind it.
\<close>

definition response_to :: "bytes \<Rightarrow> u8 \<Rightarrow> u8 \<Rightarrow> dns_record list \<Rightarrow> bytes" where
  "response_to query flags_high flags_low rs =
     take 2 query @ [flags_high, flags_low] @ take 2 (drop 4 query) @ be16 (of_nat (length rs)) @
     drop 8 query @ concat (map record_bytes rs)"

lemma response_flag: "(push_bit 8 (ucast (f :: u8)) OR ucast (g :: u8) :: u16) AND 0x8000 = 0 \<longleftrightarrow> f AND 0x80 = 0"
proof -
  have "(push_bit 8 (ucast f) OR ucast g :: u16) AND 2 ^ 15 = 0 \<longleftrightarrow> f AND 2 ^ 7 = 0"
    unfolding and_exp_eq_0_iff_not_bit by (auto simp: bit_simps dest: bit_imp_le_length)
  then show ?thesis by simp
qed

lemma response_code: "(push_bit 8 (ucast (f :: u8)) OR ucast (g :: u8) :: u16) AND 0x000f = ucast (g AND 0x0f)"
proof -
  have "(push_bit 8 (ucast f) OR ucast g :: u16) AND mask 4 = ucast (g AND mask 4)"
    by (rule bit_word_eqI) (auto simp: bit_simps)
  then show ?thesis by (simp add: mask_eq_exp_minus_1)
qed

lemma widened: "(ucast (x :: u8) :: u16) = 0 \<longleftrightarrow> x = 0" "(ucast (x :: u8) :: u16) = 3 \<longleftrightarrow> x = 3"
proof -
  have "unat (ucast x :: u16) = unat x"
    by (simp add: unsigned_ucast_eq take_bit_nat_eq_self order_less_trans [OF unat_less_8])
  then show "(ucast x :: u16) = 0 \<longleftrightarrow> x = 0" "(ucast x :: u16) = 3 \<longleftrightarrow> x = 3"
    by (simp_all add: word_unat_eq_iff)
qed


definition demo_answer :: dns_record where
  "demo_answer = \<lparr>dr_type = 1, dr_class = 1, dr_ttl = [0, 0, 1, 44], dr_data = [10, 0, 2, 2]\<rparr>"


section \<open>Reading within the message\<close>

lemma skip_name_bound: "skip_name_from m len off n = Some p \<Longrightarrow> off < p \<and> p \<le> len"
proof (induction m len off n rule: skip_name_from.induct)
  case (1 m len off n)
  then show ?case
    by (subst (asm) (2) skip_name_from.simps) (fastforce simp: Let_def split: if_splits)
qed

lemma skip_name_cong:
  "\<forall>i<len. m ! i = m' ! i \<Longrightarrow> skip_name_from m len off n = skip_name_from m' len off n"
proof (induction m len off n rule: skip_name_from.induct)
  case (1 m len off n)
  then show ?case
    by (subst (1 2) skip_name_from.simps) (auto simp: Let_def)
qed

lemma read_u16_cong: "\<forall>i<len. m ! i = m' ! i \<Longrightarrow> off + 1 < len \<Longrightarrow> read_u16 m off = read_u16 m' off"
  by (simp add: read_u16_def)

lemma skip_questions_cong:
  "\<forall>i<len. m ! i = m' ! i \<Longrightarrow> skip_questions m len n off = skip_questions m' len n off"
  using skip_name_cong [of len m m'] by (induction n arbitrary: off) (auto simp: skip_name_def split: option.splits)

lemma scan_answers_cong:
  assumes "\<forall>i<len. m ! i = m' ! i"
  shows "scan_answers m len n off = scan_answers m' len n off"
proof (induction n arbitrary: off)
  case (Suc n)
  show ?case
  proof (cases "skip_name m len off")
    case (Some p)
    then have s: "skip_name m' len off = Some p" using skip_name_cong [OF assms] by (simp add: skip_name_def)
    show ?thesis
    proof (cases "p + 10 \<le> len")
      case True
      then have "read_u16 m p = read_u16 m' p" "read_u16 m (p + 2) = read_u16 m' (p + 2)"
          "read_u16 m (p + 8) = read_u16 m' (p + 8)"
        by (intro read_u16_cong [OF assms]; simp)+
      then show ?thesis using Some s Suc.IH assms by (auto simp: Let_def)
    qed (use Some s in simp)
  qed (use skip_name_cong [OF assms] in \<open>simp add: skip_name_def\<close>)
qed simp

text \<open>
  Reading a response looks at no byte behind its length: two messages that agree on the
  first \<open>len\<close> bytes are read alike, whatever the name lengths, counts and data lengths in them.
\<close>

lemma dns_response_in_bounds:
  assumes "take len m = take len m'" "len \<le> length m" "len \<le> length m'"
  shows "arwill_dns_parse_a_response (Some m) len identifier = arwill_dns_parse_a_response (Some m') len identifier"
proof -
  have eq: "\<forall>i<len. m ! i = m' ! i" using assms(1) by (metis nth_take)
  show ?thesis
  proof (cases "len < 12")
    case False
    then have "read_u16 m k = read_u16 m' k" if "k \<in> {0, 2, 4, 6}" for k
      using that by (intro read_u16_cong [OF eq]) auto
    then show ?thesis
      using skip_questions_cong [OF eq] scan_answers_cong [OF eq]
      by (simp add: arwill_dns_parse_a_response_def Let_def split: option.splits)
  qed (simp add: arwill_dns_parse_a_response_def)
qed

lemma dns_response_in_bounds_witness:
  "arwill_dns_parse_a_response (Some (replicate 12 0 @ [1])) 12 0 = arwill_dns_parse_a_response (Some (replicate 12 0 @ [2])) 12 0"
  by (rule dns_response_in_bounds) simp_all

end
