(* ===== verification/Address_Space.thy ===== *)
theory Address_Space
  imports Memory_Properties
begin

text \<open>
  \<open>arch/x86_64/cpu/user_mode.c\<close>, first part: the address space of a user task. Physical memory is
  a function from addresses to bytes, which the kernel reaches through the direct map; page
  tables are 64-bit little-endian entries in it. The page walk of the processor is the
  specification the tables are built for.
\<close>

section \<open>Physical memory\<close>

type_synonym ram = "u64 \<Rightarrow> u8"

abbreviation (input) page_present :: u64 where "page_present \<equiv> 0x001"
abbreviation (input) page_writable :: u64 where "page_writable \<equiv> 0x002"
abbreviation (input) page_user :: u64 where "page_user \<equiv> 0x004"
abbreviation (input) page_address_mask :: u64 where "page_address_mask \<equiv> 0x000ffffffffff000"
abbreviation (input) page_no_execute :: u64 where "page_no_execute \<equiv> 0x8000000000000000"
abbreviation (input) user_code_virtual :: u64 where "user_code_virtual \<equiv> 0x0000008000000000"
abbreviation (input) user_stack_virtual :: u64 where "user_stack_virtual \<equiv> 0x0000008000200000"
abbreviation (input) user_code_page_count :: nat where "user_code_page_count \<equiv> 48"
abbreviation (input) user_stack_page_count :: nat where "user_stack_page_count \<equiv> 24"

text \<open>A 64-bit access through a pointer to \<open>uint64_t\<close>.\<close>

definition load64 :: "ram \<Rightarrow> u64 \<Rightarrow> u64" where
  "load64 m a = foldl (\<lambda>r k. r OR push_bit (8 * k) (ucast (m (a + of_nat k)))) 0 [0..<8]"

definition store64 :: "ram \<Rightarrow> u64 \<Rightarrow> u64 \<Rightarrow> ram" where
  "store64 m a v = foldl (\<lambda>m k. m(a + of_nat k := ucast (drop_bit (8 * k) v))) m [0..<8]"

definition get_entry :: "ram \<Rightarrow> u64 \<Rightarrow> nat \<Rightarrow> u64" where
  "get_entry m table index = load64 m (table + 8 * of_nat index)"

definition set_entry :: "ram \<Rightarrow> u64 \<Rightarrow> nat \<Rightarrow> u64 \<Rightarrow> ram" where
  "set_entry m table index v = store64 m (table + 8 * of_nat index) v"

definition clear_page :: "ram \<Rightarrow> u64 \<Rightarrow> ram" where
  "clear_page m page = foldl (\<lambda>m k. m(page + of_nat k := 0)) m [0..<4096]"

section \<open>Building an address space\<close>

record x86_64_user_address_space =
  as_cr3 :: u64
  as_code_physical :: "u64 list"
  as_stack_physical :: "u64 list"

definition allocate_zero_page :: "arwill_memory \<Rightarrow> ram \<Rightarrow> u64 option \<times> arwill_memory \<times> ram" where
  "allocate_zero_page memory m =
     (case arwill_physical_allocate_page memory of
        (None, memory) \<Rightarrow> (None, memory, m)
      | (Some physical, memory) \<Rightarrow> (Some physical, memory, clear_page m physical))"

definition page_table_index :: "u64 \<Rightarrow> nat \<Rightarrow> nat" where
  "page_table_index virtual_address shift = unat (drop_bit shift virtual_address AND 0x1ff)"

fun fill_pages ::
    "nat list \<Rightarrow> u64 list \<Rightarrow> arwill_memory \<Rightarrow> ram \<Rightarrow> bool \<times> u64 list \<times> arwill_memory \<times> ram" where
  "fill_pages [] pages memory m = (True, pages, memory, m)"
| "fill_pages (index # rest) pages memory m =
     (case allocate_zero_page memory m of
        (None, memory, m) \<Rightarrow> (False, pages, memory, m)
      | (Some physical, memory, m) \<Rightarrow> fill_pages rest (pages[index := physical]) memory m)"

definition map_address_space ::
    "u64 \<Rightarrow> x86_64_user_address_space \<Rightarrow> u64 \<Rightarrow> u64 \<Rightarrow> u64 \<Rightarrow> u64 \<Rightarrow> ram \<Rightarrow> ram" where
  "map_address_space kernel_pml4 space pdpt pd code_pt stack_pt m =
     (let pml4 = as_cr3 space;
          m = foldl (\<lambda>m index. set_entry m pml4 index (get_entry m kernel_pml4 index)) m [0..<512];
          pml4_index = page_table_index user_code_virtual 39;
          pdpt_index = page_table_index user_code_virtual 30;
          code_pd_index = page_table_index user_code_virtual 21;
          stack_pd_index = page_table_index user_stack_virtual 21;
          code_pt_index = page_table_index user_code_virtual 12;
          stack_pt_index = page_table_index user_stack_virtual 12;
          table_flags = page_present OR page_writable OR page_user;
          m = set_entry m pml4 pml4_index (pdpt OR table_flags);
          m = set_entry m pdpt pdpt_index (pd OR table_flags);
          m = set_entry m pd code_pd_index (code_pt OR table_flags);
          m = set_entry m pd stack_pd_index (stack_pt OR table_flags);
          m = foldl (\<lambda>m index. set_entry m code_pt (code_pt_index + index)
                 (as_code_physical space ! index OR page_present OR page_user)) m [0..<user_code_page_count]
      in foldl (\<lambda>m index. set_entry m stack_pt (stack_pt_index + index)
           (as_stack_physical space ! index OR page_present OR page_writable OR page_user OR page_no_execute))
           m [0..<user_stack_page_count])"

definition initialize_address_space ::
    "u64 \<Rightarrow> x86_64_user_address_space \<Rightarrow> arwill_memory \<Rightarrow> ram \<Rightarrow>
     bool \<times> x86_64_user_address_space \<times> arwill_memory \<times> ram" where
  "initialize_address_space kernel_cr3 space memory m =
     (case allocate_zero_page memory m of
        (None, memory, m) \<Rightarrow> (False, space, memory, m)
      | (Some cr3, memory, m) \<Rightarrow>
        (let space = space\<lparr>as_cr3 := cr3\<rparr>
         in case allocate_zero_page memory m of
              (None, memory, m) \<Rightarrow> (False, space, memory, m)
            | (Some pdpt, memory, m) \<Rightarrow>
              (case allocate_zero_page memory m of
                 (None, memory, m) \<Rightarrow> (False, space, memory, m)
               | (Some pd, memory, m) \<Rightarrow>
                 (case allocate_zero_page memory m of
                    (None, memory, m) \<Rightarrow> (False, space, memory, m)
                  | (Some code_pt, memory, m) \<Rightarrow>
                    (case allocate_zero_page memory m of
                       (None, memory, m) \<Rightarrow> (False, space, memory, m)
                     | (Some stack_pt, memory, m) \<Rightarrow>
                       (case fill_pages [0..<user_code_page_count] (as_code_physical space) memory m of
                          (ok, code, memory, m) \<Rightarrow>
                          (let space = space\<lparr>as_code_physical := code\<rparr>
                           in if \<not> ok then (False, space, memory, m)
                              else
                                (case fill_pages [0..<user_stack_page_count] (as_stack_physical space) memory m of
                                   (ok, stack, memory, m) \<Rightarrow>
                                   (let space = space\<lparr>as_stack_physical := stack\<rparr>
                                    in if \<not> ok then (False, space, memory, m)
                                       else (True, space, memory,
                                         map_address_space kernel_cr3 space pdpt pd code_pt stack_pt m))))))))))"

section \<open>The page walk\<close>

text \<open>
  The translation of an address by four levels of tables, with pages of 4 KiB, 2 MiB and
  1 GiB: the physical address, and whether user code may access, write and execute it.
\<close>

record translation =
  tr_address :: u64
  tr_user :: bool
  tr_write :: bool
  tr_execute :: bool

definition canonical :: "u64 \<Rightarrow> bool" where
  "canonical v \<longleftrightarrow> drop_bit 47 v = 0 \<or> drop_bit 47 v = 0x1ffff"

definition leaf :: "u64 list \<Rightarrow> nat \<Rightarrow> u64 \<Rightarrow> translation" where
  "leaf es width v = \<lparr>tr_address = push_bit width (drop_bit width (last es AND page_address_mask)) + take_bit width v,
     tr_user = (\<forall>e\<in>set es. bit e 2), tr_write = (\<forall>e\<in>set es. bit e 1), tr_execute = (\<forall>e\<in>set es. \<not> bit e 63)\<rparr>"

definition translate :: "ram \<Rightarrow> u64 \<Rightarrow> u64 \<Rightarrow> translation option" where
  "translate m cr3 v =
     (if \<not> canonical v then None
      else
        (let e4 = get_entry m (cr3 AND page_address_mask) (page_table_index v 39)
         in if \<not> bit e4 0 then None
            else
              (let e3 = get_entry m (e4 AND page_address_mask) (page_table_index v 30)
               in if \<not> bit e3 0 then None
                  else if bit e3 7 then Some (leaf [e4, e3] 30 v)
                  else
                    (let e2 = get_entry m (e3 AND page_address_mask) (page_table_index v 21)
                     in if \<not> bit e2 0 then None
                        else if bit e2 7 then Some (leaf [e4, e3, e2] 21 v)
                        else
                          (let e1 = get_entry m (e2 AND page_address_mask) (page_table_index v 12)
                           in if \<not> bit e1 0 then None else Some (leaf [e4, e3, e2, e1] 12 v))))))"

section \<open>Bytes of an entry\<close>

lemma load64_bits:
  fixes m :: ram
  shows "bit (foldl (\<lambda>r k. r OR push_bit (8 * k) (ucast (m (a + of_nat k)) :: u64)) 0 [0..<n]) i \<longleftrightarrow>
     i < 8 * n \<and> i < 64 \<and> bit (m (a + of_nat (i div 8))) (i mod 8)"
proof (induction n)
  case (Suc n)
  have "bit (push_bit (8 * n) (ucast (m (a + of_nat n)) :: u64)) i \<longleftrightarrow>
      8 * n \<le> i \<and> i < 8 * n + 8 \<and> i < 64 \<and> bit (m (a + of_nat n)) (i - 8 * n)"
    using bit_imp_le_length [of "m (a + of_nat n)" "i - 8 * n"] by (auto simp: bit_simps)
  moreover have "i div 8 = n \<and> i mod 8 = i - 8 * n" if "8 * n \<le> i" "i < 8 * n + 8"
    using that by (auto simp: div_nat_eqI modulo_nat_def)
  ultimately show ?case using Suc by (auto simp: bit_simps)
qed simp

lemma load64_bit: "bit (load64 m a) i \<longleftrightarrow> i < 64 \<and> bit (m (a + of_nat (i div 8))) (i mod 8)"
  by (auto simp: load64_def load64_bits)

lemma of_nat_offset_inject:
  assumes "j < 4096" "k < 4096"
  shows "(of_nat j :: u64) = of_nat k \<longleftrightarrow> j = k"
  using assms by (simp add: word_unat_eq_iff unat_of_nat)

lemma update_fold_out: "\<forall>k<n. b \<noteq> a + of_nat k \<Longrightarrow>
    foldl (\<lambda>m k. m(a + of_nat k := f k)) m [0..<n] (b :: u64) = m b"
  by (induction n) auto

lemma update_fold_in: "n \<le> 4096 \<Longrightarrow> k < n \<Longrightarrow>
    foldl (\<lambda>m k. m(a + of_nat k := f k)) m [0..<n] (a + of_nat k :: u64) = f k"
  by (induction n) (auto simp: less_Suc_eq of_nat_offset_inject)

lemma load_store_same: "load64 (store64 m a v) a = v"
proof (rule bit_word_eqI)
  fix i assume "i < LENGTH(64)"
  then have "i div 8 < 8" "i < 64" by auto
  then show "bit (load64 (store64 m a v) a) i = bit v i"
    by (simp add: load64_bit store64_def update_fold_in bit_simps)
qed

lemma load_store_other:
  assumes "\<forall>j<8. \<forall>k<8. b + of_nat j \<noteq> a + of_nat k"
  shows "load64 (store64 m a v) b = load64 m b"
proof (rule bit_word_eqI)
  fix i assume "i < LENGTH(64)"
  then have "i div 8 < 8" by auto
  then have "store64 m a v (b + of_nat (i div 8)) = m (b + of_nat (i div 8))"
    unfolding store64_def using assms by (intro update_fold_out) auto
  then show "bit (load64 (store64 m a v) b) i = bit (load64 m b) i" by (simp add: load64_bit)
qed

section \<open>Pages\<close>

text \<open>A whole page below the limit of physical addresses.\<close>

definition page_ok :: "u64 \<Rightarrow> bool" where
  "page_ok p \<longleftrightarrow> 4096 dvd unat p \<and> unat p < 2 ^ 52"

definition in_page :: "u64 \<Rightarrow> u64 \<Rightarrow> bool" where
  "in_page p a \<longleftrightarrow> unat p \<le> unat a \<and> unat a < unat p + 4096"

definition page_span :: "u64 \<Rightarrow> u64 set" where
  "page_span p = {a. in_page p a}"

lemma unat_offset:
  assumes "page_ok p" "k < 4096"
  shows "unat (p + of_nat k) = unat p + k"
proof -
  have "unat (of_nat k :: u64) = k" using assms(2) by (simp add: unat_of_nat)
  then show ?thesis using assms by (subst unat_add_64) (simp_all add: page_ok_def)
qed

lemma in_page_offset: "page_ok p \<Longrightarrow> k < 4096 \<Longrightarrow> in_page p (p + of_nat k)"
  by (simp add: in_page_def unat_offset)

lemma in_page_iff:
  assumes "page_ok p"
  shows "in_page p a \<longleftrightarrow> (\<exists>k<4096. a = p + of_nat k)"
proof
  assume "in_page p a"
  then have "a = p + of_nat (unat a - unat p)" "unat a - unat p < 4096"
    using unat_offset [OF assms, of "unat a - unat p"] by (auto simp: in_page_def word_unat_eq_iff)
  then show "\<exists>k<4096. a = p + of_nat k" by blast
qed (use assms in_page_offset in auto)

lemma in_page_unique:
  assumes "page_ok p" "page_ok q" "in_page p a" "in_page q a"
  shows "p = q"
proof -
  have "unat a div 4096 = unat p div 4096" "unat a div 4096 = unat q div 4096"
    using assms by (auto simp: in_page_def page_ok_def elim!: dvdE intro!: div_nat_eqI)
  then have "unat p div 4096 = unat q div 4096" by simp
  then have "unat p = unat q" using assms(1,2) by (metis dvd_mult_div_cancel page_ok_def)
  then show ?thesis by (simp add: word_unat_eq_iff)
qed

lemma clear_page_at: "page_ok p \<Longrightarrow> clear_page m p a = (if in_page p a then 0 else m a)"
  using update_fold_in [of 4096 _ p "\<lambda>_. 0" m] update_fold_out [of 4096 a p "\<lambda>_. 0" m]
  by (auto simp: clear_page_def in_page_iff)

lemma entry_in_page:
  assumes "page_ok t" "i < 512" "k < 8"
  shows "in_page t (t + 8 * of_nat i + of_nat k)"
  using in_page_offset [OF assms(1), of "8 * i + k"] assms(2,3) by (simp add: add.assoc)

lemma get_set_same: "get_entry (set_entry m t i v) t i = v"
  by (simp add: get_entry_def set_entry_def load_store_same)

lemma set_entry_out:
  assumes "page_ok t" "i < 512" "\<not> in_page t a"
  shows "set_entry m t i v a = m a"
  unfolding set_entry_def store64_def
  by (rule update_fold_out) (use assms(3) entry_in_page [OF assms(1,2)] in auto)

lemma get_set_diff:
  assumes "page_ok t" "page_ok t'" "i < 512" "i' < 512" "t \<noteq> t' \<or> i \<noteq> i'"
  shows "get_entry (set_entry m t i v) t' i' = get_entry m t' i'"
  unfolding get_entry_def set_entry_def
proof (rule load_store_other, intro allI impI notI)
  fix j k :: nat assume jk: "j < 8" "k < 8" and eq: "t' + 8 * of_nat i' + of_nat j = t + 8 * of_nat i + of_nat k"
  then have e: "t' + of_nat (8 * i' + j) = t + of_nat (8 * i + k)" by (simp add: add.assoc)
  have b: "8 * i' + j < 4096" "8 * i + k < 4096" using assms(3,4) jk by simp_all
  have "t' = t"
    using in_page_unique [OF assms(2,1)] in_page_offset [OF assms(2) b(1)] in_page_offset [OF assms(1) b(2)] e by simp
  moreover from this e have "(of_nat (8 * i' + j) :: u64) = of_nat (8 * i + k)" by (simp only: add_left_cancel)
  then have "8 * i' + j = 8 * i + k" by (rule iffD1 [OF of_nat_offset_inject [OF b]])
  then have "i' = i" using jk by arith
  ultimately show False using assms(5) by simp
qed

lemma get_entry_cong:
  assumes "page_ok t" "i < 512" "\<forall>a. in_page t a \<longrightarrow> m' a = m a"
  shows "get_entry m' t i = get_entry m t i"
proof (rule bit_word_eqI)
  fix n assume "n < LENGTH(64)"
  then have n: "n div 8 < 8" by auto
  have "m' (t + 8 * of_nat i + of_nat (n div 8)) = m (t + 8 * of_nat i + of_nat (n div 8))"
    using assms(3) entry_in_page [OF assms(1,2) n] by blast
  then show "bit (get_entry m' t i) n = bit (get_entry m t i) n" by (simp add: get_entry_def load64_bit)
qed

lemma get_entry_zero:
  assumes "page_ok t" "i < 512" "\<forall>a. in_page t a \<longrightarrow> m a = 0"
  shows "get_entry m t i = 0"
proof (rule bit_word_eqI)
  fix n assume "n < LENGTH(64)"
  then have n: "n div 8 < 8" by auto
  have "m (t + 8 * of_nat i + of_nat (n div 8)) = 0"
    using assms(3) entry_in_page [OF assms(1,2) n] by blast
  then show "bit (get_entry m t i) n = bit 0 n" by (simp add: get_entry_def load64_bit)
qed

text \<open>Writing a run of entries.\<close>

lemma fold_entries:
  assumes "page_ok t" "page_ok t'" "i' < 512" "b + n \<le> 512"
  shows "get_entry (foldl (\<lambda>m i. set_entry m t (b + i) (f i)) m [0..<n]) t' i' =
    (if t' = t \<and> b \<le> i' \<and> i' < b + n then f (i' - b) else get_entry m t' i')"
  using assms
proof (induction n)
  case (Suc n)
  then show ?case
    by (cases "t' = t \<and> i' = b + n")
      (auto simp: get_set_same get_set_diff less_Suc_eq)
qed auto

lemma fold_entries_out:
  assumes "page_ok t" "\<not> in_page t a" "b + n \<le> 512"
  shows "foldl (\<lambda>m i. set_entry m t (b + i) (f m i)) m [0..<n] a = m a"
  using assms by (induction n) (auto simp: set_entry_out)

lemma copy_entries:
  assumes "page_ok t" "page_ok k" "page_ok t'" "t \<noteq> k" "i' < 512" "n \<le> 512"
  shows "get_entry (foldl (\<lambda>m i. set_entry m t i (get_entry m k i)) m [0..<n]) t' i' =
    (if t' = t \<and> i' < n then get_entry m k i' else get_entry m t' i')"
  using assms
proof (induction n arbitrary: t' i')
  case (Suc n)
  have src: "get_entry (foldl (\<lambda>m i. set_entry m t i (get_entry m k i)) m [0..<n]) k n = get_entry m k n"
    using Suc.IH [of k n] Suc.prems by simp
  show ?case
    using Suc.IH [of t' i'] Suc.prems src
    by (cases "t' = t \<and> i' = n") (auto simp: get_set_same get_set_diff less_Suc_eq)
qed auto

section \<open>Entries\<close>

lemma mask_bits: "bit page_address_mask i \<longleftrightarrow> 12 \<le> i \<and> i < 52"
proof -
  have e: "page_address_mask = push_bit 12 (mask 40)" by code_simp
  show ?thesis by (subst e) (auto simp: bit_simps)
qed

lemma page_bits:
  assumes "page_ok p"
  shows "bit p i \<Longrightarrow> 12 \<le> i \<and> i < 52"
proof -
  assume b: "bit p i"
  have "unat (take_bit 12 p) = take_bit 12 (unat p)" by (rule unsigned_take_bit_eq)
  also have "\<dots> = 0" using assms by (simp add: page_ok_def take_bit_eq_mod)
  finally have "take_bit 12 p = 0" by (simp only: word_unat_eq_iff unsigned_0)
  then have "\<not> bit (take_bit 12 p) i" by simp
  then have 1: "12 \<le> i" using b by (simp add: bit_simps)
  have "unat (drop_bit 52 p) = drop_bit 52 (unat p)"
    using unat_less_64 [of p] by (simp add: unsigned_drop_bit_eq take_bit_nat_eq_self)
  also have "\<dots> = 0" using assms by (simp add: page_ok_def drop_bit_eq_div)
  finally have "drop_bit 52 p = 0" by (simp only: word_unat_eq_iff unsigned_0)
  then have "\<not> bit (drop_bit 52 p) (i - 52)" by simp
  then have "i < 52" using b by (cases "52 \<le> i") (auto simp: bit_simps)
  with 1 show ?thesis by simp
qed

lemma page_mask:
  assumes "page_ok p"
  shows "p AND page_address_mask = p"
proof (rule bit_word_eqI)
  fix n
  show "bit (p AND page_address_mask) n = bit p n"
    using page_bits [OF assms, of n] unfolding bit_and_iff mask_bits by blast
qed

lemma entry_address:
  assumes "page_ok p" "f AND page_address_mask = 0"
  shows "(p OR f) AND page_address_mask = p"
proof -
  have "(p OR f) AND page_address_mask = (p AND page_address_mask) OR (f AND page_address_mask)"
    by (rule bit_word_eqI) (simp only: bit_and_iff bit_or_iff, blast)
  then show ?thesis using assms page_mask by simp
qed

lemma entry_flag: "page_ok p \<Longrightarrow> i < 12 \<or> 52 \<le> i \<Longrightarrow> bit (p OR f) i = bit f i"
  using page_bits [of p i] by (auto simp: bit_or_iff)

lemma page_leaf: "page_ok p \<Longrightarrow> push_bit 12 (drop_bit 12 p) = p"
  by (rule bit_word_eqI) (auto simp: bit_simps dest: page_bits)

lemma table_index: "page_table_index v s = unat v div 2 ^ s mod 512"
proof -
  have "drop_bit s v AND 0x1ff = take_bit 9 (drop_bit s v)"
    by (simp add: take_bit_eq_mask mask_eq_exp_minus_1)
  moreover have "unat (take_bit 9 (drop_bit s v)) = take_bit 9 (unat (drop_bit s v))" by (rule unsigned_take_bit_eq)
  moreover have "unat (drop_bit s v) = unat v div 2 ^ s"
    by (rule trans [OF unat_drop_bit_eq drop_bit_eq_div])
  ultimately show ?thesis by (simp add: page_table_index_def take_bit_eq_mod)
qed

lemma table_index_less: "page_table_index v s < 512"
  by (simp add: table_index)

section \<open>The tables that are built\<close>

text \<open>Six different pages: the kernel's top table and the five of the task, the lower four empty.\<close>

definition tables_ok :: "ram \<Rightarrow> u64 \<Rightarrow> u64 \<Rightarrow> u64 \<Rightarrow> u64 \<Rightarrow> u64 \<Rightarrow> u64 \<Rightarrow> bool" where
  "tables_ok m k cr3 pdpt pd cpt spt \<longleftrightarrow> distinct [k, cr3, pdpt, pd, cpt, spt] \<and>
     (\<forall>p\<in>{k, cr3, pdpt, pd, cpt, spt}. page_ok p) \<and>
     (\<forall>p\<in>{pdpt, pd, cpt, spt}. \<forall>a. in_page p a \<longrightarrow> m a = 0)"

lemma built_entries:
  assumes t: "tables_ok m k cr3 pdpt pd cpt spt" and cr3: "as_cr3 space = cr3"
  defines "m' \<equiv> map_address_space k space pdpt pd cpt spt m"
  shows "i < 512 \<Longrightarrow> get_entry m' cr3 i = (if i = 1 then pdpt OR 7 else get_entry m k i)"
    "i < 512 \<Longrightarrow> get_entry m' pdpt i = (if i = 0 then pd OR 7 else 0)"
    "i < 512 \<Longrightarrow> get_entry m' pd i = (if i = 0 then cpt OR 7 else if i = 1 then spt OR 7 else 0)"
    "i < 512 \<Longrightarrow> get_entry m' cpt i = (if i < 48 then as_code_physical space ! i OR 5 else 0)"
    "i < 512 \<Longrightarrow> get_entry m' spt i = (if i < 24 then as_stack_physical space ! i OR 0x8000000000000007 else 0)"
    "i < 512 \<Longrightarrow> get_entry m' k i = get_entry m k i"
proof -
  have idx: "page_table_index user_code_virtual 39 = 1" "page_table_index user_code_virtual 30 = 0"
      "page_table_index user_code_virtual 21 = 0" "page_table_index user_stack_virtual 21 = 1"
      "page_table_index user_code_virtual 12 = 0" "page_table_index user_stack_virtual 12 = 0"
    by (simp_all add: table_index)
  have flags: "x OR page_present OR page_user = x OR 5" "page_present OR page_writable OR page_user = 7"
      "x OR page_present OR page_writable OR page_user OR page_no_execute = x OR 0x8000000000000007" for x :: u64
    by simp_all
  have p: "page_ok k" "page_ok cr3" "page_ok pdpt" "page_ok pd" "page_ok cpt" "page_ok spt"
      and d: "distinct [k, cr3, pdpt, pd, cpt, spt]"
    using t by (simp_all add: tables_ok_def)
  define m1 where "m1 = foldl (\<lambda>m index. set_entry m cr3 index (get_entry m k index)) m [0..<512]"
  define m2 where "m2 = set_entry (set_entry (set_entry (set_entry m1 cr3 1 (pdpt OR 7)) pdpt 0 (pd OR 7))
      pd 0 (cpt OR 7)) pd 1 (spt OR 7)"
  define m3 where "m3 = foldl (\<lambda>m i. set_entry m cpt (0 + i) (as_code_physical space ! i OR 5)) m2 [0..<48]"
  have m': "m' = foldl (\<lambda>m i. set_entry m spt (0 + i) (as_stack_physical space ! i OR 0x8000000000000007)) m3 [0..<24]"
    unfolding m'_def map_address_space_def Let_def idx flags cr3 m3_def m2_def m1_def by simp
  have g1: "get_entry m1 q j = (if q = cr3 then get_entry m k j else get_entry m q j)" if "page_ok q" "j < 512" for q j
    unfolding m1_def using copy_entries [OF p(2,1) that(1) _ that(2), of 512] d that(2) by auto
  have g2: "get_entry m2 q j = (if q = pd \<and> j = 1 then spt OR 7 else if q = pd \<and> j = 0 then cpt OR 7
      else if q = pdpt \<and> j = 0 then pd OR 7 else if q = cr3 \<and> j = 1 then pdpt OR 7 else get_entry m1 q j)"
    if "page_ok q" "j < 512" for q j
    unfolding m2_def using that p d by (auto simp: get_set_same get_set_diff)
  have g3: "get_entry m3 q j = (if q = cpt \<and> j < 48 then as_code_physical space ! j OR 5 else get_entry m2 q j)"
    if "page_ok q" "j < 512" for q j
    unfolding m3_def using fold_entries [OF p(5) that(1,2), of 0 48] by simp
  have g4: "get_entry m' q j = (if q = spt \<and> j < 24 then as_stack_physical space ! j OR 0x8000000000000007 else get_entry m3 q j)"
    if "page_ok q" "j < 512" for q j
    unfolding m' using fold_entries [OF p(6) that(1,2), of 0 24] by simp
  have z: "get_entry m q j = 0" if "q \<in> {pdpt, pd, cpt, spt}" "j < 512" for q j
    using get_entry_zero [of q j m] that t p by (auto simp: tables_ok_def)
  note g = g4 g3 g2 g1
  show "i < 512 \<Longrightarrow> get_entry m' cr3 i = (if i = 1 then pdpt OR 7 else get_entry m k i)" using g p d by auto
  show "i < 512 \<Longrightarrow> get_entry m' pdpt i = (if i = 0 then pd OR 7 else 0)" using g p d z by auto
  show "i < 512 \<Longrightarrow> get_entry m' pd i = (if i = 0 then cpt OR 7 else if i = 1 then spt OR 7 else 0)"
    using g p d z by auto
  show "i < 512 \<Longrightarrow> get_entry m' cpt i = (if i < 48 then as_code_physical space ! i OR 5 else 0)" using g p d z by auto
  show "i < 512 \<Longrightarrow> get_entry m' spt i = (if i < 24 then as_stack_physical space ! i OR 0x8000000000000007 else 0)"
    using g p d z by auto
  show "i < 512 \<Longrightarrow> get_entry m' k i = get_entry m k i" using g p d by auto
qed

section \<open>What a task can reach\<close>

definition in_code :: "u64 \<Rightarrow> bool" where
  "in_code v \<longleftrightarrow> user_code_virtual \<le> v \<and> v < user_code_virtual + 0x30000"

definition in_stack :: "u64 \<Rightarrow> bool" where
  "in_stack v \<longleftrightarrow> user_stack_virtual \<le> v \<and> v < user_stack_virtual + 0x18000"

definition code_page :: "u64 \<Rightarrow> nat" where
  "code_page v = unat (v - user_code_virtual) div 4096"

definition stack_page :: "u64 \<Rightarrow> nat" where
  "stack_page v = unat (v - user_stack_virtual) div 4096"

text \<open>
  The code pages readable and executable, the stack pages readable and writable, nothing else in
  their part of the address space, and the kernel's mapping in all others.
\<close>

definition mapped :: "ram \<Rightarrow> u64 \<Rightarrow> x86_64_user_address_space \<Rightarrow> bool" where
  "mapped m k space \<longleftrightarrow> (\<forall>v. translate m (as_cr3 space) v =
     (if in_code v then Some \<lparr>tr_address = as_code_physical space ! code_page v + take_bit 12 v,
        tr_user = True, tr_write = False, tr_execute = True\<rparr>
      else if in_stack v then Some \<lparr>tr_address = as_stack_physical space ! stack_page v + take_bit 12 v,
        tr_user = True, tr_write = True, tr_execute = False\<rparr>
      else if canonical v \<and> page_table_index v 39 = 1 then None
      else translate m k v))"

lemma in_code_nat: "in_code v \<longleftrightarrow> 549755813888 \<le> unat v \<and> unat v < 549755813888 + 196608"
  by (auto simp: in_code_def word_le_nat_alt word_less_nat_alt)

lemma in_stack_nat: "in_stack v \<longleftrightarrow> 549757911040 \<le> unat v \<and> unat v < 549757911040 + 98304"
  by (auto simp: in_stack_def word_le_nat_alt word_less_nat_alt)

lemma code_page_nat: "in_code v \<Longrightarrow> code_page v = (unat v - 549755813888) div 4096"
  by (simp add: code_page_def in_code_def unat_sub)

lemma stack_page_nat: "in_stack v \<Longrightarrow> stack_page v = (unat v - 549757911040) div 4096"
  by (simp add: stack_page_def in_stack_def unat_sub)

lemma user_slot: "canonical v \<and> page_table_index v 39 = 1 \<longleftrightarrow> 549755813888 \<le> unat v \<and> unat v < 1099511627776"
proof -
  have d: "unat (drop_bit 47 v) = unat v div 2 ^ 47" by (rule trans [OF unat_drop_bit_eq drop_bit_eq_div])
  have c: "canonical v \<longleftrightarrow> unat v div 2 ^ 47 = 0 \<or> unat v div 2 ^ 47 = 131071"
    using d unfolding canonical_def word_unat_eq_iff by simp
  have x: "unat v div 2 ^ 47 = unat v div 2 ^ 39 div 256" by (simp add: div_mult2_eq [symmetric])
  define y where "y = unat v div 2 ^ 39"
  have "(y div 256 = 0 \<or> y div 256 = 131071) \<and> y mod 512 = 1 \<longleftrightarrow> y = 1"
  proof (cases "y div 256 = 131071")
    case True
    then have "y = 65535 * 512 + (256 + y mod 256)" using div_mult_mod_eq [of y 256] by simp
    then have "y mod 512 = (256 + y mod 256) mod 512" by (metis mod_mult_self3)
    also have "\<dots> = 256 + y mod 256" by (rule mod_less) (use mod_less_divisor [of 256 y] in linarith)
    finally show ?thesis using True by auto
  next
    case False
    then show ?thesis by (auto simp: div_eq_0_iff)
  qed
  moreover have "y = 1 \<longleftrightarrow> 549755813888 \<le> unat v \<and> unat v < 1099511627776" by (auto simp: y_def)
  ultimately show ?thesis unfolding c x table_index y_def [symmetric] by simp
qed

lemma slot_indices:
  assumes "549755813888 \<le> unat v" "unat v < 1099511627776"
  defines "w \<equiv> unat v - 549755813888"
  shows "page_table_index v 30 = w div 1073741824" "page_table_index v 21 = w div 2097152 mod 512"
    "page_table_index v 12 = w div 4096 mod 512"
proof -
  have v: "unat v = w + 549755813888" using assms by simp
  have w: "w < 549755813888" using assms by simp
  have "(w + 512 * 1073741824) div 1073741824 = w div 1073741824 + 512" by simp
  moreover have "w div 1073741824 < 512" using w by (simp add: less_mult_imp_div_less)
  ultimately show "page_table_index v 30 = w div 1073741824" by (simp add: table_index v)
  have "(w + 262144 * 2097152) div 2097152 = w div 2097152 + 262144" by simp
  moreover have "(x + 262144) mod 512 = x mod 512" for x :: nat using mod_mult_self1 [of x 512 512] by simp
  ultimately show "page_table_index v 21 = w div 2097152 mod 512" by (simp add: table_index v)
  have "(w + 134217728 * 4096) div 4096 = w div 4096 + 134217728" by simp
  moreover have "(x + 134217728) mod 512 = x mod 512" for x :: nat using mod_mult_self1 [of x 262144 512] by simp
  ultimately show "page_table_index v 12 = w div 4096 mod 512" by (simp add: table_index v)
qed

text \<open>The offsets of the code and of the stack in the slot, by their indices.\<close>

lemma code_offset:
  fixes w :: nat
  shows "w < 196608 \<longleftrightarrow> w div 1073741824 = 0 \<and> w div 2097152 mod 512 = 0 \<and> w div 4096 mod 512 < 48"
proof
  assume "w < 196608"
  then show "w div 1073741824 = 0 \<and> w div 2097152 mod 512 = 0 \<and> w div 4096 mod 512 < 48"
    by (auto simp: less_mult_imp_div_less)
next
  assume a: "w div 1073741824 = 0 \<and> w div 2097152 mod 512 = 0 \<and> w div 4096 mod 512 < 48"
  then have "w div 2097152 < 512" by (auto simp: div_eq_0_iff)
  with a have "w div 2097152 = 0" by simp
  then have "w div 4096 < 512" by (auto simp: div_eq_0_iff)
  with a have "w div 4096 < 48" by simp
  then show "w < 196608" by (simp add: div_less_iff_less_mult)
qed

lemma stack_offset:
  fixes w :: nat
  shows "2097152 \<le> w \<and> w < 2097152 + 98304 \<longleftrightarrow>
    w div 1073741824 = 0 \<and> w div 2097152 mod 512 = 1 \<and> w div 4096 mod 512 < 24"
proof
  assume a: "2097152 \<le> w \<and> w < 2097152 + 98304"
  then obtain x where x: "w = x + 2097152" "x < 98304" by (metis add.commute add_less_cancel_left le_Suc_ex)
  have "(x + 2097152) div 2097152 = 1" "(x + 512 * 4096) div 4096 = x div 4096 + 512"
    using x(2) by simp_all
  then show "w div 1073741824 = 0 \<and> w div 2097152 mod 512 = 1 \<and> w div 4096 mod 512 < 24"
    using x by (simp add: less_mult_imp_div_less)
next
  assume a: "w div 1073741824 = 0 \<and> w div 2097152 mod 512 = 1 \<and> w div 4096 mod 512 < 24"
  then have "w div 2097152 < 512" by (auto simp: div_eq_0_iff)
  with a have one: "w div 2097152 = 1" by simp
  then obtain x where x: "w = x + 2097152" "x < 2097152"
    by (metis One_nat_def add.commute div_less_iff_less_mult le_Suc_ex less_add_one
        div_greater_zero_iff dividend_less_div_times mult_1 nat_add_left_cancel_less zero_less_numeral zero_less_one)
  have "(x + 512 * 4096) div 4096 = x div 4096 + 512" by simp
  then have "x div 4096 mod 512 < 24" using a x(1) by simp
  moreover have "x div 4096 < 512" using x(2) by (simp add: less_mult_imp_div_less)
  ultimately have "x div 4096 < 24" by simp
  then show "2097152 \<le> w \<and> w < 2097152 + 98304" using x(1) by (simp add: div_less_iff_less_mult)
qed

lemma slot_pages:
  assumes "canonical v" "page_table_index v 39 = 1"
  shows "in_code v \<longleftrightarrow> page_table_index v 30 = 0 \<and> page_table_index v 21 = 0 \<and> page_table_index v 12 < 48"
    "in_stack v \<longleftrightarrow> page_table_index v 30 = 0 \<and> page_table_index v 21 = 1 \<and> page_table_index v 12 < 24"
    "in_code v \<Longrightarrow> page_table_index v 12 = code_page v" "in_stack v \<Longrightarrow> page_table_index v 12 = stack_page v"
proof -
  have vb: "549755813888 \<le> unat v" "unat v < 1099511627776" using assms user_slot by blast+
  define w where "w = unat v - 549755813888"
  note idx = slot_indices [OF vb, folded w_def]
  have c: "in_code v \<longleftrightarrow> w < 196608" and s: "in_stack v \<longleftrightarrow> 2097152 \<le> w \<and> w < 2097152 + 98304"
    using vb by (auto simp: in_code_nat in_stack_nat w_def)
  show "in_code v \<longleftrightarrow> page_table_index v 30 = 0 \<and> page_table_index v 21 = 0 \<and> page_table_index v 12 < 48"
    unfolding c idx by (rule code_offset)
  show "in_stack v \<longleftrightarrow> page_table_index v 30 = 0 \<and> page_table_index v 21 = 1 \<and> page_table_index v 12 < 24"
    unfolding s idx by (rule stack_offset)
  show "page_table_index v 12 = code_page v" if "in_code v"
    using that c by (simp add: idx code_page_nat w_def [symmetric])
  show "page_table_index v 12 = stack_page v" if a: "in_stack v"
  proof -
    obtain x where x: "w = x + 512 * 4096" "x < 98304" using a s by (auto dest: le_Suc_ex)
    have "(x + 512 * 4096) div 4096 = x div 4096 + 512" by simp
    moreover have "stack_page v = x div 4096" using x(1) vb by (simp add: stack_page_nat [OF a] w_def)
    ultimately show ?thesis using x by (simp add: idx)
  qed
qed

lemma entry_bits:
  assumes "page_ok q"
  shows "bit (q OR 7) 0" "bit (q OR 7) 1" "bit (q OR 7) 2" "\<not> bit (q OR 7) 7" "\<not> bit (q OR 7) 63"
    "bit (q OR 5) 0" "\<not> bit (q OR 5) 1" "bit (q OR 5) 2" "\<not> bit (q OR 5) 63"
    "bit (q OR 0x8000000000000007) 0" "bit (q OR 0x8000000000000007) 1" "bit (q OR 0x8000000000000007) 2"
    "bit (q OR 0x8000000000000007) 63"
  using assms by (simp_all add: entry_flag)

lemma entry_pages:
  assumes "page_ok q"
  shows "(q OR 7) AND page_address_mask = q" "(q OR 5) AND page_address_mask = q"
    "(q OR 0x8000000000000007) AND page_address_mask = q"
proof -
  have "(7 :: u64) AND page_address_mask = 0" "(5 :: u64) AND page_address_mask = 0"
    "(0x8000000000000007 :: u64) AND page_address_mask = 0" by code_simp+
  then show "(q OR 7) AND page_address_mask = q" "(q OR 5) AND page_address_mask = q"
    "(q OR 0x8000000000000007) AND page_address_mask = q"
    using entry_address [OF assms] by blast+
qed

lemma leaf_code:
  assumes "page_ok p4" "page_ok p3" "page_ok p2" "page_ok p1"
  shows "leaf [p4 OR 7, p3 OR 7, p2 OR 7, p1 OR 5] 12 v =
      \<lparr>tr_address = p1 + take_bit 12 v, tr_user = True, tr_write = False, tr_execute = True\<rparr>"
    "leaf [p4 OR 7, p3 OR 7, p2 OR 7, p1 OR 0x8000000000000007] 12 v =
      \<lparr>tr_address = p1 + take_bit 12 v, tr_user = True, tr_write = True, tr_execute = False\<rparr>"
  unfolding leaf_def by (simp_all only: list.set ball_simps last.simps list.simps if_False if_True entry_bits [OF assms(1)]
      entry_bits [OF assms(2)] entry_bits [OF assms(3)] entry_bits [OF assms(4)] entry_pages [OF assms(4)]
      page_leaf [OF assms(4)] simp_thms)

lemma translate_user:
  assumes t: "tables_ok m k cr3 pdpt pd cpt spt" and cr3: "as_cr3 space = cr3"
    and code: "\<forall>i<48. page_ok (as_code_physical space ! i)" and stack: "\<forall>i<24. page_ok (as_stack_physical space ! i)"
    and slot: "canonical v" "page_table_index v 39 = 1"
  shows "translate (map_address_space k space pdpt pd cpt spt m) cr3 v =
      (if in_code v then Some \<lparr>tr_address = as_code_physical space ! code_page v + take_bit 12 v,
         tr_user = True, tr_write = False, tr_execute = True\<rparr>
       else if in_stack v then Some \<lparr>tr_address = as_stack_physical space ! stack_page v + take_bit 12 v,
         tr_user = True, tr_write = True, tr_execute = False\<rparr>
       else None)"
proof -
  define m' where "m' = map_address_space k space pdpt pd cpt spt m"
  note e = built_entries [OF t cr3, folded m'_def]
  have p: "page_ok cr3" "page_ok pdpt" "page_ok pd" "page_ok cpt" "page_ok spt"
    using t by (simp_all add: tables_ok_def)
  note eb = entry_bits [OF p(2)] entry_bits [OF p(3)] entry_bits [OF p(4)] entry_bits [OF p(5)]
  note ep = page_mask [OF p(1)] entry_pages [OF p(2)] entry_pages [OF p(3)] entry_pages [OF p(4)] entry_pages [OF p(5)]
  note walk = translate_def Let_def slot e [OF table_index_less] e eb ep
  consider (code) "in_code v" | (stack) "in_stack v" "\<not> in_code v" | (none) "\<not> in_code v" "\<not> in_stack v" by blast
  then show ?thesis
  proof cases
    case code
    have i: "page_table_index v 30 = 0" "page_table_index v 21 = 0" "code_page v < 48" "page_table_index v 12 = code_page v"
      using slot_pages [OF slot] code by metis+
    then have q: "page_ok (as_code_physical space ! code_page v)" using assms(3) by blast
    show ?thesis using code i
      by (simp add: walk m'_def [symmetric] entry_bits [OF q] leaf_code [OF p(2,3,4) q])
  next
    case stack
    have i: "page_table_index v 30 = 0" "page_table_index v 21 = 1" "stack_page v < 24" "page_table_index v 12 = stack_page v"
      using slot_pages [OF slot] stack(1) by metis+
    then have q: "page_ok (as_stack_physical space ! stack_page v)" using assms(4) by blast
    show ?thesis using stack i
      by (simp add: walk m'_def [symmetric] entry_bits [OF q] leaf_code [OF p(2,3,5) q])
  next
    case none
    have "\<not> (page_table_index v 30 = 0 \<and> page_table_index v 21 = 0 \<and> page_table_index v 12 < 48)"
      "\<not> (page_table_index v 30 = 0 \<and> page_table_index v 21 = 1 \<and> page_table_index v 12 < 24)"
      using slot_pages(1,2) [OF slot] none by blast+
    then show ?thesis using none by (auto simp: walk m'_def [symmetric])
  qed
qed

lemma translate_built:
  assumes t: "tables_ok m k cr3 pdpt pd cpt spt" and cr3: "as_cr3 space = cr3"
    and code: "\<forall>i<48. page_ok (as_code_physical space ! i)" and stack: "\<forall>i<24. page_ok (as_stack_physical space ! i)"
  shows "mapped (map_address_space k space pdpt pd cpt spt m) k space"
proof -
  define m' where "m' = map_address_space k space pdpt pd cpt spt m"
  note e = built_entries [OF t cr3, folded m'_def]
  note user = translate_user [OF assms, folded m'_def]
  have p: "page_ok k" "page_ok cr3" using t by (simp_all add: tables_ok_def)
  have kernel: "translate m' cr3 v = translate m' k v" if "\<not> (canonical v \<and> page_table_index v 39 = 1)" for v
    using that e(1,6) [OF table_index_less] p by (auto simp: translate_def page_mask Let_def)
  have in_slot: "canonical v \<and> page_table_index v 39 = 1" if "in_code v \<or> in_stack v" for v
    using that unfolding user_slot in_code_nat in_stack_nat by auto
  show ?thesis
    unfolding mapped_def cr3 m'_def [symmetric] using user kernel in_slot by auto
qed

section \<open>Pages taken from the allocator\<close>

text \<open>Free pages of physical memory: the processor can address them and page tables can name them.\<close>

definition free_ok :: "arwill_memory \<Rightarrow> bool" where
  "free_ok memory \<longleftrightarrow> allocator_ok (me_physical_allocator memory) \<and>
     (\<forall>p\<in>page_set (me_physical_allocator memory). p < 2 ^ 52)"

definition free_pages :: "arwill_memory \<Rightarrow> u64 set" where
  "free_pages memory = {p. unat p \<in> page_set (me_physical_allocator memory)}"

text \<open>The pages \<open>ps\<close> go from the allocator to their user, cleared.\<close>

definition took :: "u64 list \<Rightarrow> arwill_memory \<times> ram \<Rightarrow> arwill_memory \<times> ram \<Rightarrow> bool" where
  "took ps s s' \<longleftrightarrow> free_ok (fst s') \<and> distinct ps \<and> set ps \<subseteq> free_pages (fst s) \<and>
     free_pages (fst s') = free_pages (fst s) - set ps \<and>
     (\<forall>a. snd s' a = (if \<exists>p\<in>set ps. in_page p a then 0 else snd s a))"

lemma free_page_ok: "free_ok memory \<Longrightarrow> p \<in> free_pages memory \<Longrightarrow> page_ok p"
  by (auto simp: free_ok_def free_pages_def page_ok_def page_set_def)

lemma took_nil: "free_ok (fst s) \<Longrightarrow> took [] s s"
  by (simp add: took_def)

lemma took_append: "took ps s s1 \<Longrightarrow> took qs s1 s2 \<Longrightarrow> took (ps @ qs) s s2"
  by (auto simp: took_def)

lemma allocate_took:
  assumes ok: "free_ok memory" and a: "allocate_zero_page memory m = (Some p, memory', m')"
  shows "took [p] (memory, m) (memory', m')"
proof -
  from a have pa: "arwill_physical_allocate_page memory = (Some p, memory')" and m': "m' = clear_page m p"
    by (auto simp: allocate_zero_page_def split: prod.splits option.splits)
  note c = allocate_page_cases [OF _ pa]
  have pages: "unat p \<in> page_set (me_physical_allocator memory)" "allocator_ok (me_physical_allocator memory')"
      "page_set (me_physical_allocator memory') = page_set (me_physical_allocator memory) - {unat p}"
    using c ok by (auto simp: free_ok_def)
  then have "page_ok p" using free_page_ok [OF ok] by (simp add: free_pages_def)
  then show ?thesis
    using pages ok by (auto simp: took_def free_ok_def free_pages_def m' clear_page_at word_unat_eq_iff)
qed

lemma fill_pages_took:
  assumes "free_ok memory" "fill_pages is pages memory m = (True, pages', memory', m')" "distinct is"
    "\<forall>i\<in>set is. i < length pages"
  shows "took (map ((!) pages') is) (memory, m) (memory', m') \<and> length pages' = length pages \<and>
    (\<forall>j. j \<notin> set is \<longrightarrow> pages' ! j = pages ! j)"
  using assms
proof (induction "is" arbitrary: pages memory m)
  case (Cons i rest)
  from Cons.prems(2) obtain p memory1 m1 where a: "allocate_zero_page memory m = (Some p, memory1, m1)"
    and f: "fill_pages rest (pages[i := p]) memory1 m1 = (True, pages', memory', m')"
    by (auto split: prod.splits option.splits)
  note t = allocate_took [OF Cons.prems(1) a]
  then have free: "free_ok memory1" by (simp add: took_def)
  have ih: "took (map ((!) pages') rest) (memory1, m1) (memory', m')" "length pages' = length pages"
      "\<forall>j. j \<notin> set rest \<longrightarrow> pages' ! j = pages[i := p] ! j"
    using Cons.IH [OF free f] Cons.prems(3,4) by simp_all
  then have "pages' ! i = p" using Cons.prems(3,4) by simp
  then show ?case using took_append [OF t ih(1)] ih(2,3) by simp
qed (simp add: took_nil)

text \<open>The addresses of a list of pages.\<close>

definition in_pages :: "u64 list \<Rightarrow> u64 \<Rightarrow> bool" where
  "in_pages ps a \<longleftrightarrow> (\<exists>p\<in>set ps. in_page p a)"

definition user_pages :: "x86_64_user_address_space \<Rightarrow> u64 list" where
  "user_pages space = as_code_physical space @ as_stack_physical space"

lemma nth_map_all: "length xs = n \<Longrightarrow> map ((!) xs) [0..<n] = xs"
  using map_nth [of xs] by simp

lemma initialize_took:
  assumes ok: "free_ok memory" and len: "length (as_code_physical space) = 48" "length (as_stack_physical space) = 24"
    and init: "initialize_address_space k space memory m = (True, space', memory', m')"
  obtains pdpt pd cpt spt m0 where
    "took ([as_cr3 space', pdpt, pd, cpt, spt] @ user_pages space') (memory, m) (memory', m0)"
    "m' = map_address_space k space' pdpt pd cpt spt m0"
    "length (as_code_physical space') = 48" "length (as_stack_physical space') = 24"
proof -
  from init obtain cr3 s1 m1 pdpt s2 m2 pd s3 m3 cpt s4 m4 spt s5 m5 code s6 m6 stack m0
    where a: "allocate_zero_page memory m = (Some cr3, s1, m1)" "allocate_zero_page s1 m1 = (Some pdpt, s2, m2)"
      "allocate_zero_page s2 m2 = (Some pd, s3, m3)" "allocate_zero_page s3 m3 = (Some cpt, s4, m4)"
      "allocate_zero_page s4 m4 = (Some spt, s5, m5)"
    and f: "fill_pages [0..<48] (as_code_physical space) s5 m5 = (True, code, s6, m6)"
      "fill_pages [0..<24] (as_stack_physical space) s6 m6 = (True, stack, memory', m0)"
    and r: "space' = space\<lparr>as_cr3 := cr3, as_code_physical := code, as_stack_physical := stack\<rparr>"
      "m' = map_address_space k space' pdpt pd cpt spt m0"
    unfolding initialize_address_space_def Let_def by (auto split: prod.splits option.splits if_splits)
  have free: "free_ok s'" if "took ps s (s', m')" for ps s s' m' using that by (simp add: took_def)
  note t1 = allocate_took [OF ok a(1)]
  note t2 = allocate_took [OF free [OF t1] a(2)]
  note t3 = allocate_took [OF free [OF t2] a(3)]
  note t4 = allocate_took [OF free [OF t3] a(4)]
  note t5 = allocate_took [OF free [OF t4] a(5)]
  note t6 = fill_pages_took [OF free [OF t5] f(1), simplified len, simplified]
  then have t6': "took code (s5, m5) (s6, m6)" "length code = 48" using nth_map_all [of code 48] by simp_all
  note t7 = fill_pages_took [OF free [OF t6'(1)] f(2), simplified len, simplified]
  then have t7': "took stack (s6, m6) (memory', m0)" "length stack = 24" using nth_map_all [of stack 24] by simp_all
  have "took ([cr3] @ [pdpt] @ [pd] @ [cpt] @ [spt] @ code @ stack) (memory, m) (memory', m0)"
    by (rule took_append [OF t1 took_append [OF t2 took_append [OF t3 took_append [OF t4 took_append [OF t5
        took_append [OF t6'(1) t7'(1)]]]]]])
  then show ?thesis using that [of pdpt pd cpt spt m0] r t6'(2) t7'(2) by (simp add: user_pages_def)
qed

end
