(* ===== verification/User_Mode.thy ===== *)
theory User_Mode
  imports Address_Space Awp_Network Filesystem Log Realtime
begin

text \<open>
  \<open>arch/x86_64/cpu/user_mode.c\<close>, second part: the tasks that run programs in ring 3, their
  system calls, and the operations of the shell on them. A pointer to a task is its index in the
  table, a pointer to a console an index of the list of consoles. The kernel writes to a task
  through the direct map, that is to physical memory, and reads what a program passes by the
  program's own mapping: a read of an address that is not mapped is a page fault of the kernel,
  \<open>None\<close>. The instructions of a program are not modelled; what they may do to memory is.
\<close>

section \<open>Data\<close>

abbreviation (input) syscall_write :: u64 where "syscall_write \<equiv> 1"
abbreviation (input) syscall_exit :: u64 where "syscall_exit \<equiv> 2"
abbreviation (input) syscall_read :: u64 where "syscall_read \<equiv> 3"
abbreviation (input) syscall_clock :: u64 where "syscall_clock \<equiv> 4"
abbreviation (input) syscall_read_file :: u64 where "syscall_read_file \<equiv> 5"
abbreviation (input) syscall_write_file :: u64 where "syscall_write_file \<equiv> 6"
abbreviation (input) syscall_argument :: u64 where "syscall_argument \<equiv> 7"
abbreviation (input) syscall_net_open :: u64 where "syscall_net_open \<equiv> 8"
abbreviation (input) syscall_net_bind :: u64 where "syscall_net_bind \<equiv> 9"
abbreviation (input) syscall_net_listen :: u64 where "syscall_net_listen \<equiv> 10"
abbreviation (input) syscall_net_connect :: u64 where "syscall_net_connect \<equiv> 11"
abbreviation (input) syscall_net_accept :: u64 where "syscall_net_accept \<equiv> 12"
abbreviation (input) syscall_net_read :: u64 where "syscall_net_read \<equiv> 13"
abbreviation (input) syscall_net_write :: u64 where "syscall_net_write \<equiv> 14"
abbreviation (input) syscall_net_close :: u64 where "syscall_net_close \<equiv> 15"
abbreviation (input) syscall_udp_open :: u64 where "syscall_udp_open \<equiv> 16"
abbreviation (input) syscall_udp_bind :: u64 where "syscall_udp_bind \<equiv> 17"
abbreviation (input) syscall_udp_connect :: u64 where "syscall_udp_connect \<equiv> 18"
abbreviation (input) syscall_udp_send :: u64 where "syscall_udp_send \<equiv> 19"
abbreviation (input) syscall_udp_receive :: u64 where "syscall_udp_receive \<equiv> 20"
abbreviation (input) syscall_udp_close :: u64 where "syscall_udp_close \<equiv> 21"
abbreviation (input) syscall_random_fill :: u64 where "syscall_random_fill \<equiv> 22"
abbreviation (input) syscall_realtime :: u64 where "syscall_realtime \<equiv> 23"
abbreviation (input) user_code_message_offset :: nat where "user_code_message_offset \<equiv> 0x100"
abbreviation (input) user_write_limit :: u64 where "user_write_limit \<equiv> 256"
abbreviation (input) user_input_capacity :: nat where "user_input_capacity \<equiv> 128"
abbreviation (input) user_quantum_ticks :: u32 where "user_quantum_ticks \<equiv> 2"
abbreviation (input) user_file_limit :: u64 where "user_file_limit \<equiv> 2048"
abbreviation (input) user_path_limit :: u64 where "user_path_limit \<equiv> 63"
abbreviation (input) bad_syscall_exit_code :: u32 where "bad_syscall_exit_code \<equiv> 127"
abbreviation (input) canceled_exit_code :: u32 where "canceled_exit_code \<equiv> 130"
abbreviation (input) awp_header_size :: u64 where "awp_header_size \<equiv> 16"
abbreviation (input) arwill_user_task_capacity :: nat where "arwill_user_task_capacity \<equiv> 4"

datatype arwill_user_task_state =
    Task_empty | Task_ready | Task_running | Task_blocked_input | Task_finished | Task_faulted

datatype arwill_user_program = User_program_hello | User_program_bad_syscall

record arwill_x86_64_user_registers =
  rg_rax :: u64
  rg_rbx :: u64
  rg_rcx :: u64
  rg_rdx :: u64
  rg_rsi :: u64
  rg_rdi :: u64
  rg_rbp :: u64
  rg_r8 :: u64
  rg_r9 :: u64
  rg_r10 :: u64
  rg_r11 :: u64
  rg_r12 :: u64
  rg_r13 :: u64
  rg_r14 :: u64
  rg_r15 :: u64

record arwill_x86_64_user_frame =
  fr_instruction_pointer :: u64
  fr_code_segment :: u64
  fr_cpu_flags :: u64
  fr_stack_pointer :: u64
  fr_stack_segment :: u64

record arwill_x86_64_user_saved_context =
  sv_registers :: arwill_x86_64_user_registers
  sv_frame :: arwill_x86_64_user_frame

record x86_64_user_task =
  tk_address_space :: x86_64_user_address_space
  tk_saved :: arwill_x86_64_user_saved_context
  tk_state :: arwill_user_task_state
  tk_pid :: u32
  tk_name :: bytes
  tk_argument :: bytes
  tk_argument_length :: nat
  tk_console :: "nat option"
  tk_exit_code :: u32
  tk_fault_vector :: u8
  tk_run_count :: u64
  tk_syscall_count :: u64
  tk_bytes_written :: u64
  tk_status :: string
  tk_input :: bytes
  tk_input_head :: nat
  tk_input_count :: nat
  tk_pending_read_pointer :: u64
  tk_pending_read_length :: u64
  tk_network :: arwill_awp_network_owner

record ('n, 'k, 'f) x86_64_user_context =
  uc_memory :: "arwill_memory option"
  uc_ram :: ram
  uc_consoles :: "'k arwill_console list"
  uc_kernel_cr3 :: u64
  uc_available :: bool
  uc_hhdm_available :: bool
  uc_runs :: u64
  uc_syscall_count :: u64
  uc_bytes_written :: u64
  uc_bad_syscalls :: u64
  uc_preemptions :: u64
  uc_faults :: u64
  uc_clock :: "'k arwill_clock option"
  uc_entropy :: "'k arwill_entropy option"
  uc_realtime :: "'k arwill_realtime option"
  uc_filesystem :: "'f arwill_filesystem option"
  uc_ipv4 :: "('n, 'k) arwill_ipv4_stack option"
  uc_log :: "'k arwill_event_log option"
  uc_filesystem_buffer :: bytes
  uc_path_buffer :: bytes
  uc_tasks :: "x86_64_user_task list"
  uc_active_task :: "nat option"
  uc_next_pid :: u32
  uc_next_slot :: nat
  uc_active_slice_ticks :: u32

type_synonym ('n, 'k, 'f) handled =
  "(bool \<times> arwill_x86_64_user_registers \<times> ('n, 'k, 'f) x86_64_user_context) option"

definition task_at :: "('n, 'k, 'f) x86_64_user_context \<Rightarrow> nat \<Rightarrow> x86_64_user_task" where
  "task_at context i = uc_tasks context ! i"

definition with_task ::
    "nat \<Rightarrow> (x86_64_user_task \<Rightarrow> x86_64_user_task) \<Rightarrow> ('n, 'k, 'f) x86_64_user_context \<Rightarrow>
     ('n, 'k, 'f) x86_64_user_context" where
  "with_task i f context = context\<lparr>uc_tasks := (uc_tasks context)[i := f (uc_tasks context ! i)]\<rparr>"

definition cleanup_task_network ::
    "('n, 'k, 'f) x86_64_user_context \<Rightarrow> nat \<Rightarrow> ('n, 'k, 'f) x86_64_user_context" where
  "cleanup_task_network context i =
     (case arwill_awp_network_cleanup (uc_ipv4 context) (tk_network (task_at context i)) of
        (stack, owner) \<Rightarrow> with_task i (\<lambda>task. task\<lparr>tk_network := owner\<rparr>) (context\<lparr>uc_ipv4 := stack\<rparr>))"

section \<open>Preparing a task\<close>

definition clear_saved_context :: arwill_x86_64_user_saved_context where
  "clear_saved_context =
     \<lparr>sv_registers = \<lparr>rg_rax = 0, rg_rbx = 0, rg_rcx = 0, rg_rdx = 0, rg_rsi = 0, rg_rdi = 0, rg_rbp = 0,
        rg_r8 = 0, rg_r9 = 0, rg_r10 = 0, rg_r11 = 0, rg_r12 = 0, rg_r13 = 0, rg_r14 = 0, rg_r15 = 0\<rparr>,
      sv_frame = \<lparr>fr_instruction_pointer = user_code_virtual, fr_code_segment = 0x23, fr_cpu_flags = 0x202,
        fr_stack_pointer = user_stack_virtual + of_nat user_stack_page_count * 4096 - 16,
        fr_stack_segment = 0x1b\<rparr>\<rparr>"

definition reset_task :: "x86_64_user_task \<Rightarrow> x86_64_user_task" where
  "reset_task task = task\<lparr>tk_saved := clear_saved_context, tk_state := Task_empty, tk_pid := 0,
     tk_name := (tk_name task)[0 := 0], tk_argument := (tk_argument task)[0 := 0],
     tk_argument_length := 0, tk_console := None, tk_exit_code := 0, tk_fault_vector := 0,
     tk_run_count := 0, tk_syscall_count := 0, tk_bytes_written := 0, tk_status := ''empty'',
     tk_input_head := 0, tk_input_count := 0, tk_pending_read_pointer := 0,
     tk_pending_read_length := 0, tk_network := arwill_awp_network_owner_init (tk_network task)\<rparr>"

definition reset_task_runtime ::
    "('n, 'k, 'f) x86_64_user_context \<Rightarrow> nat \<Rightarrow> ('n, 'k, 'f) x86_64_user_context" where
  "reset_task_runtime context i =
     (let space = tk_address_space (task_at context i);
          m = foldl (\<lambda>m index. clear_page m (as_code_physical space ! index)) (uc_ram context)
                [0..<user_code_page_count];
          m = foldl (\<lambda>m index. clear_page m (as_stack_physical space ! index)) m [0..<user_stack_page_count]
      in with_task i reset_task (context\<lparr>uc_ram := m\<rparr>))"

text \<open>A C string is copied up to its NUL into an array of \<open>capacity\<close> bytes.\<close>

fun copy_name_from :: "bytes \<Rightarrow> nat \<Rightarrow> nat \<Rightarrow> bytes \<Rightarrow> bool \<times> bytes" where
  "copy_name_from destination capacity index [] = (True, destination[index := 0])"
| "copy_name_from destination capacity index (c # source) =
     (if index + 1 \<ge> capacity then (False, destination)
      else copy_name_from (destination[index := c]) capacity (index + 1) source)"

definition copy_name :: "bytes \<Rightarrow> nat \<Rightarrow> bytes \<Rightarrow> bool \<times> bytes" where
  "copy_name destination capacity source =
     (if capacity = 0 then (False, destination) else copy_name_from destination capacity 0 (c_string source))"

definition read_le16 :: "bytes \<Rightarrow> nat \<Rightarrow> u16" where
  "read_le16 bs k = ucast (bs ! k) OR push_bit 8 (ucast (bs ! (k + 1)))"

definition read_le32 :: "bytes \<Rightarrow> nat \<Rightarrow> u32" where
  "read_le32 bs k = ucast (bs ! k) OR push_bit 8 (ucast (bs ! (k + 1))) OR push_bit 16 (ucast (bs ! (k + 2))) OR
     push_bit 24 (ucast (bs ! (k + 3)))"

definition copy_image_to_task ::
    "('n, 'k, 'f) x86_64_user_context \<Rightarrow> nat \<Rightarrow> bytes \<Rightarrow> u64 \<Rightarrow> bool \<times> ('n, 'k, 'f) x86_64_user_context" where
  "copy_image_to_task context i image_bytes image_size =
     (if image_size < awp_header_size \<or> image_bytes ! 0 \<noteq> chr CHR ''A'' \<or> image_bytes ! 1 \<noteq> chr CHR ''W'' \<or>
         image_bytes ! 2 \<noteq> chr CHR ''P'' \<or> image_bytes ! 3 \<noteq> chr CHR ''1''
      then (False, context)
      else
        (let header_size = read_le16 image_bytes 4; entry_offset = read_le16 image_bytes 6; code_size = read_le32 image_bytes 8;
             code_capacity = of_nat user_code_page_count * 4096 :: u64
         in if ucast header_size < awp_header_size \<or> ucast header_size > image_size \<or> code_size = 0 \<or>
               ucast code_size > code_capacity \<or> (ucast entry_offset :: u64) \<ge> ucast code_size \<or>
               image_size - ucast header_size < ucast code_size
            then (False, context)
            else
              (let space = tk_address_space (task_at context i);
                   m = foldl (\<lambda>m index. m(as_code_physical space ! (index div 4096) + of_nat (index mod 4096) :=
                          image_bytes ! (unat header_size + index))) (uc_ram context) [0..<unat code_size]
               in (True, with_task i (\<lambda>task. task\<lparr>tk_saved := (tk_saved task)\<lparr>sv_frame :=
                     (sv_frame (tk_saved task))\<lparr>fr_instruction_pointer := user_code_virtual + ucast entry_offset\<rparr>\<rparr>\<rparr>)
                     (context\<lparr>uc_ram := m\<rparr>)))))"

section \<open>The built-in programs\<close>

text \<open>
  Each routine adds bytes to the code at an offset and says whether they fitted; routines in
  sequence stop at the first that fails.
\<close>

type_synonym emitter = "nat \<times> ram \<Rightarrow> bool \<times> nat \<times> ram"

definition emit8 :: "u64 \<Rightarrow> nat \<Rightarrow> u8 \<Rightarrow> emitter" where
  "emit8 code capacity v = (\<lambda>(offset, m).
     if offset \<ge> capacity then (False, offset, m) else (True, offset + 1, m(code + of_nat offset := v)))"

fun emit_all :: "emitter list \<Rightarrow> emitter" where
  "emit_all [] s = (True, s)"
| "emit_all (e # es) s = (case e s of (ok, s) \<Rightarrow> if ok then emit_all es s else (False, s))"

definition emit32 :: "u64 \<Rightarrow> nat \<Rightarrow> u32 \<Rightarrow> emitter" where
  "emit32 code capacity v = emit_all (map (\<lambda>s. emit8 code capacity (ucast (drop_bit s v AND 0xff))) [0, 8, 16, 24])"

definition emit64 :: "u64 \<Rightarrow> nat \<Rightarrow> u64 \<Rightarrow> emitter" where
  "emit64 code capacity v =
     emit_all (map (\<lambda>s. emit8 code capacity (ucast (drop_bit s v AND 0xff))) [0, 8, 16, 24, 32, 40, 48, 56])"

definition emit_mov_rax_imm32 :: "u64 \<Rightarrow> nat \<Rightarrow> u32 \<Rightarrow> emitter" where
  "emit_mov_rax_imm32 code capacity v = emit_all
     [emit8 code capacity 0x48, emit8 code capacity 0xc7, emit8 code capacity 0xc0, emit32 code capacity v]"

definition emit_mov_rdi_imm32 :: "u64 \<Rightarrow> nat \<Rightarrow> u32 \<Rightarrow> emitter" where
  "emit_mov_rdi_imm32 code capacity v = emit_all
     [emit8 code capacity 0x48, emit8 code capacity 0xc7, emit8 code capacity 0xc7, emit32 code capacity v]"

definition emit_mov_rdi_imm64 :: "u64 \<Rightarrow> nat \<Rightarrow> u64 \<Rightarrow> emitter" where
  "emit_mov_rdi_imm64 code capacity v = emit_all
     [emit8 code capacity 0x48, emit8 code capacity 0xbf, emit64 code capacity v]"

definition emit_mov_rsi_imm32 :: "u64 \<Rightarrow> nat \<Rightarrow> u32 \<Rightarrow> emitter" where
  "emit_mov_rsi_imm32 code capacity v = emit_all
     [emit8 code capacity 0x48, emit8 code capacity 0xc7, emit8 code capacity 0xc6, emit32 code capacity v]"

definition emit_int80 :: "u64 \<Rightarrow> nat \<Rightarrow> emitter" where
  "emit_int80 code capacity = emit_all [emit8 code capacity 0xcd, emit8 code capacity 0x80]"

definition emit_ud2 :: "u64 \<Rightarrow> nat \<Rightarrow> emitter" where
  "emit_ud2 code capacity = emit_all [emit8 code capacity 0x0f, emit8 code capacity 0x0b]"

definition hello_message :: bytes where
  "hello_message = bytes_of ''user hello: hello from ring 3'' @ [0x0A]"

definition build_builtin_program ::
    "('n, 'k, 'f) x86_64_user_context \<Rightarrow> nat \<Rightarrow> arwill_user_program \<Rightarrow>
     bool \<times> ('n, 'k, 'f) x86_64_user_context" where
  "build_builtin_program context i program =
     (let code = as_code_physical (tk_address_space (task_at context i)) ! 0; capacity = 4096
      in case program of
           User_program_hello \<Rightarrow>
             (let message_length = length hello_message;
                  m = foldl (\<lambda>m index. m(code + of_nat (user_code_message_offset + index) := hello_message ! index))
                        (uc_ram context) [0..<message_length]
              in case emit_all
                     [emit_mov_rax_imm32 code capacity (ucast syscall_write),
                      emit_mov_rdi_imm64 code capacity (user_code_virtual + of_nat user_code_message_offset),
                      emit_mov_rsi_imm32 code capacity (of_nat message_length), emit_int80 code capacity,
                      emit_mov_rax_imm32 code capacity (ucast syscall_exit), emit_mov_rdi_imm32 code capacity 7,
                      emit_int80 code capacity, emit_ud2 code capacity] (0, m) of
                   (ok, offset, m) \<Rightarrow> (ok, context\<lparr>uc_ram := m\<rparr>))
         | User_program_bad_syscall \<Rightarrow>
             (case emit_all [emit_mov_rax_imm32 code capacity 99, emit_int80 code capacity, emit_ud2 code capacity]
                     (0, uc_ram context) of
                (ok, offset, m) \<Rightarrow> (ok, context\<lparr>uc_ram := m\<rparr>)))"

section \<open>The task table\<close>

definition slots_from :: "('n, 'k, 'f) x86_64_user_context \<Rightarrow> nat list" where
  "slots_from context =
     map (\<lambda>offset. (uc_next_slot context + offset) mod arwill_user_task_capacity) [0..<arwill_user_task_capacity]"

definition find_reusable_task ::
    "('n, 'k, 'f) x86_64_user_context \<Rightarrow> nat option \<times> ('n, 'k, 'f) x86_64_user_context" where
  "find_reusable_task context =
     (let found = (case find (\<lambda>i. tk_state (task_at context i) = Task_empty) (slots_from context) of
                     Some i \<Rightarrow> Some i
                   | None \<Rightarrow> find (\<lambda>i. tk_state (task_at context i) = Task_finished \<or>
                               tk_state (task_at context i) = Task_faulted) (slots_from context))
      in case found of
           None \<Rightarrow> (None, context)
         | Some i \<Rightarrow> (Some i, context\<lparr>uc_next_slot := (i + 1) mod arwill_user_task_capacity\<rparr>))"

definition allocate_pid :: "('n, 'k, 'f) x86_64_user_context \<Rightarrow> u32 \<times> ('n, 'k, 'f) x86_64_user_context" where
  "allocate_pid context =
     (let pid = uc_next_pid context; next_pid = pid + 1
      in (pid, context\<lparr>uc_next_pid := if next_pid < 1000 then 1000 else next_pid\<rparr>))"

definition prepare_task ::
    "('n, 'k, 'f) x86_64_user_context \<Rightarrow> nat \<Rightarrow> bytes \<Rightarrow> bytes \<Rightarrow> nat option \<Rightarrow>
     bool \<times> ('n, 'k, 'f) x86_64_user_context" where
  "prepare_task context i name argument console =
     (let context = reset_task_runtime (cleanup_task_network context i) i
      in case copy_name (tk_name (task_at context i)) 48 name of
           (ok, name_array) \<Rightarrow>
            (let context = with_task i (\<lambda>task. task\<lparr>tk_name := name_array\<rparr>) context
             in if \<not> ok then (False, context)
                else
                  (case copy_name (tk_argument (task_at context i)) 64 argument of
                     (ok, argument_array) \<Rightarrow>
                      (let context = with_task i (\<lambda>task. task\<lparr>tk_argument := argument_array\<rparr>) context
                       in if \<not> ok then (False, context)
                          else
                            (case allocate_pid context of
                               (pid, context) \<Rightarrow>
                                 (True, with_task i (\<lambda>task. task\<lparr>
                                    tk_argument_length := tk_argument_length task +
                                      length (c_string (drop (tk_argument_length task) (tk_argument task))),
                                    tk_pid := pid, tk_console := console, tk_state := Task_ready,
                                    tk_status := ''ready''\<rparr>) (context\<lparr>uc_runs := uc_runs context + 1\<rparr>)))))))"

section \<open>Memory of a program\<close>

definition range_in_region :: "u64 \<Rightarrow> u64 \<Rightarrow> u64 \<Rightarrow> u64 \<Rightarrow> bool" where
  "range_in_region start len base size_bytes \<longleftrightarrow>
     len = 0 \<or> (start \<ge> base \<and> len \<le> size_bytes \<and> start - base \<le> size_bytes - len)"

definition user_range_readable :: "u64 \<Rightarrow> u64 \<Rightarrow> bool" where
  "user_range_readable start len \<longleftrightarrow>
     range_in_region start len user_code_virtual (of_nat user_code_page_count * 4096) \<or>
     range_in_region start len user_stack_virtual (of_nat user_stack_page_count * 4096)"

definition user_range_writable :: "u64 \<Rightarrow> u64 \<Rightarrow> bool" where
  "user_range_writable start len \<longleftrightarrow>
     range_in_region start len user_stack_virtual (of_nat user_stack_page_count * 4096)"

definition task_writable_pointer :: "x86_64_user_task \<Rightarrow> u64 \<Rightarrow> u64 option" where
  "task_writable_pointer task address =
     (if \<not> user_range_writable address 1 then None
      else
        (let relative = address - user_stack_virtual
         in Some (as_stack_physical (tk_address_space task) ! unat (relative div 4096) + relative mod 4096)))"

text \<open>A read by the mapping of the task; \<open>None\<close> is a page fault in the kernel.\<close>

definition load_user :: "('n, 'k, 'f) x86_64_user_context \<Rightarrow> nat \<Rightarrow> u64 \<Rightarrow> u8 option" where
  "load_user context i address =
     map_option (\<lambda>t. uc_ram context (tr_address t))
       (translate (uc_ram context) (as_cr3 (tk_address_space (task_at context i))) address)"

definition load_bytes :: "('n, 'k, 'f) x86_64_user_context \<Rightarrow> nat \<Rightarrow> u64 \<Rightarrow> nat \<Rightarrow> bytes option" where
  "load_bytes context i address len = those (map (\<lambda>k. load_user context i (address + of_nat k)) [0..<len])"

fun copy_path_from :: "(u64 \<Rightarrow> u8 option) \<Rightarrow> u64 \<Rightarrow> nat \<Rightarrow> nat \<Rightarrow> bytes \<Rightarrow> (bool \<times> bytes) option" where
  "copy_path_from load address index 0 buffer = Some (True, buffer[index := 0])"
| "copy_path_from load address index (Suc n) buffer =
     (case load (address + of_nat index) of
        None \<Rightarrow> None
      | Some b \<Rightarrow>
          if b = 0 \<or> b = 0x0A \<or> b = 0x0D then Some (False, buffer)
          else copy_path_from load address (index + 1) n (buffer[index := b]))"

definition copy_user_path ::
    "('n, 'k, 'f) x86_64_user_context \<Rightarrow> nat \<Rightarrow> u64 \<Rightarrow> u64 \<Rightarrow>
     (bool \<times> ('n, 'k, 'f) x86_64_user_context) option" where
  "copy_user_path context i user_pointer len =
     (if len = 0 \<or> len > user_path_limit \<or> \<not> user_range_readable user_pointer len then Some (False, context)
      else
        (case copy_path_from (load_user context i) user_pointer 0 (unat len) (uc_path_buffer context) of
           None \<Rightarrow> None
         | Some (ok, buffer) \<Rightarrow> Some (ok, context\<lparr>uc_path_buffer := buffer\<rparr>)))"

fun copy_bytes_from :: "x86_64_user_task \<Rightarrow> u64 \<Rightarrow> nat \<Rightarrow> bytes \<Rightarrow> ram \<Rightarrow> bool \<times> ram" where
  "copy_bytes_from task user_pointer index [] m = (True, m)"
| "copy_bytes_from task user_pointer index (b # source) m =
     (case task_writable_pointer task (user_pointer + of_nat index) of
        None \<Rightarrow> (False, m)
      | Some destination \<Rightarrow> copy_bytes_from task user_pointer (index + 1) source (m(destination := b)))"

definition copy_to_task ::
    "('n, 'k, 'f) x86_64_user_context \<Rightarrow> nat \<Rightarrow> u64 \<Rightarrow> bytes \<Rightarrow> nat \<Rightarrow>
     bool \<times> ('n, 'k, 'f) x86_64_user_context" where
  "copy_to_task context i user_pointer source len =
     (if \<not> user_range_writable user_pointer (of_nat len) then (False, context)
      else
        (case copy_bytes_from (task_at context i) user_pointer 0 (take len source) (uc_ram context) of
           (ok, m) \<Rightarrow> (ok, context\<lparr>uc_ram := m\<rparr>)))"

definition copy_active_context ::
    "arwill_x86_64_user_registers \<Rightarrow> arwill_x86_64_user_frame \<Rightarrow> x86_64_user_task \<Rightarrow> x86_64_user_task" where
  "copy_active_context registers frame task =
     task\<lparr>tk_saved := (tk_saved task)\<lparr>sv_registers := registers, sv_frame := frame\<rparr>\<rparr>"

text \<open>Each chunk is a C string of the console.\<close>

function write_user_bytes :: "'k arwill_console option \<Rightarrow> bytes \<Rightarrow> 'k arwill_console option" where
  "write_user_bytes console bs =
     (if bs = [] then console
      else write_user_bytes (arwill_console_write console (Some (take 128 bs))) (drop 128 bs))"
  by pat_completeness auto
termination by (relation "measure (\<lambda>(console, bs). length bs)") auto

declare write_user_bytes.simps [simp del]

section \<open>Input\<close>

fun read_pending_from :: "nat \<Rightarrow> nat list \<Rightarrow> ('n, 'k, 'f) x86_64_user_context \<Rightarrow> bool \<times> ('n, 'k, 'f) x86_64_user_context" where
  "read_pending_from i [] context = (True, context)"
| "read_pending_from i (index # rest) context =
     (let task = task_at context i
      in case task_writable_pointer task (tk_pending_read_pointer task + of_nat index) of
           None \<Rightarrow>
             (False, with_task i (\<lambda>task. task\<lparr>tk_state := Task_faulted, tk_exit_code := bad_syscall_exit_code,
                tk_fault_vector := 0, tk_status := ''bad user pointer''\<rparr>) (cleanup_task_network context i))
         | Some destination \<Rightarrow>
             read_pending_from i rest
               (with_task i (\<lambda>task. task\<lparr>tk_input_head := (tk_input_head task + 1) mod user_input_capacity,
                  tk_input_count := tk_input_count task - 1\<rparr>)
                 (context\<lparr>uc_ram := (uc_ram context)(destination := tk_input task ! tk_input_head task)\<rparr>)))"

definition complete_pending_read ::
    "('n, 'k, 'f) x86_64_user_context \<Rightarrow> nat \<Rightarrow> nat \<times> ('n, 'k, 'f) x86_64_user_context" where
  "complete_pending_read context i =
     (let task = task_at context i;
          count = (if of_nat (tk_input_count task) > tk_pending_read_length task
                   then unat (tk_pending_read_length task) else tk_input_count task)
      in case read_pending_from i [0..<count] context of
           (False, context) \<Rightarrow> (0, context)
         | (True, context) \<Rightarrow>
            (let context = with_task i (\<lambda>task. task\<lparr>tk_saved := (tk_saved task)\<lparr>sv_registers :=
                    (sv_registers (tk_saved task))\<lparr>rg_rax := of_nat count\<rparr>\<rparr>,
                   tk_pending_read_pointer := 0, tk_pending_read_length := 0\<rparr>) context
             in (count,
                 if tk_state (task_at context i) = Task_blocked_input
                 then with_task i (\<lambda>task. task\<lparr>tk_state := Task_ready, tk_status := ''ready''\<rparr>) context
                 else context)))"

end
