(* ===== verification/User_Syscall.thy ===== *)
theory User_Syscall
  imports User_Mode
begin

text \<open>
  \<open>arch/x86_64/cpu/user_mode.c\<close>, third part: the system call handler, one definition for every
  call, the timer and fault handlers, and the operations of \<open>struct arwill_user_runtime\<close>. A
  handler says whether to leave the program (the scheduler goes on) and gives the registers the
  program continues with. The registers and the frame lie on the interrupt stack.
\<close>

section \<open>Ends of a call\<close>

definition return_network_result ::
    "nat \<Rightarrow> arwill_x86_64_user_registers \<Rightarrow> arwill_x86_64_user_frame \<Rightarrow> int \<Rightarrow>
     ('n, 'k, 'f) x86_64_user_context \<Rightarrow> ('n, 'k, 'f) handled" where
  "return_network_result i registers frame result context =
     (let registers = registers\<lparr>rg_rax := of_int result\<rparr>
      in if result \<noteq> arwill_awp_network_retry then Some (False, registers, context)
         else Some (True, registers,
           (with_task i (\<lambda>task. (copy_active_context registers frame task)
              \<lparr>tk_state := Task_ready, tk_status := ''network retry''\<rparr>) context)\<lparr>uc_active_task := None\<rparr>))"

definition return_value ::
    "arwill_x86_64_user_registers \<Rightarrow> u64 \<Rightarrow> ('n, 'k, 'f) x86_64_user_context \<Rightarrow> ('n, 'k, 'f) handled" where
  "return_value registers v context = Some (False, registers\<lparr>rg_rax := v\<rparr>, context)"

text \<open>A task that passes a bad pointer to \<open>write\<close> or \<open>read\<close> is stopped.\<close>

definition bad_user_pointer ::
    "nat \<Rightarrow> arwill_x86_64_user_registers \<Rightarrow> arwill_x86_64_user_frame \<Rightarrow> ('n, 'k, 'f) x86_64_user_context \<Rightarrow>
     ('n, 'k, 'f) handled" where
  "bad_user_pointer i registers frame context =
     (let context = cleanup_task_network (with_task i (copy_active_context registers frame) context) i;
          context = with_task i (\<lambda>task. task\<lparr>tk_state := Task_faulted, tk_exit_code := bad_syscall_exit_code,
            tk_status := ''bad user pointer''\<rparr>) context
      in Some (True, registers, context\<lparr>uc_faults := uc_faults context + 1, uc_active_task := None\<rparr>))"

section \<open>Console, exit, clock\<close>

definition sys_write ::
    "nat \<Rightarrow> arwill_x86_64_user_registers \<Rightarrow> arwill_x86_64_user_frame \<Rightarrow> ('n, 'k, 'f) x86_64_user_context \<Rightarrow>
     ('n, 'k, 'f) handled" where
  "sys_write i registers frame context =
     (let len = (if rg_rsi registers > user_write_limit then user_write_limit else rg_rsi registers)
      in case tk_console (task_at context i) of
           None \<Rightarrow> bad_user_pointer i registers frame context
         | Some c \<Rightarrow>
             if \<not> user_range_readable (rg_rdi registers) len then bad_user_pointer i registers frame context
             else
               (case load_bytes context i (rg_rdi registers) (unat len) of
                  None \<Rightarrow> None
                | Some bs \<Rightarrow>
                   (let console = the (write_user_bytes (Some (uc_consoles context ! c)) bs);
                        context = with_task i (\<lambda>task. task\<lparr>tk_bytes_written := tk_bytes_written task + len\<rparr>) context
                    in return_value registers len
                         (context\<lparr>uc_consoles := (uc_consoles context)[c := console],
                            uc_bytes_written := uc_bytes_written context + len\<rparr>))))"

definition sys_exit ::
    "nat \<Rightarrow> arwill_x86_64_user_registers \<Rightarrow> arwill_x86_64_user_frame \<Rightarrow> ('n, 'k, 'f) x86_64_user_context \<Rightarrow>
     ('n, 'k, 'f) handled" where
  "sys_exit i registers frame context =
     (let context = cleanup_task_network (with_task i (copy_active_context registers frame) context) i;
          context = with_task i (\<lambda>task. task\<lparr>tk_exit_code := ucast (rg_rdi registers AND 0xffffffff),
            tk_state := Task_finished, tk_status := ''exited''\<rparr>) context
      in Some (True, registers, context\<lparr>uc_active_task := None\<rparr>))"

definition sys_read ::
    "nat \<Rightarrow> arwill_x86_64_user_registers \<Rightarrow> arwill_x86_64_user_frame \<Rightarrow> ('n, 'k, 'f) x86_64_user_context \<Rightarrow>
     ('n, 'k, 'f) handled" where
  "sys_read i registers frame context =
     (let len = (if rg_rsi registers > user_write_limit then user_write_limit else rg_rsi registers)
      in if \<not> user_range_writable (rg_rdi registers) len then bad_user_pointer i registers frame context
         else if len = 0 then return_value registers 0 context
         else if tk_input_count (task_at context i) \<noteq> 0 then
           (case complete_pending_read
                   (with_task i (\<lambda>task. task\<lparr>tk_pending_read_pointer := rg_rdi registers,
                      tk_pending_read_length := len\<rparr>) context) i of
              (count, context) \<Rightarrow> return_value registers (of_nat count) context)
         else Some (True, registers,
           (with_task i (\<lambda>task. (copy_active_context registers frame task)
              \<lparr>tk_pending_read_pointer := rg_rdi registers, tk_pending_read_length := len,
               tk_state := Task_blocked_input, tk_status := ''waiting for input''\<rparr>) context)
           \<lparr>uc_active_task := None\<rparr>))"

definition sys_clock ::
    "arwill_x86_64_user_registers \<Rightarrow> ('n, 'k, 'f) x86_64_user_context \<Rightarrow> ('n, 'k, 'f) handled" where
  "sys_clock registers context =
     (case arwill_clock_monotonic_milliseconds (uc_clock context) of
        (now, clock) \<Rightarrow> return_value registers now (context\<lparr>uc_clock := clock\<rparr>))"

section \<open>Files and arguments\<close>

text \<open>The file record the handler has on its stack before the file system fills it.\<close>

definition no_file :: arwill_fs_file where
  "no_file = \<lparr>fsf_type = File_text, fsf_contents = None, fsf_size_bytes = 0\<rparr>"

definition sys_read_file ::
    "nat \<Rightarrow> arwill_x86_64_user_registers \<Rightarrow> ('n, 'k, 'f) x86_64_user_context \<Rightarrow> ('n, 'k, 'f) handled" where
  "sys_read_file i registers context =
     (let capacity = (if rg_rcx registers > user_file_limit then user_file_limit else rg_rcx registers)
      in if uc_filesystem context = None then return_value registers UINT64_MAX context
         else
           (case copy_user_path context i (rg_rdi registers) (rg_rsi registers) of
              None \<Rightarrow> None
            | Some (ok, context) \<Rightarrow>
                if \<not> ok \<or> \<not> user_range_writable (rg_rdx registers) capacity
                then return_value registers UINT64_MAX context
                else
                  (case arwill_filesystem_read_file (uc_filesystem context)
                          (Some (c_string (uc_path_buffer context))) no_file of
                     (ok, file, filesystem) \<Rightarrow>
                      (let context = context\<lparr>uc_filesystem := filesystem\<rparr>
                       in case fsf_contents file of
                            None \<Rightarrow> return_value registers UINT64_MAX context
                          | Some contents \<Rightarrow>
                              if \<not> ok \<or> fsf_type file \<noteq> File_text \<or> fsf_size_bytes file > capacity \<or>
                                 fsf_size_bytes file > user_file_limit
                              then return_value registers UINT64_MAX context
                              else
                                (case copy_to_task context i (rg_rdx registers) contents
                                        (unat (fsf_size_bytes file)) of
                                   (ok, context) \<Rightarrow>
                                     return_value registers (if ok then fsf_size_bytes file else UINT64_MAX) context)))))"

definition sys_write_file ::
    "nat \<Rightarrow> arwill_x86_64_user_registers \<Rightarrow> ('n, 'k, 'f) x86_64_user_context \<Rightarrow> ('n, 'k, 'f) handled" where
  "sys_write_file i registers context =
     (let len = rg_rcx registers
      in if uc_filesystem context = None \<or> len > user_file_limit then return_value registers UINT64_MAX context
         else
           (case copy_user_path context i (rg_rdi registers) (rg_rsi registers) of
              None \<Rightarrow> None
            | Some (ok, context) \<Rightarrow>
                if \<not> ok \<or> \<not> user_range_readable (rg_rdx registers) len
                then return_value registers UINT64_MAX context
                else
                  (case load_bytes context i (rg_rdx registers) (unat len) of
                     None \<Rightarrow> None
                   | Some bs \<Rightarrow>
                      (let buffer = splice_at (uc_filesystem_buffer context) 0 bs
                       in case arwill_filesystem_write_bytes (uc_filesystem context)
                                 (Some (c_string (uc_path_buffer context))) File_text (Some buffer) (unat len) of
                            (ok, filesystem) \<Rightarrow>
                             (let context = context\<lparr>uc_filesystem_buffer := buffer, uc_filesystem := filesystem\<rparr>
                              in if \<not> ok then return_value registers UINT64_MAX context
                                 else return_value registers len
                                   (context\<lparr>uc_log := arwill_event_log_record (uc_log context) Log_info
                                      Log_filesystem Log_file_written (ucast (tk_pid (task_at context i))) len\<rparr>))))))"

definition sys_argument ::
    "nat \<Rightarrow> arwill_x86_64_user_registers \<Rightarrow> ('n, 'k, 'f) x86_64_user_context \<Rightarrow> ('n, 'k, 'f) handled" where
  "sys_argument i registers context =
     (let task = task_at context i
      in if rg_rsi registers < of_nat (tk_argument_length task) then return_value registers UINT64_MAX context
         else
           (case copy_to_task context i (rg_rdi registers) (tk_argument task) (tk_argument_length task) of
              (ok, context) \<Rightarrow>
                return_value registers (if ok then of_nat (tk_argument_length task) else UINT64_MAX) context))"

section \<open>The network\<close>

text \<open>The owner of a task and the stack after a call on them.\<close>

definition with_network ::
    "nat \<Rightarrow> ('n, 'k) arwill_ipv4_stack option \<Rightarrow> arwill_awp_network_owner \<Rightarrow>
     ('n, 'k, 'f) x86_64_user_context \<Rightarrow> ('n, 'k, 'f) x86_64_user_context" where
  "with_network i stack owner context =
     with_task i (\<lambda>task. task\<lparr>tk_network := owner\<rparr>) (context\<lparr>uc_ipv4 := stack\<rparr>)"

definition network_of :: "('n, 'k, 'f) x86_64_user_context \<Rightarrow> nat \<Rightarrow> arwill_awp_network_owner" where
  "network_of context i = tk_network (task_at context i)"

definition sys_net_open ::
    "nat \<Rightarrow> arwill_x86_64_user_registers \<Rightarrow> ('n, 'k, 'f) x86_64_user_context \<Rightarrow> ('n, 'k, 'f) handled" where
  "sys_net_open i registers context =
     (case arwill_awp_network_open (uc_ipv4 context) (network_of context i) of
        (result, stack, owner) \<Rightarrow> return_value registers (of_int result) (with_network i stack owner context))"

definition sys_net_bind ::
    "nat \<Rightarrow> arwill_x86_64_user_registers \<Rightarrow> ('n, 'k, 'f) x86_64_user_context \<Rightarrow> ('n, 'k, 'f) handled" where
  "sys_net_bind i registers context =
     (case arwill_awp_network_bind (uc_ipv4 context) (network_of context i) (rg_rdi registers) (rg_rsi registers) of
        (result, stack, owner) \<Rightarrow> return_value registers (of_int result) (with_network i stack owner context))"

definition sys_net_listen ::
    "nat \<Rightarrow> arwill_x86_64_user_registers \<Rightarrow> ('n, 'k, 'f) x86_64_user_context \<Rightarrow> ('n, 'k, 'f) handled" where
  "sys_net_listen i registers context =
     (case arwill_awp_network_listen (uc_ipv4 context) (network_of context i) (rg_rdi registers) of
        (result, stack, owner) \<Rightarrow> return_value registers (of_int result) (with_network i stack owner context))"

definition sys_net_connect ::
    "nat \<Rightarrow> arwill_x86_64_user_registers \<Rightarrow> arwill_x86_64_user_frame \<Rightarrow> ('n, 'k, 'f) x86_64_user_context \<Rightarrow>
     ('n, 'k, 'f) handled" where
  "sys_net_connect i registers frame context =
     (case arwill_awp_network_connect (uc_ipv4 context) (network_of context i) (rg_rdi registers)
             (ucast (rg_rsi registers)) (rg_rdx registers) of
        (result, stack, owner) \<Rightarrow>
          return_network_result i registers frame result (with_network i stack owner context))"

text \<open>Without a stack no handle has a stream, and a call that needs one is invalid.\<close>

definition sys_net_accept ::
    "nat \<Rightarrow> arwill_x86_64_user_registers \<Rightarrow> arwill_x86_64_user_frame \<Rightarrow> ('n, 'k, 'f) x86_64_user_context \<Rightarrow>
     ('n, 'k, 'f) handled" where
  "sys_net_accept i registers frame context =
     return_network_result i registers frame
       (case uc_ipv4 context of
          None \<Rightarrow> arwill_awp_network_invalid
        | Some s \<Rightarrow> arwill_awp_network_accept s (network_of context i) (rg_rdi registers)) context"

definition copy_received ::
    "nat \<Rightarrow> arwill_x86_64_user_registers \<Rightarrow> arwill_x86_64_user_frame \<Rightarrow> u64 \<Rightarrow> int \<Rightarrow>
     ('n, 'k, 'f) x86_64_user_context \<Rightarrow> ('n, 'k, 'f) handled" where
  "copy_received i registers frame user_pointer result context =
     (if result > 0 then
        (case copy_to_task context i user_pointer (uc_filesystem_buffer context) (nat result) of
           (ok, context) \<Rightarrow>
             if \<not> ok then return_value registers (of_int arwill_awp_network_invalid) context
             else return_network_result i registers frame result context)
      else return_network_result i registers frame result context)"

definition sys_net_read ::
    "nat \<Rightarrow> arwill_x86_64_user_registers \<Rightarrow> arwill_x86_64_user_frame \<Rightarrow> ('n, 'k, 'f) x86_64_user_context \<Rightarrow>
     ('n, 'k, 'f) handled" where
  "sys_net_read i registers frame context =
     (let capacity = rg_rdx registers
      in if capacity = 0 \<or> capacity > of_nat arwill_awp_network_io_capacity \<or>
            \<not> user_range_writable (rg_rsi registers) capacity
         then return_value registers (of_int arwill_awp_network_invalid) context
         else
           (case uc_ipv4 context of
              None \<Rightarrow> return_network_result i registers frame arwill_awp_network_invalid context
            | Some s \<Rightarrow>
               (case arwill_awp_network_read s (network_of context i) (rg_rdi registers)
                       (Some (uc_filesystem_buffer context)) (unat capacity) of
                  (result, buffer, s) \<Rightarrow>
                    copy_received i registers frame (rg_rsi registers) result
                      (context\<lparr>uc_ipv4 := Some s, uc_filesystem_buffer := the buffer\<rparr>))))"

definition sys_net_write ::
    "nat \<Rightarrow> arwill_x86_64_user_registers \<Rightarrow> arwill_x86_64_user_frame \<Rightarrow> ('n, 'k, 'f) x86_64_user_context \<Rightarrow>
     ('n, 'k, 'f) handled" where
  "sys_net_write i registers frame context =
     (let len = rg_rdx registers
      in if len = 0 \<or> len > of_nat arwill_awp_network_io_capacity \<or> \<not> user_range_readable (rg_rsi registers) len
         then return_value registers (of_int arwill_awp_network_invalid) context
         else
           (case (uc_ipv4 context, load_bytes context i (rg_rsi registers) (unat len)) of
              (None, _) \<Rightarrow> return_network_result i registers frame arwill_awp_network_invalid context
            | (Some s, None) \<Rightarrow> None
            | (Some s, Some bs) \<Rightarrow>
               (case arwill_awp_network_write s (network_of context i) (rg_rdi registers) (Some bs) (unat len) of
                  (result, s) \<Rightarrow> return_network_result i registers frame result (context\<lparr>uc_ipv4 := Some s\<rparr>))))"

definition sys_net_close ::
    "nat \<Rightarrow> arwill_x86_64_user_registers \<Rightarrow> arwill_x86_64_user_frame \<Rightarrow> ('n, 'k, 'f) x86_64_user_context \<Rightarrow>
     ('n, 'k, 'f) handled" where
  "sys_net_close i registers frame context =
     (case arwill_awp_network_close (uc_ipv4 context) (network_of context i) (rg_rdi registers) of
        (result, stack, owner) \<Rightarrow>
          return_network_result i registers frame result (with_network i stack owner context))"

definition sys_udp_open ::
    "nat \<Rightarrow> arwill_x86_64_user_registers \<Rightarrow> ('n, 'k, 'f) x86_64_user_context \<Rightarrow> ('n, 'k, 'f) handled" where
  "sys_udp_open i registers context =
     (case arwill_awp_udp_open (uc_ipv4 context) (network_of context i) of
        (result, stack, owner) \<Rightarrow> return_value registers (of_int result) (with_network i stack owner context))"

definition sys_udp_bind ::
    "nat \<Rightarrow> arwill_x86_64_user_registers \<Rightarrow> ('n, 'k, 'f) x86_64_user_context \<Rightarrow> ('n, 'k, 'f) handled" where
  "sys_udp_bind i registers context =
     (case arwill_awp_udp_bind (uc_ipv4 context) (network_of context i) (rg_rdi registers) of
        (result, stack, owner) \<Rightarrow> return_value registers (of_int result) (with_network i stack owner context))"

definition sys_udp_connect ::
    "nat \<Rightarrow> arwill_x86_64_user_registers \<Rightarrow> arwill_x86_64_user_frame \<Rightarrow> ('n, 'k, 'f) x86_64_user_context \<Rightarrow>
     ('n, 'k, 'f) handled" where
  "sys_udp_connect i registers frame context =
     (case arwill_awp_udp_connect (uc_ipv4 context) (network_of context i) (ucast (rg_rdi registers))
             (rg_rsi registers) of
        (result, stack, owner) \<Rightarrow>
          return_network_result i registers frame result (with_network i stack owner context))"

definition sys_udp_send ::
    "nat \<Rightarrow> arwill_x86_64_user_registers \<Rightarrow> arwill_x86_64_user_frame \<Rightarrow> ('n, 'k, 'f) x86_64_user_context \<Rightarrow>
     ('n, 'k, 'f) handled" where
  "sys_udp_send i registers frame context =
     (let len = rg_rsi registers
      in if len = 0 \<or> len > of_nat arwill_awp_network_io_capacity \<or> \<not> user_range_readable (rg_rdi registers) len
         then return_value registers (of_int arwill_awp_network_invalid) context
         else
           (case load_bytes context i (rg_rdi registers) (unat len) of
              None \<Rightarrow> None
            | Some bs \<Rightarrow>
               (case arwill_awp_udp_send (uc_ipv4 context) (network_of context i) (Some bs) (unat len) of
                  (result, stack) \<Rightarrow> return_network_result i registers frame result (context\<lparr>uc_ipv4 := stack\<rparr>))))"

definition sys_udp_receive ::
    "nat \<Rightarrow> arwill_x86_64_user_registers \<Rightarrow> arwill_x86_64_user_frame \<Rightarrow> ('n, 'k, 'f) x86_64_user_context \<Rightarrow>
     ('n, 'k, 'f) handled" where
  "sys_udp_receive i registers frame context =
     (let capacity = rg_rsi registers
      in if capacity = 0 \<or> capacity > of_nat arwill_awp_network_io_capacity \<or>
            \<not> user_range_writable (rg_rdi registers) capacity
         then return_value registers (of_int arwill_awp_network_invalid) context
         else
           (case arwill_awp_udp_receive (uc_ipv4 context) (network_of context i)
                   (Some (uc_filesystem_buffer context)) (unat capacity) of
              (result, buffer, stack) \<Rightarrow>
                copy_received i registers frame (rg_rdi registers) result
                  (context\<lparr>uc_ipv4 := stack, uc_filesystem_buffer := the buffer\<rparr>)))"

definition sys_udp_close ::
    "nat \<Rightarrow> arwill_x86_64_user_registers \<Rightarrow> ('n, 'k, 'f) x86_64_user_context \<Rightarrow> ('n, 'k, 'f) handled" where
  "sys_udp_close i registers context =
     (case arwill_awp_udp_close (uc_ipv4 context) (network_of context i) of
        (result, stack, owner) \<Rightarrow> return_value registers (of_int result) (with_network i stack owner context))"

section \<open>Random bytes, the date, and unknown calls\<close>

definition sys_random_fill ::
    "nat \<Rightarrow> arwill_x86_64_user_registers \<Rightarrow> ('n, 'k, 'f) x86_64_user_context \<Rightarrow> ('n, 'k, 'f) handled" where
  "sys_random_fill i registers context =
     (let len = (if rg_rsi registers > user_write_limit then user_write_limit else rg_rsi registers)
      in if len = 0 \<or> \<not> user_range_writable (rg_rdi registers) len then return_value registers UINT64_MAX context
         else
           (case arwill_entropy_fill (uc_entropy context) (Some (uc_filesystem_buffer context)) (unat len) of
              (ok, buffer, entropy) \<Rightarrow>
               (let context = context\<lparr>uc_entropy := entropy, uc_filesystem_buffer := the buffer\<rparr>
                in if \<not> ok then return_value registers UINT64_MAX context
                   else
                     (case copy_to_task context i (rg_rdi registers) (uc_filesystem_buffer context) (unat len) of
                        (ok, context) \<Rightarrow> return_value registers (if ok then len else UINT64_MAX) context))))"

definition sys_realtime ::
    "arwill_x86_64_user_registers \<Rightarrow> ('n, 'k, 'f) x86_64_user_context \<Rightarrow> ('n, 'k, 'f) handled" where
  "sys_realtime registers context =
     (case arwill_realtime_unix_seconds (uc_realtime context) (Some 0) of
        (ok, seconds, realtime) \<Rightarrow>
          return_value registers (if ok then the seconds else UINT64_MAX) (context\<lparr>uc_realtime := realtime\<rparr>))"

definition bad_syscall ::
    "nat \<Rightarrow> arwill_x86_64_user_registers \<Rightarrow> arwill_x86_64_user_frame \<Rightarrow> ('n, 'k, 'f) x86_64_user_context \<Rightarrow>
     ('n, 'k, 'f) handled" where
  "bad_syscall i registers frame context =
     (let context = context\<lparr>uc_bad_syscalls := uc_bad_syscalls context + 1\<rparr>;
          context = cleanup_task_network (with_task i (copy_active_context registers frame) context) i;
          context = with_task i (\<lambda>task. task\<lparr>tk_exit_code := bad_syscall_exit_code, tk_state := Task_finished,
            tk_status := ''bad syscall''\<rparr>) context
      in Some (True, registers, context\<lparr>uc_active_task := None\<rparr>))"

section \<open>The handlers\<close>

definition syscall_of ::
    "nat \<Rightarrow> arwill_x86_64_user_registers \<Rightarrow> arwill_x86_64_user_frame \<Rightarrow> ('n, 'k, 'f) x86_64_user_context \<Rightarrow>
     ('n, 'k, 'f) handled" where
  "syscall_of i registers frame context =
     (let rax = rg_rax registers
      in if rax = syscall_write then sys_write i registers frame context
         else if rax = syscall_exit then sys_exit i registers frame context
         else if rax = syscall_read then sys_read i registers frame context
         else if rax = syscall_clock then sys_clock registers context
         else if rax = syscall_read_file then sys_read_file i registers context
         else if rax = syscall_write_file then sys_write_file i registers context
         else if rax = syscall_argument then sys_argument i registers context
         else if rax = syscall_net_open then sys_net_open i registers context
         else if rax = syscall_net_bind then sys_net_bind i registers context
         else if rax = syscall_net_listen then sys_net_listen i registers context
         else if rax = syscall_net_connect then sys_net_connect i registers frame context
         else if rax = syscall_net_accept then sys_net_accept i registers frame context
         else if rax = syscall_net_read then sys_net_read i registers frame context
         else if rax = syscall_net_write then sys_net_write i registers frame context
         else if rax = syscall_net_close then sys_net_close i registers frame context
         else if rax = syscall_udp_open then sys_udp_open i registers context
         else if rax = syscall_udp_bind then sys_udp_bind i registers context
         else if rax = syscall_udp_connect then sys_udp_connect i registers frame context
         else if rax = syscall_udp_send then sys_udp_send i registers frame context
         else if rax = syscall_udp_receive then sys_udp_receive i registers frame context
         else if rax = syscall_udp_close then sys_udp_close i registers context
         else if rax = syscall_random_fill then sys_random_fill i registers context
         else if rax = syscall_realtime then sys_realtime registers context
         else bad_syscall i registers frame context)"

definition arwill_x86_64_user_handle_syscall ::
    "arwill_x86_64_user_registers \<Rightarrow> arwill_x86_64_user_frame \<Rightarrow> ('n, 'k, 'f) x86_64_user_context \<Rightarrow>
     ('n, 'k, 'f) handled" where
  "arwill_x86_64_user_handle_syscall registers frame context =
     (case uc_active_task context of
        None \<Rightarrow> Some (False, registers, context)
      | Some i \<Rightarrow>
          syscall_of i registers frame
            ((with_task i (\<lambda>task. task\<lparr>tk_syscall_count := tk_syscall_count task + 1\<rparr>) context)
             \<lparr>uc_syscall_count := uc_syscall_count context + 1\<rparr>))"

definition arwill_x86_64_user_handle_timer ::
    "arwill_x86_64_user_registers \<Rightarrow> arwill_x86_64_user_frame \<Rightarrow> ('n, 'k, 'f) x86_64_user_context \<Rightarrow>
     bool \<times> ('n, 'k, 'f) x86_64_user_context" where
  "arwill_x86_64_user_handle_timer registers frame context =
     (case uc_active_task context of
        None \<Rightarrow> (False, context)
      | Some i \<Rightarrow>
          if fr_code_segment frame AND 3 \<noteq> 3 then (False, context)
          else
            (let context = context\<lparr>uc_active_slice_ticks := uc_active_slice_ticks context + 1\<rparr>
             in if uc_active_slice_ticks context < user_quantum_ticks then (False, context)
                else (True,
                  (with_task i (\<lambda>task. (copy_active_context registers frame task)
                     \<lparr>tk_state := Task_ready, tk_status := ''ready''\<rparr>) context)
                  \<lparr>uc_preemptions := uc_preemptions context + 1, uc_active_task := None\<rparr>)))"

definition arwill_x86_64_user_handle_fault ::
    "arwill_x86_64_user_registers \<Rightarrow> arwill_x86_64_user_frame \<Rightarrow> u8 \<Rightarrow> ('n, 'k, 'f) x86_64_user_context \<Rightarrow>
     bool \<times> ('n, 'k, 'f) x86_64_user_context" where
  "arwill_x86_64_user_handle_fault registers frame vector context =
     (case uc_active_task context of
        None \<Rightarrow> (False, context)
      | Some i \<Rightarrow>
          if fr_code_segment frame AND 3 \<noteq> 3 then (False, context)
          else
            (let context = cleanup_task_network (with_task i (copy_active_context registers frame) context) i;
                 context = with_task i (\<lambda>task. task\<lparr>tk_state := Task_faulted, tk_fault_vector := vector,
                   tk_exit_code := 128 + ucast vector, tk_status := ''user fault''\<rparr>) context
             in (True, context\<lparr>uc_faults := uc_faults context + 1, uc_active_task := None\<rparr>)))"

section \<open>The runtime\<close>

definition find_task :: "('n, 'k, 'f) x86_64_user_context \<Rightarrow> u32 \<Rightarrow> nat option" where
  "find_task context pid =
     find (\<lambda>i. tk_state (task_at context i) \<noteq> Task_empty \<and> tk_pid (task_at context i) = pid)
       [0..<arwill_user_task_capacity]"

text \<open>The choice of \<open>x86_64_user_poll\<close>: the task it resumes, and the state in which it does.\<close>

definition poll_select ::
    "('n, 'k, 'f) x86_64_user_context \<Rightarrow> (nat \<times> ('n, 'k, 'f) x86_64_user_context) option" where
  "poll_select context =
     (if \<not> uc_available context \<or> uc_active_task context \<noteq> None then None
      else
        (case find (\<lambda>i. tk_state (task_at context i) = Task_ready) (slots_from context) of
           None \<Rightarrow> None
         | Some i \<Rightarrow>
             Some (i, with_task i (\<lambda>task. task\<lparr>tk_state := Task_running, tk_status := ''running'',
                      tk_run_count := tk_run_count task + 1\<rparr>)
               (context\<lparr>uc_next_slot := (i + 1) mod arwill_user_task_capacity, uc_active_task := Some i,
                  uc_active_slice_ticks := 0\<rparr>))))"

text \<open>
  \<open>resume\<close> stands for \<open>arwill_x86_64_user_resume\<close>: the program runs in ring 3, and its calls,
  ticks and faults are handled, until a handler leaves it. It may never return.
\<close>

definition x86_64_user_poll ::
    "(('n, 'k, 'f) x86_64_user_context \<Rightarrow> ('n, 'k, 'f) x86_64_user_context option) \<Rightarrow>
     ('n, 'k, 'f) x86_64_user_context \<Rightarrow> ('n, 'k, 'f) x86_64_user_context option" where
  "x86_64_user_poll resume context =
     (case poll_select context of
        None \<Rightarrow> Some context
      | Some (i, context) \<Rightarrow> map_option (\<lambda>context. context\<lparr>uc_active_task := None\<rparr>) (resume context))"

record arwill_user_program_result =
  pr_started :: bool
  pr_exited :: bool
  pr_exit_code :: u32
  pr_syscall_count :: u64
  pr_bytes_written :: u64
  pr_status :: string

definition fill_program_result :: "x86_64_user_task \<Rightarrow> arwill_user_program_result" where
  "fill_program_result task =
     \<lparr>pr_started = True, pr_exited = (tk_state task = Task_finished \<or> tk_state task = Task_faulted),
      pr_exit_code = tk_exit_code task, pr_syscall_count = tk_syscall_count task,
      pr_bytes_written = tk_bytes_written task, pr_status = tk_status task\<rparr>"

partial_function (option) run_until_stable ::
    "(('n, 'k, 'f) x86_64_user_context \<Rightarrow> ('n, 'k, 'f) x86_64_user_context option) \<Rightarrow> nat \<Rightarrow>
     ('n, 'k, 'f) x86_64_user_context \<Rightarrow> ('n, 'k, 'f) x86_64_user_context option" where
  "run_until_stable resume i context =
     (if tk_state (task_at context i) = Task_ready \<or> tk_state (task_at context i) = Task_running
      then (case x86_64_user_poll resume context of
              None \<Rightarrow> None
            | Some context \<Rightarrow> run_until_stable resume i context)
      else Some context)"

definition arwill_user_program_name :: "arwill_user_program \<Rightarrow> bytes" where
  "arwill_user_program_name program =
     (case program of User_program_hello \<Rightarrow> bytes_of ''userhello'' | User_program_bad_syscall \<Rightarrow> bytes_of ''userbad'')"

text \<open>The part of \<open>x86_64_user_run\<close> before the program runs: the task it gets.\<close>

definition start_program ::
    "('n, 'k, 'f) x86_64_user_context \<Rightarrow> arwill_user_program \<Rightarrow> nat option \<Rightarrow>
     nat option \<times> ('n, 'k, 'f) x86_64_user_context" where
  "start_program context program console =
     (if \<not> uc_available context \<or> console = None then (None, context)
      else
        (case find_reusable_task context of
           (None, context) \<Rightarrow> (None, context)
         | (Some i, context) \<Rightarrow>
            (case prepare_task context i (arwill_user_program_name program) [] console of
               (ok, context) \<Rightarrow>
                 if \<not> ok then (None, context)
                 else
                   (case build_builtin_program context i program of
                      (ok, context) \<Rightarrow> (if ok then Some i else None, context)))))"

definition x86_64_user_run ::
    "(('n, 'k, 'f) x86_64_user_context \<Rightarrow> ('n, 'k, 'f) x86_64_user_context option) \<Rightarrow>
     ('n, 'k, 'f) x86_64_user_context \<Rightarrow> arwill_user_program \<Rightarrow> nat option \<Rightarrow>
     (arwill_user_program_result option \<times> ('n, 'k, 'f) x86_64_user_context) option" where
  "x86_64_user_run resume context program console =
     (case start_program context program console of
        (None, context) \<Rightarrow> Some (None, context)
      | (Some i, context) \<Rightarrow>
          map_option (\<lambda>context. (Some (fill_program_result (task_at context i)),
            with_task i (\<lambda>task. task\<lparr>tk_state := Task_empty\<rparr>) context))
            (run_until_stable resume i context))"

definition x86_64_user_spawn_image ::
    "('n, 'k, 'f) x86_64_user_context \<Rightarrow> bytes option \<Rightarrow> u64 \<Rightarrow> bytes option \<Rightarrow> bytes option \<Rightarrow> nat option \<Rightarrow>
     u32 option \<times> ('n, 'k, 'f) x86_64_user_context" where
  "x86_64_user_spawn_image context image_bytes image_size name argument console =
     (case (image_bytes, name, argument, console) of
        (Some image_bytes, Some name, Some argument, Some _) \<Rightarrow>
          if \<not> uc_available context then (None, context)
          else
            (case find_reusable_task context of
               (None, context) \<Rightarrow> (None, context)
             | (Some i, context) \<Rightarrow>
                (case prepare_task context i name argument console of
                   (ok, context) \<Rightarrow>
                    (let abandon = with_task i (\<lambda>task. task\<lparr>tk_state := Task_empty\<rparr>)
                     in if \<not> ok then (None, abandon context)
                        else
                          (case copy_image_to_task context i image_bytes image_size of
                             (ok, context) \<Rightarrow>
                               if \<not> ok then (None, abandon context)
                               else (Some (tk_pid (task_at context i)), context)))))
      | _ \<Rightarrow> (None, context))"

definition x86_64_user_deliver_input ::
    "('n, 'k, 'f) x86_64_user_context \<Rightarrow> u32 \<Rightarrow> u8 \<Rightarrow> bool \<times> ('n, 'k, 'f) x86_64_user_context" where
  "x86_64_user_deliver_input context pid byte =
     (case find_task context pid of
        None \<Rightarrow> (False, context)
      | Some i \<Rightarrow>
         (let task = task_at context i
          in if tk_state task \<noteq> Task_ready \<and> tk_state task \<noteq> Task_blocked_input then (False, context)
             else if tk_input_count task \<ge> user_input_capacity then (False, context)
             else
               (let tail = (tk_input_head task + tk_input_count task) mod user_input_capacity;
                    context = with_task i (\<lambda>task. task\<lparr>tk_input := (tk_input task)[tail := byte],
                      tk_input_count := tk_input_count task + 1\<rparr>) context
                in (True,
                    if tk_state task = Task_blocked_input then snd (complete_pending_read context i) else context))))"

definition x86_64_user_cancel ::
    "('n, 'k, 'f) x86_64_user_context \<Rightarrow> u32 \<Rightarrow> u32 \<Rightarrow> bool \<times> ('n, 'k, 'f) x86_64_user_context" where
  "x86_64_user_cancel context pid exit_code =
     (case find_task context pid of
        None \<Rightarrow> (False, context)
      | Some i \<Rightarrow>
          if uc_active_task context = Some i \<or> tk_state (task_at context i) = Task_finished \<or>
             tk_state (task_at context i) = Task_faulted
          then (False, context)
          else
            (let context = cleanup_task_network (with_task i (\<lambda>task. task\<lparr>tk_state := Task_finished\<rparr>) context) i
             in (True, with_task i (\<lambda>task. task\<lparr>tk_exit_code := if exit_code = 0 then canceled_exit_code else exit_code,
                  tk_status := ''canceled''\<rparr>) context)))"

record arwill_user_task_info =
  ti_pid :: u32
  ti_name :: bytes
  ti_state :: arwill_user_task_state
  ti_exit_code :: u32
  ti_fault_vector :: u8
  ti_run_count :: u64

definition copy_task_info :: "x86_64_user_task \<Rightarrow> arwill_user_task_info" where
  "copy_task_info task =
     \<lparr>ti_pid = tk_pid task, ti_name = c_string (tk_name task), ti_state = tk_state task,
      ti_exit_code = tk_exit_code task, ti_fault_vector = tk_fault_vector task, ti_run_count = tk_run_count task\<rparr>"

definition x86_64_user_task_info ::
    "('n, 'k, 'f) x86_64_user_context \<Rightarrow> u32 \<Rightarrow> arwill_user_task_info option" where
  "x86_64_user_task_info context pid = map_option (\<lambda>i. copy_task_info (task_at context i)) (find_task context pid)"

definition x86_64_user_tasks :: "('n, 'k, 'f) x86_64_user_context \<Rightarrow> nat \<Rightarrow> arwill_user_task_info list" where
  "x86_64_user_tasks context capacity =
     take capacity (map (\<lambda>i. copy_task_info (task_at context i))
       (filter (\<lambda>i. tk_state (task_at context i) \<noteq> Task_empty) [0..<arwill_user_task_capacity]))"

text \<open>The address spaces of \<open>arwill_x86_64_user_mode_init\<close>, made in the order of the table.\<close>

fun initialize_tasks ::
    "nat list \<Rightarrow> ('n, 'k, 'f) x86_64_user_context \<Rightarrow> arwill_memory \<Rightarrow> bool \<times> ('n, 'k, 'f) x86_64_user_context \<times> arwill_memory" where
  "initialize_tasks [] context memory = (True, context, memory)"
| "initialize_tasks (i # rest) context memory =
     (case initialize_address_space (uc_kernel_cr3 context) (tk_address_space (task_at context i)) memory
             (uc_ram context) of
        (ok, space, memory, m) \<Rightarrow>
         (let context = with_task i (\<lambda>task. task\<lparr>tk_address_space := space\<rparr>) (context\<lparr>uc_ram := m\<rparr>)
          in if \<not> ok then (False, context, memory)
             else initialize_tasks rest (reset_task_runtime context i) memory))"

definition arwill_x86_64_user_mode_init ::
    "('n, 'k, 'f) x86_64_user_context \<Rightarrow> u64 \<Rightarrow> arwill_memory option \<Rightarrow> u64 \<Rightarrow> 'k arwill_clock option \<Rightarrow>
     'k arwill_entropy option \<Rightarrow> 'k arwill_realtime option \<Rightarrow> 'f arwill_filesystem option \<Rightarrow>
     ('n, 'k) arwill_ipv4_stack option \<Rightarrow> 'k arwill_event_log option \<Rightarrow> ('n, 'k, 'f) x86_64_user_context" where
  "arwill_x86_64_user_mode_init context cr3 memory hhdm_offset clock entropy realtime filesystem ipv4 log =
     (let context = context\<lparr>uc_memory := memory, uc_kernel_cr3 := cr3 AND page_address_mask, uc_available := False,
            uc_hhdm_available := hhdm_offset \<noteq> 0, uc_runs := 0, uc_syscall_count := 0, uc_bytes_written := 0,
            uc_bad_syscalls := 0, uc_preemptions := 0, uc_faults := 0, uc_clock := clock, uc_entropy := entropy,
            uc_realtime := realtime, uc_filesystem := filesystem, uc_ipv4 := ipv4, uc_log := log,
            uc_active_task := None, uc_next_pid := 1000, uc_next_slot := 0, uc_active_slice_ticks := 0\<rparr>
      in case memory of
           None \<Rightarrow> context
         | Some memory \<Rightarrow>
             if \<not> uc_hhdm_available context then context
             else
               (case initialize_tasks [0..<arwill_user_task_capacity] context memory of
                  (ok, context, memory) \<Rightarrow> context\<lparr>uc_memory := Some memory, uc_available := ok\<rparr>))"

end
