(* ===== verification/Address_Isolation.thy ===== *)
theory Address_Isolation
  imports Address_Space
begin

text \<open>
  Several address spaces in one physical memory: what the page walk reads, the invariant that
  separates page tables, code and stacks, that writing user pages keeps it, and that a new
  address space joins it.
\<close>

section \<open>What a page walk reads\<close>

definition walk_entries :: "ram \<Rightarrow> u64 \<Rightarrow> u64 \<Rightarrow> (u64 \<times> nat) list" where
  "walk_entries m cr3 v =
     (if \<not> canonical v then []
      else
        (let t4 = cr3 AND page_address_mask; e4 = get_entry m t4 (page_table_index v 39)
         in (t4, page_table_index v 39) #
            (if \<not> bit e4 0 then []
             else
               (let t3 = e4 AND page_address_mask; e3 = get_entry m t3 (page_table_index v 30)
                in (t3, page_table_index v 30) #
                   (if \<not> bit e3 0 \<or> bit e3 7 then []
                    else
                      (let t2 = e3 AND page_address_mask; e2 = get_entry m t2 (page_table_index v 21)
                       in (t2, page_table_index v 21) #
                          (if \<not> bit e2 0 \<or> bit e2 7 then [] else [(e2 AND page_address_mask, page_table_index v 12)])))))))"

definition entry_bytes :: "u64 \<times> nat \<Rightarrow> u64 set" where
  "entry_bytes e = {fst e + 8 * of_nat (snd e) + of_nat k |k. k < 8}"

text \<open>The tables of an address space lie in \<open>T\<close>.\<close>

definition tables_in :: "u64 set \<Rightarrow> ram \<Rightarrow> u64 \<Rightarrow> bool" where
  "tables_in T m cr3 \<longleftrightarrow> (\<forall>v. \<forall>e\<in>set (walk_entries m cr3 v). entry_bytes e \<subseteq> T)"

lemma get_entry_agree:
  assumes "\<forall>a\<in>entry_bytes (t, i). m' a = m a"
  shows "get_entry m' t i = get_entry m t i"
proof (rule bit_word_eqI)
  fix n assume "n < LENGTH(64)"
  then have "n div 8 < 8" by auto
  then have "t + 8 * of_nat i + of_nat (n div 8) \<in> entry_bytes (t, i)" unfolding entry_bytes_def by force
  with assms have "m' (t + 8 * of_nat i + of_nat (n div 8)) = m (t + 8 * of_nat i + of_nat (n div 8))" by blast
  then show "bit (get_entry m' t i) n = bit (get_entry m t i) n" by (simp add: get_entry_def load64_bit)
qed

lemma walk_agree:
  assumes "\<forall>e\<in>set (walk_entries m cr3 v). \<forall>a\<in>entry_bytes e. m' a = m a"
  shows "translate m' cr3 v = translate m cr3 v" "walk_entries m' cr3 v = walk_entries m cr3 v"
proof -
  have e: "get_entry m' t i = get_entry m t i" if "(t, i) \<in> set (walk_entries m cr3 v)" for t i
    using assms that by (intro get_entry_agree) blast
  show "translate m' cr3 v = translate m cr3 v" "walk_entries m' cr3 v = walk_entries m cr3 v"
    using e by (simp_all add: walk_entries_def translate_def Let_def split: if_splits)
qed

lemma tables_agree:
  assumes "tables_in T m cr3" "\<forall>a\<in>T. m' a = m a"
  shows "tables_in T m' cr3" "translate m' cr3 = translate m cr3"
proof -
  have e: "\<forall>e\<in>set (walk_entries m cr3 v). \<forall>a\<in>entry_bytes e. m' a = m a" for v
    using assms unfolding tables_in_def by blast
  show "translate m' cr3 = translate m cr3" by (rule ext) (rule walk_agree(1) [OF e])
  show "tables_in T m' cr3" using assms(1) walk_agree(2) [OF e] by (simp add: tables_in_def)
qed

section \<open>Separate address spaces\<close>

definition user_closed :: "ram \<Rightarrow> u64 \<Rightarrow> bool" where
  "user_closed m k \<longleftrightarrow> (\<forall>v t. translate m k v = Some t \<longrightarrow> \<not> tr_user t)"

text \<open>
  The tables lie in \<open>T\<close>; the code and stack pages are different pages outside \<open>T\<close>; every space
  maps its own pages and the kernel's mapping, which gives user code no access.
\<close>

definition spaces_ok :: "u64 set \<Rightarrow> ram \<Rightarrow> u64 \<Rightarrow> x86_64_user_address_space list \<Rightarrow> bool" where
  "spaces_ok T m k spaces \<longleftrightarrow> page_ok k \<and> tables_in T m k \<and> user_closed m k \<and>
     distinct (concat (map user_pages spaces)) \<and>
     (\<forall>s\<in>set spaces. length (as_code_physical s) = 48 \<and> length (as_stack_physical s) = 24 \<and>
        (\<forall>p\<in>set (user_pages s). page_ok p \<and> (\<forall>a. in_page p a \<longrightarrow> a \<notin> T)) \<and>
        tables_in T m (as_cr3 s) \<and> mapped m k s)"

lemma spaces_agree:
  assumes "spaces_ok T m k spaces" "\<forall>a\<in>T. m' a = m a"
  shows "spaces_ok T m' k spaces"
proof -
  have k: "tables_in T m' k" "translate m' k = translate m k"
    using tables_agree [of T m k m'] assms by (auto simp: spaces_ok_def)
  have s: "tables_in T m' (as_cr3 s)" "translate m' (as_cr3 s) = translate m (as_cr3 s)" if "s \<in> set spaces" for s
    using tables_agree [of T m "as_cr3 s" m'] assms that by (auto simp: spaces_ok_def)
  have "mapped m' k s" if "s \<in> set spaces" for s
    using assms(1) that by (simp add: spaces_ok_def mapped_def k s)
  then show ?thesis using assms(1) k s by (simp add: spaces_ok_def user_closed_def)
qed

lemma mapped_code:
  assumes "mapped m k s" "in_code v"
  shows "translate m (as_cr3 s) v = Some \<lparr>tr_address = as_code_physical s ! code_page v + take_bit 12 v,
    tr_user = True, tr_write = False, tr_execute = True\<rparr>"
  using assms by (simp add: mapped_def)

lemma code_stack_disjoint: "in_stack v \<Longrightarrow> \<not> in_code v"
  by (auto simp: in_code_nat in_stack_nat)

lemma mapped_stack:
  assumes "mapped m k s" "in_stack v"
  shows "translate m (as_cr3 s) v = Some \<lparr>tr_address = as_stack_physical s ! stack_page v + take_bit 12 v,
    tr_user = True, tr_write = True, tr_execute = False\<rparr>"
  using assms code_stack_disjoint [OF assms(2)] by (simp add: mapped_def)

lemma code_page_less: "in_code v \<Longrightarrow> code_page v < 48"
  by (auto simp: code_page_nat in_code_nat intro!: less_mult_imp_div_less)

lemma stack_page_less: "in_stack v \<Longrightarrow> stack_page v < 24"
  by (auto simp: stack_page_nat in_stack_nat intro!: less_mult_imp_div_less)

lemma page_offset_word: "page_ok p \<Longrightarrow> in_page p (p + take_bit 12 v)"
proof -
  assume "page_ok p"
  moreover have t: "unat (take_bit 12 v) < 4096"
    using take_bit_nat_less_exp [of 12 "unat v"] by (simp add: unsigned_take_bit_eq)
  ultimately show ?thesis using in_page_offset [of p "unat (take_bit 12 v)"] by simp
qed

text \<open>User code can reach exactly its code and its stack, and write the stack only.\<close>

lemma user_access:
  assumes ok: "spaces_ok T m k spaces" and s: "s \<in> set spaces"
    and t: "translate m (as_cr3 s) v = Some t" "tr_user t"
  shows "in_page (if tr_write t then as_stack_physical s ! stack_page v else as_code_physical s ! code_page v) (tr_address t)"
    "if tr_write t then in_stack v else in_code v" "tr_write t \<longleftrightarrow> \<not> tr_execute t"
proof -
  have mp: "mapped m k s" "user_closed m k" and pages: "\<forall>p\<in>set (user_pages s). page_ok p"
    and len: "length (as_code_physical s) = 48" "length (as_stack_physical s) = 24"
    using ok s by (simp_all add: spaces_ok_def)
  have pc: "page_ok (as_code_physical s ! i)" if "i < 48" for i using pages len that by (simp add: user_pages_def)
  have ps: "page_ok (as_stack_physical s ! i)" if "i < 24" for i using pages len that by (simp add: user_pages_def)
  consider (code) "in_code v" | (stack) "in_stack v"
    using t mp unfolding mapped_def user_closed_def by (metis option.distinct(1))
  then show "in_page (if tr_write t then as_stack_physical s ! stack_page v else as_code_physical s ! code_page v) (tr_address t)"
      "if tr_write t then in_stack v else in_code v" "tr_write t \<longleftrightarrow> \<not> tr_execute t"
  proof (atomize (full), cases)
    case code
    then show "in_page (if tr_write t then as_stack_physical s ! stack_page v else as_code_physical s ! code_page v)
        (tr_address t) \<and> (if tr_write t then in_stack v else in_code v) \<and> (tr_write t \<longleftrightarrow> \<not> tr_execute t)"
      using t(1) mapped_code [OF mp(1) code] page_offset_word [OF pc [OF code_page_less]] by auto
  next
    case stack
    then show "in_page (if tr_write t then as_stack_physical s ! stack_page v else as_code_physical s ! code_page v)
        (tr_address t) \<and> (if tr_write t then in_stack v else in_code v) \<and> (tr_write t \<longleftrightarrow> \<not> tr_execute t)"
      using t(1) mapped_stack [OF mp(1) stack] page_offset_word [OF ps [OF stack_page_less]] by auto
  qed
qed

section \<open>A new address space\<close>

lemma entry_in_table: "page_ok t \<Longrightarrow> i < 512 \<Longrightarrow> entry_bytes (t, i) \<subseteq> {a. in_page t a}"
  by (auto simp: entry_bytes_def intro: entry_in_page)

lemma map_out:
  assumes t: "tables_ok m k cr3 pdpt pd cpt spt" and cr3: "as_cr3 space = cr3"
    and a: "\<not> in_pages [cr3, pdpt, pd, cpt, spt] a"
  shows "map_address_space k space pdpt pd cpt spt m a = m a"
proof -
  have p: "page_ok cr3" "page_ok pdpt" "page_ok pd" "page_ok cpt" "page_ok spt"
    using t by (simp_all add: tables_ok_def)
  have idx: "page_table_index user_code_virtual 39 = 1" "page_table_index user_code_virtual 30 = 0"
      "page_table_index user_code_virtual 21 = 0" "page_table_index user_stack_virtual 21 = 1"
      "page_table_index user_code_virtual 12 = 0" "page_table_index user_stack_virtual 12 = 0"
    by (simp_all add: table_index)
  have n: "\<not> in_page cr3 a" "\<not> in_page pdpt a" "\<not> in_page pd a" "\<not> in_page cpt a" "\<not> in_page spt a"
    using a by (auto simp: in_pages_def)
  have c: "foldl (\<lambda>m i. set_entry m cr3 i (get_entry m k i)) m [0..<512] a = m a"
    using fold_entries_out [OF p(1) n(1), of 0 512 "\<lambda>m i. get_entry m k i" m] by simp
  show ?thesis
    unfolding map_address_space_def Let_def idx cr3
    using fold_entries_out [OF p(5) n(5), of 0 24] fold_entries_out [OF p(4) n(4), of 0 48]
    by (simp add: set_entry_out p n c del: upt_rec_numeral)
qed

lemma built_walk:
  assumes t: "tables_ok m k cr3 pdpt pd cpt spt" and cr3: "as_cr3 space = cr3"
  defines "m' \<equiv> map_address_space k space pdpt pd cpt spt m"
  assumes e: "e \<in> set (walk_entries m' cr3 v)"
  shows "fst e \<in> {cr3, pdpt, pd, cpt, spt} \<and> snd e < 512 \<or> e \<in> set (walk_entries m' k v)"
proof -
  note g = built_entries [OF t cr3, folded m'_def]
  have p: "page_ok k" "page_ok cr3" "page_ok pdpt" "page_ok pd" "page_ok cpt" "page_ok spt"
    using t by (simp_all add: tables_ok_def)
  show ?thesis
  proof (cases "page_table_index v 39 = 1")
    case True
    define e3 where "e3 = get_entry m' pdpt (page_table_index v 30)"
    define e2 where "e2 = get_entry m' pd (page_table_index v 21)"
    have e4: "get_entry m' cr3 (page_table_index v 39) = pdpt OR 7" 
      using g(1) [of "page_table_index v 39"] table_index_less True by metis
    have "e3 \<in> {pd OR 7, 0}" using g(2) [OF table_index_less] by (simp add: e3_def)
    moreover have "e2 \<in> {cpt OR 7, spt OR 7, 0}" using g(3) [OF table_index_less] by (simp add: e2_def)
    ultimately have "set (walk_entries m' cr3 v) \<subseteq> {cr3, pdpt, pd, cpt, spt} \<times> {..<512}"
      using table_index_less [of v]
      by (elim insertE emptyE) (simp_all add: walk_entries_def Let_def page_mask [OF p(2)] e4
          entry_pages(1) [OF p(3)] e3_def [symmetric] entry_pages(1) [OF p(4)] e2_def [symmetric]
          entry_pages(1) [OF p(5)] entry_pages(1) [OF p(6)] entry_bits [OF p(4)])
    then show ?thesis using e by auto
  next
    case False
    then have "get_entry m' cr3 (page_table_index v 39) = get_entry m' k (page_table_index v 39)"
      using g(1,6) [OF table_index_less] by simp
    then show ?thesis
      using e by (auto simp: walk_entries_def Let_def page_mask p table_index_less split: if_splits)
  qed
qed

text \<open>No free page is a table or belongs to a space.\<close>

definition free_apart :: "u64 set \<Rightarrow> x86_64_user_address_space list \<Rightarrow> arwill_memory \<Rightarrow> bool" where
  "free_apart T spaces memory \<longleftrightarrow> free_ok memory \<and>
     (\<forall>p\<in>free_pages memory. (\<forall>a. in_page p a \<longrightarrow> a \<notin> T) \<and> (\<forall>s\<in>set spaces. p \<notin> set (user_pages s)))"

lemma kernel_table_used:
  assumes "spaces_ok T m k spaces"
  shows "k \<in> T" "in_page k k"
proof -
  have k: "page_ok k" "tables_in T m k" using assms by (simp_all add: spaces_ok_def)
  have z: "page_table_index 0 39 = 0" "canonical 0" by (simp_all add: table_index canonical_def)
  have "(k, 0) \<in> set (walk_entries m k 0)" by (simp add: walk_entries_def Let_def z page_mask [OF k(1)])
  moreover have "k \<in> entry_bytes (k, 0)" by (auto simp: entry_bytes_def intro!: exI [of _ 0])
  ultimately show "k \<in> T" using k(2) unfolding tables_in_def by blast
  show "in_page k k" by (simp add: in_page_def)
qed

lemma pages_apart:
  assumes "\<forall>q\<in>set ps. page_ok q" "page_ok p" "p \<notin> set ps" "in_page p a"
  shows "\<not> in_pages ps a"
  using assms in_page_unique unfolding in_pages_def by blast

lemma new_tables_in:
  assumes tok: "tables_ok m0 k (as_cr3 s) pdpt pd cpt spt" and old: "tables_in T (map_address_space k s pdpt pd cpt spt m0) k"
  shows "tables_in (T \<union> {a. in_pages [as_cr3 s, pdpt, pd, cpt, spt] a}) (map_address_space k s pdpt pd cpt spt m0) (as_cr3 s)"
  unfolding tables_in_def
proof (intro allI ballI)
  fix v e assume "e \<in> set (walk_entries (map_address_space k s pdpt pd cpt spt m0) (as_cr3 s) v)"
  from built_walk [OF tok refl this] show "entry_bytes e \<subseteq> T \<union> {a. in_pages [as_cr3 s, pdpt, pd, cpt, spt] a}"
  proof
    assume f: "fst e \<in> {as_cr3 s, pdpt, pd, cpt, spt} \<and> snd e < 512"
    then have "page_ok (fst e)" using tok by (auto simp: tables_ok_def)
    then have "entry_bytes e \<subseteq> {a. in_page (fst e) a}" using entry_in_table [of "fst e" "snd e"] f by simp
    then show ?thesis using f unfolding in_pages_def by auto
  next
    assume "e \<in> set (walk_entries (map_address_space k s pdpt pd cpt spt m0) k v)"
    then show ?thesis using old by (auto simp: tables_in_def)
  qed
qed

lemma spaces_join:
  assumes old: "spaces_ok T m k spaces" and sub: "T \<subseteq> T'"
    and out: "\<forall>s\<in>set spaces. \<forall>p\<in>set (user_pages s). p \<notin> set (user_pages s') \<and> (\<forall>a. in_page p a \<longrightarrow> a \<notin> T')"
    and new: "length (as_code_physical s') = 48" "length (as_stack_physical s') = 24" "distinct (user_pages s')"
      "\<forall>p\<in>set (user_pages s'). page_ok p \<and> (\<forall>a. in_page p a \<longrightarrow> a \<notin> T')"
      "tables_in T' m (as_cr3 s')" "mapped m k s'"
  shows "spaces_ok T' m k (spaces @ [s'])"
proof -
  have mono: "tables_in T' m c" if "tables_in T m c" for c using that sub unfolding tables_in_def by blast
  have "distinct (concat (map user_pages (spaces @ [s'])))"
    using old new(3) out by (auto simp: spaces_ok_def)
  moreover have "length (as_code_physical s) = 48 \<and> length (as_stack_physical s) = 24 \<and>
      (\<forall>p\<in>set (user_pages s). page_ok p \<and> (\<forall>a. in_page p a \<longrightarrow> a \<notin> T')) \<and> tables_in T' m (as_cr3 s) \<and> mapped m k s"
    if "s \<in> set (spaces @ [s'])" for s
    using old out mono new that by (cases "s = s'") (simp_all add: spaces_ok_def)
  ultimately show ?thesis using old mono by (simp add: spaces_ok_def)
qed

lemma spaces_extend:
  assumes ok: "spaces_ok T m k spaces" and free: "free_apart T spaces memory"
    and len: "length (as_code_physical space) = 48" "length (as_stack_physical space) = 24"
    and init: "initialize_address_space k space memory m = (True, space', memory', m')"
  obtains T' where "spaces_ok T' m' k (spaces @ [space'])" "free_apart T' (spaces @ [space']) memory'"
    "T \<subseteq> T'" "\<forall>a\<in>T. m' a = m a" "\<forall>a. in_pages (user_pages space') a \<longrightarrow> m' a = 0"
proof -
  have fo: "free_ok memory" using free by (simp add: free_apart_def)
  obtain pdpt pd cpt spt m0 where
    t: "took ([as_cr3 space', pdpt, pd, cpt, spt] @ user_pages space') (memory, m) (memory', m0)"
    and m': "m' = map_address_space k space' pdpt pd cpt spt m0"
    and len': "length (as_code_physical space') = 48" "length (as_stack_physical space') = 24"
    by (rule initialize_took [OF fo len init])
  define tb where "tb = [as_cr3 space', pdpt, pd, cpt, spt]"
  define T' where "T' = T \<union> {a. in_pages tb a}"
  have took: "free_ok memory'" "distinct tb" "distinct (user_pages space')" "set tb \<inter> set (user_pages space') = {}"
      "set tb \<subseteq> free_pages memory" "set (user_pages space') \<subseteq> free_pages memory"
      "free_pages memory' = free_pages memory - (set tb \<union> set (user_pages space'))"
      "\<And>a. m0 a = (if in_pages tb a \<or> in_pages (user_pages space') a then 0 else m a)"
    using t unfolding tb_def [symmetric] by (auto simp: took_def in_pages_def)
  have page: "page_ok p" "in_page p a \<Longrightarrow> a \<notin> T" "s \<in> set spaces \<Longrightarrow> p \<notin> set (user_pages s)"
    if "p \<in> free_pages memory" for p a s
    using that free free_page_ok [OF fo] by (auto simp: free_apart_def)
  have tb_ok: "\<forall>q\<in>set tb. page_ok q" using page(1) took(5) by blast
  have kn: "k \<notin> set tb" using page(2) [of k k] kernel_table_used [OF ok] took(5) by blast
  have z: "m0 a = 0" if "q \<in> set tb" "in_page q a" for q a using took(8) that by (auto simp: in_pages_def)
  have tok: "tables_ok m0 k (as_cr3 space') pdpt pd cpt spt"
    using took(2) tb_ok kn ok z by (auto simp: tables_ok_def spaces_ok_def tb_def)
  have m'0: "m' a = m0 a" if "\<not> in_pages tb a" for a unfolding m' using map_out [OF tok refl] that tb_def by blast
  have T: "\<not> in_pages tb a \<and> \<not> in_pages (user_pages space') a" if "a \<in> T" for a
    using that page(2) took(5,6) unfolding in_pages_def by blast
  then have agree: "\<forall>a\<in>T. m' a = m a" using m'0 took(8) by simp
  have apart: "a \<notin> T'" if "page_ok p" "p \<notin> set tb" "in_page p a" "a \<notin> T" for p a
    using pages_apart [OF tb_ok] that by (simp add: T'_def)
  have old: "spaces_ok T m' k spaces" by (rule spaces_agree [OF ok agree])
  have "p \<notin> set (user_pages space') \<and> (\<forall>a. in_page p a \<longrightarrow> a \<notin> T')" if "s \<in> set spaces" "p \<in> set (user_pages s)" for s p
    using that ok apart [of p] page(3) took(5,6) unfolding spaces_ok_def by blast
  moreover have new: "page_ok p \<and> (\<forall>a. in_page p a \<longrightarrow> a \<notin> T')" if "p \<in> set (user_pages space')" for p
    using that apart [of p] page(1,2) took(4,6) by blast
  moreover have "tables_in T' m' (as_cr3 space')"
    using new_tables_in [OF tok] old unfolding m' T'_def tb_def by (simp add: spaces_ok_def)
  moreover have "mapped m' k space'"
    unfolding m' using tok new len' by (intro translate_built) (auto simp: user_pages_def)
  ultimately have "spaces_ok T' m' k (spaces @ [space'])"
    using len' took(3) by (intro spaces_join [OF old]) (auto simp: T'_def)
  moreover have "a \<notin> T'" if "p \<in> free_pages memory'" "in_page p a" for p a
    using that took(7) page(1,2) apart by (metis DiffE UnI1)
  then have "free_apart T' (spaces @ [space']) memory'"
    using took(1,7) page(3) by (auto simp: free_apart_def)
  moreover have "m' a = 0" if "in_pages (user_pages space') a" for a
  proof -
    have "a \<notin> T'" using that new unfolding in_pages_def by blast
    then show ?thesis using m'0 took(8) that by (simp add: T'_def)
  qed
  ultimately show ?thesis using that [of T'] agree by (auto simp: T'_def)
qed

end
