(* ===== verification/User_Isolation.thy ===== *)
theory User_Isolation
  imports User_Syscall Address_Isolation Awp_Properties
begin

text \<open>
  What the kernel does to user memory: the ranges it accepts, the bytes it reads and writes, the
  invariant of the task table, and the part of the machine a call on behalf of one task stays in.
\<close>

section \<open>Ranges\<close>

lemma range_offset:
  assumes r: "range_in_region p n base size_bytes" and k: "k < unat n" and fit: "unat base + unat size_bytes < 2 ^ 64"
  shows "unat (p + of_nat k) = unat p + k" "unat base \<le> unat p" "unat p + k < unat base + unat size_bytes"
proof -
  from r k have b: "base \<le> p" "n \<le> size_bytes" "p - base \<le> size_bytes - n" by (auto simp: range_in_region_def)
  then have "unat (p - base) = unat p - unat base" "unat (size_bytes - n) = unat size_bytes - unat n"
    by (simp_all add: unat_sub)
  with b have "unat p - unat base \<le> unat size_bytes - unat n" "unat base \<le> unat p" "unat n \<le> unat size_bytes"
    by (simp_all add: word_le_nat_alt)
  then show "unat base \<le> unat p" "unat p + k < unat base + unat size_bytes" using k by linarith+
  then have "unat p + k < 2 ^ 64" using fit by linarith
  then show "unat (p + of_nat k) = unat p + k"
    using unat_add_64 [of p "of_nat k"] by (simp add: unat_of_nat)
qed

lemma writable_in_stack: "user_range_writable p n \<Longrightarrow> k < unat n \<Longrightarrow> in_stack (p + of_nat k)"
  using range_offset [of p n user_stack_virtual "of_nat 24 * 4096" k]
  by (auto simp: user_range_writable_def in_stack_nat)

lemma readable_mapped: "user_range_readable p n \<Longrightarrow> k < unat n \<Longrightarrow> in_code (p + of_nat k) \<or> in_stack (p + of_nat k)"
  using range_offset [of p n user_stack_virtual "of_nat 24 * 4096" k]
    range_offset [of p n user_code_virtual "of_nat 48 * 4096" k]
  by (auto simp: user_range_readable_def in_stack_nat in_code_nat)

lemma writable_one: "user_range_writable a 1 \<longleftrightarrow> in_stack a"
proof
  assume "in_stack a"
  then have "user_stack_virtual \<le> a" "unat a - unat user_stack_virtual \<le> 98303"
    by (auto simp: in_stack_nat word_le_nat_alt)
  then show "user_range_writable a 1"
    by (simp add: user_range_writable_def range_in_region_def word_le_nat_alt unat_sub)
qed (use writable_in_stack [of a 1 0] in simp)

text \<open>The kernel writes at the address that the program's own mapping gives.\<close>

lemma writable_pointer_eq:
  "task_writable_pointer task a =
     (if in_stack a then Some (as_stack_physical (tk_address_space task) ! stack_page a + take_bit 12 a) else None)"
proof (cases "in_stack a")
  case True
  have "unat (a - user_stack_virtual) div 4096 = stack_page a" by (simp add: stack_page_def)
  then have d: "unat ((a - user_stack_virtual) div 4096) = stack_page a" by (simp add: unat_div_distrib)
  obtain x where x: "unat a = x + 134218240 * 4096" using True by (auto simp: in_stack_nat dest: le_Suc_ex)
  have "user_stack_virtual \<le> a" using True by (simp add: in_stack_def)
  then have "unat ((a - user_stack_virtual) mod 4096) = (unat a - 549757911040) mod 4096"
    by (simp add: unat_mod_distrib unat_sub)
  also have "\<dots> = x mod 4096" using x by simp
  also have "\<dots> = unat a mod 4096" unfolding x by (rule mod_mult_self1 [symmetric])
  also have "\<dots> = unat (take_bit 12 a)" by (simp add: take_bit_eq_mod unat_mod_distrib)
  finally have "(a - user_stack_virtual) mod 4096 = take_bit 12 a" by (simp add: word_unat_eq_iff)
  then show ?thesis using True d by (simp add: task_writable_pointer_def writable_one Let_def)
qed (simp add: task_writable_pointer_def writable_one)

section \<open>Reading\<close>

definition spaces_of :: "('n, 'k, 'f) x86_64_user_context \<Rightarrow> x86_64_user_address_space list" where
  "spaces_of c = map tk_address_space (uc_tasks c)"

definition space_at :: "('n, 'k, 'f) x86_64_user_context \<Rightarrow> nat \<Rightarrow> x86_64_user_address_space" where
  "space_at c i = tk_address_space (task_at c i)"

text \<open>The invariant of memory: page tables in \<open>T\<close>, the spaces of the tasks apart.\<close>

definition memory_ok :: "u64 set \<Rightarrow> ('n, 'k, 'f) x86_64_user_context \<Rightarrow> bool" where
  "memory_ok T c \<longleftrightarrow> spaces_ok T (uc_ram c) (uc_kernel_cr3 c) (spaces_of c) \<and> length (uc_tasks c) = 4"

lemma space_in: "memory_ok T c \<Longrightarrow> i < 4 \<Longrightarrow> space_at c i \<in> set (spaces_of c)"
  by (simp add: memory_ok_def space_at_def spaces_of_def task_at_def)

lemma space_mapped:
  assumes "memory_ok T c" "i < 4"
  shows "mapped (uc_ram c) (uc_kernel_cr3 c) (space_at c i)" "length (as_code_physical (space_at c i)) = 48"
    "length (as_stack_physical (space_at c i)) = 24" "\<forall>p\<in>set (user_pages (space_at c i)). page_ok p"
    "\<forall>p\<in>set (user_pages (space_at c i)). \<forall>a. in_page p a \<longrightarrow> a \<notin> T"
  using assms(1) space_in [OF assms] by (simp_all add: memory_ok_def spaces_ok_def)

text \<open>What the kernel reads of a readable range is there, and it is what the program sees.\<close>

lemma load_user_mapped:
  assumes "memory_ok T c" "i < 4" "in_code v \<or> in_stack v"
  obtains b where "load_user c i v = Some b"
  using assms(3) mapped_code [OF space_mapped(1) [OF assms(1,2)], of v]
    mapped_stack [OF space_mapped(1) [OF assms(1,2)], of v]
  by (auto simp: load_user_def space_at_def [symmetric])

lemma those_all: "\<forall>x\<in>set xs. x \<noteq> None \<Longrightarrow> those xs = Some (map the xs)"
  by (induction xs) auto

lemma load_bytes_mapped:
  assumes "memory_ok T c" "i < 4" "user_range_readable p n"
  shows "load_bytes c i p (unat n) = Some (map (\<lambda>k. the (load_user c i (p + of_nat k))) [0..<unat n])"
proof -
  have "load_user c i (p + of_nat k) \<noteq> None" if "k < unat n" for k
    using load_user_mapped [OF assms(1,2) readable_mapped [OF assms(3) that]] by blast
  then show ?thesis unfolding load_bytes_def by (subst those_all) (auto simp: comp_def)
qed

lemma copy_path_total:
  assumes "\<forall>k<n. load (a + of_nat (idx + k)) \<noteq> None"
  obtains ok buf where "copy_path_from load a idx n buf0 = Some (ok, buf)" "length buf = length buf0"
  using assms
proof (induction n arbitrary: idx buf0 thesis)
  case (Suc n)
  obtain b where b: "load (a + of_nat idx) = Some b" using Suc.prems(2) [rule_format, of 0] by auto
  have "\<forall>k<n. load (a + of_nat (Suc idx + k)) \<noteq> None"
  proof (intro allI impI)
    fix k assume "k < n"
    then show "load (a + of_nat (Suc idx + k)) \<noteq> None" using Suc.prems(2) [rule_format, of "Suc k"] by simp
  qed
  then obtain ok buf where "copy_path_from load a (Suc idx) n (buf0[idx := b]) = Some (ok, buf)" "length buf = length buf0"
    using Suc.IH [of "Suc idx" "buf0[idx := b]"] by auto
  then show ?case using Suc.prems(1) b by (cases "b = 0 \<or> b = 0x0A \<or> b = 0x0D") auto
qed auto

lemma copy_user_path_total:
  assumes "memory_ok T c" "i < 4"
  obtains ok buf where "copy_user_path c i p n = Some (ok, c\<lparr>uc_path_buffer := buf\<rparr>)"
    "length buf = length (uc_path_buffer c)"
proof (cases "n = 0 \<or> n > user_path_limit \<or> \<not> user_range_readable p n")
  case True
  then show ?thesis using that [of False "uc_path_buffer c"] by (simp add: copy_user_path_def)
next
  case False
  have "load_user c i (p + of_nat (0 + k)) \<noteq> None" if "k < unat n" for k
    using load_user_mapped [OF assms readable_mapped [of p n k]] False that by auto
  then obtain ok buf where "copy_path_from (load_user c i) p 0 (unat n) (uc_path_buffer c) = Some (ok, buf)"
      "length buf = length (uc_path_buffer c)"
    using copy_path_total [of "unat n" "load_user c i" p 0 "uc_path_buffer c"] by blast
  then show ?thesis using that [of ok buf] False by (simp add: copy_user_path_def)
qed

section \<open>Writing\<close>

text \<open>Where the byte at an address of the stack lies.\<close>

definition stack_byte :: "x86_64_user_address_space \<Rightarrow> u64 \<Rightarrow> u64" where
  "stack_byte s v = as_stack_physical s ! stack_page v + take_bit 12 v"

lemma writable_pointer:
  "task_writable_pointer task a = (if in_stack a then Some (stack_byte (tk_address_space task) a) else None)"
  by (simp add: writable_pointer_eq stack_byte_def)

lemma stack_page_ok:
  assumes "memory_ok T c" "i < 4" "in_stack v"
  shows "in_pages (as_stack_physical (space_at c i)) (stack_byte (space_at c i) v)"
proof -
  let ?p = "as_stack_physical (space_at c i) ! stack_page v"
  have "?p \<in> set (as_stack_physical (space_at c i))"
    using space_mapped(3) [OF assms(1,2)] stack_page_less [OF assms(3)] by simp
  moreover from this have "page_ok ?p" using space_mapped(4) [OF assms(1,2)] by (simp add: user_pages_def)
  ultimately show ?thesis using page_offset_word unfolding in_pages_def stack_byte_def by blast
qed

text \<open>Even a range that was not checked is only written where it is stack.\<close>

lemma copy_bytes_confined:
  assumes "copy_bytes_from task p idx bs m = (ok, m')" "m' a \<noteq> m a"
  shows "\<exists>v. in_stack v \<and> a = stack_byte (tk_address_space task) v"
  using assms
proof (induction bs arbitrary: idx m)
  case (Cons b bs)
  show ?case
  proof (cases "in_stack (p + of_nat idx)")
    case True
    let ?m = "m(stack_byte (tk_address_space task) (p + of_nat idx) := b)"
    have "copy_bytes_from task p (Suc idx) bs ?m = (ok, m')" using Cons.prems(1) True by (simp add: writable_pointer)
    then show ?thesis using Cons.IH [of "Suc idx" ?m] Cons.prems(2) True by (metis fun_upd_other)
  qed (use Cons.prems in \<open>simp add: writable_pointer\<close>)
qed simp

text \<open>A range of stack addresses is written completely, and reads back.\<close>

lemma all_offsets_Suc: "(\<forall>k<Suc n. P (idx + k)) \<longleftrightarrow> P idx \<and> (\<forall>k<n. P (Suc idx + k))"
  by (metis Suc_less_eq add.right_neutral add_Suc_shift less_Suc_eq_0_disj zero_less_Suc)

lemma copy_bytes_written:
  assumes "\<forall>k<length bs. in_stack (p + of_nat (idx + k))"
    "\<forall>k<length bs. \<forall>l<length bs. stack_byte (tk_address_space task) (p + of_nat (idx + k)) =
       stack_byte (tk_address_space task) (p + of_nat (idx + l)) \<longrightarrow> k = l"
  shows "fst (copy_bytes_from task p idx bs m) \<and>
    (\<forall>k<length bs. snd (copy_bytes_from task p idx bs m) (stack_byte (tk_address_space task) (p + of_nat (idx + k))) = bs ! k) \<and>
    (\<forall>a. (\<forall>k<length bs. a \<noteq> stack_byte (tk_address_space task) (p + of_nat (idx + k))) \<longrightarrow>
      snd (copy_bytes_from task p idx bs m) a = m a)"
  using assms
proof (induction bs arbitrary: idx m)
  case (Cons b bs)
  let ?at = "\<lambda>k. stack_byte (tk_address_space task) (p + of_nat k)"
  define m1 where "m1 = m(?at idx := b)"
  have s: "in_stack (p + of_nat idx)" "\<forall>k<length bs. in_stack (p + of_nat (Suc idx + k))"
    using Cons.prems(1) all_offsets_Suc [of "length bs" "\<lambda>k. in_stack (p + of_nat k)" idx] by simp_all
  have inj: "k = l" if "k < length (b # bs)" "l < length (b # bs)" "?at (idx + k) = ?at (idx + l)" for k l
    using Cons.prems(2) that by blast
  have "\<forall>k<length bs. \<forall>l<length bs. ?at (Suc idx + k) = ?at (Suc idx + l) \<longrightarrow> k = l"
  proof (intro allI impI)
    fix k l assume "k < length bs" "l < length bs" "?at (Suc idx + k) = ?at (Suc idx + l)"
    then show "k = l" using inj [of "Suc k" "Suc l"] by simp
  qed
  note ih = Cons.IH [OF s(2) this, of m1]
  have e: "copy_bytes_from task p idx (b # bs) m = copy_bytes_from task p (Suc idx) bs m1"
    using s(1) by (simp add: writable_pointer m1_def)
  have keep: "snd (copy_bytes_from task p (Suc idx) bs m1) (?at idx) = b"
  proof -
    have "?at idx \<noteq> ?at (Suc idx + k)" if "k < length bs" for k using inj [of 0 "Suc k"] that by auto
    then have "snd (copy_bytes_from task p (Suc idx) bs m1) (?at idx) = m1 (?at idx)" using ih by blast
    then show ?thesis by (simp add: m1_def)
  qed
  show ?case
    unfolding e
  proof (intro conjI allI impI)
    fix k assume "k < length (b # bs)"
    then show "snd (copy_bytes_from task p (Suc idx) bs m1) (?at (idx + k)) = (b # bs) ! k"
      using keep ih by (cases k) simp_all
  next
    fix a assume a: "\<forall>k<length (b # bs). a \<noteq> ?at (idx + k)"
    then have "a \<noteq> ?at idx \<and> (\<forall>k<length bs. a \<noteq> ?at (Suc idx + k))"
      using all_offsets_Suc [of "length bs" "\<lambda>k. a \<noteq> ?at k" idx] by simp
    moreover from this have "snd (copy_bytes_from task p (Suc idx) bs m1) a = m1 a" using ih by blast
    ultimately show "snd (copy_bytes_from task p (Suc idx) bs m1) a = m a" by (simp add: m1_def)
  qed (use ih in simp)
qed simp

section \<open>The invariant of the task table\<close>

definition task_ok :: "x86_64_user_task \<Rightarrow> bool" where
  "task_ok t \<longleftrightarrow> ring_ok user_input_capacity (tk_input t) (tk_input_head t) (tk_input_count t) \<and>
     length (tk_name t) = 48 \<and> length (tk_argument t) = 64 \<and> tk_argument_length t < 64 \<and>
     (tk_state t = Task_blocked_input \<longrightarrow> tk_pending_read_length t \<noteq> 0 \<and>
        user_range_writable (tk_pending_read_pointer t) (tk_pending_read_length t))"

text \<open>Bytes of the entropy source go where the kernel wants them.\<close>

definition entropy_ok :: "'k arwill_entropy option \<Rightarrow> bool" where
  "entropy_ok e \<longleftrightarrow> (case e of None \<Rightarrow> True | Some e \<Rightarrow>
     (case en_fill e of None \<Rightarrow> True | Some f \<Rightarrow> \<forall>k b n. length (fst (snd (f k b n))) = length b))"

definition owners_of :: "('n, 'k, 'f) x86_64_user_context \<Rightarrow> arwill_awp_network_owner list" where
  "owners_of c = map tk_network (uc_tasks c)"

definition network_ok :: "('n, 'k, 'f) x86_64_user_context \<Rightarrow> bool" where
  "network_ok c \<longleftrightarrow> (case uc_ipv4 c of
     None \<Rightarrow> \<forall>ow\<in>set (owners_of c). length (ow_handles ow) = 2 \<and> empty_owner ow
   | Some s \<Rightarrow> owned s (owners_of c))"

definition core_ok :: "u64 set \<Rightarrow> ('n, 'k, 'f) x86_64_user_context \<Rightarrow> bool" where
  "core_ok T c \<longleftrightarrow> memory_ok T c \<and> network_ok c \<and> entropy_ok (uc_entropy c) \<and>
     length (uc_filesystem_buffer c) = 2048 \<and> length (uc_path_buffer c) = 64 \<and> uc_next_slot c < 4 \<and>
     (\<forall>t\<in>set (uc_tasks c). task_ok t \<and> (\<forall>n. tk_console t = Some n \<longrightarrow> n < length (uc_consoles c)))"

text \<open>A change on behalf of task \<open>i\<close>: its own record, its stack pages, its endpoints.\<close>

definition confined :: "nat \<Rightarrow> ('n, 'k, 'f) x86_64_user_context \<Rightarrow> ('n, 'k, 'f) x86_64_user_context \<Rightarrow> bool" where
  "confined i c c' \<longleftrightarrow> uc_kernel_cr3 c' = uc_kernel_cr3 c \<and> length (uc_tasks c') = length (uc_tasks c) \<and>
     (\<forall>j. j \<noteq> i \<longrightarrow> task_at c' j = task_at c j) \<and> space_at c' i = space_at c i \<and>
     (\<forall>a. uc_ram c' a \<noteq> uc_ram c a \<longrightarrow> in_pages (as_stack_physical (space_at c i)) a)"

definition network_apart :: "nat \<Rightarrow> ('n, 'k, 'f) x86_64_user_context \<Rightarrow> ('n, 'k, 'f) x86_64_user_context \<Rightarrow> bool" where
  "network_apart i c c' \<longleftrightarrow> (case uc_ipv4 c of
     None \<Rightarrow> uc_ipv4 c' = None
   | Some s \<Rightarrow> (\<exists>s'. uc_ipv4 c' = Some s' \<and> isolated i (owners_of c) s s'))"

definition within_task :: "u64 set \<Rightarrow> nat \<Rightarrow> ('n, 'k, 'f) x86_64_user_context \<Rightarrow> ('n, 'k, 'f) x86_64_user_context \<Rightarrow> bool" where
  "within_task T i c c' \<longleftrightarrow> core_ok T c' \<and> confined i c c' \<and> network_apart i c c'"

named_theorems within_intros \<open>changes on behalf of one task\<close>

lemma core_parts:
  assumes "core_ok T c"
  shows "memory_ok T c" "length (uc_tasks c) = 4" "network_ok c" "i < 4 \<Longrightarrow> task_ok (task_at c i)"
    "length (uc_filesystem_buffer c) = 2048" "length (uc_path_buffer c) = 64" "entropy_ok (uc_entropy c)"
    "uc_next_slot c < 4" "i < 4 \<Longrightarrow> tk_console (task_at c i) = Some n \<Longrightarrow> n < length (uc_consoles c)"
  using assms by (auto simp: core_ok_def memory_ok_def task_at_def)

lemma confined_owners:
  assumes "confined i c c'"
  shows "owners_of c' = (owners_of c)[i := tk_network (task_at c' i)]"
proof (rule nth_equalityI)
  fix j assume "j < length (owners_of c')"
  moreover have "length (uc_tasks c') = length (uc_tasks c)" "j \<noteq> i \<Longrightarrow> task_at c' j = task_at c j"
    using assms by (auto simp: confined_def)
  ultimately show "owners_of c' ! j = (owners_of c)[i := tk_network (task_at c' i)] ! j"
    by (cases "j = i") (simp_all add: owners_of_def task_at_def)
qed (use assms in \<open>simp add: owners_of_def confined_def\<close>)

lemma confined_spaces: "confined i c c' \<Longrightarrow> spaces_of c' = spaces_of c"
proof (rule nth_equalityI)
  fix j assume "confined i c c'" "j < length (spaces_of c')"
  then show "spaces_of c' ! j = spaces_of c ! j"
    by (cases "j = i") (simp_all add: confined_def spaces_of_def space_at_def task_at_def)
qed (simp add: confined_def spaces_of_def)

text \<open>Such a change leaves all page tables alone.\<close>

lemma confined_memory:
  assumes ok: "memory_ok T c" and i: "i < 4" and c: "confined i c c'"
  shows "memory_ok T c'"
proof -
  have "uc_ram c' a = uc_ram c a" if "a \<in> T" for a
  proof -
    have "\<not> in_pages (as_stack_physical (space_at c i)) a"
      using that space_mapped(5) [OF ok i] by (auto simp: in_pages_def user_pages_def)
    then show ?thesis using c unfolding confined_def by blast
  qed
  then have "spaces_ok T (uc_ram c') (uc_kernel_cr3 c) (spaces_of c)"
    using ok spaces_agree by (auto simp: memory_ok_def)
  moreover have "uc_kernel_cr3 c' = uc_kernel_cr3 c" "length (uc_tasks c') = length (uc_tasks c)"
    using c by (simp_all add: confined_def)
  ultimately show ?thesis using ok confined_spaces [OF c] by (simp add: memory_ok_def)
qed

lemma confined_trans: "confined i c c1 \<Longrightarrow> confined i c1 c2 \<Longrightarrow> confined i c c2"
  unfolding confined_def by (metis (full_types))

lemma network_apart_trans:
  assumes "network_apart i c c1" "network_apart i c1 c2" "confined i c c1"
  shows "network_apart i c c2"
  using assms isolated_trans
  by (auto simp: network_apart_def confined_owners isolated_update split: option.splits)

lemma within_trans: "within_task T i c c1 \<Longrightarrow> within_task T i c1 c2 \<Longrightarrow> within_task T i c c2"
  using confined_trans network_apart_trans unfolding within_task_def by blast

lemma isolated_refl: "isolated k os s s"
  by (simp add: isolated_def)

lemma network_same:
  assumes "uc_ipv4 c' = uc_ipv4 c" "owners_of c' = owners_of c"
  shows "network_ok c' = network_ok c" "network_apart i c c'"
  using assms by (auto simp: network_ok_def network_apart_def isolated_refl split: option.splits)

lemma within_fields:
  assumes "core_ok T c" "i < 4" "uc_tasks c' = uc_tasks c" "uc_ram c' = uc_ram c" "uc_kernel_cr3 c' = uc_kernel_cr3 c"
    "uc_ipv4 c' = uc_ipv4 c" "length (uc_consoles c') = length (uc_consoles c)"
    "length (uc_filesystem_buffer c') = 2048" "length (uc_path_buffer c') = 64" "entropy_ok (uc_entropy c')"
    "uc_next_slot c' < 4"
  shows "within_task T i c c'"
proof -
  have "confined i c c'" using assms by (simp add: confined_def space_at_def task_at_def)
  moreover from this have "memory_ok T c'" using assms confined_memory core_parts(1) by blast
  moreover have "owners_of c' = owners_of c" using assms(3) by (simp add: owners_of_def)
  note network_same [OF assms(6) this]
  ultimately show ?thesis using assms by (auto simp: within_task_def core_ok_def)
qed

lemma within_refl: "core_ok T c \<Longrightarrow> i < 4 \<Longrightarrow> within_task T i c c"
  by (rule within_fields) (auto simp: core_ok_def)

lemma with_task_at: "i < length (uc_tasks c) \<Longrightarrow> task_at (with_task i f c) j = (if j = i then f (task_at c i) else task_at c j)"
  by (simp add: task_at_def with_task_def)

lemma with_task_fields [simp]:
  "uc_ram (with_task i f c) = uc_ram c" "uc_kernel_cr3 (with_task i f c) = uc_kernel_cr3 c"
  "uc_ipv4 (with_task i f c) = uc_ipv4 c" "uc_consoles (with_task i f c) = uc_consoles c"
  "uc_filesystem_buffer (with_task i f c) = uc_filesystem_buffer c" "uc_path_buffer (with_task i f c) = uc_path_buffer c"
  "uc_entropy (with_task i f c) = uc_entropy c" "uc_next_slot (with_task i f c) = uc_next_slot c"
  "uc_active_task (with_task i f c) = uc_active_task c" "length (uc_tasks (with_task i f c)) = length (uc_tasks c)"
  "uc_available (with_task i f c) = uc_available c" "uc_filesystem (with_task i f c) = uc_filesystem c"
  by (simp_all add: with_task_def)

lemma tasks_ball: "length (uc_tasks c) = 4 \<Longrightarrow> (\<forall>t\<in>set (uc_tasks c). P t) \<longleftrightarrow> (\<forall>i<4. P (task_at c i))"
  by (auto simp: all_set_conv_all_nth task_at_def)

lemma within_task_update:
  assumes ok: "core_ok T c" and i: "i < 4"
    and f: "tk_address_space (f (task_at c i)) = space_at c i" "tk_network (f (task_at c i)) = tk_network (task_at c i)"
      "task_ok (f (task_at c i))" "\<forall>n. tk_console (f (task_at c i)) = Some n \<longrightarrow> n < length (uc_consoles c)"
  shows "within_task T i c (with_task i f c)"
proof -
  note p = core_parts [OF ok]
  have len: "i < length (uc_tasks c)" using p(2) i by simp
  have conf: "confined i c (with_task i f c)"
    using f(1) len by (simp add: confined_def with_task_at space_at_def)
  have own: "owners_of (with_task i f c) = owners_of c"
    unfolding confined_owners [OF conf] using f(2) len by (simp add: with_task_at owners_of_def list_update_same_conv)
      (simp add: task_at_def)
  note net = network_same [OF _ own]
  have "core_ok T (with_task i f c)"
    using ok p confined_memory [OF p(1) i conf] f(3,4) len
    by (auto simp: core_ok_def net tasks_ball with_task_at)
  then show ?thesis using conf net by (auto simp: within_task_def)
qed

lemma within_ram:
  assumes ok: "core_ok T c" and i: "i < 4" and m: "\<forall>a. m a \<noteq> uc_ram c a \<longrightarrow> in_pages (as_stack_physical (space_at c i)) a"
  shows "within_task T i c (c\<lparr>uc_ram := m\<rparr>)"
proof -
  have conf: "confined i c (c\<lparr>uc_ram := m\<rparr>)" using m by (simp add: confined_def space_at_def task_at_def)
  have "owners_of (c\<lparr>uc_ram := m\<rparr>) = owners_of c" by (simp add: owners_of_def)
  note network_same [OF _ this]
  then show ?thesis
    using ok conf confined_memory [OF core_parts(1) [OF ok] i conf] by (auto simp: within_task_def core_ok_def)
qed

section \<open>The network of a task\<close>

lemma with_network_task:
  assumes "i < length (uc_tasks c)"
  shows "task_at (with_network i st ow c) j = (if j = i then (task_at c i)\<lparr>tk_network := ow\<rparr> else task_at c j)"
  using assms by (simp add: with_network_def task_at_def with_task_def)

lemma with_network_fields [simp]:
  "uc_ram (with_network i st ow c) = uc_ram c" "uc_active_task (with_network i st ow c) = uc_active_task c"
  "uc_ipv4 (with_network i st ow c) = st" "length (uc_tasks (with_network i st ow c)) = length (uc_tasks c)"
  "uc_filesystem_buffer (with_network i st ow c) = uc_filesystem_buffer c"
  by (simp_all add: with_network_def with_task_def)

lemma within_network:
  assumes ok: "core_ok T c" and i: "i < 4"
    and none: "uc_ipv4 c = None \<Longrightarrow> st = None \<and> length (ow_handles ow) = 2 \<and> empty_owner ow"
    and some: "\<And>s. uc_ipv4 c = Some s \<Longrightarrow>
      \<exists>s'. st = Some s' \<and> owned s' ((owners_of c)[i := ow]) \<and> isolated i (owners_of c) s s'"
  shows "within_task T i c (with_network i st ow c)"
proof -
  let ?c = "with_network i st ow c"
  note p = core_parts [OF ok]
  have len: "i < length (uc_tasks c)" using p(2) i by simp
  have conf: "confined i c ?c"
    using len by (simp add: confined_def with_network_task space_at_def) (simp add: with_network_def)
  have own: "owners_of ?c = (owners_of c)[i := ow]"
    unfolding confined_owners [OF conf] using len by (simp add: with_network_task)
  have net: "network_ok ?c \<and> network_apart i c ?c"
  proof (cases "uc_ipv4 c")
    case None
    then have "\<forall>x\<in>set (owners_of c). length (ow_handles x) = 2 \<and> empty_owner x"
      using p(3) by (simp add: network_ok_def)
    then have "\<forall>x\<in>set (owners_of ?c). length (ow_handles x) = 2 \<and> empty_owner x"
      using none [OF None] set_update_subset_insert [of "owners_of c" i ow] unfolding own by blast
    then show ?thesis using None none by (simp add: network_ok_def network_apart_def)
  next
    case (Some s)
    from some [OF Some] show ?thesis using Some own by (auto simp: network_ok_def network_apart_def)
  qed
  have "task_ok (t\<lparr>tk_network := ow\<rparr>) = task_ok t" for t by (simp add: task_ok_def)
  then have "core_ok T ?c"
    using ok net p confined_memory [OF p(1) i conf] len
    by (auto simp: core_ok_def tasks_ball with_network_task) (simp_all add: with_network_def)
  then show ?thesis using conf net by (simp add: within_task_def)
qed

lemma owner_at: "core_ok T c \<Longrightarrow> i < 4 \<Longrightarrow> owners_of c ! i = network_of c i \<and> i < length (owners_of c)"
  by (simp add: owners_of_def network_of_def task_at_def core_parts(2))

text \<open>A call of the program on the network, and the cleanup after it.\<close>

lemma within_call:
  assumes ok: "core_ok T c" and i: "i < 4"
    and none: "uc_ipv4 c = None \<Longrightarrow> st = None \<and> ow = network_of c i"
    and some: "\<And>s. uc_ipv4 c = Some s \<Longrightarrow> \<exists>s'. st = Some s' \<and> awp_call s (network_of c i) s' ow"
  shows "within_task T i c (with_network i st ow c)"
proof (rule within_network [OF ok i])
  note o = owner_at [OF ok i]
  show "st = None \<and> length (ow_handles ow) = 2 \<and> empty_owner ow" if "uc_ipv4 c = None"
    using that none core_parts(3) [OF ok] o by (auto simp: network_ok_def) (metis nth_mem)+
  show "\<exists>s'. st = Some s' \<and> owned s' ((owners_of c)[i := ow]) \<and> isolated i (owners_of c) s s'" if s: "uc_ipv4 c = Some s" for s
  proof -
    have ow: "owned s (owners_of c)" using core_parts(3) [OF ok] s by (simp add: network_ok_def)
    obtain s' where c: "st = Some s'" "awp_call s (owners_of c ! i) s' ow" using some [OF s] o by auto
    have "isolated i (owners_of c) s s'"
      using call_effect [OF c(2) owned_owner [OF ow]] tcp_isolated [OF ow] udp_isolated [OF ow] o by blast
    then show ?thesis using c owned_call [OF ow _ c(2)] o by blast
  qed
qed

lemma clear_idem: "clear_handle (clear_handle h) = clear_handle h"
  by (simp add: clear_handle_def)

lemma cleanup_result:
  assumes "length (ow_handles ow) = 2" "arwill_awp_network_cleanup st ow = (st', ow')"
  shows "arwill_awp_network_owner_init ow' = ow' \<and> length (ow_handles ow') = 2 \<and> empty_owner ow' \<and> (st = None \<longrightarrow> st' = None)"
proof -
  obtain a b where ab: "ow_handles ow = [a, b]"
    using assms(1) by (cases "ow_handles ow"; cases "tl (ow_handles ow)") auto
  have "ow' = ow\<lparr>ow_handles := [clear_handle a, clear_handle b], ow_udp := None, ow_udp_local_port := 0,
      ow_udp_bound := False, ow_udp_connecting := False\<rparr>" "st = None \<longrightarrow> st' = None"
    using assms(2) ab
    by (auto simp: arwill_awp_network_cleanup_def release_handle_def with_handle_def handle_at_def upt_conv_Cons
        numeral_2_eq_2 split: option.splits prod.splits)
  then show ?thesis
    by (simp add: arwill_awp_network_owner_init_def clear_idem empty_owner_def handle_at_def clear_handle_def less_2_cases_iff)
qed

lemma cleanup_eq:
  "cleanup_task_network c i = (case arwill_awp_network_cleanup (uc_ipv4 c) (network_of c i) of
     (st, ow) \<Rightarrow> with_network i st ow c)"
  by (simp add: cleanup_task_network_def with_network_def network_of_def)

lemma cleanup_isolated:
  assumes o: "owned s os" and k: "k < length os" and c: "arwill_awp_network_cleanup (Some s) (os ! k) = (st, ow)"
  shows "\<exists>s'. st = Some s' \<and> owned s' (os[k := ow]) \<and> isolated k os s s'"
proof -
  obtain s1 s2 s3 ow1 ow2 ow3 where e: "tcp_effect s (os ! k) s1 ow1" "tcp_effect s1 ow1 s2 ow2" "udp_effect s2 ow2 s3 ow3"
    and c': "arwill_awp_network_cleanup (Some s) (os ! k) = (Some s3, ow3)"
    and os: "owned s1 (os[k := ow1])" "owned s2 (os[k := ow2])" "owned s3 (os[k := ow3])"
    by (rule cleanup_effects [OF o k])
  have "isolated k os s s1" "isolated k os s1 s2" "isolated k os s2 s3"
    using tcp_isolated [OF o k e(1)] tcp_isolated [OF os(1), of k s2 ow2] udp_isolated [OF os(2), of k s3 ow3] e k
    by (simp_all add: isolated_update)
  then show ?thesis using isolated_trans os(3) c c' by (metis Pair_inject)
qed

lemma owner_length:
  assumes "core_ok T c" "i < 4"
  shows "length (ow_handles (network_of c i)) = 2"
proof -
  have "network_of c i \<in> set (owners_of c)" using owner_at [OF assms] by (metis nth_mem)
  then show ?thesis using core_parts(3) [OF assms(1)] by (auto simp: network_ok_def owned_def split: option.splits)
qed

lemma within_cleanup:
  assumes ok: "core_ok T c" and i: "i < 4"
  obtains st ow where "cleanup_task_network c i = with_network i st ow c" "arwill_awp_network_owner_init ow = ow"
    "empty_owner ow" "length (ow_handles ow) = 2" "within_task T i c (with_network i st ow c)"
proof -
  obtain st ow where c: "arwill_awp_network_cleanup (uc_ipv4 c) (network_of c i) = (st, ow)" by fastforce
  note r = cleanup_result [OF owner_length [OF ok i] c]
  note o = owner_at [OF ok i]
  have "within_task T i c (with_network i st ow c)"
  proof (rule within_network [OF ok i])
    show "\<exists>s'. st = Some s' \<and> owned s' ((owners_of c)[i := ow]) \<and> isolated i (owners_of c) s s'" if "uc_ipv4 c = Some s" for s
      using cleanup_isolated [of s "owners_of c" i st ow] core_parts(3) [OF ok] that o c by (simp add: network_ok_def)
  qed (use r in auto)
  then show ?thesis using that [of st ow] r c by (simp add: cleanup_eq)
qed

end
