(* ===== verification/User_Calls.thy ===== *)
theory User_Calls
  imports User_Isolation
begin

text \<open>
  Every system call stays within the task that makes it: what each handler of
  \<open>User_Syscall\<close> returns and changes.
\<close>

section \<open>Changes that leave the task running\<close>

definition quiet :: "u64 set \<Rightarrow> nat \<Rightarrow> ('n, 'k, 'f) x86_64_user_context \<Rightarrow> ('n, 'k, 'f) x86_64_user_context \<Rightarrow> bool" where
  "quiet T i c c' \<longleftrightarrow> within_task T i c c' \<and> uc_active_task c' = uc_active_task c \<and>
     tk_state (task_at c' i) = tk_state (task_at c i)"

text \<open>The outcome of a handler: it returns, and the task runs on or has been put aside.\<close>

definition call_ok :: "u64 set \<Rightarrow> nat \<Rightarrow> ('n, 'k, 'f) x86_64_user_context \<Rightarrow> ('n, 'k, 'f) handled \<Rightarrow> bool" where
  "call_ok T i c res \<longleftrightarrow> (\<exists>r rg c'. res = Some (r, rg, c') \<and> within_task T i c c' \<and>
     (if r then uc_active_task c' = None \<and> tk_state (task_at c' i) \<noteq> Task_running
      else uc_active_task c' = uc_active_task c \<and> tk_state (task_at c' i) = tk_state (task_at c i)))"

lemma call_ok_Some:
  "call_ok T i c (Some (r, rg, c')) \<longleftrightarrow> within_task T i c c' \<and>
     (if r then uc_active_task c' = None \<and> tk_state (task_at c' i) \<noteq> Task_running
      else uc_active_task c' = uc_active_task c \<and> tk_state (task_at c' i) = tk_state (task_at c i))"
  by (simp add: call_ok_def)

lemma quiet_core: "quiet T i c c' \<Longrightarrow> core_ok T c'"
  by (simp add: quiet_def within_task_def)

lemma quiet_refl: "core_ok T c \<Longrightarrow> i < 4 \<Longrightarrow> quiet T i c c"
  by (simp add: quiet_def within_refl)

lemma quiet_trans: "quiet T i c c1 \<Longrightarrow> quiet T i c1 c2 \<Longrightarrow> quiet T i c c2"
  using within_trans by (fastforce simp: quiet_def)

lemma quiet_fields:
  assumes "quiet T i c0 c" "i < 4" "uc_tasks c' = uc_tasks c" "uc_ram c' = uc_ram c" "uc_kernel_cr3 c' = uc_kernel_cr3 c"
    "uc_ipv4 c' = uc_ipv4 c" "length (uc_consoles c') = length (uc_consoles c)" "uc_active_task c' = uc_active_task c"
    "length (uc_filesystem_buffer c') = length (uc_filesystem_buffer c)"
    "length (uc_path_buffer c') = length (uc_path_buffer c)" "entropy_ok (uc_entropy c) \<longrightarrow> entropy_ok (uc_entropy c')"
    "uc_next_slot c' = uc_next_slot c"
  shows "quiet T i c0 c'"
proof -
  note p = core_parts [OF quiet_core [OF assms(1)]]
  have "within_task T i c c'" by (rule within_fields [OF quiet_core [OF assms(1)] assms(2)]) (use assms p in simp_all)
  then have "quiet T i c c'" using assms by (simp add: quiet_def task_at_def)
  then show ?thesis using quiet_trans assms(1) by blast
qed

lemma quiet_update:
  assumes q: "quiet T i c0 c" and i: "i < 4"
    and f: "\<And>t. tk_address_space (f t) = tk_address_space t" "\<And>t. tk_network (f t) = tk_network t"
      "\<And>t. tk_console (f t) = tk_console t" "\<And>t. tk_state (f t) = tk_state t"
      "task_ok (task_at c i) \<Longrightarrow> task_ok (f (task_at c i))"
  shows "quiet T i c0 (with_task i f c)"
proof -
  note p = core_parts [OF quiet_core [OF q]]
  have "within_task T i c (with_task i f c)"
    by (rule within_task_update [OF quiet_core [OF q] i]) (use f p i in \<open>simp_all add: space_at_def\<close>)
  then have "quiet T i c (with_task i f c)" using f p i by (simp add: quiet_def with_task_at)
  then show ?thesis using quiet_trans q by blast
qed

lemma quiet_copy:
  assumes q: "quiet T i c0 c" and i: "i < 4" and c: "copy_to_task c i p src n = (ok, c')"
  shows "quiet T i c0 c'"
proof -
  note co = quiet_core [OF q]
  obtain m where m: "c' = c\<lparr>uc_ram := m\<rparr>"
      "\<And>a. m a \<noteq> uc_ram c a \<Longrightarrow> \<exists>v. in_stack v \<and> a = stack_byte (space_at c i) v"
  proof (cases "user_range_writable p (of_nat n)")
    case True
    obtain ok m where e: "copy_bytes_from (task_at c i) p 0 (take n src) (uc_ram c) = (ok, m)" by fastforce
    then have "c' = c\<lparr>uc_ram := m\<rparr>" using c True by (simp add: copy_to_task_def)
    then show ?thesis using that copy_bytes_confined [OF e] by (auto simp: space_at_def)
  qed (use c that [of "uc_ram c"] in \<open>simp add: copy_to_task_def\<close>)
  have "within_task T i c c'"
    unfolding m(1) by (rule within_ram [OF co i]) (use m(2) stack_page_ok [OF core_parts(1) [OF co] i] in blast)
  then have "quiet T i c c'" by (simp add: quiet_def m(1) task_at_def)
  then show ?thesis using quiet_trans q by blast
qed

lemma quiet_network:
  assumes q: "quiet T i c0 c" and i: "i < 4"
    and none: "uc_ipv4 c = None \<Longrightarrow> st = None \<and> ow = network_of c i"
    and some: "\<And>s. uc_ipv4 c = Some s \<Longrightarrow> \<exists>s'. st = Some s' \<and> awp_call s (network_of c i) s' ow"
  shows "quiet T i c0 (with_network i st ow c)"
proof -
  note p = core_parts [OF quiet_core [OF q]]
  have "within_task T i c (with_network i st ow c)" by (rule within_call [OF quiet_core [OF q] i none some])
  then have "quiet T i c (with_network i st ow c)" using p(2) i by (simp add: quiet_def with_network_task)
  then show ?thesis using quiet_trans q by blast
qed

section \<open>Ends of a call\<close>

lemma call_value: "quiet T i c c' \<Longrightarrow> call_ok T i c (return_value rg v c')"
  by (simp add: call_ok_Some return_value_def quiet_def)

text \<open>The task is put aside.\<close>

lemma call_leave:
  assumes q: "quiet T i c0 c" and i: "i < 4"
    and f: "\<And>t. tk_address_space (f t) = tk_address_space t" "\<And>t. tk_network (f t) = tk_network t"
      "\<And>t. tk_console (f t) = tk_console t" "\<And>t. tk_state (f t) \<noteq> Task_running"
      "task_ok (task_at c i) \<Longrightarrow> task_ok (f (task_at c i))"
    and c': "uc_tasks c' = uc_tasks (with_task i f c)" "uc_ram c' = uc_ram c" "uc_kernel_cr3 c' = uc_kernel_cr3 c"
      "uc_ipv4 c' = uc_ipv4 c" "uc_consoles c' = uc_consoles c" "uc_active_task c' = None"
      "uc_filesystem_buffer c' = uc_filesystem_buffer c" "uc_path_buffer c' = uc_path_buffer c"
      "uc_entropy c' = uc_entropy c" "uc_next_slot c' = uc_next_slot c"
  shows "call_ok T i c0 (Some (True, rg, c'))"
proof -
  note p = core_parts [OF quiet_core [OF q]]
  have w: "within_task T i c (with_task i f c)"
    by (rule within_task_update [OF quiet_core [OF q] i]) (use f p i in \<open>simp_all add: space_at_def\<close>)
  then have "core_ok T (with_task i f c)" by (simp add: within_task_def)
  then have "within_task T i (with_task i f c) c'" by (rule within_fields) (use i c' p in simp_all)
  then have "within_task T i c0 c'" using w q within_trans unfolding quiet_def by blast
  moreover have "task_at c' i = f (task_at c i)" using c'(1) p(2) i by (simp add: task_at_def with_task_def)
  ultimately show ?thesis using c'(6) f(4) by (simp add: call_ok_Some)
qed

lemma call_result:
  assumes q: "quiet T i c c'" and i: "i < 4"
  shows "call_ok T i c (return_network_result i rg fr r c')"
proof (cases "r = arwill_awp_network_retry")
  case True
  then show ?thesis
    unfolding return_network_result_def Let_def
    by (simp, intro call_leave [OF q i, where f = "\<lambda>task. (copy_active_context (rg\<lparr>rg_rax := - 1\<rparr>) fr task)
        \<lparr>tk_state := Task_ready, tk_status := ''network retry''\<rparr>"])
      (auto simp: copy_active_context_def task_ok_def)
next
  case False
  then show ?thesis using q by (simp add: return_network_result_def call_ok_Some quiet_def)
qed

text \<open>A task that ends: its context is saved, its network is cleaned up, its state is set.\<close>

lemma quiet_cleanup:
  assumes q: "quiet T i c0 c" and i: "i < 4"
  shows "quiet T i c0 (cleanup_task_network c i)"
proof -
  note co = quiet_core [OF q]
  obtain st ow where e: "cleanup_task_network c i = with_network i st ow c" "within_task T i c (with_network i st ow c)"
    by (rule within_cleanup [OF co i])
  then have "quiet T i c (cleanup_task_network c i)"
    using core_parts(2) [OF co] i by (simp add: quiet_def with_network_task)
  then show ?thesis using quiet_trans q by blast
qed

lemma quiet_save:
  assumes "quiet T i c0 c" "i < 4"
  shows "quiet T i c0 (with_task i (copy_active_context rg fr) c)"
  by (rule quiet_update [OF assms]) (simp_all add: copy_active_context_def task_ok_def)

lemma call_end:
  assumes q: "quiet T i c0 c" and i: "i < 4"
    and f: "\<And>t. tk_address_space (f t) = tk_address_space t" "\<And>t. tk_network (f t) = tk_network t"
      "\<And>t. tk_console (f t) = tk_console t" "\<And>t. tk_state (f t) \<in> {Task_finished, Task_faulted}"
      "\<And>t. tk_input (f t) = tk_input t \<and> tk_input_head (f t) = tk_input_head t \<and> tk_input_count (f t) = tk_input_count t \<and>
         tk_name (f t) = tk_name t \<and> tk_argument (f t) = tk_argument t \<and> tk_argument_length (f t) = tk_argument_length t"
    and c': "c' = c1\<lparr>uc_faults := n, uc_active_task := None\<rparr> \<or> c' = c1\<lparr>uc_active_task := None\<rparr>"
      "c1 = with_task i f (cleanup_task_network (with_task i (copy_active_context rg fr) c) i)"
  shows "call_ok T i c0 (Some (True, rg', c'))"
proof (rule call_leave [OF quiet_cleanup [OF quiet_save [OF q i] i] i, where f = f])
  show "task_ok t \<Longrightarrow> task_ok (f t)" for t using f(4,5) [of t] by (auto simp: task_ok_def)
  show "tk_state (f t) \<noteq> Task_running" for t using f(4) [of t] by auto
qed (use f(1-3) c' in auto)

lemma call_bad_pointer: "quiet T i c0 c \<Longrightarrow> i < 4 \<Longrightarrow> call_ok T i c0 (bad_user_pointer i rg fr c)"
  unfolding bad_user_pointer_def Let_def by (rule call_end [OF _ _ _ _ _ _ _ disjI1 [OF refl] refl]) simp_all

section \<open>Input\<close>

text \<open>The queued bytes of a task, oldest first.\<close>

definition queued :: "x86_64_user_task \<Rightarrow> bytes" where
  "queued t = ring_list (tk_input t) (tk_input_head t) (tk_input_count t)"

definition taken :: "nat \<Rightarrow> x86_64_user_task \<Rightarrow> x86_64_user_task" where
  "taken n t = t\<lparr>tk_input_head := (tk_input_head t + n) mod user_input_capacity, tk_input_count := tk_input_count t - n\<rparr>"

lemma with_task_twice:
  "i < length (uc_tasks c) \<Longrightarrow> with_task i f ((with_task i g c)\<lparr>uc_ram := m\<rparr>) = with_task i (f \<circ> g) (c\<lparr>uc_ram := m\<rparr>)"
  by (simp add: with_task_def)

lemma copy_bytes_task_cong:
  "tk_address_space t' = tk_address_space t \<Longrightarrow> copy_bytes_from t' p idx bs m = copy_bytes_from t p idx bs m"
  by (induction bs arbitrary: idx m) (simp_all add: writable_pointer)

text \<open>Reading queued bytes is copying them to the task.\<close>

lemma read_pending_copy:
  assumes "i < length (uc_tasks c)" "t = task_at c i" "ring_ok user_input_capacity (tk_input t) (tk_input_head t) (tk_input_count t)"
    "n \<le> tk_input_count t" "\<forall>k<n. in_stack (tk_pending_read_pointer t + of_nat (idx + k))"
  shows "read_pending_from i [idx..<idx + n] c = (True, with_task i (taken n)
    (c\<lparr>uc_ram := snd (copy_bytes_from t (tk_pending_read_pointer t) idx (take n (queued t)) (uc_ram c))\<rparr>))"
  using assms
proof (induction n arbitrary: c t idx)
  case 0
  then have "tk_input_head t mod 128 = tk_input_head t" by (simp add: ring_ok_def)
  then have "taken 0 (uc_tasks c ! i) = uc_tasks c ! i" using 0 by (simp add: taken_def task_at_def)
  then show ?case by (simp add: with_task_def)
next
  case (Suc n)
  let ?d = "stack_byte (tk_address_space t) (tk_pending_read_pointer t + of_nat idx)"
  define c1 where "c1 = with_task i (taken 1) (c\<lparr>uc_ram := (uc_ram c)(?d := tk_input t ! tk_input_head t)\<rparr>)"
  define t1 where "t1 = taken 1 t"
  obtain n' where cnt: "tk_input_count t = Suc n'" using Suc.prems(4) by (cases "tk_input_count t") simp_all
  have s: "in_stack (tk_pending_read_pointer t + of_nat idx)"
      "\<forall>k<n. in_stack (tk_pending_read_pointer t + of_nat (Suc idx + k))"
    using Suc.prems(5) all_offsets_Suc [of n "\<lambda>k. in_stack (tk_pending_read_pointer t + of_nat k)" idx] by simp_all
  have at: "task_at c1 i = t1" using Suc.prems(1,2) by (simp add: c1_def t1_def task_at_def with_task_def)
  note pop = ring_pop [OF Suc.prems(3) [unfolded cnt]]
  have q: "queued t = tk_input t ! tk_input_head t # queued t1" using pop(1) cnt by (simp add: queued_def t1_def taken_def)
  have ok1: "ring_ok user_input_capacity (tk_input t1) (tk_input_head t1) (tk_input_count t1)"
    using pop(2) cnt by (simp add: t1_def taken_def)
  have p1: "tk_pending_read_pointer t1 = tk_pending_read_pointer t" "tk_address_space t1 = tk_address_space t"
    by (simp_all add: t1_def taken_def)
  have "read_pending_from i [idx..<idx + Suc n] c = read_pending_from i [Suc idx..<Suc idx + n] c1"
    using s(1) Suc.prems(2) by (simp add: upt_conv_Cons writable_pointer Let_def c1_def taken_def [abs_def] del: upt_Suc)
  also have "\<dots> = (True, with_task i (taken n)
      (c1\<lparr>uc_ram := snd (copy_bytes_from t1 (tk_pending_read_pointer t) (Suc idx) (take n (queued t1)) (uc_ram c1))\<rparr>))"
    unfolding p1(1) [symmetric]
  proof (rule Suc.IH)
    show "i < length (uc_tasks c1)" using Suc.prems(1) by (simp add: c1_def)
    show "n \<le> tk_input_count t1" using Suc.prems(4) by (simp add: t1_def taken_def)
  qed (use at ok1 s(2) p1 in simp_all)
  also have "copy_bytes_from t1 (tk_pending_read_pointer t) (Suc idx) (take n (queued t1)) (uc_ram c1) =
      copy_bytes_from t (tk_pending_read_pointer t) idx (take (Suc n) (queued t)) (uc_ram c)"
    using s(1) copy_bytes_task_cong [OF p1(2)] by (simp add: q writable_pointer c1_def)
  also have "with_task i (taken n) (c1\<lparr>uc_ram := m\<rparr>) = with_task i (taken (Suc n)) (c\<lparr>uc_ram := m\<rparr>)" for m
    using Suc.prems(1) by (simp add: c1_def with_task_def taken_def mod_Suc_eq mod_add_left_eq)
  finally show ?case .
qed

definition read_done :: "nat \<Rightarrow> x86_64_user_task \<Rightarrow> x86_64_user_task" where
  "read_done n t = (let t = (taken n t)\<lparr>tk_saved := (tk_saved t)\<lparr>sv_registers :=
       (sv_registers (tk_saved t))\<lparr>rg_rax := of_nat n\<rparr>\<rparr>, tk_pending_read_pointer := 0, tk_pending_read_length := 0\<rparr>
     in if tk_state t = Task_blocked_input then t\<lparr>tk_state := Task_ready, tk_status := ''ready''\<rparr> else t)"

definition read_memory :: "('n, 'k, 'f) x86_64_user_context \<Rightarrow> nat \<Rightarrow> nat \<Rightarrow> ram" where
  "read_memory c i n = snd (copy_bytes_from (task_at c i) (tk_pending_read_pointer (task_at c i)) 0
     (take n (queued (task_at c i))) (uc_ram c))"

lemma complete_read:
  assumes i: "i < length (uc_tasks c)" and t: "t = task_at c i"
    and ring: "ring_ok user_input_capacity (tk_input t) (tk_input_head t) (tk_input_count t)"
    and w: "user_range_writable (tk_pending_read_pointer t) (tk_pending_read_length t)"
    and n: "n = min (tk_input_count t) (unat (tk_pending_read_length t))"
  shows "complete_pending_read c i = (n, with_task i (read_done n) (c\<lparr>uc_ram := read_memory c i n\<rparr>))"
proof -
  have "unat (of_nat (tk_input_count t) :: u64) = tk_input_count t" using ring by (simp add: ring_ok_def unat_of_nat)
  then have count: "(if of_nat (tk_input_count t) > tk_pending_read_length t
      then unat (tk_pending_read_length t) else tk_input_count t) = n"
    using n by (auto simp: word_less_nat_alt)
  have "\<forall>k<n. in_stack (tk_pending_read_pointer t + of_nat (0 + k))"
    using writable_in_stack [OF w] n by simp
  then have r: "read_pending_from i [0..<n] c = (True, with_task i (taken n) (c\<lparr>uc_ram := read_memory c i n\<rparr>))"
    using read_pending_copy [OF i t ring, of n 0] n t by (simp add: read_memory_def)
  show ?thesis
    unfolding complete_pending_read_def Let_def t [symmetric] count r
    using i by (simp add: task_at_def with_task_def read_done_def taken_def Let_def)
qed

lemma read_memory_stack:
  assumes "read_memory c i n a \<noteq> uc_ram c a"
  shows "\<exists>v. in_stack v \<and> a = stack_byte (space_at c i) v"
proof -
  obtain ok m where "copy_bytes_from (task_at c i) (tk_pending_read_pointer (task_at c i)) 0
     (take n (queued (task_at c i))) (uc_ram c) = (ok, m)" by fastforce
  then show ?thesis using copy_bytes_confined assms by (fastforce simp: read_memory_def space_at_def)
qed

lemma read_done_ok:
  assumes "task_ok t" "n \<le> tk_input_count t"
  shows "task_ok (read_done n t)"
proof -
  have "ring_ok user_input_capacity (tk_input t) ((tk_input_head t + n) mod user_input_capacity) (tk_input_count t - n)"
    using assms by (intro ring_skip(2)) (simp_all add: task_ok_def)
  then show ?thesis using assms(1) by (auto simp: task_ok_def read_done_def taken_def Let_def)
qed

lemma read_done_fields [simp]:
  "tk_address_space (read_done n t) = tk_address_space t" "tk_network (read_done n t) = tk_network t"
  "tk_console (read_done n t) = tk_console t"
  "tk_state (read_done n t) = (if tk_state t = Task_blocked_input then Task_ready else tk_state t)"
  by (simp_all add: read_done_def taken_def Let_def)

lemma within_read:
  assumes co: "core_ok T c" and i: "i < 4"
    and w: "user_range_writable (tk_pending_read_pointer (task_at c i)) (tk_pending_read_length (task_at c i))"
    and n: "n = min (tk_input_count (task_at c i)) (unat (tk_pending_read_length (task_at c i)))"
  obtains c' where "complete_pending_read c i = (n, c')" "within_task T i c c'"
    "uc_active_task c' = uc_active_task c" "task_at c' i = read_done n (task_at c i)" "uc_ram c' = read_memory c i n"
    "uc_tasks c' = (uc_tasks c)[i := read_done n (task_at c i)]"
proof -
  define c1 where "c1 = c\<lparr>uc_ram := read_memory c i n\<rparr>"
  define c' where "c' = with_task i (read_done n) c1"
  note p = core_parts [OF co]
  have len: "i < length (uc_tasks c)" using p(2) i by simp
  have tok: "task_ok (task_at c i)" by (rule p(4) [OF i])
  then have "complete_pending_read c i = (n, c')"
    unfolding c'_def c1_def by (intro complete_read [OF len refl _ w n]) (simp add: task_ok_def)
  moreover have w1: "within_task T i c c1"
    unfolding c1_def by (rule within_ram [OF co i]) (use read_memory_stack stack_page_ok [OF p(1) i] in blast)
  have "within_task T i c1 c'"
    unfolding c'_def
    by (rule within_task_update) (use w1 i tok read_done_ok n p(9) in \<open>auto simp: c1_def task_at_def space_at_def within_task_def\<close>)
  then have "within_task T i c c'" using w1 within_trans by blast
  ultimately show ?thesis using that [of c'] len by (simp add: c'_def c1_def task_at_def with_task_def)
qed

lemma call_read:
  assumes q: "quiet T i c0 c" and i: "i < 4" and running: "tk_state (task_at c i) = Task_running"
  shows "call_ok T i c0 (sys_read i rg fr c)"
proof -
  define len where "len = (if rg_rsi rg > user_write_limit then user_write_limit else rg_rsi rg)"
  define f where "f = (\<lambda>task :: x86_64_user_task. task\<lparr>tk_pending_read_pointer := rg_rdi rg, tk_pending_read_length := len\<rparr>)"
  note p = core_parts [OF quiet_core [OF q]]
  consider (bad) "\<not> user_range_writable (rg_rdi rg) len" | (zero) "user_range_writable (rg_rdi rg) len" "len = 0"
    | (data) "user_range_writable (rg_rdi rg) len" "len \<noteq> 0" "tk_input_count (task_at c i) \<noteq> 0"
    | (wait) "user_range_writable (rg_rdi rg) len" "len \<noteq> 0" "tk_input_count (task_at c i) = 0" by blast
  then show ?thesis
  proof cases
    case bad
    then show ?thesis using call_bad_pointer [OF q i] by (simp add: sys_read_def len_def Let_def)
  next
    case zero
    then show ?thesis using call_value [OF q] by (simp add: sys_read_def len_def Let_def)
  next
    case data
    have q1: "quiet T i c0 (with_task i f c)"
      by (rule quiet_update [OF q i]) (use running in \<open>auto simp: f_def task_ok_def\<close>)
    have at: "task_at (with_task i f c) i = f (task_at c i)" using p(2) i by (simp add: with_task_at)
    obtain n c' where r: "complete_pending_read (with_task i f c) i = (n, c')" "within_task T i (with_task i f c) c'"
        "uc_active_task c' = uc_active_task (with_task i f c)" "task_at c' i = read_done n (f (task_at c i))"
    proof (rule within_read [OF quiet_core [OF q1] i _ refl])
      show "user_range_writable (tk_pending_read_pointer (task_at (with_task i f c) i))
          (tk_pending_read_length (task_at (with_task i f c) i))" using data(1) at by (simp add: f_def)
    qed (use that at in metis)
    have "quiet T i (with_task i f c) c'" using r(2-4) at running by (simp add: quiet_def f_def)
    then have "quiet T i c0 c'" using quiet_trans q1 by blast
    then have "call_ok T i c0 (return_value rg (of_nat n) c')" by (rule call_value)
    then show ?thesis using data r(1) by (simp add: sys_read_def len_def [symmetric] f_def [symmetric] Let_def)
  next
    case wait
    then show ?thesis
      unfolding sys_read_def len_def [symmetric] Let_def
      by (simp, intro call_leave [OF q i, where f = "\<lambda>task. (copy_active_context rg fr task)
          \<lparr>tk_pending_read_pointer := rg_rdi rg, tk_pending_read_length := len, tk_state := Task_blocked_input,
           tk_status := ''waiting for input''\<rparr>"]) (auto simp: copy_active_context_def task_ok_def)
  qed
qed

section \<open>Console, files, random bytes\<close>

lemma call_write:
  assumes q: "quiet T i c0 c" and i: "i < 4"
  shows "call_ok T i c0 (sys_write i rg fr c)"
proof (cases "tk_console (task_at c i)")
  case None
  then show ?thesis using call_bad_pointer [OF q i] by (simp add: sys_write_def Let_def)
next
  case (Some n)
  define len where "len = (if rg_rsi rg > user_write_limit then user_write_limit else rg_rsi rg)"
  show ?thesis
  proof (cases "user_range_readable (rg_rdi rg) len")
    case True
    note load = load_bytes_mapped [OF core_parts(1) [OF quiet_core [OF q]] i True]
    have "quiet T i c0 (with_task i (\<lambda>task. task\<lparr>tk_bytes_written := tk_bytes_written task + len\<rparr>) c)"
      by (rule quiet_update [OF q i]) (simp_all add: task_ok_def)
    then show ?thesis
      unfolding sys_write_def len_def [symmetric] Let_def using Some True load
      by (simp, intro call_value) (rule quiet_fields [OF _ i], assumption, simp_all)
  qed (use Some call_bad_pointer [OF q i] in \<open>simp add: sys_write_def len_def Let_def\<close>)
qed

lemma call_exit: "quiet T i c0 c \<Longrightarrow> i < 4 \<Longrightarrow> call_ok T i c0 (sys_exit i rg fr c)"
  unfolding sys_exit_def Let_def by (rule call_end [OF _ _ _ _ _ _ _ disjI2 [OF refl] refl]) simp_all

lemma call_bad:
  assumes q: "quiet T i c0 c" and i: "i < 4"
  shows "call_ok T i c0 (bad_syscall i rg fr c)"
proof -
  have "quiet T i c0 (c\<lparr>uc_bad_syscalls := n\<rparr>)" for n by (rule quiet_fields [OF q i]) simp_all
  then show ?thesis
    unfolding bad_syscall_def Let_def by (rule call_end [OF _ _ _ _ _ _ _ disjI2 [OF refl] refl]) (simp_all add: i)
qed

lemma call_clock: "quiet T i c0 c \<Longrightarrow> i < 4 \<Longrightarrow> call_ok T i c0 (sys_clock rg c)"
  by (auto simp: sys_clock_def intro!: call_value elim!: quiet_fields split: prod.splits)

lemma call_realtime: "quiet T i c0 c \<Longrightarrow> i < 4 \<Longrightarrow> call_ok T i c0 (sys_realtime rg c)"
  by (auto simp: sys_realtime_def intro!: call_value elim!: quiet_fields split: prod.splits)

lemma call_argument: "quiet T i c0 c \<Longrightarrow> i < 4 \<Longrightarrow> call_ok T i c0 (sys_argument i rg c)"
  by (auto simp: sys_argument_def Let_def intro!: call_value dest: quiet_copy split: prod.splits)

lemma quiet_path:
  assumes q: "quiet T i c0 c" and i: "i < 4"
  obtains ok c' where "copy_user_path c i p n = Some (ok, c')" "quiet T i c0 c'"
    "uc_filesystem c' = uc_filesystem c" "uc_filesystem_buffer c' = uc_filesystem_buffer c"
proof -
  obtain ok buf where b: "copy_user_path c i p n = Some (ok, c\<lparr>uc_path_buffer := buf\<rparr>)"
      "length buf = length (uc_path_buffer c)"
    by (rule copy_user_path_total [OF core_parts(1) [OF quiet_core [OF q]] i])
  moreover have "quiet T i c0 (c\<lparr>uc_path_buffer := buf\<rparr>)" by (rule quiet_fields [OF q i]) (simp_all add: b(2))
  ultimately show ?thesis using that by simp
qed

lemma call_read_file:
  assumes q: "quiet T i c0 c" and i: "i < 4"
  shows "call_ok T i c0 (sys_read_file i rg c)"
proof -
  obtain ok c1 where p: "copy_user_path c i (rg_rdi rg) (rg_rsi rg) = Some (ok, c1)" "quiet T i c0 c1"
    by (rule quiet_path [OF q i])
  have q2: "quiet T i c0 (c1\<lparr>uc_filesystem := fs\<rparr>)" for fs by (rule quiet_fields [OF p(2) i]) simp_all
  show ?thesis
    unfolding sys_read_file_def Let_def p(1)
    by (auto intro!: call_value intro: q p(2) q2 dest: quiet_copy [OF q2 i] split: prod.splits option.splits)
qed

lemma call_write_file:
  assumes q: "quiet T i c0 c" and i: "i < 4"
  shows "call_ok T i c0 (sys_write_file i rg c)"
proof (cases "uc_filesystem c = None \<or> rg_rcx rg > user_file_limit")
  case True
  then show ?thesis using call_value [OF q] by (simp add: sys_write_file_def Let_def)
next
  case False
  then have len: "unat (rg_rcx rg) \<le> 2048" by (auto simp: word_less_nat_alt)
  obtain ok c1 where p: "copy_user_path c i (rg_rdi rg) (rg_rsi rg) = Some (ok, c1)" "quiet T i c0 c1"
    by (rule quiet_path [OF q i])
  show ?thesis
  proof (cases "ok \<and> user_range_readable (rg_rdx rg) (rg_rcx rg)")
    case True
    note load = load_bytes_mapped [OF core_parts(1) [OF quiet_core [OF p(2)]] i conjunct2 [OF True]]
    define bs where "bs = map (\<lambda>k. the (load_user c1 i (rg_rdx rg + of_nat k))) [0..<unat (rg_rcx rg)]"
    have "length (splice_at (uc_filesystem_buffer c1) 0 bs) = length (uc_filesystem_buffer c1)"
      using len core_parts(5) [OF quiet_core [OF p(2)]] by (simp add: splice_at_def bs_def)
    then have q2: "quiet T i c0 (c1\<lparr>uc_filesystem_buffer := splice_at (uc_filesystem_buffer c1) 0 bs, uc_filesystem := fs\<rparr>)"
        "quiet T i c0 (c1\<lparr>uc_filesystem_buffer := splice_at (uc_filesystem_buffer c1) 0 bs, uc_filesystem := fs, uc_log := l\<rparr>)"
      for fs l by (auto intro: quiet_fields [OF p(2) i])
    show ?thesis
      using False True unfolding sys_write_file_def Let_def p(1)
      by (auto simp: load bs_def [symmetric] intro!: call_value q2 split: prod.splits)
  next
    case False
    then show ?thesis
      using \<open>\<not> (uc_filesystem c = None \<or> rg_rcx rg > user_file_limit)\<close> call_value [OF p(2)]
      by (auto simp: sys_write_file_def Let_def p(1))
  qed
qed

lemma entropy_fill_length:
  assumes "entropy_ok e" "arwill_entropy_fill e (Some b) n = (ok, b', e')"
  shows "entropy_ok e' \<and> (\<exists>b2. b' = Some b2 \<and> length b2 = length b)"
proof (cases e)
  case (Some x)
  show ?thesis
  proof (cases "en_fill x")
    case f: (Some f)
    obtain ok2 b2 k2 where r: "f (en_context x) b n = (ok2, b2, k2)" by (cases "f (en_context x) b n")
    have "length (fst (snd (f (en_context x) b n))) = length b" using assms(1) Some f by (simp add: entropy_ok_def)
    then show ?thesis using assms Some f r by (auto simp: arwill_entropy_fill_def entropy_ok_def)
  qed (use assms Some in \<open>auto simp: arwill_entropy_fill_def\<close>)
qed (use assms in \<open>auto simp: arwill_entropy_fill_def\<close>)

lemma call_random:
  assumes q: "quiet T i c0 c" and i: "i < 4"
  shows "call_ok T i c0 (sys_random_fill i rg c)"
proof -
  define len where "len = (if rg_rsi rg > user_write_limit then user_write_limit else rg_rsi rg)"
  obtain ok b e where f: "arwill_entropy_fill (uc_entropy c) (Some (uc_filesystem_buffer c)) (unat len) = (ok, b, e)"
    by (cases "arwill_entropy_fill (uc_entropy c) (Some (uc_filesystem_buffer c)) (unat len)")
  note l = entropy_fill_length [OF core_parts(7) [OF quiet_core [OF q]] f]
  have q1: "quiet T i c0 (c\<lparr>uc_entropy := e, uc_filesystem_buffer := the b\<rparr>)"
    by (rule quiet_fields [OF q i]) (use l in auto)
  show ?thesis
    unfolding sys_random_fill_def len_def [symmetric] Let_def f
    by (auto intro!: call_value intro: q q1 dest: quiet_copy [OF q1 i] split: prod.splits)
qed

section \<open>The network\<close>

text \<open>The calls of the network layer are those of \<open>awp_call\<close>; without a stack they change nothing.\<close>

lemma stack_stays:
  "arwill_awp_network_open (Some s) ow = (r, st', ow') \<Longrightarrow> \<exists>s'. st' = Some s'"
  "arwill_awp_network_bind (Some s) ow v port = (r, st', ow') \<Longrightarrow> \<exists>s'. st' = Some s'"
  "arwill_awp_network_listen (Some s) ow v = (r, st', ow') \<Longrightarrow> \<exists>s'. st' = Some s'"
  "arwill_awp_network_connect (Some s) ow v peer port = (r, st', ow') \<Longrightarrow> \<exists>s'. st' = Some s'"
  "arwill_awp_network_close (Some s) ow v = (r, st', ow') \<Longrightarrow> \<exists>s'. st' = Some s'"
  "arwill_awp_udp_open (Some s) ow = (r, st', ow') \<Longrightarrow> \<exists>s'. st' = Some s'"
  "arwill_awp_udp_bind (Some s) ow port = (r, st', ow') \<Longrightarrow> \<exists>s'. st' = Some s'"
  "arwill_awp_udp_connect (Some s) ow peer port = (r, st', ow') \<Longrightarrow> \<exists>s'. st' = Some s'"
  "arwill_awp_udp_send (Some s) ow data n = (r, st') \<Longrightarrow> \<exists>s'. st' = Some s'"
  "arwill_awp_udp_receive (Some s) ow data n = (r, b, st') \<Longrightarrow> \<exists>s'. st' = Some s'"
  "arwill_awp_udp_close (Some s) ow = (r, st', ow') \<Longrightarrow> \<exists>s'. st' = Some s'"
  by (auto simp: arwill_awp_network_open_def arwill_awp_network_bind_def arwill_awp_network_listen_def
      arwill_awp_network_connect_def arwill_awp_network_close_def arwill_awp_udp_open_def arwill_awp_udp_bind_def
      arwill_awp_udp_connect_def arwill_awp_udp_send_def arwill_awp_udp_receive_def arwill_awp_udp_close_def Let_def
      split: option.splits prod.splits if_splits)

lemma stack_calls:
  "arwill_awp_network_open (Some s) ow = (r, st', ow') \<Longrightarrow> \<exists>s'. st' = Some s' \<and> awp_call s ow s' ow'"
  "arwill_awp_network_bind (Some s) ow v port = (r, st', ow') \<Longrightarrow> \<exists>s'. st' = Some s' \<and> awp_call s ow s' ow'"
  "arwill_awp_network_listen (Some s) ow v = (r, st', ow') \<Longrightarrow> \<exists>s'. st' = Some s' \<and> awp_call s ow s' ow'"
  "arwill_awp_network_connect (Some s) ow v peer port = (r, st', ow') \<Longrightarrow> \<exists>s'. st' = Some s' \<and> awp_call s ow s' ow'"
  "arwill_awp_network_close (Some s) ow v = (r, st', ow') \<Longrightarrow> \<exists>s'. st' = Some s' \<and> awp_call s ow s' ow'"
  "arwill_awp_udp_open (Some s) ow = (r, st', ow') \<Longrightarrow> \<exists>s'. st' = Some s' \<and> awp_call s ow s' ow'"
  "arwill_awp_udp_bind (Some s) ow port = (r, st', ow') \<Longrightarrow> \<exists>s'. st' = Some s' \<and> awp_call s ow s' ow'"
  "arwill_awp_udp_connect (Some s) ow peer port = (r, st', ow') \<Longrightarrow> \<exists>s'. st' = Some s' \<and> awp_call s ow s' ow'"
  "arwill_awp_udp_close (Some s) ow = (r, st', ow') \<Longrightarrow> \<exists>s'. st' = Some s' \<and> awp_call s ow s' ow'"
  by (frule stack_stays, clarsimp, erule awp_call.intros)+

lemma no_stack_calls:
  "arwill_awp_network_open None ow = (r, st', ow') \<Longrightarrow> st' = None \<and> ow' = ow"
  "arwill_awp_network_bind None ow v port = (r, st', ow') \<Longrightarrow> st' = None \<and> ow' = ow"
  "arwill_awp_network_listen None ow v = (r, st', ow') \<Longrightarrow> st' = None \<and> ow' = ow"
  "arwill_awp_network_connect None ow v peer port = (r, st', ow') \<Longrightarrow> st' = None \<and> ow' = ow"
  "arwill_awp_network_close None ow v = (r, st', ow') \<Longrightarrow> st' = None \<and> ow' = ow"
  "arwill_awp_udp_open None ow = (r, st', ow') \<Longrightarrow> st' = None \<and> ow' = ow"
  "arwill_awp_udp_bind None ow port = (r, st', ow') \<Longrightarrow> st' = None \<and> ow' = ow"
  "arwill_awp_udp_connect None ow peer port = (r, st', ow') \<Longrightarrow> st' = None \<and> ow' = ow"
  "arwill_awp_udp_send None ow data n = (r, st') \<Longrightarrow> st' = None"
  "arwill_awp_udp_receive None ow data n = (r, b, st') \<Longrightarrow> st' = None \<and> b = data"
  "arwill_awp_udp_close None ow = (r, st', ow') \<Longrightarrow> st' = None \<and> ow' = ow"
  by (simp_all add: arwill_awp_network_open_def arwill_awp_network_bind_def arwill_awp_network_listen_def
      arwill_awp_network_connect_def arwill_awp_network_close_def arwill_awp_udp_open_def arwill_awp_udp_bind_def
      arwill_awp_udp_connect_def arwill_awp_udp_send_def arwill_awp_udp_receive_def arwill_awp_udp_close_def)

lemma call_networks:
  assumes q: "quiet T i c0 c" and i: "i < 4"
  shows "call_ok T i c0 (sys_net_open i rg c)" "call_ok T i c0 (sys_net_bind i rg c)"
    "call_ok T i c0 (sys_net_listen i rg c)" "call_ok T i c0 (sys_net_connect i rg fr c)"
    "call_ok T i c0 (sys_net_close i rg fr c)" "call_ok T i c0 (sys_udp_open i rg c)"
    "call_ok T i c0 (sys_udp_bind i rg c)" "call_ok T i c0 (sys_udp_connect i rg fr c)"
    "call_ok T i c0 (sys_udp_close i rg c)"
  unfolding sys_net_open_def sys_net_bind_def sys_net_listen_def sys_net_connect_def sys_net_close_def
    sys_udp_open_def sys_udp_bind_def sys_udp_connect_def sys_udp_close_def
  by (auto intro!: call_value call_result quiet_network [OF q i] i
      dest: no_stack_calls stack_calls split: prod.splits)

text \<open>Calls on the stack alone.\<close>

lemma with_network_own:
  "i < length (uc_tasks c) \<Longrightarrow> with_network i st (network_of c i) c = c\<lparr>uc_ipv4 := st\<rparr>"
  by (simp add: with_network_def with_task_def network_of_def task_at_def)

lemma quiet_stack:
  assumes q: "quiet T i c0 c" and i: "i < 4" and b: "length b = length (uc_filesystem_buffer c)"
    and none: "uc_ipv4 c = None \<Longrightarrow> st = None"
    and some: "\<And>s. uc_ipv4 c = Some s \<Longrightarrow> \<exists>s'. st = Some s' \<and> awp_call s (network_of c i) s' (network_of c i)"
  shows "quiet T i c0 (c\<lparr>uc_ipv4 := st, uc_filesystem_buffer := b\<rparr>)"
proof -
  have len: "i < length (uc_tasks c)" using core_parts(2) [OF quiet_core [OF q]] i by simp
  have "quiet T i c0 (c\<lparr>uc_ipv4 := st\<rparr>)"
    unfolding with_network_own [OF len, symmetric] by (rule quiet_network [OF q i]) (use none some in auto)
  then show ?thesis by (rule quiet_fields [OF _ i]) (simp_all add: b)
qed

lemma read_loop_length: "stream_read_loop cap n b s = (k, b', s') \<Longrightarrow> length b' = length b"
  by (induction cap n b s rule: stream_read_loop.induct)
    (metis (no_types, lifting) Pair_inject case_prod_conv length_list_update stream_read_loop.simps surj_pair)

lemma network_read_buffer:
  "arwill_awp_network_read s ow v (Some b) n = (r, b', s') \<Longrightarrow> \<exists>b2. b' = Some b2 \<and> length b2 = length b"
  by (auto simp: arwill_awp_network_read_def arwill_tcp_stream_read_def dest: read_loop_length
      split: option.splits prod.splits if_splits)

lemma udp_receive_buffer:
  "arwill_awp_udp_receive st ow (Some b) n = (r, b', st') \<Longrightarrow> n \<le> length b \<Longrightarrow> \<exists>b2. b' = Some b2 \<and> length b2 = length b"
  by (auto simp: arwill_awp_udp_receive_def arwill_ipv4_udp_receive_def Let_def
      split: option.splits prod.splits if_splits)

lemma call_received: "quiet T i c0 c \<Longrightarrow> i < 4 \<Longrightarrow> call_ok T i c0 (copy_received i rg fr p r c)"
  by (auto simp: copy_received_def intro!: call_value call_result dest: quiet_copy split: prod.splits)

lemma call_net_accept: "quiet T i c0 c \<Longrightarrow> i < 4 \<Longrightarrow> call_ok T i c0 (sys_net_accept i rg fr c)"
  by (simp add: sys_net_accept_def call_result)

lemma call_net_read:
  assumes q: "quiet T i c0 c" and i: "i < 4"
  shows "call_ok T i c0 (sys_net_read i rg fr c)"
proof -
  note len = core_parts(5) [OF quiet_core [OF q]]
  have "quiet T i c0 (c\<lparr>uc_ipv4 := Some s', uc_filesystem_buffer := the b\<rparr>)"
    if s: "uc_ipv4 c = Some s" "\<not> rg_rdx rg > of_nat arwill_awp_network_io_capacity"
      and r: "arwill_awp_network_read s (network_of c i) (rg_rdi rg) (Some (uc_filesystem_buffer c)) (unat (rg_rdx rg)) = (r, b, s')"
    for s r b s'
  proof (rule quiet_stack [OF q i])
    show "length (the b) = length (uc_filesystem_buffer c)" using network_read_buffer [OF r] by auto
    have "unat (rg_rdx rg) \<le> length (uc_filesystem_buffer c)" using s(2) len by (simp add: word_less_nat_alt)
    then show "\<exists>s2. Some s' = Some s2 \<and> awp_call s1 (network_of c i) s2 (network_of c i)" if "uc_ipv4 c = Some s1" for s1
      using awp_call.tcp_read [OF r] that s(1) by simp
  qed (use s in simp)
  then show ?thesis
    unfolding sys_net_read_def Let_def
    by (auto intro!: call_value call_result call_received intro: q i split: option.splits prod.splits)
qed

lemma call_net_write:
  assumes q: "quiet T i c0 c" and i: "i < 4"
  shows "call_ok T i c0 (sys_net_write i rg fr c)"
proof (cases "rg_rdx rg = 0 \<or> rg_rdx rg > of_nat arwill_awp_network_io_capacity \<or> \<not> user_range_readable (rg_rsi rg) (rg_rdx rg)")
  case True
  then show ?thesis using call_value [OF q] by (simp add: sys_net_write_def Let_def)
next
  case False
  note load = load_bytes_mapped [OF core_parts(1) [OF quiet_core [OF q]] i, of "rg_rsi rg" "rg_rdx rg"]
  define bs where "bs = map (\<lambda>k. the (load_user c i (rg_rsi rg + of_nat k))) [0..<unat (rg_rdx rg)]"
  have "quiet T i c0 (c\<lparr>uc_ipv4 := Some s'\<rparr>)"
    if s: "uc_ipv4 c = Some s" and w: "arwill_awp_network_write s (network_of c i) (rg_rdi rg) (Some bs) (unat (rg_rdx rg)) = (r, s')"
    for s r s'
  proof -
    have "length bs = unat (rg_rdx rg)" by (simp add: bs_def)
    then have "awp_call s (network_of c i) s' (network_of c i)" using awp_call.tcp_write [of s _ _ bs] w by simp
    then show ?thesis using quiet_stack [OF q i refl, of "Some s'"] s by simp
  qed
  then show ?thesis
    using False load
    by (auto simp: sys_net_write_def Let_def bs_def [symmetric] intro!: call_result intro: q i split: option.splits prod.splits)
qed

lemma call_udp_send:
  assumes q: "quiet T i c0 c" and i: "i < 4"
  shows "call_ok T i c0 (sys_udp_send i rg fr c)"
proof -
  note load = load_bytes_mapped [OF core_parts(1) [OF quiet_core [OF q]] i, of "rg_rdi rg" "rg_rsi rg"]
  have "quiet T i c0 (c\<lparr>uc_ipv4 := st\<rparr>)" if "arwill_awp_udp_send (uc_ipv4 c) (network_of c i) d n = (r, st)" for d n r st
    using quiet_stack [OF q i refl, of st] that no_stack_calls(9) stack_stays(9) awp_call.udp_send by fastforce
  then show ?thesis
    by (auto simp: sys_udp_send_def Let_def load intro!: call_value call_result intro: q i split: prod.splits)
qed

lemma call_udp_receive:
  assumes q: "quiet T i c0 c" and i: "i < 4"
  shows "call_ok T i c0 (sys_udp_receive i rg fr c)"
proof -
  have "quiet T i c0 (c\<lparr>uc_ipv4 := st, uc_filesystem_buffer := the b\<rparr>)"
    if n: "\<not> rg_rsi rg > of_nat arwill_awp_network_io_capacity"
      and r: "arwill_awp_udp_receive (uc_ipv4 c) (network_of c i) (Some (uc_filesystem_buffer c)) (unat (rg_rsi rg)) = (r, b, st)"
    for r b st
  proof (rule quiet_stack [OF q i])
    have "unat (rg_rsi rg) \<le> length (uc_filesystem_buffer c)"
      using n core_parts(5) [OF quiet_core [OF q]] by (simp add: word_less_nat_alt)
    then show "length (the b) = length (uc_filesystem_buffer c)" using udp_receive_buffer [OF r] by auto
    show "uc_ipv4 c = None \<Longrightarrow> st = None" using r no_stack_calls(10) by metis
    show "\<exists>s'. st = Some s' \<and> awp_call s (network_of c i) s' (network_of c i)" if "uc_ipv4 c = Some s" for s
      using r that stack_stays(10) awp_call.udp_receive by metis
  qed
  then show ?thesis
    unfolding sys_udp_receive_def Let_def
    by (auto intro!: call_value call_received intro: q i split: prod.splits)
qed

end
