(* ===== verification/User_Start.thy ===== *)
theory User_Start
  imports User_Calls
begin

text \<open>
  Starting a program: a task of the table is cleaned up, cleared and given a name, an argument
  and the code of an image, which the program then finds at its own addresses.
\<close>

section \<open>Writing the pages of one task\<close>

definition reloaded :: "nat \<Rightarrow> ('n, 'k, 'f) x86_64_user_context \<Rightarrow> ('n, 'k, 'f) x86_64_user_context \<Rightarrow> bool" where
  "reloaded i c c' \<longleftrightarrow> uc_kernel_cr3 c' = uc_kernel_cr3 c \<and> length (uc_tasks c') = length (uc_tasks c) \<and>
     (\<forall>j. j \<noteq> i \<longrightarrow> task_at c' j = task_at c j) \<and> space_at c' i = space_at c i \<and>
     uc_active_task c' = uc_active_task c \<and>
     (\<forall>a. uc_ram c' a \<noteq> uc_ram c a \<longrightarrow> in_pages (user_pages (space_at c i)) a)"

lemma reloaded_trans: "reloaded i c c1 \<Longrightarrow> reloaded i c1 c2 \<Longrightarrow> reloaded i c c2"
  unfolding reloaded_def by (metis (full_types))

lemma reloaded_spaces:
  assumes "reloaded i c c'"
  shows "spaces_of c' = spaces_of c"
proof (rule nth_equalityI)
  fix j assume "j < length (spaces_of c')"
  then show "spaces_of c' ! j = spaces_of c ! j"
    using assms by (cases "j = i") (simp_all add: reloaded_def spaces_of_def space_at_def task_at_def)
qed (use assms in \<open>simp add: reloaded_def spaces_of_def\<close>)

lemma reloaded_memory:
  assumes ok: "memory_ok T c" and i: "i < 4" and r: "reloaded i c c'"
  shows "memory_ok T c'"
proof -
  have "uc_ram c' a = uc_ram c a" if "a \<in> T" for a
  proof -
    have "\<not> in_pages (user_pages (space_at c i)) a" using that space_mapped(5) [OF ok i] by (auto simp: in_pages_def)
    then show ?thesis using r unfolding reloaded_def by blast
  qed
  then have "spaces_ok T (uc_ram c') (uc_kernel_cr3 c) (spaces_of c)"
    using ok spaces_agree by (auto simp: memory_ok_def)
  moreover have "uc_kernel_cr3 c' = uc_kernel_cr3 c" "length (uc_tasks c') = length (uc_tasks c)"
    using r by (simp_all add: reloaded_def)
  ultimately show ?thesis using ok reloaded_spaces [OF r] by (simp add: memory_ok_def)
qed

lemma quiet_reloaded: "quiet T i c c' \<Longrightarrow> reloaded i c c'"
  by (auto simp: quiet_def within_task_def confined_def reloaded_def in_pages_def user_pages_def)

text \<open>The task record changes but for its network, and memory in its own pages.\<close>

lemma core_reload:
  assumes ok: "core_ok T c" and i: "i < 4"
    and f: "tk_address_space (f (task_at c i)) = space_at c i" "tk_network (f (task_at c i)) = network_of c i"
      "task_ok (f (task_at c i))" "\<forall>n. tk_console (f (task_at c i)) = Some n \<longrightarrow> n < length (uc_consoles c)"
    and m: "\<forall>a. m a \<noteq> uc_ram c a \<longrightarrow> in_pages (user_pages (space_at c i)) a"
  shows "core_ok T (with_task i f (c\<lparr>uc_ram := m\<rparr>))" "reloaded i c (with_task i f (c\<lparr>uc_ram := m\<rparr>))"
    "network_apart i c (with_task i f (c\<lparr>uc_ram := m\<rparr>))"
proof -
  let ?c = "with_task i f (c\<lparr>uc_ram := m\<rparr>)"
  note p = core_parts [OF ok]
  have len: "i < length (uc_tasks c)" using p(2) i by simp
  have at: "task_at ?c j = (if j = i then f (task_at c i) else task_at c j)" for j
    using len by (simp add: task_at_def with_task_def)
  show r: "reloaded i c ?c" using f(1) m at by (simp add: reloaded_def space_at_def)
  have own: "owners_of ?c = owners_of c"
    using f(2) len by (simp add: owners_of_def with_task_def map_update network_of_def task_at_def list_update_same_conv)
  note net = network_same [OF _ own]
  show "network_apart i c ?c" by (rule net) simp
  show "core_ok T ?c"
    using ok p reloaded_memory [OF p(1) i r] f(3,4) net(1) at by (auto simp: core_ok_def tasks_ball)
qed

section \<open>Clearing\<close>

lemma clear_pages_at:
  assumes "\<forall>k<n. page_ok (ps ! k)"
  shows "foldl (\<lambda>m k. clear_page m (ps ! k)) m [0..<n] a = (if \<exists>k<n. in_page (ps ! k) a then 0 else m a)"
  using assms by (induction n) (auto simp: clear_page_at less_Suc_eq)

lemma in_pages_nth: "in_pages ps a \<longleftrightarrow> (\<exists>k<length ps. in_page (ps ! k) a)"
  by (auto simp: in_pages_def set_conv_nth)

definition cleared_ram :: "('n, 'k, 'f) x86_64_user_context \<Rightarrow> nat \<Rightarrow> ram" where
  "cleared_ram c i = (\<lambda>a. if in_pages (user_pages (space_at c i)) a then 0 else uc_ram c a)"

lemma reset_pages:
  assumes s: "length (as_code_physical (space_at c i)) = 48" "length (as_stack_physical (space_at c i)) = 24"
    "\<forall>p\<in>set (user_pages (space_at c i)). page_ok p"
  shows "reset_task_runtime c i = with_task i reset_task (c\<lparr>uc_ram := cleared_ram c i\<rparr>)"
proof -
  let ?s = "space_at c i"
  have pc: "\<forall>k<48. page_ok (as_code_physical ?s ! k)" and ps: "\<forall>k<24. page_ok (as_stack_physical ?s ! k)"
    using s by (simp_all add: user_pages_def)
  have up: "in_pages (user_pages ?s) a \<longleftrightarrow> (\<exists>k<48. in_page (as_code_physical ?s ! k) a) \<or>
      (\<exists>k<24. in_page (as_stack_physical ?s ! k) a)" for a
    using in_pages_nth [of "as_code_physical ?s" a] in_pages_nth [of "as_stack_physical ?s" a] s(1,2)
    by (auto simp: in_pages_def user_pages_def)
  have "foldl (\<lambda>m k. clear_page m (as_stack_physical ?s ! k))
      (foldl (\<lambda>m k. clear_page m (as_code_physical ?s ! k)) (uc_ram c) [0..<48]) [0..<24] = cleared_ram c i"
    by (rule ext) (simp add: clear_pages_at [OF ps] clear_pages_at [OF pc] cleared_ram_def up del: upt_rec_numeral, blast)
  then show ?thesis by (simp add: reset_task_runtime_def Let_def space_at_def [symmetric])
qed

lemma reset_eq:
  assumes "memory_ok T c" "i < 4"
  shows "reset_task_runtime c i = with_task i reset_task (c\<lparr>uc_ram := cleared_ram c i\<rparr>)"
  by (rule reset_pages) (rule space_mapped [OF assms])+

section \<open>Names and arguments\<close>

lemma c_string_terminated: "0 \<notin> set xs \<Longrightarrow> c_string (xs @ 0 # ys) = xs"
  by (induction xs) (auto simp: c_string_def)

lemma copy_name_from_length: "copy_name_from d cap idx src = (ok, d') \<Longrightarrow> length d' = length d"
  by (induction d cap idx src rule: copy_name_from.induct) (auto split: if_splits)

lemma copy_name_from_result:
  assumes "copy_name_from d cap idx src = (True, d')" "length d = cap" "idx < cap"
  shows "idx + length src < cap \<and> take (idx + length src) d' = take idx d @ src \<and> d' ! (idx + length src) = 0"
  using assms
proof (induction d cap idx src rule: copy_name_from.induct)
  case (2 d cap idx c src)
  then have n: "idx + 1 < cap" and e: "copy_name_from (d[idx := c]) cap (idx + 1) src = (True, d')"
    by (auto split: if_splits)
  have "take (idx + 1) (d[idx := c]) = take idx d @ [c]" using n 2(3) by (simp add: take_Suc_conv_app_nth)
  then show ?case using "2.IH" [OF _ e] n 2(3) by simp
qed auto

lemma copy_name_result:
  assumes "copy_name d cap src = (ok, d')" "length d = cap"
  shows "length d' = cap" "ok \<Longrightarrow> c_string d' = c_string src \<and> length (c_string d') < cap"
proof -
  show "length d' = cap" using assms copy_name_from_length by (auto simp: copy_name_def split: if_splits)
  assume ok
  with assms have e: "copy_name_from d cap 0 (c_string src) = (True, d')" "0 < cap"
    by (auto simp: copy_name_def split: if_splits)
  note r = copy_name_from_result [OF e(1) assms(2) e(2), simplified]
  have "d' = take (length (c_string src)) d' @ d' ! length (c_string src) # drop (Suc (length (c_string src))) d'"
    using r \<open>length d' = cap\<close> by (intro id_take_nth_drop) simp
  then have "d' = c_string src @ 0 # drop (Suc (length (c_string src))) d'" using r by simp
  then have "c_string d' = c_string src" using c_string_terminated [OF zero_notin_c_string] by metis
  then show "c_string d' = c_string src \<and> length (c_string d') < cap" using r by simp
qed

section \<open>Preparing a task\<close>

lemma with_task_compose: "i < length (uc_tasks c) \<Longrightarrow> with_task i f (with_task i g c) = with_task i (f \<circ> g) c"
  by (simp add: with_task_def)

text \<open>The record of a task that has been reset and named.\<close>

definition fresh_task :: "x86_64_user_task \<Rightarrow> bytes \<Rightarrow> bytes \<Rightarrow> x86_64_user_task" where
  "fresh_task t nm ar = (reset_task t)\<lparr>tk_name := nm, tk_argument := ar\<rparr>"

definition ready_task :: "x86_64_user_task \<Rightarrow> bytes \<Rightarrow> bytes \<Rightarrow> u32 \<Rightarrow> nat option \<Rightarrow> x86_64_user_task" where
  "ready_task t nm ar pid console = (fresh_task t nm ar)\<lparr>tk_argument_length := length (c_string ar), tk_pid := pid,
     tk_console := console, tk_state := Task_ready, tk_status := ''ready''\<rparr>"

lemma fresh_name: "fresh_task t nm ((tk_argument t)[0 := 0]) = (reset_task t)\<lparr>tk_name := nm\<rparr>"
  by (rule x86_64_user_task.equality) (simp_all add: fresh_task_def reset_task_def)

lemma prepare_form:
  assumes mem: "memory_ok T c1" and i: "i < 4" and c1: "c1 = cleanup_task_network c i"
    and nm: "copy_name ((tk_name (task_at c1 i))[0 := 0]) 48 name = (ok1, nm)"
    and ar: "copy_name ((tk_argument (task_at c1 i))[0 := 0]) 64 argument = (ok2, ar)"
  shows "prepare_task c i name argument console =
    (if \<not> ok1 then (False, with_task i (\<lambda>t. fresh_task t nm ((tk_argument t)[0 := 0])) (c1\<lparr>uc_ram := cleared_ram c1 i\<rparr>))
     else if \<not> ok2 then (False, with_task i (\<lambda>t. fresh_task t nm ar) (c1\<lparr>uc_ram := cleared_ram c1 i\<rparr>))
     else (True, (with_task i (\<lambda>t. ready_task t nm ar (uc_next_pid c1) console) (c1\<lparr>uc_ram := cleared_ram c1 i\<rparr>))
       \<lparr>uc_next_pid := if uc_next_pid c1 + 1 < 1000 then 1000 else uc_next_pid c1 + 1, uc_runs := uc_runs c1 + 1\<rparr>))"
proof -
  have len: "i < length (uc_tasks c1)" using mem i by (simp add: memory_ok_def)
  define c2 where "c2 = reset_task_runtime c1 i"
  have c2: "c2 = with_task i reset_task (c1\<lparr>uc_ram := cleared_ram c1 i\<rparr>)" unfolding c2_def by (rule reset_eq [OF mem i])
  have at: "task_at c2 i = reset_task (task_at c1 i)" using len by (simp add: c2 task_at_def with_task_def)
  have n: "copy_name (tk_name (task_at c2 i)) 48 name = (ok1, nm)"
    using nm by (simp add: at reset_task_def)
  define c3 where "c3 = with_task i (\<lambda>task. task\<lparr>tk_name := nm\<rparr>) c2"
  have "task_at c3 i = (reset_task (task_at c1 i))\<lparr>tk_name := nm\<rparr>"
    using at len c2 by (simp add: c3_def task_at_def with_task_def)
  then have a: "copy_name (tk_argument (task_at c3 i)) 64 argument = (ok2, ar)" using ar by (simp add: reset_task_def)
  define c4 where "c4 = with_task i (\<lambda>task. task\<lparr>tk_argument := ar\<rparr>) c3"
  note e = prepare_task_def [of c i name argument console, unfolded Let_def, folded c1 c2_def, unfolded n prod.case,
      folded c3_def, unfolded a prod.case, folded c4_def]
  let ?m = "c1\<lparr>uc_ram := cleared_ram c1 i\<rparr>"
  have c3': "c3 = with_task i (\<lambda>t. fresh_task t nm ((tk_argument t)[0 := 0])) ?m"
    using len by (simp add: c3_def c2 with_task_def fresh_name)
  have c4': "c4 = with_task i (\<lambda>t. fresh_task t nm ar) ?m"
    using len by (simp add: c4_def c3' with_task_def fresh_task_def)
  have "uc_next_pid c4 = uc_next_pid c1" "uc_runs c4 = uc_runs c1" by (simp_all add: c4' with_task_def)
  then have "(case allocate_pid c4 of (pid, c) \<Rightarrow> (True, with_task i (\<lambda>task. task\<lparr>
        tk_argument_length := tk_argument_length task + length (c_string (drop (tk_argument_length task) (tk_argument task))),
        tk_pid := pid, tk_console := console, tk_state := Task_ready, tk_status := ''ready''\<rparr>) (c\<lparr>uc_runs := uc_runs c + 1\<rparr>))) =
      (True, (with_task i (\<lambda>t. ready_task t nm ar (uc_next_pid c1) console) ?m)
       \<lparr>uc_next_pid := if uc_next_pid c1 + 1 < 1000 then 1000 else uc_next_pid c1 + 1, uc_runs := uc_runs c1 + 1\<rparr>)"
    using len by (simp add: allocate_pid_def Let_def c4' with_task_def ready_task_def fresh_task_def reset_task_def)
  then show ?thesis unfolding e c3' [symmetric] c4' [symmetric] by simp
qed

lemma fresh_task_ok:
  assumes "task_ok t" "length nm = 48" "length ar = 64"
  shows "task_ok (fresh_task t nm ar)" "length (c_string ar) < 64 \<Longrightarrow> task_ok (ready_task t nm ar pid console)"
  using assms by (auto simp: task_ok_def fresh_task_def ready_task_def reset_task_def ring_ok_def)

lemma fresh_task_fields:
  "tk_address_space (fresh_task t nm ar) = tk_address_space t"
  "tk_network (fresh_task t nm ar) = arwill_awp_network_owner_init (tk_network t)" "tk_console (fresh_task t nm ar) = None"
  "tk_state (fresh_task t nm ar) = Task_empty" "tk_address_space (ready_task t nm ar pid console) = tk_address_space t"
  "tk_network (ready_task t nm ar pid console) = arwill_awp_network_owner_init (tk_network t)"
  "tk_console (ready_task t nm ar pid console) = console" "tk_state (ready_task t nm ar pid console) = Task_ready"
  by (simp_all add: fresh_task_def ready_task_def reset_task_def)

lemma core_counters:
  assumes "core_ok T c" "i < (4 :: nat)"
  shows "core_ok T (c\<lparr>uc_next_pid := p, uc_runs := r\<rparr>)"
proof -
  have "within_task T i c (c\<lparr>uc_next_pid := p, uc_runs := r\<rparr>)"
    by (rule within_fields [OF assms]) (use core_parts [OF assms(1)] in simp_all)
  then show ?thesis by (simp add: within_task_def)
qed

text \<open>What a change of one task outside its run keeps.\<close>

definition restarted :: "u64 set \<Rightarrow> nat \<Rightarrow> ('n, 'k, 'f) x86_64_user_context \<Rightarrow> ('n, 'k, 'f) x86_64_user_context \<Rightarrow> bool" where
  "restarted T i c c' \<longleftrightarrow> core_ok T c' \<and> reloaded i c c' \<and> network_apart i c c' \<and> uc_consoles c' = uc_consoles c \<and>
     uc_available c' = uc_available c"

lemma reloaded_owners:
  assumes "reloaded i c c'"
  shows "owners_of c' = (owners_of c)[i := tk_network (task_at c' i)]"
proof (rule nth_equalityI)
  fix j assume "j < length (owners_of c')"
  then show "owners_of c' ! j = (owners_of c)[i := tk_network (task_at c' i)] ! j"
    using assms by (cases "j = i") (simp_all add: reloaded_def owners_of_def task_at_def)
qed (use assms in \<open>simp add: owners_of_def reloaded_def\<close>)

lemma restarted_trans:
  assumes "restarted T i c c1" "restarted T i c1 c2"
  shows "restarted T i c c2"
proof -
  have "network_apart i c c2"
    using assms isolated_trans
    by (auto simp: restarted_def network_apart_def reloaded_owners isolated_update split: option.splits)
  then show ?thesis using assms reloaded_trans unfolding restarted_def by metis
qed

lemma restarted_reload:
  assumes "core_ok T c" "i < 4" "tk_address_space (f (task_at c i)) = space_at c i" "tk_network (f (task_at c i)) = network_of c i"
      "task_ok (f (task_at c i))" "\<forall>n. tk_console (f (task_at c i)) = Some n \<longrightarrow> n < length (uc_consoles c)"
      "\<forall>a. m a \<noteq> uc_ram c a \<longrightarrow> in_pages (user_pages (space_at c i)) a"
  shows "restarted T i c (with_task i f (c\<lparr>uc_ram := m\<rparr>))"
  using core_reload [where f = f and m = m, OF assms] by (simp add: restarted_def)

lemma restarted_counters:
  assumes "restarted T i c c'" "i < 4"
  shows "restarted T i c (c'\<lparr>uc_next_pid := p, uc_runs := r\<rparr>)"
  using assms core_counters [where c = c' and i = i and p = p and r = r and T = T]
  by (simp add: restarted_def reloaded_def network_apart_def space_at_def task_at_def split: option.splits)

lemma restarted_cleanup:
  assumes ok: "core_ok T c" and i: "i < 4"
  obtains ow where "restarted T i c (cleanup_task_network c i)" "arwill_awp_network_owner_init ow = ow" "empty_owner ow"
    "task_at (cleanup_task_network c i) i = (task_at c i)\<lparr>tk_network := ow\<rparr>"
    "uc_ram (cleanup_task_network c i) = uc_ram c" "uc_next_pid (cleanup_task_network c i) = uc_next_pid c"
proof -
  obtain st ow where e: "cleanup_task_network c i = with_network i st ow c" "arwill_awp_network_owner_init ow = ow"
      "empty_owner ow" "within_task T i c (with_network i st ow c)"
    by (rule within_cleanup [OF ok i])
  note len = core_parts(2) [OF ok]
  have "quiet T i c (cleanup_task_network c i)" by (rule quiet_cleanup [OF quiet_refl [OF ok i] i])
  then have "restarted T i c (cleanup_task_network c i)"
    using quiet_reloaded [of T i c "cleanup_task_network c i"] e(4) unfolding e(1)
    by (simp add: restarted_def within_task_def) (simp add: with_network_def)
  then show ?thesis
    using that [of ow] e len i by (simp add: with_network_task) (simp add: with_network_def with_task_def)
qed

lemma prepare_ok:
  assumes ok: "core_ok T c" and i: "i < 4" and con: "\<forall>n. console = Some n \<longrightarrow> n < length (uc_consoles c)"
    and p: "prepare_task c i name argument console = (r, c')"
  shows "restarted T i c c' \<and> uc_ram c' = cleared_ram c i \<and>
    (if r then tk_state (task_at c' i) = Task_ready \<and> tk_pid (task_at c' i) = uc_next_pid c \<and>
        tk_saved (task_at c' i) = clear_saved_context \<and> c_string (tk_name (task_at c' i)) = c_string name \<and>
        c_string (tk_argument (task_at c' i)) = c_string argument \<and> queued (task_at c' i) = []
     else tk_state (task_at c' i) = Task_empty)"
proof -
  define c1 where "c1 = cleanup_task_network c i"
  obtain ow where c1: "restarted T i c c1" "arwill_awp_network_owner_init ow = ow"
      "task_at c1 i = (task_at c i)\<lparr>tk_network := ow\<rparr>" "uc_ram c1 = uc_ram c" "uc_next_pid c1 = uc_next_pid c"
    using restarted_cleanup [OF ok i] unfolding c1_def by metis
  have ok1: "core_ok T c1" and con1: "\<forall>n. console = Some n \<longrightarrow> n < length (uc_consoles c1)"
    using c1(1) con by (simp_all add: restarted_def)
  note k = core_parts [OF ok1]
  have tok: "task_ok (task_at c1 i)" by (rule k(4) [OF i])
  obtain ok1' nm where nm: "copy_name ((tk_name (task_at c1 i))[0 := 0]) 48 name = (ok1', nm)" by fastforce
  obtain ok2' ar where ar: "copy_name ((tk_argument (task_at c1 i))[0 := 0]) 64 argument = (ok2', ar)" by fastforce
  have len: "length ((tk_name (task_at c1 i))[0 := 0]) = 48" "length ((tk_argument (task_at c1 i))[0 := 0]) = 64"
    using tok by (simp_all add: task_ok_def)
  note nm' = copy_name_result [OF nm len(1)] and ar' = copy_name_result [OF ar len(2)]
  note form = prepare_form [OF k(1) i c1_def nm ar, of console, unfolded p]
  have ram: "cleared_ram c1 i = cleared_ram c i" 
    unfolding cleared_ram_def c1(4) using c1(1) by (simp add: restarted_def reloaded_def)
  have step: "restarted T i c (with_task i f (c1\<lparr>uc_ram := cleared_ram c1 i\<rparr>))"
    if "tk_address_space (f (task_at c1 i)) = space_at c1 i" "tk_network (f (task_at c1 i)) = network_of c1 i"
      "task_ok (f (task_at c1 i))" "tk_console (f (task_at c1 i)) \<in> {None, console}" for f
    by (rule restarted_trans [OF c1(1) restarted_reload [OF ok1 i]])
      (use that con1 in \<open>auto simp: cleared_ram_def split: if_splits\<close>)
  have at: "task_at (with_task i f (c1\<lparr>uc_ram := m\<rparr>)) i = f (task_at c1 i)" for f m
    using k(2) i by (simp add: task_at_def with_task_def)
  have own: "network_of c1 i = ow" "space_at c1 i = tk_address_space (task_at c1 i)" using c1(3) by (simp_all add: network_of_def space_at_def)
  show ?thesis
  proof (cases "ok1' \<and> ok2'")
    case True
    let ?f = "\<lambda>t. ready_task t nm ar (uc_next_pid c1) console"
    have r: r and c': "c' = (with_task i ?f (c1\<lparr>uc_ram := cleared_ram c1 i\<rparr>))
        \<lparr>uc_next_pid := if uc_next_pid c1 + 1 < 1000 then 1000 else uc_next_pid c1 + 1, uc_runs := uc_runs c1 + 1\<rparr>"
      using form True by simp_all
    have "restarted T i c c'"
      unfolding c' by (rule restarted_counters [OF step [of ?f] i])
        (use c1(2) own fresh_task_ok(2) [OF tok nm'(1) ar'(1) conjunct2 [OF ar'(2) [OF conjunct2 [OF True]]]]
          in \<open>simp_all add: fresh_task_fields network_of_def\<close>)
    moreover have "task_at c' i = ?f (task_at c1 i)" unfolding c' using k(2) i by (simp add: task_at_def with_task_def)
    moreover have "uc_ram c' = cleared_ram c i" unfolding c' by (simp add: ram)
    ultimately show ?thesis
      using r True nm'(2) ar'(2) c1(5) by (simp add: ready_task_def fresh_task_def reset_task_def queued_def)
  next
    case False
    then show ?thesis
      using form fresh_task_ok [OF tok nm'(1)] ar'(1) len(2) c1(2,3) own step
      by (auto simp: ram at fresh_task_fields split: if_splits)
  qed
qed

section \<open>The code of a program\<close>

text \<open>Where the byte at offset \<open>k\<close> of the code lies.\<close>

definition code_at :: "x86_64_user_address_space \<Rightarrow> nat \<Rightarrow> u64" where
  "code_at s k = as_code_physical s ! (k div 4096) + of_nat (k mod 4096)"

lemma code_at_page:
  assumes "memory_ok T c" "i < 4" "k < 196608"
  shows "in_page (as_code_physical (space_at c i) ! (k div 4096)) (code_at (space_at c i) k)"
    "in_pages (user_pages (space_at c i)) (code_at (space_at c i) k)" "page_ok (as_code_physical (space_at c i) ! (k div 4096))"
proof -
  let ?p = "as_code_physical (space_at c i) ! (k div 4096)"
  have "k div 4096 < 48" using assms(3) by (auto intro!: less_mult_imp_div_less)
  then have p: "?p \<in> set (as_code_physical (space_at c i))" using space_mapped(2) [OF assms(1,2)] by simp
  then show "page_ok ?p" using space_mapped(4) [OF assms(1,2)] by (simp add: user_pages_def)
  then show "in_page ?p (code_at (space_at c i) k)" using in_page_offset [of ?p "k mod 4096"] by (simp add: code_at_def)
  with p show "in_pages (user_pages (space_at c i)) (code_at (space_at c i) k)"
    by (auto simp: in_pages_def user_pages_def)
qed

lemma pages_distinct:
  assumes "memory_ok T c" "i < 4"
  shows "distinct (user_pages (space_at c i))"
proof -
  have "distinct (concat (map user_pages (spaces_of c)))" using assms(1) by (simp add: memory_ok_def spaces_ok_def)
  then show ?thesis using space_in [OF assms] by (auto simp: distinct_concat_iff)
qed

lemma code_at_inject:
  assumes ok: "memory_ok T c" "i < 4" and k: "k < 196608" and l: "l < 196608"
    and e: "code_at (space_at c i) k = code_at (space_at c i) l"
  shows "k = l"
proof -
  let ?s = "space_at c i"
  note a = code_at_page [OF ok k] and b = code_at_page [OF ok l]
  have "as_code_physical ?s ! (k div 4096) = as_code_physical ?s ! (l div 4096)"
    using in_page_unique [OF a(3) b(3) a(1)] b(1) e by simp
  moreover have "k div 4096 < 48" "l div 4096 < 48" using k l by (auto intro!: less_mult_imp_div_less)
  moreover have "distinct (as_code_physical ?s)" using pages_distinct [OF ok] by (simp add: user_pages_def)
  ultimately have d: "k div 4096 = l div 4096" using space_mapped(2) [OF ok] by (simp add: nth_eq_iff_index_eq)
  then have "(of_nat (k mod 4096) :: u64) = of_nat (l mod 4096)" using e by (simp add: code_at_def)
  then have "k mod 4096 = l mod 4096" using of_nat_offset_inject [of "k mod 4096" "l mod 4096"] by simp
  then show ?thesis using d by (metis div_mult_mod_eq)
qed

lemma write_fold_at:
  assumes "\<forall>k<n. \<forall>l<n. f k = f l \<longrightarrow> k = l" "k < n"
  shows "foldl (\<lambda>m k. m(f k := g k)) m [0..<n] (f k) = g k"
  using assms
proof (induction n)
  case (Suc n)
  have inj: "\<forall>k<n. \<forall>l<n. f k = f l \<longrightarrow> k = l" using Suc.prems(1) by simp
  show ?case
  proof (cases "k = n")
    case False
    then have "k < n" "f k \<noteq> f n" using Suc.prems by auto
    then show ?thesis using Suc.IH [OF inj] by simp
  qed simp
qed simp

lemma write_fold_out: "\<forall>k<n. a \<noteq> f k \<Longrightarrow> foldl (\<lambda>m k. m(f k := g k)) m [0..<n] a = m a"
  by (induction n) auto

lemma unat_take12: "unat (take_bit 12 (v :: u64)) = unat v mod 4096"
  by (simp add: take_bit_eq_mod unat_mod_distrib)

text \<open>The program sees the code from its first address on.\<close>

lemma load_code:
  assumes ok: "memory_ok T c" "i < 4" and k: "k < 196608"
  shows "load_user c i (user_code_virtual + of_nat k) = Some (uc_ram c (code_at (space_at c i) k))"
proof -
  let ?v = "user_code_virtual + of_nat k :: u64"
  have n: "unat (of_nat k :: u64) = k" using k by (simp add: unat_of_nat)
  have u: "unat ?v = 549755813888 + k" using unat_add_64 [of user_code_virtual "of_nat k"] k unfolding n by simp
  then have v: "in_code ?v" using k by (simp add: in_code_nat)
  have p: "code_page ?v = k div 4096" using code_page_nat [OF v] u by simp
  have "unat (take_bit 12 ?v) = (134217728 * 4096 + k) mod 4096" unfolding unat_take12 u by simp
  also have "\<dots> = k mod 4096" by (rule mod_mult_self3)
  also have "\<dots> = unat (of_nat (k mod 4096) :: u64)" by (simp add: unat_of_nat)
  finally have "take_bit 12 ?v = of_nat (k mod 4096)" by (rule word_unat_eq_iff [THEN iffD2])
  then show ?thesis
    using mapped_code [OF space_mapped(1) [OF ok] v] p by (simp add: load_user_def space_at_def code_at_def)
qed

lemma load_stack:
  assumes "memory_ok T c" "i < 4" "in_stack v"
  shows "load_user c i v = Some (uc_ram c (stack_byte (space_at c i) v))"
  using mapped_stack [OF space_mapped(1) [OF assms(1,2)] assms(3)]
  by (simp add: load_user_def space_at_def stack_byte_def)

end
