(* ===== verification/User_Load.thy ===== *)
theory User_Load
  imports User_Start
begin

text \<open>
  The code of a task: the header of an image, the image in memory, the task a new program gets,
  and the bytes of the built-in programs.
\<close>

section \<open>Loading an image\<close>

text \<open>The fields of the header of an image, and what the loader requires of them.\<close>

definition image_header :: "bytes \<Rightarrow> u64 \<Rightarrow> (nat \<times> nat \<times> nat) option" where
  "image_header img sz =
     (if sz < awp_header_size \<or> take 4 img \<noteq> bytes_of ''AWP1'' then None
      else
        (let header = unat (read_le16 img 4); entry = unat (read_le16 img 6); code = unat (read_le32 img 8)
         in if 16 \<le> header \<and> 0 < code \<and> code \<le> 196608 \<and> entry < code \<and> header + code \<le> unat sz
            then Some (header, entry, code) else None))"

lemma magic_eq:
  assumes "4 \<le> length img"
  shows "take 4 img = bytes_of ''AWP1'' \<longleftrightarrow> img ! 0 = chr CHR ''A'' \<and> img ! 1 = chr CHR ''W'' \<and>
    img ! 2 = chr CHR ''P'' \<and> img ! 3 = chr CHR ''1''"
proof -
  obtain a b c d rest where "img = a # b # c # d # rest"
    using assms by (cases img; cases "tl img"; cases "tl (tl img)"; cases "tl (tl (tl img))") auto
  then show ?thesis by (simp add: bytes_of_def chr_def numeral_eq_Suc)
qed

lemma unat_ucast_16_64: "unat (ucast (x :: u16) :: u64) = unat x"
  by (simp add: unsigned_ucast_eq take_bit_nat_eq_self order_less_trans [OF unat_less_16])

text \<open>The memory after the code of an image has been copied.\<close>

definition loaded_ram :: "x86_64_user_address_space \<Rightarrow> bytes \<Rightarrow> nat \<Rightarrow> nat \<Rightarrow> ram \<Rightarrow> ram" where
  "loaded_ram s img header code m = foldl (\<lambda>m k. m(code_at s k := img ! (header + k))) m [0..<code]"

lemma copy_image_eq:
  assumes "unat sz \<le> length img"
  shows "copy_image_to_task c i img sz =
    (case image_header img sz of
       None \<Rightarrow> (False, c)
     | Some (header, entry, code) \<Rightarrow> (True, with_task i (\<lambda>task. task\<lparr>tk_saved := (tk_saved task)\<lparr>sv_frame :=
         (sv_frame (tk_saved task))\<lparr>fr_instruction_pointer := user_code_virtual + of_nat entry\<rparr>\<rparr>\<rparr>)
         (c\<lparr>uc_ram := loaded_ram (space_at c i) img header code (uc_ram c)\<rparr>)))"
proof (cases "sz < awp_header_size \<or> take 4 img \<noteq> bytes_of ''AWP1''")
  case True
  then have "sz < awp_header_size \<or> img ! 0 \<noteq> chr CHR ''A'' \<or> img ! 1 \<noteq> chr CHR ''W'' \<or>
         img ! 2 \<noteq> chr CHR ''P'' \<or> img ! 3 \<noteq> chr CHR ''1''"
    using magic_eq [of img] assms by (auto simp: word_less_nat_alt)
  then show ?thesis using True by (simp add: copy_image_to_task_def image_header_def)
next
  case False
  then have magic: "\<not> (sz < awp_header_size \<or> img ! 0 \<noteq> chr CHR ''A'' \<or> img ! 1 \<noteq> chr CHR ''W'' \<or>
         img ! 2 \<noteq> chr CHR ''P'' \<or> img ! 3 \<noteq> chr CHR ''1'')"
    using magic_eq [of img] assms by (auto simp: word_less_nat_alt)
  define h where "h = read_le16 img 4"
  define e where "e = read_le16 img 6"
  define s where "s = read_le32 img 8"
  have sub: "unat (sz - ucast h) = unat sz - unat h" if "unat h \<le> unat sz"
    using that by (simp add: unat_sub word_le_nat_alt unat_ucast_16_64)
  have checks: "(ucast h < awp_header_size \<or> ucast h > sz \<or> s = 0 \<or> ucast s > (of_nat 48 * 4096 :: u64) \<or>
      (ucast e :: u64) \<ge> ucast s \<or> sz - ucast h < ucast s) \<longleftrightarrow>
      \<not> (16 \<le> unat h \<and> 0 < unat s \<and> unat s \<le> 196608 \<and> unat e < unat s \<and> unat h + unat s \<le> unat sz)"
    using sub by (auto simp: word_less_nat_alt word_le_nat_alt unat_ucast_16_64 unat_ucast_32_64 unat_gt_0)
  let ?P = "16 \<le> unat h \<and> 0 < unat s \<and> unat s \<le> 196608 \<and> unat e < unat s \<and> unat h + unat s \<le> unat sz"
  have hd: "image_header img sz = (if ?P then Some (unat h, unat e, unat s) else None)"
    unfolding image_header_def if_not_P [OF False] Let_def h_def [symmetric] e_def [symmetric] s_def [symmetric] ..
  have ram: "foldl (\<lambda>m k. m(as_code_physical (tk_address_space (task_at c i)) ! (k div 4096) + of_nat (k mod 4096) :=
        img ! (unat h + k))) (uc_ram c) [0..<unat s] = loaded_ram (space_at c i) img (unat h) (unat s) (uc_ram c)"
    by (simp add: loaded_ram_def code_at_def space_at_def)
  have ip: "(ucast e :: u64) = of_nat (unat e)" by simp
  show ?thesis
    unfolding copy_image_to_task_def Let_def if_not_P [OF magic] h_def [symmetric] e_def [symmetric] s_def [symmetric]
      ram hd ip using checks by simp
qed

lemma loaded_at:
  assumes ok: "memory_ok T c" "i < 4" and n: "n \<le> 196608"
  shows "k < 196608 \<Longrightarrow> loaded_ram (space_at c i) img h n m (code_at (space_at c i) k) =
      (if k < n then img ! (h + k) else m (code_at (space_at c i) k))"
    "\<forall>k<196608. a \<noteq> code_at (space_at c i) k \<Longrightarrow> loaded_ram (space_at c i) img h n m a = m a"
proof -
  have inj: "\<forall>k<n. \<forall>l<n. code_at (space_at c i) k = code_at (space_at c i) l \<longrightarrow> k = l"
    using code_at_inject [OF ok] n by (meson order_less_le_trans)
  show "loaded_ram (space_at c i) img h n m (code_at (space_at c i) k) =
      (if k < n then img ! (h + k) else m (code_at (space_at c i) k))" if k: "k < 196608"
  proof (cases "k < n")
    case True
    then show ?thesis using write_fold_at [OF inj True] by (simp add: loaded_ram_def)
  next
    case False
    have "code_at (space_at c i) k \<noteq> code_at (space_at c i) l" if "l < n" for l
      using code_at_inject [OF ok k, of l] that n False by auto
    then show ?thesis using False by (simp add: loaded_ram_def write_fold_out)
  qed
  show "loaded_ram (space_at c i) img h n m a = m a" if "\<forall>k<196608. a \<noteq> code_at (space_at c i) k"
    using that n by (simp add: loaded_ram_def write_fold_out)
qed

lemma image_header_bounds:
  assumes "image_header img sz = Some (h, e, n)"
  shows "16 \<le> h" "0 < n" "n \<le> 196608" "e < n" "h + n \<le> unat sz"
  using assms by (auto simp: image_header_def Let_def split: if_splits)

lemma restarted_image:
  assumes ok: "core_ok T c" and i: "i < 4" and n: "n \<le> 196608"
    and f: "\<And>t. tk_address_space (f t) = tk_address_space t" "\<And>t. tk_network (f t) = tk_network t"
      "\<And>t. tk_console (f t) = tk_console t" "\<And>t. task_ok (f t) = task_ok t"
  shows "restarted T i c (with_task i f (c\<lparr>uc_ram := loaded_ram (space_at c i) img h n (uc_ram c)\<rparr>))"
proof (rule restarted_reload [OF ok i])
  note p = core_parts [OF ok]
  show "\<forall>a. loaded_ram (space_at c i) img h n (uc_ram c) a \<noteq> uc_ram c a \<longrightarrow> in_pages (user_pages (space_at c i)) a"
    using loaded_at(2) [OF p(1) i n] code_at_page(2) [OF p(1) i] by metis
  show "\<forall>m. tk_console (f (task_at c i)) = Some m \<longrightarrow> m < length (uc_consoles c)" using f(3) p(9) [OF i] by simp
  show "task_ok (f (task_at c i))" using f(4) p(4) [OF i] by simp
qed (use f in \<open>simp_all add: space_at_def network_of_def\<close>)

section \<open>Choosing a task\<close>

lemma slots_below: "x \<in> set (slots_from c) \<Longrightarrow> x < 4"
  by (auto simp: slots_from_def)

lemma slots_all: "uc_next_slot c < 4 \<Longrightarrow> set (slots_from c) = {..<4}"
proof (intro equalityI subsetI)
  fix i :: nat assume s: "uc_next_slot c < 4" and i: "i \<in> {..<4}"
  have "(uc_next_slot c + (i + 4 - uc_next_slot c) mod 4) mod 4 = (uc_next_slot c + (i + 4 - uc_next_slot c)) mod 4"
    by (rule mod_add_right_eq)
  also have "\<dots> = i" using s i by simp
  finally have "i = (uc_next_slot c + (i + 4 - uc_next_slot c) mod 4) mod 4" ..
  moreover have "(i + 4 - uc_next_slot c) mod 4 \<in> set [0..<4]" by simp
  ultimately show "i \<in> set (slots_from c)" unfolding slots_from_def set_map by (rule image_eqI)
qed (use slots_below in auto)

text \<open>A task that is neither waiting nor running can be given to a new program.\<close>

lemma reusable_task:
  assumes "find_reusable_task c = (r, c')"
  shows "case r of
      None \<Rightarrow> c' = c \<and> (uc_next_slot c < 4 \<longrightarrow>
        (\<forall>i<4. tk_state (task_at c i) \<in> {Task_ready, Task_running, Task_blocked_input}))
    | Some i \<Rightarrow> i < 4 \<and> tk_state (task_at c i) \<in> {Task_empty, Task_finished, Task_faulted} \<and>
        c' = c\<lparr>uc_next_slot := (i + 1) mod arwill_user_task_capacity\<rparr>"
proof (cases r)
  case None
  then have n: "\<forall>i\<in>set (slots_from c). tk_state (task_at c i) \<noteq> Task_empty \<and> tk_state (task_at c i) \<noteq> Task_finished \<and>
      tk_state (task_at c i) \<noteq> Task_faulted" "c' = c"
    using assms by (auto simp: find_reusable_task_def Let_def find_None_iff split: option.splits)
  have "tk_state (task_at c i) \<in> {Task_ready, Task_running, Task_blocked_input}" if "uc_next_slot c < 4" "i < 4" for i
    using n(1) that slots_all [of c] by (cases "tk_state (task_at c i)") auto
  then show ?thesis using None n(2) by auto
next
  case (Some i)
  then have "i \<in> set (slots_from c)" "tk_state (task_at c i) \<in> {Task_empty, Task_finished, Task_faulted}"
      "c' = c\<lparr>uc_next_slot := (i + 1) mod arwill_user_task_capacity\<rparr>"
    using assms
    by (auto simp: find_reusable_task_def Let_def find_Some_iff split: option.splits) 
  then show ?thesis using Some slots_below by auto
qed

section \<open>The built-in programs\<close>

fun put_bytes :: "u64 \<Rightarrow> nat \<Rightarrow> bytes \<Rightarrow> ram \<Rightarrow> ram" where
  "put_bytes code off [] m = m"
| "put_bytes code off (b # bs) m = put_bytes code (off + 1) bs (m(code + of_nat off := b))"

text \<open>An emitter that adds the bytes \<open>bs\<close> when they fit in the page.\<close>

definition emits :: "u64 \<Rightarrow> bytes \<Rightarrow> emitter \<Rightarrow> bool" where
  "emits code bs e \<longleftrightarrow> (\<forall>off m. off + length bs \<le> 4096 \<longrightarrow> e (off, m) = (True, off + length bs, put_bytes code off bs m))"

lemma put_bytes_append: "put_bytes code off (xs @ ys) m = put_bytes code (off + length xs) ys (put_bytes code off xs m)"
  by (induction xs arbitrary: off m) simp_all

lemma emits_byte: "emits code [v] (emit8 code 4096 v)"
  by (simp add: emits_def emit8_def)

lemma emits_all:
  assumes "list_all2 (emits code) bss es"
  shows "emits code (concat bss) (emit_all es)"
  using assms
proof (induction bss es rule: list_all2_induct)
  case Nil
  then show ?case by (simp add: emits_def)
next
  case (Cons bs bss e es)
  then show ?case by (auto simp: emits_def put_bytes_append)
qed

lemma emits_instructions:
  "emits code [0x48, 0xc7, 0xc0, ucast v, ucast (drop_bit 8 v), ucast (drop_bit 16 v), ucast (drop_bit 24 v)]
     (emit_mov_rax_imm32 code 4096 v)"
  "emits code [0x48, 0xc7, 0xc7, ucast v, ucast (drop_bit 8 v), ucast (drop_bit 16 v), ucast (drop_bit 24 v)]
     (emit_mov_rdi_imm32 code 4096 v)"
  "emits code [0x48, 0xc7, 0xc6, ucast v, ucast (drop_bit 8 v), ucast (drop_bit 16 v), ucast (drop_bit 24 v)]
     (emit_mov_rsi_imm32 code 4096 v)"
  "emits code [0x48, 0xbf, ucast w, ucast (drop_bit 8 w), ucast (drop_bit 16 w), ucast (drop_bit 24 w),
     ucast (drop_bit 32 w), ucast (drop_bit 40 w), ucast (drop_bit 48 w), ucast (drop_bit 56 w)]
     (emit_mov_rdi_imm64 code 4096 w)"
  "emits code [0xcd, 0x80] (emit_int80 code 4096)" "emits code [0x0f, 0x0b] (emit_ud2 code 4096)"
proof -
  have m: "(0xff :: u32) = mask 8" "(0xff :: u64) = mask 8" by (simp_all add: mask_eq_exp_minus_1)
  have b: "(ucast (x AND 0xff) :: u8) = ucast x" for x :: u32
    unfolding m by (rule bit_word_eqI) (auto simp: bit_simps)
  have b': "(ucast (x AND 0xff) :: u8) = ucast x" for x :: u64
    unfolding m by (rule bit_word_eqI) (auto simp: bit_simps)
  have i32: "emits code [ucast v, ucast (drop_bit 8 v), ucast (drop_bit 16 v), ucast (drop_bit 24 v)] (emit32 code 4096 v)" for v
    using emits_all [of code "[[ucast v], [ucast (drop_bit 8 v)], [ucast (drop_bit 16 v)], [ucast (drop_bit 24 v)]]"]
    by (simp add: emit32_def b emits_byte)
  have i64: "emits code [ucast w, ucast (drop_bit 8 w), ucast (drop_bit 16 w), ucast (drop_bit 24 w),
     ucast (drop_bit 32 w), ucast (drop_bit 40 w), ucast (drop_bit 48 w), ucast (drop_bit 56 w)] (emit64 code 4096 w)" for w
    using emits_all [of code "[[ucast w], [ucast (drop_bit 8 w)], [ucast (drop_bit 16 w)], [ucast (drop_bit 24 w)],
     [ucast (drop_bit 32 w)], [ucast (drop_bit 40 w)], [ucast (drop_bit 48 w)], [ucast (drop_bit 56 w)]]"]
    by (simp add: emit64_def b' emits_byte)
  let ?w = "[ucast v, ucast (drop_bit 8 v), ucast (drop_bit 16 v), ucast (drop_bit 24 v)] :: bytes"
  show "emits code [0x48, 0xc7, 0xc0, ucast v, ucast (drop_bit 8 v), ucast (drop_bit 16 v), ucast (drop_bit 24 v)]
     (emit_mov_rax_imm32 code 4096 v)"
    using emits_all [of code "[[0x48], [0xc7], [0xc0], ?w]"] by (simp add: emit_mov_rax_imm32_def emits_byte i32)
  show "emits code [0x48, 0xc7, 0xc7, ucast v, ucast (drop_bit 8 v), ucast (drop_bit 16 v), ucast (drop_bit 24 v)]
     (emit_mov_rdi_imm32 code 4096 v)"
    using emits_all [of code "[[0x48], [0xc7], [0xc7], ?w]"] by (simp add: emit_mov_rdi_imm32_def emits_byte i32)
  show "emits code [0x48, 0xc7, 0xc6, ucast v, ucast (drop_bit 8 v), ucast (drop_bit 16 v), ucast (drop_bit 24 v)]
     (emit_mov_rsi_imm32 code 4096 v)"
    using emits_all [of code "[[0x48], [0xc7], [0xc6], ?w]"] by (simp add: emit_mov_rsi_imm32_def emits_byte i32)
  show "emits code [0x48, 0xbf, ucast w, ucast (drop_bit 8 w), ucast (drop_bit 16 w), ucast (drop_bit 24 w),
     ucast (drop_bit 32 w), ucast (drop_bit 40 w), ucast (drop_bit 48 w), ucast (drop_bit 56 w)]
     (emit_mov_rdi_imm64 code 4096 w)"
    using emits_all [of code "[[0x48], [0xbf], [ucast w, ucast (drop_bit 8 w), ucast (drop_bit 16 w),
     ucast (drop_bit 24 w), ucast (drop_bit 32 w), ucast (drop_bit 40 w), ucast (drop_bit 48 w), ucast (drop_bit 56 w)]]"]
    by (simp add: emit_mov_rdi_imm64_def emits_byte i64)
  show "emits code [0xcd, 0x80] (emit_int80 code 4096)" "emits code [0x0f, 0x0b] (emit_ud2 code 4096)"
    using emits_all [of code "[[0xcd], [0x80]]"] emits_all [of code "[[0x0f], [0x0b]]"]
    by (simp_all add: emit_int80_def emit_ud2_def emits_byte)
qed

lemma put_bytes_out: "\<forall>k<length bs. a \<noteq> code + of_nat (off + k) \<Longrightarrow> put_bytes code off bs m a = m a"
proof (induction bs arbitrary: off m)
  case (Cons b bs)
  then have "a \<noteq> code + of_nat off \<and> (\<forall>k<length bs. a \<noteq> code + of_nat (Suc off + k))"
    using all_offsets_Suc [of "length bs" "\<lambda>k. a \<noteq> code + of_nat k" off] by simp
  then show ?case using Cons.IH [of "Suc off"] by simp
qed simp

lemma put_bytes_at:
  "off + length bs \<le> 4096 \<Longrightarrow> k < length bs \<Longrightarrow> put_bytes code off bs m (code + of_nat (off + k)) = bs ! k"
proof (induction bs arbitrary: off m k)
  case (Cons b bs)
  show ?case
  proof (cases k)
    case 0
    have "(of_nat off :: u64) \<noteq> of_nat (Suc off + l)" if "l < length bs" for l
      using of_nat_offset_inject [of off "Suc off + l"] Cons.prems(1) that by simp
    then have "\<forall>l<length bs. code + of_nat off \<noteq> code + of_nat (Suc off + l)" by simp
    from put_bytes_out [OF this, of "m(code + of_nat off := b)"] 0 show ?thesis by simp
  next
    case (Suc l)
    then show ?thesis using Cons.IH [of "Suc off" l] Cons.prems by simp
  qed
qed simp

lemma put_bytes_fold:
  "n \<le> length bs \<Longrightarrow> foldl (\<lambda>m k. m(code + of_nat (off + k) := bs ! k)) m [0..<n] = put_bytes code off (take n bs) m"
  by (induction n) (simp_all add: take_Suc_conv_app_nth put_bytes_append)

definition hello_code :: bytes where
  "hello_code = [0x48, 0xc7, 0xc0, 1, 0, 0, 0,  0x48, 0xbf, 0, 1, 0, 0, 0x80, 0, 0, 0,  0x48, 0xc7, 0xc6, 30, 0, 0, 0,
     0xcd, 0x80,  0x48, 0xc7, 0xc0, 2, 0, 0, 0,  0x48, 0xc7, 0xc7, 7, 0, 0, 0,  0xcd, 0x80,  0x0f, 0x0b]"

definition bad_syscall_code :: bytes where
  "bad_syscall_code = [0x48, 0xc7, 0xc0, 99, 0, 0, 0,  0xcd, 0x80,  0x0f, 0x0b]"

lemma hello_length: "length hello_message = 30"
  by (simp add: hello_message_def)

lemma emits_programs:
  "emits code hello_code (emit_all
     [emit_mov_rax_imm32 code 4096 1, emit_mov_rdi_imm64 code 4096 (user_code_virtual + 0x100),
      emit_mov_rsi_imm32 code 4096 30, emit_int80 code 4096, emit_mov_rax_imm32 code 4096 2,
      emit_mov_rdi_imm32 code 4096 7, emit_int80 code 4096, emit_ud2 code 4096])"
  "emits code bad_syscall_code (emit_all [emit_mov_rax_imm32 code 4096 99, emit_int80 code 4096, emit_ud2 code 4096])"
proof -
  note b = emits_instructions
  have n: "(549755814144 :: u8) = 0" "(2147483649 :: u8) = 1" "(8388608 :: u8) = 0" "(32768 :: u8) = 0" by code_simp+
  have "emits code [0x48, 0xc7, 0xc0, 1, 0, 0, 0] (emit_mov_rax_imm32 code 4096 1)"
    "emits code [0x48, 0xbf, 0, 1, 0, 0, 0x80, 0, 0, 0] (emit_mov_rdi_imm64 code 4096 (user_code_virtual + 0x100))"
    "emits code [0x48, 0xc7, 0xc6, 30, 0, 0, 0] (emit_mov_rsi_imm32 code 4096 30)"
    "emits code [0x48, 0xc7, 0xc0, 2, 0, 0, 0] (emit_mov_rax_imm32 code 4096 2)"
    "emits code [0x48, 0xc7, 0xc7, 7, 0, 0, 0] (emit_mov_rdi_imm32 code 4096 7)"
    "emits code [0x48, 0xc7, 0xc0, 99, 0, 0, 0] (emit_mov_rax_imm32 code 4096 99)"
    using b(1) [of code 1] b(4) [of code "user_code_virtual + 0x100"] b(3) [of code 30] b(1) [of code 2] b(2) [of code 7]
      b(1) [of code 99] n by simp_all
  then show "emits code hello_code (emit_all
     [emit_mov_rax_imm32 code 4096 1, emit_mov_rdi_imm64 code 4096 (user_code_virtual + 0x100),
      emit_mov_rsi_imm32 code 4096 30, emit_int80 code 4096, emit_mov_rax_imm32 code 4096 2,
      emit_mov_rdi_imm32 code 4096 7, emit_int80 code 4096, emit_ud2 code 4096])"
    "emits code bad_syscall_code (emit_all [emit_mov_rax_imm32 code 4096 99, emit_int80 code 4096, emit_ud2 code 4096])"
    using emits_all [of code "[[0x48, 0xc7, 0xc0, 1, 0, 0, 0], [0x48, 0xbf, 0, 1, 0, 0, 0x80, 0, 0, 0],
        [0x48, 0xc7, 0xc6, 30, 0, 0, 0], [0xcd, 0x80], [0x48, 0xc7, 0xc0, 2, 0, 0, 0], [0x48, 0xc7, 0xc7, 7, 0, 0, 0],
        [0xcd, 0x80], [0x0f, 0x0b]]"] emits_all [of code "[[0x48, 0xc7, 0xc0, 99, 0, 0, 0], [0xcd, 0x80], [0x0f, 0x0b]]"]
      b(5,6) [of code] by (simp_all add: hello_code_def bad_syscall_code_def)
qed

definition program_ram :: "arwill_user_program \<Rightarrow> u64 \<Rightarrow> ram \<Rightarrow> ram" where
  "program_ram program code m = (case program of
     User_program_hello \<Rightarrow> put_bytes code 0 hello_code (put_bytes code 256 hello_message m)
   | User_program_bad_syscall \<Rightarrow> put_bytes code 0 bad_syscall_code m)"

lemma build_program:
  "build_builtin_program c i program =
     (True, c\<lparr>uc_ram := program_ram program (as_code_physical (space_at c i) ! 0) (uc_ram c)\<rparr>)"
proof (cases program)
  case User_program_hello
  let ?code = "as_code_physical (space_at c i) ! 0"
  have msg: "foldl (\<lambda>m k. m(?code + of_nat (256 + k) := hello_message ! k)) (uc_ram c) [0..<30] =
      put_bytes ?code 256 hello_message (uc_ram c)"
    using put_bytes_fold [of 30 hello_message ?code 256 "uc_ram c"] hello_length by simp
  have lim: "0 + length hello_code \<le> 4096" by (simp add: hello_code_def)
  show ?thesis
    using emits_programs(1) [of ?code, unfolded emits_def, rule_format, OF lim] User_program_hello msg hello_length
    by (simp add: build_builtin_program_def Let_def space_at_def [symmetric] program_ram_def del: emit_all.simps)
next
  case User_program_bad_syscall
  have lim: "0 + length bad_syscall_code \<le> 4096" by (simp add: bad_syscall_code_def)
  show ?thesis
    using emits_programs(2) [unfolded emits_def, rule_format, OF lim] User_program_bad_syscall
    by (simp add: build_builtin_program_def Let_def space_at_def [symmetric] program_ram_def del: emit_all.simps)
qed

lemma program_ram_page:
  assumes "program_ram program code m a \<noteq> m a"
  shows "\<exists>k<4096. a = code + of_nat k"
proof (rule ccontr)
  assume "\<not> ?thesis"
  then have n: "a \<noteq> code + of_nat k" if "k < 4096" for k using that by blast
  have "put_bytes code off bs m' a = m' a" if "off + length bs \<le> 4096" for off bs m'
  proof (rule put_bytes_out, intro allI impI)
    fix k assume "k < length bs"
    then show "a \<noteq> code + of_nat (off + k)" using n [of "off + k"] that by simp
  qed
  from this [of 0 hello_code] this [of 256 hello_message] this [of 0 bad_syscall_code]
  show False using assms
    by (cases program) (simp_all add: program_ram_def hello_code_def bad_syscall_code_def hello_length del: put_bytes.simps)
qed

end
