(* ===== verification/User_Machine.thy ===== *)
theory User_Machine
  imports User_Load
begin

text \<open>
  The whole machine: the steps of the running task, of its calls, ticks and faults, and of the
  kernel between two runs of tasks; the invariant of every reachable state.
\<close>

section \<open>Handlers\<close>

text \<open>The active task is the one that is running.\<close>

definition sched_ok :: "('n, 'k, 'f) x86_64_user_context \<Rightarrow> bool" where
  "sched_ok c \<longleftrightarrow> (\<forall>j<4. tk_state (task_at c j) = Task_running \<longleftrightarrow> uc_active_task c = Some j) \<and>
     (\<forall>j. uc_active_task c = Some j \<longrightarrow> j < 4)"

definition user_ok :: "u64 set \<Rightarrow> ('n, 'k, 'f) x86_64_user_context \<Rightarrow> bool" where
  "user_ok T c \<longleftrightarrow> core_ok T c \<and> sched_ok c"

lemma active_running:
  assumes "user_ok T c" "uc_active_task c = Some i"
  shows "i < 4" "tk_state (task_at c i) = Task_running"
  using assms by (auto simp: user_ok_def sched_ok_def)

lemma user_call:
  assumes ok: "user_ok T c" and a: "uc_active_task c = Some i" and c: "call_ok T i c (Some (r, rg, c'))"
  shows "user_ok T c'"
proof -
  have i: "i < 4" "tk_state (task_at c i) = Task_running" by (rule active_running [OF ok a])+
  have w: "within_task T i c c'" using c by (simp add: call_ok_Some)
  then have others: "\<forall>j. j \<noteq> i \<longrightarrow> task_at c' j = task_at c j" by (simp add: within_task_def confined_def)
  have others_state: "tk_state (task_at c j) \<noteq> Task_running" if "j < 4" "j \<noteq> i" for j
    using ok a that by (auto simp: user_ok_def sched_ok_def)
  have "sched_ok c'"
    using c others others_state a i by (cases r) (auto simp: call_ok_Some sched_ok_def, metis+)
  then show ?thesis using w by (simp add: user_ok_def within_task_def)
qed

lemma call_syscall:
  assumes ok: "user_ok T c" and a: "uc_active_task c = Some i"
  shows "call_ok T i c (arwill_x86_64_user_handle_syscall rg fr c)"
proof -
  have i: "i < 4" and run: "tk_state (task_at c i) = Task_running" by (rule active_running [OF ok a])+
  have co: "core_ok T c" using ok by (simp add: user_ok_def)
  let ?f = "\<lambda>task :: x86_64_user_task. task\<lparr>tk_syscall_count := tk_syscall_count task + 1\<rparr>"
  have "quiet T i c (with_task i ?f c)"
    by (rule quiet_update [OF quiet_refl [OF co i] i]) (simp_all add: task_ok_def)
  then have q: "quiet T i c ((with_task i ?f c)\<lparr>uc_syscall_count := n\<rparr>)" for n
    by (rule quiet_fields [OF _ i]) simp_all
  moreover have "tk_state (task_at ((with_task i ?f c)\<lparr>uc_syscall_count := n\<rparr>) i) = Task_running" for n
    using run q [of n] by (simp add: quiet_def)
  ultimately show ?thesis
    using i
    by (simp add: arwill_x86_64_user_handle_syscall_def a syscall_of_def Let_def call_write call_exit call_read
        call_clock call_read_file call_write_file call_argument call_networks call_net_accept call_net_read
        call_net_write call_udp_send call_udp_receive call_random call_realtime call_bad)
qed

lemma call_timer:
  assumes ok: "user_ok T c" and a: "uc_active_task c = Some i"
    and t: "arwill_x86_64_user_handle_timer rg fr c = (r, c')"
  shows "call_ok T i c (Some (r, rg, c'))"
proof -
  have i: "i < 4" by (rule active_running [OF ok a])
  have q: "quiet T i c c" using ok i by (simp add: quiet_refl user_ok_def)
  define c1 where "c1 = c\<lparr>uc_active_slice_ticks := uc_active_slice_ticks c + 1\<rparr>"
  have q1: "quiet T i c c1" unfolding c1_def by (rule quiet_fields [OF q i]) simp_all
  let ?f = "\<lambda>task. (copy_active_context rg fr task)\<lparr>tk_state := Task_ready, tk_status := ''ready''\<rparr>"
  have e: "(r, c') = (if fr_code_segment fr AND 3 \<noteq> 3 then (False, c)
      else if uc_active_slice_ticks c1 < user_quantum_ticks then (False, c1)
      else (True, (with_task i ?f c1)\<lparr>uc_preemptions := uc_preemptions c1 + 1, uc_active_task := None\<rparr>))"
    unfolding t [symmetric] arwill_x86_64_user_handle_timer_def a option.case Let_def c1_def by (rule refl)
  have "call_ok T i c (Some (True, rg, (with_task i ?f c1)\<lparr>uc_preemptions := n, uc_active_task := None\<rparr>))" for n
    by (rule call_leave [OF q1 i, where f = ?f]) (auto simp: copy_active_context_def task_ok_def)
  then show ?thesis using e q q1 by (auto simp: call_ok_Some quiet_def split: if_splits)
qed

lemma call_fault:
  assumes ok: "user_ok T c" and a: "uc_active_task c = Some i"
    and t: "arwill_x86_64_user_handle_fault rg fr v c = (r, c')"
  shows "call_ok T i c (Some (r, rg, c'))"
proof -
  have i: "i < 4" by (rule active_running [OF ok a])
  have q: "quiet T i c c" using ok i by (simp add: quiet_refl user_ok_def)
  show ?thesis
  proof (cases "fr_code_segment fr AND 3 \<noteq> 3")
    case True
    then show ?thesis using t a q by (simp add: arwill_x86_64_user_handle_fault_def call_ok_Some quiet_def)
  next
    case False
    let ?f = "\<lambda>task :: x86_64_user_task. task\<lparr>tk_state := Task_faulted, tk_fault_vector := v,
        tk_exit_code := 128 + ucast v, tk_status := ''user fault''\<rparr>"
    let ?c1 = "with_task i ?f (cleanup_task_network (with_task i (copy_active_context rg fr) c) i)"
    have "r = True" "c' = ?c1\<lparr>uc_faults := uc_faults ?c1 + 1, uc_active_task := None\<rparr>"
      using t a False by (simp_all add: arwill_x86_64_user_handle_fault_def Let_def)
    then show ?thesis using i q by (simp only:) (rule call_end [OF _ _ _ _ _ _ _ disjI1 [OF refl] refl], simp_all)
  qed
qed

section \<open>Between two runs\<close>

lemma sched_restart:
  assumes "sched_ok c" "uc_active_task c = None" "reloaded i c c'" "tk_state (task_at c' i) \<noteq> Task_running"
  shows "sched_ok c'"
  unfolding sched_ok_def
proof (intro conjI allI impI)
  fix j :: nat assume "j < 4"
  then show "(tk_state (task_at c' j) = Task_running) = (uc_active_task c' = Some j)"
    using assms by (cases "j = i") (auto simp: sched_ok_def reloaded_def)
qed (use assms in \<open>auto simp: reloaded_def\<close>)

lemma restarted_slot:
  assumes "core_ok T c" "i < 4" "j < 4"
  shows "restarted T i c (c\<lparr>uc_next_slot := j\<rparr>)"
proof -
  have "within_task T i c (c\<lparr>uc_next_slot := j\<rparr>)"
    by (rule within_fields [OF assms(1,2)]) (use assms(3) core_parts [OF assms(1)] in simp_all)
  then show ?thesis by (auto simp: restarted_def within_task_def confined_def reloaded_def in_pages_def user_pages_def)
qed

lemma restarted_state:
  assumes "core_ok T c" "i < 4" "s \<noteq> Task_blocked_input"
  shows "restarted T i c (with_task i (\<lambda>t. t\<lparr>tk_state := s\<rparr>) c)"
proof -
  have "c = c\<lparr>uc_ram := uc_ram c\<rparr>" by simp
  then show ?thesis
    using restarted_reload [OF assms(1,2), where f = "\<lambda>t. t\<lparr>tk_state := s\<rparr>" and m = "uc_ram c"]
      core_parts [OF assms(1)] assms(2,3) by (simp add: space_at_def network_of_def task_ok_def)
qed

text \<open>A task that is given to a program: the table before and after.\<close>

definition given :: "u64 set \<Rightarrow> nat \<Rightarrow> ('n, 'k, 'f) x86_64_user_context \<Rightarrow> ('n, 'k, 'f) x86_64_user_context \<Rightarrow> bool" where
  "given T i c c' \<longleftrightarrow> i < 4 \<and> tk_state (task_at c i) \<in> {Task_empty, Task_finished, Task_faulted} \<and>
     restarted T i c c' \<and> tk_state (task_at c' i) \<in> {Task_empty, Task_ready}"

lemma reused_prepared:
  assumes ok: "core_ok T c" and f: "find_reusable_task c = (Some i, c1)"
    and con: "\<forall>n. console = Some n \<longrightarrow> n < length (uc_consoles c)"
    and p: "prepare_task c1 i name argument console = (r, c2)"
  shows "given T i c c2" "uc_ram c2 = cleared_ram c i"
    "r \<Longrightarrow> tk_state (task_at c2 i) = Task_ready \<and> tk_pid (task_at c2 i) = uc_next_pid c \<and>
        tk_saved (task_at c2 i) = clear_saved_context \<and> c_string (tk_name (task_at c2 i)) = c_string name \<and>
        c_string (tk_argument (task_at c2 i)) = c_string argument \<and> queued (task_at c2 i) = []"
proof -
  have i: "i < 4" "tk_state (task_at c i) \<in> {Task_empty, Task_finished, Task_faulted}"
    and c1: "c1 = c\<lparr>uc_next_slot := (i + 1) mod arwill_user_task_capacity\<rparr>"
    using reusable_task [OF f] by simp_all
  have r1: "restarted T i c c1" unfolding c1 by (rule restarted_slot [OF ok i(1)]) simp
  then have ok1: "core_ok T c1" by (simp add: restarted_def)
  have con1: "\<forall>n. console = Some n \<longrightarrow> n < length (uc_consoles c1)" using con c1 by simp
  note pr = prepare_ok [OF ok1 i(1) con1 p]
  show "given T i c c2" using i pr restarted_trans [OF r1] by (cases r) (auto simp: given_def)
  have "uc_ram c1 = uc_ram c" "space_at c1 i = space_at c i" by (simp_all add: c1 space_at_def task_at_def)
  then have "cleared_ram c1 i = cleared_ram c i" by (simp only: cleared_ram_def)
  then show "uc_ram c2 = cleared_ram c i" using pr by simp
  show "r \<Longrightarrow> tk_state (task_at c2 i) = Task_ready \<and> tk_pid (task_at c2 i) = uc_next_pid c \<and>
        tk_saved (task_at c2 i) = clear_saved_context \<and> c_string (tk_name (task_at c2 i)) = c_string name \<and>
        c_string (tk_argument (task_at c2 i)) = c_string argument \<and> queued (task_at c2 i) = []"
    using pr c1 by simp
qed

lemma given_again:
  assumes "given T i c c1" "restarted T i c1 c2" "tk_state (task_at c2 i) \<in> {Task_empty, Task_ready}"
  shows "given T i c c2"
  using assms restarted_trans by (auto simp: given_def)

lemma given_user:
  assumes "user_ok T c" "uc_active_task c = None" "given T i c c'"
  shows "user_ok T c'"
  using assms sched_restart [of c i c'] by (auto simp: user_ok_def given_def restarted_def)

text \<open>What a program finds when it starts.\<close>

definition started :: "bytes \<Rightarrow> u64 \<Rightarrow> bytes \<Rightarrow> bytes \<Rightarrow> u32 \<Rightarrow> nat \<Rightarrow> ('n, 'k, 'f) x86_64_user_context \<Rightarrow>
    ('n, 'k, 'f) x86_64_user_context \<Rightarrow> bool" where
  "started img sz name argument pid i c c' \<longleftrightarrow> (\<exists>h e k. image_header img sz = Some (h, e, k) \<and>
     tk_state (task_at c' i) = Task_ready \<and> tk_pid (task_at c' i) = pid \<and>
     tk_saved (task_at c' i) = clear_saved_context\<lparr>sv_frame := (sv_frame clear_saved_context)
       \<lparr>fr_instruction_pointer := user_code_virtual + of_nat e\<rparr>\<rparr> \<and>
     c_string (tk_name (task_at c' i)) = c_string name \<and> c_string (tk_argument (task_at c' i)) = c_string argument \<and>
     queued (task_at c' i) = [] \<and> uc_ram c' = loaded_ram (space_at c i) img h k (cleared_ram c i))"

lemma spawn_ok:
  assumes ok: "core_ok T c" and len: "unat sz \<le> length img" and n: "n < length (uc_consoles c)"
    and s: "x86_64_user_spawn_image c (Some img) sz (Some name) (Some argument) (Some n) = (r, c')"
  shows "c' = c \<and> r = None \<or> (\<exists>i. given T i c c' \<and>
    (case r of None \<Rightarrow> tk_state (task_at c' i) = Task_empty | Some pid \<Rightarrow> started img sz name argument (uc_next_pid c) i c c' \<and>
       pid = uc_next_pid c))"
proof (cases "uc_available c")
  case True
  obtain f c1 where f: "find_reusable_task c = (f, c1)" by fastforce
  show ?thesis
  proof (cases f)
    case None
    then show ?thesis using s f True reusable_task [OF f] by (simp add: x86_64_user_spawn_image_def)
  next
    case (Some i)
    obtain ok1 c2 where p: "prepare_task c1 i name argument (Some n) = (ok1, c2)" by fastforce
    have con: "\<forall>m. Some n = Some m \<longrightarrow> m < length (uc_consoles c)" using n by simp
    note pr = reused_prepared [OF ok f [unfolded Some] con p]
    have i: "i < 4" and co2: "core_ok T c2" and sp: "space_at c2 i = space_at c i"
      using pr(1) by (auto simp: given_def restarted_def reloaded_def)
    have e2: "restarted T i c2 (with_task i (\<lambda>t. t\<lparr>tk_state := Task_empty\<rparr>) c2)"
      by (rule restarted_state [OF co2 i]) simp
    have at: "task_at (with_task i g c3) i = g (task_at c3 i)" if "length (uc_tasks c3) = 4" for g c3
      using that i by (simp add: with_task_at)
    note l2 = core_parts(2) [OF co2]
    show ?thesis
    proof (cases "ok1 \<and> image_header img sz \<noteq> None")
      case False
      then have "r = None" "c' = with_task i (\<lambda>t. t\<lparr>tk_state := Task_empty\<rparr>) c2"
        using s True f Some p copy_image_eq [OF len, of c2 i]
        by (auto simp: x86_64_user_spawn_image_def Let_def split: if_splits option.splits)
      then show ?thesis using given_again [OF pr(1) e2] at [OF l2] by auto
    next
      case h: True
      then obtain hd e k where hd: "image_header img sz = Some (hd, e, k)" by auto
      let ?f = "\<lambda>task :: x86_64_user_task. task\<lparr>tk_saved := (tk_saved task)\<lparr>sv_frame := (sv_frame (tk_saved task))
          \<lparr>fr_instruction_pointer := user_code_virtual + of_nat e\<rparr>\<rparr>\<rparr>"
      let ?c3 = "with_task i ?f (c2\<lparr>uc_ram := loaded_ram (space_at c2 i) img hd k (uc_ram c2)\<rparr>)"
      have c': "c' = ?c3" "r = Some (tk_pid (task_at ?c3 i))"
        using s True f Some p copy_image_eq [OF len, of c2 i] h hd
        by (auto simp: x86_64_user_spawn_image_def Let_def)
      have r3: "restarted T i c2 ?c3"
        by (rule restarted_image [OF co2 i image_header_bounds(3) [OF hd]]) (simp_all add: task_ok_def)
      have at3: "task_at ?c3 i = ?f (task_at c2 i)" using l2 i by (simp add: task_at_def with_task_def)
      have "given T i c ?c3" by (rule given_again [OF pr(1) r3]) (use at3 pr(3) h in simp)
      moreover have "started img sz name argument (uc_next_pid c) i c ?c3"
        using pr(2,3) h hd at3 sp by (simp add: started_def queued_def)
      ultimately show ?thesis using c' at3 pr(3) h by auto
    qed
  qed
qed (use s in \<open>simp add: x86_64_user_spawn_image_def\<close>)

lemma program_ok:
  assumes ok: "core_ok T c" and n: "\<forall>m. console = Some m \<longrightarrow> m < length (uc_consoles c)"
    and s: "start_program c program console = (r, c')"
  shows "c' = c \<and> r = None \<or> (\<exists>i. given T i c c' \<and> (r = None \<or> r = Some i \<and> tk_state (task_at c' i) = Task_ready))"
proof (cases "uc_available c \<and> console \<noteq> None")
  case True
  obtain f c1 where f: "find_reusable_task c = (f, c1)" by fastforce
  show ?thesis
  proof (cases f)
    case None
    then show ?thesis using s f True reusable_task [OF f] by (simp add: start_program_def)
  next
    case (Some i)
    obtain ok1 c2 where p: "prepare_task c1 i (arwill_user_program_name program) [] console = (ok1, c2)" by fastforce
    note pr = reused_prepared [OF ok f [unfolded Some] n p]
    have i: "i < 4" and co2: "core_ok T c2" using pr(1) by (auto simp: given_def restarted_def)
    note m2 = core_parts(1) [OF co2] and l2 = core_parts(2) [OF co2]
    let ?m = "program_ram program (as_code_physical (space_at c2 i) ! 0) (uc_ram c2)"
    have "restarted T i c2 (with_task i (\<lambda>t. t) (c2\<lparr>uc_ram := ?m\<rparr>))"
    proof (rule restarted_reload [OF co2 i])
      show "\<forall>a. ?m a \<noteq> uc_ram c2 a \<longrightarrow> in_pages (user_pages (space_at c2 i)) a"
      proof (intro allI impI)
        fix a assume "?m a \<noteq> uc_ram c2 a"
        then obtain k where k: "k < 4096" "a = as_code_physical (space_at c2 i) ! 0 + of_nat k"
          using program_ram_page by blast
        then have "a = code_at (space_at c2 i) k" by (simp add: code_at_def)
        then show "in_pages (user_pages (space_at c2 i)) a" using code_at_page(2) [OF m2 i, of k] k(1) by simp
      qed
    qed (use core_parts [OF co2] i in \<open>simp_all add: space_at_def network_of_def\<close>)
    then have "restarted T i c2 (c2\<lparr>uc_ram := ?m\<rparr>)" by (simp add: with_task_def)
    then have "given T i c (c2\<lparr>uc_ram := ?m\<rparr>)" if ok1
      by (rule given_again [OF pr(1)]) (use pr(3) that in \<open>simp add: task_at_def\<close>)
    then show ?thesis
      using s True f Some p pr build_program [of c2 i program]
      by (cases ok1) (auto simp: start_program_def task_at_def)
  qed
qed (use s in \<open>auto simp: start_program_def\<close>)

section \<open>Input and cancellation\<close>

lemma sched_within:
  assumes "sched_ok c" "within_task T i c c'" "uc_active_task c' = uc_active_task c" "uc_active_task c \<noteq> Some i"
    "tk_state (task_at c' i) \<noteq> Task_running"
  shows "sched_ok c'"
  unfolding sched_ok_def
proof (intro conjI allI impI)
  fix j :: nat assume "j < 4"
  then show "(tk_state (task_at c' j) = Task_running) = (uc_active_task c' = Some j)"
    using assms by (cases "j = i") (auto simp: sched_ok_def within_task_def confined_def)
qed (use assms in \<open>auto simp: sched_ok_def\<close>)

lemma find_task_Some: "find_task c pid = Some i \<Longrightarrow> i < 4 \<and> tk_state (task_at c i) \<noteq> Task_empty \<and> tk_pid (task_at c i) = pid"
  unfolding find_task_def find_Some_iff by auto

definition enqueue :: "u8 \<Rightarrow> x86_64_user_task \<Rightarrow> x86_64_user_task" where
  "enqueue b t = t\<lparr>tk_input := (tk_input t)[(tk_input_head t + tk_input_count t) mod user_input_capacity := b],
     tk_input_count := tk_input_count t + 1\<rparr>"

lemma input_enqueue_ok:
  assumes "task_ok t" "tk_input_count t < user_input_capacity"
  shows "queued (enqueue b t) = queued t @ [b]" "task_ok (enqueue b t)"
proof -
  have r: "ring_ok user_input_capacity (tk_input t) (tk_input_head t) (tk_input_count t)" using assms(1) by (simp add: task_ok_def)
  show "queued (enqueue b t) = queued t @ [b]" using ring_push(1) [OF r assms(2)] by (simp add: queued_def enqueue_def)
  show "task_ok (enqueue b t)" using ring_push(2) [OF r assms(2)] assms(1) by (simp add: task_ok_def enqueue_def)
qed

lemma input_within:
  assumes ok: "core_ok T c" and d: "x86_64_user_deliver_input c pid b = (True, c')"
  obtains i where "find_task c pid = Some i" "i < 4" "within_task T i c c'" "uc_active_task c' = uc_active_task c"
    "tk_state (task_at c i) = Task_ready \<or> tk_state (task_at c i) = Task_blocked_input"
    "task_at c' i = (if tk_state (task_at c i) = Task_ready then enqueue b (task_at c i)
       else read_done (min (tk_input_count (task_at c i) + 1) (unat (tk_pending_read_length (task_at c i))))
         (enqueue b (task_at c i)))"
    "uc_ram c' = (if tk_state (task_at c i) = Task_ready then uc_ram c
       else read_memory (with_task i (enqueue b) c) i (min (tk_input_count (task_at c i) + 1) (unat (tk_pending_read_length (task_at c i)))))"
    "tk_input_count (task_at c i) < user_input_capacity"
proof -
  obtain i where f: "find_task c pid = Some i" using d by (cases "find_task c pid") (simp_all add: x86_64_user_deliver_input_def)
  have i: "i < 4" using find_task_Some [OF f] by simp
  define t where "t = task_at c i"
  define c1 where "c1 = with_task i (enqueue b) c"
  have st: "tk_state t = Task_ready \<or> tk_state t = Task_blocked_input" and cnt: "tk_input_count t < user_input_capacity"
    and c': "c' = (if tk_state t = Task_blocked_input then snd (complete_pending_read c1 i) else c1)"
    using d f i core_parts(2) [OF ok]
    by (auto simp: x86_64_user_deliver_input_def Let_def t_def c1_def enqueue_def [abs_def] task_at_def with_task_def split: if_splits)
  note p = core_parts [OF ok]
  have tok: "task_ok t" using p(4) [OF i] by (simp add: t_def)
  have w1: "within_task T i c c1"
    unfolding c1_def by (rule within_task_update [OF ok i])
      (use input_enqueue_ok(2) [OF tok cnt] p(9) [OF i] in \<open>simp_all add: t_def space_at_def enqueue_def\<close>)
  have at1: "task_at c1 i = enqueue b t" using p(2) i by (simp add: c1_def with_task_at t_def)
  show ?thesis
  proof (cases "tk_state t = Task_ready")
    case True
    then have "c' = c1" using c' by simp
    then show ?thesis using that [OF f i] w1 at1 True cnt by (simp add: t_def c1_def)
  next
    case False
    then have bl: "tk_state t = Task_blocked_input" using st by simp
    let ?n = "min (tk_input_count t + 1) (unat (tk_pending_read_length t))"
    have co1: "core_ok T c1" using w1 by (simp add: within_task_def)
    have w: "user_range_writable (tk_pending_read_pointer (task_at c1 i)) (tk_pending_read_length (task_at c1 i))"
      using tok bl by (simp add: at1 task_ok_def enqueue_def)
    have n: "?n = min (tk_input_count (task_at c1 i)) (unat (tk_pending_read_length (task_at c1 i)))"
      by (simp add: at1 enqueue_def)
    show ?thesis
    proof (rule within_read [OF co1 i w n])
      fix c2 assume r: "complete_pending_read c1 i = (?n, c2)" "within_task T i c1 c2"
        "uc_active_task c2 = uc_active_task c1" "task_at c2 i = read_done ?n (task_at c1 i)" "uc_ram c2 = read_memory c1 i ?n"
      have e: "c' = c2" using c' bl r(1) by simp
      show ?thesis
      proof (rule that [OF f i])
        show "within_task T i c c'" unfolding e by (rule within_trans [OF w1 r(2)])
      qed (use r bl cnt e at1 in \<open>simp_all add: t_def [symmetric] c1_def [symmetric]\<close>, simp add: c1_def)
    qed
  qed
qed

lemma cancel_within:
  assumes ok: "core_ok T c" and d: "x86_64_user_cancel c pid code = (True, c')"
  obtains i where "find_task c pid = Some i" "i < 4" "within_task T i c c'" "uc_active_task c' = uc_active_task c"
    "uc_active_task c \<noteq> Some i" "tk_state (task_at c' i) = Task_finished" "empty_owner (network_of c' i)"
proof -
  obtain i where f: "find_task c pid = Some i" using d by (cases "find_task c pid") (simp_all add: x86_64_user_cancel_def)
  have i: "i < 4" using find_task_Some [OF f] by simp
  let ?f = "\<lambda>task :: x86_64_user_task. task\<lparr>tk_state := Task_finished\<rparr>"
  let ?g = "\<lambda>task :: x86_64_user_task. task\<lparr>tk_exit_code := if code = 0 then canceled_exit_code else code, tk_status := ''canceled''\<rparr>"
  define c1 where "c1 = with_task i ?f c"
  have a: "uc_active_task c \<noteq> Some i" and c': "c' = with_task i ?g (cleanup_task_network c1 i)"
    using d f by (auto simp: x86_64_user_cancel_def c1_def Let_def split: if_splits)
  note p = core_parts [OF ok]
  have w1: "within_task T i c c1"
    unfolding c1_def by (rule within_task_update [OF ok i]) (use p(4,9) [OF i] in \<open>simp_all add: space_at_def task_ok_def\<close>)
  then have ok1: "core_ok T c1" by (simp add: within_task_def)
  obtain st ow where e: "cleanup_task_network c1 i = with_network i st ow c1" "within_task T i c1 (with_network i st ow c1)"
      "empty_owner ow" by (rule within_cleanup [OF ok1 i])
  define c2 where "c2 = with_network i st ow c1"
  have ok2: "core_ok T c2" using e(2) by (simp add: within_task_def c2_def)
  note p2 = core_parts [OF ok2]
  have w2: "within_task T i c2 (with_task i ?g c2)"
    by (rule within_task_update [OF ok2 i]) (use p2(4,9) [OF i] in \<open>simp_all add: space_at_def task_ok_def\<close>)
  have "within_task T i c c'"
    unfolding c' e(1) c2_def [symmetric] by (rule within_trans [OF within_trans [OF w1] w2]) (use e(2) in \<open>simp add: c2_def\<close>)
  moreover have "task_at c' i = ?g (task_at c2 i)"
    unfolding c' e(1) c2_def [symmetric] using p2(2) i by (simp add: with_task_at)
  moreover have "task_at c2 i = (task_at c1 i)\<lparr>tk_network := ow\<rparr>"
    using core_parts(2) [OF ok1] i by (simp add: c2_def with_network_task)
  moreover have "task_at c1 i = ?f (task_at c i)" using p(2) i by (simp add: c1_def with_task_at)
  moreover have "uc_active_task c' = uc_active_task c" unfolding c' e(1) by (simp add: c1_def)
  ultimately show ?thesis using that [OF f i] a e(3) by (simp add: network_of_def)
qed

end
