(* ===== verification/User_Boot.thy ===== *)
theory User_Boot
  imports User_Machine
begin

text \<open>
  The start of user mode: the address spaces of all tasks are made from free pages, and the
  invariant holds when that succeeds; it succeeds when there are pages enough.
\<close>

section \<open>Before the start\<close>

text \<open>The arrays have their lengths; nothing else is known of a context before.\<close>

definition raw_task :: "x86_64_user_task \<Rightarrow> bool" where
  "raw_task t \<longleftrightarrow> length (as_code_physical (tk_address_space t)) = 48 \<and>
     length (as_stack_physical (tk_address_space t)) = 24 \<and> length (tk_name t) = 48 \<and> length (tk_argument t) = 64 \<and>
     length (tk_input t) = 128 \<and> length (ow_handles (tk_network t)) = 2"

definition raw_context :: "('n, 'k, 'f) x86_64_user_context \<Rightarrow> bool" where
  "raw_context c \<longleftrightarrow> length (uc_tasks c) = 4 \<and> (\<forall>t\<in>set (uc_tasks c). raw_task t) \<and>
     length (uc_filesystem_buffer c) = 2048 \<and> length (uc_path_buffer c) = 64"

definition clean_task :: "x86_64_user_task \<Rightarrow> bool" where
  "clean_task t \<longleftrightarrow> (\<exists>t0. raw_task t0 \<and> t = reset_task t0)"

lemma clean_task_ok:
  assumes "clean_task t"
  shows "task_ok t" "raw_task t" "tk_state t = Task_empty" "tk_console t = None"
    "\<exists>ow. length (ow_handles ow) = 2 \<and> tk_network t = arwill_awp_network_owner_init ow"
  using assms by (auto simp: clean_task_def reset_task_def task_ok_def raw_task_def ring_ok_def
      arwill_awp_network_owner_init_def)

lemma masked_page: "page_ok (x AND page_address_mask)"
proof -
  have b: "\<not> bit (x AND page_address_mask) i" if "i < 12 \<or> 52 \<le> i" for i
    using that unfolding bit_and_iff mask_bits by auto
  have "take_bit 12 (x AND page_address_mask) = 0" by (rule bit_word_eqI) (use b in \<open>auto simp: bit_simps\<close>)
  then have "4096 dvd unat (x AND page_address_mask)"
    by (metis mod_0_imp_dvd unat_take12 unsigned_0)
  moreover have "take_bit 52 (x AND page_address_mask) = x AND page_address_mask"
    by (rule bit_word_eqI) (metis b bit_take_bit_iff not_less)
  then have "unat (x AND page_address_mask) < 2 ^ 52"
    using take_bit_nat_less_exp [of 52 "unat (x AND page_address_mask)"] by (simp only: unsigned_take_bit_eq [symmetric])
  ultimately show ?thesis by (simp add: page_ok_def)
qed

section \<open>The address spaces\<close>

lemma with_spaces:
  assumes "n < length (uc_tasks c)"
  shows "take (Suc n) (uc_tasks (with_task n f c)) = take n (uc_tasks c) @ [f (task_at c n)]"
  using assms by (simp add: with_task_def task_at_def take_Suc_conv_app_nth)

definition prepared :: "u64 set \<Rightarrow> nat \<Rightarrow> ('n, 'k, 'f) x86_64_user_context \<Rightarrow> arwill_memory \<Rightarrow> bool" where
  "prepared T n c memory \<longleftrightarrow> length (uc_tasks c) = 4 \<and> (\<forall>t\<in>set (uc_tasks c). raw_task t) \<and>
     (\<forall>t\<in>set (take n (uc_tasks c)). clean_task t) \<and>
     spaces_ok T (uc_ram c) (uc_kernel_cr3 c) (map tk_address_space (take n (uc_tasks c))) \<and>
     free_apart T (map tk_address_space (take n (uc_tasks c))) memory"

lemma prepared_next:
  assumes p: "prepared T n c memory" and n: "n < 4"
    and i: "initialize_address_space (uc_kernel_cr3 c) (tk_address_space (task_at c n)) memory (uc_ram c) = (True, s', memory', m')"
  obtains T' m2 where "prepared T' (Suc n) (reset_task_runtime (with_task n (\<lambda>t. t\<lparr>tk_address_space := s'\<rparr>) (c\<lparr>uc_ram := m'\<rparr>)) n) memory'"
    "reset_task_runtime (with_task n (\<lambda>t. t\<lparr>tk_address_space := s'\<rparr>) (c\<lparr>uc_ram := m'\<rparr>)) n =
       with_task n (\<lambda>t. reset_task (t\<lparr>tk_address_space := s'\<rparr>)) (c\<lparr>uc_ram := m2\<rparr>)"
proof -
  let ?S = "map tk_address_space (take n (uc_tasks c))"
  let ?c1 = "with_task n (\<lambda>t. t\<lparr>tk_address_space := s'\<rparr>) (c\<lparr>uc_ram := m'\<rparr>)"
  have len: "length (uc_tasks c) = 4" and raw: "raw_task (task_at c n)"
    and sp: "spaces_ok T (uc_ram c) (uc_kernel_cr3 c) ?S" "free_apart T ?S memory"
    using p n by (simp_all add: prepared_def task_at_def)
  obtain T' where e: "spaces_ok T' m' (uc_kernel_cr3 c) (?S @ [s'])" "free_apart T' (?S @ [s']) memory'"
    by (rule spaces_extend [OF sp _ _ i]) (use raw in \<open>simp_all add: raw_task_def\<close>)
  have s': "length (as_code_physical s') = 48" "length (as_stack_physical s') = 24"
      "\<forall>q\<in>set (user_pages s'). page_ok q \<and> (\<forall>a. in_page q a \<longrightarrow> a \<notin> T')"
    using e(1) by (simp_all add: spaces_ok_def)
  have at: "space_at ?c1 n = s'" using len n by (simp add: space_at_def task_at_def with_task_def)
  define m2 where "m2 = cleared_ram ?c1 n"
  have r: "reset_task_runtime ?c1 n = with_task n (\<lambda>t. reset_task (t\<lparr>tk_address_space := s'\<rparr>)) (c\<lparr>uc_ram := m2\<rparr>)"
    (is "_ = ?c2") using reset_pages [of ?c1 n] s' at len n by (simp add: with_task_def m2_def)
  have "\<forall>a\<in>T'. m2 a = m' a" using s'(3) by (auto simp: m2_def cleared_ram_def at in_pages_def)
  note sp2 = spaces_agree [OF e(1) this]
  have new: "raw_task ((task_at c n)\<lparr>tk_address_space := s'\<rparr>)" "raw_task (reset_task ((task_at c n)\<lparr>tk_address_space := s'\<rparr>))"
    using raw s' by (simp_all add: raw_task_def reset_task_def arwill_awp_network_owner_init_def)
  have tk: "take (Suc n) (uc_tasks ?c2) = take n (uc_tasks c) @ [reset_task ((task_at c n)\<lparr>tk_address_space := s'\<rparr>)]"
    using with_spaces [of n "c\<lparr>uc_ram := m2\<rparr>"] len n by (simp add: task_at_def)
  have "prepared T' (Suc n) ?c2 memory'"
    unfolding prepared_def tk
  proof (intro conjI)
    show "\<forall>t\<in>set (uc_tasks ?c2). raw_task t"
      using p new(2) set_update_subset_insert by (fastforce simp: prepared_def with_task_def task_at_def)
    show "\<forall>t\<in>set (take n (uc_tasks c) @ [reset_task ((task_at c n)\<lparr>tk_address_space := s'\<rparr>)]). clean_task t"
      using p new(1) by (auto simp: prepared_def clean_task_def)
  qed (use len e sp2 in \<open>simp_all add: with_task_def reset_task_def\<close>)
  then show ?thesis using that [of T' m2] unfolding r by blast
qed

lemma init_tasks:
  assumes "prepared T n c memory" "n \<le> 4" "initialize_tasks [n..<4] c memory = (True, c', memory')"
  obtains T' ts m where "prepared T' 4 c' memory'" "c' = c\<lparr>uc_tasks := ts, uc_ram := m\<rparr>"
  using assms
proof (induction "4 - n" arbitrary: T n c memory thesis)
  case 0
  then show ?case by (cases c) (auto simp: prepared_def)
next
  case (Suc k)
  then have n: "n < 4" by simp
  obtain ok s' mem1 m1 where i: "initialize_address_space (uc_kernel_cr3 c) (tk_address_space (task_at c n)) memory (uc_ram c) =
      (ok, s', mem1, m1)" by (metis prod_cases4)
  let ?c1 = "reset_task_runtime (with_task n (\<lambda>t. t\<lparr>tk_address_space := s'\<rparr>) (c\<lparr>uc_ram := m1\<rparr>)) n"
  have ok: ok and rest: "initialize_tasks [Suc n..<4] ?c1 mem1 = (True, c', memory')"
    using Suc.prems(4) i by (auto simp: upt_rec [of n 4] n Let_def split: if_splits)
  have i': "initialize_address_space (uc_kernel_cr3 c) (tk_address_space (task_at c n)) memory (uc_ram c) = (True, s', mem1, m1)"
    using i ok by simp
  obtain T1 m2 where p: "prepared T1 (Suc n) ?c1 mem1"
      "?c1 = with_task n (\<lambda>t. reset_task (t\<lparr>tk_address_space := s'\<rparr>)) (c\<lparr>uc_ram := m2\<rparr>)"
    by (rule prepared_next [OF Suc.prems(2) n i']) blast
  obtain T' ts m where r: "prepared T' 4 c' memory'" "c' = ?c1\<lparr>uc_tasks := ts, uc_ram := m\<rparr>"
    by (rule Suc.hyps(1) [OF _ _ p(1) _ rest]) (use Suc.hyps(2) n in simp_all)
  have "c' = c\<lparr>uc_tasks := ts, uc_ram := m\<rparr>" using r(2) unfolding p(2) by (simp add: with_task_def)
  then show ?case using Suc.prems(1) r(1) by blast
qed

lemma prepared_core:
  assumes p: "prepared T 4 c memory" and b: "length (uc_filesystem_buffer c) = 2048" "length (uc_path_buffer c) = 64"
    and e: "entropy_ok (uc_entropy c)" and n: "uc_next_slot c < 4" and net: "\<forall>s. uc_ipv4 c = Some s \<longrightarrow> owned s []"
  shows "core_ok T c"
proof -
  have len: "length (uc_tasks c) = 4" using p by (simp add: prepared_def)
  then have "take 4 (uc_tasks c) = uc_tasks c" by simp
  with p len have tasks: "length (uc_tasks c) = 4" "\<forall>t\<in>set (uc_tasks c). clean_task t" "memory_ok T c"
    by (simp_all add: prepared_def memory_ok_def spaces_of_def)
  have own: "\<forall>t\<in>set (uc_tasks c). \<exists>ow. length (ow_handles ow) = 2 \<and> tk_network t = arwill_awp_network_owner_init ow"
    using tasks(2) clean_task_ok(5) by blast
  have step: "owned s (map tk_network ts)" if "owned s []" "\<forall>t\<in>set ts. \<exists>ow. length (ow_handles ow) = 2 \<and>
      tk_network t = arwill_awp_network_owner_init ow" for s :: "('a, 'b) arwill_ipv4_stack" and ts
    using that
  proof (induction ts rule: rev_induct)
    case (snoc t ts)
    then obtain ow where ow: "length (ow_handles ow) = 2" "tk_network t = arwill_awp_network_owner_init ow" by auto
    have "owned s (map tk_network ts)" using snoc by simp
    then show ?case using owned_start [OF _ ow(1)] ow(2) by simp
  qed simp
  have empty: "length (ow_handles (tk_network t)) = 2 \<and> empty_owner (tk_network t)" if "t \<in> set (uc_tasks c)" for t
  proof -
    obtain ow where ow: "length (ow_handles ow) = 2" "tk_network t = arwill_awp_network_owner_init ow" using own \<open>t \<in> _\<close> by blast
    then show ?thesis by (simp add: empty_owner_def handle_at_def arwill_awp_network_owner_init_def clear_handle_def)
  qed
  have "network_ok c"
    using step [OF _ own] net empty by (auto simp: network_ok_def owners_of_def split: option.splits)
  then show ?thesis using tasks b e n clean_task_ok by (auto simp: core_ok_def)
qed

section \<open>Steps\<close>

text \<open>
  The machine with programs. Between two runs of tasks the kernel starts, feeds and stops
  programs and serves the network; while a task runs, it stores into memory where its mapping lets
  it, makes calls with any registers, is interrupted and faults. \<open>retire\<close> is the end of
  \<open>x86_64_user_run\<close>. What devices, the clock and the file system hold may change at any time.
\<close>

inductive user_step :: "('n, 'k, 'f) x86_64_user_context \<Rightarrow> ('n, 'k, 'f) x86_64_user_context \<Rightarrow> bool" where
  resume: "poll_select c = Some (i, c') \<Longrightarrow> user_step c c'"
| store: "uc_active_task c = Some i \<Longrightarrow> translate (uc_ram c) (as_cr3 (tk_address_space (task_at c i))) v = Some t \<Longrightarrow>
    tr_user t \<Longrightarrow> tr_write t \<Longrightarrow> user_step c (c\<lparr>uc_ram := (uc_ram c)(tr_address t := b)\<rparr>)"
| syscall: "arwill_x86_64_user_handle_syscall rg fr c = Some (left, rg', c') \<Longrightarrow> user_step c c'"
| timer: "arwill_x86_64_user_handle_timer rg fr c = (left, c') \<Longrightarrow> user_step c c'"
| fault: "arwill_x86_64_user_handle_fault rg fr vector c = (left, c') \<Longrightarrow> user_step c c'"
| spawn: "uc_active_task c = None \<Longrightarrow> unat sz \<le> length img \<Longrightarrow> console < length (uc_consoles c) \<Longrightarrow>
    x86_64_user_spawn_image c (Some img) sz (Some name) (Some argument) (Some console) = (r, c') \<Longrightarrow> user_step c c'"
| start: "uc_active_task c = None \<Longrightarrow> console < length (uc_consoles c) \<Longrightarrow>
    start_program c program (Some console) = (r, c') \<Longrightarrow> user_step c c'"
| retire: "uc_active_task c = None \<Longrightarrow> i < arwill_user_task_capacity \<Longrightarrow>
    tk_state (task_at c i) \<noteq> Task_ready \<Longrightarrow> user_step c (with_task i (\<lambda>task. task\<lparr>tk_state := Task_empty\<rparr>) c)"
| input: "x86_64_user_deliver_input c pid b = (r, c') \<Longrightarrow> user_step c c'"
| cancel: "x86_64_user_cancel c pid code = (r, c') \<Longrightarrow> user_step c c'"
| network: "uc_ipv4 c = Some s \<Longrightarrow> awp_step (s, map tk_network (uc_tasks c)) (s', map tk_network (uc_tasks c)) \<Longrightarrow>
    user_step c (c\<lparr>uc_ipv4 := Some s'\<rparr>)"
| devices: "entropy_ok entropy \<Longrightarrow> length consoles = length (uc_consoles c) \<Longrightarrow>
    user_step c (c\<lparr>uc_consoles := consoles, uc_clock := clock, uc_entropy := entropy, uc_realtime := realtime,
      uc_filesystem := filesystem, uc_log := log\<rparr>)"

inductive user_reachable :: "('n, 'k, 'f) x86_64_user_context \<Rightarrow> bool" where
  boot: "raw_context c \<Longrightarrow> spaces_ok T (uc_ram c) (cr3 AND page_address_mask) [] \<Longrightarrow> free_apart T [] memory \<Longrightarrow>
    entropy_ok entropy \<Longrightarrow> (\<forall>s. ipv4 = Some s \<longrightarrow> awp_reachable (s, [])) \<Longrightarrow>
    c' = arwill_x86_64_user_mode_init c cr3 (Some memory) hhdm clock entropy realtime filesystem ipv4 log \<Longrightarrow>
    uc_available c' \<Longrightarrow> user_reachable c'"
| step: "user_reachable c \<Longrightarrow> user_step c c' \<Longrightarrow> user_reachable c'"

lemma boot_ok:
  assumes raw: "raw_context c" and sp: "spaces_ok T (uc_ram c) (cr3 AND page_address_mask) []" "free_apart T [] memory"
    and e: "entropy_ok entropy" and net: "\<forall>s. ipv4 = Some s \<longrightarrow> awp_reachable (s, [])"
    and c': "c' = arwill_x86_64_user_mode_init c cr3 (Some memory) hhdm clock entropy realtime filesystem ipv4 log"
    and av: "uc_available c'"
  obtains T' where "user_ok T' c'" "\<forall>i<4. tk_state (task_at c' i) = Task_empty" "uc_consoles c' = uc_consoles c"
    "uc_active_task c' = None" "uc_next_slot c' = 0" "uc_next_pid c' = 1000"
proof -
  define c1 where "c1 = c\<lparr>uc_memory := Some memory, uc_kernel_cr3 := cr3 AND page_address_mask, uc_available := False,
            uc_hhdm_available := hhdm \<noteq> 0, uc_runs := 0, uc_syscall_count := 0, uc_bytes_written := 0,
            uc_bad_syscalls := 0, uc_preemptions := 0, uc_faults := 0, uc_clock := clock, uc_entropy := entropy,
            uc_realtime := realtime, uc_filesystem := filesystem, uc_ipv4 := ipv4, uc_log := log,
            uc_active_task := None, uc_next_pid := 1000, uc_next_slot := 0, uc_active_slice_ticks := 0\<rparr>"
  obtain ok c2 mem2 where i: "initialize_tasks [0..<4] c1 memory = (ok, c2, mem2)" by (metis prod_cases3)
  note init = c' [unfolded arwill_x86_64_user_mode_init_def Let_def option.case, folded c1_def]
  have un: "\<not> uc_available c1" by (simp add: c1_def)
  have "c' = (if \<not> uc_hhdm_available c1 then c1 else c2\<lparr>uc_memory := Some mem2, uc_available := ok\<rparr>)"
    unfolding init i prod.case by (rule refl)
  then have ok: ok and c'2: "c' = c2\<lparr>uc_memory := Some mem2, uc_available := True\<rparr>"
    using av un by (auto split: if_splits)
  have "prepared T 0 c1 memory" using raw sp by (simp add: prepared_def raw_context_def c1_def)
  moreover have "initialize_tasks [0..<4] c1 memory = (True, c2, mem2)" using i ok by simp
  ultimately obtain T' ts m where p: "prepared T' 4 c2 mem2" and c2: "c2 = c1\<lparr>uc_tasks := ts, uc_ram := m\<rparr>"
    using init_tasks [of T 0 c1 memory c2 mem2] by blast
  have net0: "\<forall>s. ipv4 = Some s \<longrightarrow> owned s []" using net reachable_owned by fastforce
  have "prepared T' 4 c' mem2" using p unfolding prepared_def c'2 by (simp del: take_all_iff take_all)
  then have "core_ok T' c'"
    by (rule prepared_core) (use raw e net0 in \<open>simp_all add: c'2 c2 c1_def raw_context_def\<close>)
  moreover have "clean_task (task_at c' i)" if "i < 4" for i
    using p that by (simp add: prepared_def c'2 task_at_def)
  then have st: "\<forall>i<4. tk_state (task_at c' i) = Task_empty" using clean_task_ok(3) by blast
  moreover have "uc_active_task c' = None" by (simp add: c'2 c2 c1_def)
  ultimately show ?thesis
    using that [of T'] by (simp add: user_ok_def sched_ok_def) (simp add: c'2 c2 c1_def)
qed

section \<open>The invariant of the machine\<close>

lemma user_within:
  assumes "user_ok T c" "i < 4" "within_task T i c c'" "uc_active_task c' = uc_active_task c"
    "tk_state (task_at c' i) = Task_running \<longleftrightarrow> uc_active_task c = Some i"
  shows "user_ok T c'"
proof -
  have "task_at c' j = task_at c j" if "j \<noteq> i" for j using assms(3) that by (simp add: within_task_def confined_def)
  then have "tk_state (task_at c' j) = Task_running \<longleftrightarrow> uc_active_task c' = Some j" if "j < 4" for j
    using assms that by (cases "j = i") (auto simp: user_ok_def sched_ok_def)
  then show ?thesis using assms(1,3,4) by (simp add: user_ok_def sched_ok_def within_task_def)
qed

lemma select_ok:
  assumes ok: "user_ok T c" and s: "poll_select c = Some (i, c')"
  shows "user_ok T c'" "i < 4" "uc_active_task c' = Some i" "tk_state (task_at c i) = Task_ready"
proof -
  let ?f = "\<lambda>task :: x86_64_user_task. task\<lparr>tk_state := Task_running, tk_status := ''running'', tk_run_count := tk_run_count task + 1\<rparr>"
  let ?c1 = "c\<lparr>uc_next_slot := (i + 1) mod arwill_user_task_capacity, uc_active_task := Some i, uc_active_slice_ticks := 0\<rparr>"
  have f: "find (\<lambda>i. tk_state (task_at c i) = Task_ready) (slots_from c) = Some i" and c': "c' = with_task i ?f ?c1"
    and a: "uc_active_task c = None"
    using s by (auto simp: poll_select_def split: if_splits option.splits)
  then show i: "i < 4" and r: "tk_state (task_at c i) = Task_ready"
    using slots_below [of i c] by (auto simp: find_Some_iff)
  have co: "core_ok T c" using ok by (simp add: user_ok_def)
  note p = core_parts [OF co]
  have w1: "within_task T i c ?c1" by (rule within_fields [OF co i]) (use p in simp_all)
  then have co1: "core_ok T ?c1" by (simp add: within_task_def)
  note p1 = core_parts [OF co1]
  have at1: "task_at ?c1 j = task_at c j" for j by (simp add: task_at_def)
  have "within_task T i ?c1 c'"
    unfolding c' by (rule within_task_update [OF co1 i]) (use p1(4,9) [OF i] r at1 in \<open>simp_all add: space_at_def task_ok_def\<close>)
  then have co': "core_ok T c'" by (simp add: within_task_def)
  have at: "task_at c' j = (if j = i then ?f (task_at c i) else task_at c j)" for j
    unfolding c' using p(2) i by (simp add: with_task_def task_at_def)
  show act: "uc_active_task c' = Some i" unfolding c' by simp
  have "tk_state (task_at c j) \<noteq> Task_running" if "j < 4" for j using ok a that by (simp add: user_ok_def sched_ok_def)
  then show "user_ok T c'" using co' act i by (auto simp: user_ok_def sched_ok_def at)
qed

lemma store_within:
  assumes ok: "core_ok T c" and i: "i < 4"
    and t: "translate (uc_ram c) (as_cr3 (space_at c i)) v = Some t" "tr_user t" "tr_write t"
  shows "within_task T i c (c\<lparr>uc_ram := (uc_ram c)(tr_address t := b)\<rparr>)"
proof (rule within_ram [OF ok i], intro allI impI)
  fix a assume "((uc_ram c)(tr_address t := b)) a \<noteq> uc_ram c a"
  then have a: "a = tr_address t" by (auto split: if_splits)
  note mem = core_parts(1) [OF ok]
  have sp: "spaces_ok T (uc_ram c) (uc_kernel_cr3 c) (spaces_of c)" using mem by (simp add: memory_ok_def)
  have "in_page (as_stack_physical (space_at c i) ! stack_page v) a" "in_stack v"
    using user_access(1,2) [OF sp space_in [OF mem i] t(1,2)] t(3) a by simp_all
  then show "in_pages (as_stack_physical (space_at c i)) a"
    using space_mapped(3) [OF mem i] stack_page_less [of v] by (auto simp: in_pages_nth)
qed

lemma kernel_within:
  assumes ok: "user_ok T c" and w: "\<And>i. i < 4 \<Longrightarrow> within_task T i c c'" and e: "uc_tasks c' = uc_tasks c" "uc_active_task c' = uc_active_task c"
  shows "user_ok T c'"
  using ok w [of 0] e by (simp add: user_ok_def sched_ok_def within_task_def task_at_def)

lemma retire_ok:
  assumes ok: "user_ok T c" and a: "uc_active_task c = None" and i: "i < 4"
  shows "user_ok T (with_task i (\<lambda>task. task\<lparr>tk_state := Task_empty\<rparr>) c)"
proof -
  have co: "core_ok T c" using ok by (simp add: user_ok_def)
  note p = core_parts [OF co]
  show ?thesis
  proof (rule user_within [OF ok i])
    show "within_task T i c (with_task i (\<lambda>task. task\<lparr>tk_state := Task_empty\<rparr>) c)"
      by (rule within_task_update [OF co i]) (use p(4,9) [OF i] in \<open>simp_all add: space_at_def task_ok_def\<close>)
  qed (use a p(2) i in \<open>simp_all add: with_task_at\<close>)
qed

lemma network_step_ok:
  assumes ok: "user_ok T c" and s: "uc_ipv4 c = Some s" and st: "awp_step (s, owners_of c) (s', owners_of c)"
  shows "user_ok T (c\<lparr>uc_ipv4 := Some s'\<rparr>)"
proof -
  have "owned s' (owners_of c)" using step_owned [OF st] ok s by (simp add: user_ok_def core_ok_def network_ok_def)
  then show ?thesis
    using ok by (simp add: user_ok_def core_ok_def network_ok_def sched_ok_def memory_ok_def spaces_of_def owners_of_def task_at_def)
qed

lemma handled_ok:
  assumes ok: "user_ok T c" and h: "uc_active_task c = None \<Longrightarrow> c' = c"
    "\<And>i. uc_active_task c = Some i \<Longrightarrow> call_ok T i c (Some (r, rg, c'))"
  shows "user_ok T c'"
  using assms user_call by (cases "uc_active_task c") auto

lemma input_ok:
  assumes ok: "user_ok T c" and d: "x86_64_user_deliver_input c pid b = (r, c')"
  shows "user_ok T c'"
proof (cases r)
  case True
  with d have d': "x86_64_user_deliver_input c pid b = (True, c')" by simp
  have co: "core_ok T c" using ok by (simp add: user_ok_def)
  show ?thesis
  proof (rule input_within [OF co d'])
    fix i assume i: "i < 4" "within_task T i c c'" "uc_active_task c' = uc_active_task c"
      and st: "tk_state (task_at c i) = Task_ready \<or> tk_state (task_at c i) = Task_blocked_input"
      and t: "task_at c' i = (if tk_state (task_at c i) = Task_ready then enqueue b (task_at c i)
        else read_done (min (tk_input_count (task_at c i) + 1) (unat (tk_pending_read_length (task_at c i)))) (enqueue b (task_at c i)))"
    have "tk_state (task_at c' i) \<noteq> Task_running" using t st by (auto simp: enqueue_def read_done_def taken_def Let_def)
    moreover have "uc_active_task c \<noteq> Some i" using ok st i(1) by (auto simp: user_ok_def sched_ok_def)
    ultimately show "user_ok T c'" using user_within [OF ok i] by simp
  qed
next
  case False
  then have "c' = c" using d by (auto simp: x86_64_user_deliver_input_def Let_def split: option.splits if_splits)
  then show ?thesis using ok by simp
qed

lemma cancel_ok:
  assumes ok: "user_ok T c" and d: "x86_64_user_cancel c pid code = (r, c')"
  shows "user_ok T c'"
proof (cases r)
  case True
  with d have d': "x86_64_user_cancel c pid code = (True, c')" by simp
  have co: "core_ok T c" using ok by (simp add: user_ok_def)
  show ?thesis
    by (rule cancel_within [OF co d']) (rule user_within [OF ok], auto)
next
  case False
  then have "c' = c" using d by (auto simp: x86_64_user_cancel_def Let_def split: option.splits if_splits)
  then show ?thesis using ok by simp
qed

lemma user_step_ok:
  assumes "user_step c c'" "user_ok T c"
  shows "user_ok T c'"
  using assms
proof (induction rule: user_step.induct)
  case (store c i v t b)
  have co: "core_ok T c" and i: "i < 4" using store.prems active_running(1) [OF store.prems store.hyps(1)] by (simp_all add: user_ok_def)
  show ?case
    by (rule user_within [OF store.prems i store_within [OF co i _ store.hyps(3,4)]])
      (use store active_running(2) [OF store.prems] in \<open>auto simp: space_at_def task_at_def user_ok_def sched_ok_def\<close>)
next
  case (syscall rg fr c left rg' c')
  show ?case
  proof (rule handled_ok [OF syscall.prems])
    show "c' = c" if "uc_active_task c = None" using syscall.hyps that by (simp add: arwill_x86_64_user_handle_syscall_def)
    show "call_ok T i c (Some (left, rg', c'))" if "uc_active_task c = Some i" for i
      using call_syscall [OF syscall.prems that, of rg fr] syscall.hyps by simp
  qed
next
  case (timer rg fr c left c')
  show ?case
    by (rule handled_ok [OF timer.prems _ call_timer [OF timer.prems _ timer.hyps]])
      (use timer.hyps in \<open>simp_all add: arwill_x86_64_user_handle_timer_def\<close>)
next
  case (fault rg fr v c left c')
  show ?case
    by (rule handled_ok [OF fault.prems _ call_fault [OF fault.prems _ fault.hyps]])
      (use fault.hyps in \<open>simp_all add: arwill_x86_64_user_handle_fault_def\<close>)
next
  case (spawn c sz img console name argument r c')
  have "core_ok T c" using spawn.prems by (simp add: user_ok_def)
  from spawn_ok [OF this spawn.hyps(2,3,4)] show ?case using given_user [OF spawn.prems spawn.hyps(1)] spawn.prems by auto
next
  case (start c console program r c')
  have co: "core_ok T c" using start.prems by (simp add: user_ok_def)
  have n: "\<forall>m. Some console = Some m \<longrightarrow> m < length (uc_consoles c)" using start.hyps(2) by simp
  from program_ok [OF co n start.hyps(3)] show ?case using given_user [OF start.prems start.hyps(1)] start.prems by auto
next
  case (network c s s')
  then show ?case using network_step_ok by (simp add: owners_of_def)
next
  case (devices entropy consoles c clock realtime filesystem log)
  have co: "core_ok T c" using devices.prems by (simp add: user_ok_def)
  show ?case
    by (rule kernel_within [OF devices.prems within_fields [OF co]]) (use devices core_parts [OF co] in simp_all)
next
  case (resume c i c')
  then show ?case by (rule select_ok(1) [rotated])
next
  case (retire c i)
  then show ?case by (intro retire_ok)
next
  case (input c pid b r c')
  then show ?case by (rule input_ok [rotated])
next
  case (cancel c pid code r c')
  then show ?case by (rule cancel_ok [rotated])
qed

lemma user_reachable_ok: "user_reachable c \<Longrightarrow> \<exists>T. user_ok T c"
  by (induction rule: user_reachable.induct) (blast intro: boot_ok user_step_ok)+

end
