(* ===== verification/User_Pages.thy ===== *)
theory User_Pages
  imports User_Boot
begin

text \<open>
  How many pages user mode takes: an address space needs 77, and the start succeeds exactly when
  there are four times as many.
\<close>

lemma zero_page_count:
  assumes f: "free_ok memory" and a: "allocate_zero_page memory m = (r, memory', m')"
  shows "case r of None \<Rightarrow> card (free_pages memory) = 0
    | Some p \<Rightarrow> free_ok memory' \<and> card (free_pages memory) = Suc (card (free_pages memory'))"
proof (cases r)
  case None
  then have "arwill_physical_allocate_page memory = (None, memory')"
    using a by (auto simp: allocate_zero_page_def split: prod.splits option.splits)
  then have "page_set (me_physical_allocator memory) = {}" using allocate_page_cases f by (fastforce simp: free_ok_def)
  then show ?thesis using None by (simp add: free_pages_def)
next
  case (Some p)
  have t: "took [p] (memory, m) (memory', m')" by (rule allocate_took [OF f]) (use a Some in simp)
  then have "p \<in> free_pages memory" "free_pages memory' = free_pages memory - {p}" "free_ok memory'" by (simp_all add: took_def)
  then show ?thesis using Some card_Suc_Diff1 [of "free_pages memory" p] by simp
qed

lemma fill_pages_count:
  assumes "free_ok memory" "fill_pages is pages memory m = (ok, pages', memory', m')"
  shows "(ok \<longleftrightarrow> length is \<le> card (free_pages memory)) \<and>
    (ok \<longrightarrow> free_ok memory' \<and> card (free_pages memory) = length is + card (free_pages memory'))"
  using assms
proof (induction "is" arbitrary: pages memory m)
  case (Cons i rest)
  obtain r memory1 m1 where a: "allocate_zero_page memory m = (r, memory1, m1)" by (metis prod_cases3)
  show ?case
  proof (cases r)
    case None
    then show ?thesis using zero_page_count [OF Cons.prems(1) a] Cons.prems(2) a by simp
  next
    case (Some p)
    then have c: "free_ok memory1" "card (free_pages memory) = Suc (card (free_pages memory1))"
      using zero_page_count [OF Cons.prems(1) a] by simp_all
    show ?thesis using Cons.IH [OF c(1), of "pages[i := p]" m1] c(2) Cons.prems(2) a Some by simp
  qed
qed simp

definition needs :: "nat \<Rightarrow> arwill_memory \<Rightarrow> bool \<Rightarrow> arwill_memory \<Rightarrow> bool" where
  "needs n memory ok memory' \<longleftrightarrow> (ok \<longleftrightarrow> n \<le> card (free_pages memory)) \<and>
     (ok \<longrightarrow> free_ok memory' \<and> card (free_pages memory) = n + card (free_pages memory'))"

lemma needs_page:
  assumes "free_ok memory" "allocate_zero_page memory m = (r, memory1, m1)"
    "\<And>p. r = Some p \<Longrightarrow> free_ok memory1 \<Longrightarrow> needs n memory1 ok memory'" "r = None \<Longrightarrow> \<not> ok"
  shows "needs (Suc n) memory ok memory'"
  using zero_page_count [OF assms(1,2)] assms(3,4) by (cases r) (auto simp: needs_def)

lemma address_space_needs:
  assumes f: "free_ok memory" and i: "initialize_address_space k space memory m = (ok, space', memory', m')"
  shows "needs 77 memory ok memory'"
proof -
  have fill: "needs n memory5 ok memory'" if f5: "free_ok memory5" and n: "n = 72"
    and e: "(case fill_pages [0..<48] (as_code_physical s) memory5 m5 of (ok, code, memory, m) \<Rightarrow>
      (let space = s\<lparr>as_code_physical := code\<rparr> in if \<not> ok then (False, space, memory, m) else
        (case fill_pages [0..<24] (as_stack_physical space) memory m of (ok, stack, memory, m) \<Rightarrow>
          (let space = space\<lparr>as_stack_physical := stack\<rparr> in if \<not> ok then (False, space, memory, m)
           else (True, space, memory, g space m))))) = (ok, space', memory', m')" for n memory5 s m5 g
  proof -
    obtain ok1 code memory6 m6 where p1: "fill_pages [0..<48] (as_code_physical s) memory5 m5 = (ok1, code, memory6, m6)"
      by (metis prod_cases4)
    obtain ok2 stack memory7 m7 where p2: "fill_pages [0..<24] (as_stack_physical s) memory6 m6 = (ok2, stack, memory7, m7)"
      by (metis prod_cases4)
    note c1 = fill_pages_count [OF f5 p1, simplified length_upt]
    show ?thesis
    proof (cases ok1)
      case True
      note c2 = fill_pages_count [OF _ p2, simplified length_upt]
      have "memory' = memory7" "ok = ok2" using e p1 p2 True by (auto simp: Let_def split: if_splits)
      then show ?thesis using c1 c2 True n by (auto simp: needs_def)
    next
      case False
      then have "\<not> ok" using e p1 by (simp add: Let_def)
      then show ?thesis using c1 False n by (auto simp: needs_def)
    qed
  qed
  obtain r1 mem1 m1 where a1: "allocate_zero_page memory m = (r1, mem1, m1)" by (metis prod_cases3)
  obtain r2 mem2 m2 where a2: "allocate_zero_page mem1 m1 = (r2, mem2, m2)" by (metis prod_cases3)
  obtain r3 mem3 m3 where a3: "allocate_zero_page mem2 m2 = (r3, mem3, m3)" by (metis prod_cases3)
  obtain r4 mem4 m4 where a4: "allocate_zero_page mem3 m3 = (r4, mem4, m4)" by (metis prod_cases3)
  obtain r5 mem5 m5 where a5: "allocate_zero_page mem4 m4 = (r5, mem5, m5)" by (metis prod_cases3)
  note e = i [unfolded initialize_address_space_def a1]
  have ok: "\<not> ok" if "None \<in> {r1, r2, r3, r4, r5}"
    using that e by (cases r1; cases r2; cases r3; cases r4; cases r5) (simp_all add: a2 a3 a4 a5)
  have rest: "needs 72 mem5 ok memory'" if f5: "free_ok mem5" and some: "None \<notin> {r1, r2, r3, r4, r5}"
  proof -
    obtain p1 p2 p3 p4 p5 where "r1 = Some p1" "r2 = Some p2" "r3 = Some p3" "r4 = Some p4" "r5 = Some p5"
      using some by (cases r1; cases r2; cases r3; cases r4; cases r5) auto
    then show ?thesis
      using e fill [OF f5 refl, where s = "space\<lparr>as_cr3 := p1\<rparr>" and g = "\<lambda>s. map_address_space k s p2 p3 p4 p5"] by (simp add: a2 a3 a4 a5 del: upt_rec_numeral)
  qed
  have "needs 73 mem4 ok memory'" if "free_ok mem4" "None \<notin> {r1, r2, r3, r4}"
    using needs_page [OF that(1) a5, of 72] rest ok that(2) by auto
  then have "needs 74 mem3 ok memory'" if "free_ok mem3" "None \<notin> {r1, r2, r3}"
    using needs_page [OF that(1) a4, of 73] ok that(2) by auto
  then have "needs 75 mem2 ok memory'" if "free_ok mem2" "None \<notin> {r1, r2}"
    using needs_page [OF that(1) a3, of 74] ok that(2) by auto
  then have "needs 76 mem1 ok memory'" if "free_ok mem1" "r1 \<noteq> None"
    using needs_page [OF that(1) a2, of 75] ok that(2) by auto
  then show ?thesis using needs_page [OF f a1, of 76] ok by auto
qed

lemma tasks_need:
  assumes "free_ok memory" "initialize_tasks is c memory = (ok, c', memory')"
  shows "needs (77 * length is) memory ok memory'"
  using assms
proof (induction "is" arbitrary: c memory)
  case (Cons i rest)
  obtain ok1 s1 mem1 m1 where e: "initialize_address_space (uc_kernel_cr3 c) (tk_address_space (task_at c i)) memory (uc_ram c) =
      (ok1, s1, mem1, m1)" by (metis prod_cases4)
  note n = address_space_needs [OF Cons.prems(1) e]
  show ?case
  proof (cases ok1)
    case True
    then have "free_ok mem1" "initialize_tasks rest (reset_task_runtime (with_task i (\<lambda>task. task\<lparr>tk_address_space := s1\<rparr>)
        (c\<lparr>uc_ram := m1\<rparr>)) i) mem1 = (ok, c', memory')"
      using n Cons.prems(2) e by (simp_all add: needs_def Let_def)
    from Cons.IH [OF this] show ?thesis using n True by (auto simp: needs_def)
  next
    case False
    then show ?thesis using n Cons.prems(2) e by (auto simp: needs_def Let_def)
  qed
qed (simp add: needs_def)

lemma init_available:
  assumes "free_ok memory" "hhdm \<noteq> 0"
  shows "uc_available (arwill_x86_64_user_mode_init c cr3 (Some memory) hhdm clock entropy realtime filesystem ipv4 log) \<longleftrightarrow>
    308 \<le> card (free_pages memory)"
proof -
  let ?c = "c\<lparr>uc_memory := Some memory, uc_kernel_cr3 := cr3 AND page_address_mask, uc_available := False,
            uc_hhdm_available := hhdm \<noteq> 0, uc_runs := 0, uc_syscall_count := 0, uc_bytes_written := 0,
            uc_bad_syscalls := 0, uc_preemptions := 0, uc_faults := 0, uc_clock := clock, uc_entropy := entropy,
            uc_realtime := realtime, uc_filesystem := filesystem, uc_ipv4 := ipv4, uc_log := log,
            uc_active_task := None, uc_next_pid := 1000, uc_next_slot := 0, uc_active_slice_ticks := 0\<rparr>"
  obtain ok c2 mem2 where i: "initialize_tasks [0..<4] ?c memory = (ok, c2, mem2)" by (metis prod_cases3)
  have "needs 308 memory ok mem2" using tasks_need [OF assms(1) i] by simp
  then show ?thesis
    using assms(2) i by (simp add: arwill_x86_64_user_mode_init_def Let_def needs_def del: upt_rec_numeral)
qed

end
