(* ===== verification/User_Sample.thy ===== *)
theory User_Sample
  imports User_Pages
begin

text \<open>
  A small machine: two megabytes of free memory after the kernel's empty page table, one console,
  no devices; started, with a program in its first task, and with this program running.
\<close>

section \<open>Programs that fit start\<close>

lemma copy_name_from_fits: "index + length source < capacity \<Longrightarrow> fst (copy_name_from d capacity index source)"
  by (induction d capacity index source rule: copy_name_from.induct) auto

lemma copy_name_fits:
  "length (c_string source) < capacity \<Longrightarrow> copy_name d capacity source = (True, snd (copy_name d capacity source))"
  by (rule prod_eqI) (simp_all add: copy_name_def copy_name_from_fits)

lemma prepare_fits:
  assumes "length (c_string name) < 48" "length (c_string argument) < 64"
  obtains c' where "prepare_task c i name argument console = (True, c')"
  unfolding prepare_task_def Let_def
  by (subst (asm) copy_name_fits [OF assms(1)], subst (asm) copy_name_fits [OF assms(2)])
    (simp add: allocate_pid_def Let_def)

lemma spawn_fits:
  assumes "uc_available c" "uc_next_slot c < 4" "i < 4" "tk_state (task_at c i) \<in> {Task_empty, Task_finished, Task_faulted}"
    "length (c_string name) < 48" "length (c_string argument) < 64" "unat sz \<le> length img" "image_header img sz \<noteq> None"
  obtains pid c' where "x86_64_user_spawn_image c (Some img) sz (Some name) (Some argument) (Some console) = (Some pid, c')"
proof -
  obtain f c1 where f: "find_reusable_task c = (f, c1)" by fastforce
  have "f \<noteq> None"
  proof
    assume "f = None"
    then have "tk_state (task_at c i) \<in> {Task_ready, Task_running, Task_blocked_input}" using reusable_task [OF f] assms(2,3) by simp
    then show False using assms(4) by auto
  qed
  then obtain k where k: "f = Some k" by blast
  obtain c2 where p: "prepare_task c1 k name argument (Some console) = (True, c2)" using prepare_fits [OF assms(5,6)] by blast
  obtain c3 where "copy_image_to_task c2 k img sz = (True, c3)" using copy_image_eq [OF assms(7), of c2 k] assms(8) by auto
  then show ?thesis using that assms(1) f k p by (simp add: x86_64_user_spawn_image_def Let_def)
qed

lemma poll_resumes:
  assumes "uc_available c" "uc_active_task c = None" "uc_next_slot c < 4" "i < 4" "tk_state (task_at c i) = Task_ready"
  obtains k c' where "poll_select c = Some (k, c')"
proof -
  have "i \<in> set (slots_from c)" using slots_all [OF assms(3)] assms(4) by simp
  then have "find (\<lambda>i. tk_state (task_at c i) = Task_ready) (slots_from c) \<noteq> None" using assms(5) unfolding find_None_iff by blast
  then show ?thesis using that assms(1,2) by (auto simp: poll_select_def)
qed

section \<open>The machine\<close>

definition sample_memory :: arwill_memory where
  "sample_memory = demo_memory\<lparr>me_physical_allocator := \<lparr>
     pa_ranges = (replicate 64 \<lparr>pr_next = 0, pr_end = 0\<rparr>)[0 := \<lparr>pr_next = 0x1000, pr_end = 0x200000\<rparr>], pa_range_count = 1,
     pa_total_pages = 511, pa_free_pages = 511, pa_allocated_pages = 0, pa_allocation_count = 0\<rparr>\<rparr>"

definition sample_task :: x86_64_user_task where
  "sample_task = \<lparr>tk_address_space = \<lparr>as_cr3 = 0, as_code_physical = replicate 48 0, as_stack_physical = replicate 24 0\<rparr>,
     tk_saved = clear_saved_context, tk_state = Task_empty, tk_pid = 0, tk_name = replicate 48 0, tk_argument = replicate 64 0,
     tk_argument_length = 0, tk_console = None, tk_exit_code = 0, tk_fault_vector = 0, tk_run_count = 0, tk_syscall_count = 0,
     tk_bytes_written = 0, tk_status = [], tk_input = replicate 128 0, tk_input_head = 0, tk_input_count = 0,
     tk_pending_read_pointer = 0, tk_pending_read_length = 0, tk_network = fresh_owner\<rparr>"

definition sample_context :: "(unit, unit, unit) x86_64_user_context" where
  "sample_context = \<lparr>uc_memory = None, uc_ram = (\<lambda>_. 0), uc_consoles = [\<lparr>co_context = (), co_write = None\<rparr>], uc_kernel_cr3 = 0,
     uc_available = False, uc_hhdm_available = False, uc_runs = 0, uc_syscall_count = 0, uc_bytes_written = 0, uc_bad_syscalls = 0,
     uc_preemptions = 0, uc_faults = 0, uc_clock = None, uc_entropy = None, uc_realtime = None, uc_filesystem = None,
     uc_ipv4 = None, uc_log = None, uc_filesystem_buffer = replicate 2048 0, uc_path_buffer = replicate 64 0,
     uc_tasks = replicate 4 sample_task, uc_active_task = None, uc_next_pid = 0, uc_next_slot = 0, uc_active_slice_ticks = 0\<rparr>"

definition booted :: "(unit, unit, unit) x86_64_user_context" where
  "booted = arwill_x86_64_user_mode_init sample_context 0 (Some sample_memory) 0x8000 None None None None None None"

lemma sample_pages: "page_set (me_physical_allocator sample_memory) = {p. 0x1000 \<le> p \<and> p < 0x200000 \<and> 4096 dvd p}"
  by (auto simp: page_set_def sample_memory_def)

lemma sample_free_ok: "free_ok sample_memory"
  unfolding free_ok_def sample_pages
  by (auto simp: allocator_ok_def sample_memory_def range_ok_def)

lemma sample_enough: "308 \<le> card (free_pages sample_memory)"
proof -
  let ?f = "\<lambda>k. (of_nat (4096 + 4096 * k) :: u64)"
  have u: "unat (?f k) = 4096 + 4096 * k" if "k < 308" for k using that by (simp only: unat_of_nat) simp
  have "inj_on ?f {..<308}"
  proof (rule inj_onI)
    fix k l assume "k \<in> {..<308}" "l \<in> {..<308}" "?f k = ?f l"
    then have "4096 + 4096 * k = 4096 + 4096 * l" using u by (metis lessThan_iff)
    then show "k = l" by simp
  qed
  moreover have "?f ` {..<308} \<subseteq> free_pages sample_memory" unfolding free_pages_def sample_pages using u by auto
  ultimately show ?thesis using card_mono [of "free_pages sample_memory" "?f ` {..<308}"] by (simp add: card_image)
qed

lemma blank_entry: "get_entry (\<lambda>_. 0) table index = 0"
  by (rule bit_word_eqI) (simp add: get_entry_def load64_bit)

lemma sample_spaces: "spaces_ok {a. in_page 0 a} (\<lambda>_. 0) 0 []"
proof -
  have "page_ok 0" by (simp add: page_ok_def)
  then have "tables_in {a. in_page 0 a} (\<lambda>_. 0) 0"
    using entry_in_table table_index_less by (auto simp: tables_in_def walk_entries_def Let_def blank_entry split: if_splits)
  moreover have "user_closed (\<lambda>_. 0) 0" by (simp add: user_closed_def translate_def Let_def blank_entry)
  ultimately show ?thesis using \<open>page_ok 0\<close> by (simp add: spaces_ok_def)
qed

lemma sample_apart: "free_apart {a. in_page 0 a} [] sample_memory"
  unfolding free_apart_def using sample_free_ok
  by (auto simp: free_pages_def sample_pages in_page_def)

lemma booted_available: "uc_available booted"
  unfolding booted_def using sample_enough by (simp add: init_available [OF sample_free_ok])

lemma sample_raw: "raw_context sample_context"
  by (simp add: raw_context_def raw_task_def sample_context_def sample_task_def fresh_owner_def arwill_awp_network_owner_init_def)

lemma booted_state:
  "user_reachable booted" "\<forall>i<4. tk_state (task_at booted i) = Task_empty" "length (uc_consoles booted) = 1"
  "uc_active_task booted = None" "uc_next_slot booted = 0"
proof -
  have sp: "spaces_ok {a. in_page 0 a} (uc_ram sample_context) (0 AND page_address_mask) []"
    using sample_spaces by (simp add: sample_context_def)
  have e: "entropy_ok (None :: unit arwill_entropy option)" by (simp add: entropy_ok_def)
  have n: "\<forall>s. (None :: (unit, unit) arwill_ipv4_stack option) = Some s \<longrightarrow> awp_reachable (s, [])" by simp
  show "user_reachable booted"
    by (rule user_reachable.boot [OF sample_raw sp sample_apart e n booted_def booted_available])
  show "\<forall>i<4. tk_state (task_at booted i) = Task_empty" "length (uc_consoles booted) = 1" "uc_active_task booted = None"
      "uc_next_slot booted = 0"
    by (rule boot_ok [OF sample_raw sp sample_apart e n booted_def booted_available], simp add: sample_context_def)+
qed

text \<open>A program of two bytes, a jump to itself.\<close>

definition sample_image :: bytes where
  "sample_image = bytes_of ''AWP1'' @ [16, 0, 0, 0, 2, 0, 0, 0, 0, 0, 0, 0] @ [0xEB, 0xFE]"

lemma sample_header: "image_header sample_image 18 = Some (16, 0, 2)"
  by (simp add: image_header_def sample_image_def bytes_of_def read_le16_def read_le32_def Let_def chr_def)

lemma sample_spawn:
  obtains pid c where "x86_64_user_spawn_image booted (Some sample_image) 18 (Some []) (Some []) (Some 0) = (Some pid, c)"
    "user_reachable c" "uc_available c" "uc_active_task c = None" "length (uc_consoles c) = 1" "uc_next_slot c < 4"
    "\<exists>i<4. tk_state (task_at c i) = Task_ready \<and> tk_pid (task_at c i) = pid \<and> tk_input_count (task_at c i) = 0 \<and>
       (\<forall>j<4. j \<noteq> i \<longrightarrow> tk_state (task_at c j) = Task_empty)"
proof -
  have len: "unat (18 :: u64) \<le> length sample_image" by (simp add: sample_image_def bytes_of_def)
  have s: "c_string [] = []" by (simp add: c_string_def)
  have n: "(0 :: nat) < length (uc_consoles booted)" using booted_state(3) by simp
  obtain pid c where e: "x86_64_user_spawn_image booted (Some sample_image) 18 (Some []) (Some []) (Some 0) = (Some pid, c)"
    by (rule spawn_fits [of booted 0 "[]" "[]" 18 sample_image 0])
      (use booted_available booted_state sample_header len s in simp_all)
  have st: "user_step booted c" by (rule user_step.spawn [OF booted_state(4) len n e])
  have r: "user_reachable c" by (rule user_reachable.step [OF booted_state(1) st])
  obtain T where T: "user_ok T booted" using user_reachable_ok [OF booted_state(1)] by blast
  then have ok: "core_ok T booted" by (simp add: user_ok_def)
  obtain i where g: "given T i booted c" and b: "started sample_image 18 [] [] (uc_next_pid booted) i booted c" "pid = uc_next_pid booted"
    using spawn_ok [OF ok len n e] by auto
  have rs: "restarted T i booted c" and i: "i < 4" using g by (simp_all add: given_def)
  then have "uc_available c" "uc_consoles c = uc_consoles booted" "core_ok T c" "uc_active_task c = None"
      "\<forall>j. j \<noteq> i \<longrightarrow> task_at c j = task_at booted j"
    using booted_available booted_state(4) by (simp_all add: restarted_def reloaded_def)
  moreover have "queued (task_at c i) = []" "tk_state (task_at c i) = Task_ready" "tk_pid (task_at c i) = pid"
    using b by (auto simp: started_def)
  then have "tk_input_count (task_at c i) = 0" by (metis length_ring_list list.size(3) queued_def)
  moreover have "\<forall>j<4. j \<noteq> i \<longrightarrow> tk_state (task_at c j) = Task_empty" using calculation(5) booted_state(2) by simp
  ultimately show ?thesis
    using that [OF e r] booted_state(3) i \<open>tk_state (task_at c i) = Task_ready\<close> \<open>tk_pid (task_at c i) = pid\<close>
    unfolding core_ok_def by metis
qed

lemma sample_running:
  obtains c i where "user_reachable (c :: (unit, unit, unit) x86_64_user_context)" "uc_active_task c = Some i"
proof (rule sample_spawn)
  fix pid and c :: "(unit, unit, unit) x86_64_user_context" assume c: "user_reachable c" "uc_available c" "uc_active_task c = None" "uc_next_slot c < 4"
    and t: "\<exists>i<4. tk_state (task_at c i) = Task_ready \<and> tk_pid (task_at c i) = pid \<and> tk_input_count (task_at c i) = 0 \<and>
       (\<forall>j<4. j \<noteq> i \<longrightarrow> tk_state (task_at c j) = Task_empty)"
  then obtain k c' where p: "poll_select c = Some (k, c')" using poll_resumes [OF c(2,3,4)] by blast
  have "user_reachable c'" by (rule user_reachable.step [OF c(1) user_step.resume [OF p]])
  moreover obtain T where "user_ok T c" using user_reachable_ok [OF c(1)] by blast
  then have "uc_active_task c' = Some k" by (rule select_ok(3) [OF _ p])
  ultimately show thesis by (rule that)
qed

lemma sample_input:
  obtains c pid c' where "user_reachable (c :: (unit, unit, unit) x86_64_user_context)" "x86_64_user_deliver_input c pid 65 = (True, c')"
proof (rule sample_spawn)
  fix pid and c :: "(unit, unit, unit) x86_64_user_context" assume c: "user_reachable c"
    and "\<exists>i<4. tk_state (task_at c i) = Task_ready \<and> tk_pid (task_at c i) = pid \<and> tk_input_count (task_at c i) = 0 \<and>
       (\<forall>j<4. j \<noteq> i \<longrightarrow> tk_state (task_at c j) = Task_empty)"
  then obtain i where i: "i < 4" "tk_state (task_at c i) = Task_ready" "tk_pid (task_at c i) = pid" "tk_input_count (task_at c i) = 0"
    and o: "\<forall>j<4. j \<noteq> i \<longrightarrow> tk_state (task_at c j) = Task_empty" by blast
  have "find_task c pid \<noteq> None" using i unfolding find_task_def find_None_iff by auto
  then obtain k where k: "find_task c pid = Some k" by blast
  then have "k = i" using find_task_Some [OF k] o by blast
  then obtain c' where "x86_64_user_deliver_input c pid 65 = (True, c')"
    using k i by (simp add: x86_64_user_deliver_input_def Let_def)
  then show thesis using c that by blast
qed

end
