(* ===== verification/User_Properties.thy ===== *)
theory User_Properties
  imports User_Sample
begin

text \<open>
  What holds of programs in every reachable state: memory, calls, start, input and scheduling.
\<close>

section \<open>Views\<close>

lemma space_pages_disjoint:
  assumes ok: "memory_ok T c" and ij: "i < 4" "j < 4" "i \<noteq> j"
  shows "set (user_pages (space_at c i)) \<inter> set (user_pages (space_at c j)) = {}"
proof -
  let ?ps = "map user_pages (spaces_of c)"
  have sp: "distinct (concat ?ps)" "length ?ps = 4" using ok by (simp_all add: memory_ok_def spaces_ok_def spaces_of_def)
  have at: "?ps ! k = user_pages (space_at c k)" "?ps ! k \<noteq> []" if "k < 4" for k
    using that ok space_mapped(2) [OF ok that]
    by (auto simp: memory_ok_def spaces_of_def space_at_def task_at_def user_pages_def)
  have "[] \<notin> set ?ps" using at(2) sp(2) by (metis in_set_conv_nth)
  then have "distinct ?ps" using sp(1) by (simp add: distinct_concat_iff removeAll_id)
  then have "?ps ! i \<noteq> ?ps ! j" using ij sp(2) by (simp only: nth_eq_iff_index_eq not_False_eq_True)
  then show ?thesis
    using sp ij nth_mem [of i ?ps] nth_mem [of j ?ps] unfolding distinct_concat_iff at(1) [OF ij(1)] at(1) [OF ij(2)] by metis
qed

lemma space_apart:
  assumes ok: "memory_ok T c" and ij: "i < 4" "j < 4" "i \<noteq> j" and a: "in_pages (user_pages (space_at c i)) a"
  shows "\<not> in_pages (user_pages (space_at c j)) a"
proof
  assume "in_pages (user_pages (space_at c j)) a"
  then obtain p q where pq: "p \<in> set (user_pages (space_at c i))" "q \<in> set (user_pages (space_at c j))" "in_page p a" "in_page q a"
    using a by (auto simp: in_pages_def)
  then have "p = q" using in_page_unique space_mapped(4) [OF ok ij(1)] space_mapped(4) [OF ok ij(2)] by blast
  then show False using pq space_pages_disjoint [OF ok ij] by blast
qed

lemma code_stack_apart:
  assumes ok: "memory_ok T c" and i: "i < 4" and a: "in_pages (as_stack_physical (space_at c i)) a"
  shows "\<not> in_pages (as_code_physical (space_at c i)) a"
proof
  assume "in_pages (as_code_physical (space_at c i)) a"
  then obtain p q where pq: "p \<in> set (as_stack_physical (space_at c i))" "q \<in> set (as_code_physical (space_at c i))"
      "in_page p a" "in_page q a" using a by (auto simp: in_pages_def)
  then have "p = q" using in_page_unique space_mapped(4) [OF ok i] by (auto simp: user_pages_def)
  moreover have "distinct (user_pages (space_at c i))"
    using ok space_in [OF ok i] by (auto simp: memory_ok_def spaces_ok_def distinct_concat_iff)
  ultimately show False using pq by (auto simp: user_pages_def)
qed

text \<open>What a program sees at an address of its code or stack is one byte of its pages.\<close>

definition seen_at :: "x86_64_user_address_space \<Rightarrow> u64 \<Rightarrow> u64" where
  "seen_at s v = (if in_code v then as_code_physical s ! code_page v else as_stack_physical s ! stack_page v) + take_bit 12 v"

lemma load_seen:
  assumes "memory_ok T c" "i < 4" "in_code v \<or> in_stack v"
  shows "load_user c i v = Some (uc_ram c (seen_at (space_at c i) v))"
    "in_pages (if in_code v then as_code_physical (space_at c i) else as_stack_physical (space_at c i)) (seen_at (space_at c i) v)"
    "in_pages (user_pages (space_at c i)) (seen_at (space_at c i) v)"
proof -
  note s = space_mapped [OF assms(1,2)]
  show "load_user c i v = Some (uc_ram c (seen_at (space_at c i) v))"
    using mapped_code [OF s(1), of v] mapped_stack [OF s(1), of v] assms(3)
    by (auto simp: load_user_def space_at_def seen_at_def)
  have pg: "(if in_code v then as_code_physical (space_at c i) ! code_page v else as_stack_physical (space_at c i) ! stack_page v)
      \<in> set (if in_code v then as_code_physical (space_at c i) else as_stack_physical (space_at c i))"
    using s(2,3) assms(3) code_page_less [of v] stack_page_less [of v] by auto
  then have "page_ok (if in_code v then as_code_physical (space_at c i) ! code_page v else as_stack_physical (space_at c i) ! stack_page v)"
    using s(4) by (auto simp: user_pages_def split: if_splits)
  then show in1: "in_pages (if in_code v then as_code_physical (space_at c i) else as_stack_physical (space_at c i)) (seen_at (space_at c i) v)"
    using pg page_offset_word unfolding in_pages_def seen_at_def by blast
  then show "in_pages (user_pages (space_at c i)) (seen_at (space_at c i) v)"
    by (auto simp: in_pages_def user_pages_def split: if_splits)
qed

text \<open>A change of the pages of one task is not seen by another.\<close>

lemma view_kept:
  assumes ok: "memory_ok T c" "memory_ok T c'" and j: "j < 4" "space_at c' j = space_at c j" and v: "in_code v \<or> in_stack v"
    and m: "uc_ram c' (seen_at (space_at c j) v) = uc_ram c (seen_at (space_at c j) v)"
  shows "load_user c' j v = load_user c j v"
  using load_seen(1) [OF ok(1) j(1) v] load_seen(1) [OF ok(2) j(1) v] j(2) m by simp

lemma within_views:
  assumes ok: "core_ok T c" and i: "i < 4" and w: "within_task T i c c'" and j: "j < 4"
    and v: "in_code v \<or> in_stack v \<and> j \<noteq> i"
  shows "load_user c' j v = load_user c j v"
proof -
  have mem: "memory_ok T c" "memory_ok T c'" using ok w by (simp_all add: core_ok_def within_task_def)
  have cf: "confined i c c'" using w by (simp add: within_task_def)
  then have sp: "space_at c' j = space_at c j" by (cases "j = i") (simp_all add: confined_def space_at_def)
  have v': "in_code v \<or> in_stack v" using v by blast
  have "\<not> in_pages (as_stack_physical (space_at c i)) (seen_at (space_at c j) v)"
  proof (cases "j = i")
    case True
    then show ?thesis using load_seen(2) [OF mem(1) j v'] code_stack_apart [OF mem(1) i] v by auto
  next
    case False
    then show ?thesis
      using space_apart [OF mem(1) j i _ load_seen(3) [OF mem(1) j v']] by (auto simp: in_pages_def user_pages_def)
  qed
  then have "uc_ram c' (seen_at (space_at c j) v) = uc_ram c (seen_at (space_at c j) v)" using cf by (auto simp: confined_def)
  then show ?thesis by (rule view_kept [OF mem j sp v'])
qed

lemma restarted_views:
  assumes ok: "core_ok T c" and i: "i < 4" and w: "restarted T i c c'" and j: "j < 4" "j \<noteq> i" and v: "in_code v \<or> in_stack v"
  shows "load_user c' j v = load_user c j v"
proof -
  have mem: "memory_ok T c" "memory_ok T c'" using ok w by (simp_all add: core_ok_def restarted_def)
  have r: "reloaded i c c'" using w by (simp add: restarted_def)
  then have sp: "space_at c' j = space_at c j" using j(2) by (simp add: reloaded_def space_at_def)
  have "uc_ram c' (seen_at (space_at c j) v) = uc_ram c (seen_at (space_at c j) v)"
    using space_apart [OF mem(1) j(1) i j(2) load_seen(3) [OF mem(1) j(1) v]] r by (auto simp: reloaded_def)
  then show ?thesis by (rule view_kept [OF mem j(1) sp v])
qed

section \<open>Memory\<close>

text \<open>
  C4. In every state the machine can reach: where the page tables of a task let user code go is
  a page of this task and of no other, writable only if it is stack and executable only if it is
  not writable; and whatever a task stores there changes no address translation, neither of a
  task nor of the kernel.
\<close>

theorem user_isolation:
  assumes "user_reachable c" and "i < 4"
    and "translate (uc_ram c) (as_cr3 (tk_address_space (task_at c i))) v = Some t" and "tr_user t"
  shows "in_pages (user_pages (tk_address_space (task_at c i))) (tr_address t) \<and>
    (\<forall>j<4. j \<noteq> i \<longrightarrow> \<not> in_pages (user_pages (tk_address_space (task_at c j))) (tr_address t)) \<and>
    (if tr_write t then in_stack v else in_code v) \<and> (tr_write t \<longleftrightarrow> \<not> tr_execute t) \<and>
    (\<forall>b. \<forall>cr3\<in>insert (uc_kernel_cr3 c) (as_cr3 ` tk_address_space ` set (uc_tasks c)).
       translate ((uc_ram c)(tr_address t := b)) cr3 = translate (uc_ram c) cr3)"
proof -
  obtain T where ok: "core_ok T c" using user_reachable_ok [OF assms(1)] by (auto simp: user_ok_def)
  note mem = core_parts(1) [OF ok]
  have sp: "spaces_ok T (uc_ram c) (uc_kernel_cr3 c) (spaces_of c)" using mem by (simp add: memory_ok_def)
  have t: "translate (uc_ram c) (as_cr3 (space_at c i)) v = Some t" using assms(3) by (simp add: space_at_def)
  note u = user_access [OF sp space_in [OF mem assms(2)] t assms(4)]
  have own: "in_pages (user_pages (space_at c i)) (tr_address t)"
    using u(1,2) space_mapped(2,3) [OF mem assms(2)] code_page_less [of v] stack_page_less [of v]
    by (fastforce simp: in_pages_def user_pages_def split: if_splits)
  then have "tr_address t \<notin> T" using space_mapped(5) [OF mem assms(2)] by (auto simp: in_pages_def)
  then have "\<forall>a\<in>T. ((uc_ram c)(tr_address t := b)) a = uc_ram c a" for b by auto
  note same = tables_agree(2) [OF _ this]
  have "translate ((uc_ram c)(tr_address t := b)) cr3 = translate (uc_ram c) cr3"
    if "cr3 \<in> insert (uc_kernel_cr3 c) (as_cr3 ` tk_address_space ` set (uc_tasks c))" for b cr3
    using sp that by (intro same) (auto simp: spaces_ok_def spaces_of_def)
  then show ?thesis
    using own u(2,3) space_apart [OF mem assms(2) _ _ own] by (simp add: space_at_def)
qed

theorem user_isolation_witness:
  "\<exists>t. translate (uc_ram booted) (as_cr3 (tk_address_space (task_at booted 0))) user_stack_virtual = Some t \<and>
     in_pages (user_pages (tk_address_space (task_at booted 0))) (tr_address t) \<and>
     \<not> in_pages (user_pages (tk_address_space (task_at booted 3))) (tr_address t) \<and> \<not> tr_execute t"
proof -
  obtain T where "core_ok T booted" using user_reachable_ok [OF booted_state(1)] by (auto simp: user_ok_def)
  note mem = core_parts(1) [OF this]
  have s: "in_stack user_stack_virtual" by (simp add: in_stack_nat)
  obtain t where t: "translate (uc_ram booted) (as_cr3 (tk_address_space (task_at booted 0))) user_stack_virtual = Some t"
      "tr_user t" "tr_write t"
    using mapped_stack [OF space_mapped(1) [OF mem, of 0] s] by (simp add: space_at_def)
  then show ?thesis using user_isolation [OF booted_state(1) _ t(1,2)] by auto
qed

section \<open>Calls\<close>



text \<open>
  C14. A program that is started gets a task that no program was using; it finds exactly its image
  at the start of its code, zeros after it and a stack of zeros, its name and argument, its entry
  point and an empty input queue: nothing of the program that had the task before. No other task
  is touched, and what other programs see of their memory stays the same.
\<close>

theorem spawn_loads_image:
  assumes "user_reachable c" and "uc_active_task c = None" and "unat sz \<le> length img" and "console < length (uc_consoles c)"
    and "x86_64_user_spawn_image c (Some img) sz (Some name) (Some argument) (Some console) = (Some pid, c')"
  shows "\<exists>i h e n. i < 4 \<and> image_header img sz = Some (h, e, n) \<and>
    tk_state (task_at c i) \<in> {Task_empty, Task_finished, Task_faulted} \<and> tk_state (task_at c' i) = Task_ready \<and>
    tk_pid (task_at c' i) = pid \<and> c_string (tk_name (task_at c' i)) = c_string name \<and>
    c_string (tk_argument (task_at c' i)) = c_string argument \<and>
    fr_instruction_pointer (sv_frame (tk_saved (task_at c' i))) = user_code_virtual + of_nat e \<and> queued (task_at c' i) = [] \<and>
    (\<forall>k<196608. load_user c' i (user_code_virtual + of_nat k) = Some (if k < n then img ! (h + k) else 0)) \<and>
    (\<forall>v. in_stack v \<longrightarrow> load_user c' i v = Some 0) \<and>
    (\<forall>j. j \<noteq> i \<longrightarrow> task_at c' j = task_at c j) \<and>
    (\<forall>j<4. \<forall>v. j \<noteq> i \<and> (in_code v \<or> in_stack v) \<longrightarrow> load_user c' j v = load_user c j v)"
proof -
  obtain T where ok: "core_ok T c" using user_reachable_ok [OF assms(1)] by (auto simp: user_ok_def)
  obtain i where g: "given T i c c'" and s: "started img sz name argument (uc_next_pid c) i c c'" "pid = uc_next_pid c"
    using spawn_ok [OF ok assms(3,4,5)] by auto
  have i: "i < 4" and r: "restarted T i c c'" using g by (simp_all add: given_def)
  obtain h e n where hd: "image_header img sz = Some (h, e, n)" and m: "uc_ram c' = loaded_ram (space_at c i) img h n (cleared_ram c i)"
    and st: "tk_state (task_at c' i) = Task_ready" "tk_pid (task_at c' i) = pid" "queued (task_at c' i) = []"
      "c_string (tk_name (task_at c' i)) = c_string name" "c_string (tk_argument (task_at c' i)) = c_string argument"
      "fr_instruction_pointer (sv_frame (tk_saved (task_at c' i))) = user_code_virtual + of_nat e"
    using s by (auto simp: started_def)
  have mem: "memory_ok T c" "memory_ok T c'" using ok r by (simp_all add: core_ok_def restarted_def)
  have sp: "space_at c' i = space_at c i" using r by (simp add: restarted_def reloaded_def)
  note at = loaded_at [OF mem(1) i image_header_bounds(3) [OF hd]]
  have zero: "cleared_ram c i a = 0" if "in_pages (user_pages (space_at c i)) a" for a using that by (simp add: cleared_ram_def)
  have "load_user c' i (user_code_virtual + of_nat k) = Some (if k < n then img ! (h + k) else 0)" if "k < 196608" for k
    using load_code [OF mem(2) i that] at(1) [OF that] zero code_at_page(2) [OF mem(1) i that] by (simp add: sp m)
  moreover have "load_user c' i v = Some 0" if v: "in_stack v" for v
  proof -
    have "stack_byte (space_at c i) v \<noteq> code_at (space_at c i) k" if k: "k < 196608" for k
    proof -
      have "k div 4096 < 48" using k by (auto intro!: less_mult_imp_div_less)
      then have "in_pages (as_code_physical (space_at c i)) (code_at (space_at c i) k)"
        using code_at_page(1) [OF mem(1) i k] space_mapped(2) [OF mem(1) i] by (auto simp: in_pages_nth)
      then show ?thesis using code_stack_apart [OF mem(1) i stack_page_ok [OF mem(1) i v]] by auto
    qed
    moreover have "in_pages (user_pages (space_at c i)) (stack_byte (space_at c i) v)"
      using stack_page_ok [OF mem(1) i v] by (auto simp: in_pages_def user_pages_def)
    ultimately show ?thesis using load_stack [OF mem(2) i v] at(2) zero by (simp add: sp m)
  qed
  moreover have "\<forall>j. j \<noteq> i \<longrightarrow> task_at c' j = task_at c j" using r by (simp add: restarted_def reloaded_def)
  moreover have "tk_state (task_at c i) \<in> {Task_empty, Task_finished, Task_faulted}" using g by (simp add: given_def)
  moreover have "\<forall>j<4. \<forall>v. j \<noteq> i \<and> (in_code v \<or> in_stack v) \<longrightarrow> load_user c' j v = load_user c j v"
    using restarted_views [OF ok i r] by blast
  ultimately show ?thesis using i hd st by blast
qed

theorem spawn_loads_image_witness:
  "\<exists>pid c i. x86_64_user_spawn_image booted (Some sample_image) 18 (Some []) (Some []) (Some 0) = (Some pid, c) \<and>
     i < 4 \<and> tk_pid (task_at c i) = pid \<and> load_user c i (user_code_virtual + of_nat 1) = Some 0xFE \<and>
     load_user c i (user_code_virtual + of_nat 2) = Some 0"
proof (rule sample_spawn)
  fix pid c assume e: "x86_64_user_spawn_image booted (Some sample_image) 18 (Some []) (Some []) (Some 0) = (Some pid, c)"
  have len: "unat (18 :: u64) \<le> length sample_image" by (simp add: sample_image_def bytes_of_def)
  have n: "0 < length (uc_consoles booted)" using booted_state(3) by simp
  obtain i h x k where i: "i < 4" "image_header sample_image 18 = Some (h, x, k)" "tk_pid (task_at c i) = pid"
      "\<forall>a<196608. load_user c i (user_code_virtual + of_nat a) = Some (if a < k then sample_image ! (h + a) else 0)"
    using spawn_loads_image [OF booted_state(1,4) len n e] by blast
  have "load_user c i (user_code_virtual + of_nat 1) = Some 0xFE" "load_user c i (user_code_virtual + of_nat 2) = Some 0"
    using i(4) [rule_format, of 1] i(4) [rule_format, of 2] i(2) sample_header by (simp_all add: sample_image_def bytes_of_def)
  then show ?thesis using e i(1,3) by blast
qed

section \<open>Input\<close>

lemma stack_byte_inject:
  assumes ok: "memory_ok T c" and i: "i < 4" and v: "in_stack v" "in_stack w"
    and e: "stack_byte (space_at c i) v = stack_byte (space_at c i) w"
  shows "v = w"
proof -
  let ?st = "as_stack_physical (space_at c i)"
  have len: "length ?st = 24" by (rule space_mapped(3) [OF ok i])
  have pg: "?st ! k \<in> set ?st" "page_ok (?st ! k)" if "k < 24" for k
    using that len space_mapped(4) [OF ok i] by (simp_all add: user_pages_def)
  note k = stack_page_less [OF v(1)] stack_page_less [OF v(2)]
  have "in_page (?st ! stack_page v) (stack_byte (space_at c i) v)" "in_page (?st ! stack_page w) (stack_byte (space_at c i) v)"
    using page_offset_word [OF pg(2) [OF k(1)], of v] page_offset_word [OF pg(2) [OF k(2)], of w] e
    by (simp_all only: stack_byte_def)
  then have p: "?st ! stack_page v = ?st ! stack_page w" using in_page_unique pg(2) k by blast
  have "distinct ?st"
    using ok space_in [OF ok i] by (auto simp: memory_ok_def spaces_ok_def distinct_concat_iff user_pages_def)
  then have s: "stack_page v = stack_page w" using p k len by (simp add: nth_eq_iff_index_eq)
  have "take_bit 12 v = take_bit 12 w" using e p by (simp add: stack_byte_def)
  then have m: "unat v mod 4096 = unat w mod 4096" by (metis unat_take12)
  obtain x where x: "unat v = 134218240 * 4096 + x" using v(1) by (auto simp: in_stack_nat dest: le_Suc_ex)
  obtain y where y: "unat w = 134218240 * 4096 + y" using v(2) by (auto simp: in_stack_nat dest: le_Suc_ex)
  have "x mod 4096 = y mod 4096" using m unfolding x y by (simp only: mod_mult_self3)
  moreover have "x div 4096 = y div 4096" using s by (simp add: stack_page_nat [OF v(1)] stack_page_nat [OF v(2)] x y)
  ultimately have "x = y" by (metis div_mult_mod_eq)
  then show ?thesis using x y by (simp add: word_unat_eq_iff)
qed

text \<open>Bytes that were copied to a writable range are what the program reads there.\<close>

lemma copied_view:
  assumes ok: "memory_ok T c" "memory_ok T c'" and i: "i < 4" "space_at c' i = space_at c i"
    and w: "user_range_writable p len" and bs: "length bs \<le> unat len"
    and t: "tk_address_space t = space_at c i" and m: "uc_ram c' = snd (copy_bytes_from t p 0 bs m0)"
  shows "load_bytes c' i p (length bs) = Some bs"
proof -
  have st: "in_stack (p + of_nat k)" if "k < length bs" for k using writable_in_stack [OF w] that bs by simp
  have word: "k = l" if "(p :: u64) + of_nat k = p + of_nat l" "k < length bs" "l < length bs" for k l
  proof -
    have "unat (p + of_nat n) = unat p + n" if "n < length bs" for n
      using range_offset(1) [of p len user_stack_virtual "of_nat 24 * 4096" n] w that bs by (simp add: user_range_writable_def)
    then have "unat p + k = unat p + l" using that by metis
    then show ?thesis by simp
  qed
  have "\<forall>k<length bs. \<forall>l<length bs. stack_byte (tk_address_space t) (p + of_nat (0 + k)) =
      stack_byte (tk_address_space t) (p + of_nat (0 + l)) \<longrightarrow> k = l"
    using stack_byte_inject [OF ok(1) i(1) st st] word unfolding t by auto
  then have "uc_ram c' (stack_byte (space_at c i) (p + of_nat k)) = bs ! k" if "k < length bs" for k
    using copy_bytes_written [of bs p 0 t m0] st that unfolding t m by auto
  then have "load_user c' i (p + of_nat k) = Some (bs ! k)" if "k < length bs" for k
    using load_stack [OF ok(2) i(1) st [OF that]] that by (simp add: i(2))
  then have "map (\<lambda>k. load_user c' i (p + of_nat k)) [0..<length bs] = map Some bs" by (intro nth_equalityI) simp_all
  then show ?thesis unfolding load_bytes_def by (subst those_all) (auto simp: comp_def)
qed

lemma queued_taken:
  assumes "task_ok t" "n \<le> tk_input_count t"
  shows "queued (taken n t) = drop n (queued t)"
  using ring_skip(1) [of user_input_capacity "tk_input t" "tk_input_head t" "tk_input_count t" n] assms
  by (simp add: task_ok_def queued_def taken_def)



section \<open>Scheduling\<close>

text \<open>How many slots the search of the scheduler is away from a task.\<close>

definition turn :: "('n, 'k, 'f) x86_64_user_context \<Rightarrow> nat \<Rightarrow> nat" where
  "turn c j = (j + 4 - uc_next_slot c) mod 4"

lemma turn_less:
  assumes "s < (4 :: nat)" "j < 4" "k < (j + 4 - s) mod 4"
  shows "(j + 4 - ((s + k) mod 4 + 1) mod 4) mod 4 < (j + 4 - s) mod 4"
proof -
  have "k < 4" using assms(3) by (meson less_trans mod_less_divisor zero_less_numeral)
  then have "s \<in> {0, 1, 2, 3}" "j \<in> {0, 1, 2, 3}" "k \<in> {0, 1, 2, 3}" using assms(1,2) by auto
  then show ?thesis using assms(3) by (elim insertE emptyE) simp_all
qed



end
