(* ===== verification/Decimal.thy ===== *)
theory Decimal
  imports Arwill_Prelude
begin

text \<open>
  The decimal printing loop the programs share: digits from the last to the first, then in
  reverse. Reading the digits back gives the number.
\<close>

fun reversed_digits :: "nat \<Rightarrow> bytes" where
  "reversed_digits v = of_nat (48 + v mod 10) # (if v div 10 \<noteq> 0 then reversed_digits (v div 10) else [])"

declare reversed_digits.simps [simp del]

definition decimal :: "nat \<Rightarrow> bytes" where
  "decimal v = rev (reversed_digits v)"

definition is_digit :: "u8 \<Rightarrow> bool" where
  "is_digit b \<longleftrightarrow> 48 \<le> b \<and> b \<le> 57"

definition digit_value :: "u8 \<Rightarrow> nat" where
  "digit_value b = unat b - 48"

definition decimal_value :: "bytes \<Rightarrow> nat" where
  "decimal_value ds = foldl (\<lambda>n b. n * 10 + digit_value b) 0 ds"

lemma digit_byte: "d < 10 \<Longrightarrow> is_digit (of_nat (48 + d)) \<and> digit_value (of_nat (48 + d)) = d"
proof -
  assume "d < 10"
  then have "unat (of_nat (48 + d) :: u8) = 48 + d" by (simp only: unat_of_nat) simp
  then show ?thesis using \<open>d < 10\<close> by (simp add: is_digit_def digit_value_def word_le_nat_alt)
qed

lemma digit_bounds: "is_digit b \<Longrightarrow> unat b = 48 + digit_value b \<and> digit_value b < 10"
  by (auto simp: is_digit_def digit_value_def word_le_nat_alt)

lemma reversed_digits_digits: "b \<in> set (reversed_digits v) \<Longrightarrow> is_digit b"
  by (induction v rule: reversed_digits.induct) (subst (asm) reversed_digits.simps, use digit_byte in \<open>auto split: if_splits\<close>)

lemma decimal_digits: "b \<in> set (decimal v) \<Longrightarrow> is_digit b"
  by (simp add: decimal_def reversed_digits_digits)

lemma decimal_not_empty [simp]: "decimal v \<noteq> []" "reversed_digits v \<noteq> []"
  by (simp_all add: decimal_def reversed_digits.simps)

lemma decimal_value_append: "decimal_value (xs @ [b]) = decimal_value xs * 10 + digit_value b"
  by (simp add: decimal_value_def)

lemma decimal_value_mono: "decimal_value xs \<le> decimal_value (xs @ ys)"
proof (induction ys rule: rev_induct)
  case (snoc y ys)
  then show ?case using decimal_value_append [of "xs @ ys" y] by simp
qed simp

theorem decimal_roundtrip: "decimal_value (decimal v) = v"
proof (induction v rule: reversed_digits.induct)
  case (1 v)
  have d: "digit_value (of_nat (48 + v mod 10)) = v mod 10" using digit_byte [of "v mod 10"] by simp
  have e: "decimal v = (if v div 10 \<noteq> 0 then decimal (v div 10) else []) @ [of_nat (48 + v mod 10)]"
    by (simp add: decimal_def reversed_digits.simps [of v])
  show ?case
    using 1 d unfolding e decimal_value_append by (cases "v div 10 = 0") (auto simp: decimal_value_def)
qed

lemma short_digits: "v < 100 \<Longrightarrow> length (reversed_digits v) \<le> 2"
proof -
  assume "v < 100"
  then have "v div 10 < 10" by (simp add: less_mult_imp_div_less)
  then have "length (reversed_digits (v div 10)) = 1" by (subst reversed_digits.simps) simp
  then show ?thesis by (subst reversed_digits.simps) simp
qed

end
