(* ===== verification/Edit.thy ===== *)
theory Edit
  imports Decimal
begin

text \<open>
  \<open>apps/edit/edit.c\<close>: the text editor. The system calls are the parameter \<open>calls\<close>, functions on
  the state of the world; a read of a byte that does not return one byte is \<open>None\<close>. The model
  keeps the document in its array; the specification is a pair of byte lists, what stands before
  the cursor and what stands after it.
\<close>

section \<open>System calls\<close>

record 'w awp_calls =
  ac_write :: "bytes \<Rightarrow> 'w \<Rightarrow> int \<times> 'w"
  ac_read :: "'w \<Rightarrow> u8 option \<times> 'w"
  ac_read_file :: "bytes \<Rightarrow> nat \<Rightarrow> 'w \<Rightarrow> (int \<times> bytes) \<times> 'w"
  ac_write_file :: "bytes \<Rightarrow> bytes \<Rightarrow> 'w \<Rightarrow> int \<times> 'w"
  ac_argument :: "nat \<Rightarrow> 'w \<Rightarrow> (int \<times> bytes) \<times> 'w"

function terminal_write_from :: "'w awp_calls \<Rightarrow> bytes \<Rightarrow> nat \<Rightarrow> 'w \<Rightarrow> 'w" where
  "terminal_write_from calls txt offset w =
     (if offset < length txt
      then
        (let chunk = min (length txt - offset) 256
         in case ac_write calls (take chunk (drop offset txt)) w of
              (r, w) \<Rightarrow> if r \<le> 0 then w else terminal_write_from calls txt (offset + chunk) w)
      else w)"
  by pat_completeness auto
termination
  by (relation "measure (\<lambda>(calls, txt, offset, w). length txt - offset)") auto

declare terminal_write_from.simps [simp del]

definition terminal_write :: "'w awp_calls \<Rightarrow> bytes \<Rightarrow> 'w \<Rightarrow> 'w" where
  "terminal_write calls txt w = terminal_write_from calls txt 0 w"

definition write_text :: "'w awp_calls \<Rightarrow> bytes \<Rightarrow> 'w \<Rightarrow> 'w" where
  "write_text calls txt w = terminal_write calls (c_string txt) w"

text \<open>The loop of \<open>read_escape_code\<close> over the digits of a parameter.\<close>

fun escape_digits :: "'w awp_calls \<Rightarrow> nat \<Rightarrow> u8 \<Rightarrow> u8 \<Rightarrow> 'w \<Rightarrow> (u8 \<times> u8) option \<times> 'w" where
  "escape_digits calls 0 code parameter w = (None, w)"
| "escape_digits calls (Suc n) code parameter w =
     (if (code < chr CHR ''0'' \<or> code > chr CHR ''9'') \<and> code \<noteq> chr CHR '';'' then (Some (code, parameter), w)
      else
        (let parameter = if parameter = 0 \<and> chr CHR ''0'' \<le> code \<and> code \<le> chr CHR ''9'' then code else parameter
         in case ac_read calls w of
              (None, w) \<Rightarrow> (None, w)
            | (Some code, w) \<Rightarrow> escape_digits calls n code parameter w))"

definition read_escape_code :: "'w awp_calls \<Rightarrow> 'w \<Rightarrow> (u8 \<times> u8) option \<times> 'w" where
  "read_escape_code calls w =
     (case ac_read calls w of
        (None, w) \<Rightarrow> (None, w)
      | (Some prefix, w) \<Rightarrow>
          if prefix \<noteq> chr CHR ''['' \<and> prefix \<noteq> chr CHR ''O'' then (None, w)
          else
            (case ac_read calls w of
               (None, w) \<Rightarrow> (None, w)
             | (Some code, w) \<Rightarrow>
                 if prefix = chr CHR ''O'' then (Some (code, 0), w) else escape_digits calls 8 code 0 w))"

section \<open>The screen\<close>

abbreviation (input) document_capacity :: nat where "document_capacity \<equiv> 2048"
abbreviation (input) path_capacity :: nat where "path_capacity \<equiv> 64"
abbreviation (input) screen_capacity :: nat where "screen_capacity \<equiv> 3072"
abbreviation (input) screen_columns :: nat where "screen_columns \<equiv> 78"
abbreviation (input) screen_rows :: nat where "screen_rows \<equiv> 22"

text \<open>The output buffer is the bytes appended so far.\<close>

definition append_char :: "bytes \<Rightarrow> u8 \<Rightarrow> bool \<times> bytes" where
  "append_char out v = (if length out \<ge> screen_capacity then (False, out) else (True, out @ [v]))"

fun append_text :: "bytes \<Rightarrow> bytes \<Rightarrow> bytes" where
  "append_text out [] = out"
| "append_text out (b # txt) = (case append_char out b of (ok, out) \<Rightarrow> if ok then append_text out txt else out)"

definition append_number :: "bytes \<Rightarrow> nat \<Rightarrow> bytes" where
  "append_number out v = foldl (\<lambda>out b. snd (append_char out b)) out (rev (reversed_digits v))"

definition visual_step :: "nat \<times> nat \<Rightarrow> u8 \<Rightarrow> nat \<times> nat" where
  "visual_step p b =
     (case p of (row, column) \<Rightarrow>
        if b = 0x0A then (row + 1, 0)
        else if column + 1 \<ge> screen_columns then (row + 1, 0) else (row, column + 1))"

definition visual_position :: "bytes \<Rightarrow> nat \<Rightarrow> nat \<times> nat" where
  "visual_position document cursor = foldl visual_step (0, 0) (take cursor document)"

definition render_step :: "nat \<Rightarrow> bytes \<times> nat \<times> nat \<Rightarrow> u8 \<Rightarrow> bytes \<times> nat \<times> nat" where
  "render_step scroll s b =
     (case s of (out, row, column) \<Rightarrow>
       (let visible = row \<ge> scroll \<and> row < scroll + screen_rows
        in if b = 0x0A then (if visible then append_text out [0x0D, 0x0A] else out, row + 1, 0)
           else
             (let out = if visible then snd (append_char out b) else out
              in if column + 1 \<ge> screen_columns
                 then (if visible then append_text out [0x0D, 0x0A] else out, row + 1, 0)
                 else (out, row, column + 1))))"

definition clear_screen :: bytes where
  "clear_screen = 0x1B # bytes_of ''[2J'' @ 0x1B # bytes_of ''[H''"

definition screen_text :: "bytes \<Rightarrow> nat \<Rightarrow> nat \<Rightarrow> bytes \<Rightarrow> bool \<Rightarrow> bytes \<Rightarrow> bytes" where
  "screen_text document len cursor path dirty message =
     (case visual_position document cursor of
        (cursor_row, cursor_column) \<Rightarrow>
         (let scroll = if cursor_row \<ge> screen_rows then cursor_row - screen_rows + 1 else 0;
              out = append_text [] clear_screen;
              out = fst (foldl (render_step scroll) (out, 0, 0) (take len document));
              out = append_text out (0x1B # bytes_of ''[24;1H'' @ 0x1B # bytes_of ''[7m '');
              out = append_text out (c_string path);
              out = append_text out (bytes_of (if dirty then ''  modified  '' else ''  saved  ''));
              out = append_text out message;
              out = append_text out (bytes_of ''  ^S save  ^Q quit '' @ 0x1B # bytes_of ''[0m'');
              out = append_text out (0x1B # bytes_of ''['');
              out = append_number out (cursor_row - scroll + 1);
              out = snd (append_char out (chr CHR '';''));
              out = append_number out (cursor_column + 1)
          in snd (append_char out (chr CHR ''H''))))"

definition render :: "'w awp_calls \<Rightarrow> bytes \<Rightarrow> nat \<Rightarrow> nat \<Rightarrow> bytes \<Rightarrow> bool \<Rightarrow> bytes \<Rightarrow> 'w \<Rightarrow> 'w" where
  "render calls document len cursor path dirty message w =
     terminal_write calls (screen_text document len cursor path dirty message) w"

section \<open>The document\<close>

function line_start :: "bytes \<Rightarrow> nat \<Rightarrow> nat" where
  "line_start document cursor =
     (if cursor \<noteq> 0 \<and> document ! (cursor - 1) \<noteq> 0x0A then line_start document (cursor - 1) else cursor)"
  by pat_completeness auto
termination by (relation "measure snd") auto

function line_end :: "bytes \<Rightarrow> nat \<Rightarrow> nat \<Rightarrow> nat" where
  "line_end document len cursor =
     (if cursor < len \<and> document ! cursor \<noteq> 0x0A then line_end document len (cursor + 1) else cursor)"
  by pat_completeness auto
termination by (relation "measure (\<lambda>(d, len, cursor). len - cursor)") auto

declare line_start.simps [simp del] line_end.simps [simp del]

definition move_up :: "bytes \<Rightarrow> nat \<Rightarrow> nat" where
  "move_up document cursor =
     (let start = line_start document cursor
      in if start = 0 then cursor
         else
           (let column = cursor - start; previous_end = start - 1; previous_start = line_start document previous_end;
                previous_length = previous_end - previous_start
            in previous_start + (if column < previous_length then column else previous_length)))"

definition move_down :: "bytes \<Rightarrow> nat \<Rightarrow> nat \<Rightarrow> nat" where
  "move_down document len cursor =
     (let start = line_start document cursor; finish = line_end document len cursor
      in if finish \<ge> len then cursor
         else
           (let column = cursor - start; next_start = finish + 1; next_end = line_end document len next_start;
                next_length = next_end - next_start
            in next_start + (if column < next_length then column else next_length)))"

definition remove_byte :: "bytes \<Rightarrow> nat \<Rightarrow> nat \<Rightarrow> bytes \<times> nat" where
  "remove_byte document len index = (foldl (\<lambda>d k. d[k := d ! (k + 1)]) document [index..<len - 1], len - 1)"

definition insert_byte :: "bytes \<Rightarrow> nat \<Rightarrow> nat \<Rightarrow> u8 \<Rightarrow> bool \<times> bytes \<times> nat \<times> nat" where
  "insert_byte document len cursor v =
     (if len \<ge> document_capacity then (False, document, len, cursor)
      else
        (let document = foldl (\<lambda>d k. d[k := d ! (k - 1)]) document (rev [cursor + 1..<len + 1])
         in (True, document[cursor := v], len + 1, cursor + 1)))"

section \<open>The editor\<close>

record editor =
  ed_document :: bytes
  ed_length :: nat
  ed_cursor :: nat
  ed_dirty :: bool
  ed_quit_armed :: bool
  ed_message :: bytes

datatype 'w outcome = Continue editor 'w | Exit nat 'w

definition delete_at :: "nat \<Rightarrow> editor \<Rightarrow> editor" where
  "delete_at index e =
     (case remove_byte (ed_document e) (ed_length e) index of
        (d, n) \<Rightarrow> e\<lparr>ed_document := d, ed_length := n, ed_dirty := True\<rparr>)"

definition type_byte :: "u8 \<Rightarrow> editor \<Rightarrow> editor" where
  "type_byte v e =
     (case insert_byte (ed_document e) (ed_length e) (ed_cursor e) v of
        (ok, d, n, k) \<Rightarrow>
          if ok then e\<lparr>ed_document := d, ed_length := n, ed_cursor := k, ed_dirty := True\<rparr>
          else e\<lparr>ed_message := bytes_of ''file full''\<rparr>)"

definition editor_escape :: "u8 \<Rightarrow> u8 \<Rightarrow> editor \<Rightarrow> editor" where
  "editor_escape code parameter e =
     (let d = ed_document e; n = ed_length e; k = ed_cursor e
      in if code = chr CHR ''A'' then e\<lparr>ed_cursor := move_up d k\<rparr>
         else if code = chr CHR ''B'' then e\<lparr>ed_cursor := move_down d n k\<rparr>
         else if code = chr CHR ''C'' \<and> k < n then e\<lparr>ed_cursor := k + 1\<rparr>
         else if code = chr CHR ''D'' \<and> k \<noteq> 0 then e\<lparr>ed_cursor := k - 1\<rparr>
         else if code = chr CHR ''H'' then e\<lparr>ed_cursor := line_start d k\<rparr>
         else if code = chr CHR ''F'' then e\<lparr>ed_cursor := line_end d n k\<rparr>
         else if code = chr CHR ''~''
         then (if parameter = chr CHR ''1'' then e\<lparr>ed_cursor := line_start d k\<rparr>
               else if parameter = chr CHR ''4'' then e\<lparr>ed_cursor := line_end d n k\<rparr>
               else if parameter = chr CHR ''3'' \<and> k < n then delete_at k e
               else e)
         else e)"

text \<open>One turn of the loop of \<open>editor_main\<close> after the byte is read.\<close>

definition editor_key :: "'w awp_calls \<Rightarrow> bytes \<Rightarrow> editor \<Rightarrow> u8 \<Rightarrow> 'w \<Rightarrow> 'w outcome" where
  "editor_key calls path e byte w =
     (if byte = 0x03 then Exit 130 (write_text calls (clear_screen @ bytes_of ''^C'' @ [0x0A]) w)
      else if byte = 0x13
      then (case ac_write_file calls path (take (ed_length e) (ed_document e)) w of
              (saved, w) \<Rightarrow>
                if saved = int (ed_length e)
                then Continue (e\<lparr>ed_dirty := False, ed_quit_armed := False, ed_message := bytes_of ''saved''\<rparr>) w
                else Continue (e\<lparr>ed_message := bytes_of ''save failed''\<rparr>) w)
      else if byte = 0x11
      then (if ed_dirty e \<and> \<not> ed_quit_armed e
            then Continue (e\<lparr>ed_quit_armed := True, ed_message := bytes_of ''unsaved; ^Q again''\<rparr>) w
            else Exit 0 (write_text calls clear_screen w))
      else
        (let e = e\<lparr>ed_quit_armed := False\<rparr>
         in if byte = 0x1B
            then (case read_escape_code calls w of
                    (None, w) \<Rightarrow> Continue e w
                  | (Some (code, parameter), w) \<Rightarrow> Continue (editor_escape code parameter e) w)
            else if byte = 0x08 \<or> byte = 0x7F
            then (if ed_cursor e \<noteq> 0
                  then Continue (delete_at (ed_cursor e - 1) (e\<lparr>ed_cursor := ed_cursor e - 1\<rparr>)) w
                  else Continue e w)
            else if byte = 0x0D \<or> byte = 0x0A then Continue (type_byte 0x0A e) w
            else if 0x20 \<le> byte \<and> byte \<le> 0x7E then Continue (type_byte byte e) w
            else Continue e w))"

partial_function (option) editor_loop :: "'w awp_calls \<Rightarrow> bytes \<Rightarrow> editor \<Rightarrow> 'w \<Rightarrow> (nat \<times> 'w) option" where
  "editor_loop calls path e w =
     (let w = render calls (ed_document e) (ed_length e) (ed_cursor e) path (ed_dirty e) (ed_message e) w
      in case ac_read calls w of
           (None, w) \<Rightarrow> Some (1, w)
         | (Some byte, w) \<Rightarrow>
             (case editor_key calls path (e\<lparr>ed_message := []\<rparr>) byte w of
                Exit code w \<Rightarrow> Some (code, w)
              | Continue e w \<Rightarrow> editor_loop calls path e w))"

text \<open>The document is an array on the stack; \<open>document\<close> is what it holds before.\<close>

definition editor_main :: "'w awp_calls \<Rightarrow> bytes \<Rightarrow> 'w \<Rightarrow> (nat \<times> 'w) option" where
  "editor_main calls document w =
     (case ac_argument calls (path_capacity - 1) w of
        ((argument_length, path), w) \<Rightarrow>
          if argument_length < 0 then Some (2, write_text calls (bytes_of ''edit: invalid file argument'' @ [0x0A]) w)
          else if argument_length = 0 then Some (2, write_text calls (bytes_of ''edit: missing file'' @ [0x0A]) w)
          else if path ! 0 \<noteq> chr CHR ''/'' then Some (2, write_text calls (bytes_of ''edit: absolute path required'' @ [0x0A]) w)
          else
            (let path = take (nat argument_length) path
             in case ac_read_file calls path document_capacity w of
                  ((loaded, bs), w) \<Rightarrow>
                    editor_loop calls path
                      \<lparr>ed_document = splice_at document 0 bs, ed_length = (if loaded < 0 then 0 else nat loaded),
                       ed_cursor = 0, ed_dirty = False, ed_quit_armed = False,
                       ed_message = bytes_of (if loaded < 0 then ''new file'' else ''loaded'')\<rparr> w))"

end
