(* ===== verification/Shifts.thy ===== *)
theory Shifts
  imports Arwill_Prelude
begin

text \<open>Loops that move a part of an array by one place, to delete or to insert an element.\<close>

lemma shift_left:
  assumes "m < length d" "i \<le> m"
  shows "foldl (\<lambda>d k. d[k := d ! (k + 1)]) d [i..<m] = take i d @ take (m - i) (drop (i + 1) d) @ drop m d"
  using assms
proof (induction m)
  case (Suc m)
  show ?case
  proof (cases "i = Suc m")
    case False
    then have i: "i \<le> m" using Suc.prems by simp
    let ?x = "take i d @ take (m - i) (drop (i + 1) d) @ drop m d"
    have l: "length (take i d @ take (m - i) (drop (i + 1) d)) = m" using i Suc.prems by simp
    have "foldl (\<lambda>d k. d[k := d ! (k + 1)]) d [i..<Suc m] = ?x[m := ?x ! (m + 1)]" using Suc i by simp
    also have "?x ! (m + 1) = d ! (m + 1)" using l Suc.prems nth_append_right [of "take i d @ take (m - i) (drop (i + 1) d)" "m + 1"]
      by (simp add: append_assoc [symmetric] del: append_assoc)
    also have "?x[m := d ! (m + 1)] = take i d @ take (m - i) (drop (i + 1) d) @ d ! (m + 1) # drop (Suc m) d"
      using l Suc.prems by (simp add: list_update_append Cons_nth_drop_Suc [symmetric])
    also have "\<dots> = take i d @ take (Suc m - i) (drop (i + 1) d) @ drop (Suc m) d"
    proof -
      have "take (Suc m - i) (drop (i + 1) d) = take (m - i) (drop (i + 1) d) @ [d ! (m + 1)]"
        using i Suc.prems by (simp add: Suc_diff_le take_Suc_conv_app_nth)
      then show ?thesis by simp
    qed
    finally show ?thesis .
  qed simp
qed simp

lemma shift_right_length: "length (foldl (\<lambda>d k. d[k := d ! (k - 1)]) d ks) = length d"
  by (induction ks arbitrary: d) simp_all

lemma shift_right:
  "n < length d \<Longrightarrow> c \<le> n \<Longrightarrow> j < length d \<Longrightarrow>
    foldl (\<lambda>d k. d[k := d ! (k - 1)]) d (rev [c + 1..<n + 1]) ! j = (if c < j \<and> j \<le> n then d ! (j - 1) else d ! j)"
proof (induction n arbitrary: d)
  case (Suc n)
  show ?case
  proof (cases "c = Suc n")
    case False
    then show ?thesis using Suc.IH [of "d[Suc n := d ! n]"] Suc.prems by (auto simp: nth_list_update)
  qed auto
qed auto

end
