(* ===== verification/Edit_Properties.thy ===== *)
theory Edit_Properties
  imports Edit Shifts
begin

text \<open>
  The editor against its specification: bytes before and after the cursor, the keys as operations
  on them, what reaches the disk, and what the screen shows.
\<close>

section \<open>The specification\<close>

type_synonym zipper = "bytes \<times> bytes"

datatype command = Type u8 | Erase | Delete | Left_key | Right_key | Up | Down | Home | End_key | No_key

definition column_of :: "bytes \<Rightarrow> nat" where
  "column_of before = length (takeWhile (\<lambda>b. b \<noteq> 0x0A) (rev before))"

definition rest_of_line :: "bytes \<Rightarrow> nat" where
  "rest_of_line after = length (takeWhile (\<lambda>b. b \<noteq> 0x0A) after)"

definition goto :: "nat \<Rightarrow> zipper \<Rightarrow> zipper" where
  "goto p z = (take p (fst z @ snd z), drop p (fst z @ snd z))"

fun apply_command :: "command \<Rightarrow> zipper \<Rightarrow> zipper" where
  "apply_command (Type v) (before, after) =
     (if length before + length after < document_capacity then (before @ [v], after) else (before, after))"
| "apply_command Erase (before, after) = (butlast before, after)"
| "apply_command Delete (before, after) = (before, tl after)"
| "apply_command Left_key (before, after) = goto (length before - 1) (before, after)"
| "apply_command Right_key (before, after) = goto (length before + 1) (before, after)"
| "apply_command Home (before, after) = goto (length before - column_of before) (before, after)"
| "apply_command End_key (before, after) = goto (length before + rest_of_line after) (before, after)"
| "apply_command Up (before, after) =
     (if 0x0A \<notin> set before then (before, after)
      else
        (let above = take (length before - column_of before - 1) before
         in goto (length above - column_of above + min (column_of before) (column_of above)) (before, after)))"
| "apply_command Down (before, after) =
     (if 0x0A \<notin> set after then (before, after)
      else
        (let below = drop (rest_of_line after + 1) after
         in goto (length before + rest_of_line after + 1 + min (column_of before) (rest_of_line below)) (before, after)))"
| "apply_command No_key z = z"

definition escape_command :: "u8 \<Rightarrow> u8 \<Rightarrow> command" where
  "escape_command code parameter =
     (if code = chr CHR ''A'' then Up else if code = chr CHR ''B'' then Down
      else if code = chr CHR ''C'' then Right_key else if code = chr CHR ''D'' then Left_key
      else if code = chr CHR ''H'' then Home else if code = chr CHR ''F'' then End_key
      else if code = chr CHR ''~'' then (if parameter = chr CHR ''1'' then Home else if parameter = chr CHR ''4'' then End_key
        else if parameter = chr CHR ''3'' then Delete else No_key)
      else No_key)"

definition key_command :: "'w awp_calls \<Rightarrow> u8 \<Rightarrow> 'w \<Rightarrow> command" where
  "key_command calls byte w =
     (if byte = 0x1B then (case fst (read_escape_code calls w) of None \<Rightarrow> No_key | Some (code, p) \<Rightarrow> escape_command code p)
      else if byte = 0x08 \<or> byte = 0x7F then Erase
      else if byte = 0x0D \<or> byte = 0x0A then Type 0x0A
      else if 0x20 \<le> byte \<and> byte \<le> 0x7E then Type byte else No_key)"

definition editor_ok :: "editor \<Rightarrow> bool" where
  "editor_ok e \<longleftrightarrow> length (ed_document e) = document_capacity \<and> ed_length e \<le> document_capacity \<and> ed_cursor e \<le> ed_length e"

definition text_of :: "editor \<Rightarrow> bytes" where
  "text_of e = take (ed_length e) (ed_document e)"

definition view :: "editor \<Rightarrow> zipper" where
  "view e = (take (ed_cursor e) (text_of e), drop (ed_cursor e) (text_of e))"

section \<open>Lines\<close>

lemma line_start_eq: "k \<le> length d \<Longrightarrow> line_start d k = k - column_of (take k d)"
proof (induction k)
  case (Suc k)
  have t: "take (Suc k) d = take k d @ [d ! k]" using Suc.prems by (simp add: take_Suc_conv_app_nth)
  show ?case
    using Suc by (subst line_start.simps) (simp add: column_of_def t Suc_diff_le length_takeWhile_le del: take_Suc)
qed (simp add: line_start.simps column_of_def)

lemma line_end_eq: "k \<le> n \<Longrightarrow> n \<le> length d \<Longrightarrow> line_end d n k = k + rest_of_line (drop k (take n d))"
proof (induction "n - k" arbitrary: k)
  case (Suc m)
  then have "drop k (take n d) = d ! k # drop (Suc k) (take n d)" by (simp add: Cons_nth_drop_Suc [symmetric])
  then show ?case
    using Suc by (subst line_end.simps) (auto simp: rest_of_line_def)
qed (simp add: line_end.simps rest_of_line_def)

lemma column_le: "column_of b \<le> length b"
  unfolding column_of_def using length_takeWhile_le [of _ "rev b"] by simp

lemma rest_le: "rest_of_line a \<le> length a"
  unfolding rest_of_line_def by (rule length_takeWhile_le)

lemma column_all: "column_of b = length b \<longleftrightarrow> 0x0A \<notin> set b"
proof -
  have "takeWhile (\<lambda>x. x \<noteq> 0x0A) (rev b) = rev b \<longleftrightarrow> 0x0A \<notin> set b" by (auto simp: takeWhile_eq_all_conv)
  moreover have "takeWhile (\<lambda>x. x \<noteq> 0x0A) (rev b) = rev b \<longleftrightarrow> length (takeWhile (\<lambda>x. x \<noteq> 0x0A) (rev b)) = length (rev b)"
    by (metis takeWhile_eq_take take_all_iff order_refl length_rev)
  ultimately show ?thesis by (simp add: column_of_def)
qed

lemma rest_all: "rest_of_line a = length a \<longleftrightarrow> 0x0A \<notin> set a"
  using column_all [of "rev a"] by (simp add: column_of_def rest_of_line_def)

section \<open>Moving bytes\<close>

lemma remove_view:
  assumes "i < n" "n \<le> length d"
  shows "length (fst (remove_byte d n i)) = length d" "snd (remove_byte d n i) = n - 1"
    "take (n - 1) (fst (remove_byte d n i)) = take i d @ drop (i + 1) (take n d)"
proof -
  have e: "fst (remove_byte d n i) = take i d @ take (n - 1 - i) (drop (i + 1) d) @ drop (n - 1) d"
    unfolding remove_byte_def using assms shift_left [of "n - 1" d i] by simp
  show "length (fst (remove_byte d n i)) = length d" unfolding e using assms by simp
  show "take (n - 1) (fst (remove_byte d n i)) = take i d @ drop (i + 1) (take n d)"
    unfolding e using assms by (simp add: take_drop)
qed (simp add: remove_byte_def)

lemma insert_view:
  assumes "c \<le> n" "n < length d" "length d = document_capacity" and r: "insert_byte d n c v = (ok, d', n', c')"
  shows "ok" "length d' = length d" "n' = n + 1" "c' = c + 1" "take (n + 1) d' = take c d @ v # drop c (take n d)"
proof -
  let ?d = "foldl (\<lambda>d k. d[k := d ! (k - 1)]) d (rev [c + 1..<n + 1])"
  have d': "d' = ?d[c := v]" and "ok" "n' = n + 1" "c' = c + 1" using r assms(2,3) by (auto simp: insert_byte_def Let_def)
  then show "ok" "n' = n + 1" "c' = c + 1" by simp_all
  have len: "length ?d = length d" by (rule shift_right_length)
  then show "length d' = length d" using d' by simp
  show "take (n + 1) d' = take c d @ v # drop c (take n d)"
  proof (rule nth_equalityI)
    fix j assume "j < length (take (n + 1) d')"
    then have j: "j \<le> n" "j < length d" using d' len assms by auto
    then have "d' ! j = (if j = c then v else if c < j then d ! (j - 1) else d ! j)"
      using d' len assms shift_right [OF assms(2,1) j(2)] by (auto simp: nth_list_update)
    then show "take (n + 1) d' ! j = (take c d @ v # drop c (take n d)) ! j"
      using j assms by (auto simp: nth_append nth_Cons')
  qed (use d' len assms in simp)
qed

section \<open>Keys\<close>

lemma text_length: "editor_ok e \<Longrightarrow> length (text_of e) = ed_length e"
  by (simp add: editor_ok_def text_of_def)

lemma view_append: "fst (view e) @ snd (view e) = text_of e"
  by (simp add: view_def)

lemma view_goto:
  assumes "editor_ok e" "p \<le> ed_length e"
  shows "editor_ok (e\<lparr>ed_cursor := p\<rparr>)" "view (e\<lparr>ed_cursor := p\<rparr>) = goto p (view e)"
proof -
  show "editor_ok (e\<lparr>ed_cursor := p\<rparr>)" using assms by (simp add: editor_ok_def)
  show "view (e\<lparr>ed_cursor := p\<rparr>) = goto p (view e)"
    unfolding goto_def view_append by (simp add: view_def text_of_def)
qed

lemma cursor_lines:
  assumes "editor_ok e" and v: "view e = (before, after)"
  shows "length before = ed_cursor e" "ed_cursor e \<le> ed_length e" "length before + length after = ed_length e"
    "before = take (ed_cursor e) (ed_document e)" "after = drop (ed_cursor e) (take (ed_length e) (ed_document e))"
    "line_start (ed_document e) (ed_cursor e) = length before - column_of before"
    "line_end (ed_document e) (ed_length e) (ed_cursor e) = length before + rest_of_line after"
proof -
  have e: "length (ed_document e) = document_capacity" "ed_length e \<le> document_capacity" "ed_cursor e \<le> ed_length e"
    using assms(1) by (simp_all add: editor_ok_def)
  have b: "before = take (ed_cursor e) (ed_document e)" "after = drop (ed_cursor e) (take (ed_length e) (ed_document e))"
    using v e by (auto simp: view_def text_of_def)
  then show "before = take (ed_cursor e) (ed_document e)" "after = drop (ed_cursor e) (take (ed_length e) (ed_document e))" by simp_all
  show "length before = ed_cursor e" "ed_cursor e \<le> ed_length e" "length before + length after = ed_length e" using b e by simp_all
  then show "line_start (ed_document e) (ed_cursor e) = length before - column_of before"
      "line_end (ed_document e) (ed_length e) (ed_cursor e) = length before + rest_of_line after"
    using line_start_eq [of "ed_cursor e" "ed_document e"] line_end_eq [of "ed_cursor e" "ed_length e" "ed_document e"] b e by simp_all
qed

lemma goto_here: "goto (length before) (before, after) = (before, after)"
  by (simp add: goto_def)

lemma up_refines:
  assumes ok: "editor_ok e"
  shows "move_up (ed_document e) (ed_cursor e) \<le> ed_length e"
    "goto (move_up (ed_document e) (ed_cursor e)) (view e) = apply_command Up (view e)"
proof -
  obtain before after where v: "view e = (before, after)" by fastforce
  note l = cursor_lines [OF ok v]
  have len: "ed_cursor e \<le> length (ed_document e)" using ok by (simp add: editor_ok_def)
  define above where "above = take (length before - column_of before - 1) before"
  have p: "move_up (ed_document e) (ed_cursor e) = (if 0x0A \<notin> set before then length before
      else length above - column_of above + min (column_of before) (column_of above))"
  proof (cases "0x0A \<in> set before")
    case True
    then have c: "column_of before < length before" using column_all [of before] column_le [of before] by linarith
    let ?s = "length before - column_of before"
    have t: "take (?s - 1) (ed_document e) = above" using l(1,4) by (simp add: above_def min_def)
    have pl: "length above = ?s - 1" by (simp add: above_def)
    have ps: "line_start (ed_document e) (?s - 1) = length above - column_of above"
      using line_start_eq [of "?s - 1" "ed_document e"] t len l(1) pl by simp
    have col: "ed_cursor e - ?s = column_of before" using column_le [of before] l(1) by simp
    have "?s \<noteq> 0" using c by simp
    then have "move_up (ed_document e) (ed_cursor e) = length above - column_of above +
        (if column_of before < ?s - 1 - (length above - column_of above) then column_of before
         else ?s - 1 - (length above - column_of above))"
      unfolding move_up_def l(6) Let_def ps col by (rule if_not_P)
    moreover have pc: "?s - 1 - (length above - column_of above) = column_of above" using pl column_le [of above] by simp
    ultimately show ?thesis using True unfolding pc by (simp add: min_def)
  next
    case False
    then have "column_of before = length before" by (simp add: column_all)
    then show ?thesis using False l(1,6) by (simp add: move_up_def Let_def)
  qed
  show "goto (move_up (ed_document e) (ed_cursor e)) (view e) = apply_command Up (view e)"
    unfolding p v by (simp add: above_def goto_here Let_def)
  have "length above \<le> length before" by (simp add: above_def)
  then show "move_up (ed_document e) (ed_cursor e) \<le> ed_length e" unfolding p using l(1,2) column_le [of above] by auto
qed

lemma down_refines:
  assumes ok: "editor_ok e"
  shows "move_down (ed_document e) (ed_length e) (ed_cursor e) \<le> ed_length e"
    "goto (move_down (ed_document e) (ed_length e) (ed_cursor e)) (view e) = apply_command Down (view e)"
proof -
  obtain before after where v: "view e = (before, after)" by fastforce
  note l = cursor_lines [OF ok v]
  have len: "ed_length e \<le> length (ed_document e)" using ok by (simp add: editor_ok_def)
  define below where "below = drop (rest_of_line after + 1) after"
  have col: "ed_cursor e - (length before - column_of before) = column_of before" using column_le [of before] l(1) by simp
  have p: "move_down (ed_document e) (ed_length e) (ed_cursor e) = (if 0x0A \<notin> set after then length before
      else length before + rest_of_line after + 1 + min (column_of before) (rest_of_line below))"
  proof (cases "0x0A \<in> set after")
    case True
    then have c: "rest_of_line after < length after" using rest_all [of after] rest_le [of after] by linarith
    let ?n = "length before + rest_of_line after + 1"
    have "drop ?n (take (ed_length e) (ed_document e)) = below" using l(1,5) by (simp add: below_def add.commute)
    moreover have "?n \<le> ed_length e" using c l(3) by simp
    ultimately have "line_end (ed_document e) (ed_length e) ?n = ?n + rest_of_line below" using line_end_eq len by simp
    moreover have "\<not> ed_length e \<le> length before + rest_of_line after" using c l(3) by simp
    ultimately show ?thesis using True l(6,7) col by (simp add: move_down_def Let_def min_def)
  next
    case False
    then have "rest_of_line after = length after" by (simp add: rest_all)
    then show ?thesis using False l(1,3,7) by (simp add: move_down_def Let_def)
  qed
  show "goto (move_down (ed_document e) (ed_length e) (ed_cursor e)) (view e) = apply_command Down (view e)"
    unfolding p v by (simp add: below_def goto_here Let_def)
  have "0x0A \<in> set after \<Longrightarrow> rest_of_line after + 1 + length below = length after"
    using rest_all [of after] rest_le [of after] by (auto simp: below_def)
  then show "move_down (ed_document e) (ed_length e) (ed_cursor e) \<le> ed_length e"
    unfolding p using l(1,2,3) rest_le [of below] by auto
qed

lemma delete_refines:
  assumes ok: "editor_ok e" and i: "i < ed_length e" "ed_cursor e \<le> i"
  shows "editor_ok (delete_at i e)" "text_of (delete_at i e) = take i (text_of e) @ drop (i + 1) (text_of e)"
    "ed_cursor (delete_at i e) = ed_cursor e" "ed_dirty (delete_at i e)"
proof -
  note r = remove_view [OF i(1), of "ed_document e"]
  have len: "ed_length e \<le> length (ed_document e)" using ok by (simp add: editor_ok_def)
  have e: "delete_at i e = e\<lparr>ed_document := fst (remove_byte (ed_document e) (ed_length e) i),
      ed_length := snd (remove_byte (ed_document e) (ed_length e) i), ed_dirty := True\<rparr>"
    by (simp add: delete_at_def split: prod.splits)
  show "editor_ok (delete_at i e)" using ok i r(1,2) [OF len] by (auto simp: e editor_ok_def)
  show "text_of (delete_at i e) = take i (text_of e) @ drop (i + 1) (text_of e)"
    using r(2,3) [OF len] i by (simp add: e text_of_def min_def)
qed (simp_all add: delete_at_def split: prod.splits)

lemma type_refines:
  assumes ok: "editor_ok e"
  shows "editor_ok (type_byte v e)" "view (type_byte v e) = apply_command (Type v) (view e)"
    "ed_dirty (type_byte v e) \<longleftrightarrow> ed_dirty e \<or> ed_length e < document_capacity"
proof (atomize (full), cases "ed_length e < document_capacity")
  case True
  obtain ok1 d n k where r: "insert_byte (ed_document e) (ed_length e) (ed_cursor e) v = (ok1, d, n, k)" by (metis prod_cases4)
  have e: "length (ed_document e) = document_capacity" "ed_cursor e \<le> ed_length e" using ok by (simp_all add: editor_ok_def)
  note i = insert_view [OF e(2) _ e(1) r]
  have t: "take n d = take (ed_cursor e) (ed_document e) @ v # drop (ed_cursor e) (take (ed_length e) (ed_document e))"
    using i True e by simp
  have eq: "type_byte v e = e\<lparr>ed_document := d, ed_length := n, ed_cursor := k, ed_dirty := True\<rparr>"
    using i(1) True e by (simp add: type_byte_def r)
  have "view (type_byte v e) = (take (ed_cursor e) (ed_document e) @ [v], drop (ed_cursor e) (take (ed_length e) (ed_document e)))"
    using t i(4) True e by (simp add: eq view_def text_of_def)
  moreover have "apply_command (Type v) (view e) =
      (take (ed_cursor e) (ed_document e) @ [v], drop (ed_cursor e) (take (ed_length e) (ed_document e)))"
    using True e by (simp add: view_def text_of_def min_def)
  ultimately show "editor_ok (type_byte v e) \<and> view (type_byte v e) = apply_command (Type v) (view e) \<and>
      ed_dirty (type_byte v e) = (ed_dirty e \<or> ed_length e < document_capacity)"
    using i True e by (simp add: eq editor_ok_def)
next
  case False
  then have "type_byte v e = e\<lparr>ed_message := bytes_of ''file full''\<rparr>" by (simp add: type_byte_def insert_byte_def)
  then show "editor_ok (type_byte v e) \<and> view (type_byte v e) = apply_command (Type v) (view e) \<and>
      ed_dirty (type_byte v e) = (ed_dirty e \<or> ed_length e < document_capacity)"
    using False ok by (auto simp: editor_ok_def view_def text_of_def)
qed

lemma key_codes:
  "chr CHR ''A'' = 65" "chr CHR ''B'' = 66" "chr CHR ''C'' = 67" "chr CHR ''D'' = 68" "chr CHR ''H'' = 72" "chr CHR ''F'' = 70"
  "chr CHR ''~'' = 126" "chr CHR ''1'' = 49" "chr CHR ''3'' = 51" "chr CHR ''4'' = 52"
  by (simp_all add: chr_def)

lemma escape_refines:
  assumes ok: "editor_ok e"
  shows "editor_ok (editor_escape code p e) \<and> view (editor_escape code p e) = apply_command (escape_command code p) (view e) \<and>
    (ed_dirty (editor_escape code p e) \<or> text_of (editor_escape code p e) = text_of e)"
proof -
  obtain before after where v: "view e = (before, after)" by fastforce
  note l = cursor_lines [OF ok v]
  define Q where "Q e' c \<longleftrightarrow> editor_ok e' \<and> view e' = apply_command c (view e) \<and> (ed_dirty e' \<or> text_of e' = text_of e)" for e' c
  have go: "Q (e\<lparr>ed_cursor := q\<rparr>) c" if "q \<le> ed_length e" "goto q (view e) = apply_command c (view e)" for q c
    using view_goto [OF ok that(1)] that(2) by (simp add: text_of_def Q_def)
  have here: "Q e c" if "apply_command c (view e) = view e" for c using ok that by (simp add: Q_def)
  have del: "Q (delete_at (ed_cursor e) e) Delete" if "ed_cursor e < ed_length e"
  proof -
    note d = delete_refines [OF ok that order_refl]
    have "length (take (ed_cursor e) (text_of e)) = ed_cursor e" using that text_length [OF ok] by simp
    then show ?thesis using d by (simp add: view_def drop_Suc tl_drop Q_def)
  qed
  have home: "Q (e\<lparr>ed_cursor := line_start (ed_document e) (ed_cursor e)\<rparr>) Home"
    by (rule go) (use l(1,2,6) in \<open>simp_all add: v\<close>)
  have fin: "Q (e\<lparr>ed_cursor := line_end (ed_document e) (ed_length e) (ed_cursor e)\<rparr>) End_key"
    by (rule go) (use l(3,7) rest_le [of after] in \<open>simp_all add: v\<close>)
  have right: "Q (if ed_cursor e < ed_length e then e\<lparr>ed_cursor := ed_cursor e + 1\<rparr> else e) Right_key"
  proof (cases "ed_cursor e < ed_length e")
    case True
    then show ?thesis using go [of "ed_cursor e + 1" Right_key] l(1) by (simp add: v)
  next
    case False
    then have "after = []" using l(1,2,3) by simp
    then show ?thesis using here [of Right_key] False by (simp add: v goto_def)
  qed
  have left: "Q (if ed_cursor e \<noteq> 0 then e\<lparr>ed_cursor := ed_cursor e - 1\<rparr> else e) Left_key"
    using go [of "ed_cursor e - 1" Left_key] here [of Left_key] l(1,2) by (simp add: v goto_def)
  have none: "Q e No_key" by (rule here) simp
  have del': "Q e Delete" if "\<not> ed_cursor e < ed_length e" by (rule here) (use that l(1,2,3) in \<open>simp add: v\<close>)
  note up = go [OF up_refines [OF ok]] and down = go [OF down_refines [OF ok]]
  have "Q (editor_escape code p e) (escape_command code p)"
  proof (cases "code \<in> {67, 68, 126}")
    case True
    then show ?thesis
      using right left none home fin del del'
      by (elim insertE emptyE) (auto simp: editor_escape_def escape_command_def Let_def key_codes split: if_splits)
  next
    case False
    then show ?thesis
      using up down home fin none by (simp add: editor_escape_def escape_command_def Let_def key_codes)
  qed
  then show ?thesis by (simp add: Q_def)
qed

lemma erase_refines:
  assumes ok: "editor_ok e" and k: "ed_cursor e \<noteq> 0"
  defines "e' \<equiv> delete_at (ed_cursor e - 1) (e\<lparr>ed_cursor := ed_cursor e - 1\<rparr>)"
  shows "editor_ok e'" "view e' = apply_command Erase (view e)" "ed_dirty e'"
proof -
  let ?e = "e\<lparr>ed_cursor := ed_cursor e - 1\<rparr>"
  have c: "ed_cursor e \<le> ed_length e" using ok by (simp add: editor_ok_def)
  have ok1: "editor_ok ?e" using ok by (auto simp: editor_ok_def)
  have t: "text_of ?e = text_of e" by (simp add: text_of_def)
  have i: "ed_cursor e - 1 < ed_length ?e" "ed_cursor ?e \<le> ed_cursor e - 1" using c k by simp_all
  note d = delete_refines [OF ok1 i, folded e'_def, unfolded t]
  have len: "length (take (ed_cursor e - 1) (text_of e)) = ed_cursor e - 1" using c k text_length [OF ok] by simp
  show "editor_ok e'" "ed_dirty e'" using d by simp_all
  show "view e' = apply_command Erase (view e)"
    using d len k c text_length [OF ok] by (simp add: view_def butlast_take)
qed

lemma typed:
  assumes "editor_ok e"
  shows "editor_ok (type_byte v e) \<and> view (type_byte v e) = apply_command (Type v) (view e) \<and>
    (text_of (type_byte v e) \<noteq> text_of e \<longrightarrow> ed_dirty (type_byte v e))"
proof (cases "ed_length e < document_capacity")
  case True
  then show ?thesis using type_refines [OF assms] by simp
next
  case False
  then have "type_byte v e = e\<lparr>ed_message := bytes_of ''file full''\<rparr>" by (simp add: type_byte_def insert_byte_def)
  then show ?thesis using type_refines(1,2) [OF assms, of v] by (simp add: text_of_def)
qed

lemma key_refines:
  assumes "editor_ok e" and "editor_key calls path e byte w = Continue e' w'"
  shows "editor_ok e' \<and> view e' = apply_command (if byte \<in> {0x13, 0x11} then No_key else key_command calls byte w) (view e) \<and>
    (text_of e' \<noteq> text_of e \<longrightarrow> ed_dirty e')"
proof -
  let ?e = "e\<lparr>ed_quit_armed := False\<rparr>"
  have same: "editor_ok ?e" "view ?e = view e" "text_of ?e = text_of e"
    using assms(1) by (simp_all add: editor_ok_def view_def text_of_def)
  consider (save) "byte = 0x13" | (quit) "byte = 0x11" | (escape) "byte = 0x1B" | (erase) "byte = 0x08 \<or> byte = 0x7F"
    | (line) "byte = 0x0D \<or> byte = 0x0A" | (other) "byte \<notin> {0x13, 0x11, 0x1B, 0x08, 0x7F, 0x0D, 0x0A}" by blast
  then show ?thesis
  proof cases
    case save
    then show ?thesis
      using assms by (auto simp: editor_key_def editor_ok_def view_def text_of_def split: prod.splits if_splits)
  next
    case quit
    then show ?thesis
      using assms by (auto simp: editor_key_def editor_ok_def view_def text_of_def split: if_splits)
  next
    case escape
    then show ?thesis
      using assms(2) escape_refines [OF same(1)] same
      by (auto simp: editor_key_def key_command_def Let_def split: prod.splits option.splits)
  next
    case erase
    show ?thesis
    proof (cases "ed_cursor e = 0")
      case True
      then have "apply_command Erase (view e) = view e" by (simp add: view_def)
      then show ?thesis using erase True assms(2) same by (auto simp: editor_key_def key_command_def Let_def)
    next
      case False
      then show ?thesis
        using erase assms(2) same erase_refines [OF same(1)] by (auto simp: editor_key_def key_command_def Let_def)
    qed
  next
    case line
    then have "e' = type_byte 0x0A ?e" using assms(2) by (auto simp: editor_key_def Let_def)
    then show ?thesis using line typed [OF same(1), of "0x0A"] same by (auto simp: key_command_def)
  next
    case other
    then have "e' = (if 0x20 \<le> byte \<and> byte \<le> 0x7E then type_byte byte ?e else ?e)"
      using assms(2) by (auto simp: editor_key_def Let_def split: if_splits)
    then show ?thesis using other typed [OF same(1), where v = byte] same by (auto simp: key_command_def)
  qed
qed

lemma key_calm:
  assumes "editor_key calls path e byte w = Continue e' w'" "byte \<noteq> 0x13" "byte \<noteq> 0x11"
  shows "\<not> ed_quit_armed e'" "ed_dirty e \<longrightarrow> ed_dirty e'"
  using assms
  by (auto simp: editor_key_def Let_def editor_escape_def delete_at_def type_byte_def insert_byte_def remove_byte_def
      split: prod.splits option.splits if_splits)

text \<open>A world that types the given bytes and accepts every file.\<close>

definition typing :: "bytes awp_calls" where
  "typing = \<lparr>ac_write = (\<lambda>bs w. (int (length bs), w)), ac_read = (\<lambda>w. case w of [] \<Rightarrow> (None, []) | b # w \<Rightarrow> (Some b, w)),
     ac_read_file = (\<lambda>p n w. ((- 1, []), w)), ac_write_file = (\<lambda>p bs w. (int (length bs), w)),
     ac_argument = (\<lambda>n w. ((2, bytes_of ''/f''), w))\<rparr>"

definition blank_editor :: editor where
  "blank_editor = \<lparr>ed_document = replicate 2048 0, ed_length = 0, ed_cursor = 0, ed_dirty = False, ed_quit_armed = False,
     ed_message = []\<rparr>"

lemma blank_editor_ok: "editor_ok blank_editor"
  by (simp add: editor_ok_def blank_editor_def)

text \<open>
  C34. Every key does to the text and the cursor exactly what its operation does to the bytes
  before and after the cursor: typing inserts, erasing and deleting remove one byte, the arrows,
  Home and End move within lines, with up and down keeping the column where the line is long
  enough; nothing else changes the text, and the cursor never leaves it.
\<close>

theorem editor_key_refines:
  assumes "editor_ok e" and "editor_key calls path e byte w = Continue e' w'"
  shows "editor_ok e' \<and> view e' = apply_command (if byte \<in> {0x13, 0x11} then No_key else key_command calls byte w) (view e)"
  using key_refines [OF assms] by simp

theorem editor_key_refines_witness:
  "\<exists>e' w'. editor_key typing [] blank_editor 0x41 [] = Continue e' w' \<and> view e' = ([0x41], [])"
proof -
  obtain e' w' where k: "editor_key typing [] blank_editor 0x41 [] = Continue e' w'" by (simp add: editor_key_def Let_def)
  then have "view e' = apply_command (key_command typing 0x41 []) (view blank_editor)"
    using editor_key_refines [OF blank_editor_ok k] by simp
  moreover have "key_command typing 0x41 [] = Type 0x41" by (simp add: key_command_def)
  moreover have "view blank_editor = ([], [])" by (simp add: view_def text_of_def blank_editor_def)
  ultimately show ?thesis using k by simp
qed

text \<open>
  The editor at work: \<open>disk\<close> is what the last successful save wrote, or what was loaded, and
  \<open>keys\<close> the bytes that started a turn of the loop, the last one first.
\<close>

inductive editing :: "'w awp_calls \<Rightarrow> bytes \<Rightarrow> editor \<Rightarrow> 'w \<Rightarrow> bytes \<Rightarrow> bytes \<Rightarrow> bool" for calls path where
  start: "editor_ok e \<Longrightarrow> \<not> ed_dirty e \<Longrightarrow> \<not> ed_quit_armed e \<Longrightarrow> editing calls path e w (text_of e) []"
| key: "editing calls path e w disk keys \<Longrightarrow>
    ac_read calls (render calls (ed_document e) (ed_length e) (ed_cursor e) path (ed_dirty e) (ed_message e) w) = (Some byte, w1) \<Longrightarrow>
    editor_key calls path (e\<lparr>ed_message := []\<rparr>) byte w1 = Continue e' w' \<Longrightarrow>
    disk' = (if byte = 0x13 \<and> fst (ac_write_file calls path (text_of e) w1) = int (ed_length e) then text_of e else disk) \<Longrightarrow>
    editing calls path e' w' disk' (byte # keys)"

definition quit_pending :: "bytes \<Rightarrow> bool" where
  "quit_pending keys \<longleftrightarrow> (\<exists>n rest. keys = replicate n 0x13 @ 0x11 # rest)"

lemma quit_pending_save: "quit_pending keys \<Longrightarrow> quit_pending (0x13 # keys)"
  unfolding quit_pending_def by (metis append_Cons replicate_Suc)

lemma quit_pending_quit: "quit_pending (0x11 # keys)"
  unfolding quit_pending_def by (metis append_Nil replicate_0)

lemma editing_ok:
  assumes "editing calls path e w disk keys"
  shows "editor_ok e \<and> (\<not> ed_dirty e \<longrightarrow> text_of e = disk) \<and> (ed_quit_armed e \<longrightarrow> quit_pending keys)"
  using assms
proof (induction rule: editing.induct)
  case (key e w disk keys byte w1 e' w' disk')
  let ?e = "e\<lparr>ed_message := []\<rparr>"
  have m: "editor_ok ?e" "text_of ?e = text_of e" using key.IH by (simp_all add: editor_ok_def text_of_def)
  note r = key_refines [OF m(1) key.hyps(3)]
  note calm = key_calm [OF key.hyps(3), simplified]
  show ?case
  proof (cases "byte = 0x13")
    case True
    obtain saved w2 where s: "ac_write_file calls path (text_of e) w1 = (saved, w2)" by fastforce
    have "e' = (if saved = int (ed_length e) then ?e\<lparr>ed_dirty := False, ed_quit_armed := False, ed_message := bytes_of ''saved''\<rparr>
        else ?e\<lparr>ed_message := bytes_of ''save failed''\<rparr>)"
      using True key.hyps(3) s by (auto simp: editor_key_def text_of_def split: if_splits)
    moreover have "disk' = (if saved = int (ed_length e) then text_of e else disk)" using key.hyps(4) True s by simp
    ultimately show ?thesis using True r key.IH quit_pending_save by (simp add: text_of_def)
  next
    case False
    show ?thesis
    proof (cases "byte = 0x11")
      case True
      then have "e' = ?e\<lparr>ed_quit_armed := True, ed_message := bytes_of ''unsaved; ^Q again''\<rparr>"
        using key.hyps(3) by (auto simp: editor_key_def split: if_splits)
      then show ?thesis using True key.IH key.hyps(4) r by (simp add: quit_pending_quit text_of_def)
    next
      case other: False
      then show ?thesis using calm [OF False other] r m key.IH key.hyps(4) False by auto
    qed
  qed
qed (simp add: editor_ok_def)

text \<open>The loop of the editor ends in such a state, when a read fails or a key leaves it.\<close>

lemma editor_loop_ends:
  assumes "editor_loop calls path e w = Some r" "editing calls path e w disk keys"
  shows "\<exists>e1 w1 disk1 keys1 byte w2. editing calls path e1 w1 disk1 keys1 \<and>
    (let w1 = render calls (ed_document e1) (ed_length e1) (ed_cursor e1) path (ed_dirty e1) (ed_message e1) w1
     in ac_read calls w1 = (None, snd r) \<and> fst r = 1 \<or>
        ac_read calls w1 = (Some byte, w2) \<and> editor_key calls path (e1\<lparr>ed_message := []\<rparr>) byte w2 = Exit (fst r) (snd r))"
  using assms
proof (induction arbitrary: disk keys rule: editor_loop.raw_induct [rotated, consumes 1])
  case (1 loop calls path e w r)
  let ?w = "render calls (ed_document e) (ed_length e) (ed_cursor e) path (ed_dirty e) (ed_message e) w"
  obtain b w1 where a: "ac_read calls ?w = (b, w1)" by fastforce
  show ?case
  proof (cases b)
    case None
    then have "r = (1, w1)" using "1.hyps" a by (simp add: Let_def)
    then show ?thesis using "1.prems" a None by (intro exI [of _ e] exI [of _ w] exI [of _ disk] exI [of _ keys]) (simp add: Let_def)
  next
    case (Some byte)
    show ?thesis
    proof (cases "editor_key calls path (e\<lparr>ed_message := []\<rparr>) byte w1")
      case (Continue e' w')
      define disk' where "disk' = (if byte = 0x13 \<and> fst (ac_write_file calls path (text_of e) w1) = int (ed_length e) then text_of e else disk)"
      have "editing calls path e' w' disk' (byte # keys)"
        by (rule editing.key [OF "1.prems" _ Continue disk'_def]) (use a Some in simp)
      moreover have "loop calls path e' w' = Some r" using "1.hyps" a Some Continue by (simp add: Let_def)
      ultimately show ?thesis by (rule "1.IH" [rotated])
    next
      case (Exit code w')
      then have "r = (code, w')" using "1.hyps" a Some by (simp add: Let_def)
      then show ?thesis
        using "1.prems" a Some Exit
        by (intro exI [of _ e] exI [of _ w] exI [of _ disk] exI [of _ keys] exI [of _ byte] exI [of _ w1]) (simp add: Let_def)
    qed
  qed
qed


lemma quiet_terminal:
  assumes "\<forall>bs w. snd (ac_write calls bs w) = w"
  shows "terminal_write_from calls bs n w = w"
  using assms
proof (induction calls bs n w rule: terminal_write_from.induct)
  case (1 calls bs n w)
  obtain r w1 where r: "ac_write calls (take (min (length bs - n) 256) (drop n bs)) w = (r, w1)" by fastforce
  then have "w1 = w" using "1.prems" by (metis snd_conv)
  then show ?case using "1.IH" "1.prems" r by (subst terminal_write_from.simps) (auto simp: Let_def)
qed


section \<open>The screen\<close>

text \<open>The visible part of a text when nothing limits the output.\<close>

fun visible :: "nat \<Rightarrow> nat \<Rightarrow> nat \<Rightarrow> bytes \<Rightarrow> bytes" where
  "visible scroll row column [] = []"
| "visible scroll row column (b # bs) =
     (let shown = row \<ge> scroll \<and> row < scroll + screen_rows
      in if b = 0x0A then (if shown then [0x0D, 0x0A] else []) @ visible scroll (row + 1) 0 bs
         else if column + 1 \<ge> screen_columns then (if shown then [b, 0x0D, 0x0A] else []) @ visible scroll (row + 1) 0 bs
         else (if shown then [b] else []) @ visible scroll row (column + 1) bs)"

lemma visible_length:
  "column < screen_columns \<Longrightarrow> length (visible scroll row column bs) \<le>
     (if row < scroll then 1760 else if row < scroll + screen_rows then (scroll + screen_rows - row) * 80 - column else 0)"
proof (induction bs arbitrary: row column)
  case (Cons b bs)
  have next_row: "length (visible scroll (row + 1) 0 bs) \<le> (if row + 1 < scroll then 1760
      else if row + 1 < scroll + screen_rows then (scroll + screen_rows - (row + 1)) * 80 else 0)"
    using Cons.IH [of 0 "row + 1"] by (auto split: if_splits)
  have next_column: "column + 1 < screen_columns \<Longrightarrow> length (visible scroll row (column + 1) bs) \<le> (if row < scroll then 1760
      else if row < scroll + screen_rows then (scroll + screen_rows - row) * 80 - (column + 1) else 0)"
    by (rule Cons.IH)
  have room: "(scroll + screen_rows - row) * 80 = (scroll + screen_rows - (row + 1)) * 80 + 80" if "row < scroll + screen_rows"
    using that by (simp add: diff_mult_distrib)
  show ?case
    using next_row next_column room Cons.prems by (auto simp: Let_def split: if_splits)
qed simp

lemma append_text_fits: "length out + length bs \<le> screen_capacity \<Longrightarrow> append_text out bs = out @ bs"
  by (induction bs arbitrary: out) (simp_all add: append_char_def)

lemma append_number_fits:
  assumes "length out + length (reversed_digits v) \<le> screen_capacity"
  shows "append_number out v = out @ rev (reversed_digits v)"
proof -
  have "foldl (\<lambda>out b. snd (append_char out b)) out bs = out @ bs" if "length out + length bs \<le> screen_capacity" for bs
    using that by (induction bs arbitrary: out) (simp_all add: append_char_def)
  from this [of "rev (reversed_digits v)"] show ?thesis using assms by (simp add: append_number_def)
qed

lemma fold_render:
  assumes "length out + length (visible scroll row column bs) \<le> screen_capacity"
  shows "fst (foldl (render_step scroll) (out, row, column) bs) = out @ visible scroll row column bs"
  using assms
proof (induction bs arbitrary: out row column)
  case (Cons b bs)
  let ?s = "row \<ge> scroll \<and> row < scroll + screen_rows"
  define now where "now = (if ?s then if b = 0x0A then [0x0D, 0x0A] else if column + 1 \<ge> screen_columns then [b, 0x0D, 0x0A] else [b] else [])"
  define rc where "rc = (if b = 0x0A \<or> column + 1 \<ge> screen_columns then (row + 1, 0) else (row, column + 1))"
  have v: "visible scroll row column (b # bs) = now @ visible scroll (fst rc) (snd rc) bs"
    by (simp add: now_def rc_def Let_def)
  have "length out + length now \<le> screen_capacity" using Cons.prems unfolding v by simp
  then have s: "render_step scroll (out, row, column) b = (out @ now, fst rc, snd rc)"
    by (auto simp: render_step_def Let_def append_text_fits append_char_def now_def rc_def simp del: append_text.simps split: if_splits)
  have "foldl (render_step scroll) (out, row, column) (b # bs) = foldl (render_step scroll) (out @ now, fst rc, snd rc) bs"
    by (simp add: s)
  then show ?case using Cons.IH [of "out @ now" "fst rc" "snd rc"] Cons.prems unfolding v by simp
qed simp

lemma visual_column: "snd p < screen_columns \<Longrightarrow> snd (foldl visual_step p bs) < screen_columns"
  by (induction bs arbitrary: p) (auto simp: visual_step_def split: prod.splits)

text \<open>
  The screen is drawn completely: the output buffer holds the visible part of every document,
  the status line and the cursor position, so nothing is ever cut off, and the position the cursor
  is sent to lies within the window.
\<close>

lemma render_complete:
  assumes "length (c_string path) < path_capacity" and "length message \<le> 20"
    and "visual_position document cursor = (row, column)"
    and "scroll = (if row \<ge> screen_rows then row - screen_rows + 1 else 0)"
  shows "screen_text document len cursor path dirty message =
      clear_screen @ visible scroll 0 0 (take len document) @ 0x1B # bytes_of ''[24;1H'' @ 0x1B # bytes_of ''[7m '' @
      c_string path @ bytes_of (if dirty then ''  modified  '' else ''  saved  '') @ message @
      bytes_of ''  ^S save  ^Q quit '' @ 0x1B # bytes_of ''[0m'' @ 0x1B # bytes_of ''['' @ rev (reversed_digits (row - scroll + 1)) @
      chr CHR '';'' # rev (reversed_digits (column + 1)) @ [chr CHR ''H''] \<and>
    row - scroll < screen_rows \<and> column < screen_columns"
proof -
  have col: "column < screen_columns"
    using visual_column [of "(0, 0)" "take cursor document"] assms(3) by (simp add: visual_position_def)
  have row: "row - scroll < screen_rows" using assms(4) by auto
  note digits = short_digits [of "row - scroll + 1"] short_digits [of "column + 1"]
  have shown: "length (visible scroll 0 0 (take len document)) \<le> 1760"
    using visible_length [of 0 scroll 0 "take len document"] by (auto split: if_splits)
  have clear: "length clear_screen = 7" "append_text [] clear_screen = clear_screen"
    by (simp_all add: clear_screen_def append_text_fits del: append_text.simps)
  have doc: "fst (foldl (render_step scroll) (clear_screen, 0, 0) (take len document)) =
      clear_screen @ visible scroll 0 0 (take len document)"
    by (rule fold_render) (use shown clear in simp)
  have "screen_text document len cursor path dirty message =
      clear_screen @ visible scroll 0 0 (take len document) @ 0x1B # bytes_of ''[24;1H'' @ 0x1B # bytes_of ''[7m '' @
      c_string path @ bytes_of (if dirty then ''  modified  '' else ''  saved  '') @ message @
      bytes_of ''  ^S save  ^Q quit '' @ 0x1B # bytes_of ''[0m'' @ 0x1B # bytes_of ''['' @ rev (reversed_digits (row - scroll + 1)) @
      chr CHR '';'' # rev (reversed_digits (column + 1)) @ [chr CHR ''H'']"
    unfolding screen_text_def assms(3) prod.case assms(4) [symmetric] Let_def clear(2) doc
    using shown clear(1) digits row col assms(1,2)
    by (simp add: append_text_fits append_number_fits append_char_def del: append_text.simps)
  then show ?thesis using row col by simp
qed

lemma render_complete_witness:
  "visible 0 0 0 [0x41] = [0x41] \<and>
   screen_text [0x41] 1 1 (bytes_of ''/f'') True [] = clear_screen @ [0x41] @ 0x1B # bytes_of ''[24;1H'' @ 0x1B # bytes_of ''[7m '' @
      bytes_of ''/f'' @ bytes_of ''  modified  '' @ bytes_of ''  ^S save  ^Q quit '' @ 0x1B # bytes_of ''[0m'' @ 0x1B # bytes_of ''['' @
      [49] @ chr CHR '';'' # [50] @ [chr CHR ''H'']"
proof -
  have c: "c_string (bytes_of ''/f'') = bytes_of ''/f''" by (simp add: c_string_def bytes_of_def)
  have p: "visual_position [0x41] 1 = (0, 1)" by (simp add: visual_position_def visual_step_def)
  have d: "reversed_digits 1 = [49]" "reversed_digits (Suc (Suc 0)) = [50]" by (simp_all add: reversed_digits.simps)
  show ?thesis using render_complete [of "bytes_of ''/f''" "[]" "[0x41]" 1 0 1 0 1 True] c p d by (simp add: Let_def)
qed

end
