(* ===== verification/Http.thy ===== *)
theory Http
  imports Decimal
begin

text \<open>
  \<open>libs/libhttp/http.c\<close>: reading a URL and writing an HTTP request. A text is read from its
  front, the rest of the C string standing for the index; the arrays of the URL are written in
  place, so that a refused text leaves what was written before.
\<close>

section \<open>Definitions\<close>

abbreviation (input) arwill_http_host_capacity :: nat where "arwill_http_host_capacity \<equiv> 64"
abbreviation (input) arwill_http_path_capacity :: nat where "arwill_http_path_capacity \<equiv> 256"

datatype arwill_http_result = Http_ok | Http_invalid | Http_unsupported | Http_too_large
datatype arwill_http_method = Method_get | Method_post
datatype arwill_http_scheme = Scheme_http | Scheme_https

record arwill_http_url =
  ur_host :: bytes
  ur_path :: bytes
  ur_port :: u16
  ur_scheme :: arwill_http_scheme

definition valid_host_character :: "u8 \<Rightarrow> bool" where
  "valid_host_character v \<longleftrightarrow> (chr CHR ''a'' \<le> v \<and> v \<le> chr CHR ''z'') \<or> (chr CHR ''A'' \<le> v \<and> v \<le> chr CHR ''Z'') \<or>
     (chr CHR ''0'' \<le> v \<and> v \<le> chr CHR ''9'') \<or> v = chr CHR ''-'' \<or> v = chr CHR ''.''"

fun skip_prefix :: "bytes \<Rightarrow> bytes \<Rightarrow> bytes option" where
  "skip_prefix [] rest = Some rest"
| "skip_prefix (p # ps) [] = None"
| "skip_prefix (p # ps) (b # rest) = (if p = b then skip_prefix ps rest else None)"

definition host_end :: "u8 \<Rightarrow> bool" where
  "host_end b \<longleftrightarrow> b = chr CHR '':'' \<or> b = chr CHR ''/'' \<or> b = chr CHR ''?'' \<or> b = chr CHR ''#''"

fun parse_host :: "bytes \<Rightarrow> nat \<Rightarrow> bytes \<Rightarrow> bool \<times> nat \<times> bytes \<times> bytes" where
  "parse_host [] host_length host = (True, host_length, host, [])"
| "parse_host (b # rest) host_length host =
     (if host_end b then (True, host_length, host, b # rest)
      else if \<not> valid_host_character b \<or> host_length + 1 \<ge> arwill_http_host_capacity
      then (False, host_length, host, b # rest)
      else parse_host rest (host_length + 1) (host[host_length := b]))"

fun parse_port :: "bytes \<Rightarrow> u32 \<Rightarrow> nat \<Rightarrow> (u32 \<times> nat \<times> bytes) option" where
  "parse_port [] port digits = Some (port, digits, [])"
| "parse_port (b # rest) port digits =
     (if is_digit b
      then (let port = port * 10 + (ucast b - 48)
            in if port > 0xFFFF then None else parse_port rest port (digits + 1))
      else Some (port, digits, b # rest))"

fun parse_path :: "bytes \<Rightarrow> nat \<Rightarrow> bytes \<Rightarrow> bool \<times> nat \<times> bytes" where
  "parse_path [] path_length path = (True, path_length, path)"
| "parse_path (b # rest) path_length path =
     (if b = chr CHR ''#'' then (True, path_length, path)
      else if b \<le> 0x20 \<or> b \<ge> 0x7F \<or> path_length + 1 \<ge> arwill_http_path_capacity then (False, path_length, path)
      else parse_path rest (path_length + 1) (path[path_length := b]))"

definition finish_url :: "bytes \<Rightarrow> arwill_http_url \<Rightarrow> arwill_http_result \<times> arwill_http_url" where
  "finish_url rest url =
     (if rest \<noteq> [] \<and> hd rest = chr CHR ''#'' then (Http_invalid, url)
      else
        (let (path_length, path) = if rest = [] \<or> hd rest \<noteq> chr CHR ''/'' then (1, (ur_path url)[0 := chr CHR ''/''])
               else (0, ur_path url)
         in case parse_path rest path_length path of
              (False, n, path) \<Rightarrow> (Http_invalid, url\<lparr>ur_path := path\<rparr>)
            | (True, n, path) \<Rightarrow> (Http_ok, url\<lparr>ur_path := path[n := 0]\<rparr>)))"

definition parse_authority :: "bytes \<Rightarrow> arwill_http_url \<Rightarrow> arwill_http_result \<times> arwill_http_url" where
  "parse_authority rest url =
     (case parse_host rest 0 (ur_host url) of
        (ok, n, host, rest) \<Rightarrow>
          if \<not> ok \<or> n = 0 \<or> host ! 0 = chr CHR ''.'' \<or> host ! (n - 1) = chr CHR ''.'' then (Http_invalid, url\<lparr>ur_host := host\<rparr>)
          else
            (let url = url\<lparr>ur_host := host[n := 0]\<rparr>
             in if rest \<noteq> [] \<and> hd rest = chr CHR '':''
                then (case parse_port (tl rest) 0 0 of
                        None \<Rightarrow> (Http_invalid, url)
                      | Some (port, digits, rest) \<Rightarrow>
                          if digits = 0 \<or> port = 0 then (Http_invalid, url)
                          else finish_url rest (url\<lparr>ur_port := ucast port\<rparr>))
                else finish_url rest url))"

definition arwill_http_parse_url ::
    "bytes option \<Rightarrow> arwill_http_url option \<Rightarrow> arwill_http_result \<times> arwill_http_url option" where
  "arwill_http_parse_url txt url =
     (case (txt, url) of
        (Some txt, Some url) \<Rightarrow>
         (let txt = c_string txt
          in case skip_prefix (bytes_of ''http://'') txt of
               Some rest \<Rightarrow> apsnd Some (parse_authority rest (url\<lparr>ur_scheme := Scheme_http, ur_port := 80\<rparr>))
             | None \<Rightarrow>
                (case skip_prefix (bytes_of ''https://'') txt of
                   None \<Rightarrow> (if txt \<noteq> [] then Http_unsupported else Http_invalid, Some url)
                 | Some rest \<Rightarrow> apsnd Some (parse_authority rest (url\<lparr>ur_scheme := Scheme_https, ur_port := 443\<rparr>))))
      | _ \<Rightarrow> (Http_invalid, url))"

text \<open>The output array with the number of bytes written.\<close>

definition append_byte :: "nat \<Rightarrow> u8 \<Rightarrow> bytes \<times> nat \<Rightarrow> bool \<times> bytes \<times> nat" where
  "append_byte capacity b out =
     (if snd out \<ge> capacity then (False, out) else (True, (fst out)[snd out := b], snd out + 1))"

fun append_bytes :: "nat \<Rightarrow> bytes \<Rightarrow> bytes \<times> nat \<Rightarrow> bool \<times> bytes \<times> nat" where
  "append_bytes capacity [] out = (True, out)"
| "append_bytes capacity (b # bs) out =
     (case append_byte capacity b out of (ok, out) \<Rightarrow> if ok then append_bytes capacity bs out else (False, out))"

definition append_text :: "nat \<Rightarrow> bytes \<Rightarrow> bytes \<times> nat \<Rightarrow> bool \<times> bytes \<times> nat" where
  "append_text capacity t out = append_bytes capacity (c_string t) out"

definition append_decimal :: "nat \<Rightarrow> nat \<Rightarrow> bytes \<times> nat \<Rightarrow> bool \<times> bytes \<times> nat" where
  "append_decimal capacity v out = append_bytes capacity (rev (reversed_digits v)) out"

text \<open>Appending one part after the other until one does not fit.\<close>

fun append_parts :: "(bytes \<times> nat \<Rightarrow> bool \<times> bytes \<times> nat) list \<Rightarrow> bytes \<times> nat \<Rightarrow> bool \<times> bytes \<times> nat" where
  "append_parts [] out = (True, out)"
| "append_parts (p # ps) out = (case p out of (ok, out) \<Rightarrow> if ok then append_parts ps out else (False, out))"

definition crlf :: bytes where
  "crlf = [0x0D, 0x0A]"

definition request_parts :: "arwill_http_method \<Rightarrow> arwill_http_url \<Rightarrow> bytes \<Rightarrow> nat \<Rightarrow> (bytes \<times> nat \<Rightarrow> bool \<times> bytes \<times> nat) list" where
  "request_parts verb url body capacity =
     [append_text capacity (bytes_of (if verb = Method_get then ''GET '' else ''POST '')), append_text capacity (ur_path url),
      append_text capacity (bytes_of '' HTTP/1.0'' @ crlf @ bytes_of ''Host: ''), append_text capacity (ur_host url)] @
     (if ur_port url \<noteq> (if ur_scheme url = Scheme_https then 443 else 80)
      then [append_byte capacity (chr CHR '':''), append_decimal capacity (unat (ur_port url))] else []) @
     [append_text capacity (crlf @ bytes_of ''Connection: close'' @ crlf @ bytes_of ''User-Agent: arwill-curl/0'' @ crlf)] @
     (if verb = Method_post
      then [append_text capacity (bytes_of ''Content-Type: application/octet-stream'' @ crlf @ bytes_of ''Content-Length: ''),
            append_decimal capacity (length body), append_text capacity crlf] else []) @
     [append_text capacity crlf, append_bytes capacity body]"

definition arwill_http_build_request ::
    "arwill_http_method \<Rightarrow> arwill_http_url option \<Rightarrow> bytes option \<Rightarrow> nat \<Rightarrow> bytes option \<Rightarrow> nat \<Rightarrow>
     arwill_http_result \<times> bytes option \<times> nat option" where
  "arwill_http_build_request verb url body body_length out capacity =
     (case (url, out) of
        (Some url, Some array) \<Rightarrow>
          if cs_at (ur_host url) 0 = 0 \<or> cs_at (ur_path url) 0 = 0 \<or> ur_port url = 0 \<or> body = None \<and> body_length \<noteq> 0
          then (Http_invalid, out, None)
          else
            (case append_parts (request_parts verb url (take body_length (case body of None \<Rightarrow> [] | Some b \<Rightarrow> b)) capacity) (array, 0) of
               (ok, array, used) \<Rightarrow> if ok then (Http_ok, Some array, Some used) else (Http_too_large, Some array, None))
      | _ \<Rightarrow> (Http_invalid, out, None))"

section \<open>Requests\<close>

text \<open>The request as one text.\<close>

definition request_text :: "arwill_http_method \<Rightarrow> arwill_http_url \<Rightarrow> bytes \<Rightarrow> bytes" where
  "request_text verb url body =
     bytes_of (if verb = Method_get then ''GET '' else ''POST '') @ c_string (ur_path url) @ bytes_of '' HTTP/1.0'' @ crlf @
     bytes_of ''Host: '' @ c_string (ur_host url) @
     (if ur_port url \<noteq> (if ur_scheme url = Scheme_https then 443 else 80) then chr CHR '':'' # decimal (unat (ur_port url)) else []) @
     crlf @ bytes_of ''Connection: close'' @ crlf @ bytes_of ''User-Agent: arwill-curl/0'' @ crlf @
     (if verb = Method_post then bytes_of ''Content-Type: application/octet-stream'' @ crlf @ bytes_of ''Content-Length: '' @
        decimal (length body) @ crlf else []) @ crlf @ body"

text \<open>A part that appends the given bytes, or fails exactly when they do not fit.\<close>

definition appends :: "nat \<Rightarrow> bytes \<Rightarrow> (bytes \<times> nat \<Rightarrow> bool \<times> bytes \<times> nat) \<Rightarrow> bool" where
  "appends capacity bs p \<longleftrightarrow> (\<forall>array n. length array = capacity \<longrightarrow> n \<le> capacity \<longrightarrow>
     (if n + length bs \<le> capacity then p (array, n) = (True, splice_at array n bs, n + length bs) else \<not> fst (p (array, n))))"

lemma splice_step: "n < length xs \<Longrightarrow> splice_at (xs[n := b]) (Suc n) bs = splice_at xs n (b # bs)"
  by (simp add: splice_at_def take_Suc_conv_app_nth)

lemma appends_bytes: "appends capacity bs (append_bytes capacity bs)"
proof -
  have "length array = capacity \<Longrightarrow> n \<le> capacity \<Longrightarrow>
     (if n + length bs \<le> capacity then append_bytes capacity bs (array, n) = (True, splice_at array n bs, n + length bs)
      else \<not> fst (append_bytes capacity bs (array, n)))" for array n
  proof (induction bs arbitrary: array n)
    case (Cons b bs)
    then show ?case using Cons.IH [of "array[n := b]" "n + 1"] by (simp add: append_byte_def splice_step)
  qed (simp add: splice_at_def)
  then show ?thesis by (simp add: appends_def)
qed

lemma appends_byte: "appends capacity [b] (append_byte capacity b)"
  by (simp add: appends_def append_byte_def splice_at_def upd_conv_take_nth_drop)

lemma appends_parts:
  assumes "list_all2 (appends capacity) bss ps"
  shows "appends capacity (concat bss) (append_parts ps)"
  using assms
proof (induction bss ps rule: list_all2_induct)
  case (Cons bs bss p ps)
  show ?case
    unfolding appends_def
  proof (intro allI impI)
    fix array :: bytes and n assume l: "length array = capacity" "n \<le> capacity"
    have p: "if n + length bs \<le> capacity then p (array, n) = (True, splice_at array n bs, n + length bs) else \<not> fst (p (array, n))"
      using Cons.hyps(1) l unfolding appends_def by blast
    have r: "if m + length (concat bss) \<le> capacity then append_parts ps (a, m) = (True, splice_at a m (concat bss), m + length (concat bss))
        else \<not> fst (append_parts ps (a, m))" if "length a = capacity" "m \<le> capacity" for a m
      using Cons.IH that unfolding appends_def by blast
    show "if n + length (concat (bs # bss)) \<le> capacity
        then append_parts (p # ps) (array, n) = (True, splice_at array n (concat (bs # bss)), n + length (concat (bs # bss)))
        else \<not> fst (append_parts (p # ps) (array, n))"
    proof (cases "n + length bs \<le> capacity")
      case True
      have sl: "length (splice_at array n bs) = capacity" using True l by (simp add: length_splice_at)
      have "append_parts (p # ps) (array, n) = append_parts ps (splice_at array n bs, n + length bs)" using p True by simp
      then show ?thesis using r [OF sl True] l splice_at_append [of n bs array "concat bss"] by (auto simp: add.assoc)
    next
      case False
      then show ?thesis using p by (auto split: prod.splits)
    qed
  qed
qed (simp add: appends_def splice_at_def)

lemma appends_text: "c_string t = bs \<Longrightarrow> appends capacity bs (append_text capacity t)"
  using appends_bytes by (simp add: append_text_def [abs_def])

lemma appends_decimal: "appends capacity (decimal v) (append_decimal capacity v)"
  using appends_bytes by (simp add: append_decimal_def [abs_def] decimal_def)

lemma appends_request: "appends capacity (request_text verb url body) (append_parts (request_parts verb url body capacity))"
proof -
  let ?other = "ur_port url \<noteq> (if ur_scheme url = Scheme_https then 443 else 80)"
  let ?l1 = "bytes_of (if verb = Method_get then ''GET '' else ''POST '')"
  let ?l2 = "bytes_of '' HTTP/1.0'' @ crlf @ bytes_of ''Host: ''"
  let ?l3 = "crlf @ bytes_of ''Connection: close'' @ crlf @ bytes_of ''User-Agent: arwill-curl/0'' @ crlf"
  let ?l4 = "bytes_of ''Content-Type: application/octet-stream'' @ crlf @ bytes_of ''Content-Length: ''"
  have lit: "c_string ?l1 = ?l1" "c_string ?l2 = ?l2" "c_string ?l3 = ?l3" "c_string ?l4 = ?l4" "c_string crlf = crlf"
    by (rule c_string_id, simp add: bytes_of_def crlf_def)+
  let ?bss = "[?l1, c_string (ur_path url), ?l2, c_string (ur_host url)] @
      (if ?other then [[chr CHR '':''], decimal (unat (ur_port url))] else []) @ [?l3] @
      (if verb = Method_post then [?l4, decimal (length body), crlf] else []) @ [crlf, body]"
  have whole: "concat ?bss = request_text verb url body" by (cases verb; simp add: request_text_def)
  have "list_all2 (appends capacity) ?bss (request_parts verb url body capacity)"
    unfolding request_parts_def
    by (intro list_all2_appendI) (simp_all add: appends_text lit appends_byte appends_decimal appends_bytes)
  from appends_parts [OF this] show ?thesis unfolding whole .
qed


section \<open>URLs\<close>

definition host_ok :: "bytes \<Rightarrow> bool" where
  "host_ok h \<longleftrightarrow> h \<noteq> [] \<and> (\<forall>b\<in>set h. valid_host_character b) \<and> hd h \<noteq> chr CHR ''.'' \<and> last h \<noteq> chr CHR ''.'' \<and>
     length h < arwill_http_host_capacity"

definition path_byte :: "u8 \<Rightarrow> bool" where
  "path_byte b \<longleftrightarrow> 0x20 < b \<and> b < 0x7F \<and> b \<noteq> chr CHR ''#''"

definition path_ok :: "bytes \<Rightarrow> bool" where
  "path_ok p \<longleftrightarrow> p \<noteq> [] \<and> hd p = chr CHR ''/'' \<and> (\<forall>b\<in>set p. path_byte b) \<and> length p < arwill_http_path_capacity"

definition url_ok :: "arwill_http_url \<Rightarrow> bool" where
  "url_ok u \<longleftrightarrow> host_ok (c_string (ur_host u)) \<and> path_ok (c_string (ur_path u)) \<and> ur_port u \<noteq> 0"

definition default_port :: "arwill_http_scheme \<Rightarrow> u16" where
  "default_port s = (case s of Scheme_http \<Rightarrow> 80 | Scheme_https \<Rightarrow> 443)"

definition url_text :: "arwill_http_url \<Rightarrow> bytes" where
  "url_text u = bytes_of (if ur_scheme u = Scheme_https then ''https://'' else ''http://'') @ c_string (ur_host u) @
     (if ur_port u = default_port (ur_scheme u) then [] else chr CHR '':'' # decimal (unat (ur_port u))) @ c_string (ur_path u)"

lemma marks: "chr CHR '':'' = 58" "chr CHR ''/'' = 47" "chr CHR ''?'' = 63" "chr CHR ''#'' = 35" "chr CHR ''.'' = 46"
  "chr CHR ''-'' = 45" "chr CHR ''a'' = 97" "chr CHR ''z'' = 122" "chr CHR ''A'' = 65" "chr CHR ''Z'' = 90"
  "chr CHR ''0'' = 48" "chr CHR ''9'' = 57"
  by (simp_all add: chr_def)

lemma url_character_plain: "valid_host_character b \<Longrightarrow> \<not> host_end b \<and> b \<noteq> 0 \<and> 0x20 < b \<and> b < 0x7F"
  by (auto simp: valid_host_character_def host_end_def marks word_le_nat_alt word_less_nat_alt)

lemma skip_prefix_append [simp]: "skip_prefix ps (ps @ rest) = Some rest"
  by (induction ps) simp_all

lemma skip_prefix_Some: "skip_prefix ps t = Some rest \<Longrightarrow> t = ps @ rest"
  by (induction ps t rule: skip_prefix.induct) (auto split: if_splits)

lemma parse_host_accepts:
  assumes "\<forall>b\<in>set h. valid_host_character b" "n + length h < arwill_http_host_capacity" "rest = [] \<or> host_end (hd rest)"
    "length host = arwill_http_host_capacity"
  shows "parse_host (h @ rest) n host = (True, n + length h, splice_at host n h, rest)"
  using assms
proof (induction h arbitrary: n host)
  case Nil
  then show ?case by (cases rest) (simp_all add: splice_at_def)
next
  case (Cons b h)
  then show ?case using url_character_plain [of b] Cons.IH [of "n + 1" "host[n := b]"] by (simp add: splice_step)
qed

lemma parse_host_sound:
  assumes "parse_host t n host = (True, m, host', rest)" "length host = arwill_http_host_capacity" "n < arwill_http_host_capacity"
  shows "\<exists>h. t = h @ rest \<and> m = n + length h \<and> host' = splice_at host n h \<and> (\<forall>b\<in>set h. valid_host_character b) \<and>
    m < arwill_http_host_capacity"
  using assms
proof (induction t n host rule: parse_host.induct)
  case (2 b t n host)
  show ?case
  proof (cases "host_end b")
    case False
    then have n: "valid_host_character b" "n + 1 < arwill_http_host_capacity"
      and p: "parse_host t (n + 1) (host[n := b]) = (True, m, host', rest)"
      using "2.prems"(1) by (auto split: if_splits)
    obtain h where "t = h @ rest" "m = n + 1 + length h" "host' = splice_at (host[n := b]) (n + 1) h"
        "\<forall>b\<in>set h. valid_host_character b" "m < arwill_http_host_capacity"
      using "2.IH" [OF False _ p] n "2.prems"(2) by auto
    then show ?thesis using n "2.prems"(2) by (intro exI [of _ "b # h"]) (simp add: splice_step)
  qed (use 2 in \<open>simp add: splice_at_def\<close>)
qed (simp add: splice_at_def)

lemma port_step:
  assumes "unat port \<le> 0xFFFF" "is_digit b"
  shows "unat (port * 10 + (ucast b - 48) :: u32) = unat port * 10 + digit_value b"
proof -
  note d = digit_bounds [OF assms(2)]
  have ub: "unat (ucast b :: u32) = unat b" by (simp add: unsigned_ucast_eq take_bit_nat_eq_self order_less_trans [OF unat_less_8])
  then have "(48 :: u32) \<le> ucast b" using d by (simp add: word_le_nat_alt)
  then have s: "unat (ucast b - 48 :: u32) = digit_value b" using d ub by (simp add: unat_sub)
  have m: "unat (port * 10 :: u32) = unat port * 10" using assms(1) unat_mult_lem [of port 10] by simp
  show ?thesis using unat_add_lem [of "port * 10" "ucast b - 48 :: u32"] m s d assms(1) by simp
qed

lemma parse_port_accepts:
  assumes "\<forall>b\<in>set ds. is_digit b" "decimal_value (pre @ ds) \<le> 0xFFFF" "unat port = decimal_value pre"
    "rest = [] \<or> \<not> is_digit (hd rest)"
  shows "\<exists>p. parse_port (ds @ rest) port n = Some (p, n + length ds, rest) \<and> unat p = decimal_value (pre @ ds)"
  using assms
proof (induction ds arbitrary: pre port n)
  case Nil
  then show ?case by (cases rest) simp_all
next
  case (Cons b ds)
  have v: "decimal_value (pre @ [b]) \<le> 0xFFFF" using decimal_value_mono [of "pre @ [b]" ds] Cons.prems(2) by simp
  then have p0: "unat port \<le> 0xFFFF" using decimal_value_mono [of pre "[b]"] Cons.prems(3) by simp
  have u: "unat (port * 10 + (ucast b - 48) :: u32) = decimal_value (pre @ [b])"
    using port_step [OF p0] Cons.prems(1,3) by (simp add: decimal_value_append)
  then have "\<not> (port * 10 + (ucast b - 48) :: u32) > 0xFFFF" using v by (simp add: word_less_nat_alt)
  then show ?case using Cons.IH [OF _ _ u, of "n + 1"] Cons.prems by (simp add: Let_def)
qed

lemma parse_port_bound: "parse_port t port n = Some (p, m, rest) \<Longrightarrow> unat port \<le> 0xFFFF \<Longrightarrow> unat p \<le> 0xFFFF"
  by (induction t port n rule: parse_port.induct) (auto simp: Let_def word_less_nat_alt not_less split: if_splits)

lemma parse_path_accepts:
  assumes "\<forall>b\<in>set p. path_byte b" "n + length p < arwill_http_path_capacity" "length path = arwill_http_path_capacity"
  shows "parse_path p n path = (True, n + length p, splice_at path n p)"
  using assms
proof (induction p arbitrary: n path)
  case (Cons b p)
  then show ?case using Cons.IH [of "n + 1" "path[n := b]"] by (simp add: splice_step path_byte_def not_le)
qed (simp add: splice_at_def)

lemma parse_path_sound:
  assumes "parse_path t n path = (True, m, path')" "length path = arwill_http_path_capacity" "n < arwill_http_path_capacity"
  shows "\<exists>p rest. t = p @ rest \<and> m = n + length p \<and> path' = splice_at path n p \<and> (\<forall>b\<in>set p. path_byte b) \<and>
    m < arwill_http_path_capacity \<and> (rest \<noteq> [] \<longrightarrow> hd rest = chr CHR ''#'')"
  using assms
proof (induction t n path rule: parse_path.induct)
  case (2 b t n path)
  show ?case
  proof (cases "b = chr CHR ''#''")
    case True
    then show ?thesis using "2.prems" by (intro exI [of _ "[]"] exI [of _ "b # t"]) (simp add: splice_at_def)
  next
    case False
    then have n: "path_byte b" "n + 1 < arwill_http_path_capacity"
      and p: "parse_path t (n + 1) (path[n := b]) = (True, m, path')"
      using "2.prems"(1) by (auto simp: path_byte_def not_le split: if_splits)
    have "\<exists>q rest. t = q @ rest \<and> m = n + 1 + length q \<and> path' = splice_at (path[n := b]) (n + 1) q \<and>
        (\<forall>b\<in>set q. path_byte b) \<and> m < arwill_http_path_capacity \<and> (rest \<noteq> [] \<longrightarrow> hd rest = chr CHR ''#'')"
      by (rule "2.IH" [OF False _ p]) (use n "2.prems"(2) in \<open>auto simp: path_byte_def not_le\<close>)
    then obtain q rest where "t = q @ rest" "m = n + 1 + length q" "path' = splice_at (path[n := b]) (n + 1) q"
        "\<forall>b\<in>set q. path_byte b" "m < arwill_http_path_capacity" "rest \<noteq> [] \<longrightarrow> hd rest = chr CHR ''#''" by blast
    then show ?thesis using n "2.prems"(2) by (intro exI [of _ "b # q"] exI [of _ rest]) (simp add: splice_step)
  qed
qed (simp add: splice_at_def)

lemma splice_c_string:
  assumes "0 \<notin> set bs" "n = length bs" "n < length xs"
  shows "c_string ((splice_at xs 0 bs)[n := 0]) = bs"
proof -
  have "(splice_at xs 0 bs)[n := 0] = bs @ 0 # drop (Suc n) xs"
    using assms(2,3) by (simp add: splice_at_def list_update_append Cons_nth_drop_Suc [symmetric])
  moreover have "\<forall>b\<in>set bs. b \<noteq> 0" using assms(1) by blast
  ultimately show ?thesis by (simp add: c_string_def takeWhile_append2)
qed

lemma path_plain: "\<forall>b\<in>set p. path_byte b \<Longrightarrow> 0 \<notin> set p"
  by (auto simp: path_byte_def word_less_nat_alt)

lemma finish_sound:
  assumes f: "finish_url rest u = (Http_ok, u')" and len: "length (ur_path u) = arwill_http_path_capacity"
  shows "path_ok (c_string (ur_path u'))" "ur_host u' = ur_host u" "ur_port u' = ur_port u" "ur_scheme u' = ur_scheme u"
proof -
  define start where "start = (if rest = [] \<or> hd rest \<noteq> chr CHR ''/'' then [chr CHR ''/''] else [])"
  have st: "(if rest = [] \<or> hd rest \<noteq> chr CHR ''/'' then (1, (ur_path u)[0 := chr CHR ''/'']) else (0, ur_path u)) =
      (length start, splice_at (ur_path u) 0 start)"
    using len by (simp add: start_def splice_at_def upd_conv_take_nth_drop)
  obtain n path where p: "parse_path rest (length start) (splice_at (ur_path u) 0 start) = (True, n, path)"
    and u': "u' = u\<lparr>ur_path := path[n := 0]\<rparr>" and no: "\<not> (rest \<noteq> [] \<and> hd rest = chr CHR ''#'')"
    using f unfolding finish_url_def st by (auto simp: Let_def split: prod.splits bool.splits if_splits)
  have sl: "length start \<le> 1" "length (splice_at (ur_path u) 0 start) = arwill_http_path_capacity"
    using len by (simp_all add: start_def length_splice_at)
  obtain q frag where q: "rest = q @ frag" "n = length start + length q" "path = splice_at (splice_at (ur_path u) 0 start) (length start) q"
      "\<forall>b\<in>set q. path_byte b" "n < arwill_http_path_capacity" "frag \<noteq> [] \<longrightarrow> hd frag = chr CHR ''#''"
    using parse_path_sound [OF p sl(2)] sl(1) by auto
  have path: "path = splice_at (ur_path u) 0 (start @ q)"
    using q(3) splice_at_append [of 0 start "ur_path u" q] sl len by simp
  have "path_byte (chr CHR ''/'')" by (simp add: path_byte_def marks)
  then have bytes: "\<forall>b\<in>set (start @ q). path_byte b" using q(4) by (auto simp: start_def)
  have cs: "c_string (path[n := 0]) = start @ q"
    unfolding path by (rule splice_c_string) (use path_plain [OF bytes] q(2,5) len in simp_all)
  have "start @ q \<noteq> [] \<and> hd (start @ q) = chr CHR ''/''"
    using no q(1,6) by (cases q) (auto simp: start_def split: if_splits)
  moreover have "c_string (ur_path u') = start @ q" using cs by (simp add: u')
  ultimately show "path_ok (c_string (ur_path u'))" using bytes q(2,5) by (simp add: path_ok_def)
qed (use f in \<open>auto simp: finish_url_def Let_def split: prod.splits bool.splits if_splits\<close>)

lemma authority_sound:
  assumes f: "parse_authority rest u = (Http_ok, u')" and len: "length (ur_host u) = arwill_http_host_capacity"
    "length (ur_path u) = arwill_http_path_capacity" and port: "ur_port u \<noteq> 0"
  shows "url_ok u'"
proof -
  obtain n host rest1 where h: "parse_host rest 0 (ur_host u) = (True, n, host, rest1)"
    and n: "n \<noteq> 0" "host ! 0 \<noteq> chr CHR ''.''" "host ! (n - 1) \<noteq> chr CHR ''.''"
    using f by (auto simp: parse_authority_def split: prod.splits if_splits)
  obtain t where t: "n = length t" "host = splice_at (ur_host u) 0 t" "\<forall>b\<in>set t. valid_host_character b" "n < arwill_http_host_capacity"
    using parse_host_sound [OF h len(1)] by auto
  have "0 \<notin> set t" using t(3) url_character_plain by blast
  then have cs: "c_string (host[n := 0]) = t" unfolding t(2) by (rule splice_c_string) (use t len in simp_all)
  have ends: "host ! 0 = hd t" "host ! (n - 1) = last t"
    using t(1,2) n(1) by (simp_all add: splice_at_def nth_append hd_conv_nth last_conv_nth)
  have ok: "host_ok t" using t n ends by (simp add: host_ok_def)
  let ?u = "u\<lparr>ur_host := host[n := 0]\<rparr>"
  have "\<exists>rest2 p. finish_url rest2 (?u\<lparr>ur_port := p\<rparr>) = (Http_ok, u') \<and> p \<noteq> 0"
  proof (cases "rest1 \<noteq> [] \<and> hd rest1 = chr CHR '':''")
    case True
    then obtain p d rest2 where pp: "parse_port (tl rest1) 0 0 = Some (p, d, rest2)" "p \<noteq> 0"
      and fin: "finish_url rest2 (?u\<lparr>ur_port := ucast p\<rparr>) = (Http_ok, u')"
      using f h n by (auto simp: parse_authority_def Let_def split: option.splits if_splits)
    have "unat p \<le> 0xFFFF" using parse_port_bound [OF pp(1)] by simp
    then have "unat (ucast p :: u16) = unat p" by (simp add: unsigned_ucast_eq take_bit_nat_eq_self)
    then have "(ucast p :: u16) \<noteq> 0" using pp(2) by (metis unat_eq_0)
    then show ?thesis using fin by blast
  next
    case False
    then have "finish_url rest1 ?u = (Http_ok, u')" using f h n by (auto simp: parse_authority_def Let_def)
    then show ?thesis using port by (intro exI [of _ rest1] exI [of _ "ur_port u"]) simp
  qed
  then obtain rest2 p where fin: "finish_url rest2 (?u\<lparr>ur_port := p\<rparr>) = (Http_ok, u')" "p \<noteq> 0" by blast
  show ?thesis using finish_sound [OF fin(1)] fin(2) len(2) ok cs by (simp add: url_ok_def)
qed

lemma path_not_digit: "path_ok p \<Longrightarrow> p \<noteq> [] \<and> hd p = chr CHR ''/'' \<and> \<not> is_digit (hd p) \<and> host_end (hd p)"
  by (simp add: path_ok_def is_digit_def host_end_def marks)

lemma finish_accepts:
  assumes p: "path_ok p" and len: "length (ur_path u) = arwill_http_path_capacity"
  shows "\<exists>u'. finish_url p u = (Http_ok, u') \<and> c_string (ur_path u') = p \<and> ur_host u' = ur_host u \<and> ur_port u' = ur_port u \<and>
    ur_scheme u' = ur_scheme u"
proof -
  have b: "\<forall>b\<in>set p. path_byte b" "length p < arwill_http_path_capacity" "p \<noteq> []" "hd p = chr CHR ''/''"
    using p by (simp_all add: path_ok_def)
  have "chr CHR ''/'' \<noteq> chr CHR ''#''" by (simp add: marks)
  then have "finish_url p u = (Http_ok, u\<lparr>ur_path := (splice_at (ur_path u) 0 p)[length p := 0]\<rparr>)"
    using b parse_path_accepts [OF b(1) _ len, of 0] by (simp add: finish_url_def)
  moreover have "c_string ((splice_at (ur_path u) 0 p)[length p := 0]) = p"
    by (rule splice_c_string [OF path_plain [OF b(1)] refl]) (use b len in simp)
  ultimately show ?thesis by simp
qed

lemma authority_accepts:
  assumes h: "host_ok h" and p: "path_ok p" and len: "length (ur_host u) = arwill_http_host_capacity"
    "length (ur_path u) = arwill_http_path_capacity" and port: "q \<noteq> 0" and s: "s = [] \<and> ur_port u = q \<or> s = chr CHR '':'' # decimal (unat q)"
  shows "\<exists>u'. parse_authority (h @ s @ p) u = (Http_ok, u') \<and> c_string (ur_host u') = h \<and> c_string (ur_path u') = p \<and>
    ur_port u' = q \<and> ur_scheme u' = ur_scheme u"
proof -
  have hb: "h \<noteq> []" "\<forall>b\<in>set h. valid_host_character b" "hd h \<noteq> chr CHR ''.''" "last h \<noteq> chr CHR ''.''" "length h < arwill_http_host_capacity"
    using h by (simp_all add: host_ok_def)
  note pd = path_not_digit [OF p]
  have "s @ p = [] \<or> host_end (hd (s @ p))" using s pd by (auto simp: host_end_def)
  then have ph: "parse_host (h @ s @ p) 0 (ur_host u) = (True, length h, splice_at (ur_host u) 0 h, s @ p)"
    using parse_host_accepts [OF hb(2) _ _ len(1), of 0 "s @ p"] hb(5) by simp
  have ends: "splice_at (ur_host u) 0 h ! 0 = hd h" "splice_at (ur_host u) 0 h ! (length h - 1) = last h"
    using hb(1) by (simp_all add: splice_at_def nth_append hd_conv_nth last_conv_nth)
  let ?u = "u\<lparr>ur_host := (splice_at (ur_host u) 0 h)[length h := 0]\<rparr>"
  have cs: "c_string (ur_host ?u) = h"
    using splice_c_string [OF _ refl, of h "ur_host u"] url_character_plain hb(2,5) len(1) by auto
  have fin: "\<exists>u'. finish_url p (?u\<lparr>ur_port := q\<rparr>) = (Http_ok, u') \<and> c_string (ur_host u') = h \<and> c_string (ur_path u') = p \<and>
      ur_port u' = q \<and> ur_scheme u' = ur_scheme u"
    using finish_accepts [OF p, of "?u\<lparr>ur_port := q\<rparr>"] len(2) cs by auto
  show ?thesis
    using s
  proof (elim disjE conjE)
    assume e: "s = []" "ur_port u = q"
    have "?u\<lparr>ur_port := q\<rparr> = ?u" using e(2) by simp
    moreover have "parse_authority (h @ s @ p) u = finish_url p ?u"
      using ph hb ends pd e(1) by (simp add: parse_authority_def marks)
    ultimately show ?thesis using fin by simp
  next
    assume e: "s = chr CHR '':'' # decimal (unat q)"
    have "decimal_value (decimal (unat q)) = unat q" by (rule decimal_roundtrip)
    then obtain r where r: "parse_port (decimal (unat q) @ p) 0 0 = Some (r, length (decimal (unat q)), p)" "unat r = unat q"
      using parse_port_accepts [of "decimal (unat q)" "[]" 0 p 0] decimal_digits pd unat_less_16 [of q] by (auto simp: decimal_value_def)
    have "unat (ucast r :: u16) = unat q" using r(2) unat_less_16 [of q] by (simp add: unsigned_ucast_eq take_bit_nat_eq_self)
    then have "ucast r = q" "r \<noteq> 0" using r(2) port by (auto simp: word_unat_eq_iff)
    moreover have "parse_authority (h @ s @ p) u = finish_url p (?u\<lparr>ur_port := ucast r\<rparr>)"
      using ph hb ends r(1) e \<open>r \<noteq> 0\<close> by (simp add: parse_authority_def)
    ultimately show ?thesis using fin by simp
  qed
qed

text \<open>
  C39. A URL that is accepted names a host of letters, digits, dots and hyphens and a path without
  control characters, blanks or a fragment, within the sizes of their arrays, and a port: nothing
  that could end a line of the request it is put into.
\<close>

theorem http_url_sound:
  assumes "length (ur_host u) = arwill_http_host_capacity" and "length (ur_path u) = arwill_http_path_capacity"
    and "arwill_http_parse_url (Some t) (Some u) = (Http_ok, Some u')"
  shows "url_ok u' \<and> set (c_string (ur_host u')) \<inter> {0x0D, 0x0A, 0x20} = {} \<and> set (c_string (ur_path u')) \<inter> {0x0D, 0x0A, 0x20} = {}"
proof -
  obtain rest u0 where "parse_authority rest u0 = (Http_ok, u')" "ur_host u0 = ur_host u" "ur_path u0 = ur_path u" "ur_port u0 \<noteq> 0"
    using assms(3) unfolding arwill_http_parse_url_def
    by (fastforce simp: Let_def apsnd_def map_prod_def split: option.splits prod.splits if_splits)
  then have ok: "url_ok u'" using authority_sound [of rest u0 u'] assms(1,2) by simp
  then have "\<forall>b\<in>set (c_string (ur_host u')). 0x20 < b" "\<forall>b\<in>set (c_string (ur_path u')). 0x20 < b"
    using url_character_plain by (auto simp: url_ok_def host_ok_def path_ok_def path_byte_def)
  then show ?thesis using ok by (auto simp: word_less_nat_alt)
qed

text \<open>
  A URL printed from its parts, with the port where it is not the default one, is read back
  as these parts.
\<close>

lemma http_url_roundtrip:
  assumes "url_ok u" and "length (ur_host u0) = arwill_http_host_capacity" and "length (ur_path u0) = arwill_http_path_capacity"
  shows "\<exists>u'. arwill_http_parse_url (Some (url_text u)) (Some u0) = (Http_ok, Some u') \<and>
    c_string (ur_host u') = c_string (ur_host u) \<and> c_string (ur_path u') = c_string (ur_path u) \<and>
    ur_port u' = ur_port u \<and> ur_scheme u' = ur_scheme u"
proof -
  let ?h = "c_string (ur_host u)" and ?p = "c_string (ur_path u)"
  let ?s = "if ur_port u = default_port (ur_scheme u) then [] else chr CHR '':'' # decimal (unat (ur_port u))"
  let ?u = "u0\<lparr>ur_scheme := ur_scheme u, ur_port := default_port (ur_scheme u)\<rparr>"
  have ok: "host_ok ?h" "path_ok ?p" "ur_port u \<noteq> 0" using assms(1) by (simp_all add: url_ok_def)
  have a: "\<exists>u'. parse_authority (?h @ ?s @ ?p) ?u = (Http_ok, u') \<and> c_string (ur_host u') = ?h \<and> c_string (ur_path u') = ?p \<and>
      ur_port u' = ur_port u \<and> ur_scheme u' = ur_scheme ?u"
    by (rule authority_accepts [OF ok(1,2) _ _ ok(3)]) (use assms(2,3) in simp_all)
  have "0 \<notin> set (url_text u)"
    using decimal_digits [of 0 "unat (ur_port u)"] by (auto simp: url_text_def bytes_of_def marks is_digit_def)
  then have cs: "c_string (url_text u) = url_text u" by (rule c_string_id)
  have no: "skip_prefix (bytes_of ''http://'') (bytes_of ''https://'' @ r) = None" for r by (simp add: bytes_of_def)
  show ?thesis
    using a by (cases "ur_scheme u") (auto simp: arwill_http_parse_url_def cs, auto simp: url_text_def no default_port_def)
qed

section \<open>Examples\<close>

definition sample_url :: arwill_http_url where
  "sample_url = \<lparr>ur_host = bytes_of ''a.b'' @ replicate 61 0, ur_path = bytes_of ''/x'' @ replicate 254 0, ur_port = 8080,
     ur_scheme = Scheme_http\<rparr>"

lemma sample_url_parts: "c_string (ur_host sample_url) = bytes_of ''a.b''" "c_string (ur_path sample_url) = bytes_of ''/x''"
  by (simp_all add: sample_url_def c_string_def bytes_of_def)

lemma sample_url_ok: "url_ok sample_url"
  unfolding url_ok_def sample_url_parts
  by (simp add: host_ok_def path_ok_def path_byte_def valid_host_character_def marks bytes_of_def sample_url_def)


lemma http_url_roundtrip_witness:
  "\<exists>u'. arwill_http_parse_url (Some (url_text sample_url)) (Some sample_url) = (Http_ok, Some u') \<and> ur_port u' = 8080"
proof -
  have l: "length (ur_host sample_url) = 64" "length (ur_path sample_url) = 256" by (simp_all add: sample_url_def)
  from http_url_roundtrip [OF sample_url_ok l] show ?thesis by (auto simp: sample_url_def)
qed

theorem http_url_sound_witness:
  "\<exists>u'. arwill_http_parse_url (Some (bytes_of ''http://a'')) (Some sample_url) = (Http_ok, Some u') \<and> url_ok u'"
proof -
  have l: "length (ur_host sample_url) = 64" "length (ur_path sample_url) = 256" by (simp_all add: sample_url_def)
  have cs: "c_string (bytes_of ''http://a'') = bytes_of ''http://a''" by (simp add: c_string_def bytes_of_def)
  obtain u' where p: "arwill_http_parse_url (Some (bytes_of ''http://a'')) (Some sample_url) = (Http_ok, Some u')"
    by (simp add: arwill_http_parse_url_def cs)
      (simp add: bytes_of_def parse_authority_def finish_url_def host_end_def valid_host_character_def marks sample_url_def Let_def)
  then show ?thesis using http_url_sound [OF l p] by simp
qed

end
