(* ===== verification/Libc.thy ===== *)
theory Libc
  imports Address_Space
begin

text \<open>
  \<open>libs/libc/memory.c\<close>: the memory functions of programs. Pointers are addresses, memory is a
  function from addresses to bytes.
\<close>

definition memcpy :: "u64 \<Rightarrow> u64 \<Rightarrow> nat \<Rightarrow> ram \<Rightarrow> ram" where
  "memcpy destination source len m = foldl (\<lambda>m k. m(destination + of_nat k := m (source + of_nat k))) m [0..<len]"

definition memmove :: "u64 \<Rightarrow> u64 \<Rightarrow> nat \<Rightarrow> ram \<Rightarrow> ram" where
  "memmove destination source len m =
     (if destination < source then foldl (\<lambda>m k. m(destination + of_nat k := m (source + of_nat k))) m [0..<len]
      else if destination > source
      then foldl (\<lambda>m k. m(destination + of_nat (k - 1) := m (source + of_nat (k - 1)))) m (rev [1..<len + 1])
      else m)"

definition memset :: "u64 \<Rightarrow> u8 \<Rightarrow> nat \<Rightarrow> ram \<Rightarrow> ram" where
  "memset destination v len m = foldl (\<lambda>m k. m(destination + of_nat k := v)) m [0..<len]"

fun memcmp_from :: "nat \<Rightarrow> u64 \<Rightarrow> u64 \<Rightarrow> nat \<Rightarrow> ram \<Rightarrow> int" where
  "memcmp_from 0 left right index m = 0"
| "memcmp_from (Suc n) left right index m =
     (if m (left + of_nat index) \<noteq> m (right + of_nat index)
      then (if m (left + of_nat index) < m (right + of_nat index) then - 1 else 1)
      else memcmp_from n left right (index + 1) m)"

definition memcmp :: "u64 \<Rightarrow> u64 \<Rightarrow> nat \<Rightarrow> ram \<Rightarrow> int" where
  "memcmp left right len m = memcmp_from len left right 0 m"

text \<open>The loop of \<open>strlen\<close> does not end in a memory without a zero byte.\<close>

partial_function (option) strlen_from :: "u64 \<Rightarrow> nat \<Rightarrow> ram \<Rightarrow> nat option" where
  "strlen_from str len m = (if m (str + of_nat len) \<noteq> 0 then strlen_from str (len + 1) m else Some len)"

definition strlen :: "u64 \<Rightarrow> ram \<Rightarrow> nat option" where
  "strlen str m = strlen_from str 0 m"

text \<open>A block of memory that does not wrap around.\<close>

definition block :: "u64 \<Rightarrow> nat \<Rightarrow> bool" where
  "block p n \<longleftrightarrow> unat p + n \<le> 2 ^ 64"

definition contents :: "ram \<Rightarrow> u64 \<Rightarrow> nat \<Rightarrow> bytes" where
  "contents m p n = map (\<lambda>k. m (p + of_nat k)) [0..<n]"

definition elsewhere :: "u64 \<Rightarrow> nat \<Rightarrow> u64 \<Rightarrow> bool" where
  "elsewhere p n a \<longleftrightarrow> (\<forall>k<n. a \<noteq> p + of_nat k)"

lemma block_unat: "block p n \<Longrightarrow> k < n \<Longrightarrow> unat (p + of_nat k) = unat p + k"
proof -
  assume b: "block p n" "k < n"
  then have "k < 18446744073709551616" "unat p + k < 18446744073709551616" by (simp_all add: block_def)
  moreover from this have "unat (of_nat k :: u64) = k" by (simp add: unat_of_nat)
  ultimately show ?thesis using unat_add_64 [of p "of_nat k"] by simp
qed

lemma block_inject:
  assumes "block p n" "k < n" "l < n" "p + of_nat k = p + of_nat l"
  shows "k = l"
  using block_unat [OF assms(1,2)] block_unat [OF assms(1,3)] unfolding assms(4) by simp

text \<open>Copying byte by byte is right when no byte is read that was written before.\<close>

definition copy1 :: "u64 \<Rightarrow> u64 \<Rightarrow> ram \<Rightarrow> nat \<Rightarrow> ram" where
  "copy1 d s m k = m(d + of_nat k := m (s + of_nat k))"

lemma copy1_snoc:
  "foldl (copy1 d s) m (ks @ [x]) a =
     (if a = d + of_nat x then foldl (copy1 d s) m ks (s + of_nat x) else foldl (copy1 d s) m ks a)"
  unfolding foldl_append foldl.simps copy1_def [of d s _ x] by simp

lemma copy_bytes:
  assumes d: "block d n" and "distinct ks" "set ks \<subseteq> {..<n}"
    and "\<And>xs x ys y. ks = xs @ x # ys \<Longrightarrow> y \<in> set xs \<Longrightarrow> s + of_nat x \<noteq> d + of_nat y"
  shows "(\<forall>k\<in>set ks. foldl (copy1 d s) m ks (d + of_nat k) = m (s + of_nat k)) \<and>
    (\<forall>a. (\<forall>k\<in>set ks. a \<noteq> d + of_nat k) \<longrightarrow> foldl (copy1 d s) m ks a = m a)"
  using assms(2-)
proof (induction ks rule: rev_induct)
  case (snoc x ks)
  let ?m = "foldl (copy1 d s) m ks"
  have pre: "s + of_nat y \<noteq> d + of_nat z" if "ks = xs @ y # ys" "z \<in> set xs" for xs y ys z
    by (rule snoc.prems(3) [of xs y "ys @ [x]"]) (use that in simp_all)
  have dk: "distinct ks" "set ks \<subseteq> {..<n}" "x \<notin> set ks" "x < n" using snoc.prems by simp_all
  have ih: "\<forall>k\<in>set ks. ?m (d + of_nat k) = m (s + of_nat k)"
    "\<forall>a. (\<forall>k\<in>set ks. a \<noteq> d + of_nat k) \<longrightarrow> ?m a = m a"
    using snoc.IH [OF dk(1,2)] pre by blast+
  have r: "?m (s + of_nat x) = m (s + of_nat x)"
    using ih(2) snoc.prems(3) [of ks x "[]"] by simp
  have ne: "d + of_nat k \<noteq> d + of_nat x" if "k \<in> set ks" for k
    using block_inject [OF d, of k x] dk that by auto
  show ?case unfolding copy1_snoc using ih r ne by auto
qed simp

definition moved :: "u64 \<Rightarrow> u64 \<Rightarrow> nat \<Rightarrow> ram \<Rightarrow> ram \<Rightarrow> bool" where
  "moved d s n m m' \<longleftrightarrow> contents m' d n = contents m s n \<and> (\<forall>a. elsewhere d n a \<longrightarrow> m' a = m a)"

lemma moved_all:
  assumes "block d n" "distinct ks" "set ks = {..<n}"
    "\<And>xs x ys y. ks = xs @ x # ys \<Longrightarrow> y \<in> set xs \<Longrightarrow> s + of_nat x \<noteq> d + of_nat y"
  shows "moved d s n m (foldl (copy1 d s) m ks)"
proof -
  note c = copy_bytes [OF assms(1,2) _ assms(4)]
  have "foldl (copy1 d s) m ks (d + of_nat k) = m (s + of_nat k)" if "k < n" for k using c assms(3) that by auto
  moreover have "foldl (copy1 d s) m ks a = m a" if "elsewhere d n a" for a
    using c assms(3) that by (auto simp: elsewhere_def)
  ultimately show ?thesis by (simp add: moved_def contents_def)
qed

lemma upt_split: "[0..<n] = xs @ x # ys \<Longrightarrow> y \<in> set xs \<Longrightarrow> y < x \<and> x < n"
proof -
  assume e: "[0..<n] = xs @ x # ys" "y \<in> set xs"
  have "sorted_wrt (<) (xs @ x # ys)" "set (xs @ x # ys) = {..<n}" using e(1) sorted_wrt_upt [of 0 n] by (simp, metis atLeast_upt)
  then show ?thesis using e(2) by (auto simp: sorted_wrt_append)
qed

lemma moved_up:
  assumes d: "block d n" and s: "block s n" and o: "\<not> (s < d \<and> unat d < unat s + n)"
  shows "moved d s n m (foldl (copy1 d s) m [0..<n])"
proof (rule moved_all [OF d])
  fix xs x ys y assume "[0..<n] = xs @ x # ys" "y \<in> set xs"
  then have "y < x" "x < n" using upt_split by blast+
  then have "unat (s + of_nat x) = unat s + x" "unat (d + of_nat y) = unat d + y" using block_unat [OF s] block_unat [OF d] by simp_all
  moreover have "unat s + x \<noteq> unat d + y"
    using o \<open>y < x\<close> \<open>x < n\<close> by (auto simp: word_less_nat_alt)
  ultimately show "s + of_nat x \<noteq> d + of_nat y" by metis
qed (auto simp: atLeast0LessThan)

lemma moved_down:
  assumes d: "block d n" and s: "block s n" and o: "s < d"
  shows "moved d s n m (foldl (copy1 d s) m (rev [0..<n]))"
proof (rule moved_all [OF d])
  fix xs x ys y assume e: "rev [0..<n] = xs @ x # ys" "y \<in> set xs"
  have "[0..<n] = rev ys @ x # rev xs" using arg_cong [OF e(1), of rev] by simp
  then have "sorted_wrt (<) (rev ys @ x # rev xs)" "set (rev ys @ x # rev xs) = {..<n}"
    using sorted_wrt_upt [of 0 n] by (simp, metis atLeast_upt)
  then have "x < y" "y < n" using e(2) by (auto simp: sorted_wrt_append)
  then have "unat (s + of_nat x) = unat s + x" "unat (d + of_nat y) = unat d + y" using block_unat [OF s] block_unat [OF d] by simp_all
  then show "s + of_nat x \<noteq> d + of_nat y" using o \<open>x < y\<close> by (metis add_less_mono less_irrefl word_less_nat_alt)
qed (auto simp: atLeast0LessThan)

lemma moved_same: "moved d d n m m"
  by (simp add: moved_def)

lemma memcpy_eq: "memcpy d s n m = foldl (copy1 d s) m [0..<n]"
  by (simp add: memcpy_def copy1_def [abs_def])

lemma foldl_shift: "foldl (\<lambda>m k. f m (k - 1)) m (map Suc ks) = foldl f m ks"
  by (induction ks arbitrary: m) simp_all

lemma memmove_down_eq:
  "foldl (\<lambda>m k. m(d + of_nat (k - 1) := m (s + of_nat (k - 1)))) m (rev [1..<n + 1]) = foldl (copy1 d s) m (rev [0..<n])"
proof -
  have "rev [1..<n + 1] = map Suc (rev [0..<n])" by (simp add: rev_map [symmetric] map_Suc_upt)
  then show ?thesis using foldl_shift [of "copy1 d s" m "rev [0..<n]"] by (simp add: copy1_def [abs_def])
qed

lemma memmove_eq:
  "memmove d s n m = (if d < s then memcpy d s n m else if d > s then foldl (copy1 d s) m (rev [0..<n]) else m)"
  unfolding memmove_def memmove_down_eq memcpy_def ..

text \<open>Filling, comparing and measuring.\<close>

lemma memset_snoc: "memset d v (Suc n) m = (memset d v n m)(d + of_nat n := v)"
  by (simp add: memset_def)

lemma memset_at: "k < n \<Longrightarrow> memset d v n m (d + of_nat k) = v"
proof (induction n)
  case (Suc n)
  then show ?case by (cases "k = n") (simp_all add: memset_snoc)
qed simp

lemma memset_elsewhere: "elsewhere d n a \<Longrightarrow> memset d v n m a = m a"
  by (induction n) (simp_all add: memset_snoc elsewhere_def, simp add: memset_def)

lemma memset_fills: "contents (memset d v n m) d n = replicate n v"
  by (rule nth_equalityI) (simp_all add: contents_def memset_at)

lemma contents_from:
  "map (\<lambda>k. m (p + of_nat k)) [i..<i + Suc n] = m (p + of_nat i) # map (\<lambda>k. m (p + of_nat k)) [i + 1..<i + 1 + n]"
  by (subst upt_conv_Cons) simp_all

lemma memcmp_from_zero:
  "memcmp_from n l r i m = 0 \<longleftrightarrow> map (\<lambda>k. m (l + of_nat k)) [i..<i + n] = map (\<lambda>k. m (r + of_nat k)) [i..<i + n]"
proof (induction n arbitrary: i)
  case (Suc n)
  show ?case unfolding contents_from using Suc.IH [of "i + 1"] by simp
qed simp

lemma memcmp_zero: "memcmp l r n m = 0 \<longleftrightarrow> contents m l n = contents m r n"
  using memcmp_from_zero [of n l r 0 m] by (simp add: memcmp_def contents_def)

lemma strlen_from_string:
  "\<forall>k<n. m (p + of_nat (i + k)) \<noteq> 0 \<Longrightarrow> m (p + of_nat (i + n)) = 0 \<Longrightarrow> strlen_from p i m = Some (i + n)"
proof (induction n arbitrary: i)
  case 0
  then show ?case by (subst strlen_from.simps) simp
next
  case (Suc n)
  have "strlen_from p (i + 1) m = Some (i + 1 + n)"
  proof (rule Suc.IH)
    show "\<forall>k<n. m (p + of_nat (i + 1 + k)) \<noteq> 0" using Suc.prems(1) by (metis Suc_less_eq add_Suc_shift Suc_eq_plus1)
    show "m (p + of_nat (i + 1 + n)) = 0" using Suc.prems(2) by (simp only: add_Suc_shift Suc_eq_plus1 add.assoc add.commute [of n 1])
  qed
  then show ?case using Suc.prems(1) by (subst strlen_from.simps) (auto dest: spec [of _ 0])
qed

lemma strlen_string: "0 \<notin> set (contents m p n) \<Longrightarrow> m (p + of_nat n) = 0 \<Longrightarrow> strlen p m = Some n"
  using strlen_from_string [of n m p 0] by (auto simp: strlen_def contents_def image_iff)

text \<open>
  C40. \<open>memmove\<close> moves a block to any other place: the destination holds what the source held
  before, however the two overlap, and no other byte changes; \<open>memcpy\<close> does so when the
  destination does not lie inside the source.
\<close>

theorem memmove_moves:
  assumes "block d n" and "block s n"
  shows "moved d s n m (memmove d s n m) \<and>
    (\<not> (s < d \<and> unat d < unat s + n) \<longrightarrow> moved d s n m (memcpy d s n m))"
proof -
  have cpy: "moved d s n m (memcpy d s n m)" if "\<not> (s < d \<and> unat d < unat s + n)"
    using moved_up [OF assms that] by (simp add: memcpy_eq)
  consider "d < s" | "s < d" | "d = s" by (rule linorder_cases)
  then have "moved d s n m (memmove d s n m)"
  proof cases
    case 1
    then have "\<not> (s < d \<and> unat d < unat s + n)" using less_asym [of d s] by blast
    then show ?thesis using cpy 1 by (simp add: memmove_eq)
  next
    case 2
    then show ?thesis using moved_down [OF assms 2, of m] by (simp only: memmove_eq if_not_P [OF less_not_sym [OF 2]] if_True)
  next
    case 3
    then show ?thesis by (simp add: memmove_eq moved_same)
  qed
  then show ?thesis using cpy by blast
qed

theorem memmove_moves_witness:
  "moved 101 100 3 (\<lambda>a. ucast a) (memmove 101 100 3 (\<lambda>a. ucast a))"
  using memmove_moves [of 101 3 100 "\<lambda>a. ucast a"] by (simp add: block_def)

end
