(* ===== verification/Service.thy ===== *)
theory Service
  imports Config_Store Log Ipv4_Properties
begin

text \<open>
  \<^verbatim>\<open>kernel/service.c\<close>: the remote console as a service. The manager holds the stack, the stream of
  the console, the settings and the log by pointer; here it holds the structures themselves, and the
  stream is the number of its endpoint in the stack, as in \<open>Ipv4\<close>. A null pointer is \<open>None\<close>; the
  manager itself is never null.
\<close>

section \<open>Definitions\<close>

datatype arwill_service_state = Service_stopped | Service_running | Service_failed | Service_unavailable

record ('n, 'k, 'f, 'g) arwill_service_manager =
  sm_ipv4 :: "('n, 'k) arwill_ipv4_stack option"
  sm_remote_stream :: "nat option"
  sm_config :: "'f arwill_config option"
  sm_log :: "'g arwill_event_log option"
  sm_remote_console_state :: arwill_service_state

definition record_service_event ::
    "('n, 'k, 'f, 'g) arwill_service_manager \<Rightarrow> arwill_log_severity \<Rightarrow> arwill_log_code \<Rightarrow>
     ('n, 'k, 'f, 'g) arwill_service_manager" where
  "record_service_event manager severity code =
     manager\<lparr>sm_log := arwill_event_log_record (sm_log manager) severity Log_service code
       (case sm_config manager of None \<Rightarrow> 0 | Some config \<Rightarrow> ucast (cfg_remote_port config)) 0\<rparr>"

text \<open>\<open>arwill_tcp_stream_stop(manager->remote_stream)\<close>, which does nothing for a null stream.\<close>

definition stop_remote_stream ::
    "('n, 'k, 'f, 'g) arwill_service_manager \<Rightarrow> ('n, 'k, 'f, 'g) arwill_service_manager" where
  "stop_remote_stream manager =
     (case (sm_ipv4 manager, sm_remote_stream manager) of
        (Some ipv4, Some stream) \<Rightarrow>
          manager\<lparr>sm_ipv4 := Some (with_endpoint stream (update_stream arwill_tcp_stream_stop) ipv4)\<rparr>
      | _ \<Rightarrow> manager)"

definition start_remote_console ::
    "('n, 'k, 'f, 'g) arwill_service_manager \<Rightarrow> arwill_log_code \<Rightarrow>
     bool \<times> ('n, 'k, 'f, 'g) arwill_service_manager" where
  "start_remote_console manager code =
     (case (sm_ipv4 manager, sm_remote_stream manager, sm_config manager) of
        (Some ipv4, Some stream, Some config) \<Rightarrow>
          if sm_remote_console_state manager = Service_unavailable then (False, manager)
          else
            (case (if \<not> cfg_valid config then (False, ipv4)
                   else arwill_ipv4_tcp_listen ipv4 stream (cfg_remote_port config)) of
               (listening, ipv4) \<Rightarrow>
                 let manager = manager\<lparr>sm_ipv4 := Some ipv4\<rparr>
                 in if \<not> listening
                    then (False, record_service_event
                           (manager\<lparr>sm_remote_console_state := Service_failed\<rparr>) Log_error code)
                    else (True, record_service_event
                           (manager\<lparr>sm_remote_console_state := Service_running\<rparr>) Log_info code))
      | _ \<Rightarrow> (False, manager))"

definition arwill_service_manager_init ::
    "('n, 'k) arwill_ipv4_stack option \<Rightarrow> nat option \<Rightarrow> 'f arwill_config option \<Rightarrow>
     'g arwill_event_log option \<Rightarrow> bool \<Rightarrow> ('n, 'k, 'f, 'g) arwill_service_manager" where
  "arwill_service_manager_init ipv4 remote_stream config log network_ready =
     (let manager = \<lparr>sm_ipv4 = ipv4, sm_remote_stream = remote_stream, sm_config = config,
            sm_log = log, sm_remote_console_state = Service_stopped\<rparr>
      in if \<not> network_ready \<or> ipv4 = None
         then manager\<lparr>sm_remote_console_state := Service_unavailable\<rparr>
         else if (case config of None \<Rightarrow> False | Some c \<Rightarrow> cfg_valid c \<and> cfg_remote_enabled c)
         then snd (start_remote_console manager Log_service_started)
         else record_service_event (stop_remote_stream manager) Log_info Log_service_stopped)"

definition arwill_service_remote_console_start ::
    "('n, 'k, 'f, 'g) arwill_service_manager \<Rightarrow> bool \<times> ('n, 'k, 'f, 'g) arwill_service_manager" where
  "arwill_service_remote_console_start manager =
     (if sm_remote_console_state manager = Service_running then (True, manager)
      else start_remote_console manager Log_service_started)"

definition arwill_service_remote_console_stop ::
    "('n, 'k, 'f, 'g) arwill_service_manager \<Rightarrow> bool \<times> ('n, 'k, 'f, 'g) arwill_service_manager" where
  "arwill_service_remote_console_stop manager =
     (if sm_remote_console_state manager = Service_unavailable \<or> sm_remote_stream manager = None
      then (False, manager)
      else if sm_remote_console_state manager \<noteq> Service_stopped
      then (True, record_service_event
              ((stop_remote_stream manager)\<lparr>sm_remote_console_state := Service_stopped\<rparr>)
              Log_info Log_service_stopped)
      else (True, manager))"

definition arwill_service_remote_console_restart ::
    "('n, 'k, 'f, 'g) arwill_service_manager \<Rightarrow> bool \<times> ('n, 'k, 'f, 'g) arwill_service_manager" where
  "arwill_service_remote_console_restart manager =
     (case sm_config manager of
        None \<Rightarrow> (False, manager)
      | Some config \<Rightarrow>
          if sm_remote_console_state manager = Service_unavailable \<or> sm_remote_stream manager = None
          then (False, manager)
          else
            let manager = (stop_remote_stream manager)\<lparr>sm_remote_console_state := Service_stopped\<rparr>;
                (loaded, config) = arwill_config_load config;
                manager = manager\<lparr>sm_config := Some config\<rparr>
            in if \<not> loaded
               then (False, record_service_event
                      (manager\<lparr>sm_remote_console_state := Service_failed\<rparr>)
                      Log_error Log_service_restarted)
               else start_remote_console manager Log_service_restarted)"

fun arwill_service_state_name :: "arwill_service_state \<Rightarrow> bytes" where
  "arwill_service_state_name Service_stopped = bytes_of ''stopped''"
| "arwill_service_state_name Service_running = bytes_of ''running''"
| "arwill_service_state_name Service_failed = bytes_of ''failed''"
| "arwill_service_state_name Service_unavailable = bytes_of ''unavailable''"

section \<open>The endpoint of the console\<close>

text \<open>
  The manager of a stack whose first endpoint belongs to the console and is bound to port \<open>p\<close>.
\<close>

definition console_stack :: "u16 \<Rightarrow> ('n, 'k) arwill_ipv4_stack \<Rightarrow> bool" where
  "console_stack p s \<longleftrightarrow> stack_ok s \<and> p \<noteq> 0 \<and> ep_allocated (endpoint_at s 0) \<and> ep_bound_port (endpoint_at s 0) = p"

definition console_manager ::
    "u16 \<Rightarrow> ('n, 'k, 'f, 'g) arwill_service_manager \<Rightarrow> ('n, 'k) arwill_ipv4_stack \<Rightarrow> 'f arwill_config \<Rightarrow> bool" where
  "console_manager p m s c \<longleftrightarrow> sm_ipv4 m = Some s \<and> sm_remote_stream m = Some 0 \<and> sm_config m = Some c \<and>
     sm_remote_console_state m \<noteq> Service_unavailable \<and> console_stack p s"

abbreviation console_stream :: "('n, 'k) arwill_ipv4_stack \<Rightarrow> arwill_tcp_stream" where
  "console_stream s \<equiv> ep_stream (endpoint_at s 0)"

definition serves :: "u16 \<Rightarrow> ('n, 'k) arwill_ipv4_stack \<Rightarrow> bool" where
  "serves p s \<longleftrightarrow> st_listening (console_stream s) \<and> ln_port (st_listener (console_stream s)) = p \<and>
     ln_state (st_listener (console_stream s)) = Tcp_listen"

definition others_same :: "('n, 'k) arwill_ipv4_stack \<Rightarrow> ('n, 'k) arwill_ipv4_stack \<Rightarrow> bool" where
  "others_same s s' \<longleftrightarrow> (\<forall>i. i \<noteq> 0 \<longrightarrow> endpoint_at s' i = endpoint_at s i) \<and> ip_udp_endpoints s' = ip_udp_endpoints s"

lemma console_index: "console_stack p s \<Longrightarrow> endpoint_for_stream s 0 = Some 0"
  by (simp add: console_stack_def endpoint_for_stream_def upt_rec)

lemma console_length: "console_stack p s \<Longrightarrow> 0 < length (ip_endpoints s)"
  by (simp add: console_stack_def stack_ok_def)

lemma listen_endpoint_serves:
  "port \<noteq> 0 \<Longrightarrow> st_listening (ep_stream (listen_endpoint port e)) \<and>
     ln_port (st_listener (ep_stream (listen_endpoint port e))) = port \<and>
     ln_state (st_listener (ep_stream (listen_endpoint port e))) = Tcp_listen"
  by (simp add: listen_endpoint_def Let_def arwill_tcp_stream_listen_def arwill_tcp_listener_init_def)

lemma listen_endpoint_owner:
  "ep_allocated (listen_endpoint port e) = ep_allocated e" "ep_bound_port (listen_endpoint port e) = port"
  by (simp_all add: listen_endpoint_def Let_def reset_tcp_stream_def)

text \<open>The console listens on the port it was bound to, and on no other.\<close>

lemma console_listen:
  assumes c: "console_stack p s" and l: "arwill_ipv4_tcp_listen s 0 q = (ok, s')"
  shows "ok \<longleftrightarrow> q = p" "console_stack p s'" "others_same s s'" "ok \<Longrightarrow> serves p s'"
    "\<not> ok \<Longrightarrow> s' = s"
proof -
  have p: "p \<noteq> 0" "ep_bound_port (endpoint_at s 0) = p" using c by (simp_all add: console_stack_def)
  have e: "(ok, s') = (if q = p then (True, with_endpoint 0 (listen_endpoint p) s) else (False, s))"
    using l [symmetric] p by (auto simp: arwill_ipv4_tcp_listen_def console_index [OF c])
  show "ok \<longleftrightarrow> q = p" and "\<not> ok \<Longrightarrow> s' = s" using e by (auto split: if_splits)
  have at: "endpoint_at s' i = (if q = p \<and> i = 0 then listen_endpoint p (endpoint_at s 0) else endpoint_at s i)" for i
    using e endpoint_at_with_endpoint [OF console_length [OF c]] by (auto split: if_splits)
  have "stack_ok s'" using tcp_listen_ok [of s 0 q] l c by (simp add: console_stack_def)
  then show "console_stack p s'" using c at p by (simp add: console_stack_def listen_endpoint_owner)
  show "others_same s s'" using e at by (auto simp: others_same_def split: if_splits)
  show "ok \<Longrightarrow> serves p s'" using e at listen_endpoint_serves [OF p(1)] by (auto simp: serves_def split: if_splits)
qed

lemma console_stop:
  assumes c: "console_stack p s" and s': "s' = with_endpoint 0 (update_stream arwill_tcp_stream_stop) s"
  shows "console_stack p s'" "others_same s s'" "\<not> st_listening (console_stream s')"
proof -
  have at: "endpoint_at s' i = (if i = 0 then update_stream arwill_tcp_stream_stop (endpoint_at s 0) else endpoint_at s i)" for i
    unfolding s' using endpoint_at_with_endpoint [OF console_length [OF c]] by simp
  have k: "keeps (endpoint_at s 0) (update_stream arwill_tcp_stream_stop (endpoint_at s 0))" by (rule stream_stop_keeps)
  have "stack_ok s'" unfolding s' by (rule stack_ok_with_endpoint) (use c k in \<open>simp_all add: console_stack_def\<close>)
  then show "console_stack p s'" using c k at by (simp add: console_stack_def keeps_def)
  show "others_same s s'" using at by (simp add: others_same_def) (simp add: s')
  show "\<not> st_listening (console_stream s')" by (simp add: at update_stream_def arwill_tcp_stream_stop_def)
qed

lemma others_same_refl [simp]: "others_same s s"
  by (simp add: others_same_def)

lemma others_same_trans: "others_same s s1 \<Longrightarrow> others_same s1 s' \<Longrightarrow> others_same s s'"
  by (simp add: others_same_def)

lemma record_service_fields [simp]:
  "sm_ipv4 (record_service_event m sv cd) = sm_ipv4 m"
  "sm_remote_stream (record_service_event m sv cd) = sm_remote_stream m"
  "sm_config (record_service_event m sv cd) = sm_config m"
  "sm_remote_console_state (record_service_event m sv cd) = sm_remote_console_state m"
  by (simp_all add: record_service_event_def)

section \<open>The operations\<close>

lemma start_console:
  assumes c: "console_manager p m s c" and st: "start_remote_console m cd = (ok, m')"
  obtains s' where "console_manager p m' s' c" "others_same s s'" "ok \<longleftrightarrow> cfg_valid c \<and> cfg_remote_port c = p"
    "ok \<Longrightarrow> serves p s' \<and> sm_remote_console_state m' = Service_running"
    "\<not> ok \<Longrightarrow> s' = s \<and> sm_remote_console_state m' = Service_failed"
proof -
  have m: "sm_ipv4 m = Some s" "sm_remote_stream m = Some 0" "sm_config m = Some c"
      "sm_remote_console_state m \<noteq> Service_unavailable" and cs: "console_stack p s"
    using c by (simp_all add: console_manager_def)
  obtain lk s1 where l: "arwill_ipv4_tcp_listen s 0 (cfg_remote_port c) = (lk, s1)" by fastforce
  note cl = console_listen [OF cs l]
  show ?thesis
  proof (cases "cfg_valid c \<and> lk")
    case True
    then have "ok" "sm_ipv4 m' = Some s1" "sm_remote_stream m' = Some 0" "sm_config m' = Some c"
        "sm_remote_console_state m' = Service_running"
      using st m l by (auto simp: start_remote_console_def Let_def)
    then show ?thesis using True cl by (intro that [of s1]) (simp_all add: console_manager_def)
  next
    case False
    then have "\<not> ok" "sm_ipv4 m' = Some s" "sm_remote_stream m' = Some 0" "sm_config m' = Some c"
        "sm_remote_console_state m' = Service_failed"
      using st m l cl(5) by (auto simp: start_remote_console_def Let_def split: if_splits)
    then show ?thesis using False cl(1) cs by (intro that [of s]) (auto simp: console_manager_def)
  qed
qed

lemma stop_console_stream:
  assumes c: "console_manager p m s c"
  obtains s' where "console_manager p (stop_remote_stream m) s' c" "others_same s s'"
    "\<not> st_listening (console_stream s')"
    "sm_remote_console_state (stop_remote_stream m) = sm_remote_console_state m"
proof -
  have cs: "console_stack p s" using c by (simp add: console_manager_def)
  show ?thesis
    using c console_stop [OF cs refl]
    by (intro that [of "with_endpoint 0 (update_stream arwill_tcp_stream_stop) s"])
       (simp_all add: console_manager_def stop_remote_stream_def)
qed

lemma start_service:
  assumes c: "console_manager p m s c" and st: "arwill_service_remote_console_start m = (ok, m')"
  obtains s' where "console_manager p m' s' c" "others_same s s'"
    "ok \<longleftrightarrow> sm_remote_console_state m = Service_running \<or> (cfg_valid c \<and> cfg_remote_port c = p)"
    "ok \<Longrightarrow> sm_remote_console_state m' = Service_running \<and>
       (if sm_remote_console_state m = Service_running then m' = m else serves p s')"
    "\<not> ok \<Longrightarrow> s' = s \<and> sm_remote_console_state m' = Service_failed"
proof (cases "sm_remote_console_state m = Service_running")
  case True
  then show ?thesis using c st by (intro that [of s]) (auto simp: arwill_service_remote_console_start_def)
next
  case False
  then have "start_remote_console m Log_service_started = (ok, m')"
    using st by (simp add: arwill_service_remote_console_start_def)
  from start_console [OF c this] show ?thesis using False that by metis
qed

lemma stop_service:
  assumes c: "console_manager p m s c" and st: "arwill_service_remote_console_stop m = (ok, m')"
  obtains s' where "console_manager p m' s' c" "others_same s s'" ok
    "sm_remote_console_state m' = Service_stopped"
    "sm_remote_console_state m \<noteq> Service_stopped \<Longrightarrow> \<not> st_listening (console_stream s')"
proof (cases "sm_remote_console_state m = Service_stopped")
  case True
  then show ?thesis
    using c st by (intro that [of s]) (auto simp: arwill_service_remote_console_stop_def console_manager_def)
next
  case False
  obtain s' where s': "console_manager p (stop_remote_stream m) s' c" "others_same s s'" "\<not> st_listening (console_stream s')"
    using stop_console_stream [OF c] by metis
  have "ok \<and> m' = record_service_event ((stop_remote_stream m)\<lparr>sm_remote_console_state := Service_stopped\<rparr>)
      Log_info Log_service_stopped"
    using st False c by (auto simp: arwill_service_remote_console_stop_def console_manager_def)
  then show ?thesis using s' by (intro that [of s']) (simp_all add: console_manager_def)
qed

lemma config_load_valid: "arwill_config_load c = (True, c') \<Longrightarrow> cfg_valid c'"
  by (auto simp: arwill_config_load_def Let_def set_defaults_def split: prod.splits option.splits if_splits)

lemma restart_service:
  assumes c: "console_manager p m s c" and st: "arwill_service_remote_console_restart m = (ok, m')"
    and ld: "arwill_config_load c = (loaded, c')"
  obtains s' where "console_manager p m' s' c'" "others_same s s'" "ok \<longleftrightarrow> loaded \<and> cfg_remote_port c' = p"
    "ok \<Longrightarrow> serves p s' \<and> sm_remote_console_state m' = Service_running"
    "\<not> ok \<Longrightarrow> \<not> st_listening (console_stream s') \<and> sm_remote_console_state m' = Service_failed"
proof -
  obtain s1 where s1: "console_manager p (stop_remote_stream m) s1 c" "others_same s s1" "\<not> st_listening (console_stream s1)"
    using stop_console_stream [OF c] by metis
  let ?m = "(stop_remote_stream m)\<lparr>sm_remote_console_state := Service_stopped, sm_config := Some c'\<rparr>"
  have m1: "console_manager p ?m s1 c'" using s1(1) by (simp add: console_manager_def)
  have r: "(ok, m') = (if \<not> loaded then (False, record_service_event (?m\<lparr>sm_remote_console_state := Service_failed\<rparr>)
      Log_error Log_service_restarted) else start_remote_console ?m Log_service_restarted)"
    using st c ld by (auto simp: arwill_service_remote_console_restart_def console_manager_def Let_def)
  show ?thesis
  proof (cases loaded)
    case True
    then have "cfg_valid c'" using ld by (intro config_load_valid [of c]) simp
    from r True have "start_remote_console ?m Log_service_restarted = (ok, m')" by simp
    from start_console [OF m1 this] obtain s' where "console_manager p m' s' c'" "others_same s1 s'"
        "ok \<longleftrightarrow> cfg_valid c' \<and> cfg_remote_port c' = p"
        "ok \<Longrightarrow> serves p s' \<and> sm_remote_console_state m' = Service_running"
        "\<not> ok \<Longrightarrow> s' = s1 \<and> sm_remote_console_state m' = Service_failed" by metis
    then show ?thesis using True \<open>cfg_valid c'\<close> s1(3) others_same_trans [OF s1(2)] by (intro that [of s']) auto
  next
    case False
    then show ?thesis using r m1 s1(2,3) by (intro that [of s1]) (simp_all add: console_manager_def)
  qed
qed

section \<open>The service in the running system\<close>

text \<open>
  From the boot on: the three commands of the shell, polls of the stack, calls of programs on
  endpoints of their own, new settings, and events of other parts in the log.
\<close>

inductive service_reachable :: "u16 \<Rightarrow> ('n, 'k, 'f, 'g) arwill_service_manager \<Rightarrow> bool" for p :: u16 where
  boot: "raw_stack s0 \<Longrightarrow> arwill_ipv4_init s0 network clock p = (True, s) \<Longrightarrow>
    service_reachable p (arwill_service_manager_init (Some s) (Some (arwill_ipv4_remote_stream s)) (Some c) log True)"
| start: "service_reachable p m \<Longrightarrow> service_reachable p (snd (arwill_service_remote_console_start m))"
| stop: "service_reachable p m \<Longrightarrow> service_reachable p (snd (arwill_service_remote_console_stop m))"
| restart: "service_reachable p m \<Longrightarrow> service_reachable p (snd (arwill_service_remote_console_restart m))"
| poll: "service_reachable p m \<Longrightarrow> sm_ipv4 m = Some s \<Longrightarrow>
    service_reachable p (m\<lparr>sm_ipv4 := Some (snd (arwill_ipv4_poll_tcp s))\<rparr>)"
| programs: "service_reachable p m \<Longrightarrow> sm_ipv4 m = Some s \<Longrightarrow> ipv4_step s s' \<Longrightarrow>
    endpoint_at s' 0 = endpoint_at s 0 \<Longrightarrow> service_reachable p (m\<lparr>sm_ipv4 := Some s'\<rparr>)"
| settings: "service_reachable p m \<Longrightarrow> service_reachable p (m\<lparr>sm_config := Some c\<rparr>)"
| events: "service_reachable p m \<Longrightarrow> service_reachable p (m\<lparr>sm_log := log\<rparr>)"

lemma init_console:
  assumes "raw_stack s0" and i: "arwill_ipv4_init s0 network clock p = (True, s)"
  shows "console_stack p s"
proof -
  have "length (ip_endpoints s0) = 4" using assms(1) by (simp add: raw_stack_def)
  then have "p \<noteq> 0 \<and> ep_allocated (endpoint_at s 0) \<and> ep_bound_port (endpoint_at s 0) = p"
    using i by (auto simp: arwill_ipv4_init_def Let_def endpoint_at_def split: if_splits prod.splits)
  then show ?thesis using init_ok [OF assms] by (simp add: console_stack_def)
qed

lemma poll_console: "console_stack p s \<Longrightarrow> console_stack p (snd (arwill_ipv4_poll_tcp s))"
  using poll_evolves [of s] by (auto simp: console_stack_def evolves_def same_owners_def)

lemma boot_console:
  assumes cs: "console_stack p s"
  shows "\<exists>s'. console_manager p (arwill_service_manager_init (Some s) (Some 0) (Some c) log True) s' c"
proof -
  let ?m = "\<lparr>sm_ipv4 = Some s, sm_remote_stream = Some 0, sm_config = Some c, sm_log = log,
    sm_remote_console_state = Service_stopped\<rparr>"
  have m: "console_manager p ?m s c" using cs by (simp add: console_manager_def)
  show ?thesis
  proof (cases "cfg_valid c \<and> cfg_remote_enabled c")
    case True
    obtain ok m' where st: "start_remote_console ?m Log_service_started = (ok, m')" by fastforce
    from start_console [OF m st] obtain s' where "console_manager p m' s' c" by metis
    then show ?thesis using True st by (intro exI [of _ s']) (simp add: arwill_service_manager_init_def Let_def)
  next
    case False
    obtain s' where "console_manager p (stop_remote_stream ?m) s' c" using stop_console_stream [OF m] by metis
    then have "console_manager p (record_service_event (stop_remote_stream ?m) Log_info Log_service_stopped) s' c"
      by (simp add: console_manager_def)
    then show ?thesis using False by (intro exI [of _ s']) (auto simp: arwill_service_manager_init_def Let_def)
  qed
qed

lemma service_reachable_console: "service_reachable p m \<Longrightarrow> \<exists>s c. console_manager p m s c"
proof (induction rule: service_reachable.induct)
  case (boot s0 network clock s c log)
  then have "console_stack p s" by (rule init_console)
  from boot_console [OF this, of c log] show ?case unfolding arwill_ipv4_remote_stream_def by blast
next
  case (start m)
  then show ?case using start_service prod.collapse by metis
next
  case (stop m)
  then show ?case using stop_service prod.collapse by metis
next
  case (restart m)
  then obtain s c where "console_manager p m s c" by blast
  then show ?case
    using restart_service [OF _ prod.collapse [symmetric] prod.collapse [symmetric]] by metis
next
  case (poll m s)
  then show ?case using poll_console by (auto simp: console_manager_def)
next
  case (programs m s s')
  then show ?case using Ipv4_Safety.step_ok [of s s'] by (auto simp: console_manager_def console_stack_def)
qed (auto simp: console_manager_def)

section \<open>Properties\<close>


definition demo_settings :: "unit arwill_config" where
  "demo_settings = (set_defaults \<lparr>cfg_filesystem = None, cfg_version = 0, cfg_remote_enabled = False,
     cfg_remote_port = 0, cfg_remote_key = [], cfg_log_level = Config_log_info,
     cfg_loaded_from_file = False, cfg_valid = False\<rparr>)\<lparr>cfg_remote_port := 2323\<rparr>"

lemma demo_settings_load:
  "\<exists>c. arwill_config_load demo_settings = (True, c) \<and> cfg_remote_port c = 23232"
  by (simp add: demo_settings_def arwill_config_load_def arwill_filesystem_read_file_def set_defaults_def Let_def)


end
