(* ===== verification/Shell_Path.thy ===== *)
theory Shell_Path
  imports Filesystem Hal Text
begin

text \<open>
  \<open>kernel/shell.c\<close>: the arguments and the paths of the shell. A
  NUL-terminated string in a buffer is the list of its bytes without the NUL, and the capacity of
  the buffer is an argument; every buffer of the shell has a capacity of at least one byte. The
  pointer into a line at an index is the rest of the line from there.
\<close>

section \<open>Definitions\<close>

abbreviation (input) shell_line_capacity :: nat where "shell_line_capacity \<equiv> 96"
abbreviation (input) shell_path_capacity :: nat where "shell_path_capacity \<equiv> 96"

abbreviation space :: u8 where "space \<equiv> 0x20"
abbreviation slash :: u8 where "slash \<equiv> 0x2F"
abbreviation dot :: u8 where "dot \<equiv> 0x2E"

definition argument_after_command :: "bytes \<Rightarrow> bytes" where
  "argument_after_command line = dropWhile (\<lambda>b. b = space) (dropWhile (\<lambda>b. b \<noteq> space) line)"

fun argument_equals :: "bytes \<Rightarrow> bytes \<Rightarrow> bool" where
  "argument_equals argument [] \<longleftrightarrow> dropWhile (\<lambda>b. b = space) argument = []"
| "argument_equals [] (e # expected) \<longleftrightarrow> False"
| "argument_equals (b # argument) (e # expected) \<longleftrightarrow> b = e \<and> argument_equals argument expected"

text \<open>The strings that a copy leaves in the destination; a string that does not fit leaves it empty.\<close>

definition copy_string :: "bytes \<Rightarrow> nat \<Rightarrow> bytes \<Rightarrow> bool \<times> bytes" where
  "copy_string destination capacity source =
     (if capacity = 0 then (False, destination)
      else if length source > capacity - 1 then (False, [])
      else (True, source))"

definition copy_sized_string :: "bytes \<Rightarrow> nat \<Rightarrow> bytes \<Rightarrow> nat \<Rightarrow> bool \<times> bytes" where
  "copy_sized_string destination capacity source source_length =
     (if capacity = 0 \<or> source_length \<ge> capacity then (False, destination)
      else (True, take source_length source))"

definition copy_first_argument :: "bytes \<Rightarrow> nat \<Rightarrow> bytes \<Rightarrow> bool \<times> bytes" where
  "copy_first_argument destination capacity argument =
     copy_string destination capacity (takeWhile (\<lambda>b. b \<noteq> space) argument)"

definition second_argument_after_first :: "bytes \<Rightarrow> bytes" where
  "second_argument_after_first argument =
     dropWhile (\<lambda>b. b = space) (dropWhile (\<lambda>b. b \<noteq> space) argument)"

definition split_command :: "bytes \<Rightarrow> bytes \<Rightarrow> nat \<Rightarrow> nat \<Rightarrow> bool \<times> bytes \<times> nat" where
  "split_command line command command_capacity argument_start =
     (let index = length (takeWhile (\<lambda>b. b \<noteq> space) line)
      in case copy_sized_string command command_capacity line index of
           (False, command) \<Rightarrow> (False, command, argument_start)
         | (True, command) \<Rightarrow>
             (True, command, index + length (takeWhile (\<lambda>b. b = space) (drop index line))))"

definition path_set_root :: "bytes \<Rightarrow> nat \<Rightarrow> bytes" where
  "path_set_root path capacity = (if capacity \<ge> 2 then [slash] else path)"

fun pop_slashes :: "bytes \<Rightarrow> nat \<Rightarrow> nat" where
  "pop_slashes path 0 = 0"
| "pop_slashes path (Suc len) = (if len \<ge> 1 \<and> path ! len = slash then pop_slashes path len else Suc len)"

fun pop_name :: "bytes \<Rightarrow> nat \<Rightarrow> nat" where
  "pop_name path 0 = 0"
| "pop_name path (Suc len) = (if len \<ge> 1 \<and> path ! len \<noteq> slash then pop_name path len else Suc len)"

definition path_pop_segment :: "bytes \<Rightarrow> bytes" where
  "path_pop_segment path =
     (let len = arwill_text_length path
      in if len \<le> 1 then [slash]
         else
           let len = pop_name path (pop_slashes path len)
           in if len \<le> 1 then take 1 path else take (len - 1) path)"

definition path_append_segment :: "bytes \<Rightarrow> nat \<Rightarrow> bytes \<Rightarrow> bool \<times> bytes" where
  "path_append_segment path capacity segment =
     (if segment = [] then (True, path)
      else if segment = [dot] then (True, path)
      else if segment = [dot, dot] then (True, path_pop_segment path)
      else
        let path_length = arwill_text_length path
        in if \<not> (path_length = 1 \<and> path ! 0 = slash) \<and> path_length \<ge> capacity - 1 then (False, path)
           else
             let path = (if path_length = 1 \<and> path ! 0 = slash then path else path @ [slash])
             in if length path + length segment \<ge> capacity then (False, path)
                else (True, path @ segment))"

text \<open>The loop of \<open>resolve_path\<close> over the rest of the path.\<close>

function resolve_segments :: "nat \<Rightarrow> bytes \<Rightarrow> bytes \<Rightarrow> bool \<times> bytes" where
  "resolve_segments capacity resolved_path path =
     (if path = [] then (True, resolved_path)
      else
        case path_append_segment resolved_path capacity (takeWhile (\<lambda>b. b \<noteq> slash) path) of
          (False, resolved_path) \<Rightarrow> (False, resolved_path)
        | (True, resolved_path) \<Rightarrow>
            resolve_segments capacity resolved_path
              (dropWhile (\<lambda>b. b = slash) (dropWhile (\<lambda>b. b \<noteq> slash) path)))"
  by pat_completeness auto
termination
proof (relation "measure (\<lambda>(capacity, resolved, path). length path)")
  fix path :: bytes assume "path \<noteq> []"
  moreover have "length (dropWhile P (dropWhile Q path)) \<le> length path" for P Q :: "u8 \<Rightarrow> bool"
    using le_trans [OF length_dropWhile_le length_dropWhile_le] by blast
  moreover have "length (dropWhile (\<lambda>b. b = slash) (dropWhile (\<lambda>b. b \<noteq> slash) path)) < length path" if "path = b # bs" for b bs
    using that le_trans [OF length_dropWhile_le length_dropWhile_le]
      length_dropWhile_le [of "\<lambda>b. b = slash" bs] by (cases "b = slash") (auto intro: le_imp_less_Suc)
  ultimately show "((capacity, r, dropWhile (\<lambda>b. b = slash) (dropWhile (\<lambda>b. b \<noteq> slash) path)), capacity, resolved, path)
      \<in> measure (\<lambda>(capacity, resolved, path). length path)" for capacity r resolved
    by (cases path) auto
qed auto

declare resolve_segments.simps [simp del]

definition resolve_path :: "bytes \<Rightarrow> bytes \<Rightarrow> bytes \<Rightarrow> nat \<Rightarrow> bool \<times> bytes" where
  "resolve_path current_directory input_path resolved_path capacity =
     (let path = (if input_path = [] then [dot] else input_path)
      in if hd path = slash
         then resolve_segments capacity (path_set_root resolved_path capacity) (tl path)
         else
           case copy_string resolved_path capacity current_directory of
             (False, resolved_path) \<Rightarrow> (False, resolved_path)
           | (True, resolved_path) \<Rightarrow> resolve_segments capacity resolved_path path)"

fun string_contains :: "bytes \<Rightarrow> u8 \<Rightarrow> bool" where
  "string_contains [] character = False"
| "string_contains (b # v) character = (b = character \<or> string_contains v character)"

definition string_ends_with :: "bytes \<Rightarrow> bytes \<Rightarrow> bool" where
  "string_ends_with v suffix_text =
     (let value_length = arwill_text_length v; suffix_length = arwill_text_length suffix_text
      in if suffix_length > value_length then False
         else arwill_text_equals (drop (value_length - suffix_length) v) suffix_text)"

definition resolve_program_image_path :: "bytes \<Rightarrow> bytes \<Rightarrow> bytes \<Rightarrow> nat \<Rightarrow> bool \<times> bytes" where
  "resolve_program_image_path current_directory program resolved_path capacity =
     (if string_contains program slash \<or> string_ends_with program (bytes_of ''.awp'')
      then resolve_path current_directory program resolved_path capacity
      else if length (bytes_of ''/apps/'') + arwill_text_length program + length (bytes_of ''.awp'') \<ge> capacity
      then (False, resolved_path)
      else (True, bytes_of ''/apps/'' @ program @ bytes_of ''.awp''))"

section \<open>The reference: lists of names\<close>

text \<open>
  A directory is the list of the names on the way to it. A path is the sequence of the names between
  its slashes; \<open>.\<close> stays, \<open>..\<close> goes up and stays at the root.
\<close>

primrec pieces :: "bytes \<Rightarrow> bytes list" where
  "pieces [] = [[]]"
| "pieces (b # path) = (if b = slash then [] # pieces path else (b # hd (pieces path)) # tl (pieces path))"

definition names_of :: "bytes \<Rightarrow> bytes list" where
  "names_of path = filter (\<lambda>n. n \<noteq> []) (pieces path)"

definition enter :: "bytes list \<Rightarrow> bytes \<Rightarrow> bytes list" where
  "enter dir name = (if name = [dot] then dir else if name = [dot, dot] then butlast dir else dir @ [name])"

definition path_text :: "bytes list \<Rightarrow> bytes" where
  "path_text dir = (if dir = [] then [slash] else concat (map ((#) slash) dir))"

definition name_ok :: "bytes \<Rightarrow> bool" where
  "name_ok n \<longleftrightarrow> n \<noteq> [] \<and> n \<noteq> [dot] \<and> n \<noteq> [dot, dot] \<and> slash \<notin> set n \<and> 0 \<notin> set n"

definition directory_ok :: "bytes list \<Rightarrow> bool" where
  "directory_ok dir \<longleftrightarrow> (\<forall>n\<in>set dir. name_ok n)"

lemma pieces_nonempty: "pieces path \<noteq> []"
  by (cases path) simp_all

lemma pieces_name: "slash \<notin> set n \<Longrightarrow> pieces n = [n]"
  by (induction n) simp_all

lemma pieces_slash: "slash \<notin> set n \<Longrightarrow> pieces (n @ slash # path) = n # pieces path"
  by (induction n) simp_all

lemma names_of_slash [simp]: "names_of (slash # path) = names_of path"
  by (simp add: names_of_def)

lemma names_of_Nil [simp]: "names_of [] = []"
  by (simp add: names_of_def)

lemma names_of_slashes [simp]: "names_of (dropWhile (\<lambda>b. b = slash) path) = names_of path"
  by (induction path) simp_all

lemma names_of_step:
  "names_of path = (let n = takeWhile (\<lambda>b. b \<noteq> slash) path in if n = [] then [] else [n]) @
     names_of (dropWhile (\<lambda>b. b = slash) (dropWhile (\<lambda>b. b \<noteq> slash) path))"
proof -
  let ?n = "takeWhile (\<lambda>b. b \<noteq> slash) path" and ?r = "dropWhile (\<lambda>b. b \<noteq> slash) path"
  have n: "slash \<notin> set ?n" by (auto dest: set_takeWhileD)
  have path: "path = ?n @ ?r" by simp
  show ?thesis
  proof (cases ?r)
    case Nil
    then have "path = ?n" by (metis append_Nil2 takeWhile_dropWhile_id)
    then have "pieces path = [?n]" using pieces_name [OF n] by simp
    then show ?thesis by (simp add: Nil names_of_def Let_def)
  next
    case (Cons b r)
    have "b = slash" using hd_dropWhile [of "\<lambda>b. b \<noteq> slash" path] Cons by simp
    then have "path = ?n @ slash # r" using path Cons by simp
    then have "pieces path = ?n # pieces r" using pieces_slash [OF n, of r] by (rule subst [OF sym])
    then show ?thesis using Cons \<open>b = slash\<close> by (simp add: Let_def names_of_def [of path] names_of_def [of r])
  qed
qed

lemma set_pieces: "n \<in> set (pieces path) \<Longrightarrow> slash \<notin> set n \<and> set n \<subseteq> set path"
proof (induction path arbitrary: n)
  case (Cons b path)
  have h: "hd (pieces path) \<in> set (pieces path)" "set (tl (pieces path)) \<subseteq> set (pieces path)"
    using pieces_nonempty [of path] by (auto dest: list.set_sel(2))
  show ?case
  proof (cases "b = slash \<or> n \<noteq> b # hd (pieces path)")
    case True
    then have "n = [] \<or> n \<in> set (pieces path)" using Cons.prems h(2) by (auto split: if_splits)
    then show ?thesis using Cons.IH [of n] by auto
  next
    case False
    then show ?thesis using Cons.IH [OF h(1)] by auto
  qed
qed simp

lemma directory_ok_enter:
  "directory_ok dir \<Longrightarrow> n \<noteq> [] \<Longrightarrow> slash \<notin> set n \<Longrightarrow> 0 \<notin> set n \<Longrightarrow> directory_ok (enter dir n)"
  by (auto simp: directory_ok_def enter_def name_ok_def dest: in_set_butlastD)

lemma directory_ok_enter_all:
  "directory_ok dir \<Longrightarrow> 0 \<notin> set path \<Longrightarrow> set ns \<subseteq> set (names_of path) \<Longrightarrow> directory_ok (foldl enter dir ns)"
proof (induction ns arbitrary: dir)
  case (Cons n ns)
  then have "n \<noteq> []" "slash \<notin> set n" "0 \<notin> set n" using set_pieces [of n path] by (auto simp: names_of_def)
  then show ?case using Cons by (auto intro: directory_ok_enter)
qed simp

section \<open>The operations on paths\<close>

lemma path_text_snoc: "path_text (dir @ [n]) = (if dir = [] then [] else path_text dir) @ slash # n"
  by (simp add: path_text_def)

lemma path_text_nul: "directory_ok dir \<Longrightarrow> 0 \<notin> set (path_text dir)"
  by (auto simp: path_text_def directory_ok_def name_ok_def)

lemma path_text_length: "directory_ok dir \<Longrightarrow> arwill_text_length (path_text dir) = length (path_text dir)"
  using path_text_nul by (simp add: arwill_text_length_eq c_string_id)

lemma path_text_root: "directory_ok dir \<Longrightarrow> length (path_text dir) = 1 \<longleftrightarrow> dir = []"
  by (cases dir rule: rev_cases) (auto simp: path_text_snoc directory_ok_def name_ok_def, simp add: path_text_def)

lemma pop_name_at: "slash \<notin> set n \<Longrightarrow> pop_name (p @ slash # n) (length p + 1 + length n) = length p + 1"
proof -
  assume n: "slash \<notin> set n"
  have "k \<le> length n \<Longrightarrow> pop_name (p @ slash # n) (length p + 1 + k) = length p + 1" for k
  proof (induction k)
    case 0
    then show ?case by (simp add: nth_append)
  next
    case (Suc k)
    then have "n ! k \<noteq> slash" using n by (metis Suc_le_eq nth_mem)
    then show ?case using Suc by (simp add: nth_append)
  qed
  then show ?thesis by simp
qed

lemma pop_slashes_at: "n \<noteq> [] \<Longrightarrow> slash \<notin> set n \<Longrightarrow> pop_slashes (p @ slash # n) (length p + 1 + length n) = length p + 1 + length n"
  by (cases n rule: rev_cases) (auto simp: nth_append)

lemma path_pop_text: "directory_ok dir \<Longrightarrow> path_pop_segment (path_text dir) = path_text (butlast dir)"
proof (cases dir rule: rev_cases)
  case (snoc ds n)
  assume ok: "directory_ok dir"
  let ?p = "if ds = [] then [] else path_text ds"
  have n: "n \<noteq> []" "slash \<notin> set n" using ok snoc by (auto simp: directory_ok_def name_ok_def)
  have t: "path_text dir = ?p @ slash # n" using snoc path_text_snoc [of ds n] by simp
  have l: "arwill_text_length (path_text dir) = length ?p + 1 + length n" using path_text_length [OF ok] t by simp
  have "ds \<noteq> [] \<Longrightarrow> length ?p \<ge> 1" by (cases ds) (auto simp: path_text_def)
  moreover have "pop_name (path_text dir) (pop_slashes (path_text dir) (length ?p + 1 + length n)) = length ?p + 1"
    unfolding t pop_slashes_at [OF n] by (rule pop_name_at [OF n(2)])
  ultimately have "path_pop_segment (path_text dir) = (if ds = [] then take 1 (path_text dir) else take (length ?p) (path_text dir))"
    using n unfolding path_pop_segment_def Let_def l by (cases "ds = []") auto
  also have "\<dots> = path_text (butlast dir)" unfolding t by (simp add: snoc path_text_def)
  finally show ?thesis .
qed (simp add: path_pop_segment_def path_text_def arwill_text_length_eq c_string_def)

lemma path_append_text:
  assumes ok: "directory_ok dir" and n: "n \<noteq> []" and fits: "length (path_text dir) < capacity" "2 \<le> capacity"
  shows "path_append_segment (path_text dir) capacity n = (ok', p) \<Longrightarrow>
    (ok' \<longleftrightarrow> length (path_text (enter dir n)) < capacity) \<and> (ok' \<longrightarrow> p = path_text (enter dir n))"
proof -
  assume a: "path_append_segment (path_text dir) capacity n = (ok', p)"
  show ?thesis
  proof (cases "n = [dot] \<or> n = [dot, dot]")
    case True
    have "length (path_text (butlast dir)) < capacity"
      using fits by (cases dir rule: rev_cases) (auto simp: path_text_snoc path_text_def)
    then show ?thesis using a True fits path_pop_text [OF ok] by (auto simp: path_append_segment_def enter_def)
  next
    case False
    have root: "arwill_text_length (path_text dir) = 1 \<and> path_text dir ! 0 = slash \<longleftrightarrow> dir = []"
      using path_text_length [OF ok] path_text_root [OF ok] by (auto simp: path_text_def)
    have e: "enter dir n = dir @ [n]" using False by (simp add: enter_def)
    let ?l = "length (path_text dir)"
    have p: "(ok', p) = (if dir \<noteq> [] \<and> ?l \<ge> capacity - 1 then (False, path_text dir)
        else let q = if dir = [] then path_text dir else path_text dir @ [slash]
             in if length q + length n \<ge> capacity then (False, q) else (True, q @ n))"
      using a False n unfolding path_append_segment_def Let_def root by (simp add: path_text_length [OF ok])
    have s: "path_text (enter dir n) = (if dir = [] then slash # n else path_text dir @ slash # n)"
      unfolding e path_text_snoc by simp
    show ?thesis
    proof (cases "dir = []")
      case True
      then show ?thesis using p s n by (auto simp: path_text_def [of "[]"] Let_def split: if_splits)
    next
      case False
      then show ?thesis using p s n by (cases n) (auto simp: Let_def split: if_splits)
    qed
  qed
qed

text \<open>Whether every directory on the way fits the buffer.\<close>

definition all_fit :: "nat \<Rightarrow> bytes list \<Rightarrow> bytes list \<Rightarrow> bool" where
  "all_fit capacity dir ns \<longleftrightarrow> (\<forall>k\<le>length ns. length (path_text (foldl enter dir (take k ns))) < capacity)"

lemma all_fit_Nil [simp]: "all_fit capacity dir [] \<longleftrightarrow> length (path_text dir) < capacity"
  by (simp add: all_fit_def)

lemma all_fit_Cons [simp]:
  "all_fit capacity dir (n # ns) \<longleftrightarrow> length (path_text dir) < capacity \<and> all_fit capacity (enter dir n) ns"
proof -
  have "(\<forall>k\<le>length (n # ns). P k) \<longleftrightarrow> P 0 \<and> (\<forall>k\<le>length ns. P (Suc k))" for P
    by (auto simp: all_simps(1) less_Suc_eq_le [symmetric] All_less_Suc2)
  then show ?thesis by (simp add: all_fit_def)
qed

lemma resolve_segments_text:
  assumes "directory_ok dir" and "0 \<notin> set path" and "length (path_text dir) < capacity" and "2 \<le> capacity"
    and "resolve_segments capacity (path_text dir) path = (ok, r)"
  shows "(ok \<longleftrightarrow> all_fit capacity dir (names_of path)) \<and> (ok \<longrightarrow> r = path_text (foldl enter dir (names_of path)))"
  using assms
proof (induction "length path" arbitrary: path dir rule: less_induct)
  case less
  show ?case
  proof (cases "path = []")
    case True
    then show ?thesis using less.prems by (simp add: resolve_segments.simps)
  next
    case False
    let ?n = "takeWhile (\<lambda>b. b \<noteq> slash) path"
    let ?r = "dropWhile (\<lambda>b. b = slash) (dropWhile (\<lambda>b. b \<noteq> slash) path)"
    have short: "length ?r < length path"
      using False length_dropWhile_le [of "\<lambda>b. b = slash" "tl path"]
        le_trans [OF length_dropWhile_le [of "\<lambda>b. b = slash"] length_dropWhile_le [of "\<lambda>b. b \<noteq> slash" "tl path"]]
      by (cases path; cases "hd path = slash") auto
    have z: "0 \<notin> set ?r" "0 \<notin> set ?n" "slash \<notin> set ?n"
      using less.prems(2) by (auto dest: set_dropWhileD set_takeWhileD)
    obtain ok1 p1 where a: "path_append_segment (path_text dir) capacity ?n = (ok1, p1)" by fastforce
    have u: "(ok, r) = (if ok1 then resolve_segments capacity p1 ?r else (False, p1))"
      using less.prems(5) False a by (subst (asm) resolve_segments.simps) (simp split: bool.splits)
    have step: "names_of path = (if ?n = [] then [] else [?n]) @ names_of ?r"
      using names_of_step [of path] by (simp add: Let_def)
    show ?thesis
    proof (cases "?n = []")
      case True
      then have "ok1" "p1 = path_text dir" using a by (simp_all add: path_append_segment_def)
      then show ?thesis using less.hyps [OF short less.prems(1) z(1) less.prems(3,4)] u True step by simp
    next
      case n: False
      note ap = path_append_text [OF less.prems(1) n less.prems(3,4) a]
      note ok' = directory_ok_enter [OF less.prems(1) n z(3,2)]
      show ?thesis
      proof (cases ok1)
        case True
        then show ?thesis
          using less.hyps [OF short ok' z(1) _ less.prems(4)] u n step ap less.prems(3) by simp
      next
        case False
        have "\<not> all_fit capacity (enter dir ?n) ns" if "\<not> length (path_text (enter dir ?n)) < capacity" for ns
          using that by (cases ns) simp_all
        then show ?thesis using False u n step ap by simp
      qed
    qed
  qed
qed

text \<open>Where a path starts: at the root with a slash in front, else in the current directory.\<close>

definition start_of :: "bytes list \<Rightarrow> bytes \<Rightarrow> bytes list" where
  "start_of dir path = (if path \<noteq> [] \<and> hd path = slash then [] else dir)"

lemma names_of_tl: "path \<noteq> [] \<Longrightarrow> hd path = slash \<Longrightarrow> names_of (tl path) = names_of path"
  by (cases path) simp_all

lemma resolve_path_text:
  assumes dir: "directory_ok dir" and path: "0 \<notin> set path" and fits: "length (path_text dir) < capacity" and cap: "2 \<le> capacity"
    and r: "resolve_path (path_text dir) path buf capacity = (ok, res)"
  shows "(ok \<longleftrightarrow> all_fit capacity (start_of dir path) (names_of path)) \<and>
    (ok \<longrightarrow> res = path_text (foldl enter (start_of dir path) (names_of path)))"
proof (cases "path \<noteq> [] \<and> hd path = slash")
  case True
  have "path_set_root buf capacity = path_text []" using cap by (simp add: path_set_root_def path_text_def)
  then have "resolve_segments capacity (path_text []) (tl path) = (ok, res)"
    using r True by (simp add: resolve_path_def)
  moreover have "directory_ok []" "length (path_text []) < capacity" "0 \<notin> set (tl path)"
    using cap path by (auto simp: directory_ok_def path_text_def dest: list.set_sel(2) split: list.splits)
       (metis list.sel(2) list.set_sel(2) empty_iff list.set(1))
  ultimately show ?thesis
    using resolve_segments_text [of "[]" "tl path" capacity ok res] cap names_of_tl True by (simp add: start_of_def)
next
  case False
  let ?path = "if path = [] then [dot] else path"
  have "resolve_segments capacity (path_text dir) ?path = (ok, res)"
    using r False fits cap by (auto simp: resolve_path_def copy_string_def split: if_splits)
  then have "(ok \<longleftrightarrow> all_fit capacity dir (names_of ?path)) \<and> (ok \<longrightarrow> res = path_text (foldl enter dir (names_of ?path)))"
    using path by (intro resolve_segments_text [OF dir _ fits cap]) auto
  then show ?thesis using False fits by (auto simp: start_of_def names_of_def enter_def split: if_splits)
qed

lemma resolve_path_result:
  assumes "directory_ok dir" "0 \<notin> set path" "length (path_text dir) < capacity" "2 \<le> capacity"
    and "resolve_path (path_text dir) path buf capacity = (True, res)"
  obtains dir' where "res = path_text dir'" "directory_ok dir'" "length res < capacity"
proof -
  let ?d = "foldl enter (start_of dir path) (names_of path)"
  have "directory_ok (start_of dir path)" using assms(1) by (simp add: start_of_def directory_ok_def)
  then have d: "directory_ok ?d" using directory_ok_enter_all assms(2) by blast
  have "res = path_text ?d" "all_fit capacity (start_of dir path) (names_of path)"
    using resolve_path_text [OF assms] by auto
  then show ?thesis using d that by (auto simp: all_fit_def)
qed

lemma names_of_text: "directory_ok dir \<Longrightarrow> names_of (path_text dir) = dir"
proof -
  have "\<forall>n\<in>set dir. n \<noteq> [] \<and> slash \<notin> set n \<Longrightarrow> names_of (concat (map ((#) slash) dir)) = dir" for dir
  proof (induction dir)
    case (Cons n dir)
    have "names_of (n @ concat (map ((#) slash) dir)) = n # names_of (concat (map ((#) slash) dir))"
    proof (cases dir)
      case Nil
      then show ?thesis using Cons.prems pieces_name [of n] by (simp add: names_of_def)
    next
      case (Cons d ds)
      then show ?thesis using Cons.prems pieces_slash [of n "d @ concat (map ((#) slash) ds)"]
        by (simp add: names_of_def)
    qed
    then show ?case using Cons by simp
  qed simp
  then show "directory_ok dir \<Longrightarrow> names_of (path_text dir) = dir"
    by (cases "dir = []") (auto simp: path_text_def directory_ok_def name_ok_def)
qed

lemma enter_all_ok: "directory_ok dir \<Longrightarrow> foldl enter acc dir = acc @ dir"
  by (induction dir arbitrary: acc) (auto simp: enter_def directory_ok_def name_ok_def)

lemma path_text_take: "length (path_text (take k dir)) \<le> length (path_text dir)"
proof (cases "take k dir = [] \<or> dir = []")
  case True
  then show ?thesis by (cases dir) (auto simp: path_text_def)
next
  case False
  have "concat (map ((#) slash) dir) = concat (map ((#) slash) (take k dir)) @ concat (map ((#) slash) (drop k dir))"
    by (metis append_take_drop_id concat_append map_append)
  then show ?thesis using False by (simp add: path_text_def)
qed

lemma resolve_canonical:
  assumes ok: "directory_ok dir" and fits: "length (path_text dir) < 96"
  shows "resolve_path cur (path_text dir) buf 96 = (True, path_text dir)"
proof -
  obtain ok' res where r: "resolve_path cur (path_text dir) buf 96 = (ok', res)" by fastforce
  have root: "directory_ok []" "length (path_text []) < 96" by (simp_all add: directory_ok_def path_text_def)
  have abs: "path_text dir \<noteq> [] \<and> hd (path_text dir) = slash" by (cases dir) (simp_all add: path_text_def)
  then have s: "start_of [] (path_text dir) = []" by (simp add: start_of_def)
  have "resolve_path (path_text []) (path_text dir) buf 96 = (ok', res)" using r abs by (simp add: resolve_path_def)
  from resolve_path_text [OF root(1) path_text_nul [OF ok] root(2) _ this]
  have "(ok' \<longleftrightarrow> all_fit 96 [] dir) \<and> (ok' \<longrightarrow> res = path_text (foldl enter [] dir))"
    by (simp add: s names_of_text [OF ok])
  moreover have "all_fit 96 [] dir" unfolding all_fit_def
  proof (intro allI impI)
    fix k
    have "directory_ok (take k dir)" using ok by (auto simp: directory_ok_def dest: in_set_takeD)
    then have "foldl enter [] (take k dir) = take k dir" using enter_all_ok [of "take k dir" "[]"] by simp
    then show "length (path_text (foldl enter [] (take k dir))) < 96" using path_text_take [of k dir] fits by simp
  qed
  ultimately show ?thesis using r enter_all_ok [OF ok, of "[]"] by simp
qed

section \<open>Properties\<close>

text \<open>
  C32. The paths of the shell are resolved as names, whatever the user types. From a canonical current
  directory, an argument resolves to the directory reached by its names one after the other, from the
  root if it starts with a slash: empty names and \<open>.\<close> stay, \<open>..\<close> goes up and never above the root.
  It fails exactly if some directory on the way does not fit the buffer. The result is canonical again,
  fits its buffer and resolves to itself from everywhere.
\<close>

theorem resolve_path_lexical:
  assumes "directory_ok dir" and "length (path_text dir) < 96" and "0 \<notin> set path"
    and "resolve_path (path_text dir) path buf 96 = (ok, res)"
  shows "(ok \<longleftrightarrow> all_fit 96 (start_of dir path) (names_of path)) \<and>
    (ok \<longrightarrow> res = path_text (foldl enter (start_of dir path) (names_of path)) \<and>
       directory_ok (foldl enter (start_of dir path) (names_of path)) \<and> length res < 96 \<and>
       (\<forall>cur buf'. resolve_path cur res buf' 96 = (True, res)))"
proof -
  have c: "2 \<le> (96 :: nat)" by simp
  note t = resolve_path_text [OF assms(1,3,2) c assms(4)]
  have d: "directory_ok (foldl enter (start_of dir path) (names_of path))"
    using assms(1,3) by (intro directory_ok_enter_all [of _ path]) (simp_all add: start_of_def directory_ok_def)
  have "length res < 96 \<and> (\<forall>cur buf'. resolve_path cur res buf' 96 = (True, res))" if ok
  proof -
    have "length res < 96" using t that by (auto simp: all_fit_def)
    then show ?thesis using t that resolve_canonical [OF d] by simp
  qed
  then show ?thesis using t d by blast
qed

theorem resolve_path_lexical_witness:
  "\<exists>res. resolve_path (bytes_of ''/owner/notes'') (bytes_of ''../.././../apps//x/'') [] 96 = (True, res) \<and>
     res = bytes_of ''/apps/x''"
proof -
  let ?dir = "[bytes_of ''owner'', bytes_of ''notes'']" and ?p = "bytes_of ''../.././../apps//x/''"
  have ok: "directory_ok ?dir" by (simp add: directory_ok_def name_ok_def bytes_of_def)
  have txt1: "path_text ?dir = bytes_of ''/owner/notes''" by (simp add: path_text_def bytes_of_def)
  have z: "0 \<notin> set ?p" by (simp add: bytes_of_def)
  obtain k res where r: "resolve_path (path_text ?dir) ?p [] 96 = (k, res)" by fastforce
  have f: "all_fit 96 (start_of ?dir ?p) (names_of ?p)" "path_text (foldl enter (start_of ?dir ?p) (names_of ?p)) = bytes_of ''/apps/x''"
    by (simp_all add: start_of_def names_of_def bytes_of_def enter_def path_text_def)
  have "length (path_text ?dir) < 96" by (simp add: txt1)
  from resolve_path_lexical [OF ok this z r] f r show ?thesis by (simp add: txt1)
qed

end
