(* ===== verification/User_Front.thy ===== *)
theory User_Front
  imports User_Syscall
begin

text \<open>
  \<open>kernel/user.c\<close>: the interface between the shell and the runtime of user programs. A runtime is
  its state with the functions it offers, any of which may be missing; the front checks the pointers,
  gives the result a defined value and calls the function. A run of a program may not return (\<open>None\<close>).
  A console is the number of its session, as in \<open>User_Mode\<close>.
\<close>

section \<open>Definitions\<close>

record arwill_user_stats =
  us_available :: bool
  us_hhdm_available :: bool
  us_gdt_loaded :: bool
  us_tss_loaded :: bool
  us_syscall_gate_loaded :: bool
  us_runs :: u64
  us_syscall_count :: u64
  us_bytes_written :: u64
  us_bad_syscalls :: u64
  us_preemptions :: u64
  us_faults :: u64

record 'r arwill_user_runtime =
  ur_context :: 'r
  ur_run :: "('r \<Rightarrow> arwill_user_program \<Rightarrow> nat option \<Rightarrow> (arwill_user_program_result option \<times> 'r) option) option"
  ur_spawn_image :: "('r \<Rightarrow> bytes option \<Rightarrow> u64 \<Rightarrow> bytes option \<Rightarrow> bytes option \<Rightarrow> nat option \<Rightarrow> u32 option \<times> 'r) option"
  ur_poll :: "('r \<Rightarrow> 'r option) option"
  ur_deliver_input :: "('r \<Rightarrow> u32 \<Rightarrow> u8 \<Rightarrow> bool \<times> 'r) option"
  ur_cancel :: "('r \<Rightarrow> u32 \<Rightarrow> u32 \<Rightarrow> bool \<times> 'r) option"
  ur_task_info :: "('r \<Rightarrow> u32 \<Rightarrow> arwill_user_task_info option) option"
  ur_tasks :: "('r \<Rightarrow> nat \<Rightarrow> arwill_user_task_info list) option"
  ur_stats :: "('r \<Rightarrow> arwill_user_stats) option"

definition clear_result :: arwill_user_program_result where
  "clear_result = \<lparr>pr_started = False, pr_exited = False, pr_exit_code = 0, pr_syscall_count = 0,
     pr_bytes_written = 0, pr_status = ''unavailable''\<rparr>"

definition arwill_user_runtime_stats :: "'r arwill_user_runtime option \<Rightarrow> arwill_user_stats" where
  "arwill_user_runtime_stats runtime =
     (case runtime of
        None \<Rightarrow> \<lparr>us_available = False, us_hhdm_available = False, us_gdt_loaded = False, us_tss_loaded = False,
           us_syscall_gate_loaded = False, us_runs = 0, us_syscall_count = 0, us_bytes_written = 0,
           us_bad_syscalls = 0, us_preemptions = 0, us_faults = 0\<rparr>
      | Some r \<Rightarrow>
          (case ur_stats r of
             None \<Rightarrow> \<lparr>us_available = False, us_hhdm_available = False, us_gdt_loaded = False, us_tss_loaded = False,
               us_syscall_gate_loaded = False, us_runs = 0, us_syscall_count = 0, us_bytes_written = 0,
               us_bad_syscalls = 0, us_preemptions = 0, us_faults = 0\<rparr>
           | Some f \<Rightarrow> f (ur_context r)))"

text \<open>A run that is refused leaves the cleared result.\<close>

definition arwill_user_run_program ::
    "'r arwill_user_runtime option \<Rightarrow> arwill_user_program \<Rightarrow> nat option \<Rightarrow>
     (bool \<times> arwill_user_program_result \<times> 'r arwill_user_runtime option) option" where
  "arwill_user_run_program runtime program console =
     (case runtime of
        None \<Rightarrow> Some (False, clear_result, runtime)
      | Some r \<Rightarrow>
          (case ur_run r of
             None \<Rightarrow> Some (False, clear_result, runtime)
           | Some f \<Rightarrow>
               map_option (\<lambda>(res, c). (res \<noteq> None, case res of None \<Rightarrow> clear_result | Some q \<Rightarrow> q, Some (r\<lparr>ur_context := c\<rparr>)))
                 (f (ur_context r) program console)))"

definition arwill_user_spawn_image ::
    "'r arwill_user_runtime option \<Rightarrow> bytes option \<Rightarrow> u64 \<Rightarrow> bytes option \<Rightarrow> bytes option \<Rightarrow> nat option \<Rightarrow>
     u32 option \<times> 'r arwill_user_runtime option" where
  "arwill_user_spawn_image runtime image_bytes image_size name argument console =
     (case runtime of
        None \<Rightarrow> (None, runtime)
      | Some r \<Rightarrow>
          (case ur_spawn_image r of
             None \<Rightarrow> (None, runtime)
           | Some f \<Rightarrow>
               if image_bytes = None \<or> name = None \<or> argument = None \<or> console = None then (None, runtime)
               else
                 (case f (ur_context r) image_bytes image_size name argument console of
                    (pid, c) \<Rightarrow> (pid, Some (r\<lparr>ur_context := c\<rparr>)))))"

definition arwill_user_poll :: "'r arwill_user_runtime option \<Rightarrow> 'r arwill_user_runtime option option" where
  "arwill_user_poll runtime =
     (case runtime of
        None \<Rightarrow> Some runtime
      | Some r \<Rightarrow>
          (case ur_poll r of
             None \<Rightarrow> Some runtime
           | Some f \<Rightarrow> map_option (\<lambda>c. Some (r\<lparr>ur_context := c\<rparr>)) (f (ur_context r))))"

definition arwill_user_deliver_input ::
    "'r arwill_user_runtime option \<Rightarrow> u32 \<Rightarrow> u8 \<Rightarrow> bool \<times> 'r arwill_user_runtime option" where
  "arwill_user_deliver_input runtime pid byte =
     (case runtime of
        None \<Rightarrow> (False, runtime)
      | Some r \<Rightarrow>
          (case ur_deliver_input r of
             None \<Rightarrow> (False, runtime)
           | Some f \<Rightarrow> (case f (ur_context r) pid byte of (ok, c) \<Rightarrow> (ok, Some (r\<lparr>ur_context := c\<rparr>)))))"

definition arwill_user_cancel ::
    "'r arwill_user_runtime option \<Rightarrow> u32 \<Rightarrow> u32 \<Rightarrow> bool \<times> 'r arwill_user_runtime option" where
  "arwill_user_cancel runtime pid exit_code =
     (case runtime of
        None \<Rightarrow> (False, runtime)
      | Some r \<Rightarrow>
          (case ur_cancel r of
             None \<Rightarrow> (False, runtime)
           | Some f \<Rightarrow> (case f (ur_context r) pid exit_code of (ok, c) \<Rightarrow> (ok, Some (r\<lparr>ur_context := c\<rparr>)))))"

definition arwill_user_task_info :: "'r arwill_user_runtime option \<Rightarrow> u32 \<Rightarrow> bool \<times> arwill_user_task_info" where
  "arwill_user_task_info runtime pid =
     (let info = \<lparr>ti_pid = 0, ti_name = [], ti_state = Task_empty, ti_exit_code = 0, ti_fault_vector = 0, ti_run_count = 0\<rparr>
      in case runtime of
           None \<Rightarrow> (False, info)
         | Some r \<Rightarrow>
             (case ur_task_info r of
                None \<Rightarrow> (False, info)
              | Some f \<Rightarrow> (case f (ur_context r) pid of None \<Rightarrow> (False, info) | Some i \<Rightarrow> (True, i))))"

definition arwill_user_tasks :: "'r arwill_user_runtime option \<Rightarrow> nat \<Rightarrow> arwill_user_task_info list" where
  "arwill_user_tasks runtime capacity =
     (case runtime of
        None \<Rightarrow> []
      | Some r \<Rightarrow>
          (case ur_tasks r of
             None \<Rightarrow> []
           | Some f \<Rightarrow> if capacity = 0 then [] else f (ur_context r) capacity))"

fun arwill_user_task_state_name :: "arwill_user_task_state \<Rightarrow> bytes" where
  "arwill_user_task_state_name Task_empty = bytes_of ''empty''"
| "arwill_user_task_state_name Task_ready = bytes_of ''ready''"
| "arwill_user_task_state_name Task_running = bytes_of ''running''"
| "arwill_user_task_state_name Task_blocked_input = bytes_of ''blocked-input''"
| "arwill_user_task_state_name Task_finished = bytes_of ''finished''"
| "arwill_user_task_state_name Task_faulted = bytes_of ''faulted''"

section \<open>The runtime of the x86-64 kernel\<close>

text \<open>Whether the descriptor tables and the system call gate are loaded is recorded by code in assembly.\<close>

definition x86_64_user_stats :: "bool \<Rightarrow> bool \<Rightarrow> bool \<Rightarrow> ('n, 'k, 'f) x86_64_user_context \<Rightarrow> arwill_user_stats" where
  "x86_64_user_stats gdt_loaded tss_loaded syscall_gate_loaded context =
     \<lparr>us_available = uc_available context, us_hhdm_available = uc_hhdm_available context, us_gdt_loaded = gdt_loaded,
      us_tss_loaded = tss_loaded, us_syscall_gate_loaded = syscall_gate_loaded, us_runs = uc_runs context,
      us_syscall_count = uc_syscall_count context, us_bytes_written = uc_bytes_written context,
      us_bad_syscalls = uc_bad_syscalls context, us_preemptions = uc_preemptions context, us_faults = uc_faults context\<rparr>"

definition user_runtime ::
    "(('n, 'k, 'f) x86_64_user_context \<Rightarrow> ('n, 'k, 'f) x86_64_user_context option) \<Rightarrow> bool \<Rightarrow> bool \<Rightarrow> bool \<Rightarrow>
     ('n, 'k, 'f) x86_64_user_context \<Rightarrow> ('n, 'k, 'f) x86_64_user_context arwill_user_runtime" where
  "user_runtime resume gdt_loaded tss_loaded syscall_gate_loaded user_context =
     \<lparr>ur_context = user_context, ur_run = Some (x86_64_user_run resume), ur_spawn_image = Some x86_64_user_spawn_image,
      ur_poll = Some (x86_64_user_poll resume), ur_deliver_input = Some x86_64_user_deliver_input,
      ur_cancel = Some x86_64_user_cancel, ur_task_info = Some x86_64_user_task_info, ur_tasks = Some x86_64_user_tasks,
      ur_stats = Some (x86_64_user_stats gdt_loaded tss_loaded syscall_gate_loaded)\<rparr>"

text \<open>Over this runtime the calls of the shell are those of the kernel.\<close>

lemma user_runtime_calls:
  "arwill_user_deliver_input (Some (user_runtime resume g t s c)) pid byte =
     map_prod id (\<lambda>c. Some (user_runtime resume g t s c)) (x86_64_user_deliver_input c pid byte)"
  "arwill_user_cancel (Some (user_runtime resume g t s c)) pid code =
     map_prod id (\<lambda>c. Some (user_runtime resume g t s c)) (x86_64_user_cancel c pid code)"
  "arwill_user_poll (Some (user_runtime resume g t s c)) =
     map_option (\<lambda>c. Some (user_runtime resume g t s c)) (x86_64_user_poll resume c)"
  "arwill_user_spawn_image (Some (user_runtime resume g t s c)) (Some im) n (Some nm) (Some arg) (Some console) =
     map_prod id (\<lambda>c. Some (user_runtime resume g t s c)) (x86_64_user_spawn_image c (Some im) n (Some nm) (Some arg) (Some console))"
  by (simp_all add: arwill_user_deliver_input_def arwill_user_cancel_def arwill_user_poll_def
      arwill_user_spawn_image_def user_runtime_def map_prod_def split: prod.splits)

end
