(* ===== verification/Shell_Session.thy ===== *)
theory Shell_Session
  imports Shell_Path User_Front Config Log Ipv4
begin

text \<open>
  \<open>kernel/shell.c\<close>: a session of the shell, from the byte that arrives to the line that is run.
  The line, the keys and the history are arrays as in the code; a session is local or remote, and the
  console of the remote one writes into the stream of the network stack. Running a command, completing
  a line and drawing the process display are parameters: functions that may change the session and the
  environment in any way.
\<close>

section \<open>Typed bytes\<close>

datatype shell_escape_state = Escape_none | Escape_started | Escape_bracket

datatype shell_utf8_state = Utf8_none | Utf8_cyrillic_continuation

record shell_input_normalizer =
  nm_utf8_state :: shell_utf8_state
  nm_utf8_lead :: u8
  nm_russian_layout_active :: bool

definition is_printable_ascii :: "u8 \<Rightarrow> bool" where
  "is_printable_ascii byte \<longleftrightarrow> 0x20 \<le> byte \<and> byte \<le> 0x7E"

definition ascii_to_uppercase :: "u8 \<Rightarrow> u8" where
  "ascii_to_uppercase v = (if chr CHR ''a'' \<le> v \<and> v \<le> chr CHR ''z'' then v - chr CHR ''a'' + chr CHR ''A'' else v)"

text \<open>The keys of the Russian layout, by the code point of the letter.\<close>

definition russian_layout :: "(u32 \<times> char) list" where
  "russian_layout =
     [(0x0439, CHR ''q''), (0x0446, CHR ''w''), (0x0443, CHR ''e''), (0x043A, CHR ''r''), (0x0435, CHR ''t''),
      (0x043D, CHR ''y''), (0x0433, CHR ''u''), (0x0448, CHR ''i''), (0x0449, CHR ''o''), (0x0437, CHR ''p''),
      (0x0445, CHR ''[''), (0x044A, CHR '']''), (0x0444, CHR ''a''), (0x044B, CHR ''s''), (0x0432, CHR ''d''),
      (0x0430, CHR ''f''), (0x043F, CHR ''g''), (0x0440, CHR ''h''), (0x043E, CHR ''j''), (0x043B, CHR ''k''),
      (0x0434, CHR ''l''), (0x0436, CHR '';''), (0x044D, CHR 0x27), (0x044F, CHR ''z''), (0x0447, CHR ''x''),
      (0x0441, CHR ''c''), (0x043C, CHR ''v''), (0x0438, CHR ''b''), (0x0442, CHR ''n''), (0x044C, CHR ''m''),
      (0x0431, CHR '',''), (0x044E, CHR ''.''), (0x0451, CHR 0x60)]"

definition map_russian_layout_codepoint :: "u32 \<Rightarrow> u8 option" where
  "map_russian_layout_codepoint codepoint =
     (let (codepoint, uppercase) =
            (if 0x0410 \<le> codepoint \<and> codepoint \<le> 0x042F then (codepoint + 0x20, True)
             else if codepoint = 0x0401 then (0x0451, True) else (codepoint, False))
      in case map_of russian_layout codepoint of
           None \<Rightarrow> None
         | Some key \<Rightarrow> Some (if uppercase then ascii_to_uppercase (chr key) else chr key))"

definition decode_two_byte_utf8 :: "u8 \<Rightarrow> u8 \<Rightarrow> u32" where
  "decode_two_byte_utf8 lead continuation =
     or (push_bit 6 (and (ucast lead) 0x1F)) (and (ucast continuation) 0x3F)"

definition normalize_russian_layout_ascii :: "shell_input_normalizer \<Rightarrow> u8 \<Rightarrow> u8" where
  "normalize_russian_layout_ascii normalizer byte =
     (if nm_russian_layout_active normalizer \<and> byte = dot then slash else byte)"

definition normalize_text_input_byte ::
    "shell_input_normalizer \<Rightarrow> u8 \<Rightarrow> u8 option \<times> shell_input_normalizer" where
  "normalize_text_input_byte normalizer byte =
     (if nm_utf8_state normalizer = Utf8_cyrillic_continuation
      then
        (let normalizer = normalizer\<lparr>nm_utf8_state := Utf8_none\<rparr>
         in if and byte 0xC0 \<noteq> 0x80 then (None, normalizer)
            else
              (case map_russian_layout_codepoint (decode_two_byte_utf8 (nm_utf8_lead normalizer) byte) of
                 None \<Rightarrow> (None, normalizer)
               | Some v \<Rightarrow> (Some v, normalizer\<lparr>nm_russian_layout_active := True\<rparr>)))
      else if byte = 0xD0 \<or> byte = 0xD1
      then (None, normalizer\<lparr>nm_utf8_lead := byte, nm_utf8_state := Utf8_cyrillic_continuation\<rparr>)
      else if \<not> is_printable_ascii byte then (None, normalizer)
      else (Some (normalize_russian_layout_ascii normalizer byte), normalizer))"

section \<open>Sessions and their environment\<close>

record shell_history =
  hi_entries :: "bytes list"
  hi_count :: nat

record shell_session =
  ss_line :: bytes
  ss_current_directory :: bytes
  ss_length :: nat
  ss_cursor :: nat
  ss_history :: shell_history
  ss_history_position :: nat
  ss_escape_state :: shell_escape_state
  ss_normalizer :: shell_input_normalizer
  ss_remote :: bool
  ss_active :: bool
  ss_ignore_line_feed :: bool
  ss_foreground_pid :: u32
  ss_config_key_pending :: bool
  ss_config_key :: bytes
  ss_config_key_length :: nat
  ss_authenticated :: bool
  ss_authentication_attempts :: u32
  ss_authentication_started_milliseconds :: u64
  ss_authentication_key :: bytes
  ss_authentication_key_length :: nat
  ss_tcp_timeouts_at_connection :: u32
  ss_top_active :: bool
  ss_top_last_refresh_milliseconds :: u64

record ('n, 'k, 'f, 'g, 't, 'r, 'c) shell_environment =
  se_ipv4 :: "('n, 'k) arwill_ipv4_stack option"
  se_remote_stream :: "nat option"
  se_clock :: "'t arwill_clock option"
  se_user_runtime :: "'r arwill_user_runtime option"
  se_config :: "'f arwill_config option"
  se_log :: "'g arwill_event_log option"
  se_console :: "'c arwill_console option"

text \<open>The chunks of \<open>remote_console_write\<close>: a line feed becomes a carriage return and a line feed.\<close>

definition flush_chunk :: "arwill_tcp_stream \<times> bytes \<Rightarrow> arwill_tcp_stream \<times> bytes" where
  "flush_chunk s =
     (case s of (stream, chunk) \<Rightarrow>
        if length chunk = 128 then (snd (arwill_tcp_stream_write stream (Some chunk) (length chunk)), []) else s)"

definition write_chunk_byte :: "arwill_tcp_stream \<times> bytes \<Rightarrow> u8 \<Rightarrow> arwill_tcp_stream \<times> bytes" where
  "write_chunk_byte s byte =
     (let s = (if byte = 0x0A then (case flush_chunk s of (stream, chunk) \<Rightarrow> (stream, chunk @ [0x0D])) else s)
      in case flush_chunk s of (stream, chunk) \<Rightarrow> (stream, chunk @ [byte]))"

definition remote_console_write :: "arwill_tcp_stream \<Rightarrow> bytes \<Rightarrow> arwill_tcp_stream" where
  "remote_console_write stream str =
     (case foldl write_chunk_byte (stream, []) (c_string str) of
        (stream, chunk) \<Rightarrow>
          if chunk \<noteq> [] then snd (arwill_tcp_stream_write stream (Some chunk) (length chunk)) else stream)"

text \<open>\<open>arwill_console_write(session->console, ...)\<close>.\<close>

definition console_write ::
    "bool \<Rightarrow> bytes \<Rightarrow> ('n, 'k, 'f, 'g, 't, 'r, 'c) shell_environment \<Rightarrow>
     ('n, 'k, 'f, 'g, 't, 'r, 'c) shell_environment" where
  "console_write remote str env =
     (if remote
      then
        (case (se_ipv4 env, se_remote_stream env) of
           (Some ipv4, Some stream) \<Rightarrow>
             env\<lparr>se_ipv4 := Some (with_endpoint stream (update_stream (\<lambda>s. remote_console_write s str)) ipv4)\<rparr>
         | _ \<Rightarrow> env)
      else env\<lparr>se_console := arwill_console_write (se_console env) (Some str)\<rparr>)"

definition console_write_line ::
    "bool \<Rightarrow> bytes \<Rightarrow> ('n, 'k, 'f, 'g, 't, 'r, 'c) shell_environment \<Rightarrow>
     ('n, 'k, 'f, 'g, 't, 'r, 'c) shell_environment" where
  "console_write_line remote str env = console_write remote [0x0A] (console_write remote str env)"

definition write_prompt ::
    "bool \<Rightarrow> bytes \<Rightarrow> ('n, 'k, 'f, 'g, 't, 'r, 'c) shell_environment \<Rightarrow>
     ('n, 'k, 'f, 'g, 't, 'r, 'c) shell_environment" where
  "write_prompt remote current_directory env =
     console_write remote (bytes_of ''> '')
       (console_write remote current_directory (console_write remote (bytes_of ''Arwill:'') env))"

definition write_byte_echo ::
    "bool \<Rightarrow> u8 \<Rightarrow> ('n, 'k, 'f, 'g, 't, 'r, 'c) shell_environment \<Rightarrow>
     ('n, 'k, 'f, 'g, 't, 'r, 'c) shell_environment" where
  "write_byte_echo remote byte env = console_write remote [byte] env"

definition move_console_cursor_left ::
    "bool \<Rightarrow> nat \<Rightarrow> ('n, 'k, 'f, 'g, 't, 'r, 'c) shell_environment \<Rightarrow>
     ('n, 'k, 'f, 'g, 't, 'r, 'c) shell_environment" where
  "move_console_cursor_left remote count env = (console_write remote (0x1B # bytes_of ''[D'') ^^ count) env"

definition move_console_cursor_right ::
    "bool \<Rightarrow> nat \<Rightarrow> ('n, 'k, 'f, 'g, 't, 'r, 'c) shell_environment \<Rightarrow>
     ('n, 'k, 'f, 'g, 't, 'r, 'c) shell_environment" where
  "move_console_cursor_right remote count env = (console_write remote (0x1B # bytes_of ''[C'') ^^ count) env"

definition erase_line_contents ::
    "bool \<Rightarrow> nat \<Rightarrow> ('n, 'k, 'f, 'g, 't, 'r, 'c) shell_environment \<Rightarrow>
     ('n, 'k, 'f, 'g, 't, 'r, 'c) shell_environment" where
  "erase_line_contents remote len env = (console_write remote [0x08, 0x20, 0x08] ^^ len) env"

section \<open>The line\<close>

type_synonym ('n, 'k, 'f, 'g, 't, 'r, 'c) shell_state =
  "shell_session \<times> ('n, 'k, 'f, 'g, 't, 'r, 'c) shell_environment"

definition append_char_to_line ::
    "u8 \<Rightarrow> ('n, 'k, 'f, 'g, 't, 'r, 'c) shell_state \<Rightarrow> bool \<times> ('n, 'k, 'f, 'g, 't, 'r, 'c) shell_state" where
  "append_char_to_line v st =
     (case st of (session, env) \<Rightarrow>
        if ss_length session \<ge> shell_line_capacity - 1 then (False, session, env)
        else
          (True, session\<lparr>ss_line := (ss_line session)[ss_length session := v], ss_length := ss_length session + 1\<rparr>,
           write_byte_echo (ss_remote session) v env))"

definition insert_char_into_line ::
    "u8 \<Rightarrow> ('n, 'k, 'f, 'g, 't, 'r, 'c) shell_state \<Rightarrow> bool \<times> ('n, 'k, 'f, 'g, 't, 'r, 'c) shell_state" where
  "insert_char_into_line v st =
     (case st of (session, env) \<Rightarrow>
        if ss_length session \<ge> shell_line_capacity - 1 \<or> ss_cursor session > ss_length session
        then (False, session, env)
        else
          let cursor = ss_cursor session;
              line = foldl (\<lambda>l k. l[k := l ! (k - 1)]) (ss_line session) (rev [cursor + 1..<ss_length session + 1]);
              line = line[cursor := v];
              len = ss_length session + 1;
              cursor = cursor + 1;
              line = line[len := 0];
              env = foldl (\<lambda>env k. write_byte_echo (ss_remote session) (line ! k) env) env [cursor - 1..<len];
              env = move_console_cursor_left (ss_remote session) (len - cursor) env
          in (True, session\<lparr>ss_line := line, ss_length := len, ss_cursor := cursor\<rparr>, env))"

text \<open>The branch of \<open>handle_shell_byte\<close> for the backspace key.\<close>

definition erase_char_before_cursor ::
    "('n, 'k, 'f, 'g, 't, 'r, 'c) shell_state \<Rightarrow> ('n, 'k, 'f, 'g, 't, 'r, 'c) shell_state" where
  "erase_char_before_cursor st =
     (case st of (session, env) \<Rightarrow>
        if ss_cursor session = 0 then (session, env)
        else
          let removed = ss_cursor session - 1;
              line = foldl (\<lambda>l k. l[k := l ! (k + 1)]) (ss_line session) [removed..<ss_length session];
              len = ss_length session - 1;
              cursor = ss_cursor session - 1;
              env = console_write (ss_remote session) [0x08] env;
              env = foldl (\<lambda>env k. write_byte_echo (ss_remote session) (line ! k) env) env [cursor..<len];
              env = console_write (ss_remote session) [space] env;
              env = move_console_cursor_left (ss_remote session) (len - cursor + 1) env;
              normalizer = (if len = 0 then (ss_normalizer session)\<lparr>nm_russian_layout_active := False\<rparr> else ss_normalizer session)
          in (session\<lparr>ss_line := line, ss_length := len, ss_cursor := cursor, ss_normalizer := normalizer\<rparr>, env))"

definition replace_line ::
    "bytes \<Rightarrow> ('n, 'k, 'f, 'g, 't, 'r, 'c) shell_state \<Rightarrow> ('n, 'k, 'f, 'g, 't, 'r, 'c) shell_state" where
  "replace_line replacement st =
     (case st of (session, env) \<Rightarrow>
        let env = (if ss_cursor session < ss_length session
                   then move_console_cursor_right (ss_remote session) (ss_length session - ss_cursor session) env else env);
            env = erase_line_contents (ss_remote session) (ss_length session) env;
            shown = take (shell_line_capacity - 1) (c_string replacement);
            line = splice_at ((ss_line session)[0 := 0]) 0 shown;
            env = foldl (\<lambda>env b. write_byte_echo (ss_remote session) b env) env shown
        in (session\<lparr>ss_line := line[length shown := 0], ss_length := length shown, ss_cursor := length shown\<rparr>, env))"

section \<open>The history\<close>

abbreviation (input) shell_history_capacity :: nat where "shell_history_capacity \<equiv> 8"

definition history_add :: "shell_history \<Rightarrow> bytes \<Rightarrow> shell_history" where
  "history_add history line =
     (if cs_at line 0 = 0 then history
      else if hi_count history > 0 \<and> arwill_text_equals (hi_entries history ! (hi_count history - 1)) line then history
      else
        let history =
              (if hi_count history \<ge> shell_history_capacity
               then \<lparr>hi_entries = foldl (\<lambda>es k. es[k - 1 := snd (copy_string (es ! (k - 1)) shell_line_capacity (es ! k))])
                       (hi_entries history) [1..<shell_history_capacity],
                     hi_count = shell_history_capacity - 1\<rparr>
               else history)
        in case copy_string (hi_entries history ! hi_count history) shell_line_capacity (c_string line) of
             (ok, entry) \<Rightarrow>
               \<lparr>hi_entries = (hi_entries history)[hi_count history := entry],
                hi_count = (if ok then hi_count history + 1 else hi_count history)\<rparr>)"

definition history_previous ::
    "('n, 'k, 'f, 'g, 't, 'r, 'c) shell_state \<Rightarrow> ('n, 'k, 'f, 'g, 't, 'r, 'c) shell_state" where
  "history_previous st =
     (case st of (session, env) \<Rightarrow>
        let count = hi_count (ss_history session)
        in if count = 0 then (session, env)
           else
             let position = (if ss_history_position session > count then count else ss_history_position session)
             in if position = 0 then (session\<lparr>ss_history_position := position\<rparr>, env)
                else replace_line (hi_entries (ss_history session) ! (position - 1))
                       (session\<lparr>ss_history_position := position - 1\<rparr>, env))"

definition history_next ::
    "('n, 'k, 'f, 'g, 't, 'r, 'c) shell_state \<Rightarrow> ('n, 'k, 'f, 'g, 't, 'r, 'c) shell_state" where
  "history_next st =
     (case st of (session, env) \<Rightarrow>
        let count = hi_count (ss_history session)
        in if count = 0 \<or> ss_history_position session \<ge> count then (session, env)
           else
             let position = ss_history_position session + 1; session = session\<lparr>ss_history_position := position\<rparr>
             in if position = count then replace_line [] (session, env)
                else replace_line (hi_entries (ss_history session) ! position) (session, env))"

section \<open>One byte\<close>

definition reset_shell_input :: "shell_session \<Rightarrow> shell_session" where
  "reset_shell_input session =
     session\<lparr>ss_length := 0, ss_cursor := 0, ss_escape_state := Escape_none,
       ss_normalizer := \<lparr>nm_utf8_state = Utf8_none, nm_utf8_lead = 0, nm_russian_layout_active = False\<rparr>\<rparr>"

definition initialize_shell_session :: "shell_session \<Rightarrow> bool \<Rightarrow> shell_session" where
  "initialize_shell_session session remote =
     reset_shell_input
       (session\<lparr>ss_current_directory := [slash], ss_history := (ss_history session)\<lparr>hi_count := 0\<rparr>,
          ss_history_position := 0, ss_remote := remote, ss_active := True, ss_ignore_line_feed := False,
          ss_foreground_pid := 0, ss_config_key_pending := False, ss_config_key_length := 0,
          ss_authenticated := \<not> remote, ss_authentication_attempts := 0, ss_authentication_started_milliseconds := 0,
          ss_authentication_key_length := 0, ss_tcp_timeouts_at_connection := 0, ss_top_active := False,
          ss_top_last_refresh_milliseconds := 0\<rparr>)"

text \<open>
  The three parts of the shell that are parameters. \<open>so_run_command\<close> returns whether the process
  display was asked for and whether the session is to be closed.
\<close>

record 'e shell_operations =
  so_run_command :: "shell_session \<Rightarrow> 'e \<Rightarrow> bytes \<Rightarrow> bool \<times> bool \<times> shell_session \<times> 'e"
  so_complete_line :: "shell_session \<Rightarrow> 'e \<Rightarrow> bytes \<times> nat \<times> 'e"
  so_render_top :: "shell_session \<Rightarrow> 'e \<Rightarrow> 'e"

definition config_key_byte ::
    "u8 \<Rightarrow> ('n, 'k, 'f, 'g, 't, 'r, 'c) shell_state \<Rightarrow> ('n, 'k, 'f, 'g, 't, 'r, 'c) shell_state" where
  "config_key_byte byte st =
     (case st of (session, env) \<Rightarrow>
        let remote = ss_remote session;
            done = session\<lparr>ss_config_key_pending := False, ss_config_key_length := 0\<rparr>
        in if byte = 0x03
           then (done, write_prompt remote (ss_current_directory session) (console_write_line remote (bytes_of ''^C'') env))
           else if byte = 0x0D \<or> byte = 0x0A
           then
             let key = (ss_config_key session)[ss_config_key_length session := 0];
                 env = console_write_line remote [] env;
                 env =
                   (case se_config env of
                      None \<Rightarrow> console_write_line remote (bytes_of ''config: invalid key or write failed'') env
                    | Some config \<Rightarrow>
                        (case arwill_config_set_remote_key config (Some (c_string key)) of
                           (ok, config) \<Rightarrow>
                             let env = env\<lparr>se_config := Some config\<rparr>
                             in if ok
                                then console_write_line remote (bytes_of ''config: saved'')
                                  (env\<lparr>se_log := arwill_event_log_record (se_log env) Log_info Log_config Log_config_changed 0 0\<rparr>)
                                else console_write_line remote (bytes_of ''config: invalid key or write failed'') env))
             in (done\<lparr>ss_config_key := key\<rparr>, write_prompt remote (ss_current_directory session) env)
           else if byte = 0x08 \<or> byte = 0x7F
           then (session\<lparr>ss_config_key_length := ss_config_key_length session - 1\<rparr>, env)
           else if is_printable_ascii byte \<and> byte \<noteq> chr CHR ''='' \<and>
             ss_config_key_length session + 1 < arwill_config_remote_key_capacity
           then (session\<lparr>ss_config_key := (ss_config_key session)[ss_config_key_length session := byte],
                   ss_config_key_length := ss_config_key_length session + 1\<rparr>, env)
           else (session, env))"

definition escape_byte ::
    "u8 \<Rightarrow> ('n, 'k, 'f, 'g, 't, 'r, 'c) shell_state \<Rightarrow> ('n, 'k, 'f, 'g, 't, 'r, 'c) shell_state" where
  "escape_byte byte st =
     (case
        (if byte = chr CHR ''A'' then history_previous st
         else if byte = chr CHR ''B'' then history_next st
         else if byte = chr CHR ''C'' \<and> ss_cursor (fst st) < ss_length (fst st)
         then ((fst st)\<lparr>ss_cursor := ss_cursor (fst st) + 1\<rparr>, move_console_cursor_right (ss_remote (fst st)) 1 (snd st))
         else if byte = chr CHR ''D'' \<and> ss_cursor (fst st) \<noteq> 0
         then ((fst st)\<lparr>ss_cursor := ss_cursor (fst st) - 1\<rparr>, move_console_cursor_left (ss_remote (fst st)) 1 (snd st))
         else st) of
        (session, env) \<Rightarrow> (session\<lparr>ss_escape_state := Escape_none\<rparr>, env))"

text \<open>What follows the run of a command, and the end of a line: it is kept in the history and run.\<close>

definition finish_line ::
    "('n, 'k, 'f, 'g, 't, 'r, 'c) shell_environment shell_operations \<Rightarrow>
     bool \<times> bool \<times> ('n, 'k, 'f, 'g, 't, 'r, 'c) shell_state \<Rightarrow> bool \<times> ('n, 'k, 'f, 'g, 't, 'r, 'c) shell_state" where
  "finish_line ops result =
     (case result of
        (top_requested, close_requested, session, env) \<Rightarrow>
          let session = reset_shell_input session
          in if close_requested then (False, session, env)
             else
               let (session, env) =
                     (if top_requested
                      then
                        case arwill_clock_monotonic_milliseconds (se_clock env) of
                          (now, clock) \<Rightarrow>
                            let session = session\<lparr>ss_top_active := True, ss_top_last_refresh_milliseconds := now\<rparr>
                            in (session, so_render_top ops session (env\<lparr>se_clock := clock\<rparr>))
                      else (session, env));
                   env =
                     (if ss_foreground_pid session = 0 \<and> \<not> ss_config_key_pending session \<and> \<not> ss_top_active session
                      then write_prompt (ss_remote session) (ss_current_directory session) env else env)
               in (True, session, env))"

definition enter_line ::
    "('n, 'k, 'f, 'g, 't, 'r, 'c) shell_environment shell_operations \<Rightarrow> u8 \<Rightarrow>
     ('n, 'k, 'f, 'g, 't, 'r, 'c) shell_state \<Rightarrow> bool \<times> ('n, 'k, 'f, 'g, 't, 'r, 'c) shell_state" where
  "enter_line ops byte st =
     (case st of (session, env) \<Rightarrow>
        let session = (if ss_remote session \<and> byte = 0x0D then session\<lparr>ss_ignore_line_feed := True\<rparr> else session);
            session = session\<lparr>ss_line := (ss_line session)[ss_length session := 0]\<rparr>;
            env = console_write_line (ss_remote session) [] env;
            history = history_add (ss_history session) (ss_line session);
            session = session\<lparr>ss_history := history, ss_history_position := hi_count history\<rparr>
        in finish_line ops (so_run_command ops session env (c_string (ss_line session))))"

definition handle_shell_byte ::
    "('n, 'k, 'f, 'g, 't, 'r, 'c) shell_environment shell_operations \<Rightarrow> u8 \<Rightarrow>
     ('n, 'k, 'f, 'g, 't, 'r, 'c) shell_state \<Rightarrow> bool \<times> ('n, 'k, 'f, 'g, 't, 'r, 'c) shell_state" where
  "handle_shell_byte ops byte st =
     (case st of (session, env) \<Rightarrow>
        let remote = ss_remote session
        in if ss_config_key_pending session then (True, config_key_byte byte (session, env))
           else if ss_top_active session
           then
             (if byte = 0x03 \<or> byte = chr CHR ''q''
              then
                let session = reset_shell_input (session\<lparr>ss_top_active := False\<rparr>);
                    env = console_write remote (0x1B # bytes_of ''[2J'' @ 0x1B # bytes_of ''[H'') env
                in (True, session, write_prompt remote (ss_current_directory session) env)
              else (True, session, env))
           else if ss_foreground_pid session \<noteq> 0
           then
             (if byte = 0x03
              then (True, session, console_write_line remote (bytes_of ''^C'')
                (env\<lparr>se_user_runtime := snd (arwill_user_cancel (se_user_runtime env) (ss_foreground_pid session) 130)\<rparr>))
              else (True, session,
                env\<lparr>se_user_runtime := snd (arwill_user_deliver_input (se_user_runtime env) (ss_foreground_pid session) byte)\<rparr>))
           else if byte = 0x0A \<and> ss_ignore_line_feed session
           then (True, session\<lparr>ss_ignore_line_feed := False\<rparr>, env)
           else
             let session = session\<lparr>ss_ignore_line_feed := False\<rparr>
             in if byte = 0x03
                then
                  let session = (reset_shell_input session)\<lparr>ss_history_position := hi_count (ss_history session)\<rparr>
                  in (True, session, write_prompt remote (ss_current_directory session)
                        (console_write_line remote (bytes_of ''^C'') env))
                else if ss_escape_state session = Escape_started
                then (True, session\<lparr>ss_escape_state :=
                        (if byte = chr CHR ''['' \<or> byte = chr CHR ''O'' then Escape_bracket else Escape_none)\<rparr>, env)
                else if ss_escape_state session = Escape_bracket then (True, escape_byte byte (session, env))
                else if byte = 0x1B then (True, session\<lparr>ss_escape_state := Escape_started\<rparr>, env)
                else if byte = 0x0D \<or> byte = 0x0A then enter_line ops byte (session, env)
                else if byte = 0x08 \<or> byte = 0x7F then (True, erase_char_before_cursor (session, env))
                else if byte = 0x09
                then
                  (if ss_cursor session \<noteq> ss_length session then (True, session, env)
                   else
                     case so_complete_line ops session env of
                       (line, len, env) \<Rightarrow>
                         (True, session\<lparr>ss_line := line, ss_length := len, ss_cursor := len\<rparr>, env))
                else
                  case normalize_text_input_byte (ss_normalizer session) byte of
                    (input, normalizer) \<Rightarrow>
                      let session = session\<lparr>ss_normalizer := normalizer\<rparr>
                      in case input of
                           None \<Rightarrow> (True, session, env)
                         | Some input_char \<Rightarrow>
                             (True, snd (insert_char_into_line input_char
                                (session\<lparr>ss_history_position := hi_count (ss_history session)\<rparr>, env))))"

end
