(* ===== verification/Shell_Line.thy ===== *)
theory Shell_Line
  imports Shell_Session Shifts
begin

text \<open>
  The line of a session against its specification: the bytes before the cursor and those after it,
  the keys as operations on them, and the history as the last lines that were entered.
\<close>

section \<open>The state of a line\<close>

definition line_of :: "shell_session \<Rightarrow> bytes" where
  "line_of s = take (ss_length s) (ss_line s)"

definition line_view :: "shell_session \<Rightarrow> bytes \<times> bytes" where
  "line_view s = (take (ss_cursor s) (line_of s), drop (ss_cursor s) (line_of s))"

definition history_ok :: "shell_history \<Rightarrow> bool" where
  "history_ok h \<longleftrightarrow> length (hi_entries h) = 8 \<and> hi_count h \<le> 8 \<and>
     (\<forall>e\<in>set (take (hi_count h) (hi_entries h)). e \<noteq> [] \<and> 0 \<notin> set e \<and> length e \<le> 95)"

definition recent :: "shell_history \<Rightarrow> bytes list" where
  "recent h = take (hi_count h) (hi_entries h)"

definition session_ok :: "shell_session \<Rightarrow> bool" where
  "session_ok s \<longleftrightarrow> length (ss_line s) = 96 \<and> ss_cursor s \<le> ss_length s \<and> ss_length s \<le> 95 \<and>
     0 \<notin> set (line_of s) \<and> history_ok (ss_history s) \<and>
     length (ss_config_key s) = 65 \<and> ss_config_key_length s \<le> 64 \<and>
     length (ss_authentication_key s) = 65 \<and> ss_authentication_key_length s \<le> 64"

lemma line_view_parts:
  "session_ok s \<Longrightarrow> line_view s = (take (ss_cursor s) (ss_line s), drop (ss_cursor s) (line_of s))"
  by (simp add: line_view_def line_of_def session_ok_def min_def)

lemma length_line_of: "session_ok s \<Longrightarrow> length (line_of s) = ss_length s"
  by (simp add: line_of_def session_ok_def)

lemma session_ok_cong:
  "ss_line s' = ss_line s \<Longrightarrow> ss_length s' = ss_length s \<Longrightarrow> ss_cursor s' = ss_cursor s \<Longrightarrow>
   ss_history s' = ss_history s \<Longrightarrow> ss_config_key s' = ss_config_key s \<Longrightarrow>
   ss_config_key_length s' = ss_config_key_length s \<Longrightarrow> ss_authentication_key s' = ss_authentication_key s \<Longrightarrow>
   ss_authentication_key_length s' = ss_authentication_key_length s \<Longrightarrow>
   session_ok s' = session_ok s \<and> line_view s' = line_view s \<and> line_of s' = line_of s"
  by (simp add: session_ok_def line_of_def line_view_def)

lemma session_ok_line:
  assumes "session_ok s" "length l = 96" "c \<le> n" "n \<le> 95" "0 \<notin> set (take n l)"
  shows "session_ok (s\<lparr>ss_line := l, ss_length := n, ss_cursor := c\<rparr>)"
  using assms by (simp add: session_ok_def line_of_def)

section \<open>Inserting, erasing and replacing\<close>

lemma insert_array:
  assumes "length l = 96" "c \<le> n" "n < 95"
    and l': "l' = (foldl (\<lambda>l k. l[k := l ! (k - 1)]) l (rev [c + 1..<n + 1]))[c := v, n + 1 := 0]"
  shows "length l' = 96" "take (n + 1) l' = take c l @ v # drop c (take n l)" "l' ! (n + 1) = 0"
proof -
  let ?d = "foldl (\<lambda>l k. l[k := l ! (k - 1)]) l (rev [c + 1..<n + 1])"
  have len: "length ?d = 96" using shift_right_length [of l] assms(1) by simp
  show "length l' = 96" "l' ! (n + 1) = 0" using len assms by simp_all
  show "take (n + 1) l' = take c l @ v # drop c (take n l)"
  proof (rule nth_equalityI)
    fix j assume "j < length (take (n + 1) l')"
    then have j: "j \<le> n" "j < length l" using l' len assms by auto
    have "n < length l" using assms by simp
    from shift_right [OF this assms(2) j(2)]
    have "l' ! j = (if j = c then v else if c < j then l ! (j - 1) else l ! j)"
      using l' len assms j by (auto simp: nth_list_update)
    then show "take (n + 1) l' ! j = (take c l @ v # drop c (take n l)) ! j"
      using j assms by (auto simp: nth_append nth_Cons')
  qed (use len assms in auto)
qed

lemma insert_char_view:
  assumes ok: "session_ok s" and v: "v \<noteq> 0" and r: "insert_char_into_line v (s, env) = (k, s', env')"
  shows "session_ok s'"
    and "line_view s' = (if length (line_of s) < 95 then (fst (line_view s) @ [v], snd (line_view s)) else line_view s)"
    and "ss_history s' = ss_history s" and "ss_escape_state s' = ss_escape_state s"
proof -
  let ?l = "ss_line s" and ?n = "ss_length s" and ?c = "ss_cursor s"
  let ?l' = "(foldl (\<lambda>l k. l[k := l ! (k - 1)]) ?l (rev [?c + 1..<?n + 1]))[?c := v, ?n + 1 := 0]"
  have s: "length ?l = 96" "?c \<le> ?n" "?n \<le> 95" "0 \<notin> set (take ?n ?l)" using ok by (simp_all add: session_ok_def line_of_def)
  have "session_ok s' \<and> line_view s' = (if length (line_of s) < 95 then (fst (line_view s) @ [v], snd (line_view s)) else line_view s)
      \<and> ss_history s' = ss_history s \<and> ss_escape_state s' = ss_escape_state s"
  proof (cases "?n < 95")
    case False
    then have "s' = s" using r s by (simp add: insert_char_into_line_def)
    then show ?thesis using False ok length_line_of [OF ok] by simp
  next
    case True
    note a = insert_array [OF s(1,2) True refl, of v]
    have s': "s' = s\<lparr>ss_line := ?l', ss_length := ?n + 1, ss_cursor := ?c + 1\<rparr>"
      using r True s(2) by (auto simp: insert_char_into_line_def Let_def)
    have z: "0 \<notin> set (take (?n + 1) ?l')"
    proof -
      have "set (take ?c ?l) \<subseteq> set (take ?n ?l)" using s(2) by (rule set_take_subset_set_take)
      then show ?thesis using a(2) s(4) v by (auto dest: in_set_dropD)
    qed
    have "session_ok s'" unfolding s' using True s z by (intro session_ok_line [OF ok a(1)]) simp_all
    moreover have "line_view s' = (take ?c ?l @ [v], drop ?c (take ?n ?l))"
    proof -
      have "line_of s' = take ?c ?l @ v # drop ?c (take ?n ?l)" using a(2) by (simp add: s' line_of_def)
      then show ?thesis using s by (simp add: line_view_def s' min_def)
    qed
    ultimately show ?thesis using True length_line_of [OF ok] line_view_parts [OF ok] by (simp add: s' line_of_def)
  qed
  then show "session_ok s'"
    and "line_view s' = (if length (line_of s) < 95 then (fst (line_view s) @ [v], snd (line_view s)) else line_view s)"
    and "ss_history s' = ss_history s" and "ss_escape_state s' = ss_escape_state s" by simp_all
qed

lemma take_shift:
  assumes "0 < c" "c \<le> n" "n < length l"
  shows "take (n - 1) (take (c - 1) l @ take (n - (c - 1)) (drop (c - 1 + 1) l) @ drop n l) =
    take (c - 1) l @ take (n - c) (drop c l)"
proof -
  obtain c' n' where cn: "c = Suc c'" "n = Suc n'" using assms by (cases c; cases n) auto
  have "length (take c' l) = c'" "length (take (Suc n' - c') (drop (Suc c') l)) = Suc n' - c'" "n' - c' \<le> Suc n' - c'"
    using assms cn by simp_all
  moreover have "take n' (take c' l) = take c' l" using assms cn by (simp add: min_absorb2)
  ultimately show ?thesis unfolding cn by (simp add: take_append min_absorb1)
qed

lemma erase_char_view:
  assumes ok: "session_ok s" and r: "erase_char_before_cursor (s, env) = (s', env')"
  shows "session_ok s'" and "line_view s' = (butlast (fst (line_view s)), snd (line_view s))"
    and "ss_history s' = ss_history s" and "ss_escape_state s' = ss_escape_state s"
proof -
  let ?l = "ss_line s" and ?n = "ss_length s" and ?c = "ss_cursor s"
  have s: "length ?l = 96" "?c \<le> ?n" "?n \<le> 95" "0 \<notin> set (take ?n ?l)" using ok by (simp_all add: session_ok_def line_of_def)
  have "session_ok s' \<and> line_view s' = (butlast (fst (line_view s)), snd (line_view s)) \<and>
      ss_history s' = ss_history s \<and> ss_escape_state s' = ss_escape_state s"
  proof (cases "?c = 0")
    case True
    then have "s' = s" using r by (simp add: erase_char_before_cursor_def)
    then show ?thesis using True ok by (simp add: line_view_def)
  next
    case False
    let ?l' = "foldl (\<lambda>l k. l[k := l ! (k + 1)]) ?l [?c - 1..<?n]"
    let ?nm = "if ?n - 1 = 0 then (ss_normalizer s)\<lparr>nm_russian_layout_active := False\<rparr> else ss_normalizer s"
    have s': "s' = s\<lparr>ss_line := ?l', ss_length := ?n - 1, ss_cursor := ?c - 1, ss_normalizer := ?nm\<rparr>"
      using r False by (auto simp: erase_char_before_cursor_def Let_def)
    have l': "?l' = take (?c - 1) ?l @ take (?n - (?c - 1)) (drop (?c - 1 + 1) ?l) @ drop ?n ?l"
      by (rule shift_left) (use s in auto)
    have t: "take (?n - 1) ?l' = take (?c - 1) ?l @ drop ?c (take ?n ?l)"
    proof -
      have "drop ?c (take ?n ?l) = take (?n - ?c) (drop ?c ?l)" by (simp add: drop_take)
      moreover have "take (?n - 1) ?l' = take (?c - 1) ?l @ take (?n - ?c) (drop ?c ?l)"
        unfolding l' by (rule take_shift) (use False s in auto)
      ultimately show ?thesis by simp
    qed
    have z: "0 \<notin> set (take (?n - 1) ?l')"
    proof -
      have "set (take (?c - 1) ?l) \<subseteq> set (take ?n ?l)" using s(2) by (intro set_take_subset_set_take) simp
      then show ?thesis unfolding t using s(4) by (auto dest: in_set_dropD)
    qed
    have "session_ok (s\<lparr>ss_line := ?l', ss_length := ?n - 1, ss_cursor := ?c - 1\<rparr>)"
    proof (rule session_ok_line [OF ok _ _ _ z])
      show "length ?l' = 96" unfolding l' using s False by simp
    qed (use s False in auto)
    then have "session_ok s'" unfolding s' by (simp add: session_ok_def line_of_def)
    moreover have "line_view s' = (take (?c - 1) ?l, drop ?c (take ?n ?l))"
    proof -
      have "line_of s' = take (?c - 1) ?l @ drop ?c (take ?n ?l)" using t by (simp add: s' line_of_def)
      moreover have "ss_cursor s' = ?c - 1" "length (take (?c - 1) ?l) = ?c - 1" using s by (simp_all add: s')
      ultimately show ?thesis by (simp add: line_view_def)
    qed
    ultimately show ?thesis
      using line_view_parts [OF ok] s by (simp add: s' line_of_def butlast_take)
  qed
  then show "session_ok s'" and "line_view s' = (butlast (fst (line_view s)), snd (line_view s))"
    and "ss_history s' = ss_history s" and "ss_escape_state s' = ss_escape_state s" by simp_all
qed

lemma replace_line_view:
  assumes ok: "session_ok s" and r: "replace_line t (s, env) = (s', env')"
  shows "session_ok s'" and "line_view s' = (take 95 (c_string t), [])"
    and "ss_history s' = ss_history s" and "ss_escape_state s' = ss_escape_state s"
proof -
  define u where "u = take 95 (c_string t)"
  let ?l = "(splice_at ((ss_line s)[0 := 0]) 0 u)[length u := 0]"
  have s': "s' = s\<lparr>ss_line := ?l, ss_length := length u, ss_cursor := length u\<rparr>"
    using r by (auto simp: replace_line_def Let_def u_def)
  have u: "length u \<le> 95" "0 \<notin> set u" by (auto simp: u_def dest: in_set_takeD)
  have l: "length ?l = 96" "take (length u) ?l = u"
    using ok u by (simp_all add: session_ok_def splice_at_def)
  show "session_ok s'" unfolding s' using l u by (intro session_ok_line [OF ok]) simp_all
  show "line_view s' = (take 95 (c_string t), [])" using l by (simp add: s' line_view_def line_of_def u_def [symmetric])
  show "ss_history s' = ss_history s" "ss_escape_state s' = ss_escape_state s" by (simp_all add: s')
qed

section \<open>The history\<close>

definition remember :: "bytes \<Rightarrow> bytes list \<Rightarrow> bytes list" where
  "remember line lines =
     (if line = [] \<or> (lines \<noteq> [] \<and> last lines = line) then lines
      else (if length lines = 8 then tl lines else lines) @ [line])"

lemma copy_string_fits: "length t \<le> 95 \<Longrightarrow> copy_string d 96 t = (True, t)"
  by (simp add: copy_string_def)

lemma history_shift:
  assumes "length es = 8" and fit: "\<forall>e\<in>set es. length e \<le> 95"
  shows "foldl (\<lambda>es k. es[k - 1 := snd (copy_string (es ! (k - 1)) 96 (es ! k))]) es [1..<8] = tl es @ [es ! 7]"
proof -
  obtain a b c d e f g h where es: "es = [a, b, c, d, e, f, g, h]"
    using assms(1) by (auto simp: numeral_eq_Suc length_Suc_conv)
  have "[1..<8] = [1, 2, 3, 4, 5, 6, 7 :: nat]" by (simp add: upt_rec)
  then show ?thesis using fit unfolding es by (simp add: copy_string_fits)
qed

lemma recent_last: "history_ok h \<Longrightarrow> recent h \<noteq> [] \<Longrightarrow> last (recent h) = hi_entries h ! (hi_count h - 1)"
  by (auto simp: recent_def history_ok_def last_conv_nth)

lemma recent_string: "history_ok h \<Longrightarrow> e \<in> set (recent h) \<Longrightarrow> e \<noteq> [] \<and> c_string e = e \<and> length e \<le> 95"
  by (auto simp: recent_def history_ok_def intro!: c_string_id)

lemma recent_length: "history_ok h \<Longrightarrow> length (recent h) = hi_count h"
  by (simp add: recent_def history_ok_def)

lemma recent_nonempty: "history_ok h \<Longrightarrow> recent h \<noteq> [] \<longleftrightarrow> 0 < hi_count h"
  using recent_length [of h] by (metis length_greater_0_conv)

lemma history_store:
  assumes es: "length es = 8" "n < 8" and t: "t \<noteq> []" "0 \<notin> set t" "length t \<le> 95"
    and old: "\<forall>e\<in>set (take n es). e \<noteq> [] \<and> 0 \<notin> set e \<and> length e \<le> 95"
    and h: "h = \<lparr>hi_entries = es[n := t], hi_count = n + 1\<rparr>"
  shows "history_ok h \<and> recent h = take n es @ [t]"
proof -
  have "take (n + 1) (es[n := t]) = take n es @ [t]" using es by (simp add: take_Suc_conv_app_nth)
  then show ?thesis using es t old by (auto simp: h history_ok_def recent_def)
qed

lemma history_add_recent:
  assumes ok: "history_ok h" and t: "c_string l = t" "length t \<le> 95"
  shows "history_ok (history_add h l) \<and> recent (history_add h l) = remember t (recent h)"
proof (cases "t = [] \<or> (recent h \<noteq> [] \<and> last (recent h) = t)")
  case True
  have "cs_at l 0 = 0 \<longleftrightarrow> t = []" using t(1) by (cases l) (auto simp: cs_at_def c_string_def split: if_splits)
  moreover have "hi_count h > 0 \<and> arwill_text_equals (hi_entries h ! (hi_count h - 1)) l"
    if "recent h \<noteq> [] \<and> last (recent h) = t"
    using that recent_last [OF ok] recent_string [OF ok last_in_set] recent_nonempty [OF ok] t(1)
    by (auto simp: arwill_text_equals_eq)
  ultimately have "history_add h l = h" using True unfolding history_add_def by auto
  then show ?thesis using ok True by (simp add: remember_def)
next
  case False
  have nz: "cs_at l 0 \<noteq> 0" using t(1) False by (cases l) (auto simp: cs_at_def c_string_def)
  have tn: "t \<noteq> []" "0 \<notin> set t" using False t(1) by auto
  have ne: "\<not> (hi_count h > 0 \<and> arwill_text_equals (hi_entries h ! (hi_count h - 1)) l)"
    using False recent_last [OF ok] recent_string [OF ok last_in_set] recent_nonempty [OF ok] t(1)
    by (auto simp: arwill_text_equals_eq)
  let ?h = "if hi_count h \<ge> 8
      then \<lparr>hi_entries = foldl (\<lambda>es k. es[k - 1 := snd (copy_string (es ! (k - 1)) 96 (es ! k))]) (hi_entries h) [1..<8], hi_count = 7\<rparr>
      else h"
  have add: "history_add h l = \<lparr>hi_entries = (hi_entries ?h)[hi_count ?h := t], hi_count = hi_count ?h + 1\<rparr>"
    using nz ne t copy_string_fits [OF t(2)] unfolding history_add_def Let_def by (auto simp del: upt_rec_numeral)
  have e8: "length (hi_entries h) = 8" "hi_count h \<le> 8"
    "\<forall>e\<in>set (take (hi_count h) (hi_entries h)). e \<noteq> [] \<and> 0 \<notin> set e \<and> length e \<le> 95"
    using ok by (simp_all add: history_ok_def)
  show ?thesis
  proof (cases "hi_count h = 8")
    case True
    have sh: "hi_entries ?h = tl (hi_entries h) @ [hi_entries h ! 7]" "hi_count ?h = 7"
      using True history_shift [OF e8(1)] e8 by simp_all
    let ?es = "tl (hi_entries h) @ [hi_entries h ! 7]"
    have add7: "history_add h l = \<lparr>hi_entries = ?es[7 := t], hi_count = 7 + 1\<rparr>" using add unfolding sh .
    have r: "take 7 ?es = tl (recent h)" using e8 True by (simp add: recent_def)
    have "set (tl (recent h)) \<subseteq> set (take (hi_count h) (hi_entries h))"
      by (cases "recent h") (auto simp: recent_def)
    then have old: "\<forall>e\<in>set (take 7 ?es). e \<noteq> [] \<and> 0 \<notin> set e \<and> length e \<le> 95" unfolding r using e8(3) by blast
    have "length ?es = 8" using e8(1) by simp
    from history_store [OF this _ tn t(2) old add7]
    have "history_ok (history_add h l) \<and> recent (history_add h l) = tl (recent h) @ [t]" unfolding r by simp
    then show ?thesis using False True recent_length [OF ok] by (auto simp: remember_def)
  next
    case less: False
    then have "history_ok (history_add h l) \<and> recent (history_add h l) = recent h @ [t]"
      using history_store [OF e8(1) _ tn t(2) e8(3), of "history_add h l"] add e8 by (simp add: recent_def)
    then show ?thesis using False less recent_length [OF ok] e8 by (auto simp: remember_def)
  qed
qed

section \<open>The keys\<close>

lemma russian_keys: "list_all (\<lambda>(c, k). is_printable_ascii (chr k) \<and> is_printable_ascii (ascii_to_uppercase (chr k))) russian_layout"
  by code_simp

lemma map_russian_printable: "map_russian_layout_codepoint c = Some v \<Longrightarrow> is_printable_ascii v"
proof -
  assume "map_russian_layout_codepoint c = Some v"
  then obtain d k where "map_of russian_layout d = Some k" "v = chr k \<or> v = ascii_to_uppercase (chr k)"
    by (auto simp: map_russian_layout_codepoint_def Let_def split: option.splits if_splits)
  then show ?thesis using map_of_SomeD russian_keys unfolding list_all_iff by fastforce
qed

lemma normalize_printable:
  assumes "normalize_text_input_byte nm byte = (Some v, nm')"
  shows "is_printable_ascii v"
proof -
  have "is_printable_ascii slash" by (simp add: is_printable_ascii_def)
  then show ?thesis
    using assms map_russian_printable
    by (auto simp: normalize_text_input_byte_def normalize_russian_layout_ascii_def Let_def split: if_splits option.splits)
qed

lemma printable_nonzero: "is_printable_ascii v \<Longrightarrow> v \<noteq> 0"
  by (auto simp: is_printable_ascii_def)

datatype shell_key =
  Key_insert u8 | Key_erase | Key_left | Key_right | Key_previous | Key_next | Key_clear | Key_enter | Key_complete | Key_none

definition key_of :: "shell_session \<Rightarrow> u8 \<Rightarrow> shell_key" where
  "key_of s byte =
     (if byte = 0x0A \<and> ss_ignore_line_feed s then Key_none
      else if byte = 0x03 then Key_clear
      else case ss_escape_state s of
             Escape_started \<Rightarrow> Key_none
           | Escape_bracket \<Rightarrow>
               if byte = chr CHR ''A'' then Key_previous else if byte = chr CHR ''B'' then Key_next
               else if byte = chr CHR ''C'' then Key_right else if byte = chr CHR ''D'' then Key_left else Key_none
           | Escape_none \<Rightarrow>
               if byte = 0x1B then Key_none else if byte = 0x0D \<or> byte = 0x0A then Key_enter
               else if byte = 0x08 \<or> byte = 0x7F then Key_erase else if byte = 0x09 then Key_complete
               else case fst (normalize_text_input_byte (ss_normalizer s) byte) of
                      None \<Rightarrow> Key_none
                    | Some v \<Rightarrow> Key_insert v)"

text \<open>The lines of the history are numbered from the oldest; one past the newest stands the empty line.\<close>

fun line_key :: "shell_key \<Rightarrow> bytes list \<Rightarrow> nat \<Rightarrow> bytes \<times> bytes \<Rightarrow> bytes \<times> bytes" where
  "line_key (Key_insert v) lines position (before, after) =
     (if length before + length after < 95 then (before @ [v], after) else (before, after))"
| "line_key Key_erase lines position (before, after) = (butlast before, after)"
| "line_key Key_left lines position (before, after) =
     (if before = [] then (before, after) else (butlast before, last before # after))"
| "line_key Key_right lines position (before, after) =
     (if after = [] then (before, after) else (before @ [hd after], tl after))"
| "line_key Key_previous lines position (before, after) =
     (if lines = [] \<or> position = 0 then (before, after) else (lines ! (min position (length lines) - 1), []))"
| "line_key Key_next lines position (before, after) =
     (if position \<ge> length lines then (before, after)
      else if position + 1 = length lines then ([], []) else (lines ! (position + 1), []))"
| "line_key Key_clear lines position (before, after) = ([], [])"
| "line_key _ lines position (before, after) = (before, after)"

lemma line_view_move:
  assumes ok: "session_ok s"
  shows "ss_cursor s < ss_length s \<Longrightarrow> line_view (s\<lparr>ss_cursor := ss_cursor s + 1\<rparr>) = line_key Key_right ls p (line_view s)"
    and "ss_cursor s \<noteq> 0 \<Longrightarrow> line_view (s\<lparr>ss_cursor := ss_cursor s - 1\<rparr>) = line_key Key_left ls p (line_view s)"
    and "ss_cursor s \<ge> ss_length s \<Longrightarrow> line_key Key_right ls p (line_view s) = line_view s"
    and "ss_cursor s = 0 \<Longrightarrow> line_key Key_left ls p (line_view s) = line_view s"
proof -
  have l: "length (line_of s) = ss_length s" "ss_cursor s \<le> ss_length s"
    using length_line_of [OF ok] ok by (simp_all add: session_ok_def)
  have lo: "line_of (s\<lparr>ss_cursor := c\<rparr>) = line_of s" for c by (simp add: line_of_def)
  show "ss_cursor s < ss_length s \<Longrightarrow> line_view (s\<lparr>ss_cursor := ss_cursor s + 1\<rparr>) = line_key Key_right ls p (line_view s)"
    using l by (simp add: line_view_def lo take_Suc_conv_app_nth hd_drop_conv_nth drop_Suc tl_drop)
  show "ss_cursor s \<noteq> 0 \<Longrightarrow> line_view (s\<lparr>ss_cursor := ss_cursor s - 1\<rparr>) = line_key Key_left ls p (line_view s)"
  proof -
    assume "ss_cursor s \<noteq> 0"
    then obtain c where c: "ss_cursor s = Suc c" by (cases "ss_cursor s") auto
    have "line_view s = (take c (line_of s) @ [line_of s ! c], drop (Suc c) (line_of s))"
      using l c by (simp add: line_view_def take_Suc_conv_app_nth)
    moreover have "drop c (line_of s) = line_of s ! c # drop (Suc c) (line_of s)" using l c by (simp add: Cons_nth_drop_Suc)
    ultimately show ?thesis using c by (simp add: line_view_def lo)
  qed
  show "ss_cursor s \<ge> ss_length s \<Longrightarrow> line_key Key_right ls p (line_view s) = line_view s"
    "ss_cursor s = 0 \<Longrightarrow> line_key Key_left ls p (line_view s) = line_view s"
    using l by (simp_all add: line_view_def)
qed

lemma session_ok_cursor: "session_ok s \<Longrightarrow> c \<le> ss_length s \<Longrightarrow> session_ok (s\<lparr>ss_cursor := c\<rparr>)"
  by (simp add: session_ok_def line_of_def)

lemma recent_nth: "history_ok h \<Longrightarrow> i < hi_count h \<Longrightarrow> take 95 (c_string (hi_entries h ! i)) = recent h ! i"
  using recent_string [of h "recent h ! i"] recent_length [of h] nth_mem [of i "recent h"] by (simp add: recent_def)

lemma history_previous_view:
  assumes ok: "session_ok s" and r: "history_previous (s, env) = (s', env')"
  shows "session_ok s' \<and> ss_history s' = ss_history s \<and>
    line_view s' = line_key Key_previous (recent (ss_history s)) (ss_history_position s) (line_view s)"
proof -
  let ?h = "ss_history s" and ?p = "ss_history_position s"
  have hok: "history_ok ?h" using ok by (simp add: session_ok_def)
  note n = recent_nonempty [OF hok] recent_length [OF hok]
  let ?q = "if ?p > hi_count ?h then hi_count ?h else ?p"
  show ?thesis
  proof (cases "hi_count ?h = 0 \<or> ?q = 0")
    case True
    then have "s' = s \<or> s' = s\<lparr>ss_history_position := ?q\<rparr>" "recent ?h = [] \<or> ?p = 0"
      using r n by (auto simp: history_previous_def Let_def split: if_splits)
    then show ?thesis using ok session_ok_cong [of "s\<lparr>ss_history_position := ?q\<rparr>" s]
      by (cases "line_view s") auto
  next
    case False
    let ?s = "s\<lparr>ss_history_position := ?q - 1\<rparr>"
    have rl: "replace_line (hi_entries ?h ! (?q - 1)) (?s, env) = (s', env')"
      using r False by (auto simp: history_previous_def Let_def)
    have oks: "session_ok ?s" using ok session_ok_cong [of ?s s] by simp
    have q: "?q - 1 < hi_count ?h" "?q = min ?p (length (recent ?h))" "recent ?h \<noteq> []" "?p \<noteq> 0"
      using False n by (auto split: if_splits)
    have "line_view s' = (recent ?h ! (?q - 1), [])"
      using replace_line_view(2) [OF oks rl] recent_nth [OF hok q(1)] by (simp only:)
    then show ?thesis
      using replace_line_view(1,3) [OF oks rl] q by (cases "line_view s") simp
  qed
qed

lemma history_next_view:
  assumes ok: "session_ok s" and r: "history_next (s, env) = (s', env')"
  shows "session_ok s' \<and> ss_history s' = ss_history s \<and>
    line_view s' = line_key Key_next (recent (ss_history s)) (ss_history_position s) (line_view s)"
proof -
  let ?h = "ss_history s" and ?p = "ss_history_position s"
  have hok: "history_ok ?h" using ok by (simp add: session_ok_def)
  note n = recent_nonempty [OF hok] recent_length [OF hok]
  show ?thesis
  proof (cases "hi_count ?h = 0 \<or> ?p \<ge> hi_count ?h")
    case True
    then have "s' = s" using r by (auto simp: history_next_def Let_def)
    moreover have "?p \<ge> length (recent ?h)" using True n by auto
    ultimately show ?thesis using ok by (cases "line_view s") simp
  next
    case False
    let ?s = "s\<lparr>ss_history_position := ?p + 1\<rparr>"
    let ?t = "if ?p + 1 = hi_count ?h then [] else hi_entries ?h ! (?p + 1)"
    have rl: "replace_line ?t (?s, env) = (s', env')"
      using r False by (auto simp: history_next_def Let_def split: if_splits)
    have oks: "session_ok ?s" using ok session_ok_cong [of ?s s] by simp
    have "line_view s' = (if ?p + 1 = hi_count ?h then [] else recent ?h ! (?p + 1), [])"
      using replace_line_view(2) [OF oks rl] recent_nth [OF hok, of "?p + 1"] False by (auto simp: c_string_def)
    then show ?thesis
      using replace_line_view(1,3) [OF oks rl] False n by (cases "line_view s") simp
  qed
qed

lemma escape_byte_view:
  assumes ok: "session_ok s" and r: "escape_byte byte (s, env) = (s', env')"
  shows "session_ok s' \<and> ss_history s' = ss_history s \<and>
    line_view s' = line_key (if byte = chr CHR ''A'' then Key_previous else if byte = chr CHR ''B'' then Key_next
      else if byte = chr CHR ''C'' then Key_right else if byte = chr CHR ''D'' then Key_left else Key_none)
      (recent (ss_history s)) (ss_history_position s) (line_view s)"
proof -
  have d: "chr CHR ''A'' \<noteq> chr CHR ''B''" "chr CHR ''A'' \<noteq> chr CHR ''C''" "chr CHR ''A'' \<noteq> chr CHR ''D''"
    "chr CHR ''B'' \<noteq> chr CHR ''C''" "chr CHR ''B'' \<noteq> chr CHR ''D''" "chr CHR ''C'' \<noteq> chr CHR ''D''" by code_simp+
  obtain s1 env1 where e: "(if byte = chr CHR ''A'' then history_previous (s, env)
         else if byte = chr CHR ''B'' then history_next (s, env)
         else if byte = chr CHR ''C'' \<and> ss_cursor s < ss_length s
         then (s\<lparr>ss_cursor := ss_cursor s + 1\<rparr>, move_console_cursor_right (ss_remote s) 1 env)
         else if byte = chr CHR ''D'' \<and> ss_cursor s \<noteq> 0
         then (s\<lparr>ss_cursor := ss_cursor s - 1\<rparr>, move_console_cursor_left (ss_remote s) 1 env)
         else (s, env)) = (s1, env1)" by fastforce
  have "escape_byte byte (s, env) = (s1\<lparr>ss_escape_state := Escape_none\<rparr>, env1)"
    unfolding escape_byte_def fst_conv snd_conv e by simp
  then have s': "s' = s1\<lparr>ss_escape_state := Escape_none\<rparr>" using r by simp
  have "session_ok s1 \<and> ss_history s1 = ss_history s \<and>
    line_view s1 = line_key (if byte = chr CHR ''A'' then Key_previous else if byte = chr CHR ''B'' then Key_next
      else if byte = chr CHR ''C'' then Key_right else if byte = chr CHR ''D'' then Key_left else Key_none)
      (recent (ss_history s)) (ss_history_position s) (line_view s)"
  proof -
    consider "byte = chr CHR ''A''" | "byte = chr CHR ''B''" | "byte = chr CHR ''C''" | "byte = chr CHR ''D''"
      | "byte \<notin> {chr CHR ''A'', chr CHR ''B'', chr CHR ''C'', chr CHR ''D''}" by blast
    then show ?thesis
    proof cases
      case 1
      then show ?thesis using e history_previous_view [OF ok] by simp
    next
      case 2
      then show ?thesis using e d history_next_view [OF ok] by simp
    next
      case 3
      then show ?thesis using e d ok line_view_move(1,3) [OF ok] session_ok_cursor [OF ok, of "ss_cursor s + 1"]
        by (cases "ss_cursor s < ss_length s") auto
    next
      case 4
      have "ss_cursor s \<le> ss_length s" using ok by (simp add: session_ok_def)
      then show ?thesis using 4 e d ok line_view_move(2,4) [OF ok] session_ok_cursor [OF ok, of "ss_cursor s - 1"]
        by (cases "ss_cursor s = 0") auto
    next
      case 5
      then show ?thesis using e ok by (cases "line_view s") auto
    qed
  qed
  then show ?thesis unfolding s' using session_ok_cong [of "s1\<lparr>ss_escape_state := Escape_none\<rparr>" s1] by simp
qed

section \<open>Properties\<close>

text \<open>A session at its prompt: no program in the foreground, no display, no key being asked for.\<close>

definition at_prompt :: "shell_session \<Rightarrow> bool" where
  "at_prompt s \<longleftrightarrow> \<not> ss_config_key_pending s \<and> \<not> ss_top_active s \<and> ss_foreground_pid s = 0"

lemma handle_byte_step:
  assumes "at_prompt s" and "\<not> (byte = 0x0A \<and> ss_ignore_line_feed s)" and "byte \<noteq> 0x03"
  shows "handle_shell_byte ops byte (s, env) =
    (let s = s\<lparr>ss_ignore_line_feed := False\<rparr>
     in if ss_escape_state s = Escape_started
        then (True, s\<lparr>ss_escape_state := (if byte = chr CHR ''['' \<or> byte = chr CHR ''O'' then Escape_bracket else Escape_none)\<rparr>, env)
        else if ss_escape_state s = Escape_bracket then (True, escape_byte byte (s, env))
        else if byte = 0x1B then (True, s\<lparr>ss_escape_state := Escape_started\<rparr>, env)
        else if byte = 0x0D \<or> byte = 0x0A then enter_line ops byte (s, env)
        else if byte = 0x08 \<or> byte = 0x7F then (True, erase_char_before_cursor (s, env))
        else if byte = 0x09 then (if ss_cursor s \<noteq> ss_length s then (True, s, env)
             else case so_complete_line ops s env of (line, len, env) \<Rightarrow>
                    (True, s\<lparr>ss_line := line, ss_length := len, ss_cursor := len\<rparr>, env))
        else case normalize_text_input_byte (ss_normalizer s) byte of
               (input, nm) \<Rightarrow>
                 (case input of
                    None \<Rightarrow> (True, s\<lparr>ss_normalizer := nm\<rparr>, env)
                  | Some v \<Rightarrow> (True, snd (insert_char_into_line v
                      (s\<lparr>ss_normalizer := nm, ss_history_position := hi_count (ss_history s)\<rparr>, env)))))"
  using assms unfolding at_prompt_def handle_shell_byte_def Let_def by (auto split: prod.splits option.splits)

lemma line_key_none [simp]: "line_key Key_none ls p v = v"
  by (cases v) simp

text \<open>The last part of \<open>handle_shell_byte\<close>, outside escape sequences.\<close>

lemma unescaped_key:
  assumes ok: "session_ok s" and esc: "ss_escape_state s = Escape_none"
    and o: "\<not> (byte = 0x0A \<and> ss_ignore_line_feed s)" "byte \<noteq> 0x03"
    and key: "key_of s byte \<notin> {Key_enter, Key_complete}"
    and h: "(let s = s\<lparr>ss_ignore_line_feed := False\<rparr>
        in if byte = 0x1B then (True, s\<lparr>ss_escape_state := Escape_started\<rparr>, env)
        else if byte = 0x0D \<or> byte = 0x0A then enter_line ops byte (s, env)
        else if byte = 0x08 \<or> byte = 0x7F then (True, erase_char_before_cursor (s, env))
        else if byte = 0x09 then (if ss_cursor s \<noteq> ss_length s then (True, s, env)
             else case so_complete_line ops s env of (line, len, env) \<Rightarrow>
                    (True, s\<lparr>ss_line := line, ss_length := len, ss_cursor := len\<rparr>, env))
        else case normalize_text_input_byte (ss_normalizer s) byte of
               (input, nm) \<Rightarrow>
                 (case input of
                    None \<Rightarrow> (True, s\<lparr>ss_normalizer := nm\<rparr>, env)
                  | Some v \<Rightarrow> (True, snd (insert_char_into_line v
                      (s\<lparr>ss_normalizer := nm, ss_history_position := hi_count (ss_history s)\<rparr>, env))))) = (k, s', env')"
  shows "k \<and> session_ok s' \<and> ss_history s' = ss_history s \<and>
    line_view s' = line_key (key_of s byte) (recent (ss_history s)) (ss_history_position s) (line_view s)"
proof -
  let ?s = "s\<lparr>ss_ignore_line_feed := False\<rparr>"
  have same: "session_ok u \<and> line_view u = line_view s \<and> line_of u = line_of s"
    if "u = ?s\<lparr>ss_escape_state := e\<rparr> \<or> u = ?s\<lparr>ss_normalizer := nm\<rparr> \<or> u = ?s \<or>
      u = ?s\<lparr>ss_normalizer := nm, ss_history_position := q\<rparr>" for u e nm q
    using ok that session_ok_cong [of u s] by auto
  have "byte \<noteq> 0x0D" "byte \<noteq> 0x0A" "byte \<noteq> 0x09"
    by (rule notI, use key esc o in \<open>simp add: key_of_def\<close>)+
  then consider (escape) "byte = 0x1B" | (erase) "byte \<noteq> 0x1B" "byte = 0x08 \<or> byte = 0x7F"
    | (typed) "byte \<notin> {0x1B, 0x0D, 0x0A, 0x08, 0x7F, 0x09}"
    by blast
  then show ?thesis
  proof cases
    case escape
    then have "k \<and> s' = ?s\<lparr>ss_escape_state := Escape_started\<rparr>" using h by auto
    moreover have "key_of s byte = Key_none" using escape o \<open>ss_escape_state s = Escape_none\<close> by (simp add: key_of_def)
    ultimately show ?thesis using same [of s'] by auto
  next
    case erase
    then have e: "k \<and> erase_char_before_cursor (?s, env) = (s', env')" using h by auto
    have "key_of s byte = Key_erase" using erase o \<open>ss_escape_state s = Escape_none\<close> by (auto simp: key_of_def)
    then show ?thesis using erase_char_view [of ?s env s' env'] same [of ?s] e by (cases "line_view s") simp
  next
    case typed
    obtain i nm where n: "normalize_text_input_byte (ss_normalizer s) byte = (i, nm)" by fastforce
    have key: "key_of s byte = (case i of None \<Rightarrow> Key_none | Some v \<Rightarrow> Key_insert v)"
      using typed o n \<open>ss_escape_state s = Escape_none\<close> by (auto simp: key_of_def)
    show ?thesis
    proof (cases i)
      case None
      then have "k \<and> s' = ?s\<lparr>ss_normalizer := nm\<rparr>" using h n typed by auto
      then show ?thesis using same [of s'] key None by auto
    next
      case (Some v)
      let ?u = "?s\<lparr>ss_normalizer := nm, ss_history_position := hi_count (ss_history s)\<rparr>"
      obtain b s1 env1 where ins: "insert_char_into_line v (?u, env) = (b, s1, env1)" by (metis prod_cases3)
      then have s1: "k \<and> s' = s1" using h n typed Some by auto
      have v: "v \<noteq> 0" using normalize_printable [of "ss_normalizer s" byte v nm] n Some printable_nonzero by simp
      have u: "session_ok ?u" "line_view ?u = line_view s" "line_of ?u = line_of s" using same [of ?u] by auto
      have "length (line_of s) = length (fst (line_view s)) + length (snd (line_view s))" by (simp add: line_view_def)
      then show ?thesis using insert_char_view [OF u(1) v ins] u s1 key Some by (cases "line_view s") simp
    qed
  qed
qed

lemma plain_key:
  assumes ok: "session_ok s" and pr: "at_prompt s" and key: "key_of s byte \<notin> {Key_enter, Key_complete}"
    and r: "handle_shell_byte ops byte (s, env) = (k, s', env')"
  shows "k \<and> session_ok s' \<and> ss_history s' = ss_history s \<and>
    line_view s' = line_key (key_of s byte) (recent (ss_history s)) (ss_history_position s) (line_view s)"
proof -
  let ?s = "s\<lparr>ss_ignore_line_feed := False\<rparr>"
  have oks: "session_ok ?s" "line_view ?s = line_view s" "line_of ?s = line_of s" using ok session_ok_cong [of ?s s] by simp_all
  consider (ignored) "byte = 0x0A \<and> ss_ignore_line_feed s" | (interrupt) "byte = 0x03"
    | (other) "\<not> (byte = 0x0A \<and> ss_ignore_line_feed s)" "byte \<noteq> 0x03" by blast
  then show ?thesis
  proof cases
    case ignored
    then have "k \<and> s' = ?s" using r pr by (auto simp: handle_shell_byte_def at_prompt_def)
    then show ?thesis using ignored oks by (simp add: key_of_def)
  next
    case interrupt
    then have "k \<and> s' = (reset_shell_input ?s)\<lparr>ss_history_position := hi_count (ss_history s)\<rparr>"
      using r pr by (auto simp: handle_shell_byte_def at_prompt_def Let_def reset_shell_input_def)
    then show ?thesis using interrupt ok
      by (cases "line_view s") (simp add: key_of_def reset_shell_input_def session_ok_def line_view_def line_of_def)
  next
    case other
    note h = r [unfolded handle_byte_step [OF pr other] Let_def]
    show ?thesis
    proof (cases "ss_escape_state s")
      case Escape_started
      then obtain e where s': "k \<and> s' = ?s\<lparr>ss_escape_state := e\<rparr>" using h by auto
      have "session_ok (?s\<lparr>ss_escape_state := e\<rparr>)" "line_view (?s\<lparr>ss_escape_state := e\<rparr>) = line_view s"
        using ok session_ok_cong [of "?s\<lparr>ss_escape_state := e\<rparr>" s] by simp_all
      moreover have "key_of s byte = Key_none" using Escape_started other by (auto simp: key_of_def)
      ultimately show ?thesis using s' by simp
    next
      case Escape_bracket
      then have "k" "escape_byte byte (?s, env) = (s', env')" using h by simp_all
      moreover have "key_of s byte = (if byte = chr CHR ''A'' then Key_previous else if byte = chr CHR ''B'' then Key_next
          else if byte = chr CHR ''C'' then Key_right else if byte = chr CHR ''D'' then Key_left else Key_none)"
        unfolding key_of_def if_not_P [OF other(1)] if_not_P [OF other(2)] Escape_bracket shell_escape_state.case ..
      ultimately show ?thesis using escape_byte_view [OF oks(1), of byte env s' env'] oks(2) by (simp only:) simp
    next
      case Escape_none
      show ?thesis
        by (rule unescaped_key [OF ok Escape_none other key]) (use h Escape_none in \<open>simp add: Let_def\<close>)
    qed
  qed
qed

lemma enter_key:
  assumes ok: "session_ok s" and pr: "at_prompt s" and key: "key_of s byte = Key_enter"
  shows "\<exists>s1 env1. handle_shell_byte ops byte (s, env) = finish_line ops (so_run_command ops s1 env1 (line_of s)) \<and>
    session_ok s1 \<and> recent (ss_history s1) = remember (line_of s) (recent (ss_history s)) \<and>
    ss_current_directory s1 = ss_current_directory s"
proof -
  have b: "byte = 0x0D \<or> byte = 0x0A" "\<not> (byte = 0x0A \<and> ss_ignore_line_feed s)" "byte \<noteq> 0x03" "ss_escape_state s = Escape_none"
    using key by (auto simp: key_of_def split: if_splits shell_escape_state.splits option.splits)
  define l where "l = (ss_line s)[ss_length s := 0]"
  have n: "length (ss_line s) = 96" "ss_length s \<le> 95" "0 \<notin> set (line_of s)" using ok by (simp_all add: session_ok_def)
  have "l = line_of s @ 0 # drop (Suc (ss_length s)) (ss_line s)"
    unfolding l_def line_of_def using n by (simp add: upd_conv_take_nth_drop)
  then have cl: "c_string l = line_of s" using n(3) c_string_id [of "line_of s"] by (simp add: c_string_def takeWhile_append2 takeWhile_eq_all_conv)
  have fits: "length (line_of s) \<le> 95" using n by (simp add: line_of_def)
  have hok: "history_ok (ss_history s)" using ok by (simp add: session_ok_def)
  note ha = history_add_recent [OF hok cl fits]
  let ?s1 = "s\<lparr>ss_ignore_line_feed := ss_remote s \<and> byte = 0x0D, ss_line := l, ss_history := history_add (ss_history s) l,
    ss_history_position := hi_count (history_add (ss_history s) l)\<rparr>"
  have "handle_shell_byte ops byte (s, env) = finish_line ops (so_run_command ops ?s1 (console_write_line (ss_remote s) [] env) (line_of s))"
    using b unfolding handle_byte_step [OF pr b(2,3)] Let_def
    by (auto simp: enter_line_def Let_def l_def [symmetric] cl)
  moreover have "session_ok ?s1"
    using ok ha n by (simp add: session_ok_def line_of_def l_def)
  ultimately show ?thesis using ha by (intro exI [of _ ?s1] exI conjI) (simp_all add: l_def)
qed


definition blank_session :: shell_session where
  "blank_session = \<lparr>ss_line = replicate 96 0, ss_current_directory = [slash], ss_length = 0, ss_cursor = 0,
     ss_history = \<lparr>hi_entries = replicate 8 [], hi_count = 0\<rparr>, ss_history_position = 0, ss_escape_state = Escape_none,
     ss_normalizer = \<lparr>nm_utf8_state = Utf8_none, nm_utf8_lead = 0, nm_russian_layout_active = False\<rparr>,
     ss_remote = False, ss_active = True, ss_ignore_line_feed = False, ss_foreground_pid = 0,
     ss_config_key_pending = False, ss_config_key = replicate 65 0, ss_config_key_length = 0, ss_authenticated = True,
     ss_authentication_attempts = 0, ss_authentication_started_milliseconds = 0, ss_authentication_key = replicate 65 0,
     ss_authentication_key_length = 0, ss_tcp_timeouts_at_connection = 0, ss_top_active = False,
     ss_top_last_refresh_milliseconds = 0\<rparr>"

definition blank_environment :: "(unit, unit, unit, unit, unit, unit, bytes) shell_environment" where
  "blank_environment = \<lparr>se_ipv4 = None, se_remote_stream = None, se_clock = None, se_user_runtime = None, se_config = None,
     se_log = None, se_console = Some \<lparr>co_context = [], co_write = Some (@)\<rparr>\<rparr>"

lemma blank_session_ok: "session_ok blank_session" "at_prompt blank_session"
  by (simp_all add: session_ok_def history_ok_def line_of_def at_prompt_def blank_session_def)


end
