(* ===== verification/Shell_Login.thy ===== *)
theory Shell_Login
  imports Shell_Line Ipv4_Properties
begin

text \<open>
  \<open>kernel/shell.c\<close>: the remote session, from the connection to the login and the end. One call of
  \<open>service_remote_shell\<close> handles at most one byte of the stream of the console.
\<close>

section \<open>Definitions\<close>

abbreviation (input) remote_authentication_max_attempts :: u32 where "remote_authentication_max_attempts \<equiv> 3"
abbreviation (input) remote_authentication_timeout_ms :: u64 where "remote_authentication_timeout_ms \<equiv> 30000"

text \<open>The stream of the console, if there is one.\<close>

definition remote_stream :: "('n, 'k, 'f, 'g, 't, 'r, 'c) shell_environment \<Rightarrow> arwill_tcp_stream option" where
  "remote_stream env =
     (case (se_ipv4 env, se_remote_stream env) of
        (Some ipv4, Some stream) \<Rightarrow> Some (ep_stream (endpoint_at ipv4 stream))
      | _ \<Rightarrow> None)"

definition update_remote_stream ::
    "(arwill_tcp_stream \<Rightarrow> arwill_tcp_stream) \<Rightarrow> ('n, 'k, 'f, 'g, 't, 'r, 'c) shell_environment \<Rightarrow>
     ('n, 'k, 'f, 'g, 't, 'r, 'c) shell_environment" where
  "update_remote_stream f env =
     (case (se_ipv4 env, se_remote_stream env) of
        (Some ipv4, Some stream) \<Rightarrow> env\<lparr>se_ipv4 := Some (with_endpoint stream (update_stream f) ipv4)\<rparr>
      | _ \<Rightarrow> env)"

definition remote_peer_address :: "arwill_tcp_stream option \<Rightarrow> u64" where
  "remote_peer_address stream =
     (case stream of
        None \<Rightarrow> 0
      | Some s \<Rightarrow>
          let address = arwill_tcp_stream_peer_address s
          in or (or (or (push_bit 24 (ucast (address ! 0))) (push_bit 16 (ucast (address ! 1))))
               (push_bit 8 (ucast (address ! 2)))) (ucast (address ! 3)))"

definition record_remote_event ::
    "arwill_log_severity \<Rightarrow> arwill_log_subsystem \<Rightarrow> arwill_log_code \<Rightarrow> u64 \<Rightarrow>
     ('n, 'k, 'f, 'g, 't, 'r, 'c) shell_environment \<Rightarrow> ('n, 'k, 'f, 'g, 't, 'r, 'c) shell_environment" where
  "record_remote_event severity subsystem code detail env =
     env\<lparr>se_log := arwill_event_log_record (se_log env) severity subsystem code
       (remote_peer_address (remote_stream env)) detail\<rparr>"

text \<open>The loop over the bytes of \<open>size_t length_difference\<close>.\<close>

fun or_length_bytes :: "nat \<Rightarrow> u64 \<Rightarrow> u8 \<Rightarrow> u8" where
  "or_length_bytes 0 length_difference difference = difference"
| "or_length_bytes (Suc n) length_difference difference =
     or_length_bytes n (drop_bit 8 length_difference) (or difference (ucast length_difference))"

definition constant_time_key_matches :: "'f arwill_config option \<Rightarrow> bytes \<Rightarrow> nat \<Rightarrow> bool" where
  "constant_time_key_matches config candidate candidate_length =
     (case config of
        None \<Rightarrow> False
      | Some c \<Rightarrow>
          if cs_at (cfg_remote_key c) 0 = 0 then False
          else
            let (difference, configured_length) =
                  foldl (\<lambda>(difference, configured_length) index.
                      let expected = cs_at (cfg_remote_key c) index;
                          received = (if index < candidate_length then candidate ! index else 0)
                      in (or difference (xor expected received),
                          if expected \<noteq> 0 then configured_length + 1 else configured_length))
                    (0 :: u8, 0 :: nat) [0..<arwill_config_remote_key_capacity]
            in or_length_bytes 8 (xor (of_nat configured_length) (of_nat candidate_length)) difference = 0)"

definition handle_authentication_byte ::
    "u8 \<Rightarrow> ('n, 'k, 'f, 'g, 't, 'r, 'c) shell_state \<Rightarrow> bool \<times> ('n, 'k, 'f, 'g, 't, 'r, 'c) shell_state" where
  "handle_authentication_byte byte st =
     (case st of (session, env) \<Rightarrow>
        if byte = 0x0A \<and> ss_ignore_line_feed session then (True, session\<lparr>ss_ignore_line_feed := False\<rparr>, env)
        else
          let session = session\<lparr>ss_ignore_line_feed := False\<rparr>; remote = ss_remote session
          in if byte = 0x0D \<or> byte = 0x0A
             then
               let session = (if byte = 0x0D then session\<lparr>ss_ignore_line_feed := True\<rparr> else session);
                   session = session\<lparr>ss_authentication_key :=
                     (ss_authentication_key session)[ss_authentication_key_length session := 0]\<rparr>
               in if constant_time_key_matches (se_config env) (ss_authentication_key session)
                       (ss_authentication_key_length session)
                  then
                    let session = session\<lparr>ss_authenticated := True\<rparr>;
                        env = record_remote_event Log_info Log_auth Log_auth_accepted
                          (ucast (ss_authentication_attempts session + 1)) env;
                        session = session\<lparr>ss_authentication_key_length := 0\<rparr>;
                        env = console_write_line remote [] env;
                        env = console_write_line remote (bytes_of ''Arwill remote console'') env;
                        env = console_write_line remote (bytes_of ''warning: plaintext trusted-LAN access'') env
                    in (True, session, write_prompt remote (ss_current_directory session) env)
                  else
                    let session = session\<lparr>ss_authentication_attempts := ss_authentication_attempts session + 1\<rparr>;
                        env = record_remote_event Log_warning Log_auth Log_auth_rejected
                          (ucast (ss_authentication_attempts session)) env;
                        session = session\<lparr>ss_authentication_key_length := 0\<rparr>;
                        env = console_write_line remote [] env
                    in if ss_authentication_attempts session \<ge> remote_authentication_max_attempts
                       then (False, session, console_write_line remote (bytes_of ''Access denied'') env)
                       else (True, session, console_write remote (bytes_of ''Access key: '')
                              (console_write_line remote (bytes_of ''Access denied'') env))
             else if byte = 0x08 \<or> byte = 0x7F
             then (True, session\<lparr>ss_authentication_key_length := ss_authentication_key_length session - 1\<rparr>, env)
             else if is_printable_ascii byte \<and> ss_authentication_key_length session + 1 < arwill_config_remote_key_capacity
             then (True, session\<lparr>ss_authentication_key :=
                     (ss_authentication_key session)[ss_authentication_key_length session := byte],
                     ss_authentication_key_length := ss_authentication_key_length session + 1\<rparr>, env)
             else (True, session, env))"

definition cancel_remote_program ::
    "('n, 'k, 'f, 'g, 't, 'r, 'c) shell_state \<Rightarrow> ('n, 'k, 'f, 'g, 't, 'r, 'c) shell_state" where
  "cancel_remote_program st =
     (case st of (session, env) \<Rightarrow>
        if ss_foreground_pid session \<noteq> 0
        then (session\<lparr>ss_foreground_pid := 0\<rparr>,
          env\<lparr>se_user_runtime := snd (arwill_user_cancel (se_user_runtime env) (ss_foreground_pid session) 130)\<rparr>)
        else (session, env))"

definition peer_port_of :: "('n, 'k, 'f, 'g, 't, 'r, 'c) shell_environment \<Rightarrow> u64" where
  "peer_port_of env = (case remote_stream env of None \<Rightarrow> 0 | Some s \<Rightarrow> ucast (arwill_tcp_stream_peer_port s))"

definition close_remote_session ::
    "('n, 'k, 'f, 'g, 't, 'r, 'c) shell_state \<Rightarrow> ('n, 'k, 'f, 'g, 't, 'r, 'c) shell_state" where
  "close_remote_session st =
     (case cancel_remote_program st of (session, env) \<Rightarrow>
        let session = session\<lparr>ss_top_active := False\<rparr>;
            env = record_remote_event Log_info Log_network Log_tcp_disconnected (peer_port_of env) env;
            env = update_remote_stream arwill_tcp_stream_close env
        in (session\<lparr>ss_active := False\<rparr>, env))"

definition read_clock_ms ::
    "('n, 'k, 'f, 'g, 't, 'r, 'c) shell_environment \<Rightarrow> u64 \<times> ('n, 'k, 'f, 'g, 't, 'r, 'c) shell_environment" where
  "read_clock_ms env =
     (case arwill_clock_monotonic_milliseconds (se_clock env) of (now, clock) \<Rightarrow> (now, env\<lparr>se_clock := clock\<rparr>))"

text \<open>The parts of \<open>service_remote_shell\<close>: a lost connection, a new one, and one byte.\<close>

definition remote_lost ::
    "u32 \<Rightarrow> ('n, 'k, 'f, 'g, 't, 'r, 'c) shell_state \<Rightarrow> ('n, 'k, 'f, 'g, 't, 'r, 'c) shell_state" where
  "remote_lost tcp_timeouts st =
     (case st of (session, env) \<Rightarrow>
        let (session, env) =
              (if ss_active session
               then
                 case cancel_remote_program (session, env) of
                   (session, env) \<Rightarrow>
                     let env = (if tcp_timeouts > ss_tcp_timeouts_at_connection session
                                then record_remote_event Log_warning Log_network Log_tcp_timeout (ucast tcp_timeouts) env else env)
                     in (session, record_remote_event Log_info Log_network Log_tcp_disconnected (peer_port_of env) env)
               else (session, env))
        in (session\<lparr>ss_active := False\<rparr>, env))"

definition remote_connected ::
    "u32 \<Rightarrow> ('n, 'k, 'f, 'g, 't, 'r, 'c) shell_state \<Rightarrow> ('n, 'k, 'f, 'g, 't, 'r, 'c) shell_state" where
  "remote_connected tcp_timeouts st =
     (case st of (session, env) \<Rightarrow>
        if ss_active session then (session, env)
        else
          let session = initialize_shell_session session True;
              (now, env) = read_clock_ms env;
              session = session\<lparr>ss_authentication_started_milliseconds := now, ss_tcp_timeouts_at_connection := tcp_timeouts\<rparr>;
              env = record_remote_event Log_info Log_network Log_tcp_connected (peer_port_of env) env
          in (session, console_write (ss_remote session) (bytes_of ''Access key: '') env))"

definition remote_byte ::
    "('n, 'k, 'f, 'g, 't, 'r, 'c) shell_environment shell_operations \<Rightarrow>
     ('n, 'k, 'f, 'g, 't, 'r, 'c) shell_state \<Rightarrow> ('n, 'k, 'f, 'g, 't, 'r, 'c) shell_state" where
  "remote_byte ops st =
     (case st of (session, env) \<Rightarrow>
        case remote_stream env of
          None \<Rightarrow> (session, env)
        | Some stream \<Rightarrow>
            (case arwill_tcp_stream_read stream (Some [0]) 1 of
               (bytes_read, buffer, stream) \<Rightarrow>
                 let env = update_remote_stream (\<lambda>_. stream) env; byte = hd (the buffer)
                 in if bytes_read = 1
                    then
                      (case (if ss_authenticated session then handle_shell_byte ops byte (session, env)
                             else handle_authentication_byte byte (session, env)) of
                         (keep_open, st) \<Rightarrow> if keep_open then st else close_remote_session st)
                    else if bytes_read = 0 \<and> arwill_tcp_stream_peer_closed stream then close_remote_session (session, env)
                    else (session, env)))"

definition service_remote_shell ::
    "('n, 'k, 'f, 'g, 't, 'r, 'c) shell_environment shell_operations \<Rightarrow>
     ('n, 'k, 'f, 'g, 't, 'r, 'c) shell_state \<Rightarrow> ('n, 'k, 'f, 'g, 't, 'r, 'c) shell_state" where
  "service_remote_shell ops st =
     (case st of (session, env) \<Rightarrow>
        case (se_ipv4 env, remote_stream env) of
          (Some ipv4, Some stream) \<Rightarrow>
            if arwill_tcp_stream_close_requested stream then (session, env)
            else if \<not> arwill_tcp_stream_connected stream then remote_lost (ip_tcp_timeouts ipv4) (session, env)
            else
              (case remote_connected (ip_tcp_timeouts ipv4) (session, env) of
                 (session, env) \<Rightarrow>
                   let (expired, env) =
                         (if ss_authenticated session then (False, env)
                          else case read_clock_ms env of
                                 (now, env) \<Rightarrow>
                                   (now - ss_authentication_started_milliseconds session \<ge> remote_authentication_timeout_ms, env))
                   in if expired
                      then close_remote_session (session,
                        record_remote_event Log_warning Log_network Log_tcp_timeout remote_authentication_timeout_ms env)
                      else remote_byte ops (session, env))
        | _ \<Rightarrow> (session, env))"

section \<open>The comparison of keys\<close>

lemma or_zero_iff: "or (a :: u8) b = 0 \<longleftrightarrow> a = 0 \<and> b = 0"
  by (auto simp: bit_eq_iff bit_or_iff)

lemma xor_zero_iff: "xor (a :: 'a :: len word) b = 0 \<longleftrightarrow> a = b"
proof
  assume "xor a b = 0"
  then have "xor (xor a b) b = b" by simp
  then show "a = b" by (simp add: xor.assoc)
qed simp

lemma compare_loop:
  "foldl (\<lambda>(d, l) i. (or d (xor (e i) (r i)), if e i \<noteq> 0 then l + 1 else l)) (d :: u8, l :: nat) is = (d', l') \<Longrightarrow>
     (d' = 0 \<longleftrightarrow> d = 0 \<and> (\<forall>i\<in>set is. e i = r i)) \<and> l' = l + length (filter (\<lambda>i. e i \<noteq> 0) is)"
proof (induction "is" arbitrary: d l)
  case (Cons i js)
  have "foldl (\<lambda>(d, l) i. (or d (xor (e i) (r i)), if e i \<noteq> 0 then l + 1 else l))
      (or d (xor (e i) (r i)), if e i \<noteq> 0 then l + 1 else l) js = (d', l')" using Cons.prems by simp
  from Cons.IH [OF this] show ?case by (auto simp: or_zero_iff xor_zero_iff)
qed auto

lemma or_length_zero: "or_length_bytes n 0 d = d"
  by (induction n) simp_all

lemma or_length_nonzero: "d \<noteq> 0 \<Longrightarrow> or_length_bytes n x d \<noteq> 0"
  by (induction n arbitrary: x d) (simp_all add: or_zero_iff)

lemma length_bytes_eq:
  assumes "a < 256" "b < 256"
  shows "or_length_bytes 8 (xor (of_nat a) (of_nat b)) d = 0 \<longleftrightarrow> d = 0 \<and> a = b"
proof
  let ?x = "xor (of_nat a) (of_nat b) :: u64"
  assume z: "or_length_bytes 8 ?x d = 0"
  have "or_length_bytes 8 ?x d = or_length_bytes 7 (drop_bit 8 ?x) (or d (ucast ?x))" by (simp add: numeral_eq_Suc)
  then have "or d (ucast ?x) = 0" using z or_length_nonzero by metis
  then have d: "d = 0" "(ucast ?x :: u8) = 0" by (simp_all add: or_zero_iff)
  have "(ucast ?x :: u8) = xor (of_nat a) (of_nat b)" 
  proof -
    have "(ucast ?x :: u8) = xor (ucast (of_nat a :: u64)) (ucast (of_nat b :: u64))"
      by (rule bit_eqI) (auto simp: bit_simps)
    moreover have "(ucast (of_nat n :: u64) :: u8) = of_nat n" if "n < 256" for n
      using that by (simp add: unsigned_of_nat take_bit_nat_eq_self)
    ultimately show ?thesis using assms by simp
  qed
  then have "(of_nat a :: u8) = of_nat b" using d(2) xor_zero_iff by metis
  then have "a mod 256 = b mod 256" using unat_of_nat [of a, where 'a = 8] unat_of_nat [of b, where 'a = 8] by simp
  then have "a = b" using assms by simp
  then show "d = 0 \<and> a = b" using d by simp
qed (simp add: or_length_zero)

lemma key_matches_iff:
  assumes key: "0 \<notin> set (cfg_remote_key c)" "length (cfg_remote_key c) \<le> 64"
    and n: "n \<le> 64" "n \<le> length cand" and z: "0 \<notin> set (take n cand)"
  shows "constant_time_key_matches (Some c) cand n \<longleftrightarrow> cfg_remote_key c \<noteq> [] \<and> take n cand = cfg_remote_key c"
proof -
  let ?k = "cfg_remote_key c"
  let ?e = "cs_at ?k" and ?r = "\<lambda>i. if i < n then cand ! i else 0"
  obtain d l where f: "foldl (\<lambda>(d, l) i. (or d (xor (?e i) (?r i)), if ?e i \<noteq> 0 then l + 1 else l)) (0 :: u8, 0 :: nat) [0..<65] = (d, l)"
    by fastforce
  note cl = compare_loop [OF f]
  have ez: "?e i \<noteq> 0 \<longleftrightarrow> i < length ?k" for i using key(1) by (auto simp: cs_at_def in_set_conv_nth)
  have "filter (\<lambda>i. i < length ?k) [0..<65] = [0..<length ?k]"
  proof -
    have "[0..<65] = [0..<length ?k] @ [length ?k..<65]" using upt_add_eq_append [of 0 "length ?k" "65 - length ?k"] key(2) by simp
    then show ?thesis by (auto simp: filter_empty_conv)
  qed
  then have l: "l = length ?k" using cl by (simp add: ez)
  have m: "constant_time_key_matches (Some c) cand n \<longleftrightarrow> ?k \<noteq> [] \<and> d = 0 \<and> length ?k = n"
    using f l key(2) n length_bytes_eq [of "length ?k" n d] ez [of 0]
    by (simp add: constant_time_key_matches_def Let_def del: upt_rec_numeral)
  have "d = 0 \<longleftrightarrow> (\<forall>i<65. ?e i = ?r i)" using cl by auto
  moreover have "(\<forall>i<65. ?e i = ?r i) \<longleftrightarrow> take n cand = ?k" if ln: "length ?k = n"
  proof
    assume a: "\<forall>i<65. ?e i = ?r i"
    show "take n cand = ?k"
    proof (rule nth_equalityI)
      show "length (take n cand) = length ?k" using n(2) ln by simp
      fix i assume "i < length (take n cand)"
      then have "i < n" "i < 65" using n by auto
      then show "take n cand ! i = ?k ! i" using a ln by (auto simp: cs_at_def)
    qed
  next
    assume a: "take n cand = ?k"
    show "\<forall>i<65. ?e i = ?r i"
    proof (intro allI impI)
      fix i :: nat assume "i < 65"
      show "?e i = ?r i" using arg_cong [OF a, of "\<lambda>l. l ! i"] ln by (auto simp: cs_at_def)
    qed
  qed
  moreover have "take n cand = ?k \<Longrightarrow> length ?k = n" using n(2) by (metis length_take min_absorb2)
  ultimately show ?thesis using m by blast
qed

section \<open>The login line\<close>

definition key_edit :: "bytes \<Rightarrow> u8 \<Rightarrow> bytes" where
  "key_edit l b =
     (if b = 0x08 \<or> b = 0x7F then butlast l
      else if is_printable_ascii b \<and> length l < 64 then l @ [b] else l)"

definition typed_key :: "bytes \<Rightarrow> bytes" where
  "typed_key bs = foldl key_edit [] bs"

definition line_end_byte :: "u8 \<Rightarrow> bool" where
  "line_end_byte b \<longleftrightarrow> b = 0x0D \<or> b = 0x0A"

definition login_line :: "shell_session \<Rightarrow> bytes" where
  "login_line s = take (ss_authentication_key_length s) (ss_authentication_key s)"

definition login_ok :: "shell_session \<Rightarrow> bool" where
  "login_ok s \<longleftrightarrow> length (ss_authentication_key s) = 65 \<and> ss_authentication_key_length s \<le> 64 \<and> 0 \<notin> set (login_line s)"

definition key_set :: "bytes \<Rightarrow> ('n, 'k, 'f, 'g, 't, 'r, 'c) shell_environment \<Rightarrow> bool" where
  "key_set key env \<longleftrightarrow> 0 \<notin> set key \<and> length key \<le> 64 \<and>
     (case se_config env of None \<Rightarrow> key = [] | Some c \<Rightarrow> cfg_remote_key c = key)"

lemma login_matches:
  assumes "login_ok s" and "key_set key env"
  shows "constant_time_key_matches (se_config env) ((ss_authentication_key s)[ss_authentication_key_length s := 0])
      (ss_authentication_key_length s) \<longleftrightarrow> key \<noteq> [] \<and> login_line s = key"
proof (cases "se_config env")
  case None
  then show ?thesis using assms by (simp add: key_set_def constant_time_key_matches_def)
next
  case (Some c)
  let ?a = "(ss_authentication_key s)[ss_authentication_key_length s := 0]" and ?n = "ss_authentication_key_length s"
  have t: "take ?n ?a = login_line s" by (simp add: login_line_def)
  have "constant_time_key_matches (Some c) ?a ?n \<longleftrightarrow> cfg_remote_key c \<noteq> [] \<and> take ?n ?a = cfg_remote_key c"
    by (rule key_matches_iff) (use assms Some t in \<open>auto simp: key_set_def login_ok_def\<close>)
  then show ?thesis using Some t assms(2) by (simp add: key_set_def)
qed

text \<open>One byte of the login, on every branch.\<close>

lemma authentication_byte:
  assumes ok: "login_ok s" and key: "key_set key env" and nb: "\<not> ss_authenticated s"
    and r: "handle_authentication_byte b (s, env) = (keep, s', env')"
  shows "ss_active s' = ss_active s \<and> login_ok s' \<and>
    (if b = 0x0A \<and> ss_ignore_line_feed s
     then keep \<and> \<not> ss_authenticated s' \<and> login_line s' = login_line s \<and> \<not> ss_ignore_line_feed s' \<and>
       ss_authentication_attempts s' = ss_authentication_attempts s
     else if line_end_byte b
     then (if key \<noteq> [] \<and> login_line s = key then keep \<and> ss_authenticated s'
           else \<not> ss_authenticated s' \<and> login_line s' = [] \<and>
             ss_authentication_attempts s' = ss_authentication_attempts s + 1 \<and> (keep \<longleftrightarrow> ss_authentication_attempts s' < 3))
     else keep \<and> \<not> ss_authenticated s' \<and> login_line s' = key_edit (login_line s) b \<and> \<not> ss_ignore_line_feed s' \<and>
       ss_authentication_attempts s' = ss_authentication_attempts s)"
proof -
  let ?a = "ss_authentication_key s" and ?n = "ss_authentication_key_length s"
  have n: "length ?a = 65" "?n \<le> 64" "0 \<notin> set (login_line s)" using ok by (simp_all add: login_ok_def)
  consider (skipped) "b = 0x0A \<and> ss_ignore_line_feed s" | (enter) "\<not> (b = 0x0A \<and> ss_ignore_line_feed s)" "line_end_byte b"
    | (erase) "b = 0x08 \<or> b = 0x7F" | (other) "\<not> line_end_byte b" "b \<noteq> 0x08" "b \<noteq> 0x7F" by blast
  then show ?thesis
  proof cases
    case skipped
    then show ?thesis using r ok nb by (auto simp: handle_authentication_byte_def login_ok_def login_line_def)
  next
    case enter
    note m = login_matches [OF ok key]
    show ?thesis
    proof (cases "key \<noteq> [] \<and> login_line s = key")
      case True
      then show ?thesis using r enter m n
        by (auto simp: handle_authentication_byte_def Let_def line_end_byte_def login_ok_def login_line_def split: if_splits)
    next
      case False
      then show ?thesis using r enter m n nb
        by (auto simp: handle_authentication_byte_def Let_def line_end_byte_def login_ok_def login_line_def not_le split: if_splits)
    qed
  next
    case erase
    then have "keep \<and> s' = s\<lparr>ss_ignore_line_feed := False, ss_authentication_key_length := ?n - 1\<rparr>"
      using r by (auto simp: handle_authentication_byte_def Let_def)
    moreover have "take (?n - 1) ?a = butlast (login_line s)" using n by (simp add: login_line_def butlast_take)
    ultimately show ?thesis
      using erase n nb by (auto simp: line_end_byte_def key_edit_def login_ok_def login_line_def dest: in_set_butlastD)
  next
    case other
    show ?thesis
    proof (cases "is_printable_ascii b \<and> ?n < 64")
      case True
      then have "keep \<and> s' = s\<lparr>ss_ignore_line_feed := False, ss_authentication_key := ?a[?n := b], ss_authentication_key_length := ?n + 1\<rparr>"
        using r other by (auto simp: handle_authentication_byte_def Let_def line_end_byte_def)
      moreover have "take (?n + 1) (?a[?n := b]) = login_line s @ [b]" using n by (simp add: login_line_def take_Suc_conv_app_nth)
      moreover have "length (login_line s) = ?n" using n by (simp add: login_line_def)
      ultimately show ?thesis
        using True other n nb printable_nonzero [of b] by (auto simp: line_end_byte_def key_edit_def login_ok_def login_line_def)
    next
      case False
      moreover have "length (login_line s) = ?n" using n by (simp add: login_line_def)
      ultimately show ?thesis using r other n nb
        by (auto simp: handle_authentication_byte_def Let_def line_end_byte_def key_edit_def login_ok_def login_line_def split: if_splits)
    qed
  qed
qed

section \<open>Sessions over time\<close>

text \<open>
  The bytes a peer has typed since it connected. Between two calls of \<open>service_remote_shell\<close>
  everything around the session may change, except that the key stays the one that is set.
\<close>

definition environment_ok :: "bytes \<Rightarrow> ('n, 'k, 'f, 'g, 't, 'r, 'c) shell_environment \<Rightarrow> bool" where
  "environment_ok key env \<longleftrightarrow> key_set key env \<and>
     (\<forall>ipv4 i. se_ipv4 env = Some ipv4 \<and> se_remote_stream env = Some i \<longrightarrow> stack_ok ipv4 \<and> i < 4)"

definition input_byte :: "('n, 'k, 'f, 'g, 't, 'r, 'c) shell_environment \<Rightarrow> bytes" where
  "input_byte env =
     (case remote_stream env of
        None \<Rightarrow> []
      | Some s \<Rightarrow> if st_close_requested s \<or> \<not> arwill_tcp_stream_connected s then [] else take 1 (received s))"

text \<open>Commands do not touch the login of the session they run in.\<close>

definition same_login :: "shell_session \<Rightarrow> shell_session \<Rightarrow> bool" where
  "same_login s s' \<longleftrightarrow> ss_active s' = ss_active s \<and> ss_authenticated s' = ss_authenticated s \<and>
     ss_authentication_key s' = ss_authentication_key s"

definition commands_keep_login :: "'e shell_operations \<Rightarrow> bool" where
  "commands_keep_login ops \<longleftrightarrow> (\<forall>s env l. same_login s (fst (snd (snd (so_run_command ops s env l)))))"

inductive remote_run ::
    "('n, 'k, 'f, 'g, 't, 'r, 'c) shell_environment shell_operations \<Rightarrow> bytes \<Rightarrow> shell_session \<Rightarrow> bytes \<Rightarrow> bool"
  for ops :: "('n, 'k, 'f, 'g, 't, 'r, 'c) shell_environment shell_operations" and key :: bytes where
  idle: "\<not> ss_active s \<Longrightarrow> length (ss_authentication_key s) = 65 \<Longrightarrow> remote_run ops key s []"
| turn: "remote_run ops key s typed \<Longrightarrow> environment_ok key env \<Longrightarrow> service_remote_shell ops (s, env) = (s', env') \<Longrightarrow>
    remote_run ops key s' (if ss_active s' then (if ss_active s then typed else []) @ input_byte env else [])"

text \<open>What the peer must have typed to be admitted, and what it may have typed before.\<close>

definition key_typed :: "bytes \<Rightarrow> bytes \<Rightarrow> bool" where
  "key_typed key typed \<longleftrightarrow> key \<noteq> [] \<and>
     (\<exists>before line b after. typed = before @ line @ b # after \<and> line_end_byte b \<and> (\<forall>x\<in>set line. \<not> line_end_byte x) \<and>
        (before = [] \<or> line_end_byte (last before)) \<and> typed_key line = key)"

definition asking :: "shell_session \<Rightarrow> bytes \<Rightarrow> bool" where
  "asking s typed \<longleftrightarrow> login_ok s \<and> ss_authentication_attempts s < 3 \<and>
     (\<exists>before line. typed = before @ line \<and> (\<forall>x\<in>set line. \<not> line_end_byte x) \<and>
        (before = [] \<or> line_end_byte (last before)) \<and> login_line s = typed_key line \<and> (ss_ignore_line_feed s \<longrightarrow> line = []))"

definition login_invariant :: "bytes \<Rightarrow> shell_session \<Rightarrow> bytes \<Rightarrow> bool" where
  "login_invariant key s typed \<longleftrightarrow> length (ss_authentication_key s) = 65 \<and>
     (ss_active s \<longrightarrow> (if ss_authenticated s then key_typed key typed else asking s typed))"

lemma key_typed_more: "key_typed key typed \<Longrightarrow> key_typed key (typed @ rest)"
  unfolding key_typed_def by (metis append.assoc append_Cons)

lemma asking_byte:
  assumes a: "asking s typed" and key: "key_set key env" and nb: "\<not> ss_authenticated s"
    and r: "handle_authentication_byte b (s, env) = (keep, s', env')"
  shows "ss_active s' = ss_active s \<and> login_ok s' \<and>
    (keep \<longrightarrow> (if ss_authenticated s' then key_typed key (typed @ [b]) else asking s' (typed @ [b])))"
proof -
  have ok: "login_ok s" "ss_authentication_attempts s < 3" using a by (simp_all add: asking_def)
  obtain before line where t: "typed = before @ line" "\<forall>x\<in>set line. \<not> line_end_byte x"
      "before = [] \<or> line_end_byte (last before)" "login_line s = typed_key line" "ss_ignore_line_feed s \<longrightarrow> line = []"
    using a by (auto simp: asking_def)
  note ab = authentication_byte [OF ok(1) key nb r]
  consider (skipped) "b = 0x0A \<and> ss_ignore_line_feed s" | (enter) "\<not> (b = 0x0A \<and> ss_ignore_line_feed s)" "line_end_byte b"
    | (other) "\<not> line_end_byte b" by (auto simp: line_end_byte_def)
  then show ?thesis
  proof cases
    case skipped
    then have "asking s' (typed @ [b])"
      using ab t ok unfolding asking_def
      by (intro conjI exI [of _ "typed @ [b]"] exI [of _ "[]"]) (auto simp: line_end_byte_def typed_key_def)
    then show ?thesis using ab skipped by simp
  next
    case enter
    show ?thesis
    proof (cases "key \<noteq> [] \<and> login_line s = key")
      case True
      then have "key_typed key (typed @ [b])" using t enter unfolding key_typed_def by (metis append.assoc)
      then show ?thesis using ab enter True by auto
    next
      case False
      have "asking s' (typed @ [b])" if keep
        using ab enter False that unfolding asking_def
        by (intro conjI exI [of _ "typed @ [b]"] exI [of _ "[]"]) (auto simp: typed_key_def)
      then show ?thesis using ab enter False by auto
    qed
  next
    case other
    then have "b \<noteq> 0x0A" by (simp add: line_end_byte_def)
    then have f: "ss_active s' = ss_active s" "login_ok s'" "\<not> ss_authenticated s'" "login_line s' = key_edit (login_line s) b"
        "\<not> ss_ignore_line_feed s'" "ss_authentication_attempts s' = ss_authentication_attempts s"
      using ab other by simp_all
    have "login_line s' = typed_key (line @ [b])" using f(4) t(4) by (simp add: typed_key_def)
    moreover have "\<forall>x\<in>set (line @ [b]). \<not> line_end_byte x" using t(2) other by simp
    ultimately have "asking s' (typed @ [b])"
      unfolding asking_def using f t(1,3) ok(2) by (intro conjI exI [of _ before] exI [of _ "line @ [b]"]) simp_all
    then show ?thesis using f by simp
  qed
qed

section \<open>What the shell leaves alone\<close>

lemma same_login_refl [simp]: "same_login s s"
  by (simp add: same_login_def)

lemma same_login_trans: "same_login s s1 \<Longrightarrow> same_login s1 s' \<Longrightarrow> same_login s s'"
  by (simp add: same_login_def)

lemma edit_same_login:
  "same_login s (fst (snd (insert_char_into_line v (s, env))))"
  "same_login s (fst (erase_char_before_cursor (s, env)))"
  "same_login s (fst (replace_line t (s, env)))"
  by (simp_all add: same_login_def insert_char_into_line_def erase_char_before_cursor_def replace_line_def Let_def)

lemma history_same_login: "same_login s (fst (history_previous (s, env)))" "same_login s (fst (history_next (s, env)))"
  by (simp_all add: history_previous_def history_next_def replace_line_def Let_def same_login_def)

lemma escape_same_login: "same_login s (fst (escape_byte b (s, env)))"
  using history_same_login [of s env] by (auto simp: escape_byte_def same_login_def split: prod.splits)

lemma config_key_same_login: "same_login s (fst (config_key_byte b (s, env)))"
  by (simp add: config_key_byte_def Let_def same_login_def)

lemma finish_same_login: "same_login s (fst (snd (finish_line ops (t, c, s, env))))"
  by (simp add: finish_line_def Let_def same_login_def reset_shell_input_def split: prod.splits)

lemma enter_same_login:
  assumes "commands_keep_login ops"
  shows "same_login s (fst (snd (enter_line ops b (s, env))))"
proof -
  define s1 where "s1 = (let s1 = (if ss_remote s \<and> b = 0x0D then s\<lparr>ss_ignore_line_feed := True\<rparr> else s);
      s1 = s1\<lparr>ss_line := (ss_line s1)[ss_length s1 := 0]\<rparr>; h = history_add (ss_history s1) (ss_line s1)
      in s1\<lparr>ss_history := h, ss_history_position := hi_count h\<rparr>)"
  have s1: "same_login s s1" by (simp add: s1_def Let_def same_login_def)
  obtain tp cl s2 env2 where run: "so_run_command ops s1 (console_write_line (ss_remote s1) [] env) (c_string (ss_line s1)) = (tp, cl, s2, env2)"
    by (metis prod_cases4)
  have "same_login s1 s2" using assms run unfolding commands_keep_login_def by (metis fst_conv snd_conv)
  moreover have "enter_line ops b (s, env) =
      finish_line ops (so_run_command ops s1 (console_write_line (ss_remote s1) [] env) (c_string (ss_line s1)))"
    unfolding enter_line_def s1_def Let_def by (simp split del: if_split)
  ultimately show ?thesis
    using same_login_trans [OF same_login_trans [OF s1] finish_same_login] unfolding run by simp
qed

lemma ignore_same_login [simp]: "same_login s s' \<Longrightarrow> same_login s (s'\<lparr>ss_ignore_line_feed := b\<rparr>)"
  "same_login (s\<lparr>ss_ignore_line_feed := b\<rparr>) s' = same_login s s'"
  by (simp_all add: same_login_def)

lemma handle_byte_same_login:
  assumes "commands_keep_login ops"
  shows "same_login s (fst (snd (handle_shell_byte ops b (s, env))))"
proof (cases "at_prompt s \<and> \<not> (b = 0x0A \<and> ss_ignore_line_feed s) \<and> b \<noteq> 0x03")
  case False
  then consider "ss_config_key_pending s" | "\<not> ss_config_key_pending s" "ss_top_active s"
    | "\<not> ss_config_key_pending s" "\<not> ss_top_active s" "ss_foreground_pid s \<noteq> 0"
    | "at_prompt s" "b = 0x0A \<and> ss_ignore_line_feed s" | "at_prompt s" "\<not> (b = 0x0A \<and> ss_ignore_line_feed s)" "b = 0x03"
    unfolding at_prompt_def by blast
  then show ?thesis
  proof cases
    case 1
    then have "handle_shell_byte ops b (s, env) = (True, config_key_byte b (s, env))" by (simp add: handle_shell_byte_def)
    then show ?thesis using config_key_same_login [of s b env] by simp
  qed (simp_all add: handle_shell_byte_def at_prompt_def Let_def same_login_def reset_shell_input_def)
next
  case True
  let ?s = "s\<lparr>ss_ignore_line_feed := False\<rparr>"
  note e = enter_same_login [OF assms, of ?s b env] escape_same_login [of ?s b env] edit_same_login(2) [of ?s env]
  have i: "same_login s (fst (snd (insert_char_into_line v (?s\<lparr>ss_normalizer := nm, ss_history_position := q\<rparr>, env))))" for v nm q
    using edit_same_login(1) [of "?s\<lparr>ss_normalizer := nm, ss_history_position := q\<rparr>" v env] by (simp add: same_login_def)
  show ?thesis
    using True e i unfolding handle_byte_step [OF conjunct1 [OF True] conjunct1 [OF conjunct2 [OF True]] conjunct2 [OF conjunct2 [OF True]]] Let_def
    by (auto simp: same_login_def split: prod.splits option.splits)
qed

section \<open>Output and the clock leave the input alone\<close>

lemma stream_write_receive:
  assumes "stream_ok s"
  shows "stream_ok (snd (arwill_tcp_stream_write s (Some d) (length d)))"
    "same_receive s (snd (arwill_tcp_stream_write s (Some d) (length d)))"
proof -
  have "stream_ok (snd (arwill_tcp_stream_write s (Some d) (length d))) \<and>
      same_receive s (snd (arwill_tcp_stream_write s (Some d) (length d)))"
  proof (cases "arwill_tcp_stream_connected s \<and> length d + length (unsent s) \<le> 8192")
    case True
    then show ?thesis using stream_write_accepted [OF assms, of d] by (metis snd_conv)
  next
    case False
    then have "\<not> arwill_tcp_stream_connected s \<or> 8192 < length d + length (unsent s)" by auto
    then show ?thesis using stream_write_refused [OF assms, of d] by (metis snd_conv)
  qed
  then show "stream_ok (snd (arwill_tcp_stream_write s (Some d) (length d)))"
    "same_receive s (snd (arwill_tcp_stream_write s (Some d) (length d)))" by simp_all
qed

lemma same_receive_refl [simp]: "same_receive s s"
  by (simp add: same_receive_def)

lemma same_receive_trans: "same_receive s s1 \<Longrightarrow> same_receive s1 s' \<Longrightarrow> same_receive s s'"
  by (simp add: same_receive_def)

lemma flush_chunk_receive:
  "stream_ok (fst p) \<Longrightarrow> stream_ok (fst (flush_chunk p)) \<and> same_receive (fst p) (fst (flush_chunk p))"
  using stream_write_receive [of "fst p" "snd p"] by (cases p) (auto simp: flush_chunk_def)

lemma write_chunk_receive:
  assumes ok: "stream_ok (fst p)"
  shows "stream_ok (fst (write_chunk_byte p b)) \<and> same_receive (fst p) (fst (write_chunk_byte p b))"
proof -
  define q where "q = (if b = 0x0A then (fst (flush_chunk p), snd (flush_chunk p) @ [0x0D]) else p)"
  have q: "stream_ok (fst q) \<and> same_receive (fst p) (fst q)" using flush_chunk_receive [OF ok] ok by (simp add: q_def)
  have "write_chunk_byte p b = (fst (flush_chunk q), snd (flush_chunk q) @ [b])"
    by (simp add: write_chunk_byte_def q_def Let_def case_prod_beta)
  then show ?thesis using q flush_chunk_receive [of q] same_receive_trans by auto
qed

lemma remote_write_receive:
  assumes "stream_ok s"
  shows "stream_ok (remote_console_write s t) \<and> same_receive s (remote_console_write s t)"
proof -
  have "stream_ok (fst p) \<Longrightarrow> stream_ok (fst (foldl write_chunk_byte p bs)) \<and> same_receive (fst p) (fst (foldl write_chunk_byte p bs))" for p bs
  proof (induction bs arbitrary: p)
    case (Cons b bs)
    then show ?case using write_chunk_receive [OF Cons.prems, of b] Cons.IH [of "write_chunk_byte p b"] same_receive_trans by simp blast
  qed simp
  from this [of "(s, [])" "c_string t"] assms
  obtain s1 c where f: "foldl write_chunk_byte (s, []) (c_string t) = (s1, c)" "stream_ok s1" "same_receive s s1"
    by (cases "foldl write_chunk_byte (s, []) (c_string t)") auto
  then show ?thesis
    using stream_write_receive [OF f(2), of c] same_receive_trans [OF f(3)] by (simp add: remote_console_write_def)
qed

text \<open>Environments with the same key and the same stream, up to what waits to be sent.\<close>

definition same_input ::
    "('n, 'k, 'f, 'g, 't, 'r, 'c) shell_environment \<Rightarrow> ('n, 'k, 'f, 'g, 't, 'r, 'c) shell_environment \<Rightarrow> bool" where
  "same_input env env' \<longleftrightarrow> se_config env' = se_config env \<and>
     (\<forall>s. remote_stream env = Some s \<longrightarrow> stream_ok s \<longrightarrow>
        (\<exists>s'. remote_stream env' = Some s' \<and> stream_ok s' \<and> received s' = received s))"

lemma same_input_refl [simp]: "same_input env env"
  by (auto simp: same_input_def)

lemma same_input_trans: "same_input env env1 \<Longrightarrow> same_input env1 env' \<Longrightarrow> same_input env env'"
  unfolding same_input_def by (metis (no_types))

lemma same_input_log [simp]: "same_input env (record_remote_event a b c d env)"
  by (simp add: same_input_def record_remote_event_def remote_stream_def)

lemma remote_stream_clock [simp]: "remote_stream (env\<lparr>se_clock := k\<rparr>) = remote_stream env"
  by (simp add: remote_stream_def split: option.splits)

lemma same_input_clock: "read_clock_ms env = (now, env') \<Longrightarrow> same_input env env'"
  by (auto simp: same_input_def read_clock_ms_def split: prod.splits)

lemma remote_stream_update:
  assumes "remote_stream env = Some s" and "\<forall>ipv4 i. se_ipv4 env = Some ipv4 \<and> se_remote_stream env = Some i \<longrightarrow> i < length (ip_endpoints ipv4)"
  shows "remote_stream (update_remote_stream f env) = Some (f s)"
  using assms
  by (auto simp: remote_stream_def update_remote_stream_def endpoint_at_with_endpoint update_stream_def split: option.splits)

definition stream_in_table :: "('n, 'k, 'f, 'g, 't, 'r, 'c) shell_environment \<Rightarrow> bool" where
  "stream_in_table env \<longleftrightarrow> (\<forall>ipv4 i. se_ipv4 env = Some ipv4 \<and> se_remote_stream env = Some i \<longrightarrow> i < length (ip_endpoints ipv4))"

lemma same_input_write: "stream_in_table env \<Longrightarrow> same_input env (console_write True t env) \<and> stream_in_table (console_write True t env)"
proof -
  assume tb: "stream_in_table env"
  have e: "console_write True t env = update_remote_stream (\<lambda>s. remote_console_write s t) env"
    by (simp add: console_write_def update_remote_stream_def)
  have "se_config (update_remote_stream f env) = se_config env" "stream_in_table (update_remote_stream f env)" for f
    using tb by (auto simp: update_remote_stream_def stream_in_table_def split: option.splits)
  then show ?thesis unfolding e same_input_def
    using remote_stream_update [of env] remote_write_receive tb by (auto simp: stream_in_table_def same_receive_def)
qed

section \<open>One turn of the session\<close>

lemma cancel_session:
  "ss_active (fst (cancel_remote_program (s, env))) = ss_active s"
  "ss_authentication_key (fst (cancel_remote_program (s, env))) = ss_authentication_key s"
  by (simp_all add: cancel_remote_program_def)

lemma close_session:
  "\<not> ss_active (fst (close_remote_session (s, env)))"
  "ss_authentication_key (fst (close_remote_session (s, env))) = ss_authentication_key s"
  using cancel_session [of s env] by (simp_all add: close_remote_session_def Let_def case_prod_beta)

lemma lost_session:
  "\<not> ss_active (fst (remote_lost n (s, env)))"
  "ss_authentication_key (fst (remote_lost n (s, env))) = ss_authentication_key s"
  using cancel_session [of s env] by (simp_all add: remote_lost_def Let_def case_prod_beta)

lemma connected_session:
  assumes tb: "stream_in_table env" and r: "remote_connected n (s, env) = (s1, env1)"
    and len: "length (ss_authentication_key s) = 65"
  shows "same_input env env1 \<and> ss_active s1 \<and> length (ss_authentication_key s1) = 65 \<and>
    (if ss_active s then s1 = s \<and> env1 = env else \<not> ss_authenticated s1 \<and> asking s1 []) \<and> stream_in_table env1"
proof (cases "ss_active s")
  case True
  then show ?thesis using r tb len by (simp add: remote_connected_def)
next
  case False
  obtain now env0 where c: "read_clock_ms env = (now, env0)" by fastforce
  let ?s = "(initialize_shell_session s True)\<lparr>ss_authentication_started_milliseconds := now, ss_tcp_timeouts_at_connection := n\<rparr>"
  let ?e = "record_remote_event Log_info Log_network Log_tcp_connected (peer_port_of env0) env0"
  have s1: "s1 = ?s" and e1: "env1 = console_write True (bytes_of ''Access key: '') ?e"
    using r False c by (auto simp: remote_connected_def Let_def initialize_shell_session_def reset_shell_input_def)
  have "stream_in_table ?e"
    using tb c by (auto simp: stream_in_table_def record_remote_event_def read_clock_ms_def split: prod.splits)
  then have "same_input ?e env1 \<and> stream_in_table env1" unfolding e1 by (rule same_input_write)
  moreover have "same_input env ?e" using same_input_trans [OF same_input_clock [OF c] same_input_log] .
  moreover have "asking s1 []"
    unfolding s1 asking_def by (intro conjI exI [of _ "[]"])
      (simp_all add: initialize_shell_session_def reset_shell_input_def login_ok_def login_line_def typed_key_def len)
  ultimately show ?thesis
    using False same_input_trans len
    by (auto simp: s1 initialize_shell_session_def reset_shell_input_def)
qed

lemma byte_session:
  assumes ops: "commands_keep_login ops" and tb: "stream_in_table env"
    and st: "remote_stream env = Some st" "stream_ok st" and key: "key_set key env"
    and len: "length (ss_authentication_key s) = 65"
    and inv: "if ss_authenticated s then key_typed key typed else asking s typed"
    and r: "remote_byte ops (s, env) = (s', env')"
  shows "length (ss_authentication_key s') = 65 \<and>
    (ss_active s' \<longrightarrow> (if ss_authenticated s' then key_typed key (typed @ take 1 (received st))
       else asking s' (typed @ take 1 (received st))))"
proof -
  obtain st' where rd: "arwill_tcp_stream_read st (Some [0]) 1 =
      (min 1 (length (received st)), Some (splice_at [0] 0 (take 1 (received st))), st')"
    using Tcp_Stream.stream_read [OF st(2), of 1 "[0]"] by (metis One_nat_def length_Cons list.size(3) order_refl)
  let ?env = "update_remote_stream (\<lambda>_. st') env"
  have key': "key_set key ?env" using key by (auto simp: key_set_def update_remote_stream_def split: option.splits)
  show ?thesis
  proof (cases "received st")
    case Nil
    then have "(s', env') = (if arwill_tcp_stream_peer_closed st' then close_remote_session (s, ?env) else (s, ?env))"
      using r rd st by (simp add: remote_byte_def Let_def)
    then have "s' = s \<or> (\<not> ss_active s' \<and> ss_authentication_key s' = ss_authentication_key s)"
      using close_session [of s ?env] by (auto split: if_splits simp: prod_eq_iff)
    then show ?thesis using inv len Nil by auto
  next
    case (Cons b bs)
    have hb: "hd (the (Some (splice_at [0] 0 (take 1 (b # bs))))) = b" and m1: "min 1 (length (b # bs)) = 1"
      by (simp_all add: splice_at_def)
    obtain keep s2 env2 where h: "(if ss_authenticated s then handle_shell_byte ops b (s, ?env)
        else handle_authentication_byte b (s, ?env)) = (keep, s2, env2)" by (metis prod_cases3)
    have s': "(s', env') = (if keep then (s2, env2) else close_remote_session (s2, env2))"
      using r unfolding remote_byte_def prod.case st(1) option.case rd Cons Let_def hb m1 h by simp
    have two: "length (ss_authentication_key s2) = 65 \<and>
        (keep \<longrightarrow> (if ss_authenticated s2 then key_typed key (typed @ [b]) else asking s2 (typed @ [b])))"
    proof (cases "ss_authenticated s")
      case True
      then have "same_login s s2" using handle_byte_same_login [OF ops, of s b ?env] h by simp
      then show ?thesis using True inv len key_typed_more by (auto simp: same_login_def)
    next
      case False
      then have "handle_authentication_byte b (s, ?env) = (keep, s2, env2)" "asking s typed" using h inv by simp_all
      from asking_byte [OF this(2) key' False this(1)] show ?thesis by (auto simp: login_ok_def)
    qed
    show ?thesis
    proof (cases keep)
      case True
      then show ?thesis using two s' Cons by simp
    next
      case False
      then show ?thesis using two s' close_session [of s2 env2] by (simp add: prod_eq_iff)
    qed
  qed
qed

lemma turn_invariant:
  assumes ops: "commands_keep_login ops" and inv: "login_invariant key s typed" and env: "environment_ok key env"
    and r: "service_remote_shell ops (s, env) = (s', env')"
  shows "login_invariant key s' (if ss_active s' then (if ss_active s then typed else []) @ input_byte env else [])"
proof (cases "\<exists>ipv4 st. se_ipv4 env = Some ipv4 \<and> remote_stream env = Some st \<and> \<not> st_close_requested st")
  case False
  then have "s' = s" "input_byte env = []"
    using r by (auto simp: service_remote_shell_def input_byte_def remote_stream_def arwill_tcp_stream_close_requested_def
        split: option.splits)
  then show ?thesis using inv by (auto simp: login_invariant_def)
next
  case True
  then obtain ipv4 st where st: "se_ipv4 env = Some ipv4" "remote_stream env = Some st" "\<not> st_close_requested st" by blast
  obtain i where i: "se_remote_stream env = Some i" "st = ep_stream (endpoint_at ipv4 i)"
    using st by (auto simp: remote_stream_def split: option.splits)
  have ok: "stack_ok ipv4" "i < 4" "key_set key env" using env st i by (auto simp: environment_ok_def)
  have sok: "stream_ok st" using stack_ok_endpoint [OF ok(1,2)] i by (simp add: endpoint_ok_def)
  have tb: "stream_in_table env" using env st i by (auto simp: stream_in_table_def environment_ok_def stack_ok_def)
  have len: "length (ss_authentication_key s) = 65" using inv by (simp add: login_invariant_def)
  show ?thesis
  proof (cases "arwill_tcp_stream_connected st")
    case False
    then have "(s', env') = remote_lost (ip_tcp_timeouts ipv4) (s, env)"
      using r st by (simp add: service_remote_shell_def arwill_tcp_stream_close_requested_def)
    then show ?thesis using lost_session [of "ip_tcp_timeouts ipv4" s env] len by (simp add: login_invariant_def prod_eq_iff)
  next
    case con: True
    obtain s1 env1 where c: "remote_connected (ip_tcp_timeouts ipv4) (s, env) = (s1, env1)" by fastforce
    note cs = connected_session [OF tb c len]
    obtain ex env2 where x: "(if ss_authenticated s1 then (False, env1) else case read_clock_ms env1 of
        (now, env) \<Rightarrow> (now - ss_authentication_started_milliseconds s1 \<ge> 30000, env)) = (ex, env2)" by fastforce
    have e2: "same_input env1 env2" "stream_in_table env2"
      using x cs by (auto simp: stream_in_table_def read_clock_ms_def same_input_def split: prod.splits if_splits)
    obtain st2 where st2: "remote_stream env2 = Some st2" "stream_ok st2" "received st2 = received st"
      using same_input_trans [OF conjunct1 [OF cs] e2(1)] st(2) sok by (auto simp: same_input_def)
    have k2: "key_set key env2" using same_input_trans [OF conjunct1 [OF cs] e2(1)] ok(3) by (simp add: same_input_def key_set_def)
    have in1: "input_byte env = take 1 (received st2)" using st st2 con by (simp add: input_byte_def)
    define t0 where "t0 = (if ss_active s then typed else [])"
    have inv1: "if ss_authenticated s1 then key_typed key t0 else asking s1 t0"
      using cs inv by (auto simp: t0_def login_invariant_def)
    have s': "(s', env') = (if ex then close_remote_session (s1, record_remote_event Log_warning Log_network Log_tcp_timeout 30000 env2)
        else remote_byte ops (s1, env2))"
      using r st con c x by (simp add: service_remote_shell_def arwill_tcp_stream_close_requested_def Let_def)
    show ?thesis
    proof (cases ex)
      case True
      let ?e = "record_remote_event Log_warning Log_network Log_tcp_timeout 30000 env2"
      have "s' = fst (close_remote_session (s1, ?e))" using s' True by (simp add: prod_eq_iff)
      then show ?thesis using close_session [of s1 ?e] cs by (simp add: login_invariant_def)
    next
      case False
      then have "remote_byte ops (s1, env2) = (s', env')" using s' by simp
      from byte_session [OF ops e2(2) st2(1,2) k2 _ inv1 this] cs
      show ?thesis unfolding in1 t0_def [symmetric] by (auto simp: login_invariant_def)
    qed
  qed
qed

lemma remote_run_invariant: "remote_run ops key s typed \<Longrightarrow> commands_keep_login ops \<Longrightarrow> login_invariant key s typed"
proof (induction rule: remote_run.induct)
  case (idle s)
  then show ?case by (simp add: login_invariant_def)
next
  case (turn s typed env s' env')
  then show ?case using turn_invariant by blast
qed

section \<open>Properties\<close>

lemma remote_shell_independent:
  assumes "\<not> (ss_active s \<and> ss_authenticated s)"
  shows "service_remote_shell ops (s, env) = service_remote_shell ops' (s, env)"
proof -
  have "\<not> ss_authenticated (fst (remote_connected n (s, env)))" for n
    using assms by (auto simp: remote_connected_def initialize_shell_session_def reset_shell_input_def Let_def split: prod.splits)
  moreover have "remote_byte ops (u, e) = remote_byte ops' (u, e)" if "\<not> ss_authenticated u" for u e
    unfolding remote_byte_def prod.case if_not_P [OF that] ..
  ultimately have eq: "remote_byte ops (fst (remote_connected n (s, env)), e) = remote_byte ops' (fst (remote_connected n (s, env)), e)" for n e
    by blast
  show ?thesis unfolding service_remote_shell_def case_prod_beta Let_def fst_conv snd_conv eq ..
qed

text \<open>
  C10. Nobody reaches the shell over the network without the key. However the connections come and
  go, whatever arrives in whatever pieces and whatever the rest of the system does meanwhile: a remote
  session is admitted only if, since it connected, its peer typed a line that is the key that is set,
  after the erasures it typed and cut to sixty-four characters, and a key is set at all. Before that,
  nothing the peer sends reaches the commands, the completion or the display of the shell: the session
  behaves the same whatever they are; and it has made fewer than three wrong attempts.
\<close>

theorem remote_login_required:
  assumes "remote_run ops key s typed" and "commands_keep_login ops"
  shows "(ss_active s \<and> ss_authenticated s \<longrightarrow> key_typed key typed) \<and>
    (\<not> (ss_active s \<and> ss_authenticated s) \<longrightarrow>
      (\<forall>ops' env. service_remote_shell ops (s, env) = service_remote_shell ops' (s, env)) \<and>
      (ss_active s \<longrightarrow> ss_authentication_attempts s < 3))"
proof -
  have i: "login_invariant key s typed" using remote_run_invariant [OF assms] .
  then have "ss_active s \<and> ss_authenticated s \<longrightarrow> key_typed key typed"
    "\<not> (ss_active s \<and> ss_authenticated s) \<longrightarrow> ss_active s \<longrightarrow> ss_authentication_attempts s < 3"
    by (auto simp: login_invariant_def asking_def)
  then show ?thesis using remote_shell_independent [of s ops] by blast
qed

text \<open>A session before the first connection, and a connection that has sent nothing yet.\<close>

definition waiting_session :: shell_session where
  "waiting_session = blank_session\<lparr>ss_active := False, ss_remote := True, ss_authenticated := False\<rparr>"

definition idle_operations :: "'e shell_operations" where
  "idle_operations = \<lparr>so_run_command = \<lambda>s env l. (False, False, s, env), so_complete_line = \<lambda>s env. (ss_line s, ss_length s, env),
     so_render_top = \<lambda>s env. env\<rparr>"

definition connected_environment :: "(unit, unit, unit, unit, unit, unit, bytes) shell_environment" where
  "connected_environment = blank_environment\<lparr>se_ipv4 := Some connected_stack, se_remote_stream := Some 1,
     se_config := Some \<lparr>cfg_filesystem = None, cfg_version = 1, cfg_remote_enabled = True, cfg_remote_port = 23232,
       cfg_remote_key = [0x6B], cfg_log_level = Config_log_info, cfg_loaded_from_file = True, cfg_valid = True\<rparr>\<rparr>"

lemma connected_environment_ok: "environment_ok [0x6B] connected_environment" "input_byte connected_environment = []"
  using connected_stack_ok
  by (simp_all add: environment_ok_def key_set_def connected_environment_def blank_environment_def input_byte_def
      remote_stream_def connected_endpoint [simplified] busy_state)

theorem remote_login_required_witness:
  "\<forall>ops' (env :: (unit, unit, unit, unit, unit, unit, bytes) shell_environment).
     let s = fst (service_remote_shell idle_operations (waiting_session, connected_environment))
     in \<not> (ss_active s \<and> ss_authenticated s) \<and>
        service_remote_shell idle_operations (s, env) = service_remote_shell ops' (s, env)"
proof -
  let ?ops = "idle_operations :: (unit, unit, unit, unit, unit, unit, bytes) shell_environment shell_operations"
  let ?s = "fst (service_remote_shell ?ops (waiting_session, connected_environment))"
  have "remote_run ?ops [0x6B] waiting_session []"
    by (rule remote_run.idle) (simp_all add: waiting_session_def blank_session_def)
  from remote_run.turn [OF this connected_environment_ok(1) surjective_pairing]
  have r: "remote_run ?ops [0x6B] ?s []" unfolding connected_environment_ok(2) append_Nil2 if_cancel .
  have k: "commands_keep_login ?ops" by (simp add: commands_keep_login_def idle_operations_def)
  have "\<not> key_typed [0x6B] []" by (simp add: key_typed_def)
  then show ?thesis using remote_login_required [OF r k] unfolding Let_def by blast
qed

end
