(* ===== verification/Spec2Isabelle.thy ===== *)
theory Spec2Isabelle
  imports Arfs_Properties Boot_Catalog Config_Store Log Hal Tcp_Stream Ipv4_Properties Ipv4_Print Memory_Properties Realtime Process
    Awp_Properties Dns User_Properties Edit_Properties Http Libc Service Shell_Path User_Front Shell_Login
begin

text \<open>
  A verification library for Arwill, a small operating system for x86-64 (\<open>src/\<close>). The kernel
  (\<open>src/kernel\<close>) has a file system on a block device, a heap, a network stack, a shell on a serial line
  and over TCP, and cooperative system tasks; \<open>src/arch/x86_64/cpu/user_mode.c\<close> runs up to four programs
  in ring 3; \<open>src/libs\<close> and \<open>src/apps\<close> hold libraries and programs for ring 3. Drivers are tables of
  functions that the kernel calls through thin fronts.

  \<^bold>\<open>Conventions.\<close> \<open>Arwill_Prelude\<close> has the shared types and lemmas. A C struct is a record, an enum a
  datatype, \<open>uintN_t\<close> a word of that width; sizes and indices that the code keeps far below their type's
  limit are natural numbers, with the comparison written out where it matters. An array is a list that is
  updated by index, a C string the bytes up to its NUL. A function that changes an object through a pointer
  returns the object; a null pointer is \<open>None\<close>; a result code is a value of its own type or a bool. A
  pointer to a shared object (an endpoint of the stack, a task) is its index. Where code writes raw memory
  (page tables, the headers of heap blocks, \<open>libc\<close>) the memory is an explicit function from addresses.

  \<^bold>\<open>Storage.\<close> \<open>Text\<close> is \<open>kernel/text.c\<close>. \<open>Block_Device\<close> is \<open>kernel/block_device.c\<close>: the locale
  \<open>block_store\<close> states what a driver promises (\<open>reliable_block_store\<close>: and never fails), a region of a
  device is shown to keep the same promise by a sublocale, and the memory device of
  \<open>tests/block_device_test.c\<close> is an instance; a region never touches a sector outside its window.
  \<open>Filesystem\<close> is the front \<open>kernel/filesystem.c\<close>. \<open>Arfs_Manifest\<close> and \<open>Arfs\<close> model all of
  \<open>kernel/arfs.c\<close>. \<open>Arfs_Volume\<close> has the invariant of a mounted volume and its abstract view, a map from
  paths to directories and byte contents; \<open>Arfs_Refinement\<close> shows in the locale \<open>arfs_volume\<close> that every
  operation updates that map, \<open>Arfs_Remount\<close> that mounting again finds the same map, \<open>Arfs_Space\<close> that
  the allocator finds room whenever there is some; \<open>Arfs_Properties\<close> holds the statements, for any driver
  with the laws of the locale. \<open>Boot_Catalog\<close> is the built-in read-only file system. \<open>Config\<close> and
  \<open>Config_Store\<close> are \<open>kernel/config.c\<close>: parser, printer and the change of a setting, on a file system
  with the laws of the locale \<open>text_store\<close>, which ARFS has by a sublocale.

  \<^bold>\<open>Memory and time.\<close> \<open>Memory\<close> is \<open>kernel/memory.c\<close>; \<open>Memory_Heap\<close> relates the linked headers to a list
  of adjacent blocks, and \<open>Memory_Properties\<close> shows that pages handed out are distinct, and that
  \<open>arwill_kmalloc\<close> and \<open>arwill_kfree\<close> hand out and take back disjoint pieces. \<open>Realtime\<close> is
  \<open>kernel/realtime.c\<close> with its calendar, \<open>Hal\<close> the fronts of clock, console, input, entropy, network,
  interrupts and PCI, \<open>Log\<close> the ring of events, \<open>Process\<close> the cooperative processes of
  \<open>kernel/process.c\<close>.

  \<^bold>\<open>Network.\<close> \<open>Ring_Buffer\<close> states the ring buffers as the locales \<open>bounded_queue\<close> and \<open>bounded_fifo\<close>,
  interpreted for the receive and transmit rings. \<open>Tcp\<close> is \<open>kernel/tcp.c\<close>, \<open>Tcp_Machine\<close> the state
  machine as a step relation with its invariant, \<open>Tcp_Stream\<close> is \<open>kernel/tcp_stream.c\<close>. \<open>Packet\<close>,
  \<open>Ipv4\<close>, \<open>Ipv4_Send\<close>, \<open>Ipv4_Poll\<close> and \<open>Ipv4_Print\<close> model \<open>kernel/ipv4.c\<close>: byte helpers and checksums,
  the endpoint tables, the frames that are sent, and one turn of the poll. \<open>Ipv4_Invariant\<close>,
  \<open>Ipv4_Preserve\<close> and \<open>Ipv4_Safety\<close> have the invariant of the stack and the steps that keep it whatever
  frames arrive; \<open>Ipv4_Delivery\<close> that a program reads a prefix of what its peer sent; \<open>Ipv4_Transmit\<close>
  that no byte is lost or doubled between a program and the segments; \<open>Ipv4_Frames\<close> that a frame the stack
  builds is one it accepts with the same fields; \<open>Ipv4_Properties\<close> the statements. \<open>Awp_Network\<close> is
  \<open>kernel/awp_network.c\<close>, and \<open>Awp_Ownership\<close> and \<open>Awp_Properties\<close> show with the locale
  \<open>resource_owners\<close> that no two programs share an endpoint. \<open>Dns\<close>, \<open>Http\<close> and \<open>Libc\<close> are
  \<open>src/libs/libnet/dns.c\<close>, \<open>src/libs/libhttp/http.c\<close> and \<open>src/libs/libc/memory.c\<close>.

  \<^bold>\<open>Programs.\<close> \<open>Address_Space\<close>, \<open>User_Mode\<close> and \<open>User_Syscall\<close> model \<open>user_mode.c\<close>: page tables in
  physical memory, read by the page walk of the processor as the specification of what a program sees; the
  task table; every system call; timer, faults and scheduler. \<open>Address_Isolation\<close>, \<open>User_Isolation\<close>,
  \<open>User_Calls\<close>, \<open>User_Start\<close>, \<open>User_Load\<close>, \<open>User_Machine\<close>, \<open>User_Boot\<close> and \<open>User_Pages\<close> build the invariant of
  every state the machine reaches when programs do what they like with their registers and their own
  memory; \<open>User_Properties\<close> states isolation, the confinement of calls, loading, the order of input and
  round robin; \<open>User_Sample\<close> is a small machine on which they are applied. \<open>User_Front\<close> is
  \<open>kernel/user.c\<close>. \<open>Decimal\<close>, \<open>Edit\<close> and \<open>Edit_Properties\<close> are the editor \<open>src/apps/edit/edit.c\<close>, whose
  keys act on the text before and after the cursor and which leaves with unsaved changes only after it
  said so.

  \<^bold>\<open>Shell and services.\<close> \<open>Service\<close> is \<open>kernel/service.c\<close>, the life of the remote console. \<open>Shell_Path\<close>,
  \<open>Shell_Session\<close> and \<open>Shell_Login\<close> model the parts of \<open>kernel/shell.c\<close> that decide: how a line is split
  and a path resolved, how a typed byte changes the line and the history, and how a remote session connects,
  asks for its key, times out and ends. \<open>Shifts\<close> has the array lemmas of the two line editors;
  \<open>Shell_Line\<close> shows the line editor against its specification, \<open>Shell_Login\<close> that nobody reaches the
  shell over the network without the key.

  \<^bold>\<open>Parameters.\<close> Code behind a table of functions is an argument: the drivers of disk, network, console,
  input, clock, entropy, real-time clock and interrupts, each a function on a state of its own that may do
  anything unless a law is named; waiting for a tick; the code of a cooperative process; the resumption of
  a program in ring 3; the file system below the system calls; the system calls below a program. In the
  shell session, running a command, completing a line and drawing the process display are arguments; the
  login property assumes of them only \<open>commands_keep_login\<close>, that a command leaves the login state of its
  session alone.

  \<^bold>\<open>Loops.\<close> Most loops are structural or have a termination proof. The loop that sends queued data has
  fuel 4, the number of segments that may be unacknowledged; \<open>tcp_flush_terminates\<close> shows that it never
  runs out. The loops along the heap's list and the one that runs a process are partial functions, and the
  properties show that they return. The loop that runs programs until they are all stable, the loop of the
  editor and \<open>strlen\<close> may run forever and are then \<open>None\<close>.

  \<^bold>\<open>Not modelled.\<close> The commands of the shell and their print-outs, the kernel's start, the device
  list and tick counters for display; boot code, descriptor tables, interrupt entry, assembly and the hardware
  drivers, which are port and memory-mapped input and output; the programs other than the editor; the TLS
  wrapper and the vendored BearSSL. Time enters as what the clock returns, so delays themselves are not
  modelled; interrupts are, as the steps between which the kernel runs without interruption.
\<close>

end
